(* ===== verification/Prelude.thy ===== *)
theory Prelude
  imports Complex_Main "HOL-Library.Product_Lexorder" "HOL-Library.Multiset"
begin

text \<open>
  Shared vocabulary of the development: tables as lists of row records, the
  SQL statements the services issue against them (\<open>UPDATE \<dots> WHERE\<close>,
  \<open>SUM \<dots> WHERE\<close>, \<open>fetchone\<close>), the greedy walk every stock loop of the code
  is an instance of, and JSON values for audit details and event payloads.
\<close>

named_theorems table_simps \<open>rewriting of table statements\<close>

section \<open>Tables\<close>

text \<open>\<open>UPDATE t SET f WHERE P\<close>: every row that satisfies \<open>P\<close> is rewritten.\<close>

definition upd :: "('r \<Rightarrow> bool) \<Rightarrow> ('r \<Rightarrow> 'r) \<Rightarrow> 'r list \<Rightarrow> 'r list" where
  "upd P f t = map (\<lambda>r. if P r then f r else r) t"

text \<open>\<open>SELECT COALESCE(SUM(g), 0) FROM t WHERE P\<close>.\<close>

definition total :: "('r \<Rightarrow> bool) \<Rightarrow> ('r \<Rightarrow> int) \<Rightarrow> 'r list \<Rightarrow> int" where
  "total P g t = sum_list (map g (filter P t))"

text \<open>\<open>ORDER BY k ASC NULLS LAST\<close> on a nullable column.\<close>

definition nulls_last :: "int option \<Rightarrow> int \<times> int" where
  "nulls_last x = (case x of None \<Rightarrow> (1, 0) | Some v \<Rightarrow> (0, v))"

text \<open>\<open>dict.setdefault(k, []).append(v)\<close> on an insertion-ordered dict.\<close>

fun add_entry :: "'k \<Rightarrow> 'v \<Rightarrow> ('k \<times> 'v list) list \<Rightarrow> ('k \<times> 'v list) list" where
  "add_entry k v [] = [(k, [v])]"
| "add_entry k v ((k', vs) # m) =
     (if k = k' then (k', vs @ [v]) # m else (k', vs) # add_entry k v m)"

lemma length_upd [simp, table_simps]: "length (upd P f t) = length t"
  by (simp add: upd_def)

lemma upd_Nil [simp]: "upd P f [] = []"
  by (simp add: upd_def)

lemma upd_Cons [simp]: "upd P f (r # t) = (if P r then f r else r) # upd P f t"
  by (simp add: upd_def)

lemma upd_append [simp]: "upd P f (s @ t) = upd P f s @ upd P f t"
  by (simp add: upd_def)

lemma set_upd: "set (upd P f t) = (\<lambda>r. if P r then f r else r) ` set t"
  by (simp add: upd_def)

lemma upd_id: "(\<And>r. r \<in> set t \<Longrightarrow> \<not> P r) \<Longrightarrow> upd P f t = t"
  by (simp add: upd_def map_idI)

text \<open>A column the statement does not write is unchanged.\<close>

lemma map_upd_same: "(\<And>r. P r \<Longrightarrow> g (f r) = g r) \<Longrightarrow> map g (upd P f t) = map g t"
  by (auto simp: upd_def)

lemma total_Nil [simp]: "total P g [] = 0"
  by (simp add: total_def)

lemma total_Cons [simp]: "total P g (r # t) = (if P r then g r else 0) + total P g t"
  by (simp add: total_def)

lemma total_append [simp]: "total P g (s @ t) = total P g s + total P g t"
  by (simp add: total_def)

lemma total_nonneg: "(\<And>r. r \<in> set t \<Longrightarrow> P r \<Longrightarrow> 0 \<le> g r) \<Longrightarrow> 0 \<le> total P g t"
  unfolding total_def by (rule sum_list_nonneg) auto

lemma total_cong:
  "(\<And>r. r \<in> set t \<Longrightarrow> P r = Q r) \<Longrightarrow> (\<And>r. r \<in> set t \<Longrightarrow> P r \<Longrightarrow> g r = h r)
    \<Longrightarrow> total P g t = total Q h t"
  by (induction t) auto

lemma total_none: "(\<And>r. r \<in> set t \<Longrightarrow> \<not> P r) \<Longrightarrow> total P g t = 0"
  by (induction t) auto

lemma total_ge_member:
  assumes "r \<in> set t" "P r" "\<And>x. x \<in> set t \<Longrightarrow> P x \<Longrightarrow> 0 \<le> g x"
  shows "g r \<le> total P g t"
  using assms
proof (induction t)
  case Nil
  then show ?case by simp
next
  case (Cons x t)
  have "0 \<le> total P g t"
    by (rule total_nonneg) (simp add: Cons.prems)
  moreover have "r \<in> set t \<Longrightarrow> g r \<le> total P g t"
    using Cons by auto
  moreover have "P x \<Longrightarrow> 0 \<le> g x"
    using Cons.prems(3) [of x] by simp
  ultimately show ?case
    using Cons.prems(1,2) by (cases "r = x") (auto simp: add_increasing)
qed

text \<open>An update by primary key changes exactly one row, so a sum moves by its change.\<close>

lemma total_upd_key:
  assumes "distinct (map k t)" "r \<in> set t"
    and "\<And>x. k x = k r \<Longrightarrow> P (f x) = P x"
  shows "total P g (upd (\<lambda>x. k x = k r) f t) = total P g t + (if P r then g (f r) - g r else 0)"
  using assms
proof (induction t)
  case Nil
  then show ?case by simp
next
  case (Cons x t)
  show ?case
  proof (cases "x = r")
    case True
    have "k y \<noteq> k r" if "y \<in> set t" for y
      using Cons.prems(1) True that by (auto simp: rev_image_eqI)
    then have "upd (\<lambda>x. k x = k r) f t = t"
      by (rule upd_id)
    with True Cons.prems(3) [of r] show ?thesis by auto
  next
    case False
    with Cons.prems have "k x \<noteq> k r" by force
    with False Cons show ?thesis by auto
  qed
qed

lemma total_at_key:
  assumes "distinct (map k t)" "r \<in> set t"
  shows "total (\<lambda>x. k x = k r) g t = g r"
  using assms
proof (induction t)
  case Nil
  then show ?case by simp
next
  case (Cons x t)
  show ?case
  proof (cases "x = r")
    case True
    with Cons.prems have "total (\<lambda>x. k x = k r) g t = 0"
      by (intro total_none) (auto simp: rev_image_eqI)
    with True show ?thesis by simp
  next
    case False
    with Cons show ?thesis by (auto simp: rev_image_eqI)
  qed
qed

lemma total_upd_other:
  assumes "\<And>x. x \<in> set t \<Longrightarrow> Q x \<Longrightarrow> P (f x) = P x"
    and "\<And>x. x \<in> set t \<Longrightarrow> Q x \<Longrightarrow> P x \<Longrightarrow> g (f x) = g x"
  shows "total P g (upd Q f t) = total P g t"
  using assms by (induction t) auto

lemma in_upd_other: "r \<in> set t \<Longrightarrow> \<not> P r \<Longrightarrow> r \<in> set (upd P f t)"
  by (force simp: set_upd)

lemma total_filter: "total P g (filter Q t) = total (\<lambda>r. Q r \<and> P r) g t"
  by (induction t) auto

lemma total_split: "total P g t = total (\<lambda>r. P r \<and> Q r) g t + total (\<lambda>r. P r \<and> \<not> Q r) g t"
  by (induction t) auto

lemma sum_list_sort_key: "sum_list (map g (sort_key k t)) = sum_list (map (g :: 'r \<Rightarrow> int) t)"
  by (metis mset_map mset_sort sum_mset_sum_list)

lemma find_total:
  assumes "distinct (map k t)" "\<And>x y. x \<in> set t \<Longrightarrow> y \<in> set t \<Longrightarrow> P x \<Longrightarrow> P y \<Longrightarrow> k x = k y"
  shows "total P g t = (case List.find P t of None \<Rightarrow> 0 | Some r \<Rightarrow> g r)"
  using assms
proof (induction t)
  case Nil
  then show ?case by simp
next
  case (Cons x t)
  show ?case
  proof (cases "P x")
    case True
    have "\<not> P y" if "y \<in> set t" for y
      using Cons.prems(1) Cons.prems(2) [of x y] True that by (auto simp: rev_image_eqI)
    then have "total P g t = 0"
      by (rule total_none)
    with True show ?thesis by simp
  next
    case False
    with Cons show ?thesis by simp
  qed
qed

lemma find_Some_iff_first:
  "List.find P xs = Some x \<Longrightarrow> x \<in> set xs \<and> P x"
  by (induction xs) (auto split: if_splits)

lemma find_None: "List.find P xs = None \<longleftrightarrow> (\<forall>x \<in> set xs. \<not> P x)"
  by (induction xs) auto

lemma find_append: "List.find P (xs @ ys) = (case List.find P xs of None \<Rightarrow> List.find P ys | Some x \<Rightarrow> Some x)"
  by (induction xs) auto

lemma find_upd:
  "(\<And>x. P (f x) = P x) \<Longrightarrow> List.find P (upd Q f t) = map_option (\<lambda>x. if Q x then f x else x) (List.find P t)"
  by (induction t) auto

lemma find_key:
  assumes "distinct (map k xs)" "x \<in> set xs"
  shows "List.find (\<lambda>y. k y = k x) xs = Some x"
  using assms by (induction xs) auto

lemma key_inj:
  "distinct (map k xs) \<Longrightarrow> x \<in> set xs \<Longrightarrow> y \<in> set xs \<Longrightarrow> k x = k y \<Longrightarrow> x = y"
  by (induction xs) (auto simp: rev_image_eqI)

section \<open>The greedy walk\<close>

text \<open>
  Allocation, release of reservations, the unreceive walk and the wave breakdown
  all visit rows in order and take \<open>min(remaining, available)\<close> from each until
  nothing remains. \<open>takes rem as\<close> lists what is taken from availabilities \<open>as\<close>.
\<close>

fun takes :: "int \<Rightarrow> int list \<Rightarrow> int list" where
  "takes rem [] = []"
| "takes rem (a # as) =
     (if rem \<le> 0 then [] else min rem a # takes (rem - min rem a) as)"

lemma takes_sum:
  "\<lbrakk> 0 \<le> rem; \<And>a. a \<in> set as \<Longrightarrow> 0 \<le> a \<rbrakk> \<Longrightarrow> sum_list (takes rem as) = min rem (sum_list as)"
proof (induction rem as rule: takes.induct)
  case (1 rem)
  then show ?case by simp
next
  case (2 rem a as)
  have "0 \<le> sum_list as"
    using "2.prems" by (intro sum_list_nonneg) auto
  with "2.prems" "2.IH" show ?case by (auto simp: min_def)
qed

lemma takes_le: "length (takes rem as) \<le> length as"
  by (induction rem as rule: takes.induct) auto

lemma takes_nonneg: "(\<And>a. a \<in> set as \<Longrightarrow> 0 \<le> a) \<Longrightarrow> t \<in> set (takes rem as) \<Longrightarrow> 0 \<le> t"
  by (induction rem as rule: takes.induct) (auto split: if_splits)

lemma takes_bounded: "i < length (takes rem as) \<Longrightarrow> takes rem as ! i \<le> as ! i"
proof (induction rem as arbitrary: i rule: takes.induct)
  case (1 rem)
  then show ?case by simp
next
  case (2 rem a as)
  then show ?case by (cases i) (auto split: if_splits)
qed

text \<open>
  The interface of such a loop: what one row offers, what taking from it does to
  the state, and the three equations of the loop. The lemmas say what is left
  over and how any additive measure of the state moves.
\<close>

locale greedy_loop =
  fixes avail :: "'r \<Rightarrow> int"
    and take_from :: "'r \<Rightarrow> int \<Rightarrow> 's \<Rightarrow> 's"
    and loop :: "int \<Rightarrow> 'r list \<Rightarrow> 's \<Rightarrow> int \<times> 's"
  assumes loop_Nil: "loop rem [] s = (rem, s)"
    and loop_stop: "rem \<le> 0 \<Longrightarrow> loop rem (r # rs) s = (rem, s)"
    and loop_take: "0 < rem \<Longrightarrow> 0 < avail r \<Longrightarrow>
      loop rem (r # rs) s = loop (rem - min rem (avail r)) rs (take_from r (min rem (avail r)) s)"
begin

lemma loop_done: "rem \<le> 0 \<Longrightarrow> loop rem rs s = (rem, s)"
  by (cases rs) (auto simp: loop_Nil loop_stop)

lemma left_over:
  assumes "0 \<le> rem" "\<And>r. r \<in> set rs \<Longrightarrow> 0 < avail r"
  shows "fst (loop rem rs s) = max 0 (rem - sum_list (map avail rs))"
  using assms
proof (induction rs arbitrary: rem s)
  case Nil
  then show ?case by (simp add: loop_Nil)
next
  case (Cons r rs)
  have ge: "0 \<le> sum_list (map avail rs)"
    using Cons.prems by (intro sum_list_nonneg) (auto intro: less_imp_le)
  have pos: "0 < avail r"
    using Cons.prems by simp
  show ?case
  proof (cases "rem = 0")
    case True
    then show ?thesis using ge pos by (simp add: loop_done)
  next
    case False
    with Cons show ?thesis using ge by (auto simp: loop_take min_def loop_done)
  qed
qed

lemma loop_takes:
  assumes "\<And>r. r \<in> set rs \<Longrightarrow> 0 < avail r"
  shows "loop rem rs s =
    (rem - sum_list (takes rem (map avail rs)),
     fold (\<lambda>(r, t) s. take_from r t s) (zip rs (takes rem (map avail rs))) s)"
  using assms
proof (induction rs arbitrary: rem s)
  case Nil
  then show ?case by (simp add: loop_Nil)
next
  case (Cons r rs)
  then show ?case by (cases "rem \<le> 0") (auto simp: loop_done loop_take)
qed

text \<open>A measure that every step raises by what it takes is raised by the whole demand
  when the rows cover it.\<close>

lemma measure_gain:
  assumes "0 \<le> rem" "\<And>r. r \<in> set rs \<Longrightarrow> 0 < avail r"
    and "\<And>r t s. r \<in> set rs \<Longrightarrow> m (take_from r t s) = m s + c * t"
  shows "m (snd (loop rem rs s)) = m s + c * min rem (sum_list (map avail rs))"
  using assms
proof (induction rs arbitrary: rem s)
  case Nil
  then show ?case by (simp add: loop_Nil)
next
  case (Cons r rs)
  have ge: "0 \<le> sum_list (map avail rs)"
    using Cons.prems by (intro sum_list_nonneg) (auto intro: less_imp_le)
  have pos: "0 < avail r"
    using Cons.prems by simp
  show ?case
  proof (cases "rem = 0")
    case True
    then show ?thesis using ge pos by (simp add: loop_done)
  next
    case False
    with Cons ge show ?thesis
      by (auto simp: loop_take min_def loop_done algebra_simps)
  qed
qed

lemma loop_invariant:
  assumes "I s" "\<And>r t s. r \<in> set rs \<Longrightarrow> I s \<Longrightarrow> 0 < t \<Longrightarrow> t \<le> avail r \<Longrightarrow> I (take_from r t s)"
    and "\<And>r. r \<in> set rs \<Longrightarrow> 0 < avail r"
  shows "I (snd (loop rem rs s))"
  using assms
proof (induction rs arbitrary: rem s)
  case Nil
  then show ?case by (simp add: loop_Nil)
next
  case (Cons r rs)
  then show ?case by (cases "rem \<le> 0") (auto simp: loop_done loop_take)
qed

end

text \<open>
  A walk whose rows come from a table of the state and whose step rewrites, by
  primary key, the row it visits. As every row is visited at most once, what holds
  of single rows and of sums over the table follows row by row.
\<close>

locale table_loop = greedy_loop avail take_from loop
  for avail :: "'r \<Rightarrow> int" and take_from :: "'r \<Rightarrow> int \<Rightarrow> 's \<Rightarrow> 's"
    and loop :: "int \<Rightarrow> 'r list \<Rightarrow> 's \<Rightarrow> int \<times> 's" +
  fixes rows :: "'s \<Rightarrow> 'r list"
    and key :: "'r \<Rightarrow> 'k"
    and change :: "int \<Rightarrow> 's \<Rightarrow> 'r \<Rightarrow> 'r"
  assumes rows_take: "rows (take_from r t s) = upd (\<lambda>x. key x = key r) (change t s) (rows s)"
    and key_change: "key (change t s x) = key x"
begin

lemma take_ready:
  assumes "distinct (map key (rows s))" "set (r # rs) \<subseteq> set (rows s)" "distinct (map key (r # rs))"
  shows "distinct (map key (rows (take_from r t s)))" "set rs \<subseteq> set (rows (take_from r t s))"
    "distinct (map key rs)"
proof -
  have ne: "key x \<noteq> key r" if "x \<in> set rs" for x
    using assms(3) that by (auto simp: rev_image_eqI)
  show "set rs \<subseteq> set (rows (take_from r t s))"
    unfolding rows_take using assms(2) ne in_upd_other [of _ "rows s"] by auto
qed (use assms in \<open>simp_all add: rows_take map_upd_same key_change\<close>)

lemma rows_all:
  assumes "distinct (map key (rows s))" "set rs \<subseteq> set (rows s)" "distinct (map key rs)"
    and "\<And>r. r \<in> set rs \<Longrightarrow> 0 < avail r" "\<And>x. x \<in> set (rows s) \<Longrightarrow> J x"
    and "\<And>r t s. r \<in> set rs \<Longrightarrow> J r \<Longrightarrow> 0 < t \<Longrightarrow> t \<le> avail r \<Longrightarrow> J (change t s r)"
  shows "x \<in> set (rows (snd (loop rem rs s))) \<Longrightarrow> J x"
  using assms
proof (induction rs arbitrary: rem s)
  case Nil
  then show ?case by (simp add: loop_Nil)
next
  case (Cons r rs)
  show ?case
  proof (cases "rem \<le> 0")
    case True
    with Cons.prems show ?thesis by (simp add: loop_done)
  next
    case False
    let ?t = "min rem (avail r)" and ?s = "take_from r (min rem (avail r)) s"
    have pos: "0 < ?t" using False Cons.prems(5) by simp
    have "J y" if "y \<in> set (rows ?s)" for y
    proof -
      from that obtain z where z: "z \<in> set (rows s)" "y = (if key z = key r then change ?t s z else z)"
        unfolding rows_take set_upd by blast
      have "z = r" if "key z = key r"
        using key_inj [OF Cons.prems(2) z(1)] Cons.prems(3) that by simp
      with z Cons.prems(6,7) pos show ?thesis by auto
    qed
    with Cons.IH [OF _ take_ready [OF Cons.prems(2-4)]] Cons.prems(1,5,7) False show ?thesis
      by (simp add: loop_take)
  qed
qed

lemma columns_kept:
  assumes "\<And>t s x. h (change t s x) = h x" "\<And>r. r \<in> set rs \<Longrightarrow> 0 < avail r"
  shows "map h (rows (snd (loop rem rs s))) = map h (rows s)"
  using assms(2)
proof (induction rs arbitrary: rem s)
  case Nil
  then show ?case by (simp add: loop_Nil)
next
  case (Cons r rs)
  then show ?case
    by (cases "rem \<le> 0") (simp_all add: loop_done loop_take rows_take map_upd_same assms(1))
qed

lemma total_gain:
  assumes "distinct (map key (rows s))" "set rs \<subseteq> set (rows s)" "distinct (map key rs)"
    and "\<And>r. r \<in> set rs \<Longrightarrow> 0 < avail r" "0 \<le> rem"
    and "\<And>t s x. P (change t s x) = P x" "\<And>t s x. g (change t s x) = g x + c * t"
    and "\<And>r. r \<in> set rs \<Longrightarrow> P r = b"
  shows "total P g (rows (snd (loop rem rs s))) = total P g (rows s)
    + (if b then c * min rem (sum_list (map avail rs)) else 0)"
  using assms(1-5,8)
proof (induction rs arbitrary: rem s)
  case Nil
  then show ?case by (simp add: loop_Nil)
next
  case (Cons r rs)
  have ge: "0 \<le> sum_list (map avail rs)"
    using Cons.prems(4) by (intro sum_list_nonneg) (auto intro: less_imp_le)
  show ?case
  proof (cases "rem \<le> 0")
    case True
    moreover have "0 < avail r" using Cons.prems(4) by simp
    ultimately show ?thesis using Cons.prems(5) ge by (simp add: loop_done min_def)
  next
    case False
    let ?t = "min rem (avail r)" and ?s = "take_from r (min rem (avail r)) s"
    have "total P g (rows ?s) = total P g (rows s) + (if P r then c * ?t else 0)"
      unfolding rows_take
      using total_upd_key [OF Cons.prems(1), of r P "change ?t s" g] Cons.prems(2)
      by (simp add: assms(6,7))
    moreover have "total P g (rows (snd (loop (rem - ?t) rs ?s))) = total P g (rows ?s)
        + (if b then c * min (rem - ?t) (sum_list (map avail rs)) else 0)"
      by (rule Cons.IH [OF take_ready [OF Cons.prems(1-3)]]) (use Cons.prems(4,6) False in auto)
    ultimately show ?thesis
      using False Cons.prems(4,6) ge by (auto simp: loop_take min_def algebra_simps)
  qed
qed

end

section \<open>Invariants of step relations\<close>

text \<open>
  What an invariant promises to whoever runs the operations: one preserved step is
  enough for any history.
\<close>

locale step_invariant =
  fixes step :: "'s \<Rightarrow> 's \<Rightarrow> bool"
    and inv :: "'s \<Rightarrow> bool"
  assumes preserved: "inv s \<Longrightarrow> step s t \<Longrightarrow> inv t"
begin

lemma reachable: "step\<^sup>*\<^sup>* s t \<Longrightarrow> inv s \<Longrightarrow> inv t"
  by (induction rule: rtranclp_induct) (auto intro: preserved)

lemma measure_monotone:
  fixes m :: "'s \<Rightarrow> 'm::order"
  assumes "\<And>s t. inv s \<Longrightarrow> step s t \<Longrightarrow> m s \<le> m t"
  shows "step\<^sup>*\<^sup>* s t \<Longrightarrow> inv s \<Longrightarrow> m s \<le> m t"
proof (induction rule: rtranclp_induct)
  case base
  then show ?case by simp
next
  case (step t u)
  with reachable assms show ?case by (blast intro: order_trans)
qed

end

section \<open>Numbers as text\<close>

text \<open>\<open>str\<close> of a number.\<close>

fun decimal :: "nat \<Rightarrow> string" where
  "decimal n = (if n < 10 then [char_of (48 + n)] else decimal (n div 10) @ [char_of (48 + n mod 10)])"

declare decimal.simps [simp del]

definition signed_decimal :: "int \<Rightarrow> string" where
  "signed_decimal i = (if i < 0 then ''-'' @ decimal (nat (- i)) else decimal (nat i))"

section \<open>JSON values\<close>

text \<open>
  Audit details and event payloads. \<open>JTime t\<close> stands for the ISO-8601 text of
  instant \<open>t\<close>, \<open>JNum\<close> for a JSON number with a fractional part.
\<close>

datatype json =
  JNull | JBool bool | JInt int | JNum rat | JStr string | JTime int
| JArr "json list" | JObj "(string \<times> json) list"

definition jopt :: "('a \<Rightarrow> json) \<Rightarrow> 'a option \<Rightarrow> json" where
  "jopt f x = (case x of None \<Rightarrow> JNull | Some v \<Rightarrow> f v)"

end
