(* ===== verification/Schema.thy ===== *)
theory Schema
  imports Prelude
begin

text \<open>
  The data model: the status enums of \<^verbatim>\<open>api/constants.py\<close>, one record per table
  the modelled services read or write (the columns they use, from
  \<^verbatim>\<open>db/schema.sql\<close>), the database \<open>db\<close> of one transaction, and the two services
  every operation calls: the audit log (\<^verbatim>\<open>audit_service.py\<close>) and the event outbox
  (\<^verbatim>\<open>events_service.py\<close>). A table is a list of rows in the order the database
  returns them; \<open>now\<close> is the transaction's \<open>NOW()\<close>; \<open>seqs\<close> holds the next value of
  each \<open>SERIAL\<close> column and \<open>uuids\<close> the identifiers \<open>uuid4()\<close> will return.
\<close>

section \<open>Status enums\<close>

datatype po_status = PO_OPEN | PO_PARTIAL | PO_RECEIVED | PO_CLOSED | PO_ARCHIVED

datatype pol_status = POL_PENDING | POL_PARTIAL | POL_RECEIVED

datatype so_status =
  SO_OPEN | SO_PICKED | SO_PACKED | SO_SHIPPED | SO_CANCELLED
| SO_FRAUD_REVIEW | SO_REFUNDED | SO_WAITING_STOCK
| RMA_PARTIALLY_RECEIVED | RMA_RECEIVED | RMA_CLOSED

text \<open>\<open>sales_order_lines.status\<close>: PENDING until a ship or void writes an order status.\<close>

datatype sol_status = SOL_PENDING | SOL_AS so_status

datatype order_type = OT_sale | OT_refund | OT_backorder | OT_replacement | OT_exchange | OT_return

datatype batch_status = BATCH_OPEN | BATCH_IN_PROGRESS | BATCH_COMPLETED | BATCH_CANCELLED

datatype task_status = TASK_PENDING | TASK_PICKED | TASK_SHORT | TASK_SKIPPED | TASK_RELEASED

datatype bin_type = BIN_STAGING | BIN_PICKABLE_STAGING | BIN_PICKABLE | BIN_OTHER string

datatype fulf_status = FULF_SHIPPED | FULF_VOIDED

section \<open>Rows\<close>

record bin_row =
  bin_id :: int
  bin_code :: string
  bin_wh :: int
  bin_kind :: bin_type
  bin_sequence :: int
  bin_active :: bool
  bin_ext :: string
  bin_barcode :: string

record item_row =
  item_id :: int
  item_sku :: string
  item_name :: string
  item_upc :: "string option"
  item_aliases :: "string list option"
  item_ext :: string
  item_weight :: "rat option"
  item_default_bin :: "int option"

record inv_row =
  inv_id :: int
  inv_item :: int
  inv_bin :: int
  inv_wh :: int
  on_hand :: int
  allocated :: int
  inv_lot :: "string option"
  inv_updated :: int
  inv_counted :: "int option"

text \<open>\<open>so_columns\<close> holds the columns the services only copy and edit as text: customer id,
  phone, e-mail and address, ship address and date, priority, source system, origin
  and the sixteen structured address columns; a missing key is NULL.\<close>

record so_row =
  so_id :: int
  so_number :: string
  so_barcode :: "string option"
  so_state :: so_status
  so_wh :: int
  so_ext :: string
  so_type :: order_type
  so_parent :: "int option"
  so_customer :: "string option"
  so_opened :: "int option"
  so_fulfillable :: "int option"
  so_picked_at :: "int option"
  so_packed_at :: "int option"
  so_shipped_at :: "int option"
  so_carrier :: "string option"
  so_tracking :: "string option"
  so_method :: "string option"
  so_memo :: "string option"
  so_source :: string
  so_created_by :: "string option"
  so_columns :: "string \<rightharpoonup> string"
  so_cancel_reason :: "string option"
  so_refund :: "int option"
  so_voided :: "(int \<times> string) option"
  so_printed :: "int option"

record sol_row =
  sol_id :: int
  sol_so :: int
  sol_item :: int
  sol_ordered :: int
  sol_alloc :: int
  sol_picked :: int
  sol_packed :: int
  sol_shipped :: int
  sol_number :: int
  sol_state :: sol_status
  sol_received :: int
  sol_original :: "int option"

record batch_row =
  pb_id :: int
  pb_number :: string
  pb_wh :: int
  pb_state :: batch_status
  pb_user :: string
  pb_orders :: int
  pb_items :: int
  pb_completed :: "int option"

record pbo_row =
  pbo_batch :: int
  pbo_so :: int
  pbo_tote :: "string option"

record task_row =
  pt_id :: int
  pt_batch :: int
  pt_so :: "int option"
  pt_sol :: "int option"
  pt_to :: "int option"
  pt_tol :: "int option"
  pt_item :: int
  pt_bin :: int
  pt_qty :: int
  pt_picked :: int
  pt_sequence :: int
  pt_tote :: "string option"
  pt_state :: task_status
  pt_by :: "string option"
  pt_at :: "int option"
  pt_confirmed :: bool

record brk_row =
  wb_id :: int
  wb_task :: int
  wb_so :: int
  wb_sol :: "int option"
  wb_qty :: int
  wb_picked :: int
  wb_short :: int

record po_row =
  po_id :: int
  po_number :: string
  po_barcode :: "string option"
  po_state :: po_status
  po_wh :: int
  po_ext :: string
  po_received_at :: "int option"
  po_columns :: "string \<rightharpoonup> string"
  po_created_by :: "string option"

record pol_row =
  pol_id :: int
  pol_po :: int
  pol_item :: int
  pol_ordered :: int
  pol_received :: int
  pol_number :: int
  pol_state :: pol_status
  pol_cost :: "rat option"

record receipt_row =
  rc_id :: int
  rc_po :: "int option"
  rc_pol :: "int option"
  rc_so :: "int option"
  rc_sol :: "int option"
  rc_item :: int
  rc_qty :: int
  rc_bin :: int
  rc_wh :: int
  rc_lot :: "string option"
  rc_serial :: "string option"
  rc_by :: string
  rc_notes :: "string option"
  rc_ext :: string
  rc_at :: int

record fulf_row =
  ff_id :: int
  ff_so :: int
  ff_wh :: int
  ff_tracking :: "string option"
  ff_carrier :: "string option"
  ff_method :: "string option"
  ff_by :: string
  ff_state :: fulf_status
  ff_ext :: string
  ff_pre :: "so_status option"
  ff_cost :: "rat option"
  ff_shipped_at :: int
  ff_voided_at :: "int option"
  ff_voided_by :: "string option"
  ff_reason :: "string option"

record fline_row =
  fl_fulf :: int
  fl_sol :: int
  fl_item :: int
  fl_qty :: int
  fl_bin :: int

text \<open>\<open>dockd_idempotency\<close>, keyed by token and idempotency key; \<open>created_at\<close> defaults to \<open>NOW()\<close>.\<close>

record idem_row =
  ik_token :: int
  ik_key :: string
  ik_endpoint :: string
  ik_so :: string
  ik_hash :: string
  ik_response :: "(json \<times> int) option"
  ik_created :: int

record user_row =
  usr_name :: string
  usr_ext :: string

record mapping_row =
  csm_source :: string
  csm_kind :: string
  csm_canonical :: string
  csm_updated :: int

record event_row =
  ev_id :: int
  ev_type :: string
  ev_version :: int
  ev_agg_type :: string
  ev_agg_id :: int
  ev_agg_ext :: string
  ev_wh :: int
  ev_txn :: string
  ev_payload :: json

record audit_row =
  au_id :: int
  au_action :: string
  au_entity :: string
  au_entity_id :: int
  au_user :: string
  au_wh :: int
  au_details :: "json option"

section \<open>Transfer-order rows\<close>

datatype to_status =
  TO_OPEN | TO_PARTIALLY_PICKED | TO_AWAITING_APPROVAL | TO_APPROVED | TO_CLOSED | TO_CANCELLED

datatype tol_status =
  TOL_PENDING | TOL_PARTIALLY_PICKED | TOL_PICKED | TOL_APPROVED | TOL_SHORT_CLOSED

datatype toa_status = TOA_PENDING | TOA_APPROVED | TOA_REJECTED

record to_row =
  tro_id :: int
  tro_number :: string
  tro_state :: to_status
  tro_source :: int
  tro_dest :: int
  tro_by :: string
  tro_notes :: "string option"
  tro_ext :: string
  tro_updated :: int

record tol_row =
  tol_id :: int
  tol_to :: int
  tol_item :: int
  tol_number :: int
  tol_requested :: int
  tol_committed :: int
  tol_picked :: int
  tol_approved :: int
  tol_state :: tol_status

record toa_row =
  toa_id :: int
  toa_to :: int
  toa_by :: string
  toa_lines :: "(int \<times> int \<times> int) list"
  toa_ext :: string
  toa_state :: toa_status
  toa_approved :: "(string \<times> int) option"
  toa_rejected :: "(int \<times> string option) option"

record transfer_row =
  bt_id :: int
  bt_item :: int
  bt_from :: int
  bt_to :: int
  bt_wh :: int
  bt_qty :: int
  bt_lot :: "string option"
  bt_reason :: "string option"
  bt_by :: string
  bt_ext :: string
  bt_at :: int
  bt_type :: string

record wh_row =
  wh_id :: int
  wh_code :: string
  wh_active :: bool

section \<open>Counting and put-away rows\<close>

datatype adj_status = ADJ_PENDING | ADJ_APPROVED | ADJ_REJECTED

datatype count_status = COUNT_PENDING | COUNT_IN_PROGRESS | COUNT_COMPLETED | COUNT_VARIANCE

record adj_row =
  adj_id :: int
  adj_item :: int
  adj_bin :: int
  adj_wh :: int
  adj_change :: int
  adj_reason :: string
  adj_detail :: "string option"
  adj_state :: adj_status
  adj_by :: string
  adj_at :: int
  adj_count :: "int option"
  adj_ext :: string

record count_row =
  cc_id :: int
  cc_wh :: int
  cc_bin :: int
  cc_state :: count_status
  cc_assigned :: "string option"
  cc_completed :: "int option"
  cc_ext :: string

record cline_row =
  cl_id :: int
  cl_count :: int
  cl_item :: int
  cl_expected :: int
  cl_counted :: "int option"
  cl_scanned :: bool
  cl_unexpected :: bool
  cl_by :: "string option"
  cl_at :: "int option"

record pref_row =
  pref_id :: int
  pref_item :: int
  pref_bin :: int
  pref_priority :: int
  pref_notes :: "string option"

section \<open>The database\<close>

datatype seq_name =
  Seq_inventory | Seq_batch | Seq_task | Seq_breakdown | Seq_receipt | Seq_fulfillment
| Seq_so | Seq_so_line | Seq_adjustment | Seq_count | Seq_count_line | Seq_preferred
| Seq_approval | Seq_transfer_order | Seq_to_line | Seq_bin_transfer | Seq_po | Seq_po_line | Seq_event | Seq_audit

record db =
  now :: int
  seqs :: "seq_name \<Rightarrow> int"
  uuids :: "nat \<Rightarrow> string"
  uuid_ix :: nat
  settings :: "string \<rightharpoonup> string"
  users :: "user_row list"
  mappings :: "mapping_row list"
  bins :: "bin_row list"
  items :: "item_row list"
  inventory :: "inv_row list"
  sales_orders :: "so_row list"
  so_lines :: "sol_row list"
  pick_batches :: "batch_row list"
  batch_orders :: "pbo_row list"
  wave_orders :: "(int \<times> int) list"
  pick_tasks :: "task_row list"
  breakdowns :: "brk_row list"
  purchase_orders :: "po_row list"
  po_lines :: "pol_row list"
  receipts :: "receipt_row list"
  fulfillments :: "fulf_row list"
  fulfillment_lines :: "fline_row list"
  transfer_orders :: "to_row list"
  to_lines :: "tol_row list"
  to_approvals :: "toa_row list"
  bin_transfers :: "transfer_row list"
  warehouses :: "wh_row list"
  idempotency :: "idem_row list"
  adjustments :: "adj_row list"
  cycle_counts :: "count_row list"
  count_lines :: "cline_row list"
  preferred_bins :: "pref_row list"
  events :: "event_row list"
  audit_log :: "audit_row list"

text \<open>\<open>nextval\<close> of a serial column, and \<open>uuid.uuid4()\<close>.\<close>

definition nextval :: "seq_name \<Rightarrow> db \<Rightarrow> int \<times> db" where
  "nextval q d = (seqs d q, d\<lparr>seqs := (seqs d)(q := seqs d q + 1)\<rparr>)"

definition uuid4 :: "db \<Rightarrow> string \<times> db" where
  "uuid4 d = (uuids d (uuid_ix d), d\<lparr>uuid_ix := Suc (uuid_ix d)\<rparr>)"

section \<open>Audit log and event outbox\<close>

definition write_audit_log ::
    "string \<Rightarrow> string \<Rightarrow> int \<Rightarrow> string \<Rightarrow> int \<Rightarrow> json \<Rightarrow> db \<Rightarrow> int \<times> db" where
  "write_audit_log action entity eid user wh details d =
     (let (i, d1) = nextval Seq_audit d;
          r = \<lparr>au_id = i, au_action = action, au_entity = entity, au_entity_id = eid,
               au_user = user, au_wh = wh,
               au_details = (if details = JObj [] then None else Some details)\<rparr>
      in (i, d1\<lparr>audit_log := audit_log d1 @ [r]\<rparr>))"

abbreviation audit ::
    "string \<Rightarrow> string \<Rightarrow> int \<Rightarrow> string \<Rightarrow> int \<Rightarrow> json \<Rightarrow> db \<Rightarrow> db" where
  "audit action entity eid user wh details d \<equiv>
     snd (write_audit_log action entity eid user wh details d)"

text \<open>
  \<open>INSERT \<dots> ON CONFLICT (aggregate_type, aggregate_id, event_type, source_txn_id)
  DO NOTHING RETURNING event_id\<close>. A conflicting insert still draws a sequence value.
\<close>

definition emit_event ::
    "string \<Rightarrow> int \<Rightarrow> string \<Rightarrow> int \<Rightarrow> string \<Rightarrow> int \<Rightarrow> string \<Rightarrow> json \<Rightarrow> db \<Rightarrow> int option \<times> db" where
  "emit_event ty ver agg aid aext wh txn payload d =
     (let (i, d1) = nextval Seq_event d in
      if \<exists>e \<in> set (events d). ev_agg_type e = agg \<and> ev_agg_id e = aid
           \<and> ev_type e = ty \<and> ev_txn e = txn
      then (None, d1)
      else (Some i, d1\<lparr>events := events d1 @
             [\<lparr>ev_id = i, ev_type = ty, ev_version = ver, ev_agg_type = agg, ev_agg_id = aid,
               ev_agg_ext = aext, ev_wh = wh, ev_txn = txn, ev_payload = payload\<rparr>]\<rparr>))"

text \<open>\<open>ORDER BY last_updated_at DESC LIMIT 1\<close> over the mappings of a canonical id.\<close>

definition resolve_source_external_id :: "string \<Rightarrow> string \<Rightarrow> db \<Rightarrow> string option" where
  "resolve_source_external_id kind cid d =
     (if cid = [] then None
      else case sort_key (\<lambda>m. - csm_updated m)
             (filter (\<lambda>m. csm_canonical m = cid \<and> csm_kind m = kind) (mappings d)) of
        [] \<Rightarrow> None | m # _ \<Rightarrow> Some (csm_source m))"

definition get_user_external_id :: "string \<Rightarrow> db \<Rightarrow> string option" where
  "get_user_external_id u d = map_option usr_ext (List.find (\<lambda>r. usr_name r = u) (users d))"

text \<open>\<open>resolve(\<dots>) or str(external_id)\<close>: an empty source id also falls back.\<close>

definition source_or_canonical :: "string \<Rightarrow> string \<Rightarrow> db \<Rightarrow> string" where
  "source_or_canonical kind cid d =
     (case resolve_source_external_id kind cid d of
        None \<Rightarrow> cid | Some s \<Rightarrow> (if s = [] then cid else s))"

text \<open>\<open>COALESCE(csm.source_id, CAST(i.external_id AS TEXT))\<close> under the item
  \<open>LEFT JOIN cross_system_mappings\<close>: one output row per mapping, one when there is none.\<close>

definition joined_source_ids :: "string \<Rightarrow> db \<Rightarrow> string list" where
  "joined_source_ids cid d =
     (case filter (\<lambda>m. csm_canonical m = cid \<and> csm_kind m = ''item'') (mappings d) of
        [] \<Rightarrow> [cid] | ms \<Rightarrow> map csm_source ms)"

definition find_item :: "int \<Rightarrow> db \<Rightarrow> item_row option" where
  "find_item i d = List.find (\<lambda>r. item_id r = i) (items d)"

definition find_bin :: "int \<Rightarrow> db \<Rightarrow> bin_row option" where
  "find_bin b d = List.find (\<lambda>r. bin_id r = b) (bins d)"

text \<open>Auditing and emitting write only the log, the outbox and their sequences.\<close>

lemma audit_frame [simp]:
  "now (audit a e i u w j d) = now d"
  "settings (audit a e i u w j d) = settings d"
  "bins (audit a e i u w j d) = bins d"
  "items (audit a e i u w j d) = items d"
  "users (audit a e i u w j d) = users d"
  "mappings (audit a e i u w j d) = mappings d"
  "inventory (audit a e i u w j d) = inventory d"
  "sales_orders (audit a e i u w j d) = sales_orders d"
  "so_lines (audit a e i u w j d) = so_lines d"
  "pick_batches (audit a e i u w j d) = pick_batches d"
  "batch_orders (audit a e i u w j d) = batch_orders d"
  "wave_orders (audit a e i u w j d) = wave_orders d"
  "pick_tasks (audit a e i u w j d) = pick_tasks d"
  "breakdowns (audit a e i u w j d) = breakdowns d"
  "purchase_orders (audit a e i u w j d) = purchase_orders d"
  "po_lines (audit a e i u w j d) = po_lines d"
  "receipts (audit a e i u w j d) = receipts d"
  "fulfillments (audit a e i u w j d) = fulfillments d"
  "fulfillment_lines (audit a e i u w j d) = fulfillment_lines d"
  "transfer_orders (audit a e i u w j d) = transfer_orders d"
  "to_lines (audit a e i u w j d) = to_lines d"
  "to_approvals (audit a e i u w j d) = to_approvals d"
  "bin_transfers (audit a e i u w j d) = bin_transfers d"
  "warehouses (audit a e i u w j d) = warehouses d"
  "idempotency (audit a e i u w j d) = idempotency d"
  "adjustments (audit a e i u w j d) = adjustments d"
  "cycle_counts (audit a e i u w j d) = cycle_counts d"
  "count_lines (audit a e i u w j d) = count_lines d"
  "preferred_bins (audit a e i u w j d) = preferred_bins d"
  "events (audit a e i u w j d) = events d"
  "q \<noteq> Seq_audit \<Longrightarrow> seqs (audit a e i u w j d) q = seqs d q"
  by (simp_all add: write_audit_log_def nextval_def)

lemma emit_frame [simp]:
  "now (snd (emit_event t v g i x w n p d)) = now d"
  "settings (snd (emit_event t v g i x w n p d)) = settings d"
  "bins (snd (emit_event t v g i x w n p d)) = bins d"
  "items (snd (emit_event t v g i x w n p d)) = items d"
  "users (snd (emit_event t v g i x w n p d)) = users d"
  "mappings (snd (emit_event t v g i x w n p d)) = mappings d"
  "inventory (snd (emit_event t v g i x w n p d)) = inventory d"
  "sales_orders (snd (emit_event t v g i x w n p d)) = sales_orders d"
  "so_lines (snd (emit_event t v g i x w n p d)) = so_lines d"
  "pick_batches (snd (emit_event t v g i x w n p d)) = pick_batches d"
  "batch_orders (snd (emit_event t v g i x w n p d)) = batch_orders d"
  "wave_orders (snd (emit_event t v g i x w n p d)) = wave_orders d"
  "pick_tasks (snd (emit_event t v g i x w n p d)) = pick_tasks d"
  "breakdowns (snd (emit_event t v g i x w n p d)) = breakdowns d"
  "purchase_orders (snd (emit_event t v g i x w n p d)) = purchase_orders d"
  "po_lines (snd (emit_event t v g i x w n p d)) = po_lines d"
  "receipts (snd (emit_event t v g i x w n p d)) = receipts d"
  "fulfillments (snd (emit_event t v g i x w n p d)) = fulfillments d"
  "fulfillment_lines (snd (emit_event t v g i x w n p d)) = fulfillment_lines d"
  "transfer_orders (snd (emit_event t v g i x w n p d)) = transfer_orders d"
  "to_lines (snd (emit_event t v g i x w n p d)) = to_lines d"
  "to_approvals (snd (emit_event t v g i x w n p d)) = to_approvals d"
  "bin_transfers (snd (emit_event t v g i x w n p d)) = bin_transfers d"
  "warehouses (snd (emit_event t v g i x w n p d)) = warehouses d"
  "idempotency (snd (emit_event t v g i x w n p d)) = idempotency d"
  "adjustments (snd (emit_event t v g i x w n p d)) = adjustments d"
  "cycle_counts (snd (emit_event t v g i x w n p d)) = cycle_counts d"
  "count_lines (snd (emit_event t v g i x w n p d)) = count_lines d"
  "preferred_bins (snd (emit_event t v g i x w n p d)) = preferred_bins d"
  "audit_log (snd (emit_event t v g i x w n p d)) = audit_log d"
  "q \<noteq> Seq_event \<Longrightarrow> seqs (snd (emit_event t v g i x w n p d)) q = seqs d q"
  by (simp_all add: emit_event_def nextval_def Let_def)

lemma nextval_frame [simp]:
  "fst (nextval q d) = seqs d q"
  "snd (nextval q d) = d\<lparr>seqs := (seqs d)(q := seqs d q + 1)\<rparr>"
  by (simp_all add: nextval_def)

text \<open>Replaying a request emits nothing: a key already in the outbox leaves it unchanged.\<close>

lemma emit_event_fresh:
  "fst (emit_event t v g i x w n p d) = None \<longleftrightarrow>
     (\<exists>e \<in> set (events d). ev_agg_type e = g \<and> ev_agg_id e = i \<and> ev_type e = t \<and> ev_txn e = n)"
  by (simp add: emit_event_def nextval_def)

definition event_key :: "event_row \<Rightarrow> string \<times> int \<times> string \<times> string" where
  "event_key e = (ev_agg_type e, ev_agg_id e, ev_type e, ev_txn e)"

lemma emit_event_keys:
  "distinct (map event_key (events d)) \<Longrightarrow>
     distinct (map event_key (events (snd (emit_event t v g i x w n p d))))"
  by (auto simp: emit_event_def nextval_def Let_def event_key_def)

lemma emit_event_replay:
  "events (snd (emit_event t v g i x w n p' (snd (emit_event t v g i x w n p d))))
     = events (snd (emit_event t v g i x w n p d))"
  by (auto simp: emit_event_def nextval_def Let_def)


section \<open>The caller of a request\<close>

text \<open>
  \<open>g.current_user\<close> as the modelled routes read it (\<^verbatim>\<open>middleware/auth_middleware.py\<close>):
  the user name, whether the role is ADMIN, the granted warehouses, and the
  request's \<open>g.source_txn_id\<close>.
\<close>

record session =
  s_user :: string
  s_admin :: bool
  s_whs :: "int list"
  s_txn :: string

text \<open>\<open>warehouse_scope_clause\<close>: the \<open>AND col = ANY(\<dots>)\<close> fragment as a row predicate.\<close>

definition warehouse_scope_clause :: "session \<Rightarrow> int \<Rightarrow> bool" where
  "warehouse_scope_clause s w \<longleftrightarrow> s_admin s \<or> w \<in> set (s_whs s)"

definition check_warehouse_access :: "session \<Rightarrow> int option \<Rightarrow> bool" where
  "check_warehouse_access s w \<longleftrightarrow>
     (if s_admin s then True
      else \<not> (w \<noteq> None \<and> the w \<notin> set (s_whs s)))"


section \<open>The empty database\<close>

text \<open>A fresh installation; concrete states are built from it by record update.\<close>

definition empty_db :: db where
  "empty_db = \<lparr>now = 0, seqs = (\<lambda>_. 1), uuids = (\<lambda>_. ''''), uuid_ix = 0, settings = (\<lambda>_. None),
     users = [], mappings = [], bins = [], items = [], inventory = [], sales_orders = [],
     so_lines = [], pick_batches = [], batch_orders = [], wave_orders = [], pick_tasks = [],
     breakdowns = [], purchase_orders = [], po_lines = [], receipts = [], fulfillments = [],
     fulfillment_lines = [], transfer_orders = [], to_lines = [], to_approvals = [],
     bin_transfers = [], warehouses = [], idempotency = [],
     adjustments = [], cycle_counts = [], count_lines = [], preferred_bins = [],
     events = [], audit_log = []\<rparr>"

end
