(* ===== verification/Inventory.thy ===== *)
theory Inventory
  imports Schema
begin

text \<open>
  \<^verbatim>\<open>api/services/inventory_service.py\<close>: the primitives every stock movement of the
  program goes through, and the release of backorders once stock has landed. The
  row locks and the advisory lock of the source serialise transactions; here each
  operation is one step of the serialised history.
\<close>

section \<open>Operations\<close>

definition set_inventory_quantity :: "int \<Rightarrow> int \<Rightarrow> db \<Rightarrow> db" where
  "set_inventory_quantity i q d =
     d\<lparr>inventory := upd (\<lambda>r. inv_id r = i) (\<lambda>r. r\<lparr>on_hand := q, inv_updated := now d\<rparr>) (inventory d)\<rparr>"

definition find_inv :: "int \<Rightarrow> int \<Rightarrow> string option \<Rightarrow> db \<Rightarrow> inv_row option" where
  "find_inv item bin lot d =
     List.find (\<lambda>r. inv_item r = item \<and> inv_bin r = bin \<and> inv_lot r = lot) (inventory d)"

definition add_inventory ::
    "int \<Rightarrow> int \<Rightarrow> int \<Rightarrow> int \<Rightarrow> string option \<Rightarrow> db \<Rightarrow> int \<times> db" where
  "add_inventory item bin wh q lot d =
     (case find_inv item bin lot d of
        Some r \<Rightarrow>
          (on_hand r + q,
           d\<lparr>inventory := upd (\<lambda>x. inv_id x = inv_id r)
                (\<lambda>x. x\<lparr>on_hand := on_hand x + q, inv_updated := now d\<rparr>) (inventory d)\<rparr>)
      | None \<Rightarrow>
          let (i, d1) = nextval Seq_inventory d in
          (q, d1\<lparr>inventory := inventory d1 @
             [\<lparr>inv_id = i, inv_item = item, inv_bin = bin, inv_wh = wh, on_hand = q,
               allocated = 0, inv_lot = lot, inv_updated = now d, inv_counted = None\<rparr>]\<rparr>))"

datatype inv_error = InsufficientInventory int

definition move_inventory ::
    "int \<Rightarrow> int \<Rightarrow> int \<Rightarrow> int \<Rightarrow> int \<Rightarrow> string option \<Rightarrow> db \<Rightarrow> inv_error + ((int \<times> int) \<times> db)" where
  "move_inventory item from_bin to_bin wh q lot d =
     (case find_inv item from_bin lot d of
        None \<Rightarrow> Inl (InsufficientInventory 0)
      | Some r \<Rightarrow>
          if on_hand r < q then Inl (InsufficientInventory (on_hand r))
          else
            let d1 = set_inventory_quantity (inv_id r) (on_hand r - q) d;
                (nd, d2) = add_inventory item to_bin wh q lot d1
            in Inr ((on_hand r - q, nd), d2))"

section \<open>Backorder release\<close>

definition pickable_bin :: "bin_row \<Rightarrow> bool" where
  "pickable_bin b \<longleftrightarrow> bin_kind b = BIN_PICKABLE \<or> bin_kind b = BIN_PICKABLE_STAGING"

text \<open>\<open>SUM(GREATEST(on_hand - allocated, 0))\<close> over the item's rows in pickable bins.\<close>

definition pickable_available :: "int \<Rightarrow> int \<Rightarrow> db \<Rightarrow> int" where
  "pickable_available item wh d =
     sum_list [max (on_hand r - allocated r) 0.
       r \<leftarrow> inventory d, b \<leftarrow> bins d,
       bin_id b = inv_bin r \<and> inv_item r = item \<and> inv_wh r = wh \<and> pickable_bin b]"

definition backorder_lines :: "int \<Rightarrow> db \<Rightarrow> (sol_row \<times> item_row) list" where
  "backorder_lines so d =
     [(l, i). l \<leftarrow> so_lines d, sol_so l = so, i \<leftarrow> items d, item_id i = sol_item l]"

definition waiting_candidates :: "int \<Rightarrow> int \<Rightarrow> db \<Rightarrow> so_row list" where
  "waiting_candidates wh item d =
     sort_key (\<lambda>x. nulls_last (so_opened x))
       (filter (\<lambda>x. so_state x = SO_WAITING_STOCK \<and> so_wh x = wh
            \<and> (\<exists>l \<in> set (so_lines d). sol_so l = so_id x \<and> sol_item l = item)) (sales_orders d))"

definition satisfiable :: "int \<Rightarrow> int \<Rightarrow> db \<Rightarrow> bool" where
  "satisfiable wh so d \<longleftrightarrow>
     backorder_lines so d \<noteq> [] \<and>
     (\<forall>(l, i) \<in> set (backorder_lines so d). sol_ordered l \<le> pickable_available (sol_item l) wh d)"

definition days_waiting :: "so_row \<Rightarrow> db \<Rightarrow> int" where
  "days_waiting bo d =
     (case so_opened bo of None \<Rightarrow> 0 | Some t \<Rightarrow> if now d - t \<noteq> 0 then (now d - t) div (86400 * 1000000) else 0)"

definition parent_number :: "so_row \<Rightarrow> db \<Rightarrow> string" where
  "parent_number bo d =
     (case so_parent bo of
        None \<Rightarrow> ''''
      | Some p \<Rightarrow> (case List.find (\<lambda>x. so_id x = p) (sales_orders d) of
                    None \<Rightarrow> '''' | Some o' \<Rightarrow> so_number o'))"

definition fulfillable_payload :: "int \<Rightarrow> string \<Rightarrow> so_row \<Rightarrow> db \<Rightarrow> json" where
  "fulfillable_payload wh source bo d =
     JObj [(''backorder_so_external_id'', JStr (so_ext bo)),
           (''backorder_so_number'', JStr (so_number bo)),
           (''parent_so_number'', JStr (parent_number bo d)),
           (''warehouse_id'', JInt wh),
           (''customer_name'', jopt JStr (so_customer bo)),
           (''items'', JArr [JObj [(''item_external_id'', JStr (item_ext i)),
                                   (''sku'', JStr (item_sku i)),
                                   (''item_name'', JStr (item_name i)),
                                   (''qty'', JInt (sol_ordered l))].
                        (l, i) \<leftarrow> backorder_lines (so_id bo) d]),
           (''days_waiting'', JInt (days_waiting bo d)),
           (''fulfillable_at'', JTime (now d)),
           (''source'', JStr source)]"

type_synonym notification = "string \<times> json \<times> int"

definition release_one ::
    "int \<Rightarrow> string \<Rightarrow> string \<Rightarrow> so_row \<Rightarrow> db \<times> notification list \<Rightarrow> db \<times> notification list" where
  "release_one wh txn source bo s =
     (let d = fst s in
      if \<not> satisfiable wh (so_id bo) d then s
      else
        let d1 = d\<lparr>sales_orders := upd (\<lambda>x. so_id x = so_id bo)
                   (\<lambda>x. x\<lparr>so_state := SO_OPEN, so_fulfillable := Some (now d)\<rparr>) (sales_orders d)\<rparr>;
            p = fulfillable_payload wh source bo d1;
            d2 = snd (emit_event ''backorder.fulfillable'' 1 ''sales_order'' (so_id bo) (so_ext bo)
                        wh txn p d1)
        in (d2, snd s @ [(''backorder.fulfillable'', p, wh)]))"

definition release_satisfiable_backorders ::
    "int \<Rightarrow> int \<Rightarrow> string \<Rightarrow> string \<Rightarrow> db \<Rightarrow> db \<times> notification list" where
  "release_satisfiable_backorders wh item txn source d =
     fold (release_one wh txn source) (waiting_candidates wh item d) (d, [])"

section \<open>Stock as a map of cells\<close>

text \<open>
  The contract of the two primitives: the inventory is a map from (item, bin, lot)
  to a quantity, \<open>add_inventory\<close> raises one cell, \<open>move_inventory\<close> carries a
  quantity from one cell to another.
\<close>

definition cell :: "db \<Rightarrow> int \<times> int \<times> string option \<Rightarrow> int" where
  "cell d = (\<lambda>(item, bin, lot).
     total (\<lambda>r. inv_item r = item \<and> inv_bin r = bin \<and> inv_lot r = lot) on_hand (inventory d))"

definition stock :: "db \<Rightarrow> int \<Rightarrow> int" where
  "stock d item = total (\<lambda>r. inv_item r = item) on_hand (inventory d)"

definition inv_key :: "inv_row \<Rightarrow> int \<times> int \<times> string option" where
  "inv_key r = (inv_item r, inv_bin r, inv_lot r)"

text \<open>Primary key, one row per (item, bin, lot) with NULL lots compared as equal,
  identifiers drawn from the sequence, and \<open>0 \<le> allocated \<le> on_hand\<close>.\<close>

definition inv_wf :: "db \<Rightarrow> bool" where
  "inv_wf d \<longleftrightarrow> distinct (map inv_id (inventory d)) \<and> distinct (map inv_key (inventory d))
     \<and> (\<forall>r \<in> set (inventory d). inv_id r < seqs d Seq_inventory)"

definition inv_sound :: "db \<Rightarrow> bool" where
  "inv_sound d \<longleftrightarrow> (\<forall>r \<in> set (inventory d). 0 \<le> allocated r \<and> allocated r \<le> on_hand r)"

lemma find_inv_Some:
  "find_inv item bin lot d = Some r \<Longrightarrow> r \<in> set (inventory d) \<and> inv_key r = (item, bin, lot)"
  unfolding find_inv_def inv_key_def using find_Some_iff_first by fastforce

lemma find_inv_None:
  "find_inv item bin lot d = None \<Longrightarrow> r \<in> set (inventory d) \<Longrightarrow> inv_key r \<noteq> (item, bin, lot)"
  by (auto simp: find_inv_def inv_key_def find_None)

lemma cell_key: "cell d k = total (\<lambda>r. inv_key r = k) on_hand (inventory d)"
  by (cases k) (auto simp: cell_def inv_key_def intro!: total_cong)

lemma cell_of_row:
  assumes "inv_wf d" "r \<in> set (inventory d)"
  shows "cell d (inv_key r) = on_hand r"
  using assms by (simp add: cell_key inv_wf_def total_at_key)

lemma cell_find_inv:
  "inv_wf d \<Longrightarrow> find_inv item bin lot d = Some r \<Longrightarrow> cell d (item, bin, lot) = on_hand r"
  using find_inv_Some cell_of_row by metis

lemma cell_no_row: "find_inv item bin lot d = None \<Longrightarrow> cell d (item, bin, lot) = 0"
  by (auto simp: cell_key intro!: total_none dest: find_inv_None)

text \<open>Writing the quantity of one row by primary key changes one cell.\<close>

lemma cell_set_row:
  assumes "inv_wf d" "r \<in> set (inventory d)" "\<And>x. inv_key (f x) = inv_key x"
  shows "cell (d\<lparr>inventory := upd (\<lambda>x. inv_id x = inv_id r) f (inventory d)\<rparr>)
           = (cell d)(inv_key r := cell d (inv_key r) + (on_hand (f r) - on_hand r))"
proof
  fix k
  have "total (\<lambda>x. inv_key x = k) on_hand (upd (\<lambda>x. inv_id x = inv_id r) f (inventory d))
      = total (\<lambda>x. inv_key x = k) on_hand (inventory d)
        + (if inv_key r = k then on_hand (f r) - on_hand r else 0)"
    using assms by (intro total_upd_key) (auto simp: inv_wf_def)
  then show "cell (d\<lparr>inventory := upd (\<lambda>x. inv_id x = inv_id r) f (inventory d)\<rparr>) k
           = ((cell d)(inv_key r := cell d (inv_key r) + (on_hand (f r) - on_hand r))) k"
    by (auto simp: cell_key)
qed

lemma stock_upd_row:
  assumes "inv_wf d" "r \<in> set (inventory d)" "\<And>x. inv_key (f x) = inv_key x"
  shows "stock (d\<lparr>inventory := upd (\<lambda>x. inv_id x = inv_id r) f (inventory d)\<rparr>) item
           = stock d item + (if inv_item r = item then on_hand (f r) - on_hand r else 0)"
  using assms total_upd_key [of inv_id "inventory d" r "\<lambda>x. inv_item x = item" f on_hand]
  by (simp add: stock_def inv_wf_def inv_key_def)

lemma inv_wf_upd:
  assumes "inv_wf d" "\<And>x. inv_key (f x) = inv_key x" "\<And>x. inv_id (f x) = inv_id x"
  shows "inv_wf (d\<lparr>inventory := upd P f (inventory d)\<rparr>)"
  using assms by (auto simp: inv_wf_def map_upd_same set_upd)


section \<open>What the primitives do to the cells\<close>

lemma add_inventory_frame [simp]:
  "now (snd (add_inventory i b w q l d)) = now d"
  "settings (snd (add_inventory i b w q l d)) = settings d"
  "bins (snd (add_inventory i b w q l d)) = bins d"
  "items (snd (add_inventory i b w q l d)) = items d"
  "users (snd (add_inventory i b w q l d)) = users d"
  "mappings (snd (add_inventory i b w q l d)) = mappings d"
  "sales_orders (snd (add_inventory i b w q l d)) = sales_orders d"
  "so_lines (snd (add_inventory i b w q l d)) = so_lines d"
  "pick_batches (snd (add_inventory i b w q l d)) = pick_batches d"
  "batch_orders (snd (add_inventory i b w q l d)) = batch_orders d"
  "wave_orders (snd (add_inventory i b w q l d)) = wave_orders d"
  "pick_tasks (snd (add_inventory i b w q l d)) = pick_tasks d"
  "breakdowns (snd (add_inventory i b w q l d)) = breakdowns d"
  "purchase_orders (snd (add_inventory i b w q l d)) = purchase_orders d"
  "po_lines (snd (add_inventory i b w q l d)) = po_lines d"
  "receipts (snd (add_inventory i b w q l d)) = receipts d"
  "fulfillments (snd (add_inventory i b w q l d)) = fulfillments d"
  "fulfillment_lines (snd (add_inventory i b w q l d)) = fulfillment_lines d"
  "transfer_orders (snd (add_inventory i b w q l d)) = transfer_orders d"
  "to_lines (snd (add_inventory i b w q l d)) = to_lines d"
  "to_approvals (snd (add_inventory i b w q l d)) = to_approvals d"
  "bin_transfers (snd (add_inventory i b w q l d)) = bin_transfers d"
  "warehouses (snd (add_inventory i b w q l d)) = warehouses d"
  "events (snd (add_inventory i b w q l d)) = events d"
  "audit_log (snd (add_inventory i b w q l d)) = audit_log d"
  "s \<noteq> Seq_inventory \<Longrightarrow> seqs (snd (add_inventory i b w q l d)) s = seqs d s"
  by (simp_all add: add_inventory_def nextval_def split: option.splits)

lemma add_inventory_wf:
  assumes "inv_wf d"
  shows "inv_wf (snd (add_inventory item bin wh q lot d))"
proof (cases "find_inv item bin lot d")
  case None
  have "(item, bin, lot) \<notin> inv_key ` set (inventory d)"
    using find_inv_None [OF None] by (metis imageE)
  with None assms show ?thesis
    by (auto simp: add_inventory_def inv_wf_def inv_key_def nextval_def less_Suc_eq)
next
  case (Some r)
  with assms show ?thesis
    by (simp add: add_inventory_def inv_wf_upd inv_key_def)
qed

lemma add_inventory_cell_eq:
  assumes "inv_wf d"
  shows "cell (snd (add_inventory item bin wh q lot d))
           = (cell d)((item, bin, lot) := cell d (item, bin, lot) + q)"
proof (cases "find_inv item bin lot d")
  case None
  then show ?thesis
    by (auto simp: add_inventory_def nextval_def cell_key inv_key_def fun_eq_iff)
next
  case (Some r)
  with assms find_inv_Some [OF Some] show ?thesis
    using cell_set_row [of d r "\<lambda>x. x\<lparr>on_hand := on_hand x + q, inv_updated := now d\<rparr>"]
    by (auto simp: add_inventory_def inv_key_def)
qed

lemma add_inventory_returns:
  "inv_wf d \<Longrightarrow> fst (add_inventory item bin wh q lot d) = cell d (item, bin, lot) + q"
  by (auto simp: add_inventory_def cell_find_inv cell_no_row split: option.splits prod.splits)

lemma set_quantity_wf: "inv_wf d \<Longrightarrow> inv_wf (set_inventory_quantity i q d)"
  unfolding set_inventory_quantity_def by (rule inv_wf_upd) (auto simp: inv_key_def)

lemma set_quantity_cell:
  assumes "inv_wf d" "r \<in> set (inventory d)"
  shows "cell (set_inventory_quantity (inv_id r) q d) = (cell d)(inv_key r := q)"
  using cell_set_row [OF assms, of "\<lambda>x. x\<lparr>on_hand := q, inv_updated := now d\<rparr>"]
    cell_of_row [OF assms]
  by (simp add: set_inventory_quantity_def inv_key_def)

text \<open>\<open>move_inventory\<close> fails exactly when the source cell holds too little.\<close>

lemma move_inventory_fails:
  assumes "inv_wf d" "0 < q"
  shows "(\<exists>e. move_inventory item fb tb wh q lot d = Inl e) \<longleftrightarrow> cell d (item, fb, lot) < q"
proof (cases "find_inv item fb lot d")
  case None
  with assms show ?thesis by (simp add: move_inventory_def cell_no_row)
next
  case (Some r)
  with assms cell_find_inv [OF assms(1) Some] show ?thesis
    by (simp add: move_inventory_def Let_def split: prod.splits)
qed

lemma move_inventory_cell:
  assumes "inv_wf d" "move_inventory item fb tb wh q lot d = Inr ((ns, nd), d')"
  shows "cell d' = (let c = (cell d)((item, fb, lot) := cell d (item, fb, lot) - q)
                    in c((item, tb, lot) := c (item, tb, lot) + q))
         \<and> ns = cell d (item, fb, lot) - q \<and> nd = cell d' (item, tb, lot) \<and> inv_wf d'"
proof -
  from assms(2) obtain r where r: "find_inv item fb lot d = Some r"
    by (auto simp: move_inventory_def split: option.splits)
  note row = find_inv_Some [OF r]
  let ?d1 = "set_inventory_quantity (inv_id r) (on_hand r - q) d"
  have q: "cell d (item, fb, lot) = on_hand r"
    using assms(1) r by (rule cell_find_inv)
  have wf: "inv_wf ?d1" using assms(1) by (rule set_quantity_wf)
  have c1: "cell ?d1 = (cell d)((item, fb, lot) := on_hand r - q)"
    using set_quantity_cell [OF assms(1), of r] row by simp
  have m: "ns = on_hand r - q" "nd = fst (add_inventory item tb wh q lot ?d1)"
    "d' = snd (add_inventory item tb wh q lot ?d1)"
    using assms(2) r by (auto simp: move_inventory_def Let_def split: if_splits prod.splits)
  show ?thesis
    using add_inventory_cell_eq [OF wf, of item tb wh q lot] add_inventory_wf [OF wf]
      add_inventory_returns [OF wf, of item tb wh q lot]
    by (simp add: m q c1 Let_def)
qed

section \<open>The ledger interface\<close>

text \<open>
  What receiving, put-away, transfers and batch cancellation rely on: posting a
  quantity to a cell raises that cell only, and a move carries a quantity between
  cells or fails without effect.
\<close>

locale stock_ledger =
  fixes add :: "'w \<Rightarrow> 'k \<Rightarrow> int \<Rightarrow> 's \<Rightarrow> 's"
    and qty :: "'s \<Rightarrow> 'k \<Rightarrow> int"
    and ok :: "'s \<Rightarrow> bool"
  assumes add_qty: "ok s \<Longrightarrow> qty (add w k q s) = (qty s)(k := qty s k + q)"
    and add_ok: "ok s \<Longrightarrow> ok (add w k q s)"
begin

lemma post_ok: "ok s \<Longrightarrow> ok (fold (\<lambda>(w, k, q). add w k q) ps s)"
  by (induction ps arbitrary: s) (auto simp: add_ok)

lemma post_qty:
  "ok s \<Longrightarrow> qty (fold (\<lambda>(w, k, q). add w k q) ps s) k
     = qty s k + sum_list (map (\<lambda>(w, k', q). if k' = k then q else 0) ps)"
  by (induction ps arbitrary: s) (auto simp: add_ok add_qty)

lemma post_nonneg:
  assumes "ok s" "\<And>k. 0 \<le> qty s k" "\<And>w k q. (w, k, q) \<in> set ps \<Longrightarrow> 0 \<le> q"
  shows "0 \<le> qty (fold (\<lambda>(w, k, q). add w k q) ps s) k"
  unfolding post_qty [OF assms(1)]
  by (intro add_nonneg_nonneg assms(2) sum_list_nonneg) (use assms(3) in auto)

end

locale stock_mover = stock_ledger add qty ok
  for add :: "'w \<Rightarrow> 'k \<Rightarrow> int \<Rightarrow> 's \<Rightarrow> 's" and qty ok +
  fixes move :: "'w \<Rightarrow> 'k \<Rightarrow> 'k \<Rightarrow> int \<Rightarrow> 's \<Rightarrow> 's option"
    and movable :: "'k \<Rightarrow> 'k \<Rightarrow> bool"
  assumes move_None: "\<lbrakk> ok s; movable k k'; 0 < q \<rbrakk> \<Longrightarrow> move w k k' q s = None \<longleftrightarrow> qty s k < q"
    and move_qty: "\<lbrakk> ok s; movable k k'; move w k k' q s = Some s' \<rbrakk> \<Longrightarrow>
      qty s' = (let c = (qty s)(k := qty s k - q) in c(k' := c k' + q))"
    and move_ok: "\<lbrakk> ok s; movable k k'; move w k k' q s = Some s' \<rbrakk> \<Longrightarrow> ok s'"
    and movable_sym: "movable k k' \<Longrightarrow> movable k' k"
begin

lemma move_conserves:
  assumes "ok s" "movable k k'" "move w k k' q s = Some s'" "finite K" "k \<in> K" "k' \<in> K"
  shows "(\<Sum>x\<in>K. qty s' x) = (\<Sum>x\<in>K. qty s x)"
proof -
  have "(\<Sum>x\<in>K. qty s' x)
      = (\<Sum>x\<in>K. qty s x - (if x = k then q else 0) + (if x = k' then q else 0))"
    by (rule sum.cong) (use move_qty [OF assms(1-3)] in \<open>auto simp: Let_def\<close>)
  then show ?thesis
    using assms(4-6) by (simp add: sum.distrib sum_subtractf)
qed

lemma move_nonneg:
  assumes "ok s" "movable k k'" "0 < q" "move w k k' q s = Some s'" "\<And>x. 0 \<le> qty s x"
  shows "0 \<le> qty s' x"
proof -
  have "q \<le> qty s k"
    using move_None [OF assms(1-3), of w] assms(4) by auto
  with assms(3) assms(5) [of x] assms(5) [of k'] show ?thesis
    by (auto simp: move_qty [OF assms(1,2,4)] Let_def)
qed

lemma move_back:
  assumes "ok s" "movable k k'" "0 < q" "move w k k' q s = Some s'" "\<And>x. 0 \<le> qty s x"
  shows "\<exists>s''. move w' k' k q s' = Some s'' \<and> qty s'' = qty s"
proof -
  note ok' = move_ok [OF assms(1,2,4)] and sym = movable_sym [OF assms(2)]
  have q': "qty s' = (let c = (qty s)(k := qty s k - q) in c(k' := c k' + q))"
    by (rule move_qty [OF assms(1,2,4)])
  have "q \<le> qty s k"
    using move_None [OF assms(1-3), of w] assms(4) by auto
  with q' assms(5) [of k'] have "\<not> qty s' k' < q"
    by (auto simp: Let_def)
  with move_None [OF ok' sym assms(3), of w'] obtain s'' where s'': "move w' k' k q s' = Some s''"
    by auto
  have "qty s'' = qty s"
    using move_qty [OF ok' sym s''] q' by (auto simp: Let_def fun_eq_iff)
  with s'' show ?thesis by blast
qed

end

definition post_cell :: "int \<Rightarrow> int \<times> int \<times> string option \<Rightarrow> int \<Rightarrow> db \<Rightarrow> db" where
  "post_cell wh = (\<lambda>(item, bin, lot) q d. snd (add_inventory item bin wh q lot d))"

text \<open>A move keeps the item and the lot and changes the bin.\<close>

definition same_goods :: "int \<times> int \<times> string option \<Rightarrow> int \<times> int \<times> string option \<Rightarrow> bool" where
  "same_goods k k' \<longleftrightarrow> fst k = fst k' \<and> snd (snd k) = snd (snd k')"

definition move_cell ::
    "int \<Rightarrow> int \<times> int \<times> string option \<Rightarrow> int \<times> int \<times> string option \<Rightarrow> int \<Rightarrow> db \<Rightarrow> db option" where
  "move_cell wh = (\<lambda>(item, fb, lot) (_, tb, _) q d.
     case move_inventory item fb tb wh q lot d of Inl _ \<Rightarrow> None | Inr (_, d') \<Rightarrow> Some d')"

interpretation ledger: stock_ledger post_cell cell inv_wf
  by unfold_locales (auto simp: post_cell_def add_inventory_cell_eq add_inventory_wf)

interpretation mover: stock_mover post_cell cell inv_wf move_cell same_goods
proof (unfold_locales, goal_cases)
  case (1 s k k' q w)
  then show ?case
    using move_inventory_fails [OF 1(1,3), of "fst k" "fst (snd k)" "fst (snd k')" w "snd (snd k)"]
    by (auto simp: move_cell_def split: sum.splits prod.splits)
next
  case (2 s k k' w q s')
  then show ?case
    using move_inventory_cell [OF 2(1)]
    by (fastforce simp: move_cell_def same_goods_def split: sum.splits prod.splits)
next
  case (3 s k k' w q s')
  then show ?case
    using move_inventory_cell [OF 3(1)]
    by (fastforce simp: move_cell_def same_goods_def split: sum.splits prod.splits)
next
  case (4 k k')
  then show ?case by (simp add: same_goods_def)
qed


section \<open>What the release does\<close>

text \<open>The rows a release decision reads are not written by the loop.\<close>

definition same_supply :: "db \<Rightarrow> db \<Rightarrow> bool" where
  "same_supply d d' \<longleftrightarrow> inventory d' = inventory d \<and> bins d' = bins d \<and> items d' = items d
     \<and> so_lines d' = so_lines d \<and> now d' = now d"

lemma same_supply_refl [simp]: "same_supply d d"
  by (simp add: same_supply_def)

lemma satisfiable_same: "same_supply d d' \<Longrightarrow> satisfiable wh s d' = satisfiable wh s d"
  by (simp add: same_supply_def satisfiable_def backorder_lines_def pickable_available_def)

definition released :: "db \<Rightarrow> so_row \<Rightarrow> so_row" where
  "released d x = x\<lparr>so_state := SO_OPEN, so_fulfillable := Some (now d)\<rparr>"

lemma release_one_effect:
  assumes "same_supply d (fst s)"
  shows "same_supply d (fst (release_one wh txn src bo s))"
    "sales_orders (fst (release_one wh txn src bo s)) =
       (if satisfiable wh (so_id bo) d
        then upd (\<lambda>x. so_id x = so_id bo) (released d) (sales_orders (fst s))
        else sales_orders (fst s))"
    "length (snd (release_one wh txn src bo s)) =
       length (snd s) + (if satisfiable wh (so_id bo) d then 1 else 0)"
  using assms satisfiable_same [OF assms, of wh "so_id bo"]
  by (auto simp: release_one_def Let_def same_supply_def released_def [abs_def])

lemma release_fold:
  assumes "same_supply d (fst s)"
  shows "same_supply d (fst (fold (release_one wh txn src) bs s))
    \<and> sales_orders (fst (fold (release_one wh txn src) bs s))
        = map (\<lambda>x. if \<exists>b \<in> set bs. so_id b = so_id x \<and> satisfiable wh (so_id x) d
                   then released d x else x) (sales_orders (fst s))
    \<and> length (snd (fold (release_one wh txn src) bs s))
        = length (snd s) + length (filter (\<lambda>b. satisfiable wh (so_id b) d) bs)"
  using assms
proof (induction bs arbitrary: s)
  case Nil
  then show ?case by simp
next
  case (Cons b bs)
  note eff = release_one_effect [OF Cons.prems, of wh txn src b]
  from Cons.IH [OF eff(1)] eff show ?case
    by (auto simp: upd_def released_def)
qed

text \<open>The order that a release turns from WAITING_STOCK to OPEN.\<close>

definition releasable :: "int \<Rightarrow> int \<Rightarrow> db \<Rightarrow> so_row \<Rightarrow> bool" where
  "releasable wh item d x \<longleftrightarrow> so_state x = SO_WAITING_STOCK \<and> so_wh x = wh
     \<and> (\<exists>l \<in> set (so_lines d). sol_so l = so_id x \<and> sol_item l = item)
     \<and> satisfiable wh (so_id x) d"

lemma length_filter_sort_key: "length (filter P (sort_key k xs)) = length (filter P xs)"
  by (simp add: filter_sort)

lemma release_effect:
  assumes "distinct (map so_id (sales_orders d))"
  shows "sales_orders (fst (release_satisfiable_backorders wh item txn src d))
      = map (\<lambda>x. if releasable wh item d x then released d x else x) (sales_orders d)"
    "length (snd (release_satisfiable_backorders wh item txn src d))
      = length (filter (releasable wh item d) (sales_orders d))"
    "same_supply d (fst (release_satisfiable_backorders wh item txn src d))"
proof -
  note f = release_fold [of d "(d, [])" wh txn src "waiting_candidates wh item d", simplified]
  have "(\<exists>b \<in> set (waiting_candidates wh item d). so_id b = so_id x \<and> satisfiable wh (so_id x) d)
      = releasable wh item d x" if "x \<in> set (sales_orders d)" for x
    using that key_inj [OF assms] by (auto simp: waiting_candidates_def releasable_def)
  then show "sales_orders (fst (release_satisfiable_backorders wh item txn src d))
      = map (\<lambda>x. if releasable wh item d x then released d x else x) (sales_orders d)"
    using f unfolding release_satisfiable_backorders_def by (auto intro!: map_cong)
  show "length (snd (release_satisfiable_backorders wh item txn src d))
      = length (filter (releasable wh item d) (sales_orders d))"
    using f unfolding release_satisfiable_backorders_def
    by (auto simp: waiting_candidates_def length_filter_sort_key releasable_def
        intro!: arg_cong [where f = length] filter_cong)
  show "same_supply d (fst (release_satisfiable_backorders wh item txn src d))"
    using f unfolding release_satisfiable_backorders_def by simp
qed

lemma release_one_frame:
  "pick_tasks (fst (release_one wh txn src bo s)) = pick_tasks (fst s)
   \<and> purchase_orders (fst (release_one wh txn src bo s)) = purchase_orders (fst s)
   \<and> po_lines (fst (release_one wh txn src bo s)) = po_lines (fst s)
   \<and> receipts (fst (release_one wh txn src bo s)) = receipts (fst s)
   \<and> settings (fst (release_one wh txn src bo s)) = settings (fst s)
   \<and> seqs (fst (release_one wh txn src bo s)) Seq_inventory = seqs (fst s) Seq_inventory
   \<and> seqs (fst (release_one wh txn src bo s)) Seq_receipt = seqs (fst s) Seq_receipt"
  by (simp add: release_one_def Let_def)

lemma release_frame:
  "pick_tasks (fst (release_satisfiable_backorders wh item txn src d)) = pick_tasks d
   \<and> purchase_orders (fst (release_satisfiable_backorders wh item txn src d)) = purchase_orders d
   \<and> po_lines (fst (release_satisfiable_backorders wh item txn src d)) = po_lines d
   \<and> receipts (fst (release_satisfiable_backorders wh item txn src d)) = receipts d
   \<and> settings (fst (release_satisfiable_backorders wh item txn src d)) = settings d
   \<and> seqs (fst (release_satisfiable_backorders wh item txn src d)) Seq_inventory
       = seqs d Seq_inventory
   \<and> seqs (fst (release_satisfiable_backorders wh item txn src d)) Seq_receipt
       = seqs d Seq_receipt"
proof -
  have "pick_tasks (fst (fold (release_one wh txn src) bs s)) = pick_tasks (fst s)
   \<and> purchase_orders (fst (fold (release_one wh txn src) bs s)) = purchase_orders (fst s)
   \<and> po_lines (fst (fold (release_one wh txn src) bs s)) = po_lines (fst s)
   \<and> receipts (fst (fold (release_one wh txn src) bs s)) = receipts (fst s)
   \<and> settings (fst (fold (release_one wh txn src) bs s)) = settings (fst s)
   \<and> seqs (fst (fold (release_one wh txn src) bs s)) Seq_inventory = seqs (fst s) Seq_inventory
   \<and> seqs (fst (fold (release_one wh txn src) bs s)) Seq_receipt = seqs (fst s) Seq_receipt"
    for bs s
    by (induction bs arbitrary: s) (simp_all add: release_one_frame)
  then show ?thesis by (simp add: release_satisfiable_backorders_def)
qed


section \<open>Properties\<close>

text \<open>A warehouse with one pickable bin holding 10 units of item 7 (2 reserved), an
  empty second bin, and a backorder for 6 units.\<close>

definition demo_stock :: db where
  "demo_stock = empty_db\<lparr>now := 86400 * 1000000, seqs := (\<lambda>_. 100),
     bins := [\<lparr>bin_id = 1, bin_code = ''A1'', bin_wh = 1, bin_kind = BIN_PICKABLE,
               bin_sequence = 1, bin_active = True, bin_ext = ''b'', bin_barcode = ''b''\<rparr>,
              \<lparr>bin_id = 2, bin_code = ''A2'', bin_wh = 1, bin_kind = BIN_STAGING,
               bin_sequence = 2, bin_active = True, bin_ext = ''b'', bin_barcode = ''b''\<rparr>],
     items := [\<lparr>item_id = 7, item_sku = ''TST'', item_name = ''Test'', item_upc = Some ''123'',
                item_aliases = None, item_ext = ''u7'', item_weight = None, item_default_bin = None\<rparr>],
     inventory := [\<lparr>inv_id = 1, inv_item = 7, inv_bin = 1, inv_wh = 1, on_hand = 10,
                    allocated = 2, inv_lot = None, inv_updated = 0, inv_counted = None\<rparr>],
     sales_orders := [\<lparr>so_id = 3, so_number = ''BO-3'', so_barcode = None,
        so_state = SO_WAITING_STOCK, so_wh = 1, so_ext = ''u3'', so_type = OT_backorder,
        so_parent = None, so_customer = None, so_opened = Some 0, so_fulfillable = None,
        so_picked_at = None, so_packed_at = None, so_shipped_at = None, so_carrier = None, so_tracking = None,
        so_method = None, so_memo = None, so_source = ''web'',
        so_created_by = None, so_columns = Map.empty, so_cancel_reason = None, so_refund = None, so_voided = None,
        so_printed = None\<rparr>],
     so_lines := [\<lparr>sol_id = 4, sol_so = 3, sol_item = 7, sol_ordered = 6, sol_alloc = 0,
        sol_picked = 0, sol_packed = 0, sol_shipped = 0, sol_number = 1, sol_state = SOL_PENDING, sol_received = 0, sol_original = None\<rparr>]\<rparr>"

lemma demo_stock_wf: "inv_wf demo_stock"
  by (simp add: demo_stock_def inv_wf_def inv_key_def)

text \<open>\<open>add_inventory\<close> refines the ledger: on an inventory with one row per
  (item, bin, lot) it raises exactly that cell by the quantity, leaves every other
  cell alone, returns the new cell value, and keeps the table free of duplicate
  rows even though the UNIQUE constraint ignores NULL lots.\<close>

theorem add_inventory_refines:
  assumes "inv_wf d"
  shows "case add_inventory item bin wh q lot d of (n, d') \<Rightarrow>
    inv_wf d' \<and> n = cell d' (item, bin, lot) \<and>
    cell d' = (cell d)((item, bin, lot) := cell d (item, bin, lot) + q)"
  using add_inventory_wf [OF assms, of item bin wh q lot]
    add_inventory_cell_eq [OF assms, of item bin wh q lot]
    add_inventory_returns [OF assms, of item bin wh q lot]
  by (simp add: split_beta)

theorem add_inventory_refines_witness:
  "fst (add_inventory 7 1 1 5 None demo_stock) = 15 \<and>
   (case add_inventory 7 1 1 5 None demo_stock of (n, d') \<Rightarrow>
      inv_wf d' \<and> n = cell d' (7, 1, None) \<and>
      cell d' = (cell demo_stock)((7, 1, None) := cell demo_stock (7, 1, None) + 5))"
proof
  show "fst (add_inventory 7 1 1 5 None demo_stock) = 15"
    by (simp add: add_inventory_def find_inv_def demo_stock_def)
  show "case add_inventory 7 1 1 5 None demo_stock of (n, d') \<Rightarrow>
      inv_wf d' \<and> n = cell d' (7, 1, None) \<and>
      cell d' = (cell demo_stock)((7, 1, None) := cell demo_stock (7, 1, None) + 5)"
    by (rule add_inventory_refines [OF demo_stock_wf])
qed

text \<open>\<open>move_inventory\<close> refines a transfer between two cells: it fails
  exactly when the source cell holds less than the quantity, reporting what is
  there, and otherwise takes the quantity from the source, adds it to the
  destination, returns the source's remainder and the destination's new value,
  and keeps the table well formed.\<close>

theorem move_inventory_refines:
  assumes "inv_wf d" "0 < q"
  shows "case move_inventory item fb tb wh q lot d of
      Inl (InsufficientInventory a) \<Rightarrow> a = cell d (item, fb, lot) \<and> a < q
    | Inr ((ns, nd), d') \<Rightarrow>
        q \<le> cell d (item, fb, lot) \<and> inv_wf d' \<and> ns = cell d (item, fb, lot) - q \<and>
        nd = cell d' (item, tb, lot) \<and>
        cell d' = (let c = (cell d)((item, fb, lot) := cell d (item, fb, lot) - q)
                   in c((item, tb, lot) := c (item, tb, lot) + q))"
proof (cases "move_inventory item fb tb wh q lot d")
  case (Inl e)
  obtain a where e: "e = InsufficientInventory a" by (cases e)
  from Inl e have "a = cell d (item, fb, lot)"
    by (auto simp: move_inventory_def cell_no_row cell_find_inv [OF assms(1)] Let_def
        split: option.splits if_splits prod.splits)
  with Inl e move_inventory_fails [OF assms, where item = item and fb = fb and tb = tb and wh = wh and lot = lot] show ?thesis by simp
next
  case (Inr b)
  obtain ns nd d' where b: "b = ((ns, nd), d')" by (metis prod.exhaust)
  have m: "move_inventory item fb tb wh q lot d = Inr ((ns, nd), d')" using Inr b by simp
  have "\<not> cell d (item, fb, lot) < q"
    using move_inventory_fails [OF assms, where item = item and fb = fb and tb = tb and wh = wh and lot = lot] m by simp
  with move_inventory_cell [OF assms(1) m] m show ?thesis by simp
qed

theorem move_inventory_refines_witness:
  "case move_inventory 7 1 2 1 4 None demo_stock of
      Inl (InsufficientInventory a) \<Rightarrow> a = cell demo_stock (7, 1, None) \<and> a < 4
    | Inr ((ns, nd), d') \<Rightarrow>
        4 \<le> cell demo_stock (7, 1, None) \<and> inv_wf d' \<and> ns = cell demo_stock (7, 1, None) - 4 \<and>
        nd = cell d' (7, 2, None) \<and>
        cell d' = (let c = (cell demo_stock)((7, 1, None) := cell demo_stock (7, 1, None) - 4)
                   in c((7, 2, None) := c (7, 2, None) + 4))"
  by (rule move_inventory_refines [OF demo_stock_wf]) simp

text \<open>A bin move can be undone: when no cell is negative, moving the same
  quantity back succeeds and restores every cell of the inventory.\<close>

theorem move_inventory_round_trip:
  assumes "inv_wf d" "0 < q" "\<forall>k. 0 \<le> cell d k"
    and "move_inventory item fb tb wh q lot d = Inr (r, d')"
  shows "\<exists>r' d''. move_inventory item tb fb wh q lot d' = Inr (r', d'') \<and> cell d'' = cell d"
proof -
  have "move_cell wh (item, fb, lot) (item, tb, lot) q d = Some d'"
    using assms(4) by (simp add: move_cell_def split: prod.splits)
  from mover.move_back [OF assms(1) _ assms(2) this, where w' = wh] assms(3) obtain s where
    "move_cell wh (item, tb, lot) (item, fb, lot) q d' = Some s" "cell s = cell d"
    by (auto simp: same_goods_def)
  then show ?thesis
    by (auto simp: move_cell_def split: sum.splits prod.splits)
qed

lemma demo_stock_nonneg: "\<forall>k. 0 \<le> cell demo_stock k"
  by (simp add: cell_key demo_stock_def)

lemma demo_move: "\<exists>r d'. move_inventory 7 1 2 1 4 None demo_stock = Inr (r, d')"
  by (simp add: move_inventory_def find_inv_def demo_stock_def Let_def split_beta)

theorem move_inventory_round_trip_witness:
  "\<exists>r d'. move_inventory 7 1 2 1 4 None demo_stock = Inr (r, d') \<and>
     (\<exists>r' d''. move_inventory 7 2 1 1 4 None d' = Inr (r', d'') \<and> cell d'' = cell demo_stock)"
  using demo_move move_inventory_round_trip [OF demo_stock_wf _ demo_stock_nonneg,
      where q = 4 and item = 7 and fb = 1 and tb = 2 and wh = 1 and lot = None]
  by fastforce

text \<open>The release loop opens exactly the right backorders: an order changes
  if and only if it waits for stock in this warehouse, has a line on the received
  item and every one of its lines is covered by pickable, unreserved stock; it then
  becomes OPEN and is stamped. Stock is not consumed, and one notification is
  queued per opened order.\<close>

theorem release_backorders_exact:
  assumes "distinct (map so_id (sales_orders d))"
  shows "case release_satisfiable_backorders wh item txn src d of (d', ns) \<Rightarrow>
    sales_orders d' = map (\<lambda>x. if so_state x = SO_WAITING_STOCK \<and> so_wh x = wh
        \<and> (\<exists>l \<in> set (so_lines d). sol_so l = so_id x \<and> sol_item l = item)
        \<and> satisfiable wh (so_id x) d
      then x\<lparr>so_state := SO_OPEN, so_fulfillable := Some (now d)\<rparr> else x) (sales_orders d)
    \<and> inventory d' = inventory d \<and> so_lines d' = so_lines d
    \<and> length ns = length (filter (releasable wh item d) (sales_orders d))"
  using release_effect [OF assms, of wh item txn src]
  unfolding split_beta releasable_def released_def same_supply_def by blast

theorem release_backorders_exact_witness:
  "map so_state (sales_orders (fst (release_satisfiable_backorders 1 7 ''t'' ''receipt'' demo_stock)))
     = [SO_OPEN]"
proof -
  have "distinct (map so_id (sales_orders demo_stock))" by (simp add: demo_stock_def)
  from release_backorders_exact [OF this, of 1 7 "''t''" "''receipt''"] show ?thesis
    by (simp add: split_beta demo_stock_def satisfiable_def backorder_lines_def
        pickable_available_def pickable_bin_def)
qed

end
