(* ===== verification/Receiving.thy ===== *)
theory Receiving
  imports Inventory
begin

text \<open>
  Goods-in: \<^verbatim>\<open>api/services/receiving_service.py\<close> (status recompute and the admin
  unreceive) and the routes of \<^verbatim>\<open>api/routes/receiving.py\<close> (receive a PO, cancel a
  receiving session). An \<open>Inl\<close> result is an error response or exception: the
  transaction is not committed and the database keeps its previous state. The
  per-request memos of the route (bin check, item external id) cache reads of
  tables the loop does not write and are not modelled separately.
\<close>

section \<open>Purchase-order status\<close>

definition line_status :: "int \<Rightarrow> int \<Rightarrow> pol_status" where
  "line_status received ordered =
     (if received = 0 then POL_PENDING
      else if ordered \<le> received then POL_RECEIVED else POL_PARTIAL)"

definition recompute_po_status :: "int \<Rightarrow> db \<Rightarrow> po_status \<times> db" where
  "recompute_po_status po d =
     (let d1 = d\<lparr>po_lines := upd (\<lambda>l. pol_po l = po)
                 (\<lambda>l. l\<lparr>pol_state := line_status (pol_received l) (pol_ordered l)\<rparr>) (po_lines d)\<rparr>;
          lines = filter (\<lambda>l. pol_po l = po) (po_lines d1);
          st = (if lines \<noteq> [] \<and> (\<forall>l \<in> set lines. pol_ordered l \<le> pol_received l) then PO_RECEIVED
                else if \<exists>l \<in> set lines. 0 < pol_received l then PO_PARTIAL
                else PO_OPEN)
      in (st, d1\<lparr>purchase_orders := upd (\<lambda>p. po_id p = po) (\<lambda>p. p\<lparr>po_state := st\<rparr>)
                   (purchase_orders d1)\<rparr>))"

section \<open>Unreceive\<close>

datatype unreceive_error =
  UR_not_found int | UR_not_a_po_receipt int | UR_insufficient_available int int

record unreceive_result =
  ur_receipt :: int
  ur_po :: int
  ur_status :: po_status
  ur_quantity :: int
  ur_bins :: "(int \<times> int) list"

definition inv_avail :: "inv_row \<Rightarrow> int" where
  "inv_avail r = max 0 (on_hand r - allocated r)"

definition warehouse_available :: "int \<Rightarrow> int \<Rightarrow> db \<Rightarrow> int" where
  "warehouse_available item wh d =
     total (\<lambda>r. inv_item r = item \<and> inv_wh r = wh) inv_avail (inventory d)"

definition take_on_hand :: "int \<Rightarrow> int \<Rightarrow> db \<Rightarrow> db" where
  "take_on_hand i q d =
     d\<lparr>inventory := upd (\<lambda>r. inv_id r = i)
          (\<lambda>r. r\<lparr>on_hand := on_hand r - q, inv_updated := now d\<rparr>) (inventory d)\<rparr>"

text \<open>The first row of the receipt's own bin.\<close>

definition unreceive_origin ::
    "receipt_row \<Rightarrow> db \<Rightarrow> int \<times> (int \<times> int) list \<times> db" where
  "unreceive_origin rc d =
     (case List.find (\<lambda>r. inv_item r = rc_item rc \<and> inv_bin r = rc_bin rc \<and> inv_wh r = rc_wh rc)
             (inventory d) of
        None \<Rightarrow> (rc_qty rc, [], d)
      | Some r \<Rightarrow>
          if 0 < inv_avail r then
            let t = min (rc_qty rc) (inv_avail r)
            in (rc_qty rc - t, [(rc_bin rc, t)], take_on_hand (inv_id r) t d)
          else (rc_qty rc, [], d))"

text \<open>The other bins, most available first.\<close>

definition unreceive_others :: "receipt_row \<Rightarrow> db \<Rightarrow> inv_row list" where
  "unreceive_others rc d =
     sort_key (\<lambda>r. (- (on_hand r - allocated r), inv_bin r))
       (filter (\<lambda>r. inv_item r = rc_item rc \<and> inv_wh r = rc_wh rc \<and> inv_bin r \<noteq> rc_bin rc
                    \<and> 0 < on_hand r - allocated r) (inventory d))"

fun unreceive_walk ::
    "int \<Rightarrow> inv_row list \<Rightarrow> (int \<times> int) list \<times> db \<Rightarrow> int \<times> (int \<times> int) list \<times> db" where
  "unreceive_walk rem [] s = (rem, s)"
| "unreceive_walk rem (r # rs) s =
     (if rem \<le> 0 then (rem, s)
      else let t = min rem (inv_avail r) in
           if t \<le> 0 then unreceive_walk rem rs s
           else unreceive_walk (rem - t) rs
                  (fst s @ [(inv_bin r, t)], take_on_hand (inv_id r) t (snd s)))"

text \<open>The whole walk: what is left to reverse, the bins drained, the new state.\<close>

definition unreceive_take :: "receipt_row \<Rightarrow> db \<Rightarrow> int \<times> (int \<times> int) list \<times> db" where
  "unreceive_take rc d =
     (let (rem, bs, d1) = unreceive_origin rc d
      in if 0 < rem then unreceive_walk rem (unreceive_others rc d1) (bs, d1) else (rem, bs, d1))"

definition bin_decrements_json :: "(int \<times> int) list \<Rightarrow> json" where
  "bin_decrements_json bs =
     JArr [JObj [(''bin_id'', JInt b), (''quantity'', JInt q)]. (b, q) \<leftarrow> bs]"

definition unreceive_event ::
    "receipt_row \<Rightarrow> int \<Rightarrow> string \<Rightarrow> string option \<Rightarrow> string \<Rightarrow> db \<Rightarrow> db" where
  "unreceive_event rc po user reason txn d =
     (let po_ext' = (case List.find (\<lambda>p. po_id p = po) (purchase_orders d) of
                       Some p \<Rightarrow> JStr (po_ext p) | None \<Rightarrow> JNull);
          it_ext = (case find_item (rc_item rc) d of Some i \<Rightarrow> JStr (item_ext i) | None \<Rightarrow> JNull)
      in snd (emit_event ''receipt.cancelled'' 1 ''item_receipt'' (rc_id rc) (rc_ext rc) (rc_wh rc) txn
          (JObj [(''receipt_external_id'', JStr (rc_ext rc)),
                 (''po_external_id'', po_ext'),
                 (''lines'', JArr [JObj [(''item_external_id'', it_ext),
                                         (''quantity_reversed'', JInt (rc_qty rc)),
                                         (''lot_number'', jopt JStr (rc_lot rc)),
                                         (''serial_number'', jopt JStr (rc_serial rc))]]),
                 (''cancelled_by_user_external_id'', jopt JStr (get_user_external_id user d)),
                 (''cancelled_at'', JTime (now d)),
                 (''reason'', jopt JStr reason)]) d))"

definition unreceive_books ::
    "receipt_row \<Rightarrow> int \<Rightarrow> db \<Rightarrow> po_status \<times> db" where
  "unreceive_books rc po d =
     (let d1 = d\<lparr>po_lines := upd (\<lambda>l. Some (pol_id l) = rc_pol rc)
                 (\<lambda>l. l\<lparr>pol_received := max 0 (pol_received l - rc_qty rc)\<rparr>) (po_lines d)\<rparr>;
          d2 = d1\<lparr>receipts := filter (\<lambda>r. rc_id r \<noteq> rc_id rc) (receipts d1)\<rparr>
      in recompute_po_status po d2)"

definition record_unreceive ::
    "int \<Rightarrow> string \<Rightarrow> string option \<Rightarrow> string option \<Rightarrow> db \<Rightarrow> unreceive_error + (unreceive_result \<times> db)" where
  "record_unreceive rid user reason txn d =
     (case List.find (\<lambda>r. rc_id r = rid) (receipts d) of
        None \<Rightarrow> Inl (UR_not_found rid)
      | Some rc \<Rightarrow>
          (case rc_po rc of
             None \<Rightarrow> Inl (UR_not_a_po_receipt rid)
           | Some po \<Rightarrow>
               if warehouse_available (rc_item rc) (rc_wh rc) d < rc_qty rc
               then Inl (UR_insufficient_available (warehouse_available (rc_item rc) (rc_wh rc) d) (rc_qty rc))
               else
                 let (rem2, bs2, d2) = unreceive_take rc d
                 in if 0 < rem2 then Inl (UR_insufficient_available (rc_qty rc - rem2) (rc_qty rc))
                    else
                      let (st, d3) = unreceive_books rc po d2;
                          d4 = audit ''RECEIVE_CANCEL'' ''PO'' po user (rc_wh rc)
                                 (JObj [(''source'', JStr ''admin_unreceive''),
                                        (''receipt_id'', JInt rid),
                                        (''receipt_external_id'', JStr (rc_ext rc)),
                                        (''po_line_id'', jopt JInt (rc_pol rc)),
                                        (''item_id'', JInt (rc_item rc)),
                                        (''quantity_reversed'', JInt (rc_qty rc)),
                                        (''bin_decrements'', bin_decrements_json bs2),
                                        (''reason'', jopt JStr reason)]) d3;
                          d5 = (case txn of None \<Rightarrow> d4 | Some t \<Rightarrow> unreceive_event rc po user reason t d4)
                      in Inr (\<lparr>ur_receipt = rid, ur_po = po, ur_status = st,
                               ur_quantity = rc_qty rc, ur_bins = bs2\<rparr>, d5)))"


section \<open>Receive\<close>

record receive_entry =
  re_item :: int
  re_qty :: int
  re_bin :: int
  re_lot :: "string option"
  re_serial :: "string option"
  re_notes :: "string option"

datatype receive_error =
  RE_po_not_found
| RE_po_status po_status
| RE_bin_not_found int
| RE_bin_other_warehouse int
| RE_item_not_on_po int
| RE_over_receipt int int int
| RE_cross_po "int list"

record receive_state =
  rs_db :: db
  rs_receipts :: "int list"
  rs_warnings :: "(int \<times> int \<times> int) list"
  rs_notifications :: "notification list"
  rs_audits :: "json list"

definition over_receipt_allowed :: "db \<Rightarrow> bool" where
  "over_receipt_allowed d \<longleftrightarrow> settings d ''allow_over_receipt'' = Some ''true''"

definition insert_receipt ::
    "int \<Rightarrow> int \<Rightarrow> int \<Rightarrow> string \<Rightarrow> receive_entry \<Rightarrow> db \<Rightarrow> receipt_row \<times> db" where
  "insert_receipt po line wh user e d =
     (let (u, d1) = uuid4 d;
          (i, d2) = nextval Seq_receipt d1;
          r = \<lparr>rc_id = i, rc_po = Some po, rc_pol = Some line, rc_so = None, rc_sol = None, rc_item = re_item e,
               rc_qty = re_qty e, rc_bin = re_bin e, rc_wh = wh, rc_lot = re_lot e,
               rc_serial = re_serial e, rc_by = user, rc_notes = re_notes e,
               rc_ext = u, rc_at = now d\<rparr>
      in (r, d2\<lparr>receipts := receipts d2 @ [r]\<rparr>))"

definition receipt_event ::
    "receipt_row \<Rightarrow> string \<Rightarrow> json \<Rightarrow> string \<Rightarrow> db \<Rightarrow> db" where
  "receipt_event r po_ext' user_ext txn d =
     (let it_ext = (case find_item (rc_item r) d of
                      Some i \<Rightarrow> JStr (source_or_canonical ''item'' (item_ext i) d) | None \<Rightarrow> JNull)
      in snd (emit_event ''receipt.completed'' 1 ''item_receipt'' (rc_id r) (rc_ext r) (rc_wh r) txn
           (JObj [(''receipt_external_id'', JStr (rc_ext r)),
                  (''po_external_id'', JStr po_ext'),
                  (''lines'', JArr [JObj [(''item_external_id'', it_ext),
                                          (''quantity_received'', JInt (rc_qty r)),
                                          (''lot_number'', jopt JStr (rc_lot r)),
                                          (''serial_number'', jopt JStr (rc_serial r))]]),
                  (''completed_by_user_external_id'', user_ext),
                  (''completed_at'', JTime (rc_at r))]) d))"

definition book_line :: "pol_row \<Rightarrow> int \<Rightarrow> db \<Rightarrow> db" where
  "book_line l q d =
     d\<lparr>po_lines := upd (\<lambda>x. pol_id x = pol_id l)
         (\<lambda>x. x\<lparr>pol_received := pol_received l + q,
                pol_state := (if pol_ordered l \<le> pol_received l + q then POL_RECEIVED else POL_PARTIAL)\<rparr>)
         (po_lines d)\<rparr>"

definition receive_post ::
    "po_row \<Rightarrow> session \<Rightarrow> string \<Rightarrow> json \<Rightarrow> receive_entry \<Rightarrow> pol_row \<Rightarrow> bool \<Rightarrow> receive_state \<Rightarrow> receive_state" where
  "receive_post po s po_ext' user_ext e l over st =
     (let (r, d1) = insert_receipt (po_id po) (pol_id l) (po_wh po) (s_user s) e (rs_db st);
          d2 = book_line l (re_qty e) d1;
          d3 = snd (add_inventory (re_item e) (re_bin e) (po_wh po) (re_qty e) (re_lot e) d2);
          d4 = receipt_event r po_ext' user_ext (s_txn s) d3;
          (d5, ns) = release_satisfiable_backorders (po_wh po) (re_item e) (s_txn s) ''receipt'' d4;
          aud = JObj [(''quantity_ordered'', JInt (pol_ordered l)),
                      (''quantity_received_before'', JInt (pol_received l)),
                      (''quantity'', JInt (re_qty e)), (''item_id'', JInt (re_item e)),
                      (''bin_id'', JInt (re_bin e)), (''receipt_id'', JInt (rc_id r))]
      in \<lparr>rs_db = d5, rs_receipts = rs_receipts st @ [rc_id r],
          rs_warnings = rs_warnings st @
            (if over then [(pol_number l, re_qty e, pol_ordered l - pol_received l)] else []),
          rs_notifications = rs_notifications st @ ns,
          rs_audits = rs_audits st @ [aud]\<rparr>)"

definition find_po_line :: "int \<Rightarrow> int \<Rightarrow> db \<Rightarrow> pol_row option" where
  "find_po_line po item d = List.find (\<lambda>l. pol_po l = po \<and> pol_item l = item) (po_lines d)"

definition receive_one ::
    "po_row \<Rightarrow> session \<Rightarrow> string \<Rightarrow> json \<Rightarrow> receive_entry \<Rightarrow> receive_state \<Rightarrow> receive_error + receive_state" where
  "receive_one po s po_ext' user_ext e st =
     (let d = rs_db st in
      case find_bin (re_bin e) d of
        None \<Rightarrow> Inl (RE_bin_not_found (re_bin e))
      | Some b \<Rightarrow>
          if bin_wh b \<noteq> po_wh po then Inl (RE_bin_other_warehouse (re_bin e))
          else
            (case find_po_line (po_id po) (re_item e) d of
               None \<Rightarrow> Inl (RE_item_not_on_po (re_item e))
             | Some l \<Rightarrow>
                 let remaining = pol_ordered l - pol_received l in
                 if remaining < re_qty e \<and> \<not> over_receipt_allowed d
                 then Inl (RE_over_receipt (pol_number l) (re_qty e) remaining)
                 else Inr (receive_post po s po_ext' user_ext e l (remaining < re_qty e) st)))"

fun receive_loop ::
    "po_row \<Rightarrow> session \<Rightarrow> string \<Rightarrow> json \<Rightarrow> receive_entry list \<Rightarrow> receive_state \<Rightarrow> receive_error + receive_state" where
  "receive_loop po s x u [] st = Inr st"
| "receive_loop po s x u (e # es) st =
     (case receive_one po s x u e st of
        Inl err \<Rightarrow> Inl err | Inr st' \<Rightarrow> receive_loop po s x u es st')"

record receive_result =
  rr_receipts :: "int list"
  rr_status :: po_status
  rr_warnings :: "(int \<times> int \<times> int) list"
  rr_notifications :: "notification list"

definition close_receive :: "int \<Rightarrow> db \<Rightarrow> po_status \<times> db" where
  "close_receive po d =
     (if \<forall>l \<in> set (filter (\<lambda>l. pol_po l = po) (po_lines d)). pol_state l = POL_RECEIVED
      then (PO_RECEIVED, d\<lparr>purchase_orders := upd (\<lambda>p. po_id p = po)
             (\<lambda>p. p\<lparr>po_state := PO_RECEIVED, po_received_at := Some (now d)\<rparr>) (purchase_orders d)\<rparr>)
      else (PO_PARTIAL, d\<lparr>purchase_orders := upd (\<lambda>p. po_id p = po)
             (\<lambda>p. p\<lparr>po_state := PO_PARTIAL\<rparr>) (purchase_orders d)\<rparr>))"

definition find_po_scoped :: "session \<Rightarrow> int \<Rightarrow> db \<Rightarrow> po_row option" where
  "find_po_scoped s po d =
     List.find (\<lambda>p. po_id p = po \<and> warehouse_scope_clause s (po_wh p)) (purchase_orders d)"

definition receive_items ::
    "session \<Rightarrow> int \<Rightarrow> receive_entry list \<Rightarrow> db \<Rightarrow> receive_error + (receive_result \<times> db)" where
  "receive_items s pid es d =
     (case find_po_scoped s pid d of
        None \<Rightarrow> Inl RE_po_not_found
      | Some po \<Rightarrow>
          if po_state po \<noteq> PO_OPEN \<and> po_state po \<noteq> PO_PARTIAL then Inl (RE_po_status (po_state po))
          else
            (case receive_loop po s (source_or_canonical ''purchase_order'' (po_ext po) d)
                    (jopt JStr (get_user_external_id (s_user s) d)) es
                    \<lparr>rs_db = d, rs_receipts = [], rs_warnings = [], rs_notifications = [],
                     rs_audits = []\<rparr> of
               Inl err \<Rightarrow> Inl err
             | Inr st \<Rightarrow>
                 let d1 = fold (audit ''RECEIVE'' ''PO'' pid (s_user s) (po_wh po)) (rs_audits st) (rs_db st);
                     (ps, d2) = close_receive pid d1
                 in Inr (\<lparr>rr_receipts = rs_receipts st, rr_status = ps,
                          rr_warnings = rs_warnings st,
                          rr_notifications = rs_notifications st\<rparr>, d2)))"

section \<open>Cancel a receiving session\<close>

definition cancel_one :: "receipt_row \<Rightarrow> db \<Rightarrow> db" where
  "cancel_one rc d =
     (let d1 = d\<lparr>inventory := upd (\<lambda>r. inv_item r = rc_item rc \<and> inv_bin r = rc_bin rc \<and> inv_wh r = rc_wh rc)
                 (\<lambda>r. r\<lparr>on_hand := max 0 (on_hand r - rc_qty rc)\<rparr>) (inventory d)\<rparr>;
          d2 = d1\<lparr>po_lines := upd (\<lambda>l. Some (pol_id l) = rc_pol rc)
                 (\<lambda>l. let q = max 0 (pol_received l - rc_qty rc)
                      in l\<lparr>pol_received := q, pol_state := line_status q (pol_ordered l)\<rparr>) (po_lines d1)\<rparr>
      in d2\<lparr>receipts := filter (\<lambda>r. rc_id r \<noteq> rc_id rc) (receipts d2)\<rparr>)"

record cancel_state =
  cs_db :: db
  cs_pos :: "int option list"
  cs_reversed :: "(int \<times> int list) list"
  cs_count :: int

definition find_receipt_scoped :: "session \<Rightarrow> int \<Rightarrow> db \<Rightarrow> receipt_row option" where
  "find_receipt_scoped s rid d =
     List.find (\<lambda>r. rc_id r = rid \<and> warehouse_scope_clause s (rc_wh r)) (receipts d)"

definition cancel_step :: "session \<Rightarrow> int \<Rightarrow> cancel_state \<Rightarrow> cancel_state" where
  "cancel_step s rid st =
     (case find_receipt_scoped s rid (cs_db st) of
        None \<Rightarrow> st
      | Some rc \<Rightarrow>
          \<lparr>cs_db = cancel_one rc (cs_db st),
           cs_pos = List.insert (rc_po rc) (cs_pos st),
           cs_reversed = add_entry (rc_wh rc) rid (cs_reversed st),
           cs_count = cs_count st + 1\<rparr>)"

text \<open>A NULL po id (an RMA goods-in receipt) selects no lines and updates no order.\<close>

definition cancel_po_status :: "int option \<Rightarrow> db \<Rightarrow> db" where
  "cancel_po_status pid d =
     (let lines = filter (\<lambda>l. Some (pol_po l) = pid) (po_lines d);
          st = (if \<forall>l \<in> set lines. pol_ordered l \<le> pol_received l then PO_RECEIVED
                else if \<exists>l \<in> set lines. 0 < pol_received l then PO_PARTIAL
                else PO_OPEN)
      in d\<lparr>purchase_orders := upd (\<lambda>p. Some (po_id p) = pid) (\<lambda>p. p\<lparr>po_state := st\<rparr>) (purchase_orders d)\<rparr>)"

definition mismatched_receipts :: "session \<Rightarrow> int \<Rightarrow> int list \<Rightarrow> db \<Rightarrow> int list" where
  "mismatched_receipts s pid rids d =
     take 20 (map rc_id (filter (\<lambda>r. rc_id r \<in> set rids \<and> (\<exists>p. rc_po r = Some p \<and> p \<noteq> pid)
                                   \<and> warehouse_scope_clause s (rc_wh r)) (receipts d)))"

definition cancel_receiving ::
    "session \<Rightarrow> int \<Rightarrow> int list \<Rightarrow> db \<Rightarrow> receive_error + (int \<times> db)" where
  "cancel_receiving s pid rids d =
     (if rids = [] then Inr (0, d)
      else if mismatched_receipts s pid rids d \<noteq> [] then Inl (RE_cross_po (mismatched_receipts s pid rids d))
      else
        let st = fold (cancel_step s) rids
                   \<lparr>cs_db = d, cs_pos = [Some pid], cs_reversed = [], cs_count = 0\<rparr>;
            d1 = fold cancel_po_status (cs_pos st) (cs_db st);
            d2 = fold (\<lambda>(wh, ids). audit ''RECEIVE_CANCEL'' ''PO'' pid (s_user s) wh
                         (JObj [(''reversed_receipts'', JInt (int (length ids))),
                                (''receipt_ids'', JArr (map JInt ids))])) (cs_reversed st) d1
        in Inr (cs_count st, d2))"

section \<open>Purchase-order lookup\<close>

definition lookup_po :: "session \<Rightarrow> string \<Rightarrow> db \<Rightarrow> receive_error + (po_row \<times> (pol_row \<times> item_row \<times> int) list)" where
  "lookup_po s barcode d =
     (case List.find (\<lambda>p. (po_barcode p = Some barcode \<or> po_number p = barcode)
                         \<and> warehouse_scope_clause s (po_wh p)) (purchase_orders d) of
        None \<Rightarrow> Inl RE_po_not_found
      | Some p \<Rightarrow>
          if po_state p = PO_CLOSED then Inl (RE_po_status PO_CLOSED)
          else Inr (p, [(l, i, pol_ordered l - pol_received l).
                        l \<leftarrow> sort_key pol_number (filter (\<lambda>l. pol_po l = po_id p) (po_lines d)),
                        i \<leftarrow> items d, item_id i = pol_item l]))"

section \<open>The unreceive walk is complete\<close>

definition drain_row :: "inv_row \<Rightarrow> int \<Rightarrow> (int \<times> int) list \<times> db \<Rightarrow> (int \<times> int) list \<times> db" where
  "drain_row r t s = (fst s @ [(inv_bin r, t)], take_on_hand (inv_id r) t (snd s))"

interpretation unreceive: greedy_loop inv_avail drain_row unreceive_walk
  by unfold_locales (auto simp: drain_row_def Let_def)

text \<open>One row per item and bin: no bin holds two lots of one item.\<close>

definition single_lot :: "db \<Rightarrow> bool" where
  "single_lot d \<longleftrightarrow> distinct (map (\<lambda>r. (inv_item r, inv_bin r)) (inventory d))"

lemma take_on_hand_frame [simp]:
  "now (take_on_hand i q d) = now d" "receipts (take_on_hand i q d) = receipts d"
  "po_lines (take_on_hand i q d) = po_lines d"
  "purchase_orders (take_on_hand i q d) = purchase_orders d"
  "items (take_on_hand i q d) = items d" "users (take_on_hand i q d) = users d"
  "events (take_on_hand i q d) = events d" "audit_log (take_on_hand i q d) = audit_log d"
  "seqs (take_on_hand i q d) = seqs d"
  by (simp_all add: take_on_hand_def)

lemma take_on_hand_wf: "inv_wf d \<Longrightarrow> inv_wf (take_on_hand i q d)"
  unfolding take_on_hand_def by (rule inv_wf_upd) (auto simp: inv_key_def)

lemma take_on_hand_stock:
  "inv_wf d \<Longrightarrow> r \<in> set (inventory d) \<Longrightarrow>
     stock (take_on_hand (inv_id r) q d) item = stock d item - (if inv_item r = item then q else 0)"
  unfolding take_on_hand_def by (subst stock_upd_row) (auto simp: inv_key_def)

lemma take_on_hand_sound:
  assumes "inv_wf d" "inv_sound d" "r \<in> set (inventory d)" "q \<le> inv_avail r"
  shows "inv_sound (take_on_hand (inv_id r) q d)"
proof -
  have "x = r" if "x \<in> set (inventory d)" "inv_id x = inv_id r" for x
    using key_inj [of inv_id "inventory d" x r] assms(1,3) that by (simp add: inv_wf_def)
  with assms show ?thesis
    by (fastforce simp: inv_sound_def take_on_hand_def set_upd inv_avail_def)
qed

lemma take_on_hand_other:
  "r \<in> set (inventory d) \<Longrightarrow> inv_id r \<noteq> i \<Longrightarrow> r \<in> set (inventory (take_on_hand i q d))"
  by (simp add: take_on_hand_def in_upd_other)

text \<open>Draining fresh rows lowers the stock by what the demand loses and never below the
  reservations.\<close>

lemma unreceive_walk_effect:
  assumes "inv_wf (snd s)" "inv_sound (snd s)" "set rs \<subseteq> set (inventory (snd s))"
    "distinct (map inv_id rs)" "\<And>r. r \<in> set rs \<Longrightarrow> inv_item r = item"
    "unreceive_walk rem rs s = (rem', bs', d')"
  shows "inv_wf d' \<and> inv_sound d' \<and> stock d' item = stock (snd s) item - (rem - rem')
    \<and> (\<Sum>(b, q) \<leftarrow> bs'. q) = (\<Sum>(b, q) \<leftarrow> fst s. q) + (rem - rem')"
  using assms
proof (induction rem rs s rule: unreceive_walk.induct)
  case (1 rem s)
  then show ?case by auto
next
  case (2 rem r rs s)
  let ?t = "min rem (inv_avail r)"
  show ?case
  proof (cases "rem \<le> 0 \<or> ?t \<le> 0")
    case True
    with 2 show ?thesis by (auto simp: Let_def split: if_splits)
  next
    case False
    let ?s = "(fst s @ [(inv_bin r, ?t)], take_on_hand (inv_id r) ?t (snd s))"
    have r: "r \<in> set (inventory (snd s))" using "2.prems"(3) by simp
    have ne: "inv_id x \<noteq> inv_id r" if "x \<in> set rs" for x
      using "2.prems"(4) that by (auto simp: rev_image_eqI)
    have walk: "unreceive_walk (rem - ?t) rs ?s = (rem', bs', d')"
      using "2.prems"(6) False by (simp add: Let_def)
    have sub: "set rs \<subseteq> set (inventory (snd ?s))"
      using "2.prems"(3) ne take_on_hand_other by fastforce
    have "inv_wf d' \<and> inv_sound d' \<and> stock d' item = stock (snd ?s) item - (rem - ?t - rem')
      \<and> (\<Sum>(b, q) \<leftarrow> bs'. q) = (\<Sum>(b, q) \<leftarrow> fst ?s. q) + (rem - ?t - rem')"
      by (rule "2.IH"(2) [OF _ refl])
        (use False sub walk "2.prems" take_on_hand_wf take_on_hand_sound [OF _ _ r] in auto)
    then show ?thesis
      using take_on_hand_stock [OF "2.prems"(1) r, of ?t item] "2.prems"(5) by auto
  qed
qed

text \<open>What the origin bin gives, and what stays available elsewhere.\<close>

lemma total_others:
  "total (\<lambda>r. (inv_item r = i \<and> inv_wh r = w) \<and> inv_bin r \<noteq> b) inv_avail t
     = sum_list (map inv_avail (filter (\<lambda>r. inv_item r = i \<and> inv_wh r = w \<and> inv_bin r \<noteq> b
         \<and> 0 < on_hand r - allocated r) t))"
  by (induction t) (auto simp: inv_avail_def)

lemma warehouse_available_split:
  assumes "single_lot d"
  shows "warehouse_available (rc_item rc) (rc_wh rc) d
    = (case List.find (\<lambda>r. inv_item r = rc_item rc \<and> inv_bin r = rc_bin rc \<and> inv_wh r = rc_wh rc)
             (inventory d) of None \<Rightarrow> 0 | Some r \<Rightarrow> inv_avail r)
      + sum_list (map inv_avail (unreceive_others rc d))"
proof -
  let ?P = "\<lambda>r. inv_item r = rc_item rc \<and> inv_wh r = rc_wh rc"
  let ?B = "\<lambda>r. inv_bin r = rc_bin rc"
  have "total ?P inv_avail (inventory d)
      = total (\<lambda>r. ?P r \<and> ?B r) inv_avail (inventory d) + total (\<lambda>r. ?P r \<and> \<not> ?B r) inv_avail (inventory d)"
    by (rule total_split)
  also have "total (\<lambda>r. ?P r \<and> ?B r) inv_avail (inventory d)
      = (case List.find (\<lambda>r. ?P r \<and> ?B r) (inventory d) of None \<Rightarrow> 0 | Some r \<Rightarrow> inv_avail r)"
    by (rule find_total [of "\<lambda>r. (inv_item r, inv_bin r)"]) (use assms in \<open>auto simp: single_lot_def\<close>)
  also have "(\<lambda>r. ?P r \<and> ?B r) = (\<lambda>r. inv_item r = rc_item rc \<and> inv_bin r = rc_bin rc \<and> inv_wh r = rc_wh rc)"
    by auto
  also have "total (\<lambda>r. ?P r \<and> \<not> ?B r) inv_avail (inventory d)
      = sum_list (map inv_avail (unreceive_others rc d))"
    unfolding unreceive_others_def sum_list_sort_key by (rule total_others)
  finally show ?thesis by (simp add: warehouse_available_def)
qed

lemma unreceive_others_same:
  assumes "\<And>r. inv_id r = i \<Longrightarrow> r \<in> set (inventory d) \<Longrightarrow> inv_bin r = rc_bin rc"
  shows "unreceive_others rc (take_on_hand i q d) = unreceive_others rc d"
proof -
  have same: "filter (\<lambda>r. inv_item r = rc_item rc \<and> inv_wh r = rc_wh rc \<and> inv_bin r \<noteq> rc_bin rc
          \<and> 0 < on_hand r - allocated r)
        (upd (\<lambda>r. inv_id r = i) (\<lambda>r. r\<lparr>on_hand := on_hand r - q, inv_updated := now d\<rparr>) t)
      = filter (\<lambda>r. inv_item r = rc_item rc \<and> inv_wh r = rc_wh rc \<and> inv_bin r \<noteq> rc_bin rc
          \<and> 0 < on_hand r - allocated r) t"
    if "\<And>r. inv_id r = i \<Longrightarrow> r \<in> set t \<Longrightarrow> inv_bin r = rc_bin rc" for t
    using that by (induction t) auto
  show ?thesis
    using arg_cong [OF same [of "inventory d"], of "sort_key (\<lambda>r. (- (on_hand r - allocated r), inv_bin r))"]
      assms
    by (simp add: unreceive_others_def take_on_hand_def)
qed

lemma unreceive_others_rows:
  "inv_wf d \<Longrightarrow> distinct (map inv_id (unreceive_others rc d))"
  "set (unreceive_others rc d) \<subseteq> set (inventory d)"
  "r \<in> set (unreceive_others rc d) \<Longrightarrow> inv_item r = rc_item rc \<and> 0 < inv_avail r"
  by (auto simp: unreceive_others_def inv_avail_def inv_wf_def distinct_map inj_on_def)

text \<open>The origin step: what it leaves, and that it only touches the origin bin.\<close>

lemma unreceive_origin_effect:
  assumes "inv_wf d" "inv_sound d" "0 \<le> rc_qty rc" "unreceive_origin rc d = (rem, bs, d1)"
  shows "inv_wf d1 \<and> inv_sound d1 \<and> unreceive_others rc d1 = unreceive_others rc d
    \<and> stock d1 (rc_item rc) = stock d (rc_item rc) - (rc_qty rc - rem)
    \<and> (\<Sum>(b, q) \<leftarrow> bs. q) = rc_qty rc - rem \<and> 0 \<le> rem
    \<and> rem = max 0 (rc_qty rc
        - (case List.find (\<lambda>r. inv_item r = rc_item rc \<and> inv_bin r = rc_bin rc \<and> inv_wh r = rc_wh rc)
             (inventory d) of None \<Rightarrow> 0 | Some r \<Rightarrow> inv_avail r))"
proof (cases "List.find (\<lambda>r. inv_item r = rc_item rc \<and> inv_bin r = rc_bin rc \<and> inv_wh r = rc_wh rc)
             (inventory d)")
  case None
  with assms show ?thesis by (auto simp: unreceive_origin_def)
next
  case (Some r)
  note r = find_Some_iff_first [OF Some]
  show ?thesis
  proof (cases "0 < inv_avail r")
    case False
    with assms Some show ?thesis by (auto simp: unreceive_origin_def inv_avail_def)
  next
    case True
    let ?t = "min (rc_qty rc) (inv_avail r)"
    have e: "rem = rc_qty rc - ?t" "bs = [(rc_bin rc, ?t)]" "d1 = take_on_hand (inv_id r) ?t d"
      using assms(4) Some True by (auto simp: unreceive_origin_def Let_def)
    have bin: "inv_bin x = rc_bin rc" if "inv_id x = inv_id r" "x \<in> set (inventory d)" for x
      using key_inj [of inv_id "inventory d" x r] assms(1) that r by (auto simp: inv_wf_def)
    have "inv_sound d1"
      unfolding e using r assms by (intro take_on_hand_sound) auto
    moreover have "unreceive_others rc d1 = unreceive_others rc d"
      unfolding e by (rule unreceive_others_same) (rule bin)
    ultimately show ?thesis
      using assms(1,3) r Some True
      by (auto simp: e take_on_hand_wf take_on_hand_stock)
  qed
qed

text \<open>With one lot per bin the walk reverses the whole receipt whenever the
  warehouse holds enough; every reservation is respected.\<close>

lemma unreceive_take_complete:
  assumes "inv_wf d" "inv_sound d" "single_lot d" "0 \<le> rc_qty rc"
    "rc_qty rc \<le> warehouse_available (rc_item rc) (rc_wh rc) d"
    "unreceive_take rc d = (rem, bs, d')"
  shows "rem = 0 \<and> inv_wf d' \<and> inv_sound d'
    \<and> stock d' (rc_item rc) = stock d (rc_item rc) - rc_qty rc
    \<and> (\<Sum>(b, q) \<leftarrow> bs. q) = rc_qty rc"
proof -
  obtain rem1 bs1 d1 where o1: "unreceive_origin rc d = (rem1, bs1, d1)"
    by (metis prod_cases3)
  note eff = unreceive_origin_effect [OF assms(1,2,4) o1]
  show ?thesis
  proof (cases "0 < rem1")
    case False
    with eff o1 assms(6) show ?thesis by (auto simp: unreceive_take_def)
  next
    case True
    let ?rs = "unreceive_others rc d"
    have walk: "unreceive_walk rem1 ?rs (bs1, d1) = (rem, bs, d')"
      using assms(6) o1 True eff by (simp add: unreceive_take_def)
    have "rem = max 0 (rem1 - sum_list (map inv_avail ?rs))"
      using unreceive.left_over [of rem1 ?rs "(bs1, d1)"] unreceive_others_rows(3) walk True by auto
    with eff True assms(5) warehouse_available_split [OF assms(3), of rc] have "rem = 0"
      by (auto simp: max_def split: if_splits)
    moreover have "inv_wf d' \<and> inv_sound d' \<and> stock d' (rc_item rc) = stock d1 (rc_item rc) - (rem1 - rem)
      \<and> (\<Sum>(b, q) \<leftarrow> bs. q) = (\<Sum>(b, q) \<leftarrow> bs1. q) + (rem1 - rem)"
      using unreceive_walk_effect [OF _ _ _ _ _ walk, of "rc_item rc"] eff
        unreceive_others_rows [where d = d1 and rc = rc]
      by (metis fst_conv snd_conv)
    ultimately show ?thesis using eff by simp
  qed
qed


section \<open>Receiving posts to the ledger\<close>

text \<open>Two databases with the same stock, clock and inventory sequence.\<close>

definition same_stock :: "db \<Rightarrow> db \<Rightarrow> bool" where
  "same_stock d d' \<longleftrightarrow> inventory d = inventory d' \<and> now d = now d'
     \<and> seqs d Seq_inventory = seqs d' Seq_inventory"

lemma same_stock_add:
  "same_stock d d' \<Longrightarrow>
     same_stock (snd (add_inventory i b w q l d)) (snd (add_inventory i b w q l d'))"
  by (auto simp: same_stock_def add_inventory_def find_inv_def nextval_def split: option.splits)

lemma same_stock_cell: "same_stock d d' \<Longrightarrow> cell d = cell d'"
  by (simp add: same_stock_def cell_def)

lemma same_stock_wf: "same_stock d d' \<Longrightarrow> inv_wf d = inv_wf d'"
  by (simp add: same_stock_def inv_wf_def)

lemma same_stock_trans [trans]: "same_stock a b \<Longrightarrow> same_stock b c \<Longrightarrow> same_stock a c"
  by (simp add: same_stock_def)

lemma insert_receipt_frame [simp]:
  "inventory (snd (insert_receipt po l w u e d)) = inventory d"
  "now (snd (insert_receipt po l w u e d)) = now d"
  "settings (snd (insert_receipt po l w u e d)) = settings d"
  "po_lines (snd (insert_receipt po l w u e d)) = po_lines d"
  "purchase_orders (snd (insert_receipt po l w u e d)) = purchase_orders d"
  "seqs (snd (insert_receipt po l w u e d)) Seq_inventory = seqs d Seq_inventory"
  "seqs (snd (insert_receipt po l w u e d)) Seq_receipt = seqs d Seq_receipt + 1"
  "receipts (snd (insert_receipt po l w u e d)) = receipts d @ [fst (insert_receipt po l w u e d)]"
  "rc_id (fst (insert_receipt po l w u e d)) = seqs d Seq_receipt"
  "rc_pol (fst (insert_receipt po l w u e d)) = Some l"
  "rc_qty (fst (insert_receipt po l w u e d)) = re_qty e"
  by (simp_all add: insert_receipt_def uuid4_def nextval_def Let_def)

lemma book_line_frame [simp]:
  "inventory (book_line l q d) = inventory d" "now (book_line l q d) = now d"
  "settings (book_line l q d) = settings d" "receipts (book_line l q d) = receipts d"
  "purchase_orders (book_line l q d) = purchase_orders d" "seqs (book_line l q d) = seqs d"
  by (simp_all add: book_line_def)

lemma receipt_event_frame [simp]:
  "inventory (receipt_event r x u t d) = inventory d" "now (receipt_event r x u t d) = now d"
  "settings (receipt_event r x u t d) = settings d" "receipts (receipt_event r x u t d) = receipts d"
  "po_lines (receipt_event r x u t d) = po_lines d"
  "purchase_orders (receipt_event r x u t d) = purchase_orders d"
  "q \<noteq> Seq_event \<Longrightarrow> seqs (receipt_event r x u t d) q = seqs d q"
  by (simp_all add: receipt_event_def Let_def)

text \<open>One received line: the receipt row, the line's new total, the posted stock.\<close>

lemma release_supply: "same_supply d (fst (release_satisfiable_backorders wh item txn src d))"
  using release_fold [of d "(d, [])" wh txn src "waiting_candidates wh item d"]
  by (simp add: release_satisfiable_backorders_def)

lemma receive_post_effect:
  fixes po s x u e l over st
  defines "d \<equiv> rs_db st" and "d' \<equiv> rs_db (receive_post po s x u e l over st)"
  shows "po_lines d' = po_lines (book_line l (re_qty e) d)"
    "receipts d' = receipts d @ [fst (insert_receipt (po_id po) (pol_id l) (po_wh po) (s_user s) e d)]"
    "settings d' = settings d"
    "purchase_orders d' = purchase_orders d"
    "seqs d' Seq_receipt = seqs d Seq_receipt + 1"
    "same_stock d' (post_cell (po_wh po) (re_item e, re_bin e, re_lot e) (re_qty e) d)"
proof -
  let ?d1 = "snd (insert_receipt (po_id po) (pol_id l) (po_wh po) (s_user s) e d)"
  let ?r = "fst (insert_receipt (po_id po) (pol_id l) (po_wh po) (s_user s) e d)"
  let ?d3 = "snd (add_inventory (re_item e) (re_bin e) (po_wh po) (re_qty e) (re_lot e)
     (book_line l (re_qty e) ?d1))"
  let ?d4 = "receipt_event ?r x u (s_txn s) ?d3"
  have d': "d' = fst (release_satisfiable_backorders (po_wh po) (re_item e) (s_txn s) ''receipt'' ?d4)"
    unfolding d'_def d_def receive_post_def by (simp add: split_beta Let_def)
  note fr = release_frame [of "po_wh po" "re_item e" "s_txn s" "''receipt''" ?d4]
    and su = release_supply [of ?d4 "po_wh po" "re_item e" "s_txn s" "''receipt''"]
  have "same_stock d (book_line l (re_qty e) ?d1)" by (simp add: same_stock_def)
  from same_stock_add [OF this, of "re_item e" "re_bin e" "po_wh po" "re_qty e" "re_lot e"]
  show "same_stock d' (post_cell (po_wh po) (re_item e, re_bin e, re_lot e) (re_qty e) d)"
    using fr su by (simp add: d' same_stock_def post_cell_def same_supply_def)
  show "po_lines d' = po_lines (book_line l (re_qty e) d)"
    using fr by (simp add: d' book_line_def)
  show "receipts d' = receipts d @ [?r]" "settings d' = settings d"
    "purchase_orders d' = purchase_orders d" "seqs d' Seq_receipt = seqs d Seq_receipt + 1"
    using fr by (simp_all add: d')
qed

lemma receive_one_Inr:
  assumes "receive_one po s x u e st = Inr st'"
  obtains l over where "find_po_line (po_id po) (re_item e) (rs_db st) = Some l"
    "st' = receive_post po s x u e l over st"
    "pol_received l + re_qty e \<le> pol_ordered l \<or> over_receipt_allowed (rs_db st)"
  using assms by (auto simp: receive_one_def Let_def split: option.splits if_splits)

text \<open>An invariant every posted line keeps survives the whole request.\<close>

lemma receive_loop_invariant:
  assumes "receive_loop po s x u es st = Inr st'" "I (rs_db st)"
    and "\<And>e l over st. e \<in> set es \<Longrightarrow> find_po_line (po_id po) (re_item e) (rs_db st) = Some l \<Longrightarrow>
      pol_received l + re_qty e \<le> pol_ordered l \<or> over_receipt_allowed (rs_db st) \<Longrightarrow>
      I (rs_db st) \<Longrightarrow> I (rs_db (receive_post po s x u e l over st))"
  shows "I (rs_db st')"
  using assms
proof (induction es arbitrary: st)
  case Nil
  then show ?case by simp
next
  case (Cons e es)
  from Cons.prems(1) obtain st1 where st1: "receive_one po s x u e st = Inr st1"
    "receive_loop po s x u es st1 = Inr st'"
    by (auto split: sum.splits)
  from receive_one_Inr [OF st1(1)] obtain l over where
    l: "find_po_line (po_id po) (re_item e) (rs_db st) = Some l"
    "st1 = receive_post po s x u e l over st"
    "pol_received l + re_qty e \<le> pol_ordered l \<or> over_receipt_allowed (rs_db st)" .
  have "I (rs_db st1)" using Cons.prems(2,3) l by simp
  with Cons.IH [OF st1(2)] Cons.prems(3) show ?case by simp
qed

definition posting :: "po_row \<Rightarrow> receive_entry \<Rightarrow> int \<times> (int \<times> int \<times> string option) \<times> int" where
  "posting po e = (po_wh po, (re_item e, re_bin e, re_lot e), re_qty e)"

lemma receive_loop_posts:
  "receive_loop po s x u es st = Inr st' \<Longrightarrow> same_stock (rs_db st) d \<Longrightarrow>
     same_stock (rs_db st') (fold (\<lambda>(w, k, q). post_cell w k q) (map (posting po) es) d)"
proof (induction es arbitrary: st d)
  case Nil
  then show ?case by simp
next
  case (Cons e es)
  from Cons.prems(1) obtain st1 where st1: "receive_one po s x u e st = Inr st1"
    "receive_loop po s x u es st1 = Inr st'"
    by (auto split: sum.splits)
  from receive_one_Inr [OF st1(1)] obtain l over where
    l: "st1 = receive_post po s x u e l over st" .
  have "same_stock (rs_db st1) (post_cell (po_wh po) (re_item e, re_bin e, re_lot e) (re_qty e) (rs_db st))"
    unfolding l by (rule receive_post_effect)
  also have "same_stock \<dots> (post_cell (po_wh po) (re_item e, re_bin e, re_lot e) (re_qty e) d)"
    using same_stock_add [OF Cons.prems(2)] by (simp add: post_cell_def)
  finally show ?case
    using Cons.IH [OF st1(2)] by (simp add: posting_def)
qed


section \<open>The receipt books\<close>

text \<open>
  Every line's received quantity is the sum of its receipts; receipts carry
  positive quantities and identifiers drawn from their sequence.
\<close>

definition books_ok :: "db \<Rightarrow> bool" where
  "books_ok d \<longleftrightarrow> distinct (map pol_id (po_lines d)) \<and> distinct (map rc_id (receipts d))
     \<and> (\<forall>r \<in> set (receipts d). 0 < rc_qty r \<and> rc_id r < seqs d Seq_receipt)
     \<and> (\<forall>l \<in> set (po_lines d).
          pol_received l = total (\<lambda>r. rc_pol r = Some (pol_id l)) rc_qty (receipts d))"

lemma books_cong:
  "\<lbrakk> po_lines d' = po_lines d; receipts d' = receipts d; seqs d' Seq_receipt = seqs d Seq_receipt \<rbrakk>
     \<Longrightarrow> books_ok d' = books_ok d"
  by (simp add: books_ok_def)

lemma receive_post_books:
  assumes "books_ok (rs_db st)" "find_po_line p i (rs_db st) = Some l" "0 < re_qty e"
  shows "books_ok (rs_db (receive_post po s x u e l over st))"
proof -
  let ?d = "rs_db st" and ?d' = "rs_db (receive_post po s x u e l over st)"
  note eff = receive_post_effect [of po s x u e l over st]
  have l: "l \<in> set (po_lines ?d)"
    using find_Some_iff_first assms(2) unfolding find_po_line_def by fast
  have same: "y = l" if "y \<in> set (po_lines ?d)" "pol_id y = pol_id l" for y
    using key_inj [of pol_id] assms(1) that l unfolding books_ok_def by metis
  have "rc_id r < seqs ?d Seq_receipt" if "r \<in> set (receipts ?d)" for r
    using assms(1) that by (simp add: books_ok_def)
  then have "seqs ?d Seq_receipt \<notin> rc_id ` set (receipts ?d)" by force
  moreover have "map pol_id (po_lines ?d') = map pol_id (po_lines ?d)"
    unfolding eff(1) by (simp add: book_line_def map_upd_same)
  moreover have "pol_received y = total (\<lambda>r. rc_pol r = Some (pol_id y)) rc_qty (receipts ?d')"
    if y: "y \<in> set (po_lines ?d')" for y
  proof -
    from y obtain z where z: "z \<in> set (po_lines ?d)"
      "y = (if pol_id z = pol_id l then z\<lparr>pol_received := pol_received l + re_qty e,
          pol_state := (if pol_ordered l \<le> pol_received l + re_qty e then POL_RECEIVED else POL_PARTIAL)\<rparr>
        else z)"
      unfolding eff(1) by (auto simp: book_line_def set_upd)
    show ?thesis
    proof (cases "pol_id z = pol_id l")
      case True
      with same z have "z = l" by blast
      with z assms(1) show ?thesis by (simp add: eff(2) books_ok_def)
    next
      case False
      with z assms(1) show ?thesis by (simp add: eff(2) books_ok_def)
    qed
  qed
  ultimately show ?thesis
    using assms(1,3) by (auto simp: books_ok_def eff(2,5) less_Suc_eq)
qed

lemma fold_audit_frame [simp]:
  "po_lines (fold (audit a e i u w) js d) = po_lines d"
  "receipts (fold (audit a e i u w) js d) = receipts d"
  "purchase_orders (fold (audit a e i u w) js d) = purchase_orders d"
  "inventory (fold (audit a e i u w) js d) = inventory d"
  "now (fold (audit a e i u w) js d) = now d"
  "settings (fold (audit a e i u w) js d) = settings d"
  "q \<noteq> Seq_audit \<Longrightarrow> seqs (fold (audit a e i u w) js d) q = seqs d q"
  by (induction js arbitrary: d) simp_all

lemma close_receive_frame [simp]:
  "po_lines (snd (close_receive po d)) = po_lines d"
  "receipts (snd (close_receive po d)) = receipts d"
  "inventory (snd (close_receive po d)) = inventory d"
  "now (snd (close_receive po d)) = now d"
  "seqs (snd (close_receive po d)) = seqs d"
  by (simp_all add: close_receive_def)

lemma receive_items_Inr:
  assumes "receive_items s pid es d = Inr (res, d')"
  obtains po st x u where "find_po_scoped s pid d = Some po"
    "po_state po = PO_OPEN \<or> po_state po = PO_PARTIAL"
    "receive_loop po s x u es \<lparr>rs_db = d, rs_receipts = [], rs_warnings = [],
        rs_notifications = [], rs_audits = []\<rparr> = Inr st"
    "d' = snd (close_receive pid (fold (audit ''RECEIVE'' ''PO'' pid (s_user s) (po_wh po))
              (rs_audits st) (rs_db st)))"
    "rr_status res = fst (close_receive pid (fold (audit ''RECEIVE'' ''PO'' pid (s_user s) (po_wh po))
              (rs_audits st) (rs_db st)))"
  using assms by (auto simp: receive_items_def split: option.splits if_splits sum.splits prod.splits)

lemma unreceive_walk_frame:
  "po_lines (snd (snd (unreceive_walk rem rs s))) = po_lines (snd s)
   \<and> receipts (snd (snd (unreceive_walk rem rs s))) = receipts (snd s)
   \<and> purchase_orders (snd (snd (unreceive_walk rem rs s))) = purchase_orders (snd s)
   \<and> seqs (snd (snd (unreceive_walk rem rs s))) = seqs (snd s)"
  by (induction rem rs s rule: unreceive_walk.induct) (auto simp: Let_def)

lemma unreceive_take_frame:
  assumes "unreceive_take rc d = (rem, bs, d')"
  shows "po_lines d' = po_lines d \<and> receipts d' = receipts d
    \<and> purchase_orders d' = purchase_orders d \<and> seqs d' = seqs d"
proof -
  obtain rem1 bs1 d1 where o1: "unreceive_origin rc d = (rem1, bs1, d1)"
    by (metis prod_cases3)
  have "po_lines d1 = po_lines d \<and> receipts d1 = receipts d
    \<and> purchase_orders d1 = purchase_orders d \<and> seqs d1 = seqs d"
    using o1 by (auto simp: unreceive_origin_def Let_def split: option.splits if_splits)
  moreover have "d' = (if 0 < rem1
      then snd (snd (unreceive_walk rem1 (unreceive_others rc d1) (bs1, d1))) else d1)"
    using assms o1 by (auto simp: unreceive_take_def)
  ultimately show ?thesis using unreceive_walk_frame by simp
qed

text \<open>Deleting a receipt and lowering its line by the same amount keeps the books;
  the \<open>GREATEST(0, \<dots>)\<close> of the code never cuts anything off.\<close>

lemma books_total_remove:
  assumes "distinct (map rc_id rs)" "rc \<in> set rs"
  shows "total P rc_qty (filter (\<lambda>r. rc_id r \<noteq> rc_id rc) rs)
    = total P rc_qty rs - (if P rc then rc_qty rc else 0)"
  using assms
proof (induction rs)
  case Nil
  then show ?case by simp
next
  case (Cons r rs)
  show ?case
  proof (cases "r = rc")
    case True
    with Cons.prems have "filter (\<lambda>r. rc_id r \<noteq> rc_id rc) rs = rs"
      by (intro filter_True) (auto simp: rev_image_eqI)
    with True show ?thesis by simp
  next
    case False
    with Cons show ?thesis by (auto simp: rev_image_eqI)
  qed
qed

lemma books_remove:
  assumes "books_ok d" "rc \<in> set (receipts d)"
    and pl: "po_lines d' = upd (\<lambda>l. Some (pol_id l) = rc_pol rc) f (po_lines d)"
    and f: "\<And>l. pol_id (f l) = pol_id l" "\<And>l. pol_received (f l) = max 0 (pol_received l - rc_qty rc)"
    and rc': "receipts d' = filter (\<lambda>r. rc_id r \<noteq> rc_id rc) (receipts d)"
    and sq: "seqs d' Seq_receipt = seqs d Seq_receipt"
  shows "books_ok d'"
proof -
  have "pol_received y = total (\<lambda>r. rc_pol r = Some (pol_id y)) rc_qty (receipts d')"
    if "y \<in> set (po_lines d')" for y
  proof -
    let ?P = "\<lambda>z r. rc_pol r = Some (pol_id z)"
    from that obtain z where z: "z \<in> set (po_lines d)"
      "y = (if Some (pol_id z) = rc_pol rc then f z else z)"
      unfolding pl by (auto simp: set_upd)
    have "total (?P z) rc_qty (receipts d')
        = total (?P z) rc_qty (receipts d) - (if ?P z rc then rc_qty rc else 0)"
      unfolding rc' by (rule books_total_remove) (use assms(1,2) in \<open>auto simp: books_ok_def\<close>)
    moreover have "0 \<le> total (?P z) rc_qty (receipts d')"
      by (rule total_nonneg) (use assms(1) rc' in \<open>auto simp: books_ok_def intro: less_imp_le\<close>)
    moreover have "pol_received z = total (?P z) rc_qty (receipts d)"
      using assms(1) z by (simp add: books_ok_def)
    ultimately show ?thesis using z(2) by (auto simp: f)
  qed
  moreover have "map pol_id (po_lines d') = map pol_id (po_lines d)"
    unfolding pl by (simp add: map_upd_same f)
  ultimately show ?thesis
    using assms(1) by (auto simp: books_ok_def rc' sq distinct_map_filter)
qed


section \<open>Histories of receiving operations\<close>

text \<open>The request schema admits positive quantities only.\<close>

inductive receiving_step :: "db \<Rightarrow> db \<Rightarrow> bool" where
  receive: "\<lbrakk> receive_items s pid es d = Inr (res, d'); \<And>e. e \<in> set es \<Longrightarrow> 0 < re_qty e \<rbrakk>
    \<Longrightarrow> receiving_step d d'"
| unreceive: "record_unreceive rid user reason txn d = Inr (ur, d') \<Longrightarrow> receiving_step d d'"
| cancel: "cancel_receiving s pid rids d = Inr (n, d') \<Longrightarrow> receiving_step d d'"

inductive_cases receiving_stepE: "receiving_step d d'"

lemma receive_items_books:
  assumes "receive_items s pid es d = Inr (res, d')" "books_ok d" "\<And>e. e \<in> set es \<Longrightarrow> 0 < re_qty e"
  shows "books_ok d'"
proof -
  from receive_items_Inr [OF assms(1)] obtain po st x u where
    "find_po_scoped s pid d = Some po"
    "po_state po = PO_OPEN \<or> po_state po = PO_PARTIAL" and
    loop: "receive_loop po s x u es \<lparr>rs_db = d, rs_receipts = [], rs_warnings = [],
        rs_notifications = [], rs_audits = []\<rparr> = Inr st" and
    d': "d' = snd (close_receive pid (fold (audit ''RECEIVE'' ''PO'' pid (s_user s) (po_wh po))
              (rs_audits st) (rs_db st)))" .
  have "books_ok (rs_db st)"
    by (rule receive_loop_invariant [OF loop, where I = books_ok])
      (use assms(2,3) receive_post_books in auto)
  then show ?thesis
    by (rule books_cong [THEN iffD2, rotated -1]) (simp_all add: d')
qed

lemma recompute_frame [simp]:
  "receipts (snd (recompute_po_status po d)) = receipts d"
  "seqs (snd (recompute_po_status po d)) = seqs d"
  "inventory (snd (recompute_po_status po d)) = inventory d"
  "po_lines (snd (recompute_po_status po d)) =
     upd (\<lambda>l. pol_po l = po) (\<lambda>l. l\<lparr>pol_state := line_status (pol_received l) (pol_ordered l)\<rparr>) (po_lines d)"
  by (simp_all add: recompute_po_status_def Let_def)

lemma books_recompute: "books_ok d \<Longrightarrow> books_ok (snd (recompute_po_status po d))"
  by (auto simp: books_ok_def set_upd map_upd_same)

lemma unreceive_event_frame [simp]:
  "receipts (unreceive_event rc po u r t d) = receipts d"
  "po_lines (unreceive_event rc po u r t d) = po_lines d"
  "inventory (unreceive_event rc po u r t d) = inventory d"
  "q \<noteq> Seq_event \<Longrightarrow> seqs (unreceive_event rc po u r t d) q = seqs d q"
  by (simp_all add: unreceive_event_def Let_def)

lemma unreceive_books_frame [simp]:
  "inventory (snd (unreceive_books rc po d)) = inventory d"
  "seqs (snd (unreceive_books rc po d)) = seqs d"
  by (simp_all add: unreceive_books_def Let_def)

lemma record_unreceive_Inr:
  assumes "record_unreceive rid user reason txn d = Inr (ur, d')"
  obtains rc po rem bs d2 where
    "List.find (\<lambda>r. rc_id r = rid) (receipts d) = Some rc" "rc_po rc = Some po"
    "rc_qty rc \<le> warehouse_available (rc_item rc) (rc_wh rc) d"
    "unreceive_take rc d = (rem, bs, d2)" "rem \<le> 0"
    "po_lines d' = po_lines (snd (unreceive_books rc po d2))"
    "receipts d' = receipts (snd (unreceive_books rc po d2))"
    "inventory d' = inventory d2"
    "seqs d' Seq_receipt = seqs d2 Seq_receipt"
    "seqs d' Seq_inventory = seqs d2 Seq_inventory"
    "ur_bins ur = bs" "ur_quantity ur = rc_qty rc"
proof -
  from assms obtain rc po rem bs d2 where a:
    "List.find (\<lambda>r. rc_id r = rid) (receipts d) = Some rc" "rc_po rc = Some po"
    "rc_qty rc \<le> warehouse_available (rc_item rc) (rc_wh rc) d"
    "unreceive_take rc d = (rem, bs, d2)" "rem \<le> 0"
    by (auto simp: record_unreceive_def Let_def split: option.splits if_splits prod.splits)
  obtain st d3 where b: "unreceive_books rc po d2 = (st, d3)"
    by (cases "unreceive_books rc po d2")
  then have fr: "inventory d3 = inventory d2" "seqs d3 = seqs d2"
    using unreceive_books_frame [of rc po d2] by simp_all
  have c: "po_lines d' = po_lines (snd (unreceive_books rc po d2))"
    "receipts d' = receipts (snd (unreceive_books rc po d2))"
    "inventory d' = inventory d2"
    "seqs d' Seq_receipt = seqs d2 Seq_receipt"
    "seqs d' Seq_inventory = seqs d2 Seq_inventory"
    "ur_bins ur = bs" "ur_quantity ur = rc_qty rc"
    using assms a b fr
    by (auto simp: record_unreceive_def Let_def split: if_splits option.splits)
  from that [OF a c] show thesis .
qed

lemma record_unreceive_books:
  assumes "record_unreceive rid user reason txn d = Inr (ur, d')" "books_ok d"
  shows "books_ok d'"
proof -
  from record_unreceive_Inr [OF assms(1)] obtain rc po rem bs d2 where
    f: "List.find (\<lambda>r. rc_id r = rid) (receipts d) = Some rc" and
    t: "unreceive_take rc d = (rem, bs, d2)" and
    e: "po_lines d' = po_lines (snd (unreceive_books rc po d2))"
    "receipts d' = receipts (snd (unreceive_books rc po d2))"
    "seqs d' Seq_receipt = seqs d2 Seq_receipt" .
  note fr = unreceive_take_frame [OF t]
  define d3 where "d3 = d2\<lparr>po_lines := upd (\<lambda>l. Some (pol_id l) = rc_pol rc)
       (\<lambda>l. l\<lparr>pol_received := max 0 (pol_received l - rc_qty rc)\<rparr>) (po_lines d2),
     receipts := filter (\<lambda>r. rc_id r \<noteq> rc_id rc) (receipts d2)\<rparr>"
  have "books_ok d3"
    by (rule books_remove [OF assms(2), of rc _ "\<lambda>l. l\<lparr>pol_received := max 0 (pol_received l - rc_qty rc)\<rparr>"])
      (use find_Some_iff_first [OF f] fr in \<open>simp_all add: d3_def\<close>)
  then have "books_ok (snd (recompute_po_status po d3))" by (rule books_recompute)
  moreover have "snd (unreceive_books rc po d2) = snd (recompute_po_status po d3)"
    by (simp add: unreceive_books_def d3_def Let_def)
  ultimately show ?thesis
    using books_cong [of d' "snd (recompute_po_status po d3)"] e fr by (simp add: d3_def)
qed

lemma cancel_one_books:
  assumes "books_ok d" "rc \<in> set (receipts d)"
  shows "books_ok (cancel_one rc d)"
  by (rule books_remove [OF assms, of _ "\<lambda>l. let q = max 0 (pol_received l - rc_qty rc)
        in l\<lparr>pol_received := q, pol_state := line_status q (pol_ordered l)\<rparr>"])
    (simp_all add: cancel_one_def Let_def)

lemma cancel_step_books: "books_ok (cs_db st) \<Longrightarrow> books_ok (cs_db (cancel_step s rid st))"
  unfolding cancel_step_def find_receipt_scoped_def
  using cancel_one_books find_Some_iff_first by (fastforce split: option.splits)

lemma cancel_po_status_frame [simp]:
  "po_lines (fold cancel_po_status ps d) = po_lines d"
  "receipts (fold cancel_po_status ps d) = receipts d"
  "inventory (fold cancel_po_status ps d) = inventory d"
  "seqs (fold cancel_po_status ps d) = seqs d"
  by (induction ps arbitrary: d) (simp_all add: cancel_po_status_def Let_def)

lemma cancel_audit_frame [simp]:
  "po_lines (fold (\<lambda>(w, ids). audit a e i u w (j w ids)) rs d) = po_lines d"
  "receipts (fold (\<lambda>(w, ids). audit a e i u w (j w ids)) rs d) = receipts d"
  "purchase_orders (fold (\<lambda>(w, ids). audit a e i u w (j w ids)) rs d) = purchase_orders d"
  "inventory (fold (\<lambda>(w, ids). audit a e i u w (j w ids)) rs d) = inventory d"
  "q \<noteq> Seq_audit \<Longrightarrow> seqs (fold (\<lambda>(w, ids). audit a e i u w (j w ids)) rs d) q = seqs d q"
  by (induction rs arbitrary: d) auto

lemma cancel_receiving_books:
  assumes "cancel_receiving s pid rids d = Inr (n, d')" "books_ok d"
  shows "books_ok d'"
proof (cases "rids = []")
  case True
  with assms show ?thesis by (simp add: cancel_receiving_def)
next
  case False
  let ?st = "fold (cancel_step s) rids \<lparr>cs_db = d, cs_pos = [Some pid], cs_reversed = [], cs_count = 0\<rparr>"
  have "books_ok (cs_db (fold (cancel_step s) rids st))" if "books_ok (cs_db st)" for st
    using that by (induction rids arbitrary: st) (auto simp: cancel_step_books)
  with assms(2) have "books_ok (cs_db ?st)" by simp
  then show ?thesis
    by (rule books_cong [THEN iffD2, rotated -1])
      (use assms(1) False in \<open>auto simp: cancel_receiving_def Let_def split: if_splits\<close>)
qed

interpretation receiving_books: step_invariant receiving_step books_ok
  by unfold_locales
    (erule receiving_stepE; blast intro: receive_items_books record_unreceive_books cancel_receiving_books)


section \<open>Lemmas on status and caps\<close>

text \<open>The header a set of lines calls for.\<close>

lemma recompute_status:
  "fst (recompute_po_status po d) =
    (let ls = filter (\<lambda>l. pol_po l = po) (po_lines d) in
     if ls \<noteq> [] \<and> (\<forall>l \<in> set ls. pol_ordered l \<le> pol_received l) then PO_RECEIVED
     else if \<exists>l \<in> set ls. 0 < pol_received l then PO_PARTIAL else PO_OPEN)"
proof -
  have f: "filter (\<lambda>l. pol_po l = po) (upd (\<lambda>l. pol_po l = po)
       (\<lambda>l. l\<lparr>pol_state := line_status (pol_received l) (pol_ordered l)\<rparr>) t)
    = map (\<lambda>l. l\<lparr>pol_state := line_status (pol_received l) (pol_ordered l)\<rparr>)
       (filter (\<lambda>l. pol_po l = po) t)" for t
    by (induction t) auto
  show ?thesis by (simp add: recompute_po_status_def Let_def f del: set_filter)
qed

text \<open>Line states agree with their quantities.\<close>

definition lines_consistent :: "db \<Rightarrow> bool" where
  "lines_consistent d \<longleftrightarrow> (\<forall>l \<in> set (po_lines d). 0 < pol_ordered l \<and> 0 \<le> pol_received l
     \<and> pol_state l = line_status (pol_received l) (pol_ordered l))"

definition lines_capped :: "db \<Rightarrow> bool" where
  "lines_capped d \<longleftrightarrow> distinct (map pol_id (po_lines d)) \<and>
     (\<forall>l \<in> set (po_lines d). pol_received l \<le> pol_ordered l)"

lemma find_po_line_member:
  "find_po_line p i d = Some l \<Longrightarrow> l \<in> set (po_lines d) \<and> pol_po l = p"
  unfolding find_po_line_def using find_Some_iff_first by fast

lemma receive_post_capped:
  assumes "lines_capped (rs_db st)" "find_po_line p i (rs_db st) = Some l"
    "pol_received l + re_qty e \<le> pol_ordered l"
  shows "lines_capped (rs_db (receive_post po s x u e l over st))"
proof -
  have "y = l" if "y \<in> set (po_lines (rs_db st))" "pol_id y = pol_id l" for y
    using key_inj [of pol_id] assms(1) that find_po_line_member [OF assms(2)]
    unfolding lines_capped_def by metis
  with assms show ?thesis
    by (fastforce simp: lines_capped_def receive_post_effect(1) book_line_def map_upd_same set_upd)
qed

lemma receive_post_consistent:
  assumes "lines_consistent (rs_db st)" "distinct (map pol_id (po_lines (rs_db st)))"
    "find_po_line p i (rs_db st) = Some l" "0 < re_qty e"
  shows "lines_consistent (rs_db (receive_post po s x u e l over st))
    \<and> distinct (map pol_id (po_lines (rs_db (receive_post po s x u e l over st))))
    \<and> (\<exists>y \<in> set (po_lines (rs_db (receive_post po s x u e l over st))). pol_po y = p \<and> 0 < pol_received y)"
proof -
  note l = find_po_line_member [OF assms(3)]
  have "y = l" if "y \<in> set (po_lines (rs_db st))" "pol_id y = pol_id l" for y
    using key_inj [of pol_id] assms(2) that l by metis
  then have "lines_consistent (rs_db (receive_post po s x u e l over st))"
    using assms(1,4) l
    by (fastforce simp: lines_consistent_def receive_post_effect(1) book_line_def set_upd line_status_def)
  moreover have "\<exists>y \<in> set (po_lines (rs_db (receive_post po s x u e l over st))).
      pol_po y = p \<and> 0 < pol_received y"
  proof -
    let ?f = "\<lambda>y. if pol_id y = pol_id l then y\<lparr>pol_received := pol_received l + re_qty e,
        pol_state := (if pol_ordered l \<le> pol_received l + re_qty e then POL_RECEIVED else POL_PARTIAL)\<rparr>
      else y"
    have "?f l \<in> set (po_lines (rs_db (receive_post po s x u e l over st)))"
      unfolding receive_post_effect(1) by (auto simp: book_line_def set_upd l intro!: image_eqI [of _ _ l])
    moreover have "0 \<le> pol_received l" using assms(1) l by (simp add: lines_consistent_def)
    ultimately show ?thesis using l assms(4) by (intro bexI [of _ "?f l"]) simp_all
  qed
  ultimately show ?thesis
    using assms(2) by (simp add: receive_post_effect(1) book_line_def map_upd_same)
qed

section \<open>Properties\<close>

text \<open>Purchase order 5 for ten units of item 7, received into bin 1 of warehouse 1 by
  an administrator.\<close>

definition demo_po :: db where
  "demo_po = empty_db\<lparr>
     bins := [\<lparr>bin_id = 1, bin_code = ''R1'', bin_wh = 1, bin_kind = BIN_STAGING,
               bin_sequence = 1, bin_active = True, bin_ext = ''b'', bin_barcode = ''b''\<rparr>],
     items := [\<lparr>item_id = 7, item_sku = ''TST'', item_name = ''Test'', item_upc = None,
                item_aliases = None, item_ext = ''u7'', item_weight = None, item_default_bin = None\<rparr>],
     purchase_orders := [\<lparr>po_id = 5, po_number = ''PO-5'', po_barcode = None, po_state = PO_OPEN,
                          po_wh = 1, po_ext = ''p5'', po_received_at = None,
                          po_columns = Map.empty, po_created_by = None\<rparr>],
     po_lines := [\<lparr>pol_id = 11, pol_po = 5, pol_item = 7, pol_ordered = 10, pol_received = 0,
                   pol_number = 1, pol_state = POL_PENDING, pol_cost = None\<rparr>]\<rparr>"

definition demo_receiver :: session where
  "demo_receiver = \<lparr>s_user = ''admin'', s_admin = True, s_whs = [], s_txn = ''t1''\<rparr>"

definition demo_entry :: receive_entry where
  "demo_entry = \<lparr>re_item = 7, re_qty = 4, re_bin = 1, re_lot = None, re_serial = None, re_notes = None\<rparr>"

lemma demo_receive: "\<exists>res d'. receive_items demo_receiver 5 [demo_entry] demo_po = Inr (res, d')"
  by (simp add: receive_items_def find_po_scoped_def warehouse_scope_clause_def receive_one_def
      find_bin_def find_po_line_def demo_po_def demo_receiver_def demo_entry_def over_receipt_allowed_def
      Let_def split_beta)

text \<open>Status derivation: for lines with positive order quantities,
  \<open>recompute_po_status\<close> leaves every line of the order in the state its quantities call
  for and the header RECEIVED exactly when all lines are RECEIVED (and there is
  one), OPEN exactly when all lines are PENDING, PARTIAL otherwise; quantities are
  not touched.\<close>

theorem recompute_po_status_agrees:
  assumes "\<forall>l \<in> set (po_lines d). 0 < pol_ordered l \<and> 0 \<le> pol_received l"
  shows "case recompute_po_status po d of (st, d') \<Rightarrow>
    let ls = filter (\<lambda>l. pol_po l = po) (po_lines d') in
    (st = PO_RECEIVED \<longleftrightarrow> ls \<noteq> [] \<and> (\<forall>l \<in> set ls. pol_state l = POL_RECEIVED)) \<and>
    (st = PO_OPEN \<longleftrightarrow> (\<forall>l \<in> set ls. pol_state l = POL_PENDING)) \<and>
    (\<forall>l \<in> set ls. pol_state l = line_status (pol_received l) (pol_ordered l)) \<and>
    map pol_received (po_lines d') = map pol_received (po_lines d)"
proof -
  have f: "filter (\<lambda>l. pol_po l = po) (po_lines (snd (recompute_po_status po d)))
    = map (\<lambda>l. l\<lparr>pol_state := line_status (pol_received l) (pol_ordered l)\<rparr>)
       (filter (\<lambda>l. pol_po l = po) (po_lines d))"
    unfolding recompute_frame by (induction "po_lines d" rule: rev_induct) (auto simp: upd_def filter_map comp_def)
  let ?ls = "filter (\<lambda>l. pol_po l = po) (po_lines d)"
  have q: "map pol_received (po_lines (snd (recompute_po_status po d))) = map pol_received (po_lines d)"
    by (simp add: map_upd_same)
  have pos: "0 < pol_ordered l" "0 \<le> pol_received l" if "l \<in> set ?ls" for l
    using assms that by auto
  have all: "(\<forall>l \<in> set ?ls. line_status (pol_received l) (pol_ordered l) = POL_RECEIVED)
      = (\<forall>l \<in> set ?ls. pol_ordered l \<le> pol_received l)"
    "(\<forall>l \<in> set ?ls. line_status (pol_received l) (pol_ordered l) = POL_PENDING)
      = (\<forall>l \<in> set ?ls. pol_received l \<le> 0)"
    by (rule ball_cong; insert pos; force simp: line_status_def)+
  have none: "\<not> (\<exists>l \<in> set ?ls. 0 < pol_received l)" if "\<forall>l \<in> set ?ls. pol_received l \<le> 0"
    using that by force
  have some: "\<exists>l \<in> set ?ls. 0 < pol_received l"
    if "?ls \<noteq> []" "\<forall>l \<in> set ?ls. pol_ordered l \<le> pol_received l"
    using that pos by (cases ?ls) force+
  show ?thesis
    using all none some q
    by (auto simp: split_beta Let_def recompute_status f not_less simp del: set_filter recompute_frame)
qed

theorem recompute_po_status_agrees_witness:
  "fst (recompute_po_status 5 demo_po) = PO_OPEN \<and>
   map pol_state (po_lines (snd (recompute_po_status 5 demo_po))) = [POL_PENDING]"
proof -
  have "\<forall>l \<in> set (po_lines demo_po). 0 < pol_ordered l \<and> 0 \<le> pol_received l"
    by (simp add: demo_po_def)
  from recompute_po_status_agrees [OF this, of 5] show ?thesis
    by (simp add: split_beta Let_def recompute_status demo_po_def line_status_def)
qed

text \<open>Claim C39. Receiving refines ledger postings: a request that succeeds raises each
  stock cell by exactly the sum of the entries for that item, bin and lot, and
  keeps the inventory well formed.\<close>

theorem receive_items_refines_ledger:
  assumes "inv_wf d" "receive_items s pid es d = Inr (res, d')"
  shows "inv_wf d' \<and> (\<forall>k. cell d' k = cell d k
    + sum_list (map (\<lambda>e. if (re_item e, re_bin e, re_lot e) = k then re_qty e else 0) es))"
proof -
  from receive_items_Inr [OF assms(2)] obtain po st x u where
    loop: "receive_loop po s x u es \<lparr>rs_db = d, rs_receipts = [], rs_warnings = [],
        rs_notifications = [], rs_audits = []\<rparr> = Inr st" and
    d': "d' = snd (close_receive pid (fold (audit ''RECEIVE'' ''PO'' pid (s_user s) (po_wh po))
              (rs_audits st) (rs_db st)))" .
  let ?f = "fold (\<lambda>(w, k, q). post_cell w k q) (map (posting po) es) d"
  have "same_stock (rs_db st) ?f"
    using receive_loop_posts [OF loop, of d] by (simp add: same_stock_def)
  moreover have "same_stock d' (rs_db st)" by (simp add: d' same_stock_def)
  ultimately have "same_stock d' ?f" by (blast intro: same_stock_trans)
  then show ?thesis
    using ledger.post_ok [OF assms(1), of "map (posting po) es"]
      ledger.post_qty [OF assms(1), of "map (posting po) es"]
    by (simp add: same_stock_cell same_stock_wf posting_def comp_def)
qed

theorem receive_items_refines_ledger_witness:
  "\<exists>res d'. receive_items demo_receiver 5 [demo_entry] demo_po = Inr (res, d') \<and>
     inv_wf d' \<and> cell d' (7, 1, None) = 4"
proof -
  from demo_receive obtain res d' where
    r: "receive_items demo_receiver 5 [demo_entry] demo_po = Inr (res, d')" by blast
  have "inv_wf demo_po" by (simp add: demo_po_def empty_db_def inv_wf_def)
  from receive_items_refines_ledger [OF this r] r show ?thesis
    by (simp add: demo_entry_def cell_def demo_po_def empty_db_def)
qed

text \<open>Claim C9. The receipt books always balance: along any history of receives,
  unreceives and session cancellations, every purchase-order line's received
  quantity equals the sum of its receipts; in particular the code's
  \<open>GREATEST(0, \<dots>)\<close> never hides a loss.\<close>

theorem receipt_books_balance:
  assumes "receiving_step\<^sup>*\<^sup>* d d'" "books_ok d" "l \<in> set (po_lines d')"
  shows "pol_received l = total (\<lambda>r. rc_pol r = Some (pol_id l)) rc_qty (receipts d')"
  using receiving_books.reachable [OF assms(1,2)] assms(3) by (simp add: books_ok_def)

theorem receipt_books_balance_witness:
  "\<exists>d' l. receiving_step\<^sup>*\<^sup>* demo_po d' \<and> l \<in> set (po_lines d') \<and> d' \<noteq> demo_po \<and>
     pol_received l = total (\<lambda>r. rc_pol r = Some (pol_id l)) rc_qty (receipts d')"
proof -
  from demo_receive obtain res d' where
    r: "receive_items demo_receiver 5 [demo_entry] demo_po = Inr (res, d')" by blast
  have step: "receiving_step\<^sup>*\<^sup>* demo_po d'"
    by (rule r_into_rtranclp, rule receiving_step.receive [OF r]) (simp add: demo_entry_def)
  have ok: "books_ok demo_po" by (simp add: demo_po_def empty_db_def books_ok_def)
  have "inv_wf demo_po" by (simp add: demo_po_def empty_db_def inv_wf_def)
  from receive_items_Inr [OF r] obtain po st x u where
    loop: "receive_loop po demo_receiver x u [demo_entry] \<lparr>rs_db = demo_po, rs_receipts = [],
      rs_warnings = [], rs_notifications = [], rs_audits = []\<rparr> = Inr st"
    and d': "d' = snd (close_receive 5 (fold (audit ''RECEIVE'' ''PO'' 5 (s_user demo_receiver) (po_wh po))
              (rs_audits st) (rs_db st)))" .
  have "map pol_id (po_lines d') = [11] \<and> receipts d' \<noteq> []"
    using loop by (auto simp: d' receive_post_effect book_line_def map_upd_same demo_po_def
        split: sum.splits elim!: receive_one_Inr)
  then obtain l where "l \<in> set (po_lines d')" "receipts d' \<noteq> receipts demo_po"
    by (cases "po_lines d'") (auto simp: demo_po_def empty_db_def)
  with receipt_books_balance [OF step ok] step show ?thesis by metis
qed

text \<open>Claim C38. No over-receipt: while the \<open>allow_over_receipt\<close> setting is not
  \<open>''true''\<close>, a successful receive request never takes a purchase-order line above
  its ordered quantity, however its entries repeat items.\<close>

theorem no_over_receipt:
  assumes "receive_items s pid es d = Inr (res, d')" "\<not> over_receipt_allowed d"
    "distinct (map pol_id (po_lines d))" "\<forall>l \<in> set (po_lines d). pol_received l \<le> pol_ordered l"
  shows "\<forall>l \<in> set (po_lines d'). pol_received l \<le> pol_ordered l"
proof -
  from receive_items_Inr [OF assms(1)] obtain po st x u where
    "find_po_scoped s pid d = Some po"
    "po_state po = PO_OPEN \<or> po_state po = PO_PARTIAL" and
    loop: "receive_loop po s x u es \<lparr>rs_db = d, rs_receipts = [], rs_warnings = [],
        rs_notifications = [], rs_audits = []\<rparr> = Inr st" and
    d': "d' = snd (close_receive pid (fold (audit ''RECEIVE'' ''PO'' pid (s_user s) (po_wh po))
              (rs_audits st) (rs_db st)))" .
  have "lines_capped (rs_db st) \<and> \<not> over_receipt_allowed (rs_db st)"
    by (rule receive_loop_invariant [OF loop])
      (use assms(2-4) receive_post_capped in
        \<open>auto simp: lines_capped_def over_receipt_allowed_def receive_post_effect(3)\<close>)
  then show ?thesis by (simp add: d' lines_capped_def)
qed

theorem no_over_receipt_witness:
  "\<exists>res d'. receive_items demo_receiver 5 [demo_entry] demo_po = Inr (res, d') \<and>
     (\<forall>l \<in> set (po_lines d'). pol_received l \<le> pol_ordered l)"
proof -
  from demo_receive obtain res d' where
    r: "receive_items demo_receiver 5 [demo_entry] demo_po = Inr (res, d')" by blast
  have "\<not> over_receipt_allowed demo_po" "distinct (map pol_id (po_lines demo_po))"
    "\<forall>l \<in> set (po_lines demo_po). pol_received l \<le> pol_ordered l"
    by (simp_all add: demo_po_def empty_db_def over_receipt_allowed_def)
  from no_over_receipt [OF r this] r show ?thesis by blast
qed

text \<open>Unreceive is all or nothing and complete: with one lot per bin, the
  request fails exactly when the warehouse holds less unreserved stock than the
  receipt, and otherwise the item's stock falls by exactly the receipt, the bins
  reported add up to it, the receipt is gone and no row drops below its
  reservations.\<close>

theorem record_unreceive_complete:
  assumes "inv_wf d" "inv_sound d" "single_lot d"
    "List.find (\<lambda>r. rc_id r = rid) (receipts d) = Some rc" "rc_po rc = Some po" "0 \<le> rc_qty rc"
  shows "case record_unreceive rid user reason txn d of
      Inl e \<Rightarrow> warehouse_available (rc_item rc) (rc_wh rc) d < rc_qty rc
        \<and> e = UR_insufficient_available (warehouse_available (rc_item rc) (rc_wh rc) d) (rc_qty rc)
    | Inr (ur, d') \<Rightarrow> rc_qty rc \<le> warehouse_available (rc_item rc) (rc_wh rc) d
        \<and> inv_wf d' \<and> inv_sound d'
        \<and> stock d' (rc_item rc) = stock d (rc_item rc) - rc_qty rc
        \<and> (\<Sum>(b, q) \<leftarrow> ur_bins ur. q) = rc_qty rc
        \<and> rid \<notin> rc_id ` set (receipts d')"
proof (cases "record_unreceive rid user reason txn d")
  case (Inl e)
  obtain rem bs d2 where t: "unreceive_take rc d = (rem, bs, d2)" by (metis prod_cases3)
  have "rem = 0" if "rc_qty rc \<le> warehouse_available (rc_item rc) (rc_wh rc) d"
    using unreceive_take_complete [OF assms(1-3,6) that t] by simp
  with Inl assms(4,5) t show ?thesis
    by (auto simp: record_unreceive_def Let_def split_beta split: if_splits)
next
  case (Inr res)
  obtain ur d' where res: "res = (ur, d')" by (cases res)
  from record_unreceive_Inr [OF Inr [unfolded res]] obtain rc' po' rem bs d2 where
    f: "List.find (\<lambda>r. rc_id r = rid) (receipts d) = Some rc'" "rc_po rc' = Some po'" and
    av: "rc_qty rc' \<le> warehouse_available (rc_item rc') (rc_wh rc') d" and
    t: "unreceive_take rc' d = (rem, bs, d2)" and
    e: "receipts d' = receipts (snd (unreceive_books rc' po' d2))" "inventory d' = inventory d2"
    "seqs d' Seq_inventory = seqs d2 Seq_inventory" "ur_bins ur = bs" .
  have rc: "rc' = rc" "rc_id rc = rid" using f assms(4) find_Some_iff_first [OF assms(4)] by auto
  note eff = unreceive_take_complete [OF assms(1-3,6) av [unfolded rc] t [unfolded rc]]
  have "rid \<notin> rc_id ` set (receipts d')"
    by (simp add: e(1) unreceive_books_def Let_def rc) blast
  with eff av e show ?thesis
    by (simp add: Inr res rc inv_wf_def inv_sound_def stock_def)
qed

text \<open>Six units were received in bin 1; five are left there and three were put away in
  bin 2, one of them reserved.\<close>

definition demo_unreceive :: db where
  "demo_unreceive = demo_po\<lparr>
     po_lines := [\<lparr>pol_id = 11, pol_po = 5, pol_item = 7, pol_ordered = 10, pol_received = 6,
                   pol_number = 1, pol_state = POL_PARTIAL, pol_cost = None\<rparr>],
     receipts := [\<lparr>rc_id = 0, rc_po = Some 5, rc_pol = Some 11, rc_so = None, rc_sol = None, rc_item = 7, rc_qty = 6, rc_bin = 1,
                   rc_wh = 1, rc_lot = None, rc_serial = None, rc_by = ''admin'', rc_notes = None,
                   rc_ext = ''r0'', rc_at = 0\<rparr>],
     inventory := [\<lparr>inv_id = 0, inv_item = 7, inv_bin = 1, inv_wh = 1, on_hand = 5, allocated = 0,
                    inv_lot = None, inv_updated = 0, inv_counted = None\<rparr>,
                   \<lparr>inv_id = 1, inv_item = 7, inv_bin = 2, inv_wh = 1, on_hand = 3, allocated = 1,
                    inv_lot = None, inv_updated = 0, inv_counted = None\<rparr>],
     seqs := (seqs demo_po)(Seq_inventory := 2, Seq_receipt := 1)\<rparr>"

theorem record_unreceive_complete_witness:
  "\<exists>ur d'. record_unreceive 0 ''admin'' None None demo_unreceive = Inr (ur, d')
     \<and> stock d' 7 = 2 \<and> (\<Sum>(b, q) \<leftarrow> ur_bins ur. q) = 6"
proof -
  let ?rc = "hd (receipts demo_unreceive)"
  have a: "inv_wf demo_unreceive" "inv_sound demo_unreceive" "single_lot demo_unreceive"
    "List.find (\<lambda>r. rc_id r = 0) (receipts demo_unreceive) = Some ?rc" "rc_po ?rc = Some 5" "0 \<le> rc_qty ?rc"
    by (simp_all add: demo_unreceive_def inv_wf_def inv_sound_def single_lot_def inv_key_def)
  have "rc_qty ?rc = 6" "rc_item ?rc = 7" "stock demo_unreceive 7 = 8"
    "warehouse_available (rc_item ?rc) (rc_wh ?rc) demo_unreceive = 7"
    by (simp_all add: demo_unreceive_def stock_def warehouse_available_def inv_avail_def)
  with record_unreceive_complete [OF a, of "''admin''" None None] show ?thesis
    by (cases "record_unreceive 0 ''admin'' None None demo_unreceive") auto
qed

text \<open>Two derivations of the order status agree: after a receive request on
  consistent lines (positive orders, state matching quantity), the header the route
  writes from the line states is the one \<open>recompute_po_status\<close> derives from the
  quantities.\<close>

theorem receive_status_agrees:
  assumes "receive_items s pid es d = Inr (res, d')" "lines_consistent d"
    "distinct (map pol_id (po_lines d))" "es \<noteq> []" "\<forall>e \<in> set es. 0 < re_qty e"
  shows "rr_status res = fst (recompute_po_status pid d') \<and> lines_consistent d'"
proof -
  from receive_items_Inr [OF assms(1)] obtain po st x u where
    po: "find_po_scoped s pid d = Some po" and
    loop: "receive_loop po s x u es \<lparr>rs_db = d, rs_receipts = [], rs_warnings = [],
        rs_notifications = [], rs_audits = []\<rparr> = Inr st" and
    d': "d' = snd (close_receive pid (fold (audit ''RECEIVE'' ''PO'' pid (s_user s) (po_wh po))
              (rs_audits st) (rs_db st)))" and
    res: "rr_status res = fst (close_receive pid (fold (audit ''RECEIVE'' ''PO'' pid (s_user s) (po_wh po))
              (rs_audits st) (rs_db st)))" .
  have pid: "po_id po = pid" using po find_Some_iff_first unfolding find_po_scoped_def by fast
  obtain e es' where es: "es = e # es'" using assms(4) by (cases es) auto
  from loop obtain st1 where st1: "receive_one po s x u e \<lparr>rs_db = d, rs_receipts = [], rs_warnings = [],
        rs_notifications = [], rs_audits = []\<rparr> = Inr st1" "receive_loop po s x u es' st1 = Inr st"
    by (auto simp: es split: sum.splits)
  let ?I = "\<lambda>d. lines_consistent d \<and> distinct (map pol_id (po_lines d))
     \<and> (\<exists>y \<in> set (po_lines d). pol_po y = pid \<and> 0 < pol_received y)"
  from receive_one_Inr [OF st1(1), unfolded pid receive_state.simps] obtain l over where
    "find_po_line pid (re_item e) d = Some l"
    "st1 = receive_post po s x u e l over \<lparr>rs_db = d, rs_receipts = [], rs_warnings = [],
        rs_notifications = [], rs_audits = []\<rparr>" .
  with assms(2,3,5) have "?I (rs_db st1)"
    by (simp only:) (rule receive_post_consistent; simp add: es)
  then have "?I (rs_db st)"
    by (rule receive_loop_invariant [OF st1(2)])
      (rule receive_post_consistent; use assms(5) in \<open>auto simp: es pid\<close>)
  then have i: "lines_consistent (rs_db st)" "\<exists>y \<in> set (po_lines (rs_db st)). pol_po y = pid \<and> 0 < pol_received y"
    by auto
  have recv: "pol_state l = POL_RECEIVED \<longleftrightarrow> pol_ordered l \<le> pol_received l"
    if "l \<in> set (po_lines (rs_db st))" for l
    using i(1) that by (auto simp: lines_consistent_def line_status_def)
  have pl: "po_lines d' = po_lines (rs_db st)" by (simp add: d')
  have "rr_status res = fst (recompute_po_status pid d')"
    using i(2) recv unfolding recompute_status pl Let_def res close_receive_def
    by (auto simp: filter_empty_conv)
  with i(1) show ?thesis by (simp add: lines_consistent_def pl)
qed

theorem receive_status_agrees_witness:
  "\<exists>res d'. receive_items demo_receiver 5 [demo_entry] demo_po = Inr (res, d') \<and>
     rr_status res = fst (recompute_po_status 5 d')"
proof -
  from demo_receive obtain res d' where
    r: "receive_items demo_receiver 5 [demo_entry] demo_po = Inr (res, d')" by blast
  have "lines_consistent demo_po" "distinct (map pol_id (po_lines demo_po))" "[demo_entry] \<noteq> []"
    "\<forall>e \<in> set [demo_entry]. 0 < re_qty e"
    by (simp_all add: demo_po_def empty_db_def lines_consistent_def line_status_def demo_entry_def)
  from receive_status_agrees [OF r this] r show ?thesis by blast
qed

section \<open>What modelling the reversals showed\<close>

text \<open>The mid-walk failure of unreceive, which the code's comment says the availability
  check rules out, is reached without any race when the receipt's bin holds two
  lots: the origin step looks at one row of the bin, the walk skips the bin.\<close>

definition demo_two_lots :: db where
  "demo_two_lots = demo_unreceive\<lparr>
     inventory := [\<lparr>inv_id = 0, inv_item = 7, inv_bin = 1, inv_wh = 1, on_hand = 0, allocated = 0,
                    inv_lot = None, inv_updated = 0, inv_counted = None\<rparr>,
                   \<lparr>inv_id = 1, inv_item = 7, inv_bin = 1, inv_wh = 1, on_hand = 6, allocated = 0,
                    inv_lot = Some ''L1'', inv_updated = 0, inv_counted = None\<rparr>]\<rparr>"

lemma unreceive_two_lots_refused:
  "inv_wf demo_two_lots" "inv_sound demo_two_lots"
  "warehouse_available 7 1 demo_two_lots = 6"
  "record_unreceive 0 u r t demo_two_lots = Inl (UR_insufficient_available 0 6)"
  by (simp_all add: demo_two_lots_def demo_unreceive_def inv_wf_def inv_sound_def inv_key_def
      warehouse_available_def inv_avail_def record_unreceive_def unreceive_take_def
      unreceive_origin_def unreceive_others_def Let_def)

text \<open>Cancelling a receiving session recomputes the status of the order named in the
  request without looking at its current status or warehouse: a request whose
  receipt ids select nothing reopens a CLOSED order.\<close>

lemma cancel_reopens_closed:
  "po_state p = PO_CLOSED \<Longrightarrow> rid \<noteq> 0 \<Longrightarrow> po_id p = 5 \<Longrightarrow>
     \<exists>n d'. cancel_receiving s 5 [rid] (demo_unreceive\<lparr>purchase_orders := [p]\<rparr>) = Inr (n, d') \<and>
       n = 0 \<and> purchase_orders d' = [p\<lparr>po_state := PO_PARTIAL\<rparr>]"
  by (simp add: cancel_receiving_def mismatched_receipts_def cancel_step_def find_receipt_scoped_def
      cancel_po_status_def demo_unreceive_def Let_def)

end
