(* ===== verification/BinMoves.thy ===== *)
theory BinMoves
  imports Inventory
begin

text \<open>
  The bin-to-bin move of \<^verbatim>\<open>api/routes/transfers.py\<close>: validation, the move through
  \<open>move_inventory\<close>, the \<open>bin_transfers\<close> record, the audit row and the outbox event.
\<close>

section \<open>The handler\<close>

datatype move_error =
  MV_item_not_found | MV_source_not_found | MV_destination_not_found | MV_cross_warehouse
| MV_denied | MV_insufficient int

record move_request =
  mv_item :: int
  mv_from :: int
  mv_to :: int
  mv_qty :: int
  mv_reason :: "string option"
  mv_lot :: "string option"

definition insert_bin_transfer :: "move_request \<Rightarrow> int \<Rightarrow> string \<Rightarrow> db \<Rightarrow> transfer_row \<times> db" where
  "insert_bin_transfer m wh user d =
     (let (u, d1) = uuid4 d;
          (i, d2) = nextval Seq_bin_transfer d1;
          r = \<lparr>bt_id = i, bt_item = mv_item m, bt_from = mv_from m, bt_to = mv_to m, bt_wh = wh,
               bt_qty = mv_qty m, bt_lot = mv_lot m, bt_reason = mv_reason m, bt_by = user,
               bt_ext = u, bt_at = now d, bt_type = ''MOVE''\<rparr>
      in (r, d2\<lparr>bin_transfers := bin_transfers d2 @ [r]\<rparr>))"

definition move_audit :: "session \<Rightarrow> move_request \<Rightarrow> bin_row \<Rightarrow> bin_row \<Rightarrow> transfer_row \<Rightarrow> db \<Rightarrow> db" where
  "move_audit s m fb tb r =
     audit ''TRANSFER'' ''ITEM'' (mv_item m) (s_user s) (bin_wh fb)
       (JObj [(''from_bin_id'', JInt (mv_from m)), (''from_bin_code'', JStr (bin_code fb)),
              (''to_bin_id'', JInt (mv_to m)), (''to_bin_code'', JStr (bin_code tb)),
              (''quantity'', JInt (mv_qty m)), (''reason'', jopt JStr (mv_reason m)),
              (''transfer_id'', JInt (bt_id r))])"

definition move_event :: "session \<Rightarrow> move_request \<Rightarrow> item_row \<Rightarrow> bin_row \<Rightarrow> bin_row \<Rightarrow> transfer_row \<Rightarrow> db \<Rightarrow> db" where
  "move_event s m i fb tb r d =
     snd (emit_event ''inventorytransfer.completed'' 1 ''inventory_transfer'' (bt_id r) (bt_ext r)
       (bin_wh fb) (s_txn s)
       (JObj [(''transfer_external_id'', JStr (bt_ext r)),
              (''from_warehouse_id'', JInt (bin_wh fb)), (''to_warehouse_id'', JInt (bin_wh tb)),
              (''lines'', JArr [JObj [(''item_external_id'', JStr (source_or_canonical ''item'' (item_ext i) d)),
                                      (''quantity'', JInt (mv_qty m))]]),
              (''completed_at'', JTime (bt_at r))]) d)"

text \<open>The result: the transfer id, the source's remainder, the destination's new quantity.\<close>

definition move :: "session \<Rightarrow> move_request \<Rightarrow> db \<Rightarrow> move_error + ((int \<times> int \<times> int) \<times> db)" where
  "move s m d =
     (case find_item (mv_item m) d of
        None \<Rightarrow> Inl MV_item_not_found
      | Some i \<Rightarrow>
          (case find_bin (mv_from m) d of
             None \<Rightarrow> Inl MV_source_not_found
           | Some fb \<Rightarrow>
               (case find_bin (mv_to m) d of
                  None \<Rightarrow> Inl MV_destination_not_found
                | Some tb \<Rightarrow>
                    if bin_wh tb \<noteq> bin_wh fb then Inl MV_cross_warehouse
                    else if \<not> check_warehouse_access s (Some (bin_wh fb)) then Inl MV_denied
                    else
                      (case move_inventory (mv_item m) (mv_from m) (mv_to m) (bin_wh fb) (mv_qty m)
                              (mv_lot m) d of
                         Inl (InsufficientInventory a) \<Rightarrow> Inl (MV_insufficient a)
                       | Inr ((ns, nd), d1) \<Rightarrow>
                           let (r, d2) = insert_bin_transfer m (bin_wh fb) (s_user s) d1;
                               d3 = move_audit s m fb tb r d2
                           in Inr ((bt_id r, ns, nd), move_event s m i fb tb r d3)))))"

section \<open>Properties\<close>

lemma insert_bin_transfer_frame [simp]:
  "inventory (snd (insert_bin_transfer m w u d)) = inventory d"
  "events (snd (insert_bin_transfer m w u d)) = events d"
  "bt_id (fst (insert_bin_transfer m w u d)) = seqs d Seq_bin_transfer"
  "bin_transfers (snd (insert_bin_transfer m w u d)) = bin_transfers d @ [fst (insert_bin_transfer m w u d)]"
  "q \<noteq> Seq_bin_transfer \<Longrightarrow> seqs (snd (insert_bin_transfer m w u d)) q = seqs d q"
  by (simp_all add: insert_bin_transfer_def uuid4_def nextval_def Let_def)

lemma move_frame [simp]:
  "inventory (move_audit s m fb tb r d) = inventory d"
  "inventory (move_event s m i fb tb r d) = inventory d"
  "bin_transfers (move_audit s m fb tb r d) = bin_transfers d"
  "bin_transfers (move_event s m i fb tb r d) = bin_transfers d"
  "events (move_audit s m fb tb r d) = events d"
  "seqs (move_audit s m fb tb r d) Seq_inventory = seqs d Seq_inventory"
  "seqs (move_event s m i fb tb r d) Seq_inventory = seqs d Seq_inventory"
  by (simp_all add: move_audit_def move_event_def)

lemma move_inventory_frame:
  "move_inventory i fb tb w q l d = Inr (r, d') \<Longrightarrow>
     events d' = events d \<and> bin_transfers d' = bin_transfers d \<and> seqs d' Seq_bin_transfer = seqs d Seq_bin_transfer"
  by (auto simp: move_inventory_def set_inventory_quantity_def Let_def split_beta split: option.splits if_splits)

lemma move_Inr:
  assumes "move s m d = Inr ((tid, ns, nd), d')"
  obtains i fb tb d1 r d2 where "find_item (mv_item m) d = Some i" "find_bin (mv_from m) d = Some fb"
    "find_bin (mv_to m) d = Some tb" "bin_wh tb = bin_wh fb" "check_warehouse_access s (Some (bin_wh fb))"
    "move_inventory (mv_item m) (mv_from m) (mv_to m) (bin_wh fb) (mv_qty m) (mv_lot m) d = Inr ((ns, nd), d1)"
    "insert_bin_transfer m (bin_wh fb) (s_user s) d1 = (r, d2)" "tid = bt_id r"
    "d' = move_event s m i fb tb r (move_audit s m fb tb r d2)"
  using assms
  by (auto simp: move_def Let_def split: option.splits if_splits sum.splits inv_error.splits prod.splits)

definition demo_session :: session where
  "demo_session = \<lparr>s_user = ''worker'', s_admin = False, s_whs = [1], s_txn = ''tx''\<rparr>"

definition demo_request :: move_request where
  "demo_request = \<lparr>mv_item = 7, mv_from = 1, mv_to = 2, mv_qty = 4, mv_reason = None, mv_lot = None\<rparr>"

lemma demo_request_moves: "\<exists>ns nd d'. move demo_session demo_request demo_stock = Inr ((100, ns, nd), d')"
  by (simp add: move_def demo_session_def demo_request_def demo_stock_def find_item_def find_bin_def
      check_warehouse_access_def move_inventory_def find_inv_def set_inventory_quantity_def add_inventory_def
      insert_bin_transfer_def uuid4_def nextval_def Let_def)

text \<open>A bin move is a ledger transfer inside the caller's warehouses: when the
  handler succeeds both bins lie in one warehouse the caller may use, the quantity
  left one cell for the other, the response reports the two new values, and exactly
  one transfer record with a fresh id was written for it.\<close>

theorem bin_move_exact:
  assumes "inv_wf d" "0 < mv_qty m" "move s m d = Inr ((tid, ns, nd), d')"
  shows "\<exists>fb tb r. find_bin (mv_from m) d = Some fb \<and> find_bin (mv_to m) d = Some tb
    \<and> bin_wh fb = bin_wh tb \<and> (s_admin s \<or> bin_wh fb \<in> set (s_whs s))
    \<and> mv_qty m \<le> cell d (mv_item m, mv_from m, mv_lot m)
    \<and> cell d' = (let c = (cell d)((mv_item m, mv_from m, mv_lot m) := ns)
                 in c((mv_item m, mv_to m, mv_lot m) := c (mv_item m, mv_to m, mv_lot m) + mv_qty m))
    \<and> ns = cell d (mv_item m, mv_from m, mv_lot m) - mv_qty m
    \<and> nd = cell d' (mv_item m, mv_to m, mv_lot m)
    \<and> inv_wf d' \<and> bin_transfers d' = bin_transfers d @ [r] \<and> bt_id r = tid \<and> bt_qty r = mv_qty m
    \<and> tid = seqs d Seq_bin_transfer"
proof -
  from move_Inr [OF assms(3)] obtain i fb tb d1 r d2 where
    "find_item (mv_item m) d = Some i" and
    b: "find_bin (mv_from m) d = Some fb" "find_bin (mv_to m) d = Some tb" "bin_wh tb = bin_wh fb"
    "check_warehouse_access s (Some (bin_wh fb))" and
    m: "move_inventory (mv_item m) (mv_from m) (mv_to m) (bin_wh fb) (mv_qty m) (mv_lot m) d = Inr ((ns, nd), d1)" and
    r: "insert_bin_transfer m (bin_wh fb) (s_user s) d1 = (r, d2)" "tid = bt_id r"
    "d' = move_event s m i fb tb r (move_audit s m fb tb r d2)" .
  have r': "r = fst (insert_bin_transfer m (bin_wh fb) (s_user s) d1)"
    "d2 = snd (insert_bin_transfer m (bin_wh fb) (s_user s) d1)" using r by simp_all
  have inv: "inventory d' = inventory d1" "seqs d' Seq_inventory = seqs d1 Seq_inventory"
    by (simp_all add: r(3) r'(2))
  have c: "cell d' = cell d1" "inv_wf d' = inv_wf d1" using inv by (simp_all add: cell_def inv_wf_def)
  have e: "cell d1 = (let c = (cell d)((mv_item m, mv_from m, mv_lot m) := ns)
       in c((mv_item m, mv_to m, mv_lot m) := c (mv_item m, mv_to m, mv_lot m) + mv_qty m))"
    "ns = cell d (mv_item m, mv_from m, mv_lot m) - mv_qty m"
    "nd = cell d1 (mv_item m, mv_to m, mv_lot m)" "inv_wf d1"
    using move_inventory_cell [OF assms(1) m] by simp_all
  have "\<not> cell d (mv_item m, mv_from m, mv_lot m) < mv_qty m"
    using m move_inventory_fails [OF assms(1,2), where item = "mv_item m" and fb = "mv_from m"
        and tb = "mv_to m" and wh = "bin_wh fb" and lot = "mv_lot m"] by simp
  moreover have "s_admin s \<or> bin_wh fb \<in> set (s_whs s)"
    using b(4) by (simp add: check_warehouse_access_def split: if_splits)
  moreover have "bin_transfers d' = bin_transfers d @ [r]" "bt_id r = seqs d Seq_bin_transfer" "bt_qty r = mv_qty m"
    using move_inventory_frame [OF m] by (simp_all add: r(3) r')
      (simp add: insert_bin_transfer_def uuid4_def nextval_def Let_def)
  ultimately show ?thesis
    using b e r(2) by (intro exI [of _ fb] exI [of _ tb] exI [of _ r]) (simp add: c)
qed

theorem bin_move_exact_witness:
  "\<exists>ns nd d'. move demo_session demo_request demo_stock = Inr ((100, ns, nd), d') \<and>
     ns = 6 \<and> cell d' (7, 2, None) = 4"
proof -
  from demo_request_moves obtain ns nd d' where
    m: "move demo_session demo_request demo_stock = Inr ((100, ns, nd), d')" by blast
  have q: "0 < mv_qty demo_request" by (simp add: demo_request_def)
  have "ns = cell demo_stock (7, 1, None) - 4"
    "cell d' = (let c = (cell demo_stock)((7, 1, None) := ns) in c((7, 2, None) := c (7, 2, None) + 4))"
    using bin_move_exact [OF demo_stock_wf q m] unfolding demo_request_def by auto
  moreover have "cell demo_stock (7, 1, None) = 10" "cell demo_stock (7, 2, None) = 0"
    by (simp_all add: demo_stock_def cell_def)
  ultimately show ?thesis using m by (simp add: Let_def)
qed

section \<open>What the move does not look at\<close>

text \<open>\<open>move_inventory\<close> compares with on_hand, not with what is free: units reserved for
  open orders can be moved away, and the source row is left with more reserved than
  it holds.\<close>

lemma move_ignores_reservations:
  "inv_sound demo_stock \<and>
   (\<exists>r d'. move demo_session (demo_request\<lparr>mv_qty := 9\<rparr>) demo_stock = Inr (r, d') \<and> \<not> inv_sound d')"
  by (simp add: move_def demo_session_def demo_request_def demo_stock_def find_item_def find_bin_def
      check_warehouse_access_def move_inventory_def find_inv_def set_inventory_quantity_def add_inventory_def
      insert_bin_transfer_def uuid4_def nextval_def Let_def inv_sound_def)

end
