(* ===== verification/StockWalk.thy ===== *)
theory StockWalk
  imports Inventory
begin

text \<open>
  Walks over inventory rows. Reserving, releasing and spending stock are all loops
  that visit rows of one item and take from each what it offers; the locale states
  what one visit does to a row's two quantities, its lemmas what the whole walk
  does to the item's reservations and stock in a warehouse.
\<close>

section \<open>Reservations and stock of an item in a warehouse\<close>

definition reserved :: "db \<Rightarrow> int \<Rightarrow> int \<Rightarrow> int" where
  "reserved d item wh = total (\<lambda>r. inv_item r = item \<and> inv_wh r = wh) allocated (inventory d)"

definition held :: "db \<Rightarrow> int \<Rightarrow> int \<Rightarrow> int" where
  "held d item wh = total (\<lambda>r. inv_item r = item \<and> inv_wh r = wh) on_hand (inventory d)"

definition good :: "db \<Rightarrow> bool" where
  "good d \<longleftrightarrow> inv_wf d \<and> inv_sound d"

definition sound_row :: "inv_row \<Rightarrow> bool" where
  "sound_row r \<longleftrightarrow> 0 \<le> allocated r \<and> allocated r \<le> on_hand r"

lemma good_rows: "good d \<longleftrightarrow> inv_wf d \<and> (\<forall>r \<in> set (inventory d). sound_row r)"
  by (auto simp: good_def inv_sound_def sound_row_def)

lemma good_wf [dest]: "good d \<Longrightarrow> inv_wf d"
  by (simp add: good_def)

lemma good_distinct: "good d \<Longrightarrow> distinct (map inv_id (inventory d))"
  by (simp add: good_def inv_wf_def)

lemma stock_cong:
  assumes "inventory d' = inventory d"
  shows "held d' = held d" "reserved d' = reserved d" "stock d' = stock d"
  using assms by (simp_all add: held_def reserved_def stock_def fun_eq_iff)

lemma good_cong:
  "inventory d' = inventory d \<Longrightarrow> seqs d' Seq_inventory = seqs d Seq_inventory \<Longrightarrow> good d' = good d"
  by (simp add: good_rows inv_wf_def)

text \<open>\<open>ORDER BY inventory_id\<close> over the item's rows.\<close>

definition item_rows :: "int \<Rightarrow> int \<Rightarrow> (inv_row \<Rightarrow> bool) \<Rightarrow> db \<Rightarrow> inv_row list" where
  "item_rows item wh P d =
     sort_key inv_id (filter (\<lambda>r. inv_item r = item \<and> inv_wh r = wh \<and> P r) (inventory d))"

lemma item_rows_member:
  "r \<in> set (item_rows item wh P d) \<longleftrightarrow> r \<in> set (inventory d) \<and> inv_item r = item \<and> inv_wh r = wh \<and> P r"
  by (auto simp: item_rows_def)

lemma item_rows_sub: "set (item_rows item wh P d) \<subseteq> set (inventory d)"
  by (auto simp: item_rows_member)

lemma item_rows_distinct: "inv_wf d \<Longrightarrow> distinct (map inv_id (item_rows item wh P d))"
  by (auto simp: item_rows_def inv_wf_def distinct_map inj_on_def)

lemma sum_item_rows:
  assumes "\<And>r. r \<in> set (inventory d) \<Longrightarrow> \<not> P r \<Longrightarrow> g r = 0"
  shows "sum_list (map g (item_rows item wh P d))
    = total (\<lambda>r. inv_item r = item \<and> inv_wh r = wh) g (inventory d)"
proof -
  have "sum_list (map g (filter (\<lambda>r. inv_item r = item \<and> inv_wh r = wh \<and> P r) t))
      = total (\<lambda>r. inv_item r = item \<and> inv_wh r = wh) g t"
    if "\<And>r. r \<in> set t \<Longrightarrow> \<not> P r \<Longrightarrow> g r = 0" for t
    using that by (induction t) auto
  with assms show ?thesis by (simp add: item_rows_def sum_list_sort_key)
qed

lemma good_columns:
  assumes "inv_wf d" "map inv_id (inventory d') = map inv_id (inventory d)"
    "map inv_key (inventory d') = map inv_key (inventory d)" "seqs d' Seq_inventory = seqs d Seq_inventory"
  shows "inv_wf d'"
proof -
  have "inv_id ` set (inventory d') = inv_id ` set (inventory d)"
    using arg_cong [OF assms(2), of set] by simp
  then have "\<exists>x \<in> set (inventory d). inv_id x = inv_id r" if "r \<in> set (inventory d')" for r
    using that by (metis imageE imageI)
  with assms show ?thesis unfolding inv_wf_def by metis
qed

text \<open>Rows lie where their bin is.\<close>

definition located :: "db \<Rightarrow> bool" where
  "located d \<longleftrightarrow> (\<forall>r \<in> set (inventory d). \<forall>b \<in> set (bins d). bin_id b = inv_bin r \<longrightarrow> inv_wh r = bin_wh b)"

lemma located_columns:
  assumes "located d" "bins d' = bins d"
    "map (\<lambda>r. (inv_bin r, inv_wh r)) (inventory d') = map (\<lambda>r. (inv_bin r, inv_wh r)) (inventory d)"
  shows "located d'"
proof -
  have "\<exists>x \<in> set (inventory d). inv_bin x = inv_bin r \<and> inv_wh x = inv_wh r" if "r \<in> set (inventory d')" for r
  proof -
    have "(inv_bin r, inv_wh r) \<in> set (map (\<lambda>r. (inv_bin r, inv_wh r)) (inventory d))"
      unfolding assms(3) [symmetric] using that by (auto simp: image_iff)
    then show ?thesis by auto
  qed
  with assms(1,2) show ?thesis unfolding located_def by metis
qed

section \<open>The walk\<close>

text \<open>\<open>st\<close> reads the database out of the loop's state; \<open>dh\<close> and \<open>da\<close> are what one unit
  taken adds to the row's stock and reservation.\<close>

locale stock_walk = table_loop avail take_from loop "\<lambda>s. inventory (st s)" inv_id change
  for avail :: "inv_row \<Rightarrow> int" and take_from :: "inv_row \<Rightarrow> int \<Rightarrow> 's \<Rightarrow> 's"
    and loop :: "int \<Rightarrow> inv_row list \<Rightarrow> 's \<Rightarrow> int \<times> 's"
    and st :: "'s \<Rightarrow> db"
    and change :: "int \<Rightarrow> 's \<Rightarrow> inv_row \<Rightarrow> inv_row" +
  fixes dh da :: int
  assumes change_place: "inv_key (change t s x) = inv_key x" "inv_wh (change t s x) = inv_wh x"
    and change_on_hand: "on_hand (change t s x) = on_hand x + dh * t"
    and change_allocated: "allocated (change t s x) = allocated x + da * t"
    and take_seq: "seqs (st (take_from r t s)) Seq_inventory = seqs (st s) Seq_inventory"
    and take_bins: "bins (st (take_from r t s)) = bins (st s)"
    and take_sound: "sound_row r \<Longrightarrow> 0 < t \<Longrightarrow> t \<le> avail r \<Longrightarrow> sound_row (change t s r)"
begin

lemma walk_kept:
  assumes "\<And>r. r \<in> set rs \<Longrightarrow> 0 < avail r"
  shows "seqs (st (snd (loop rem rs d))) Seq_inventory = seqs (st d) Seq_inventory"
    "bins (st (snd (loop rem rs d))) = bins (st d)"
  by (rule loop_invariant [where I = "\<lambda>s. seqs (st s) Seq_inventory = seqs (st d) Seq_inventory"];
      simp add: take_seq assms)
    (rule loop_invariant [where I = "\<lambda>s. bins (st s) = bins (st d)"]; simp add: take_bins assms)

lemma walk_good:
  assumes "good (st d)" "set rs \<subseteq> set (inventory (st d))" "distinct (map inv_id rs)"
    "\<And>r. r \<in> set rs \<Longrightarrow> 0 < avail r"
  shows "good (st (snd (loop rem rs d)))"
proof -
  have "sound_row r" if "r \<in> set (inventory (st (snd (loop rem rs d))))" for r
    by (rule rows_all [of d rs sound_row, OF _ assms(2-4)])
      (use assms(1) that take_sound in \<open>auto simp: good_rows inv_wf_def\<close>)
  moreover have "inv_wf (st (snd (loop rem rs d)))"
    by (rule good_columns [of "st d"])
      (use assms(1,4) walk_kept [of rs rem d] columns_kept [where rs = rs and rem = rem and s = d]
        change_place key_change in \<open>auto simp: good_def\<close>)
  ultimately show ?thesis by (simp add: good_rows)
qed

lemma walk_located:
  assumes "located (st d)" "\<And>r. r \<in> set rs \<Longrightarrow> 0 < avail r"
  shows "located (st (snd (loop rem rs d)))"
proof (rule located_columns [OF assms(1)])
  show "bins (st (snd (loop rem rs d))) = bins (st d)"
    by (rule walk_kept [OF assms(2)])
  show "map (\<lambda>r. (inv_bin r, inv_wh r)) (inventory (st (snd (loop rem rs d))))
      = map (\<lambda>r. (inv_bin r, inv_wh r)) (inventory (st d))"
    by (rule columns_kept) (use assms(2) change_place in \<open>auto simp: inv_key_def\<close>)
qed

text \<open>All visited rows belong to one item and warehouse.\<close>

lemma walk_totals:
  assumes "good (st d)" "set rs \<subseteq> set (inventory (st d))" "distinct (map inv_id rs)" "0 \<le> rem"
    and "\<And>r. r \<in> set rs \<Longrightarrow> 0 < avail r \<and> inv_item r = item \<and> inv_wh r = wh"
  shows "held (st (snd (loop rem rs d))) i w = held (st d) i w
      + (if i = item \<and> w = wh then dh * min rem (sum_list (map avail rs)) else 0)"
    "reserved (st (snd (loop rem rs d))) i w = reserved (st d) i w
      + (if i = item \<and> w = wh then da * min rem (sum_list (map avail rs)) else 0)"
    "stock (st (snd (loop rem rs d))) i = stock (st d) i
      + (if i = item then dh * min rem (sum_list (map avail rs)) else 0)"
  unfolding held_def reserved_def stock_def
  by (rule total_gain; use assms change_place in \<open>auto simp: good_distinct inv_key_def
        change_on_hand change_allocated\<close>)+

end

text \<open>A walk that writes nothing but the inventory table.\<close>

locale inv_walk = stock_walk avail take_from loop "\<lambda>s. s" change dh da
  for avail :: "inv_row \<Rightarrow> int" and take_from :: "inv_row \<Rightarrow> int \<Rightarrow> db \<Rightarrow> db"
    and loop :: "int \<Rightarrow> inv_row list \<Rightarrow> db \<Rightarrow> int \<times> db"
    and change :: "int \<Rightarrow> db \<Rightarrow> inv_row \<Rightarrow> inv_row" and dh da :: int +
  assumes take_frame: "\<exists>inv. take_from r t s = s\<lparr>inventory := inv\<rparr>"
begin

lemma walk_frame:
  assumes "\<And>r. r \<in> set rs \<Longrightarrow> 0 < avail r"
  shows "\<exists>inv. snd (loop rem rs d) = d\<lparr>inventory := inv\<rparr>"
proof (rule loop_invariant [where I = "\<lambda>s. \<exists>inv. s = d\<lparr>inventory := inv\<rparr>"])
  show "\<exists>inv. d = d\<lparr>inventory := inv\<rparr>"
    by (rule exI [of _ "inventory d"]) simp
next
  fix r t s
  assume "\<exists>inv. s = d\<lparr>inventory := inv\<rparr>"
  then show "\<exists>inv. take_from r t s = d\<lparr>inventory := inv\<rparr>"
    using take_frame [of r t s] by auto
qed (rule assms)

end

section \<open>Posting\<close>

lemma add_inventory_good:
  assumes "good d" "0 \<le> q"
  shows "good (snd (add_inventory item bin wh q lot d))"
proof -
  have wf: "inv_wf (snd (add_inventory item bin wh q lot d))"
    using assms(1) by (intro add_inventory_wf) (simp add: good_def)
  show ?thesis
  proof (cases "find_inv item bin lot d")
    case None
    with wf assms show ?thesis
      by (auto simp: good_rows add_inventory_def nextval_def sound_row_def)
  next
    case (Some r)
    with wf assms show ?thesis
      by (auto simp: good_rows add_inventory_def sound_row_def set_upd)
  qed
qed

lemma add_inventory_effect:
  assumes "good d" "0 \<le> q" "\<And>r. r \<in> set (inventory d) \<Longrightarrow> inv_bin r = bin \<Longrightarrow> inv_wh r = wh"
  shows "good (snd (add_inventory item bin wh q lot d))"
    "held (snd (add_inventory item bin wh q lot d)) i w = held d i w + (if i = item \<and> w = wh then q else 0)"
    "reserved (snd (add_inventory item bin wh q lot d)) i w = reserved d i w"
    "stock (snd (add_inventory item bin wh q lot d)) i = stock d i + (if i = item then q else 0)"
proof -
  show "good (snd (add_inventory item bin wh q lot d))" by (rule add_inventory_good [OF assms(1,2)])
  have "held (snd (add_inventory item bin wh q lot d)) i w = held d i w + (if i = item \<and> w = wh then q else 0)
    \<and> reserved (snd (add_inventory item bin wh q lot d)) i w = reserved d i w
    \<and> stock (snd (add_inventory item bin wh q lot d)) i = stock d i + (if i = item then q else 0)"
  proof (cases "find_inv item bin lot d")
    case None
    then show ?thesis
      by (auto simp: held_def reserved_def stock_def add_inventory_def nextval_def)
  next
    case (Some r)
    note r = find_inv_Some [OF Some]
    have wh: "inv_item r = item" "inv_wh r = wh" using r assms(3) by (auto simp: inv_key_def)
    let ?f = "\<lambda>x. x\<lparr>on_hand := on_hand x + q, inv_updated := now d\<rparr>"
    have "total (\<lambda>r. inv_item r = i \<and> inv_wh r = w) on_hand (upd (\<lambda>x. inv_id x = inv_id r) ?f (inventory d))
        = total (\<lambda>r. inv_item r = i \<and> inv_wh r = w) on_hand (inventory d) + (if i = item \<and> w = wh then q else 0)"
      using total_upd_key [OF good_distinct [OF assms(1)], of r "\<lambda>r. inv_item r = i \<and> inv_wh r = w" ?f on_hand] r wh
      by auto
    moreover have "total (\<lambda>r. inv_item r = i) on_hand (upd (\<lambda>x. inv_id x = inv_id r) ?f (inventory d))
        = total (\<lambda>r. inv_item r = i) on_hand (inventory d) + (if i = item then q else 0)"
      using total_upd_key [OF good_distinct [OF assms(1)], of r "\<lambda>r. inv_item r = i" ?f on_hand] r wh by auto
    moreover have "total (\<lambda>r. inv_item r = i \<and> inv_wh r = w) allocated (upd (\<lambda>x. inv_id x = inv_id r) ?f (inventory d))
        = total (\<lambda>r. inv_item r = i \<and> inv_wh r = w) allocated (inventory d)"
      by (rule total_upd_other) auto
    ultimately show ?thesis
      using Some by (simp add: held_def reserved_def stock_def add_inventory_def)
  qed
  then show "held (snd (add_inventory item bin wh q lot d)) i w = held d i w + (if i = item \<and> w = wh then q else 0)"
    "reserved (snd (add_inventory item bin wh q lot d)) i w = reserved d i w"
    "stock (snd (add_inventory item bin wh q lot d)) i = stock d i + (if i = item then q else 0)"
    by auto
qed

lemma add_inventory_located:
  assumes "located d" "\<And>b. b \<in> set (bins d) \<Longrightarrow> bin_id b = bin \<Longrightarrow> bin_wh b = wh"
  shows "located (snd (add_inventory item bin wh q lot d))"
  using assms
  by (auto simp: located_def add_inventory_def nextval_def set_upd split: option.splits)

text \<open>Writing every row that matches, as the statements without a primary key do.\<close>

lemma good_upd_all:
  assumes "good d" "\<And>r. sound_row r \<Longrightarrow> sound_row (f r)" "\<And>r. inv_key (f r) = inv_key r" "\<And>r. inv_id (f r) = inv_id r"
  shows "good (d\<lparr>inventory := upd P f (inventory d)\<rparr>)"
  using assms inv_wf_upd [of d f P] by (auto simp: good_rows set_upd)

end
