(* ===== verification/TransferOrders.thy ===== *)
theory TransferOrders
  imports StockWalk
begin

text \<open>
  Warehouse-to-warehouse transfer orders: the state machines and pick-side helpers
  of \<^verbatim>\<open>api/services/transfer_order_service.py\<close> and the admin and picker handlers of
  \<^verbatim>\<open>api/routes/admin/admin_transfer_orders.py\<close> (import, start picking, submit,
  approve, reject, short-close, cancel, delete). An \<open>Inl\<close> result is an error
  response or an exception: the transaction is rolled back. \<open>TE_internal\<close> stands for
  an exception the handler does not catch (a violated CHECK or foreign key).
\<close>

section \<open>State machines\<close>

fun header_transitions :: "to_status \<Rightarrow> to_status list" where
  "header_transitions TO_OPEN = [TO_PARTIALLY_PICKED, TO_CANCELLED]"
| "header_transitions TO_PARTIALLY_PICKED = [TO_PARTIALLY_PICKED, TO_AWAITING_APPROVAL, TO_CANCELLED]"
| "header_transitions TO_AWAITING_APPROVAL = [TO_APPROVED, TO_PARTIALLY_PICKED]"
| "header_transitions TO_APPROVED = [TO_CLOSED, TO_PARTIALLY_PICKED]"
| "header_transitions TO_CLOSED = []"
| "header_transitions TO_CANCELLED = []"

fun line_transitions :: "tol_status \<Rightarrow> tol_status list" where
  "line_transitions TOL_PENDING = [TOL_PARTIALLY_PICKED, TOL_SHORT_CLOSED]"
| "line_transitions TOL_PARTIALLY_PICKED = [TOL_PARTIALLY_PICKED, TOL_PICKED, TOL_SHORT_CLOSED]"
| "line_transitions TOL_PICKED = [TOL_APPROVED, TOL_SHORT_CLOSED]"
| "line_transitions TOL_APPROVED = []"
| "line_transitions TOL_SHORT_CLOSED = []"

fun approval_transitions :: "toa_status \<Rightarrow> toa_status list" where
  "approval_transitions TOA_PENDING = [TOA_APPROVED, TOA_REJECTED]"
| "approval_transitions TOA_APPROVED = []"
| "approval_transitions TOA_REJECTED = []"

text \<open>\<open>_validate_transition\<close>: true when it does not raise. The CHECK constraints on the
  status columns make every current state a key of its table.\<close>

definition validate_transition :: "('s \<Rightarrow> 's list) \<Rightarrow> 's \<Rightarrow> 's \<Rightarrow> bool" where
  "validate_transition machine current target \<longleftrightarrow> target \<in> set (machine current)"

definition validate_header_transition :: "to_status \<Rightarrow> to_status \<Rightarrow> bool" where
  "validate_header_transition = validate_transition header_transitions"

definition validate_line_transition :: "tol_status \<Rightarrow> tol_status \<Rightarrow> bool" where
  "validate_line_transition = validate_transition line_transitions"

definition validate_approval_transition :: "toa_status \<Rightarrow> toa_status \<Rightarrow> bool" where
  "validate_approval_transition = validate_transition approval_transitions"

text \<open>The status columns as text, for audit details.\<close>

fun to_status_text :: "to_status \<Rightarrow> string" where
  "to_status_text TO_OPEN = ''OPEN''"
| "to_status_text TO_PARTIALLY_PICKED = ''PARTIALLY_PICKED''"
| "to_status_text TO_AWAITING_APPROVAL = ''AWAITING_APPROVAL''"
| "to_status_text TO_APPROVED = ''APPROVED''"
| "to_status_text TO_CLOSED = ''CLOSED''"
| "to_status_text TO_CANCELLED = ''CANCELLED''"

fun tol_status_text :: "tol_status \<Rightarrow> string" where
  "tol_status_text TOL_PENDING = ''PENDING''"
| "tol_status_text TOL_PARTIALLY_PICKED = ''PARTIALLY_PICKED''"
| "tol_status_text TOL_PICKED = ''PICKED''"
| "tol_status_text TOL_APPROVED = ''APPROVED''"
| "tol_status_text TOL_SHORT_CLOSED = ''SHORT_CLOSED''"

section \<open>Errors\<close>

datatype to_error =
  TE_not_found
| TE_header_status to_status
| TE_line_status tol_status
| TE_partially_approved int
| TE_not_deletable int int
| TE_no_lines
| TE_no_pickable_inventory int int int
| TE_over_pick int
| TE_bad_delta int
| TE_approval_status toa_status
| TE_self_approval string
| TE_snapshot_empty
| TE_underfunded int
| TE_no_staging int
| TE_same_warehouse
| TE_unknown_warehouse string
| TE_row_errors "(nat \<times> string option) list"
| TE_internal

section \<open>Closure\<close>

fun is_header_closeable :: "(tol_status \<times> int \<times> int) list \<Rightarrow> bool" where
  "is_header_closeable [] = True"
| "is_header_closeable ((st, approved, picked) # ls) =
     (if st = TOL_SHORT_CLOSED then is_header_closeable ls
      else if st = TOL_APPROVED \<and> approved = picked then is_header_closeable ls
      else False)"

definition evaluate_to_closure :: "int \<Rightarrow> db \<Rightarrow> bool" where
  "evaluate_to_closure t d =
     (let ls = map (\<lambda>l. (tol_state l, tol_approved l, tol_picked l))
                 (filter (\<lambda>l. tol_to l = t) (to_lines d))
      in if ls = [] then False
         else if \<not> is_header_closeable ls then False
         else \<not> (\<exists>a \<in> set (to_approvals d). toa_to a = t \<and> toa_state a = TOA_PENDING))"

section \<open>Pick-side helpers\<close>

definition find_to :: "int \<Rightarrow> db \<Rightarrow> to_row option" where
  "find_to t d = List.find (\<lambda>o'. tro_id o' = t) (transfer_orders d)"

definition find_tol :: "int \<Rightarrow> db \<Rightarrow> tol_row option" where
  "find_tol l d = List.find (\<lambda>r. tol_id r = l) (to_lines d)"

definition set_to_status :: "int \<Rightarrow> to_status \<Rightarrow> db \<Rightarrow> db" where
  "set_to_status t st d =
     d\<lparr>transfer_orders := upd (\<lambda>o'. tro_id o' = t) (\<lambda>o'. o'\<lparr>tro_state := st, tro_updated := now d\<rparr>)
        (transfer_orders d)\<rparr>"

definition pick_line :: "int \<Rightarrow> tol_row \<Rightarrow> tol_row" where
  "pick_line q l =
     l\<lparr>tol_picked := tol_picked l + q,
       tol_state := (if tol_picked l + q = tol_committed l then TOL_PICKED else TOL_PARTIALLY_PICKED)\<rparr>"

definition line_pickable :: "int \<Rightarrow> tol_row \<Rightarrow> bool" where
  "line_pickable q l \<longleftrightarrow> tol_picked l + q \<le> tol_committed l
     \<and> (tol_state l = TOL_PENDING \<or> tol_state l = TOL_PARTIALLY_PICKED)"

definition update_transfer_order_line_picked :: "int \<Rightarrow> int \<Rightarrow> db \<Rightarrow> to_error + db" where
  "update_transfer_order_line_picked lid q d =
     (if q \<le> 0 then Inl (TE_bad_delta q)
      else if \<exists>l \<in> set (to_lines d). tol_id l = lid \<and> line_pickable q l
      then Inr (d\<lparr>to_lines := upd (\<lambda>l. tol_id l = lid \<and> line_pickable q l) (pick_line q) (to_lines d)\<rparr>)
      else Inl (TE_over_pick lid))"

definition maybe_promote_header_to_partially_picked :: "int \<Rightarrow> db \<Rightarrow> bool \<times> db" where
  "maybe_promote_header_to_partially_picked t d =
     (if \<exists>o' \<in> set (transfer_orders d). tro_id o' = t \<and> tro_state o' = TO_OPEN
      then (True, d\<lparr>transfer_orders := upd (\<lambda>o'. tro_id o' = t \<and> tro_state o' = TO_OPEN)
              (\<lambda>o'. o'\<lparr>tro_state := TO_PARTIALLY_PICKED, tro_updated := now d\<rparr>) (transfer_orders d)\<rparr>)
      else (False, d))"

definition line_open :: "tol_row \<Rightarrow> bool" where
  "line_open l \<longleftrightarrow> tol_state l = TOL_PENDING \<or> tol_state l = TOL_PARTIALLY_PICKED"

definition maybe_promote_header_to_awaiting_approval :: "int \<Rightarrow> db \<Rightarrow> bool \<times> db" where
  "maybe_promote_header_to_awaiting_approval t d =
     (let ls = filter (\<lambda>l. tol_to l = t) (to_lines d) in
      if ls = [] \<or> (\<exists>l \<in> set ls. line_open l) \<or> \<not> (\<exists>l \<in> set ls. tol_state l = TOL_PICKED)
      then (False, d)
      else case find_to t d of
             None \<Rightarrow> (False, d)
           | Some o' \<Rightarrow>
               if tro_state o' = TO_AWAITING_APPROVAL then (False, d)
               else if tro_state o' \<noteq> TO_OPEN \<and> tro_state o' \<noteq> TO_PARTIALLY_PICKED then (False, d)
               else (True, set_to_status t TO_AWAITING_APPROVAL d))"

datatype submit_result =
  SR_not_found | SR_invalid_status to_status | SR_nothing_picked | SR_ok int to_status nat

definition submit_lines :: "int \<Rightarrow> db \<Rightarrow> (int \<times> int \<times> int) list" where
  "submit_lines t d =
     map (\<lambda>l. (tol_id l, tol_item l, tol_picked l - tol_approved l))
       (sort_key tol_number (filter (\<lambda>l. tol_to l = t \<and> tol_approved l < tol_picked l) (to_lines d)))"

definition submit_picks :: "int \<Rightarrow> string \<Rightarrow> db \<Rightarrow> submit_result \<times> db" where
  "submit_picks t user d =
     (case find_to t d of
        None \<Rightarrow> (SR_not_found, d)
      | Some h \<Rightarrow>
          if tro_state h \<noteq> TO_PARTIALLY_PICKED \<and> tro_state h \<noteq> TO_AWAITING_APPROVAL
          then (SR_invalid_status (tro_state h), d)
          else if submit_lines t d = [] then (SR_nothing_picked, d)
          else
            let (u, d1) = uuid4 d;
                (aid, d2) = nextval Seq_approval d1;
                d3 = d2\<lparr>to_approvals := to_approvals d2 @
                       [\<lparr>toa_id = aid, toa_to = t, toa_by = user, toa_lines = submit_lines t d,
                         toa_ext = u, toa_state = TOA_PENDING, toa_approved = None,
                         toa_rejected = None\<rparr>]\<rparr>;
                st = (if \<exists>l \<in> set (to_lines d3). tol_to l = t \<and> line_open l
                      then TO_PARTIALLY_PICKED else TO_AWAITING_APPROVAL);
                d4 = (if tro_state h \<noteq> st then set_to_status t st d3 else d3);
                d5 = audit ''TO_SUBMITTED'' ''TO'' t user (tro_source h)
                       (JObj [(''to_number'', JStr (tro_number h)), (''to_approval_id'', JInt aid),
                              (''line_count'', JInt (int (length (submit_lines t d))))]) d4
            in (SR_ok aid st (length (submit_lines t d)), d5))"

section \<open>Releasing reservations\<close>

definition free_row :: "inv_row \<Rightarrow> int \<Rightarrow> db \<Rightarrow> db" where
  "free_row r q d =
     d\<lparr>inventory := upd (\<lambda>x. inv_id x = inv_id r) (\<lambda>x. x\<lparr>allocated := allocated x - q\<rparr>) (inventory d)\<rparr>"

fun free_rows :: "int \<Rightarrow> inv_row list \<Rightarrow> db \<Rightarrow> int \<times> db" where
  "free_rows rem [] d = (rem, d)"
| "free_rows rem (r # rs) d =
     (if rem \<le> 0 then (rem, d)
      else let give = min rem (allocated r) in
           if give = 0 then free_rows rem rs d
           else free_rows (rem - give) rs (free_row r give d))"

definition release_inventory_allocation :: "int \<Rightarrow> int \<Rightarrow> int \<Rightarrow> db \<Rightarrow> db" where
  "release_inventory_allocation item wh q d =
     (if q \<le> 0 then d else snd (free_rows q (item_rows item wh (\<lambda>r. 0 < allocated r) d) d))"

definition release_line :: "int \<Rightarrow> tol_row \<Rightarrow> db \<Rightarrow> db" where
  "release_line wh l d =
     (let to_release = tol_committed l - tol_approved l
      in if to_release \<le> 0 then d else release_inventory_allocation (tol_item l) wh to_release d)"

definition release_reservations :: "int \<Rightarrow> int \<Rightarrow> db \<Rightarrow> db" where
  "release_reservations t wh d =
     fold (release_line wh)
       (sort_key tol_item (filter (\<lambda>l. tol_to l = t \<and> tol_approved l < tol_committed l) (to_lines d))) d"

section \<open>Cancel, delete, short-close\<close>

definition cancel_transfer_order :: "string \<Rightarrow> int \<Rightarrow> db \<Rightarrow> to_error + db" where
  "cancel_transfer_order user t d =
     (case find_to t d of
        None \<Rightarrow> Inl TE_not_found
      | Some h \<Rightarrow>
          if \<not> validate_header_transition (tro_state h) TO_CANCELLED
          then Inl (TE_header_status (tro_state h))
          else
            let n = length (filter (\<lambda>a. toa_to a = t \<and> toa_state a \<noteq> TOA_PENDING) (to_approvals d))
            in if 0 < n then Inl (TE_partially_approved (int n))
               else
                 let d1 = release_reservations t (tro_source h) d;
                     d2 = set_to_status t TO_CANCELLED d1
                 in Inr (audit ''TO_CANCELLED'' ''TO'' t user (tro_source h)
                      (JObj [(''to_number'', JStr (tro_number h)),
                             (''previous_status'', JStr (to_status_text (tro_state h)))]) d2))"

text \<open>The \<open>ON DELETE CASCADE\<close> of lines and approvals; \<open>pick_tasks.to_id\<close> has no
  \<open>ON DELETE\<close> action, so a transfer order with pick tasks cannot be deleted.\<close>

definition delete_transfer_order :: "string \<Rightarrow> int \<Rightarrow> db \<Rightarrow> to_error + db" where
  "delete_transfer_order user t d =
     (case find_to t d of
        None \<Rightarrow> Inl TE_not_found
      | Some h \<Rightarrow>
          let picks = length (filter (\<lambda>l. tol_to l = t \<and> 0 < tol_picked l) (to_lines d));
              apprs = length (filter (\<lambda>a. toa_to a = t) (to_approvals d))
          in if 0 < picks \<or> 0 < apprs then Inl (TE_not_deletable (int picks) (int apprs))
             else
               let d1 = release_reservations t (tro_source h) d;
                   d2 = audit ''TO_DELETED'' ''TO'' t user (tro_source h)
                          (JObj [(''to_number'', JStr (tro_number h)),
                                 (''previous_status'', JStr (to_status_text (tro_state h)))]) d1
               in if \<exists>k \<in> set (pick_tasks d2). pt_to k = Some t then Inl TE_internal
                  else Inr (d2\<lparr>transfer_orders := filter (\<lambda>o'. tro_id o' \<noteq> t) (transfer_orders d2),
                               to_lines := filter (\<lambda>l. tol_to l \<noteq> t) (to_lines d2)\<rparr>))"

definition short_close_to_line :: "string \<Rightarrow> int \<Rightarrow> int \<Rightarrow> db \<Rightarrow> to_error + (int \<times> db)" where
  "short_close_to_line user t lid d =
     (case (List.find (\<lambda>l. tol_id l = lid \<and> tol_to l = t) (to_lines d), find_to t d) of
        (Some l, Some h) \<Rightarrow>
          if \<not> validate_line_transition (tol_state l) TOL_SHORT_CLOSED
          then Inl (TE_line_status (tol_state l))
          else
            let rem = tol_committed l - tol_approved l;
                d1 = (if 0 < rem then release_inventory_allocation (tol_item l) (tro_source h) rem d else d);
                d2 = d1\<lparr>to_lines := upd (\<lambda>x. tol_id x = lid) (\<lambda>x. x\<lparr>tol_state := TOL_SHORT_CLOSED\<rparr>)
                       (to_lines d1)\<rparr>
            in Inr (rem, audit ''TO_LINE_SHORT_CLOSED'' ''TO_LINE'' lid user (tro_source h)
                 (JObj [(''to_id'', JInt t), (''to_number'', JStr (tro_number h)),
                        (''line_number'', JInt (tol_number l)),
                        (''previous_status'', JStr (tol_status_text (tol_state l))),
                        (''released_qty'', JInt rem)]) d2)
      | _ \<Rightarrow> Inl TE_not_found)"

section \<open>Import\<close>

record import_row =
  ir_index :: nat
  ir_sku :: string
  ir_item :: int
  ir_qty :: int

text \<open>One record after Pydantic validation: \<open>None\<close> when it was rejected.\<close>

fun import_rows ::
    "nat \<Rightarrow> (string \<times> int) option list \<Rightarrow> db \<Rightarrow> (nat \<times> string option) list \<times> import_row list" where
  "import_rows i [] d = ([], [])"
| "import_rows i (raw # raws) d =
     (let (errs, rows) = import_rows (Suc i) raws d in
      case raw of
        None \<Rightarrow> ((i, None) # errs, rows)
      | Some (sku, q) \<Rightarrow>
          (case List.find (\<lambda>x. item_sku x = sku) (items d) of
             None \<Rightarrow> ((i, Some sku) # errs, rows)
           | Some x \<Rightarrow> (errs, \<lparr>ir_index = i, ir_sku = sku, ir_item = item_id x, ir_qty = q\<rparr> # rows)))"

definition row_free :: "inv_row \<Rightarrow> int" where
  "row_free r = max 0 (on_hand r - allocated r)"

definition reserve_row :: "inv_row \<Rightarrow> int \<Rightarrow> db \<Rightarrow> db" where
  "reserve_row r q d =
     d\<lparr>inventory := upd (\<lambda>x. inv_id x = inv_id r) (\<lambda>x. x\<lparr>allocated := allocated x + q\<rparr>) (inventory d)\<rparr>"

fun reserve_rows :: "int \<Rightarrow> inv_row list \<Rightarrow> db \<Rightarrow> int \<times> db" where
  "reserve_rows rem [] d = (rem, d)"
| "reserve_rows rem (r # rs) d =
     (if rem \<le> 0 then (rem, d)
      else let t = min rem (row_free r) in
           if t = 0 then reserve_rows rem rs d
           else reserve_rows (rem - t) rs (reserve_row r t d))"

record shortage =
  sh_index :: nat
  sh_sku :: string
  sh_requested :: int
  sh_available :: int
  sh_committed :: int

definition import_committed :: "int \<Rightarrow> import_row \<Rightarrow> db \<Rightarrow> int" where
  "import_committed src row d =
     max 0 (min (ir_qty row) (sum_list (map row_free (item_rows (ir_item row) src (\<lambda>_. True) d))))"

text \<open>Line inserts are (item, line number, requested, committed).\<close>

fun import_reserve ::
    "int \<Rightarrow> int \<Rightarrow> import_row list \<Rightarrow> db \<Rightarrow> shortage list \<times> (int \<times> int \<times> int \<times> int) list \<times> db" where
  "import_reserve src n [] d = ([], [], d)"
| "import_reserve src n (row # rows) d =
     (let rs = item_rows (ir_item row) src (\<lambda>_. True) d;
          avail = sum_list (map row_free rs);
          committed = max 0 (min (ir_qty row) avail);
          d1 = snd (reserve_rows committed rs d);
          (shs, ins, d2) = import_reserve src (n + 1) rows d1
      in ((if committed < ir_qty row
           then [\<lparr>sh_index = ir_index row, sh_sku = ir_sku row, sh_requested = ir_qty row,
                  sh_available = avail, sh_committed = committed\<rparr>] else []) @ shs,
          (ir_item row, n, ir_qty row, committed) # ins, d2))"

definition insert_to_header ::
    "string \<Rightarrow> int \<Rightarrow> int \<Rightarrow> string \<Rightarrow> string option \<Rightarrow> db \<Rightarrow> int option \<times> db" where
  "insert_to_header number src dst user notes d =
     (let (u, d1) = uuid4 d;
          (t, d2) = nextval Seq_transfer_order d1
      in if \<exists>o' \<in> set (transfer_orders d). tro_number o' = number then (None, d2)
         else (Some t, d2\<lparr>transfer_orders := transfer_orders d2 @
                [\<lparr>tro_id = t, tro_number = number, tro_state = TO_OPEN, tro_source = src,
                  tro_dest = dst, tro_by = user, tro_notes = notes, tro_ext = u,
                  tro_updated = now d\<rparr>]\<rparr>))"

definition insert_to_line :: "int \<Rightarrow> int \<times> int \<times> int \<times> int \<Rightarrow> db \<Rightarrow> db" where
  "insert_to_line t = (\<lambda>(item, n, requested, committed) d.
     let (i, d1) = nextval Seq_to_line d
     in d1\<lparr>to_lines := to_lines d1 @
          [\<lparr>tol_id = i, tol_to = t, tol_item = item, tol_number = n, tol_requested = requested,
            tol_committed = committed, tol_picked = 0, tol_approved = 0,
            tol_state = (if 0 < committed then TOL_PENDING else TOL_SHORT_CLOSED)\<rparr>]\<rparr>)"

definition resolve_warehouse_id :: "string \<Rightarrow> db \<Rightarrow> int option" where
  "resolve_warehouse_id code d =
     map_option wh_id (List.find (\<lambda>w. wh_code w = code \<and> wh_active w) (warehouses d))"

text \<open>
  The two attempts at the header. A collision on the first number rolls the whole
  transaction back before the retry: every reservation made so far is undone, the
  sequences and the identifiers drawn are not. A second collision is not caught.
\<close>

definition insert_header_twice ::
    "string \<times> string \<Rightarrow> int \<Rightarrow> int \<Rightarrow> string \<Rightarrow> string option \<Rightarrow> db \<Rightarrow> db \<Rightarrow> (int \<times> string \<times> db) option" where
  "insert_header_twice numbers src dst user notes d0 d =
     (case insert_to_header (fst numbers) src dst user notes d of
        (Some t, d1) \<Rightarrow> Some (t, fst numbers, d1)
      | (None, d1) \<Rightarrow>
          (case insert_to_header (snd numbers) src dst user notes
                  (d0\<lparr>seqs := seqs d1, uuid_ix := uuid_ix d1\<rparr>) of
             (Some t, d2) \<Rightarrow> Some (t, snd numbers, d2)
           | (None, d2) \<Rightarrow> None))"

definition import_transfer_order ::
    "string \<Rightarrow> string \<Rightarrow> string \<Rightarrow> string option \<Rightarrow> (string \<times> int) option list \<Rightarrow> string \<times> string \<Rightarrow> db
       \<Rightarrow> to_error + (int \<times> shortage list \<times> db)" where
  "import_transfer_order user src_code dst_code notes records numbers d =
     (if src_code = dst_code then Inl TE_same_warehouse
      else case resolve_warehouse_id src_code d of
        None \<Rightarrow> Inl (TE_unknown_warehouse src_code)
      | Some src \<Rightarrow>
          (case resolve_warehouse_id dst_code d of
             None \<Rightarrow> Inl (TE_unknown_warehouse dst_code)
           | Some dst \<Rightarrow>
               let (errs, rows) = import_rows 0 records d in
               if errs \<noteq> [] then Inl (TE_row_errors errs)
               else
                 let (shs, ins, d1) = import_reserve src 1 (sort_key ir_item rows) d in
                 case insert_header_twice numbers src dst user notes d d1 of
                   None \<Rightarrow> Inl TE_internal
                 | Some (t, number, d2) \<Rightarrow>
                     let d3 = fold (insert_to_line t) ins d2;
                         d4 = audit ''TO_CREATED'' ''TO'' t user src
                                (JObj [(''to_number'', JStr number),
                                       (''source_warehouse_id'', JInt src),
                                       (''destination_warehouse_id'', JInt dst),
                                       (''line_count'', JInt (int (length ins))),
                                       (''shortage_count'', JInt (int (length shs)))]) d3
                     in Inr (t, shs, d4)))"

section \<open>Start picking\<close>

definition to_task :: "int \<Rightarrow> int \<Rightarrow> tol_row \<Rightarrow> inv_row \<Rightarrow> int \<Rightarrow> int \<Rightarrow> int \<Rightarrow> task_row" where
  "to_task b t l r q n i =
     \<lparr>pt_id = i, pt_batch = b, pt_so = None, pt_sol = None, pt_to = Some t, pt_tol = Some (tol_id l),
      pt_item = tol_item l, pt_bin = inv_bin r, pt_qty = q, pt_picked = 0, pt_sequence = n,
      pt_tote = None, pt_state = TASK_PENDING, pt_by = None, pt_at = None, pt_confirmed = False\<rparr>"

text \<open>The walk over a line's rows: \<open>s = (pick_sequence, state)\<close>.\<close>

definition task_row_step :: "int \<Rightarrow> int \<Rightarrow> tol_row \<Rightarrow> inv_row \<Rightarrow> int \<Rightarrow> int \<times> db \<Rightarrow> int \<times> db" where
  "task_row_step b t l r q s =
     (let n = fst s + 1; (i, d1) = nextval Seq_task (snd s)
      in (n, d1\<lparr>pick_tasks := pick_tasks d1 @ [to_task b t l r q n i]\<rparr>))"

fun task_rows :: "int \<Rightarrow> int \<Rightarrow> tol_row \<Rightarrow> int \<Rightarrow> inv_row list \<Rightarrow> int \<times> db \<Rightarrow> int \<times> int \<times> db" where
  "task_rows b t l rem [] s = (rem, s)"
| "task_rows b t l rem (r # rs) s =
     (if rem \<le> 0 then (rem, s)
      else let q = min rem (on_hand r) in
           if q = 0 then task_rows b t l rem rs s
           else task_rows b t l (rem - q) rs (task_row_step b t l r q s))"

fun task_lines :: "int \<Rightarrow> int \<Rightarrow> int \<Rightarrow> tol_row list \<Rightarrow> int \<times> db \<Rightarrow> to_error + (int \<times> db)" where
  "task_lines b t wh [] s = Inr s"
| "task_lines b t wh (l # ls) s =
     (let (rem, s') = task_rows b t l (tol_committed l - tol_picked l)
                        (item_rows (tol_item l) wh (\<lambda>r. 0 < on_hand r) (snd s)) s
      in if 0 < rem then Inl (TE_no_pickable_inventory (tol_id l) (tol_item l) rem)
         else task_lines b t wh ls s')"

definition lines_to_pick :: "int \<Rightarrow> db \<Rightarrow> tol_row list" where
  "lines_to_pick t d =
     sort_key tol_number
       (filter (\<lambda>l. tol_to l = t \<and> line_open l \<and> tol_picked l < tol_committed l) (to_lines d))"

text \<open>\<open>stamp\<close> is the \<open>%H%M%S%f\<close> text cut to nine characters; the result is the batch id
  and the number of tasks.\<close>

definition start_to_picking :: "string \<Rightarrow> int \<Rightarrow> string \<Rightarrow> db \<Rightarrow> to_error + ((int \<times> int) \<times> db)" where
  "start_to_picking user t stamp d =
     (case find_to t d of
        None \<Rightarrow> Inl TE_not_found
      | Some h \<Rightarrow>
          if tro_state h \<noteq> TO_OPEN \<and> tro_state h \<noteq> TO_PARTIALLY_PICKED
          then Inl (TE_header_status (tro_state h))
          else if lines_to_pick t d = [] then Inl TE_no_lines
          else
            let (b, d1) = nextval Seq_batch d;
                d2 = d1\<lparr>pick_batches := pick_batches d1 @
                       [\<lparr>pb_id = b, pb_number = ''BATCH-TO-'' @ drop 3 (tro_number h) @ ''-'' @ stamp,
                         pb_wh = tro_source h, pb_state = BATCH_OPEN, pb_user = user,
                         pb_orders = 0, pb_items = 0, pb_completed = None\<rparr>]\<rparr>
            in case task_lines b t (tro_source h) (lines_to_pick t d) (0, d2) of
                 Inl e \<Rightarrow> Inl e
               | Inr (n, d3) \<Rightarrow> Inr ((b, n), d3))"

section \<open>Approve and reject\<close>

definition lower :: "string \<Rightarrow> string" where
  "lower = map (\<lambda>c. if (of_char c :: nat) \<in> {65..90} then char_of ((of_char c :: nat) + 32) else c)"

definition self_approval_blocked :: "db \<Rightarrow> bool" where
  "self_approval_blocked d \<longleftrightarrow>
     (case settings d ''transfer_order_block_self_approval'' of
        None \<Rightarrow> False | Some v \<Rightarrow> lower v = ''true'')"

definition spend_row :: "inv_row \<Rightarrow> int \<Rightarrow> db \<Rightarrow> db" where
  "spend_row r q d =
     d\<lparr>inventory := upd (\<lambda>x. inv_id x = inv_id r)
        (\<lambda>x. x\<lparr>on_hand := on_hand x - q, allocated := allocated x - q, inv_updated := now d\<rparr>) (inventory d)\<rparr>"

fun spend_rows :: "int \<Rightarrow> inv_row list \<Rightarrow> db \<Rightarrow> int \<times> db" where
  "spend_rows rem [] d = (rem, d)"
| "spend_rows rem (r # rs) d =
     (if rem \<le> 0 then (rem, d)
      else let give = min rem (min (allocated r) (on_hand r)) in
           if give = 0 then spend_rows rem rs d
           else spend_rows (rem - give) rs (spend_row r give d))"

definition decrement_source_inventory :: "int \<Rightarrow> int \<Rightarrow> int \<Rightarrow> db \<Rightarrow> to_error + db" where
  "decrement_source_inventory item wh q d =
     (let (rem, d') = spend_rows q (item_rows item wh (\<lambda>r. 0 < allocated r) d) d
      in if 0 < rem then Inl (TE_underfunded rem) else Inr d')"

definition credit_destination_inventory :: "int \<Rightarrow> int \<Rightarrow> int \<Rightarrow> db \<Rightarrow> to_error + db" where
  "credit_destination_inventory item wh q d =
     (case sort_key bin_id (filter (\<lambda>b. bin_wh b = wh \<and> bin_kind b = BIN_STAGING) (bins d)) of
        [] \<Rightarrow> Inl (TE_no_staging wh)
      | b # _ \<Rightarrow>
          (case find_inv item (bin_id b) None d of
             Some r \<Rightarrow>
               Inr (d\<lparr>inventory := upd (\<lambda>x. inv_id x = inv_id r)
                        (\<lambda>x. x\<lparr>on_hand := on_hand x + q, inv_updated := now d\<rparr>) (inventory d)\<rparr>)
           | None \<Rightarrow>
               let (i, d1) = nextval Seq_inventory d in
               Inr (d1\<lparr>inventory := inventory d1 @
                  [\<lparr>inv_id = i, inv_item = item, inv_bin = bin_id b, inv_wh = wh, on_hand = q,
                    allocated = 0, inv_lot = None, inv_updated = now d, inv_counted = None\<rparr>]\<rparr>)))"

definition approve_line :: "int \<Rightarrow> tol_row \<Rightarrow> tol_row" where
  "approve_line q l =
     l\<lparr>tol_approved := tol_approved l + q,
       tol_state := (if tol_approved l + q = tol_picked l \<and> tol_picked l = tol_committed l
                     then TOL_APPROVED else tol_state l)\<rparr>"

text \<open>One snapshot line: the CHECK \<open>approved_qty <= picked_qty\<close> guards the update.\<close>

definition approve_snap ::
    "int \<Rightarrow> int \<Rightarrow> int \<times> int \<times> int \<Rightarrow> db \<Rightarrow> to_error + (json list \<times> db)" where
  "approve_snap src dst = (\<lambda>(lid, item, q) d.
     if q \<le> 0 then Inr ([], d)
     else if \<exists>l \<in> set (to_lines d). tol_id l = lid \<and> tol_picked l < tol_approved l + q
     then Inl TE_internal
     else
       let d1 = d\<lparr>to_lines := upd (\<lambda>l. tol_id l = lid) (approve_line q) (to_lines d)\<rparr> in
       case decrement_source_inventory item src q d1 of
         Inl e \<Rightarrow> Inl e
       | Inr d2 \<Rightarrow>
           (case credit_destination_inventory item dst q d2 of
              Inl e \<Rightarrow> Inl e
            | Inr d3 \<Rightarrow>
                (case find_item item d3 of
                   None \<Rightarrow> Inl TE_internal
                 | Some i \<Rightarrow>
                     Inr ([JObj [(''item_external_id'',
                                   JStr (source_or_canonical ''item'' (item_ext i) d3)),
                                 (''quantity'', JInt q)]], d3))))"

fun approve_snaps ::
    "int \<Rightarrow> int \<Rightarrow> (int \<times> int \<times> int) list \<Rightarrow> json list \<times> db \<Rightarrow> to_error + (json list \<times> db)" where
  "approve_snaps src dst [] s = Inr s"
| "approve_snaps src dst (x # xs) s =
     (case approve_snap src dst x (snd s) of
        Inl e \<Rightarrow> Inl e
      | Inr (js, d) \<Rightarrow> approve_snaps src dst xs (fst s @ js, d))"

definition close_if_complete :: "string \<Rightarrow> to_row \<Rightarrow> int \<Rightarrow> db \<Rightarrow> bool \<times> db" where
  "close_if_complete user h t d =
     (if evaluate_to_closure t d
      then (True, audit ''TO_CLOSED'' ''TO'' t user (tro_source h)
                    (JObj [(''to_number'', JStr (tro_number h))]) (set_to_status t TO_CLOSED d))
      else (False, d))"

definition approval_event :: "session \<Rightarrow> to_row \<Rightarrow> toa_row \<Rightarrow> json list \<Rightarrow> int \<Rightarrow> db \<Rightarrow> db" where
  "approval_event s h a js at' d =
     (if js = [] then d
      else
        let (txn, d1) = (if s_txn s = [] then uuid4 d else (s_txn s, d))
        in snd (emit_event ''inventorytransfer.completed'' 1 ''inventory_transfer'' (toa_id a) (toa_ext a)
             (tro_dest h) txn
             (JObj [(''transfer_external_id'', JStr (toa_ext a)),
                    (''from_warehouse_id'', JInt (tro_source h)),
                    (''to_warehouse_id'', JInt (tro_dest h)),
                    (''lines'', JArr js),
                    (''completed_at'', JTime at')]) d1))"

definition approve_transfer_order_approval ::
    "session \<Rightarrow> int \<Rightarrow> int \<Rightarrow> db \<Rightarrow> to_error + (bool \<times> db)" where
  "approve_transfer_order_approval s t aid d =
     (case List.find (\<lambda>a. toa_id a = aid \<and> toa_to a = t) (to_approvals d) of
        None \<Rightarrow> Inl TE_not_found
      | Some a \<Rightarrow>
          if toa_state a \<noteq> TOA_PENDING then Inl (TE_approval_status (toa_state a))
          else if self_approval_blocked d \<and> toa_by a = s_user s then Inl (TE_self_approval (toa_by a))
          else
            (case find_to t d of
               None \<Rightarrow> Inl TE_not_found
             | Some h \<Rightarrow>
                 if toa_lines a = [] then Inl TE_snapshot_empty
                 else
                   (case approve_snaps (tro_source h) (tro_dest h)
                           (sort_key (\<lambda>(l, i, q). i) (toa_lines a)) ([], d) of
                      Inl e \<Rightarrow> Inl e
                    | Inr (js, d1) \<Rightarrow>
                        let d2 = d1\<lparr>to_approvals := upd (\<lambda>x. toa_id x = aid)
                                   (\<lambda>x. x\<lparr>toa_state := TOA_APPROVED,
                                          toa_approved := Some (s_user s, now d)\<rparr>) (to_approvals d1)\<rparr>;
                            d3 = audit ''TO_APPROVED'' ''TO_APPROVAL'' aid (s_user s) (tro_source h)
                                   (JObj [(''to_id'', JInt t), (''to_number'', JStr (tro_number h)),
                                          (''line_count'', JInt (int (length js)))]) d2;
                            (done_now, d4) = close_if_complete (s_user s) h t d3
                        in Inr (done_now, approval_event s h a js (now d) d4))))"

definition whitespace :: "char \<Rightarrow> bool" where
  "whitespace c \<longleftrightarrow> (of_char c :: nat) \<in> {9, 10, 11, 12, 13, 28, 29, 30, 31, 32, 133, 160}"

definition strip :: "string \<Rightarrow> string" where
  "strip s = rev (dropWhile whitespace (rev (dropWhile whitespace s)))"

definition reject_transfer_order_approval ::
    "string \<Rightarrow> int \<Rightarrow> int \<Rightarrow> string \<Rightarrow> db \<Rightarrow> to_error + db" where
  "reject_transfer_order_approval user t aid reason d =
     (let why = take 1000 (strip reason); why' = (if why = [] then None else Some why) in
      case List.find (\<lambda>a. toa_id a = aid \<and> toa_to a = t) (to_approvals d) of
        None \<Rightarrow> Inl TE_not_found
      | Some a \<Rightarrow>
          if toa_state a \<noteq> TOA_PENDING then Inl (TE_approval_status (toa_state a))
          else
            let d1 = d\<lparr>to_approvals := upd (\<lambda>x. toa_id x = aid)
                       (\<lambda>x. x\<lparr>toa_state := TOA_REJECTED, toa_rejected := Some (now d, why')\<rparr>)
                       (to_approvals d)\<rparr>
            in (case find_to t d1 of
                  None \<Rightarrow> Inl TE_internal
                | Some h \<Rightarrow>
                    Inr (audit ''TO_REJECTED'' ''TO_APPROVAL'' aid user (tro_source h)
                      (JObj [(''to_id'', JInt t), (''to_number'', JStr (tro_number h)),
                             (''submitted_by'', JStr (toa_by a)),
                             (''rejection_reason'', jopt JStr why')]) d1)))"

section \<open>The inventory walks\<close>

interpretation freeing: inv_walk allocated free_row free_rows
    "\<lambda>q s x. x\<lparr>allocated := allocated x - q\<rparr>" 0 "-1"
  by unfold_locales (auto simp: free_row_def Let_def inv_key_def sound_row_def)

interpretation reserving: inv_walk row_free reserve_row reserve_rows
    "\<lambda>q s x. x\<lparr>allocated := allocated x + q\<rparr>" 0 1
  by unfold_locales (auto simp: reserve_row_def Let_def inv_key_def sound_row_def row_free_def)


interpretation tasking: greedy_loop on_hand "task_row_step b t l" "task_rows b t l" for b t l
  by unfold_locales (auto simp: Let_def)

text \<open>Rows that offer nothing are skipped.\<close>

lemma reserve_rows_filter:
  "reserve_rows rem rs d = reserve_rows rem (filter (\<lambda>r. 0 < row_free r) rs) d"
proof (induction rem rs d rule: reserve_rows.induct)
  case (1 rem d)
  then show ?case by simp
next
  case (2 rem r rs d)
  show ?case
  proof (cases "rem \<le> 0")
    case True
    then show ?thesis
      by (cases "filter (\<lambda>r. 0 < row_free r) rs") auto
  next
    case False
    then have "min rem (row_free r) = 0 \<longleftrightarrow> \<not> 0 < row_free r"
      by (auto simp: row_free_def)
    with False 2 show ?thesis by (auto simp: Let_def)
  qed
qed

lemma item_rows_filter: "filter Q (item_rows item wh P d) = item_rows item wh (\<lambda>r. P r \<and> Q r) d"
  by (simp add: item_rows_def filter_sort conj_comms)

lemma release_allocation_effect:
  assumes "good d"
  shows "good (release_inventory_allocation item wh q d)"
    "reserved (release_inventory_allocation item wh q d) i w = reserved d i w
       - (if i = item \<and> w = wh then min (max 0 q) (reserved d item wh) else 0)"
    "held (release_inventory_allocation item wh q d) i w = held d i w"
    "stock (release_inventory_allocation item wh q d) i = stock d i"
    "\<exists>inv. release_inventory_allocation item wh q d = d\<lparr>inventory := inv\<rparr>"
proof -
  let ?rs = "item_rows item wh (\<lambda>r. 0 < allocated r) d"
  have rows: "\<And>r. r \<in> set ?rs \<Longrightarrow> 0 < allocated r \<and> inv_item r = item \<and> inv_wh r = wh"
    by (auto simp: item_rows_member)
  have sum: "sum_list (map allocated ?rs) = reserved d item wh"
    unfolding reserved_def by (rule sum_item_rows) (use assms in \<open>auto simp: good_rows sound_row_def\<close>)
  have nn: "0 \<le> reserved d item wh"
    unfolding reserved_def by (rule total_nonneg) (use assms in \<open>auto simp: good_rows sound_row_def\<close>)
  note walk = item_rows_sub [of item wh "\<lambda>r. 0 < allocated r" d] item_rows_distinct [OF good_wf [OF assms]]
  show "good (release_inventory_allocation item wh q d)"
    using freeing.walk_good [OF assms walk(1) walk(2)] rows assms
    by (auto simp: release_inventory_allocation_def)
  show "reserved (release_inventory_allocation item wh q d) i w = reserved d i w
       - (if i = item \<and> w = wh then min (max 0 q) (reserved d item wh) else 0)"
    "held (release_inventory_allocation item wh q d) i w = held d i w"
    "stock (release_inventory_allocation item wh q d) i = stock d i"
    using freeing.walk_totals [OF assms walk(1) walk(2) _ rows, of q] sum nn
    by (auto simp: release_inventory_allocation_def)
  show "\<exists>inv. release_inventory_allocation item wh q d = d\<lparr>inventory := inv\<rparr>"
    using freeing.walk_frame [of ?rs q d] rows exI [of "\<lambda>inv. d = d\<lparr>inventory := inv\<rparr>" "inventory d"]
    by (auto simp: release_inventory_allocation_def)
qed


text \<open>Crediting the destination is posting to its first staging bin without a lot.\<close>

lemma credit_destination_posts:
  "credit_destination_inventory item wh q d =
     (case sort_key bin_id (filter (\<lambda>b. bin_wh b = wh \<and> bin_kind b = BIN_STAGING) (bins d)) of
        [] \<Rightarrow> Inl (TE_no_staging wh)
      | b # _ \<Rightarrow> Inr (snd (add_inventory item (bin_id b) wh q None d)))"
  by (auto simp: credit_destination_inventory_def add_inventory_def Let_def split_beta
      split: list.splits option.splits)

section \<open>Approval carries stock between warehouses\<close>







lemma approval_event_frame [simp]:
  "inventory (approval_event s h a js c d) = inventory d"
  "bins (approval_event s h a js c d) = bins d"
  "to_lines (approval_event s h a js c d) = to_lines d"
  "to_approvals (approval_event s h a js c d) = to_approvals d"
  "transfer_orders (approval_event s h a js c d) = transfer_orders d"
  "q \<noteq> Seq_event \<Longrightarrow> seqs (approval_event s h a js c d) q = seqs d q"
  by (simp_all add: approval_event_def uuid4_def Let_def split_beta)

lemma set_to_status_frame [simp]:
  "inventory (set_to_status t st d) = inventory d" "bins (set_to_status t st d) = bins d"
  "to_lines (set_to_status t st d) = to_lines d"
  "to_approvals (set_to_status t st d) = to_approvals d"
  "seqs (set_to_status t st d) = seqs d" "now (set_to_status t st d) = now d"
  by (simp_all add: set_to_status_def)

lemma close_if_complete_frame [simp]:
  "inventory (snd (close_if_complete u h t d)) = inventory d"
  "bins (snd (close_if_complete u h t d)) = bins d"
  "to_lines (snd (close_if_complete u h t d)) = to_lines d"
  "to_approvals (snd (close_if_complete u h t d)) = to_approvals d"
  "q \<noteq> Seq_audit \<Longrightarrow> seqs (snd (close_if_complete u h t d)) q = seqs d q"
  by (simp_all add: close_if_complete_def)

lemma approve_Inr:
  assumes "approve_transfer_order_approval s t aid d = Inr (done_now, d')"
  obtains a h js d1 where
    "List.find (\<lambda>a. toa_id a = aid \<and> toa_to a = t) (to_approvals d) = Some a"
    "toa_state a = TOA_PENDING" "find_to t d = Some h"
    "approve_snaps (tro_source h) (tro_dest h) (sort_key (\<lambda>(l, i, q). i) (toa_lines a)) ([], d) = Inr (js, d1)"
    "inventory d' = inventory d1" "bins d' = bins d1" "to_lines d' = to_lines d1"
    "seqs d' Seq_inventory = seqs d1 Seq_inventory"
    "to_approvals d' = upd (\<lambda>x. toa_id x = aid)
       (\<lambda>x. x\<lparr>toa_state := TOA_APPROVED, toa_approved := Some (s_user s, now d)\<rparr>) (to_approvals d1)"
  using assms
  by (auto simp: approve_transfer_order_approval_def Let_def split_beta
      split: option.splits if_splits sum.splits)


section \<open>Histories of a transfer order\<close>

text \<open>
  The operations as steps. The import schema admits positive quantities; a pick is
  what \<open>confirm_pick\<close> does to a transfer line.
\<close>

inductive to_step :: "db \<Rightarrow> db \<Rightarrow> bool" where
  imported: "\<lbrakk> import_transfer_order user src dst notes recs numbers d = Inr (t, shs, d');
      \<And>sku q. Some (sku, q) \<in> set recs \<Longrightarrow> 0 < q \<rbrakk> \<Longrightarrow> to_step d d'"
| started: "start_to_picking user t stamp d = Inr (res, d') \<Longrightarrow> to_step d d'"
| picked: "update_transfer_order_line_picked lid q d = Inr d1 \<Longrightarrow>
      to_step d (snd (maybe_promote_header_to_partially_picked t d1))"
| submitted: "to_step d (snd (submit_picks t user d))"
| approved: "approve_transfer_order_approval s t aid d = Inr (fin, d') \<Longrightarrow> to_step d d'"
| rejected: "reject_transfer_order_approval user t aid why d = Inr d' \<Longrightarrow> to_step d d'"
| short_closed: "short_close_to_line user t lid d = Inr (n, d') \<Longrightarrow> to_step d d'"
| cancelled: "cancel_transfer_order user t d = Inr d' \<Longrightarrow> to_step d d'"
| deleted: "delete_transfer_order user t d = Inr d' \<Longrightarrow> to_step d d'"

definition tol_ok :: "tol_row \<Rightarrow> bool" where
  "tol_ok l \<longleftrightarrow> 0 \<le> tol_approved l \<and> tol_approved l \<le> tol_picked l \<and> tol_picked l \<le> tol_committed l
     \<and> tol_committed l \<le> tol_requested l
     \<and> (case tol_state l of
          TOL_PENDING \<Rightarrow> tol_picked l = 0 \<and> 0 < tol_committed l
        | TOL_PARTIALLY_PICKED \<Rightarrow> 0 < tol_picked l \<and> tol_picked l < tol_committed l
        | TOL_PICKED \<Rightarrow> 0 < tol_picked l \<and> tol_picked l = tol_committed l
        | TOL_APPROVED \<Rightarrow> 0 < tol_picked l \<and> tol_approved l = tol_committed l
        | TOL_SHORT_CLOSED \<Rightarrow> True)"

definition to_lines_ok :: "db \<Rightarrow> bool" where
  "to_lines_ok d \<longleftrightarrow> (\<forall>l \<in> set (to_lines d). tol_ok l)"

text \<open>What each operation does to the lines.\<close>

lemma release_allocation_lines:
  "to_lines (release_inventory_allocation i w q d) = to_lines d"
  "to_approvals (release_inventory_allocation i w q d) = to_approvals d"
  "transfer_orders (release_inventory_allocation i w q d) = transfer_orders d"
proof -
  have "\<exists>inv. release_inventory_allocation i w q d = d\<lparr>inventory := inv\<rparr>"
    using freeing.walk_frame [of "item_rows i w (\<lambda>r. 0 < allocated r) d" q d]
      exI [of "\<lambda>inv. d = d\<lparr>inventory := inv\<rparr>" "inventory d"]
    by (auto simp: release_inventory_allocation_def item_rows_member)
  then show "to_lines (release_inventory_allocation i w q d) = to_lines d"
    "to_approvals (release_inventory_allocation i w q d) = to_approvals d"
    "transfer_orders (release_inventory_allocation i w q d) = transfer_orders d"
    by auto
qed

lemma release_reservations_lines:
  "to_lines (release_reservations t w d) = to_lines d"
  "to_approvals (release_reservations t w d) = to_approvals d"
  "transfer_orders (release_reservations t w d) = transfer_orders d"
proof -
  have "to_lines (fold (release_line w) ls d) = to_lines d
    \<and> to_approvals (fold (release_line w) ls d) = to_approvals d
    \<and> transfer_orders (fold (release_line w) ls d) = transfer_orders d" for ls
    by (induction ls arbitrary: d) (simp_all add: release_line_def Let_def release_allocation_lines)
  then show "to_lines (release_reservations t w d) = to_lines d"
    "to_approvals (release_reservations t w d) = to_approvals d"
    "transfer_orders (release_reservations t w d) = transfer_orders d"
    by (simp_all add: release_reservations_def)
qed

lemma reserve_lines: "to_lines (snd (reserve_rows q rs d)) = to_lines d"
  using reserving.walk_frame [of "filter (\<lambda>r. 0 < row_free r) rs" q d] reserve_rows_filter [of q rs d] by auto

lemma import_reserve_lines:
  "import_reserve src n rows d = (shs, ins, d') \<Longrightarrow>
     to_lines d' = to_lines d \<and> (\<forall>(i, n, r, c) \<in> set ins. (\<exists>x \<in> set rows. i = ir_item x \<and> r = ir_qty x)
       \<and> 0 \<le> c \<and> c \<le> max 0 r)"
proof (induction rows arbitrary: n d shs ins)
  case Nil
  then show ?case by simp
next
  case (Cons row rows)
  let ?rs = "item_rows (ir_item row) src (\<lambda>_. True) d"
  let ?c = "max 0 (min (ir_qty row) (sum_list (map row_free ?rs)))"
  obtain shs1 ins1 where rest: "import_reserve src (n + 1) rows (snd (reserve_rows ?c ?rs d)) = (shs1, ins1, d')"
    using Cons.prems by (auto simp: Let_def split: prod.splits)
  from Cons.IH [OF rest] have "to_lines d' = to_lines d" by (simp add: reserve_lines)
  moreover have "ins = (ir_item row, n, ir_qty row, ?c) # ins1"
    using Cons.prems rest by (simp add: Let_def)
  ultimately show ?case using Cons.IH [OF rest] by auto
qed

definition line_insert :: "tol_row \<Rightarrow> int \<times> int \<times> int \<times> int" where
  "line_insert l = (tol_item l, tol_number l, tol_requested l, tol_committed l)"

text \<open>A line as the import inserts it.\<close>

definition fresh_line :: "int \<Rightarrow> (int \<times> int \<times> int \<times> int) set \<Rightarrow> tol_row \<Rightarrow> bool" where
  "fresh_line t ins l \<longleftrightarrow> tol_to l = t
     \<and> line_insert l \<in> ins
     \<and> tol_picked l = 0 \<and> tol_approved l = 0
     \<and> tol_state l = (if 0 < tol_committed l then TOL_PENDING else TOL_SHORT_CLOSED)"

lemma insert_to_line_append:
  "\<exists>l. to_lines (insert_to_line t x d) = to_lines d @ [l] \<and> fresh_line t {x} l \<and> line_insert l = x"
proof -
  obtain i n r c where x: "x = (i, n, r, c)" by (cases x)
  let ?l = "\<lparr>tol_id = seqs d Seq_to_line, tol_to = t, tol_item = i, tol_number = n, tol_requested = r,
            tol_committed = c, tol_picked = 0, tol_approved = 0,
            tol_state = (if 0 < c then TOL_PENDING else TOL_SHORT_CLOSED)\<rparr>"
  have "to_lines (insert_to_line t x d) = to_lines d @ [?l]" "fresh_line t {x} ?l" "line_insert ?l = x"
    by (simp_all add: insert_to_line_def fresh_line_def line_insert_def x nextval_def)
  then show ?thesis by blast
qed

lemma insert_lines_append:
  "\<exists>new. to_lines (fold (insert_to_line t) ins d) = to_lines d @ new \<and> list_all (fresh_line t (set ins)) new
     \<and> map line_insert new = ins"
proof (induction ins arbitrary: d)
  case Nil
  then show ?case by simp
next
  case (Cons x ins)
  obtain l where l: "to_lines (insert_to_line t x d) = to_lines d @ [l]" "fresh_line t {x} l" "line_insert l = x"
    using insert_to_line_append by blast
  from Cons obtain new where
    "to_lines (fold (insert_to_line t) ins (insert_to_line t x d)) = to_lines d @ [l] @ new"
    "list_all (fresh_line t (set ins)) new" "map line_insert new = ins"
    by (metis append.assoc l(1))
  with l(2,3) show ?case
    by (intro exI [of _ "l # new"]) (auto simp: fresh_line_def list_all_iff)
qed

lemma import_rows_qty:
  "import_rows i recs d = (errs, rows) \<Longrightarrow> r \<in> set rows \<Longrightarrow> \<exists>sku. Some (sku, ir_qty r) \<in> set recs"
proof (induction i recs d arbitrary: errs rows rule: import_rows.induct)
  case (1 i d)
  then show ?case by simp
next
  case (2 i raw raws d)
  obtain errs' rows' where rest: "import_rows (Suc i) raws d = (errs', rows')"
    by (cases "import_rows (Suc i) raws d")
  show ?case
    using 2 rest by (auto split: option.splits) (metis import_row.select_convs(4))+
qed

lemma insert_to_header_lines:
  "to_lines (snd (insert_to_header n src dst u notes d)) = to_lines d"
  "inventory (snd (insert_to_header n src dst u notes d)) = inventory d"
  "fst (insert_to_header n src dst u notes d) = None \<longleftrightarrow> (\<exists>h \<in> set (transfer_orders d). tro_number h = n)"
  by (auto simp: insert_to_header_def uuid4_def nextval_def Let_def)

lemma insert_lines_inventory:
  "inventory (fold (insert_to_line t) ins d) = inventory d
     \<and> seqs (fold (insert_to_line t) ins d) Seq_inventory = seqs d Seq_inventory"
proof -
  have "inventory (insert_to_line t x d) = inventory d
     \<and> seqs (insert_to_line t x d) Seq_inventory = seqs d Seq_inventory" for x d
    by (simp add: insert_to_line_def split_beta)
  then show ?thesis by (induction ins arbitrary: d) simp_all
qed

lemma import_Inr:
  assumes "import_transfer_order user src_code dst_code notes recs numbers d = Inr (t, shs, d')"
  obtains src rows ins d1 new where
    "resolve_warehouse_id src_code d = Some src"
    "import_rows 0 recs d = ([], rows)"
    "import_reserve src 1 (sort_key ir_item rows) d = (shs, ins, d1)"
    "to_lines d' = to_lines d @ new" "list_all (fresh_line t (set ins)) new" "map line_insert new = ins"
    "\<not> (\<exists>h \<in> set (transfer_orders d1). tro_number h = fst numbers) \<longrightarrow> inventory d' = inventory d1
       \<and> seqs d' Seq_inventory = seqs d1 Seq_inventory"
proof -
  from assms obtain src dst rows ins d1 number d2 where a:
    "resolve_warehouse_id src_code d = Some src"
    "import_rows 0 recs d = ([], rows)"
    "import_reserve src 1 (sort_key ir_item rows) d = (shs, ins, d1)"
    "insert_header_twice numbers src dst user notes d d1 = Some (t, number, d2)"
    and d': "to_lines d' = to_lines (fold (insert_to_line t) ins d2)"
      "inventory d' = inventory (fold (insert_to_line t) ins d2)"
      "seqs d' Seq_inventory = seqs (fold (insert_to_line t) ins d2) Seq_inventory"
    by (auto simp: import_transfer_order_def Let_def split: option.splits if_splits prod.splits)
  have "to_lines d1 = to_lines d" using import_reserve_lines [OF a(3)] by blast
  then have d2: "to_lines d2 = to_lines d"
    "\<not> (\<exists>h \<in> set (transfer_orders d1). tro_number h = fst numbers) \<Longrightarrow> inventory d2 = inventory d1
       \<and> seqs d2 Seq_inventory = seqs d1 Seq_inventory"
    using a(4) by (auto simp: insert_header_twice_def insert_to_header_def uuid4_def nextval_def Let_def
        split: if_splits)
  obtain new where "to_lines (fold (insert_to_line t) ins d2) = to_lines d2 @ new"
    "list_all (fresh_line t (set ins)) new" "map line_insert new = ins"
    using insert_lines_append by blast
  with that a d' d2 show thesis by (simp add: insert_lines_inventory)
qed

lemma task_rows_lines: "to_lines (snd (snd (task_rows b t l rem rs s))) = to_lines (snd s)"
  by (induction b t l rem rs s rule: task_rows.induct) (auto simp: Let_def task_row_step_def nextval_def)

lemma task_lines_lines: "task_lines b t wh ls s = Inr s' \<Longrightarrow> to_lines (snd s') = to_lines (snd s)"
proof (induction ls arbitrary: s)
  case Nil
  then show ?case by simp
next
  case (Cons l ls)
  then show ?case
    using task_rows_lines [of b t l "tol_committed l - tol_picked l"
        "item_rows (tol_item l) wh (\<lambda>r. 0 < on_hand r) (snd s)" s]
    by (auto simp: Let_def split: prod.splits if_splits)
qed

lemma start_lines:
  assumes "start_to_picking user t stamp d = Inr (res, d')"
  shows "to_lines d' = to_lines d"
  using assms
  by (auto simp: start_to_picking_def Let_def nextval_def split: option.splits if_splits sum.splits
      dest!: task_lines_lines)

lemma submit_lines_kept: "to_lines (snd (submit_picks t user d)) = to_lines d"
  by (simp add: submit_picks_def uuid4_def nextval_def Let_def split: option.splits)

lemma promote_lines: "to_lines (snd (maybe_promote_header_to_partially_picked t d)) = to_lines d"
  by (simp add: maybe_promote_header_to_partially_picked_def)

text \<open>The invariant, operation by operation.\<close>

lemma fresh_line_ok:
  assumes "import_reserve src n rows d = (shs, ins, d1)" "\<And>x. x \<in> set rows \<Longrightarrow> 0 < ir_qty x"
    "fresh_line t (set ins) l"
  shows "tol_ok l"
proof -
  have "line_insert l \<in> set ins" using assms(3) by (simp add: fresh_line_def)
  from import_reserve_lines [OF assms(1), THEN conjunct2, rule_format, OF this]
  have "0 \<le> tol_committed l" "tol_committed l \<le> max 0 (tol_requested l)" "\<exists>x \<in> set rows. tol_requested l = ir_qty x"
    by (auto simp: line_insert_def)
  with assms(2,3) show ?thesis by (force simp: tol_ok_def fresh_line_def)
qed

lemma pick_line_ok: "tol_ok l \<Longrightarrow> line_pickable q l \<Longrightarrow> 0 < q \<Longrightarrow> tol_ok (pick_line q l)"
  by (auto simp: tol_ok_def line_pickable_def pick_line_def)

lemma approve_line_ok:
  "tol_ok l \<Longrightarrow> 0 < q \<Longrightarrow> tol_approved l + q \<le> tol_picked l \<Longrightarrow> tol_ok (approve_line q l)"
  by (auto simp: tol_ok_def approve_line_def split: tol_status.splits)

lemma decrement_lines:
  "decrement_source_inventory i w q d = Inr d' \<Longrightarrow> to_lines d' = to_lines d"
proof -
  have "to_lines (snd (spend_rows q rs d)) = to_lines d" for q rs d
    by (induction q rs d rule: spend_rows.induct) (simp_all add: Let_def spend_row_def)
  then show "decrement_source_inventory i w q d = Inr d' \<Longrightarrow> to_lines d' = to_lines d"
    by (auto simp: decrement_source_inventory_def split_beta split: if_splits)
qed

lemma credit_lines:
  "credit_destination_inventory i w q d = Inr d' \<Longrightarrow> to_lines d' = to_lines d"
  by (auto simp: credit_destination_posts split: list.splits)

lemma approve_snap_lines:
  assumes "approve_snap src dst (lid, item, q) d = Inr (js, d')"
  shows "to_lines d' = (if q \<le> 0 then to_lines d else upd (\<lambda>l. tol_id l = lid) (approve_line q) (to_lines d))
    \<and> (0 < q \<longrightarrow> (\<forall>l \<in> set (to_lines d). tol_id l = lid \<longrightarrow> tol_approved l + q \<le> tol_picked l))"
  using assms
  by (auto simp: approve_snap_def Let_def not_less dest!: decrement_lines credit_lines
      split: if_splits sum.splits option.splits)

lemma approve_snap_ok:
  assumes "approve_snap src dst x d = Inr (js, d')" "to_lines_ok d"
  shows "to_lines_ok d'"
proof -
  obtain lid item q where x: "x = (lid, item, q)" by (cases x)
  show ?thesis
    using approve_snap_lines [OF assms(1) [unfolded x]] assms(2) approve_line_ok
    by (auto simp: to_lines_ok_def set_upd split: if_splits)
qed

lemma approve_snaps_invariant:
  assumes "approve_snaps src dst xs s = Inr s'" "I (snd s)"
    and "\<And>x d js d'. approve_snap src dst x d = Inr (js, d') \<Longrightarrow> I d \<Longrightarrow> I d'"
  shows "I (snd s')"
  using assms by (induction xs arbitrary: s) (auto split: sum.splits prod.splits)

lemma pick_ok:
  assumes "update_transfer_order_line_picked lid q d = Inr d1" "to_lines_ok d"
  shows "to_lines_ok d1"
proof -
  from assms(1) have "0 < q" "d1 = d\<lparr>to_lines := upd (\<lambda>l. tol_id l = lid \<and> line_pickable q l) (pick_line q) (to_lines d)\<rparr>"
    by (auto simp: update_transfer_order_line_picked_def split: if_splits)
  with assms(2) pick_line_ok show ?thesis by (auto simp: to_lines_ok_def set_upd)
qed

lemma cancel_lines:
  "cancel_transfer_order user t d = Inr d' \<Longrightarrow> to_lines d' = to_lines d"
  by (auto simp: cancel_transfer_order_def Let_def release_reservations_lines split: option.splits if_splits)

lemma reject_lines:
  "reject_transfer_order_approval user t aid why d = Inr d' \<Longrightarrow> to_lines d' = to_lines d"
  by (auto simp: reject_transfer_order_approval_def Let_def split: option.splits if_splits)

lemma delete_lines:
  "delete_transfer_order user t d = Inr d' \<Longrightarrow> to_lines d' = filter (\<lambda>l. tol_to l \<noteq> t) (to_lines d)
     \<and> (\<forall>l \<in> set (to_lines d). tol_to l = t \<longrightarrow> tol_picked l \<le> 0)"
  by (auto simp: delete_transfer_order_def Let_def release_reservations_lines filter_empty_conv not_less
      split: option.splits if_splits)

lemma short_close_lines:
  assumes "short_close_to_line user t lid d = Inr (n, d')"
  obtains l where "List.find (\<lambda>l. tol_id l = lid \<and> tol_to l = t) (to_lines d) = Some l"
    "validate_line_transition (tol_state l) TOL_SHORT_CLOSED"
    "to_lines d' = upd (\<lambda>x. tol_id x = lid) (\<lambda>x. x\<lparr>tol_state := TOL_SHORT_CLOSED\<rparr>) (to_lines d)"
  using assms
  by (auto simp: short_close_to_line_def Let_def release_allocation_lines split: option.splits if_splits)

lemma import_ok:
  assumes "import_transfer_order user src dst nts recs numbers d = Inr (t, shs, d')"
    "\<And>sku q. Some (sku, q) \<in> set recs \<Longrightarrow> 0 < q" "to_lines_ok d"
  shows "to_lines_ok d'"
proof -
  from import_Inr [OF assms(1)] obtain src' rows ins d1 new where
    "resolve_warehouse_id src d = Some src'" and
    i: "import_rows 0 recs d = ([], rows)" "import_reserve src' 1 (sort_key ir_item rows) d = (shs, ins, d1)"
    "to_lines d' = to_lines d @ new" "list_all (fresh_line t (set ins)) new" and "map line_insert new = ins"
    "\<not> (\<exists>h \<in> set (transfer_orders d1). tro_number h = fst numbers) \<longrightarrow> inventory d' = inventory d1
       \<and> seqs d' Seq_inventory = seqs d1 Seq_inventory" .
  have "0 < ir_qty x" if "x \<in> set (sort_key ir_item rows)" for x
    using import_rows_qty [OF i(1)] assms(2) that by fastforce
  with fresh_line_ok [OF i(2)] i(3,4) assms(3) show ?thesis
    by (auto simp: to_lines_ok_def list_all_iff)
qed

lemma approve_ok:
  assumes "approve_transfer_order_approval s t aid d = Inr (fin, d')" "to_lines_ok d"
  shows "to_lines_ok d'"
proof -
  from approve_Inr [OF assms(1)] obtain a h js d1 where
    "List.find (\<lambda>a. toa_id a = aid \<and> toa_to a = t) (to_approvals d) = Some a"
    "toa_state a = TOA_PENDING" "find_to t d = Some h" and
    a: "approve_snaps (tro_source h) (tro_dest h) (sort_key (\<lambda>(l, i, q). i) (toa_lines a)) ([], d) = Inr (js, d1)"
    and "inventory d' = inventory d1" "bins d' = bins d1" and l: "to_lines d' = to_lines d1"
    and "seqs d' Seq_inventory = seqs d1 Seq_inventory"
    "to_approvals d' = upd (\<lambda>x. toa_id x = aid)
       (\<lambda>x. x\<lparr>toa_state := TOA_APPROVED, toa_approved := Some (s_user s, now d)\<rparr>) (to_approvals d1)" .
  have "to_lines_ok (snd (js, d1))"
    by (rule approve_snaps_invariant [where I = to_lines_ok, OF a])
      (use assms(2) approve_snap_ok in auto)
  with l show ?thesis by (simp add: to_lines_ok_def)
qed

lemma short_close_ok:
  assumes "short_close_to_line user t lid d = Inr (n, d')" "to_lines_ok d"
  shows "to_lines_ok d'"
proof -
  from short_close_lines [OF assms(1)] obtain l where
    "to_lines d' = upd (\<lambda>x. tol_id x = lid) (\<lambda>x. x\<lparr>tol_state := TOL_SHORT_CLOSED\<rparr>) (to_lines d)" .
  with assms(2) show ?thesis by (auto simp: to_lines_ok_def set_upd tol_ok_def)
qed

lemma same_lines_ok: "to_lines d' = to_lines d \<Longrightarrow> to_lines_ok d \<Longrightarrow> to_lines_ok d'"
  by (simp add: to_lines_ok_def)

lemma to_step_ok: "to_step d d' \<Longrightarrow> to_lines_ok d \<Longrightarrow> to_lines_ok d'"
proof (induction rule: to_step.induct)
  case (picked lid q d d1 t)
  with pick_ok show ?case by (blast intro: same_lines_ok promote_lines)
next
  case (deleted user t d d')
  then show ?case using delete_lines [OF deleted(1)] by (auto simp: to_lines_ok_def)
qed (blast intro: import_ok approve_ok short_close_ok same_lines_ok start_lines submit_lines_kept
    reject_lines cancel_lines)+

interpretation transfer_lines: step_invariant to_step to_lines_ok
  by unfold_locales (rule to_step_ok)

section \<open>What an import reserves\<close>

definition free_stock :: "db \<Rightarrow> int \<Rightarrow> int \<Rightarrow> int" where
  "free_stock d item wh = held d item wh - reserved d item wh"

lemma free_stock_rows:
  assumes "good d"
  shows "sum_list (map row_free (item_rows item wh (\<lambda>_. True) d)) = free_stock d item wh"
    "0 \<le> free_stock d item wh"
proof -
  have tot: "total P row_free t = total P on_hand t - total P allocated t" if "\<forall>r \<in> set t. sound_row r" for P t
    using that by (induction t) (auto simp: row_free_def sound_row_def)
  have "sum_list (map row_free (item_rows item wh (\<lambda>_. True) d))
      = total (\<lambda>r. inv_item r = item \<and> inv_wh r = wh) row_free (inventory d)"
    by (rule sum_item_rows) simp
  also have "\<dots> = free_stock d item wh"
    using tot assms by (simp add: free_stock_def held_def reserved_def good_rows)
  finally show eq: "sum_list (map row_free (item_rows item wh (\<lambda>_. True) d)) = free_stock d item wh" .
  show "0 \<le> free_stock d item wh"
    unfolding eq [symmetric] by (rule sum_list_nonneg) (auto simp: row_free_def)
qed

lemma reserve_effect:
  fixes item wh :: int
  assumes "good d" "0 \<le> q"
  defines "d' \<equiv> snd (reserve_rows q (item_rows item wh (\<lambda>_. True) d) d)"
  shows "good d'" "held d' = held d"
    "reserved d' i w = reserved d i w + (if i = item \<and> w = wh then min q (free_stock d item wh) else 0)"
proof -
  let ?rs = "item_rows item wh (\<lambda>r. True \<and> 0 < row_free r) d"
  have d': "d' = snd (reserve_rows q ?rs d)"
    unfolding d'_def by (subst reserve_rows_filter) (simp add: item_rows_filter)
  have rows: "\<And>r. r \<in> set ?rs \<Longrightarrow> 0 < row_free r \<and> inv_item r = item \<and> inv_wh r = wh"
    by (auto simp: item_rows_member)
  have "sum_list (map row_free ?rs) = total (\<lambda>r. inv_item r = item \<and> inv_wh r = wh) row_free (inventory d)"
    by (rule sum_item_rows) (auto simp: row_free_def)
  also have "\<dots> = sum_list (map row_free (item_rows item wh (\<lambda>_. True) d))"
    by (rule sum_item_rows [symmetric]) simp
  finally have sum: "sum_list (map row_free ?rs) = free_stock d item wh"
    using free_stock_rows(1) [OF assms(1)] by simp
  note walk = item_rows_sub [of item wh "\<lambda>r. True \<and> 0 < row_free r" d] item_rows_distinct [OF good_wf [OF assms(1)]]
  show "good d'"
    unfolding d' using reserving.walk_good [OF assms(1) walk(1) walk(2)] rows by blast
  note tot = reserving.walk_totals [OF assms(1) walk(1) walk(2) assms(2) rows, unfolded sum]
  show "held d' = held d" unfolding d' using tot(1) by (simp add: fun_eq_iff)
  show "reserved d' i w = reserved d i w + (if i = item \<and> w = wh then min q (free_stock d item wh) else 0)"
    unfolding d' using tot(2) by simp
qed

text \<open>Requested and committed quantities of an item among line inserts.\<close>

definition ins_total :: "(int \<times> int \<times> int \<times> int \<Rightarrow> int) \<Rightarrow> int \<Rightarrow> (int \<times> int \<times> int \<times> int) list \<Rightarrow> int" where
  "ins_total g i ins = total (\<lambda>(j, n, r, c). j = i) g ins"

lemma import_reserve_orders:
  "import_reserve src n rows d = (shs, ins, d') \<Longrightarrow> transfer_orders d' = transfer_orders d"
proof (induction rows arbitrary: n d shs ins)
  case Nil
  then show ?case by simp
next
  case (Cons row rows)
  have "transfer_orders (snd (reserve_rows q rs d)) = transfer_orders d" for q rs
    using reserving.walk_frame [of "filter (\<lambda>r. 0 < row_free r) rs" q d] reserve_rows_filter [of q rs d] by auto
  with Cons show ?case by (fastforce simp: Let_def split: prod.splits)
qed

lemma import_reserve_effect:
  assumes "import_reserve src n rows d = (shs, ins, d')" "good d" "\<And>x. x \<in> set rows \<Longrightarrow> 0 < ir_qty x"
  shows "good d' \<and> held d' = held d
    \<and> (\<forall>i w. reserved d' i w = reserved d i w + (if w = src then ins_total (\<lambda>(j, n, r, c). c) i ins else 0))
    \<and> (\<forall>i. ins_total (\<lambda>(j, n, r, c). c) i ins = min (ins_total (\<lambda>(j, n, r, c). r) i ins) (free_stock d i src))
    \<and> (\<forall>i. 0 \<le> ins_total (\<lambda>(j, n, r, c). r) i ins)"
  using assms
proof (induction rows arbitrary: n d shs ins)
  case Nil
  then show ?case using free_stock_rows(2) [OF Nil.prems(2)] by (auto simp: ins_total_def)
next
  case (Cons row rows)
  let ?i = "ir_item row" and ?q = "ir_qty row"
  let ?rs = "item_rows ?i src (\<lambda>_. True) d"
  have c: "max 0 (min ?q (sum_list (map row_free ?rs))) = min ?q (free_stock d ?i src)"
    using Cons.prems(3) [of row] free_stock_rows [OF Cons.prems(2), of ?i src] by simp
  let ?c = "min ?q (free_stock d ?i src)" and ?d1 = "snd (reserve_rows (min ?q (free_stock d ?i src)) ?rs d)"
  obtain shs1 ins1 where rest: "import_reserve src (n + 1) rows ?d1 = (shs1, ins1, d')"
    using Cons.prems(1) c by (auto simp: Let_def split: prod.splits)
  have ins: "ins = (?i, n, ?q, ?c) # ins1"
    using Cons.prems(1) c rest by (simp add: Let_def)
  have pos: "0 < ?q" "0 \<le> ?c" using Cons.prems(3) [of row] free_stock_rows(2) [OF Cons.prems(2)] by auto
  note eff = reserve_effect [OF Cons.prems(2) pos(2), of ?i src]
  have free: "free_stock ?d1 i src = free_stock d i src - (if i = ?i then ?c else 0)" for i
    using eff(2,3) by (simp add: free_stock_def)
  have IH: "good d' \<and> held d' = held ?d1
    \<and> (\<forall>i w. reserved d' i w = reserved ?d1 i w + (if w = src then ins_total (\<lambda>(j, n, r, c). c) i ins1 else 0))
    \<and> (\<forall>i. ins_total (\<lambda>(j, n, r, c). c) i ins1 = min (ins_total (\<lambda>(j, n, r, c). r) i ins1) (free_stock ?d1 i src))
    \<and> (\<forall>i. 0 \<le> ins_total (\<lambda>(j, n, r, c). r) i ins1)"
    by (rule Cons.IH [OF rest eff(1)]) (use Cons.prems(3) in auto)
  have t: "ins_total g i ins = (if ?i = i then g (?i, n, ?q, ?c) else 0) + ins_total g i ins1" for g i
    by (simp add: ins_total_def ins)
  have "reserved d' i w = reserved d i w + (if w = src then ins_total (\<lambda>(j, n, r, c). c) i ins else 0)" for i w
    using IH eff(3) [of i w] pos by (auto simp: t)
  moreover have "ins_total (\<lambda>(j, n, r, c). c) i ins = min (ins_total (\<lambda>(j, n, r, c). r) i ins) (free_stock d i src)
    \<and> 0 \<le> ins_total (\<lambda>(j, n, r, c). r) i ins" for i
  proof -
    let ?R = "ins_total (\<lambda>(j, n, r, c). r) i ins1" and ?C = "ins_total (\<lambda>(j, n, r, c). c) i ins1"
    have "0 \<le> ?R" "?C = min ?R (free_stock d i src - (if i = ?i then ?c else 0))"
      "0 \<le> free_stock d i src"
      using IH free [of i] free_stock_rows(2) [OF Cons.prems(2)] by simp_all
    then show ?thesis using pos by (cases "i = ?i") (simp_all add: t min_def)
  qed
  ultimately show ?case using IH eff(2) by simp
qed

section \<open>Approved lines are final\<close>

lemma approve_snap_final:
  assumes "approve_snap src dst x d = Inr (js, d')" "to_lines_ok d \<and> l \<in> set (to_lines d)"
    "tol_state l = TOL_APPROVED"
  shows "to_lines_ok d' \<and> l \<in> set (to_lines d')"
proof -
  obtain lid item q where x: "x = (lid, item, q)" by (cases x)
  have "tol_ok l" using assms(2) by (simp add: to_lines_ok_def)
  then have "tol_approved l = tol_picked l" using assms(3) by (auto simp: tol_ok_def)
  then show ?thesis
    using approve_snap_lines [OF assms(1) [unfolded x]] approve_snap_ok [OF assms(1)] assms(2)
    by (force intro: in_upd_other)
qed

lemma approve_final:
  assumes "approve_transfer_order_approval s t aid d = Inr (fin, d')" "to_lines_ok d"
    "l \<in> set (to_lines d)" "tol_state l = TOL_APPROVED"
  shows "l \<in> set (to_lines d')"
proof -
  from approve_Inr [OF assms(1)] obtain a h js d1 where
    "List.find (\<lambda>a. toa_id a = aid \<and> toa_to a = t) (to_approvals d) = Some a"
    "toa_state a = TOA_PENDING" "find_to t d = Some h" and
    a: "approve_snaps (tro_source h) (tro_dest h) (sort_key (\<lambda>(l, i, q). i) (toa_lines a)) ([], d) = Inr (js, d1)"
    and "inventory d' = inventory d1" "bins d' = bins d1" and l: "to_lines d' = to_lines d1"
    and "seqs d' Seq_inventory = seqs d1 Seq_inventory"
    "to_approvals d' = upd (\<lambda>x. toa_id x = aid)
       (\<lambda>x. x\<lparr>toa_state := TOA_APPROVED, toa_approved := Some (s_user s, now d)\<rparr>) (to_approvals d1)" .
  have "to_lines_ok (snd (js, d1)) \<and> l \<in> set (to_lines (snd (js, d1)))"
    by (rule approve_snaps_invariant [where I = "\<lambda>d. to_lines_ok d \<and> l \<in> set (to_lines d)", OF a])
      (use assms approve_snap_final in auto)
  with l show ?thesis by simp
qed

lemma to_step_final:
  "to_step d d' \<Longrightarrow> to_lines_ok d \<and> distinct (map tol_id (to_lines d)) \<and> l \<in> set (to_lines d)
     \<and> tol_state l = TOL_APPROVED \<Longrightarrow> l \<in> set (to_lines d')"
proof (induction rule: to_step.induct)
  case (imported user src dst nts recs numbers d t shs d')
  then show ?case by (auto elim: import_Inr)
next
  case (picked lid q d d1 t)
  then show ?case
    by (auto simp: promote_lines update_transfer_order_line_picked_def line_pickable_def intro!: in_upd_other
        split: if_splits)
next
  case (approved s t aid d fin d')
  then show ?case using approve_final by blast
next
  case (short_closed user t lid d n d')
  from short_close_lines [OF short_closed(1)] obtain k where
    k: "List.find (\<lambda>l. tol_id l = lid \<and> tol_to l = t) (to_lines d) = Some k"
    "validate_line_transition (tol_state k) TOL_SHORT_CLOSED"
    "to_lines d' = upd (\<lambda>x. tol_id x = lid) (\<lambda>x. x\<lparr>tol_state := TOL_SHORT_CLOSED\<rparr>) (to_lines d)" .
  then have "tol_id l \<noteq> lid"
    using short_closed(2) find_Some_iff_first [OF k(1)] key_inj [of tol_id "to_lines d" l k]
    by (auto simp: validate_line_transition_def validate_transition_def)
  with short_closed(2) k(3) show ?case by (auto intro: in_upd_other)
next
  case (deleted user t d d')
  then show ?case using delete_lines [OF deleted(1)] by (force simp: to_lines_ok_def tol_ok_def)
qed (use start_lines submit_lines_kept reject_lines cancel_lines in \<open>simp_all\<close>)

section \<open>Properties\<close>

text \<open>Ten units of item 7 in warehouse 1, four of them reserved for sales orders, and a
  staging bin in warehouse 2.\<close>

definition demo_transfer :: db where
  "demo_transfer = empty_db\<lparr>
     warehouses := [\<lparr>wh_id = 1, wh_code = ''A'', wh_active = True\<rparr>,
                    \<lparr>wh_id = 2, wh_code = ''B'', wh_active = True\<rparr>],
     bins := [\<lparr>bin_id = 1, bin_code = ''P1'', bin_wh = 1, bin_kind = BIN_PICKABLE,
               bin_sequence = 1, bin_active = True, bin_ext = ''b'', bin_barcode = ''b''\<rparr>,
              \<lparr>bin_id = 2, bin_code = ''S1'', bin_wh = 2, bin_kind = BIN_STAGING,
               bin_sequence = 1, bin_active = True, bin_ext = ''b'', bin_barcode = ''b''\<rparr>],
     items := [\<lparr>item_id = 7, item_sku = ''TST'', item_name = ''Test'', item_upc = None,
                item_aliases = None, item_ext = ''u7'', item_weight = None, item_default_bin = None\<rparr>],
     inventory := [\<lparr>inv_id = 0, inv_item = 7, inv_bin = 1, inv_wh = 1, on_hand = 10, allocated = 4,
                    inv_lot = None, inv_updated = 0, inv_counted = None\<rparr>]\<rparr>"

text \<open>The same warehouse with a transfer order of three units, and after its pick.\<close>

definition demo_line :: tol_row where
  "demo_line = \<lparr>tol_id = 1, tol_to = 1, tol_item = 7, tol_number = 1, tol_requested = 3,
     tol_committed = 3, tol_picked = 0, tol_approved = 0, tol_state = TOL_PENDING\<rparr>"

definition demo_header :: to_row where
  "demo_header = \<lparr>tro_id = 1, tro_number = ''TO-1'', tro_state = TO_OPEN, tro_source = 1, tro_dest = 2,
     tro_by = ''admin'', tro_notes = None, tro_ext = ''t1'', tro_updated = 0\<rparr>"

definition demo_order :: db where
  "demo_order = demo_transfer\<lparr>transfer_orders := [demo_header], to_lines := [demo_line],
     inventory := map (\<lambda>r. r\<lparr>allocated := 7\<rparr>) (inventory demo_transfer)\<rparr>"

definition demo_approval :: toa_row where
  "demo_approval = \<lparr>toa_id = 5, toa_to = 1, toa_by = ''picker'', toa_lines = [(1, 7, 3)], toa_ext = ''a1'',
     toa_state = TOA_PENDING, toa_approved = None, toa_rejected = None\<rparr>"

definition demo_submitted :: db where
  "demo_submitted = demo_order\<lparr>
     transfer_orders := [demo_header\<lparr>tro_state := TO_AWAITING_APPROVAL\<rparr>],
     to_lines := [demo_line\<lparr>tol_picked := 3, tol_state := TOL_PICKED\<rparr>],
     to_approvals := [demo_approval]\<rparr>"

definition demo_admin :: session where
  "demo_admin = \<lparr>s_user = ''admin'', s_admin = True, s_whs = [], s_txn = ''x''\<rparr>"

lemmas demo_defs = demo_transfer_def demo_line_def demo_header_def demo_order_def demo_approval_def
  demo_submitted_def demo_admin_def empty_db_def


text \<open>Claim C8. Transfer quantities stay ordered: after any history of imports, picks,
  submissions, approvals, rejections, short-closes, cancellations and deletions that
  starts without transfer orders, every line satisfies
  \<open>0 \<le> approved \<le> picked \<le> committed \<le> requested\<close>, and its status says how far it is.\<close>

theorem transfer_lines_bounded:
  assumes "to_step\<^sup>*\<^sup>* d d'" "to_lines d = []" "l \<in> set (to_lines d')"
  shows "0 \<le> tol_approved l \<and> tol_approved l \<le> tol_picked l \<and> tol_picked l \<le> tol_committed l
    \<and> tol_committed l \<le> tol_requested l
    \<and> (tol_state l = TOL_PENDING \<longrightarrow> tol_picked l = 0)
    \<and> (tol_state l = TOL_PICKED \<longrightarrow> tol_picked l = tol_committed l)
    \<and> (tol_state l = TOL_APPROVED \<longrightarrow> tol_approved l = tol_committed l)"
proof -
  have "to_lines_ok d'"
    using transfer_lines.reachable [OF assms(1)] assms(2) by (simp add: to_lines_ok_def)
  with assms(3) have "tol_ok l" by (simp add: to_lines_ok_def)
  then show ?thesis by (auto simp: tol_ok_def)
qed

lemma demo_import:
  "\<exists>t shs d'. import_transfer_order ''admin'' ''A'' ''B'' None [Some (''TST'', 8)] (''TO-1'', ''TO-2'') demo_transfer
     = Inr (t, shs, d') \<and> map tol_committed (to_lines d') = [6] \<and> reserved d' 7 1 = 10"
  by (simp add: demo_transfer_def empty_db_def import_transfer_order_def resolve_warehouse_id_def item_rows_def
      row_free_def reserve_row_def insert_header_twice_def insert_to_header_def uuid4_def nextval_def
      insert_to_line_def reserved_def Let_def)

theorem transfer_lines_bounded_witness:
  "\<exists>d' l. to_step\<^sup>*\<^sup>* demo_transfer d' \<and> l \<in> set (to_lines d') \<and>
     tol_picked l \<le> tol_committed l \<and> tol_committed l \<le> tol_requested l"
proof -
  from demo_import obtain t shs d' where
    i: "import_transfer_order ''admin'' ''A'' ''B'' None [Some (''TST'', 8)] (''TO-1'', ''TO-2'') demo_transfer
       = Inr (t, shs, d')" "map tol_committed (to_lines d') = [6]"
    by (elim exE conjE) (rule that)
  have s: "to_step\<^sup>*\<^sup>* demo_transfer d'"
    by (rule r_into_rtranclp, rule to_step.imported [OF i(1)]) simp
  from i(2) obtain l where l: "l \<in> set (to_lines d')" by (cases "to_lines d'") auto
  have "to_lines demo_transfer = []" by (simp add: demo_transfer_def empty_db_def)
  from transfer_lines_bounded [OF s this l] s l show ?thesis by blast
qed



text \<open>Import reserves what it commits: a successful import whose first number
  is unused adds its lines, commits to each item as much as is requested in total or
  as is free at the source, whichever is less, raises the item's reservation there
  by exactly that and changes nothing else of the stock.\<close>

theorem import_reserves_exactly:
  assumes "import_transfer_order user src_code dst_code notes recs numbers d = Inr (t, shs, d')"
    "good d" "\<forall>sku q. Some (sku, q) \<in> set recs \<longrightarrow> 0 < q"
    "\<not> (\<exists>h \<in> set (transfer_orders d). tro_number h = fst numbers)"
    "resolve_warehouse_id src_code d = Some src"
  shows "\<exists>new. to_lines d' = to_lines d @ new \<and> (\<forall>l \<in> set new. tol_to l = t)
    \<and> good d' \<and> held d' i w = held d i w
    \<and> total (\<lambda>l. tol_item l = i) tol_committed new
        = min (total (\<lambda>l. tol_item l = i) tol_requested new) (held d i src - reserved d i src)
    \<and> reserved d' i w = reserved d i w
        + (if w = src then total (\<lambda>l. tol_item l = i) tol_committed new else 0)"
proof -
  from import_Inr [OF assms(1)] obtain src' rows ins d1 new where
    src: "resolve_warehouse_id src_code d = Some src'" and
    i: "import_rows 0 recs d = ([], rows)" "import_reserve src' 1 (sort_key ir_item rows) d = (shs, ins, d1)"
    and new: "to_lines d' = to_lines d @ new" "list_all (fresh_line t (set ins)) new" "map line_insert new = ins"
    and inv: "\<not> (\<exists>h \<in> set (transfer_orders d1). tro_number h = fst numbers) \<longrightarrow> inventory d' = inventory d1
       \<and> seqs d' Seq_inventory = seqs d1 Seq_inventory" .
  have src': "src' = src" using src assms(5) by simp
  have "0 < ir_qty x" if "x \<in> set (sort_key ir_item rows)" for x
    using import_rows_qty [OF i(1)] assms(3) that by fastforce
  note eff = import_reserve_effect [OF i(2) assms(2) this, unfolded src']
  have "transfer_orders d1 = transfer_orders d"
    using import_reserve_orders [OF i(2)] .
  with inv assms(4) have d': "inventory d' = inventory d1" "seqs d' Seq_inventory = seqs d1 Seq_inventory"
    by simp_all
  have tot: "ins_total (\<lambda>(j, n, r, c). c) i ins = total (\<lambda>l. tol_item l = i) tol_committed new"
    "ins_total (\<lambda>(j, n, r, c). r) i ins = total (\<lambda>l. tol_item l = i) tol_requested new"
    unfolding new(3) [symmetric] ins_total_def by (induction new) (auto simp: line_insert_def)
  have e: "good d1" "held d1 = held d"
    "reserved d1 i w = reserved d i w + (if w = src then total (\<lambda>l. tol_item l = i) tol_committed new else 0)"
    "total (\<lambda>l. tol_item l = i) tol_committed new
      = min (total (\<lambda>l. tol_item l = i) tol_requested new) (free_stock d i src)"
    using eff unfolding tot [symmetric] by auto
  show ?thesis
    using e new(1,2) stock_cong [OF d'(1)] good_cong [OF d']
    by (intro exI [of _ new]) (auto simp: fresh_line_def list_all_iff free_stock_def)
qed

theorem import_reserves_exactly_witness:
  "\<exists>new :: tol_row list. (\<forall>l \<in> set new. tol_to l = 1) \<and> total (\<lambda>l. tol_item l = 7) tol_committed new
     = min (total (\<lambda>l. tol_item l = 7) tol_requested new) (held demo_transfer 7 1 - reserved demo_transfer 7 1)"
proof -
  have "\<exists>shs d'. import_transfer_order ''admin'' ''A'' ''B'' None [Some (''TST'', 8)] (''TO-1'', ''TO-2'')
      demo_transfer = Inr (1, shs, d')"
    by (simp add: demo_transfer_def empty_db_def import_transfer_order_def resolve_warehouse_id_def item_rows_def
        row_free_def reserve_row_def insert_header_twice_def insert_to_header_def uuid4_def nextval_def
        insert_to_line_def Let_def)
  then obtain shs d' where
    r: "import_transfer_order ''admin'' ''A'' ''B'' None [Some (''TST'', 8)] (''TO-1'', ''TO-2'')
      demo_transfer = Inr (1, shs, d')" by (elim exE) (rule that)
  have g: "good demo_transfer" "\<not> (\<exists>h \<in> set (transfer_orders demo_transfer). tro_number h = fst (''TO-1'', ''TO-2''))"
    "resolve_warehouse_id ''A'' demo_transfer = Some 1"
    by (simp_all add: demo_transfer_def empty_db_def good_rows inv_wf_def sound_row_def resolve_warehouse_id_def)
  have q: "\<forall>sku q. Some (sku, q) \<in> set [Some (''TST'', 8)] \<longrightarrow> 0 < (q :: int)"
    by simp
  from import_reserves_exactly [OF r g(1) q g(2,3), where i = 7 and w = 1] show ?thesis
    by blast
qed

text \<open>Approved lines are final: whatever operation runs next, a line in state
  APPROVED stays in the table exactly as it is; it cannot be picked, short-closed,
  approved again or deleted with its order.\<close>

theorem approved_line_final:
  assumes "to_step d d'" "\<forall>l \<in> set (to_lines d). tol_ok l" "distinct (map tol_id (to_lines d))"
    "l \<in> set (to_lines d)" "tol_state l = TOL_APPROVED"
  shows "l \<in> set (to_lines d')"
  using to_step_final [OF assms(1)] assms(2-5) by (simp add: to_lines_ok_def)

definition demo_approved :: db where
  "demo_approved = demo_order\<lparr>to_lines := [demo_line\<lparr>tol_picked := 3, tol_approved := 3, tol_state := TOL_APPROVED\<rparr>],
     transfer_orders := [demo_header\<lparr>tro_state := TO_PARTIALLY_PICKED\<rparr>]\<rparr>"

theorem approved_line_final_witness:
  "\<exists>d' l. to_step demo_approved d' \<and> l \<in> set (to_lines d') \<and> tol_state l = TOL_APPROVED
     \<and> (\<exists>h \<in> set (transfer_orders d'). tro_state h = TO_CANCELLED)"
proof -
  have "\<exists>d'. cancel_transfer_order ''admin'' 1 demo_approved = Inr d'
     \<and> (\<exists>h \<in> set (transfer_orders d'). tro_state h = TO_CANCELLED)"
    by (simp add: demo_approved_def demo_defs cancel_transfer_order_def find_to_def validate_header_transition_def
        validate_transition_def release_reservations_def set_to_status_def Let_def)
  then obtain d' where c: "cancel_transfer_order ''admin'' 1 demo_approved = Inr d'"
    "\<exists>h \<in> set (transfer_orders d'). tro_state h = TO_CANCELLED" by blast
  let ?l = "demo_line\<lparr>tol_picked := 3, tol_approved := 3, tol_state := TOL_APPROVED\<rparr>"
  have "\<forall>l \<in> set (to_lines demo_approved). tol_ok l" "distinct (map tol_id (to_lines demo_approved))"
    "?l \<in> set (to_lines demo_approved)" "tol_state ?l = TOL_APPROVED"
    by (simp_all add: demo_approved_def demo_defs tol_ok_def)
  from approved_line_final [OF to_step.cancelled [OF c(1)] this] to_step.cancelled [OF c(1)] c(2) show ?thesis
    by (intro exI [of _ d'] exI [of _ ?l]) simp
qed

section \<open>What modelling the lifecycle showed\<close>

text \<open>Deleting a cancelled order: its lines still say committed > approved, so the
  release that the cancellation made is made again, out of the reservations of
  other orders. Warehouse 1 holds seven reserved units, three of the transfer order
  and four of sales orders; after cancel and delete one is left.\<close>

lemma cancel_then_delete_releases_twice:
  "\<exists>d1 d2. reserved demo_order 7 1 = 7 \<and> cancel_transfer_order ''admin'' 1 demo_order = Inr d1
     \<and> reserved d1 7 1 = 4 \<and> delete_transfer_order ''admin'' 1 d1 = Inr d2 \<and> reserved d2 7 1 = 1"
  by (simp add: demo_defs cancel_transfer_order_def find_to_def validate_header_transition_def
      validate_transition_def release_reservations_def release_line_def release_inventory_allocation_def
      item_rows_def free_row_def set_to_status_def delete_transfer_order_def reserved_def Let_def)

text \<open>The same happens when a line is short-closed and its order then cancelled.\<close>

lemma short_close_then_cancel_releases_twice:
  "\<exists>d1 d2. short_close_to_line ''admin'' 1 1 demo_order = Inr (3, d1)
     \<and> reserved d1 7 1 = 4 \<and> cancel_transfer_order ''admin'' 1 d1 = Inr d2 \<and> reserved d2 7 1 = 1"
  by (simp add: demo_defs cancel_transfer_order_def find_to_def validate_header_transition_def
      validate_line_transition_def short_close_to_line_def
      validate_transition_def release_reservations_def release_line_def release_inventory_allocation_def
      item_rows_def free_row_def set_to_status_def reserved_def Let_def)

text \<open>An approval row left PENDING by a cancellation can still be approved: goods of a
  cancelled transfer order move, on reservations that belong to others, and the
  header goes from CANCELLED to CLOSED. Line 1 was picked in full and submitted while
  line 2 was open, so the header stayed PARTIALLY_PICKED; line 2 was short-closed
  then.\<close>

definition demo_half :: db where
  "demo_half = demo_submitted\<lparr>transfer_orders := [demo_header\<lparr>tro_state := TO_PARTIALLY_PICKED\<rparr>],
     to_lines := [demo_line\<lparr>tol_picked := 3, tol_state := TOL_PICKED\<rparr>,
       demo_line\<lparr>tol_id := 2, tol_number := 2, tol_requested := 1, tol_committed := 1,
         tol_state := TOL_SHORT_CLOSED\<rparr>]\<rparr>"

lemma cancelled_order_approved:
  "\<exists>d1 d2. cancel_transfer_order ''admin'' 1 demo_half = Inr d1
     \<and> map tro_state (transfer_orders d1) = [TO_CANCELLED] \<and> reserved d1 7 1 = 3
     \<and> approve_transfer_order_approval demo_admin 1 5 d1 = Inr (True, d2)
     \<and> map tro_state (transfer_orders d2) = [TO_CLOSED] \<and> reserved d2 7 1 = 0 \<and> held d2 7 2 = 3"
  by (simp add: demo_half_def demo_defs cancel_transfer_order_def find_to_def validate_header_transition_def
      validate_transition_def release_reservations_def release_line_def release_inventory_allocation_def
      item_rows_def free_row_def set_to_status_def approve_transfer_order_approval_def self_approval_blocked_def
      approve_snap_def decrement_source_inventory_def spend_row_def credit_destination_posts
      find_item_def add_inventory_def find_inv_def nextval_def approve_line_def Let_def close_if_complete_def
      evaluate_to_closure_def held_def reserved_def approval_event_def)

text \<open>A first-number collision at import rolls back the reservations but not the
  commitment: the order is created with three committed units and none reserved.\<close>

lemma import_collision_loses_reservation:
  "\<exists>t d'. import_transfer_order ''admin'' ''A'' ''B'' None [Some (''TST'', 3)] (''TO-1'', ''TO-2'')
       (demo_transfer\<lparr>transfer_orders := [demo_header]\<rparr>) = Inr (t, [], d')
     \<and> map tol_committed (to_lines d') = [3] \<and> reserved d' 7 1 = reserved demo_transfer 7 1"
  by (simp add: demo_transfer_def demo_header_def empty_db_def import_transfer_order_def resolve_warehouse_id_def
      item_rows_def row_free_def reserve_row_def insert_header_twice_def insert_to_header_def uuid4_def
      nextval_def insert_to_line_def reserved_def Let_def)

text \<open>Submitting twice snapshots the same unapproved picks twice. Once the first
  snapshot is approved the second can only fail (the CHECK on approved_qty), it keeps
  the order from closing, and rejecting it does not close the order either.\<close>

lemma double_submit_blocks_closure:
  "\<exists>d1 d2 d3. snd (submit_picks 1 ''picker'' demo_submitted) = d1
     \<and> map toa_lines (to_approvals d1) = [[(1, 7, 3)], [(1, 7, 3)]]
     \<and> approve_transfer_order_approval demo_admin 1 5 d1 = Inr (False, d2)
     \<and> approve_transfer_order_approval demo_admin 1 1 d2 = Inl TE_internal
     \<and> reject_transfer_order_approval ''admin'' 1 1 ''dup'' d2 = Inr d3
     \<and> map tro_state (transfer_orders d3) = [TO_AWAITING_APPROVAL]
     \<and> map tol_state (to_lines d3) = [TOL_APPROVED]"
  by (simp add: demo_defs submit_picks_def submit_lines_def line_open_def uuid4_def find_to_def
      set_to_status_def approve_transfer_order_approval_def self_approval_blocked_def
      approve_snap_def decrement_source_inventory_def item_rows_def spend_row_def credit_destination_posts
      find_item_def add_inventory_def find_inv_def nextval_def approve_line_def Let_def close_if_complete_def
      evaluate_to_closure_def approval_event_def reject_transfer_order_approval_def)

text \<open>A full first pick takes a line from PENDING straight to PICKED, an edge the
  transition table does not have.\<close>

lemma full_pick_skips_table:
  "tol_state l = TOL_PENDING \<Longrightarrow> tol_picked l = 0 \<Longrightarrow>
     tol_state (pick_line (tol_committed l) l) = TOL_PICKED
     \<and> \<not> validate_line_transition TOL_PENDING TOL_PICKED"
  by (simp add: pick_line_def validate_line_transition_def validate_transition_def)

end
