(* ===== verification/Picking.thy ===== *)
theory Picking
  imports TransferOrders "HOL-Library.List_Lexorder" "HOL-Library.Char_ord"
begin

text \<open>
  \<^verbatim>\<open>api/services/picking_service.py\<close>, the side that works on an existing batch:
  confirming and short-picking a task, completing a batch, reverting it, and the
  scan checks. Batch creation is in \<open>PickBatches\<close>. An \<open>Inl\<close> result is a raised
  exception: the route rolls the transaction back. Responses are reduced to the
  values the model needs; messages are not built.
\<close>

section \<open>Errors and lookups\<close>

type_synonym short_line = "int \<times> int \<times> string \<times> int \<times> int"

datatype pick_error =
  PE_task_not_found
| PE_task_done task_status
| PE_over_pick int int
| PE_wrong_barcode string
| PE_transfer to_error
| PE_over_available int int
| PE_batch_not_found
| PE_pending int
| PE_silently_short "short_line list"
| PE_internal

definition find_task :: "int \<Rightarrow> db \<Rightarrow> task_row option" where
  "find_task i d = List.find (\<lambda>t. pt_id t = i) (pick_tasks d)"

definition find_batch :: "int \<Rightarrow> db \<Rightarrow> batch_row option" where
  "find_batch i d = List.find (\<lambda>b. pb_id b = i) (pick_batches d)"

definition find_so :: "int \<Rightarrow> db \<Rightarrow> so_row option" where
  "find_so i d = List.find (\<lambda>x. so_id x = i) (sales_orders d)"

definition set_task :: "int \<Rightarrow> (task_row \<Rightarrow> task_row) \<Rightarrow> db \<Rightarrow> db" where
  "set_task i f d = d\<lparr>pick_tasks := upd (\<lambda>t. pt_id t = i) f (pick_tasks d)\<rparr>"

text \<open>\<open>UPDATE sales_order_lines \<dots> WHERE so_line_id = :id\<close>; a NULL id matches no line.\<close>

definition set_sol :: "int option \<Rightarrow> (sol_row \<Rightarrow> sol_row) \<Rightarrow> db \<Rightarrow> db" where
  "set_sol i f d = d\<lparr>so_lines := upd (\<lambda>l. Some (sol_id l) = i) f (so_lines d)\<rparr>"

definition add_picked :: "int option \<Rightarrow> int \<Rightarrow> db \<Rightarrow> db" where
  "add_picked i q = set_sol i (\<lambda>l. l\<lparr>sol_picked := sol_picked l + q\<rparr>)"

definition barcode_matches :: "string \<Rightarrow> string option \<Rightarrow> string list option \<Rightarrow> bool" where
  "barcode_matches scanned upc aliases \<longleftrightarrow>
     (if Some scanned = upc then True
      else case aliases of None \<Rightarrow> False | Some xs \<Rightarrow> xs \<noteq> [] \<and> scanned \<in> set xs)"

definition task_breakdown :: "int \<Rightarrow> db \<Rightarrow> brk_row list" where
  "task_breakdown tid d = sort_key wb_so (filter (\<lambda>b. wb_task b = tid) (breakdowns d))"

definition pending_count :: "int \<Rightarrow> db \<Rightarrow> int" where
  "pending_count b d =
     int (length (filter (\<lambda>t. pt_batch t = b \<and> pt_state t = TASK_PENDING) (pick_tasks d)))"

text \<open>The statement matches every row of the item in the bin, whatever its lot.\<close>

definition take_from_bin :: "int \<Rightarrow> int \<Rightarrow> int \<Rightarrow> int \<Rightarrow> db \<Rightarrow> db" where
  "take_from_bin item bin took freed d =
     d\<lparr>inventory := upd (\<lambda>r. inv_item r = item \<and> inv_bin r = bin)
        (\<lambda>r. r\<lparr>on_hand := max 0 (on_hand r - took), allocated := max 0 (allocated r - freed),
               inv_updated := now d\<rparr>) (inventory d)\<rparr>"

section \<open>Confirm a pick\<close>

definition confirm_breakdown :: "brk_row \<Rightarrow> db \<Rightarrow> db" where
  "confirm_breakdown b d =
     add_picked (wb_sol b) (wb_qty b)
       (d\<lparr>breakdowns := upd (\<lambda>x. wb_id x = wb_id b) (\<lambda>x. x\<lparr>wb_picked := wb_qty x\<rparr>) (breakdowns d)\<rparr>)"

definition confirm_lines :: "task_row \<Rightarrow> int \<Rightarrow> db \<Rightarrow> db" where
  "confirm_lines t q d =
     (if task_breakdown (pt_id t) d \<noteq> []
      then fold confirm_breakdown (task_breakdown (pt_id t) d) d
      else add_picked (pt_sol t) q d)"

text \<open>A NULL transfer line matches no row of the guarded update.\<close>

definition confirm_transfer :: "task_row \<Rightarrow> int \<Rightarrow> int \<Rightarrow> db \<Rightarrow> pick_error + db" where
  "confirm_transfer t to_id q d =
     (case (case pt_tol t of
              None \<Rightarrow> if q \<le> 0 then Inl (TE_bad_delta q) else Inl (TE_over_pick 0)
            | Some l \<Rightarrow> update_transfer_order_line_picked l q d) of
        Inl e \<Rightarrow> Inl (PE_transfer e)
      | Inr d1 \<Rightarrow> Inr (snd (maybe_promote_header_to_partially_picked to_id d1)))"

definition pick_details :: "task_row \<Rightarrow> string \<Rightarrow> int \<Rightarrow> (string \<times> json) list" where
  "pick_details t sku q =
     [(''sku'', JStr sku), (''quantity_to_pick'', JInt (pt_qty t)), (''quantity_picked'', JInt q),
      (''pick_task_id'', JInt (pt_id t)), (''item_id'', JInt (pt_item t)),
      (''bin_id'', JInt (pt_bin t)), (''batch_id'', JInt (pt_batch t))]"

definition confirm_audit :: "task_row \<Rightarrow> string \<Rightarrow> int \<Rightarrow> string \<Rightarrow> int \<Rightarrow> db \<Rightarrow> db" where
  "confirm_audit t sku q user wh =
     (case pt_to t of
        Some o' \<Rightarrow> audit ''TO_LINE_PICKED'' ''TO_LINE'' (the (pt_tol t)) user wh
                    (JObj (pick_details t sku q @ [(''to_id'', JInt o')]))
      | None \<Rightarrow> audit ''PICK'' ''SO'' (the (pt_so t)) user wh (JObj (pick_details t sku q)))"

text \<open>Steps 3 to 5: the task, then the transfer line or the order lines and the stock.\<close>

definition confirm_task :: "task_row \<Rightarrow> int \<Rightarrow> string \<Rightarrow> db \<Rightarrow> pick_error + db" where
  "confirm_task t q user d =
     (let d1 = set_task (pt_id t) (\<lambda>t. t\<lparr>pt_state := TASK_PICKED, pt_picked := q,
                 pt_by := Some user, pt_at := Some (now d), pt_confirmed := True\<rparr>) d
      in case pt_to t of
           Some o' \<Rightarrow> confirm_transfer t o' q d1
         | None \<Rightarrow> Inr (take_from_bin (pt_item t) (pt_bin t) q (pt_qty t) (confirm_lines t q d1)))"

text \<open>The result is the number of tasks still pending in the batch.\<close>

definition confirm_pick :: "int \<Rightarrow> string \<Rightarrow> int \<Rightarrow> string \<Rightarrow> db \<Rightarrow> pick_error + (int \<times> db)" where
  "confirm_pick tid scanned q user d =
     (case find_task tid d of
        None \<Rightarrow> Inl PE_task_not_found
      | Some t \<Rightarrow>
          if pt_state t \<noteq> TASK_PENDING then Inl (PE_task_done (pt_state t))
          else if pt_qty t < q then Inl (PE_over_pick q (pt_qty t))
          else
            (case find_item (pt_item t) d of
               None \<Rightarrow> Inl PE_internal
             | Some i \<Rightarrow>
                 if \<not> barcode_matches scanned (item_upc i) (item_aliases i)
                 then Inl (PE_wrong_barcode (item_sku i))
                 else
                   (case confirm_task t q user d of
                      Inl e \<Rightarrow> Inl e
                    | Inr d2 \<Rightarrow>
                        (case find_batch (pt_batch t) d2 of
                           None \<Rightarrow> Inl PE_internal
                         | Some b \<Rightarrow> Inr (pending_count (pt_batch t) d2,
                                       confirm_audit t (item_sku i) q user (pb_wh b) d2)))))"

section \<open>Short pick\<close>

text \<open>The wave breakdown gets what is there first come, first served by order id.\<close>

definition short_breakdown :: "brk_row \<Rightarrow> int \<times> db \<Rightarrow> int \<times> db" where
  "short_breakdown b s =
     (let give = min (fst s) (wb_qty b);
          d1 = (snd s)\<lparr>breakdowns := upd (\<lambda>x. wb_id x = wb_id b)
                 (\<lambda>x. x\<lparr>wb_picked := give, wb_short := wb_qty b - give\<rparr>) (breakdowns (snd s))\<rparr>;
          d2 = (if 0 < give then add_picked (wb_sol b) give d1 else d1)
      in (fst s - give, d2))"

definition short_lines :: "task_row \<Rightarrow> int \<Rightarrow> db \<Rightarrow> db" where
  "short_lines t q d =
     (if task_breakdown (pt_id t) d \<noteq> []
      then snd (fold short_breakdown (task_breakdown (pt_id t) d) (q, d))
      else add_picked (pt_sol t) q d)"

text \<open>Steps 2 to 4: the task, the stock, the order lines.\<close>

definition short_state :: "task_row \<Rightarrow> int \<Rightarrow> string \<Rightarrow> db \<Rightarrow> db" where
  "short_state t q user d =
     short_lines t q (take_from_bin (pt_item t) (pt_bin t) q (pt_qty t)
       (set_task (pt_id t) (\<lambda>t. t\<lparr>pt_state := TASK_SHORT, pt_picked := q,
          pt_by := Some user, pt_at := Some (now d)\<rparr>) d))"

text \<open>The shortage is the result. The audit row names the task's order id, NULL for a
  transfer task.\<close>

definition short_pick :: "int \<Rightarrow> int \<Rightarrow> string \<Rightarrow> db \<Rightarrow> pick_error + (int \<times> db)" where
  "short_pick tid q user d =
     (case find_task tid d of
        None \<Rightarrow> Inl PE_task_not_found
      | Some t \<Rightarrow>
          if pt_state t \<noteq> TASK_PENDING then Inl (PE_task_done (pt_state t))
          else if pt_qty t < q then Inl (PE_over_available q (pt_qty t))
          else
            let d3 = short_state t q user d
            in (case (find_item (pt_item t) d3, find_batch (pt_batch t) d3, pt_so t) of
                  (Some i, Some b, Some so) \<Rightarrow>
                    Inr (pt_qty t - q, audit ''PICK'' ''SO'' so user (pb_wh b)
                      (JObj (pick_details t (item_sku i) q @
                        [(''shortage'', JInt (pt_qty t - q)), (''type'', JStr ''SHORT_PICK'')])) d3)
                | _ \<Rightarrow> Inl PE_internal))"

section \<open>Complete a batch\<close>

definition batch_lines :: "int \<Rightarrow> db \<Rightarrow> sol_row list" where
  "batch_lines b d =
     [l. l \<leftarrow> so_lines d, p \<leftarrow> batch_orders d, pbo_so p = sol_so l \<and> pbo_batch p = b]"

definition short_marked :: "int \<Rightarrow> db \<Rightarrow> bool" where
  "short_marked i d \<longleftrightarrow>
     (\<exists>t \<in> set (pick_tasks d). pt_sol t = Some i \<and> pt_state t = TASK_SHORT) \<or>
     (\<exists>w \<in> set (breakdowns d). wb_sol w = Some i \<and> 0 < wb_short w)"

definition silently_short :: "int \<Rightarrow> db \<Rightarrow> short_line list" where
  "silently_short b d =
     sort_key (\<lambda>(so, sol, r). (so, sol))
       [(sol_so l, sol_id l, item_sku i, sol_ordered l, sol_picked l).
          l \<leftarrow> batch_lines b d, i \<leftarrow> items d,
          item_id i = sol_item l \<and> sol_picked l < sol_ordered l \<and> \<not> short_marked (sol_id l) d]"

definition batch_sos :: "int \<Rightarrow> db \<Rightarrow> so_row list" where
  "batch_sos b d =
     [x. p \<leftarrow> batch_orders d, x \<leftarrow> sales_orders d, so_id x = pbo_so p \<and> pbo_batch p = b]"

definition pick_event_lines :: "int \<Rightarrow> db \<Rightarrow> json list" where
  "pick_event_lines so d =
     [JObj [(''item_external_id'', JStr x), (''quantity_picked'', JInt (sol_picked l)),
            (''lot_number'', JNull), (''serial_number'', JNull)].
        l \<leftarrow> sort_key sol_number (filter (\<lambda>l. sol_so l = so) (so_lines d)),
        i \<leftarrow> items d, item_id i = sol_item l, x \<leftarrow> joined_source_ids (item_ext i) d]"

text \<open>\<open>txn\<close> is \<open>g.source_txn_id\<close> inside a request, \<open>None\<close> outside: no event then.\<close>

definition complete_so :: "string \<Rightarrow> string option \<Rightarrow> so_row \<Rightarrow> db \<Rightarrow> db" where
  "complete_so user txn so d =
     (let d1 = d\<lparr>sales_orders := upd (\<lambda>x. so_id x = so_id so)
                 (\<lambda>x. x\<lparr>so_state := SO_PICKED, so_picked_at := Some (now d)\<rparr>) (sales_orders d)\<rparr>
      in case txn of
           None \<Rightarrow> d1
         | Some n \<Rightarrow>
             snd (emit_event ''pick.confirmed'' 1 ''sales_order'' (so_id so) (so_ext so) (so_wh so) n
               (JObj [(''sales_order_external_id'', JStr (source_or_canonical ''sales_order'' (so_ext so) d1)),
                      (''lines'', JArr (pick_event_lines (so_id so) d1)),
                      (''completed_by_user_external_id'', jopt JStr (get_user_external_id user d1)),
                      (''completed_at'', JTime (now d1))]) d1))"

definition batch_transfers :: "int \<Rightarrow> db \<Rightarrow> int list" where
  "batch_transfers b d = remdups [o'. t \<leftarrow> pick_tasks d, pt_batch t = b, o' \<leftarrow> (case pt_to t of None \<Rightarrow> [] | Some x \<Rightarrow> [x])]"

record batch_summary =
  bs_orders :: "string list"
  bs_picked :: int
  bs_shorts :: int

text \<open>Steps 2 and 3 and the transfer branch.\<close>

definition complete_state :: "int \<Rightarrow> string \<Rightarrow> string option \<Rightarrow> db \<Rightarrow> so_row list \<times> db" where
  "complete_state bid user txn d =
     (let d1 = d\<lparr>pick_batches := upd (\<lambda>x. pb_id x = bid)
                 (\<lambda>x. x\<lparr>pb_state := BATCH_COMPLETED, pb_completed := Some (now d)\<rparr>) (pick_batches d)\<rparr>;
          sos = batch_sos bid d1;
          d2 = fold (complete_so user txn) sos d1
      in (sos, fold (\<lambda>o' d. snd (submit_picks o' user d)) (batch_transfers bid d2) d2))"

definition complete_batch :: "int \<Rightarrow> string \<Rightarrow> string option \<Rightarrow> db \<Rightarrow> pick_error + (batch_summary \<times> db)" where
  "complete_batch bid user txn d =
     (case find_batch bid d of
        None \<Rightarrow> Inl PE_batch_not_found
      | Some b \<Rightarrow>
          if 0 < pending_count bid d then Inl (PE_pending (pending_count bid d))
          else if silently_short bid d \<noteq> [] then Inl (PE_silently_short (silently_short bid d))
          else
            let (sos, d3) = complete_state bid user txn d;
                d4 = audit ''PICK'' ''BATCH'' bid user (pb_wh b)
                       (JObj [(''batch_number'', JStr (pb_number b)), (''so_count'', JInt (int (length sos)))]) d3
            in Inr (\<lparr>bs_orders = map so_number sos,
                     bs_picked = total (\<lambda>t. pt_batch t = bid) pt_picked (pick_tasks d4),
                     bs_shorts = int (length (filter (\<lambda>t. pt_batch t = bid \<and> pt_state t = TASK_SHORT)
                                   (pick_tasks d4)))\<rparr>, d4))"

section \<open>Revert a batch\<close>

definition free_bin :: "int \<Rightarrow> int \<Rightarrow> int \<Rightarrow> db \<Rightarrow> db" where
  "free_bin item bin q d =
     d\<lparr>inventory := upd (\<lambda>r. inv_item r = item \<and> inv_bin r = bin)
        (\<lambda>r. r\<lparr>allocated := max 0 (allocated r - q), inv_updated := now d\<rparr>) (inventory d)\<rparr>"

text \<open>The stock side of one task: what was reserved is freed, what was picked goes back.\<close>

definition revert_stock :: "string \<Rightarrow> int \<Rightarrow> task_row \<Rightarrow> int \<Rightarrow> db \<Rightarrow> db" where
  "revert_stock user wh t so d =
     (if pt_state t = TASK_PENDING
      then if 0 < pt_qty t then free_bin (pt_item t) (pt_bin t) (pt_qty t) d else d
      else if 0 < pt_picked t
      then audit ''SO_PICK_RELEASED'' ''SO'' so user wh
             (JObj [(''pick_task_id'', JInt (pt_id t)), (''so_line_id'', jopt JInt (pt_sol t)),
                    (''item_id'', JInt (pt_item t)), (''bin_id'', JInt (pt_bin t)),
                    (''quantity'', JInt (pt_picked t)), (''reason'', JStr ''batch_cancel'')])
             (snd (add_inventory (pt_item t) (pt_bin t) wh (pt_picked t) None d))
      else d)"

definition revert_line :: "string \<Rightarrow> int \<Rightarrow> task_row \<Rightarrow> int \<Rightarrow> db \<Rightarrow> db" where
  "revert_line user wh t so d =
     (case pt_sol t of
        None \<Rightarrow> d
      | Some l \<Rightarrow>
          if 0 < pt_qty t \<or> 0 < pt_picked t then
            let d1 = set_sol (Some l) (\<lambda>x. x\<lparr>sol_picked := max 0 (sol_picked x - pt_picked t),
                       sol_alloc := max 0 (sol_alloc x - pt_qty t)\<rparr>) d
            in if 0 < pt_qty t
               then audit ''SO_ALLOCATION_RELEASED'' ''SO'' so user wh
                      (JObj [(''pick_task_id'', JInt (pt_id t)), (''so_line_id'', JInt l),
                             (''released_quantity'', JInt (pt_qty t)), (''reason'', JStr ''batch_cancel'')]) d1
               else d1
          else d)"

definition revertible :: "task_row \<Rightarrow> bool" where
  "revertible t \<longleftrightarrow> pt_so t \<noteq> None
     \<and> (pt_state t = TASK_PENDING \<or> pt_state t = TASK_PICKED \<or> pt_state t = TASK_SHORT)"

definition revert_task :: "string \<Rightarrow> int \<Rightarrow> task_row \<Rightarrow> db \<Rightarrow> db" where
  "revert_task user wh t d =
     (if \<not> revertible t then d
      else
        let so = the (pt_so t);
            d1 = revert_stock user wh t so d;
            d2 = revert_line user wh t so d1
        in set_task (pt_id t)
             (\<lambda>x. x\<lparr>pt_state := (if pt_state t = TASK_PICKED then TASK_RELEASED else TASK_SKIPPED)\<rparr>) d2)"

text \<open>The result is \<open>released_tasks\<close>, \<open>None\<close> for the no-op on a terminal batch.\<close>

definition full_revert_batch :: "int \<Rightarrow> string \<Rightarrow> db \<Rightarrow> pick_error + (int option \<times> db)" where
  "full_revert_batch bid user d =
     (case find_batch bid d of
        None \<Rightarrow> Inl PE_batch_not_found
      | Some b \<Rightarrow>
          if pb_state b = BATCH_COMPLETED \<or> pb_state b = BATCH_CANCELLED then Inr (None, d)
          else
            let ts = filter (\<lambda>t. pt_batch t = bid) (pick_tasks d);
                d1 = fold (revert_task user (pb_wh b)) ts d
            in Inr (Some (int (length (filter revertible ts))),
                    d1\<lparr>pick_batches := upd (\<lambda>x. pb_id x = bid) (\<lambda>x. x\<lparr>pb_state := BATCH_CANCELLED\<rparr>)
                         (pick_batches d1)\<rparr>))"

section \<open>Reading a batch\<close>

text \<open>Bin codes are compared character by character.\<close>

definition tasks_for_batch :: "int \<Rightarrow> db \<Rightarrow> task_row list" where
  "tasks_for_batch b d =
     map fst (sort_key (\<lambda>(t, c). (pt_sequence t, c))
       [(t, bin_code n). t \<leftarrow> pick_tasks d, pt_batch t = b, n \<leftarrow> bins d, bin_id n = pt_bin t,
          i \<leftarrow> items d, item_id i = pt_item t])"

definition contributing_orders :: "int \<Rightarrow> db \<Rightarrow> (string \<times> int) list" where
  "contributing_orders tid d =
     [(so_number x, wb_qty w). w \<leftarrow> task_breakdown tid d, x \<leftarrow> sales_orders d, so_id x = wb_so w]"

text \<open>The next task with its contributors, its number in the walk and the walk's length.\<close>

definition get_next_task :: "int \<Rightarrow> db \<Rightarrow> (task_row \<times> (string \<times> int) list \<times> int \<times> int) option" where
  "get_next_task b d =
     (case sort_key pt_sequence
             [t. t \<leftarrow> pick_tasks d, pt_batch t = b \<and> pt_state t = TASK_PENDING,
                n \<leftarrow> bins d, bin_id n = pt_bin t, i \<leftarrow> items d, item_id i = pt_item t] of
        [] \<Rightarrow> None
      | t # _ \<Rightarrow>
          Some (t, contributing_orders (pt_id t) d,
            int (length (filter (\<lambda>t. pt_batch t = b \<and> pt_state t \<noteq> TASK_PENDING) (pick_tasks d))) + 1,
            int (length (filter (\<lambda>t. pt_batch t = b) (pick_tasks d)))))"

definition transfer_of_batch :: "int \<Rightarrow> db \<Rightarrow> to_row option" where
  "transfer_of_batch b d =
     (case [o'. t \<leftarrow> pick_tasks d, pt_batch t = b, o' \<leftarrow> transfer_orders d, pt_to t = Some (tro_id o')] of
        [] \<Rightarrow> None | o' # _ \<Rightarrow> Some o')"

text \<open>The batch header, its orders with their totes, its tasks, and the transfer order
  when it is a transfer batch.\<close>

definition get_batch_tasks ::
    "int \<Rightarrow> db \<Rightarrow> (batch_row \<times> (string \<times> string option) list \<times> task_row list \<times> to_row option) option" where
  "get_batch_tasks b d =
     (case find_batch b d of
        None \<Rightarrow> None
      | Some r \<Rightarrow>
          Some (r, [(so_number x, pbo_tote p). p \<leftarrow> batch_orders d, pbo_batch p = b,
                      x \<leftarrow> sales_orders d, so_id x = pbo_so p],
                tasks_for_batch b d, transfer_of_batch b d))"

section \<open>Scanning an order\<close>

definition batch_active :: "batch_row \<Rightarrow> bool" where
  "batch_active b \<longleftrightarrow> pb_state b = BATCH_OPEN \<or> pb_state b = BATCH_IN_PROGRESS"

definition active_batch_of :: "int \<Rightarrow> db \<Rightarrow> int option" where
  "active_batch_of so d =
     (case [pb_id b. p \<leftarrow> batch_orders d, pbo_so p = so, b \<leftarrow> pick_batches d,
              pb_id b = pbo_batch p \<and> batch_active b] of
        [] \<Rightarrow> None | b # _ \<Rightarrow> Some b)"

datatype scan_result =
  SC_sales_order int string int int
| SC_transfer_order int string int string int int
| SC_in_active_batch int
| SC_order_status so_status
| SC_no_items
| SC_transfer_status string to_status
| SC_transfer_not_started string
| SC_transfer_assigned string int string
| SC_not_found

definition validate_so :: "so_row \<Rightarrow> db \<Rightarrow> scan_result" where
  "validate_so so d =
     (case active_batch_of (so_id so) d of
        Some b \<Rightarrow> SC_in_active_batch b
      | None \<Rightarrow>
          if so_state so \<noteq> SO_OPEN then SC_order_status (so_state so)
          else
            let ls = filter (\<lambda>l. sol_so l = so_id so) (so_lines d)
            in if ls = [] then SC_no_items
               else SC_sales_order (so_id so) (so_number so) (int (length ls)) (sum_list (map sol_ordered ls)))"

text \<open>The latest active batch with a task of the order.\<close>

definition active_transfer_batch :: "int \<Rightarrow> db \<Rightarrow> batch_row option" where
  "active_transfer_batch t d =
     (case sort_key (\<lambda>b. - pb_id b)
             [b. k \<leftarrow> pick_tasks d, pt_to k = Some t, b \<leftarrow> pick_batches d, pb_id b = pt_batch k \<and> batch_active b] of
        [] \<Rightarrow> None | b # _ \<Rightarrow> Some b)"

definition validate_to :: "string \<Rightarrow> int \<Rightarrow> string option \<Rightarrow> db \<Rightarrow> scan_result option" where
  "validate_to barcode wh user d =
     (case List.find (\<lambda>o'. tro_number o' = barcode \<and> tro_source o' = wh) (transfer_orders d) of
        None \<Rightarrow> None
      | Some o' \<Rightarrow>
          if tro_state o' \<noteq> TO_OPEN \<and> tro_state o' \<noteq> TO_PARTIALLY_PICKED
          then Some (SC_transfer_status (tro_number o') (tro_state o'))
          else
            (case active_transfer_batch (tro_id o') d of
               None \<Rightarrow> Some (SC_transfer_not_started (tro_number o'))
             | Some b \<Rightarrow>
                 if user \<noteq> None \<and> user \<noteq> Some (pb_user b)
                 then Some (SC_transfer_assigned (tro_number o') (pb_id b) (pb_user b))
                 else
                   let ls = filter (\<lambda>l. tol_to l = tro_id o' \<and> line_open l) (to_lines d)
                   in Some (SC_transfer_order (tro_id o') (tro_number o') (pb_id b) (pb_number b)
                        (int (length ls)) (sum_list (map tol_committed ls)))))"

definition wave_validate :: "string \<Rightarrow> int \<Rightarrow> string option \<Rightarrow> db \<Rightarrow> scan_result" where
  "wave_validate barcode wh user d =
     (case List.find (\<lambda>x. (so_number x = barcode \<or> so_barcode x = Some barcode) \<and> so_wh x = wh) (sales_orders d) of
        Some so \<Rightarrow> validate_so so d
      | None \<Rightarrow> (case validate_to barcode wh user d of Some r \<Rightarrow> r | None \<Rightarrow> SC_not_found))"

section \<open>The routes around the services\<close>

text \<open>\<open>POST /confirm\<close>, \<open>/short\<close> and \<open>/complete-batch\<close> first check the caller's access
  to the batch's warehouse; a missing row falls through to the service's own error.\<close>

datatype 'e route_error = Denied | Failed 'e

definition task_access :: "session \<Rightarrow> int \<Rightarrow> db \<Rightarrow> bool" where
  "task_access s tid d =
     (case [pb_wh b. t \<leftarrow> pick_tasks d, pt_id t = tid, b \<leftarrow> pick_batches d, pb_id b = pt_batch t] of
        [] \<Rightarrow> True | w # _ \<Rightarrow> check_warehouse_access s (Some w))"

definition batch_access :: "session \<Rightarrow> int \<Rightarrow> db \<Rightarrow> bool" where
  "batch_access s bid d =
     (case find_batch bid d of None \<Rightarrow> True | Some b \<Rightarrow> check_warehouse_access s (Some (pb_wh b)))"

definition guarded :: "bool \<Rightarrow> 'e + 'a \<Rightarrow> 'e route_error + 'a" where
  "guarded ok r = (if \<not> ok then Inl Denied else case r of Inl e \<Rightarrow> Inl (Failed e) | Inr a \<Rightarrow> Inr a)"

definition confirm :: "session \<Rightarrow> int \<Rightarrow> string \<Rightarrow> int \<Rightarrow> db \<Rightarrow> pick_error route_error + (int \<times> db)" where
  "confirm s tid scanned q d = guarded (task_access s tid d) (confirm_pick tid scanned q (s_user s) d)"

definition short :: "session \<Rightarrow> int \<Rightarrow> int \<Rightarrow> db \<Rightarrow> pick_error route_error + (int \<times> db)" where
  "short s tid q d = guarded (task_access s tid d) (short_pick tid q (s_user s) d)"

definition complete :: "session \<Rightarrow> int \<Rightarrow> db \<Rightarrow> pick_error route_error + (batch_summary \<times> db)" where
  "complete s bid d = guarded (batch_access s bid d) (complete_batch bid (s_user s) (Some (s_txn s)) d)"

definition cancel_batch :: "session \<Rightarrow> int \<Rightarrow> db \<Rightarrow> pick_error route_error + (int option \<times> db)" where
  "cancel_batch s bid d = guarded (batch_access s bid d) (full_revert_batch bid (s_user s) d)"

text \<open>\<open>GET /active-batch\<close>: the caller's latest active batch (identifiers grow with
  \<open>created_at\<close>), its task counts and its transfer order.\<close>

definition active_batch :: "session \<Rightarrow> db \<Rightarrow> (batch_row \<times> int \<times> int \<times> to_row option) option" where
  "active_batch s d =
     (case sort_key (\<lambda>b. - pb_id b) (filter (\<lambda>b. pb_user b = s_user s \<and> batch_active b) (pick_batches d)) of
        [] \<Rightarrow> None
      | b # _ \<Rightarrow>
          Some (b, int (length (filter (\<lambda>t. pt_batch t = pb_id b) (pick_tasks d))),
            int (length (filter (\<lambda>t. pt_batch t = pb_id b
                   \<and> (pt_state t = TASK_PICKED \<or> pt_state t = TASK_SHORT)) (pick_tasks d))),
            transfer_of_batch (pb_id b) d))"

section \<open>Stock stays sound\<close>

lemma good_frames [simp]:
  "good (set_task i f d) = good d" "good (set_sol j g d) = good d" "good (add_picked j q d) = good d"
  "good (audit a e i u w js d) = good d" "good (snd (emit_event ty v ag ai ae w n p d)) = good d"
  "good (d\<lparr>breakdowns := bs\<rparr>) = good d" "good (d\<lparr>pick_batches := pbs\<rparr>) = good d"
  "good (d\<lparr>sales_orders := sos\<rparr>) = good d" "good (d\<lparr>pick_tasks := ts\<rparr>) = good d"
  "good (d\<lparr>batch_orders := bos\<rparr>) = good d" "good (d\<lparr>wave_orders := wos\<rparr>) = good d"
  "good (d\<lparr>to_lines := tls\<rparr>) = good d" "good (d\<lparr>transfer_orders := tos\<rparr>) = good d"
  "good (d\<lparr>to_approvals := tas\<rparr>) = good d"
  by (rule good_cong; simp add: set_task_def set_sol_def add_picked_def)+

lemma fold_good: "(\<And>x d. x \<in> set xs \<Longrightarrow> good d \<Longrightarrow> good (f x d)) \<Longrightarrow> good d \<Longrightarrow> good (fold f xs d)"
  by (induction xs arbitrary: d) auto

lemma take_from_bin_good: "good d \<Longrightarrow> 0 \<le> q \<Longrightarrow> q \<le> a \<Longrightarrow> good (take_from_bin i b q a d)"
  unfolding take_from_bin_def by (rule good_upd_all) (auto simp: sound_row_def inv_key_def)

lemma free_bin_good: "good d \<Longrightarrow> 0 \<le> q \<Longrightarrow> good (free_bin i b q d)"
  unfolding free_bin_def by (rule good_upd_all) (auto simp: sound_row_def inv_key_def)

lemma confirm_lines_good: "good d \<Longrightarrow> good (confirm_lines t q d)"
  by (auto simp: confirm_lines_def confirm_breakdown_def intro: fold_good)

lemma short_lines_good: "good d \<Longrightarrow> good (short_lines t q d)"
proof -
  have "good (snd (fold short_breakdown bs s)) = good (snd s)" for bs s
    by (induction bs arbitrary: s) (simp_all add: short_breakdown_def Let_def)
  then show "good d \<Longrightarrow> good (short_lines t q d)" by (simp add: short_lines_def)
qed

lemma confirm_transfer_good: "confirm_transfer t o' q d = Inr d' \<Longrightarrow> good d \<Longrightarrow> good d'"
  by (auto simp: confirm_transfer_def update_transfer_order_line_picked_def
      maybe_promote_header_to_partially_picked_def split: option.splits if_splits sum.splits)

lemma confirm_pick_Inr:
  assumes "confirm_pick tid scanned q user d = Inr (n, d')"
  obtains t i wh d2 where "find_task tid d = Some t" "pt_state t = TASK_PENDING" "q \<le> pt_qty t"
    "find_item (pt_item t) d = Some i" "barcode_matches scanned (item_upc i) (item_aliases i)"
    "confirm_task t q user d = Inr d2" "n = pending_count (pt_batch t) d2"
    "d' = confirm_audit t (item_sku i) q user wh d2"
proof -
  from assms obtain t where t: "find_task tid d = Some t" "pt_state t = TASK_PENDING" "q \<le> pt_qty t"
    by (auto simp: confirm_pick_def not_less split: option.splits if_splits)
  with assms obtain i where i: "find_item (pt_item t) d = Some i"
    "barcode_matches scanned (item_upc i) (item_aliases i)"
    by (auto simp: confirm_pick_def split: option.splits if_splits)
  with assms t obtain d2 where d2: "confirm_task t q user d = Inr d2"
    by (auto simp: confirm_pick_def split: sum.splits)
  with assms t i obtain b where b: "find_batch (pt_batch t) d2 = Some b"
    by (cases "find_batch (pt_batch t) d2") (auto simp: confirm_pick_def)
  with assms t i d2 have "n = pending_count (pt_batch t) d2"
    "d' = confirm_audit t (item_sku i) q user (pb_wh b) d2"
    by (simp_all add: confirm_pick_def)
  from that [OF t i d2 this] show thesis .
qed

lemma confirm_audit_good [simp]: "good (confirm_audit t sku q user wh d) = good d"
  by (simp add: confirm_audit_def split: option.splits)

lemma confirm_pick_good:
  assumes "confirm_pick tid scanned q user d = Inr (n, d')" "good d" "0 \<le> q"
  shows "good d'"
proof -
  from confirm_pick_Inr [OF assms(1)] obtain t i wh d2 where
    "find_task tid d = Some t" "pt_state t = TASK_PENDING" and q: "q \<le> pt_qty t"
    and "find_item (pt_item t) d = Some i" "barcode_matches scanned (item_upc i) (item_aliases i)"
    and c: "confirm_task t q user d = Inr d2" and "n = pending_count (pt_batch t) d2"
    and d': "d' = confirm_audit t (item_sku i) q user wh d2" .
  have "good d2"
  proof (cases "pt_to t")
    case None
    with c have "d2 = take_from_bin (pt_item t) (pt_bin t) q (pt_qty t)
        (confirm_lines t q (set_task (pt_id t) (\<lambda>t. t\<lparr>pt_state := TASK_PICKED, pt_picked := q,
           pt_by := Some user, pt_at := Some (now d), pt_confirmed := True\<rparr>) d))"
      by (simp add: confirm_task_def)
    then show ?thesis
      by (simp only:) (intro take_from_bin_good confirm_lines_good; use assms(2,3) q in simp)
  next
    case (Some o')
    with c have "confirm_transfer t o' q (set_task (pt_id t) (\<lambda>t. t\<lparr>pt_state := TASK_PICKED, pt_picked := q,
           pt_by := Some user, pt_at := Some (now d), pt_confirmed := True\<rparr>) d) = Inr d2"
      by (simp add: confirm_task_def)
    from confirm_transfer_good [OF this] assms(2) show ?thesis by simp
  qed
  then show ?thesis by (simp add: d')
qed

lemma short_pick_Inr:
  assumes "short_pick tid q user d = Inr (n, d')"
  obtains t wh so js where "find_task tid d = Some t" "pt_state t = TASK_PENDING" "q \<le> pt_qty t"
    "n = pt_qty t - q" "d' = audit ''PICK'' ''SO'' so user wh js (short_state t q user d)" "pt_so t = Some so"
proof -
  from assms obtain t where t: "find_task tid d = Some t"
    by (auto simp: short_pick_def split: option.splits)
  then have "pt_id t = tid" unfolding find_task_def using find_Some_iff_first by fast
  with assms t that show thesis
    by (auto simp: short_pick_def short_state_def Let_def not_less split: option.splits if_splits)
qed

lemma short_pick_good:
  assumes "short_pick tid q user d = Inr (n, d')" "good d" "0 \<le> q"
  shows "good d'"
proof -
  from short_pick_Inr [OF assms(1)] obtain t wh so js where
    "find_task tid d = Some t" "pt_state t = TASK_PENDING" and q: "q \<le> pt_qty t"
    and "n = pt_qty t - q" and d': "d' = audit ''PICK'' ''SO'' so user wh js (short_state t q user d)"
    and "pt_so t = Some so" .
  show ?thesis
    unfolding d' short_state_def good_frames
    by (intro short_lines_good take_from_bin_good) (use assms(2,3) q in simp_all)
qed

lemma complete_so_stock [simp]:
  "inventory (complete_so user txn so d) = inventory d"
  "seqs (complete_so user txn so d) Seq_inventory = seqs d Seq_inventory"
  "so_lines (complete_so user txn so d) = so_lines d"
  "pick_tasks (complete_so user txn so d) = pick_tasks d"
  "pick_batches (complete_so user txn so d) = pick_batches d"
  "now (complete_so user txn so d) = now d"
  "batch_orders (complete_so user txn so d) = batch_orders d"
  by (simp_all add: complete_so_def Let_def split: option.splits)

lemma submit_picks_stock [simp]:
  "inventory (snd (submit_picks t user d)) = inventory d"
  "seqs (snd (submit_picks t user d)) Seq_inventory = seqs d Seq_inventory"
  "so_lines (snd (submit_picks t user d)) = so_lines d"
  "pick_tasks (snd (submit_picks t user d)) = pick_tasks d"
  "sales_orders (snd (submit_picks t user d)) = sales_orders d"
  "pick_batches (snd (submit_picks t user d)) = pick_batches d"
  "events (snd (submit_picks t user d)) = events d"
  by (simp_all add: submit_picks_def uuid4_def nextval_def set_to_status_def Let_def split: option.splits)

lemma complete_batch_Inr:
  assumes "complete_batch bid user txn d = Inr (res, d')"
  obtains wh js where "pending_count bid d \<le> 0" "silently_short bid d = []"
    "d' = audit ''PICK'' ''BATCH'' bid user wh js (snd (complete_state bid user txn d))"
    "bs_orders res = map so_number (fst (complete_state bid user txn d))"
  using assms
  by (auto simp: complete_batch_def Let_def split_beta not_less split: option.splits if_splits)

lemma complete_state_stock:
  "inventory (snd (complete_state bid user txn d)) = inventory d
   \<and> seqs (snd (complete_state bid user txn d)) Seq_inventory = seqs d Seq_inventory
   \<and> so_lines (snd (complete_state bid user txn d)) = so_lines d
   \<and> pick_tasks (snd (complete_state bid user txn d)) = pick_tasks d"
proof -
  have a: "inventory (fold (complete_so user txn) sos d) = inventory d
    \<and> seqs (fold (complete_so user txn) sos d) Seq_inventory = seqs d Seq_inventory
    \<and> so_lines (fold (complete_so user txn) sos d) = so_lines d
    \<and> pick_tasks (fold (complete_so user txn) sos d) = pick_tasks d" for sos d
    by (induction sos arbitrary: d) simp_all
  have b: "inventory (fold (\<lambda>o' d. snd (submit_picks o' user d)) ts d) = inventory d
    \<and> seqs (fold (\<lambda>o' d. snd (submit_picks o' user d)) ts d) Seq_inventory = seqs d Seq_inventory
    \<and> so_lines (fold (\<lambda>o' d. snd (submit_picks o' user d)) ts d) = so_lines d
    \<and> pick_tasks (fold (\<lambda>o' d. snd (submit_picks o' user d)) ts d) = pick_tasks d" for ts d
    by (induction ts arbitrary: d) simp_all
  show ?thesis by (simp add: complete_state_def Let_def a b)
qed

lemma complete_batch_good:
  assumes "complete_batch bid user txn d = Inr (res, d')" "good d"
  shows "good d'"
proof -
  from complete_batch_Inr [OF assms(1)] obtain wh js where
    "pending_count bid d \<le> 0" "silently_short bid d = []" and
    d': "d' = audit ''PICK'' ''BATCH'' bid user wh js (snd (complete_state bid user txn d))" and
    "bs_orders res = map so_number (fst (complete_state bid user txn d))" .
  show ?thesis
    unfolding d' good_frames using good_cong [of "snd (complete_state bid user txn d)" d] complete_state_stock assms(2)
    by blast
qed

lemma revert_task_good:
  assumes "good d" "0 \<le> pt_picked t"
  shows "good (revert_task user wh t d)"
  using assms
  by (auto simp: revert_task_def revert_stock_def revert_line_def Let_def add_inventory_good free_bin_good
      split: option.splits)

definition picks_nonneg :: "db \<Rightarrow> bool" where
  "picks_nonneg d \<longleftrightarrow> (\<forall>t \<in> set (pick_tasks d). 0 \<le> pt_picked t \<and> pt_picked t \<le> pt_qty t)"

lemma full_revert_good:
  assumes "full_revert_batch bid user d = Inr (n, d')" "good d" "picks_nonneg d"
  shows "good d'"
  using assms
  by (auto simp: full_revert_batch_def Let_def picks_nonneg_def intro!: fold_good revert_task_good
      split: option.splits if_splits)


section \<open>Completing a batch\<close>

lemma silently_short_none:
  assumes "\<forall>l \<in> set (so_lines d). find_item (sol_item l) d \<noteq> None"
  shows "silently_short bid d = [] \<longleftrightarrow>
    (\<forall>p \<in> set (batch_orders d). \<forall>l \<in> set (so_lines d). pbo_batch p = bid \<longrightarrow> sol_so l = pbo_so p \<longrightarrow>
       sol_ordered l \<le> sol_picked l \<or> short_marked (sol_id l) d)"
proof -
  have item: "\<exists>i \<in> set (items d). item_id i = sol_item l" if "l \<in> set (so_lines d)" for l
    using bspec [OF assms that] by (auto simp: find_item_def find_None)
  have sort: "(sort_key f xs = []) = (xs = [])" for f :: "short_line \<Rightarrow> int \<times> int" and xs
    by (metis length_0_conv length_sort)
  have lines: "l \<in> set (batch_lines bid d) \<longleftrightarrow>
      l \<in> set (so_lines d) \<and> (\<exists>p \<in> set (batch_orders d). pbo_so p = sol_so l \<and> pbo_batch p = bid)" for l
    by (auto simp: batch_lines_def)
  have "silently_short bid d = [] \<longleftrightarrow>
      (\<forall>l \<in> set (batch_lines bid d). \<forall>i \<in> set (items d).
         \<not> (item_id i = sol_item l \<and> sol_picked l < sol_ordered l \<and> \<not> short_marked (sol_id l) d))"
    by (auto simp: silently_short_def sort concat_eq_Nil_conv split: if_splits)
  also have "\<dots> \<longleftrightarrow> (\<forall>l \<in> set (batch_lines bid d). sol_ordered l \<le> sol_picked l \<or> short_marked (sol_id l) d)"
    using item by (auto simp: lines not_less)
  also have "\<dots> \<longleftrightarrow> (\<forall>p \<in> set (batch_orders d). \<forall>l \<in> set (so_lines d). pbo_batch p = bid \<longrightarrow> sol_so l = pbo_so p \<longrightarrow>
       sol_ordered l \<le> sol_picked l \<or> short_marked (sol_id l) d)"
    unfolding Ball_def lines by metis
  finally show ?thesis .
qed

lemma pending_none:
  "0 < pending_count bid d \<longleftrightarrow> (\<exists>t \<in> set (pick_tasks d). pt_batch t = bid \<and> pt_state t = TASK_PENDING)"
  by (auto simp: pending_count_def filter_empty_conv)

lemma complete_batch_accepts:
  "(\<exists>a. complete_batch bid user txn d = Inr a) \<longleftrightarrow>
     find_batch bid d \<noteq> None \<and> \<not> 0 < pending_count bid d \<and> silently_short bid d = []"
  by (simp add: complete_batch_def split_beta Let_def split: option.splits)

text \<open>
  Claim C7. A batch completes exactly when it exists, none of its tasks is pending, and
  every line of its orders is either picked in full or carries an explicit short marker
  (a SHORT task or a short wave share): no shortfall passes silently, and nothing else
  blocks completion.
\<close>

theorem complete_batch_iff_no_silent_shortfall:
  assumes "\<forall>l \<in> set (so_lines d). find_item (sol_item l) d \<noteq> None"
  shows "(\<exists>a. complete_batch bid user txn d = Inr a) \<longleftrightarrow>
     find_batch bid d \<noteq> None
     \<and> (\<forall>t \<in> set (pick_tasks d). pt_batch t = bid \<longrightarrow> pt_state t \<noteq> TASK_PENDING)
     \<and> (\<forall>p \<in> set (batch_orders d). \<forall>l \<in> set (so_lines d). pbo_batch p = bid \<longrightarrow> sol_so l = pbo_so p \<longrightarrow>
          sol_ordered l \<le> sol_picked l \<or> short_marked (sol_id l) d)"
  unfolding complete_batch_accepts silently_short_none [OF assms] pending_none by blast

lemma complete_sos_orders:
  "sales_orders (fold (complete_so user txn) sos d)
     = upd (\<lambda>x. so_id x \<in> so_id ` set sos) (\<lambda>x. x\<lparr>so_state := SO_PICKED, so_picked_at := Some (now d)\<rparr>) (sales_orders d)"
proof (induction sos arbitrary: d)
  case Nil
  show ?case by (simp add: upd_id)
next
  case (Cons so sos)
  have "sales_orders (complete_so user txn so d)
      = upd (\<lambda>x. so_id x = so_id so) (\<lambda>x. x\<lparr>so_state := SO_PICKED, so_picked_at := Some (now d)\<rparr>) (sales_orders d)"
    by (simp add: complete_so_def Let_def split: option.splits)
  then show ?case by (auto simp: Cons.IH upd_def)
qed

lemma emit_events:
  "set (events d) \<subseteq> set (events (snd (emit_event ty v ag ai ae w n p d)))"
  "(ag, ai, ty, n) \<in> event_key ` set (events (snd (emit_event ty v ag ai ae w n p d)))"
proof -
  show "set (events d) \<subseteq> set (events (snd (emit_event ty v ag ai ae w n p d)))"
    by (auto simp: emit_event_def nextval_def)
  show "(ag, ai, ty, n) \<in> event_key ` set (events (snd (emit_event ty v ag ai ae w n p d)))"
  proof (cases "\<exists>e \<in> set (events d). ev_agg_type e = ag \<and> ev_agg_id e = ai \<and> ev_type e = ty \<and> ev_txn e = n")
    case True
    then obtain e where "e \<in> set (events d)" "event_key e = (ag, ai, ty, n)" by (auto simp: event_key_def)
    then show ?thesis by (force simp: emit_event_def nextval_def)
  next
    case False
    then show ?thesis
      unfolding emit_event_def Let_def nextval_def split_beta fst_conv snd_conv
      by (simp only: db.simps if_False) (simp add: event_key_def)
  qed
qed

lemma complete_so_event:
  "set (events d) \<subseteq> set (events (complete_so user txn so d))"
  "txn = Some n \<Longrightarrow> (''sales_order'', so_id so, ''pick.confirmed'', n)
     \<in> event_key ` set (events (complete_so user txn so d))"
proof -
  show "set (events d) \<subseteq> set (events (complete_so user txn so d))"
    unfolding complete_so_def Let_def using emit_events(1) [of "d\<lparr>sales_orders := _\<rparr>"]
    by (simp split: option.split)
  show "(''sales_order'', so_id so, ''pick.confirmed'', n)
     \<in> event_key ` set (events (complete_so user txn so d))" if "txn = Some n"
    unfolding complete_so_def Let_def that option.case by (rule emit_events(2))
qed

lemma complete_sos_events:
  "set (events d) \<subseteq> set (events (fold (complete_so user txn) sos d))"
  "txn = Some n \<Longrightarrow> so \<in> set sos \<Longrightarrow> (''sales_order'', so_id so, ''pick.confirmed'', n)
     \<in> event_key ` set (events (fold (complete_so user txn) sos d))"
proof -
  show sub: "set (events d) \<subseteq> set (events (fold (complete_so user txn) sos d))" for sos d
    by (induction sos arbitrary: d) (use complete_so_event(1) in force)+
  show "(''sales_order'', so_id so, ''pick.confirmed'', n)
     \<in> event_key ` set (events (fold (complete_so user txn) sos d))" if "txn = Some n" "so \<in> set sos"
    using that(2)
  proof (induction sos arbitrary: d)
    case (Cons x xs)
    show ?case
    proof (cases "so = x")
      case True
      then show ?thesis
        using complete_so_event(2) [OF that(1), of x user d] sub [of "complete_so user txn x d" xs] by auto
    next
      case False
      with Cons show ?thesis by simp
    qed
  qed simp
qed


lemma submits_frame:
  "sales_orders (fold (\<lambda>o' d. snd (submit_picks o' user d)) ts d) = sales_orders d
   \<and> events (fold (\<lambda>o' d. snd (submit_picks o' user d)) ts d) = events d
   \<and> pick_batches (fold (\<lambda>o' d. snd (submit_picks o' user d)) ts d) = pick_batches d"
  by (induction ts arbitrary: d) simp_all

lemma complete_sos_batches: "pick_batches (fold (complete_so user txn) sos d) = pick_batches d"
  by (induction sos arbitrary: d) simp_all

definition in_batch :: "int \<Rightarrow> db \<Rightarrow> int \<Rightarrow> bool" where
  "in_batch b d so \<longleftrightarrow> (\<exists>p \<in> set (batch_orders d). pbo_batch p = b \<and> pbo_so p = so)"

lemma batch_sos_set: "x \<in> set (batch_sos b d) \<longleftrightarrow> x \<in> set (sales_orders d) \<and> in_batch b d (so_id x)"
  unfolding batch_sos_def in_batch_def by (auto split: if_splits) metis

lemma complete_state_effect:
  "sales_orders (snd (complete_state bid user txn d))
     = upd (\<lambda>x. in_batch bid d (so_id x)) (\<lambda>x. x\<lparr>so_state := SO_PICKED, so_picked_at := Some (now d)\<rparr>)
         (sales_orders d)"
  "pick_batches (snd (complete_state bid user txn d))
     = upd (\<lambda>x. pb_id x = bid) (\<lambda>x. x\<lparr>pb_state := BATCH_COMPLETED, pb_completed := Some (now d)\<rparr>) (pick_batches d)"
  "txn = Some n \<Longrightarrow> x \<in> set (sales_orders d) \<Longrightarrow> in_batch bid d (so_id x)
     \<Longrightarrow> (''sales_order'', so_id x, ''pick.confirmed'', n) \<in> event_key ` set (events (snd (complete_state bid user txn d)))"
proof -
  let ?d1 = "d\<lparr>pick_batches := upd (\<lambda>x. pb_id x = bid)
     (\<lambda>x. x\<lparr>pb_state := BATCH_COMPLETED, pb_completed := Some (now d)\<rparr>) (pick_batches d)\<rparr>"
  have sos: "batch_sos bid ?d1 = batch_sos bid d" by (simp add: batch_sos_def)
  have "upd (\<lambda>x. so_id x \<in> so_id ` set (batch_sos bid d)) f (sales_orders d)
      = upd (\<lambda>x. in_batch bid d (so_id x)) f (sales_orders d)" for f
    by (auto simp: upd_def batch_sos_set)
  then show "sales_orders (snd (complete_state bid user txn d))
     = upd (\<lambda>x. in_batch bid d (so_id x)) (\<lambda>x. x\<lparr>so_state := SO_PICKED, so_picked_at := Some (now d)\<rparr>)
         (sales_orders d)"
    by (simp add: complete_state_def Let_def submits_frame complete_sos_orders sos)
  show "pick_batches (snd (complete_state bid user txn d))
     = upd (\<lambda>x. pb_id x = bid) (\<lambda>x. x\<lparr>pb_state := BATCH_COMPLETED, pb_completed := Some (now d)\<rparr>) (pick_batches d)"
    by (simp add: complete_state_def Let_def submits_frame complete_sos_batches)
  show "(''sales_order'', so_id x, ''pick.confirmed'', n) \<in> event_key ` set (events (snd (complete_state bid user txn d)))"
    if "txn = Some n" "x \<in> set (sales_orders d)" "in_batch bid d (so_id x)"
    using complete_sos_events(2) [OF that(1), of x "batch_sos bid ?d1" user ?d1] that(2,3)
    by (simp add: complete_state_def Let_def submits_frame batch_sos_set in_batch_def)
qed

text \<open>
  Completing a batch moves no stock and touches no order line and no task:
  exactly the orders of the batch become PICKED, stamped with the time, every one of
  them has its pick.confirmed event under the request's transaction id, and the batch
  is COMPLETED.
\<close>

theorem complete_batch_effect:
  assumes "complete_batch bid user (Some n) d = Inr (res, d')"
  shows "inventory d' = inventory d \<and> so_lines d' = so_lines d \<and> pick_tasks d' = pick_tasks d
    \<and> sales_orders d' = upd (\<lambda>x. in_batch bid d (so_id x))
        (\<lambda>x. x\<lparr>so_state := SO_PICKED, so_picked_at := Some (now d)\<rparr>) (sales_orders d)
    \<and> (\<forall>x \<in> set (sales_orders d). in_batch bid d (so_id x) \<longrightarrow>
         (''sales_order'', so_id x, ''pick.confirmed'', n) \<in> event_key ` set (events d'))
    \<and> (\<exists>b. find_batch bid d' = Some b \<and> pb_state b = BATCH_COMPLETED)"
proof -
  from assms obtain b where b: "find_batch bid d = Some b"
    by (auto simp: complete_batch_def split: option.splits)
  from complete_batch_Inr [OF assms] obtain wh js where
    "pending_count bid d \<le> 0" "silently_short bid d = []" and
    d': "d' = audit ''PICK'' ''BATCH'' bid user wh js (snd (complete_state bid user (Some n) d))" and
    "bs_orders res = map so_number (fst (complete_state bid user (Some n) d))" .
  have "\<exists>b. List.find (\<lambda>b. pb_id b = bid) (upd (\<lambda>x. pb_id x = bid)
      (\<lambda>x. x\<lparr>pb_state := BATCH_COMPLETED, pb_completed := Some (now d)\<rparr>) bs) = Some b \<and> pb_state b = BATCH_COMPLETED"
    if "List.find (\<lambda>b. pb_id b = bid) bs = Some b" for bs :: "batch_row list" and b
    using that by (induction bs) auto
  with b show ?thesis
    by (simp add: d' complete_state_stock complete_state_effect find_batch_def)
qed


section \<open>Short picks and the wave breakdown\<close>

text \<open>What each contributor gets: everyone in turn, as far as the picked quantity goes.\<close>

fun gives :: "int \<Rightarrow> int list \<Rightarrow> int list" where
  "gives q [] = []"
| "gives q (n # ns) = min q n # gives (q - min q n) ns"

lemma length_gives [simp]: "length (gives q ns) = length ns"
  by (induction q ns rule: gives.induct) simp_all

lemma gives_zero: "(\<And>n. n \<in> set ns \<Longrightarrow> 0 \<le> n) \<Longrightarrow> gives 0 ns = map (\<lambda>_. 0) ns"
  by (induction ns) simp_all

lemma gives_sum: "0 \<le> q \<Longrightarrow> (\<And>n. n \<in> set ns \<Longrightarrow> 0 \<le> n) \<Longrightarrow> sum_list (gives q ns) = min q (sum_list ns)"
proof (induction q ns rule: gives.induct)
  case (2 q n ns)
  have "0 \<le> sum_list ns" using "2.prems" by (intro sum_list_nonneg) auto
  with 2 show ?case by auto
qed simp

lemma gives_nonneg: "0 \<le> q \<Longrightarrow> (\<And>n. n \<in> set ns \<Longrightarrow> 0 \<le> n) \<Longrightarrow> g \<in> set (gives q ns) \<Longrightarrow> 0 \<le> g"
  by (induction q ns rule: gives.induct) auto

lemma gives_in_order:
  "0 \<le> q \<Longrightarrow> (\<And>n. n \<in> set ns \<Longrightarrow> 0 \<le> n) \<Longrightarrow> i < j \<Longrightarrow> j < length ns \<Longrightarrow> 0 < gives q ns ! j
     \<Longrightarrow> gives q ns ! i = ns ! i"
proof (induction q ns arbitrary: i j rule: gives.induct)
  case (2 q n ns)
  then obtain j' where j: "j = Suc j'" by (cases j) auto
  have "q \<noteq> min q n" if "gives 0 ns ! j' \<le> 0 \<Longrightarrow> False"
    using that "2.prems"(2,4) j gives_zero [of ns] by auto
  with "2.prems" j have lt: "n < q" if "0 < gives (q - min q n) ns ! j'"
    using that gives_zero [of ns] by (auto simp: min_def split: if_splits)
  show ?case
  proof (cases i)
    case 0
    with lt "2.prems" j show ?thesis by simp
  next
    case (Suc i')
    with "2.IH" [of i' j'] "2.prems" j show ?thesis by simp
  qed
qed simp

lemma sort_key_map_same:
  assumes "\<And>x. k (h x) = k x"
  shows "sort_key k (map h xs) = map h (sort_key k xs)"
proof -
  have "insort_key k (h x) (map h ys) = map h (insort_key k x ys)" for x ys
    by (induction ys) (simp_all add: assms)
  then show ?thesis by (induction xs) simp_all
qed

lemma task_breakdown_upd:
  assumes "\<And>x. wb_so (f x) = wb_so x" "\<And>x. wb_task (f x) = wb_task x"
  shows "task_breakdown tid (d\<lparr>breakdowns := upd P f (breakdowns d)\<rparr>) = upd P f (task_breakdown tid d)"
proof -
  let ?h = "\<lambda>x. if P x then f x else x"
  have "filter (\<lambda>b. wb_task b = tid) (map ?h xs) = map ?h (filter (\<lambda>b. wb_task b = tid) xs)" for xs
    by (induction xs) (auto simp: assms)
  moreover have "sort_key wb_so (map ?h xs) = map ?h (sort_key wb_so xs)" for xs
    by (rule sort_key_map_same) (simp add: assms)
  ultimately show ?thesis
    by (simp add: task_breakdown_def upd_def)
qed

lemma task_breakdown_frames [simp]:
  "task_breakdown tid (add_picked i q d) = task_breakdown tid d"
  "task_breakdown tid (set_task j f d) = task_breakdown tid d"
  "task_breakdown tid (take_from_bin a b m n d) = task_breakdown tid d"
  "task_breakdown tid (audit ac e ei u w js d) = task_breakdown tid d"
  by (simp_all add: task_breakdown_def add_picked_def set_sol_def set_task_def take_from_bin_def)

definition shared :: "brk_row \<Rightarrow> int \<Rightarrow> brk_row" where
  "shared b g = b\<lparr>wb_picked := g, wb_short := wb_qty b - g\<rparr>"

lemma fold_short_Cons:
  "fold short_breakdown (b # bs) (q, d)
     = fold short_breakdown bs (q - min q (wb_qty b), snd (short_breakdown b (q, d)))"
proof -
  have "short_breakdown b (q, d) = (q - min q (wb_qty b), snd (short_breakdown b (q, d)))"
    by (simp add: short_breakdown_def Let_def)
  then show ?thesis by (metis comp_apply fold_Cons)
qed

lemma short_shares:
  assumes "task_breakdown tid d = pre @ bs" "distinct (map wb_id (pre @ bs))"
  shows "task_breakdown tid (snd (fold short_breakdown bs (q, d)))
    = pre @ map2 shared bs (gives q (map wb_qty bs))"
  using assms
proof (induction bs arbitrary: pre q d)
  case (Cons b bs)
  let ?s = "short_breakdown b (q, d)"
  have other: "upd (\<lambda>x. wb_id x = wb_id b) f pre = pre" "upd (\<lambda>x. wb_id x = wb_id b) f bs = bs" for f
    using Cons.prems(2) by (auto intro!: upd_id simp: rev_image_eqI)
  have "task_breakdown tid (snd ?s) = (pre @ [shared b (min q (wb_qty b))]) @ bs"
    using Cons.prems(1)
    by (simp add: short_breakdown_def Let_def task_breakdown_upd shared_def other)
  from Cons.IH [OF this, of "q - min q (wb_qty b)"] Cons.prems(2) show ?case
    unfolding fold_short_Cons by (simp add: shared_def)
qed simp


definition credit :: "int \<Rightarrow> brk_row list \<Rightarrow> int" where
  "credit i bs = total (\<lambda>b. wb_sol b = Some i) wb_picked bs"

lemma credit_simps [simp]:
  "credit i [] = 0" "credit i (b # bs) = (if wb_sol b = Some i then wb_picked b else 0) + credit i bs"
  by (simp_all add: credit_def)

lemma add_picked_lines:
  "so_lines (add_picked j q d)
     = map (\<lambda>l. l\<lparr>sol_picked := sol_picked l + (if j = Some (sol_id l) then q else 0)\<rparr>) (so_lines d)"
  by (auto simp: add_picked_def set_sol_def upd_def)

lemma short_lines_credit:
  assumes "0 \<le> q" "\<And>b. b \<in> set bs \<Longrightarrow> 0 \<le> wb_qty b"
  shows "so_lines (snd (fold short_breakdown bs (q, d)))
    = map (\<lambda>l. l\<lparr>sol_picked := sol_picked l + credit (sol_id l) (map2 shared bs (gives q (map wb_qty bs)))\<rparr>)
        (so_lines d)"
  using assms
proof (induction bs arbitrary: q d)
  case Nil
  show ?case by simp
next
  case (Cons b bs)
  let ?g = "min q (wb_qty b)"
  have "0 \<le> ?g" "0 \<le> q - ?g" using Cons.prems by auto
  have step: "so_lines (snd (short_breakdown b (q, d)))
      = map (\<lambda>l. l\<lparr>sol_picked := sol_picked l + (if wb_sol b = Some (sol_id l) then ?g else 0)\<rparr>) (so_lines d)"
    using \<open>0 \<le> ?g\<close> by (auto simp: short_breakdown_def Let_def add_picked_lines intro: map_idI [symmetric])
  show ?case
    using Cons.IH [OF \<open>0 \<le> q - ?g\<close>, of "snd (short_breakdown b (q, d))"] Cons.prems(2)
    unfolding fold_short_Cons by (simp add: step shared_def)
qed

lemma task_breakdown_member: "b \<in> set (task_breakdown tid d) \<longleftrightarrow> b \<in> set (breakdowns d) \<and> wb_task b = tid"
  by (auto simp: task_breakdown_def)

lemma task_breakdown_distinct:
  "distinct (map wb_id (breakdowns d)) \<Longrightarrow> distinct (map wb_id (task_breakdown tid d))"
  by (auto simp: task_breakdown_def distinct_map inj_on_def)

lemma so_lines_frames [simp]:
  "so_lines (take_from_bin a b m n d) = so_lines d" "so_lines (set_task j f d) = so_lines d"
  by (simp_all add: take_from_bin_def set_task_def)

text \<open>
  A short pick of a wave task hands what was picked to the contributing
  orders in order of their ids: each share is recorded as picked and short parts that
  make up its quantity, the shares add up to what was picked, no order gets anything
  before every earlier one has its full share, each order line is credited exactly
  what its shares got, and the shortage reported is what is missing.
\<close>

theorem short_pick_shares_in_order:
  assumes ok: "short_pick tid q user d = Inr (n, d')"
    and ids: "distinct (map wb_id (breakdowns d))"
    and qty: "\<forall>b \<in> set (breakdowns d). 0 \<le> wb_qty b" and q: "0 \<le> q"
    and wave: "task_breakdown tid d \<noteq> []"
  shows "(let bs = task_breakdown tid d; gs = gives q (map wb_qty bs) in
      task_breakdown tid d' = map2 (\<lambda>b g. b\<lparr>wb_picked := g, wb_short := wb_qty b - g\<rparr>) bs gs
      \<and> sum_list gs = min q (sum_list (map wb_qty bs))
      \<and> (\<forall>j < length bs. \<forall>i < j. 0 < gs ! j \<longrightarrow> gs ! i = wb_qty (bs ! i))
      \<and> so_lines d' = map (\<lambda>l. l\<lparr>sol_picked := sol_picked l
            + total (\<lambda>b. wb_sol b = Some (sol_id l)) wb_picked (task_breakdown tid d')\<rparr>) (so_lines d))"
proof -
  from short_pick_Inr [OF ok] obtain t wh so js where
    t: "find_task tid d = Some t" and "pt_state t = TASK_PENDING" "q \<le> pt_qty t"
    and "n = pt_qty t - q" and d': "d' = audit ''PICK'' ''SO'' so user wh js (short_state t q user d)"
    and "pt_so t = Some so" .
  have tid: "pt_id t = tid" using t find_Some_iff_first by (fastforce simp: find_task_def)
  define d1 where "d1 = take_from_bin (pt_item t) (pt_bin t) q (pt_qty t)
       (set_task (pt_id t) (\<lambda>t. t\<lparr>pt_state := TASK_SHORT, pt_picked := q,
          pt_by := Some user, pt_at := Some (now d)\<rparr>) d)"
  define bs where "bs = task_breakdown tid d"
  have bs1: "task_breakdown tid d1 = bs" "so_lines d1 = so_lines d" by (simp_all add: d1_def bs_def)
  have nn: "0 \<le> wb_qty b" if "b \<in> set bs" for b using that qty by (simp add: bs_def task_breakdown_member)
  then have nns: "0 \<le> m" if "m \<in> set (map wb_qty bs)" for m using that by auto
  have s: "short_state t q user d = snd (fold short_breakdown bs (q, d1))"
    unfolding short_state_def d1_def [symmetric] using wave bs1 by (simp add: short_lines_def tid bs_def)
  have shares: "task_breakdown tid d' = map2 shared bs (gives q (map wb_qty bs))"
    using short_shares [of tid d1 "[]" bs q] bs1 task_breakdown_distinct [OF ids] by (simp add: d' s bs_def)
  have lines: "so_lines d' = map (\<lambda>l. l\<lparr>sol_picked := sol_picked l + credit (sol_id l) (task_breakdown tid d')\<rparr>) (so_lines d)"
    unfolding shares using short_lines_credit [OF q nn, of bs d1] bs1(2) by (simp add: d' s)
  show ?thesis
    unfolding Let_def bs_def [symmetric] lines credit_def
    using shares gives_sum [OF q nns, of "map wb_qty bs"] gives_in_order [OF q nns, of "map wb_qty bs"]
    by (auto simp: shared_def)
qed


section \<open>Confirmed picks\<close>

lemma confirm_lines_credit:
  "so_lines (fold confirm_breakdown bs d)
     = map (\<lambda>l. l\<lparr>sol_picked := sol_picked l + total (\<lambda>b. wb_sol b = Some (sol_id l)) wb_qty bs\<rparr>) (so_lines d)"
proof (induction bs arbitrary: d)
  case (Cons b bs)
  have "so_lines (confirm_breakdown b d)
      = map (\<lambda>l. l\<lparr>sol_picked := sol_picked l + (if wb_sol b = Some (sol_id l) then wb_qty b else 0)\<rparr>) (so_lines d)"
    by (simp add: confirm_breakdown_def add_picked_lines)
  then show ?case by (simp add: Cons.IH)
qed simp

lemma confirm_lines_frame:
  "inventory (confirm_lines t q d) = inventory d \<and> now (confirm_lines t q d) = now d
   \<and> pick_tasks (confirm_lines t q d) = pick_tasks d"
proof -
  have "inventory (fold confirm_breakdown bs d) = inventory d \<and> now (fold confirm_breakdown bs d) = now d
      \<and> pick_tasks (fold confirm_breakdown bs d) = pick_tasks d" for bs
    by (induction bs arbitrary: d) (simp_all add: confirm_breakdown_def add_picked_def set_sol_def)
  then show ?thesis by (simp add: confirm_lines_def add_picked_def set_sol_def)
qed

lemma total_task_breakdown:
  "total P g (task_breakdown tid d) = total (\<lambda>b. wb_task b = tid \<and> P b) g (breakdowns d)"
proof -
  have "total P g (sort_key k xs) = total P g xs" for k :: "brk_row \<Rightarrow> int" and xs
    by (simp add: total_def filter_sort sum_list_sort_key)
  then show ?thesis by (simp add: task_breakdown_def total_filter conj_commute)
qed

lemma confirm_lines_so_lines:
  "so_lines (confirm_lines t q d) = map (\<lambda>l. l\<lparr>sol_picked := sol_picked l +
     (if task_breakdown (pt_id t) d = [] then (if pt_sol t = Some (sol_id l) then q else 0)
      else total (\<lambda>b. wb_task b = pt_id t \<and> wb_sol b = Some (sol_id l)) wb_qty (breakdowns d))\<rparr>) (so_lines d)"
  by (simp add: confirm_lines_def confirm_lines_credit add_picked_lines total_task_breakdown)

lemma confirm_audit_frame [simp]:
  "inventory (confirm_audit t sku q user wh d) = inventory d"
  "so_lines (confirm_audit t sku q user wh d) = so_lines d"
  "pick_tasks (confirm_audit t sku q user wh d) = pick_tasks d"
  by (simp_all add: confirm_audit_def split: option.splits)

lemma take_from_one_row:
  assumes "\<forall>x \<in> set (inventory d). inv_item x = item \<and> inv_bin x = bin \<longleftrightarrow> inv_id x = inv_id r"
    and "\<forall>x \<in> set (inventory d). inv_id x = inv_id r \<longrightarrow> took \<le> on_hand x \<and> freed \<le> allocated x"
  shows "inventory (take_from_bin item bin took freed d)
    = upd (\<lambda>x. inv_id x = inv_id r) (\<lambda>x. x\<lparr>on_hand := on_hand x - took, allocated := allocated x - freed,
        inv_updated := now d\<rparr>) (inventory d)"
  using assms by (auto simp: take_from_bin_def upd_def)

text \<open>
  Confirming an order's task takes exactly the confirmed quantity out of the
  task's row, gives back exactly what the task had reserved there, marks the task
  picked, and credits the order lines: the task's own line with the confirmed quantity,
  or, for a wave task, every contributor with its whole share. (The row must be the
  item's only one in the bin and cover the task, which is how tasks are created.)
\<close>

theorem confirm_pick_exact:
  assumes ok: "confirm_pick tid scanned q user d = Inr (n, d')"
    and t: "find_task tid d = Some t" "pt_to t = None" "distinct (map pt_id (pick_tasks d))"
    and r: "r \<in> set (inventory d)" "distinct (map inv_id (inventory d))" "sound_row r" "pt_qty t \<le> allocated r"
    and only: "\<forall>x \<in> set (inventory d). inv_item x = pt_item t \<and> inv_bin x = pt_bin t \<longleftrightarrow> inv_id x = inv_id r"
  shows "inventory d' = upd (\<lambda>x. inv_id x = inv_id r) (\<lambda>x. x\<lparr>on_hand := on_hand x - q,
            allocated := allocated x - pt_qty t, inv_updated := now d\<rparr>) (inventory d)
    \<and> so_lines d' = map (\<lambda>l. l\<lparr>sol_picked := sol_picked l +
         (if task_breakdown tid d = [] then (if pt_sol t = Some (sol_id l) then q else 0)
          else total (\<lambda>b. wb_task b = tid \<and> wb_sol b = Some (sol_id l)) wb_qty (breakdowns d))\<rparr>) (so_lines d)
    \<and> pick_tasks d' = upd (\<lambda>x. x = t) (\<lambda>x. x\<lparr>pt_state := TASK_PICKED, pt_picked := q, pt_by := Some user,
         pt_at := Some (now d), pt_confirmed := True\<rparr>) (pick_tasks d)"
proof -
  from confirm_pick_Inr [OF ok] obtain t' i wh d2 where
    "find_task tid d = Some t'" and "pt_state t' = TASK_PENDING" and q: "q \<le> pt_qty t'"
    and "find_item (pt_item t') d = Some i" "barcode_matches scanned (item_upc i) (item_aliases i)"
    and c: "confirm_task t' q user d = Inr d2" and "n = pending_count (pt_batch t') d2"
    and d': "d' = confirm_audit t' (item_sku i) q user wh d2" .
  with t have [simp]: "t' = t" by simp
  have tid: "pt_id t = tid" and tin: "t \<in> set (pick_tasks d)"
    using t(1) find_Some_iff_first by (fastforce simp: find_task_def)+
  define d1 where "d1 = set_task tid (\<lambda>t. t\<lparr>pt_state := TASK_PICKED, pt_picked := q,
           pt_by := Some user, pt_at := Some (now d), pt_confirmed := True\<rparr>) d"
  have d1: "task_breakdown tid d1 = task_breakdown tid d" "breakdowns d1 = breakdowns d" "so_lines d1 = so_lines d"
    "inventory d1 = inventory d" "now d1 = now d"
    unfolding d1_def by simp_all (simp_all add: set_task_def)
  have same: "(pt_id x = tid) = (x = t)" if "x \<in> set (pick_tasks d)" for x
    using key_inj [OF t(3) that tin] tid by auto
  have tasks: "pick_tasks d1 = upd (\<lambda>x. x = t) (\<lambda>x. x\<lparr>pt_state := TASK_PICKED, pt_picked := q, pt_by := Some user,
         pt_at := Some (now d), pt_confirmed := True\<rparr>) (pick_tasks d)"
    using same by (simp add: d1_def set_task_def upd_def)
  have d2: "d2 = take_from_bin (pt_item t) (pt_bin t) q (pt_qty t) (confirm_lines t q d1)"
    using c t(2) tid by (simp add: confirm_task_def d1_def)
  have "\<forall>x \<in> set (inventory d). inv_id x = inv_id r \<longrightarrow> q \<le> on_hand x \<and> pt_qty t \<le> allocated x"
    using key_inj [OF r(2) _ r(1)] q r(3,4) by (force simp: sound_row_def)
  then have "inventory d2 = upd (\<lambda>x. inv_id x = inv_id r) (\<lambda>x. x\<lparr>on_hand := on_hand x - q,
            allocated := allocated x - pt_qty t, inv_updated := now d\<rparr>) (inventory d)"
    unfolding d2 using take_from_one_row [of "confirm_lines t q d1"] only
    by (simp add: confirm_lines_frame d1)
  moreover have "so_lines d2 = map (\<lambda>l. l\<lparr>sol_picked := sol_picked l +
         (if task_breakdown tid d = [] then (if pt_sol t = Some (sol_id l) then q else 0)
          else total (\<lambda>b. wb_task b = tid \<and> wb_sol b = Some (sol_id l)) wb_qty (breakdowns d))\<rparr>) (so_lines d)"
    by (simp add: d2 confirm_lines_so_lines d1 tid)
  moreover have "pick_tasks d2 = pick_tasks d1"
    by (simp add: d2 take_from_bin_def confirm_lines_frame)
  ultimately show ?thesis by (simp add: d' tasks)
qed


section \<open>Examples\<close>

text \<open>A wave task of five units over two orders that need two and three.\<close>

definition demo_so :: "int \<Rightarrow> string \<Rightarrow> so_row" where
  "demo_so i n = \<lparr>so_id = i, so_number = n, so_barcode = None, so_state = SO_OPEN, so_wh = 1, so_ext = n,
     so_type = OT_sale, so_parent = None, so_customer = None, so_opened = None, so_fulfillable = None,
     so_picked_at = None, so_packed_at = None, so_shipped_at = None, so_carrier = None, so_tracking = None, so_method = None, so_memo = None, so_source = ''web'',
        so_created_by = None, so_columns = Map.empty, so_cancel_reason = None, so_refund = None, so_voided = None,
        so_printed = None\<rparr>"

definition demo_sol :: "int \<Rightarrow> int \<Rightarrow> int \<Rightarrow> sol_row" where
  "demo_sol i so q = \<lparr>sol_id = i, sol_so = so, sol_item = 7, sol_ordered = q, sol_alloc = q, sol_picked = 0,
     sol_packed = 0, sol_shipped = 0, sol_number = 1, sol_state = SOL_PENDING, sol_received = 0, sol_original = None\<rparr>"

definition demo_task :: task_row where
  "demo_task = \<lparr>pt_id = 1, pt_batch = 1, pt_so = Some 11, pt_sol = Some 111, pt_to = None, pt_tol = None,
     pt_item = 7, pt_bin = 1, pt_qty = 5, pt_picked = 0, pt_sequence = 1, pt_tote = Some ''WAVE'',
     pt_state = TASK_PENDING, pt_by = None, pt_at = None, pt_confirmed = False\<rparr>"

definition demo_batch :: batch_row where
  "demo_batch = \<lparr>pb_id = 1, pb_number = ''WAVE-1'', pb_wh = 1, pb_state = BATCH_OPEN, pb_user = ''picker'',
     pb_orders = 2, pb_items = 5, pb_completed = None\<rparr>"

definition demo_wave :: db where
  "demo_wave = demo_transfer\<lparr>
     inventory := [\<lparr>inv_id = 0, inv_item = 7, inv_bin = 1, inv_wh = 1, on_hand = 10, allocated = 5,
                    inv_lot = None, inv_updated = 0, inv_counted = None\<rparr>],
     items := [\<lparr>item_id = 7, item_sku = ''TST'', item_name = ''Test'', item_upc = Some ''123'',
                item_aliases = None, item_ext = ''u7'', item_weight = None, item_default_bin = None\<rparr>],
     sales_orders := [demo_so 11 ''SO-1'', demo_so 12 ''SO-2''],
     so_lines := [demo_sol 111 11 2, demo_sol 121 12 3],
     pick_batches := [demo_batch], pick_tasks := [demo_task],
     batch_orders := [\<lparr>pbo_batch = 1, pbo_so = 11, pbo_tote = Some ''TOTE-1''\<rparr>,
                      \<lparr>pbo_batch = 1, pbo_so = 12, pbo_tote = Some ''TOTE-2''\<rparr>],
     wave_orders := [(1, 11), (1, 12)],
     breakdowns := [\<lparr>wb_id = 1, wb_task = 1, wb_so = 11, wb_sol = Some 111, wb_qty = 2, wb_picked = 0, wb_short = 0\<rparr>,
                    \<lparr>wb_id = 2, wb_task = 1, wb_so = 12, wb_sol = Some 121, wb_qty = 3, wb_picked = 0, wb_short = 0\<rparr>],
     seqs := (\<lambda>_. 200)\<rparr>"

lemmas demo_pick_defs = demo_wave_def demo_transfer_def empty_db_def demo_so_def demo_sol_def demo_task_def
  demo_batch_def

lemma demo_wave_breakdown: "map wb_id (task_breakdown 1 demo_wave) = [1, 2]"
  by (simp add: task_breakdown_def demo_pick_defs)

lemma demo_confirm: "\<exists>n d'. confirm_pick 1 ''123'' 5 ''picker'' demo_wave = Inr (n, d')"
  by (simp add: demo_pick_defs confirm_pick_def find_task_def find_item_def barcode_matches_def confirm_task_def
      find_batch_def set_task_def take_from_bin_def confirm_lines_def task_breakdown_def confirm_breakdown_def
      add_picked_def set_sol_def)

lemma demo_short: "\<exists>n d'. short_pick 1 3 ''picker'' demo_wave = Inr (n, d')"
  by (simp add: demo_pick_defs short_pick_def find_task_def find_item_def short_state_def
      find_batch_def set_task_def take_from_bin_def short_lines_def task_breakdown_def short_breakdown_def
      add_picked_def set_sol_def Let_def)


lemma demo_complete_ready:
  "\<exists>res d'. complete_batch 1 ''picker'' (Some ''x'')
     (demo_wave\<lparr>pick_tasks := [demo_task\<lparr>pt_state := TASK_PICKED, pt_picked := 5\<rparr>],
                so_lines := [demo_sol 111 11 2\<lparr>sol_picked := 2\<rparr>, demo_sol 121 12 3\<lparr>sol_picked := 3\<rparr>]\<rparr>) = Inr (res, d')"
  by (simp add: demo_pick_defs complete_batch_def find_batch_def pending_count_def silently_short_def
      batch_lines_def split_beta Let_def)

theorem complete_batch_iff_no_silent_shortfall_witness:
  "complete_batch 1 ''picker'' None demo_wave = Inl (PE_pending 1)
   \<and> \<not> (\<exists>a. complete_batch 1 ''picker'' None demo_wave = Inr a)"
proof -
  have "\<forall>l \<in> set (so_lines demo_wave). find_item (sol_item l) demo_wave \<noteq> None"
    by (simp add: demo_pick_defs find_item_def)
  from complete_batch_iff_no_silent_shortfall [OF this, of 1 "''picker''" None] show ?thesis
    by (simp add: demo_pick_defs complete_batch_def find_batch_def pending_count_def)
qed

theorem complete_batch_effect_witness:
  "\<exists>res d'. complete_batch 1 ''picker'' (Some ''x'')
     (demo_wave\<lparr>pick_tasks := [demo_task\<lparr>pt_state := TASK_PICKED, pt_picked := 5\<rparr>],
                so_lines := [demo_sol 111 11 2\<lparr>sol_picked := 2\<rparr>, demo_sol 121 12 3\<lparr>sol_picked := 3\<rparr>]\<rparr>) = Inr (res, d')
     \<and> map so_state (sales_orders d') = [SO_PICKED, SO_PICKED]"
proof -
  from demo_complete_ready obtain res d' where r: "complete_batch 1 ''picker'' (Some ''x'')
     (demo_wave\<lparr>pick_tasks := [demo_task\<lparr>pt_state := TASK_PICKED, pt_picked := 5\<rparr>],
                so_lines := [demo_sol 111 11 2\<lparr>sol_picked := 2\<rparr>, demo_sol 121 12 3\<lparr>sol_picked := 3\<rparr>]\<rparr>) = Inr (res, d')"
    by blast
  from complete_batch_effect [OF r] have "map so_state (sales_orders d') = [SO_PICKED, SO_PICKED]"
    by (auto simp: demo_pick_defs in_batch_def)
  with r show ?thesis by (intro exI [of _ res] exI [of _ d']) simp
qed

theorem short_pick_shares_in_order_witness:
  "\<exists>n d'. short_pick 1 3 ''picker'' demo_wave = Inr (n, d') \<and>
     map (\<lambda>b. (wb_picked b, wb_short b)) (task_breakdown 1 d') = [(2, 0), (1, 2)]
     \<and> map sol_picked (so_lines d') = [2, 1]"
proof -
  from demo_short obtain n d' where r: "short_pick 1 3 ''picker'' demo_wave = Inr (n, d')" by blast
  have "distinct (map wb_id (breakdowns demo_wave))" "\<forall>b \<in> set (breakdowns demo_wave). 0 \<le> wb_qty b"
    "(0::int) \<le> 3" "task_breakdown 1 demo_wave \<noteq> []"
    by (simp_all add: demo_pick_defs task_breakdown_def)
  from short_pick_shares_in_order [OF r this] have
    "task_breakdown 1 d' = map2 (\<lambda>b g. b\<lparr>wb_picked := g, wb_short := wb_qty b - g\<rparr>)
        (breakdowns demo_wave) [2, 1]"
    "so_lines d' = map (\<lambda>l. l\<lparr>sol_picked := sol_picked l
            + total (\<lambda>b. wb_sol b = Some (sol_id l)) wb_picked (task_breakdown 1 d')\<rparr>) (so_lines demo_wave)"
    by (simp_all add: Let_def demo_pick_defs task_breakdown_def)
  then show ?thesis using r by (simp add: demo_pick_defs)
qed

theorem confirm_pick_exact_witness:
  "\<exists>n d'. confirm_pick 1 ''123'' 5 ''picker'' demo_wave = Inr (n, d')
     \<and> map on_hand (inventory d') = [5] \<and> map allocated (inventory d') = [0]
     \<and> map sol_picked (so_lines d') = [2, 3]"
proof -
  from demo_confirm obtain n d' where r: "confirm_pick 1 ''123'' 5 ''picker'' demo_wave = Inr (n, d')" by blast
  let ?r = "hd (inventory demo_wave)"
  have "find_task 1 demo_wave = Some demo_task" "pt_to demo_task = None"
    "distinct (map pt_id (pick_tasks demo_wave))" "?r \<in> set (inventory demo_wave)"
    "distinct (map inv_id (inventory demo_wave))" "sound_row ?r" "pt_qty demo_task \<le> allocated ?r"
    "\<forall>x \<in> set (inventory demo_wave). inv_item x = pt_item demo_task \<and> inv_bin x = pt_bin demo_task
       \<longleftrightarrow> inv_id x = inv_id ?r"
    by (simp_all add: demo_pick_defs find_task_def sound_row_def)
  from confirm_pick_exact [OF r this] have
    "map on_hand (inventory d') = [5] \<and> map allocated (inventory d') = [0] \<and> map sol_picked (so_lines d') = [2, 3]"
    by (simp add: demo_pick_defs task_breakdown_def)
  with r show ?thesis by (intro exI [of _ n] exI [of _ d']) simp
qed

text \<open>
  A wave task confirmed for less than its quantity still credits every contributor in
  full: two units leave the bin, five are booked as picked.
\<close>

lemma partial_wave_confirm_credits_all:
  "\<exists>n d'. confirm_pick 1 ''123'' 2 ''picker'' demo_wave = Inr (n, d')
     \<and> map on_hand (inventory d') = [8] \<and> map sol_picked (so_lines d') = [2, 3]"
  by (simp add: demo_pick_defs confirm_pick_def find_task_def find_item_def barcode_matches_def confirm_task_def
      find_batch_def set_task_def take_from_bin_def confirm_lines_def task_breakdown_def confirm_breakdown_def
      add_picked_def set_sol_def confirm_audit_def)

text \<open>A short pick never succeeds on a transfer task: its audit row has no order to name.\<close>

lemma transfer_task_never_short:
  assumes "find_task tid d = Some t" "pt_so t = None"
  shows "\<exists>e. short_pick tid q user d = Inl e"
  using assms by (auto simp: short_pick_def Let_def split: option.splits)

text \<open>
  Completing looks at the tasks and lines only, never at the batch's own state, so a
  completed batch can be completed again and its orders fall back to PICKED.
\<close>

lemma completed_batch_completes_again:
  "\<exists>res d'. complete_batch 1 ''picker'' (Some ''y'')
     (demo_wave\<lparr>pick_tasks := [demo_task\<lparr>pt_state := TASK_PICKED, pt_picked := 5\<rparr>],
        pick_batches := [demo_batch\<lparr>pb_state := BATCH_COMPLETED\<rparr>],
        sales_orders := [demo_so 11 ''SO-1''\<lparr>so_state := SO_SHIPPED\<rparr>, demo_so 12 ''SO-2''\<lparr>so_state := SO_SHIPPED\<rparr>],
        so_lines := [demo_sol 111 11 2\<lparr>sol_picked := 2\<rparr>, demo_sol 121 12 3\<lparr>sol_picked := 3\<rparr>]\<rparr>) = Inr (res, d')
     \<and> map so_state (sales_orders d') = [SO_PICKED, SO_PICKED]"
  by (simp add: demo_pick_defs complete_batch_def find_batch_def pending_count_def silently_short_def
      batch_lines_def split_beta Let_def complete_state_effect in_batch_def)

text \<open>
  Reverting a wave batch unwinds each task on its own order line only, the first
  contributor's: the others keep their allocation.
\<close>

lemma wave_revert_misses_contributors:
  "\<exists>n d'. full_revert_batch 1 ''picker'' demo_wave = Inr (n, d')
     \<and> map allocated (inventory d') = [0] \<and> map sol_alloc (so_lines d') = [0, 3]"
  by (simp add: demo_pick_defs full_revert_batch_def find_batch_def revert_task_def revertible_def
      revert_stock_def revert_line_def free_bin_def set_sol_def set_task_def Let_def)

end
