(* ===== verification/PickBatches.thy ===== *)
theory PickBatches
  imports Picking
begin

text \<open>
  \<^verbatim>\<open>api/services/picking_service.py\<close>, the side that creates batches: the coverage
  plan, the normalisation of standing reservations, \<open>create_pick_batch\<close> (one task
  per order line and bin) and \<open>wave_create\<close> (one combined task per item and bin with
  a breakdown over orders). \<open>stamp\<close> is the \<open>%Y%m%d-%H%M%S-%f\<close> text of the clock.
\<close>

section \<open>Errors and the coverage plan\<close>

record unpickable_line =
  ul_sku :: "string option"
  ul_name :: "string option"
  ul_ordered :: int
  ul_available :: int

datatype create_error =
  CE_so_not_found string
| CE_so_missing int
| CE_so_status string so_status
| CE_in_batch string int
| CE_other_warehouse string
| CE_no_items string
| CE_duplicates
| CE_nothing_to_pick
| CE_coverage "(int \<times> (string \<times> unpickable_line) list) list"
| CE_internal

record contrib =
  cb_so :: int
  cb_number :: string
  cb_sol :: int
  cb_needed :: int

definition pick_sequence :: "int \<Rightarrow> db \<Rightarrow> int" where
  "pick_sequence b d = (case find_bin b d of None \<Rightarrow> 0 | Some n \<Rightarrow> bin_sequence n)"

definition pickable_at :: "int \<Rightarrow> db \<Rightarrow> bool" where
  "pickable_at b d \<longleftrightarrow> (case find_bin b d of None \<Rightarrow> False | Some n \<Rightarrow> pickable_bin n)"

definition avail :: "inv_row \<Rightarrow> int" where
  "avail r = on_hand r - allocated r"

text \<open>The join with the bin is by its primary key.\<close>

definition pickable_rows :: "int \<Rightarrow> int \<Rightarrow> db \<Rightarrow> inv_row list" where
  "pickable_rows item wh d =
     sort_key (\<lambda>r. (pick_sequence (inv_bin r) d, inv_updated r))
       (filter (\<lambda>r. inv_item r = item \<and> inv_wh r = wh \<and> 0 < avail r \<and> pickable_at (inv_bin r) d) (inventory d))"

definition total_available :: "inv_row list \<Rightarrow> int" where
  "total_available rs = sum_list (map avail rs)"

text \<open>First in, first out by order and line: a contributor that does not fit is skipped
  and reported with what is left, later ones may still fit.\<close>

fun plan_walk :: "int \<Rightarrow> int \<Rightarrow> contrib list \<Rightarrow> (contrib \<times> int) list" where
  "plan_walk avail_total cum [] = []"
| "plan_walk avail_total cum (c # cs) =
     (if cum + cb_needed c \<le> avail_total then plan_walk avail_total (cum + cb_needed c) cs
      else (c, max 0 (avail_total - cum)) # plan_walk avail_total cum cs)"

definition plan_item :: "int \<Rightarrow> db \<Rightarrow> int \<times> contrib list \<Rightarrow> (contrib \<times> int \<times> item_row option) list" where
  "plan_item wh d = (\<lambda>(item, cs).
     map (\<lambda>(c, a). (c, a, find_item item d))
       (plan_walk (total_available (pickable_rows item wh d)) 0 (sort_key (\<lambda>c. (cb_so c, cb_sol c)) cs)))"

definition unpickable_entry :: "contrib \<times> int \<times> item_row option \<Rightarrow> string \<times> unpickable_line" where
  "unpickable_entry = (\<lambda>(c, a, i).
     (cb_number c, \<lparr>ul_sku = map_option item_sku i, ul_name = map_option item_name i,
                    ul_ordered = cb_needed c, ul_available = a\<rparr>))"

definition plan_coverage ::
    "(int \<times> contrib list) list \<Rightarrow> int \<Rightarrow> db \<Rightarrow> (int \<times> (string \<times> unpickable_line) list) list" where
  "plan_coverage by_item wh d =
     fold (\<lambda>x. add_entry (cb_so (fst x)) (unpickable_entry x)) (concat (map (plan_item wh d) by_item)) []"

section \<open>Normalising standing reservations\<close>

definition norm_row :: "inv_row \<Rightarrow> int \<Rightarrow> db \<Rightarrow> db" where
  "norm_row r q d =
     d\<lparr>inventory := upd (\<lambda>x. inv_id x = inv_id r)
        (\<lambda>x. x\<lparr>allocated := allocated x - q, inv_updated := now d\<rparr>) (inventory d)\<rparr>"

fun norm_rows :: "int \<Rightarrow> inv_row list \<Rightarrow> db \<Rightarrow> int \<times> db" where
  "norm_rows rem [] d = (rem, d)"
| "norm_rows rem (r # rs) d =
     (if rem \<le> 0 then (rem, d)
      else let dec = min rem (allocated r) in norm_rows (rem - dec) rs (norm_row r dec d))"

definition norm_line :: "int \<Rightarrow> sol_row \<Rightarrow> db \<Rightarrow> db" where
  "norm_line wh l d =
     set_sol (Some (sol_id l)) (\<lambda>x. x\<lparr>sol_alloc := sol_picked x\<rparr>)
       (snd (norm_rows (sol_alloc l - sol_picked l)
               (item_rows (sol_item l) wh (\<lambda>r. 0 < allocated r) d) d))"

definition normalize_so_reservations :: "int \<Rightarrow> int \<Rightarrow> db \<Rightarrow> db" where
  "normalize_so_reservations so wh d =
     fold (norm_line wh) (filter (\<lambda>l. sol_so l = so \<and> sol_picked l < sol_alloc l) (so_lines d)) d"

section \<open>Earlier batches of the picker\<close>

definition revert_or_keep :: "string \<Rightarrow> int \<Rightarrow> db \<Rightarrow> db" where
  "revert_or_keep user b d = (case full_revert_batch b user d of Inl _ \<Rightarrow> d | Inr (_, d') \<Rightarrow> d')"

definition cancel_prior_user_batches :: "string \<Rightarrow> int \<Rightarrow> db \<Rightarrow> int list \<times> db" where
  "cancel_prior_user_batches user wh d =
     (let bs = map pb_id (sort_key pb_id
                 (filter (\<lambda>b. pb_user b = user \<and> pb_wh b = wh \<and> batch_active b) (pick_batches d)))
      in (bs, fold (revert_or_keep user) bs d))"

definition active_batch_by_so :: "int list \<Rightarrow> db \<Rightarrow> int \<Rightarrow> int option" where
  "active_batch_by_so ids d so =
     (if so \<in> set ids
      then (case rev [pb_id b. p \<leftarrow> batch_orders d, pbo_so p = so, b \<leftarrow> pick_batches d,
                        pb_id b = pbo_batch p \<and> batch_active b] of [] \<Rightarrow> None | b # _ \<Rightarrow> Some b)
      else None)"

definition progressed :: "int \<Rightarrow> db \<Rightarrow> bool" where
  "progressed b d \<longleftrightarrow>
     (\<exists>t \<in> set (pick_tasks d). pt_batch t = b \<and> (pt_state t \<noteq> TASK_PENDING \<or> 0 < pt_picked t))"

text \<open>True with the reverted database, or False and nothing changed.\<close>

definition cancel_stale_self_batch :: "int \<Rightarrow> string \<Rightarrow> db \<Rightarrow> bool \<times> db" where
  "cancel_stale_self_batch b user d =
     (case find_batch b d of
        None \<Rightarrow> (False, d)
      | Some r \<Rightarrow>
          if pb_user r \<noteq> user \<or> pb_state r \<noteq> BATCH_OPEN then (False, d)
          else if progressed b d then (False, d)
          else (True, revert_or_keep user b d))"

section \<open>Creating a batch\<close>

fun resolve_orders :: "int \<Rightarrow> int list \<Rightarrow> db \<Rightarrow> string list \<Rightarrow> create_error + so_row list" where
  "resolve_orders wh excl d [] = Inr []"
| "resolve_orders wh excl d (ident # idents) =
     (case List.find (\<lambda>x. (so_number x = ident \<or> so_barcode x = Some ident) \<and> so_wh x = wh) (sales_orders d) of
        None \<Rightarrow> Inl (CE_so_not_found ident)
      | Some so \<Rightarrow>
          if so_id so \<in> set excl then resolve_orders wh excl d idents
          else if so_state so \<noteq> SO_OPEN then Inl (CE_so_status ident (so_state so))
          else
            (case active_batch_of (so_id so) d of
               Some b \<Rightarrow> Inl (CE_in_batch ident b)
             | None \<Rightarrow>
                 (case resolve_orders wh excl d idents of
                    Inl e \<Rightarrow> Inl e | Inr sos \<Rightarrow> Inr (so # sos))))"

definition open_lines :: "int \<Rightarrow> db \<Rightarrow> sol_row list" where
  "open_lines so d = filter (\<lambda>l. sol_so l = so \<and> sol_alloc l < sol_ordered l) (so_lines d)"

definition line_contrib :: "so_row \<Rightarrow> sol_row \<Rightarrow> contrib" where
  "line_contrib so l = \<lparr>cb_so = so_id so, cb_number = so_number so, cb_sol = sol_id l,
     cb_needed = sol_ordered l - sol_alloc l\<rparr>"

definition coverage_map :: "so_row list \<Rightarrow> db \<Rightarrow> (int \<times> contrib list) list" where
  "coverage_map sos d =
     fold (\<lambda>(so, l). add_entry (sol_item l) (line_contrib so l))
       [(so, l). so \<leftarrow> sos, l \<leftarrow> open_lines (so_id so) d] []"

fun show_nat :: "nat \<Rightarrow> string" where
  "show_nat n = (if n < 10 then [char_of (48 + n)] else show_nat (n div 10) @ [char_of (48 + n mod 10)])"

declare show_nat.simps [simp del]

definition insert_batch :: "string \<Rightarrow> int \<Rightarrow> string \<Rightarrow> db \<Rightarrow> int \<times> db" where
  "insert_batch number wh user d =
     (let (b, d1) = nextval Seq_batch d
      in (b, d1\<lparr>pick_batches := pick_batches d1 @
           [\<lparr>pb_id = b, pb_number = number, pb_wh = wh, pb_state = BATCH_OPEN, pb_user = user,
             pb_orders = 0, pb_items = 0, pb_completed = None\<rparr>]\<rparr>))"

text \<open>Totes are numbered from 1; \<open>UNIQUE(batch_id, so_id)\<close> makes a repeated order an
  uncaught integrity error.\<close>

definition totes :: "so_row list \<Rightarrow> (so_row \<times> string) list" where
  "totes sos = zip sos (map (\<lambda>n. ''TOTE-'' @ show_nat n) [1..<Suc (length sos)])"

definition insert_batch_orders :: "int \<Rightarrow> so_row list \<Rightarrow> db \<Rightarrow> db" where
  "insert_batch_orders b sos d =
     d\<lparr>batch_orders := batch_orders d @
        map (\<lambda>(so, tote). \<lparr>pbo_batch = b, pbo_so = so_id so, pbo_tote = Some tote\<rparr>) (totes sos)\<rparr>"

text \<open>One row's share of a line: reserve it, book it on the line, insert its task.\<close>

definition alloc_row :: "int \<Rightarrow> sol_row \<Rightarrow> string \<Rightarrow> inv_row \<Rightarrow> int \<Rightarrow> db \<Rightarrow> db" where
  "alloc_row b l tote r q d =
     (let d1 = reserve_row r q d;
          d2 = set_sol (Some (sol_id l)) (\<lambda>x. x\<lparr>sol_alloc := sol_alloc x + q\<rparr>) d1;
          (i, d3) = nextval Seq_task d2
      in d3\<lparr>pick_tasks := pick_tasks d3 @
           [\<lparr>pt_id = i, pt_batch = b, pt_so = Some (sol_so l), pt_sol = Some (sol_id l), pt_to = None,
             pt_tol = None, pt_item = sol_item l, pt_bin = inv_bin r, pt_qty = q, pt_picked = 0,
             pt_sequence = pick_sequence (inv_bin r) d, pt_tote = Some tote, pt_state = TASK_PENDING,
             pt_by = None, pt_at = None, pt_confirmed = False\<rparr>]\<rparr>)"

fun alloc_rows :: "int \<Rightarrow> sol_row \<Rightarrow> string \<Rightarrow> int \<Rightarrow> inv_row list \<Rightarrow> db \<Rightarrow> int \<times> db" where
  "alloc_rows b l tote rem [] d = (rem, d)"
| "alloc_rows b l tote rem (r # rs) d =
     (if rem \<le> 0 then (rem, d)
      else let take = min rem (avail r) in alloc_rows b l tote (rem - take) rs (alloc_row b l tote r take d))"

text \<open>\<open>s = (total_items, state)\<close>: what a line takes is its need less what is left over.\<close>

definition alloc_line :: "int \<Rightarrow> int \<Rightarrow> string \<Rightarrow> sol_row \<Rightarrow> int \<times> db \<Rightarrow> int \<times> db" where
  "alloc_line b wh tote l s =
     (let needed = sol_ordered l - sol_alloc l in
      if needed \<le> 0 then s
      else
        let (rem, d) = alloc_rows b l tote needed (pickable_rows (sol_item l) wh (snd s)) (snd s)
        in (fst s + (needed - rem), d))"

definition alloc_order :: "int \<Rightarrow> int \<Rightarrow> so_row \<times> string \<Rightarrow> int \<times> db \<Rightarrow> int \<times> db" where
  "alloc_order b wh = (\<lambda>(so, tote) s. fold (alloc_line b wh tote) (open_lines (so_id so) (snd s)) s)"

definition set_batch_totals :: "int \<Rightarrow> int \<Rightarrow> int \<Rightarrow> db \<Rightarrow> db" where
  "set_batch_totals b n m d =
     d\<lparr>pick_batches := upd (\<lambda>x. pb_id x = b) (\<lambda>x. x\<lparr>pb_orders := n, pb_items := m\<rparr>) (pick_batches d)\<rparr>"

definition normalize_orders :: "int \<Rightarrow> so_row list \<Rightarrow> db \<Rightarrow> db" where
  "normalize_orders wh sos d = fold (\<lambda>so. normalize_so_reservations (so_id so) wh) sos d"

text \<open>Steps 2 to 6: the batch over orders whose coverage has been checked.\<close>

definition build_batch :: "string \<Rightarrow> int \<Rightarrow> string \<Rightarrow> so_row list \<Rightarrow> db \<Rightarrow> (int \<times> int) \<times> db" where
  "build_batch number wh user sos d =
     (let (b, d1) = insert_batch number wh user d;
          d2 = insert_batch_orders b sos d1;
          (items, d3) = fold (alloc_order b wh) (totes sos) (0, d2)
      in ((b, items), set_batch_totals b (int (length sos)) items d3))"

text \<open>The result: the batch id, its total items and its task list.\<close>

definition create_pick_batch ::
    "string list \<Rightarrow> int \<Rightarrow> string \<Rightarrow> int list \<Rightarrow> string \<Rightarrow> db
       \<Rightarrow> create_error + ((int \<times> int \<times> task_row list) \<times> db)" where
  "create_pick_batch idents wh user excl stamp d =
     (let d0 = snd (cancel_prior_user_batches user wh d) in
      case resolve_orders wh excl d0 idents of
        Inl e \<Rightarrow> Inl e
      | Inr sos \<Rightarrow>
          if sos = [] then Inl CE_nothing_to_pick
          else
            let d1 = normalize_orders wh sos d0;
                unpickable = plan_coverage (coverage_map sos d1) wh d1
            in if unpickable \<noteq> [] then Inl (CE_coverage unpickable)
               else if \<not> distinct (map so_id sos) then Inl CE_internal
               else
                 let ((b, n), d2) = build_batch (''BATCH-'' @ stamp) wh user sos d1
                 in Inr ((b, n, tasks_for_batch b d2), d2))"

section \<open>Creating a wave\<close>

fun check_wave :: "int \<Rightarrow> (int \<Rightarrow> int option) \<Rightarrow> db \<Rightarrow> int list \<Rightarrow> create_error + so_row list" where
  "check_wave wh active d [] = Inr []"
| "check_wave wh active d (i # ids) =
     (case find_so i d of
        None \<Rightarrow> Inl (CE_so_missing i)
      | Some so \<Rightarrow>
          if so_wh so \<noteq> wh then Inl (CE_other_warehouse (so_number so))
          else if so_state so \<noteq> SO_OPEN then Inl (CE_so_status (so_number so) (so_state so))
          else
            (case active i of
               Some b \<Rightarrow> Inl (CE_in_batch (so_number so) b)
             | None \<Rightarrow>
                 if \<not> (\<exists>l \<in> set (so_lines d). sol_so l = i) then Inl (CE_no_items (so_number so))
                 else (case check_wave wh active d ids of Inl e \<Rightarrow> Inl e | Inr sos \<Rightarrow> Inr (so # sos))))"

definition insert_breakdown :: "int \<Rightarrow> contrib \<Rightarrow> int \<Rightarrow> db \<Rightarrow> db" where
  "insert_breakdown t c q d =
     (let (i, d1) = nextval Seq_breakdown d
      in d1\<lparr>breakdowns := breakdowns d1 @
           [\<lparr>wb_id = i, wb_task = t, wb_so = cb_so c, wb_sol = Some (cb_sol c), wb_qty = q,
             wb_picked = 0, wb_short = 0\<rparr>]\<rparr>)"

text \<open>Distributing one task over the contributors still in need: \<open>s\<close> is the database,
  the result the contributors with their remaining needs.\<close>

fun spread :: "int \<Rightarrow> int \<Rightarrow> contrib list \<Rightarrow> db \<Rightarrow> contrib list \<times> db" where
  "spread t rem [] d = ([], d)"
| "spread t rem (c # cs) d =
     (if rem \<le> 0 then (c # cs, d)
      else let q = min rem (cb_needed c) in
           if q \<le> 0 then let (cs', d') = spread t rem cs d in (c # cs', d')
           else
             let d1 = set_sol (Some (cb_sol c)) (\<lambda>x. x\<lparr>sol_alloc := sol_alloc x + q\<rparr>)
                        (insert_breakdown t c q d);
                 (cs', d') = spread t (rem - q) cs d1
             in (c\<lparr>cb_needed := cb_needed c - q\<rparr> # cs', d'))"

definition wave_task :: "int \<Rightarrow> int \<Rightarrow> contrib \<Rightarrow> inv_row \<Rightarrow> int \<Rightarrow> db \<Rightarrow> int \<times> db" where
  "wave_task b item c r q d =
     (let (i, d1) = nextval Seq_task d
      in (i, d1\<lparr>pick_tasks := pick_tasks d1 @
           [\<lparr>pt_id = i, pt_batch = b, pt_so = Some (cb_so c), pt_sol = Some (cb_sol c), pt_to = None,
             pt_tol = None, pt_item = item, pt_bin = inv_bin r, pt_qty = q, pt_picked = 0,
             pt_sequence = pick_sequence (inv_bin r) d, pt_tote = Some ''WAVE'', pt_state = TASK_PENDING,
             pt_by = None, pt_at = None, pt_confirmed = False\<rparr>]\<rparr>))"

text \<open>One bin of a wave item: reserve, insert the combined task on the first
  contributor, spread it. \<open>s = (contributors, state)\<close>.\<close>

definition wave_row :: "int \<Rightarrow> int \<Rightarrow> inv_row \<Rightarrow> int \<Rightarrow> contrib list \<times> db \<Rightarrow> contrib list \<times> db" where
  "wave_row b item r q s =
     (let d1 = reserve_row r q (snd s);
          (t, d2) = wave_task b item (hd (fst s)) r q d1
      in spread t q (fst s) d2)"

fun wave_rows :: "int \<Rightarrow> int \<Rightarrow> int \<Rightarrow> inv_row list \<Rightarrow> contrib list \<times> db \<Rightarrow> int \<times> contrib list \<times> db" where
  "wave_rows b item rem [] s = (rem, s)"
| "wave_rows b item rem (r # rs) s =
     (if rem \<le> 0 then (rem, s)
      else let take = min rem (avail r) in wave_rows b item (rem - take) rs (wave_row b item r take s))"

text \<open>An item without contributors never enters the map. \<open>rows\<close> is the snapshot of
  inventory rows the coverage plan read; the state is (total units, database).\<close>

definition wave_item :: "int \<Rightarrow> (int \<Rightarrow> inv_row list) \<Rightarrow> int \<times> contrib list \<Rightarrow> int \<times> db \<Rightarrow> int \<times> db" where
  "wave_item b rows = (\<lambda>(item, cs) s.
     let need = sum_list (map cb_needed cs);
         (rem, cs', d) = wave_rows b item need (rows item) (cs, snd s)
     in (fst s + (need - rem), d))"

definition wave_audit :: "int \<Rightarrow> string \<Rightarrow> int \<Rightarrow> string \<Rightarrow> int \<Rightarrow> int \<Rightarrow> int \<Rightarrow> db \<Rightarrow> db" where
  "wave_audit b number wh user n picks units =
     audit ''PICK'' ''BATCH'' b user wh
       (JObj [(''batch_number'', JStr number), (''type'', JStr ''WAVE_CREATE''), (''so_count'', JInt n),
              (''total_picks'', JInt picks), (''total_units'', JInt units)])"

record wave_result =
  wr_batch :: int
  wr_picks :: int
  wr_units :: int
  wr_lines :: "(int \<times> string \<times> int) list"
  wr_warnings :: "(int \<times> int \<times> int) list"
  wr_first :: "(task_row \<times> (string \<times> int) list \<times> int \<times> int) option"

text \<open>The line counts of the response count contributions, and a warning is due for an
  item whose rows hold less than its contributors need.\<close>

definition wave_counts :: "so_row list \<Rightarrow> (int \<times> contrib list) list \<Rightarrow> (int \<times> string \<times> int) list" where
  "wave_counts sos m =
     map (\<lambda>so. (so_id so, so_number so,
                int (length (filter (\<lambda>c. cb_so c = so_id so) (concat (map snd m)))))) sos"

definition wave_warnings :: "(int \<Rightarrow> inv_row list) \<Rightarrow> (int \<times> contrib list) list \<Rightarrow> (int \<times> int \<times> int) list" where
  "wave_warnings rows m =
     [(item, sum_list (map cb_needed cs), total_available (rows item)). (item, cs) \<leftarrow> m,
        total_available (rows item) < sum_list (map cb_needed cs)]"

definition insert_wave_orders :: "int \<Rightarrow> so_row list \<Rightarrow> db \<Rightarrow> db" where
  "insert_wave_orders b sos d = d\<lparr>wave_orders := wave_orders d @ map (\<lambda>so. (b, so_id so)) sos\<rparr>"

definition build_wave ::
    "string \<Rightarrow> int \<Rightarrow> string \<Rightarrow> so_row list \<Rightarrow> (int \<times> contrib list) list \<Rightarrow> db \<Rightarrow> wave_result \<times> db" where
  "build_wave number wh user sos m d =
     (let rows = (\<lambda>item. pickable_rows item wh d);
          (b, d1) = insert_batch number wh user d;
          d2 = insert_wave_orders b sos (insert_batch_orders b sos d1);
          (units, d3) = fold (wave_item b rows) m (0, d2);
          picks = int (length (filter (\<lambda>t. pt_batch t = b) (pick_tasks d3)));
          d4 = set_batch_totals b (int (length sos)) units d3;
          d5 = wave_audit b number wh user (int (length sos)) picks units d4
      in (\<lparr>wr_batch = b, wr_picks = picks, wr_units = units, wr_lines = wave_counts sos m,
           wr_warnings = wave_warnings rows m, wr_first = get_next_task b d5\<rparr>, d5))"

text \<open>The second look at the active batches is made on the same database here, because
  transactions are serialised; it repeats the first.\<close>

definition recheck_active :: "int list \<Rightarrow> so_row list \<Rightarrow> db \<Rightarrow> create_error option" where
  "recheck_active ids sos d =
     (case [CE_in_batch (so_number so) b. so \<leftarrow> sos,
              b \<leftarrow> (case active_batch_by_so ids d (so_id so) of None \<Rightarrow> [] | Some b \<Rightarrow> [b])] of
        [] \<Rightarrow> None | e # _ \<Rightarrow> Some e)"

definition wave_create ::
    "int list \<Rightarrow> int \<Rightarrow> string \<Rightarrow> int list \<Rightarrow> string \<Rightarrow> db \<Rightarrow> create_error + (wave_result \<times> db)" where
  "wave_create so_ids wh user excl stamp d =
     (if \<not> distinct so_ids then Inl CE_duplicates
      else
        let ids = filter (\<lambda>i. i \<notin> set excl) so_ids in
        if ids = [] then Inl CE_nothing_to_pick
        else
          let d0 = snd (cancel_prior_user_batches user wh d) in
          case check_wave wh (active_batch_by_so ids d0) d0 ids of
            Inl e \<Rightarrow> Inl e
          | Inr sos \<Rightarrow>
              let d1 = normalize_orders wh sos d0;
                  m = coverage_map sos d1;
                  unpickable = plan_coverage m wh d1
              in if unpickable \<noteq> [] then Inl (CE_coverage unpickable)
                 else (case recheck_active ids sos d1 of
                         Some e \<Rightarrow> Inl e
                       | None \<Rightarrow> Inr (build_wave (''WAVE-'' @ stamp) wh user sos m d1)))"

text \<open>\<open>POST /wave-create\<close>: one retry after a collision with the picker's own stranded
  batch, whose revert is committed whatever the retry answers. The deadlock retry has
  no counterpart in a serialised history.\<close>

definition keep_on_error :: "db \<Rightarrow> 'e + ('a \<times> db) \<Rightarrow> ('e + 'a) \<times> db" where
  "keep_on_error d r = (case r of Inl e \<Rightarrow> (Inl e, d) | Inr (a, d') \<Rightarrow> (Inr a, d'))"

definition create_wave ::
    "session \<Rightarrow> int list \<Rightarrow> int \<Rightarrow> int list \<Rightarrow> string \<times> string \<Rightarrow> db \<Rightarrow> (create_error + wave_result) \<times> db" where
  "create_wave s so_ids wh excl stamps d =
     (case wave_create so_ids wh (s_user s) excl (fst stamps) d of
        Inl (CE_in_batch n b) \<Rightarrow>
          (let (ok, d1) = cancel_stale_self_batch b (s_user s) d in
           if ok then keep_on_error d1 (wave_create so_ids wh (s_user s) excl (snd stamps) d1)
           else (Inl (CE_in_batch n b), d))
      | r \<Rightarrow> keep_on_error d r)"

end
