(* ===== verification/Allocation.thy ===== *)
theory Allocation
  imports PickBatches
begin

text \<open>
  What creating a batch or a wave does to the stock: the coverage plan accepts exactly
  the demands the pickable stock covers, normalisation frees what was reserved beyond
  the picks, and the allocation loops reserve exactly the demand, line by line.
\<close>

section \<open>The plan\<close>

lemma plan_walk_Nil:
  assumes "\<forall>c \<in> set cs. 0 \<le> cb_needed c" "cum \<le> a"
  shows "plan_walk a cum cs = [] \<longleftrightarrow> cum + sum_list (map cb_needed cs) \<le> a"
  using assms
proof (induction cs arbitrary: cum)
  case (Cons c cs)
  have "0 \<le> sum_list (map cb_needed cs)"
    using Cons.prems(1) by (intro sum_list_nonneg) auto
  with Cons show ?case by auto
qed simp

lemma total_available_nonneg: "0 \<le> total_available (pickable_rows item wh d)"
  unfolding total_available_def by (intro sum_list_nonneg) (auto simp: pickable_rows_def)

lemma plan_item_Nil:
  assumes "\<forall>c \<in> set cs. 0 \<le> cb_needed c"
  shows "plan_item wh d (item, cs) = []
    \<longleftrightarrow> sum_list (map cb_needed cs) \<le> total_available (pickable_rows item wh d)"
  using assms plan_walk_Nil [of "sort_key (\<lambda>c. (cb_so c, cb_sol c)) cs" 0] total_available_nonneg
  by (simp add: plan_item_def sum_list_sort_key)

lemma fold_add_entry_Nil: "fold (\<lambda>x. add_entry (k x) (f x)) xs m = [] \<longleftrightarrow> xs = [] \<and> m = []"
proof (induction xs arbitrary: m)
  case (Cons x xs)
  have "add_entry (k x) (f x) m \<noteq> []" by (cases m) (auto split: if_splits)
  with Cons show ?case by simp
qed simp

text \<open>
  Claim C40. The coverage check refuses exactly what cannot be picked: it reports no
  unpickable order if and only if, for every item, the needs of all contributors
  together are at most the unreserved quantity in pickable bins of the warehouse.
\<close>

theorem plan_coverage_exact:
  assumes "\<forall>(item, cs) \<in> set m. \<forall>c \<in> set cs. 0 \<le> cb_needed c"
  shows "plan_coverage m wh d = [] \<longleftrightarrow>
    (\<forall>(item, cs) \<in> set m. sum_list (map cb_needed cs)
       \<le> total (\<lambda>r. inv_item r = item \<and> inv_wh r = wh \<and> 0 < avail r \<and> pickable_at (inv_bin r) d) avail (inventory d))"
proof -
  have "total_available (pickable_rows item wh d)
      = total (\<lambda>r. inv_item r = item \<and> inv_wh r = wh \<and> 0 < avail r \<and> pickable_at (inv_bin r) d) avail (inventory d)"
    for item by (simp add: total_available_def pickable_rows_def sum_list_sort_key total_def)
  moreover have "plan_coverage m wh d = [] \<longleftrightarrow> (\<forall>x \<in> set m. plan_item wh d x = [])"
    by (simp add: plan_coverage_def fold_add_entry_Nil)
  moreover have "(\<forall>x \<in> set m. plan_item wh d x = [])
      \<longleftrightarrow> (\<forall>(item, cs) \<in> set m. sum_list (map cb_needed cs) \<le> total_available (pickable_rows item wh d))"
    by (rule ball_cong [OF refl]) (use assms plan_item_Nil in fastforce)
  ultimately show ?thesis by simp
qed

section \<open>Walks that reserve and free\<close>

interpretation norming: inv_walk allocated norm_row norm_rows
    "\<lambda>q s x. x\<lparr>allocated := allocated x - q, inv_updated := now s\<rparr>" 0 "-1"
  by unfold_locales (auto simp: norm_row_def Let_def inv_key_def sound_row_def)

lemma alloc_row_frame [simp]:
  "inventory (alloc_row b l tote r q d) = upd (\<lambda>x. inv_id x = inv_id r) (\<lambda>x. x\<lparr>allocated := allocated x + q\<rparr>) (inventory d)"
  "seqs (alloc_row b l tote r q d) = (seqs d)(Seq_task := seqs d Seq_task + 1)"
  "bins (alloc_row b l tote r q d) = bins d"
  "so_lines (alloc_row b l tote r q d)
     = upd (\<lambda>x. sol_id x = sol_id l) (\<lambda>x. x\<lparr>sol_alloc := sol_alloc x + q\<rparr>) (so_lines d)"
  "batch_orders (alloc_row b l tote r q d) = batch_orders d"
  "breakdowns (alloc_row b l tote r q d) = breakdowns d"
  by (simp_all add: alloc_row_def reserve_row_def set_sol_def nextval_def)

interpretation allocating: stock_walk avail "alloc_row b l tote" "alloc_rows b l tote" "\<lambda>d. d"
    "\<lambda>q s x. x\<lparr>allocated := allocated x + q\<rparr>" 0 1 for b l tote
  by unfold_locales (auto simp: Let_def inv_key_def sound_row_def avail_def)


section \<open>What a list of order lines takes\<close>

definition need :: "sol_row \<Rightarrow> int" where
  "need l = sol_ordered l - sol_alloc l"

definition demand :: "sol_row list \<Rightarrow> int \<Rightarrow> int" where
  "demand ls item = total (\<lambda>l. sol_item l = item) need ls"

definition due :: "sol_row list \<Rightarrow> int \<Rightarrow> int" where
  "due ls i = total (\<lambda>l. sol_id l = i) need ls"

lemma demand_simps [simp]:
  "demand [] i = 0" "demand (l # ls) i = (if sol_item l = i then need l else 0) + demand ls i"
  "demand (ks @ ls) i = demand ks i + demand ls i"
  by (simp_all add: demand_def)

lemma due_simps [simp]:
  "due [] i = 0" "due (l # ls) i = (if sol_id l = i then need l else 0) + due ls i"
  "due (ks @ ls) i = due ks i + due ls i"
  by (simp_all add: due_def)

definition free_pick :: "db \<Rightarrow> int \<Rightarrow> int \<Rightarrow> int" where
  "free_pick d item wh =
     total (\<lambda>r. inv_item r = item \<and> inv_wh r = wh \<and> pickable_at (inv_bin r) d) avail (inventory d)"

definition line_task :: "int \<Rightarrow> sol_row \<Rightarrow> task_row \<Rightarrow> bool" where
  "line_task b l t \<longleftrightarrow> pt_batch t = b \<and> pt_so t = Some (sol_so l) \<and> pt_sol t = Some (sol_id l) \<and> pt_to t = None
     \<and> pt_item t = sol_item l \<and> pt_state t = TASK_PENDING \<and> pt_picked t = 0 \<and> 0 < pt_qty t"

text \<open>What is reserved of an item in one bin.\<close>

definition reserved_in :: "db \<Rightarrow> int \<Rightarrow> int \<Rightarrow> int \<Rightarrow> int" where
  "reserved_in d item bin wh =
     total (\<lambda>r. inv_item r = item \<and> inv_bin r = bin \<and> inv_wh r = wh) allocated (inventory d)"

text \<open>The tasks that serve the lines \<open>ls\<close>: every bin is reserved for exactly the tasks that send the picker there.\<close>

definition sends :: "int \<Rightarrow> int \<Rightarrow> sol_row list \<Rightarrow> db \<Rightarrow> db \<Rightarrow> task_row list \<Rightarrow> bool" where
  "sends b wh ls d d' new \<longleftrightarrow> pick_tasks d' = pick_tasks d @ new \<and> (\<forall>t \<in> set new. \<exists>l \<in> set ls. line_task b l t)
     \<and> (\<forall>i. total (\<lambda>t. pt_sol t = Some i) pt_qty new = due ls i)
     \<and> (\<forall>t \<in> set new. pickable_at (pt_bin t) d)
     \<and> (\<forall>i x. reserved_in d' i x wh = reserved_in d i x wh + total (\<lambda>t. pt_item t = i \<and> pt_bin t = x) pt_qty new)"

text \<open>The effect of serving the lines \<open>ls\<close> from the pickable stock of a warehouse.\<close>

definition serves :: "int \<Rightarrow> int \<Rightarrow> sol_row list \<Rightarrow> db \<Rightarrow> db \<Rightarrow> bool" where
  "serves b wh ls d d' \<longleftrightarrow> good d' \<and> bins d' = bins d
     \<and> (\<forall>i w. held d' i w = held d i w)
     \<and> (\<forall>i w. reserved d' i w = reserved d i w + (if w = wh then demand ls i else 0))
     \<and> (\<forall>i. free_pick d' i wh = free_pick d i wh - demand ls i)
     \<and> so_lines d' = map (\<lambda>x. x\<lparr>sol_alloc := sol_alloc x + due ls (sol_id x)\<rparr>) (so_lines d)
     \<and> (\<exists>new. sends b wh ls d d' new)"

lemma serves_Nil: "good d \<Longrightarrow> serves b wh [] d d"
  by (auto simp: serves_def sends_def intro!: exI [of _ "[]"])

lemma serves_append:
  assumes "serves b wh ks d d1" "serves b wh ls d1 d2"
  shows "serves b wh (ks @ ls) d d2"
proof -
  from assms obtain new1 new2 where n: "sends b wh ks d d1 new1" "sends b wh ls d1 d2 new2"
    by (auto simp: serves_def)
  moreover have "pickable_at x d1 = pickable_at x d" for x
    using assms(1) by (simp add: serves_def pickable_at_def find_bin_def)
  ultimately have "sends b wh (ks @ ls) d d2 (new1 @ new2)" by (auto simp: sends_def)
  then have "\<exists>new. sends b wh (ks @ ls) d d2 new" by blast
  with assms show ?thesis by (simp add: serves_def comp_def algebra_simps)
qed

lemma alloc_rows_lines:
  "so_lines (snd (alloc_rows b l tote rem rs d)) = map (\<lambda>x. x\<lparr>sol_alloc := sol_alloc x
      + (if sol_id x = sol_id l then rem - fst (alloc_rows b l tote rem rs d) else 0)\<rparr>) (so_lines d)"
proof (induction b l tote rem rs d rule: alloc_rows.induct)
  case (2 b l tote rem r rs d)
  then show ?case by (cases "rem \<le> 0") (simp_all add: Let_def upd_def comp_def map_idI cong del: if_weak_cong)
qed (simp add: map_idI)

lemma allocating_appends: "\<exists>m. pick_tasks (snd (alloc_rows b l tote rem rs d)) = pick_tasks d @ m"
proof (induction b l tote rem rs d rule: alloc_rows.induct)
  case (2 b l tote rem r rs d)
  have "\<exists>t. pick_tasks (alloc_row b l tote r q d) = pick_tasks d @ [t]" for q
    by (simp add: alloc_row_def nextval_def reserve_row_def set_sol_def)
  with 2 show ?case by (cases "rem \<le> 0") (simp_all add: Let_def, metis append.assoc)
qed simp

lemma alloc_rows_tasks:
  assumes "\<forall>r \<in> set rs. 0 < avail r"
  shows "\<exists>new. pick_tasks (snd (alloc_rows b l tote rem rs d)) = pick_tasks d @ new
    \<and> (\<forall>t \<in> set new. line_task b l t) \<and> sum_list (map pt_qty new) = rem - fst (alloc_rows b l tote rem rs d)"
  using assms
proof (induction b l tote rem rs d rule: alloc_rows.induct)
  case (2 b l tote rem r rs d)
  show ?case
  proof (cases "rem \<le> 0")
    case False
    let ?q = "min rem (avail r)"
    obtain t where t: "pick_tasks (alloc_row b l tote r ?q d) = pick_tasks d @ [t]"
      "pt_qty t = ?q" "pt_batch t = b" "pt_so t = Some (sol_so l)" "pt_sol t = Some (sol_id l)" "pt_to t = None"
      "pt_item t = sol_item l" "pt_state t = TASK_PENDING" "pt_picked t = 0"
      by (simp add: alloc_row_def nextval_def reserve_row_def set_sol_def)
    have "line_task b l t" using t "2.prems" False by (simp add: line_task_def)
    moreover from "2.IH" [OF False refl] "2.prems" obtain new where
      "pick_tasks (snd (alloc_rows b l tote (rem - ?q) rs (alloc_row b l tote r ?q d)))
         = pick_tasks (alloc_row b l tote r ?q d) @ new" "\<forall>t \<in> set new. line_task b l t"
      "sum_list (map pt_qty new) = rem - ?q - fst (alloc_rows b l tote (rem - ?q) rs (alloc_row b l tote r ?q d))"
      by auto
    ultimately show ?thesis
      using False t(1,2) by (intro exI [of _ "t # new"]) (simp add: Let_def)
  qed simp
qed simp

text \<open>Each task is for the bin of the row it reserves.\<close>

lemma alloc_rows_places:
  assumes "pick_tasks (snd (alloc_rows b l tote rem rs d)) = pick_tasks d @ new" "distinct (map inv_id (inventory d))"
    and "\<And>r. r \<in> set rs \<Longrightarrow> inv_item r = sol_item l \<and> inv_wh r = wh
      \<and> (\<exists>v \<in> set (inventory d). inv_id v = inv_id r \<and> inv_item v = inv_item r \<and> inv_bin v = inv_bin r \<and> inv_wh v = inv_wh r)"
  shows "(\<forall>t \<in> set new. pt_bin t \<in> inv_bin ` set rs)
    \<and> reserved_in (snd (alloc_rows b l tote rem rs d)) i x wh
        = reserved_in d i x wh + total (\<lambda>t. pt_item t = i \<and> pt_bin t = x) pt_qty new"
  using assms
proof (induction b l tote rem rs d arbitrary: new rule: alloc_rows.induct)
  case (2 b l tote rem r rs d)
  show ?case
  proof (cases "rem \<le> 0")
    case False
    let ?q = "min rem (avail r)"
    let ?d = "alloc_row b l tote r ?q d"
    obtain t where t: "pick_tasks ?d = pick_tasks d @ [t]" "pt_qty t = ?q" "pt_item t = sol_item l" "pt_bin t = inv_bin r"
      by (simp add: alloc_row_def nextval_def reserve_row_def set_sol_def)
    obtain m where m: "pick_tasks (snd (alloc_rows b l tote (rem - ?q) rs ?d)) = pick_tasks ?d @ m"
      using allocating_appends by blast
    with "2.prems"(1) False t(1) have new: "new = t # m" by (simp add: Let_def)
    from "2.prems"(3) [of r] obtain v where v: "v \<in> set (inventory d)" "inv_id v = inv_id r" "inv_item v = sol_item l"
      "inv_bin v = inv_bin r" "inv_wh v = wh" by auto
    have "reserved_in ?d i x wh = reserved_in d i x wh + (if sol_item l = i \<and> inv_bin r = x then ?q else 0)"
      using total_upd_key [OF "2.prems"(2) v(1), of "\<lambda>r. inv_item r = i \<and> inv_bin r = x \<and> inv_wh r = wh"
          "\<lambda>x. x\<lparr>allocated := allocated x + ?q\<rparr>" allocated] v(2-5)
      by (simp add: reserved_in_def)
    moreover have "(\<forall>t \<in> set m. pt_bin t \<in> inv_bin ` set rs)
        \<and> reserved_in (snd (alloc_rows b l tote (rem - ?q) rs ?d)) i x wh
            = reserved_in ?d i x wh + total (\<lambda>t. pt_item t = i \<and> pt_bin t = x) pt_qty m"
    proof (rule "2.IH" [OF False refl m])
      show "distinct (map inv_id (inventory ?d))" using "2.prems"(2) by (simp add: map_upd_same)
      fix s assume "s \<in> set rs"
      with "2.prems"(3) [of s] obtain u where u: "inv_item s = sol_item l" "inv_wh s = wh" "u \<in> set (inventory d)"
        "inv_id u = inv_id s" "inv_item u = inv_item s" "inv_bin u = inv_bin s" "inv_wh u = inv_wh s" by auto
      have "(if inv_id u = inv_id r then u\<lparr>allocated := allocated u + ?q\<rparr> else u) \<in> set (inventory ?d)"
        unfolding alloc_row_frame set_upd by (rule imageI) (rule u(3))
      with u show "inv_item s = sol_item l \<and> inv_wh s = wh \<and> (\<exists>v \<in> set (inventory ?d). inv_id v = inv_id s
          \<and> inv_item v = inv_item s \<and> inv_bin v = inv_bin s \<and> inv_wh v = inv_wh s)"
        by (intro conjI bexI [of _ "if inv_id u = inv_id r then u\<lparr>allocated := allocated u + ?q\<rparr> else u"]) simp_all
    qed
    ultimately show ?thesis using False new t(2-4) by (simp add: Let_def)
  qed (use "2.prems" in simp)
qed simp

lemma pickable_rows_props:
  "r \<in> set (pickable_rows item wh d) \<longleftrightarrow> r \<in> set (inventory d) \<and> inv_item r = item \<and> inv_wh r = wh
     \<and> 0 < avail r \<and> pickable_at (inv_bin r) d"
  by (auto simp: pickable_rows_def)

lemma pickable_rows_distinct: "inv_wf d \<Longrightarrow> distinct (map inv_id (pickable_rows item wh d))"
  by (auto simp: pickable_rows_def inv_wf_def distinct_map inj_on_def)

lemma pickable_rows_total:
  assumes "good d"
  shows "sum_list (map avail (pickable_rows item wh d)) = free_pick d item wh"
proof -
  have "sum_list (map avail (pickable_rows item wh d))
      = total (\<lambda>r. inv_item r = item \<and> inv_wh r = wh \<and> 0 < avail r \<and> pickable_at (inv_bin r) d) avail (inventory d)"
    by (simp add: pickable_rows_def sum_list_sort_key total_def)
  also have "total (\<lambda>r. inv_item r = item \<and> inv_wh r = wh \<and> 0 < avail r \<and> pickable_at (inv_bin r) d) avail rs
      = total (\<lambda>r. inv_item r = item \<and> inv_wh r = wh \<and> pickable_at (inv_bin r) d) avail rs"
    if "\<forall>r \<in> set rs. 0 \<le> avail r" for rs
    using that by (induction rs) auto
  then have "total (\<lambda>r. inv_item r = item \<and> inv_wh r = wh \<and> 0 < avail r \<and> pickable_at (inv_bin r) d) avail (inventory d)
      = free_pick d item wh"
    using assms by (simp add: free_pick_def good_rows sound_row_def avail_def)
  finally show ?thesis .
qed


lemma alloc_line_serves:
  assumes "good d" "0 < need l" "need l \<le> free_pick d (sol_item l) wh"
  shows "serves b wh [l] d (snd (alloc_line b wh tote l (n, d)))
    \<and> fst (alloc_line b wh tote l (n, d)) = n + need l"
proof -
  let ?rs = "pickable_rows (sol_item l) wh d"
  let ?r = "alloc_rows b l tote (need l) ?rs d"
  have rows: "set ?rs \<subseteq> set (inventory d)" "distinct (map inv_id ?rs)" "\<And>r. r \<in> set ?rs \<Longrightarrow> 0 < avail r"
    "\<And>r. r \<in> set ?rs \<Longrightarrow> 0 < avail r \<and> inv_item r = sol_item l \<and> inv_wh r = wh"
    using assms(1) pickable_rows_distinct by (auto simp: pickable_rows_props)
  have cover: "need l \<le> sum_list (map avail ?rs)" using assms by (simp add: pickable_rows_total)
  have left: "fst ?r = 0" using allocating.left_over [of "need l" ?rs b l tote d] rows(3) assms(2) cover by auto
  have line: "alloc_line b wh tote l (n, d) = (n + need l, snd ?r)"
    using assms(2) left by (simp add: alloc_line_def Let_def split_beta need_def)
  have good: "good (snd ?r)" using allocating.walk_good [OF assms(1) rows(1-3)] by blast
  have kept: "bins (snd ?r) = bins d" using allocating.walk_kept [OF rows(3)] by blast
  have tot: "held (snd ?r) i w = held d i w" "reserved (snd ?r) i w = reserved d i w + (if w = wh then demand [l] i else 0)"
    for i w using allocating.walk_totals [OF assms(1) rows(1,2) _ rows(4)] assms(2) cover by auto
  have place: "pickable_at x (snd ?r) = pickable_at x d" for x by (simp add: pickable_at_def find_bin_def kept)
  have free: "free_pick (snd ?r) i wh = free_pick d i wh - demand [l] i" for i
  proof -
    let ?P = "\<lambda>r. inv_item r = i \<and> inv_wh r = wh \<and> pickable_at (inv_bin r) d"
    have P: "?P r = (sol_item l = i)" if "r \<in> set ?rs" for r
      using that by (auto simp: pickable_rows_props)
    have "total ?P avail (inventory (snd ?r)) = total ?P avail (inventory d)
        + (if sol_item l = i then - 1 * min (need l) (sum_list (map avail ?rs)) else 0)"
      by (rule allocating.total_gain [OF good_distinct [OF assms(1)] rows(1,2)])
        (use rows(3) assms(2) P in \<open>simp_all add: avail_def\<close>)
    then show ?thesis using cover by (auto simp: free_pick_def place min_def)
  qed
  have lines: "so_lines (snd ?r) = map (\<lambda>x. x\<lparr>sol_alloc := sol_alloc x + due [l] (sol_id x)\<rparr>) (so_lines d)"
    unfolding alloc_rows_lines left by (auto intro!: map_cong)
  obtain new where new: "pick_tasks (snd ?r) = pick_tasks d @ new" "\<forall>t \<in> set new. line_task b l t"
    "sum_list (map pt_qty new) = need l"
    using alloc_rows_tasks [of ?rs b l tote "need l" d] rows(3) left by auto
  have "total (\<lambda>t. pt_sol t = Some i) pt_qty new = (if sol_id l = i then sum_list (map pt_qty new) else 0)" for i
    using new(2) by (induction new) (auto simp: line_task_def)
  moreover have "(\<forall>t \<in> set new. pt_bin t \<in> inv_bin ` set ?rs) \<and> reserved_in (snd ?r) i x wh
      = reserved_in d i x wh + total (\<lambda>t. pt_item t = i \<and> pt_bin t = x) pt_qty new" for i x
    by (rule alloc_rows_places [OF new(1) good_distinct [OF assms(1)]]) (auto simp: pickable_rows_props)
  moreover from this have "\<forall>t \<in> set new. pickable_at (pt_bin t) d"
    by (metis (no_types, lifting) imageE pickable_rows_props)
  ultimately have tasks: "\<exists>new. sends b wh [l] d (snd ?r) new"
    using new by (intro exI [of _ new]) (simp add: sends_def)
  show ?thesis
    unfolding line fst_conv snd_conv serves_def by (intro conjI allI refl good kept tot free lines tasks)
qed

text \<open>One line after the other, as long as the stock covers all of them.\<close>

lemma alloc_lines_serve:
  assumes "good d" "\<forall>l \<in> set ls. 0 < need l" "\<forall>i. demand ls i \<le> free_pick d i wh"
  shows "serves b wh ls d (snd (fold (alloc_line b wh tote) ls (n, d)))
    \<and> fst (fold (alloc_line b wh tote) ls (n, d)) = n + sum_list (map need ls)"
  using assms
proof (induction ls arbitrary: n d)
  case (Cons l ls)
  let ?s = "alloc_line b wh tote l (n, d)"
  have nn: "0 \<le> demand ls i" for i
    unfolding demand_def using Cons.prems(2) by (intro total_nonneg) (auto simp: less_imp_le)
  have "need l \<le> free_pick d (sol_item l) wh"
    using Cons.prems(3) [rule_format, of "sol_item l"] nn [of "sol_item l"] by simp
  with Cons.prems have s: "serves b wh [l] d (snd ?s)" "fst ?s = n + need l"
    using alloc_line_serves [of d l wh b tote n] by auto
  have "demand ls i \<le> free_pick (snd ?s) i wh" for i
    using s(1) Cons.prems(3) [rule_format, of i] by (auto simp: serves_def)
  then have "serves b wh ls (snd ?s) (snd (fold (alloc_line b wh tote) ls ?s))
      \<and> fst (fold (alloc_line b wh tote) ls ?s) = fst ?s + sum_list (map need ls)"
    using Cons.IH [of "snd ?s" "fst ?s"] Cons.prems(2) s(1) by (simp add: serves_def)
  with serves_append [OF s(1)] s(2) show ?case by auto
qed (simp add: serves_Nil)


section \<open>Orders one after the other\<close>

definition all_lines :: "so_row list \<Rightarrow> db \<Rightarrow> sol_row list" where
  "all_lines sos d = concat (map (\<lambda>so. open_lines (so_id so) d) sos)"

lemma due_other:
  assumes "distinct (map sol_id (so_lines d))" "set ls \<subseteq> set (so_lines d)" "x \<in> set (so_lines d)" "x \<notin> set ls"
  shows "due ls (sol_id x) = 0"
  unfolding due_def
  by (rule total_none) (use assms key_inj [OF assms(1) _ assms(3)] in blast)

text \<open>Serving one order's lines leaves the open lines of the others alone.\<close>

lemma open_lines_other:
  assumes "serves b wh (open_lines so d) d d'" "distinct (map sol_id (so_lines d))" "so' \<noteq> so"
  shows "open_lines so' d' = open_lines so' d"
proof -
  have "filter (\<lambda>l. sol_so l = so' \<and> sol_alloc l < sol_ordered l)
      (map (\<lambda>x. x\<lparr>sol_alloc := sol_alloc x + due (open_lines so d) (sol_id x)\<rparr>) xs)
    = filter (\<lambda>l. sol_so l = so' \<and> sol_alloc l < sol_ordered l) xs"
    if "set xs \<subseteq> set (so_lines d)" for xs
    using that
  proof (induction xs)
    case (Cons x xs)
    have "due (open_lines so d) (sol_id x) = 0" if "sol_so x = so'"
      using due_other [OF assms(2), of "open_lines so d" x] Cons.prems that assms(3) by (auto simp: open_lines_def)
    with Cons show ?case by auto
  qed simp
  then show ?thesis using assms(1) by (simp add: open_lines_def serves_def)
qed

lemma open_lines_need: "l \<in> set (open_lines so d) \<Longrightarrow> 0 < need l"
  by (auto simp: open_lines_def need_def)

lemma demand_nonneg: "(\<And>l. l \<in> set ls \<Longrightarrow> 0 < need l) \<Longrightarrow> 0 \<le> demand ls i"
  unfolding demand_def by (intro total_nonneg) (simp add: less_imp_le)

lemma alloc_orders_serve:
  assumes "good d" "distinct (map sol_id (so_lines d))" "distinct (map (so_id \<circ> fst) os)"
    and "\<forall>i. demand (all_lines (map fst os) d) i \<le> free_pick d i wh"
  shows "serves b wh (all_lines (map fst os) d) d (snd (fold (alloc_order b wh) os (n, d)))
    \<and> fst (fold (alloc_order b wh) os (n, d)) = n + sum_list (map need (all_lines (map fst os) d))"
  using assms
proof (induction os arbitrary: n d)
  case Nil
  then show ?case by (simp add: all_lines_def serves_Nil)
next
  case (Cons o' os)
  obtain so tote where o': "o' = (so, tote)" by (cases o')
  let ?ls = "open_lines (so_id so) d"
  let ?s = "alloc_order b wh o' (n, d)"
  have split: "all_lines (map fst (o' # os)) d = ?ls @ all_lines (map fst os) d"
    by (simp add: all_lines_def o')
  have rest: "0 \<le> demand (all_lines (map fst os) d) i" for i
    by (rule demand_nonneg) (auto simp: all_lines_def dest: open_lines_need)
  have "demand ?ls i \<le> free_pick d i wh" for i
    using Cons.prems(4) [rule_format, of i] rest [of i] unfolding split by simp
  then have s: "serves b wh ?ls d (snd ?s)" "fst ?s = n + sum_list (map need ?ls)"
    using alloc_lines_serve [OF Cons.prems(1), of ?ls wh b tote n] open_lines_need
    by (auto simp: alloc_order_def o')
  have same: "all_lines (map fst os) (snd ?s) = all_lines (map fst os) d"
    unfolding all_lines_def
    by (intro arg_cong [where f = concat] map_cong refl open_lines_other [OF s(1) Cons.prems(2)])
      (use Cons.prems(3) o' in force)
  have ih: "serves b wh (all_lines (map fst os) d) (snd ?s) (snd (fold (alloc_order b wh) os (fst ?s, snd ?s)))
      \<and> fst (fold (alloc_order b wh) os (fst ?s, snd ?s)) = fst ?s + sum_list (map need (all_lines (map fst os) d))"
    unfolding same [symmetric]
  proof (rule Cons.IH)
    show "good (snd ?s)" using s(1) by (simp add: serves_def)
    show "distinct (map sol_id (so_lines (snd ?s)))"
      using s(1) Cons.prems(2) by (simp add: serves_def comp_def)
    show "distinct (map (so_id \<circ> fst) os)" using Cons.prems(3) by (simp add: comp_def)
    show "\<forall>i. demand (all_lines (map fst os) (snd ?s)) i \<le> free_pick (snd ?s) i wh"
      unfolding same using s(1) Cons.prems(4) unfolding split by (simp add: serves_def le_diff_eq add.commute)
  qed
  note ih = ih [unfolded prod.collapse]
  show ?case
    unfolding split using serves_append [OF s(1) conjunct1 [OF ih]] conjunct2 [OF ih] s(2) by simp
qed

section \<open>The coverage map holds every open line once\<close>

definition entry_need :: "(int \<times> contrib list) list \<Rightarrow> int \<Rightarrow> int" where
  "entry_need m item = total (\<lambda>x. fst x = item) (\<lambda>x. sum_list (map cb_needed (snd x))) m"

lemma entry_need_add:
  "entry_need (add_entry k c m) item = entry_need m item + (if k = item then cb_needed c else 0)"
  by (induction k c m rule: add_entry.induct) (auto simp: entry_need_def)

lemma add_entry_keys: "fst ` set (add_entry k v m) = insert k (fst ` set m)"
  by (induction k v m rule: add_entry.induct) auto

lemma add_entry_distinct: "distinct (map fst m) \<Longrightarrow> distinct (map fst (add_entry k v m))"
  by (induction k v m rule: add_entry.induct) (auto simp: add_entry_keys)

lemma add_entry_members:
  "(\<exists>cs. (item, cs) \<in> set (add_entry k c m) \<and> x \<in> set cs)
     \<longleftrightarrow> (item = k \<and> x = c) \<or> (\<exists>cs. (item, cs) \<in> set m \<and> x \<in> set cs)"
  by (induction k c m rule: add_entry.induct) auto


lemma coverage_fold:
  "entry_need (fold (\<lambda>(so, l). add_entry (sol_item l) (line_contrib so l)) xs m) item
     = entry_need m item + demand (map snd xs) item"
  "distinct (map fst m) \<Longrightarrow> distinct (map fst (fold (\<lambda>(so, l). add_entry (sol_item l) (line_contrib so l)) xs m))"
  by (induction xs arbitrary: m)
    (auto simp: entry_need_add line_contrib_def need_def add_entry_distinct)

lemma coverage_fold_members:
  "(\<exists>cs. (item, cs) \<in> set (fold (\<lambda>(so, l). add_entry (sol_item l) (line_contrib so l)) xs m) \<and> c \<in> set cs)
     \<longleftrightarrow> (\<exists>(so, l) \<in> set xs. item = sol_item l \<and> c = line_contrib so l) \<or> (\<exists>cs. (item, cs) \<in> set m \<and> c \<in> set cs)"
proof (induction xs arbitrary: m)
  case (Cons x xs)
  obtain so l where x: "x = (so, l)" by (cases x)
  show ?case unfolding x fold_Cons comp_def split_conv Cons.IH add_entry_members by auto
qed simp

lemma coverage_map_need: "entry_need (coverage_map sos d) item = demand (all_lines sos d) item"
proof -
  have "map snd [(so, l). so \<leftarrow> sos, l \<leftarrow> open_lines (so_id so) d] = all_lines sos d"
    by (induction sos) (simp_all add: all_lines_def comp_def)
  note lines = this
  show ?thesis unfolding coverage_map_def coverage_fold(1) lines by (simp add: entry_need_def)
qed

lemma coverage_map_distinct: "distinct (map fst (coverage_map sos d))"
  by (simp add: coverage_map_def coverage_fold(2))

lemma coverage_map_pos:
  assumes "(item, cs) \<in> set (coverage_map sos d)" "c \<in> set cs"
  shows "0 < cb_needed c"
proof -
  from assms have "\<exists>cs. (item, cs) \<in> set (coverage_map sos d) \<and> c \<in> set cs" by blast
  then show ?thesis
    unfolding coverage_map_def coverage_fold_members by (auto simp: line_contrib_def open_lines_def)
qed

lemma entry_need_at:
  assumes "distinct (map fst m)" "(item, cs) \<in> set m"
  shows "entry_need m item = sum_list (map cb_needed cs)"
  unfolding entry_need_def using total_at_key [OF assms, of "\<lambda>x. sum_list (map cb_needed (snd x))"] by simp

lemma free_pick_nonneg: "good d \<Longrightarrow> 0 \<le> free_pick d item wh"
  unfolding free_pick_def good_rows sound_row_def by (intro total_nonneg) (auto simp: avail_def)

text \<open>An empty plan means that the pickable stock covers every item's demand.\<close>

lemma plan_covers:
  assumes "good d" "plan_coverage (coverage_map sos d) wh d = []"
  shows "demand (all_lines sos d) item \<le> free_pick d item wh"
proof (cases "\<exists>cs. (item, cs) \<in> set (coverage_map sos d)")
  case True
  then obtain cs where cs: "(item, cs) \<in> set (coverage_map sos d)" by blast
  have "plan_item wh d (item, cs) = []"
    using assms(2) cs by (auto simp: plan_coverage_def fold_add_entry_Nil)
  then have "sum_list (map cb_needed cs) \<le> free_pick d item wh"
    using plan_item_Nil [of cs wh d item] coverage_map_pos [OF cs] pickable_rows_total [OF assms(1)]
    by (force simp: total_available_def)
  then show ?thesis
    using entry_need_at [OF coverage_map_distinct cs] by (simp add: coverage_map_need)
next
  case False
  then have "entry_need (coverage_map sos d) item = 0"
    unfolding entry_need_def by (intro total_none) force
  with free_pick_nonneg [OF assms(1)] show ?thesis by (simp add: coverage_map_need)
qed


section \<open>Freeing what was reserved beyond the picks\<close>

definition excess :: "sol_row list \<Rightarrow> int \<Rightarrow> int" where
  "excess ls item = total (\<lambda>l. sol_item l = item) (\<lambda>l. sol_alloc l - sol_picked l) ls"

lemma excess_simps [simp]:
  "excess [] i = 0" "excess (l # ls) i = (if sol_item l = i then sol_alloc l - sol_picked l else 0) + excess ls i"
  by (simp_all add: excess_def)

definition frees :: "int \<Rightarrow> sol_row list \<Rightarrow> db \<Rightarrow> db \<Rightarrow> bool" where
  "frees wh ls d d' \<longleftrightarrow> good d' \<and> (\<forall>i w. held d' i w = held d i w)
     \<and> so_lines d' = upd (\<lambda>x. sol_id x \<in> sol_id ` set ls) (\<lambda>x. x\<lparr>sol_alloc := sol_picked x\<rparr>) (so_lines d)
     \<and> (\<exists>inv lines. d' = d\<lparr>inventory := inv, so_lines := lines\<rparr>)"

lemma norm_line_frees:
  assumes "good d" "sol_picked l < sol_alloc l"
  shows "frees wh [l] d (norm_line wh l d)"
    "reserved (norm_line wh l d) i w = reserved d i w
       - (if i = sol_item l \<and> w = wh then min (sol_alloc l - sol_picked l) (reserved d i w) else 0)"
proof -
  let ?rs = "item_rows (sol_item l) wh (\<lambda>r. 0 < allocated r) d"
  let ?q = "sol_alloc l - sol_picked l"
  let ?r = "norm_rows ?q ?rs d"
  have rows: "set ?rs \<subseteq> set (inventory d)" "distinct (map inv_id ?rs)" "\<And>r. r \<in> set ?rs \<Longrightarrow> 0 < allocated r"
    "\<And>r. r \<in> set ?rs \<Longrightarrow> 0 < allocated r \<and> inv_item r = sol_item l \<and> inv_wh r = wh"
    using assms(1) item_rows_distinct by (auto simp: item_rows_member)
  have "sum_list (map allocated ?rs) = reserved d (sol_item l) wh"
    unfolding reserved_def by (rule sum_item_rows) (use assms(1) in \<open>force simp: good_rows sound_row_def\<close>)
  then have tot: "held (snd ?r) i w = held d i w" "reserved (snd ?r) i w = reserved d i w
       - (if i = sol_item l \<and> w = wh then min ?q (reserved d i w) else 0)" for i w
    using norming.walk_totals(1,2) [OF assms(1) rows(1,2) _ rows(4), where rem = ?q and i = i and w = w] assms(2) by auto
  obtain inv where inv: "snd ?r = d\<lparr>inventory := inv\<rparr>" using norming.walk_frame [OF rows(3)] by blast
  have good: "good (snd ?r)" using norming.walk_good [OF assms(1) rows(1-3)] by blast
  have eq: "norm_line wh l d = set_sol (Some (sol_id l)) (\<lambda>x. x\<lparr>sol_alloc := sol_picked x\<rparr>) (snd ?r)"
    by (simp add: norm_line_def)
  have stock: "held (norm_line wh l d) = held (snd ?r)" "reserved (norm_line wh l d) = reserved (snd ?r)"
    unfolding eq by (rule stock_cong; simp add: set_sol_def)+
  have "norm_line wh l d = d\<lparr>inventory := inv, so_lines := so_lines (norm_line wh l d)\<rparr>"
    by (simp add: eq inv set_sol_def)
  moreover have "so_lines (norm_line wh l d)
      = upd (\<lambda>x. sol_id x \<in> sol_id ` set [l]) (\<lambda>x. x\<lparr>sol_alloc := sol_picked x\<rparr>) (so_lines d)"
    by (simp add: eq inv set_sol_def)
  moreover have "good (norm_line wh l d)" using good by (simp add: eq)
  ultimately show "frees wh [l] d (norm_line wh l d)"
    using tot(1) unfolding frees_def stock by blast
  show "reserved (norm_line wh l d) i w = reserved d i w
       - (if i = sol_item l \<and> w = wh then min ?q (reserved d i w) else 0)"
    using tot(2) by (simp add: stock)
qed

lemma frees_append: "frees wh ks d d1 \<Longrightarrow> frees wh ls d1 d2 \<Longrightarrow> frees wh (ks @ ls) d d2"
  unfolding frees_def by (elim conjE exE) (auto simp: upd_def)

lemma norm_lines_free:
  assumes "good d" "\<forall>l \<in> set ls. sol_picked l < sol_alloc l"
  shows "frees wh ls d (fold (norm_line wh) ls d)
    \<and> ((\<forall>i. excess ls i \<le> reserved d i wh) \<longrightarrow>
        (\<forall>i w. reserved (fold (norm_line wh) ls d) i w = reserved d i w - (if w = wh then excess ls i else 0)))"
  using assms
proof (induction ls arbitrary: d)
  case Nil
  then show ?case by (auto simp: frees_def upd_id intro!: exI [of _ "inventory d"] exI [of _ "so_lines d"])
next
  case (Cons l ls)
  have lt: "sol_picked l < sol_alloc l" using Cons.prems(2) by simp
  note step = norm_line_frees [OF Cons.prems(1) lt]
  have good: "good (norm_line wh l d)" using step(1) [of wh] by (simp add: frees_def)
  note ih = Cons.IH [OF good] 
  have f: "frees wh (l # ls) d (fold (norm_line wh) (l # ls) d)"
    using frees_append [OF step(1), of wh ls] ih Cons.prems(2) by simp
  have "\<forall>i w. reserved (fold (norm_line wh) (l # ls) d) i w = reserved d i w - (if w = wh then excess (l # ls) i else 0)"
    if cover: "\<forall>i. excess (l # ls) i \<le> reserved d i wh"
  proof -
    have nn: "0 \<le> excess ls i" for i
      unfolding excess_def using Cons.prems(2) by (intro total_nonneg) (auto simp: less_imp_le)
    have "sol_alloc l - sol_picked l \<le> reserved d (sol_item l) wh"
      using cover [rule_format, of "sol_item l"] nn [of "sol_item l"] by simp
    then have now: "reserved (norm_line wh l d) i w
        = reserved d i w - (if w = wh \<and> sol_item l = i then sol_alloc l - sol_picked l else 0)" for i w
      by (auto simp: step(2))
    have "\<forall>i. excess ls i \<le> reserved (norm_line wh l d) i wh"
      using cover by (auto simp: now le_diff_eq add.commute)
    with ih Cons.prems(2) now show ?thesis by auto
  qed
  with f show ?case by blast
qed


lemma normalize_orders_frees: "good d \<Longrightarrow> \<exists>ls. frees wh ls d (normalize_orders wh sos d)"
proof (induction sos arbitrary: d)
  case Nil
  then show ?case using norm_lines_free [of d "[]" wh] by (intro exI [of _ "[]"]) (simp add: normalize_orders_def)
next
  case (Cons so sos)
  let ?d = "normalize_so_reservations (so_id so) wh d"
  have f: "frees wh (filter (\<lambda>l. sol_so l = so_id so \<and> sol_picked l < sol_alloc l) (so_lines d)) d ?d"
    using norm_lines_free [OF Cons.prems] by (simp add: normalize_so_reservations_def)
  then have "good ?d" unfolding frees_def by (elim conjE)
  from Cons.IH [OF this] obtain ls where ls: "frees wh ls ?d (normalize_orders wh sos ?d)" ..
  have "normalize_orders wh (so # sos) d = normalize_orders wh sos ?d" by (simp add: normalize_orders_def)
  with frees_append [OF f ls] show ?case by (intro exI) (simp only:)
qed

text \<open>
  Normalising an order's standing reservations gives the warehouse back
  exactly what the order had reserved beyond its picks: per item the reservations fall
  by the sum of the excesses, nothing moves on hand, the order's lines keep at most
  what they have picked, and no other line changes. (The warehouse must hold at least
  those reservations, as it does when they were made there.)
\<close>

theorem normalize_frees_excess:
  assumes "good d" "distinct (map sol_id (so_lines d))"
    and "\<forall>i. total (\<lambda>l. sol_so l = so \<and> sol_item l = i) (\<lambda>l. max 0 (sol_alloc l - sol_picked l)) (so_lines d)
           \<le> reserved d i wh"
  shows "good (normalize_so_reservations so wh d)
    \<and> held (normalize_so_reservations so wh d) i w = held d i w
    \<and> reserved (normalize_so_reservations so wh d) i w = reserved d i w
        - (if w = wh then total (\<lambda>l. sol_so l = so \<and> sol_item l = i)
             (\<lambda>l. max 0 (sol_alloc l - sol_picked l)) (so_lines d) else 0)
    \<and> so_lines (normalize_so_reservations so wh d)
        = upd (\<lambda>l. sol_so l = so) (\<lambda>l. l\<lparr>sol_alloc := min (sol_alloc l) (sol_picked l)\<rparr>) (so_lines d)"
proof -
  let ?P = "\<lambda>l. sol_so l = so \<and> sol_picked l < sol_alloc l"
  let ?ls = "filter ?P (so_lines d)"
  have "excess (filter ?P t) i = total (\<lambda>l. sol_so l = so \<and> sol_item l = i)
      (\<lambda>l. max 0 (sol_alloc l - sol_picked l)) t" for t i
    by (induction t) auto
  then have f: "frees wh ?ls d (normalize_so_reservations so wh d)"
    "reserved (normalize_so_reservations so wh d) i w = reserved d i w
        - (if w = wh then total (\<lambda>l. sol_so l = so \<and> sol_item l = i)
             (\<lambda>l. max 0 (sol_alloc l - sol_picked l)) (so_lines d) else 0)"
    using norm_lines_free [OF assms(1), of ?ls wh] assms(3) by (simp_all add: normalize_so_reservations_def)
  have "sol_id x \<in> sol_id ` set ?ls \<longleftrightarrow> ?P x" if "x \<in> set (so_lines d)" for x
    using key_inj [OF assms(2) _ that] that by force
  then have "upd (\<lambda>x. sol_id x \<in> sol_id ` set ?ls) (\<lambda>x. x\<lparr>sol_alloc := sol_picked x\<rparr>) (so_lines d)
      = upd (\<lambda>l. sol_so l = so) (\<lambda>l. l\<lparr>sol_alloc := min (sol_alloc l) (sol_picked l)\<rparr>) (so_lines d)"
    unfolding upd_def by (intro map_cong refl) (auto simp: min_def)
  with f show ?thesis by (simp add: frees_def)
qed

text \<open>Reverting batches keeps the stock sound and the keys in place.\<close>

definition kept :: "db \<Rightarrow> db \<Rightarrow> bool" where
  "kept d d' \<longleftrightarrow> map sol_id (so_lines d') = map sol_id (so_lines d)
     \<and> map (\<lambda>t. (pt_id t, pt_picked t, pt_qty t)) (pick_tasks d')
         = map (\<lambda>t. (pt_id t, pt_picked t, pt_qty t)) (pick_tasks d)
     \<and> seqs d' Seq_task = seqs d Seq_task"

lemma kept_refl: "kept d d"
  by (simp add: kept_def)

lemma kept_trans: "kept d d1 \<Longrightarrow> kept d1 d2 \<Longrightarrow> kept d d2"
  by (simp add: kept_def)

lemma kept_cong:
  "so_lines d' = so_lines d \<Longrightarrow> pick_tasks d' = pick_tasks d \<Longrightarrow> seqs d' Seq_task = seqs d Seq_task
     \<Longrightarrow> kept c d' = kept c d"
  by (simp add: kept_def)

definition tasks_ok :: "db \<Rightarrow> bool" where
  "tasks_ok d \<longleftrightarrow> picks_nonneg d \<and> distinct (map pt_id (pick_tasks d))
     \<and> (\<forall>t \<in> set (pick_tasks d). pt_id t < seqs d Seq_task)"

lemma kept_tasks:
  assumes "kept d d'"
  shows "picks_nonneg d' = picks_nonneg d" "tasks_ok d' = tasks_ok d"
proof -
  let ?f = "\<lambda>t. (pt_id t, pt_picked t, pt_qty t)"
  have f: "map ?f (pick_tasks d') = map ?f (pick_tasks d)" and sq: "seqs d' Seq_task = seqs d Seq_task"
    using assms by (simp_all add: kept_def)
  have img: "?f ` set (pick_tasks d') = ?f ` set (pick_tasks d)"
    using arg_cong [OF f, of set] by simp
  have P: "(\<forall>t \<in> set ts. P (pt_id t) (pt_picked t) (pt_qty t))
      = (\<forall>x \<in> ?f ` set ts. P (fst x) (fst (snd x)) (snd (snd x)))" for ts and P :: "int \<Rightarrow> int \<Rightarrow> int \<Rightarrow> bool"
    by simp
  have all: "(\<forall>t \<in> set (pick_tasks d'). P (pt_id t) (pt_picked t) (pt_qty t))
      = (\<forall>t \<in> set (pick_tasks d). P (pt_id t) (pt_picked t) (pt_qty t))" for P :: "int \<Rightarrow> int \<Rightarrow> int \<Rightarrow> bool"
    unfolding P img ..
  show n: "picks_nonneg d' = picks_nonneg d"
    unfolding picks_nonneg_def using all [of "\<lambda>_ p q. 0 \<le> p \<and> p \<le> q"] .
  have "map pt_id (pick_tasks d') = map pt_id (pick_tasks d)"
    using arg_cong [OF f, of "map fst"] by (simp add: comp_def)
  then show "tasks_ok d' = tasks_ok d"
    unfolding tasks_ok_def n sq using all [of "\<lambda>i _ _. i < seqs d Seq_task"] by simp
qed

lemma add_inventory_kept [simp]:
  "so_lines (snd (add_inventory i b w q lot d)) = so_lines d"
  "pick_tasks (snd (add_inventory i b w q lot d)) = pick_tasks d"
  "seqs (snd (add_inventory i b w q lot d)) Seq_task = seqs d Seq_task"
  by (simp_all add: add_inventory_def nextval_def split: option.splits)

lemma revert_task_kept: "kept d (revert_task user wh t d)"
proof -
  have lines: "map sol_id (so_lines (revert_line user wh t so d)) = map sol_id (so_lines d)"
    "pick_tasks (revert_line user wh t so d) = pick_tasks d"
    "seqs (revert_line user wh t so d) Seq_task = seqs d Seq_task" for so d
    by (simp_all add: revert_line_def Let_def set_sol_def map_upd_same split: option.splits)
  have stock: "so_lines (revert_stock user wh t so d) = so_lines d"
    "pick_tasks (revert_stock user wh t so d) = pick_tasks d"
    "seqs (revert_stock user wh t so d) Seq_task = seqs d Seq_task" for so d
    by (simp_all add: revert_stock_def free_bin_def)
  show ?thesis
    by (simp add: kept_def revert_task_def Let_def set_task_def lines stock map_upd_same)
qed

lemma full_revert_kept:
  assumes "full_revert_batch b user d = Inr (n, d')"
  shows "kept d d'"
proof -
  have "kept d (fold (revert_task user wh) ts d)" for wh ts d
    by (induction ts arbitrary: d) (auto simp: kept_refl intro: kept_trans [OF revert_task_kept])
  moreover have "kept d (c\<lparr>pick_batches := bs\<rparr>) = kept d c" for c bs
    by (rule kept_cong) simp_all
  ultimately show ?thesis
    using assms by (auto simp: full_revert_batch_def kept_refl Let_def split: option.splits if_splits)
qed

lemma cancel_prior_sound:
  assumes "good d" "picks_nonneg d"
  shows "good (snd (cancel_prior_user_batches user wh d)) \<and> kept d (snd (cancel_prior_user_batches user wh d))"
proof -
  have step: "good (revert_or_keep user b d) \<and> kept d (revert_or_keep user b d)" if "good d" "picks_nonneg d" for b d
    using that full_revert_good full_revert_kept
    by (auto simp: revert_or_keep_def kept_refl split: sum.splits)
  have "good (fold (revert_or_keep user) bs d) \<and> kept d (fold (revert_or_keep user) bs d)"
    if "good d" "picks_nonneg d" for bs d
    using that
  proof (induction bs arbitrary: d)
    case (Cons b bs)
    have s: "good (revert_or_keep user b d)" "kept d (revert_or_keep user b d)" using step Cons.prems by auto
    with Cons.IH [of "revert_or_keep user b d"] Cons.prems kept_tasks(1) [OF s(2)] show ?case
      by (auto intro: kept_trans)
  qed (simp add: kept_refl)
  with assms show ?thesis by (simp add: cancel_prior_user_batches_def Let_def)
qed


lemma normalize_orders_good:
  assumes "good d" "distinct (map sol_id (so_lines d))"
  shows "good (normalize_orders wh sos d)" "distinct (map sol_id (so_lines (normalize_orders wh sos d)))"
    "held (normalize_orders wh sos d) i w = held d i w"
proof -
  obtain ls where f: "frees wh ls d (normalize_orders wh sos d)" using normalize_orders_frees [OF assms(1)] ..
  show "good (normalize_orders wh sos d)" "held (normalize_orders wh sos d) i w = held d i w"
    using f by (simp_all add: frees_def)
  show "distinct (map sol_id (so_lines (normalize_orders wh sos d)))"
    using f assms(2) by (simp add: frees_def map_upd_same)
qed

section \<open>A whole batch\<close>

lemma all_lines_distinct:
  assumes "distinct (map so_id sos)" "distinct (map sol_id (so_lines d))"
  shows "distinct (map sol_id (all_lines sos d))"
  using assms(1)
proof (induction sos)
  case (Cons so sos)
  have sub: "l \<in> set (so_lines d) \<and> sol_so l = so_id so" if "l \<in> set (open_lines (so_id so) d)" for l so
    using that by (auto simp: open_lines_def)
  have "distinct (map sol_id (open_lines (so_id so) d))"
    using assms(2) by (auto simp: open_lines_def distinct_map inj_on_def)
  moreover have "sol_id l \<noteq> sol_id l'" if "l \<in> set (open_lines (so_id so) d)" "l' \<in> set (all_lines sos d)" for l l'
  proof
    from that(2) obtain so' where so': "so' \<in> set sos" "l' \<in> set (open_lines (so_id so') d)"
      by (auto simp: all_lines_def)
    assume "sol_id l = sol_id l'"
    then have "l = l'" using key_inj [OF assms(2)] sub that(1) so'(2) by blast
    then have "so_id so = so_id so'" using sub [OF that(1)] sub [OF so'(2)] by simp
    with Cons.prems so'(1) show False by (auto simp: rev_image_eqI)
  qed
  ultimately show ?case using Cons by (auto simp: all_lines_def)
qed (simp add: all_lines_def)

lemma due_at:
  "distinct (map sol_id ls) \<Longrightarrow> l \<in> set ls \<Longrightarrow> due ls (sol_id l) = need l"
  unfolding due_def by (rule total_at_key)

lemma served_lines_closed:
  assumes "serves b wh (all_lines sos d) d d'" "so \<in> set sos"
    "distinct (map so_id sos)" "distinct (map sol_id (so_lines d))"
  shows "open_lines (so_id so) d' = []"
proof -
  have "\<not> (sol_so x = so_id so \<and> sol_alloc x + due (all_lines sos d) (sol_id x) < sol_ordered x)"
    if "x \<in> set (so_lines d)" for x
  proof
    assume x: "sol_so x = so_id so \<and> sol_alloc x + due (all_lines sos d) (sol_id x) < sol_ordered x"
    show False
    proof (cases "x \<in> set (all_lines sos d)")
      case True
      with x due_at [OF all_lines_distinct [OF assms(3,4)]] show False by (simp add: need_def)
    next
      case False
      then have "due (all_lines sos d) (sol_id x) = 0"
        using due_other [OF assms(4), of "all_lines sos d"] that by (auto simp: all_lines_def open_lines_def)
      with x False that assms(2) show False by (auto simp: all_lines_def open_lines_def)
    qed
  qed
  with assms(1) show ?thesis by (auto simp: serves_def open_lines_def filter_empty_conv)
qed

lemma free_pick_cong:
  "inventory d' = inventory d \<Longrightarrow> bins d' = bins d \<Longrightarrow> free_pick d' = free_pick d"
  by (simp add: fun_eq_iff free_pick_def pickable_at_def find_bin_def)

lemma serves_start:
  assumes "serves b wh ls d1 d2" "inventory d1 = inventory d" "bins d1 = bins d" "so_lines d1 = so_lines d"
    "pick_tasks d1 = pick_tasks d"
  shows "serves b wh ls d d2"
  using assms stock_cong [OF assms(2)] free_pick_cong [OF assms(2,3)]
  by (simp add: serves_def sends_def reserved_in_def pickable_at_def find_bin_def)

lemma serves_end:
  assumes "serves b wh ls d d1" "inventory d2 = inventory d1" "bins d2 = bins d1" "so_lines d2 = so_lines d1"
    "pick_tasks d2 = pick_tasks d1" "seqs d2 Seq_inventory = seqs d1 Seq_inventory"
  shows "serves b wh ls d d2"
  using assms(1,3-5) stock_cong [OF assms(2)] good_cong [OF assms(2,6)] free_pick_cong [OF assms(2,3)]
  by (simp add: serves_def sends_def reserved_in_def assms(2))

lemma build_batch_serves:
  assumes "good d" "distinct (map sol_id (so_lines d))" "distinct (map so_id sos)"
    "plan_coverage (coverage_map sos d) wh d = []"
  shows "serves (seqs d Seq_batch) wh (all_lines sos d) d (snd (build_batch number wh user sos d))
    \<and> fst (build_batch number wh user sos d) = (seqs d Seq_batch, sum_list (map need (all_lines sos d)))"
proof -
  let ?b = "seqs d Seq_batch"
  let ?d2 = "insert_batch_orders ?b sos (snd (insert_batch number wh user d))"
  let ?r = "fold (alloc_order ?b wh) (totes sos) (0, ?d2)"
  have fst: "fst (insert_batch number wh user d) = ?b" by (simp add: insert_batch_def nextval_def)
  have same: "inventory ?d2 = inventory d" "bins ?d2 = bins d" "so_lines ?d2 = so_lines d"
    "pick_tasks ?d2 = pick_tasks d" "seqs ?d2 Seq_inventory = seqs d Seq_inventory"
    by (simp_all add: insert_batch_orders_def insert_batch_def nextval_def)
  have sos: "map fst (totes sos) = sos" by (simp add: totes_def del: upt_Suc)
  have lines: "all_lines sos ?d2 = all_lines sos d" by (simp add: all_lines_def open_lines_def same)
  have free: "free_pick ?d2 = free_pick d"
    by (rule free_pick_cong) (rule same)+
  have "good ?d2" using assms(1) good_cong [OF same(1,5)] by simp
  moreover have "distinct (map (so_id \<circ> fst) (totes sos))" unfolding map_map [symmetric] sos by (rule assms(3))
  moreover have "\<forall>i. demand (all_lines (map fst (totes sos)) ?d2) i \<le> free_pick ?d2 i wh"
    unfolding sos lines free using plan_covers [OF assms(1,4)] by blast
  ultimately have r: "serves ?b wh (all_lines sos d) ?d2 (snd ?r)" "fst ?r = sum_list (map need (all_lines sos d))"
    using alloc_orders_serve [of ?d2 "totes sos" wh ?b 0] assms(2) unfolding sos lines same by simp_all
  have "serves ?b wh (all_lines sos d) d (set_batch_totals ?b (int (length sos)) (fst ?r) (snd ?r))"
    by (rule serves_end [OF serves_start [OF r(1) same(1-4)]]) (simp_all add: set_batch_totals_def)
  moreover have "build_batch number wh user sos d
      = ((?b, fst ?r), set_batch_totals ?b (int (length sos)) (fst ?r) (snd ?r))"
    by (simp add: build_batch_def split_beta fst Let_def)
  ultimately show ?thesis using r(2) by simp
qed

lemma create_pick_batch_Inr:
  assumes "create_pick_batch idents wh user excl stamp d = Inr ((b, n, ts), d')"
  obtains sos where
    "resolve_orders wh excl (snd (cancel_prior_user_batches user wh d)) idents = Inr sos" "distinct (map so_id sos)"
    "plan_coverage (coverage_map sos (normalize_orders wh sos (snd (cancel_prior_user_batches user wh d)))) wh
       (normalize_orders wh sos (snd (cancel_prior_user_batches user wh d))) = []"
    "build_batch (''BATCH-'' @ stamp) wh user sos (normalize_orders wh sos (snd (cancel_prior_user_batches user wh d)))
       = ((b, n), d')"
  using assms
  by (auto simp: create_pick_batch_def Let_def split_beta split: sum.splits if_splits)

text \<open>
  Claim C2. A created batch reserves exactly the open demand of its orders, and nothing
  it cannot pick: on the database after the picker's earlier batches were reverted and
  standing reservations normalised, the stock on hand does not move, reservations in
  the warehouse rise per item by exactly the sum of the open needs, every line of the
  batch's orders is fully allocated, and the new tasks, all pending and in this batch,
  add up line by line to the need of that line. Every task sends the picker to a pickable bin, for the item of its
  line, and in every bin the reservation of every item rises by exactly what the tasks take there, within
  what the bin's rows hold.
\<close>

theorem create_pick_batch_reserves_demand:
  assumes ok: "create_pick_batch idents wh user excl stamp d = Inr ((b, n, ts), d')"
    and "good d" "picks_nonneg d" "distinct (map sol_id (so_lines d))"
  shows "\<exists>sos. resolve_orders wh excl (snd (cancel_prior_user_batches user wh d)) idents = Inr sos \<and>
    (let d1 = normalize_orders wh sos (snd (cancel_prior_user_batches user wh d)); ls = all_lines sos d1 in
      good d' \<and> n = sum_list (map need ls)
      \<and> (\<forall>i w. held d' i w = held d1 i w)
      \<and> (\<forall>i w. reserved d' i w = reserved d1 i w + (if w = wh then demand ls i else 0))
      \<and> (\<forall>so \<in> set sos. open_lines (so_id so) d' = [])
      \<and> (\<exists>new. pick_tasks d' = pick_tasks d1 @ new
           \<and> (\<forall>t \<in> set new. pt_batch t = b \<and> pt_state t = TASK_PENDING \<and> 0 < pt_qty t)
           \<and> (\<forall>l \<in> set ls. total (\<lambda>t. pt_sol t = Some (sol_id l)) pt_qty new = need l)
           \<and> (\<forall>t \<in> set new. pickable_at (pt_bin t) d'
                \<and> (\<exists>l \<in> set ls. pt_sol t = Some (sol_id l) \<and> pt_so t = Some (sol_so l) \<and> pt_item t = sol_item l))
           \<and> (\<forall>i x. reserved_in d' i x wh
                = reserved_in d1 i x wh + total (\<lambda>t. pt_item t = i \<and> pt_bin t = x) pt_qty new))
      \<and> (\<forall>r \<in> set (inventory d'). 0 \<le> allocated r \<and> allocated r \<le> on_hand r))"
proof -
  define d0 where "d0 = snd (cancel_prior_user_batches user wh d)"
  from create_pick_batch_Inr [OF ok] obtain sos where sos:
    "resolve_orders wh excl d0 idents = Inr sos" "distinct (map so_id sos)"
    "plan_coverage (coverage_map sos (normalize_orders wh sos d0)) wh (normalize_orders wh sos d0) = []"
    "build_batch (''BATCH-'' @ stamp) wh user sos (normalize_orders wh sos d0) = ((b, n), d')"
    unfolding d0_def .
  define d1 where "d1 = normalize_orders wh sos d0"
  have "good d0" "distinct (map sol_id (so_lines d0))"
    using cancel_prior_sound [OF assms(2,3), of user wh] assms(4) by (simp_all add: d0_def kept_def)
  then have d1: "good d1" "distinct (map sol_id (so_lines d1))"
    unfolding d1_def by (rule normalize_orders_good)+
  have s: "serves b wh (all_lines sos d1) d1 d'" "n = sum_list (map need (all_lines sos d1))"
    using build_batch_serves [OF d1 sos(2) sos(3) [folded d1_def], where number = "''BATCH-'' @ stamp" and user = user]
      sos(4) [folded d1_def] by simp_all
  obtain new where new: "pick_tasks d' = pick_tasks d1 @ new"
    "\<forall>t \<in> set new. \<exists>l \<in> set (all_lines sos d1). line_task b l t"
    "\<forall>i. total (\<lambda>t. pt_sol t = Some i) pt_qty new = due (all_lines sos d1) i" "\<forall>t \<in> set new. pickable_at (pt_bin t) d1"
    "\<forall>i x. reserved_in d' i x wh = reserved_in d1 i x wh + total (\<lambda>t. pt_item t = i \<and> pt_bin t = x) pt_qty new"
    using s(1) unfolding serves_def sends_def by (elim conjE exE)
  have place: "pickable_at x d' = pickable_at x d1" for x
    using s(1) by (simp add: serves_def pickable_at_def find_bin_def)
  have "\<exists>new. pick_tasks d' = pick_tasks d1 @ new
      \<and> (\<forall>t \<in> set new. pt_batch t = b \<and> pt_state t = TASK_PENDING \<and> 0 < pt_qty t)
      \<and> (\<forall>l \<in> set (all_lines sos d1). total (\<lambda>t. pt_sol t = Some (sol_id l)) pt_qty new = need l)
      \<and> (\<forall>t \<in> set new. pickable_at (pt_bin t) d'
           \<and> (\<exists>l \<in> set (all_lines sos d1). pt_sol t = Some (sol_id l) \<and> pt_so t = Some (sol_so l) \<and> pt_item t = sol_item l))
      \<and> (\<forall>i x. reserved_in d' i x wh = reserved_in d1 i x wh + total (\<lambda>t. pt_item t = i \<and> pt_bin t = x) pt_qty new)"
    using new due_at [OF all_lines_distinct [OF sos(2) d1(2)]] unfolding place
    by (intro exI [of _ new] conjI) (auto simp: line_task_def)
  moreover have "\<forall>r \<in> set (inventory d'). 0 \<le> allocated r \<and> allocated r \<le> on_hand r"
    using s(1) by (auto simp: serves_def good_rows sound_row_def)
  moreover have "\<forall>so \<in> set sos. open_lines (so_id so) d' = []"
    using served_lines_closed [OF s(1) _ sos(2) d1(2)] by blast
  ultimately show ?thesis
    unfolding d0_def [symmetric] using sos(1) s
    by (intro exI [of _ sos]) (simp add: serves_def Let_def flip: d1_def)
qed

text \<open>Two orders of two and three units against ten free units.\<close>

definition demo_shop :: db where
  "demo_shop = demo_wave\<lparr>pick_batches := [], pick_tasks := [], batch_orders := [], wave_orders := [], breakdowns := [],
     inventory := [\<lparr>inv_id = 0, inv_item = 7, inv_bin = 1, inv_wh = 1, on_hand = 10, allocated = 0,
                    inv_lot = None, inv_updated = 0, inv_counted = None\<rparr>],
     so_lines := [demo_sol 111 11 2\<lparr>sol_alloc := 0\<rparr>, demo_sol 121 12 3\<lparr>sol_alloc := 0\<rparr>]\<rparr>"

lemma demo_shop_create:
  "\<exists>d'. create_pick_batch [''SO-1'', ''SO-2''] 1 ''picker'' [] ''S'' demo_shop = Inr ((200, 5, tasks_for_batch 200 d'), d')"
  by (simp add: demo_shop_def demo_pick_defs create_pick_batch_def cancel_prior_user_batches_def normalize_orders_def
      normalize_so_reservations_def active_batch_of_def coverage_map_def open_lines_def line_contrib_def plan_coverage_def
      plan_item_def pickable_rows_def pickable_at_def find_bin_def pickable_bin_def avail_def total_available_def
      build_batch_def insert_batch_def nextval_def insert_batch_orders_def totes_def alloc_order_def alloc_line_def
      alloc_row_def reserve_row_def set_sol_def pick_sequence_def set_batch_totals_def)

theorem create_pick_batch_reserves_demand_witness:
  "\<exists>d'. create_pick_batch [''SO-1'', ''SO-2''] 1 ''picker'' [] ''S'' demo_shop = Inr ((200, 5, tasks_for_batch 200 d'), d')
     \<and> good d' \<and> reserved d' 7 1 = 5"
proof -
  from demo_shop_create obtain d' where
    r: "create_pick_batch [''SO-1'', ''SO-2''] 1 ''picker'' [] ''S'' demo_shop = Inr ((200, 5, tasks_for_batch 200 d'), d')"
    by blast
  have "good demo_shop" "picks_nonneg demo_shop" "distinct (map sol_id (so_lines demo_shop))"
    by (simp_all add: demo_shop_def demo_pick_defs good_rows inv_wf_def sound_row_def picks_nonneg_def)
  from create_pick_batch_reserves_demand [OF r this] have "good d' \<and> reserved d' 7 1 = 5"
    by (auto simp: demo_shop_def demo_pick_defs Let_def cancel_prior_user_batches_def normalize_orders_def
        normalize_so_reservations_def active_batch_of_def all_lines_def open_lines_def reserved_def need_def)
  with r show ?thesis by blast
qed


theorem normalize_frees_excess_witness:
  "good (normalize_so_reservations 11 1 demo_wave) \<and> reserved (normalize_so_reservations 11 1 demo_wave) 7 1 = 3"
proof -
  have "good demo_wave" "distinct (map sol_id (so_lines demo_wave))"
    "\<forall>i. total (\<lambda>l. sol_so l = 11 \<and> sol_item l = i) (\<lambda>l. max 0 (sol_alloc l - sol_picked l)) (so_lines demo_wave)
       \<le> reserved demo_wave i 1"
    by (simp_all add: demo_pick_defs good_rows inv_wf_def sound_row_def reserved_def)
  from normalize_frees_excess [OF this, of 7 1] show ?thesis by (simp add: demo_pick_defs reserved_def)
qed

theorem plan_coverage_exact_witness:
  "plan_coverage [(7, [\<lparr>cb_so = 11, cb_number = ''SO-1'', cb_sol = 111, cb_needed = 6\<rparr>])] 1 demo_wave \<noteq> []"
proof -
  have "\<forall>(item, cs) \<in> set [(7, [\<lparr>cb_so = 11, cb_number = ''SO-1'', cb_sol = 111, cb_needed = 6\<rparr>])].
      \<forall>c \<in> set cs. 0 \<le> cb_needed c" by simp
  from plan_coverage_exact [OF this, of 1 demo_wave] show ?thesis
    by (simp add: demo_pick_defs avail_def pickable_at_def find_bin_def pickable_bin_def)
qed

section \<open>Any history of picking work keeps the stock sound\<close>

text \<open>
  One request of the picking routes; a refused one leaves the database alone. Request
  schemas make quantities non-negative.
\<close>

inductive pick_step :: "db \<Rightarrow> db \<Rightarrow> bool" where
  step_confirm: "confirm s tid scanned q d = Inr (n, d') \<Longrightarrow> 0 \<le> q \<Longrightarrow> pick_step d d'"
| step_short: "short s tid q d = Inr (n, d') \<Longrightarrow> 0 \<le> q \<Longrightarrow> pick_step d d'"
| step_complete: "complete s bid d = Inr (r, d') \<Longrightarrow> pick_step d d'"
| step_cancel: "cancel_batch s bid d = Inr (k, d') \<Longrightarrow> pick_step d d'"
| step_create: "create_pick_batch idents wh user excl stamp d = Inr (res, d') \<Longrightarrow> pick_step d d'"

definition picking_ok :: "db \<Rightarrow> bool" where
  "picking_ok d \<longleftrightarrow> good d \<and> distinct (map sol_id (so_lines d)) \<and> tasks_ok d"

lemma tasks_ok_cong:
  "pick_tasks d' = pick_tasks d \<Longrightarrow> seqs d' Seq_task = seqs d Seq_task \<Longrightarrow> tasks_ok d' = tasks_ok d"
  by (simp add: tasks_ok_def picks_nonneg_def)

text \<open>Recording what was picked on one task.\<close>

lemma tasks_ok_record:
  assumes "tasks_ok d" "find_task tid d = Some t" "0 \<le> q" "q \<le> pt_qty t"
    and "\<And>x. pt_id (f x) = pt_id x \<and> pt_qty (f x) = pt_qty x \<and> pt_picked (f x) = q"
    and "pick_tasks d' = upd (\<lambda>x. pt_id x = tid) f (pick_tasks d)" "seqs d' Seq_task = seqs d Seq_task"
  shows "tasks_ok d'"
proof -
  have t: "t \<in> set (pick_tasks d)" "pt_id t = tid"
    using assms(2) find_Some_iff_first by (fastforce simp: find_task_def)+
  have "x = t" if "x \<in> set (pick_tasks d)" "pt_id x = tid" for x
    using key_inj [of pt_id "pick_tasks d" x t] assms(1) that t by (simp add: tasks_ok_def)
  then have "0 \<le> pt_picked x \<and> pt_picked x \<le> pt_qty x \<and> pt_id x < seqs d Seq_task"
    if "x \<in> set (pick_tasks d')" for x
    using that assms(1,3-6) by (auto simp: set_upd tasks_ok_def picks_nonneg_def)
  moreover have "map pt_id (pick_tasks d') = map pt_id (pick_tasks d)"
    unfolding assms(6) by (rule map_upd_same) (simp add: assms(5))
  ultimately show ?thesis using assms(1,7) by (simp add: tasks_ok_def picks_nonneg_def)
qed

definition line_ids :: "db \<Rightarrow> int list" where
  "line_ids d = map sol_id (so_lines d)"

lemma pick_frames:
  "pick_tasks (confirm_lines t q d) = pick_tasks d" "seqs (confirm_lines t q d) = seqs d"
  "line_ids (confirm_lines t q d) = line_ids d"
  "pick_tasks (short_lines t q d) = pick_tasks d" "seqs (short_lines t q d) = seqs d"
  "line_ids (short_lines t q d) = line_ids d"
proof -
  have c: "pick_tasks (fold confirm_breakdown bs d) = pick_tasks d \<and> seqs (fold confirm_breakdown bs d) = seqs d
      \<and> line_ids (fold confirm_breakdown bs d) = line_ids d" for bs d
    by (induction bs arbitrary: d) (simp_all add: confirm_breakdown_def add_picked_def set_sol_def line_ids_def map_upd_same)
  have s: "pick_tasks (snd (fold short_breakdown bs x)) = pick_tasks (snd x)
      \<and> seqs (snd (fold short_breakdown bs x)) = seqs (snd x)
      \<and> line_ids (snd (fold short_breakdown bs x)) = line_ids (snd x)" for bs x
    by (induction bs arbitrary: x)
      (simp_all add: short_breakdown_def add_picked_def set_sol_def line_ids_def map_upd_same Let_def)
  show "pick_tasks (confirm_lines t q d) = pick_tasks d" "seqs (confirm_lines t q d) = seqs d"
    "line_ids (confirm_lines t q d) = line_ids d"
    "pick_tasks (short_lines t q d) = pick_tasks d" "seqs (short_lines t q d) = seqs d"
    "line_ids (short_lines t q d) = line_ids d"
    using c s by (simp_all add: confirm_lines_def short_lines_def add_picked_def set_sol_def line_ids_def map_upd_same)
qed

lemma confirm_task_frames:
  assumes "confirm_task t q user d = Inr d'"
  shows "pick_tasks d' = upd (\<lambda>x. pt_id x = pt_id t) (\<lambda>x. x\<lparr>pt_state := TASK_PICKED, pt_picked := q,
           pt_by := Some user, pt_at := Some (now d), pt_confirmed := True\<rparr>) (pick_tasks d)"
    "seqs d' Seq_task = seqs d Seq_task" "line_ids d' = line_ids d"
proof -
  have t: "pick_tasks d' = pick_tasks d1 \<and> seqs d' = seqs d1 \<and> line_ids d' = line_ids d1"
    if "confirm_transfer t to_id q d1 = Inr d'" for to_id d1
    using that by (auto simp: confirm_transfer_def update_transfer_order_line_picked_def line_ids_def
        maybe_promote_header_to_partially_picked_def set_to_status_def split: option.splits if_splits sum.splits)
  have b: "pick_tasks (take_from_bin i b q a d1) = pick_tasks d1" "seqs (take_from_bin i b q a d1) = seqs d1"
    "line_ids (take_from_bin i b q a d1) = line_ids d1" for i b q a d1
    by (simp_all add: take_from_bin_def line_ids_def)
  have "pick_tasks d' = upd (\<lambda>x. pt_id x = pt_id t) (\<lambda>x. x\<lparr>pt_state := TASK_PICKED, pt_picked := q,
           pt_by := Some user, pt_at := Some (now d), pt_confirmed := True\<rparr>) (pick_tasks d)
      \<and> seqs d' Seq_task = seqs d Seq_task \<and> line_ids d' = line_ids d"
  proof (cases "pt_to t")
    case None
    then show ?thesis
      using assms by (auto simp: confirm_task_def Let_def b pick_frames set_task_def) (simp_all add: line_ids_def)
  next
    case (Some to_id)
    with assms t [of to_id] show ?thesis
      by (force simp: confirm_task_def Let_def set_task_def line_ids_def)
  qed
  then show "pick_tasks d' = upd (\<lambda>x. pt_id x = pt_id t) (\<lambda>x. x\<lparr>pt_state := TASK_PICKED, pt_picked := q,
           pt_by := Some user, pt_at := Some (now d), pt_confirmed := True\<rparr>) (pick_tasks d)"
    "seqs d' Seq_task = seqs d Seq_task" "line_ids d' = line_ids d" by auto
qed


lemma line_ids_distinct: "line_ids d' = line_ids d \<Longrightarrow> distinct (map sol_id (so_lines d')) = distinct (map sol_id (so_lines d))"
  by (simp add: line_ids_def)

lemma confirm_pick_ok:
  assumes "confirm_pick tid scanned q user d = Inr (n, d')" "picking_ok d" "0 \<le> q"
  shows "picking_ok d'"
proof -
  from confirm_pick_Inr [OF assms(1)] obtain t i wh d2 where
    t: "find_task tid d = Some t" and "pt_state t = TASK_PENDING" and q: "q \<le> pt_qty t"
    and "find_item (pt_item t) d = Some i" "barcode_matches scanned (item_upc i) (item_aliases i)"
    and c: "confirm_task t q user d = Inr d2" and "n = pending_count (pt_batch t) d2"
    and d': "d' = confirm_audit t (item_sku i) q user wh d2" .
  have audit: "pick_tasks d' = pick_tasks d2" "seqs d' Seq_task = seqs d2 Seq_task" "line_ids d' = line_ids d2"
    by (simp_all add: d' confirm_audit_def line_ids_def split: option.splits)
  have tid: "pt_id t = tid" using t find_Some_iff_first by (fastforce simp: find_task_def)
  have "tasks_ok d2"
    using tasks_ok_record [OF _ t assms(3) q _ confirm_task_frames(1) [OF c, unfolded tid] confirm_task_frames(2) [OF c]]
      assms(2) by (simp add: picking_ok_def)
  then show ?thesis
    using confirm_pick_good [OF assms(1) _ assms(3)] assms(2) tasks_ok_cong [OF audit(1,2)]
      line_ids_distinct [of d' d] audit(3) confirm_task_frames(3) [OF c] by (simp add: picking_ok_def)
qed

lemma short_pick_ok:
  assumes "short_pick tid q user d = Inr (n, d')" "picking_ok d" "0 \<le> q"
  shows "picking_ok d'"
proof -
  from short_pick_Inr [OF assms(1)] obtain t wh so js where
    t: "find_task tid d = Some t" and "pt_state t = TASK_PENDING" and q: "q \<le> pt_qty t"
    and "n = pt_qty t - q" and d': "d' = audit ''PICK'' ''SO'' so user wh js (short_state t q user d)"
    and "pt_so t = Some so" .
  have tid: "pt_id t = tid" using t find_Some_iff_first by (fastforce simp: find_task_def)
  have f: "pick_tasks d' = upd (\<lambda>x. pt_id x = tid) (\<lambda>t. t\<lparr>pt_state := TASK_SHORT, pt_picked := q,
      pt_by := Some user, pt_at := Some (now d)\<rparr>) (pick_tasks d)"
    "seqs d' Seq_task = seqs d Seq_task" "line_ids d' = line_ids d"
    by (simp_all add: d' short_state_def pick_frames take_from_bin_def set_task_def tid)
      (simp_all add: line_ids_def pick_frames [unfolded line_ids_def])
  have "tasks_ok d'"
    using tasks_ok_record [OF _ t assms(3) q _ f(1,2)] assms(2) by (simp add: picking_ok_def)
  then show ?thesis
    using short_pick_good [OF assms(1) _ assms(3)] assms(2) line_ids_distinct [OF f(3)] by (simp add: picking_ok_def)
qed

lemma complete_so_seq [simp]: "seqs (complete_so user txn so d) Seq_task = seqs d Seq_task"
  by (simp add: complete_so_def Let_def split: option.splits)

lemma submit_picks_seq [simp]: "seqs (snd (submit_picks t user d)) Seq_task = seqs d Seq_task"
  by (simp add: submit_picks_def uuid4_def nextval_def set_to_status_def Let_def split: option.splits)

lemma complete_batch_ok:
  assumes "complete_batch bid user txn d = Inr (res, d')" "picking_ok d"
  shows "picking_ok d'"
proof -
  from complete_batch_Inr [OF assms(1)] obtain wh js where
    "pending_count bid d \<le> 0" "silently_short bid d = []" and
    d': "d' = audit ''PICK'' ''BATCH'' bid user wh js (snd (complete_state bid user txn d))" and
    "bs_orders res = map so_number (fst (complete_state bid user txn d))" .
  have a: "seqs (fold (complete_so user txn) sos d) Seq_task = seqs d Seq_task" for sos d
    by (induction sos arbitrary: d) simp_all
  have b: "seqs (fold (\<lambda>o' d. snd (submit_picks o' user d)) ts d) Seq_task = seqs d Seq_task" for ts d
    by (induction ts arbitrary: d) simp_all
  have "pick_tasks d' = pick_tasks d" "so_lines d' = so_lines d" "seqs d' Seq_task = seqs d Seq_task"
    using complete_state_stock [of bid user txn d] by (simp_all add: d' complete_state_def Let_def a b)
  then show ?thesis
    using complete_batch_good [OF assms(1)] assms(2) tasks_ok_cong [of d' d] by (simp add: picking_ok_def)
qed


lemma cancel_batch_ok:
  assumes "full_revert_batch bid user d = Inr (n, d')" "picking_ok d"
  shows "picking_ok d'"
proof -
  note k = full_revert_kept [OF assms(1)]
  have "good d'" using full_revert_good [OF assms(1)] assms(2) by (simp add: picking_ok_def tasks_ok_def)
  then show ?thesis using kept_tasks [OF k] k assms(2) by (simp add: picking_ok_def kept_def)
qed

lemma alloc_rows_tasks_ok:
  assumes "tasks_ok d" "\<And>r. r \<in> set rs \<Longrightarrow> 0 < avail r"
  shows "tasks_ok (snd (alloc_rows b l tote rem rs d))"
proof (rule allocating.loop_invariant [where I = tasks_ok])
  fix r q s
  assume s: "tasks_ok s" and q: "0 < (q :: int)"
  obtain t where "pick_tasks (alloc_row b l tote r q s) = pick_tasks s @ [t]" "pt_id t = seqs s Seq_task"
    "pt_picked t = 0" "pt_qty t = q"
    by (simp add: alloc_row_def nextval_def reserve_row_def set_sol_def)
  with s q show "tasks_ok (alloc_row b l tote r q s)" by (force simp: tasks_ok_def picks_nonneg_def)
qed (use assms in auto)

lemma build_batch_tasks_ok:
  assumes "tasks_ok d"
  shows "tasks_ok (snd (build_batch number wh user sos d))"
proof -
  have line: "tasks_ok (snd (alloc_line b wh tote l s))" if "tasks_ok (snd s)" for b tote l and s :: "int \<times> db"
    using that alloc_rows_tasks_ok [of "snd s" "pickable_rows (sol_item l) wh (snd s)"]
    by (simp add: alloc_line_def Let_def split_beta pickable_rows_props)
  have order: "tasks_ok (snd (alloc_order b wh o' s))" if "tasks_ok (snd s)" for b o' and s :: "int \<times> db"
    unfolding alloc_order_def split_beta using that line
    by (intro fold_invariant [where P = "\<lambda>s. tasks_ok (snd s)" and Q = "\<lambda>_. True"]) auto
  have all: "tasks_ok (snd (fold (alloc_order b wh) os s))" if "tasks_ok (snd s)" for b os and s :: "int \<times> db"
    using that order by (intro fold_invariant [where P = "\<lambda>s. tasks_ok (snd s)" and Q = "\<lambda>_. True"]) auto
  have "tasks_ok (insert_batch_orders b sos (snd (insert_batch number wh user d))) = tasks_ok d" for b
    by (rule tasks_ok_cong) (simp_all add: insert_batch_orders_def insert_batch_def nextval_def)
  moreover have "tasks_ok (set_batch_totals b n m d) = tasks_ok d" for b n m d
    by (rule tasks_ok_cong) (simp_all add: set_batch_totals_def)
  ultimately show ?thesis
    using assms all by (simp add: build_batch_def split_beta Let_def)
qed

lemma create_pick_batch_ok:
  assumes "create_pick_batch idents wh user excl stamp d = Inr ((b, n, ts), d')" "picking_ok d"
  shows "picking_ok d'"
proof -
  define d0 where "d0 = snd (cancel_prior_user_batches user wh d)"
  from create_pick_batch_Inr [OF assms(1)] obtain sos where sos:
    "resolve_orders wh excl d0 idents = Inr sos" "distinct (map so_id sos)"
    "plan_coverage (coverage_map sos (normalize_orders wh sos d0)) wh (normalize_orders wh sos d0) = []"
    "build_batch (''BATCH-'' @ stamp) wh user sos (normalize_orders wh sos d0) = ((b, n), d')"
    unfolding d0_def .
  have ok: "good d" "picks_nonneg d" "distinct (map sol_id (so_lines d))" "tasks_ok d"
    using assms(2) by (simp_all add: picking_ok_def tasks_ok_def)
  note c = cancel_prior_sound [OF ok(1,2), of user wh, folded d0_def]
  have d0: "good d0" "distinct (map sol_id (so_lines d0))" "tasks_ok d0"
    using c ok(3,4) kept_tasks(2) [OF conjunct2 [OF c]] by (simp_all add: kept_def)
  obtain ls where f: "frees wh ls d0 (normalize_orders wh sos d0)" using normalize_orders_frees [OF d0(1)] ..
  have d1: "good (normalize_orders wh sos d0)" "distinct (map sol_id (so_lines (normalize_orders wh sos d0)))"
    using normalize_orders_good [OF d0(1,2)] by blast+
  have "tasks_ok (normalize_orders wh sos d0) = tasks_ok d0"
    using f unfolding frees_def by (elim conjE exE) (rule tasks_ok_cong; simp)
  then have "tasks_ok d'"
    using build_batch_tasks_ok [of "normalize_orders wh sos d0" "''BATCH-'' @ stamp" wh user sos] d0(3) sos(4) by simp
  moreover have "good d'" "distinct (map sol_id (so_lines d'))"
    using build_batch_serves [OF d1 sos(2,3), where number = "''BATCH-'' @ stamp" and user = user] sos(4) d1(2)
    by (auto simp: serves_def comp_def)
  ultimately show ?thesis by (simp add: picking_ok_def)
qed

lemma guarded_Inr: "guarded ok r = Inr a \<longleftrightarrow> ok \<and> r = Inr a"
  by (auto simp: guarded_def split: sum.splits)

lemma pick_step_ok: "picking_ok d \<Longrightarrow> pick_step d d' \<Longrightarrow> picking_ok d'"
  by (erule pick_step.cases)
    (auto simp: confirm_def short_def complete_def cancel_batch_def guarded_Inr
      intro: confirm_pick_ok short_pick_ok complete_batch_ok cancel_batch_ok create_pick_batch_ok)

interpretation picking: step_invariant pick_step picking_ok
  by unfold_locales (rule pick_step_ok)

text \<open>
  Claim C1. Whatever sequence of batch creations (by scanned orders; a wave is not one), confirmations,
  short picks, completions and cancellations is served, no inventory row ever ends with a negative
  reservation or with more reserved than on hand, no two rows of the same item, bin and
  lot appear, and no task ever records more than it was to pick.
\<close>

theorem picking_keeps_stock_sound:
  assumes "pick_step\<^sup>*\<^sup>* d d'" "picking_ok d"
  shows "(\<forall>r \<in> set (inventory d'). 0 \<le> allocated r \<and> allocated r \<le> on_hand r)
    \<and> distinct (map inv_key (inventory d'))
    \<and> (\<forall>t \<in> set (pick_tasks d'). 0 \<le> pt_picked t \<and> pt_picked t \<le> pt_qty t)"
  using picking.reachable [OF assms]
  by (auto simp: picking_ok_def tasks_ok_def picks_nonneg_def good_rows sound_row_def inv_wf_def)

theorem picking_keeps_stock_sound_witness:
  "\<exists>d'. pick_step demo_shop d' \<and> (\<forall>r \<in> set (inventory d'). 0 \<le> allocated r \<and> allocated r \<le> on_hand r)"
proof -
  from demo_shop_create obtain d' where
    r: "create_pick_batch [''SO-1'', ''SO-2''] 1 ''picker'' [] ''S'' demo_shop = Inr ((200, 5, tasks_for_batch 200 d'), d')"
    by blast
  have ok: "picking_ok demo_shop"
    by (simp add: demo_shop_def demo_pick_defs good_rows inv_wf_def sound_row_def picks_nonneg_def picking_ok_def tasks_ok_def)
  have s: "pick_step demo_shop d'" by (rule step_create) (rule r)
  from picking_keeps_stock_sound [OF r_into_rtranclp [of pick_step, OF s] ok] s show ?thesis by blast
qed

end
