(* ===== verification/Packing.thy ===== *)
theory Packing
  imports Picking
begin

text \<open>
  \<^verbatim>\<open>api/routes/packing.py\<close>: looking up a picked order, verifying its items by scan,
  and completing the pack. Verification only moves \<open>quantity_packed\<close>; completion moves
  the order from PICKED to PACKED and emits \<open>pack.confirmed\<close>. The guard against
  silent shortfalls is stated here per order, as packing and shipping both run it.
  Display weights (floating point) are not modelled.
\<close>

section \<open>Lookups\<close>

definition find_scoped_so :: "session \<Rightarrow> int \<Rightarrow> db \<Rightarrow> so_row option" where
  "find_scoped_so s i d =
     List.find (\<lambda>x. so_id x = i \<and> warehouse_scope_clause s (so_wh x)) (sales_orders d)"

definition scan_order :: "session \<Rightarrow> string \<Rightarrow> db \<Rightarrow> so_row option" where
  "scan_order s barcode d =
     List.find (\<lambda>x. (so_barcode x = Some barcode \<or> so_number x = barcode)
                  \<and> warehouse_scope_clause s (so_wh x)) (sales_orders d)"

definition order_lines :: "int \<Rightarrow> db \<Rightarrow> sol_row list" where
  "order_lines so d = filter (\<lambda>l. sol_so l = so) (so_lines d)"

text \<open>\<open>sales_order_lines sol JOIN items i ON i.item_id = sol.item_id\<close>.\<close>

definition join_items :: "sol_row list \<Rightarrow> db \<Rightarrow> (sol_row \<times> item_row) list" where
  "join_items ls d = [(l, i). l \<leftarrow> ls, i \<leftarrow> items d, item_id i = sol_item l]"

definition order_items :: "int \<Rightarrow> db \<Rightarrow> (sol_row \<times> item_row) list" where
  "order_items so d = join_items (order_lines so d) d"

definition order_shortfall :: "int \<Rightarrow> db \<Rightarrow> (int \<times> string \<times> int \<times> int) list" where
  "order_shortfall so d =
     sort_key fst
       [(sol_id l, item_sku i, sol_ordered l, sol_picked l).
          (l, i) \<leftarrow> order_items so d,
          sol_picked l < sol_ordered l \<and> \<not> short_marked (sol_id l) d]"

definition order_weight :: "int \<Rightarrow> db \<Rightarrow> rat" where
  "order_weight so d =
     sum_list [w * of_int (sol_picked l). (l, i) \<leftarrow> order_items so d,
                 w \<leftarrow> (case item_weight i of None \<Rightarrow> [] | Some w \<Rightarrow> [w])]"

datatype pack_error =
  KE_not_found
| KE_not_ready so_status
| KE_already_verified
| KE_not_on_order
| KE_over_pack int
| KE_unverified int
| KE_silently_short "(int \<times> string \<times> int \<times> int) list"

text \<open>\<open>GET /order/<barcode>\<close>: the order, its lines with their verified flag, and the totals.\<close>

record pack_view =
  pv_order :: so_row
  pv_lines :: "(sol_row \<times> item_row \<times> bool) list"
  pv_total :: int
  pv_verified :: int

definition get_pack_order :: "session \<Rightarrow> string \<Rightarrow> db \<Rightarrow> pack_error + pack_view" where
  "get_pack_order s barcode d =
     (case scan_order s barcode d of
        None \<Rightarrow> Inl KE_not_found
      | Some so \<Rightarrow>
          if so_state so \<noteq> SO_PICKED then Inl (KE_not_ready (so_state so))
          else
            let ls = join_items (sort_key sol_number (order_lines (so_id so) d)) d
            in Inr \<lparr>pv_order = so,
                    pv_lines = map (\<lambda>(l, i). (l, i, sol_picked l \<le> sol_packed l)) ls,
                    pv_total = sum_list (map (\<lambda>(l, i). sol_picked l) ls),
                    pv_verified = total (\<lambda>(l, i). sol_picked l \<le> sol_packed l) (\<lambda>(l, i). sol_picked l) ls\<rparr>)"

section \<open>Verifying an item\<close>

definition scan_hits :: "string \<Rightarrow> item_row \<Rightarrow> bool" where
  "scan_hits scanned i \<longleftrightarrow> barcode_matches scanned (item_upc i) (item_aliases i)"

text \<open>The first line of the scanned item that still has something to verify.\<close>

definition matched_line :: "string \<Rightarrow> (sol_row \<times> item_row) list \<Rightarrow> (sol_row \<times> item_row) option" where
  "matched_line scanned ls =
     List.find (\<lambda>(l, i). scan_hits scanned i \<and> sol_packed l < sol_picked l) ls"

definition pack_line :: "int \<Rightarrow> int \<Rightarrow> db \<Rightarrow> db" where
  "pack_line i q = set_sol (Some i) (\<lambda>l. l\<lparr>sol_packed := q,
     sol_state := (if sol_picked l \<le> q then SOL_AS SO_PACKED else sol_state l)\<rparr>)"

record verify_result =
  vr_sku :: string
  vr_quantity :: int
  vr_line_complete :: bool
  vr_total :: int
  vr_verified :: int

definition verify_item ::
    "session \<Rightarrow> int \<Rightarrow> string \<Rightarrow> int \<Rightarrow> db \<Rightarrow> pack_error + (verify_result \<times> db)" where
  "verify_item s so scanned q d =
     (case find_scoped_so s so d of
        None \<Rightarrow> Inl KE_not_found
      | Some x \<Rightarrow>
          if so_state x \<noteq> SO_PICKED then Inl (KE_not_ready (so_state x))
          else
            case matched_line scanned (order_items so d) of
              None \<Rightarrow>
                if \<exists>(l, i) \<in> set (order_items so d). scan_hits scanned i
                then Inl KE_already_verified else Inl KE_not_on_order
            | Some (l, i) \<Rightarrow>
                if sol_picked l - sol_packed l < q then Inl (KE_over_pack (sol_picked l - sol_packed l))
                else
                  let d1 = pack_line (sol_id l) (sol_packed l + q) d
                  in Inr (\<lparr>vr_sku = item_sku i, vr_quantity = q,
                           vr_line_complete = (sol_picked l \<le> sol_packed l + q),
                           vr_total = int (length (order_lines so d1)),
                           vr_verified = int (length (filter (\<lambda>l. sol_picked l \<le> sol_packed l)
                                           (order_lines so d1)))\<rparr>, d1))"

section \<open>Completing the pack\<close>

definition unverified_count :: "int \<Rightarrow> db \<Rightarrow> int" where
  "unverified_count so d = int (length (filter (\<lambda>l. sol_packed l < sol_picked l) (order_lines so d)))"

text \<open>One package per order; both confirmations synthesise it the same way.\<close>

definition package_json :: "so_row \<Rightarrow> rat \<Rightarrow> (sol_row \<Rightarrow> int) \<Rightarrow> db \<Rightarrow> json" where
  "package_json so weight units d =
     JObj [(''package_external_id'', JStr (so_ext so @ ''-pkg-1'')),
           (''weight_lb'', JNum weight),
           (''dimensions_in'', JNull),
           (''lines'', JArr
              [JObj [(''item_external_id'', JStr x), (''quantity_packed'', JInt (units l))].
                 (l, i) \<leftarrow> join_items (sort_key sol_number (order_lines (so_id so) d)) d,
                 x \<leftarrow> joined_source_ids (item_ext i) d])]"

definition pack_event :: "string \<Rightarrow> string \<Rightarrow> so_row \<Rightarrow> db \<Rightarrow> db" where
  "pack_event user txn so d =
     snd (emit_event ''pack.confirmed'' 1 ''sales_order'' (so_id so) (so_ext so) (so_wh so) txn
       (JObj [(''sales_order_external_id'', JStr (source_or_canonical ''sales_order'' (so_ext so) d)),
              (''packages'', JArr [package_json so (order_weight (so_id so) d) sol_packed d]),
              (''completed_by_user_external_id'', jopt JStr (get_user_external_id user d)),
              (''completed_at'', JTime (now d))]) d)"

definition complete_packing :: "session \<Rightarrow> int \<Rightarrow> db \<Rightarrow> pack_error + (int \<times> db)" where
  "complete_packing s so d =
     (case find_scoped_so s so d of
        None \<Rightarrow> Inl KE_not_found
      | Some x \<Rightarrow>
          if so_state x \<noteq> SO_PICKED then Inl (KE_not_ready (so_state x))
          else if 0 < unverified_count so d then Inl (KE_unverified (unverified_count so d))
          else if order_shortfall so d \<noteq> [] then Inl (KE_silently_short (order_shortfall so d))
          else
            let d1 = d\<lparr>sales_orders := upd (\<lambda>y. so_id y = so)
                        (\<lambda>y. y\<lparr>so_state := SO_PACKED, so_packed_at := Some (now d)\<rparr>) (sales_orders d)\<rparr>;
                picked = sum_list [sol_picked l. (l, i) \<leftarrow> order_items so d1];
                packed = sum_list [sol_packed l. (l, i) \<leftarrow> order_items so d1];
                d2 = audit ''PACK'' ''SO'' so (s_user s) (so_wh x)
                       (JObj [(''so_number'', JStr (so_number x)), (''total_expected'', JInt picked),
                              (''total_packed'', JInt packed), (''total_items'', JInt picked)]) d1
            in Inr (picked, pack_event (s_user s) (s_txn s) x d2))"

section \<open>What the operations do\<close>

definition items_known :: "int \<Rightarrow> db \<Rightarrow> bool" where
  "items_known so d \<longleftrightarrow> (\<forall>l \<in> set (order_lines so d). \<exists>i \<in> set (items d). item_id i = sol_item l)"

lemma order_items_member:
  "(l, i) \<in> set (order_items so d) \<longleftrightarrow>
     l \<in> set (so_lines d) \<and> sol_so l = so \<and> i \<in> set (items d) \<and> item_id i = sol_item l"
  by (auto simp: order_items_def join_items_def order_lines_def)

lemma order_shortfall_none:
  assumes "items_known so d"
  shows "order_shortfall so d = [] \<longleftrightarrow>
    (\<forall>l \<in> set (order_lines so d). sol_ordered l \<le> sol_picked l \<or> short_marked (sol_id l) d)"
proof -
  have sort: "(sort_key fst xs = []) = (xs = [])" for xs :: "(int \<times> string \<times> int \<times> int) list"
    by (metis length_0_conv length_sort)
  have "order_shortfall so d = [] \<longleftrightarrow>
      (\<forall>(l, i) \<in> set (order_items so d). \<not> (sol_picked l < sol_ordered l \<and> \<not> short_marked (sol_id l) d))"
    by (auto simp: order_shortfall_def sort concat_eq_Nil_conv split: if_splits)
  also have "\<dots> \<longleftrightarrow> (\<forall>l \<in> set (order_lines so d). sol_ordered l \<le> sol_picked l \<or> short_marked (sol_id l) d)"
    using assms unfolding Ball_def split_paired_All order_items_member items_known_def
    by (auto simp: order_lines_def not_less)
  finally show ?thesis .
qed

lemma unverified_none:
  "0 < unverified_count so d \<longleftrightarrow> (\<exists>l \<in> set (order_lines so d). sol_packed l < sol_picked l)"
  by (auto simp: unverified_count_def filter_empty_conv)

lemma complete_packing_accepts:
  "(\<exists>a. complete_packing s so d = Inr a) \<longleftrightarrow>
     (\<exists>x. find_scoped_so s so d = Some x \<and> so_state x = SO_PICKED)
     \<and> \<not> 0 < unverified_count so d \<and> order_shortfall so d = []"
  by (auto simp: complete_packing_def Let_def split: option.splits)

lemma complete_packing_Inr:
  assumes "complete_packing s so d = Inr (n, d')"
  obtains x where "find_scoped_so s so d = Some x" "so_state x = SO_PICKED"
    "\<not> 0 < unverified_count so d" "order_shortfall so d = []"
    "sales_orders d' = upd (\<lambda>y. so_id y = so)
       (\<lambda>y. y\<lparr>so_state := SO_PACKED, so_packed_at := Some (now d)\<rparr>) (sales_orders d)"
  using assms
  by (auto simp: complete_packing_def Let_def pack_event_def split: option.splits if_splits)

lemma pack_line_frame [simp]:
  "sales_orders (pack_line i q d) = sales_orders d" "items (pack_line i q d) = items d"
  "pick_tasks (pack_line i q d) = pick_tasks d" "breakdowns (pack_line i q d) = breakdowns d"
  "inventory (pack_line i q d) = inventory d" "fulfillments (pack_line i q d) = fulfillments d"
  "fulfillment_lines (pack_line i q d) = fulfillment_lines d" "bins (pack_line i q d) = bins d"
  "seqs (pack_line i q d) = seqs d" "users (pack_line i q d) = users d"
  "idempotency (pack_line i q d) = idempotency d" "settings (pack_line i q d) = settings d"
  "events (pack_line i q d) = events d" "now (pack_line i q d) = now d"
  by (simp_all add: pack_line_def set_sol_def)

lemma so_lines_pack:
  "so_lines (pack_line i q d) = upd (\<lambda>l. sol_id l = i) (\<lambda>l. l\<lparr>sol_packed := q,
     sol_state := (if sol_picked l \<le> q then SOL_AS SO_PACKED else sol_state l)\<rparr>) (so_lines d)"
  by (simp add: pack_line_def set_sol_def)

lemma verify_item_Inr:
  assumes "verify_item s so scanned q d = Inr (r, d')"
  obtains x l where "find_scoped_so s so d = Some x" "so_state x = SO_PICKED"
    "l \<in> set (so_lines d)" "sol_so l = so" "sol_packed l < sol_picked l"
    "sol_packed l + q \<le> sol_picked l" "d' = pack_line (sol_id l) (sol_packed l + q) d"
  using assms
  by (auto simp: verify_item_def Let_def matched_line_def order_items_member
      split: option.splits if_splits dest!: find_Some_iff_first)

text \<open>Units of the order still to be verified.\<close>

definition remaining :: "int \<Rightarrow> db \<Rightarrow> int" where
  "remaining so d = total (\<lambda>l. sol_so l = so) (\<lambda>l. max 0 (sol_picked l - sol_packed l)) (so_lines d)"

lemma remaining_nonneg: "0 \<le> remaining so d"
  by (simp add: remaining_def total_nonneg)

lemma remaining_pack:
  assumes "distinct (map sol_id (so_lines d))" "l \<in> set (so_lines d)" "sol_so l = so"
    "sol_packed l < sol_picked l" "sol_packed l + q \<le> sol_picked l"
  shows "remaining so (pack_line (sol_id l) (sol_packed l + q) d) = remaining so d - q"
proof -
  let ?f = "\<lambda>x. x\<lparr>sol_packed := sol_packed l + q,
     sol_state := (if sol_picked x \<le> sol_packed l + q then SOL_AS SO_PACKED else sol_state x)\<rparr>"
  let ?g = "\<lambda>l. max 0 (sol_picked l - sol_packed l)"
  have "total (\<lambda>l. sol_so l = so) ?g (upd (\<lambda>x. sol_id x = sol_id l) ?f (so_lines d))
      = remaining so d + (if sol_so l = so then ?g (?f l) - ?g l else 0)"
    unfolding remaining_def by (rule total_upd_key [OF assms(1,2)]) simp
  with assms(3-5) show ?thesis by (simp add: remaining_def so_lines_pack)
qed

text \<open>A sequence of scans of one order, each a request of its own; the first refusal ends it.\<close>

fun verify_run :: "session \<Rightarrow> int \<Rightarrow> (string \<times> int) list \<Rightarrow> db \<Rightarrow> pack_error + db" where
  "verify_run s so [] d = Inr d"
| "verify_run s so ((b, q) # scans) d =
     (case verify_item s so b q d of Inl e \<Rightarrow> Inl e | Inr (r, d1) \<Rightarrow> verify_run s so scans d1)"

lemma map_sol_id_pack [simp]: "map sol_id (so_lines (pack_line i q d)) = map sol_id (so_lines d)"
  by (simp add: so_lines_pack map_upd_same)

lemma verify_run_remaining:
  "verify_run s so scans d = Inr d' \<Longrightarrow> distinct (map sol_id (so_lines d)) \<Longrightarrow>
     remaining so d' = remaining so d - sum_list (map snd scans)"
proof (induction scans arbitrary: d)
  case Nil
  then show ?case by simp
next
  case (Cons c scans)
  obtain b q where c: "c = (b, q)" by (cases c)
  with Cons.prems(1) obtain r d1 where one: "verify_item s so b q d = Inr (r, d1)"
    and rest: "verify_run s so scans d1 = Inr d'"
    by (auto split: sum.splits)
  from verify_item_Inr [OF one] obtain l where l: "l \<in> set (so_lines d)" "sol_so l = so"
    "sol_packed l < sol_picked l" "sol_packed l + q \<le> sol_picked l"
    and d1: "d1 = pack_line (sol_id l) (sol_packed l + q) d" by metis
  with Cons.IH [OF rest] Cons.prems(2) remaining_pack [OF Cons.prems(2) l] show ?case
    by (simp add: c)
qed

text \<open>
  Claim C37. Packing scans end: in any run of accepted scans the units left to verify fall
  by exactly the scanned quantities, so a run can be no longer than the units the order
  still had to verify.
\<close>

theorem verification_terminates:
  assumes "distinct (map sol_id (so_lines d))" and "verify_run s so scans d = Inr d'"
    and "\<forall>c \<in> set scans. 1 \<le> snd c"
  shows "remaining so d' = remaining so d - sum_list (map snd scans)
    \<and> int (length scans) \<le> remaining so d"
proof
  show eq: "remaining so d' = remaining so d - sum_list (map snd scans)"
    by (rule verify_run_remaining [OF assms(2,1)])
  have "int (length scans) \<le> sum_list (map snd scans)"
    using assms(3) by (induction scans) auto
  with eq remaining_nonneg [of so d'] show "int (length scans) \<le> remaining so d" by simp
qed

text \<open>What verification leaves alone on every line.\<close>

definition line_columns :: "sol_row \<Rightarrow> int \<times> int \<times> int \<times> int \<times> int" where
  "line_columns l = (sol_id l, sol_so l, sol_item l, sol_ordered l, sol_picked l)"

lemma line_columns_pack [simp]:
  "map line_columns (so_lines (pack_line i q d)) = map line_columns (so_lines d)"
  by (simp add: so_lines_pack map_upd_same line_columns_def)

lemma ball_columns:
  assumes "map line_columns (so_lines d') = map line_columns (so_lines d)"
    and "\<forall>l \<in> set (so_lines d). Q (line_columns l)"
  shows "\<forall>l \<in> set (so_lines d'). Q (line_columns l)"
proof
  fix l
  assume "l \<in> set (so_lines d')"
  then have "line_columns l \<in> set (map line_columns (so_lines d))"
    by (simp flip: assms(1))
  with assms(2) show "Q (line_columns l)" by auto
qed

text \<open>An order that can be packed: each line's item has a barcode to scan, which the route's schema admits
  unless it is empty (the column holds at most 50 characters, the schema 128), and no line is under-picked without a marker.\<close>

definition packable :: "int \<Rightarrow> db \<Rightarrow> bool" where
  "packable so d \<longleftrightarrow> (\<forall>l \<in> set (so_lines d). sol_so l = so \<longrightarrow>
     (\<exists>i \<in> set (items d). item_id i = sol_item l \<and> item_upc i \<noteq> None \<and> item_upc i \<noteq> Some '''')
     \<and> (sol_ordered l \<le> sol_picked l \<or> short_marked (sol_id l) d))"

lemma packable_pack:
  assumes "packable so d"
  shows "packable so (pack_line i q d)"
proof -
  let ?Q = "\<lambda>(lid, sid, item, ordered, picked). sid = so \<longrightarrow>
     (\<exists>i \<in> set (items d). item_id i = item \<and> item_upc i \<noteq> None \<and> item_upc i \<noteq> Some '''')
     \<and> (ordered \<le> picked \<or> short_marked lid d)"
  have "\<forall>l \<in> set (so_lines (pack_line i q d)). ?Q (line_columns l)"
    using assms by (intro ball_columns [OF line_columns_pack]) (simp add: packable_def line_columns_def)
  then show ?thesis by (simp add: packable_def line_columns_def short_marked_def)
qed

lemma packable_accounted:
  assumes "packable so d"
  shows "order_shortfall so d = []"
proof -
  have "items_known so d"
    unfolding items_known_def order_lines_def using assms by (auto simp: packable_def)
  moreover have "\<forall>l \<in> set (order_lines so d). sol_ordered l \<le> sol_picked l \<or> short_marked (sol_id l) d"
    unfolding order_lines_def using assms by (auto simp: packable_def)
  ultimately show ?thesis by (simp add: order_shortfall_none)
qed

lemma remaining_zero:
  assumes "remaining so d = 0"
  shows "\<not> 0 < unverified_count so d"
proof (rule ccontr)
  assume "\<not> \<not> 0 < unverified_count so d"
  then obtain l where l: "l \<in> set (so_lines d)" "sol_so l = so" "sol_packed l < sol_picked l"
    by (auto simp: unverified_none order_lines_def)
  from total_ge_member [of l "so_lines d" "\<lambda>l. sol_so l = so" "\<lambda>l. max 0 (sol_picked l - sol_packed l)"] l
  have "max 0 (sol_picked l - sol_packed l) \<le> remaining so d"
    unfolding remaining_def by simp
  with assms l(3) show False by simp
qed

lemma unverified_left:
  assumes "remaining so d \<noteq> 0"
  obtains l where "l \<in> set (so_lines d)" "sol_so l = so" "sol_packed l < sol_picked l"
proof -
  have "\<exists>l \<in> set (so_lines d). sol_so l = so \<and> sol_packed l < sol_picked l"
  proof (rule ccontr)
    assume "\<not> ?thesis"
    then have "remaining so d = total (\<lambda>l. sol_so l = so) (\<lambda>_. 0) (so_lines d)"
      unfolding remaining_def by (intro total_cong) auto
    with assms show False by (simp add: total_def)
  qed
  then show ?thesis using that by blast
qed

lemma verify_progress:
  assumes "find_scoped_so s so d = Some x" "so_state x = SO_PICKED" "packable so d"
    and "remaining so d \<noteq> 0"
  obtains b r l where "b \<noteq> ''''" "verify_item s so b 1 d = Inr (r, pack_line (sol_id l) (sol_packed l + 1) d)"
    "l \<in> set (so_lines d)" "sol_so l = so" "sol_packed l < sol_picked l"
proof -
  obtain l where l: "l \<in> set (so_lines d)" "sol_so l = so" "sol_packed l < sol_picked l"
    using unverified_left [OF assms(4)] .
  with assms(3) obtain i b where i: "i \<in> set (items d)" "item_id i = sol_item l" "item_upc i = Some b" "b \<noteq> ''''"
    unfolding packable_def by fastforce
  have "(l, i) \<in> set (order_items so d)" "scan_hits b i"
    using l i by (simp_all add: order_items_member scan_hits_def barcode_matches_def)
  with l(3) have "matched_line b (order_items so d) \<noteq> None"
    unfolding matched_line_def by (auto simp: find_None)
  then obtain l' i' where m: "matched_line b (order_items so d) = Some (l', i')" by auto
  from find_Some_iff_first [OF m [unfolded matched_line_def]]
  have l': "l' \<in> set (so_lines d)" "sol_so l' = so" "sol_packed l' < sol_picked l'"
    by (simp_all add: order_items_member)
  with m assms(1,2) have "\<exists>r. verify_item s so b 1 d = Inr (r, pack_line (sol_id l') (sol_packed l' + 1) d)"
    by (simp add: verify_item_def Let_def)
  with l' i(4) that show ?thesis by blast
qed

lemma find_scoped_pack [simp]: "find_scoped_so s so (pack_line i q d) = find_scoped_so s so d"
  by (simp add: find_scoped_so_def)

lemma packing_run:
  assumes "find_scoped_so s so d = Some x" "so_state x = SO_PICKED" "packable so d"
    and "distinct (map sol_id (so_lines d))"
  shows "\<exists>scans d1. int (length scans) = remaining so d \<and> (\<forall>c \<in> set scans. fst c \<noteq> '''' \<and> snd c = 1) \<and> verify_run s so scans d = Inr d1
    \<and> remaining so d1 = 0 \<and> packable so d1 \<and> sales_orders d1 = sales_orders d"
  using assms
proof (induction "nat (remaining so d)" arbitrary: d)
  case 0
  then show ?case using remaining_nonneg [of so d]
    by (intro exI [of _ "[]"] exI [of _ d]) simp
next
  case (Suc n)
  then have "remaining so d \<noteq> 0" by simp
  with Suc.prems obtain b r l
    where b: "b \<noteq> ''''" and step: "verify_item s so b 1 d = Inr (r, pack_line (sol_id l) (sol_packed l + 1) d)"
      and l: "l \<in> set (so_lines d)" "sol_so l = so" "sol_packed l < sol_picked l"
    using verify_progress by metis
  let ?d = "pack_line (sol_id l) (sol_packed l + 1) d"
  have rem: "remaining so ?d = remaining so d - 1"
    by (rule remaining_pack [OF Suc.prems(4) l]) (use l(3) in simp)
  have "n = nat (remaining so ?d)" using Suc.hyps(2) rem by simp
  from Suc.hyps(1) [OF this] Suc.prems packable_pack
  obtain scans d1 where run: "int (length scans) = remaining so ?d" "\<forall>c \<in> set scans. fst c \<noteq> '''' \<and> snd c = 1"
    "verify_run s so scans ?d = Inr d1" "remaining so d1 = 0" "packable so d1" "sales_orders d1 = sales_orders ?d"
    by auto
  with b step rem show ?case
    by (intro exI [of _ "(b, 1) # scans"] exI [of _ d1]) simp
qed

text \<open>
  Claim C36. A picked order can always be packed: if every line's item has a barcode, and not an
  empty one, and no line is under-picked without a short marker, then there are requests the route's
  schema admits, each scanning one unit under a barcode, as many as there are units left, that verify
  the whole order, and completion then accepts it and puts it in PACKED. No packable order gets stuck.
\<close>

theorem packing_always_completes:
  assumes "find_scoped_so s so d = Some x" "so_state x = SO_PICKED" "packable so d"
    and "distinct (map sol_id (so_lines d))"
  shows "\<exists>scans d1 n d2. int (length scans) = remaining so d \<and> (\<forall>c \<in> set scans. fst c \<noteq> '''' \<and> snd c = 1)
    \<and> verify_run s so scans d = Inr d1
    \<and> complete_packing s so d1 = Inr (n, d2)
    \<and> map so_state (filter (\<lambda>y. so_id y = so) (sales_orders d2))
        = map (\<lambda>_. SO_PACKED) (filter (\<lambda>y. so_id y = so) (sales_orders d))"
proof -
  obtain scans d1 where run: "int (length scans) = remaining so d" "\<forall>c \<in> set scans. fst c \<noteq> '''' \<and> snd c = 1"
    "verify_run s so scans d = Inr d1" and rest: "remaining so d1 = 0" "packable so d1" and so: "sales_orders d1 = sales_orders d"
    using packing_run [OF assms] by blast
  have "find_scoped_so s so d1 = Some x"
    using assms(1) so by (simp add: find_scoped_so_def)
  then have "\<exists>a. complete_packing s so d1 = Inr a"
    unfolding complete_packing_accepts
    using assms(2) remaining_zero [OF rest(1)] packable_accounted [OF rest(2)] by simp
  then obtain n d2 where fin: "complete_packing s so d1 = Inr (n, d2)" by auto
  from complete_packing_Inr [OF this]
  have "sales_orders d2 = upd (\<lambda>y. so_id y = so)
      (\<lambda>y. y\<lparr>so_state := SO_PACKED, so_packed_at := Some (now d1)\<rparr>) (sales_orders d1)" by metis
  then have "map so_state (filter (\<lambda>y. so_id y = so) (sales_orders d2))
      = map (\<lambda>_. SO_PACKED) (filter (\<lambda>y. so_id y = so) (sales_orders d))"
    unfolding so upd_def by (simp add: filter_map comp_def if_distrib [of so_id] cong: if_cong)
  with run fin show ?thesis by blast
qed

section \<open>Examples\<close>

text \<open>An order of two lines of one item, picked, one unit already verified.\<close>

definition demo_packer :: session where
  "demo_packer = \<lparr>s_user = ''packer'', s_admin = False, s_whs = [1], s_txn = ''t-pack''\<rparr>"

definition demo_pack_line :: "int \<Rightarrow> int \<Rightarrow> int \<Rightarrow> sol_row" where
  "demo_pack_line i picked packed = (demo_sol i 11 picked)\<lparr>sol_picked := picked, sol_packed := packed\<rparr>"

definition demo_packing :: db where
  "demo_packing = demo_wave\<lparr>sales_orders := [(demo_so 11 ''SO-1'')\<lparr>so_state := SO_PICKED\<rparr>],
     so_lines := [demo_pack_line 111 2 1, demo_pack_line 112 1 0], breakdowns := [], pick_tasks := []\<rparr>"

lemmas demo_packing_defs = demo_packing_def demo_pack_line_def demo_packer_def demo_pick_defs

lemma demo_packing_ready:
  "find_scoped_so demo_packer 11 demo_packing = Some ((demo_so 11 ''SO-1'')\<lparr>so_state := SO_PICKED\<rparr>)"
  "packable 11 demo_packing" "distinct (map sol_id (so_lines demo_packing))" "remaining 11 demo_packing = 2"
  by (simp_all add: demo_packing_defs find_scoped_so_def warehouse_scope_clause_def packable_def
      remaining_def short_marked_def)

lemma packing_always_completes_witness:
  "\<exists>scans d1 n d2. int (length scans) = 2 \<and> (\<forall>c \<in> set scans. fst c \<noteq> '''' \<and> snd c = 1) \<and> verify_run demo_packer 11 scans demo_packing = Inr d1
    \<and> complete_packing demo_packer 11 d1 = Inr (n, d2)"
  using packing_always_completes [OF demo_packing_ready(1) _ demo_packing_ready(2,3)]
  unfolding demo_packing_ready(4) by auto

lemma verification_terminates_witness:
  "\<exists>d'. verify_run demo_packer 11 [(''123'', 1), (''123'', 1)] demo_packing = Inr d' \<and> remaining 11 d' = 0"
proof -
  have "\<exists>d'. verify_run demo_packer 11 [(''123'', 1), (''123'', 1)] demo_packing = Inr d'"
    by (simp add: demo_packing_defs verify_item_def find_scoped_so_def warehouse_scope_clause_def
        order_items_def join_items_def order_lines_def matched_line_def scan_hits_def
        barcode_matches_def Let_def pack_line_def set_sol_def)
  then obtain d' where run: "verify_run demo_packer 11 [(''123'', 1), (''123'', 1)] demo_packing = Inr d'" ..
  from verification_terminates [OF demo_packing_ready(3) this] run show ?thesis
    by (simp add: demo_packing_ready(4))
qed

end
