(* ===== verification/Shipping.thy ===== *)
theory Shipping
  imports Packing "HOL-Library.Sublist"
begin

text \<open>
  \<^verbatim>\<open>api/services/shipping_service.py\<close> and its cookie-authenticated route
  \<^verbatim>\<open>api/routes/shipping.py\<close>: recording a ship, the corrective admin ship, and voiding
  a ship. Shipping books what was picked: it writes fulfillment rows, the shipped
  quantities and the header, and never touches stock. Characters are those of
  Isabelle's \<open>char\<close>; column widths are not modelled.
\<close>

section \<open>Settings and carriers\<close>

definition require_packing_before_shipping :: "db \<Rightarrow> bool" where
  "require_packing_before_shipping d \<longleftrightarrow>
     settings d ''require_packing_before_shipping'' \<noteq> Some ''false''"

text \<open>\<open>token in haystack\<close> and \<open>not s.strip()\<close>.\<close>

definition contains :: "string \<Rightarrow> string \<Rightarrow> bool" where
  "contains token s \<longleftrightarrow> list_ex (prefix token) (suffixes s)"

definition blank :: "string \<Rightarrow> bool" where
  "blank s \<longleftrightarrow> list_all whitespace s"

definition carrier_tokens :: "(string \<times> string) list" where
  "carrier_tokens =
     [(''usps'', ''USPS''), (''ups'', ''UPS''), (''fedex'', ''FedEx''), (''fed ex'', ''FedEx''),
      (''dhl'', ''DHL''), (''amazon'', ''Amazon'')]"

definition carrier_from_ship_method :: "string option \<Rightarrow> string" where
  "carrier_from_ship_method m =
     (let haystack = lower (case m of None \<Rightarrow> [] | Some x \<Rightarrow> x)
      in case List.find (\<lambda>(token, label). contains token haystack) carrier_tokens of
           None \<Rightarrow> ''Other'' | Some (token, label) \<Rightarrow> label)"

section \<open>The event\<close>

text \<open>\<open>GREATEST(COALESCE(quantity_packed, 0), COALESCE(quantity_picked, 0))\<close> units per line.\<close>

definition emit_ship_confirmed ::
    "so_row \<Rightarrow> string option \<Rightarrow> string \<Rightarrow> string option \<Rightarrow> string \<Rightarrow> string \<Rightarrow> int \<Rightarrow> db \<Rightarrow> db" where
  "emit_ship_confirmed so tracking carrier method txn user tm d =
     snd (emit_event ''ship.confirmed'' 1 ''sales_order'' (so_id so) (so_ext so) (so_wh so) txn
       (JObj [(''sales_order_external_id'', JStr (source_or_canonical ''sales_order'' (so_ext so) d)),
              (''tracking_numbers'', JArr (case tracking of
                 None \<Rightarrow> [] | Some t \<Rightarrow> if blank t then [] else [JStr t])),
              (''carrier'', JStr carrier),
              (''service_level'', jopt JStr method),
              (''packages'', JArr [package_json so (order_weight (so_id so) d)
                                     (\<lambda>l. max (sol_packed l) (sol_picked l)) d]),
              (''completed_by_user_external_id'', jopt JStr (get_user_external_id user d)),
              (''completed_at'', JTime tm)]) d)"

section \<open>Fulfillment rows\<close>

datatype ship_error =
  SE_bad_barcode
| SE_not_found
| SE_not_packed so_status
| SE_not_ready so_status
| SE_not_eligible order_type
| SE_wrong_status so_status
| SE_already_fulfilled
| SE_silently_short "(int \<times> string \<times> int \<times> int) list"
| SE_nothing_to_ship
| SE_no_bin int
| SE_internal

definition pick_bin :: "int \<Rightarrow> int \<Rightarrow> db \<Rightarrow> int option" where
  "pick_bin so item d =
     (case sort_key pt_id (filter (\<lambda>t. pt_so t = Some so \<and> pt_item t = item
             \<and> (pt_state t = TASK_PICKED \<or> pt_state t = TASK_SHORT)) (pick_tasks d)) of
        [] \<Rightarrow> None | t # _ \<Rightarrow> Some (pt_bin t))"

text \<open>The fulfillment line, then \<open>quantity_shipped = quantity_picked\<close> on the order line.\<close>

definition ship_line :: "int \<Rightarrow> int \<Rightarrow> int \<Rightarrow> sol_row \<Rightarrow> db \<Rightarrow> db" where
  "ship_line fid bin q l d =
     set_sol (Some (sol_id l)) (\<lambda>x. x\<lparr>sol_shipped := sol_picked x, sol_state := SOL_AS SO_SHIPPED\<rparr>)
       (d\<lparr>fulfillment_lines := fulfillment_lines d @
            [\<lparr>fl_fulf = fid, fl_sol = sol_id l, fl_item = sol_item l, fl_qty = q, fl_bin = bin\<rparr>]\<rparr>)"

text \<open>The loop over the lines: \<open>bin\<close> resolves the bin or fails, \<open>q\<close> is what the line ships.\<close>

fun ship_lines :: "(sol_row \<Rightarrow> db \<Rightarrow> ship_error + int) \<Rightarrow> (sol_row \<Rightarrow> int) \<Rightarrow> int \<Rightarrow> sol_row list \<Rightarrow> db
    \<Rightarrow> ship_error + db" where
  "ship_lines bin q fid [] d = Inr d"
| "ship_lines bin q fid (l # ls) d =
     (case bin l d of
        Inl e \<Rightarrow> Inl e
      | Inr b \<Rightarrow> ship_lines bin q fid ls (ship_line fid b (q l) l d))"

definition insert_fulfillment :: "fulf_row \<Rightarrow> db \<Rightarrow> int \<times> db" where
  "insert_fulfillment f d =
     (let (i, d1) = nextval Seq_fulfillment d; (u, d2) = uuid4 d1
      in (i, d2\<lparr>fulfillments := fulfillments d2 @ [f\<lparr>ff_id := i, ff_ext := u\<rparr>]\<rparr>))"

record ship_result =
  sr_fulf :: int
  sr_at :: int
  sr_lines :: int
  sr_units :: int
  sr_audit :: int

text \<open>\<open>dict.update\<close> on the audit details.\<close>

fun put_entry :: "string \<times> json \<Rightarrow> (string \<times> json) list \<Rightarrow> (string \<times> json) list" where
  "put_entry kv [] = [kv]"
| "put_entry kv (x # xs) = (if fst x = fst kv then kv # xs else x # put_entry kv xs)"

section \<open>Recording a ship\<close>

text \<open>What the caller of \<open>record_ship\<close> decides.\<close>

record ship_args =
  sa_tracking :: "string option"
  sa_carrier :: string
  sa_method :: "string option"
  sa_user :: string
  sa_txn :: string
  sa_pre :: "so_status option"
  sa_cost :: "rat option"
  sa_at :: "int option"
  sa_extra :: "(string \<times> json) list"

text \<open>A picked line without a pick task falls back to bin 1; the insert fails when
  that bin does not exist.\<close>

definition ship_bin :: "int \<Rightarrow> sol_row \<Rightarrow> db \<Rightarrow> ship_error + int" where
  "ship_bin so l d =
     (let b = (case pick_bin so (sol_item l) d of Some b \<Rightarrow> b | None \<Rightarrow> 1)
      in if find_bin b d = None then Inl SE_internal else Inr b)"

definition shipped_lines :: "int \<Rightarrow> db \<Rightarrow> sol_row list" where
  "shipped_lines so d = filter (\<lambda>l. 0 < sol_picked l) (order_lines so d)"

definition new_fulfillment :: "so_row \<Rightarrow> ship_args \<Rightarrow> int \<Rightarrow> fulf_row" where
  "new_fulfillment so a tm = \<lparr>ff_id = 0, ff_so = so_id so, ff_wh = so_wh so, ff_tracking = sa_tracking a,
     ff_carrier = Some (sa_carrier a), ff_method = sa_method a, ff_by = sa_user a, ff_state = FULF_SHIPPED,
     ff_ext = [], ff_pre = sa_pre a, ff_cost = sa_cost a, ff_shipped_at = tm, ff_voided_at = None,
     ff_voided_by = None, ff_reason = None\<rparr>"

definition ship_header :: "so_row \<Rightarrow> ship_args \<Rightarrow> int \<Rightarrow> db \<Rightarrow> db" where
  "ship_header so a tm d = d\<lparr>sales_orders := upd (\<lambda>y. so_id y = so_id so)
     (\<lambda>y. y\<lparr>so_state := SO_SHIPPED, so_shipped_at := Some tm, so_carrier := Some (sa_carrier a),
            so_tracking := sa_tracking a,
            so_method := (case sa_method a of None \<Rightarrow> so_method y | Some m \<Rightarrow> Some m)\<rparr>) (sales_orders d)\<rparr>"

definition ship_details :: "so_row \<Rightarrow> ship_args \<Rightarrow> int \<Rightarrow> json" where
  "ship_details so a fid =
     JObj (fold put_entry (sa_extra a)
       ([(''so_number'', JStr (so_number so)), (''tracking_number'', jopt JStr (sa_tracking a)),
         (''carrier'', JStr (sa_carrier a)), (''fulfillment_id'', JInt fid)]
        @ (case sa_cost a of None \<Rightarrow> [] | Some c \<Rightarrow> [(''shipping_cost'', JNum c)])))"

definition record_ship :: "so_row \<Rightarrow> ship_args \<Rightarrow> db \<Rightarrow> ship_error + (ship_result \<times> db)" where
  "record_ship so a d =
     (if order_shortfall (so_id so) d \<noteq> [] then Inl (SE_silently_short (order_shortfall (so_id so) d))
      else
        let tm = (case sa_at a of None \<Rightarrow> now d | Some t \<Rightarrow> t);
            (fid, d1) = insert_fulfillment (new_fulfillment so a tm) d;
            ls = shipped_lines (so_id so) d1
        in case ship_lines (ship_bin (so_id so)) sol_picked fid ls d1 of
             Inl e \<Rightarrow> Inl e
           | Inr d2 \<Rightarrow>
               let (aid, d3) = write_audit_log ''SHIP'' ''SO'' (so_id so) (sa_user a) (so_wh so)
                                 (ship_details so a fid) (ship_header so a tm d2);
                   d4 = emit_ship_confirmed so (sa_tracking a) (sa_carrier a) (sa_method a)
                          (sa_txn a) (sa_user a) tm d3
               in Inr (\<lparr>sr_fulf = fid, sr_at = tm, sr_lines = int (length ls),
                        sr_units = sum_list (map sol_picked ls), sr_audit = aid\<rparr>, d4))"

section \<open>The cookie route\<close>

definition shippable_from :: "db \<Rightarrow> so_status list" where
  "shippable_from d = (if require_packing_before_shipping d then [SO_PACKED] else [SO_PICKED, SO_PACKED])"

text \<open>\<open>GET /order/<barcode>\<close>.\<close>

definition get_ship_order ::
    "session \<Rightarrow> string \<Rightarrow> db \<Rightarrow> ship_error + (so_row \<times> (sol_row \<times> item_row) list \<times> int)" where
  "get_ship_order s barcode d =
     (if blank barcode \<or> 100 < length barcode then Inl SE_bad_barcode
      else
        case scan_order s barcode d of
          None \<Rightarrow> Inl SE_not_found
        | Some so \<Rightarrow>
            if so_state so \<notin> set (shippable_from d) then
              Inl (if require_packing_before_shipping d \<and> so_state so = SO_PICKED
                   then SE_not_packed (so_state so) else SE_not_ready (so_state so))
            else
              let ls = join_items (sort_key sol_number (order_lines (so_id so) d)) d
              in Inr (so, ls, sum_list (map (\<lambda>(l, i). sol_picked l) ls)))"

text \<open>\<open>FulfillRequest\<close> strips both texts; the route gives no pre-ship status.\<close>

definition fulfill ::
    "session \<Rightarrow> int \<Rightarrow> string \<Rightarrow> string \<Rightarrow> string option \<Rightarrow> db \<Rightarrow> ship_error + (ship_result \<times> db)" where
  "fulfill s so tracking carrier method d =
     (case find_scoped_so s so d of
        None \<Rightarrow> Inl SE_not_found
      | Some x \<Rightarrow>
          if so_state x \<notin> set (shippable_from d) then
            Inl (if require_packing_before_shipping d then SE_not_packed (so_state x)
                 else SE_not_ready (so_state x))
          else
            record_ship x \<lparr>sa_tracking = Some tracking, sa_carrier = carrier, sa_method = method,
              sa_user = s_user s, sa_txn = s_txn s, sa_pre = None, sa_cost = None, sa_at = None,
              sa_extra = []\<rparr> d)"

section \<open>The corrective admin ship\<close>

definition order_type_allows_fulfillment_ops :: "order_type \<Rightarrow> bool" where
  "order_type_allows_fulfillment_ops t \<longleftrightarrow> t \<noteq> OT_return"

definition live_fulfillments :: "int \<Rightarrow> db \<Rightarrow> fulf_row list" where
  "live_fulfillments so d = filter (\<lambda>f. ff_so f = so \<and> ff_state f \<noteq> FULF_VOIDED) (fulfillments d)"

definition unshipped_lines :: "int \<Rightarrow> db \<Rightarrow> sol_row list" where
  "unshipped_lines so d =
     sort_key sol_id (filter (\<lambda>l. sol_shipped l < sol_picked l) (order_lines so d))"

definition fallback_bin :: "int \<Rightarrow> db \<Rightarrow> int option" where
  "fallback_bin wh d =
     (case sort_key bin_id (filter (\<lambda>b. bin_wh b = wh \<and> bin_active b) (bins d)) of
        [] \<Rightarrow> None | b # _ \<Rightarrow> Some (bin_id b))"

definition admin_bin :: "so_row \<Rightarrow> sol_row \<Rightarrow> db \<Rightarrow> ship_error + int" where
  "admin_bin so l d =
     (case pick_bin (so_id so) (sol_item l) d of
        Some b \<Rightarrow> Inr b
      | None \<Rightarrow> (case fallback_bin (so_wh so) d of Some b \<Rightarrow> Inr b | None \<Rightarrow> Inl (SE_no_bin (so_wh so))))"

definition admin_fulfillment :: "so_row \<Rightarrow> string \<Rightarrow> int \<Rightarrow> fulf_row" where
  "admin_fulfillment so user tm = \<lparr>ff_id = 0, ff_so = so_id so, ff_wh = so_wh so, ff_tracking = so_tracking so,
     ff_carrier = so_carrier so, ff_method = so_method so, ff_by = user, ff_state = FULF_SHIPPED,
     ff_ext = [], ff_pre = Some (so_state so), ff_cost = None, ff_shipped_at = tm, ff_voided_at = None,
     ff_voided_by = None, ff_reason = None\<rparr>"

definition admin_header :: "so_row \<Rightarrow> int \<Rightarrow> db \<Rightarrow> db" where
  "admin_header so tm d = d\<lparr>sales_orders := upd (\<lambda>y. so_id y = so_id so)
     (\<lambda>y. y\<lparr>so_state := SO_SHIPPED,
            so_shipped_at := (case so_shipped_at y of None \<Rightarrow> Some tm | Some t \<Rightarrow> Some t)\<rparr>) (sales_orders d)\<rparr>"

definition record_admin_ship ::
    "int \<Rightarrow> string \<Rightarrow> string \<Rightarrow> bool \<Rightarrow> db \<Rightarrow> ship_error + (ship_result \<times> db)" where
  "record_admin_ship i user txn acknowledged d =
     (case find_so i d of
        None \<Rightarrow> Inl SE_not_found
      | Some so \<Rightarrow>
          if \<not> order_type_allows_fulfillment_ops (so_type so) then Inl (SE_not_eligible (so_type so))
          else if so_state so \<notin> {SO_PICKED, SO_PACKED, SO_SHIPPED} then Inl (SE_wrong_status (so_state so))
          else if live_fulfillments i d \<noteq> [] then Inl SE_already_fulfilled
          else if \<not> acknowledged \<and> order_shortfall i d \<noteq> [] then Inl (SE_silently_short (order_shortfall i d))
          else if unshipped_lines i d = [] then Inl SE_nothing_to_ship
          else
            let tm = (case so_shipped_at so of None \<Rightarrow> now d | Some t \<Rightarrow> t);
                ls = unshipped_lines i d;
                (fid, d1) = insert_fulfillment (admin_fulfillment so user tm) d
            in case ship_lines (admin_bin so) (\<lambda>l. sol_picked l - sol_shipped l) fid ls d1 of
                 Inl e \<Rightarrow> Inl e
               | Inr d2 \<Rightarrow>
                   let units = sum_list (map (\<lambda>l. sol_picked l - sol_shipped l) ls);
                       (aid, d3) = write_audit_log ''SHIP'' ''SO'' i user (so_wh so)
                         (JObj [(''so_number'', JStr (so_number so)), (''fulfillment_id'', JInt fid),
                                (''source'', JStr ''admin_ship''), (''lines_shipped'', JInt (int (length ls))),
                                (''total_quantity'', JInt units)]) (admin_header so tm d2);
                       d4 = (if so_state so \<noteq> SO_SHIPPED
                             then emit_ship_confirmed so (so_tracking so) (carrier_from_ship_method (so_method so))
                                    (so_method so) txn user tm d3
                             else d3)
                   in Inr (\<lparr>sr_fulf = fid, sr_at = tm, sr_lines = int (length ls), sr_units = units,
                            sr_audit = aid\<rparr>, d4))"

section \<open>Voiding a ship\<close>

definition void_header :: "int \<Rightarrow> so_status \<Rightarrow> db \<Rightarrow> db" where
  "void_header so pre d = d\<lparr>sales_orders := upd (\<lambda>y. so_id y = so)
     (\<lambda>y. if pre = SO_SHIPPED then y\<lparr>so_state := pre\<rparr>
          else y\<lparr>so_state := pre, so_tracking := None, so_carrier := None, so_shipped_at := None\<rparr>)
     (sales_orders d)\<rparr>"

definition void_fulfillment :: "int \<Rightarrow> string \<Rightarrow> string \<Rightarrow> db \<Rightarrow> db" where
  "void_fulfillment fid user reason d = d\<lparr>fulfillments := upd (\<lambda>f. ff_id f = fid)
     (\<lambda>f. f\<lparr>ff_state := FULF_VOIDED, ff_voided_at := Some (now d), ff_voided_by := Some user,
            ff_reason := Some reason\<rparr>) (fulfillments d)\<rparr>"

definition void_lines :: "int \<Rightarrow> so_status \<Rightarrow> db \<Rightarrow> db" where
  "void_lines so pre d = d\<lparr>so_lines := upd (\<lambda>l. sol_so l = so)
     (\<lambda>l. l\<lparr>sol_shipped := 0, sol_state := SOL_AS pre\<rparr>) (so_lines d)\<rparr>"

definition status_text :: "so_status \<Rightarrow> string" where
  "status_text x = (case x of
     SO_OPEN \<Rightarrow> ''OPEN'' | SO_PICKED \<Rightarrow> ''PICKED'' | SO_PACKED \<Rightarrow> ''PACKED'' | SO_SHIPPED \<Rightarrow> ''SHIPPED''
   | SO_CANCELLED \<Rightarrow> ''CANCELLED'' | SO_FRAUD_REVIEW \<Rightarrow> ''FRAUD_REVIEW'' | SO_REFUNDED \<Rightarrow> ''REFUNDED''
   | SO_WAITING_STOCK \<Rightarrow> ''WAITING_STOCK'' | RMA_PARTIALLY_RECEIVED \<Rightarrow> ''PARTIALLY_RECEIVED''
   | RMA_RECEIVED \<Rightarrow> ''RECEIVED'' | RMA_CLOSED \<Rightarrow> ''CLOSED'')"

text \<open>A NULL pre-ship status violates the NOT NULL status column in the first statement.\<close>

definition record_void_ship ::
    "so_row \<Rightarrow> int \<Rightarrow> so_status option \<Rightarrow> string \<Rightarrow> string \<Rightarrow> string \<Rightarrow> string \<Rightarrow> (string \<times> json) list \<Rightarrow> db
      \<Rightarrow> ship_error + ((int \<times> int \<times> so_status) \<times> db)" where
  "record_void_ship so fid pre user user_ext reason txn extra d =
     (case pre of
        None \<Rightarrow> Inl SE_internal
      | Some p \<Rightarrow>
          let d1 = void_lines (so_id so) p (void_fulfillment fid user reason (void_header (so_id so) p d));
              (aid, d2) = write_audit_log ''SHIP_VOID'' ''SO'' (so_id so) user (so_wh so)
                (JObj (fold put_entry extra
                   [(''so_number'', JStr (so_number so)), (''fulfillment_id'', JInt fid),
                    (''reason'', JStr reason), (''reverted_to_status'', JStr (status_text p))])) d1;
              d3 = snd (emit_event ''ship.voided'' 1 ''sales_order'' (so_id so) (so_ext so) (so_wh so) txn
                (JObj [(''sales_order_external_id'', JStr (so_ext so)), (''voided_at'', JTime (now d2)),
                       (''voided_by_user_external_id'', JStr user_ext), (''reason'', JStr reason),
                       (''reverted_to_status'', JStr (status_text p))]) d2)
          in Inr ((now d1, aid, p), d3))"

section \<open>What a recorded ship writes\<close>

definition stamp :: "sol_row \<Rightarrow> sol_row" where
  "stamp x = x\<lparr>sol_shipped := sol_picked x, sol_state := SOL_AS SO_SHIPPED\<rparr>"

lemma stamp_simps [simp]:
  "sol_id (stamp x) = sol_id x" "sol_so (stamp x) = sol_so x" "sol_picked (stamp x) = sol_picked x"
  "sol_packed (stamp x) = sol_packed x" "sol_shipped (stamp x) = sol_picked x" "stamp (stamp x) = stamp x"
  "sol_ordered (stamp x) = sol_ordered x"
  by (simp_all add: stamp_def)

lemma ship_line_frame [simp]:
  "sales_orders (ship_line f b q l d) = sales_orders d" "fulfillments (ship_line f b q l d) = fulfillments d"
  "inventory (ship_line f b q l d) = inventory d" "bins (ship_line f b q l d) = bins d"
  "pick_tasks (ship_line f b q l d) = pick_tasks d" "breakdowns (ship_line f b q l d) = breakdowns d"
  "seqs (ship_line f b q l d) = seqs d" "items (ship_line f b q l d) = items d"
  "users (ship_line f b q l d) = users d" "idempotency (ship_line f b q l d) = idempotency d"
  "settings (ship_line f b q l d) = settings d" "events (ship_line f b q l d) = events d"
  "now (ship_line f b q l d) = now d"
  by (simp_all add: ship_line_def set_sol_def)

lemma ship_line_tables:
  "so_lines (ship_line f b q l d) = upd (\<lambda>x. sol_id x = sol_id l) stamp (so_lines d)"
  "fulfillment_lines (ship_line f b q l d) = fulfillment_lines d @
     [\<lparr>fl_fulf = f, fl_sol = sol_id l, fl_item = sol_item l, fl_qty = q, fl_bin = b\<rparr>]"
  by (simp_all add: ship_line_def set_sol_def stamp_def upd_def cong: if_cong)

lemma ship_lines_frame:
  "ship_lines bin q f ls d = Inr d' \<Longrightarrow>
     sales_orders d' = sales_orders d \<and> fulfillments d' = fulfillments d \<and> inventory d' = inventory d
     \<and> bins d' = bins d \<and> pick_tasks d' = pick_tasks d \<and> breakdowns d' = breakdowns d \<and> seqs d' = seqs d
     \<and> items d' = items d \<and> users d' = users d \<and> idempotency d' = idempotency d
     \<and> settings d' = settings d \<and> events d' = events d \<and> now d' = now d"
  by (induction ls arbitrary: d) (auto split: sum.splits)

lemma ship_lines_stamp:
  "ship_lines bin q f ls d = Inr d' \<Longrightarrow>
     so_lines d' = upd (\<lambda>x. sol_id x \<in> sol_id ` set ls) stamp (so_lines d)"
proof (induction ls arbitrary: d)
  case Nil
  then show ?case by (simp add: upd_def)
next
  case (Cons l ls)
  from Cons.prems obtain b where "ship_lines bin q f ls (ship_line f b (q l) l d) = Inr d'"
    by (auto split: sum.splits)
  from Cons.IH [OF this] show ?case
    by (simp add: ship_line_tables upd_def)
qed

text \<open>The fulfillment lines written, up to the bins they name.\<close>

definition shipped_columns :: "fline_row \<Rightarrow> int \<times> int \<times> int" where
  "shipped_columns x = (fl_fulf x, fl_sol x, fl_qty x)"

lemma ship_lines_written:
  "ship_lines bin q f ls d = Inr d' \<Longrightarrow>
     map shipped_columns (fulfillment_lines d')
       = map shipped_columns (fulfillment_lines d) @ map (\<lambda>l. (f, sol_id l, q l)) ls"
proof (induction ls arbitrary: d)
  case Nil
  then show ?case by simp
next
  case (Cons l ls)
  from Cons.prems obtain b where "ship_lines bin q f ls (ship_line f b (q l) l d) = Inr d'"
    by (auto split: sum.splits)
  from Cons.IH [OF this] show ?case
    by (simp add: ship_line_tables shipped_columns_def)
qed

lemma insert_fulfillment_frame [simp]:
  "sales_orders (snd (insert_fulfillment f d)) = sales_orders d"
  "so_lines (snd (insert_fulfillment f d)) = so_lines d"
  "fulfillment_lines (snd (insert_fulfillment f d)) = fulfillment_lines d"
  "inventory (snd (insert_fulfillment f d)) = inventory d" "bins (snd (insert_fulfillment f d)) = bins d"
  "pick_tasks (snd (insert_fulfillment f d)) = pick_tasks d"
  "breakdowns (snd (insert_fulfillment f d)) = breakdowns d"
  "items (snd (insert_fulfillment f d)) = items d" "users (snd (insert_fulfillment f d)) = users d"
  "idempotency (snd (insert_fulfillment f d)) = idempotency d"
  "settings (snd (insert_fulfillment f d)) = settings d"
  "events (snd (insert_fulfillment f d)) = events d" "now (snd (insert_fulfillment f d)) = now d"
  "fst (insert_fulfillment f d) = seqs d Seq_fulfillment"
  "seqs (snd (insert_fulfillment f d)) = (seqs d)(Seq_fulfillment := seqs d Seq_fulfillment + 1)"
  by (simp_all add: insert_fulfillment_def uuid4_def Let_def split_beta)

lemma insert_fulfillment_row:
  obtains u where "fulfillments (snd (insert_fulfillment f d))
    = fulfillments d @ [f\<lparr>ff_id := seqs d Seq_fulfillment, ff_ext := u\<rparr>]"
  by (simp add: insert_fulfillment_def uuid4_def Let_def split_beta)

lemma emit_ship_confirmed_frame [simp]:
  "sales_orders (emit_ship_confirmed so a b c e u t d) = sales_orders d"
  "so_lines (emit_ship_confirmed so a b c e u t d) = so_lines d"
  "fulfillments (emit_ship_confirmed so a b c e u t d) = fulfillments d"
  "fulfillment_lines (emit_ship_confirmed so a b c e u t d) = fulfillment_lines d"
  "inventory (emit_ship_confirmed so a b c e u t d) = inventory d"
  "pick_tasks (emit_ship_confirmed so a b c e u t d) = pick_tasks d"
  "breakdowns (emit_ship_confirmed so a b c e u t d) = breakdowns d"
  "items (emit_ship_confirmed so a b c e u t d) = items d"
  "bins (emit_ship_confirmed so a b c e u t d) = bins d"
  "users (emit_ship_confirmed so a b c e u t d) = users d"
  "settings (emit_ship_confirmed so a b c e u t d) = settings d"
  "idempotency (emit_ship_confirmed so a b c e u t d) = idempotency d"
  "now (emit_ship_confirmed so a b c e u t d) = now d"
  "seqs (emit_ship_confirmed so a b c e u t d) Seq_fulfillment = seqs d Seq_fulfillment"
  by (simp_all add: emit_ship_confirmed_def)

text \<open>Both ships post the same way: a header row, the lines, the order header.\<close>

definition ship_posts ::
    "fulf_row \<Rightarrow> (sol_row \<Rightarrow> int) \<Rightarrow> sol_row list \<Rightarrow> (so_row \<Rightarrow> so_row) \<Rightarrow> db \<Rightarrow> db \<Rightarrow> bool" where
  "ship_posts f q ls h d d' \<longleftrightarrow>
     (\<exists>u. fulfillments d' = fulfillments d @ [f\<lparr>ff_id := seqs d Seq_fulfillment, ff_ext := u\<rparr>])
     \<and> seqs d' Seq_fulfillment = seqs d Seq_fulfillment + 1
     \<and> map shipped_columns (fulfillment_lines d')
         = map shipped_columns (fulfillment_lines d) @ map (\<lambda>l. (seqs d Seq_fulfillment, sol_id l, q l)) ls
     \<and> so_lines d' = upd (\<lambda>x. sol_id x \<in> sol_id ` set ls) stamp (so_lines d)
     \<and> sales_orders d' = upd (\<lambda>y. so_id y = ff_so f) h (sales_orders d)
     \<and> inventory d' = inventory d \<and> pick_tasks d' = pick_tasks d \<and> breakdowns d' = breakdowns d
     \<and> items d' = items d \<and> bins d' = bins d \<and> users d' = users d \<and> settings d' = settings d
     \<and> idempotency d' = idempotency d \<and> now d' = now d"

lemma ship_posts_lines:
  assumes "ship_lines bin q (fst (insert_fulfillment f d)) ls (snd (insert_fulfillment f d)) = Inr d2"
    and "sales_orders d' = upd (\<lambda>y. so_id y = ff_so f) h (sales_orders d2)"
    and "so_lines d' = so_lines d2" "fulfillments d' = fulfillments d2"
    "fulfillment_lines d' = fulfillment_lines d2" "inventory d' = inventory d2" "pick_tasks d' = pick_tasks d2"
    "breakdowns d' = breakdowns d2" "items d' = items d2" "bins d' = bins d2" "users d' = users d2"
    "settings d' = settings d2" "idempotency d' = idempotency d2" "now d' = now d2"
    "seqs d' Seq_fulfillment = seqs d2 Seq_fulfillment"
  shows "ship_posts f q ls h d d'"
proof -
  obtain u where "fulfillments (snd (insert_fulfillment f d))
      = fulfillments d @ [f\<lparr>ff_id := seqs d Seq_fulfillment, ff_ext := u\<rparr>]"
    using insert_fulfillment_row .
  then show ?thesis
    unfolding ship_posts_def
    using assms(2-) ship_lines_frame [OF assms(1)] ship_lines_stamp [OF assms(1)] ship_lines_written [OF assms(1)]
    by (intro conjI) (rule exI [of _ u], simp_all)
qed

definition ship_stamp :: "ship_args \<Rightarrow> int \<Rightarrow> so_row \<Rightarrow> so_row" where
  "ship_stamp a tm y = y\<lparr>so_state := SO_SHIPPED, so_shipped_at := Some tm, so_carrier := Some (sa_carrier a),
     so_tracking := sa_tracking a,
     so_method := (case sa_method a of None \<Rightarrow> so_method y | Some m \<Rightarrow> Some m)\<rparr>"

lemma record_ship_Inr:
  assumes "record_ship so a d = Inr (r, d')"
  defines "tm \<equiv> (case sa_at a of None \<Rightarrow> now d | Some t \<Rightarrow> t)"
  shows "order_shortfall (so_id so) d = []"
    and "ship_posts (new_fulfillment so a tm) sol_picked (shipped_lines (so_id so) d) (ship_stamp a tm) d d'"
    and "r = \<lparr>sr_fulf = seqs d Seq_fulfillment, sr_at = tm,
           sr_lines = int (length (shipped_lines (so_id so) d)),
           sr_units = sum_list (map sol_picked (shipped_lines (so_id so) d)), sr_audit = sr_audit r\<rparr>"
proof -
  show "order_shortfall (so_id so) d = []"
    using assms(1) by (auto simp: record_ship_def split: if_splits)
  let ?f = "new_fulfillment so a tm"
  let ?d1 = "snd (insert_fulfillment ?f d)"
  have lines: "shipped_lines (so_id so) ?d1 = shipped_lines (so_id so) d"
    by (simp add: shipped_lines_def order_lines_def)
  let ?a = "\<lambda>d2. write_audit_log ''SHIP'' ''SO'' (so_id so) (sa_user a) (so_wh so)
        (ship_details so a (fst (insert_fulfillment ?f d))) (ship_header so a tm d2)"
  obtain d2 where two: "ship_lines (ship_bin (so_id so)) sol_picked (fst (insert_fulfillment ?f d))
        (shipped_lines (so_id so) d) ?d1 = Inr d2"
    and d': "d' = emit_ship_confirmed so (sa_tracking a) (sa_carrier a) (sa_method a) (sa_txn a) (sa_user a) tm
        (snd (?a d2))"
    and r: "r = \<lparr>sr_fulf = fst (insert_fulfillment ?f d), sr_at = tm,
        sr_lines = int (length (shipped_lines (so_id so) d)),
        sr_units = sum_list (map sol_picked (shipped_lines (so_id so) d)), sr_audit = fst (?a d2)\<rparr>"
    using assms(1) unfolding record_ship_def Let_def tm_def [symmetric]
    by (auto simp: split_beta lines split: if_splits sum.splits)
  show "ship_posts ?f sol_picked (shipped_lines (so_id so) d) (ship_stamp a tm) d d'"
    by (rule ship_posts_lines [OF two])
      (simp_all add: d' ship_header_def ship_stamp_def new_fulfillment_def upd_def cong: if_cong)
  show "r = \<lparr>sr_fulf = seqs d Seq_fulfillment, sr_at = tm,
      sr_lines = int (length (shipped_lines (so_id so) d)),
      sr_units = sum_list (map sol_picked (shipped_lines (so_id so) d)), sr_audit = sr_audit r\<rparr>"
    by (simp add: r)
qed

definition admin_stamp :: "int \<Rightarrow> so_row \<Rightarrow> so_row" where
  "admin_stamp tm y = y\<lparr>so_state := SO_SHIPPED,
     so_shipped_at := (case so_shipped_at y of None \<Rightarrow> Some tm | Some t \<Rightarrow> Some t)\<rparr>"

lemma find_so_Some: "find_so i d = Some so \<Longrightarrow> so \<in> set (sales_orders d) \<and> so_id so = i"
  unfolding find_so_def by (drule find_Some_iff_first) simp

lemma record_admin_ship_Inr:
  assumes "record_admin_ship i user txn ack d = Inr (r, d')"
  obtains so tm where "find_so i d = Some so" "order_type_allows_fulfillment_ops (so_type so)"
    "so_state so \<in> {SO_PICKED, SO_PACKED, SO_SHIPPED}" "live_fulfillments i d = []"
    "ack \<or> order_shortfall i d = []" "unshipped_lines i d \<noteq> []"
    "tm = (case so_shipped_at so of None \<Rightarrow> now d | Some t \<Rightarrow> t)"
    "ship_posts (admin_fulfillment so user tm) (\<lambda>l. sol_picked l - sol_shipped l) (unshipped_lines i d)
       (admin_stamp tm) d d'"
    "so_state so = SO_SHIPPED \<longrightarrow> events d' = events d"
    "so_state so \<noteq> SO_SHIPPED \<longrightarrow> (\<exists>d3. events d3 = events d \<and>
       d' = emit_ship_confirmed so (so_tracking so) (carrier_from_ship_method (so_method so)) (so_method so) txn user tm d3)"
proof -
  from assms obtain so where so: "find_so i d = Some so"
    and guards: "order_type_allows_fulfillment_ops (so_type so)"
    "so_state so \<in> {SO_PICKED, SO_PACKED, SO_SHIPPED}" "live_fulfillments i d = []"
    "ack \<or> order_shortfall i d = []" "unshipped_lines i d \<noteq> []"
    by (auto simp: record_admin_ship_def split: option.splits if_splits)
  note id = find_so_Some [OF so]
  define tm where "tm = (case so_shipped_at so of None \<Rightarrow> now d | Some t \<Rightarrow> t)"
  let ?f = "admin_fulfillment so user tm" and ?q = "\<lambda>l. sol_picked l - sol_shipped l"
  let ?d1 = "snd (insert_fulfillment ?f d)" and ?ls = "unshipped_lines i d"
  let ?j = "JObj [(''so_number'', JStr (so_number so)), (''fulfillment_id'', JInt (fst (insert_fulfillment ?f d))),
      (''source'', JStr ''admin_ship''), (''lines_shipped'', JInt (int (length ?ls))),
      (''total_quantity'', JInt (sum_list (map ?q ?ls)))]"
  have ifs: "\<not> (\<not> order_type_allows_fulfillment_ops (so_type so))"
    "\<not> so_state so \<notin> {SO_PICKED, SO_PACKED, SO_SHIPPED}" "\<not> live_fulfillments i d \<noteq> []"
    "\<not> (\<not> ack \<and> order_shortfall i d \<noteq> [])"
    using guards by auto
  let ?d3 = "\<lambda>d2. audit ''SHIP'' ''SO'' i user (so_wh so) ?j (admin_header so tm d2)"
  obtain d2 where two: "ship_lines (admin_bin so) ?q (fst (insert_fulfillment ?f d)) ?ls ?d1 = Inr d2"
    and d': "d' = (if so_state so \<noteq> SO_SHIPPED
       then emit_ship_confirmed so (so_tracking so) (carrier_from_ship_method (so_method so))
              (so_method so) txn user tm (?d3 d2)
       else ?d3 d2)"
    using assms unfolding record_admin_ship_def so option.case if_not_P [OF ifs(1)] if_not_P [OF ifs(2)]
      if_not_P [OF ifs(3)] if_not_P [OF ifs(4)] if_not_P [OF guards(5)] Let_def tm_def [symmetric]
    by (auto simp: split_beta split: sum.splits)
  have posts: "ship_posts ?f ?q ?ls (admin_stamp tm) d d'"
    by (rule ship_posts_lines [OF two])
      (simp_all add: d' admin_header_def admin_stamp_def admin_fulfillment_def id upd_def cong: if_cong)
  have ev: "events (?d3 d2) = events d"
    using ship_lines_frame [OF two] by (simp add: admin_header_def)
  show ?thesis
  proof (rule that [OF so guards tm_def posts])
    show "so_state so = SO_SHIPPED \<longrightarrow> events d' = events d"
      using ev by (simp add: d')
    show "so_state so \<noteq> SO_SHIPPED \<longrightarrow> (\<exists>d3. events d3 = events d \<and>
       d' = emit_ship_confirmed so (so_tracking so) (carrier_from_ship_method (so_method so)) (so_method so) txn user tm d3)"
      using ev by (intro impI exI [of _ "?d3 d2"]) (simp add: d')
  qed
qed

lemma record_void_ship_Inr:
  assumes "record_void_ship so fid pre user user_ext reason txn extra d = Inr (r, d')"
  obtains p where "pre = Some p"
    "sales_orders d' = sales_orders (void_header (so_id so) p d)"
    "fulfillments d' = fulfillments (void_fulfillment fid user reason d)"
    "so_lines d' = so_lines (void_lines (so_id so) p d)"
    "fulfillment_lines d' = fulfillment_lines d" "inventory d' = inventory d"
    "seqs d' Seq_fulfillment = seqs d Seq_fulfillment" "snd (snd r) = p" "idempotency d' = idempotency d"
    "items d' = items d" "bins d' = bins d" "pick_tasks d' = pick_tasks d" "breakdowns d' = breakdowns d"
    "settings d' = settings d" "now d' = now d"
  using assms
  by (auto simp: record_void_ship_def Let_def split_beta void_header_def void_fulfillment_def void_lines_def
      split: option.splits)

section \<open>The books of shipping\<close>

text \<open>A fulfillment is live until it is voided; a line's shipped quantity is what the live
  fulfillment lines say.\<close>

definition live :: "int \<Rightarrow> db \<Rightarrow> bool" where
  "live fid d \<longleftrightarrow> (\<exists>f \<in> set (fulfillments d). ff_id f = fid \<and> ff_state f = FULF_SHIPPED)"

definition shipped_out :: "int \<Rightarrow> db \<Rightarrow> int" where
  "shipped_out i d = total (\<lambda>x. fl_sol x = i \<and> live (fl_fulf x) d) fl_qty (fulfillment_lines d)"

text \<open>Keys and references of the tables involved.\<close>

definition ship_keys :: "db \<Rightarrow> bool" where
  "ship_keys d \<longleftrightarrow>
     distinct (map so_id (sales_orders d)) \<and> distinct (map sol_id (so_lines d))
     \<and> distinct (map ff_id (fulfillments d))
     \<and> (\<forall>f \<in> set (fulfillments d). ff_id f < seqs d Seq_fulfillment)
     \<and> (\<forall>x \<in> set (fulfillment_lines d). \<exists>f \<in> set (fulfillments d). ff_id f = fl_fulf x)
     \<and> (\<forall>x \<in> set (fulfillment_lines d). \<forall>f \<in> set (fulfillments d). ff_id f = fl_fulf x \<longrightarrow>
          (\<forall>l \<in> set (so_lines d). sol_id l = fl_sol x \<longrightarrow> sol_so l = ff_so f))"

text \<open>At most one live fulfillment per order, and only under a SHIPPED header.\<close>

definition header_shipped :: "so_row list \<Rightarrow> fulf_row list \<Rightarrow> bool" where
  "header_shipped os fs \<longleftrightarrow>
     (\<forall>f \<in> set fs. ff_state f = FULF_SHIPPED \<longrightarrow> (\<forall>x \<in> set os. so_id x = ff_so f \<longrightarrow> so_state x = SO_SHIPPED))"

definition one_live :: "db \<Rightarrow> bool" where
  "one_live d \<longleftrightarrow> distinct (map ff_so (filter (\<lambda>f. ff_state f = FULF_SHIPPED) (fulfillments d)))
     \<and> header_shipped (sales_orders d) (fulfillments d)"

definition lines_booked :: "db \<Rightarrow> bool" where
  "lines_booked d \<longleftrightarrow> (\<forall>l \<in> set (so_lines d). sol_shipped l = shipped_out (sol_id l) d
     \<and> (sol_shipped l = 0 \<or> sol_shipped l = sol_picked l) \<and> 0 \<le> sol_packed l \<and> sol_packed l \<le> sol_picked l)"

definition ship_ok :: "db \<Rightarrow> bool" where
  "ship_ok d \<longleftrightarrow> ship_keys d \<and> one_live d \<and> lines_booked d"

lemma live_cong: "fulfillments d' = fulfillments d \<Longrightarrow> live i d' = live i d"
  by (simp add: live_def)

lemma shipped_out_cong:
  "fulfillments d' = fulfillments d \<Longrightarrow> fulfillment_lines d' = fulfillment_lines d \<Longrightarrow>
     shipped_out i d' = shipped_out i d"
  by (simp add: shipped_out_def live_def)

lemma shipped_out_columns:
  "shipped_out i d = total (\<lambda>(f, s, q). s = i \<and> live f d) (\<lambda>(f, s, q). q) (map shipped_columns (fulfillment_lines d))"
  by (simp add: shipped_out_def total_def filter_map comp_def shipped_columns_def)

text \<open>An order without a live fulfillment has shipped nothing.\<close>

lemma nothing_shipped:
  assumes "ship_keys d" "l \<in> set (so_lines d)"
    and "\<forall>f \<in> set (fulfillments d). ff_state f = FULF_SHIPPED \<longrightarrow> ff_so f \<noteq> sol_so l"
  shows "shipped_out (sol_id l) d = 0"
  unfolding shipped_out_def
proof (rule total_none, rule notI)
  fix x
  assume x: "x \<in> set (fulfillment_lines d)" and "fl_sol x = sol_id l \<and> live (fl_fulf x) d"
  then obtain f where "f \<in> set (fulfillments d)" "ff_id f = fl_fulf x" "ff_state f = FULF_SHIPPED"
    "sol_id l = fl_sol x" by (auto simp: live_def)
  with assms x show False unfolding ship_keys_def by metis
qed

lemma header_shipped_upd:
  assumes "header_shipped os fs"
    and "\<And>y. so_id (h y) = so_id y"
    and "(\<forall>f \<in> set fs. ff_state f = FULF_SHIPPED \<longrightarrow> ff_so f \<noteq> i) \<or> (\<forall>y. so_state (h y) = SO_SHIPPED)"
  shows "header_shipped (upd (\<lambda>y. so_id y = i) h os) fs"
  unfolding header_shipped_def
proof (intro ballI impI)
  fix f x
  assume f: "f \<in> set fs" "ff_state f = FULF_SHIPPED" and x: "x \<in> set (upd (\<lambda>y. so_id y = i) h os)" "so_id x = ff_so f"
  then obtain y where y: "y \<in> set os" "x = (if so_id y = i then h y else y)" by (auto simp: set_upd)
  with f x(2) assms show "so_state x = SO_SHIPPED"
    by (cases "so_id y = i") (auto simp: header_shipped_def)
qed

lemma ship_keys_cong:
  assumes "ship_keys d"
    and "map so_id (sales_orders d') = map so_id (sales_orders d)"
    and lines: "map (\<lambda>l. (sol_id l, sol_so l)) (so_lines d') = map (\<lambda>l. (sol_id l, sol_so l)) (so_lines d)"
    and fulfs: "map (\<lambda>f. (ff_id f, ff_so f)) (fulfillments d') = map (\<lambda>f. (ff_id f, ff_so f)) (fulfillments d)"
    and "fulfillment_lines d' = fulfillment_lines d" "seqs d' Seq_fulfillment = seqs d Seq_fulfillment"
  shows "ship_keys d'"
proof -
  have "map sol_id (so_lines d') = map sol_id (so_lines d)" "map ff_id (fulfillments d') = map ff_id (fulfillments d)"
    using arg_cong [OF lines, of "map fst"] arg_cong [OF fulfs, of "map fst"] by (simp_all add: comp_def)
  moreover have ls: "\<exists>l0 \<in> set (so_lines d). sol_id l0 = sol_id l \<and> sol_so l0 = sol_so l" if "l \<in> set (so_lines d')" for l
  proof -
    have "(sol_id l, sol_so l) \<in> set (map (\<lambda>l. (sol_id l, sol_so l)) (so_lines d'))" using that by simp
    then show ?thesis unfolding lines by auto
  qed
  moreover have fs: "\<exists>f0 \<in> set (fulfillments d). ff_id f0 = ff_id f \<and> ff_so f0 = ff_so f" if "f \<in> set (fulfillments d')" for f
  proof -
    have "(ff_id f, ff_so f) \<in> set (map (\<lambda>f. (ff_id f, ff_so f)) (fulfillments d'))" using that by simp
    then show ?thesis unfolding fulfs by auto
  qed
  moreover have "sol_so l = ff_so f"
    if "x \<in> set (fulfillment_lines d')" "f \<in> set (fulfillments d')" "ff_id f = fl_fulf x"
      "l \<in> set (so_lines d')" "sol_id l = fl_sol x" for x f l
    using ls [OF that(4)] fs [OF that(2)] that(1,3,5) assms(1,5) unfolding ship_keys_def by metis
  moreover have "\<exists>f \<in> set (fulfillments d'). ff_id f = fl_fulf x" if "x \<in> set (fulfillment_lines d')" for x
  proof -
    have "fl_fulf x \<in> ff_id ` set (fulfillments d)" using assms(1,5) that unfolding ship_keys_def by force
    then have "fl_fulf x \<in> set (map ff_id (fulfillments d'))" unfolding calculation(2) by simp
    then show ?thesis by auto
  qed
  moreover have "\<forall>f \<in> set (fulfillments d'). ff_id f < seqs d' Seq_fulfillment"
    using fs assms(1,6) unfolding ship_keys_def by metis
  ultimately show ?thesis
    using assms(1,2) unfolding ship_keys_def by simp
qed

lemma verify_item_ship_ok:
  assumes "ship_ok d" "verify_item s so scanned q d = Inr (r, d')" "0 \<le> q"
  shows "ship_ok d'"
proof -
  obtain l where l: "l \<in> set (so_lines d)" "sol_packed l + q \<le> sol_picked l"
    and d': "d' = pack_line (sol_id l) (sol_packed l + q) d"
    using verify_item_Inr [OF assms(2)] by metis
  have out: "shipped_out i d' = shipped_out i d" for i
    by (rule shipped_out_cong) (simp_all add: d')
  have key: "x = l" if "x \<in> set (so_lines d)" "sol_id x = sol_id l" for x
    using assms(1) that l(1) by (auto simp: ship_ok_def ship_keys_def intro: key_inj)
  have "ship_keys d'"
    using assms(1) by - (rule ship_keys_cong [of d], simp_all add: ship_ok_def d' so_lines_pack map_upd_same)
  moreover have "one_live d'"
    using assms(1) by (simp add: ship_ok_def one_live_def d')
  moreover have "lines_booked d'"
    unfolding lines_booked_def out
  proof
    fix x'
    assume "x' \<in> set (so_lines d')"
    then obtain x where x: "x \<in> set (so_lines d)"
      and x': "sol_id x' = sol_id x" "sol_shipped x' = sol_shipped x" "sol_picked x' = sol_picked x"
        "sol_packed x' = (if sol_id x = sol_id l then sol_packed l + q else sol_packed x)"
      by (auto simp: d' so_lines_pack set_upd)
    have "sol_shipped x = shipped_out (sol_id x) d \<and> (sol_shipped x = 0 \<or> sol_shipped x = sol_picked x)
        \<and> 0 \<le> sol_packed x \<and> sol_packed x \<le> sol_picked x"
      using assms(1) x unfolding ship_ok_def lines_booked_def by blast
    then show "sol_shipped x' = shipped_out (sol_id x') d \<and> (sol_shipped x' = 0 \<or> sol_shipped x' = sol_picked x')
        \<and> 0 \<le> sol_packed x' \<and> sol_packed x' \<le> sol_picked x'"
      using x' key [OF x] l(2) assms(3) by auto
  qed
  ultimately show ?thesis by (simp add: ship_ok_def)
qed

lemma find_scoped_Some:
  "find_scoped_so s so d = Some x \<Longrightarrow> x \<in> set (sales_orders d) \<and> so_id x = so"
  unfolding find_scoped_so_def by (drule find_Some_iff_first) simp

text \<open>Only a SHIPPED header has a live fulfillment.\<close>

lemma not_shipped_none_live:
  assumes "one_live d" "x \<in> set (sales_orders d)" "so_state x \<noteq> SO_SHIPPED"
  shows "\<forall>f \<in> set (fulfillments d). ff_state f = FULF_SHIPPED \<longrightarrow> ff_so f \<noteq> so_id x"
  using assms by (auto simp: one_live_def header_shipped_def)

lemma complete_packing_ship_ok:
  assumes "ship_ok d" "complete_packing s so d = Inr (n, d')"
  shows "ship_ok d'"
proof -
  obtain x where x: "find_scoped_so s so d = Some x" "so_state x = SO_PICKED"
    and so': "sales_orders d' = upd (\<lambda>y. so_id y = so)
       (\<lambda>y. y\<lparr>so_state := SO_PACKED, so_packed_at := Some (now d)\<rparr>) (sales_orders d)"
    using complete_packing_Inr [OF assms(2)] by metis
  note x' = find_scoped_Some [OF x(1)]
  have rest: "so_lines d' = so_lines d" "fulfillments d' = fulfillments d"
    "fulfillment_lines d' = fulfillment_lines d" "seqs d' Seq_fulfillment = seqs d Seq_fulfillment"
    using assms(2) by (auto simp: complete_packing_def Let_def pack_event_def split: option.splits if_splits)
  have "so_state x \<noteq> SO_SHIPPED" by (simp add: x(2))
  from not_shipped_none_live [OF _ conjunct1 [OF x'] this] x' assms(1)
  have none: "\<forall>f \<in> set (fulfillments d). ff_state f = FULF_SHIPPED \<longrightarrow> ff_so f \<noteq> so"
    by (simp add: ship_ok_def)
  have "ship_keys d'"
    using assms(1) by - (rule ship_keys_cong [of d], simp_all add: ship_ok_def rest so' map_upd_same)
  moreover have "one_live d'"
    using assms(1) none unfolding ship_ok_def one_live_def rest so'
    by (intro conjI header_shipped_upd) simp_all
  moreover have "lines_booked d'"
    using assms(1) unfolding ship_ok_def lines_booked_def rest shipped_out_cong [OF rest(2,3)] by blast
  ultimately show ?thesis by (simp add: ship_ok_def)
qed

lemma ship_posts_out:
  assumes "ship_posts f q ls h d d'" "ship_keys d" "ff_state f = FULF_SHIPPED"
  shows "shipped_out i d' = shipped_out i d + total (\<lambda>l. sol_id l = i) q ls"
proof -
  let ?n = "seqs d Seq_fulfillment"
  obtain u where fs: "fulfillments d' = fulfillments d @ [f\<lparr>ff_id := ?n, ff_ext := u\<rparr>]"
    and cols: "map shipped_columns (fulfillment_lines d')
      = map shipped_columns (fulfillment_lines d) @ map (\<lambda>l. (?n, sol_id l, q l)) ls"
    using assms(1) by (auto simp: ship_posts_def)
  have new: "live ?n d'" using assms(3) by (simp add: live_def fs)
  have old: "live k d' = live k d" if "k < ?n" for k
    using that assms(2) by (auto simp: live_def fs)
  have before: "fl_fulf x < ?n" if "x \<in> set (fulfillment_lines d)" for x
    using assms(2) that unfolding ship_keys_def by metis
  have "total (\<lambda>(f, s, q). s = i \<and> live f d') (\<lambda>(f, s, q). q) (map shipped_columns (fulfillment_lines d))
      = shipped_out i d"
    unfolding shipped_out_columns by (rule total_cong) (auto simp: shipped_columns_def before old)
  moreover have "total (\<lambda>(f, s, q). s = i \<and> live f d') (\<lambda>(f, s, q). q) (map (\<lambda>l. (?n, sol_id l, q l)) ls)
      = total (\<lambda>l. sol_id l = i) q ls"
    using new by (simp add: total_def filter_map comp_def)
  ultimately show ?thesis
    unfolding shipped_out_columns [of i d'] cols by simp
qed

lemma ship_posts_keys:
  assumes "ship_posts f q ls h d d'" "ship_keys d"
    and ls: "set ls \<subseteq> {l \<in> set (so_lines d). sol_so l = ff_so f}"
    and h: "\<And>y. so_id (h y) = so_id y"
  shows "ship_keys d'"
proof -
  let ?n = "seqs d Seq_fulfillment"
  obtain u where fs: "fulfillments d' = fulfillments d @ [f\<lparr>ff_id := ?n, ff_ext := u\<rparr>]"
    and cols: "map shipped_columns (fulfillment_lines d')
      = map shipped_columns (fulfillment_lines d) @ map (\<lambda>l. (?n, sol_id l, q l)) ls"
    and seq: "seqs d' Seq_fulfillment = ?n + 1"
    and lines: "so_lines d' = upd (\<lambda>x. sol_id x \<in> sol_id ` set ls) stamp (so_lines d)"
    and orders: "sales_orders d' = upd (\<lambda>y. so_id y = ff_so f) h (sales_orders d)"
    using assms(1) by (auto simp: ship_posts_def)
  have ids: "map sol_id (so_lines d') = map sol_id (so_lines d)"
    "map so_id (sales_orders d') = map so_id (sales_orders d)"
    by (simp_all add: lines orders map_upd_same h)
  have less: "ff_id g < ?n" if "g \<in> set (fulfillments d)" for g
    using assms(2) that by (simp add: ship_keys_def)
  have line: "\<exists>l0 \<in> set (so_lines d). sol_id l0 = sol_id l \<and> sol_so l0 = sol_so l" if "l \<in> set (so_lines d')" for l
    using that by (auto simp: lines set_upd)
  have row: "(\<exists>x0 \<in> set (fulfillment_lines d). fl_fulf x = fl_fulf x0 \<and> fl_sol x = fl_sol x0)
      \<or> (fl_fulf x = ?n \<and> (\<exists>l \<in> set ls. fl_sol x = sol_id l))"
    if "x \<in> set (fulfillment_lines d')" for x
  proof -
    have "shipped_columns x \<in> set (map shipped_columns (fulfillment_lines d'))" using that by simp
    then show ?thesis unfolding cols by (auto simp: shipped_columns_def)
  qed
  have coherent: "sol_so l = ff_so g"
    if x: "x \<in> set (fulfillment_lines d')" and g: "g \<in> set (fulfillments d')" "ff_id g = fl_fulf x"
      and l: "l \<in> set (so_lines d')" "sol_id l = fl_sol x" for x g l
  proof -
    obtain l0 where l0: "l0 \<in> set (so_lines d)" "sol_id l0 = fl_sol x" "sol_so l0 = sol_so l"
      using line [OF l(1)] l(2) by auto
    from row [OF x] show ?thesis
    proof
      assume "\<exists>x0 \<in> set (fulfillment_lines d). fl_fulf x = fl_fulf x0 \<and> fl_sol x = fl_sol x0"
      then obtain x0 where x0: "x0 \<in> set (fulfillment_lines d)" "fl_fulf x = fl_fulf x0" "fl_sol x = fl_sol x0" by blast
      have "fl_fulf x0 < ?n" using assms(2) x0(1) unfolding ship_keys_def by metis
      with g fs x0(2) have "g \<in> set (fulfillments d)" by auto
      with assms(2) x0 g(2) l0 show ?thesis unfolding ship_keys_def by metis
    next
      assume new: "fl_fulf x = ?n \<and> (\<exists>l \<in> set ls. fl_sol x = sol_id l)"
      then obtain l1 where l1: "l1 \<in> set ls" "fl_sol x = sol_id l1" by blast
      with ls l0 assms(2) have "l0 = l1" by (auto simp: ship_keys_def intro: key_inj [of sol_id])
      moreover have "ff_so g = ff_so f" using g fs new less [of g] by auto
      ultimately show ?thesis using l1(1) ls l0(3) by auto
    qed
  qed
  have "\<exists>g \<in> set (fulfillments d'). ff_id g = fl_fulf x" if "x \<in> set (fulfillment_lines d')" for x
    using row [OF that] assms(2) unfolding ship_keys_def fs by fastforce
  with coherent show ?thesis
    using assms(2) less unfolding ship_keys_def ids fs seq by fastforce
qed

lemma ship_posts_ok:
  assumes posts: "ship_posts f q ls h d d'" and ok: "ship_ok d" and "ff_state f = FULF_SHIPPED"
    and none: "\<forall>g \<in> set (fulfillments d). ff_state g = FULF_SHIPPED \<longrightarrow> ff_so g \<noteq> ff_so f"
    and ls: "set ls \<subseteq> {l \<in> set (so_lines d). sol_so l = ff_so f}" "distinct (map sol_id ls)"
    and q: "\<And>l. l \<in> set ls \<Longrightarrow> sol_shipped l = 0 \<Longrightarrow> q l = sol_picked l"
    and h: "\<And>y. so_id (h y) = so_id y" "\<And>y. so_state (h y) = SO_SHIPPED"
  shows "ship_ok d'"
proof -
  have keys: "ship_keys d" and one: "one_live d" and booked: "lines_booked d"
    using ok by (simp_all add: ship_ok_def)
  let ?n = "seqs d Seq_fulfillment"
  obtain u where fs: "fulfillments d' = fulfillments d @ [f\<lparr>ff_id := ?n, ff_ext := u\<rparr>]"
    and lines: "so_lines d' = upd (\<lambda>x. sol_id x \<in> sol_id ` set ls) stamp (so_lines d)"
    and orders: "sales_orders d' = upd (\<lambda>y. so_id y = ff_so f) h (sales_orders d)"
    using posts by (auto simp: ship_posts_def)
  note out = ship_posts_out [OF posts keys assms(3)]
  let ?g = "f\<lparr>ff_id := ?n, ff_ext := u\<rparr>"
  have "header_shipped (sales_orders d') (fulfillments d)"
    using one h unfolding orders one_live_def by (intro header_shipped_upd) auto
  moreover have "header_shipped (sales_orders d') [?g]"
    using h by (auto simp: header_shipped_def orders set_upd)
  ultimately have "one_live d'"
    using one none assms(3) by (auto simp: one_live_def fs header_shipped_def)
  moreover have "lines_booked d'"
    unfolding lines_booked_def
  proof
    fix l'
    assume "l' \<in> set (so_lines d')"
    then obtain l where l: "l \<in> set (so_lines d)"
      and l': "l' = (if sol_id l \<in> sol_id ` set ls then stamp l else l)"
      by (auto simp: lines set_upd)
    have b: "sol_shipped l = shipped_out (sol_id l) d" "sol_shipped l = 0 \<or> sol_shipped l = sol_picked l"
      "0 \<le> sol_packed l" "sol_packed l \<le> sol_picked l"
      using booked l by (auto simp: lines_booked_def)
    show "sol_shipped l' = shipped_out (sol_id l') d'
      \<and> (sol_shipped l' = 0 \<or> sol_shipped l' = sol_picked l') \<and> 0 \<le> sol_packed l' \<and> sol_packed l' \<le> sol_picked l'"
    proof (cases "sol_id l \<in> sol_id ` set ls")
      case True
      then obtain l1 where "l1 \<in> set ls" "sol_id l = sol_id l1" by auto
      with ls(1) l keys have mem: "l \<in> set ls" "sol_so l = ff_so f"
        using key_inj [of sol_id "so_lines d" l l1] by (auto simp: ship_keys_def)
      have "shipped_out (sol_id l) d = 0"
        by (rule nothing_shipped [OF keys l]) (use none mem(2) in simp)
      moreover from this b(1) q mem(1) have "total (\<lambda>x. sol_id x = sol_id l) q ls = sol_picked l"
        using total_at_key [OF ls(2) mem(1)] by simp
      ultimately show ?thesis using l' True b(3,4) by (simp add: out)
    next
      case False
      then have "total (\<lambda>x. sol_id x = sol_id l) q ls = 0"
        by (intro total_none) (auto simp: image_iff)
      then show ?thesis using l' False b by (simp add: out)
    qed
  qed
  ultimately show ?thesis
    using ship_posts_keys [OF posts keys ls(1) h(1)] by (simp add: ship_ok_def)
qed

lemma shipped_lines_member:
  "set (shipped_lines so d) = {l \<in> set (so_lines d). sol_so l = so \<and> 0 < sol_picked l}"
  by (auto simp: shipped_lines_def order_lines_def)

lemma unshipped_lines_member:
  "set (unshipped_lines so d) = {l \<in> set (so_lines d). sol_so l = so \<and> sol_shipped l < sol_picked l}"
  by (auto simp: unshipped_lines_def order_lines_def)

lemma distinct_filter_ids: "distinct (map k t) \<Longrightarrow> distinct (map k (filter P t))"
  by (induction t) auto

lemma distinct_sort_ids: "distinct (map k (sort_key g t)) = distinct (map k t)"
proof -
  have "mset (map k (sort_key g t)) = mset (map k t)" by simp
  then show ?thesis by (metis mset_eq_imp_distinct_iff)
qed

lemma order_line_ids_distinct:
  assumes "ship_keys d"
  shows "distinct (map sol_id (shipped_lines so d))" "distinct (map sol_id (unshipped_lines so d))"
  using assms
  by (simp_all add: ship_keys_def shipped_lines_def unshipped_lines_def order_lines_def
      distinct_filter_ids distinct_sort_ids)

lemma record_ship_ok:
  assumes ok: "ship_ok d" and ship: "record_ship so a d = Inr (r, d')"
    and so: "so \<in> set (sales_orders d)" "so_state so \<noteq> SO_SHIPPED"
  shows "ship_ok d'"
proof (rule ship_posts_ok [OF record_ship_Inr(2) [OF ship] ok])
  show "\<forall>g \<in> set (fulfillments d). ff_state g = FULF_SHIPPED
      \<longrightarrow> ff_so g \<noteq> ff_so (new_fulfillment so a (case sa_at a of None \<Rightarrow> now d | Some t \<Rightarrow> t))"
    using not_shipped_none_live [OF _ so] ok by (simp add: ship_ok_def new_fulfillment_def)
  show "distinct (map sol_id (shipped_lines (so_id so) d))"
    using ok order_line_ids_distinct(1) by (simp add: ship_ok_def)
qed (auto simp: new_fulfillment_def ship_stamp_def shipped_lines_member)

lemma record_admin_ship_ok:
  assumes ok: "ship_ok d" and ship: "record_admin_ship i user txn ack d = Inr (r, d')"
  shows "ship_ok d'"
proof -
  obtain so tm where so: "find_so i d = Some so" and none: "live_fulfillments i d = []"
    and posts: "ship_posts (admin_fulfillment so user tm) (\<lambda>l. sol_picked l - sol_shipped l)
      (unshipped_lines i d) (admin_stamp tm) d d'"
    using record_admin_ship_Inr [OF ship] by metis
  note id = conjunct2 [OF find_so_Some [OF so]]
  show ?thesis
  proof (rule ship_posts_ok [OF posts ok])
    show "\<forall>g \<in> set (fulfillments d). ff_state g = FULF_SHIPPED \<longrightarrow> ff_so g \<noteq> ff_so (admin_fulfillment so user tm)"
      using none by (auto simp: live_fulfillments_def filter_empty_conv admin_fulfillment_def id)
    show "distinct (map sol_id (unshipped_lines i d))"
      using ok order_line_ids_distinct(2) by (simp add: ship_ok_def)
  qed (auto simp: admin_fulfillment_def admin_stamp_def unshipped_lines_member id)
qed

lemma live_void:
  assumes "ship_keys d" "f \<in> set (fulfillments d)"
  shows "live k (void_fulfillment (ff_id f) u r d) = (live k d \<and> k \<noteq> ff_id f)"
  by (auto simp: live_def void_fulfillment_def set_upd)

lemma void_fulfillment_columns [simp]:
  "map (\<lambda>f. (ff_id f, ff_so f)) (fulfillments (void_fulfillment k u r d))
     = map (\<lambda>f. (ff_id f, ff_so f)) (fulfillments d)"
  by (simp add: void_fulfillment_def map_upd_same)

lemma live_of_void:
  assumes "one_live d" "ship_keys d" "f \<in> set (fulfillments d)" "ff_state f = FULF_SHIPPED"
    and "g \<in> set (fulfillments (void_fulfillment (ff_id f) u r d))" "ff_state g = FULF_SHIPPED"
  shows "g \<in> set (fulfillments d) \<and> ff_id g \<noteq> ff_id f \<and> ff_so g \<noteq> ff_so f"
proof -
  from assms(5,6) have g: "g \<in> set (fulfillments d)" "ff_id g \<noteq> ff_id f"
    by (auto simp: void_fulfillment_def set_upd split: if_splits)
  with assms(1,3,4,6) have "ff_so g \<noteq> ff_so f"
    using key_inj [of ff_so "filter (\<lambda>f. ff_state f = FULF_SHIPPED) (fulfillments d)" g f]
    by (auto simp: one_live_def)
  with g show ?thesis by simp
qed

lemma distinct_void:
  "distinct (map ff_so (filter (\<lambda>f. ff_state f = FULF_SHIPPED) fs)) \<Longrightarrow>
   distinct (map ff_so (filter (\<lambda>f. ff_state f = FULF_SHIPPED)
     (upd (\<lambda>f. ff_id f = k) (\<lambda>f. f\<lparr>ff_state := FULF_VOIDED, ff_voided_at := a, ff_voided_by := b, ff_reason := c\<rparr>) fs)))"
  by (induction fs) (auto simp: set_upd split: if_splits)

lemma record_void_ok:
  assumes ok: "ship_ok d" and void: "record_void_ship so (ff_id f) pre user ext reason txn extra d = Inr (r, d')"
    and f: "f \<in> set (fulfillments d)" "ff_so f = so_id so" "ff_state f = FULF_SHIPPED"
  shows "ship_ok d'"
proof -
  have keys: "ship_keys d" and one: "one_live d" and booked: "lines_booked d"
    using ok by (simp_all add: ship_ok_def)
  obtain p where orders: "sales_orders d' = sales_orders (void_header (so_id so) p d)"
    and fs: "fulfillments d' = fulfillments (void_fulfillment (ff_id f) user reason d)"
    and lines: "so_lines d' = so_lines (void_lines (so_id so) p d)"
    and fl: "fulfillment_lines d' = fulfillment_lines d"
    and seq: "seqs d' Seq_fulfillment = seqs d Seq_fulfillment"
    using record_void_ship_Inr [OF void] by metis
  have keys': "ship_keys d'"
    by (rule ship_keys_cong [OF keys])
      (simp_all add: orders fs lines fl seq void_header_def void_lines_def map_upd_same)
  have gone: "g \<in> set (fulfillments d) \<and> ff_id g \<noteq> ff_id f \<and> ff_so g \<noteq> so_id so"
    if "g \<in> set (fulfillments d')" "ff_state g = FULF_SHIPPED" for g
    using live_of_void [OF one keys f(1,3)] that f(2) by (simp add: fs)
  have "header_shipped (sales_orders d') (fulfillments d')"
    unfolding header_shipped_def
  proof (intro ballI impI)
    fix g x
    assume g: "g \<in> set (fulfillments d')" "ff_state g = FULF_SHIPPED"
      and x: "x \<in> set (sales_orders d')" "so_id x = ff_so g"
    from x have "x \<in> set (sales_orders d)"
      using gone [OF g] by (auto simp: orders void_header_def set_upd split: if_splits)
    with one gone [OF g] x(2) g(2) show "so_state x = SO_SHIPPED"
      unfolding one_live_def header_shipped_def by blast
  qed
  moreover have "distinct (map ff_so (filter (\<lambda>f. ff_state f = FULF_SHIPPED) (fulfillments d')))"
    using one unfolding fs void_fulfillment_def one_live_def by (simp add: distinct_void)
  moreover have "lines_booked d'"
    unfolding lines_booked_def
  proof
    fix l'
    assume l': "l' \<in> set (so_lines d')"
    then obtain l where l: "l \<in> set (so_lines d)"
      and eq: "l' = (if sol_so l = so_id so then l\<lparr>sol_shipped := 0, sol_state := SOL_AS p\<rparr> else l)"
      by (auto simp: lines void_lines_def set_upd)
    have b: "sol_shipped l = shipped_out (sol_id l) d \<and> (sol_shipped l = 0 \<or> sol_shipped l = sol_picked l)
        \<and> 0 \<le> sol_packed l \<and> sol_packed l \<le> sol_picked l"
      using booked l unfolding lines_booked_def by blast
    have "shipped_out (sol_id l') d' = (if sol_so l = so_id so then 0 else shipped_out (sol_id l) d)"
    proof (cases "sol_so l = so_id so")
      case True
      then have "sol_so l' = so_id so" by (simp add: eq)
      then have "shipped_out (sol_id l') d' = 0"
        by (intro nothing_shipped [OF keys' l']) (use gone in auto)
      with True show ?thesis by simp
    next
      case False
      have "shipped_out (sol_id l) d' = shipped_out (sol_id l) d"
        unfolding shipped_out_def fl
      proof (rule total_cong)
        fix x
        assume x: "x \<in> set (fulfillment_lines d)"
        have "fl_sol x = sol_id l \<Longrightarrow> fl_fulf x \<noteq> ff_id f"
          using keys x f(1,2) l False unfolding ship_keys_def by metis
        then show "(fl_sol x = sol_id l \<and> live (fl_fulf x) d') = (fl_sol x = sol_id l \<and> live (fl_fulf x) d)"
          using live_void [OF keys f(1)] live_cong [OF fs] by auto
      qed simp
      with False show ?thesis by (simp add: eq)
    qed
    with b show "sol_shipped l' = shipped_out (sol_id l') d'
      \<and> (sol_shipped l' = 0 \<or> sol_shipped l' = sol_picked l') \<and> 0 \<le> sol_packed l' \<and> sol_packed l' \<le> sol_picked l'"
      by (auto simp: eq)
  qed
  ultimately show ?thesis
    using keys' by (simp add: ship_ok_def one_live_def)
qed

section \<open>Properties of shipping\<close>

lemma stamp_shipped_lines:
  assumes "distinct (map sol_id (so_lines d))"
  shows "upd (\<lambda>x. sol_id x \<in> sol_id ` set (shipped_lines so d)) stamp (so_lines d)
    = upd (\<lambda>l. sol_so l = so \<and> 0 < sol_picked l) stamp (so_lines d)"
  unfolding upd_def
proof (rule map_cong [OF refl])
  fix x
  assume x: "x \<in> set (so_lines d)"
  have "sol_id x \<in> sol_id ` set (shipped_lines so d) \<longleftrightarrow> x \<in> set (shipped_lines so d)"
    using key_inj [OF assms x] by (auto simp: shipped_lines_member)
  with x show "(if sol_id x \<in> sol_id ` set (shipped_lines so d) then stamp x else x)
      = (if sol_so x = so \<and> 0 < sol_picked x then stamp x else x)"
    by (simp add: shipped_lines_member)
qed

lemma fulfill_Inr:
  assumes "fulfill s so tracking carrier method d = Inr (r, d')"
  obtains x a where "find_scoped_so s so d = Some x" "so_state x \<in> set (shippable_from d)"
    "record_ship x a d = Inr (r, d')" "sa_pre a = None" "so_id x = so"
  using assms find_scoped_Some by (fastforce simp: fulfill_def split: option.splits if_splits)

lemma posted_rows:
  assumes posts: "ship_posts f q ls h d d'"
    and fresh: "\<forall>x \<in> set (fulfillment_lines d). fl_fulf x < seqs d Seq_fulfillment"
  shows "map (\<lambda>x. (fl_sol x, fl_qty x)) (filter (\<lambda>x. fl_fulf x = seqs d Seq_fulfillment) (fulfillment_lines d'))
    = map (\<lambda>l. (sol_id l, q l)) ls"
proof -
  let ?n = "seqs d Seq_fulfillment"
  have cols: "map shipped_columns (fulfillment_lines d')
      = map shipped_columns (fulfillment_lines d) @ map (\<lambda>l. (?n, sol_id l, q l)) ls"
    using posts by (auto simp: ship_posts_def)
  have rows: "map (\<lambda>x. (fl_sol x, fl_qty x)) (filter (\<lambda>x. fl_fulf x = ?n) t)
      = map snd (filter (\<lambda>c. fst c = ?n) (map shipped_columns t))" for t
    by (simp add: filter_map comp_def shipped_columns_def)
  have "filter (\<lambda>x. fl_fulf x = ?n) (fulfillment_lines d) = []"
    using fresh by (auto simp: filter_empty_conv)
  then show ?thesis
    unfolding rows cols by (simp add: filter_map comp_def shipped_columns_def)
qed

text \<open>
  Claim C34. A successful ship books exactly what was picked and nothing is forgotten: every
  line of the order was picked in full or carries an explicit short marker, every picked
  line becomes shipped in its picked quantity, the new fulfillment holds one row per picked
  line with that quantity, other lines and the stock are untouched.
\<close>

theorem fulfill_ships_what_was_picked:
  assumes "fulfill s so tracking carrier method d = Inr (r, d')"
    and "items_known so d" "distinct (map sol_id (so_lines d))"
    and "\<forall>x \<in> set (fulfillment_lines d). fl_fulf x < seqs d Seq_fulfillment"
  shows "(\<forall>l \<in> set (order_lines so d). sol_ordered l \<le> sol_picked l \<or> short_marked (sol_id l) d)
    \<and> so_lines d' = upd (\<lambda>l. sol_so l = so \<and> 0 < sol_picked l)
         (\<lambda>l. l\<lparr>sol_shipped := sol_picked l, sol_state := SOL_AS SO_SHIPPED\<rparr>) (so_lines d)
    \<and> map (\<lambda>x. (fl_sol x, fl_qty x)) (filter (\<lambda>x. fl_fulf x = sr_fulf r) (fulfillment_lines d'))
        = map (\<lambda>l. (sol_id l, sol_picked l)) (filter (\<lambda>l. sol_so l = so \<and> 0 < sol_picked l) (so_lines d))
    \<and> inventory d' = inventory d"
proof -
  obtain x a where ship: "record_ship x a d = Inr (r, d')" and id: "so_id x = so"
    using fulfill_Inr [OF assms(1)] by metis
  note i = record_ship_Inr [OF ship, unfolded id]
  have "so_lines d' = upd (\<lambda>l. sol_so l = so \<and> 0 < sol_picked l) stamp (so_lines d)"
    using i(2) stamp_shipped_lines [OF assms(3)] by (simp add: ship_posts_def)
  moreover have "sr_fulf r = seqs d Seq_fulfillment"
    using arg_cong [OF i(3), of sr_fulf] by simp
  moreover have "shipped_lines so d = filter (\<lambda>l. sol_so l = so \<and> 0 < sol_picked l) (so_lines d)"
    by (simp add: shipped_lines_def order_lines_def conj_commute)
  ultimately show ?thesis
    using i(1,2) posted_rows [OF i(2) assms(4)] order_shortfall_none [OF assms(2)]
    by (simp add: ship_posts_def stamp_def [abs_def])
qed

lemma unshipped_after:
  assumes "ship_posts f q (unshipped_lines i d) h d d'"
  shows "\<forall>l \<in> set (order_lines i d'). sol_picked l \<le> sol_shipped l"
proof
  fix l'
  assume "l' \<in> set (order_lines i d')"
  then obtain l where l: "l \<in> set (so_lines d)" "sol_so l = i"
    "l' = (if sol_id l \<in> sol_id ` set (unshipped_lines i d) then stamp l else l)"
    using assms by (auto simp: ship_posts_def order_lines_def set_upd split: if_splits)
  then show "sol_picked l' \<le> sol_shipped l'"
    by (cases "l \<in> set (unshipped_lines i d)") (auto simp: unshipped_lines_member)
qed

text \<open>
  The corrective admin ship happens once: when it succeeds, no line of the order
  is left picked but unshipped, stock is untouched, an order that was already SHIPPED emits
  no event, and any further admin ship of the order, by whom and with whatever
  acknowledgement, is refused because the order now has a live fulfillment.
\<close>

theorem admin_ship_once:
  assumes "record_admin_ship i user txn ack d = Inr (r, d')"
    and "distinct (map so_id (sales_orders d))"
  shows "(\<forall>l \<in> set (order_lines i d'). sol_picked l \<le> sol_shipped l)
    \<and> inventory d' = inventory d
    \<and> (map_option so_state (find_so i d) = Some SO_SHIPPED \<longrightarrow> events d' = events d)
    \<and> record_admin_ship i user' txn' ack' d' = Inl SE_already_fulfilled"
proof -
  obtain so tm where so: "find_so i d = Some so" "order_type_allows_fulfillment_ops (so_type so)"
    and posts: "ship_posts (admin_fulfillment so user tm) (\<lambda>l. sol_picked l - sol_shipped l)
      (unshipped_lines i d) (admin_stamp tm) d d'"
    and ev: "so_state so = SO_SHIPPED \<longrightarrow> events d' = events d"
    using record_admin_ship_Inr [OF assms(1)] by metis
  note id = find_so_Some [OF so(1)]
  have orders: "sales_orders d' = upd (\<lambda>y. so_id y = i) (admin_stamp tm) (sales_orders d)"
    using posts id by (simp add: ship_posts_def admin_fulfillment_def)
  then have "admin_stamp tm so \<in> set (sales_orders d')"
    using id by (auto simp: set_upd intro: rev_image_eqI)
  moreover have "distinct (map so_id (sales_orders d'))"
    using assms(2) by (simp add: orders map_upd_same admin_stamp_def)
  ultimately have "List.find (\<lambda>y. so_id y = so_id (admin_stamp tm so)) (sales_orders d') = Some (admin_stamp tm so)"
    by (intro find_key)
  then have "find_so i d' = Some (admin_stamp tm so)"
    using id by (simp add: find_so_def admin_stamp_def)
  moreover have "live_fulfillments i d' \<noteq> []"
    using posts id by (auto simp: live_fulfillments_def ship_posts_def admin_fulfillment_def)
  ultimately have "record_admin_ship i user' txn' ack' d' = Inl SE_already_fulfilled"
    using so(2) by (simp add: record_admin_ship_def admin_stamp_def)
  with unshipped_after [OF posts] posts ev so(1) show ?thesis
    by (simp add: ship_posts_def)
qed

lemma ship_bin_frame:
  "ship_bin so l (ship_line f b q l' d) = ship_bin so l d"
  by (simp add: ship_bin_def pick_bin_def find_bin_def)

lemma ship_lines_accepts:
  "(\<exists>d'. ship_lines (ship_bin so) q f ls d = Inr d') \<longleftrightarrow> (\<forall>l \<in> set ls. \<exists>b. ship_bin so l d = Inr b)"
  by (induction ls arbitrary: d) (auto simp: ship_bin_frame split: sum.splits)

lemma admin_lines_accepts:
  "(\<exists>d'. ship_lines (admin_bin so) q f ls d = Inr d') \<longleftrightarrow> (\<forall>l \<in> set ls. \<exists>b. admin_bin so l d = Inr b)"
proof -
  have "pick_bin s i (ship_line f b q l' d) = pick_bin s i d" "fallback_bin w (ship_line f b q l' d) = fallback_bin w d"
    for s i w b q l' d
    by (simp_all add: pick_bin_def fallback_bin_def)
  then have "admin_bin so l (ship_line f b q l' d) = admin_bin so l d" for l b q l' d
    by (simp add: admin_bin_def cong: option.case_cong)
  then show ?thesis by (induction ls arbitrary: d) (auto split: sum.splits)
qed

lemma record_ship_accepts:
  "(\<exists>x. record_ship so a d = Inr x) \<longleftrightarrow> order_shortfall (so_id so) d = []
     \<and> (\<forall>l \<in> set (shipped_lines (so_id so) d). \<exists>b. ship_bin (so_id so) l d = Inr b)"
proof -
  let ?f = "new_fulfillment so a (case sa_at a of None \<Rightarrow> now d | Some t \<Rightarrow> t)"
  let ?d1 = "snd (insert_fulfillment ?f d)"
  have same: "shipped_lines (so_id so) ?d1 = shipped_lines (so_id so) d" "ship_bin so' l ?d1 = ship_bin so' l d" for so' l
    by (simp_all add: shipped_lines_def order_lines_def ship_bin_def pick_bin_def find_bin_def)
  have "(\<exists>x. record_ship so a d = Inr x) \<longleftrightarrow> order_shortfall (so_id so) d = []
     \<and> (\<exists>d2. ship_lines (ship_bin (so_id so)) sol_picked (fst (insert_fulfillment ?f d))
              (shipped_lines (so_id so) d) ?d1 = Inr d2)"
    by (auto simp: record_ship_def Let_def split_beta same split: sum.splits)
  then show ?thesis by (simp only: ship_lines_accepts same)
qed

lemma order_shortfall_kept:
  assumes "map line_columns (so_lines d') = map line_columns (so_lines d)" "items d' = items d"
    "pick_tasks d' = pick_tasks d" "breakdowns d' = breakdowns d" "order_shortfall so d = []"
  shows "order_shortfall so d' = []"
proof -
  let ?Q = "\<lambda>(lid, sid, item, ordered, picked). sid = so \<longrightarrow>
     (\<forall>i \<in> set (items d). item_id i = item \<longrightarrow> ordered \<le> picked \<or> short_marked lid d)"
  have empty: "order_shortfall so e = [] \<longleftrightarrow> (\<forall>l \<in> set (so_lines e). sol_so l = so \<longrightarrow>
      (\<forall>i \<in> set (items e). item_id i = sol_item l \<longrightarrow> sol_ordered l \<le> sol_picked l \<or> short_marked (sol_id l) e))" for e
    unfolding order_shortfall_def order_items_def join_items_def order_lines_def
      length_0_conv [symmetric] length_sort
    by (auto simp: concat_eq_Nil_conv split: if_splits)
  have "\<forall>l \<in> set (so_lines d'). ?Q (line_columns l)"
    using assms(5) unfolding empty by (intro ball_columns [OF assms(1)]) (auto simp: line_columns_def)
  moreover have "short_marked i d' = short_marked i d" for i
    by (simp add: short_marked_def assms(3,4))
  ultimately show ?thesis
    unfolding empty by (simp add: line_columns_def assms(2))
qed

lemma sol_item_stamp [simp]: "sol_item (stamp x) = sol_item x"
  by (simp add: stamp_def)

lemma ship_bins_kept:
  assumes "map line_columns (so_lines d') = map line_columns (so_lines d)"
    "pick_tasks d' = pick_tasks d" "bins d' = bins d"
    and "\<forall>l \<in> set (shipped_lines so d). \<exists>b. ship_bin so l d = Inr b"
  shows "\<forall>l \<in> set (shipped_lines so d'). \<exists>b. ship_bin so l d' = Inr b"
proof -
  let ?bin = "\<lambda>item. case pick_bin so item d of Some b \<Rightarrow> b | None \<Rightarrow> 1"
  let ?Q = "\<lambda>(lid, sid, item, ordered, picked). sid = so \<and> 0 < picked \<longrightarrow> find_bin (?bin item) d \<noteq> None"
  have frame: "pick_bin so i d' = pick_bin so i d" "find_bin b d' = find_bin b d" for i b
    by (simp_all add: pick_bin_def find_bin_def assms(2,3))
  have iff: "(\<exists>b. ship_bin so l e = Inr b) \<longleftrightarrow>
      find_bin (case pick_bin so (sol_item l) e of Some b \<Rightarrow> b | None \<Rightarrow> 1) e \<noteq> None" for l e
    by (simp add: ship_bin_def Let_def)
  have "\<forall>l \<in> set (so_lines d'). ?Q (line_columns l)"
    using assms(4) unfolding iff
    by (intro ball_columns [OF assms(1)]) (auto simp: line_columns_def shipped_lines_member)
  then show ?thesis unfolding iff frame by (auto simp: line_columns_def shipped_lines_member)
qed

lemma void_header_after_stamp:
  assumes "distinct (map so_id (sales_orders d))" "so \<in> set (sales_orders d)"
  shows "upd (\<lambda>y. so_id y = so_id so)
      (\<lambda>y. y\<lparr>so_state := so_state so, so_tracking := None, so_carrier := None, so_shipped_at := None\<rparr>)
      (upd (\<lambda>y. so_id y = so_id so) (ship_stamp a tm) (sales_orders d))
    = upd (\<lambda>y. so_id y = so_id so)
      (\<lambda>y. y\<lparr>so_tracking := None, so_carrier := None, so_shipped_at := None,
             so_method := (case sa_method a of None \<Rightarrow> so_method y | Some m \<Rightarrow> Some m)\<rparr>) (sales_orders d)"
  unfolding upd_def map_map
proof (rule map_cong [OF refl])
  fix y
  assume "y \<in> set (sales_orders d)"
  then have "so_id y = so_id so \<Longrightarrow> y = so" using key_inj [OF assms(1) _ assms(2)] by metis
  then show "((\<lambda>y. if so_id y = so_id so
        then y\<lparr>so_state := so_state so, so_tracking := None, so_carrier := None, so_shipped_at := None\<rparr> else y)
      \<circ> (\<lambda>y. if so_id y = so_id so then ship_stamp a tm y else y)) y
    = (if so_id y = so_id so then y\<lparr>so_tracking := None, so_carrier := None, so_shipped_at := None,
             so_method := (case sa_method a of None \<Rightarrow> so_method y | Some m \<Rightarrow> Some m)\<rparr> else y)"
    by (cases so) (auto simp: ship_stamp_def)
qed

lemma void_after_stamp:
  assumes "distinct (map sol_id (so_lines d))" "\<forall>l \<in> set (order_lines so d). sol_shipped l = 0"
  shows "upd (\<lambda>l. sol_so l = so) (\<lambda>l. l\<lparr>sol_shipped := 0, sol_state := SOL_AS p\<rparr>)
      (upd (\<lambda>x. sol_id x \<in> sol_id ` set (shipped_lines so d)) stamp (so_lines d))
    = upd (\<lambda>l. sol_so l = so) (\<lambda>l. l\<lparr>sol_state := SOL_AS p\<rparr>) (so_lines d)"
  unfolding stamp_shipped_lines [OF assms(1)]
  unfolding upd_def map_map
proof (rule map_cong [OF refl])
  fix l
  assume "l \<in> set (so_lines d)"
  then have "sol_so l = so \<Longrightarrow> sol_shipped l = 0" using assms(2) by (simp add: order_lines_def)
  then show "((\<lambda>l. if sol_so l = so then l\<lparr>sol_shipped := 0, sol_state := SOL_AS p\<rparr> else l)
      \<circ> (\<lambda>l. if sol_so l = so \<and> 0 < sol_picked l then stamp l else l)) l
      = (if sol_so l = so then l\<lparr>sol_state := SOL_AS p\<rparr> else l)"
    by (simp add: stamp_def)
qed

text \<open>
  Claim C35. Voiding a ship undoes it: the header returns to its status before the ship with
  the ship fields cleared (only a newly given ship method stays), no line is shipped any
  more, the stock never moved, and the order can be shipped again.
\<close>

theorem ship_void_round_trip:
  assumes "record_ship so a d = Inr (r, d1)" "sa_pre a = Some (so_state so)"
    and "record_void_ship so (sr_fulf r) (sa_pre a) user ext reason txn extra d1 = Inr (v, d2)"
    and "so \<in> set (sales_orders d)" "distinct (map so_id (sales_orders d))"
    and "so_state so \<noteq> SO_SHIPPED" "\<forall>l \<in> set (order_lines (so_id so) d). sol_shipped l = 0"
    and "distinct (map sol_id (so_lines d))"
  shows "sales_orders d2 = upd (\<lambda>y. so_id y = so_id so)
      (\<lambda>y. y\<lparr>so_tracking := None, so_carrier := None, so_shipped_at := None,
             so_method := (case sa_method a of None \<Rightarrow> so_method y | Some m \<Rightarrow> Some m)\<rparr>) (sales_orders d)
    \<and> so_lines d2 = upd (\<lambda>l. sol_so l = so_id so) (\<lambda>l. l\<lparr>sol_state := SOL_AS (so_state so)\<rparr>) (so_lines d)
    \<and> inventory d2 = inventory d
    \<and> (\<exists>again. record_ship so a' d2 = Inr again)"
proof -
  let ?i = "so_id so" and ?p = "so_state so"
  define tm where "tm = (case sa_at a of None \<Rightarrow> now d | Some t \<Rightarrow> t)"
  note ship = record_ship_Inr(2) [OF assms(1), folded tm_def]
  obtain void: "sales_orders d2 = sales_orders (void_header ?i ?p d1)" "so_lines d2 = so_lines (void_lines ?i ?p d1)"
    "inventory d2 = inventory d1" "items d2 = items d1" "bins d2 = bins d1" "pick_tasks d2 = pick_tasks d1"
    "breakdowns d2 = breakdowns d1"
    using record_void_ship_Inr [OF assms(3)] assms(2) by (metis option.inject)
  have orders: "sales_orders d2 = upd (\<lambda>y. so_id y = ?i)
      (\<lambda>y. y\<lparr>so_tracking := None, so_carrier := None, so_shipped_at := None,
             so_method := (case sa_method a of None \<Rightarrow> so_method y | Some m \<Rightarrow> Some m)\<rparr>) (sales_orders d)"
    using ship void_header_after_stamp [OF assms(5,4)] assms(6)
    by (simp add: void(1) ship_posts_def new_fulfillment_def void_header_def)
  have lines: "so_lines d2 = upd (\<lambda>l. sol_so l = ?i) (\<lambda>l. l\<lparr>sol_state := SOL_AS ?p\<rparr>) (so_lines d)"
    using ship void_after_stamp [OF assms(8,7)] by (simp add: void(2) void_lines_def ship_posts_def)
  have columns: "map line_columns (so_lines d2) = map line_columns (so_lines d)"
    by (simp add: lines map_upd_same line_columns_def)
  have same: "items d2 = items d" "pick_tasks d2 = pick_tasks d" "breakdowns d2 = breakdowns d"
    "bins d2 = bins d" "inventory d2 = inventory d"
    using ship void by (simp_all add: ship_posts_def)
  have "\<exists>again. record_ship so a' d2 = Inr again"
    using assms(1) record_ship_accepts [of so a d] order_shortfall_kept [OF columns same(1-3)]
      ship_bins_kept [OF columns same(2,4)] record_ship_accepts [of so a' d2] by blast
  with orders lines same(5) show ?thesis by blast
qed

section \<open>Examples\<close>

definition demo_shipping :: db where
  "demo_shipping = demo_packing\<lparr>sales_orders := [(demo_so 11 ''SO-1'')\<lparr>so_state := SO_PACKED\<rparr>],
     so_lines := [demo_pack_line 111 2 2, demo_pack_line 112 1 1],
     users := [\<lparr>usr_name = ''packer'', usr_ext = ''u-1''\<rparr>]\<rparr>"

lemmas demo_shipping_defs = demo_shipping_def demo_packing_defs

lemma demo_shipping_ready:
  "find_scoped_so demo_packer 11 demo_shipping = Some ((demo_so 11 ''SO-1'')\<lparr>so_state := SO_PACKED\<rparr>)"
  "find_so 11 demo_shipping = Some ((demo_so 11 ''SO-1'')\<lparr>so_state := SO_PACKED\<rparr>)"
  "distinct (map sol_id (so_lines demo_shipping))" "distinct (map so_id (sales_orders demo_shipping))"
  "items_known 11 demo_shipping" "order_shortfall 11 demo_shipping = []"
  "fulfillment_lines demo_shipping = []"
  by (simp_all add: demo_shipping_defs find_scoped_so_def find_so_def warehouse_scope_clause_def
      items_known_def order_lines_def order_shortfall_def order_items_def join_items_def)

lemma demo_record_ship:
  "\<exists>x. record_ship ((demo_so 11 ''SO-1'')\<lparr>so_state := SO_PACKED\<rparr>) a demo_shipping = Inr x"
  unfolding record_ship_accepts
  by (simp add: demo_shipping_defs shipped_lines_def order_lines_def ship_bin_def pick_bin_def find_bin_def
      order_shortfall_def order_items_def join_items_def)

lemma demo_fulfill: "\<exists>r d'. fulfill demo_packer 11 ''1Z'' ''UPS'' None demo_shipping = Inr (r, d')"
  using demo_record_ship
  by (auto simp: fulfill_def demo_shipping_ready shippable_from_def require_packing_before_shipping_def)

lemma fulfill_ships_what_was_picked_witness:
  "\<exists>r d'. fulfill demo_packer 11 ''1Z'' ''UPS'' None demo_shipping = Inr (r, d')
     \<and> map sol_shipped (so_lines d') = [2, 1]"
proof -
  obtain r d' where f: "fulfill demo_packer 11 ''1Z'' ''UPS'' None demo_shipping = Inr (r, d')"
    using demo_fulfill by blast
  from fulfill_ships_what_was_picked [OF this demo_shipping_ready(5,3)]
  have "so_lines d' = upd (\<lambda>l. sol_so l = 11 \<and> 0 < sol_picked l)
      (\<lambda>l. l\<lparr>sol_shipped := sol_picked l, sol_state := SOL_AS SO_SHIPPED\<rparr>) (so_lines demo_shipping)"
    by (simp add: demo_shipping_ready)
  with f show ?thesis by (simp add: demo_shipping_defs)
qed

lemma demo_admin_ship: "\<exists>r d'. record_admin_ship 11 ''admin'' ''t-admin'' False demo_shipping = Inr (r, d')"
proof -
  let ?so = "(demo_so 11 ''SO-1'')\<lparr>so_state := SO_PACKED\<rparr>"
  let ?f = "admin_fulfillment ?so ''admin'' 0" and ?q = "\<lambda>l. sol_picked l - sol_shipped l"
  have "\<exists>d2. ship_lines (admin_bin ?so) ?q (fst (insert_fulfillment ?f demo_shipping))
      (unshipped_lines 11 demo_shipping) (snd (insert_fulfillment ?f demo_shipping)) = Inr d2"
    unfolding admin_lines_accepts
    by (simp add: admin_bin_def pick_bin_def fallback_bin_def demo_shipping_defs)
  moreover have "so_shipped_at ?so = None" "so_type ?so = OT_sale" "now demo_shipping = 0"
    "live_fulfillments 11 demo_shipping = []" "unshipped_lines 11 demo_shipping \<noteq> []"
    by (simp_all add: live_fulfillments_def unshipped_lines_def order_lines_def demo_shipping_defs)
  ultimately show ?thesis
    by (auto simp: record_admin_ship_def demo_shipping_ready order_type_allows_fulfillment_ops_def
        Let_def split_beta)
qed

lemma admin_ship_once_witness:
  "\<exists>r d'. record_admin_ship 11 ''admin'' ''t-admin'' False demo_shipping = Inr (r, d')
     \<and> record_admin_ship 11 ''admin'' ''t-2'' True d' = Inl SE_already_fulfilled"
proof -
  obtain r d' where a: "record_admin_ship 11 ''admin'' ''t-admin'' False demo_shipping = Inr (r, d')"
    using demo_admin_ship by blast
  from admin_ship_once [OF a demo_shipping_ready(4)] a show ?thesis by blast
qed

definition demo_ship_args :: ship_args where
  "demo_ship_args = \<lparr>sa_tracking = Some ''1Z'', sa_carrier = ''UPS'', sa_method = None, sa_user = ''packer'',
     sa_txn = ''k-1'', sa_pre = Some SO_PACKED, sa_cost = None, sa_at = None, sa_extra = []\<rparr>"

lemma ship_void_round_trip_witness:
  "\<exists>r d1 v d2. record_ship ((demo_so 11 ''SO-1'')\<lparr>so_state := SO_PACKED\<rparr>) demo_ship_args demo_shipping = Inr (r, d1)
     \<and> record_void_ship ((demo_so 11 ''SO-1'')\<lparr>so_state := SO_PACKED\<rparr>) (sr_fulf r) (Some SO_PACKED) ''packer'' ''u-1''
         ''wrong box'' ''k-2'' [] d1 = Inr (v, d2)
     \<and> map so_state (sales_orders d2) = [SO_PACKED]"
proof -
  let ?so = "(demo_so 11 ''SO-1'')\<lparr>so_state := SO_PACKED\<rparr>"
  obtain r d1 where ship: "record_ship ?so demo_ship_args demo_shipping = Inr (r, d1)"
    using demo_record_ship [of demo_ship_args] by auto
  have "\<exists>v d2. record_void_ship ?so (sr_fulf r) (Some SO_PACKED) ''packer'' ''u-1'' ''wrong box'' ''k-2'' [] d1
      = Inr (v, d2)"
    by (simp add: record_void_ship_def Let_def split_beta)
  then obtain v d2 where void: "record_void_ship ?so (sr_fulf r) (Some SO_PACKED) ''packer'' ''u-1'' ''wrong box''
      ''k-2'' [] d1 = Inr (v, d2)" by blast
  have pre: "sa_pre demo_ship_args = Some (so_state ?so)" by (simp add: demo_ship_args_def)
  from void have "record_void_ship ?so (sr_fulf r) (sa_pre demo_ship_args) ''packer'' ''u-1'' ''wrong box''
      ''k-2'' [] d1 = Inr (v, d2)" by (simp add: demo_ship_args_def)
  from ship_void_round_trip [OF ship pre this _ demo_shipping_ready(4)]
  have "sales_orders d2 = upd (\<lambda>y. so_id y = so_id ?so)
      (\<lambda>y. y\<lparr>so_tracking := None, so_carrier := None, so_shipped_at := None,
             so_method := (case sa_method demo_ship_args of None \<Rightarrow> so_method y | Some m \<Rightarrow> Some m)\<rparr>)
      (sales_orders demo_shipping)"
    by (simp add: demo_shipping_defs order_lines_def)
  then have "map so_state (sales_orders d2) = [SO_PACKED]"
    by (simp add: demo_shipping_defs)
  with ship void show ?thesis
    by (intro exI [of _ r] exI [of _ d1] exI [of _ v] exI [of _ d2] conjI)
qed

end
