(* ===== verification/Dockd.thy ===== *)
theory Dockd
  imports Shipping
begin

text \<open>
  \<^verbatim>\<open>api/routes/dockd.py\<close>, the shipping station's interface: reading an order or an item,
  shipping an order and voiding the ship, each write made idempotent by a key the client
  chooses. Tokens are already authenticated; rate limits, lock timeouts and response
  headers are not modelled. A body is its typed value, absent when it is not JSON of the
  schema; \<open>sha\<close> is SHA-256 over the canonical serialisation, a library function.
\<close>

section \<open>Requests\<close>

record dockd_token =
  tk_id :: int
  tk_name :: "string option"
  tk_whs :: "int list"

record ship_body =
  sb_tracking :: string
  sb_carrier :: string
  sb_method :: "string option"
  sb_user :: string
  sb_cost :: "rat option"
  sb_weight :: "rat option"
  sb_dims :: "(rat \<times> rat \<times> rat) option"
  sb_manual :: bool
  sb_key :: string

record void_body =
  vb_reason :: string
  vb_user :: string
  vb_key :: string

text \<open>\<open>content_length\<close> of the request, the configured cap in kilobytes, and the parsed body.\<close>

record 'b dockd_request =
  rq_length :: "int option"
  rq_cap_kb :: int
  rq_body :: "'b option"

definition text_within :: "nat \<Rightarrow> string \<Rightarrow> bool" where
  "text_within n s \<longleftrightarrow> 1 \<le> length s \<and> length s \<le> n"

text \<open>At most twelve digits, two of them decimals.\<close>

definition cost_ok :: "rat \<Rightarrow> bool" where
  "cost_ok c \<longleftrightarrow> 0 \<le> c \<and> snd (quotient_of (c * 100)) = 1 \<and> c < 10 ^ 10"

definition valid_ship_body :: "ship_body \<Rightarrow> bool" where
  "valid_ship_body b \<longleftrightarrow>
     text_within 100 (sb_tracking b) \<and> text_within 50 (sb_carrier b)
     \<and> (case sb_method b of None \<Rightarrow> True | Some m \<Rightarrow> text_within 50 m)
     \<and> text_within 100 (sb_user b)
     \<and> (case sb_cost b of None \<Rightarrow> True | Some c \<Rightarrow> cost_ok c)
     \<and> (case sb_weight b of None \<Rightarrow> True | Some w \<Rightarrow> 0 < w)
     \<and> (case sb_dims b of None \<Rightarrow> True | Some (l, w, h) \<Rightarrow> 0 < l \<and> 0 < w \<and> 0 < h)"

definition valid_void_body :: "void_body \<Rightarrow> bool" where
  "valid_void_body b \<longleftrightarrow> text_within 500 (vb_reason b) \<and> text_within 100 (vb_user b)"

text \<open>What \<open>canonical_body_sha256\<close> hashes: the body without its idempotency key, keys sorted.\<close>

definition dims_json :: "rat \<times> rat \<times> rat \<Rightarrow> json" where
  "dims_json = (\<lambda>(l, w, h). JObj [(''h'', JNum h), (''l'', JNum l), (''w'', JNum w)])"

definition ship_payload :: "ship_body \<Rightarrow> json" where
  "ship_payload b =
     JObj [(''carrier'', JStr (sb_carrier b)), (''dims'', jopt dims_json (sb_dims b)),
           (''manual_link'', JBool (sb_manual b)), (''operator_username'', JStr (sb_user b)),
           (''ship_method'', jopt JStr (sb_method b)), (''shipping_cost'', jopt JNum (sb_cost b)),
           (''tracking'', JStr (sb_tracking b)), (''weight'', jopt JNum (sb_weight b))]"

definition void_payload :: "void_body \<Rightarrow> json" where
  "void_payload b = JObj [(''operator_username'', JStr (vb_user b)), (''reason'', JStr (vb_reason b))]"

datatype dockd_error =
  DE_invalid_so_number
| DE_invalid_barcode
| DE_body_too_large
| DE_invalid_body
| DE_key_reused
| DE_unknown_operator
| DE_not_found
| DE_already_shipped "string option" "string option" "int option" "string option"
| DE_not_shippable so_status
| DE_under_picked "(int \<times> string \<times> int \<times> int) list"
| DE_not_shipped so_status
| DE_internal

datatype dockd_reply = DR_error dockd_error | DR_done json int | DR_replay "(json \<times> int) option"

text \<open>\<open>re.match\<close> of a pattern ending in \<open>$\<close> lets one trailing newline pass.\<close>

definition strip_newline :: "string \<Rightarrow> string" where
  "strip_newline s = (if s \<noteq> [] \<and> last s = char_of (10 :: nat) then butlast s else s)"

definition is_word_char :: "char \<Rightarrow> bool" where
  "is_word_char c \<longleftrightarrow> (let n = of_char c :: nat in
     65 \<le> n \<and> n \<le> 90 \<or> 97 \<le> n \<and> n \<le> 122 \<or> 48 \<le> n \<and> n \<le> 57 \<or> c = CHR ''_'' \<or> c = CHR ''-'')"

definition matches_class :: "char list \<Rightarrow> string \<Rightarrow> bool" where
  "matches_class extra s \<longleftrightarrow>
     strip_newline s \<noteq> [] \<and> list_all (\<lambda>c. is_word_char c \<or> c \<in> set extra) (strip_newline s)"

definition validate_so_number :: "string \<Rightarrow> bool" where
  "validate_so_number s \<longleftrightarrow> s \<noteq> [] \<and> length s \<le> 128 \<and> matches_class ''#.'' s"

definition validate_barcode :: "string \<Rightarrow> bool" where
  "validate_barcode s \<longleftrightarrow> s \<noteq> [] \<and> length s \<le> 128 \<and> matches_class ''./'' s"

section \<open>Reads\<close>

definition find_token_so :: "dockd_token \<Rightarrow> string \<Rightarrow> db \<Rightarrow> so_row option" where
  "find_token_so tok n d = List.find (\<lambda>x. so_number x = n \<and> so_wh x \<in> set (tk_whs tok)) (sales_orders d)"

text \<open>\<open>ORDER BY shipped_at DESC NULLS LAST\<close>; the column is always filled.\<close>

definition shipped_by :: "int \<Rightarrow> db \<Rightarrow> string option" where
  "shipped_by so d =
     (case sort_key (\<lambda>f. - ff_shipped_at f)
             (filter (\<lambda>f. ff_so f = so \<and> ff_state f = FULF_SHIPPED) (fulfillments d)) of
        [] \<Rightarrow> None | f # _ \<Rightarrow> Some (ff_by f))"

record dockd_view =
  dv_order :: so_row
  dv_items :: "(sol_row \<times> item_row) list"
  dv_shippable :: bool
  dv_from :: "so_status list"
  dv_shipped_by :: "string option"

definition dockd_order :: "dockd_token \<Rightarrow> string \<Rightarrow> db \<Rightarrow> dockd_error + dockd_view" where
  "dockd_order tok n d =
     (if \<not> validate_so_number n then Inl DE_invalid_so_number
      else if tk_whs tok = [] then Inl DE_not_found
      else
        case find_token_so tok n d of
          None \<Rightarrow> Inl DE_not_found
        | Some so \<Rightarrow>
            Inr \<lparr>dv_order = so, dv_items = join_items (sort_key sol_number (order_lines (so_id so) d)) d,
                 dv_shippable = (so_state so \<in> set (shippable_from d)), dv_from = shippable_from d,
                 dv_shipped_by = (if so_state so = SO_SHIPPED then shipped_by (so_id so) d else None)\<rparr>)"

definition dockd_item ::
    "dockd_token \<Rightarrow> string \<Rightarrow> db \<Rightarrow> dockd_error + (item_row \<times> (inv_row \<times> bin_row \<times> int) list)" where
  "dockd_item tok barcode d =
     (let c = strip barcode in
      if \<not> validate_barcode c then Inl DE_invalid_barcode
      else
        case List.find (\<lambda>i. item_upc i = Some c \<or> item_sku i = c
               \<or> (case item_aliases i of None \<Rightarrow> False | Some xs \<Rightarrow> c \<in> set xs)) (items d) of
          None \<Rightarrow> Inl DE_not_found
        | Some i \<Rightarrow>
            Inr (i, [(r, b, on_hand r - allocated r).
                       r \<leftarrow> inventory d, inv_item r = item_id i \<and> inv_wh r \<in> set (tk_whs tok),
                       b \<leftarrow> bins d, bin_id b = inv_bin r]))"

section \<open>Idempotent writes\<close>

definition find_idem :: "int \<Rightarrow> string \<Rightarrow> db \<Rightarrow> idem_row option" where
  "find_idem t k d = List.find (\<lambda>r. ik_token r = t \<and> ik_key r = k) (idempotency d)"

definition set_response :: "int \<Rightarrow> string \<Rightarrow> json \<times> int \<Rightarrow> db \<Rightarrow> db" where
  "set_response t k resp d =
     d\<lparr>idempotency := upd (\<lambda>r. ik_token r = t \<and> ik_key r = k) (\<lambda>r. r\<lparr>ik_response := Some resp\<rparr>) (idempotency d)\<rparr>"

text \<open>
  The protocol both write routes run around their transaction \<open>run\<close>: replay a stored
  answer, refuse a key used with another body or endpoint, resolve the operator, insert
  the sentinel row, run, store the answer. An error rolls everything back, the sentinel
  included. A sentinel without an answer belongs to a transaction that has not committed;
  the insert then finds the row and the route answers with what it holds.
\<close>

definition with_idempotency ::
    "string \<Rightarrow> dockd_token \<Rightarrow> string \<Rightarrow> string \<Rightarrow> string \<Rightarrow> string
      \<Rightarrow> (string \<Rightarrow> db \<Rightarrow> dockd_error + (json \<times> db)) \<Rightarrow> db \<Rightarrow> dockd_reply \<times> db" where
  "with_idempotency endpoint tok key so_no h user run d =
     (case find_idem (tk_id tok) key d of
        Some r \<Rightarrow>
          if ik_endpoint r \<noteq> endpoint \<or> ik_hash r \<noteq> h then (DR_error DE_key_reused, d)
          else
            (case ik_response r of
               Some resp \<Rightarrow> (DR_replay (Some resp), d)
             | None \<Rightarrow>
                 (case get_user_external_id user d of
                    None \<Rightarrow> (DR_error DE_unknown_operator, d)
                  | Some ext \<Rightarrow> (DR_replay None, d)))
      | None \<Rightarrow>
          (case get_user_external_id user d of
             None \<Rightarrow> (DR_error DE_unknown_operator, d)
           | Some ext \<Rightarrow>
               if tk_whs tok = [] then (DR_error DE_not_found, d)
               else
                 let d1 = d\<lparr>idempotency := idempotency d @
                       [\<lparr>ik_token = tk_id tok, ik_key = key, ik_endpoint = endpoint, ik_so = so_no,
                         ik_hash = h, ik_response = None, ik_created = now d\<rparr>]\<rparr>
                 in case run ext d1 of
                      Inl e \<Rightarrow> (DR_error e, d)
                    | Inr (resp, d2) \<Rightarrow> (DR_done resp 200, set_response (tk_id tok) key (resp, 200) d2)))"

text \<open>The checks made before any query: order number, body size, body.\<close>

definition checked_body ::
    "('b \<Rightarrow> bool) \<Rightarrow> string \<Rightarrow> 'b dockd_request \<Rightarrow> dockd_error + 'b" where
  "checked_body valid n rq =
     (if \<not> validate_so_number n then Inl DE_invalid_so_number
      else if (case rq_length rq of None \<Rightarrow> False | Some x \<Rightarrow> rq_cap_kb rq * 1024 < x) then Inl DE_body_too_large
      else case rq_body rq of
             None \<Rightarrow> Inl DE_invalid_body
           | Some b \<Rightarrow> if valid b then Inr b else Inl DE_invalid_body)"

section \<open>Ship\<close>

definition ship_extra :: "dockd_token \<Rightarrow> ship_body \<Rightarrow> (string \<times> json) list" where
  "ship_extra tok b =
     [(''station_label'', jopt JStr (tk_name tok)), (''manual_link'', JBool (sb_manual b)),
      (''idempotency_key'', JStr (sb_key b)), (''operator_username'', JStr (sb_user b))]
     @ (case sb_weight b of None \<Rightarrow> [] | Some w \<Rightarrow> [(''weight'', JNum w)])
     @ (case sb_dims b of None \<Rightarrow> [] | Some (l, w, h) \<Rightarrow>
          [(''dims'', JObj [(''l'', JNum l), (''w'', JNum w), (''h'', JNum h)])])"

definition ship_args_of :: "dockd_token \<Rightarrow> ship_body \<Rightarrow> so_row \<Rightarrow> ship_args" where
  "ship_args_of tok b so = \<lparr>sa_tracking = Some (sb_tracking b), sa_carrier = sb_carrier b,
     sa_method = sb_method b, sa_user = sb_user b, sa_txn = sb_key b, sa_pre = Some (so_state so),
     sa_cost = sb_cost b, sa_at = None, sa_extra = ship_extra tok b\<rparr>"

definition ship_run :: "dockd_token \<Rightarrow> ship_body \<Rightarrow> string \<Rightarrow> string \<Rightarrow> db \<Rightarrow> dockd_error + (json \<times> db)" where
  "ship_run tok b n ext d =
     (case find_token_so tok n d of
        None \<Rightarrow> Inl DE_not_found
      | Some so \<Rightarrow>
          if so_state so = SO_SHIPPED then
            Inl (DE_already_shipped (so_tracking so) (so_carrier so) (so_shipped_at so) (shipped_by (so_id so) d))
          else if so_state so \<notin> set (shippable_from d) then Inl (DE_not_shippable (so_state so))
          else
            case record_ship so (ship_args_of tok b so) d of
              Inl (SE_silently_short ls) \<Rightarrow> Inl (DE_under_picked ls)
            | Inl _ \<Rightarrow> Inl DE_internal
            | Inr (r, d1) \<Rightarrow>
                Inr (JObj [(''status'', JStr (status_text SO_SHIPPED)), (''tracking'', JStr (sb_tracking b)),
                           (''shipped_at'', JTime (sr_at r)), (''fulfillment_id'', JInt (sr_fulf r)),
                           (''audit_log_id'', JInt (sr_audit r))], d1))"

definition ship_order ::
    "(json \<Rightarrow> string) \<Rightarrow> dockd_token \<Rightarrow> string \<Rightarrow> ship_body dockd_request \<Rightarrow> db \<Rightarrow> dockd_reply \<times> db" where
  "ship_order sha tok n rq d =
     (case checked_body valid_ship_body n rq of
        Inl e \<Rightarrow> (DR_error e, d)
      | Inr b \<Rightarrow> with_idempotency ''ship'' tok (sb_key b) n (sha (ship_payload b)) (sb_user b) (ship_run tok b n) d)"

section \<open>Void\<close>

definition void_target :: "int \<Rightarrow> db \<Rightarrow> fulf_row option" where
  "void_target so d =
     (case sort_key (\<lambda>f. (- ff_shipped_at f, - ff_id f))
             (filter (\<lambda>f. ff_so f = so \<and> ff_state f = FULF_SHIPPED) (fulfillments d)) of
        [] \<Rightarrow> None | f # _ \<Rightarrow> Some f)"

definition void_run :: "dockd_token \<Rightarrow> void_body \<Rightarrow> string \<Rightarrow> string \<Rightarrow> db \<Rightarrow> dockd_error + (json \<times> db)" where
  "void_run tok b n ext d =
     (case find_token_so tok n d of
        None \<Rightarrow> Inl DE_not_found
      | Some so \<Rightarrow>
          if so_state so \<noteq> SO_SHIPPED then Inl (DE_not_shipped (so_state so))
          else
            case void_target (so_id so) d of
              None \<Rightarrow> Inl (DE_not_shipped (so_state so))
            | Some f \<Rightarrow>
                (case record_void_ship so (ff_id f) (ff_pre f) (vb_user b) ext (vb_reason b) (vb_key b)
                        [(''station_label'', jopt JStr (tk_name tok)), (''idempotency_key'', JStr (vb_key b)),
                         (''operator_username'', JStr (vb_user b))] d of
                   Inl _ \<Rightarrow> Inl DE_internal
                 | Inr ((tm, aid, p), d1) \<Rightarrow>
                     Inr (JObj [(''status'', JStr (status_text p)), (''voided_at'', JTime tm),
                                (''audit_log_id'', JInt aid)], d1)))"

definition void_ship ::
    "(json \<Rightarrow> string) \<Rightarrow> dockd_token \<Rightarrow> string \<Rightarrow> void_body dockd_request \<Rightarrow> db \<Rightarrow> dockd_reply \<times> db" where
  "void_ship sha tok n rq d =
     (case checked_body valid_void_body n rq of
        Inl e \<Rightarrow> (DR_error e, d)
      | Inr b \<Rightarrow> with_idempotency ''void-ship'' tok (vb_key b) n (sha (void_payload b)) (vb_user b) (void_run tok b n) d)"

text \<open>The daily job drops the keys older than its retention (\<^verbatim>\<open>jobs/cleanup_tasks.py\<close>).\<close>

definition DOCKD_IDEMPOTENCY_RETENTION :: int where
  "DOCKD_IDEMPOTENCY_RETENTION = 72 * 60 * 60 * 1000000"

definition cleanup_dockd_idempotency :: "db \<Rightarrow> db" where
  "cleanup_dockd_idempotency d =
     d\<lparr>idempotency := filter (\<lambda>r. \<not> ik_created r < now d - DOCKD_IDEMPOTENCY_RETENTION) (idempotency d)\<rparr>"

section \<open>The idempotency contract\<close>

lemma find_upd_other:
  "(\<And>x. Q x \<Longrightarrow> \<not> P x \<and> \<not> P (f x)) \<Longrightarrow> List.find P (upd Q f t) = List.find P t"
  by (induction t) auto

lemma find_upd_same:
  "(\<And>x. P (f x) = P x) \<Longrightarrow> List.find P (upd P f t) = map_option f (List.find P t)"
  by (induction t) auto

text \<open>What a write transaction owes the protocol around it: it leaves the idempotency
  table alone, so the sentinel it runs under survives it.\<close>

locale idempotent_write =
  fixes run :: "string \<Rightarrow> db \<Rightarrow> dockd_error + (json \<times> db)"
  assumes keeps: "run ext d = Inr (resp, d') \<Longrightarrow> idempotency d' = idempotency d"
    and keeps_now: "run ext d = Inr (resp, d') \<Longrightarrow> now d' = now d"
begin

lemma stored:
  assumes "with_idempotency ep tok key n h user run d = (DR_done resp st, d')"
  obtains r where "st = 200" "find_idem (tk_id tok) key d' = Some r" "ik_endpoint r = ep" "ik_hash r = h"
    "ik_response r = Some (resp, 200)" "ik_created r = now d"
proof -
  let ?d1 = "d\<lparr>idempotency := idempotency d @
      [\<lparr>ik_token = tk_id tok, ik_key = key, ik_endpoint = ep, ik_so = n, ik_hash = h, ik_response = None, ik_created = now d\<rparr>]\<rparr>"
  from assms obtain ext d2 where none: "find_idem (tk_id tok) key d = None"
    and run: "run ext ?d1 = Inr (resp, d2)" and st: "st = 200"
    and d': "d' = set_response (tk_id tok) key (resp, 200) d2"
    by (auto simp: with_idempotency_def Let_def split: option.splits if_splits sum.splits)
  have "idempotency d2 = idempotency ?d1" using keeps [OF run] .
  then have "find_idem (tk_id tok) key d' = Some \<lparr>ik_token = tk_id tok, ik_key = key, ik_endpoint = ep,
      ik_so = n, ik_hash = h, ik_response = Some (resp, 200), ik_created = now d\<rparr>"
    using none by (simp add: d' find_idem_def set_response_def find_upd_same find_append)
  with st that show ?thesis by simp
qed

lemma answer_kept:
  assumes "find_idem t k d = Some r"
  shows "find_idem t k (snd (with_idempotency ep tok key n h user run d)) = Some r"
proof -
  let ?d1 = "d\<lparr>idempotency := idempotency d @
      [\<lparr>ik_token = tk_id tok, ik_key = key, ik_endpoint = ep, ik_so = n, ik_hash = h, ik_response = None, ik_created = now d\<rparr>]\<rparr>"
  have "find_idem t k (set_response (tk_id tok) key (resp, 200) d2) = Some r"
    if "find_idem (tk_id tok) key d = None" "run ext ?d1 = Inr (resp, d2)" for ext resp d2
  proof -
    have "\<not> (t = tk_id tok \<and> k = key)" using assms that(1) by auto
    then have "find_idem t k (set_response (tk_id tok) key (resp, 200) d2)
        = List.find (\<lambda>r. ik_token r = t \<and> ik_key r = k) (idempotency d2)"
      unfolding find_idem_def set_response_def by (simp, intro find_upd_other) auto
    with assms keeps [OF that(2)] show ?thesis by (simp add: find_idem_def find_append)
  qed
  with assms show ?thesis
    by (auto simp: with_idempotency_def Let_def split: option.splits sum.splits)
qed

lemma clock_kept: "now (snd (with_idempotency ep tok key n h user run d)) = now d"
  using keeps_now by (auto simp: with_idempotency_def set_response_def Let_def split: option.splits sum.splits)

lemma outcome:
  assumes "with_idempotency ep tok key n h user run d = (rep, d')"
  obtains "d' = d"
  | ext resp d2 where "run ext (d\<lparr>idempotency := idempotency d @ [\<lparr>ik_token = tk_id tok, ik_key = key,
        ik_endpoint = ep, ik_so = n, ik_hash = h, ik_response = None, ik_created = now d\<rparr>]\<rparr>) = Inr (resp, d2)"
      "d' = set_response (tk_id tok) key (resp, 200) d2"
  using assms
  by (auto simp: with_idempotency_def Let_def split: option.splits if_splits sum.splits)

end

lemma replay_stored:
  assumes "find_idem (tk_id tok) key d = Some r" "ik_response r = Some resp"
  shows "with_idempotency ep tok key n h user run d
    = (if ik_endpoint r = ep \<and> ik_hash r = h then DR_replay (Some resp) else DR_error DE_key_reused, d)"
  using assms by (simp add: with_idempotency_def)

lemma ship_run_Inr:
  assumes "ship_run tok b n ext d = Inr (resp, d')"
  obtains so r where "find_token_so tok n d = Some so" "so_state so \<in> set (shippable_from d)"
    "record_ship so (ship_args_of tok b so) d = Inr (r, d')"
  using assms by (auto simp: ship_run_def split: option.splits if_splits sum.splits ship_error.splits)

lemma void_run_Inr:
  assumes "void_run tok b n ext d = Inr (resp, d')"
  obtains so f extra v where "find_token_so tok n d = Some so" "so_state so = SO_SHIPPED"
    "void_target (so_id so) d = Some f"
    "record_void_ship so (ff_id f) (ff_pre f) (vb_user b) ext (vb_reason b) (vb_key b) extra d = Inr (v, d')"
  using assms by (auto simp: void_run_def split: option.splits if_splits sum.splits)

interpretation ships: idempotent_write "ship_run tok b n" for tok b n
proof
  fix ext d resp d'
  assume "ship_run tok b n ext d = Inr (resp, d')"
  then obtain so r where "record_ship so (ship_args_of tok b so) d = Inr (r, d')" by (rule ship_run_Inr)
  from record_ship_Inr(2) [OF this] show "idempotency d' = idempotency d" "now d' = now d"
    by (simp_all add: ship_posts_def)
qed

interpretation voids: idempotent_write "void_run tok b n" for tok b n
proof
  fix ext d resp d'
  assume "void_run tok b n ext d = Inr (resp, d')"
  then obtain so f extra v where "find_token_so tok n d = Some so" "void_target (so_id so) d = Some f" and
    void: "record_void_ship so (ff_id f) (ff_pre f) (vb_user b) ext (vb_reason b) (vb_key b) extra d = Inr (v, d')"
    by (rule void_run_Inr)
  from record_void_ship_Inr [OF void] show "idempotency d' = idempotency d" "now d' = now d" by metis+
qed

section \<open>Any history of packing and shipping\<close>

text \<open>The requests that pack, ship and void, the clock, and the clean-up of the keys.\<close>

inductive ship_step :: "(json \<Rightarrow> string) \<Rightarrow> db \<Rightarrow> db \<Rightarrow> bool" for sha where
  step_tick: "now d \<le> t \<Longrightarrow> ship_step sha d (d\<lparr>now := t\<rparr>)"
| step_cleanup: "ship_step sha d (cleanup_dockd_idempotency d)"
| step_verify: "verify_item s so scanned q d = Inr (r, d') \<Longrightarrow> 0 < q \<Longrightarrow> ship_step sha d d'"
| step_pack: "complete_packing s so d = Inr (n, d') \<Longrightarrow> ship_step sha d d'"
| step_fulfill: "fulfill s so tracking carrier method d = Inr (x, d') \<Longrightarrow> ship_step sha d d'"
| step_admin: "record_admin_ship so user txn ack d = Inr (x, d') \<Longrightarrow> ship_step sha d d'"
| step_ship: "ship_order sha tok no rq d = (rep, d') \<Longrightarrow> ship_step sha d d'"
| step_void: "void_ship sha tok no rv d = (rep, d') \<Longrightarrow> ship_step sha d d'"

lemma ship_ok_frame:
  assumes "sales_orders d' = sales_orders d" "so_lines d' = so_lines d" "fulfillments d' = fulfillments d"
    "fulfillment_lines d' = fulfillment_lines d" "seqs d' Seq_fulfillment = seqs d Seq_fulfillment"
  shows "ship_ok d' = ship_ok d"
  unfolding ship_ok_def ship_keys_def one_live_def lines_booked_def assms shipped_out_cong [OF assms(3,4)] ..

lemma ship_ok_set_response [simp]: "ship_ok (set_response t k resp d) = ship_ok d"
  by (rule ship_ok_frame) (simp_all add: set_response_def)

lemma ship_ok_sentinel [simp]: "ship_ok (d\<lparr>idempotency := t\<rparr>) = ship_ok d"
  by (rule ship_ok_frame) simp_all

lemma find_token_Some:
  "find_token_so tok n d = Some so \<Longrightarrow> so \<in> set (sales_orders d) \<and> so_number so = n \<and> so_wh so \<in> set (tk_whs tok)"
  unfolding find_token_so_def by (drule find_Some_iff_first) simp

lemma shippable_not_shipped: "SO_SHIPPED \<notin> set (shippable_from d)"
  by (simp add: shippable_from_def)

lemma ship_run_ok:
  assumes "ship_ok d" "ship_run tok b n ext d = Inr (resp, d')"
  shows "ship_ok d'"
proof -
  obtain so r where "find_token_so tok n d = Some so" "so_state so \<in> set (shippable_from d)"
    and ship: "record_ship so (ship_args_of tok b so) d = Inr (r, d')"
    using ship_run_Inr [OF assms(2)] .
  with shippable_not_shipped find_token_Some show ?thesis
    by (intro record_ship_ok [OF assms(1) ship]) force+
qed

lemma void_target_Some:
  assumes "void_target so d = Some f"
  shows "f \<in> set (fulfillments d) \<and> ff_so f = so \<and> ff_state f = FULF_SHIPPED"
proof -
  let ?fs = "filter (\<lambda>f. ff_so f = so \<and> ff_state f = FULF_SHIPPED) (fulfillments d)"
  have "f \<in> set (sort_key (\<lambda>f. (- ff_shipped_at f, - ff_id f)) ?fs)"
    using assms unfolding void_target_def
    by (cases "sort_key (\<lambda>f. (- ff_shipped_at f, - ff_id f)) ?fs") simp_all
  then show ?thesis by simp
qed

lemma void_run_ok:
  assumes "ship_ok d" "void_run tok b n ext d = Inr (resp, d')"
  shows "ship_ok d'"
proof -
  obtain so f extra v where "void_target (so_id so) d = Some f" and
    void: "record_void_ship so (ff_id f) (ff_pre f) (vb_user b) ext (vb_reason b) (vb_key b) extra d = Inr (v, d')"
    using void_run_Inr [OF assms(2)] .
  with void_target_Some [of "so_id so" d f] show ?thesis
    by (intro record_void_ok [OF assms(1) void]) auto
qed

lemma ship_order_cases:
  assumes "ship_order sha tok n rq d = (rep, d')"
  obtains "d' = d"
  | b where "with_idempotency ''ship'' tok (sb_key b) n (sha (ship_payload b)) (sb_user b) (ship_run tok b n) d = (rep, d')"
  using assms by (auto simp: ship_order_def split: sum.splits)

lemma void_ship_cases:
  assumes "void_ship sha tok n rq d = (rep, d')"
  obtains "d' = d"
  | b where "with_idempotency ''void-ship'' tok (vb_key b) n (sha (void_payload b)) (vb_user b) (void_run tok b n) d = (rep, d')"
  using assms by (auto simp: void_ship_def split: sum.splits)

lemma ship_order_ok:
  assumes "ship_ok d" "ship_order sha tok n rq d = (rep, d')"
  shows "ship_ok d'"
  using assms(2)
proof (cases rule: ship_order_cases)
  case 1
  with assms(1) show ?thesis by simp
next
  case (2 b)
  then show ?thesis
  proof (cases rule: ships.outcome)
    case 1
    with assms(1) show ?thesis by simp
  next
    case (2 ext resp d2)
    have "ship_ok d2" by (rule ship_run_ok [OF _ 2(1)]) (simp add: assms(1))
    then show ?thesis by (simp add: 2(2))
  qed
qed

lemma void_ship_ok:
  assumes "ship_ok d" "void_ship sha tok n rq d = (rep, d')"
  shows "ship_ok d'"
  using assms(2)
proof (cases rule: void_ship_cases)
  case 1
  with assms(1) show ?thesis by simp
next
  case (2 b)
  then show ?thesis
  proof (cases rule: voids.outcome)
    case 1
    with assms(1) show ?thesis by simp
  next
    case (2 ext resp d2)
    have "ship_ok d2" by (rule void_run_ok [OF _ 2(1)]) (simp add: assms(1))
    then show ?thesis by (simp add: 2(2))
  qed
qed

lemma fulfill_ok:
  assumes "ship_ok d" "fulfill s so tracking carrier method d = Inr (r, d')"
  shows "ship_ok d'"
proof -
  obtain x a where "find_scoped_so s so d = Some x" "so_state x \<in> set (shippable_from d)"
    and ship: "record_ship x a d = Inr (r, d')"
    using fulfill_Inr [OF assms(2)] by metis
  with shippable_not_shipped find_scoped_Some show ?thesis
    by (intro record_ship_ok [OF assms(1) ship]) force+
qed

lemma ship_step_ok:
  assumes "ship_ok d" "ship_step sha d d'"
  shows "ship_ok d'"
  using assms(2,1)
proof (cases rule: ship_step.cases)
  case (step_tick t)
  then have "ship_ok d' = ship_ok d" by (intro ship_ok_frame) simp_all
  with assms(1) show ?thesis by simp
next
  case step_cleanup
  with assms(1) show ?thesis by (simp add: cleanup_dockd_idempotency_def)
qed (auto intro: verify_item_ship_ok complete_packing_ship_ok fulfill_ok record_admin_ship_ok
      ship_order_ok void_ship_ok)

interpretation shipping_books: step_invariant "ship_step sha" ship_ok for sha
  by unfold_locales (rule ship_step_ok)

lemma books_of_ship_ok:
  assumes "ship_ok d"
  shows "\<forall>l \<in> set (so_lines d). sol_shipped l = shipped_out (sol_id l) d
      \<and> (sol_shipped l = 0 \<or> sol_shipped l = sol_picked l) \<and> 0 \<le> sol_packed l \<and> sol_packed l \<le> sol_picked l"
    and "distinct (map ff_so (filter (\<lambda>f. ff_state f = FULF_SHIPPED) (fulfillments d)))"
    and "header_shipped (sales_orders d) (fulfillments d)"
  using assms by (auto simp: ship_ok_def lines_booked_def one_live_def)

text \<open>
  Claim C3. The shipping books balance through every history of verifying, packing, shipping by the
  shipping screen, the admin ship route or the dockd integration, voiding, retrying and refused requests
  (the order editor's own call of \<^verbatim>\<open>record_ship\<close> is not a step): each order
  line's shipped quantity is the sum of its fulfillment lines that are not voided, it is
  nothing or all that was picked, no more is ever packed than picked, an order has at most
  one live fulfillment, and a live fulfillment means the order is SHIPPED.
\<close>

theorem shipping_books_balance:
  assumes "ship_ok d" "(ship_step sha)\<^sup>*\<^sup>* d d'"
  shows "(\<forall>l \<in> set (so_lines d'). sol_shipped l = shipped_out (sol_id l) d'
      \<and> (sol_shipped l = 0 \<or> sol_shipped l = sol_picked l) \<and> 0 \<le> sol_packed l \<and> sol_packed l \<le> sol_picked l)
    \<and> distinct (map ff_so (filter (\<lambda>f. ff_state f = FULF_SHIPPED) (fulfillments d')))
    \<and> header_shipped (sales_orders d') (fulfillments d')"
  using books_of_ship_ok [OF shipping_books.reachable [OF assms(2,1)]] by blast

section \<open>Exactly once\<close>

text \<open>No request turns the clock back.\<close>

lemma ship_step_clock:
  assumes "ship_step sha d d'"
  shows "now d \<le> now d'"
  using assms
proof cases
  case (step_verify s so scanned q x)
  from verify_item_Inr [OF step_verify(1)] obtain i p where "d' = pack_line i p d" by metis
  then show ?thesis by (simp add: pack_line_def set_sol_def)
next
  case (step_pack s so n)
  then show ?thesis by (auto simp: complete_packing_def Let_def pack_event_def split: option.splits if_splits)
next
  case (step_fulfill s so tracking carrier m x)
  then obtain y a where "record_ship y a d = Inr (x, d')" by (metis fulfill_Inr)
  from record_ship_Inr(2) [OF this] show ?thesis by (simp add: ship_posts_def)
next
  case (step_admin so user txn ack x)
  from record_admin_ship_Inr [OF step_admin] have "now d' = now d" unfolding ship_posts_def by metis
  then show ?thesis by simp
next
  case (step_ship tok n rq rep)
  from step_ship show ?thesis
  proof (cases rule: ship_order_cases)
    case (2 b)
    with ships.clock_kept show ?thesis by (metis order_refl snd_conv)
  qed simp
next
  case (step_void tok n rq rep)
  from step_void show ?thesis
  proof (cases rule: void_ship_cases)
    case (2 b)
    with voids.clock_kept show ?thesis by (metis order_refl snd_conv)
  qed simp
qed (simp_all add: cleanup_dockd_idempotency_def)

text \<open>An answer stays until its retention is over.\<close>

definition answer_held :: "int \<Rightarrow> string \<Rightarrow> idem_row \<Rightarrow> db \<Rightarrow> bool" where
  "answer_held t k r d \<longleftrightarrow> (now d \<le> ik_created r + DOCKD_IDEMPOTENCY_RETENTION \<longrightarrow> find_idem t k d = Some r)"

lemma ship_posts_idem: "ship_posts f q ls h d d' \<Longrightarrow> find_idem t k d' = find_idem t k d"
  by (simp add: ship_posts_def find_idem_def)

lemma find_filter_kept:
  "List.find P xs = Some x \<Longrightarrow> Q x \<Longrightarrow> List.find P (filter Q xs) = Some x"
  by (induction xs) (auto split: if_splits)

lemma answer_kept_step:
  assumes "find_idem t k d = Some r" "ship_step sha d d'" "now d \<le> ik_created r + DOCKD_IDEMPOTENCY_RETENTION"
  shows "find_idem t k d' = Some r"
  using assms(2)
proof (cases rule: ship_step.cases)
  case (step_tick x)
  with assms(1) show ?thesis by (simp add: find_idem_def)
next
  case step_cleanup
  with assms(1,3) show ?thesis
    by (simp add: find_idem_def cleanup_dockd_idempotency_def find_filter_kept)
next
  case (step_verify s so scanned q x)
  from verify_item_Inr [OF step_verify(1)] obtain i p where "d' = pack_line i p d" by metis
  with assms(1) show ?thesis by (simp add: find_idem_def)
next
  case (step_pack s so n)
  then have "idempotency d' = idempotency d"
    by (auto simp: complete_packing_def Let_def pack_event_def split: option.splits if_splits)
  with assms(1) show ?thesis by (simp add: find_idem_def)
next
  case (step_fulfill s so tracking carrier m x)
  then obtain y a where "record_ship y a d = Inr (x, d')" by (metis fulfill_Inr)
  from ship_posts_idem [OF record_ship_Inr(2) [OF this]] assms(1) show ?thesis by simp
next
  case (step_admin so user txn ack x)
  from record_admin_ship_Inr [OF step_admin] ship_posts_idem assms(1) show ?thesis by metis
next
  case (step_ship tok n rq rep)
  from step_ship show ?thesis
  proof (cases rule: ship_order_cases)
    case (2 b)
    with ships.answer_kept [OF assms(1)] show ?thesis by (metis snd_conv)
  qed (use assms(1) in simp)
next
  case (step_void tok n rq rep)
  from step_void show ?thesis
  proof (cases rule: void_ship_cases)
    case (2 b)
    with voids.answer_kept [OF assms(1)] show ?thesis by (metis snd_conv)
  qed (use assms(1) in simp)
qed

interpretation answers: step_invariant "ship_step sha" "answer_held t k r" for sha t k r
proof
  fix d d' assume held: "answer_held t k r d" and step: "ship_step sha d d'"
  show "answer_held t k r d'"
    unfolding answer_held_def
  proof
    assume "now d' \<le> ik_created r + DOCKD_IDEMPOTENCY_RETENTION"
    with ship_step_clock [OF step] have "now d \<le> ik_created r + DOCKD_IDEMPOTENCY_RETENTION" by simp
    with held answer_kept_step [OF _ step] show "find_idem t k d' = Some r" by (simp add: answer_held_def)
  qed
qed

text \<open>
  Claim C4. For the 72 hours its key is kept, a ship is recorded exactly once per key. After a ship has been
  answered, and whatever packing and shipping requests and clean-up jobs run in between, a retry with the same
  token and key within 72 hours changes nothing: it returns the stored answer when the body hashes the same,
  whichever order its path names, and is refused when it does not; the same key on
  the void route is refused too.
\<close>

theorem dockd_ship_exactly_once:
  assumes "ship_order sha tok n rq d = (DR_done resp st, d1)" "(ship_step sha)\<^sup>*\<^sup>* d1 d2"
    and "now d2 \<le> now d + DOCKD_IDEMPOTENCY_RETENTION"
    and "checked_body valid_ship_body n rq = Inr b"
    and "checked_body valid_ship_body n' rq' = Inr b'" "sb_key b' = sb_key b"
    and "checked_body valid_void_body n'' rv = Inr v" "vb_key v = sb_key b"
  shows "ship_order sha tok n' rq' d2
      = (if sha (ship_payload b') = sha (ship_payload b) then DR_replay (Some (resp, 200))
         else DR_error DE_key_reused, d2)
    \<and> void_ship sha tok n'' rv d2 = (DR_error DE_key_reused, d2)"
proof -
  have "with_idempotency ''ship'' tok (sb_key b) n (sha (ship_payload b)) (sb_user b) (ship_run tok b n) d
      = (DR_done resp st, d1)"
    using assms(1,4) by (simp add: ship_order_def)
  then obtain r where r: "find_idem (tk_id tok) (sb_key b) d1 = Some r"
    and row: "ik_endpoint r = ''ship''" "ik_hash r = sha (ship_payload b)" "ik_response r = Some (resp, 200)" "ik_created r = now d"
    by (rule ships.stored)
  have "answer_held (tk_id tok) (sb_key b) r d2"
    by (rule answers.reachable [OF assms(2)]) (simp add: answer_held_def r)
  then have "find_idem (tk_id tok) (sb_key b) d2 = Some r" using assms(3) row(4) by (simp add: answer_held_def)
  from replay_stored [OF this row(3)] row assms(5-8) show ?thesis
    by (simp add: ship_order_def void_ship_def)
qed

section \<open>Orders shipped through the cookie route\<close>

lemma sort_key_single [simp]: "sort_key k [x] = [x]"
  by simp

text \<open>
  An order shipped through the cookie route cannot be voided at the station:
  that route stores no pre-ship status, so the void fails inside the transaction and
  changes nothing.
\<close>

theorem cookie_ship_cannot_be_voided:
  assumes "ship_ok d" "fulfill s so tracking carrier method d = Inr (r, d1)"
    and "find_token_so tok n d1 = Some x" "so_id x = so"
  shows "void_run tok b n ext d1 = Inl DE_internal"
proof -
  obtain y a where y: "find_scoped_so s so d = Some y" "so_state y \<in> set (shippable_from d)"
    and ship: "record_ship y a d = Inr (r, d1)" and pre: "sa_pre a = None" and id: "so_id y = so"
    using fulfill_Inr [OF assms(2)] by metis
  define tm where "tm = (case sa_at a of None \<Rightarrow> now d | Some t \<Rightarrow> t)"
  note posts = record_ship_Inr(2) [OF ship, folded tm_def]
  then obtain u where fs: "fulfillments d1 = fulfillments d @
      [(new_fulfillment y a tm)\<lparr>ff_id := seqs d Seq_fulfillment, ff_ext := u\<rparr>]"
    by (auto simp: ship_posts_def)
  have "so_state y \<noteq> SO_SHIPPED" using y(2) shippable_not_shipped by metis
  moreover have "y \<in> set (sales_orders d)" using find_scoped_Some [OF y(1)] by simp
  ultimately have "\<forall>f \<in> set (fulfillments d). ff_state f = FULF_SHIPPED \<longrightarrow> ff_so f \<noteq> so"
    using not_shipped_none_live [of d y] assms(1) id by (auto simp: ship_ok_def)
  then have "filter (\<lambda>f. ff_so f = so \<and> ff_state f = FULF_SHIPPED) (fulfillments d) = []"
    by (auto simp: filter_empty_conv)
  then have target: "void_target so d1 = Some ((new_fulfillment y a tm)\<lparr>ff_id := seqs d Seq_fulfillment, ff_ext := u\<rparr>)"
    by (simp add: void_target_def fs new_fulfillment_def id)
  have "x \<in> set (upd (\<lambda>y. so_id y = so) (ship_stamp a tm) (sales_orders d))"
    using find_token_Some [OF assms(3)] posts by (simp add: ship_posts_def new_fulfillment_def id)
  then obtain z where "x = (if so_id z = so then ship_stamp a tm z else z)"
    unfolding set_upd by blast
  with assms(4) have "so_state x = SO_SHIPPED"
    by (cases "so_id z = so") (simp_all add: ship_stamp_def)
  with assms(3,4) target pre show ?thesis
    by (simp add: void_run_def record_void_ship_def new_fulfillment_def)
qed

section \<open>Examples\<close>

definition demo_token :: dockd_token where
  "demo_token = \<lparr>tk_id = 5, tk_name = Some ''Pack 1'', tk_whs = [1]\<rparr>"

definition demo_body :: "string \<Rightarrow> ship_body" where
  "demo_body k = \<lparr>sb_tracking = ''1Z'', sb_carrier = ''UPS'', sb_method = None, sb_user = ''packer'',
     sb_cost = None, sb_weight = None, sb_dims = None, sb_manual = False, sb_key = k\<rparr>"

definition demo_void_body :: "string \<Rightarrow> void_body" where
  "demo_void_body k = \<lparr>vb_reason = ''wrong box'', vb_user = ''packer'', vb_key = k\<rparr>"

definition demo_dockd_request :: "'b \<Rightarrow> 'b dockd_request" where
  "demo_dockd_request b = \<lparr>rq_length = None, rq_cap_kb = 16, rq_body = Some b\<rparr>"

text \<open>A stand-in for the hash: the carrier's text.\<close>

definition demo_sha :: "json \<Rightarrow> string" where
  "demo_sha j = (case j of JObj ((k, JStr c) # _) \<Rightarrow> c | _ \<Rightarrow> [])"

lemma demo_shipping_ok: "ship_ok demo_shipping"
  by (simp add: ship_ok_def ship_keys_def one_live_def header_shipped_def lines_booked_def shipped_out_def
      demo_shipping_defs)

lemma demo_checked:
  "checked_body valid_ship_body ''SO-1'' (demo_dockd_request (demo_body k)) = Inr (demo_body k)"
  "checked_body valid_void_body ''SO-1'' (demo_dockd_request (demo_void_body k)) = Inr (demo_void_body k)"
  by (simp_all add: checked_body_def demo_dockd_request_def demo_body_def demo_void_body_def valid_ship_body_def
      valid_void_body_def text_within_def validate_so_number_def matches_class_def strip_newline_def
      is_word_char_def)

lemma demo_projections:
  "tk_id demo_token = 5" "tk_whs demo_token = [1]" "sb_key (demo_body k) = k" "sb_user (demo_body k) = ''packer''"
  "demo_sha (ship_payload (demo_body k)) = ''UPS''"
  by (simp_all add: demo_token_def demo_body_def demo_sha_def ship_payload_def)

lemma demo_dockd_ship:
  "\<exists>resp d1. ship_order demo_sha demo_token ''SO-1'' (demo_dockd_request (demo_body ''k-1'')) demo_shipping
     = (DR_done resp 200, d1)"
proof -
  let ?so = "(demo_so 11 ''SO-1'')\<lparr>so_state := SO_PACKED\<rparr>"
  let ?d = "demo_shipping\<lparr>idempotency := [\<lparr>ik_token = 5, ik_key = ''k-1'', ik_endpoint = ''ship'',
      ik_so = ''SO-1'', ik_hash = ''UPS'', ik_response = None, ik_created = now demo_shipping\<rparr>]\<rparr>"
  have "\<exists>x. record_ship ?so (ship_args_of demo_token (demo_body ''k-1'') ?so) ?d = Inr x"
    unfolding record_ship_accepts
    by (simp add: demo_shipping_defs shipped_lines_def order_lines_def ship_bin_def pick_bin_def find_bin_def
        order_shortfall_def order_items_def join_items_def)
  then obtain r d1 where ship: "record_ship ?so (ship_args_of demo_token (demo_body ''k-1'') ?so) ?d = Inr (r, d1)"
    by auto
  have so: "find_token_so demo_token ''SO-1'' ?d = Some ?so" "SO_PACKED \<in> set (shippable_from ?d)"
    by (simp_all add: find_token_so_def demo_token_def demo_shipping_defs shippable_from_def)
  have "\<exists>resp. ship_run demo_token (demo_body ''k-1'') ''SO-1'' ''u-1'' ?d = Inr (resp, d1)"
    using ship so(2) by (simp add: ship_run_def so(1) del: shippable_from_def)
  moreover have "find_idem 5 ''k-1'' demo_shipping = None" "idempotency demo_shipping = []"
    "get_user_external_id ''packer'' demo_shipping = Some ''u-1''"
    by (simp_all add: find_idem_def demo_shipping_defs get_user_external_id_def)
  ultimately show ?thesis
    unfolding ship_order_def demo_checked sum.case with_idempotency_def demo_projections
    by (auto simp: Let_def)
qed

lemma shipping_books_balance_witness:
  "\<exists>d'. ship_step demo_sha demo_shipping d' \<and> map sol_shipped (so_lines d') = [2, 1]
     \<and> header_shipped (sales_orders d') (fulfillments d')"
proof -
  obtain r d' where f: "fulfill demo_packer 11 ''1Z'' ''UPS'' None demo_shipping = Inr (r, d')"
    using demo_fulfill by blast
  then have step: "ship_step demo_sha demo_shipping d'" by (rule step_fulfill)
  then have "(ship_step demo_sha)\<^sup>*\<^sup>* demo_shipping d'" by blast
  from shipping_books_balance [OF demo_shipping_ok this]
  have "header_shipped (sales_orders d') (fulfillments d')" by blast
  moreover have "map sol_shipped (so_lines d') = [2, 1]"
  proof -
    obtain x a where ship: "record_ship x a demo_shipping = Inr (r, d')" and id: "so_id x = 11"
      using fulfill_Inr [OF f] by metis
    from record_ship_Inr(2) [OF ship, unfolded id]
    have "so_lines d' = upd (\<lambda>x. sol_id x \<in> sol_id ` set (shipped_lines 11 demo_shipping)) stamp
        (so_lines demo_shipping)"
      unfolding ship_posts_def by (elim conjE)
    then have "so_lines d' = upd (\<lambda>l. sol_so l = 11 \<and> 0 < sol_picked l) stamp (so_lines demo_shipping)"
      by (simp only: stamp_shipped_lines [OF demo_shipping_ready(3)])
    then show ?thesis by (simp add: demo_shipping_defs stamp_def)
  qed
  ultimately show ?thesis using step by (intro exI [of _ d'] conjI)
qed

lemma dockd_ship_exactly_once_witness:
  "\<exists>resp d1. ship_order demo_sha demo_token ''SO-1'' (demo_dockd_request (demo_body ''k-1'')) demo_shipping
       = (DR_done resp 200, d1)
     \<and> ship_order demo_sha demo_token ''SO-1'' (demo_dockd_request (demo_body ''k-1'')) d1
       = (DR_replay (Some (resp, 200)), d1)
     \<and> void_ship demo_sha demo_token ''SO-1'' (demo_dockd_request (demo_void_body ''k-1'')) d1
       = (DR_error DE_key_reused, d1)"
proof -
  obtain resp d1 where s: "ship_order demo_sha demo_token ''SO-1'' (demo_dockd_request (demo_body ''k-1'')) demo_shipping
      = (DR_done resp 200, d1)"
    using demo_dockd_ship by blast
  have key: "vb_key (demo_void_body ''k-1'') = sb_key (demo_body ''k-1'')"
    by (simp add: demo_void_body_def demo_body_def)
  have "now d1 = now demo_shipping"
    using s demo_checked(1) ships.clock_kept by (metis (no_types, lifting) ship_order_cases snd_conv)
  then have "now d1 \<le> now demo_shipping + DOCKD_IDEMPOTENCY_RETENTION" by (simp add: DOCKD_IDEMPOTENCY_RETENTION_def)
  from dockd_ship_exactly_once [OF s rtranclp.rtrancl_refl this demo_checked(1) demo_checked(1) refl demo_checked(2) key] s
  show ?thesis by (intro exI [of _ resp] exI [of _ d1]) simp
qed

lemma cookie_ship_cannot_be_voided_witness:
  "\<exists>r d1. fulfill demo_packer 11 ''1Z'' ''UPS'' None demo_shipping = Inr (r, d1)
     \<and> void_run demo_token (demo_void_body ''k-2'') ''SO-1'' ''u-1'' d1 = Inl DE_internal"
proof -
  obtain r d1 where f: "fulfill demo_packer 11 ''1Z'' ''UPS'' None demo_shipping = Inr (r, d1)"
    using demo_fulfill by blast
  obtain x a where "record_ship x a demo_shipping = Inr (r, d1)" "so_id x = 11"
    using fulfill_Inr [OF f] by metis
  from record_ship_Inr(2) [OF this(1)] this(2)
  have "\<exists>y. find_token_so demo_token ''SO-1'' d1 = Some y \<and> so_id y = 11"
    by (auto simp: ship_posts_def find_token_so_def demo_shipping_defs demo_token_def new_fulfillment_def
        ship_stamp_def)
  then obtain y where "find_token_so demo_token ''SO-1'' d1 = Some y" "so_id y = 11" by blast
  from cookie_ship_cannot_be_voided [OF demo_shipping_ok f this] f show ?thesis by blast
qed

text \<open>A key reused with the same body for another order answers for the first order.\<close>

lemma replay_for_another_order:
  assumes "ship_order sha tok n rq d = (DR_done resp st, d1)" "checked_body valid_ship_body n rq = Inr b"
    and "checked_body valid_ship_body n' rq = Inr b"
  shows "ship_order sha tok n' rq d1 = (DR_replay (Some (resp, 200)), d1)"
proof -
  have "with_idempotency ''ship'' tok (sb_key b) n (sha (ship_payload b)) (sb_user b) (ship_run tok b n) d
      = (DR_done resp st, d1)"
    using assms(1,2) by (simp add: ship_order_def)
  then obtain r where r: "find_idem (tk_id tok) (sb_key b) d1 = Some r"
    and row: "ik_endpoint r = ''ship''" "ik_hash r = sha (ship_payload b)" "ik_response r = Some (resp, 200)"
    by (rule ships.stored)
  from replay_stored [OF r row(3)] row assms(3) show ?thesis by (simp add: ship_order_def)
qed

end
