(* ===== verification/Returns.thy ===== *)
theory Returns
  imports Shipping
begin

text \<open>
  Return orders (RMAs) of \<^verbatim>\<open>api/services/sales_order_service.py\<close>: numbering a child
  order, creating the goods-in order, receiving goods back against it and voiding
  one created by mistake, with their routes in \<^verbatim>\<open>admin_orders.py\<close>. The routes add
  only the permission check, the mapping of errors to status codes and the commit.
\<close>

section \<open>Inserting orders and lines\<close>

text \<open>The column defaults of \<open>INSERT INTO sales_orders\<close> and \<open>sales_order_lines\<close>.\<close>

definition new_so :: so_row where
  "new_so = \<lparr>so_id = 0, so_number = '''', so_barcode = None, so_state = SO_OPEN, so_wh = 0,
     so_ext = '''', so_type = OT_sale, so_parent = None, so_customer = None, so_opened = None,
     so_fulfillable = None, so_picked_at = None, so_packed_at = None, so_shipped_at = None,
     so_carrier = None, so_tracking = None, so_method = None, so_memo = None, so_source = ''web'',
     so_created_by = None, so_columns = Map.empty, so_cancel_reason = None, so_refund = None,
     so_voided = None, so_printed = None\<rparr>"

definition new_sol :: sol_row where
  "new_sol = \<lparr>sol_id = 0, sol_so = 0, sol_item = 0, sol_ordered = 0, sol_alloc = 0, sol_picked = 0,
     sol_packed = 0, sol_shipped = 0, sol_number = 0, sol_state = SOL_PENDING, sol_received = 0,
     sol_original = None\<rparr>"

text \<open>\<open>sales_orders.so_number\<close> is UNIQUE and the warehouse a foreign key: a violation
  raises. UUIDs are taken to be fresh.\<close>

definition insert_so :: "so_row \<Rightarrow> db \<Rightarrow> (int \<times> db) option" where
  "insert_so r d =
     (if (\<exists>x \<in> set (sales_orders d). so_number x = so_number r)
        \<or> \<not> (\<exists>w \<in> set (warehouses d). wh_id w = so_wh r) then None
      else let (i, d1) = nextval Seq_so d in
        Some (i, d1\<lparr>sales_orders := sales_orders d1 @ [r\<lparr>so_id := i\<rparr>]\<rparr>))"

text \<open>A line's item and original line are foreign keys.\<close>

definition insert_sol :: "sol_row \<Rightarrow> db \<Rightarrow> (int \<times> db) option" where
  "insert_sol r d =
     (if find_item (sol_item r) d = None
        \<or> (case sol_original r of None \<Rightarrow> False | Some l \<Rightarrow> l \<notin> sol_id ` set (so_lines d)) then None
      else let (i, d1) = nextval Seq_so_line d in
        Some (i, d1\<lparr>so_lines := so_lines d1 @ [r\<lparr>sol_id := i\<rparr>]\<rparr>))"

section \<open>Child order numbers\<close>

definition order_type_so_suffix :: "order_type \<Rightarrow> string option" where
  "order_type_so_suffix t = (case t of
     OT_replacement \<Rightarrow> Some ''REPLACEMENT'' | OT_exchange \<Rightarrow> Some ''EXCHANGE''
   | OT_return \<Rightarrow> Some ''RMA'' | OT_refund \<Rightarrow> Some ''REFUND'' | _ \<Rightarrow> None)"

definition children :: "int \<Rightarrow> order_type \<Rightarrow> db \<Rightarrow> so_row list" where
  "children p t d = filter (\<lambda>x. so_parent x = Some p \<and> so_type x = t) (sales_orders d)"

definition mint_child_so_number :: "int \<Rightarrow> string \<Rightarrow> order_type \<Rightarrow> db \<Rightarrow> string option" where
  "mint_child_so_number parent number t d =
     (case order_type_so_suffix t of
        None \<Rightarrow> None
      | Some sfx \<Rightarrow>
          let existing = length (children parent t d) in
          Some (if existing = 0 then number @ ''-'' @ sfx
                else number @ ''-'' @ sfx @ ''-'' @ decimal (existing + 1)))"

section \<open>Creating an RMA\<close>

datatype return_error =
  RT_not_found
| RT_item_not_on
| RT_over_receipt int int
| RT_bin_not_found
| RT_bin_elsewhere int
| RT_not_a_return so_status
| RT_not_open so_status
| RT_has_receipts
| RT_has_refund
| RT_internal

record rma_line =
  rl_item :: int
  rl_qty :: int
  rl_original :: "int option"

definition clean_memo :: "string option \<Rightarrow> string option" where
  "clean_memo m = (case m of None \<Rightarrow> None | Some s \<Rightarrow> if strip s = [] then None else Some (strip s))"

text \<open>Lines are numbered from \<open>n\<close>.\<close>

fun rma_lines :: "int \<Rightarrow> int \<Rightarrow> rma_line list \<Rightarrow> db \<Rightarrow> db option" where
  "rma_lines so n [] d = Some d"
| "rma_lines so n (l # ls) d =
     (case insert_sol (new_sol\<lparr>sol_so := so, sol_item := rl_item l, sol_ordered := rl_qty l,
             sol_number := n, sol_state := SOL_AS SO_OPEN, sol_original := rl_original l\<rparr>) d of
        None \<Rightarrow> None | Some (_, d1) \<Rightarrow> rma_lines so (n + 1) ls d1)"

definition create_rma ::
    "int \<Rightarrow> rma_line list \<Rightarrow> string \<Rightarrow> string option \<Rightarrow> db \<Rightarrow> return_error + ((int \<times> string) \<times> db)" where
  "create_rma original lines user memo d =
     (case find_so original d of
        None \<Rightarrow> Inl RT_not_found
      | Some x \<Rightarrow>
          (case mint_child_so_number original (so_number x) OT_return d of
             None \<Rightarrow> Inl RT_internal
           | Some number \<Rightarrow>
               let (u, d1) = uuid4 d in
               (case insert_so (new_so\<lparr>so_number := number, so_barcode := Some number, so_wh := so_wh x,
                       so_source := so_source x, so_type := OT_return, so_parent := Some original,
                       so_created_by := Some user, so_ext := u, so_memo := clean_memo memo\<rparr>) d1 of
                  None \<Rightarrow> Inl RT_internal
                | Some (i, d2) \<Rightarrow>
                    (case rma_lines i 1 lines d2 of
                       None \<Rightarrow> Inl RT_internal | Some d3 \<Rightarrow> Inr ((i, number), d3)))))"

section \<open>Receiving goods back\<close>

record rma_receive =
  rr_item :: int
  rr_qty :: int
  rr_wh :: int
  rr_bin :: int
  rr_notes :: "string option"
  rr_key :: "string option"

definition find_return :: "int \<Rightarrow> db \<Rightarrow> so_row option" where
  "find_return i d = List.find (\<lambda>x. so_id x = i \<and> so_type x = OT_return) (sales_orders d)"

definition return_line :: "int \<Rightarrow> int \<Rightarrow> db \<Rightarrow> sol_row option" where
  "return_line so item d = List.find (\<lambda>l. sol_so l = so \<and> sol_item l = item) (so_lines d)"

text \<open>An empty key is no key.\<close>

definition prior_receipt :: "rma_receive \<Rightarrow> db \<Rightarrow> receipt_row option" where
  "prior_receipt e d =
     (case rr_key e of
        None \<Rightarrow> None
      | Some k \<Rightarrow> if k = [] then None else List.find (\<lambda>r. rc_ext r = k) (receipts d))"

definition receipt_ext :: "rma_receive \<Rightarrow> db \<Rightarrow> string \<times> db" where
  "receipt_ext e d = (case rr_key e of Some k \<Rightarrow> if k = [] then uuid4 d else (k, d) | None \<Rightarrow> uuid4 d)"

definition insert_return_receipt ::
    "int \<Rightarrow> int \<Rightarrow> rma_receive \<Rightarrow> string \<Rightarrow> db \<Rightarrow> receipt_row \<times> db" where
  "insert_return_receipt so line e user d =
     (let (u, d1) = receipt_ext e d;
          (i, d2) = nextval Seq_receipt d1;
          r = \<lparr>rc_id = i, rc_po = None, rc_pol = None, rc_so = Some so, rc_sol = Some line,
               rc_item = rr_item e, rc_qty = rr_qty e, rc_bin = rr_bin e, rc_wh = rr_wh e,
               rc_lot = None, rc_serial = None, rc_by = user, rc_notes = rr_notes e, rc_ext = u,
               rc_at = now d\<rparr>
      in (r, d2\<lparr>receipts := receipts d2 @ [r]\<rparr>))"

definition receive_line :: "int \<Rightarrow> int \<Rightarrow> db \<Rightarrow> db" where
  "receive_line l q d = set_sol (Some l) (\<lambda>x. x\<lparr>sol_received := sol_received x + q\<rparr>) d"

definition open_return_lines :: "int \<Rightarrow> db \<Rightarrow> sol_row list" where
  "open_return_lines so d = filter (\<lambda>l. sol_so l = so \<and> sol_received l < sol_ordered l) (so_lines d)"

definition set_so_state :: "int \<Rightarrow> so_status \<Rightarrow> db \<Rightarrow> db" where
  "set_so_state so st d =
     d\<lparr>sales_orders := upd (\<lambda>x. so_id x = so) (\<lambda>x. x\<lparr>so_state := st\<rparr>) (sales_orders d)\<rparr>"

definition return_state :: "int \<Rightarrow> db \<Rightarrow> so_status" where
  "return_state so d = (if open_return_lines so d = [] then RMA_RECEIVED else RMA_PARTIALLY_RECEIVED)"

text \<open>The receipt, the stock, the line and the header.\<close>

definition post_return :: "int \<Rightarrow> sol_row \<Rightarrow> rma_receive \<Rightarrow> string \<Rightarrow> db \<Rightarrow> receipt_row \<times> db" where
  "post_return so line e user d =
     (let (r, d1) = insert_return_receipt so (sol_id line) e user d;
          d2 = snd (add_inventory (rr_item e) (rr_bin e) (rr_wh e) (rr_qty e) None d1);
          d3 = receive_line (sol_id line) (rr_qty e) d2
      in (r, set_so_state so (return_state so d3) d3))"

definition return_event ::
    "so_row \<Rightarrow> receipt_row \<Rightarrow> rma_receive \<Rightarrow> string \<Rightarrow> string \<Rightarrow> string \<Rightarrow> string \<Rightarrow> string option \<Rightarrow> db \<Rightarrow> db" where
  "return_event rma r e wcode bcode iext txn user_ext d =
     snd (emit_event ''return.received'' 1 ''item_receipt'' (rc_id r) (rc_ext r) (rr_wh e) txn
       (JObj [(''receipt_external_id'', JStr (rc_ext r)), (''so_external_id'', JStr (so_ext rma)),
              (''parent_so_external_id'', jopt JStr (case so_parent rma of None \<Rightarrow> None
                 | Some p \<Rightarrow> map_option so_ext (find_so p d))),
              (''warehouse_code'', JStr wcode), (''bin_code'', JStr bcode),
              (''lines'', JArr [JObj [(''item_external_id'', JStr (source_or_canonical ''item'' iext d)),
                                      (''quantity_received'', JInt (rr_qty e))]]),
              (''received_by_user_external_id'', jopt JStr user_ext),
              (''received_at'', JTime (rc_at r))]) d)"

text \<open>The audit row and the event; the event's lookups fail on a missing row.\<close>

definition report_return ::
    "so_row \<Rightarrow> sol_row \<Rightarrow> bin_row \<Rightarrow> rma_receive \<Rightarrow> receipt_row \<Rightarrow> string \<Rightarrow> string option \<Rightarrow> string \<Rightarrow> db
      \<Rightarrow> return_error + db" where
  "report_return rma line b e r user user_ext txn d =
     (let d1 = audit ''RETURN_RECEIVE'' ''SO'' (so_id rma) user (rr_wh e)
            (JObj [(''item_id'', JInt (rr_item e)), (''quantity'', JInt (rr_qty e)),
                   (''bin_id'', JInt (rr_bin e)), (''receipt_id'', JInt (rc_id r)),
                   (''so_line_id'', JInt (sol_id line)),
                   (''rma_status'', JStr (status_text (return_state (so_id rma) d)))]) d
      in case List.find (\<lambda>w. wh_id w = rr_wh e) (warehouses d1) of
           None \<Rightarrow> Inl RT_internal
         | Some w \<Rightarrow>
             (case find_item (rr_item e) d1 of
                None \<Rightarrow> Inl RT_internal
              | Some i \<Rightarrow> Inr (return_event rma r e (wh_code w) (bin_code b) (item_ext i) txn user_ext d1)))"

text \<open>The result is the receipt, the order's status and whether the call was a replay.\<close>

definition receive_rma ::
    "int \<Rightarrow> rma_receive \<Rightarrow> string \<Rightarrow> string option \<Rightarrow> string \<Rightarrow> db
      \<Rightarrow> return_error + ((int \<times> so_status option \<times> bool) \<times> db)" where
  "receive_rma so e user user_ext txn d =
     (case find_return so d of
        None \<Rightarrow> Inl RT_not_found
      | Some rma \<Rightarrow>
      (case return_line so (rr_item e) d of
        None \<Rightarrow> Inl RT_item_not_on
      | Some line \<Rightarrow>
      (case prior_receipt e d of
        Some r \<Rightarrow> Inr ((rc_id r, map_option so_state (find_so so d), True), d)
      | None \<Rightarrow>
          if sol_ordered line - sol_received line < rr_qty e
          then Inl (RT_over_receipt (rr_qty e) (sol_ordered line - sol_received line))
          else
          (case find_bin (rr_bin e) d of
             None \<Rightarrow> Inl RT_bin_not_found
           | Some b \<Rightarrow>
               if bin_wh b \<noteq> rr_wh e then Inl (RT_bin_elsewhere (bin_wh b))
               else
                 let (r, d1) = post_return so line e user d
                 in (case report_return rma line b e r user user_ext txn d1 of
                       Inl x \<Rightarrow> Inl x
                     | Inr d2 \<Rightarrow> Inr ((rc_id r, Some (return_state so d1), False), d2))))))"

section \<open>Voiding\<close>

record void_result =
  vr_number :: string
  vr_audit :: "int option"
  vr_already :: bool

definition void_return_order :: "int \<Rightarrow> string \<Rightarrow> db \<Rightarrow> return_error + (void_result \<times> db)" where
  "void_return_order so user d =
     (case find_so so d of
        None \<Rightarrow> Inl RT_not_found
      | Some x \<Rightarrow>
          if so_voided x \<noteq> None
          then Inr (\<lparr>vr_number = so_number x, vr_audit = None, vr_already = True\<rparr>, d)
          else if so_type x \<noteq> OT_return then Inl (RT_not_a_return (so_state x))
          else if so_state x \<noteq> SO_OPEN then Inl (RT_not_open (so_state x))
          else if (\<exists>r \<in> set (receipts d). rc_so r = Some so) then Inl RT_has_receipts
          else if so_refund x \<noteq> None then Inl RT_has_refund
          else
            let d1 = d\<lparr>sales_orders := upd (\<lambda>y. so_id y = so)
                       (\<lambda>y. y\<lparr>so_voided := Some (now d, user)\<rparr>) (sales_orders d)\<rparr>;
                (a, d2) = write_audit_log ''RETURN_VOID'' ''SO'' so user (so_wh x)
                  (JObj [(''so_number'', JStr (so_number x)), (''order_type'', JStr ''return''),
                         (''pre_status'', JStr (status_text (so_state x)))]) d1
            in Inr (\<lparr>vr_number = so_number x, vr_audit = Some a, vr_already = False\<rparr>, d2))"

section \<open>What the operations write\<close>

lemma add_inventory_stock:
  assumes "inv_wf d"
  shows "stock (snd (add_inventory item bin wh q lot d)) i = stock d i + (if i = item then q else 0)"
proof (cases "find_inv item bin lot d")
  case None
  then show ?thesis by (simp add: stock_def add_inventory_def nextval_def)
next
  case (Some r)
  have "stock (d\<lparr>inventory := upd (\<lambda>x. inv_id x = inv_id r)
        (\<lambda>x. x\<lparr>on_hand := on_hand x + q, inv_updated := now d\<rparr>) (inventory d)\<rparr>) i
      = stock d i + (if i = item then q else 0)"
    using stock_upd_row [OF assms, of r "\<lambda>x. x\<lparr>on_hand := on_hand x + q, inv_updated := now d\<rparr>" i]
      find_inv_Some [OF Some] by (auto simp: inv_key_def)
  with Some show ?thesis by (simp add: add_inventory_def)
qed

definition return_posts :: "int \<Rightarrow> sol_row \<Rightarrow> rma_receive \<Rightarrow> receipt_row \<Rightarrow> so_status \<Rightarrow> db \<Rightarrow> db \<Rightarrow> bool" where
  "return_posts so line e r st d d' \<longleftrightarrow>
     receipts d' = receipts d @ [r] \<and> rc_so r = Some so \<and> rc_sol r = Some (sol_id line)
     \<and> rc_item r = rr_item e \<and> rc_qty r = rr_qty e
     \<and> (\<forall>k. rr_key e = Some k \<and> k \<noteq> [] \<longrightarrow> rc_ext r = k)
     \<and> so_lines d' = upd (\<lambda>l. sol_id l = sol_id line) (\<lambda>l. l\<lparr>sol_received := sol_received l + rr_qty e\<rparr>) (so_lines d)
     \<and> sales_orders d' = upd (\<lambda>x. so_id x = so) (\<lambda>x. x\<lparr>so_state := st\<rparr>) (sales_orders d)
     \<and> st = return_state so d'
     \<and> seqs d' Seq_so = seqs d Seq_so \<and> seqs d' Seq_so_line = seqs d Seq_so_line
     \<and> (inv_wf d \<longrightarrow> inv_wf d' \<and> (\<forall>i. stock d' i = stock d i + (if i = rr_item e then rr_qty e else 0)))"

lemma receipt_ext_frame [simp]:
  "receipts (snd (receipt_ext e d)) = receipts d" "so_lines (snd (receipt_ext e d)) = so_lines d"
  "sales_orders (snd (receipt_ext e d)) = sales_orders d" "inventory (snd (receipt_ext e d)) = inventory d"
  "seqs (snd (receipt_ext e d)) = seqs d" "now (snd (receipt_ext e d)) = now d"
  by (simp_all add: receipt_ext_def uuid4_def split: option.splits)

lemma return_state_cong: "so_lines d' = so_lines d \<Longrightarrow> return_state so d' = return_state so d"
  by (simp add: return_state_def open_return_lines_def)

lemma inv_wf_cong:
  "inventory d' = inventory d \<Longrightarrow> seqs d' Seq_inventory = seqs d Seq_inventory \<Longrightarrow> inv_wf d' = inv_wf d"
  by (simp add: inv_wf_def)

lemma return_posts_cong:
  assumes "return_posts so line e r st d d1" "receipts d' = receipts d1" "so_lines d' = so_lines d1"
    "sales_orders d' = sales_orders d1" "inventory d' = inventory d1" "seqs d' Seq_so = seqs d1 Seq_so"
    "seqs d' Seq_so_line = seqs d1 Seq_so_line" "seqs d' Seq_inventory = seqs d1 Seq_inventory"
  shows "return_posts so line e r st d d'"
  using assms inv_wf_cong [OF assms(5,8)] stock_cong(3) [OF assms(5)] return_state_cong [OF assms(3)]
  by (simp add: return_posts_def)

lemma post_return_posts:
  "return_posts so line e (fst (post_return so line e user d)) (return_state so (snd (post_return so line e user d)))
     d (snd (post_return so line e user d))"
proof -
  let ?u = "snd (receipt_ext e d)" and ?r = "fst (post_return so line e user d)"
  let ?d1 = "snd (insert_return_receipt so (sol_id line) e user d)"
  let ?d2 = "snd (add_inventory (rr_item e) (rr_bin e) (rr_wh e) (rr_qty e) None ?d1)"
  have d1: "inventory ?d1 = inventory d" "seqs ?d1 Seq_inventory = seqs d Seq_inventory"
    "receipts ?d1 = receipts d @ [?r]" "so_lines ?d1 = so_lines d" "sales_orders ?d1 = sales_orders d"
    "seqs ?d1 Seq_so = seqs d Seq_so" "seqs ?d1 Seq_so_line = seqs d Seq_so_line"
    by (simp_all add: insert_return_receipt_def post_return_def Let_def split_beta)
  have r: "rc_so ?r = Some so" "rc_sol ?r = Some (sol_id line)" "rc_item ?r = rr_item e" "rc_qty ?r = rr_qty e"
    "\<forall>k. rr_key e = Some k \<and> k \<noteq> [] \<longrightarrow> rc_ext ?r = k"
    by (simp_all add: insert_return_receipt_def post_return_def Let_def split_beta receipt_ext_def)
  have st: "stock ?d2 i = stock d i + (if i = rr_item e then rr_qty e else 0)" "inv_wf ?d2" if "inv_wf d" for i
  proof -
    have wf: "inv_wf ?d1" using that inv_wf_cong [OF d1(1,2)] by simp
    show "stock ?d2 i = stock d i + (if i = rr_item e then rr_qty e else 0)"
      using add_inventory_stock [OF wf] stock_cong(3) [OF d1(1)] by simp
    show "inv_wf ?d2" by (rule add_inventory_wf [OF wf])
  qed
  have d': "snd (post_return so line e user d)
      = set_so_state so (return_state so (receive_line (sol_id line) (rr_qty e) ?d2)) (receive_line (sol_id line) (rr_qty e) ?d2)"
    by (simp add: post_return_def Let_def split_beta)
  have "inventory (snd (post_return so line e user d)) = inventory ?d2"
    "seqs (snd (post_return so line e user d)) = seqs ?d2"
    by (simp_all add: d' set_so_state_def receive_line_def set_sol_def)
  note stk = stock_cong(3) [OF this(1)] and wfk = inv_wf_cong [OF this(1)] and sq = this(2)
  show ?thesis
    unfolding return_posts_def
    using st stk wfk sq d1 r
    by (simp add: d' set_so_state_def receive_line_def set_sol_def return_state_def open_return_lines_def)
qed

lemma report_return_frame:
  assumes "report_return rma line b e r user ue txn d = Inr d'"
  shows "receipts d' = receipts d" "so_lines d' = so_lines d" "sales_orders d' = sales_orders d"
    "inventory d' = inventory d" "seqs d' Seq_so = seqs d Seq_so" "seqs d' Seq_so_line = seqs d Seq_so_line"
    "seqs d' Seq_inventory = seqs d Seq_inventory"
  using assms by (auto simp: report_return_def return_event_def Let_def split: option.splits)

text \<open>A successful call is a replay that changes nothing, or a posting.\<close>

lemma receive_rma_Inr:
  assumes "receive_rma so e user ue txn d = Inr ((i, st, rep), d')"
  shows "(rep \<and> d' = d \<and> (\<exists>r. prior_receipt e d = Some r \<and> i = rc_id r))
    \<or> (\<not> rep \<and> (\<exists>rma line r st'. find_return so d = Some rma \<and> return_line so (rr_item e) d = Some line
         \<and> rr_qty e \<le> sol_ordered line - sol_received line \<and> st = Some st' \<and> i = rc_id r
         \<and> prior_receipt e d = None \<and> return_posts so line e r st' d d'))"
proof -
  from assms obtain rma line where f: "find_return so d = Some rma" "return_line so (rr_item e) d = Some line"
    by (auto simp: receive_rma_def split: option.splits)
  show ?thesis
  proof (cases "prior_receipt e d")
    case (Some r)
    with assms f show ?thesis by (simp add: receive_rma_def)
  next
    case None
    let ?p = "post_return so line e user d"
    from assms f None have q: "rr_qty e \<le> sol_ordered line - sol_received line"
      by (auto simp: receive_rma_def not_less split: if_splits)
    from assms f None obtain b where "report_return rma line b e (fst ?p) user ue txn (snd ?p) = Inr d'"
      and res: "i = rc_id (fst ?p)" "st = Some (return_state so (snd ?p))" "\<not> rep"
      by (auto simp: receive_rma_def split_beta split: option.splits if_splits sum.splits)
    note d' = report_return_frame [OF this(1)]
    have "return_posts so line e (fst ?p) (return_state so (snd ?p)) d d'"
      by (rule return_posts_cong [OF post_return_posts]) (simp_all add: d')
    with f None q res show ?thesis by blast
  qed
qed

lemma insert_sol_Some:
  assumes "insert_sol r d = Some (i, d')"
  shows "i = seqs d Seq_so_line" "so_lines d' = so_lines d @ [r\<lparr>sol_id := i\<rparr>]"
    "seqs d' = (seqs d)(Seq_so_line := i + 1)" "sales_orders d' = sales_orders d"
    "receipts d' = receipts d" "inventory d' = inventory d"
  using assms by (auto simp: insert_sol_def split_beta split: if_splits)

lemma insert_so_Some:
  assumes "insert_so r d = Some (i, d')"
  shows "i = seqs d Seq_so" "sales_orders d' = sales_orders d @ [r\<lparr>so_id := i\<rparr>]"
    "seqs d' = (seqs d)(Seq_so := i + 1)" "so_lines d' = so_lines d"
    "receipts d' = receipts d" "inventory d' = inventory d"
    "\<forall>x \<in> set (sales_orders d). so_number x \<noteq> so_number r"
  using assms by (auto simp: insert_so_def split_beta split: if_splits)

definition fresh_lines :: "int \<Rightarrow> int list \<Rightarrow> int \<Rightarrow> int \<Rightarrow> sol_row list \<Rightarrow> bool" where
  "fresh_lines so qs a b new \<longleftrightarrow>
     map sol_ordered new = qs \<and> distinct (map sol_id new) \<and> a \<le> b
     \<and> (\<forall>l \<in> set new. sol_so l = so \<and> sol_received l = 0 \<and> a \<le> sol_id l \<and> sol_id l < b)"

lemma rma_lines_Some:
  "rma_lines so n ls d = Some d' \<Longrightarrow>
     \<exists>new. so_lines d' = so_lines d @ new
       \<and> fresh_lines so (map rl_qty ls) (seqs d Seq_so_line) (seqs d' Seq_so_line) new
       \<and> sales_orders d' = sales_orders d \<and> receipts d' = receipts d \<and> inventory d' = inventory d
       \<and> (\<forall>q. q \<noteq> Seq_so_line \<longrightarrow> seqs d' q = seqs d q)"
proof (induction ls arbitrary: n d)
  case Nil
  then show ?case by (auto simp: fresh_lines_def)
next
  case (Cons l ls)
  then obtain i d1 where i: "insert_sol (new_sol\<lparr>sol_so := so, sol_item := rl_item l, sol_ordered := rl_qty l,
      sol_number := n, sol_state := SOL_AS SO_OPEN, sol_original := rl_original l\<rparr>) d = Some (i, d1)"
    and r: "rma_lines so (n + 1) ls d1 = Some d'"
    by (auto split: option.splits)
  note f = insert_sol_Some [OF i]
  from Cons.IH [OF r] obtain new where new: "so_lines d' = so_lines d1 @ new"
    "fresh_lines so (map rl_qty ls) (seqs d1 Seq_so_line) (seqs d' Seq_so_line) new"
    "sales_orders d' = sales_orders d1" "receipts d' = receipts d1" "inventory d' = inventory d1"
    "\<forall>q. q \<noteq> Seq_so_line \<longrightarrow> seqs d' q = seqs d1 q" by blast
  let ?l = "new_sol\<lparr>sol_so := so, sol_item := rl_item l, sol_ordered := rl_qty l,
      sol_number := n, sol_state := SOL_AS SO_OPEN, sol_original := rl_original l, sol_id := i\<rparr>"
  have "fresh_lines so (map rl_qty (l # ls)) (seqs d Seq_so_line) (seqs d' Seq_so_line) (?l # new)"
    using new(2) f(1,3) by (fastforce simp: fresh_lines_def new_sol_def)
  moreover have "so_lines d' = so_lines d @ ?l # new" using new(1) f(2) by simp
  ultimately show ?case using new f by (intro exI [of _ "?l # new"]) simp
qed

lemma create_rma_Inr:
  assumes "create_rma original ls user memo d = Inr ((i, number), d')"
  shows "\<exists>x new. sales_orders d' = sales_orders d @ [x] \<and> so_id x = i \<and> so_number x = number
      \<and> so_type x = OT_return \<and> so_state x = SO_OPEN \<and> so_parent x = Some original \<and> so_voided x = None
      \<and> i = seqs d Seq_so \<and> seqs d' Seq_so = i + 1
      \<and> (\<forall>y \<in> set (sales_orders d). so_number y \<noteq> number)
      \<and> so_lines d' = so_lines d @ new \<and> receipts d' = receipts d
      \<and> fresh_lines i (map rl_qty ls) (seqs d Seq_so_line) (seqs d' Seq_so_line) new
      \<and> inventory d' = inventory d \<and> seqs d' Seq_inventory = seqs d Seq_inventory"
proof -
  from assms obtain o' where o': "find_so original d = Some o'"
    by (auto simp: create_rma_def split: option.splits)
  obtain nm where nm: "mint_child_so_number original (so_number o') OT_return d = Some nm"
    by (simp add: mint_child_so_number_def order_type_so_suffix_def Let_def)
  let ?d1 = "snd (uuid4 d)"
  let ?row = "new_so\<lparr>so_number := nm, so_barcode := Some nm, so_wh := so_wh o', so_source := so_source o',
    so_type := OT_return, so_parent := Some original, so_created_by := Some user, so_ext := fst (uuid4 d),
    so_memo := clean_memo memo\<rparr>"
  from assms o' nm obtain d2 where ins: "insert_so ?row ?d1 = Some (i, d2)"
    and ls: "rma_lines i 1 ls d2 = Some d'" and [simp]: "nm = number"
    by (auto simp: create_rma_def split_beta split: option.splits)
  note f = insert_so_Some [OF ins]
  have u: "sales_orders ?d1 = sales_orders d" "so_lines ?d1 = so_lines d" "receipts ?d1 = receipts d"
    "inventory ?d1 = inventory d" "seqs ?d1 = seqs d" by (simp_all add: uuid4_def)
  from rma_lines_Some [OF ls] obtain new where new: "so_lines d' = so_lines d2 @ new"
    "fresh_lines i (map rl_qty ls) (seqs d2 Seq_so_line) (seqs d' Seq_so_line) new"
    "sales_orders d' = sales_orders d2" "receipts d' = receipts d2" "inventory d' = inventory d2"
    "\<forall>q. q \<noteq> Seq_so_line \<longrightarrow> seqs d' q = seqs d2 q" by blast
  show ?thesis
    by (rule exI [of _ "?row\<lparr>so_id := i\<rparr>"], rule exI [of _ new]) (use f u new in \<open>simp add: new_so_def\<close>)
qed

lemma void_return_Inr:
  assumes "void_return_order so user d = Inr (r, d')"
  shows "\<exists>f. sales_orders d' = upd (\<lambda>y. so_id y = so) f (sales_orders d)
      \<and> (\<forall>y. so_id (f y) = so_id y \<and> so_type (f y) = so_type y \<and> so_state (f y) = so_state y)
      \<and> so_lines d' = so_lines d \<and> receipts d' = receipts d \<and> inventory d' = inventory d
      \<and> seqs d' Seq_so = seqs d Seq_so \<and> seqs d' Seq_so_line = seqs d Seq_so_line
      \<and> seqs d' Seq_inventory = seqs d Seq_inventory"
proof (cases "vr_already r")
  case True
  with assms have "d' = d" by (auto simp: void_return_order_def split: option.splits if_splits prod.splits)
  then show ?thesis by (intro exI [of _ "\<lambda>y. y"]) (simp add: upd_def)
next
  case False
  with assms show ?thesis
    by (intro exI [of _ "\<lambda>y. y\<lparr>so_voided := Some (now d, user)\<rparr>"])
      (auto simp: void_return_order_def Let_def split_beta split: option.splits if_splits)
qed

section \<open>The books of returns\<close>

definition returned_by :: "int \<Rightarrow> db \<Rightarrow> int" where
  "returned_by l d = total (\<lambda>r. rc_sol r = Some l) rc_qty (receipts d)"

definition returned_stock :: "db \<Rightarrow> int \<Rightarrow> int" where
  "returned_stock d item = total (\<lambda>r. rc_so r \<noteq> None \<and> rc_item r = item) rc_qty (receipts d)"

definition return_keys :: "db \<Rightarrow> bool" where
  "return_keys d \<longleftrightarrow>
     distinct (map so_id (sales_orders d)) \<and> distinct (map sol_id (so_lines d))
     \<and> (\<forall>x \<in> set (sales_orders d). so_id x < seqs d Seq_so)
     \<and> (\<forall>l \<in> set (so_lines d). sol_id l < seqs d Seq_so_line \<and> sol_so l < seqs d Seq_so)
     \<and> (\<forall>r \<in> set (receipts d). (\<forall>s. rc_so r = Some s \<longrightarrow> s < seqs d Seq_so)
          \<and> (\<forall>l. rc_sol r = Some l \<longrightarrow> l < seqs d Seq_so_line))"

text \<open>What a line has taken back is what its receipts say.\<close>

definition return_lines_ok :: "db \<Rightarrow> bool" where
  "return_lines_ok d \<longleftrightarrow> (\<forall>l \<in> set (so_lines d). sol_received l = returned_by (sol_id l) d)
     \<and> (\<forall>x \<in> set (sales_orders d). so_type x = OT_return \<longrightarrow>
          (\<forall>l \<in> set (so_lines d). sol_so l = so_id x \<longrightarrow> sol_received l \<le> sol_ordered l))"

definition return_status_ok :: "db \<Rightarrow> bool" where
  "return_status_ok d \<longleftrightarrow> (\<forall>x \<in> set (sales_orders d). so_type x = OT_return \<longrightarrow>
     (so_state x = SO_OPEN \<and> (\<forall>r \<in> set (receipts d). rc_so r \<noteq> Some (so_id x)))
     \<or> (so_state x \<noteq> SO_OPEN \<and> so_state x = return_state (so_id x) d))"

definition return_ok :: "db \<Rightarrow> bool" where
  "return_ok d \<longleftrightarrow> return_keys d \<and> return_lines_ok d \<and> return_status_ok d"

lemma return_state_not_open [simp]: "return_state so d \<noteq> SO_OPEN"
  by (simp add: return_state_def)

lemma create_rma_ok:
  assumes "create_rma original ls user memo d = Inr ((i, number), d')" "\<forall>l \<in> set ls. 0 < rl_qty l"
    and ok: "return_ok d"
  shows "return_ok d'"
proof -
  from create_rma_Inr [OF assms(1)] obtain x new where
    x: "sales_orders d' = sales_orders d @ [x]" "so_id x = seqs d Seq_so" "so_type x = OT_return"
      "so_state x = SO_OPEN" "seqs d' Seq_so = seqs d Seq_so + 1"
    and new: "so_lines d' = so_lines d @ new" "receipts d' = receipts d"
      "fresh_lines (seqs d Seq_so) (map rl_qty ls) (seqs d Seq_so_line) (seqs d' Seq_so_line) new" by auto
  have keys: "return_keys d" and lines: "return_lines_ok d" and status: "return_status_ok d"
    using ok by (simp_all add: return_ok_def)
  have pos: "0 < sol_ordered l" if "l \<in> set new" for l
  proof -
    have "sol_ordered l \<in> set (map rl_qty ls)" using new(3) imageI [OF that, of sol_ordered] unfolding fresh_lines_def set_map [symmetric] by metis
    with assms(2) show ?thesis by auto
  qed
  have fresh: "sol_so l = seqs d Seq_so" "sol_received l = 0" "seqs d Seq_so_line \<le> sol_id l"
    "sol_id l < seqs d' Seq_so_line" if "l \<in> set new" for l
    using new(3) that by (auto simp: fresh_lines_def)
  have mono: "seqs d Seq_so_line \<le> seqs d' Seq_so_line" "distinct (map sol_id new)"
    using new(3) by (auto simp: fresh_lines_def)
  have "return_keys d'"
    using keys x(1,2,5) new(1,2) fresh mono unfolding return_keys_def by (fastforce simp: distinct_map)
  moreover have "return_lines_ok d'"
  proof -
    have none: "returned_by (sol_id l) d = 0" if "l \<in> set new" for l
      using keys fresh(3) [OF that] unfolding return_keys_def returned_by_def by (force intro: total_none)
    have "sol_received l = returned_by (sol_id l) d'" if "l \<in> set (so_lines d')" for l
      using that lines none fresh(2) new(1,2) by (auto simp: return_lines_ok_def returned_by_def)
    moreover have "sol_received l \<le> sol_ordered l"
      if "y \<in> set (sales_orders d')" "so_type y = OT_return" "l \<in> set (so_lines d')" "sol_so l = so_id y" for y l
    proof (cases "l \<in> set new")
      case True
      with pos fresh(2) show ?thesis by fastforce
    next
      case False
      with that new(1) keys x(1,2) have "y \<in> set (sales_orders d)" "l \<in> set (so_lines d)"
        by (auto simp: return_keys_def)
      with lines that(2,4) show ?thesis by (auto simp: return_lines_ok_def)
    qed
    ultimately show ?thesis by (simp add: return_lines_ok_def)
  qed
  moreover have "return_status_ok d'"
    unfolding return_status_ok_def
  proof (intro ballI impI)
    fix y
    assume y: "y \<in> set (sales_orders d')" "so_type y = OT_return"
    show "so_state y = SO_OPEN \<and> (\<forall>r \<in> set (receipts d'). rc_so r \<noteq> Some (so_id y))
        \<or> so_state y \<noteq> SO_OPEN \<and> so_state y = return_state (so_id y) d'"
    proof (cases "y = x")
      case True
      with x(2,4) keys new(2) show ?thesis by (fastforce simp: return_keys_def)
    next
      case False
      with y x(1) have y': "y \<in> set (sales_orders d)" by auto
      with keys have "so_id y \<noteq> seqs d Seq_so" by (auto simp: return_keys_def)
      with fresh(1) have "open_return_lines (so_id y) d' = open_return_lines (so_id y) d"
        by (auto simp: open_return_lines_def new(1) filter_empty_conv)
      then have "return_state (so_id y) d' = return_state (so_id y) d" by (simp add: return_state_def)
      with y' y(2) status new(2) show ?thesis by (auto simp: return_status_ok_def)
    qed
  qed
  ultimately show ?thesis by (simp add: return_ok_def)
qed

lemma return_posts_ok:
  assumes "return_posts so line e r st d d'" "find_return so d = Some rma"
    "return_line so (rr_item e) d = Some line" "rr_qty e \<le> sol_ordered line - sol_received line"
    and ok: "return_ok d"
  shows "return_ok d'"
proof -
  have keys: "return_keys d" and lines: "return_lines_ok d" and status: "return_status_ok d"
    using ok by (simp_all add: return_ok_def)
  have rma: "rma \<in> set (sales_orders d)" "so_id rma = so" "so_type rma = OT_return"
    using find_Some_iff_first [of "\<lambda>x. so_id x = so \<and> so_type x = OT_return"] assms(2)
    unfolding find_return_def by fast+
  have line: "line \<in> set (so_lines d)" "sol_so line = so"
    using find_Some_iff_first [of "\<lambda>l. sol_so l = so \<and> sol_item l = rr_item e"] assms(3)
    unfolding return_line_def by fast+
  let ?f = "\<lambda>l. l\<lparr>sol_received := sol_received l + rr_qty e\<rparr>"
  have p: "receipts d' = receipts d @ [r]" "rc_so r = Some so" "rc_sol r = Some (sol_id line)" "rc_qty r = rr_qty e"
    "so_lines d' = upd (\<lambda>l. sol_id l = sol_id line) ?f (so_lines d)"
    "sales_orders d' = upd (\<lambda>x. so_id x = so) (\<lambda>x. x\<lparr>so_state := st\<rparr>) (sales_orders d)"
    "st = return_state so d'" "seqs d' Seq_so = seqs d Seq_so" "seqs d' Seq_so_line = seqs d Seq_so_line"
    using assms(1) by (auto simp: return_posts_def)
  have only: "l = line" if "l \<in> set (so_lines d)" "sol_id l = sol_id line" for l
    using keys that line(1) by (auto simp: return_keys_def intro: key_inj)
  have "return_keys d'"
    using keys rma line p unfolding return_keys_def
    by (auto simp: map_upd_same set_upd)
  moreover have "return_lines_ok d'"
    unfolding return_lines_ok_def p(5,6) set_upd
  proof (intro conjI ballI impI)
    fix l
    assume "l \<in> (\<lambda>l. if sol_id l = sol_id line then ?f l else l) ` set (so_lines d)"
    then obtain k where k: "k \<in> set (so_lines d)" "l = (if sol_id k = sol_id line then ?f k else k)" by auto
    with lines p(1,3,4) show "sol_received l = returned_by (sol_id l) d'"
      by (auto simp: return_lines_ok_def returned_by_def)
  next
    fix y l
    assume y: "y \<in> (\<lambda>x. if so_id x = so then x\<lparr>so_state := st\<rparr> else x) ` set (sales_orders d)"
      "so_type y = OT_return"
      and "l \<in> (\<lambda>l. if sol_id l = sol_id line then ?f l else l) ` set (so_lines d)" "sol_so l = so_id y"
    then obtain z k where z: "z \<in> set (sales_orders d)" "so_type z = OT_return" "so_id z = so_id y"
      and k: "k \<in> set (so_lines d)" "l = (if sol_id k = sol_id line then ?f k else k)" "sol_so k = so_id y"
      by (auto split: if_splits)
    with lines have "sol_received k \<le> sol_ordered k" by (auto simp: return_lines_ok_def)
    moreover have "k = line" if "sol_id k = sol_id line" using only [OF k(1) that] .
    ultimately show "sol_received l \<le> sol_ordered l" using k(2) assms(4) by auto
  qed
  moreover have "return_status_ok d'"
    unfolding return_status_ok_def p(6) set_upd
  proof (intro ballI impI)
    fix y
    assume "y \<in> (\<lambda>x. if so_id x = so then x\<lparr>so_state := st\<rparr> else x) ` set (sales_orders d)" "so_type y = OT_return"
    then obtain z where z: "z \<in> set (sales_orders d)" "so_type z = OT_return"
      "y = (if so_id z = so then z\<lparr>so_state := st\<rparr> else z)" by (auto split: if_splits)
    show "so_state y = SO_OPEN \<and> (\<forall>r \<in> set (receipts d'). rc_so r \<noteq> Some (so_id y))
        \<or> so_state y \<noteq> SO_OPEN \<and> so_state y = return_state (so_id y) d'"
    proof (cases "so_id z = so")
      case True
      with z(3) p(7) show ?thesis by simp
    next
      case False
      have skip: "filter (\<lambda>l. sol_so l = so_id z \<and> sol_received l < sol_ordered l) (upd (\<lambda>l. sol_id l = sol_id line) ?f t)
          = filter (\<lambda>l. sol_so l = so_id z \<and> sol_received l < sol_ordered l) t"
        if "\<forall>l \<in> set t. sol_id l = sol_id line \<longrightarrow> sol_so l \<noteq> so_id z" for t
        using that by (induction t) auto
      have "\<forall>l \<in> set (so_lines d). sol_id l = sol_id line \<longrightarrow> sol_so l \<noteq> so_id z"
        using only line(2) False by metis
      from skip [OF this] have "return_state (so_id z) d' = return_state (so_id z) d"
        by (simp add: return_state_def open_return_lines_def p(5))
      with False z status p(1,2) show ?thesis by (auto simp: return_status_ok_def)
    qed
  qed
  ultimately show ?thesis by (simp add: return_ok_def)
qed

lemma receive_rma_ok:
  assumes "receive_rma so e user ue txn d = Inr (res, d')" "return_ok d"
  shows "return_ok d'"
proof -
  obtain i st rep where res: "res = (i, st, rep)" by (cases res)
  show ?thesis
    using receive_rma_Inr [OF assms(1) [unfolded res]] return_posts_ok assms(2) by blast
qed

lemma void_return_ok:
  assumes "void_return_order so user d = Inr (r, d')" "return_ok d"
  shows "return_ok d'"
proof -
  from void_return_Inr [OF assms(1)] obtain f where
    f: "sales_orders d' = upd (\<lambda>y. so_id y = so) f (sales_orders d)"
      "\<And>y. so_id (f y) = so_id y \<and> so_type (f y) = so_type y \<and> so_state (f y) = so_state y"
    and t: "so_lines d' = so_lines d" "receipts d' = receipts d" "seqs d' Seq_so = seqs d Seq_so"
      "seqs d' Seq_so_line = seqs d Seq_so_line" by blast
  have "\<exists>x \<in> set (sales_orders d). so_id x = so_id y \<and> so_type x = so_type y \<and> so_state x = so_state y"
    if "y \<in> set (sales_orders d')" for y
    using that f by (auto simp: set_upd)
  note origin = this
  have "map so_id (sales_orders d') = map so_id (sales_orders d)"
    using f by (simp add: map_upd_same)
  then have "return_keys d'"
    using assms(2) t origin unfolding return_ok_def return_keys_def by metis
  moreover have "return_lines_ok d'"
    using assms(2) t origin unfolding return_ok_def return_lines_ok_def returned_by_def by metis
  moreover have "return_status_ok d'"
    using assms(2) t origin return_state_cong [OF t(1)] unfolding return_ok_def return_status_ok_def by metis
  ultimately show ?thesis by (simp add: return_ok_def)
qed

text \<open>Any history of creating, receiving and voiding returns. The request schemas reject
  quantities that are not positive.\<close>

inductive return_step :: "db \<Rightarrow> db \<Rightarrow> bool" where
  create: "create_rma original ls user memo d = Inr (res, d') \<Longrightarrow> \<forall>l \<in> set ls. 0 < rl_qty l \<Longrightarrow> return_step d d'"
| receive: "receive_rma so e user ue txn d = Inr (res, d') \<Longrightarrow> 0 < rr_qty e \<Longrightarrow> return_step d d'"
| void: "void_return_order so user d = Inr (res, d') \<Longrightarrow> return_step d d'"

lemma return_step_ok: "return_ok d \<Longrightarrow> return_step d d' \<Longrightarrow> return_ok d'"
  by (auto elim!: return_step.cases intro: create_rma_ok receive_rma_ok void_return_ok)

interpretation returns: step_invariant return_step return_ok
  by unfold_locales (rule return_step_ok)

definition return_ledger :: "(int \<Rightarrow> int) \<Rightarrow> db \<Rightarrow> bool" where
  "return_ledger c d \<longleftrightarrow> inv_wf d \<and> (\<forall>i. stock d i - returned_stock d i = c i)"

lemma return_step_ledger:
  assumes "return_ledger c d" "return_step d d'"
  shows "return_ledger c d'"
  using assms(2)
proof cases
  case (create original ls user memo res)
  obtain i number where "res = (i, number)" by (cases res)
  with create_rma_Inr [OF create(1) [unfolded this]]
  have "inventory d' = inventory d" "seqs d' Seq_inventory = seqs d Seq_inventory" "receipts d' = receipts d"
    by auto
  with assms(1) inv_wf_cong [OF this(1,2)] stock_cong(3) [OF this(1)] show ?thesis
    by (simp add: return_ledger_def returned_stock_def)
next
  case (receive so e user ue txn res)
  obtain i st rep where "res = (i, st, rep)" by (cases res)
  from receive_rma_Inr [OF receive(1) [unfolded this]]
  consider "d' = d" | line r st' where "return_posts so line e r st' d d'" by blast
  then show ?thesis
    using assms(1) by cases (auto simp: return_ledger_def returned_stock_def return_posts_def)
next
  case (void so user res)
  from void_return_Inr [OF this]
  have "inventory d' = inventory d" "seqs d' Seq_inventory = seqs d Seq_inventory" "receipts d' = receipts d"
    by auto
  with assms(1) inv_wf_cong [OF this(1,2)] stock_cong(3) [OF this(1)] show ?thesis
    by (simp add: return_ledger_def returned_stock_def)
qed

interpretation return_stock: step_invariant return_step "return_ledger c"
  by unfold_locales (rule return_step_ledger)

section \<open>Properties\<close>

text \<open>Claim C6. Through any history of creating, receiving and voiding returns, every
  line of a return order has taken back exactly what its receipts say and never more than
  it ordered; the order reads OPEN only while nothing was received against it, RECEIVED only
  when no line still waits; and the stock of every item rises by exactly what was received
  back.\<close>

theorem returns_books_balance:
  assumes "return_step\<^sup>*\<^sup>* d d'" "return_ok d" "inv_wf d"
    and "x \<in> set (sales_orders d')" "so_type x = OT_return" "l \<in> set (so_lines d')" "sol_so l = so_id x"
  shows "sol_received l = returned_by (sol_id l) d' \<and> sol_received l \<le> sol_ordered l
    \<and> (so_state x = RMA_RECEIVED \<longrightarrow> sol_received l = sol_ordered l)
    \<and> (so_state x = SO_OPEN \<longrightarrow> (\<forall>r \<in> set (receipts d'). rc_so r \<noteq> Some (so_id x)))
    \<and> stock d' i = stock d i + (returned_stock d' i - returned_stock d i)"
proof -
  have ok: "return_ok d'" by (rule returns.reachable [OF assms(1,2)])
  have "return_ledger (\<lambda>i. stock d i - returned_stock d i) d'"
    by (rule return_stock.reachable [OF assms(1)]) (simp add: return_ledger_def assms(3))
  then have "stock d' i = stock d i + (returned_stock d' i - returned_stock d i)"
    by (simp add: return_ledger_def algebra_simps)
  moreover have "sol_received l = returned_by (sol_id l) d'" "sol_received l \<le> sol_ordered l"
    using ok assms(4-7) by (auto simp: return_ok_def return_lines_ok_def)
  moreover have "so_state x = RMA_RECEIVED \<Longrightarrow> open_return_lines (so_id x) d' = []"
    using ok assms(4,5) by (force simp: return_ok_def return_status_ok_def return_state_def split: if_splits)
  then have "so_state x = RMA_RECEIVED \<Longrightarrow> \<not> sol_received l < sol_ordered l"
    using assms(6,7) by (auto simp: open_return_lines_def filter_empty_conv)
  moreover have "so_state x = SO_OPEN \<Longrightarrow> \<forall>r \<in> set (receipts d'). rc_so r \<noteq> Some (so_id x)"
    using ok assms(4,5) by (auto simp: return_ok_def return_status_ok_def)
  ultimately show ?thesis by force
qed

lemma find_return_id: "find_return so d = Some x \<Longrightarrow> x \<in> set (sales_orders d) \<and> so_id x = so \<and> so_type x = OT_return"
  unfolding find_return_def using find_Some_iff_first by fast

lemma return_replay_lines:
  assumes "return_posts so line e r st d d'"
  shows "find_return so d' = map_option (\<lambda>x. x\<lparr>so_state := st\<rparr>) (find_return so d)"
    "return_line so i d' = None \<longleftrightarrow> return_line so i d = None"
proof -
  have "find_return so d' = map_option (\<lambda>x. if so_id x = so then x\<lparr>so_state := st\<rparr> else x) (find_return so d)"
    using assms unfolding find_return_def return_posts_def by (auto intro: find_upd)
  also have "\<dots> = map_option (\<lambda>x. x\<lparr>so_state := st\<rparr>) (find_return so d)"
    using find_return_id [of so d] by (cases "find_return so d") auto
  finally show "find_return so d' = map_option (\<lambda>x. x\<lparr>so_state := st\<rparr>) (find_return so d)" .
  show "return_line so i d' = None \<longleftrightarrow> return_line so i d = None"
    using assms by (simp add: return_line_def return_posts_def find_upd)
qed

lemma find_return_so: "distinct (map so_id (sales_orders d)) \<Longrightarrow> find_return so d = Some x \<Longrightarrow> find_so so d = Some x"
proof -
  assume a: "distinct (map so_id (sales_orders d))" "find_return so d = Some x"
  have "x \<in> set (sales_orders d)" "so_id x = so" using find_return_id [OF a(2)] by auto
  with find_key [OF a(1)] show "find_so so d = Some x" unfolding find_so_def by auto
qed

text \<open>Claim C32. Receiving is idempotent: when a receive with a key succeeds, repeating it
  right after, by whoever, answers with the first receipt and the order's status, flagged as a
  replay, and changes nothing.\<close>

theorem receive_rma_idempotent:
  assumes "receive_rma so e user ue txn d = Inr ((i, st, rep), d')" "rr_key e = Some k" "k \<noteq> []"
    and "return_ok d"
  shows "receive_rma so e user' ue' txn' d' = Inr ((i, st, True), d')"
proof (cases rep)
  case True
  with receive_rma_Inr [OF assms(1)] have d': "d' = d" by blast
  with True assms(1) show ?thesis
    by (auto simp: receive_rma_def split_beta split: option.splits if_splits sum.splits)
next
  case False
  with receive_rma_Inr [OF assms(1)] obtain rma line r st' where
    f: "find_return so d = Some rma" "return_line so (rr_item e) d = Some line" "st = Some st'" "i = rc_id r"
      "prior_receipt e d = None" and p: "return_posts so line e r st' d d'" by blast
  have "return_ok d'" by (rule receive_rma_ok [OF assms(1,4)])
  then have dist: "distinct (map so_id (sales_orders d'))" by (simp add: return_ok_def return_keys_def)
  have rma': "find_return so d' = Some (rma\<lparr>so_state := st'\<rparr>)"
    using return_replay_lines(1) [OF p] f(1) by simp
  have "return_line so (rr_item e) d' \<noteq> None"
    using return_replay_lines(2) [OF p] f(2) by simp
  moreover have "prior_receipt e d' = Some r"
    using f(5) p assms(2,3) by (simp add: prior_receipt_def return_posts_def find_append)
  ultimately show ?thesis
    using rma' find_return_so [OF dist rma'] f(3,4) by (auto simp: receive_rma_def)
qed

section \<open>Examples\<close>

text \<open>A shipped order of five units, of which three come back.\<close>

definition demo_sale :: db where
  "demo_sale = empty_db\<lparr>seqs := (\<lambda>_. 20),
     warehouses := [\<lparr>wh_id = 1, wh_code = ''W1'', wh_active = True\<rparr>],
     bins := [\<lparr>bin_id = 1, bin_code = ''A1'', bin_wh = 1, bin_kind = BIN_PICKABLE,
               bin_sequence = 1, bin_active = True, bin_ext = ''b'', bin_barcode = ''b''\<rparr>],
     items := [\<lparr>item_id = 7, item_sku = ''TST'', item_name = ''Test'', item_upc = Some ''123'',
                item_aliases = None, item_ext = ''u7'', item_weight = None, item_default_bin = None\<rparr>],
     sales_orders := [new_so\<lparr>so_id := 1, so_number := ''SO-1'', so_state := SO_SHIPPED, so_wh := 1\<rparr>],
     so_lines := [new_sol\<lparr>sol_id := 1, sol_so := 1, sol_item := 7, sol_ordered := 5, sol_number := 1\<rparr>]\<rparr>"

definition demo_return_lines :: "rma_line list" where
  "demo_return_lines = [\<lparr>rl_item = 7, rl_qty = 3, rl_original = Some 1\<rparr>]"

definition demo_receive :: rma_receive where
  "demo_receive = \<lparr>rr_item = 7, rr_qty = 3, rr_wh = 1, rr_bin = 1, rr_notes = None, rr_key = Some ''k1''\<rparr>"

definition demo_rma :: db where
  "demo_rma = demo_sale\<lparr>uuid_ix := 1, seqs := (\<lambda>_. 20)(Seq_so := 21, Seq_so_line := 21),
     sales_orders := sales_orders demo_sale @ [new_so\<lparr>so_id := 20, so_number := ''SO-1-RMA'',
       so_barcode := Some ''SO-1-RMA'', so_wh := 1, so_type := OT_return, so_parent := Some 1,
       so_created_by := Some ''admin''\<rparr>],
     so_lines := so_lines demo_sale @ [new_sol\<lparr>sol_id := 20, sol_so := 20, sol_item := 7,
       sol_ordered := 3, sol_number := 1, sol_state := SOL_AS SO_OPEN, sol_original := Some 1\<rparr>]\<rparr>"

lemmas demo_return_defs = demo_sale_def demo_return_lines_def demo_receive_def demo_rma_def empty_db_def
  new_so_def new_sol_def nextval_def Let_def

lemma demo_create: "create_rma 1 demo_return_lines ''admin'' None demo_sale = Inr ((20, ''SO-1-RMA''), demo_rma)"
  by (simp add: create_rma_def find_so_def mint_child_so_number_def order_type_so_suffix_def children_def
      uuid4_def insert_so_def insert_sol_def find_item_def clean_memo_def demo_return_defs)

lemma demo_sale_ok: "return_ok demo_sale"
  by (simp add: return_ok_def return_keys_def return_lines_ok_def return_status_ok_def returned_by_def
      demo_return_defs)

lemma demo_receive_runs:
  "\<exists>d'. receive_rma 20 demo_receive ''bob'' None ''t1'' demo_rma = Inr ((20, Some RMA_RECEIVED, False), d')"
  by (simp add: receive_rma_def find_return_def return_line_def prior_receipt_def find_bin_def post_return_def
      insert_return_receipt_def receipt_ext_def report_return_def return_state_def open_return_lines_def
      receive_line_def set_sol_def set_so_state_def find_item_def add_inventory_def find_inv_def
      demo_return_defs)

theorem returns_books_balance_witness:
  "\<exists>d' x l. return_step\<^sup>*\<^sup>* demo_sale d' \<and> x \<in> set (sales_orders d') \<and> so_type x = OT_return
    \<and> l \<in> set (so_lines d') \<and> sol_so l = so_id x
    \<and> sol_received l = returned_by (sol_id l) d' \<and> sol_received l \<le> sol_ordered l
    \<and> (so_state x = RMA_RECEIVED \<longrightarrow> sol_received l = sol_ordered l)
    \<and> (so_state x = SO_OPEN \<longrightarrow> (\<forall>r \<in> set (receipts d'). rc_so r \<noteq> Some (so_id x)))
    \<and> stock d' 7 = stock demo_sale 7 + (returned_stock d' 7 - returned_stock demo_sale 7)"
proof -
  let ?x = "new_so\<lparr>so_id := 20, so_number := ''SO-1-RMA'', so_barcode := Some ''SO-1-RMA'', so_wh := 1,
    so_type := OT_return, so_parent := Some 1, so_created_by := Some ''admin''\<rparr>"
  let ?l = "new_sol\<lparr>sol_id := 20, sol_so := 20, sol_item := 7, sol_ordered := 3, sol_number := 1,
    sol_state := SOL_AS SO_OPEN, sol_original := Some 1\<rparr>"
  have "return_step demo_sale demo_rma"
    by (rule return_step.create [OF demo_create]) (simp add: demo_return_lines_def)
  then have s: "return_step\<^sup>*\<^sup>* demo_sale demo_rma" by blast
  have wf: "inv_wf demo_sale" by (simp add: inv_wf_def demo_return_defs)
  have x: "?x \<in> set (sales_orders demo_rma)" "so_type ?x = OT_return" "?l \<in> set (so_lines demo_rma)"
    "sol_so ?l = so_id ?x" by (simp_all add: demo_rma_def)
  from s x returns_books_balance [OF s demo_sale_ok wf x] show ?thesis by blast
qed

theorem receive_rma_idempotent_witness:
  "\<exists>d'. receive_rma 20 demo_receive ''bob'' None ''t1'' demo_rma = Inr ((20, Some RMA_RECEIVED, False), d')
     \<and> receive_rma 20 demo_receive ''eve'' None ''t2'' d' = Inr ((20, Some RMA_RECEIVED, True), d')"
proof -
  obtain d' where d': "receive_rma 20 demo_receive ''bob'' None ''t1'' demo_rma
      = Inr ((20, Some RMA_RECEIVED, False), d')" using demo_receive_runs by blast
  have "return_ok demo_rma"
    by (rule create_rma_ok [OF demo_create _ demo_sale_ok]) (simp add: demo_return_lines_def)
  from d' receive_rma_idempotent [OF d' _ _ this, of "''k1''" "''eve''" None "''t2''"] show ?thesis
    by (simp add: demo_receive_def)
qed

text \<open>The key is looked up among all receipts: the receipt of another order, item or quantity
  answers for this call, and nothing is received.\<close>

lemma key_of_any_receipt:
  assumes "find_return so d \<noteq> None" "return_line so (rr_item e) d \<noteq> None"
    "rr_key e = Some (rc_ext r)" "rc_ext r \<noteq> []" "r \<in> set (receipts d)" "distinct (map rc_ext (receipts d))"
  shows "receive_rma so e user ue txn d = Inr ((rc_id r, map_option so_state (find_so so d), True), d)"
proof -
  have "prior_receipt e d = Some r"
    using assms(3,4) find_key [OF assms(6,5)] by (simp add: prior_receipt_def)
  with assms(1,2) show ?thesis by (auto simp: receive_rma_def)
qed

text \<open>A voided return still takes goods back: its header ends RECEIVED and voided.\<close>

lemma voided_return_receives:
  "\<exists>r d1 res d2 x. void_return_order 20 ''admin'' demo_rma = Inr (r, d1)
     \<and> receive_rma 20 demo_receive ''bob'' None ''t1'' d1 = Inr (res, d2)
     \<and> x \<in> set (sales_orders d2) \<and> so_voided x \<noteq> None \<and> so_state x = RMA_RECEIVED \<and> stock d2 7 = 3"
proof -
  obtain r d1 where v: "void_return_order 20 ''admin'' demo_rma = Inr (r, d1)"
    "d1 = snd (projr (void_return_order 20 ''admin'' demo_rma))"
    by (simp add: void_return_order_def find_so_def write_audit_log_def demo_return_defs)
  obtain res d2 where rr: "receive_rma 20 demo_receive ''bob'' None ''t1'' d1 = Inr (res, d2)"
    "\<exists>x \<in> set (sales_orders d2). so_voided x \<noteq> None \<and> so_state x = RMA_RECEIVED" "stock d2 7 = 3"
    using v(2)
    by (simp add: void_return_order_def find_so_def write_audit_log_def receive_rma_def find_return_def
      return_line_def prior_receipt_def find_bin_def post_return_def return_event_def emit_event_def
      insert_return_receipt_def receipt_ext_def report_return_def return_state_def open_return_lines_def
      receive_line_def set_sol_def set_so_state_def find_item_def add_inventory_def find_inv_def
      stock_def total_def demo_return_defs)
  with v(1) show ?thesis by blast
qed

end
