(* ===== verification/SalesOrders.thy ===== *)
theory SalesOrders
  imports Returns
begin

text \<open>
  The order-level operations of \<^verbatim>\<open>api/services/sales_order_service.py\<close>: cancelling an
  order with its backorders, demoting a picked, packed or shipped order, and picking an
  order from the admin console, with the routes of \<^verbatim>\<open>admin_orders.py\<close> around them.
\<close>

section \<open>Cancelling\<close>

datatype cancel_error = CA_not_found | CA_shipped | CA_internal

datatype cancel_source = By_admin | By_inbound

definition source_text :: "cancel_source \<Rightarrow> string" where
  "source_text c = (case c of By_admin \<Rightarrow> ''admin'' | By_inbound \<Rightarrow> ''inbound'')"

text \<open>\<open>int(text)\<close> on ASCII text: white space around, a sign, digits that single underscores may
  separate.\<close>

definition is_digit :: "char \<Rightarrow> bool" where
  "is_digit c \<longleftrightarrow> (of_char c :: nat) \<in> {48..57}"

fun digits_value :: "int \<Rightarrow> bool \<Rightarrow> string \<Rightarrow> int option" where
  "digits_value n p [] = (if p then Some n else None)"
| "digits_value n p (c # cs) =
     (if is_digit c then digits_value (10 * n + (of_char c - 48)) True cs
      else if c = CHR ''_'' \<and> p \<and> cs \<noteq> [] then digits_value n False cs else None)"

definition parse_int :: "string \<Rightarrow> int option" where
  "parse_int s =
     (case strip s of
        [] \<Rightarrow> None
      | c # cs \<Rightarrow> if c = CHR ''-'' then map_option uminus (digits_value 0 False cs)
                   else if c = CHR ''+'' then digits_value 0 False cs
                   else digits_value 0 False (c # cs))"

text \<open>A missing, empty or unreadable setting raises.\<close>

definition get_default_receiving_bin :: "db \<Rightarrow> int option" where
  "get_default_receiving_bin d =
     (case settings d ''default_receiving_bin'' of
        None \<Rightarrow> None | Some v \<Rightarrow> if v = [] then None else parse_int v)"

text \<open>Lines with a reservation give it back bin by bin; the statement names no lot and has
  no floor.\<close>

definition release_bin :: "int \<Rightarrow> task_row \<Rightarrow> db \<Rightarrow> db" where
  "release_bin item t d = d\<lparr>inventory := upd (\<lambda>r. inv_item r = item \<and> inv_bin r = pt_bin t)
     (\<lambda>r. r\<lparr>allocated := allocated r - pt_qty t\<rparr>) (inventory d)\<rparr>"

definition pending_of_line :: "int \<Rightarrow> db \<Rightarrow> task_row list" where
  "pending_of_line l d = filter (\<lambda>t. pt_sol t = Some l \<and> pt_state t = TASK_PENDING) (pick_tasks d)"

definition unwind_line :: "sol_row \<Rightarrow> db \<Rightarrow> db" where
  "unwind_line l d =
     set_sol (Some (sol_id l)) (\<lambda>x. x\<lparr>sol_alloc := 0\<rparr>)
       (fold (release_bin (sol_item l)) (pending_of_line (sol_id l) d) d)"

definition drop_batch_orders :: "int \<Rightarrow> db \<Rightarrow> db" where
  "drop_batch_orders so d = d\<lparr>batch_orders := filter (\<lambda>p. pbo_so p \<noteq> so) (batch_orders d)\<rparr>"

text \<open>A task that a wave breakdown references cannot be deleted.\<close>

definition unwind_allocated :: "int \<Rightarrow> db \<Rightarrow> cancel_error + db" where
  "unwind_allocated so d =
     (let d1 = fold unwind_line (filter (\<lambda>l. sol_so l = so \<and> 0 < sol_alloc l) (so_lines d)) d in
      if \<exists>t \<in> set (pick_tasks d1). pt_so t = Some so \<and> (\<exists>b \<in> set (breakdowns d1). wb_task b = pt_id t)
      then Inl CA_internal
      else Inr (drop_batch_orders so
             (d1\<lparr>pick_tasks := filter (\<lambda>t. pt_so t \<noteq> Some so) (pick_tasks d1)\<rparr>)))"

definition restore_line :: "int \<Rightarrow> int \<Rightarrow> sol_row \<Rightarrow> db \<Rightarrow> db" where
  "restore_line bin wh l d =
     set_sol (Some (sol_id l)) (\<lambda>x. x\<lparr>sol_picked := 0, sol_packed := 0, sol_state := SOL_PENDING\<rparr>)
       (snd (add_inventory (sol_item l) bin wh (sol_picked l) None d))"

definition picked_lines :: "int \<Rightarrow> db \<Rightarrow> sol_row list" where
  "picked_lines so d = filter (\<lambda>l. sol_so l = so \<and> 0 < sol_picked l) (so_lines d)"

definition unwind_picked_or_packed :: "int \<Rightarrow> int \<Rightarrow> db \<Rightarrow> cancel_error + db" where
  "unwind_picked_or_packed so wh d =
     (case get_default_receiving_bin d of
        None \<Rightarrow> Inl CA_internal
      | Some bin \<Rightarrow>
          if picked_lines so d \<noteq> [] \<and> find_bin bin d = None then Inl CA_internal
          else Inr (drop_batch_orders so (fold (restore_line bin wh) (picked_lines so d) d)))"

definition unwind :: "so_row \<Rightarrow> db \<Rightarrow> cancel_error + db" where
  "unwind so d =
     (case so_state so of
        SO_OPEN \<Rightarrow> unwind_allocated (so_id so) d
      | SO_PICKED \<Rightarrow> unwind_picked_or_packed (so_id so) (so_wh so) d
      | SO_PACKED \<Rightarrow> unwind_picked_or_packed (so_id so) (so_wh so) d
      | _ \<Rightarrow> Inr d)"

definition reason_of :: "int \<Rightarrow> db \<Rightarrow> string" where
  "reason_of so d =
     (case find_so so d of
        None \<Rightarrow> ''other''
      | Some x \<Rightarrow> (case so_cancel_reason x of None \<Rightarrow> ''other'' | Some r \<Rightarrow> if r = [] then ''other'' else r))"

text \<open>Backorders report their cancellation inside a request.\<close>

definition report_cancelled :: "so_row \<Rightarrow> string \<Rightarrow> string option \<Rightarrow> db \<Rightarrow> notification list \<times> db" where
  "report_cancelled so user txn d =
     (case txn of
        None \<Rightarrow> ([], d)
      | Some n \<Rightarrow>
          if so_type so \<noteq> OT_backorder then ([], d)
          else
            let p = JObj [(''backorder_so_external_id'', JStr (so_ext so)),
                          (''backorder_so_number'', JStr (so_number so)),
                          (''parent_so_number'', JStr (parent_number so d)),
                          (''warehouse_id'', JInt (so_wh so)),
                          (''cancellation_reason'', JStr (reason_of (so_id so) d)),
                          (''cancelled_by_user_external_id'', jopt JStr (get_user_external_id user d)),
                          (''cancelled_at'', JTime (now d))]
            in ([(''backorder.cancelled'', p, so_wh so)],
                snd (emit_event ''backorder.cancelled'' 1 ''sales_order'' (so_id so) (so_ext so)
                       (so_wh so) n p d)))"

text \<open>The unwind, the header, the audit row and the event of one order.\<close>

definition cancel_body ::
    "so_row \<Rightarrow> cancel_source \<Rightarrow> string \<Rightarrow> string option \<Rightarrow> db \<Rightarrow> cancel_error + (int \<times> notification list \<times> db)" where
  "cancel_body so source user txn d =
     (case unwind so d of
        Inl e \<Rightarrow> Inl e
      | Inr d1 \<Rightarrow>
          let (a, d2) = write_audit_log ''CANCEL'' ''SO'' (so_id so) user (so_wh so)
                (JObj [(''so_number'', JStr (so_number so)), (''pre_status'', JStr (status_text (so_state so))),
                       (''source'', JStr (source_text source))])
                (set_so_state (so_id so) SO_CANCELLED d1);
              (ns, d3) = report_cancelled so user txn d2
          in Inr (a, ns, d3))"

definition open_children :: "int \<Rightarrow> db \<Rightarrow> int list" where
  "open_children so d = map so_id (filter (\<lambda>x. so_parent x = Some so \<and> so_type x = OT_backorder
     \<and> so_state x \<noteq> SO_CANCELLED \<and> so_state x \<noteq> SO_SHIPPED) (sales_orders d))"

definition stamp_reason :: "int \<Rightarrow> string \<Rightarrow> db \<Rightarrow> db" where
  "stamp_reason so r d =
     d\<lparr>sales_orders := upd (\<lambda>x. so_id x = so) (\<lambda>x. x\<lparr>so_cancel_reason := Some r\<rparr>) (sales_orders d)\<rparr>"

record cancel_result =
  cr_pre :: so_status
  cr_number :: string
  cr_audit :: "int option"
  cr_notes :: "notification list"

text \<open>The recursive call on a child: children are backorders, whose own cancel does not
  recurse further.\<close>

definition cancel_child ::
    "cancel_source \<Rightarrow> string \<Rightarrow> string option \<Rightarrow> int \<Rightarrow> db \<Rightarrow> cancel_error + (notification list \<times> db)" where
  "cancel_child source user txn c d =
     (case find_so c d of
        None \<Rightarrow> Inl CA_not_found
      | Some x \<Rightarrow>
          if so_state x = SO_SHIPPED then Inl CA_shipped
          else if so_state x = SO_CANCELLED then Inr ([], d)
          else (case cancel_body x source user txn d of Inl e \<Rightarrow> Inl e | Inr (_, ns, d1) \<Rightarrow> Inr (ns, d1)))"

fun cancel_children ::
    "cancel_source \<Rightarrow> string \<Rightarrow> string option \<Rightarrow> int list \<Rightarrow> db \<Rightarrow> cancel_error + (notification list \<times> db)" where
  "cancel_children source user txn [] d = Inr ([], d)"
| "cancel_children source user txn (c # cs) d =
     (case cancel_child source user txn c (stamp_reason c ''parent_cancelled'' d) of
        Inl e \<Rightarrow> Inl e
      | Inr (ns, d1) \<Rightarrow>
          (case cancel_children source user txn cs d1 of
             Inl e \<Rightarrow> Inl e | Inr (ms, d2) \<Rightarrow> Inr (ns @ ms, d2)))"

definition cancel_sales_order ::
    "int \<Rightarrow> cancel_source \<Rightarrow> string \<Rightarrow> string option \<Rightarrow> db \<Rightarrow> cancel_error + (cancel_result \<times> db)" where
  "cancel_sales_order so source user txn d =
     (case find_so so d of
        None \<Rightarrow> Inl CA_not_found
      | Some x \<Rightarrow>
          if so_state x = SO_SHIPPED then Inl CA_shipped
          else if so_state x = SO_CANCELLED
          then Inr (\<lparr>cr_pre = SO_CANCELLED, cr_number = so_number x, cr_audit = None, cr_notes = []\<rparr>, d)
          else
            (case cancel_body x source user txn d of
               Inl e \<Rightarrow> Inl e
             | Inr (a, ns, d1) \<Rightarrow>
                 (case (if so_type x = OT_backorder then Inr ([], d1)
                        else cancel_children source user txn (open_children so d1) d1) of
                    Inl e \<Rightarrow> Inl e
                  | Inr (ms, d2) \<Rightarrow>
                      Inr (\<lparr>cr_pre = so_state x, cr_number = so_number x, cr_audit = Some a,
                            cr_notes = ns @ ms\<rparr>, d2))))"

section \<open>Reverting a status\<close>

datatype revert_error =
  RV_invalid_status
| RV_not_found
| RV_not_eligible
| RV_cancelled
| RV_not_backward so_status
| RV_task_missing "int list"
| RV_task_wrong_state "int list"
| RV_picked_remaining int

definition status_order :: "so_status \<Rightarrow> nat option" where
  "status_order st = (case st of
     SO_OPEN \<Rightarrow> Some 0 | SO_PICKED \<Rightarrow> Some 1 | SO_PACKED \<Rightarrow> Some 2 | SO_SHIPPED \<Rightarrow> Some 3 | _ \<Rightarrow> None)"

definition revert_target :: "string \<Rightarrow> so_status option" where
  "revert_target s =
     List.find (\<lambda>st. status_text st = s) [SO_OPEN, SO_PICKED, SO_PACKED, SO_SHIPPED]"

text \<open>The selected tasks of the order, in table order, with the checks on them.\<close>

definition selected_tasks :: "int \<Rightarrow> int list \<Rightarrow> db \<Rightarrow> task_row list" where
  "selected_tasks so ids d = filter (\<lambda>t. pt_id t \<in> set ids \<and> pt_so t = Some so) (pick_tasks d)"

definition check_tasks :: "int \<Rightarrow> int list \<Rightarrow> db \<Rightarrow> revert_error option" where
  "check_tasks so ids d =
     (let ts = selected_tasks so ids d;
          missing = filter (\<lambda>i. i \<notin> pt_id ` set ts) (remdups ids);
          wrong = map pt_id (filter (\<lambda>t. pt_state t \<noteq> TASK_PICKED) ts)
      in if missing \<noteq> [] then Some (RV_task_missing missing)
         else if wrong \<noteq> [] then Some (RV_task_wrong_state wrong) else None)"

definition release_picked :: "int \<Rightarrow> task_row \<Rightarrow> db \<Rightarrow> db" where
  "release_picked wh t d =
     (let d1 = (if 0 < pt_picked t
                then snd (add_inventory (pt_item t) (pt_bin t) wh (pt_picked t) None d) else d);
          d2 = set_sol (pt_sol t) (\<lambda>l. l\<lparr>sol_picked := max 0 (sol_picked l - pt_picked t),
                 sol_alloc := max 0 (sol_alloc l - pt_qty t)\<rparr>) d1
      in set_task (pt_id t) (\<lambda>t. t\<lparr>pt_state := TASK_RELEASED\<rparr>) d2)"

definition picked_total :: "int \<Rightarrow> db \<Rightarrow> int" where
  "picked_total so d = total (\<lambda>l. sol_so l = so) sol_picked (so_lines d)"

definition unpack :: "so_row \<Rightarrow> so_status \<Rightarrow> string \<Rightarrow> db \<Rightarrow> db" where
  "unpack so target user d =
     audit ''SO_UNPACKED'' ''SO'' (so_id so) user (so_wh so)
       (JObj [(''from_status'', JStr (status_text (so_state so))), (''to_status'', JStr (status_text target))])
       (d\<lparr>so_lines := upd (\<lambda>l. sol_so l = so_id so \<and> 0 < sol_packed l) (\<lambda>l. l\<lparr>sol_packed := 0\<rparr>) (so_lines d),
          sales_orders := upd (\<lambda>x. so_id x = so_id so) (\<lambda>x. x\<lparr>so_packed_at := None\<rparr>) (sales_orders d)\<rparr>)"

definition unship :: "so_row \<Rightarrow> string \<Rightarrow> db \<Rightarrow> db" where
  "unship so user d =
     audit ''SO_UNSHIPPED'' ''SO'' (so_id so) user (so_wh so)
       (JObj [(''prev_tracking_number'', jopt JStr (so_tracking so)), (''prev_carrier'', jopt JStr (so_carrier so)),
              (''prev_shipped_at'', jopt JTime (so_shipped_at so))])
       (d\<lparr>sales_orders := upd (\<lambda>x. so_id x = so_id so)
            (\<lambda>x. x\<lparr>so_tracking := None, so_carrier := None, so_shipped_at := None\<rparr>) (sales_orders d)\<rparr>)"

definition audit_release :: "so_row \<Rightarrow> string \<Rightarrow> task_row \<Rightarrow> db \<Rightarrow> db" where
  "audit_release so user t d =
     audit ''SO_PICK_RELEASED'' ''SO'' (so_id so) user (so_wh so)
       (JObj [(''pick_task_id'', JInt (pt_id t)), (''so_line_id'', jopt JInt (pt_sol t)),
              (''item_id'', JInt (pt_item t)), (''bin_id'', JInt (pt_bin t)),
              (''quantity'', JInt (pt_picked t))]) d"

record revert_result =
  rv_from :: so_status
  rv_to :: so_status
  rv_released :: "int list"
  rv_unpacked :: bool
  rv_unshipped :: bool

definition need_unship :: "so_status \<Rightarrow> so_status \<Rightarrow> bool" where
  "need_unship cur target \<longleftrightarrow> cur = SO_SHIPPED \<and> target \<noteq> SO_SHIPPED"

definition need_unpack :: "so_status \<Rightarrow> so_status \<Rightarrow> bool" where
  "need_unpack cur target \<longleftrightarrow>
     (cur = SO_PACKED \<or> cur = SO_SHIPPED) \<and> (target = SO_OPEN \<or> target = SO_PICKED)"

text \<open>The header and audit side, after the releases.\<close>

definition finish_revert :: "so_row \<Rightarrow> so_status \<Rightarrow> task_row list \<Rightarrow> string \<Rightarrow> db \<Rightarrow> revert_result \<times> db" where
  "finish_revert so target moved user d =
     (let cur = so_state so;
          d1 = (if need_unpack cur target then unpack so target user d else d);
          d2 = (if need_unship cur target then unship so user d1 else d1);
          d3 = fold (audit_release so user) moved d2;
          d4 = (if target \<noteq> cur
                then audit ''SO_STATUS_REVERTED'' ''SO'' (so_id so) user (so_wh so)
                       (JObj [(''from_status'', JStr (status_text cur)), (''to_status'', JStr (status_text target)),
                              (''released_pick_tasks'', JArr (map (JInt \<circ> pt_id) moved)),
                              (''unpacked'', JBool (need_unpack cur target)),
                              (''unshipped'', JBool (need_unship cur target))])
                       (set_so_state (so_id so) target d3)
                else d3)
      in (\<lparr>rv_from = cur, rv_to = target, rv_released = map pt_id moved,
           rv_unpacked = need_unpack cur target, rv_unshipped = need_unship cur target\<rparr>, d4))"

definition revert_sales_order_status ::
    "int \<Rightarrow> string \<Rightarrow> int list \<Rightarrow> string \<Rightarrow> db \<Rightarrow> revert_error + (revert_result \<times> db)" where
  "revert_sales_order_status so new_status ids user d =
     (case revert_target new_status of
        None \<Rightarrow> Inl RV_invalid_status
      | Some target \<Rightarrow>
      (case find_so so d of
        None \<Rightarrow> Inl RV_not_found
      | Some x \<Rightarrow>
          if \<not> order_type_allows_fulfillment_ops (so_type x) then Inl RV_not_eligible
          else if so_state x = SO_CANCELLED then Inl RV_cancelled
          else if (case status_order (so_state x) of
                     None \<Rightarrow> True | Some c \<Rightarrow> c < the (status_order target))
          then Inl (RV_not_backward (so_state x))
          else
            (case check_tasks so ids d of
               Some e \<Rightarrow> Inl e
             | None \<Rightarrow>
                 let ts = selected_tasks so ids d;
                     d1 = fold (release_picked (so_wh x)) ts d
                 in if target = SO_OPEN \<and> 0 < picked_total so d1
                    then Inl (RV_picked_remaining (picked_total so d1))
                    else Inr (finish_revert x target (filter (\<lambda>t. 0 < pt_picked t) ts) user d1))))"

section \<open>Picking from the admin console\<close>

datatype admin_pick_error =
  AP_not_found
| AP_not_eligible
| AP_not_open so_status
| AP_empty
| AP_line_not_on "int list"
| AP_over_pick int int int
| AP_bin_not_found int
| AP_bin_elsewhere int
| AP_insufficient int int
| AP_internal
| AP_forbidden

record pick_entry =
  pe_line :: int
  pe_bin :: int
  pe_qty :: int

text \<open>The lines of a request in order of first mention, and what it asks of a line.\<close>

definition entry_lines :: "pick_entry list \<Rightarrow> int list" where
  "entry_lines es = rev (remdups (rev (map pe_line es)))"

definition asked :: "int \<Rightarrow> pick_entry list \<Rightarrow> int" where
  "asked l es = total (\<lambda>e. pe_line e = l) pe_qty es"

definition line_of :: "int \<Rightarrow> int \<Rightarrow> db \<Rightarrow> sol_row option" where
  "line_of so l d = List.find (\<lambda>x. sol_id x = l \<and> sol_so x = so) (so_lines d)"

definition over_picked :: "int \<Rightarrow> pick_entry list \<Rightarrow> db \<Rightarrow> int \<Rightarrow> bool" where
  "over_picked so es d l =
     (case line_of so l d of None \<Rightarrow> False | Some x \<Rightarrow> sol_ordered x - sol_picked x < asked l es)"

definition bad_bin :: "so_row \<Rightarrow> db \<Rightarrow> int \<Rightarrow> admin_pick_error option" where
  "bad_bin so d b =
     (case find_bin b d of
        None \<Rightarrow> Some (AP_bin_not_found b)
      | Some r \<Rightarrow> if bin_wh r \<noteq> so_wh so then Some (AP_bin_elsewhere b) else None)"

fun first_some :: "('a \<Rightarrow> 'b option) \<Rightarrow> 'a list \<Rightarrow> 'b option" where
  "first_some f [] = None"
| "first_some f (x # xs) = (case f x of None \<Rightarrow> first_some f xs | Some y \<Rightarrow> Some y)"

definition check_picks :: "so_row \<Rightarrow> pick_entry list \<Rightarrow> db \<Rightarrow> admin_pick_error option" where
  "check_picks so es d =
     (if \<not> order_type_allows_fulfillment_ops (so_type so) then Some AP_not_eligible
      else if so_state so \<noteq> SO_OPEN then Some (AP_not_open (so_state so))
      else if es = [] then Some AP_empty
      else
        let missing = filter (\<lambda>l. line_of (so_id so) l d = None) (entry_lines es) in
        if missing \<noteq> [] then Some (AP_line_not_on missing)
        else
          (case List.find (over_picked (so_id so) es d) (entry_lines es) of
             Some l \<Rightarrow> Some (AP_over_pick l (asked l es)
                 (case line_of (so_id so) l d of None \<Rightarrow> 0 | Some x \<Rightarrow> sol_ordered x - sol_picked x))
           | None \<Rightarrow> first_some (bad_bin so d) (sort (remdups (map pe_bin es)))))"

text \<open>The guarded decrement hits every lot row of the bin that offers enough.\<close>

definition offers :: "int \<Rightarrow> pick_entry \<Rightarrow> inv_row \<Rightarrow> bool" where
  "offers item e r \<longleftrightarrow> inv_item r = item \<and> inv_bin r = pe_bin e \<and> pe_qty e \<le> on_hand r - allocated r"

definition take_available :: "int \<Rightarrow> pick_entry \<Rightarrow> db \<Rightarrow> db option" where
  "take_available item e d =
     (if \<exists>r \<in> set (inventory d). offers item e r
      then Some (d\<lparr>inventory := upd (offers item e)
                     (\<lambda>r. r\<lparr>on_hand := on_hand r - pe_qty e, inv_updated := now d\<rparr>) (inventory d)\<rparr>)
      else None)"

definition bump_line :: "pick_entry \<Rightarrow> db \<Rightarrow> db" where
  "bump_line e = set_sol (Some (pe_line e)) (\<lambda>l. l\<lparr>sol_picked := sol_picked l + pe_qty e,
     sol_alloc := max (sol_alloc l) (sol_picked l + pe_qty e)\<rparr>)"

definition virtual_task :: "int \<Rightarrow> int \<Rightarrow> int \<Rightarrow> int \<Rightarrow> pick_entry \<Rightarrow> string \<Rightarrow> int \<Rightarrow> int \<Rightarrow> task_row" where
  "virtual_task i bid so item e user n t =
     \<lparr>pt_id = i, pt_batch = bid, pt_so = Some so, pt_sol = Some (pe_line e), pt_to = None, pt_tol = None,
      pt_item = item, pt_bin = pe_bin e, pt_qty = pe_qty e, pt_picked = pe_qty e, pt_sequence = n,
      pt_tote = None, pt_state = TASK_PICKED, pt_by = Some user, pt_at = Some t, pt_confirmed = True\<rparr>"

definition virtual_pick ::
    "so_row \<Rightarrow> int \<Rightarrow> string \<Rightarrow> int \<Rightarrow> sol_row \<Rightarrow> pick_entry \<Rightarrow> db \<Rightarrow> admin_pick_error + (int \<times> db)" where
  "virtual_pick so bid user n line e d =
     (case take_available (sol_item line) e d of
        None \<Rightarrow> Inl (AP_insufficient (pe_line e) (pe_bin e))
      | Some d1 \<Rightarrow>
          let d2 = bump_line e d1;
              (i, d3) = nextval Seq_task d2;
              d4 = d3\<lparr>pick_tasks := pick_tasks d3 @
                     [virtual_task i bid (so_id so) (sol_item line) e user n (now d3)]\<rparr>;
              d5 = audit ''PICK'' ''SO'' (so_id so) user (so_wh so)
                (JObj [(''source'', JStr ''admin_virtual''),
                       (''sku'', jopt JStr (map_option item_sku (find_item (sol_item line) d4))),
                       (''quantity_to_pick'', JInt (pe_qty e)), (''quantity_picked'', JInt (pe_qty e)),
                       (''pick_task_id'', JInt i), (''item_id'', JInt (sol_item line)),
                       (''bin_id'', JInt (pe_bin e)), (''batch_id'', JInt bid),
                       (''so_line_id'', JInt (pe_line e))]) d4
          in Inr (i, d5))"

text \<open>\<open>lines\<close> holds the lines as they were read before the first pick.\<close>

fun virtual_picks ::
    "so_row \<Rightarrow> int \<Rightarrow> string \<Rightarrow> (int \<Rightarrow> sol_row option) \<Rightarrow> int \<Rightarrow> pick_entry list \<Rightarrow> db
      \<Rightarrow> admin_pick_error + (int list \<times> db)" where
  "virtual_picks so bid user lines n [] d = Inr ([], d)"
| "virtual_picks so bid user lines n (e # es) d =
     (case lines (pe_line e) of
        None \<Rightarrow> Inl AP_internal
      | Some line \<Rightarrow>
          (case virtual_pick so bid user n line e d of
             Inl x \<Rightarrow> Inl x
           | Inr (i, d1) \<Rightarrow>
               (case virtual_picks so bid user lines (n + 1) es d1 of
                  Inl x \<Rightarrow> Inl x | Inr (is, d2) \<Rightarrow> Inr (i # is, d2))))"

record admin_pick_result =
  ap_batch :: int
  ap_number :: string
  ap_tasks :: "int list"

text \<open>\<open>clock\<close> is the microsecond time stamp of the batch number, which is UNIQUE.\<close>

definition wrap_batch :: "so_row \<Rightarrow> string \<Rightarrow> string \<Rightarrow> db \<Rightarrow> int \<times> db" where
  "wrap_batch so number user d =
     (let (bid, d1) = nextval Seq_batch d in
      (bid, d1\<lparr>pick_batches := pick_batches d1 @
              [\<lparr>pb_id = bid, pb_number = number, pb_wh = so_wh so, pb_state = BATCH_COMPLETED,
                pb_user = user, pb_orders = 0, pb_items = 0, pb_completed = Some (now d1)\<rparr>],
            batch_orders := batch_orders d1 @ [\<lparr>pbo_batch = bid, pbo_so = so_id so, pbo_tote = None\<rparr>]\<rparr>))"

definition record_admin_pick ::
    "int \<Rightarrow> pick_entry list \<Rightarrow> string \<Rightarrow> string \<Rightarrow> db \<Rightarrow> admin_pick_error + (admin_pick_result \<times> db)" where
  "record_admin_pick so es user clock d =
     (case find_so so d of
        None \<Rightarrow> Inl AP_not_found
      | Some x \<Rightarrow>
          (case check_picks x es d of
             Some e \<Rightarrow> Inl e
           | None \<Rightarrow>
               let number = ''ADMIN-PICK-'' @ signed_decimal so @ ''-'' @ clock;
                   (bid, d1) = wrap_batch x number user d
               in if \<exists>b \<in> set (pick_batches d). pb_number b = number then Inl AP_internal
                  else
                    (case virtual_picks x bid user (\<lambda>l. line_of so l d) 1 es d1 of
                       Inl e \<Rightarrow> Inl e
                     | Inr (is, d2) \<Rightarrow> Inr (\<lparr>ap_batch = bid, ap_number = number, ap_tasks = is\<rparr>, d2))))"

text \<open>Unlike the handheld completion the event names the items' own external ids.\<close>

definition maybe_promote_so_to_picked :: "int \<Rightarrow> string \<Rightarrow> string option \<Rightarrow> db \<Rightarrow> bool \<times> db" where
  "maybe_promote_so_to_picked so user txn d =
     (if \<exists>l \<in> set (so_lines d). sol_so l = so \<and> sol_picked l < sol_ordered l then (False, d)
      else
        (case find_so so d of
           None \<Rightarrow> (False, d)
         | Some x \<Rightarrow>
             if so_state x \<noteq> SO_OPEN then (False, d)
             else
               let d1 = d\<lparr>sales_orders := upd (\<lambda>y. so_id y = so)
                          (\<lambda>y. y\<lparr>so_state := SO_PICKED, so_picked_at := Some (now d)\<rparr>) (sales_orders d)\<rparr>
               in case txn of
                    None \<Rightarrow> (True, d1)
                  | Some n \<Rightarrow>
                      (True, snd (emit_event ''pick.confirmed'' 1 ''sales_order'' so (so_ext x) (so_wh x) n
                         (JObj [(''sales_order_external_id'', JStr (so_ext x)),
                                (''lines'', JArr [JObj [(''item_external_id'', JStr (item_ext i)),
                                     (''quantity_picked'', JInt (sol_picked l)),
                                     (''lot_number'', JNull), (''serial_number'', JNull)].
                                   (l, i) \<leftarrow> join_items (sort_key sol_number (order_lines so d1)) d1]),
                                (''completed_by_user_external_id'', jopt JStr (get_user_external_id user d1)),
                                (''completed_at'', JTime (now d1))]) d1))))"

text \<open>The route: administrators, or users with the full-edit override.\<close>

definition admin_pick_sales_order ::
    "session \<Rightarrow> bool \<Rightarrow> int \<Rightarrow> pick_entry list \<Rightarrow> string \<Rightarrow> db
      \<Rightarrow> admin_pick_error + ((admin_pick_result \<times> bool) \<times> db)" where
  "admin_pick_sales_order s override so es clock d =
     (if \<not> s_admin s \<and> \<not> override then Inl AP_forbidden
      else
        (case record_admin_pick so es (s_user s) clock d of
           Inl e \<Rightarrow> Inl e
         | Inr (res, d1) \<Rightarrow>
             let (p, d2) = maybe_promote_so_to_picked so (s_user s) (Some (s_txn s)) d1
             in Inr ((res, p), d2)))"

section \<open>Custody of the goods\<close>

text \<open>Every unit of an item is in a bin or on an order line as picked.\<close>

definition custody :: "db \<Rightarrow> int \<Rightarrow> int" where
  "custody d i = stock d i + total (\<lambda>l. sol_item l = i) sol_picked (so_lines d)"

definition tasks_of :: "int \<Rightarrow> db \<Rightarrow> int" where
  "tasks_of l d = total (\<lambda>t. pt_sol t = Some l \<and> pt_state t = TASK_PICKED) pt_picked (pick_tasks d)"

definition cancelled :: "int \<Rightarrow> db \<Rightarrow> bool" where
  "cancelled so d \<longleftrightarrow> (\<exists>x \<in> set (sales_orders d). so_id x = so \<and> so_state x = SO_CANCELLED)"

text \<open>A picked task names a line of its order that wants its item.\<close>

definition task_refs :: "db \<Rightarrow> bool" where
  "task_refs d \<longleftrightarrow> (\<forall>t \<in> set (pick_tasks d). pt_state t = TASK_PICKED \<and> pt_so t \<noteq> None \<longrightarrow>
     0 \<le> pt_picked t \<and> (\<exists>l \<in> set (so_lines d). pt_sol t = Some (sol_id l) \<and> sol_item l = pt_item t
        \<and> pt_so t = Some (sol_so l)))"

definition task_books :: "db \<Rightarrow> bool" where
  "task_books d \<longleftrightarrow> (\<forall>l \<in> set (so_lines d). \<not> cancelled (sol_so l) d \<longrightarrow> tasks_of (sol_id l) d \<le> sol_picked l)"

text \<open>Unlotted stock, keys, and the references of the tasks.\<close>

definition order_keys :: "db \<Rightarrow> bool" where
  "order_keys d \<longleftrightarrow> inv_wf d \<and> (\<forall>r \<in> set (inventory d). inv_lot r = None)
     \<and> distinct (map sol_id (so_lines d)) \<and> distinct (map pt_id (pick_tasks d))
     \<and> (\<forall>t \<in> set (pick_tasks d). pt_id t < seqs d Seq_task)
     \<and> (\<forall>t \<in> set (pick_tasks d). pt_state t = TASK_PICKED \<longrightarrow> pt_sol t \<noteq> None \<longrightarrow> pt_so t \<noteq> None)
     \<and> (\<forall>l \<in> set (so_lines d). 0 \<le> sol_picked l) \<and> task_refs d"

definition order_ok :: "db \<Rightarrow> bool" where
  "order_ok d \<longleftrightarrow> order_keys d \<and> task_books d"

definition pick_columns :: "sol_row \<Rightarrow> int \<times> int \<times> int \<times> int" where
  "pick_columns l = (sol_id l, sol_so l, sol_item l, sol_picked l)"

lemma total_columns:
  assumes "map c t' = map c t" "\<And>x y. c x = c y \<Longrightarrow> P x = P y \<and> g x = g y"
  shows "total P g t' = total P g t"
  using assms(1)
proof (induction t arbitrary: t')
  case Nil
  then show ?case by simp
next
  case (Cons r t)
  then obtain r' u where t': "t' = r' # u" "c r' = c r" "map c u = map c t" by (cases t') auto
  with Cons.IH [OF t'(3)] assms(2) [OF t'(2)] show ?case by simp
qed

lemma columns_member:
  assumes "map c t' = map c t" "x \<in> set t'"
  shows "\<exists>y \<in> set t. c y = c x"
proof -
  have "c x \<in> set (map c t)" using assms by (metis image_eqI set_map)
  then show ?thesis by auto
qed

text \<open>The books look at the lines through four columns only.\<close>

lemma custody_columns:
  assumes "map pick_columns (so_lines d') = map pick_columns (so_lines d)" "stock d' = stock d"
  shows "custody d' = custody d"
proof
  fix i
  have "total (\<lambda>l. sol_item l = i) sol_picked (so_lines d') = total (\<lambda>l. sol_item l = i) sol_picked (so_lines d)"
    by (rule total_columns [OF assms(1)]) (simp add: pick_columns_def)
  with assms(2) show "custody d' i = custody d i" by (simp add: custody_def)
qed

definition line_keys :: "sol_row \<Rightarrow> int \<times> int \<times> int" where
  "line_keys l = (sol_id l, sol_so l, sol_item l)"

lemma order_keys_cong:
  assumes "order_keys d" "map line_keys (so_lines d') = map line_keys (so_lines d)"
    and "\<And>l. l \<in> set (so_lines d') \<Longrightarrow> 0 \<le> sol_picked l"
    and "distinct (map pt_id (pick_tasks d'))" "\<And>t. t \<in> set (pick_tasks d') \<Longrightarrow> pt_id t < seqs d' Seq_task"
    and "\<And>t. t \<in> set (pick_tasks d') \<Longrightarrow> pt_state t = TASK_PICKED \<Longrightarrow> t \<in> set (pick_tasks d)"
    and "inv_wf d'" "\<forall>r \<in> set (inventory d'). inv_lot r = None"
  shows "order_keys d'"
proof -
  have "map sol_id (so_lines d') = map sol_id (so_lines d)"
    using arg_cong [OF assms(2), of "map fst"] by (simp add: comp_def line_keys_def)
  moreover have "task_refs d'"
    unfolding task_refs_def
  proof (intro ballI impI)
    fix t
    assume t: "t \<in> set (pick_tasks d')" "pt_state t = TASK_PICKED \<and> pt_so t \<noteq> None"
    with assms(1,6) obtain l where l: "l \<in> set (so_lines d)" "pt_sol t = Some (sol_id l)" "sol_item l = pt_item t"
      "pt_so t = Some (sol_so l)" "0 \<le> pt_picked t" unfolding order_keys_def task_refs_def by metis
    from columns_member [OF assms(2) [symmetric] l(1)] obtain k where "k \<in> set (so_lines d')"
      "line_keys k = line_keys l" by blast
    with l show "0 \<le> pt_picked t \<and> (\<exists>l \<in> set (so_lines d'). pt_sol t = Some (sol_id l)
        \<and> sol_item l = pt_item t \<and> pt_so t = Some (sol_so l))"
      by (auto simp: line_keys_def intro!: bexI [of _ k])
  qed
  ultimately show ?thesis using assms(1,3-8) unfolding order_keys_def by simp
qed

lemma pick_columns_keys:
  assumes "map pick_columns (so_lines d') = map pick_columns (so_lines d)"
  shows "map line_keys (so_lines d') = map line_keys (so_lines d)"
    "l \<in> set (so_lines d') \<Longrightarrow> \<exists>k \<in> set (so_lines d). sol_picked k = sol_picked l"
proof -
  show "map line_keys (so_lines d') = map line_keys (so_lines d)"
    using arg_cong [OF assms, of "map (\<lambda>(a, b, c, e). (a, b, c))"] by (simp add: comp_def pick_columns_def line_keys_def [abs_def])
  show "l \<in> set (so_lines d') \<Longrightarrow> \<exists>k \<in> set (so_lines d). sol_picked k = sol_picked l"
    using columns_member [OF assms] by (auto simp: pick_columns_def)
qed

lemma task_books_cong:
  assumes "task_books d" "map pick_columns (so_lines d') = map pick_columns (so_lines d)"
    and "pick_tasks d' = pick_tasks d" "\<And>so. cancelled so d \<Longrightarrow> cancelled so d'"
  shows "task_books d'"
  unfolding task_books_def
proof (intro ballI impI)
  fix l
  assume l: "l \<in> set (so_lines d')" "\<not> cancelled (sol_so l) d'"
  from columns_member [OF assms(2) l(1)] obtain k where k: "k \<in> set (so_lines d)" "pick_columns k = pick_columns l" by blast
  with assms(1,4) l(2) have "tasks_of (sol_id k) d \<le> sol_picked k" by (auto simp: task_books_def pick_columns_def)
  with k(2) assms(3) show "tasks_of (sol_id l) d' \<le> sol_picked l" by (simp add: pick_columns_def tasks_of_def)
qed

text \<open>Operations on other tables, or on other columns.\<close>

lemma order_ok_cong:
  assumes "order_ok d" "map pick_columns (so_lines d') = map pick_columns (so_lines d)"
    and "pick_tasks d' = pick_tasks d" "seqs d' Seq_task = seqs d Seq_task"
    and "inventory d' = inventory d" "seqs d' Seq_inventory = seqs d Seq_inventory"
    and "\<And>so. cancelled so d \<Longrightarrow> cancelled so d'"
  shows "order_ok d'" "custody d' = custody d"
proof -
  have "inv_wf d'" "\<forall>r \<in> set (inventory d'). inv_lot r = None"
    using assms(1) inv_wf_cong [OF assms(5,6)] by (auto simp: order_ok_def order_keys_def assms(5))
  then have "order_keys d'"
    using assms(1,3,4) pick_columns_keys [OF assms(2)]
    by (intro order_keys_cong [of d d']) (auto simp: order_ok_def order_keys_def, metis)
  moreover have "task_books d'"
    by (rule task_books_cong [OF _ assms(2,3,7)]) (use assms(1) in \<open>auto simp: order_ok_def\<close>)
  ultimately show "order_ok d'" by (simp add: order_ok_def)
  show "custody d' = custody d"
    by (rule custody_columns [OF assms(2) stock_cong(3) [OF assms(5)]])
qed

lemma cancelled_upd:
  assumes "sales_orders d' = upd (\<lambda>x. so_id x = i) f (sales_orders d)" "\<And>x. so_id (f x) = so_id x"
    and "\<And>x. so_state x = SO_CANCELLED \<Longrightarrow> so_state (f x) = SO_CANCELLED \<or> \<not> cancelled i d"
  shows "cancelled so d \<Longrightarrow> cancelled so d'"
proof -
  assume "cancelled so d"
  then obtain x where x: "x \<in> set (sales_orders d)" "so_id x = so" "so_state x = SO_CANCELLED"
    by (auto simp: cancelled_def)
  let ?y = "if so_id x = i then f x else x"
  have "?y \<in> set (sales_orders d')" using x(1) by (auto simp: assms(1) set_upd)
  moreover have "so_id ?y = so" using x(2) assms(2) by simp
  moreover have "so_state ?y = SO_CANCELLED" using x assms(3) by (auto simp: cancelled_def)
  ultimately show "cancelled so d'" by (auto simp: cancelled_def)
qed

section \<open>Cancelling conserves custody\<close>

text \<open>Giving reservations back touches no quantity on hand and no picked quantity.\<close>

definition alloc_only :: "db \<Rightarrow> db \<Rightarrow> bool" where
  "alloc_only d d' \<longleftrightarrow>
     map (\<lambda>r. (inv_id r, inv_key r, on_hand r)) (inventory d') = map (\<lambda>r. (inv_id r, inv_key r, on_hand r)) (inventory d)
     \<and> map pick_columns (so_lines d') = map pick_columns (so_lines d)
     \<and> pick_tasks d' = pick_tasks d \<and> breakdowns d' = breakdowns d \<and> seqs d' = seqs d
     \<and> sales_orders d' = sales_orders d"

lemma alloc_only_refl: "alloc_only d d"
  by (simp add: alloc_only_def)

lemma alloc_only_trans: "alloc_only d d1 \<Longrightarrow> alloc_only d1 d2 \<Longrightarrow> alloc_only d d2"
  by (simp add: alloc_only_def)

lemma fold_alloc_only: "(\<And>x d. alloc_only d (f x d)) \<Longrightarrow> alloc_only d (fold f xs d)"
  by (induction xs arbitrary: d) (auto intro: alloc_only_refl alloc_only_trans)

lemma unwind_line_alloc_only: "alloc_only d (unwind_line l d)"
proof -
  have "alloc_only d (release_bin item t d)" for item t d
    by (auto simp: alloc_only_def release_bin_def inv_key_def intro!: map_upd_same)
  then have "alloc_only d (fold (release_bin (sol_item l)) ts d)" for ts by (rule fold_alloc_only)
  then have "alloc_only d (fold (release_bin (sol_item l)) (pending_of_line (sol_id l) d) d)" .
  moreover have "alloc_only d' (set_sol i (\<lambda>x. x\<lparr>sol_alloc := 0\<rparr>) d')" for d' i
    by (auto simp: alloc_only_def set_sol_def pick_columns_def intro!: map_upd_same)
  ultimately show ?thesis unfolding unwind_line_def using alloc_only_trans by blast
qed

lemma alloc_only_stock:
  assumes "alloc_only d d'"
  shows "inv_wf d \<Longrightarrow> inv_wf d'" "stock d' = stock d"
    "\<forall>r \<in> set (inventory d). inv_lot r = None \<Longrightarrow> \<forall>r \<in> set (inventory d'). inv_lot r = None"
proof -
  have cols: "map (\<lambda>r. (inv_id r, inv_key r, on_hand r)) (inventory d') = map (\<lambda>r. (inv_id r, inv_key r, on_hand r)) (inventory d)"
    using assms by (simp add: alloc_only_def)
  have "map inv_id (inventory d') = map inv_id (inventory d)" "map inv_key (inventory d') = map inv_key (inventory d)"
    using arg_cong [OF cols, of "map fst"] arg_cong [OF cols, of "map (fst \<circ> snd)"] by (simp_all add: comp_def)
  then show "inv_wf d \<Longrightarrow> inv_wf d'"
    using assms by (intro good_columns [of d d']) (auto simp: alloc_only_def)
  show "stock d' = stock d"
    unfolding stock_def by (rule ext, rule total_columns [OF cols]) (auto simp: inv_key_def)
  show "\<forall>r \<in> set (inventory d'). inv_lot r = None" if "\<forall>r \<in> set (inventory d). inv_lot r = None"
    using that columns_member [OF cols] by (fastforce simp: inv_key_def)
qed

lemma unwind_allocated_ok:
  assumes "unwind_allocated so d = Inr d'" "order_ok d"
  shows "order_ok d'" "custody d' = custody d" "sales_orders d' = sales_orders d"
    "map pick_columns (so_lines d') = map pick_columns (so_lines d)"
proof -
  let ?d1 = "fold unwind_line (filter (\<lambda>l. sol_so l = so \<and> 0 < sol_alloc l) (so_lines d)) d"
  have a: "alloc_only d ?d1" by (rule fold_alloc_only) (rule unwind_line_alloc_only)
  from assms(1) have d': "d' = drop_batch_orders so (?d1\<lparr>pick_tasks := filter (\<lambda>t. pt_so t \<noteq> Some so) (pick_tasks ?d1)\<rparr>)"
    by (simp add: unwind_allocated_def Let_def split: if_splits)
  have cols: "map pick_columns (so_lines d') = map pick_columns (so_lines d)"
    using a by (simp add: d' drop_batch_orders_def alloc_only_def)
  have tasks: "pick_tasks d' = filter (\<lambda>t. pt_so t \<noteq> Some so) (pick_tasks d)"
    and t: "seqs d' = seqs d" "sales_orders d' = sales_orders d" "inventory d' = inventory ?d1"
    using a by (simp_all add: d' drop_batch_orders_def alloc_only_def)
  have keys: "order_keys d" and books: "task_books d" using assms(2) by (auto simp: order_ok_def)
  have inv: "inv_wf d'" "\<forall>r \<in> set (inventory d'). inv_lot r = None" "stock d' = stock d"
    using alloc_only_stock [OF a] keys inv_wf_cong [OF t(3)] stock_cong(3) [OF t(3)] a t
    by (auto simp: order_keys_def alloc_only_def)
  have "order_keys d'"
  proof (rule order_keys_cong [OF keys pick_columns_keys(1) [OF cols]])
    show "0 \<le> sol_picked l" if "l \<in> set (so_lines d')" for l
      using pick_columns_keys(2) [OF cols that] keys by (auto simp: order_keys_def)
    show "distinct (map pt_id (pick_tasks d'))"
      unfolding tasks by (rule distinct_filter_ids) (use keys in \<open>simp add: order_keys_def\<close>)
    show "pt_id t < seqs d' Seq_task" if "t \<in> set (pick_tasks d')" for t
      using that keys by (simp add: tasks t(1) order_keys_def)
  qed (use inv tasks in simp_all)
  moreover have "task_books d'"
    unfolding task_books_def
  proof (intro ballI impI)
    fix l
    assume l: "l \<in> set (so_lines d')" "\<not> cancelled (sol_so l) d'"
    from columns_member [OF cols l(1)] obtain k where k: "k \<in> set (so_lines d)" "pick_columns k = pick_columns l" by blast
    have "tasks_of (sol_id l) d' \<le> tasks_of (sol_id l) d"
    proof -
      have pos: "0 \<le> pt_picked t" if "t \<in> set (pick_tasks d)" "pt_sol t = Some (sol_id l)" "pt_state t = TASK_PICKED" for t
        using keys that by (auto simp: order_keys_def task_refs_def)
      have shrink: "total P pt_picked (filter Q ts) \<le> total P pt_picked ts"
        if "\<And>t. t \<in> set ts \<Longrightarrow> P t \<Longrightarrow> 0 \<le> pt_picked t" for P Q ts
        using that by (induction ts) force+
      show ?thesis unfolding tasks_of_def tasks by (rule shrink) (use pos in auto)
    qed
    also have "\<dots> \<le> sol_picked l"
      using books k l(2) t(2) by (auto simp: task_books_def pick_columns_def cancelled_def)
    finally show "tasks_of (sol_id l) d' \<le> sol_picked l" .
  qed
  ultimately show "order_ok d'" by (simp add: order_ok_def)
  show "custody d' = custody d" by (rule custody_columns [OF cols inv(3)])
  show "sales_orders d' = sales_orders d" by (rule t(2))
  show "map pick_columns (so_lines d') = map pick_columns (so_lines d)" by (rule cols)
qed

definition put_back :: "sol_row \<Rightarrow> sol_row" where
  "put_back x = x\<lparr>sol_picked := 0, sol_packed := 0, sol_state := SOL_PENDING\<rparr>"

lemma put_back_simps [simp]:
  "sol_id (put_back x) = sol_id x" "sol_so (put_back x) = sol_so x" "sol_item (put_back x) = sol_item x"
  "sol_picked (put_back x) = 0" "line_keys (put_back x) = line_keys x"
  by (simp_all add: put_back_def line_keys_def)

lemma restore_line_tables:
  "so_lines (restore_line bin wh l d) = upd (\<lambda>x. sol_id x = sol_id l) put_back (so_lines d)"
  "pick_tasks (restore_line bin wh l d) = pick_tasks d" "sales_orders (restore_line bin wh l d) = sales_orders d"
  "seqs (restore_line bin wh l d) Seq_task = seqs d Seq_task"
  "inventory (restore_line bin wh l d) = inventory (snd (add_inventory (sol_item l) bin wh (sol_picked l) None d))"
  "seqs (restore_line bin wh l d) Seq_inventory = seqs (snd (add_inventory (sol_item l) bin wh (sol_picked l) None d)) Seq_inventory"
  by (simp_all add: restore_line_def set_sol_def put_back_def [abs_def])

lemma add_inventory_unlotted:
  "\<forall>r \<in> set (inventory d). inv_lot r = None \<Longrightarrow>
     \<forall>r \<in> set (inventory (snd (add_inventory i b w q None d))). inv_lot r = None"
  by (auto simp: add_inventory_def nextval_def set_upd split: option.splits)

lemma order_keys_wf: "order_keys d \<Longrightarrow> inv_wf d"
  by (simp add: order_keys_def)

lemma restore_line_ok:
  assumes "order_keys d" "l \<in> set (so_lines d)"
  shows "order_keys (restore_line bin wh l d)" "custody (restore_line bin wh l d) = custody d"
proof -
  let ?a = "snd (add_inventory (sol_item l) bin wh (sol_picked l) None d)"
  note t = restore_line_tables [of bin wh l d]
  have wf: "inv_wf ?a" by (rule add_inventory_wf [OF order_keys_wf [OF assms(1)]])
  show "order_keys (restore_line bin wh l d)"
  proof (rule order_keys_cong [OF assms(1)])
    show "map line_keys (so_lines (restore_line bin wh l d)) = map line_keys (so_lines d)"
      unfolding t by (rule map_upd_same) simp
    show "0 \<le> sol_picked x" if "x \<in> set (so_lines (restore_line bin wh l d))" for x
      using that assms(1) unfolding t set_upd by (auto simp: order_keys_def)
    show "inv_wf (restore_line bin wh l d)" using wf inv_wf_cong [OF t(5,6)] by simp
    show "\<forall>r \<in> set (inventory (restore_line bin wh l d)). inv_lot r = None"
      unfolding t by (rule add_inventory_unlotted) (use assms(1) in \<open>simp add: order_keys_def\<close>)
  qed (use assms(1) in \<open>simp_all add: t order_keys_def\<close>)
  show "custody (restore_line bin wh l d) = custody d"
  proof
    fix i
    have "total (\<lambda>x. sol_item x = i) sol_picked (upd (\<lambda>x. sol_id x = sol_id l) put_back (so_lines d))
        = total (\<lambda>x. sol_item x = i) sol_picked (so_lines d)
          + (if sol_item l = i then sol_picked (put_back l) - sol_picked l else 0)"
      by (rule total_upd_key) (use assms in \<open>simp_all add: order_keys_def\<close>)
    moreover have "stock (restore_line bin wh l d) i = stock d i + (if i = sol_item l then sol_picked l else 0)"
      using stock_cong(3) [OF t(5)] add_inventory_stock [OF order_keys_wf [OF assms(1)]] by simp
    ultimately show "custody (restore_line bin wh l d) i = custody d i" by (auto simp: custody_def t)
  qed
qed

lemma restore_lines_ok:
  assumes "order_keys d" "distinct (map sol_id ls)" "set ls \<subseteq> set (so_lines d)"
  shows "order_keys (fold (restore_line bin wh) ls d) \<and> custody (fold (restore_line bin wh) ls d) = custody d
    \<and> so_lines (fold (restore_line bin wh) ls d) = upd (\<lambda>x. sol_id x \<in> sol_id ` set ls) put_back (so_lines d)
    \<and> pick_tasks (fold (restore_line bin wh) ls d) = pick_tasks d
    \<and> sales_orders (fold (restore_line bin wh) ls d) = sales_orders d"
  using assms
proof (induction ls arbitrary: d)
  case Nil
  then show ?case by (simp add: upd_id)
next
  case (Cons l ls)
  let ?d = "restore_line bin wh l d"
  have l: "l \<in> set (so_lines d)" using Cons.prems(3) by simp
  have "x \<in> set (so_lines ?d)" if "x \<in> set ls" for x
  proof -
    have "sol_id x \<noteq> sol_id l" using Cons.prems(2) imageI [OF that, of sol_id] by auto
    with that Cons.prems(3) show ?thesis
      using in_upd_other [of x "so_lines d" "\<lambda>x. sol_id x = sol_id l"] by (auto simp: restore_line_tables)
  qed
  then have "set ls \<subseteq> set (so_lines ?d)" by blast
  note ih = Cons.IH [OF restore_line_ok(1) [OF Cons.prems(1) l] _ this]
  have "upd (\<lambda>x. sol_id x \<in> sol_id ` set ls) put_back (upd (\<lambda>x. sol_id x = sol_id l) put_back t)
      = upd (\<lambda>x. sol_id x \<in> sol_id ` set (l # ls)) put_back t" for t
    by (induction t) (auto simp: put_back_def)
  with ih Cons.prems(2) restore_line_ok(2) [OF Cons.prems(1) l, of bin wh] show ?case
    by (simp add: restore_line_tables)
qed

lemma unwind_picked_ok:
  assumes "unwind_picked_or_packed so wh d = Inr d'" "order_keys d"
  shows "order_keys d' \<and> custody d' = custody d \<and> pick_tasks d' = pick_tasks d \<and> sales_orders d' = sales_orders d
    \<and> so_lines d' = upd (\<lambda>x. sol_so x = so \<and> 0 < sol_picked x) put_back (so_lines d)"
proof -
  from assms(1) obtain bin where
    d': "d' = drop_batch_orders so (fold (restore_line bin wh) (picked_lines so d) d)"
    by (auto simp: unwind_picked_or_packed_def split: option.splits if_splits)
  have dist: "distinct (map sol_id (so_lines d))" using assms(2) by (simp add: order_keys_def)
  have sub: "set (picked_lines so d) \<subseteq> set (so_lines d)" by (auto simp: picked_lines_def)
  have "distinct (map sol_id (picked_lines so d))"
    unfolding picked_lines_def by (rule distinct_filter_ids [OF dist])
  note r = restore_lines_ok [OF assms(2) this sub, of bin wh]
  have "upd (\<lambda>x. sol_id x \<in> sol_id ` set (picked_lines so d)) put_back (so_lines d)
      = upd (\<lambda>x. sol_so x = so \<and> 0 < sol_picked x) put_back (so_lines d)"
    unfolding upd_def
    by (rule map_cong [OF refl]) (use key_inj [OF dist] in \<open>auto simp: picked_lines_def image_iff\<close>)
  moreover have "order_keys d' = order_keys (fold (restore_line bin wh) (picked_lines so d) d)"
    "custody d' = custody (fold (restore_line bin wh) (picked_lines so d) d)"
    by (simp_all add: d' drop_batch_orders_def order_keys_def task_refs_def inv_wf_def custody_def stock_def fun_eq_iff)
  ultimately show ?thesis using r by (simp add: d' drop_batch_orders_def)
qed

lemma unwind_ok:
  assumes "unwind so d = Inr d'" "order_ok d"
  shows "order_keys d' \<and> custody d' = custody d \<and> sales_orders d' = sales_orders d
    \<and> (\<forall>l \<in> set (so_lines d'). sol_so l \<noteq> so_id so \<longrightarrow> \<not> cancelled (sol_so l) d
         \<longrightarrow> tasks_of (sol_id l) d' \<le> sol_picked l)
    \<and> ((so_state so = SO_PICKED \<or> so_state so = SO_PACKED) \<longrightarrow>
         (\<forall>l \<in> set (so_lines d'). sol_so l = so_id so \<longrightarrow> sol_picked l = 0))"
proof -
  have keys: "order_keys d" and books: "task_books d" using assms(2) by (auto simp: order_ok_def)
  consider "so_state so = SO_OPEN" | "so_state so = SO_PICKED \<or> so_state so = SO_PACKED"
    | "so_state so \<noteq> SO_OPEN" "so_state so \<noteq> SO_PICKED" "so_state so \<noteq> SO_PACKED" by blast
  then show ?thesis
  proof cases
    case 1
    with assms(1) have "unwind_allocated (so_id so) d = Inr d'" by (simp add: unwind_def)
    note u = unwind_allocated_ok [OF this assms(2)]
    have "cancelled i d' = cancelled i d" for i using u(3) by (simp add: cancelled_def)
    with u 1 show ?thesis by (auto simp: order_ok_def task_books_def)
  next
    case 2
    with assms(1) have "unwind_picked_or_packed (so_id so) (so_wh so) d = Inr d'" by (auto simp: unwind_def)
    note u = unwind_picked_ok [OF this keys]
    have "tasks_of (sol_id l) d' \<le> sol_picked l"
      if "l \<in> set (so_lines d')" "sol_so l \<noteq> so_id so" "\<not> cancelled (sol_so l) d" for l
      using that u books by (auto simp: set_upd task_books_def tasks_of_def split: if_splits)
    moreover have "sol_picked l = 0" if "l \<in> set (so_lines d')" "sol_so l = so_id so" for l
      using that u keys by (auto simp: set_upd order_keys_def split: if_splits)
    ultimately show ?thesis using u by blast
  next
    case 3
    with assms(1) have "d' = d" by (auto simp: unwind_def split: so_status.splits)
    with 3 keys books show ?thesis by (auto simp: task_books_def)
  qed
qed

lemma report_cancelled_frame [simp]:
  "sales_orders (snd (report_cancelled so user txn d)) = sales_orders d"
  "so_lines (snd (report_cancelled so user txn d)) = so_lines d"
  "pick_tasks (snd (report_cancelled so user txn d)) = pick_tasks d"
  "inventory (snd (report_cancelled so user txn d)) = inventory d"
  "seqs (snd (report_cancelled so user txn d)) Seq_task = seqs d Seq_task"
  "seqs (snd (report_cancelled so user txn d)) Seq_inventory = seqs d Seq_inventory"
  by (simp_all add: report_cancelled_def Let_def split: option.splits)

lemma cancel_body_ok:
  assumes "cancel_body so source user txn d = Inr (a, ns, d')" "order_ok d" "so \<in> set (sales_orders d)"
  shows "order_ok d'" "custody d' = custody d"
    "sales_orders d' = upd (\<lambda>x. so_id x = so_id so) (\<lambda>x. x\<lparr>so_state := SO_CANCELLED\<rparr>) (sales_orders d)"
    "(so_state so = SO_PICKED \<or> so_state so = SO_PACKED) \<Longrightarrow>
       \<forall>l \<in> set (so_lines d'). sol_so l = so_id so \<longrightarrow> sol_picked l = 0"
proof -
  from assms(1) obtain d1 where u: "unwind so d = Inr d1"
    by (auto simp: cancel_body_def split: sum.splits)
  note k = unwind_ok [OF u assms(2)]
  from assms(1) u obtain js where "report_cancelled so user txn
      (audit ''CANCEL'' ''SO'' (so_id so) user (so_wh so) js (set_so_state (so_id so) SO_CANCELLED d1)) = (ns, d')"
    by (auto simp: cancel_body_def split_beta Let_def)
  then have d': "d' = snd (report_cancelled so user txn
      (audit ''CANCEL'' ''SO'' (so_id so) user (so_wh so) js (set_so_state (so_id so) SO_CANCELLED d1)))"
    by simp
  then have t: "sales_orders d' = sales_orders (set_so_state (so_id so) SO_CANCELLED d1)"
    "so_lines d' = so_lines d1" "pick_tasks d' = pick_tasks d1" "inventory d' = inventory d1"
    "seqs d' Seq_task = seqs d1 Seq_task" "seqs d' Seq_inventory = seqs d1 Seq_inventory"
    by (simp_all add: set_so_state_def)
  show sos: "sales_orders d' = upd (\<lambda>x. so_id x = so_id so) (\<lambda>x. x\<lparr>so_state := SO_CANCELLED\<rparr>) (sales_orders d)"
    using k t(1) by (simp add: set_so_state_def)
  have mono: "cancelled i d \<Longrightarrow> cancelled i d'" for i
    by (rule cancelled_upd [OF sos]) simp_all
  have self: "cancelled (so_id so) d'"
    unfolding cancelled_def sos
    by (rule bexI [of _ "so\<lparr>so_state := SO_CANCELLED\<rparr>"]) (use assms(3) in \<open>auto simp: set_upd\<close>)
  have "order_keys d'"
    using k t inv_wf_cong [OF t(4,6)] by (simp add: order_keys_def task_refs_def)
  moreover have "task_books d'"
    using k self mono t by (auto simp: task_books_def tasks_of_def)
  ultimately show "order_ok d'" by (simp add: order_ok_def)
  show "custody d' = custody d"
    using k t stock_cong(3) [OF t(4)] by (simp add: custody_def fun_eq_iff)
  show "\<forall>l \<in> set (so_lines d'). sol_so l = so_id so \<longrightarrow> sol_picked l = 0"
    if "so_state so = SO_PICKED \<or> so_state so = SO_PACKED"
    using that k t by simp
qed

lemma stamp_reason_ok:
  assumes "order_ok d"
  shows "order_ok (stamp_reason c r d)" "custody (stamp_reason c r d) = custody d"
proof -
  have "cancelled so d \<Longrightarrow> cancelled so (stamp_reason c r d)" for so
    by (rule cancelled_upd [where f = "\<lambda>x. x\<lparr>so_cancel_reason := Some r\<rparr>"]) (simp_all add: stamp_reason_def)
  from order_ok_cong [OF assms _ _ _ _ _ this] show "order_ok (stamp_reason c r d)"
    "custody (stamp_reason c r d) = custody d" by (simp_all add: stamp_reason_def)
qed

lemma cancel_child_ok:
  assumes "cancel_child source user txn c d = Inr (ns, d')" "order_ok d"
  shows "order_ok d' \<and> custody d' = custody d \<and> map so_id (sales_orders d') = map so_id (sales_orders d)"
proof -
  from assms(1) obtain x where x: "find_so c d = Some x" "so_state x \<noteq> SO_SHIPPED"
    by (auto simp: cancel_child_def split: option.splits if_splits)
  show ?thesis
  proof (cases "so_state x = SO_CANCELLED")
    case True
    with assms x show ?thesis by (simp add: cancel_child_def)
  next
    case False
    with assms(1) x obtain a where b: "cancel_body x source user txn d = Inr (a, ns, d')"
      by (auto simp: cancel_child_def split: sum.splits)
    have "x \<in> set (sales_orders d)" using find_so_Some [OF x(1)] by simp
    from cancel_body_ok(1-3) [OF b assms(2) this] show ?thesis by (simp add: map_upd_same)
  qed
qed

lemma cancel_children_ok:
  "cancel_children source user txn cs d = Inr (ns, d') \<Longrightarrow> order_ok d \<Longrightarrow>
     order_ok d' \<and> custody d' = custody d \<and> map so_id (sales_orders d') = map so_id (sales_orders d)"
proof (induction cs arbitrary: d ns)
  case Nil
  then show ?case by simp
next
  case (Cons c cs)
  let ?s = "stamp_reason c ''parent_cancelled'' d"
  from Cons.prems(1) obtain m1 d1 m2 where c: "cancel_child source user txn c ?s = Inr (m1, d1)"
    and cs: "cancel_children source user txn cs d1 = Inr (m2, d')" by (auto split: sum.splits)
  note s = stamp_reason_ok [OF Cons.prems(2), of c "''parent_cancelled''"]
  have "map so_id (sales_orders ?s) = map so_id (sales_orders d)" by (simp add: stamp_reason_def map_upd_same)
  with cancel_child_ok [OF c s(1)] Cons.IH [OF cs] s(2) show ?case by simp
qed

lemma cancel_ok:
  assumes "cancel_sales_order so source user txn d = Inr (r, d')" "order_ok d"
  shows "order_ok d' \<and> custody d' = custody d \<and> map so_id (sales_orders d') = map so_id (sales_orders d)"
proof -
  from assms(1) obtain x where x: "find_so so d = Some x" "so_state x \<noteq> SO_SHIPPED"
    by (auto simp: cancel_sales_order_def split: option.splits if_splits)
  show ?thesis
  proof (cases "so_state x = SO_CANCELLED")
    case True
    with assms x show ?thesis by (simp add: cancel_sales_order_def)
  next
    case False
    with assms(1) x obtain a ns d1 ms where b: "cancel_body x source user txn d = Inr (a, ns, d1)"
      and ch: "(if so_type x = OT_backorder then Inr ([], d1)
                else cancel_children source user txn (open_children so d1) d1) = Inr (ms, d')"
      by (auto simp: cancel_sales_order_def split: sum.splits)
    have mem: "x \<in> set (sales_orders d)" using find_so_Some [OF x(1)] by simp
    note k = cancel_body_ok(1-3) [OF b assms(2) mem]
    have ids: "map so_id (sales_orders d1) = map so_id (sales_orders d)" by (simp add: k(3) map_upd_same)
    show ?thesis
    proof (cases "so_type x = OT_backorder")
      case True
      with ch k ids show ?thesis by simp
    next
      case False
      with ch have "cancel_children source user txn (open_children so d1) d1 = Inr (ms, d')" by simp
      from cancel_children_ok [OF this k(1)] k(2) ids show ?thesis by simp
    qed
  qed
qed

section \<open>Releasing picked tasks conserves custody\<close>

lemma tasks_of_alt:
  "tasks_of l d = total (\<lambda>t. pt_sol t = Some l) (\<lambda>t. if pt_state t = TASK_PICKED then pt_picked t else 0) (pick_tasks d)"
proof -
  have "total (\<lambda>t. pt_sol t = Some l \<and> pt_state t = TASK_PICKED) pt_picked ts
      = total (\<lambda>t. pt_sol t = Some l) (\<lambda>t. if pt_state t = TASK_PICKED then pt_picked t else 0) ts" for ts
    by (induction ts) auto
  then show ?thesis by (simp add: tasks_of_def)
qed

definition give_back :: "task_row \<Rightarrow> sol_row \<Rightarrow> sol_row" where
  "give_back t x = x\<lparr>sol_picked := max 0 (sol_picked x - pt_picked t), sol_alloc := max 0 (sol_alloc x - pt_qty t)\<rparr>"

lemma give_back_simps [simp]:
  "sol_id (give_back t x) = sol_id x" "sol_so (give_back t x) = sol_so x" "sol_item (give_back t x) = sol_item x"
  "sol_picked (give_back t x) = max 0 (sol_picked x - pt_picked t)" "line_keys (give_back t x) = line_keys x"
  by (simp_all add: give_back_def line_keys_def)

definition stock_back :: "int \<Rightarrow> task_row \<Rightarrow> db \<Rightarrow> db" where
  "stock_back wh t d =
     (if 0 < pt_picked t then snd (add_inventory (pt_item t) (pt_bin t) wh (pt_picked t) None d) else d)"

lemma stock_back_ok:
  assumes "inv_wf d" "0 \<le> pt_picked t"
  shows "inv_wf (stock_back wh t d)"
    "stock (stock_back wh t d) i = stock d i + (if i = pt_item t then pt_picked t else 0)"
    "\<forall>r \<in> set (inventory d). inv_lot r = None \<Longrightarrow> \<forall>r \<in> set (inventory (stock_back wh t d)). inv_lot r = None"
  using assms add_inventory_wf add_inventory_stock add_inventory_unlotted
  by (auto simp: stock_back_def)

lemma release_picked_tables:
  "so_lines (release_picked wh t d) = upd (\<lambda>x. Some (sol_id x) = pt_sol t) (give_back t) (so_lines d)"
  "pick_tasks (release_picked wh t d) = upd (\<lambda>x. pt_id x = pt_id t) (\<lambda>x. x\<lparr>pt_state := TASK_RELEASED\<rparr>) (pick_tasks d)"
  "sales_orders (release_picked wh t d) = sales_orders d"
  "seqs (release_picked wh t d) Seq_task = seqs d Seq_task"
  "inventory (release_picked wh t d) = inventory (stock_back wh t d)"
  "seqs (release_picked wh t d) Seq_inventory = seqs (stock_back wh t d) Seq_inventory"
  by (simp_all add: release_picked_def set_sol_def set_task_def give_back_def [abs_def] stock_back_def Let_def)

lemma release_picked_ok:
  assumes ok: "order_ok d" and t: "t \<in> set (pick_tasks d)" "pt_state t = TASK_PICKED" "pt_so t = Some so"
    and live: "\<not> cancelled so d"
  shows "order_ok (release_picked wh t d)" "custody (release_picked wh t d) = custody d"
proof -
  let ?d = "release_picked wh t d"
  note tab = release_picked_tables [of wh t d]
  have keys: "order_keys d" and books: "task_books d" using ok by (auto simp: order_ok_def)
  from keys t obtain l where l: "l \<in> set (so_lines d)" "pt_sol t = Some (sol_id l)" "sol_item l = pt_item t"
    "sol_so l = so" and q: "0 \<le> pt_picked t"
    unfolding order_keys_def task_refs_def by fastforce
  have lines: "so_lines ?d = upd (\<lambda>x. sol_id x = sol_id l) (give_back t) (so_lines d)"
    unfolding tab l(2) by simp
  have dist: "distinct (map sol_id (so_lines d))" "distinct (map pt_id (pick_tasks d))"
    using keys by (auto simp: order_keys_def)
  have pos: "0 \<le> pt_picked x" if "x \<in> set (pick_tasks d)" "pt_sol x = Some (sol_id l)" "pt_state x = TASK_PICKED" for x
    using keys that unfolding order_keys_def task_refs_def by blast
  have "pt_picked t \<le> tasks_of (sol_id l) d"
    unfolding tasks_of_def by (rule total_ge_member [OF t(1)]) (use t(2) l(2) pos in auto)
  also have books_l: "tasks_of (sol_id l) d \<le> sol_picked l"
    using books l(1,4) live by (auto simp: task_books_def)
  finally have enough: "pt_picked t \<le> sol_picked l" .
  have left: "tasks_of k ?d = tasks_of k d - (if k = sol_id l then pt_picked t else 0)" for k
    unfolding tasks_of_alt tab
    using total_upd_key [OF dist(2) t(1), of "\<lambda>t. pt_sol t = Some k" "\<lambda>x. x\<lparr>pt_state := TASK_RELEASED\<rparr>"
        "\<lambda>t. if pt_state t = TASK_PICKED then pt_picked t else 0"] t(2) l(2)
    by auto
  note s = stock_back_ok [OF order_keys_wf [OF keys] q, of wh]
  have "order_keys ?d"
  proof (rule order_keys_cong [OF keys])
    show "map line_keys (so_lines ?d) = map line_keys (so_lines d)"
      unfolding lines by (rule map_upd_same) simp
    show "0 \<le> sol_picked x" if "x \<in> set (so_lines ?d)" for x
      using that keys unfolding lines set_upd by (auto simp: order_keys_def)
    show "distinct (map pt_id (pick_tasks ?d))" using dist(2) by (simp add: tab map_upd_same)
    show "pt_id x < seqs ?d Seq_task" if "x \<in> set (pick_tasks ?d)" for x
      using that keys unfolding tab set_upd by (auto simp: order_keys_def)
    show "x \<in> set (pick_tasks d)" if "x \<in> set (pick_tasks ?d)" "pt_state x = TASK_PICKED" for x
      using that unfolding tab set_upd by (auto split: if_splits)
    show "inv_wf ?d" using s(1) inv_wf_cong [OF tab(5,6)] by simp
    show "\<forall>r \<in> set (inventory ?d). inv_lot r = None"
      unfolding tab by (rule s(3)) (use keys in \<open>simp add: order_keys_def\<close>)
  qed
  moreover have "task_books ?d"
    unfolding task_books_def
  proof (intro ballI impI)
    fix x
    assume x: "x \<in> set (so_lines ?d)" "\<not> cancelled (sol_so x) ?d"
    then obtain y where y: "y \<in> set (so_lines d)" "x = (if sol_id y = sol_id l then give_back t y else y)"
      by (auto simp: lines set_upd)
    have "sol_so y = sol_so x" "sol_id y = sol_id x" using y(2) by (auto split: if_splits)
    with x(2) y(1) books have b: "tasks_of (sol_id y) d \<le> sol_picked y"
      by (auto simp: task_books_def cancelled_def tab)
    then show "tasks_of (sol_id x) ?d \<le> sol_picked x"
      unfolding left using y(2) by (auto split: if_splits)
  qed
  ultimately show "order_ok ?d" by (simp add: order_ok_def)
  show "custody ?d = custody d"
  proof
    fix i
    have "total (\<lambda>x. sol_item x = i) sol_picked (so_lines ?d) = total (\<lambda>x. sol_item x = i) sol_picked (so_lines d)
        + (if sol_item l = i then sol_picked (give_back t l) - sol_picked l else 0)"
      unfolding lines by (rule total_upd_key [OF dist(1) l(1)]) simp
    moreover have "stock ?d i = stock d i + (if i = pt_item t then pt_picked t else 0)"
      using stock_cong(3) [OF tab(5)] s(2) by simp
    ultimately show "custody ?d i = custody d i" using enough l(3) by (auto simp: custody_def)
  qed
qed

lemma release_all_ok:
  assumes "order_ok d" "set ts \<subseteq> set (pick_tasks d)" "distinct (map pt_id ts)"
    and "\<And>t. t \<in> set ts \<Longrightarrow> pt_state t = TASK_PICKED \<and> pt_so t = Some so" "\<not> cancelled so d"
  shows "order_ok (fold (release_picked wh) ts d) \<and> custody (fold (release_picked wh) ts d) = custody d
    \<and> sales_orders (fold (release_picked wh) ts d) = sales_orders d"
  using assms
proof (induction ts arbitrary: d)
  case Nil
  then show ?case by simp
next
  case (Cons t ts)
  let ?d = "release_picked wh t d"
  have t: "t \<in> set (pick_tasks d)" "pt_state t = TASK_PICKED" "pt_so t = Some so"
    using Cons.prems by simp_all
  note r = release_picked_ok [OF Cons.prems(1) t Cons.prems(5), of wh]
  have "x \<in> set (pick_tasks ?d)" if "x \<in> set ts" for x
  proof -
    have "pt_id x \<noteq> pt_id t" using Cons.prems(3) imageI [OF that, of pt_id] by auto
    moreover have "x \<in> set (pick_tasks d)" using Cons.prems(2) that by auto
    ultimately show ?thesis unfolding release_picked_tables by (intro in_upd_other)
  qed
  then have "set ts \<subseteq> set (pick_tasks ?d)" by blast
  note ih = Cons.IH [OF r(1) this]
  have "\<not> cancelled so ?d" using Cons.prems(5) by (simp add: cancelled_def release_picked_tables)
  with ih Cons.prems(3,4) r(2) show ?case by (simp add: release_picked_tables)
qed

lemma check_tasks_None:
  assumes "check_tasks so ids d = None" "t \<in> set (selected_tasks so ids d)"
  shows "pt_state t = TASK_PICKED" "pt_so t = Some so" "t \<in> set (pick_tasks d)"
  using assms by (auto simp: check_tasks_def Let_def filter_empty_conv selected_tasks_def split: if_splits)

lemma audit_releases_frame [simp]:
  "so_lines (fold (audit_release so user) ms d) = so_lines d"
  "pick_tasks (fold (audit_release so user) ms d) = pick_tasks d"
  "inventory (fold (audit_release so user) ms d) = inventory d"
  "sales_orders (fold (audit_release so user) ms d) = sales_orders d"
  "seqs (fold (audit_release so user) ms d) Seq_task = seqs d Seq_task"
  "seqs (fold (audit_release so user) ms d) Seq_inventory = seqs d Seq_inventory"
  by (induction ms arbitrary: d; simp add: audit_release_def)+

lemma finish_revert_tables:
  "map pick_columns (so_lines (snd (finish_revert so target moved user d))) = map pick_columns (so_lines d)"
  "pick_tasks (snd (finish_revert so target moved user d)) = pick_tasks d"
  "inventory (snd (finish_revert so target moved user d)) = inventory d"
  "seqs (snd (finish_revert so target moved user d)) Seq_task = seqs d Seq_task"
  "seqs (snd (finish_revert so target moved user d)) Seq_inventory = seqs d Seq_inventory"
  "map so_id (sales_orders (snd (finish_revert so target moved user d))) = map so_id (sales_orders d)"
  "cancelled i d \<Longrightarrow> \<not> cancelled (so_id so) d \<Longrightarrow> cancelled i (snd (finish_revert so target moved user d))"
proof -
  have cols: "map pick_columns (upd (\<lambda>l. sol_so l = i \<and> 0 < sol_packed l) (\<lambda>l. l\<lparr>sol_packed := 0\<rparr>) t) = map pick_columns t" for i t
    by (rule map_upd_same) (simp add: pick_columns_def)
  show "map pick_columns (so_lines (snd (finish_revert so target moved user d))) = map pick_columns (so_lines d)"
    "pick_tasks (snd (finish_revert so target moved user d)) = pick_tasks d"
    "inventory (snd (finish_revert so target moved user d)) = inventory d"
    "seqs (snd (finish_revert so target moved user d)) Seq_task = seqs d Seq_task"
    "seqs (snd (finish_revert so target moved user d)) Seq_inventory = seqs d Seq_inventory"
    by (simp_all add: finish_revert_def Let_def set_so_state_def unpack_def unship_def cols)
  let ?r = "snd (finish_revert so target moved user d)"
  obtain f where f: "sales_orders ?r = upd (\<lambda>x. so_id x = so_id so) f (sales_orders d)" "\<And>x. so_id (f x) = so_id x"
  proof (rule that)
    let ?p = "\<lambda>x. if need_unpack (so_state so) target then x\<lparr>so_packed_at := None\<rparr> else x"
    let ?q = "\<lambda>x. if need_unship (so_state so) target
      then x\<lparr>so_tracking := None, so_carrier := None, so_shipped_at := None\<rparr> else x"
    let ?h = "\<lambda>x. if target \<noteq> so_state so then x\<lparr>so_state := target\<rparr> else x"
    have twice: "upd P g (upd P h t) = upd P (\<lambda>x. g (h x)) t" if "\<And>x. P (h x) = P x" for P g h and t :: "so_row list"
      using that by (induction t) auto
    have same: "upd P (\<lambda>x. x) t = t" for P and t :: "so_row list"
      by (simp add: upd_def)
    show "sales_orders ?r = upd (\<lambda>x. so_id x = so_id so) (\<lambda>x. ?h (?q (?p x))) (sales_orders d)"
      by (simp add: finish_revert_def Let_def set_so_state_def unpack_def unship_def twice same)
    show "so_id (?h (?q (?p x))) = so_id x" for x by simp
  qed
  show "map so_id (sales_orders ?r) = map so_id (sales_orders d)"
    unfolding f(1) by (rule map_upd_same) (rule f(2))
  show "cancelled i ?r" if "cancelled i d" "\<not> cancelled (so_id so) d"
    by (rule cancelled_upd [OF f _ that(1)]) (use that(2) in simp)
qed

lemma revert_ok:
  assumes "revert_sales_order_status so st ids user d = Inr (r, d')" "order_ok d"
    and "distinct (map so_id (sales_orders d))"
  shows "order_ok d' \<and> custody d' = custody d \<and> map so_id (sales_orders d') = map so_id (sales_orders d)"
proof -
  from assms(1) obtain target where target: "revert_target st = Some target"
    by (auto simp: revert_sales_order_status_def split: option.splits)
  from assms(1) target obtain x where x: "find_so so d = Some x"
    by (auto simp: revert_sales_order_status_def split: option.splits)
  let ?ts = "selected_tasks so ids d"
  let ?d1 = "fold (release_picked (so_wh x)) ?ts d"
  from assms(1) target x have st: "so_state x \<noteq> SO_CANCELLED" and c: "check_tasks so ids d = None"
    and d': "d' = snd (finish_revert x target (filter (\<lambda>t. 0 < pt_picked t) ?ts) user ?d1)"
    by (auto simp: revert_sales_order_status_def Let_def split: if_splits option.splits)
  have id: "x \<in> set (sales_orders d)" "so_id x = so" using find_so_Some [OF x] by auto
  have live: "\<not> cancelled so d"
    using key_inj [OF assms(3) _ id(1)] st id(2) by (auto simp: cancelled_def)
  have "distinct (map pt_id ?ts)"
    unfolding selected_tasks_def
    by (rule distinct_filter_ids) (use assms(2) in \<open>simp add: order_ok_def order_keys_def\<close>)
  then have r: "order_ok ?d1 \<and> custody ?d1 = custody d \<and> sales_orders ?d1 = sales_orders d"
    by (intro release_all_ok [OF assms(2) _ _ _ live]) (use check_tasks_None [OF c] in auto)
  have live1: "\<not> cancelled (so_id x) ?d1" using live r id(2) by (simp add: cancelled_def)
  note f = finish_revert_tables [where so = x and target = target and user = user and d = ?d1
      and moved = "filter (\<lambda>t. 0 < pt_picked t) ?ts"]
  have "order_ok d'" "custody d' = custody ?d1"
    unfolding d' by (rule order_ok_cong [of ?d1]; use r f live1 in simp)+
  with r f(6) show ?thesis by (simp add: d')
qed

section \<open>Admin picks conserve custody\<close>

lemma upd_cong: "(\<And>x. x \<in> set t \<Longrightarrow> P x = Q x) \<Longrightarrow> upd P f t = upd Q f t"
  by (induction t) auto

definition count_pick :: "pick_entry \<Rightarrow> sol_row \<Rightarrow> sol_row" where
  "count_pick e x = x\<lparr>sol_picked := sol_picked x + pe_qty e, sol_alloc := max (sol_alloc x) (sol_picked x + pe_qty e)\<rparr>"

lemma count_pick_simps [simp]:
  "sol_id (count_pick e x) = sol_id x" "sol_so (count_pick e x) = sol_so x" "sol_item (count_pick e x) = sol_item x"
  "sol_picked (count_pick e x) = sol_picked x + pe_qty e" "line_keys (count_pick e x) = line_keys x"
  "sol_ordered (count_pick e x) = sol_ordered x"
  by (simp_all add: count_pick_def line_keys_def)

lemma virtual_pick_Inr:
  assumes "virtual_pick so bid user n line e d = Inr (i, d')"
  shows "so_lines d' = upd (\<lambda>x. sol_id x = pe_line e) (count_pick e) (so_lines d)"
    "pick_tasks d' = pick_tasks d @ [virtual_task (seqs d Seq_task) bid (so_id so) (sol_item line) e user n (now d)]"
    "i = seqs d Seq_task" "seqs d' Seq_task = seqs d Seq_task + 1" "sales_orders d' = sales_orders d"
    "inventory d' = upd (offers (sol_item line) e) (\<lambda>r. r\<lparr>on_hand := on_hand r - pe_qty e, inv_updated := now d\<rparr>) (inventory d)"
    "seqs d' Seq_inventory = seqs d Seq_inventory" "\<exists>r \<in> set (inventory d). offers (sol_item line) e r"
  using assms
  by (auto simp: virtual_pick_def take_available_def bump_line_def set_sol_def count_pick_def [abs_def] Let_def split_beta
      split: option.splits if_splits)

text \<open>On unlotted stock one row of the bin is hit.\<close>

lemma take_unlotted:
  assumes "order_keys d" "\<exists>r \<in> set (inventory d). offers item e r"
    and "inventory d' = upd (offers item e) (\<lambda>r. r\<lparr>on_hand := on_hand r - pe_qty e, inv_updated := now d\<rparr>) (inventory d)"
    and "seqs d' Seq_inventory = seqs d Seq_inventory"
  shows "inv_wf d'" "stock d' i = stock d i - (if i = item then pe_qty e else 0)"
    "\<forall>r \<in> set (inventory d'). inv_lot r = None"
proof -
  let ?f = "\<lambda>r. r\<lparr>on_hand := on_hand r - pe_qty e, inv_updated := now d\<rparr>"
  from assms(2) obtain r where r: "r \<in> set (inventory d)" "offers item e r" by blast
  have wf: "inv_wf d" and lots: "\<forall>r \<in> set (inventory d). inv_lot r = None"
    using assms(1) by (auto simp: order_keys_def)
  have one: "offers item e x = (inv_id x = inv_id r)" if "x \<in> set (inventory d)" for x
  proof
    assume "offers item e x"
    with r that lots have "inv_key x = inv_key r" by (auto simp: offers_def inv_key_def)
    with wf that r(1) have "x = r" unfolding inv_wf_def by (metis key_inj)
    then show "inv_id x = inv_id r" by simp
  next
    assume "inv_id x = inv_id r"
    with wf that r(1) have "x = r" unfolding inv_wf_def by (metis key_inj)
    with r(2) show "offers item e x" by simp
  qed
  have inv: "inventory d' = upd (\<lambda>x. inv_id x = inv_id r) ?f (inventory d)"
    unfolding assms(3) by (rule upd_cong) (rule one)
  have "stock d' = stock (d\<lparr>inventory := upd (\<lambda>x. inv_id x = inv_id r) ?f (inventory d)\<rparr>)"
    by (rule stock_cong) (simp add: inv)
  then show "stock d' i = stock d i - (if i = item then pe_qty e else 0)"
    using stock_upd_row [OF wf r(1), of ?f i] r(2) by (auto simp: inv_key_def offers_def)
  have "inv_wf (d\<lparr>inventory := upd (\<lambda>x. inv_id x = inv_id r) ?f (inventory d)\<rparr>)"
    by (rule inv_wf_upd [OF wf]) (simp_all add: inv_key_def)
  then show "inv_wf d'" using assms(4) by (simp add: inv inv_wf_def)
  show "\<forall>r \<in> set (inventory d'). inv_lot r = None" using lots by (auto simp: inv set_upd)
qed

lemma virtual_pick_ok:
  assumes v: "virtual_pick so bid user n line e d = Inr (i, d')" and ok: "order_ok d" and q: "0 < pe_qty e"
    and l: "l \<in> set (so_lines d)" "sol_id l = pe_line e" "sol_so l = so_id so" "sol_item l = sol_item line"
  shows "order_ok d'" "custody d' = custody d"
proof -
  note t = virtual_pick_Inr [OF v]
  let ?t = "virtual_task (seqs d Seq_task) bid (so_id so) (sol_item line) e user n (now d)"
  have keys: "order_keys d" and books: "task_books d" using ok by (auto simp: order_ok_def)
  note s = take_unlotted [OF keys t(8,6,7)]
  have dist: "distinct (map sol_id (so_lines d))" using keys by (simp add: order_keys_def)
  have cols: "map line_keys (so_lines d') = map line_keys (so_lines d)"
    unfolding t(1) by (rule map_upd_same) simp
  have ids: "map sol_id (so_lines d') = map sol_id (so_lines d)" unfolding t(1) by (rule map_upd_same) simp
  have "task_refs d'"
    unfolding task_refs_def
  proof (intro ballI impI)
    fix u
    assume u: "u \<in> set (pick_tasks d')" "pt_state u = TASK_PICKED \<and> pt_so u \<noteq> None"
    have "\<exists>k \<in> set (so_lines d). pt_sol u = Some (sol_id k) \<and> sol_item k = pt_item u \<and> pt_so u = Some (sol_so k)"
      and "0 \<le> pt_picked u"
    proof -
      consider "u \<in> set (pick_tasks d)" | "u = ?t" using u(1) t(2) by auto
      then have "0 \<le> pt_picked u \<and> (\<exists>k \<in> set (so_lines d). pt_sol u = Some (sol_id k) \<and> sol_item k = pt_item u
          \<and> pt_so u = Some (sol_so k))"
      proof cases
        case 1
        with u(2) keys show ?thesis unfolding order_keys_def task_refs_def by metis
      next
        case 2
        with l q show ?thesis by (auto simp: virtual_task_def intro!: bexI [of _ l])
      qed
      then show "\<exists>k \<in> set (so_lines d). pt_sol u = Some (sol_id k) \<and> sol_item k = pt_item u \<and> pt_so u = Some (sol_so k)"
        "0 \<le> pt_picked u" by auto
    qed
    then obtain k where k: "k \<in> set (so_lines d)" "pt_sol u = Some (sol_id k)" "sol_item k = pt_item u"
      "pt_so u = Some (sol_so k)" by blast
    from columns_member [OF cols [symmetric] k(1)] obtain m where "m \<in> set (so_lines d')" "line_keys m = line_keys k"
      by blast
    with k \<open>0 \<le> pt_picked u\<close> show "0 \<le> pt_picked u \<and> (\<exists>l \<in> set (so_lines d'). pt_sol u = Some (sol_id l)
        \<and> sol_item l = pt_item u \<and> pt_so u = Some (sol_so l))"
      by (auto simp: line_keys_def intro!: bexI [of _ m])
  qed
  moreover have "\<forall>x \<in> set (so_lines d'). 0 \<le> sol_picked x"
    using keys q by (auto simp: order_keys_def t(1) set_upd)
  moreover have "distinct (map pt_id (pick_tasks d'))" "\<forall>x \<in> set (pick_tasks d'). pt_id x < seqs d' Seq_task"
    "\<forall>x \<in> set (pick_tasks d'). pt_state x = TASK_PICKED \<longrightarrow> pt_sol x \<noteq> None \<longrightarrow> pt_so x \<noteq> None"
    using keys by (fastforce simp: order_keys_def t(2,4) virtual_task_def)+
  ultimately have "order_keys d'" using s(1,3) dist ids by (simp add: order_keys_def)
  moreover have "task_books d'"
    unfolding task_books_def
  proof (intro ballI impI)
    fix x
    assume x: "x \<in> set (so_lines d')" "\<not> cancelled (sol_so x) d'"
    then obtain y where y: "y \<in> set (so_lines d)" "x = (if sol_id y = pe_line e then count_pick e y else y)"
      by (auto simp: t(1) set_upd)
    have "sol_so y = sol_so x" "sol_id y = sol_id x" using y(2) by (auto split: if_splits)
    with x(2) y(1) books have "tasks_of (sol_id y) d \<le> sol_picked y"
      by (auto simp: task_books_def cancelled_def t(5))
    then show "tasks_of (sol_id x) d' \<le> sol_picked x"
      using y(2) by (auto simp: tasks_of_def t(2) virtual_task_def split: if_splits)
  qed
  ultimately show "order_ok d'" by (simp add: order_ok_def)
  show "custody d' = custody d"
  proof
    fix i
    have "total (\<lambda>x. sol_item x = i) sol_picked (so_lines d') = total (\<lambda>x. sol_item x = i) sol_picked (so_lines d)
        + (if sol_item l = i then sol_picked (count_pick e l) - sol_picked l else 0)"
      unfolding t(1) l(2) [symmetric] by (rule total_upd_key [OF dist l(1)]) simp
    with s(2) [of i] l(4) show "custody d' i = custody d i" by (auto simp: custody_def)
  qed
qed

lemma virtual_picks_ok:
  assumes "virtual_picks so bid user lines n es d = Inr (is, d')" "order_ok d" "\<forall>e \<in> set es. 0 < pe_qty e"
    and "\<And>l x. lines l = Some x \<Longrightarrow> \<exists>y \<in> set (so_lines d). sol_id y = l \<and> sol_so y = so_id so \<and> sol_item y = sol_item x"
  shows "order_ok d' \<and> custody d' = custody d \<and> sales_orders d' = sales_orders d"
  using assms
proof (induction es arbitrary: n d "is")
  case Nil
  then show ?case by simp
next
  case (Cons e es)
  from Cons.prems(1) obtain line i d1 js where line: "lines (pe_line e) = Some line"
    and v: "virtual_pick so bid user n line e d = Inr (i, d1)"
    and r: "virtual_picks so bid user lines (n + 1) es d1 = Inr (js, d')"
    by (auto split: option.splits sum.splits)
  from Cons.prems(4) [OF line] obtain y where y: "y \<in> set (so_lines d)" "sol_id y = pe_line e"
    "sol_so y = so_id so" "sol_item y = sol_item line" by blast
  have q: "0 < pe_qty e" using Cons.prems(3) by simp
  note k = virtual_pick_ok [OF v Cons.prems(2) q y]
  note t = virtual_pick_Inr [OF v]
  have "\<exists>y \<in> set (so_lines d1). sol_id y = l \<and> sol_so y = so_id so \<and> sol_item y = sol_item x" if "lines l = Some x" for l x
  proof -
    from Cons.prems(4) [OF that] obtain z where z: "z \<in> set (so_lines d)" "sol_id z = l" "sol_so z = so_id so"
      "sol_item z = sol_item x" by blast
    let ?z = "if sol_id z = pe_line e then count_pick e z else z"
    have "?z \<in> set (so_lines d1)" using z(1) by (auto simp: t(1) set_upd)
    with z show ?thesis by (intro bexI [of _ ?z]) auto
  qed
  from Cons.IH [OF r k(1) _ this] Cons.prems(3) k(2) t(5) show ?case by simp
qed

lemma record_admin_pick_Inr:
  assumes "record_admin_pick so es user clock d = Inr (res, d')"
  obtains x bid d2 where "find_so so d = Some x" "check_picks x es d = None"
    "virtual_picks x bid user (\<lambda>l. line_of so l d) 1 es d2 = Inr (ap_tasks res, d')" "so_lines d2 = so_lines d"
    "inventory d2 = inventory d" "pick_tasks d2 = pick_tasks d" "sales_orders d2 = sales_orders d"
    "seqs d2 Seq_task = seqs d Seq_task" "seqs d2 Seq_inventory = seqs d Seq_inventory"
proof -
  from assms obtain x where x: "find_so so d = Some x" "check_picks x es d = None"
    by (auto simp: record_admin_pick_def split: option.splits)
  let ?w = "wrap_batch x (''ADMIN-PICK-'' @ signed_decimal so @ ''-'' @ clock) user d"
  from assms x have "virtual_picks x (fst ?w) user (\<lambda>l. line_of so l d) 1 es (snd ?w) = Inr (ap_tasks res, d')"
    by (auto simp: record_admin_pick_def Let_def split_beta split: sum.splits if_splits)
  from that [OF x this] show thesis by (simp add: wrap_batch_def Let_def split_beta)
qed

lemma record_admin_pick_ok:
  assumes "record_admin_pick so es user clock d = Inr (res, d')" "order_ok d" "\<forall>e \<in> set es. 0 < pe_qty e"
  shows "order_ok d' \<and> custody d' = custody d \<and> map so_id (sales_orders d') = map so_id (sales_orders d)"
proof -
  obtain x bid d2 where x: "find_so so d = Some x" "check_picks x es d = None"
    and v: "virtual_picks x bid user (\<lambda>l. line_of so l d) 1 es d2 = Inr (ap_tasks res, d')"
    and t: "so_lines d2 = so_lines d" "inventory d2 = inventory d" "pick_tasks d2 = pick_tasks d"
      "sales_orders d2 = sales_orders d" "seqs d2 Seq_task = seqs d Seq_task" "seqs d2 Seq_inventory = seqs d Seq_inventory"
    by (rule record_admin_pick_Inr [OF assms(1)])
  have "order_ok d2" "custody d2 = custody d"
    by (rule order_ok_cong [OF assms(2)]; simp add: t cancelled_def)+
  moreover have "\<exists>y \<in> set (so_lines d2). sol_id y = l \<and> sol_so y = so_id x \<and> sol_item y = sol_item z"
    if "line_of so l d = Some z" for l z
  proof -
    have "z \<in> set (so_lines d) \<and> sol_id z = l \<and> sol_so z = so"
      using that find_Some_iff_first [of "\<lambda>x. sol_id x = l \<and> sol_so x = so"] unfolding line_of_def by fast
    with find_so_Some [OF x(1)] t(1) show ?thesis by auto
  qed
  ultimately show ?thesis using virtual_picks_ok [OF v _ assms(3)] t(4) by simp
qed

section \<open>Any history of order administration\<close>

lemma maybe_promote_frame:
  "so_lines (snd (maybe_promote_so_to_picked so user txn d)) = so_lines d"
  "pick_tasks (snd (maybe_promote_so_to_picked so user txn d)) = pick_tasks d"
  "inventory (snd (maybe_promote_so_to_picked so user txn d)) = inventory d"
  "seqs (snd (maybe_promote_so_to_picked so user txn d)) Seq_task = seqs d Seq_task"
  "seqs (snd (maybe_promote_so_to_picked so user txn d)) Seq_inventory = seqs d Seq_inventory"
  by (simp_all add: maybe_promote_so_to_picked_def Let_def split: option.splits)

lemma maybe_promote_orders:
  assumes "distinct (map so_id (sales_orders d))"
  shows "map so_id (sales_orders (snd (maybe_promote_so_to_picked so user txn d))) = map so_id (sales_orders d)"
    "cancelled i d \<Longrightarrow> cancelled i (snd (maybe_promote_so_to_picked so user txn d))"
proof -
  let ?d = "snd (maybe_promote_so_to_picked so user txn d)"
  let ?f = "\<lambda>y. y\<lparr>so_state := SO_PICKED, so_picked_at := Some (now d)\<rparr>"
  have "sales_orders ?d = sales_orders d \<or> (\<exists>x. find_so so d = Some x \<and> so_state x = SO_OPEN
      \<and> sales_orders ?d = upd (\<lambda>y. so_id y = so) ?f (sales_orders d))"
    by (cases "find_so so d"; cases txn) (simp_all add: maybe_promote_so_to_picked_def Let_def)
  then consider "sales_orders ?d = sales_orders d"
    | x where "find_so so d = Some x" "so_state x = SO_OPEN" "sales_orders ?d = upd (\<lambda>y. so_id y = so) ?f (sales_orders d)"
    by blast
  then have "map so_id (sales_orders ?d) = map so_id (sales_orders d) \<and> (cancelled i d \<longrightarrow> cancelled i ?d)"
  proof cases
    case 1
    then show ?thesis by (simp add: cancelled_def)
  next
    case (2 x)
    have id: "x \<in> set (sales_orders d)" "so_id x = so" using find_so_Some [OF 2(1)] by auto
    have "\<not> cancelled so d"
    proof
      assume "cancelled so d"
      then obtain y where y: "y \<in> set (sales_orders d)" "so_id y = so" "so_state y = SO_CANCELLED"
        by (auto simp: cancelled_def)
      then have "y = x" using key_inj [OF assms y(1) id(1)] id(2) by simp
      with y(3) 2(2) show False by simp
    qed
    then have "cancelled i d \<Longrightarrow> cancelled i ?d"
      by (intro cancelled_upd [OF 2(3)]) simp_all
    moreover have "map so_id (sales_orders ?d) = map so_id (sales_orders d)"
      unfolding 2(3) by (rule map_upd_same) simp
    ultimately show ?thesis by simp
  qed
  then show "map so_id (sales_orders ?d) = map so_id (sales_orders d)" "cancelled i d \<Longrightarrow> cancelled i ?d" by auto
qed

lemma admin_pick_ok:
  assumes "admin_pick_sales_order s ov so es clock d = Inr (res, d')" "order_ok d"
    "distinct (map so_id (sales_orders d))" "\<forall>e \<in> set es. 0 < pe_qty e"
  shows "order_ok d' \<and> custody d' = custody d \<and> map so_id (sales_orders d') = map so_id (sales_orders d)"
proof -
  from assms(1) obtain r1 d1 where r: "record_admin_pick so es (s_user s) clock d = Inr (r1, d1)"
    and p: "maybe_promote_so_to_picked so (s_user s) (Some (s_txn s)) d1 = (snd res, d')"
    by (auto simp: admin_pick_sales_order_def split_beta split: if_splits sum.splits)
  then have d': "d' = snd (maybe_promote_so_to_picked so (s_user s) (Some (s_txn s)) d1)" by simp
  note k = record_admin_pick_ok [OF r assms(2,4)]
  with assms(3) have dist: "distinct (map so_id (sales_orders d1))" by simp
  have "order_ok d'" "custody d' = custody d1"
    unfolding d'
    by (rule order_ok_cong [of d1]; use k maybe_promote_orders(2) [OF dist] in \<open>simp add: maybe_promote_frame\<close>)+
  with k maybe_promote_orders(1) [OF dist] show ?thesis by (simp add: d')
qed

text \<open>Cancels from the console or inbound, reverts and admin picks, in any order; the
  schema admits positive quantities only.\<close>

inductive order_step :: "db \<Rightarrow> db \<Rightarrow> bool" where
  cancel: "cancel_sales_order so source user txn d = Inr (res, d') \<Longrightarrow> order_step d d'"
| revert: "revert_sales_order_status so st ids user d = Inr (res, d') \<Longrightarrow> order_step d d'"
| admin_pick: "admin_pick_sales_order s ov so es clock d = Inr (res, d') \<Longrightarrow> \<forall>e \<in> set es. 0 < pe_qty e \<Longrightarrow>
    order_step d d'"

definition order_ledger :: "(int \<Rightarrow> int) \<Rightarrow> db \<Rightarrow> bool" where
  "order_ledger c d \<longleftrightarrow> order_ok d \<and> distinct (map so_id (sales_orders d)) \<and> custody d = c"

lemma order_step_ledger: "order_ledger c d \<Longrightarrow> order_step d d' \<Longrightarrow> order_ledger c d'"
  by (erule order_step.cases) (auto simp: order_ledger_def dest: cancel_ok revert_ok admin_pick_ok)

interpretation orders: step_invariant order_step "order_ledger c"
  by unfold_locales (rule order_step_ledger)

text \<open>Claim C5. Order administration neither creates nor loses goods where no goods are lotted and no order was
  picked in a wave. Start from tables whose keys and task references are sound, whose stock carries no lot, and in which
  every line of an order that is not cancelled has picked at least what the picked tasks that name it picked (a wave task carries
  the units of all its orders under the first line, and breaks this). Then through any history of cancels (with their cascades), status
  reverts with their task releases and admin picks, the units of every item on hand plus those picked on order lines
  stay what they were, no line's picked quantity turns negative, and each live line has still picked at least
  what its unreleased tasks picked for it. Both conditions are needed: lotted bins and wave-picked orders do lose this,
  as \<open>wave_release_duplicates\<close> shows for the latter.\<close>

theorem order_history_conserves_custody:
  assumes "order_step\<^sup>*\<^sup>* d d'" "order_ok d" "distinct (map so_id (sales_orders d))"
  shows "custody d' i = custody d i
    \<and> (\<forall>l \<in> set (so_lines d'). 0 \<le> sol_picked l
         \<and> (\<not> cancelled (sol_so l) d' \<longrightarrow> tasks_of (sol_id l) d' \<le> sol_picked l))"
proof -
  have "order_ledger (custody d) d'"
    by (rule orders.reachable [OF assms(1)]) (use assms(2,3) in \<open>simp add: order_ledger_def\<close>)
  then show ?thesis by (auto simp: order_ledger_def order_ok_def order_keys_def task_books_def)
qed


section \<open>A cancel is final\<close>








section \<open>Examples\<close>

text \<open>An open order of five units with ten on hand, and a backorder of it.\<close>

definition demo_orders :: db where
  "demo_orders = demo_sale\<lparr>
     settings := [''default_receiving_bin'' \<mapsto> ''1''],
     inventory := [\<lparr>inv_id = 1, inv_item = 7, inv_bin = 1, inv_wh = 1, on_hand = 10, allocated = 2,
                    inv_lot = None, inv_updated = 0, inv_counted = None\<rparr>],
     sales_orders := [new_so\<lparr>so_id := 1, so_number := ''SO-1'', so_wh := 1\<rparr>,
                      new_so\<lparr>so_id := 2, so_number := ''SO-1-BO'', so_wh := 1, so_state := SO_WAITING_STOCK,
                        so_type := OT_backorder, so_parent := Some 1\<rparr>],
     so_lines := [new_sol\<lparr>sol_id := 1, sol_so := 1, sol_item := 7, sol_ordered := 5, sol_number := 1\<rparr>,
                  new_sol\<lparr>sol_id := 2, sol_so := 2, sol_item := 7, sol_ordered := 2, sol_number := 1\<rparr>]\<rparr>"

definition demo_admin :: session where
  "demo_admin = \<lparr>s_user = ''admin'', s_admin = True, s_whs = [], s_txn = ''t9''\<rparr>"

definition demo_entries :: "pick_entry list" where
  "demo_entries = [\<lparr>pe_line = 1, pe_bin = 1, pe_qty = 3\<rparr>, \<lparr>pe_line = 1, pe_bin = 1, pe_qty = 2\<rparr>]"

lemmas demo_order_defs = demo_orders_def demo_admin_def demo_entries_def demo_return_defs

lemma demo_orders_ok: "order_ok demo_orders" "distinct (map so_id (sales_orders demo_orders))"
  by (simp_all add: order_ok_def order_keys_def task_books_def task_refs_def tasks_of_def inv_wf_def demo_order_defs)

lemma demo_admin_pick:
  "\<exists>r d'. admin_pick_sales_order demo_admin False 1 demo_entries ''0'' demo_orders = Inr (r, d')
     \<and> snd r \<and> stock d' 7 = 5"
  by (simp add: admin_pick_sales_order_def record_admin_pick_def check_picks_def find_so_def line_of_def
      entry_lines_def asked_def over_picked_def bad_bin_def find_bin_def order_type_allows_fulfillment_ops_def
      wrap_batch_def virtual_pick_def take_available_def offers_def bump_line_def set_sol_def virtual_task_def
      maybe_promote_so_to_picked_def write_audit_log_def emit_event_def stock_def total_def demo_order_defs)

theorem order_history_conserves_custody_witness:
  "\<exists>d'. order_step\<^sup>*\<^sup>* demo_orders d' \<and> stock d' 7 = 5 \<and> custody d' 7 = custody demo_orders 7
    \<and> (\<forall>l \<in> set (so_lines d'). 0 \<le> sol_picked l
         \<and> (\<not> cancelled (sol_so l) d' \<longrightarrow> tasks_of (sol_id l) d' \<le> sol_picked l))"
proof -
  obtain r d' where d': "admin_pick_sales_order demo_admin False 1 demo_entries ''0'' demo_orders = Inr (r, d')"
    "stock d' 7 = 5" using demo_admin_pick by blast
  have "order_step demo_orders d'"
    by (rule order_step.admin_pick [OF d'(1)]) (simp add: demo_entries_def)
  then have s: "order_step\<^sup>*\<^sup>* demo_orders d'" by blast
  from order_history_conserves_custody [OF s demo_orders_ok, of 7] s d'(2) show ?thesis by blast
qed



section \<open>Where custody is lost\<close>

text \<open>With two lots of the item in the bin, one admin pick of three units takes three from
  each lot.\<close>

definition demo_two_lots :: db where
  "demo_two_lots = demo_orders\<lparr>inventory :=
     [\<lparr>inv_id = 1, inv_item = 7, inv_bin = 1, inv_wh = 1, on_hand = 10, allocated = 0,
       inv_lot = Some ''A'', inv_updated = 0, inv_counted = None\<rparr>,
      \<lparr>inv_id = 2, inv_item = 7, inv_bin = 1, inv_wh = 1, on_hand = 10, allocated = 0,
       inv_lot = Some ''B'', inv_updated = 0, inv_counted = None\<rparr>]\<rparr>"

lemma admin_pick_takes_every_lot:
  "\<exists>r d'. record_admin_pick 1 [\<lparr>pe_line = 1, pe_bin = 1, pe_qty = 3\<rparr>] ''admin'' ''0'' demo_two_lots = Inr (r, d')
     \<and> stock demo_two_lots 7 = 20 \<and> stock d' 7 = 14"
  by (simp add: record_admin_pick_def check_picks_def find_so_def line_of_def
      entry_lines_def asked_def over_picked_def bad_bin_def find_bin_def order_type_allows_fulfillment_ops_def
      wrap_batch_def virtual_pick_def take_available_def offers_def bump_line_def set_sol_def virtual_task_def
      write_audit_log_def stock_def total_def demo_two_lots_def demo_order_defs)

text \<open>Cancelling an order that a picker has started, still OPEN, deletes its tasks and puts
  nothing back: what was picked stays on the lines of the cancelled order.\<close>

lemma cancel_open_puts_nothing_back:
  assumes "cancel_body so source user txn d = Inr (a, ns, d')" "so_state so = SO_OPEN" "order_ok d"
  shows "stock d' = stock d" "map pick_columns (so_lines d') = map pick_columns (so_lines d)"
    "\<forall>t \<in> set (pick_tasks d'). pt_so t \<noteq> Some (so_id so)"
proof -
  from assms(1,2) obtain d1 where u: "unwind_allocated (so_id so) d = Inr d1"
    by (auto simp: cancel_body_def unwind_def split: sum.splits)
  let ?d1 = "fold unwind_line (filter (\<lambda>l. sol_so l = so_id so \<and> 0 < sol_alloc l) (so_lines d)) d"
  have a: "alloc_only d ?d1" by (rule fold_alloc_only) (rule unwind_line_alloc_only)
  from u have d1: "inventory d1 = inventory ?d1" "pick_tasks d1 = filter (\<lambda>t. pt_so t \<noteq> Some (so_id so)) (pick_tasks ?d1)"
    by (auto simp: unwind_allocated_def Let_def drop_batch_orders_def split: if_splits)
  from assms(1,2) u obtain js where "report_cancelled so user txn
      (audit ''CANCEL'' ''SO'' (so_id so) user (so_wh so) js (set_so_state (so_id so) SO_CANCELLED d1)) = (ns, d')"
    by (auto simp: cancel_body_def unwind_def split_beta Let_def)
  then have d': "d' = snd (report_cancelled so user txn
      (audit ''CANCEL'' ''SO'' (so_id so) user (so_wh so) js (set_so_state (so_id so) SO_CANCELLED d1)))"
    by simp
  have t: "inventory d' = inventory d1" "so_lines d' = so_lines d1" "pick_tasks d' = pick_tasks d1"
    by (simp_all add: d' set_so_state_def)
  have "stock d1 = stock ?d1" by (rule stock_cong(3)) (rule d1(1))
  then show "stock d' = stock d" using stock_cong(3) [OF t(1)] alloc_only_stock(2) [OF a] by simp
  show "map pick_columns (so_lines d') = map pick_columns (so_lines d)"
    using unwind_allocated_ok(4) [OF u assms(3)] t(2) by simp
  show "\<forall>t \<in> set (pick_tasks d'). pt_so t \<noteq> Some (so_id so)" by (simp add: t(3) d1(2))
qed

text \<open>A wave task carries its first contributor's order. Releasing it puts all five units
  back and takes them off that order's two; the other order keeps three picked units that are
  also on the shelf.\<close>

definition demo_wave_release :: db where
  "demo_wave_release = demo_orders\<lparr>
     sales_orders := [new_so\<lparr>so_id := 1, so_number := ''SO-1'', so_wh := 1, so_state := SO_PICKED\<rparr>,
                      new_so\<lparr>so_id := 2, so_number := ''SO-2'', so_wh := 1, so_state := SO_PICKED\<rparr>],
     so_lines := [new_sol\<lparr>sol_id := 1, sol_so := 1, sol_item := 7, sol_ordered := 2, sol_picked := 2\<rparr>,
                  new_sol\<lparr>sol_id := 2, sol_so := 2, sol_item := 7, sol_ordered := 3, sol_picked := 3\<rparr>],
     pick_tasks := [\<lparr>pt_id = 1, pt_batch = 1, pt_so = Some 1, pt_sol = Some 1, pt_to = None, pt_tol = None,
       pt_item = 7, pt_bin = 1, pt_qty = 5, pt_picked = 5, pt_sequence = 1, pt_tote = None,
       pt_state = TASK_PICKED, pt_by = None, pt_at = None, pt_confirmed = True\<rparr>],
     breakdowns := [\<lparr>wb_id = 1, wb_task = 1, wb_so = 1, wb_sol = Some 1, wb_qty = 2, wb_picked = 2, wb_short = 0\<rparr>,
                    \<lparr>wb_id = 2, wb_task = 1, wb_so = 2, wb_sol = Some 2, wb_qty = 3, wb_picked = 3, wb_short = 0\<rparr>]\<rparr>"

lemmas revert_defs = revert_sales_order_status_def revert_target_def check_tasks_def selected_tasks_def
  release_picked_def finish_revert_def need_unpack_def need_unship_def set_so_state_def audit_release_def
  picked_total_def set_sol_def set_task_def order_type_allows_fulfillment_ops_def status_order_def
  status_text_def add_inventory_def find_inv_def find_so_def write_audit_log_def total_def

lemma wave_release_duplicates:
  "\<exists>r d'. revert_sales_order_status 1 ''OPEN'' [1] ''admin'' demo_wave_release = Inr (r, d')
     \<and> custody demo_wave_release 7 = 15 \<and> custody d' 7 = 18"
  by (simp add: revert_defs custody_def stock_def demo_wave_release_def demo_order_defs)

text \<open>Releasing a virtual pick undoes a reservation the pick never made: the line had five
  reserved, an admin pick of three leaves five, its release leaves two, while the bin still
  holds five reserved.\<close>

definition demo_reserved :: db where
  "demo_reserved = demo_orders\<lparr>
     inventory := [\<lparr>inv_id = 1, inv_item = 7, inv_bin = 1, inv_wh = 1, on_hand = 10, allocated = 5,
                    inv_lot = None, inv_updated = 0, inv_counted = None\<rparr>],
     so_lines := [new_sol\<lparr>sol_id := 1, sol_so := 1, sol_item := 7, sol_ordered := 5, sol_alloc := 5\<rparr>]\<rparr>"

lemma release_of_virtual_pick_leaks:
  "\<exists>r d1 r' d2. record_admin_pick 1 [\<lparr>pe_line = 1, pe_bin = 1, pe_qty = 3\<rparr>] ''admin'' ''0'' demo_reserved = Inr (r, d1)
     \<and> revert_sales_order_status 1 ''OPEN'' (ap_tasks r) ''admin'' d1 = Inr (r', d2)
     \<and> map sol_alloc (so_lines d2) = [2] \<and> map allocated (inventory d2) = [5]"
  by (simp add: record_admin_pick_def check_picks_def line_of_def
      entry_lines_def asked_def over_picked_def bad_bin_def find_bin_def
      wrap_batch_def virtual_pick_def take_available_def offers_def bump_line_def virtual_task_def
      revert_defs demo_reserved_def demo_order_defs)

end
