(* ===== verification/OrderLines.thy ===== *)
theory OrderLines
  imports SalesOrders Allocation
begin

text \<open>
  Order editing in \<^verbatim>\<open>api/routes/admin/admin_orders.py\<close>: creating an order with its standing
  reservations, adding, resizing and removing lines, the allocation stepper, clearing a
  fraud review, and the memo, address and printed-ticket edits. Every route runs in one
  transaction; an \<open>Inl\<close> result leaves the database as it was.
\<close>

datatype edit_error =
  OE_not_found
| OE_duplicate_number
| OE_item_not_found int
| OE_terminal so_status
| OE_forbidden so_status
| OE_item_on_order
| OE_line_not_found
| OE_below_picked int
| OE_below_shipped int
| OE_moved int int int
| OE_not_in_review so_status
| OE_nothing_provided
| OE_internal

section \<open>Reserving from the fullest rows\<close>

definition fullest_rows :: "int \<Rightarrow> int \<Rightarrow> db \<Rightarrow> inv_row list" where
  "fullest_rows item wh d =
     sort_key (\<lambda>r. (- avail r, inv_id r))
       (filter (\<lambda>r. inv_item r = item \<and> inv_wh r = wh \<and> allocated r < on_hand r) (inventory d))"

definition hold_row :: "inv_row \<Rightarrow> int \<Rightarrow> db \<Rightarrow> db" where
  "hold_row r q d =
     d\<lparr>inventory := upd (\<lambda>x. inv_id x = inv_id r)
        (\<lambda>x. x\<lparr>allocated := allocated x + q, inv_updated := now d\<rparr>) (inventory d)\<rparr>"

fun hold_rows :: "int \<Rightarrow> inv_row list \<Rightarrow> db \<Rightarrow> int \<times> db" where
  "hold_rows rem [] d = (rem, d)"
| "hold_rows rem (r # rs) d =
     (if rem \<le> 0 then (rem, d)
      else let take = min rem (avail r) in
        if take \<le> 0 then hold_rows rem rs d
        else hold_rows (rem - take) rs (hold_row r take d))"

section \<open>Creating an order\<close>

record so_request =
  nq_number :: string
  nq_wh :: int
  nq_barcode :: "string option"
  nq_customer :: "string option"
  nq_method :: "string option"
  nq_memo :: "string option"
  nq_columns :: "string \<rightharpoonup> string"
  nq_lines :: "(int \<times> int \<times> int option) list"

text \<open>A request line is an item, a quantity and a line number that defaults to 1. What could
  be reserved is written to the line.\<close>

definition create_line :: "int \<Rightarrow> int \<Rightarrow> int \<times> int \<times> int option \<Rightarrow> db \<Rightarrow> db option" where
  "create_line so wh l d =
     (case l of (item, q, n) \<Rightarrow>
       (case insert_sol (new_sol\<lparr>sol_so := so, sol_item := item, sol_ordered := q,
               sol_number := (case n of None \<Rightarrow> 1 | Some k \<Rightarrow> if k = 0 then 1 else k)\<rparr>) d of
          None \<Rightarrow> None
        | Some (i, d1) \<Rightarrow>
            let (rem, d2) = hold_rows q (fullest_rows item wh d1) d1 in
            Some (if 0 < q - rem
                  then set_sol (Some i) (\<lambda>x. x\<lparr>sol_alloc := q - rem\<rparr>) d2 else d2)))"

fun create_lines :: "int \<Rightarrow> int \<Rightarrow> (int \<times> int \<times> int option) list \<Rightarrow> db \<Rightarrow> db option" where
  "create_lines so wh [] d = Some d"
| "create_lines so wh (l # ls) d =
     (case create_line so wh l d of None \<Rightarrow> None | Some d1 \<Rightarrow> create_lines so wh ls d1)"

definition create_sales_order :: "so_request \<Rightarrow> string \<Rightarrow> db \<Rightarrow> edit_error + (int \<times> db)" where
  "create_sales_order q user d =
     (if \<exists>x \<in> set (sales_orders d). so_number x = nq_number q then Inl OE_duplicate_number
      else
        (case List.find (\<lambda>(item, _, _). find_item item d = None) (nq_lines q) of
           Some (item, _, _) \<Rightarrow> Inl (OE_item_not_found item)
         | None \<Rightarrow>
             let (u, d1) = uuid4 d in
             (case insert_so (new_so\<lparr>so_number := nq_number q, so_barcode := nq_barcode q,
                     so_customer := nq_customer q, so_wh := nq_wh q, so_method := nq_method q,
                     so_memo := nq_memo q, so_columns := nq_columns q, so_created_by := Some user,
                     so_ext := u\<rparr>) d1 of
                None \<Rightarrow> Inl OE_internal
              | Some (i, d2) \<Rightarrow>
                  (case create_lines i (nq_wh q) (nq_lines q) d2 of
                     None \<Rightarrow> Inl OE_internal | Some d3 \<Rightarrow> Inr (i, d3)))))"

section \<open>The allocation stepper\<close>

text \<open>The result says whether anything moved and what the line holds.\<close>

definition adjust_sales_order_line_allocation ::
    "int \<Rightarrow> int \<Rightarrow> int \<Rightarrow> string \<Rightarrow> db \<Rightarrow> edit_error + ((bool \<times> int) \<times> db)" where
  "adjust_sales_order_line_allocation so lid delta user d =
     (case (line_of so lid d, find_so so d) of
        (Some l, Some x) \<Rightarrow>
          let cur = sol_alloc l;
              target = max (sol_picked l) (min (sol_ordered l) (cur + delta))
          in if target = cur then Inr ((False, cur), d)
             else
               let (left, d1) = (if cur < target
                     then hold_rows (target - cur) (fullest_rows (sol_item l) (so_wh x) d) d
                     else norm_rows (cur - target) (item_rows (sol_item l) (so_wh x) (\<lambda>r. 0 < allocated r) d) d);
                   goal = (if cur < target then target - left else target)
               in if goal = cur then Inr ((False, cur), d)
                  else Inr ((True, goal),
                    audit ''SO_LINE_UPDATED'' ''SO'' so user (so_wh x)
                      (JObj [(''field_changed'', JStr ''quantity_allocated''), (''so_line_id'', JInt lid),
                             (''old_value'', JInt cur), (''new_value'', JInt goal)])
                      (set_sol (Some lid) (\<lambda>y. y\<lparr>sol_alloc := goal\<rparr>) d1))
      | _ \<Rightarrow> Inl OE_line_not_found)"

section \<open>Line edits\<close>

definition so_line_edit_gate :: "session \<Rightarrow> bool \<Rightarrow> so_row \<Rightarrow> edit_error option" where
  "so_line_edit_gate s override so =
     (if so_state so = SO_SHIPPED \<or> so_state so = SO_CANCELLED then Some (OE_terminal (so_state so))
      else if s_admin s \<or> so_state so = SO_OPEN \<or> override then None
      else Some (OE_forbidden (so_state so)))"

text \<open>The pending tasks' quantities go back, floored at zero, in every lot row of the bin.\<close>

definition free_task :: "int \<Rightarrow> task_row \<Rightarrow> db \<Rightarrow> db" where
  "free_task item t d = d\<lparr>inventory := upd (\<lambda>r. inv_item r = item \<and> inv_bin r = pt_bin t)
     (\<lambda>r. r\<lparr>allocated := max 0 (allocated r - pt_qty t)\<rparr>) (inventory d)\<rparr>"

definition release_so_line_allocation :: "int \<Rightarrow> db \<Rightarrow> (int \<times> db) option" where
  "release_so_line_allocation lid d =
     (case List.find (\<lambda>l. sol_id l = lid) (so_lines d) of
        None \<Rightarrow> Some (0, d)
      | Some l \<Rightarrow>
          if sol_alloc l = 0 then Some (0, d)
          else
            let ts = pending_of_line lid d;
                d1 = fold (free_task (sol_item l)) ts d
            in if \<exists>t \<in> set ts. \<exists>b \<in> set (breakdowns d1). wb_task b = pt_id t then None
               else Some (sum_list (map pt_qty ts),
                 set_sol (Some lid) (\<lambda>x. x\<lparr>sol_alloc := 0\<rparr>)
                   (d1\<lparr>pick_tasks := filter (\<lambda>t. \<not> (pt_sol t = Some lid \<and> pt_state t = TASK_PENDING))
                                      (pick_tasks d1)\<rparr>)))"

text \<open>\<open>uid\<close> is the text of \<open>g.current_user["user_id"]\<close>, which these routes audit under.\<close>

definition audit_release_line ::
    "int \<Rightarrow> int \<Rightarrow> string \<Rightarrow> int \<Rightarrow> string \<Rightarrow> string \<Rightarrow> int \<Rightarrow> db \<Rightarrow> db" where
  "audit_release_line so lid sku freed reason uid wh d =
     (if 0 < freed
      then audit ''SO_ALLOCATION_RELEASED'' ''SO_LINE'' lid uid wh
             (JObj [(''so_id'', JInt so), (''sku'', JStr sku), (''released_quantity'', JInt freed),
                    (''reason'', JStr reason)]) d
      else d)"

definition add_sales_order_line ::
    "session \<Rightarrow> bool \<Rightarrow> string \<Rightarrow> int \<Rightarrow> int \<Rightarrow> int \<Rightarrow> db \<Rightarrow> edit_error + ((int \<times> int) \<times> db)" where
  "add_sales_order_line s override uid so item q d =
     (case find_so so d of
        None \<Rightarrow> Inl OE_not_found
      | Some x \<Rightarrow>
      (case so_line_edit_gate s override x of
        Some e \<Rightarrow> Inl e
      | None \<Rightarrow>
      (case find_item item d of
        None \<Rightarrow> Inl (OE_item_not_found item)
      | Some i \<Rightarrow>
          if \<exists>l \<in> set (so_lines d). sol_so l = so \<and> sol_item l = item then Inl OE_item_on_order
          else
            let n = fold (\<lambda>l m. max (sol_number l) m) (order_lines so d)
                      (case order_lines so d of [] \<Rightarrow> 0 | l # _ \<Rightarrow> sol_number l) + 1
            in (case insert_sol (new_sol\<lparr>sol_so := so, sol_item := item, sol_ordered := q, sol_number := n\<rparr>) d of
                  None \<Rightarrow> Inl OE_internal
                | Some (lid, d1) \<Rightarrow>
                    Inr ((lid, n), audit ''SO_LINE_ADDED'' ''SO_LINE'' lid uid (so_wh x)
                      (JObj [(''so_id'', JInt so), (''sku'', JStr (item_sku i)),
                             (''quantity_ordered'', JInt q)]) d1)))))"

text \<open>The line of the order joined with its item.\<close>

definition line_item :: "int \<Rightarrow> int \<Rightarrow> db \<Rightarrow> (sol_row \<times> item_row) option" where
  "line_item so lid d =
     (case line_of so lid d of
        None \<Rightarrow> None
      | Some l \<Rightarrow> map_option (\<lambda>i. (l, i)) (find_item (sol_item l) d))"

definition update_sales_order_line ::
    "session \<Rightarrow> bool \<Rightarrow> string \<Rightarrow> int \<Rightarrow> int \<Rightarrow> int \<Rightarrow> db \<Rightarrow> edit_error + (int \<times> db)" where
  "update_sales_order_line s override uid so lid q d =
     (case find_so so d of
        None \<Rightarrow> Inl OE_not_found
      | Some x \<Rightarrow>
      (case so_line_edit_gate s override x of
        Some e \<Rightarrow> Inl e
      | None \<Rightarrow>
      (case line_item so lid d of
        None \<Rightarrow> Inl OE_line_not_found
      | Some (l, i) \<Rightarrow>
          if q < max (sol_picked l) (sol_packed l) then Inl (OE_below_picked (max (sol_picked l) (sol_packed l)))
          else if q < sol_shipped l then Inl (OE_below_shipped (sol_shipped l))
          else
            (case (if q < sol_alloc l \<and> 0 < sol_alloc l then release_so_line_allocation lid d else Some (0, d)) of
               None \<Rightarrow> Inl OE_internal
             | Some (freed, d1) \<Rightarrow>
                 let d2 = audit_release_line so lid (item_sku i) freed ''line_quantity_reduced'' uid (so_wh x) d1;
                     d3 = set_sol (Some lid) (\<lambda>y. y\<lparr>sol_ordered := q\<rparr>) d2
                 in Inr (freed, audit ''SO_LINE_UPDATED'' ''SO_LINE'' lid uid (so_wh x)
                      (JObj [(''so_id'', JInt so), (''sku'', JStr (item_sku i)),
                             (''old_quantity_ordered'', JInt (sol_ordered l)),
                             (''new_quantity_ordered'', JInt q)]) d3)))))"

text \<open>\<open>DELETE FROM sales_order_lines\<close>: fulfillment lines, receipts and derived lines hold it
  back; pick tasks and wave breakdowns lose their pointer.\<close>

definition line_referenced :: "int \<Rightarrow> db \<Rightarrow> bool" where
  "line_referenced lid d \<longleftrightarrow> (\<exists>f \<in> set (fulfillment_lines d). fl_sol f = lid)
     \<or> (\<exists>r \<in> set (receipts d). rc_sol r = Some lid)
     \<or> (\<exists>l \<in> set (so_lines d). sol_id l \<noteq> lid \<and> sol_original l = Some lid)"

definition delete_sol :: "int \<Rightarrow> db \<Rightarrow> db option" where
  "delete_sol lid d =
     (if (\<exists>l \<in> set (so_lines d). sol_id l = lid) \<and> line_referenced lid d then None
      else Some (d\<lparr>so_lines := filter (\<lambda>l. sol_id l \<noteq> lid) (so_lines d),
              pick_tasks := upd (\<lambda>t. pt_sol t = Some lid) (\<lambda>t. t\<lparr>pt_sol := None\<rparr>) (pick_tasks d),
              breakdowns := upd (\<lambda>b. wb_sol b = Some lid) (\<lambda>b. b\<lparr>wb_sol := None\<rparr>) (breakdowns d)\<rparr>))"

definition delete_sales_order_line ::
    "session \<Rightarrow> bool \<Rightarrow> string \<Rightarrow> int \<Rightarrow> int \<Rightarrow> db \<Rightarrow> edit_error + (int \<times> db)" where
  "delete_sales_order_line s override uid so lid d =
     (case find_so so d of
        None \<Rightarrow> Inl OE_not_found
      | Some x \<Rightarrow>
      (case so_line_edit_gate s override x of
        Some e \<Rightarrow> Inl e
      | None \<Rightarrow>
      (case line_item so lid d of
        None \<Rightarrow> Inl OE_line_not_found
      | Some (l, i) \<Rightarrow>
          if 0 < sol_picked l \<or> 0 < sol_packed l \<or> 0 < sol_shipped l
          then Inl (OE_moved (sol_picked l) (sol_packed l) (sol_shipped l))
          else
            (case (if 0 < sol_alloc l then release_so_line_allocation lid d else Some (0, d)) of
               None \<Rightarrow> Inl OE_internal
             | Some (freed, d1) \<Rightarrow>
                 let d2 = audit_release_line so lid (item_sku i) freed ''line_deleted'' uid (so_wh x) d1
                 in (case delete_sol lid d2 of
                       None \<Rightarrow> Inl OE_internal
                     | Some d3 \<Rightarrow>
                         Inr (freed, audit ''SO_LINE_REMOVED'' ''SO_LINE'' lid uid (so_wh x)
                           (JObj [(''so_id'', JInt so), (''sku'', JStr (item_sku i)),
                                  (''quantity_ordered'', JInt (sol_ordered l))]) d3))))))"

section \<open>Header edits\<close>

definition push_sales_order_to_queue :: "string \<Rightarrow> int \<Rightarrow> db \<Rightarrow> edit_error + db" where
  "push_sales_order_to_queue user so d =
     (case find_so so d of
        None \<Rightarrow> Inl OE_not_found
      | Some x \<Rightarrow>
          if so_state x \<noteq> SO_FRAUD_REVIEW then Inl (OE_not_in_review (so_state x))
          else Inr (audit ''SO_FRAUD_CLEARED'' ''SO'' so user (so_wh x)
                 (JObj [(''from_status'', JStr ''FRAUD_REVIEW''), (''to_status'', JStr ''OPEN'')])
                 (set_so_state so SO_OPEN d)))"

text \<open>An empty text clears the memo; an unchanged one writes nothing.\<close>

definition text_or_null :: "string option \<Rightarrow> string option" where
  "text_or_null v = (if v = Some [] then None else v)"

definition update_sales_order_memo ::
    "string \<Rightarrow> int \<Rightarrow> string option \<Rightarrow> db \<Rightarrow> edit_error + ((bool \<times> string option) \<times> db)" where
  "update_sales_order_memo user so memo d =
     (case find_so so d of
        None \<Rightarrow> Inl OE_not_found
      | Some x \<Rightarrow>
          let m = text_or_null memo in
          if so_memo x = m then Inr ((False, m), d)
          else Inr ((True, m),
            audit ''SO_MEMO_EDITED'' ''SO'' so user (so_wh x)
              (JObj [(''old_value'', jopt JStr (so_memo x)), (''new_value'', jopt JStr m)])
              (d\<lparr>sales_orders := upd (\<lambda>y. so_id y = so) (\<lambda>y. y\<lparr>so_memo := m\<rparr>) (sales_orders d)\<rparr>)))"

text \<open>The address route: fields of the body in their order, an empty text or null clearing a
  column, one audit row per field that changes.\<close>

definition address_edits :: "so_row \<Rightarrow> (string \<times> string option) list \<Rightarrow> (string \<times> string option \<times> string option) list" where
  "address_edits so body =
     [(c, so_columns so c, text_or_null v). (c, v) \<leftarrow> body, so_columns so c \<noteq> text_or_null v]"

definition set_columns :: "(string \<times> string option \<times> string option) list \<Rightarrow> so_row \<Rightarrow> so_row" where
  "set_columns es x = x\<lparr>so_columns := fold (\<lambda>(c, _, v) m. m(c := v)) es (so_columns x)\<rparr>"

definition audit_edit :: "string \<Rightarrow> int \<Rightarrow> string \<Rightarrow> int \<Rightarrow> string \<times> string option \<times> string option \<Rightarrow> db \<Rightarrow> db" where
  "audit_edit action so user wh e d =
     (case e of (c, old, v) \<Rightarrow> audit action ''SO'' so user wh
        (JObj [(''field_changed'', JStr c), (''old_value'', jopt JStr old), (''new_value'', jopt JStr v)]) d)"

definition update_sales_order_address ::
    "session \<Rightarrow> int \<Rightarrow> (string \<times> string option) list \<Rightarrow> db \<Rightarrow> edit_error + (string list \<times> db)" where
  "update_sales_order_address s so body d =
     (case find_so so d of
        None \<Rightarrow> Inl OE_not_found
      | Some x \<Rightarrow>
          if \<not> s_admin s \<and> so_state x \<noteq> SO_OPEN then Inl (OE_forbidden (so_state x))
          else if body = [] then Inl OE_nothing_provided
          else
            let es = address_edits x body in
            if es = [] then Inr ([], d)
            else Inr (map fst es,
              fold (audit_edit ''SO_ADDRESS_EDITED'' so (s_user s) (so_wh x)) es
                (d\<lparr>sales_orders := upd (\<lambda>y. so_id y = so) (set_columns es) (sales_orders d)\<rparr>)))"

definition mark_sales_orders_printed :: "int list \<Rightarrow> db \<Rightarrow> int list \<times> db" where
  "mark_sales_orders_printed ids d =
     (map so_id (filter (\<lambda>x. so_id x \<in> set ids \<and> so_printed x = None) (sales_orders d)),
      d\<lparr>sales_orders := upd (\<lambda>x. so_id x \<in> set ids \<and> so_printed x = None)
          (\<lambda>x. x\<lparr>so_printed := Some (now d)\<rparr>) (sales_orders d)\<rparr>)"

section \<open>What a reservation walk does\<close>

interpretation holding: inv_walk avail hold_row hold_rows
    "\<lambda>q s x. x\<lparr>allocated := allocated x + q, inv_updated := now s\<rparr>" 0 1
  by unfold_locales (auto simp: hold_row_def Let_def inv_key_def sound_row_def avail_def)

definition free :: "db \<Rightarrow> int \<Rightarrow> int \<Rightarrow> int" where
  "free d item wh = held d item wh - reserved d item wh"

lemma fullest_rows_props:
  "r \<in> set (fullest_rows item wh d) \<Longrightarrow> 0 < avail r \<and> inv_item r = item \<and> inv_wh r = wh"
  "set (fullest_rows item wh d) \<subseteq> set (inventory d)"
  by (auto simp: fullest_rows_def avail_def)

lemma fullest_rows_distinct: "inv_wf d \<Longrightarrow> distinct (map inv_id (fullest_rows item wh d))"
  unfolding fullest_rows_def distinct_sort_ids by (rule distinct_filter_ids) (simp add: inv_wf_def)

lemma fullest_rows_total:
  assumes "good d"
  shows "sum_list (map avail (fullest_rows item wh d)) = free d item wh"
proof -
  have "sum_list (map avail (filter (\<lambda>r. inv_item r = item \<and> inv_wh r = wh \<and> allocated r < on_hand r) t))
      = total (\<lambda>r. inv_item r = item \<and> inv_wh r = wh) on_hand t - total (\<lambda>r. inv_item r = item \<and> inv_wh r = wh) allocated t"
    if "\<And>r. r \<in> set t \<Longrightarrow> sound_row r" for t
    using that
  proof (induction t)
    case Nil
    then show ?case by simp
  next
    case (Cons r t)
    from Cons.prems [of r] have "0 \<le> allocated r" "allocated r \<le> on_hand r" by (simp_all add: sound_row_def)
    with Cons.IH [OF Cons.prems] show ?case by (auto simp: avail_def)
  qed
  with assms show ?thesis
    by (simp add: fullest_rows_def sum_list_sort_key free_def held_def reserved_def good_rows)
qed

lemma free_nonneg:
  assumes "good d"
  shows "0 \<le> free d item wh"
proof -
  have "0 \<le> sum_list (map avail (fullest_rows item wh d))"
    by (rule sum_list_nonneg) (use fullest_rows_props(1) in force)
  with fullest_rows_total [OF assms] show ?thesis by simp
qed

lemma hold_rows_effect:
  assumes "good d" "0 \<le> q" "hold_rows q (fullest_rows item wh d) d = (left, d')"
  shows "good d'" "left = max 0 (q - free d item wh)"
    "reserved d' i w = reserved d i w + (if i = item \<and> w = wh then q - left else 0)"
    "held d' i w = held d i w" "stock d' i = stock d i" "\<exists>inv. d' = d\<lparr>inventory := inv\<rparr>"
proof -
  have d': "d' = snd (hold_rows q (fullest_rows item wh d) d)" and left: "left = fst (hold_rows q (fullest_rows item wh d) d)"
    using assms(3) by simp_all
  have pos: "r \<in> set (fullest_rows item wh d) \<Longrightarrow> 0 < avail r" for r using fullest_rows_props(1) by blast
  note dist = fullest_rows_distinct [OF good_wf [OF assms(1)], of item wh]
  show left': "left = max 0 (q - free d item wh)"
    unfolding left using holding.left_over [OF assms(2) pos, where s = d] fullest_rows_total [OF assms(1)] by simp
  show "good d'" unfolding d' by (rule holding.walk_good [OF assms(1) fullest_rows_props(2) dist pos])
  note tot = holding.walk_totals [OF assms(1) fullest_rows_props(2) dist assms(2) fullest_rows_props(1)]
  show "reserved d' i w = reserved d i w + (if i = item \<and> w = wh then q - left else 0)"
    unfolding d' left' using tot(2) [where i = i and w = w] fullest_rows_total [OF assms(1), of item wh]
      free_nonneg [OF assms(1), of item wh] assms(2) by auto
  show "held d' i w = held d i w" "stock d' i = stock d i"
    unfolding d' using tot(1) [where i = i and w = w] tot(3) [where i = i] by simp_all
  show "\<exists>inv. d' = d\<lparr>inventory := inv\<rparr>" unfolding d' by (rule holding.walk_frame [OF pos])
qed

section \<open>Creating an order reserves what the warehouse can cover\<close>

text \<open>The new lines, what they reserved, and what is left free.\<close>

definition reserves :: "int \<Rightarrow> int \<Rightarrow> sol_row list \<Rightarrow> db \<Rightarrow> db \<Rightarrow> bool" where
  "reserves so wh new d d' \<longleftrightarrow> good d' \<and> so_lines d' = so_lines d @ new
     \<and> (\<forall>i w. held d' i w = held d i w)
     \<and> (\<forall>i w. reserved d' i w = reserved d i w + (if w = wh then total (\<lambda>l. sol_item l = i) sol_alloc new else 0))
     \<and> (\<forall>l \<in> set new. sol_so l = so \<and> 0 \<le> sol_alloc l \<and> sol_alloc l \<le> sol_ordered l
          \<and> (sol_alloc l < sol_ordered l \<longrightarrow> free d' (sol_item l) wh = 0))
     \<and> sales_orders d' = sales_orders d"

lemma hold_rows_tables:
  assumes "\<exists>inv. d' = d\<lparr>inventory := inv\<rparr>"
  shows "so_lines d' = so_lines d" "sales_orders d' = sales_orders d" "seqs d' = seqs d" "audit_log d' = audit_log d"
  using assms by auto

lemma create_line_reserves:
  assumes "create_line so wh (item, q, n) d = Some d'" "good d" "0 < q"
    and "\<forall>l \<in> set (so_lines d). sol_id l < seqs d Seq_so_line"
  shows "\<exists>l. reserves so wh [l] d d' \<and> sol_item l = item \<and> sol_ordered l = q
    \<and> sol_id l < seqs d' Seq_so_line \<and> seqs d Seq_so_line \<le> seqs d' Seq_so_line"
proof -
  let ?row = "new_sol\<lparr>sol_so := so, sol_item := item, sol_ordered := q,
    sol_number := (case n of None \<Rightarrow> 1 | Some k \<Rightarrow> if k = 0 then 1 else k)\<rparr>"
  from assms(1) obtain i d1 where ins: "insert_sol ?row d = Some (i, d1)"
    by (auto simp: create_line_def split: option.splits)
  note f = insert_sol_Some [OF ins]
  obtain left d2 where h: "hold_rows q (fullest_rows item wh d1) d1 = (left, d2)" by fastforce
  have good1: "good d1"
    using good_cong [of d1 d] f(6,3) assms(2) by simp
  note e = hold_rows_effect [OF good1 less_imp_le [OF assms(3)] h]
  note t = hold_rows_tables [OF e(6)]
  let ?l = "?row\<lparr>sol_id := i, sol_alloc := q - left\<rparr>"
  from assms(1) ins h have d': "d' = (if 0 < q - left then set_sol (Some i) (\<lambda>x. x\<lparr>sol_alloc := q - left\<rparr>) d2 else d2)"
    by (simp add: create_line_def)
  have left: "0 \<le> left" "left \<le> q"
    using e(2) free_nonneg [OF good1, of item wh] assms(3) by auto
  have old: "upd (\<lambda>x. sol_id x = i) g (so_lines d) = so_lines d" for g
    using assms(4) f(1) by (intro upd_id) auto
  have "so_lines d' = so_lines d @ [?l]"
    using t(1) f(2) left old [of "\<lambda>x. x\<lparr>sol_alloc := q - left\<rparr>"]
    by (simp add: d' set_sol_def new_sol_def)
  moreover have inv: "inventory d' = inventory d2" "seqs d' = seqs d2" "sales_orders d' = sales_orders d2"
    by (simp_all add: d' set_sol_def)
  moreover have "held d' = held d2" "reserved d' = reserved d2" "held d1 = held d" "reserved d1 = reserved d"
    using stock_cong [OF inv(1)] stock_cong [OF f(6)] by simp_all
  moreover have "free d' item wh = 0" if "0 < left"
    using that e(2,3,4) stock_cong(1,2) [OF inv(1)] by (auto simp: free_def)
  moreover have "good d'" using e(1) good_cong [of d' d2] inv by simp
  ultimately have "reserves so wh [?l] d d'"
    using e(3,4) f(4) t(2) left by (auto simp: reserves_def new_sol_def)
  moreover have "seqs d' Seq_so_line = i + 1" using inv(2) t(3) f(3) by simp
  ultimately show ?thesis using f(1) by (intro exI [of _ ?l]) (simp add: new_sol_def)
qed

lemma reserves_append:
  assumes "reserves so wh xs d d1" "reserves so wh ys d1 d2"
  shows "reserves so wh (xs @ ys) d d2"
proof -
  have "free d2 (sol_item l) wh = 0" if "l \<in> set xs" "sol_alloc l < sol_ordered l" for l
  proof -
    have z: "free d1 (sol_item l) wh = 0" using assms(1) that by (auto simp: reserves_def)
    have "0 \<le> total (\<lambda>k. sol_item k = sol_item l) sol_alloc ys"
      using assms(2) by (intro total_nonneg) (auto simp: reserves_def)
    then have "free d2 (sol_item l) wh \<le> free d1 (sol_item l) wh"
      using assms(2) by (simp add: free_def reserves_def)
    moreover have "0 \<le> free d2 (sol_item l) wh"
      using assms(2) by (intro free_nonneg) (simp add: reserves_def)
    ultimately show ?thesis using z by simp
  qed
  with assms show ?thesis by (auto simp: reserves_def)
qed

lemma create_lines_reserve:
  "create_lines so wh ls d = Some d' \<Longrightarrow> good d \<Longrightarrow> \<forall>(item, q, n) \<in> set ls. 0 < q \<Longrightarrow>
     \<forall>l \<in> set (so_lines d). sol_id l < seqs d Seq_so_line \<Longrightarrow>
     \<exists>new. reserves so wh new d d' \<and> map (\<lambda>l. (sol_item l, sol_ordered l)) new = map (\<lambda>(item, q, n). (item, q)) ls"
proof (induction ls arbitrary: d)
  case Nil
  then show ?case by (auto simp: reserves_def)
next
  case (Cons l ls)
  obtain item q n where l: "l = (item, q, n)" by (cases l)
  from Cons.prems(1) obtain d1 where c: "create_line so wh (item, q, n) d = Some d1"
    and r: "create_lines so wh ls d1 = Some d'" by (auto simp: l split: option.splits)
  from create_line_reserves [OF c Cons.prems(2) _ Cons.prems(4)] Cons.prems(3) obtain k where
    k: "reserves so wh [k] d d1" "sol_item k = item" "sol_ordered k = q" "sol_id k < seqs d1 Seq_so_line"
      "seqs d Seq_so_line \<le> seqs d1 Seq_so_line" by (auto simp: l)
  have good: "good d1" using k(1) by (simp add: reserves_def)
  have lines: "so_lines d1 = so_lines d @ [k]" using k(1) by (simp add: reserves_def)
  have "\<forall>l \<in> set (so_lines d1). sol_id l < seqs d1 Seq_so_line"
    using Cons.prems(4) k(4,5) by (auto simp: lines)
  from Cons.IH [OF r good _ this] Cons.prems(3) obtain new where
    new: "reserves so wh new d1 d'" "map (\<lambda>l. (sol_item l, sol_ordered l)) new = map (\<lambda>(item, q, n). (item, q)) ls"
    by auto
  from reserves_append [OF k(1) new(1)] new(2) k(2,3) show ?case
    by (intro exI [of _ "k # new"]) (simp add: l)
qed

text \<open>Claim C25. Creating an order never oversells and reserves all it can: every new line
  holds between nothing and its ordered quantity, the warehouse's reservations of each item
  grow by exactly what the new lines hold, they stay within the stock on hand, and a line is
  left short only when no free unit of its item remains in the warehouse.\<close>

theorem create_reserves_what_it_can:
  assumes "create_sales_order q user d = Inr (so, d')" "good d" "\<forall>(item, n, k) \<in> set (nq_lines q). 0 < n"
    and "\<forall>l \<in> set (so_lines d). sol_id l < seqs d Seq_so_line"
  shows "\<exists>new. so_lines d' = so_lines d @ new
    \<and> map (\<lambda>l. (sol_item l, sol_ordered l)) new = map (\<lambda>(item, n, k). (item, n)) (nq_lines q)
    \<and> (\<forall>l \<in> set new. sol_so l = so \<and> 0 \<le> sol_alloc l \<and> sol_alloc l \<le> sol_ordered l
         \<and> (sol_alloc l < sol_ordered l \<longrightarrow> free d' (sol_item l) (nq_wh q) = 0))
    \<and> (\<forall>i w. reserved d' i w = reserved d i w
         + (if w = nq_wh q then total (\<lambda>l. sol_item l = i) sol_alloc new else 0)
         \<and> held d' i w = held d i w \<and> reserved d' i w \<le> held d' i w)"
proof -
  from assms(1) obtain d1 where ins: "insert_so (new_so\<lparr>so_number := nq_number q, so_barcode := nq_barcode q,
        so_customer := nq_customer q, so_wh := nq_wh q, so_method := nq_method q, so_memo := nq_memo q,
        so_columns := nq_columns q, so_created_by := Some user, so_ext := fst (uuid4 d)\<rparr>) (snd (uuid4 d)) = Some (so, d1)"
    and ls: "create_lines so (nq_wh q) (nq_lines q) d1 = Some d'"
    by (auto simp: create_sales_order_def split_beta split: option.splits if_splits)
  note f = insert_so_Some [OF ins]
  have u: "so_lines d1 = so_lines d" "inventory d1 = inventory d" "seqs d1 Seq_inventory = seqs d Seq_inventory"
    "seqs d1 Seq_so_line = seqs d Seq_so_line" using f by (simp_all add: uuid4_def)
  have "good d1" using good_cong [OF u(2,3)] assms(2) by simp
  moreover have "\<forall>l \<in> set (so_lines d1). sol_id l < seqs d1 Seq_so_line" using assms(4) u by simp
  ultimately obtain new where new: "reserves so (nq_wh q) new d1 d'"
    "map (\<lambda>l. (sol_item l, sol_ordered l)) new = map (\<lambda>(item, n, k). (item, n)) (nq_lines q)"
    using create_lines_reserve [OF ls _ assms(3)] by blast
  have "reserved d' i w \<le> held d' i w" for i w
    using free_nonneg [of d' i w] new(1) by (simp add: free_def reserves_def)
  with new u stock_cong(1,2) [OF u(2)] show ?thesis
    by (intro exI [of _ new]) (auto simp: reserves_def)
qed

section \<open>The stepper keeps line and warehouse in lockstep\<close>

lemma item_rows_cover:
  assumes "good d"
  shows "sum_list (map allocated (item_rows item wh (\<lambda>r. 0 < allocated r) d)) = reserved d item wh"
  unfolding reserved_def by (rule sum_item_rows) (use assms in \<open>auto simp: good_rows sound_row_def\<close>)

lemma norm_rows_effect:
  assumes "good d" "0 \<le> q"
    and "norm_rows q (item_rows item wh (\<lambda>r. 0 < allocated r) d) d = (left, d')"
  shows "good d'" "reserved d' i w = reserved d i w - (if i = item \<and> w = wh then min q (reserved d i w) else 0)"
    "held d' i w = held d i w" "\<exists>inv. d' = d\<lparr>inventory := inv\<rparr>"
proof -
  let ?rs = "item_rows item wh (\<lambda>r. 0 < allocated r) d"
  have d': "d' = snd (norm_rows q ?rs d)" using assms(3) by simp
  have rows: "set ?rs \<subseteq> set (inventory d)" "distinct (map inv_id ?rs)" "\<And>r. r \<in> set ?rs \<Longrightarrow> 0 < allocated r"
    "\<And>r. r \<in> set ?rs \<Longrightarrow> 0 < allocated r \<and> inv_item r = item \<and> inv_wh r = wh"
    using item_rows_sub item_rows_distinct [OF good_wf [OF assms(1)]] by (auto simp: item_rows_member)
  note cover = item_rows_cover [OF assms(1), of item wh]
  show "good d'" unfolding d' by (rule norming.walk_good [OF assms(1) rows(1-3)])
  note tot = norming.walk_totals [OF assms(1) rows(1,2) assms(2) rows(4)]
  show "reserved d' i w = reserved d i w - (if i = item \<and> w = wh then min q (reserved d i w) else 0)"
    unfolding d' using tot(2) [where i = i and w = w] cover by auto
  show "held d' i w = held d i w" unfolding d' using tot(1) [where i = i and w = w] by simp
  show "\<exists>inv. d' = d\<lparr>inventory := inv\<rparr>" unfolding d' by (rule norming.walk_frame [OF rows(3)])
qed

lemma line_of_Some: "line_of so lid d = Some l \<Longrightarrow> l \<in> set (so_lines d) \<and> sol_id l = lid \<and> sol_so l = so"
  unfolding line_of_def using find_Some_iff_first by fast

lemma reserved_nonneg: "good d \<Longrightarrow> 0 \<le> reserved d i w"
  unfolding reserved_def total_def by (rule sum_list_nonneg) (auto simp: good_rows sound_row_def)

text \<open>The walk of a step from \<open>cur\<close> to \<open>tgt\<close>: what could not be taken stays \<open>left\<close>, and a release
  stops at zero.\<close>

lemma stepper_walk:
  assumes "good d" and w: "(if cur < tgt then hold_rows (tgt - cur) (fullest_rows item wh d) d
      else norm_rows (cur - tgt) (item_rows item wh (\<lambda>r. 0 < allocated r) d) d) = (left, d1)"
  shows "good d1 \<and> (\<exists>inv. d1 = d\<lparr>inventory := inv\<rparr>) \<and> (\<forall>i w. held d1 i w = held d i w
      \<and> reserved d1 i w = (if i = item \<and> w = wh
          then max 0 (reserved d i w + ((if cur < tgt then tgt - left else tgt) - cur)) else reserved d i w))
    \<and> (cur < tgt \<longrightarrow> 0 \<le> left \<and> left \<le> tgt - cur)"
proof (cases "cur < tgt")
  case up: True
  note e = hold_rows_effect [OF assms(1), of "tgt - cur" item wh left d1]
  have "0 \<le> free d item wh" by (rule free_nonneg [OF assms(1)])
  with e up w reserved_nonneg [OF assms(1), of item wh] show ?thesis by (auto simp: max_def)
next
  case down: False
  then have "0 \<le> cur - tgt" by simp
  from norm_rows_effect [OF assms(1) this, of item wh left d1] down w show ?thesis by (auto simp: max_def min_def)
qed

text \<open>Claim C26. The allocation stepper keeps a line and its warehouse in lockstep: whatever it
  answers, the line holds the answered value, and the warehouse's reservation of the item moved by
  exactly the difference, except that it never falls below zero: a reduction by more than the
  warehouse reserves releases all of it. A line whose unpicked units are reserved there, part picked
  or not, never meets the exception. No other reservation and no stock moved, reservations stay
  within stock, and a line between its picked and ordered quantities stays there.\<close>

theorem stepper_lockstep:
  assumes "adjust_sales_order_line_allocation so lid delta user d = Inr ((moved, v), d')" "good d"
    and "line_of so lid d = Some l" "find_so so d = Some x"
  shows "map_option sol_alloc (line_of so lid d') = Some v \<and> (moved \<longleftrightarrow> v \<noteq> sol_alloc l)
    \<and> (\<forall>i w. reserved d' i w =
           (if i = sol_item l \<and> w = so_wh x then max 0 (reserved d i w + (v - sol_alloc l)) else reserved d i w)
         \<and> held d' i w = held d i w \<and> reserved d' i w \<le> held d' i w)
    \<and> (sol_alloc l - sol_picked l \<le> reserved d (sol_item l) (so_wh x) \<longrightarrow>
         reserved d' (sol_item l) (so_wh x) = reserved d (sol_item l) (so_wh x) + (v - sol_alloc l))
    \<and> (sol_picked l \<le> sol_alloc l \<and> sol_alloc l \<le> sol_ordered l \<longrightarrow> sol_picked l \<le> v \<and> v \<le> sol_ordered l)"
proof -
  let ?cur = "sol_alloc l" and ?tgt = "max (sol_picked l) (min (sol_ordered l) (sol_alloc l + delta))"
  have bound: "reserved e i w \<le> held e i w" if "good e" for e i w
    using free_nonneg [OF that, of i w] by (simp add: free_def)
  note nn = reserved_nonneg [OF assms(2)]
  show ?thesis
  proof (cases "?tgt = ?cur")
    case True
    with assms(1,3,4) have "\<not> moved" "v = ?cur" "d' = d"
      by (simp_all add: adjust_sales_order_line_allocation_def Let_def)
    with assms(2,3) bound nn show ?thesis by (auto simp: max_def)
  next
    case False
    obtain left d1 where w: "(if ?cur < ?tgt then hold_rows (?tgt - ?cur) (fullest_rows (sol_item l) (so_wh x) d) d
        else norm_rows (?cur - ?tgt) (item_rows (sol_item l) (so_wh x) (\<lambda>r. 0 < allocated r) d) d) = (left, d1)"
      by fastforce
    let ?goal = "if ?cur < ?tgt then ?tgt - left else ?tgt"
    note walk = stepper_walk [OF assms(2) w]
    show ?thesis
    proof (cases "?goal = ?cur")
      case True
      with assms(1,3,4) False w have "\<not> moved" "v = ?cur" "d' = d"
        by (simp_all add: adjust_sales_order_line_allocation_def Let_def split: if_splits)
      with assms(2,3) bound nn show ?thesis by (auto simp: max_def)
    next
      case moves: False
      with assms(1,3,4) False w have m: "moved" "v = ?goal"
        and d': "d' = audit ''SO_LINE_UPDATED'' ''SO'' so user (so_wh x)
          (JObj [(''field_changed'', JStr ''quantity_allocated''), (''so_line_id'', JInt lid),
                 (''old_value'', JInt ?cur), (''new_value'', JInt ?goal)])
          (set_sol (Some lid) (\<lambda>y. y\<lparr>sol_alloc := ?goal\<rparr>) d1)"
        by (auto simp: adjust_sales_order_line_allocation_def Let_def split: if_splits)
      have t: "so_lines d1 = so_lines d" using walk by auto
      have inv: "inventory d' = inventory d1" by (simp add: d' set_sol_def)
      have "line_of so lid d' = Some (l\<lparr>sol_alloc := v\<rparr>)"
        using assms(3) line_of_Some [OF assms(3)] by (simp add: line_of_def d' set_sol_def t find_upd m(2))
      moreover have "reserved d' i w \<le> held d' i w" for i w
        using bound [of d1 i w] walk stock_cong(1,2) [OF inv] by simp
      moreover have res: "reserved d' i w = (if i = sol_item l \<and> w = so_wh x then max 0 (reserved d i w + (v - ?cur)) else reserved d i w)"
        "held d' i w = held d i w" for i w
        using walk stock_cong(1,2) [OF inv] unfolding m(2) by auto
      moreover have "sol_picked l \<le> v \<or> ?cur \<le> v"
        using walk unfolding m(2) by auto
      with nn [of "sol_item l" "so_wh x"] have "?cur - sol_picked l \<le> reserved d (sol_item l) (so_wh x) \<longrightarrow>
          reserved d' (sol_item l) (so_wh x) = reserved d (sol_item l) (so_wh x) + (v - ?cur)"
        unfolding res(1) by (auto simp: max_def)
      moreover have "sol_picked l \<le> ?cur \<and> ?cur \<le> sol_ordered l \<longrightarrow> sol_picked l \<le> v \<and> v \<le> sol_ordered l"
      proof (cases "?cur < ?tgt")
        case True
        with walk have "0 \<le> left" "left \<le> ?tgt - ?cur" by blast+
        with True show ?thesis unfolding m(2) by auto
      next
        case False
        then show ?thesis unfolding m(2) by auto
      qed
      moreover have "moved \<longleftrightarrow> v \<noteq> ?cur" using m(1) moves unfolding m(2) by simp
      ultimately show ?thesis by simp
    qed
  qed
qed

section \<open>Examples\<close>

definition demo_request :: so_request where
  "demo_request = \<lparr>nq_number = ''SO-9'', nq_wh = 1, nq_barcode = None, nq_customer = None, nq_method = None,
     nq_memo = None, nq_columns = Map.empty, nq_lines = [(7, 6, None), (7, 5, Some 2)]\<rparr>"

lemmas edit_defs = hold_row_def avail_def fullest_rows_def insert_so_def insert_sol_def find_item_def uuid4_def
  set_sol_def find_so_def line_of_def write_audit_log_def

text \<open>Eight units are free: the first line gets its six, the second two of its five.\<close>

lemma demo_create_order:
  "\<exists>so d'. create_sales_order demo_request ''admin'' demo_orders = Inr (so, d')
     \<and> map sol_alloc (so_lines d') = [0, 0, 6, 2] \<and> map allocated (inventory d') = [10]"
  by (simp add: create_sales_order_def create_line_def edit_defs demo_request_def demo_order_defs)

lemma demo_orders_good: "good demo_orders"
  by (simp add: good_rows inv_wf_def sound_row_def demo_order_defs)

theorem create_reserves_what_it_can_witness:
  "\<exists>so d' new. create_sales_order demo_request ''admin'' demo_orders = Inr (so, d')
    \<and> so_lines d' = so_lines demo_orders @ new
    \<and> (\<forall>l \<in> set new. sol_so l = so \<and> 0 \<le> sol_alloc l \<and> sol_alloc l \<le> sol_ordered l
         \<and> (sol_alloc l < sol_ordered l \<longrightarrow> free d' (sol_item l) 1 = 0))"
proof -
  obtain so d' where c: "create_sales_order demo_request ''admin'' demo_orders = Inr (so, d')"
    using demo_create_order by blast
  have "\<forall>(item, n, k) \<in> set (nq_lines demo_request). 0 < n" by (simp add: demo_request_def)
  moreover have "\<forall>l \<in> set (so_lines demo_orders). sol_id l < seqs demo_orders Seq_so_line"
    by (simp add: demo_order_defs)
  moreover have wh: "nq_wh demo_request = 1" by (simp add: demo_request_def)
  ultimately show ?thesis using create_reserves_what_it_can [OF c demo_orders_good, unfolded wh] c by blast
qed

text \<open>A step of nine on the free line reserves its five.\<close>

theorem stepper_lockstep_witness:
  "\<exists>d'. adjust_sales_order_line_allocation 1 1 9 ''admin'' demo_orders = Inr ((True, 5), d')
    \<and> map_option sol_alloc (line_of 1 1 d') = Some 5
    \<and> reserved d' 7 1 = reserved demo_orders 7 1 + 5 \<and> reserved d' 7 1 \<le> held d' 7 1"
proof -
  have "\<exists>d'. adjust_sales_order_line_allocation 1 1 9 ''admin'' demo_orders = Inr ((True, 5), d')"
    by (simp add: adjust_sales_order_line_allocation_def edit_defs demo_order_defs)
  then obtain d' where d': "adjust_sales_order_line_allocation 1 1 9 ''admin'' demo_orders = Inr ((True, 5), d')" ..
  obtain l x where l: "line_of 1 1 demo_orders = Some l" "sol_picked l = 0" "sol_alloc l = 0" "sol_item l = 7"
    and x: "find_so 1 demo_orders = Some x" "so_wh x = 1"
    by (simp add: edit_defs demo_order_defs)
  have "0 \<le> reserved demo_orders 7 1" by (rule reserved_nonneg [OF demo_orders_good])
  then have held: "sol_alloc l - sol_picked l \<le> reserved demo_orders (sol_item l) (so_wh x)" using l x by simp
  note k = stepper_lockstep [OF d' demo_orders_good l(1) x(1)]
  have "reserved d' 7 1 \<le> held d' 7 1" "map_option sol_alloc (line_of 1 1 d') = Some 5" using k by blast+
  moreover have "reserved d' (sol_item l) (so_wh x) = reserved demo_orders (sol_item l) (so_wh x) + (5 - sol_alloc l)"
    using k held by blast
  then have "reserved d' 7 1 = reserved demo_orders 7 1 + 5" using l(3,4) x(2) by simp
  ultimately show ?thesis using d' by blast
qed

text \<open>The request model fills \<open>so_barcode\<close> with null when the caller leaves it out, so the
  fallback to the order number never applies.\<close>

lemma created_order_has_no_barcode:
  "\<exists>so d'. create_sales_order demo_request ''admin'' demo_orders = Inr (so, d')
     \<and> map_option so_barcode (find_so so d') = Some None"
  by (simp add: create_sales_order_def create_line_def edit_defs demo_request_def demo_order_defs)

end
