(* ===== verification/Adjustments.thy ===== *)
theory Adjustments
  imports StockWalk
begin

text \<open>
  The adjustment ledger \<^verbatim>\<open>inventory_adjustments\<close>, written by partial fulfilment, cycle counts
  and the admin console, and what it explains: an approved row stands for one change of
  on-hand stock, so stock and the approved changes move together.
\<close>

definition insert_adjustment :: "adj_row \<Rightarrow> db \<Rightarrow> int \<times> db" where
  "insert_adjustment a d =
     (let (u, d1) = uuid4 d; (i, d2) = nextval Seq_adjustment d1
      in (i, d2\<lparr>adjustments := adjustments d2 @ [a\<lparr>adj_id := i, adj_ext := u\<rparr>]\<rparr>))"

definition adjusted :: "db \<Rightarrow> int \<Rightarrow> int" where
  "adjusted d item =
     total (\<lambda>a. adj_item a = item \<and> adj_state a = ADJ_APPROVED) adj_change (adjustments d)"

text \<open>The stock the approved adjustments do not explain.\<close>

definition unexplained :: "db \<Rightarrow> int \<Rightarrow> int" where
  "unexplained d item = stock d item - adjusted d item"

lemma insert_adjustment_frame [simp]:
  "inventory (snd (insert_adjustment a d)) = inventory d"
  "so_lines (snd (insert_adjustment a d)) = so_lines d"
  "sales_orders (snd (insert_adjustment a d)) = sales_orders d"
  "receipts (snd (insert_adjustment a d)) = receipts d"
  "count_lines (snd (insert_adjustment a d)) = count_lines d"
  "cycle_counts (snd (insert_adjustment a d)) = cycle_counts d"
  "preferred_bins (snd (insert_adjustment a d)) = preferred_bins d"
  "bins (snd (insert_adjustment a d)) = bins d"
  "items (snd (insert_adjustment a d)) = items d"
  "now (snd (insert_adjustment a d)) = now d"
  "q \<noteq> Seq_adjustment \<Longrightarrow> seqs (snd (insert_adjustment a d)) q = seqs d q"
  "fst (insert_adjustment a d) = seqs d Seq_adjustment"
  by (simp_all add: insert_adjustment_def uuid4_def split_beta)

lemma insert_adjustment_rows:
  "adjustments (snd (insert_adjustment a d))
     = adjustments d @ [a\<lparr>adj_id := seqs d Seq_adjustment, adj_ext := uuids d (uuid_ix d)\<rparr>]"
  "seqs (snd (insert_adjustment a d)) Seq_adjustment = seqs d Seq_adjustment + 1"
  by (simp_all add: insert_adjustment_def uuid4_def split_beta)

lemma insert_adjustment_adjusted:
  "adjusted (snd (insert_adjustment a d)) i
     = adjusted d i + (if adj_item a = i \<and> adj_state a = ADJ_APPROVED then adj_change a else 0)"
  by (simp add: adjusted_def insert_adjustment_rows)

text \<open>Statements that name an item and a bin touch one row when no bin holds two lots of
  the item.\<close>

definition one_lot :: "db \<Rightarrow> bool" where
  "one_lot d \<longleftrightarrow> distinct (map (\<lambda>r. (inv_item r, inv_bin r)) (inventory d))"

lemma one_lot_row:
  assumes "one_lot d" "inv_wf d" "r \<in> set (inventory d)" "inv_item r = item" "inv_bin r = bin"
  shows "upd (\<lambda>x. inv_item x = item \<and> inv_bin x = bin) f (inventory d)
    = upd (\<lambda>x. inv_id x = inv_id r) f (inventory d)"
proof -
  have ids: "distinct (map inv_id (inventory d))" using assms(2) by (simp add: inv_wf_def)
  have "inv_item x = item \<and> inv_bin x = bin \<longleftrightarrow> inv_id x = inv_id r" if "x \<in> set (inventory d)" for x
    using key_inj [OF assms(1) [unfolded one_lot_def] that assms(3)] key_inj [OF ids that assms(3)] assms(4,5)
    by auto
  then show ?thesis by (simp add: upd_def)
qed

text \<open>Changing the quantity of one row by \<open>q\<close>.\<close>

lemma change_row:
  assumes "good d" "r \<in> set (inventory d)" "sound_row (f r)"
    and "\<And>x. inv_id (f x) = inv_id x \<and> inv_item (f x) = inv_item x \<and> inv_key (f x) = inv_key x \<and> inv_bin (f x) = inv_bin x"
    and "on_hand (f r) = on_hand r + q"
    and "inventory d' = upd (\<lambda>x. inv_id x = inv_id r) f (inventory d)" "seqs d' Seq_inventory = seqs d Seq_inventory"
  shows "good d'" "stock d' i = stock d i + (if inv_item r = i then q else 0)" "one_lot d \<Longrightarrow> one_lot d'"
proof -
  have wf: "inv_wf d'"
    by (rule good_columns [OF good_wf [OF assms(1)]]) (simp_all add: assms(4,6,7) map_upd_same)
  have "sound_row x" if "x \<in> set (inventory d')" for x
  proof -
    from that obtain y where y: "y \<in> set (inventory d)" "x = (if inv_id y = inv_id r then f y else y)"
      by (auto simp: assms(6) set_upd)
    have "y = r" if "inv_id y = inv_id r" using key_inj [OF good_distinct [OF assms(1)] y(1) assms(2) that] .
    with y assms(1,3) show ?thesis by (auto simp: good_rows)
  qed
  with wf show "good d'" by (simp add: good_rows)
  show "stock d' i = stock d i + (if inv_item r = i then q else 0)"
    unfolding stock_def assms(6)
    using total_upd_key [OF good_distinct [OF assms(1)] assms(2), of "\<lambda>x. inv_item x = i" f on_hand] assms(4,5)
    by simp
  show "one_lot d \<Longrightarrow> one_lot d'" by (simp add: one_lot_def assms(4,6) map_upd_same)
qed

end
