(* ===== verification/Backorders.thy ===== *)
theory Backorders
  imports OrderLines Adjustments
begin

text \<open>
  Partial fulfilment in \<^verbatim>\<open>api/routes/admin/admin_orders.py\<close>: shrinking the lines of an open or
  picked order, writing a SHORT adjustment for units that are on the shelf but were declared
  missing, opening a backorder for the rest, and cancelling one. The release of backorders
  when stock arrives is in \<open>Inventory\<close>.
\<close>

section \<open>Short adjustments\<close>

definition short_rows :: "int \<Rightarrow> int \<Rightarrow> db \<Rightarrow> inv_row list" where
  "short_rows item wh d =
     sort_key (\<lambda>r. (- avail r, inv_bin r))
       (filter (\<lambda>r. inv_item r = item \<and> inv_wh r = wh \<and> 0 < avail r) (inventory d))"

text \<open>The decrement names item and bin: every lot row of the bin falls, floored at zero.\<close>

definition lose_stock :: "int \<Rightarrow> int \<Rightarrow> int \<Rightarrow> db \<Rightarrow> db" where
  "lose_stock item bin q d =
     d\<lparr>inventory := upd (\<lambda>r. inv_item r = item \<and> inv_bin r = bin)
        (\<lambda>r. r\<lparr>on_hand := max 0 (on_hand r - q), inv_updated := now d\<rparr>) (inventory d)\<rparr>"

definition write_short_adjustment ::
    "int \<Rightarrow> int \<Rightarrow> int \<Rightarrow> string \<Rightarrow> string \<Rightarrow> string \<Rightarrow> db \<Rightarrow> int \<times> db" where
  "write_short_adjustment item wh short_qty detail bo user d =
     (case short_rows item wh d of
        [] \<Rightarrow> (0, d)
      | r # _ \<Rightarrow>
          let q = min (avail r) short_qty in
          if q \<le> 0 then (0, d)
          else (q, snd (insert_adjustment
                 \<lparr>adj_id = 0, adj_item = item, adj_bin = inv_bin r, adj_wh = wh, adj_change = - q,
                  adj_reason = ''SHORT'', adj_detail = Some (detail @ '' (BO: '' @ bo @ '')''),
                  adj_state = ADJ_APPROVED, adj_by = user, adj_at = now d, adj_count = None, adj_ext = ''''\<rparr>
                 (lose_stock item (inv_bin r) q d))))"

section \<open>Partial fulfilment\<close>

datatype backorder_error =
  BE_not_found
| BE_status so_status
| BE_return
| BE_chained
| BE_forbidden
| BE_line_not_on int
| BE_exceeds int int
| BE_reason
| BE_not_backorder
| BE_already_cancelled
| BE_cancel cancel_error
| BE_internal

record short_entry =
  se_line :: int
  se_qty :: int

text \<open>The lines as read before the first write, with their items.\<close>

fun short_inputs :: "int \<Rightarrow> short_entry list \<Rightarrow> db \<Rightarrow> backorder_error + (short_entry \<times> sol_row \<times> item_row) list" where
  "short_inputs so [] d = Inr []"
| "short_inputs so (e # es) d =
     (case line_item so (se_line e) d of
        None \<Rightarrow> Inl (BE_line_not_on (se_line e))
      | Some (l, i) \<Rightarrow>
          if sol_ordered l - sol_picked l < se_qty e then Inl (BE_exceeds (se_line e) (se_qty e))
          else (case short_inputs so es d of Inl x \<Rightarrow> Inl x | Inr ls \<Rightarrow> Inr ((e, l, i) # ls)))"

text \<open>Step 2 on one line: the new quantity comes from the line as it was read.\<close>

definition shrink_line :: "short_entry \<Rightarrow> sol_row \<Rightarrow> db \<Rightarrow> db option" where
  "shrink_line e l d =
     (if sol_ordered l - se_qty e = 0 then delete_sol (sol_id l) d
      else Some (set_sol (Some (sol_id l)) (\<lambda>x. x\<lparr>sol_ordered := sol_ordered l - se_qty e\<rparr>) d))"

record shrink =
  sh_line :: sol_row
  sh_item :: item_row
  sh_qty :: int
  sh_adjusted :: int

fun shrink_lines ::
    "int \<Rightarrow> string \<Rightarrow> string \<Rightarrow> string \<Rightarrow> (short_entry \<times> sol_row \<times> item_row) list \<Rightarrow> db
      \<Rightarrow> (shrink list \<times> db) option" where
  "shrink_lines wh detail bo user [] d = Some ([], d)"
| "shrink_lines wh detail bo user ((e, l, i) # ls) d =
     (case shrink_line e l d of
        None \<Rightarrow> None
      | Some d1 \<Rightarrow>
          let (q, d2) = write_short_adjustment (sol_item l) wh (se_qty e) detail bo user d1 in
          (case shrink_lines wh detail bo user ls d2 of
             None \<Rightarrow> None
           | Some (ss, d3) \<Rightarrow>
               Some (\<lparr>sh_line = l, sh_item = i, sh_qty = se_qty e, sh_adjusted = q\<rparr> # ss, d3)))"

definition copied_columns :: "string set" where
  "copied_columns = {''customer_id'', ''customer_phone'', ''customer_address'', ''ship_address'', ''source_system'',
     ''billing_address_name'', ''billing_address_line1'', ''billing_address_line2'', ''billing_address_city'',
     ''billing_address_state'', ''billing_address_postal_code'', ''billing_address_country'',
     ''billing_address_phone'', ''shipping_address_name'', ''shipping_address_line1'',
     ''shipping_address_line2'', ''shipping_address_city'', ''shipping_address_state'',
     ''shipping_address_postal_code'', ''shipping_address_country'', ''shipping_address_phone''}"

definition backorder_row :: "so_row \<Rightarrow> string \<Rightarrow> string \<Rightarrow> db \<Rightarrow> so_row" where
  "backorder_row so ext user d =
     new_so\<lparr>so_number := so_number so @ ''-BO'', so_customer := so_customer so, so_state := SO_WAITING_STOCK,
       so_wh := so_wh so, so_method := so_method so, so_columns := so_columns so |` copied_columns,
       so_memo := Some (''[BACKORDER from '' @ so_number so @ '']'' @ [char_of (10 :: nat)]
                        @ (case so_memo so of None \<Rightarrow> '''' | Some m \<Rightarrow> m)),
       so_type := OT_backorder, so_parent := Some (so_id so), so_opened := Some (now d),
       so_created_by := Some user, so_ext := ext\<rparr>"

fun backorder_lines_from :: "int \<Rightarrow> int \<Rightarrow> shrink list \<Rightarrow> db \<Rightarrow> db option" where
  "backorder_lines_from bo n [] d = Some d"
| "backorder_lines_from bo n (s # ss) d =
     (case insert_sol (new_sol\<lparr>sol_so := bo, sol_item := sol_item (sh_line s), sol_ordered := sh_qty s,
             sol_number := n\<rparr>) d of
        None \<Rightarrow> None | Some (_, d1) \<Rightarrow> backorder_lines_from bo (n + 1) ss d1)"

definition shrink_json :: "shrink \<Rightarrow> json" where
  "shrink_json s =
     JObj [(''so_line_id'', JInt (sol_id (sh_line s))), (''sku'', JStr (item_sku (sh_item s))),
           (''line_number'', JInt (sol_number (sh_line s))), (''ordered_before'', JInt (sol_ordered (sh_line s))),
           (''short_qty'', JInt (sh_qty s)), (''ordered_after'', JInt (sol_ordered (sh_line s) - sh_qty s)),
           (''line_deleted'', JBool (sol_ordered (sh_line s) - sh_qty s = 0)),
           (''adjustment_qty'', JInt (sh_adjusted s))]"

text \<open>Steps 5 and 6: two audit rows and the event.\<close>

definition report_opened ::
    "so_row \<Rightarrow> int \<Rightarrow> string \<Rightarrow> string \<Rightarrow> shrink list \<Rightarrow> string \<Rightarrow> string \<Rightarrow> db \<Rightarrow> json \<times> db" where
  "report_opened so bo ext detail ss user txn d =
     (let number = so_number so @ ''-BO'';
          d1 = audit ''PARTIAL_FULFILL'' ''SO'' (so_id so) user (so_wh so)
            (JObj [(''kind'', JStr ''shrink''), (''bo_so_id'', JInt bo), (''bo_so_number'', JStr number),
                   (''reason_detail'', JStr detail), (''pre_status'', JStr (status_text (so_state so))),
                   (''lines'', JArr (map shrink_json ss))]) d;
          d2 = audit ''PARTIAL_FULFILL'' ''SO'' bo user (so_wh so)
            (JObj [(''kind'', JStr ''created_from_partial_fulfill''), (''parent_so_id'', JInt (so_id so)),
                   (''parent_so_number'', JStr (so_number so)),
                   (''lines'', JArr [JObj [(''sku'', JStr (item_sku (sh_item s))), (''qty'', JInt (sh_qty s))].
                                     s \<leftarrow> ss])]) d1;
          p = JObj [(''backorder_so_external_id'', JStr ext), (''backorder_so_number'', JStr number),
                    (''parent_so_external_id'', JStr (so_ext so)), (''parent_so_number'', JStr (so_number so)),
                    (''warehouse_id'', JInt (so_wh so)), (''customer_name'', jopt JStr (so_customer so)),
                    (''items'', JArr [JObj [(''item_external_id'', JStr (item_ext (sh_item s))),
                                            (''sku'', JStr (item_sku (sh_item s))),
                                            (''item_name'', JStr (item_name (sh_item s))),
                                            (''qty'', JInt (sh_qty s))]. s \<leftarrow> ss]),
                    (''opened_by_user_external_id'', jopt JStr (get_user_external_id user d2)),
                    (''opened_at'', JTime (now d2))]
      in (p, snd (emit_event ''backorder.opened'' 1 ''sales_order'' bo ext (so_wh so) txn p d2)))"

definition detail_base :: "string option \<Rightarrow> string" where
  "detail_base r =
     (case r of
        None \<Rightarrow> ''partial-fulfill''
      | Some t \<Rightarrow> if strip t = [] then ''partial-fulfill'' else strip t)"

definition fulfil_gate :: "session \<Rightarrow> bool \<Rightarrow> so_row \<Rightarrow> backorder_error option" where
  "fulfil_gate s override so =
     (if so_state so \<noteq> SO_OPEN \<and> so_state so \<noteq> SO_PICKED then Some (BE_status (so_state so))
      else if \<not> order_type_allows_fulfillment_ops (so_type so) then Some BE_return
      else if so_type so = OT_backorder then Some BE_chained
      else if so_state so = SO_PICKED \<and> \<not> s_admin s \<and> \<not> override then Some BE_forbidden
      else None)"

text \<open>The writes, after the checks. The result: the backorder, its summary and its card.\<close>

definition open_backorder ::
    "so_row \<Rightarrow> (short_entry \<times> sol_row \<times> item_row) list \<Rightarrow> string \<Rightarrow> string \<Rightarrow> string \<Rightarrow> db
      \<Rightarrow> ((int \<times> shrink list \<times> notification) \<times> db) option" where
  "open_backorder so ins detail user txn d =
     (case shrink_lines (so_wh so) detail (so_number so @ ''-BO'') user ins d of
        None \<Rightarrow> None
      | Some (ss, d1) \<Rightarrow>
          let (ext, d2) = uuid4 d1 in
          (case insert_so (backorder_row so ext user d2) d2 of
             None \<Rightarrow> None
           | Some (bo, d3) \<Rightarrow>
               (case backorder_lines_from bo 1 ss d3 of
                  None \<Rightarrow> None
                | Some d4 \<Rightarrow>
                    let (p, d5) = report_opened so bo ext detail ss user txn d4
                    in Some ((bo, ss, (''backorder.opened'', p, so_wh so)), d5))))"

definition partial_fulfill_sales_order ::
    "session \<Rightarrow> bool \<Rightarrow> int \<Rightarrow> short_entry list \<Rightarrow> string option \<Rightarrow> db
      \<Rightarrow> backorder_error + ((int \<times> shrink list \<times> notification) \<times> db)" where
  "partial_fulfill_sales_order s override so es reason d =
     (case find_so so d of
        None \<Rightarrow> Inl BE_not_found
      | Some x \<Rightarrow>
          (case fulfil_gate s override x of
             Some e \<Rightarrow> Inl e
           | None \<Rightarrow>
               (case short_inputs so es d of
                  Inl e \<Rightarrow> Inl e
                | Inr ins \<Rightarrow>
                    (case open_backorder x ins (detail_base reason) (s_user s) (s_txn s) d of
                       None \<Rightarrow> Inl BE_internal | Some r \<Rightarrow> Inr r))))"

section \<open>Cancelling a backorder\<close>

definition cancel_reasons :: "string list" where
  "cancel_reasons = [''found'', ''customer_asked'', ''refunded'', ''parent_cancelled'', ''other'']"

definition backorder_reason :: "string option \<Rightarrow> string" where
  "backorder_reason r = strip (case r of None \<Rightarrow> ''other'' | Some t \<Rightarrow> if t = [] then ''other'' else t)"

definition cancel_backorder ::
    "session \<Rightarrow> int \<Rightarrow> string option \<Rightarrow> db \<Rightarrow> backorder_error + (cancel_result \<times> db)" where
  "cancel_backorder s bo reason d =
     (let r = backorder_reason reason in
      if r \<notin> set cancel_reasons then Inl BE_reason
      else
        (case find_so bo d of
           None \<Rightarrow> Inl BE_not_found
         | Some x \<Rightarrow>
             if so_parent x = None \<or> so_type x \<noteq> OT_backorder then Inl BE_not_backorder
             else if so_state x = SO_CANCELLED then Inl BE_already_cancelled
             else
               (case cancel_sales_order bo By_admin (s_user s) (Some (s_txn s)) (stamp_reason bo r d) of
                  Inl e \<Rightarrow> Inl (BE_cancel e)
                | Inr (res, d1) \<Rightarrow>
                    Inr (res, if r = ''refunded'' then set_so_state bo SO_REFUNDED d1 else d1))))"

section \<open>What a partial fulfilment conserves\<close>

definition ordered_on :: "int \<Rightarrow> int \<Rightarrow> db \<Rightarrow> int" where
  "ordered_on so item d = total (\<lambda>l. sol_so l = so \<and> sol_item l = item) sol_ordered (so_lines d)"

definition lines_sound :: "db \<Rightarrow> bool" where
  "lines_sound d \<longleftrightarrow> distinct (map sol_id (so_lines d))
     \<and> (\<forall>l \<in> set (so_lines d). 0 \<le> sol_picked l \<and> sol_picked l \<le> sol_ordered l)"

lemma write_short_adjustment_frame:
  assumes "write_short_adjustment item wh n detail bo user d = (q, d')"
  shows "so_lines d' = so_lines d" "sales_orders d' = sales_orders d" "receipts d' = receipts d"
    "seqs d' Seq_so = seqs d Seq_so" "seqs d' Seq_so_line = seqs d Seq_so_line"
  using assms by (auto simp: write_short_adjustment_def lose_stock_def Let_def split: list.splits if_splits)

text \<open>A short adjustment takes available units of one row and books exactly those.\<close>

lemma write_short_adjustment_books:
  assumes "write_short_adjustment item wh n detail bo user d = (q, d')" "good d" "one_lot d"
  shows "good d'" "one_lot d'" "unexplained d' i = unexplained d i"
proof -
  have "good d' \<and> one_lot d' \<and> unexplained d' i = unexplained d i"
  proof (cases "d' = d")
    case True
    with assms(2,3) show ?thesis by simp
  next
    case False
    with assms(1) obtain r rs where rs: "short_rows item wh d = r # rs" and n: "\<not> min (avail r) n \<le> 0"
      by (auto simp: write_short_adjustment_def Let_def simp del: min_le_iff_disj split: list.splits if_splits)
    let ?q = "min (avail r) n"
    let ?d1 = "lose_stock item (inv_bin r) ?q d"
    have "r \<in> set (short_rows item wh d)" by (simp add: rs)
    then have r: "r \<in> set (inventory d)" "inv_item r = item" by (auto simp: short_rows_def)
    have sr: "sound_row r" using assms(2) r(1) by (simp add: good_rows)
    define f where "f = (\<lambda>x :: inv_row. x\<lparr>on_hand := max 0 (on_hand x - ?q), inv_updated := now d\<rparr>)"
    have inv: "inventory ?d1 = upd (\<lambda>x. inv_id x = inv_id r) f (inventory d)"
      using one_lot_row [OF assms(3) good_wf [OF assms(2)] r(1,2) refl]
      by (simp add: lose_stock_def f_def)
    have f: "sound_row (f r)" "on_hand (f r) = on_hand r + - ?q"
      using sr n by (auto simp: f_def sound_row_def avail_def)
    note c = change_row [OF assms(2) r(1) f(1) _ f(2) inv]
    have k: "inv_id (f x) = inv_id x \<and> inv_item (f x) = inv_item x \<and> inv_key (f x) = inv_key x \<and> inv_bin (f x) = inv_bin x" for x
      by (simp add: f_def inv_key_def)
    have sq: "seqs ?d1 Seq_inventory = seqs d Seq_inventory" by (simp add: lose_stock_def)
    have ad: "adjusted ?d1 i = adjusted d i" by (simp add: adjusted_def lose_stock_def)
    from assms(1) rs n have d': "\<exists>a. d' = snd (insert_adjustment a ?d1) \<and> adj_item a = item
        \<and> adj_state a = ADJ_APPROVED \<and> adj_change a = - ?q"
      by (auto simp: write_short_adjustment_def Let_def)
    then obtain a where a: "d' = snd (insert_adjustment a ?d1)" "adj_item a = item" "adj_state a = ADJ_APPROVED"
      "adj_change a = - ?q" by blast
    have i': "inventory d' = inventory ?d1" "seqs d' Seq_inventory = seqs ?d1 Seq_inventory" by (simp_all add: a(1))
    have "good d'" using good_cong [OF i'] c(1) [OF k sq] by simp
    moreover have "one_lot d'" using c(3) [OF k sq assms(3)] by (simp add: one_lot_def i'(1))
    moreover have "unexplained d' i = unexplained d i"
      using c(2) [OF k sq, of i] stock_cong(3) [OF i'(1)] insert_adjustment_adjusted [of a ?d1 i]
      by (simp add: unexplained_def a r(2) ad)
    ultimately show ?thesis by simp
  qed
  then show "good d'" "one_lot d'" "unexplained d' i = unexplained d i" by auto
qed

text \<open>Shrinking a line by \<open>q\<close>, or deleting it when nothing is left.\<close>

lemma total_filter_key:
  assumes "distinct (map k t)" "r \<in> set t"
  shows "total P g (filter (\<lambda>x. k x \<noteq> k r) t) = total P g t - (if P r then g r else 0)"
proof -
  have "total P g t = total (\<lambda>x. k x = k r) (\<lambda>x. if P x then g x else 0) t
      + total P g (filter (\<lambda>x. k x \<noteq> k r) t)"
    by (induction t) auto
  with total_at_key [OF assms, of "\<lambda>x. if P x then g x else 0"] show ?thesis by simp
qed

lemma delete_sol_Some:
  assumes "delete_sol lid d = Some d'"
  shows "so_lines d' = filter (\<lambda>l. sol_id l \<noteq> lid) (so_lines d)" "sales_orders d' = sales_orders d"
    "inventory d' = inventory d" "adjustments d' = adjustments d" "seqs d' = seqs d" "receipts d' = receipts d"
  using assms by (auto simp: delete_sol_def split: if_splits)

lemma shrink_line_effect:
  assumes "shrink_line e l d = Some d'" "lines_sound d" "l \<in> set (so_lines d)"
    and "0 < se_qty e" "se_qty e \<le> sol_ordered l - sol_picked l"
  shows "lines_sound d'" "inventory d' = inventory d" "adjustments d' = adjustments d" "seqs d' = seqs d"
    "sales_orders d' = sales_orders d" "receipts d' = receipts d"
    "ordered_on s i d' = ordered_on s i d - (if sol_so l = s \<and> sol_item l = i then se_qty e else 0)"
    "picked_total s d' = picked_total s d"
    "k \<in> set (so_lines d) \<Longrightarrow> sol_id k \<noteq> sol_id l \<Longrightarrow> k \<in> set (so_lines d')"
proof -
  have ids: "distinct (map sol_id (so_lines d))" and pl: "0 \<le> sol_picked l"
    using assms(2,3) by (auto simp: lines_sound_def)
  let ?f = "\<lambda>x. x\<lparr>sol_ordered := sol_ordered l - se_qty e\<rparr>"
  have "lines_sound d' \<and> inventory d' = inventory d \<and> adjustments d' = adjustments d \<and> seqs d' = seqs d
    \<and> sales_orders d' = sales_orders d \<and> receipts d' = receipts d
    \<and> ordered_on s i d' = ordered_on s i d - (if sol_so l = s \<and> sol_item l = i then se_qty e else 0)
    \<and> picked_total s d' = picked_total s d
    \<and> (k \<in> set (so_lines d) \<longrightarrow> sol_id k \<noteq> sol_id l \<longrightarrow> k \<in> set (so_lines d'))"
  proof (cases "sol_ordered l - se_qty e = 0")
    case True
    with assms(1) have del: "delete_sol (sol_id l) d = Some d'" by (simp add: shrink_line_def)
    have "sol_picked l = 0" "se_qty e = sol_ordered l" using True assms(5) pl by auto
    with delete_sol_Some [OF del] assms(2) show ?thesis
      using total_filter_key [OF ids assms(3), of "\<lambda>x. sol_so x = s \<and> sol_item x = i" sol_ordered]
        total_filter_key [OF ids assms(3), of "\<lambda>x. sol_so x = s" sol_picked]
      by (auto simp: ordered_on_def picked_total_def lines_sound_def distinct_filter_ids)
  next
    case False
    with assms(1) have d': "d' = set_sol (Some (sol_id l)) ?f d" by (simp add: shrink_line_def)
    then have ls: "so_lines d' = upd (\<lambda>x. sol_id x = sol_id l) ?f (so_lines d)" by (simp add: set_sol_def)
    have "0 \<le> sol_picked x \<and> sol_picked x \<le> sol_ordered x" if x: "x \<in> set (so_lines d')" for x
    proof -
      from x obtain y where y: "y \<in> set (so_lines d)" "x = (if sol_id y = sol_id l then ?f y else y)"
        by (auto simp: ls set_upd)
      show ?thesis
      proof (cases "sol_id y = sol_id l")
        case True
        then have "y = l" using key_inj [OF ids y(1) assms(3)] by simp
        with y(2) assms(5) pl show ?thesis by simp
      next
        case False
        with y assms(2) show ?thesis by (auto simp: lines_sound_def)
      qed
    qed
    then have "lines_sound d'" using ids by (simp add: lines_sound_def ls map_upd_same)
    moreover have "inventory d' = inventory d" "adjustments d' = adjustments d" "seqs d' = seqs d"
      "sales_orders d' = sales_orders d" "receipts d' = receipts d" by (simp_all add: d' set_sol_def)
    moreover have "ordered_on s i d' = ordered_on s i d - (if sol_so l = s \<and> sol_item l = i then se_qty e else 0)"
      using total_upd_key [OF ids assms(3), of "\<lambda>x. sol_so x = s \<and> sol_item x = i" ?f sol_ordered]
      by (simp add: ordered_on_def ls)
    moreover have "picked_total s d' = picked_total s d"
      unfolding picked_total_def ls by (rule total_upd_other) auto
    ultimately show ?thesis using in_upd_other [of k "so_lines d" "\<lambda>x. sol_id x = sol_id l"] by (auto simp: ls)
  qed
  then show "lines_sound d'" "inventory d' = inventory d" "adjustments d' = adjustments d" "seqs d' = seqs d"
    "sales_orders d' = sales_orders d" "receipts d' = receipts d"
    "ordered_on s i d' = ordered_on s i d - (if sol_so l = s \<and> sol_item l = i then se_qty e else 0)"
    "picked_total s d' = picked_total s d"
    "k \<in> set (so_lines d) \<Longrightarrow> sol_id k \<noteq> sol_id l \<Longrightarrow> k \<in> set (so_lines d')" by blast+
qed

text \<open>What the entries take from the lines of order \<open>so\<close> that want item \<open>i\<close>.\<close>

abbreviation shorted :: "int \<Rightarrow> int \<Rightarrow> (short_entry \<times> sol_row \<times> item_row) list \<Rightarrow> int" where
  "shorted so i ins \<equiv> total (\<lambda>p. sol_so (fst (snd p)) = so \<and> sol_item (fst (snd p)) = i) (\<lambda>p. se_qty (fst p)) ins"

lemma shrink_lines_effect:
  assumes "shrink_lines wh detail bo user ins d = Some (ss, d')" "lines_sound d" "good d" "one_lot d"
    and "distinct (map (\<lambda>(e, l, _). sol_id l) ins)"
    and "\<forall>(e, l, _) \<in> set ins. l \<in> set (so_lines d) \<and> 0 < se_qty e \<and> se_qty e \<le> sol_ordered l - sol_picked l"
  shows "lines_sound d' \<and> good d' \<and> one_lot d' \<and> unexplained d' i = unexplained d i
    \<and> ordered_on s i d' = ordered_on s i d - shorted s i ins \<and> picked_total s d' = picked_total s d
    \<and> sales_orders d' = sales_orders d \<and> seqs d' Seq_so = seqs d Seq_so \<and> seqs d' Seq_so_line = seqs d Seq_so_line
    \<and> map (\<lambda>s. (sol_item (sh_line s), sh_qty s)) ss = map (\<lambda>(e, l, _). (sol_item l, se_qty e)) ins
    \<and> sol_id ` set (so_lines d') \<subseteq> sol_id ` set (so_lines d)
    \<and> sol_so ` set (so_lines d') \<subseteq> sol_so ` set (so_lines d)"
  using assms
proof (induction ins arbitrary: d ss)
  case Nil
  then show ?case by simp
next
  case (Cons x ins)
  obtain e l it where x: "x = (e, l, it)" by (cases x) auto
  from Cons.prems(1) x obtain d1 where d1: "shrink_line e l d = Some d1" by (auto split: option.splits)
  obtain q d2 where w: "write_short_adjustment (sol_item l) wh (se_qty e) detail bo user d1 = (q, d2)" by fastforce
  from Cons.prems(1) x d1 w obtain ss' where r: "shrink_lines wh detail bo user ins d2 = Some (ss', d')"
    and ss: "ss = \<lparr>sh_line = l, sh_item = it, sh_qty = se_qty e, sh_adjusted = q\<rparr> # ss'"
    by (auto split: option.splits)
  have l: "l \<in> set (so_lines d)" "0 < se_qty e" "se_qty e \<le> sol_ordered l - sol_picked l"
    using Cons.prems(6) by (auto simp: x)
  note a = shrink_line_effect [OF d1 Cons.prems(2) l]
  have i1: "good d1" "one_lot d1" "unexplained d1 i = unexplained d i"
    using Cons.prems(3,4) good_cong [of d1 d] a(2,3,4) stock_cong(3) [OF a(2)]
    by (simp_all add: one_lot_def unexplained_def adjusted_def)
  note f = write_short_adjustment_frame [OF w]
  note b = write_short_adjustment_books [OF w i1(1,2)]
  have ls2: "lines_sound d2" using a(1) by (simp add: lines_sound_def f)
  have tail: "\<forall>(e, k, _) \<in> set ins. k \<in> set (so_lines d2) \<and> 0 < se_qty e \<and> se_qty e \<le> sol_ordered k - sol_picked k"
  proof -
    have "sol_id k \<noteq> sol_id l" if "(e', k, u) \<in> set ins" for e' k u
      using Cons.prems(5) that by (force simp: x)
    with Cons.prems(6) a(9) show ?thesis by (fastforce simp: f(1))
  qed
  have ids: "sol_id ` set (so_lines d1) \<subseteq> sol_id ` set (so_lines d)" "sol_so ` set (so_lines d1) \<subseteq> sol_so ` set (so_lines d)"
    using d1 l(1) by (auto simp: shrink_line_def delete_sol_def set_sol_def set_upd split: if_splits intro: rev_image_eqI)
  have ih: "lines_sound d' \<and> good d' \<and> one_lot d' \<and> unexplained d' i = unexplained d2 i
    \<and> ordered_on s i d' = ordered_on s i d2 - shorted s i ins \<and> picked_total s d' = picked_total s d2
    \<and> sales_orders d' = sales_orders d2 \<and> seqs d' Seq_so = seqs d2 Seq_so \<and> seqs d' Seq_so_line = seqs d2 Seq_so_line
    \<and> map (\<lambda>s. (sol_item (sh_line s), sh_qty s)) ss' = map (\<lambda>(e, l, _). (sol_item l, se_qty e)) ins
    \<and> sol_id ` set (so_lines d') \<subseteq> sol_id ` set (so_lines d2)
    \<and> sol_so ` set (so_lines d') \<subseteq> sol_so ` set (so_lines d2)"
    by (rule Cons.IH [OF r ls2 b(1,2) _ tail]) (use Cons.prems(5) in simp)
  have o2: "ordered_on s i d2 = ordered_on s i d1" "picked_total s d2 = picked_total s d1"
    by (simp_all add: ordered_on_def picked_total_def f)
  have "sol_id ` set (so_lines d') \<subseteq> sol_id ` set (so_lines d1)" "sol_so ` set (so_lines d') \<subseteq> sol_so ` set (so_lines d1)"
    using ih by (simp_all add: f(1))
  note sub = subset_trans [OF this(1) ids(1)] subset_trans [OF this(2) ids(2)]
  have "unexplained d' i = unexplained d i" "picked_total s d' = picked_total s d" "sales_orders d' = sales_orders d"
    "seqs d' Seq_so = seqs d Seq_so" "seqs d' Seq_so_line = seqs d Seq_so_line"
    "ordered_on s i d' = ordered_on s i d - shorted s i (x # ins)"
    using ih a(7) [of s i] by (simp_all add: x f b(3) i1(3) a(4,5,8) o2)
  with ih sub show ?case by (simp add: x ss)
qed

lemma short_inputs_Inr:
  "short_inputs so es d = Inr ins \<Longrightarrow>
     map (\<lambda>(e, _, _). e) ins = es \<and> (\<forall>(e, l, _) \<in> set ins. l \<in> set (so_lines d) \<and> sol_so l = so
       \<and> sol_id l = se_line e \<and> se_qty e \<le> sol_ordered l - sol_picked l)"
proof (induction es arbitrary: ins)
  case Nil
  then show ?case by simp
next
  case (Cons e es)
  from Cons.prems obtain l i where li: "line_item so (se_line e) d = Some (l, i)"
    by (auto split: option.splits)
  with Cons.prems obtain ls where r: "short_inputs so es d = Inr ls" "ins = (e, l, i) # ls"
    "se_qty e \<le> sol_ordered l - sol_picked l" by (auto split: if_splits sum.splits)
  from li have "line_of so (se_line e) d = Some l" by (auto simp: line_item_def split: option.splits)
  with line_of_Some [OF this] Cons.IH [OF r(1)] r(2,3) show ?case by auto
qed

lemma backorder_lines_Some:
  "backorder_lines_from bo n ss d = Some d' \<Longrightarrow>
     \<exists>new. so_lines d' = so_lines d @ new \<and> (\<forall>l \<in> set new. sol_so l = bo \<and> sol_picked l = 0
         \<and> seqs d Seq_so_line \<le> sol_id l) \<and> distinct (map sol_id new)
       \<and> map (\<lambda>l. (sol_item l, sol_ordered l)) new = map (\<lambda>s. (sol_item (sh_line s), sh_qty s)) ss
       \<and> sales_orders d' = sales_orders d \<and> inventory d' = inventory d \<and> adjustments d' = adjustments d
       \<and> seqs d' Seq_inventory = seqs d Seq_inventory"
proof (induction ss arbitrary: n d)
  case Nil
  then show ?case by simp
next
  case (Cons s ss)
  let ?r = "new_sol\<lparr>sol_so := bo, sol_item := sol_item (sh_line s), sol_ordered := sh_qty s, sol_number := n\<rparr>"
  from Cons.prems obtain i d1 where i: "insert_sol ?r d = Some (i, d1)" "backorder_lines_from bo (n + 1) ss d1 = Some d'"
    by (auto split: option.splits)
  note f = insert_sol_Some [OF i(1)]
  have ad: "adjustments d1 = adjustments d" using i(1) by (auto simp: insert_sol_def split_beta split: if_splits)
  from Cons.IH [OF i(2)] obtain new where new: "so_lines d' = so_lines d1 @ new"
    "\<forall>l \<in> set new. sol_so l = bo \<and> sol_picked l = 0 \<and> seqs d1 Seq_so_line \<le> sol_id l" "distinct (map sol_id new)"
    "map (\<lambda>l. (sol_item l, sol_ordered l)) new = map (\<lambda>s. (sol_item (sh_line s), sh_qty s)) ss"
    "sales_orders d' = sales_orders d1" "inventory d' = inventory d1" "adjustments d' = adjustments d1"
    "seqs d' Seq_inventory = seqs d1 Seq_inventory" by blast
  show ?case
    by (rule exI [of _ "?r\<lparr>sol_id := i\<rparr> # new"]) (use new f ad in \<open>fastforce simp: new_sol_def\<close>)
qed

lemma insert_so_adjustments: "insert_so r d = Some (i, d') \<Longrightarrow> adjustments d' = adjustments d"
  by (auto simp: insert_so_def split_beta split: if_splits)

lemma report_opened_frame:
  "so_lines (snd (report_opened so bo ext detail ss user txn d)) = so_lines d"
  "sales_orders (snd (report_opened so bo ext detail ss user txn d)) = sales_orders d"
  "inventory (snd (report_opened so bo ext detail ss user txn d)) = inventory d"
  "adjustments (snd (report_opened so bo ext detail ss user txn d)) = adjustments d"
  "seqs (snd (report_opened so bo ext detail ss user txn d)) Seq_inventory = seqs d Seq_inventory"
  by (simp_all add: report_opened_def Let_def)

lemma partial_fulfill_Inr:
  assumes "partial_fulfill_sales_order s override so es reason d = Inr ((bo, ss, n), d')"
  shows "\<exists>x ins d1 d2 d3 d4. find_so so d = Some x \<and> short_inputs so es d = Inr ins
    \<and> shrink_lines (so_wh x) (detail_base reason) (so_number x @ ''-BO'') (s_user s) ins d = Some (ss, d1)
    \<and> d2 = snd (uuid4 d1) \<and> insert_so (backorder_row x (fst (uuid4 d1)) (s_user s) d2) d2 = Some (bo, d3)
    \<and> backorder_lines_from bo 1 ss d3 = Some d4
    \<and> snd (report_opened x bo (fst (uuid4 d1)) (detail_base reason) ss (s_user s) (s_txn s) d4) = d'"
proof -
  from assms obtain x ins where x: "find_so so d = Some x" "short_inputs so es d = Inr ins"
    and o: "open_backorder x ins (detail_base reason) (s_user s) (s_txn s) d = Some ((bo, ss, n), d')"
    by (auto simp: partial_fulfill_sales_order_def split: option.splits sum.splits)
  from o obtain d1 where d1:
    "shrink_lines (so_wh x) (detail_base reason) (so_number x @ ''-BO'') (s_user s) ins d = Some (ss, d1)"
    by (auto simp: open_backorder_def split_beta Let_def split: option.splits)
  from o d1 obtain d3 where d3: "insert_so (backorder_row x (fst (uuid4 d1)) (s_user s) (snd (uuid4 d1))) (snd (uuid4 d1))
      = Some (bo, d3)"
    by (auto simp: open_backorder_def split_beta Let_def split: option.splits)
  from o d1 d3 show ?thesis
    by - (rule exI [of _ x], rule exI [of _ ins], rule exI [of _ d1], rule exI [of _ "snd (uuid4 d1)"],
      rule exI [of _ d3], auto simp: x open_backorder_def split_beta Let_def split: option.splits)
qed

lemma total_map: "total P g (map h t) = total (\<lambda>x. P (h x)) (\<lambda>x. g (h x)) t"
  by (induction t) auto

text \<open>The backorder asks for what was shorted.\<close>

lemma backorder_demand:
  assumes "map (\<lambda>l. (sol_item l, sol_ordered l)) new = map (\<lambda>s. (sol_item (sh_line s), sh_qty s)) ss"
    and "map (\<lambda>s. (sol_item (sh_line s), sh_qty s)) ss = map (\<lambda>(e, l, _). (sol_item l, se_qty e)) ins"
    and "\<forall>l \<in> set new. sol_so l = bo" "\<forall>(e, l, _) \<in> set ins. sol_so l = so"
  shows "total (\<lambda>l. sol_so l = bo \<and> sol_item l = i) sol_ordered new = shorted so i ins"
proof -
  have "total (\<lambda>l. sol_so l = bo \<and> sol_item l = i) sol_ordered new
      = total (\<lambda>p. fst p = i) snd (map (\<lambda>l. (sol_item l, sol_ordered l)) new)"
    unfolding total_map by (rule total_cong) (use assms(3) in auto)
  also have "\<dots> = total (\<lambda>p. fst p = i) snd (map (\<lambda>(e, l, _). (sol_item l, se_qty e)) ins)"
    by (simp only: assms(1,2))
  also have "\<dots> = shorted so i ins"
    using assms(4) by (induction ins) auto
  finally show ?thesis .
qed

text \<open>Claim C27. Splitting an order into a backorder loses no demand and no goods, provided the request
  names each line once, with a positive quantity, and no bin holds two lots of one item. On tables with
  sound keys, stock and lines, for every item, what is still ordered on the order and what the backorder
  asks for add up to what the order asked for before; what was picked stays on the order, whose lines are
  never below it; the backorder waits for stock under its parent; stock stays sound, and every unit of
  stock that went is explained by an approved adjustment. Without the two conditions it fails: see
  \<^verbatim>\<open>line_named_twice_backorders_twice\<close> and \<^verbatim>\<open>short_adjustment_takes_every_lot\<close> below.\<close>

theorem partial_fulfill_conserves_demand:
  assumes "partial_fulfill_sales_order s override so es reason d = Inr ((bo, ss, n), d')"
    and "return_keys d" "good d" "one_lot d" "lines_sound d"
    and "distinct (map se_line es)" "\<forall>e \<in> set es. 0 < se_qty e"
  shows "ordered_on so i d' + ordered_on bo i d' = ordered_on so i d
    \<and> picked_total so d' = picked_total so d \<and> lines_sound d'
    \<and> (\<exists>x. find_so bo d' = Some x \<and> so_state x = SO_WAITING_STOCK \<and> so_type x = OT_backorder \<and> so_parent x = Some so)
    \<and> good d' \<and> one_lot d' \<and> unexplained d' i = unexplained d i"
proof -
  from partial_fulfill_Inr [OF assms(1)] obtain x ins d1 d2 d3 d4 where
    x: "find_so so d = Some x" and ins: "short_inputs so es d = Inr ins"
    and sh: "shrink_lines (so_wh x) (detail_base reason) (so_number x @ ''-BO'') (s_user s) ins d = Some (ss, d1)"
    and d2: "d2 = snd (uuid4 d1)" and so: "insert_so (backorder_row x (fst (uuid4 d1)) (s_user s) d2) d2 = Some (bo, d3)"
    and bl: "backorder_lines_from bo 1 ss d3 = Some d4"
    and d': "snd (report_opened x bo (fst (uuid4 d1)) (detail_base reason) ss (s_user s) (s_txn s) d4) = d'" by blast
  note si = short_inputs_Inr [OF ins]
  have pos: "\<forall>(e, l, _) \<in> set ins. l \<in> set (so_lines d) \<and> 0 < se_qty e \<and> se_qty e \<le> sol_ordered l - sol_picked l"
    using si assms(7) by force
  have "map (\<lambda>(e, l, _). sol_id l) ins = map se_line (map (\<lambda>(e, _, _). e) ins)" using si by auto
  then have dist: "distinct (map (\<lambda>(e, l, _). sol_id l) ins)" using si assms(6) by simp
  note eff = shrink_lines_effect [OF sh assms(5,3,4) dist pos]
  have u: "sales_orders d2 = sales_orders d1" "so_lines d2 = so_lines d1" "seqs d2 = seqs d1"
    "inventory d2 = inventory d1" "adjustments d2 = adjustments d1" by (simp_all add: d2 uuid4_def)
  note f = insert_so_Some [OF so] insert_so_adjustments [OF so]
  from backorder_lines_Some [OF bl] obtain new where new: "so_lines d4 = so_lines d3 @ new"
    "\<forall>l \<in> set new. sol_so l = bo \<and> sol_picked l = 0 \<and> seqs d3 Seq_so_line \<le> sol_id l" "distinct (map sol_id new)"
    "map (\<lambda>l. (sol_item l, sol_ordered l)) new = map (\<lambda>s. (sol_item (sh_line s), sh_qty s)) ss"
    "sales_orders d4 = sales_orders d3" "inventory d4 = inventory d3" "adjustments d4 = adjustments d3"
    "seqs d4 Seq_inventory = seqs d3 Seq_inventory" by blast
  note g = report_opened_frame [where so = x and bo = bo and d = d4, unfolded d']
  have ls: "so_lines d' = so_lines d1 @ new" using g d' by (auto simp: report_opened_frame new(1) f(4) u)
  have bo: "bo = seqs d Seq_so" using eff f(1) u(3) by simp
  have fresh: "\<forall>l \<in> set (so_lines d1). sol_so l \<noteq> bo \<and> sol_id l < seqs d3 Seq_so_line"
  proof -
    have "\<forall>l \<in> set (so_lines d). sol_id l < seqs d Seq_so_line \<and> sol_so l < seqs d Seq_so"
      using assms(2) by (simp add: return_keys_def)
    moreover have "seqs d3 Seq_so_line = seqs d Seq_so_line" using eff f(3) u(3) by simp
    ultimately show ?thesis using eff bo by fastforce
  qed
  have so_bo: "so < bo"
    using x assms(2) find_so_Some [OF x] bo by (auto simp: return_keys_def)
  have none: "\<forall>l \<in> set new. \<not> sol_so l = so" using new(2) so_bo by auto
  have "ordered_on so i d' = ordered_on so i d1" "picked_total so d' = picked_total so d1"
    using total_none [of new] none by (simp_all add: ordered_on_def picked_total_def ls)
  moreover have "ordered_on bo i d' = shorted so i ins"
  proof -
    have "total (\<lambda>l. sol_so l = bo \<and> sol_item l = i) sol_ordered (so_lines d1) = 0"
      by (rule total_none) (use fresh in auto)
    moreover have "map (\<lambda>s. (sol_item (sh_line s), sh_qty s)) ss = map (\<lambda>(e, l, _). (sol_item l, se_qty e)) ins"
      using eff by simp
    then have "total (\<lambda>l. sol_so l = bo \<and> sol_item l = i) sol_ordered new = shorted so i ins"
      by (rule backorder_demand [OF new(4)]) (use new(2) si in auto)
    ultimately show ?thesis by (simp add: ordered_on_def ls)
  qed
  moreover have "lines_sound d'"
  proof -
    have "0 \<le> sol_ordered l" if "l \<in> set new" for l
    proof -
      have "(sol_item l, sol_ordered l) \<in> set (map (\<lambda>(e, l, _). (sol_item l, se_qty e)) ins)"
        using that new(4) eff by (metis (mono_tags, lifting) image_eqI set_map)
      with pos show ?thesis by auto
    qed
    moreover have "lines_sound d1" using eff by simp
    moreover have "sol_id k \<noteq> sol_id l" if "k \<in> set (so_lines d1)" "l \<in> set new" for k l
      using fresh new(2) that by fastforce
    ultimately show ?thesis using new(2,3) by (fastforce simp: lines_sound_def ls)
  qed
  moreover have "find_so bo d' = Some (backorder_row x (fst (uuid4 d1)) (s_user s) d2\<lparr>so_id := bo\<rparr>)"
  proof -
    have "sales_orders d' = sales_orders d @ [backorder_row x (fst (uuid4 d1)) (s_user s) d2\<lparr>so_id := bo\<rparr>]"
      using eff d' by (auto simp: report_opened_frame new(5) f(2) u)
    moreover have "List.find (\<lambda>y. so_id y = bo) (sales_orders d) = None"
      using assms(2) bo by (auto simp: find_None return_keys_def)
    ultimately show ?thesis by (simp add: find_so_def find_append)
  qed
  moreover have "good d' \<and> one_lot d' \<and> unexplained d' i = unexplained d i"
  proof -
    have "inventory d' = inventory d1" "adjustments d' = adjustments d1" "seqs d' Seq_inventory = seqs d1 Seq_inventory"
      using d' by (auto simp: report_opened_frame new(6-8) f u)
    then show ?thesis
      using eff good_cong [of d' d1] stock_cong(3) [of d' d1] by (simp add: one_lot_def unexplained_def adjusted_def)
  qed
  ultimately show ?thesis using eff find_so_Some [OF x] by (simp add: backorder_row_def)
qed

section \<open>Examples\<close>

text \<open>Four of five units are short, two of them really missing from a bin of two free units.\<close>

definition demo_short_entries :: "short_entry list" where
  "demo_short_entries = [\<lparr>se_line = 1, se_qty = 4\<rparr>]"

definition demo_short :: db where
  "demo_short = demo_orders\<lparr>
     inventory := [\<lparr>inv_id = 1, inv_item = 7, inv_bin = 1, inv_wh = 1, on_hand = 10, allocated = 8,
                    inv_lot = None, inv_updated = 0, inv_counted = None\<rparr>],
     sales_orders := [new_so\<lparr>so_id := 1, so_number := ''SO-1'', so_wh := 1\<rparr>],
     so_lines := [new_sol\<lparr>sol_id := 1, sol_so := 1, sol_item := 7, sol_ordered := 5, sol_number := 1\<rparr>]\<rparr>"

lemmas fulfil_defs = partial_fulfill_sales_order_def fulfil_gate_def order_type_allows_fulfillment_ops_def
  line_item_def shrink_line_def write_short_adjustment_def short_rows_def lose_stock_def insert_adjustment_def
  open_backorder_def backorder_row_def report_opened_def emit_event_def edit_defs delete_sol_def line_referenced_def
  demo_short_entries_def demo_short_def demo_order_defs

lemma demo_fulfil:
  "\<exists>ss n d'. partial_fulfill_sales_order demo_admin False 1 demo_short_entries None demo_short = Inr ((20, ss, n), d')
     \<and> stock d' 7 = 8"
  by (simp add: fulfil_defs stock_def)

lemma demo_short_ready: "return_keys demo_short" "good demo_short" "one_lot demo_short" "lines_sound demo_short"
  by (simp_all add: return_keys_def good_rows inv_wf_def sound_row_def one_lot_def lines_sound_def fulfil_defs)

theorem partial_fulfill_conserves_demand_witness:
  "\<exists>ss n d'. partial_fulfill_sales_order demo_admin False 1 demo_short_entries None demo_short = Inr ((20, ss, n), d')
     \<and> ordered_on 1 7 d' + ordered_on 20 7 d' = 5 \<and> stock d' 7 = 8 \<and> unexplained d' 7 = 10
     \<and> (\<exists>x. find_so 20 d' = Some x \<and> so_state x = SO_WAITING_STOCK)"
proof -
  obtain ss n d' where c: "partial_fulfill_sales_order demo_admin False 1 demo_short_entries None demo_short = Inr ((20, ss, n), d')"
    "stock d' 7 = 8" using demo_fulfil by (elim exE conjE)
  have "distinct (map se_line demo_short_entries)" "\<forall>e \<in> set demo_short_entries. 0 < se_qty e"
    by (simp_all add: demo_short_entries_def)
  note p = partial_fulfill_conserves_demand [OF c(1) demo_short_ready this, of 7]
  have "ordered_on 1 7 demo_short = 5" "unexplained demo_short 7 = 10"
    by (simp_all add: ordered_on_def unexplained_def stock_def adjusted_def fulfil_defs)
  with p have "ordered_on 1 7 d' + ordered_on 20 7 d' = 5" "unexplained d' 7 = 10"
    "\<exists>x. find_so 20 d' = Some x \<and> so_state x = SO_WAITING_STOCK" by auto
  with c show ?thesis by (intro exI [of _ ss] exI [of _ n] exI [of _ d'] conjI)
qed

section \<open>Where demand is not conserved\<close>

text \<open>The same line named twice is shrunk once, to the quantity of its last entry, but backordered
  twice: five units ordered become three on the order and four on the backorder.\<close>

lemma line_named_twice_backorders_twice:
  "\<exists>ss n d'. partial_fulfill_sales_order demo_admin False 1
       [\<lparr>se_line = 1, se_qty = 2\<rparr>, \<lparr>se_line = 1, se_qty = 2\<rparr>] None demo_short = Inr ((20, ss, n), d')
     \<and> ordered_on 1 7 demo_short = 5 \<and> ordered_on 1 7 d' = 3 \<and> ordered_on 20 7 d' = 4"
  by (simp add: fulfil_defs ordered_on_def)

text \<open>A second partial fulfilment of the order collides on the number of the first backorder.\<close>

lemma second_partial_fulfill_fails:
  "partial_fulfill_sales_order demo_admin False 1 [\<lparr>se_line = 1, se_qty = 1\<rparr>] None
     (demo_short\<lparr>sales_orders := sales_orders demo_short @ [new_so\<lparr>so_id := 9, so_number := ''SO-1-BO'', so_wh := 1,
        so_type := OT_backorder, so_state := SO_CANCELLED, so_parent := Some 1\<rparr>]\<rparr>) = Inl BE_internal"
  by (simp add: fulfil_defs)

text \<open>The decrement of a short adjustment hits every lot of the bin: one adjustment of two units
  takes four.\<close>

lemma short_adjustment_takes_every_lot:
  "\<exists>q d'. write_short_adjustment 7 1 2 ''x'' ''y'' ''admin'' demo_two_lots = (q, d')
     \<and> q = 2 \<and> stock d' 7 = stock demo_two_lots 7 - 4"
  by (simp add: fulfil_defs demo_two_lots_def stock_def)

end
