(* ===== verification/Counts.thy ===== *)
theory Counts
  imports Adjustments
begin

text \<open>
  Cycle counts (\<^verbatim>\<open>api/routes/inventory.py\<close>) and the review of adjustments
  (\<^verbatim>\<open>api/routes/admin/admin_users.py\<close>). Creating a count snapshots a bin, submitting it turns
  each variance into a pending adjustment without touching stock, and a reviewer's approval
  applies the change. Administrators can also adjust a bin directly.
\<close>

section \<open>Creating a count\<close>

datatype count_error =
  CT_wh_not_found
| CT_bin_not_in int
| CT_not_found
| CT_denied
| CT_status count_status
| CT_item_required
| CT_line_not_on "int option"
| CT_self_approval
| CT_item_not_found
| CT_bin_not_found
| CT_insufficient int
| CT_internal

text \<open>\<open>GROUP BY item_id\<close> over the bin's rows with stock.\<close>

definition counted_row :: "int \<Rightarrow> inv_row \<Rightarrow> bool" where
  "counted_row bin r \<longleftrightarrow> inv_bin r = bin \<and> 0 < on_hand r"

definition snapshot :: "int \<Rightarrow> db \<Rightarrow> (int \<times> int) list" where
  "snapshot bin d =
     map (\<lambda>i. (i, total (\<lambda>r. counted_row bin r \<and> inv_item r = i) on_hand (inventory d)))
       (remdups (map inv_item (filter (counted_row bin) (inventory d))))"

definition insert_count :: "int \<Rightarrow> int \<Rightarrow> string \<Rightarrow> db \<Rightarrow> int \<times> db" where
  "insert_count wh bin user d =
     (let (u, d1) = uuid4 d; (i, d2) = nextval Seq_count d1
      in (i, d2\<lparr>cycle_counts := cycle_counts d2 @
            [\<lparr>cc_id = i, cc_wh = wh, cc_bin = bin, cc_state = COUNT_PENDING, cc_assigned = Some user,
              cc_completed = None, cc_ext = u\<rparr>]\<rparr>))"

definition insert_count_line :: "cline_row \<Rightarrow> db \<Rightarrow> int \<times> db" where
  "insert_count_line l d =
     (let (i, d1) = nextval Seq_count_line d in (i, d1\<lparr>count_lines := count_lines d1 @ [l\<lparr>cl_id := i\<rparr>]\<rparr>))"

definition expected_line :: "int \<Rightarrow> int \<times> int \<Rightarrow> cline_row" where
  "expected_line cid e = \<lparr>cl_id = 0, cl_count = cid, cl_item = fst e, cl_expected = snd e, cl_counted = None,
     cl_scanned = False, cl_unexpected = False, cl_by = None, cl_at = None\<rparr>"

record new_count =
  nc_id :: int
  nc_bin :: int
  nc_code :: string
  nc_lines :: nat

definition count_bin :: "int \<Rightarrow> string \<Rightarrow> bin_row \<Rightarrow> db \<Rightarrow> new_count \<times> db" where
  "count_bin wh user b d =
     (let (cid, d1) = insert_count wh (bin_id b) user d;
          es = snapshot (bin_id b) d1
      in (\<lparr>nc_id = cid, nc_bin = bin_id b, nc_code = bin_code b, nc_lines = length es\<rparr>,
          fold (\<lambda>e d. snd (insert_count_line (expected_line cid e) d)) es d1))"

fun count_bins :: "int \<Rightarrow> string \<Rightarrow> bin_row list \<Rightarrow> db \<Rightarrow> new_count list \<times> db" where
  "count_bins wh user [] d = ([], d)"
| "count_bins wh user (b # bs) d =
     (let (c, d1) = count_bin wh user b d; (cs, d2) = count_bins wh user bs d1 in (c # cs, d2))"

definition bin_of_wh :: "int \<Rightarrow> int \<Rightarrow> db \<Rightarrow> bin_row option" where
  "bin_of_wh wh bid d = List.find (\<lambda>b. bin_id b = bid \<and> bin_wh b = wh) (bins d)"

definition create_cycle_count :: "int \<Rightarrow> int list \<Rightarrow> string \<Rightarrow> db \<Rightarrow> count_error + (new_count list \<times> db)" where
  "create_cycle_count wh bids user d =
     (if \<not> (\<exists>w \<in> set (warehouses d). wh_id w = wh) then Inl CT_wh_not_found
      else
        (case List.find (\<lambda>b. bin_of_wh wh b d = None) bids of
           Some b \<Rightarrow> Inl (CT_bin_not_in b)
         | None \<Rightarrow> Inr (count_bins wh user (map (\<lambda>b. the (bin_of_wh wh b d)) bids) d)))"

section \<open>Reading a count\<close>

definition count_with_bin :: "int \<Rightarrow> db \<Rightarrow> (count_row \<times> bin_row) option" where
  "count_with_bin cid d =
     (case List.find (\<lambda>c. cc_id c = cid) (cycle_counts d) of
        None \<Rightarrow> None | Some c \<Rightarrow> map_option (\<lambda>b. (c, b)) (find_bin (cc_bin c) d))"

text \<open>The lines come with their variance; the flag asks the client to hide expectations.\<close>

definition line_variance :: "cline_row \<Rightarrow> int option" where
  "line_variance l = map_option (\<lambda>q. q - cl_expected l) (cl_counted l)"

definition get_cycle_count ::
    "session \<Rightarrow> int \<Rightarrow> db \<Rightarrow> count_error + (count_row \<times> bin_row \<times> bool \<times> (cline_row \<times> item_row \<times> int option) list)" where
  "get_cycle_count s cid d =
     (case count_with_bin cid d of
        None \<Rightarrow> Inl CT_not_found
      | Some (c, b) \<Rightarrow>
          if \<not> check_warehouse_access s (Some (cc_wh c)) then Inl CT_denied
          else Inr (c, b, settings d ''count_show_expected'' \<noteq> Some ''false'',
            [(l, i, line_variance l).
               l \<leftarrow> sort_key cl_id (filter (\<lambda>l. cl_count l = cid) (count_lines d)),
               i \<leftarrow> filter (\<lambda>i. item_id i = cl_item l) (items d)]))"

section \<open>Submitting a count\<close>

record count_entry =
  ce_line :: "int option"
  ce_counted :: int
  ce_unexpected :: bool
  ce_item :: "int option"
  ce_sku :: "string option"

record count_adjustment =
  ca_sku :: string
  ca_expected :: int
  ca_counted :: int
  ca_variance :: int
  ca_adj :: int

record count_tally =
  tl_variance :: nat
  tl_matched :: nat
  tl_adjs :: "count_adjustment list"

text \<open>The texts of the two kinds of pending adjustment.\<close>

definition variance_detail :: "int \<Rightarrow> int \<Rightarrow> string" where
  "variance_detail expected counted =
     ''Cycle count variance: expected '' @ signed_decimal expected @ '', counted '' @ signed_decimal counted"

definition unexpected_detail :: "int \<Rightarrow> string" where
  "unexpected_detail counted =
     ''Cycle count unexpected item: counted '' @ signed_decimal counted @ '' (not in snapshot)''"

definition pending_adjustment :: "count_row \<Rightarrow> int \<Rightarrow> int \<Rightarrow> string \<Rightarrow> string \<Rightarrow> db \<Rightarrow> adj_row" where
  "pending_adjustment c item change detail user d =
     \<lparr>adj_id = 0, adj_item = item, adj_bin = cc_bin c, adj_wh = cc_wh c, adj_change = change,
      adj_reason = ''CYCLE_COUNT'', adj_detail = Some detail, adj_state = ADJ_PENDING, adj_by = user,
      adj_at = now d, adj_count = Some (cc_id c), adj_ext = ''''\<rparr>"

definition has_line :: "int \<Rightarrow> int \<Rightarrow> db \<Rightarrow> bool" where
  "has_line cid item d \<longleftrightarrow> (\<exists>l \<in> set (count_lines d). cl_count l = cid \<and> cl_item l = item)"

text \<open>An unexpected item: skipped when the count already has a line for it.\<close>

definition submit_unexpected ::
    "count_row \<Rightarrow> string \<Rightarrow> count_entry \<Rightarrow> count_tally \<Rightarrow> db \<Rightarrow> count_error + (count_tally \<times> db)" where
  "submit_unexpected c user e t d =
     (case ce_item e of
        None \<Rightarrow> Inl CT_item_required
      | Some item \<Rightarrow>
          if has_line (cc_id c) item d then Inr (t, d)
          else if find_item item d = None then Inl CT_internal
          else
            let d1 = snd (insert_count_line
                  \<lparr>cl_id = 0, cl_count = cc_id c, cl_item = item, cl_expected = 0, cl_counted = Some (ce_counted e),
                   cl_scanned = True, cl_unexpected = True, cl_by = Some user, cl_at = Some (now d)\<rparr> d);
                (a, d2) = insert_adjustment
                  (pending_adjustment c item (ce_counted e) (unexpected_detail (ce_counted e)) user d1) d1
            in Inr (t\<lparr>tl_variance := tl_variance t + 1,
                      tl_adjs := tl_adjs t @ [\<lparr>ca_sku = (case ce_sku e of None \<Rightarrow> ''UNKNOWN''
                                                 | Some k \<Rightarrow> if k = [] then ''UNKNOWN'' else k),
                        ca_expected = 0, ca_counted = ce_counted e, ca_variance = ce_counted e, ca_adj = a\<rparr>]\<rparr>, d2))"

definition line_on_count :: "int \<Rightarrow> int option \<Rightarrow> db \<Rightarrow> (cline_row \<times> item_row) option" where
  "line_on_count cid lid d =
     (case List.find (\<lambda>l. Some (cl_id l) = lid \<and> cl_count l = cid) (count_lines d) of
        None \<Rightarrow> None | Some l \<Rightarrow> map_option (\<lambda>i. (l, i)) (find_item (cl_item l) d))"

definition record_counted :: "int \<Rightarrow> int \<Rightarrow> string \<Rightarrow> db \<Rightarrow> db" where
  "record_counted lid q user d =
     d\<lparr>count_lines := upd (\<lambda>l. cl_id l = lid)
        (\<lambda>l. l\<lparr>cl_counted := Some q, cl_by := Some user, cl_at := Some (now d), cl_scanned := True\<rparr>) (count_lines d)\<rparr>"

definition touch_counted :: "int \<Rightarrow> int \<Rightarrow> db \<Rightarrow> db" where
  "touch_counted item bin d =
     d\<lparr>inventory := upd (\<lambda>r. inv_item r = item \<and> inv_bin r = bin) (\<lambda>r. r\<lparr>inv_counted := Some (now d)\<rparr>) (inventory d)\<rparr>"

definition submit_expected ::
    "count_row \<Rightarrow> string \<Rightarrow> count_entry \<Rightarrow> count_tally \<Rightarrow> db \<Rightarrow> count_error + (count_tally \<times> db)" where
  "submit_expected c user e t d =
     (case line_on_count (cc_id c) (ce_line e) d of
        None \<Rightarrow> Inl (CT_line_not_on (ce_line e))
      | Some (l, i) \<Rightarrow>
          let d1 = record_counted (cl_id l) (ce_counted e) user d;
              v = ce_counted e - cl_expected l
          in if v = 0
             then Inr (t\<lparr>tl_matched := tl_matched t + 1\<rparr>, touch_counted (cl_item l) (cc_bin c) d1)
             else
               let (a, d2) = insert_adjustment
                     (pending_adjustment c (cl_item l) v (variance_detail (cl_expected l) (ce_counted e)) user d1) d1
               in Inr (t\<lparr>tl_variance := tl_variance t + 1,
                         tl_adjs := tl_adjs t @ [\<lparr>ca_sku = item_sku i, ca_expected = cl_expected l,
                           ca_counted = ce_counted e, ca_variance = v, ca_adj = a\<rparr>]\<rparr>,
                       touch_counted (cl_item l) (cc_bin c) d2))"

fun submit_entries ::
    "count_row \<Rightarrow> string \<Rightarrow> count_entry list \<Rightarrow> count_tally \<Rightarrow> db \<Rightarrow> count_error + (count_tally \<times> db)" where
  "submit_entries c user [] t d = Inr (t, d)"
| "submit_entries c user (e # es) t d =
     (case (if ce_unexpected e then submit_unexpected c user e t d else submit_expected c user e t d) of
        Inl x \<Rightarrow> Inl x | Inr (t1, d1) \<Rightarrow> submit_entries c user es t1 d1)"

definition close_count :: "int \<Rightarrow> count_status \<Rightarrow> db \<Rightarrow> db" where
  "close_count cid st d =
     d\<lparr>cycle_counts := upd (\<lambda>c. cc_id c = cid) (\<lambda>c. c\<lparr>cc_state := st, cc_completed := Some (now d)\<rparr>) (cycle_counts d)\<rparr>"

definition submit_cycle_count ::
    "session \<Rightarrow> int \<Rightarrow> count_entry list \<Rightarrow> db \<Rightarrow> count_error + ((count_status \<times> count_tally) \<times> db)" where
  "submit_cycle_count s cid es d =
     (case count_with_bin cid d of
        None \<Rightarrow> Inl CT_not_found
      | Some (c, b) \<Rightarrow>
          if \<not> check_warehouse_access s (Some (cc_wh c)) then Inl CT_denied
          else if cc_state c \<noteq> COUNT_PENDING \<and> cc_state c \<noteq> COUNT_IN_PROGRESS then Inl (CT_status (cc_state c))
          else
            (case submit_entries c (s_user s) es \<lparr>tl_variance = 0, tl_matched = 0, tl_adjs = []\<rparr> d of
               Inl x \<Rightarrow> Inl x
             | Inr (t, d1) \<Rightarrow>
                 let st = (if 0 < tl_variance t then COUNT_VARIANCE else COUNT_COMPLETED)
                 in Inr ((st, t),
                   audit ''COUNT'' ''BIN'' (cc_bin c) (s_user s) (cc_wh c)
                     (JObj [(''count_id'', JInt cid), (''bin_code'', JStr (bin_code b)),
                            (''lines_with_variance'', JInt (int (tl_variance t))),
                            (''lines_matched'', JInt (int (tl_matched t)))])
                     (close_count cid st d1))))"

section \<open>Reviewing adjustments\<close>

text \<open>The approval takes the first row of the item in the bin, whatever its lot, and floors
  the result at zero; without a row a positive change makes one.\<close>

definition find_item_bin :: "int \<Rightarrow> int \<Rightarrow> db \<Rightarrow> inv_row option" where
  "find_item_bin item bin d = List.find (\<lambda>r. inv_item r = item \<and> inv_bin r = bin) (inventory d)"

definition apply_adjustment :: "adj_row \<Rightarrow> db \<Rightarrow> db" where
  "apply_adjustment a d =
     (case find_item_bin (adj_item a) (adj_bin a) d of
        Some r \<Rightarrow> set_inventory_quantity (inv_id r) (max 0 (on_hand r + adj_change a)) d
      | None \<Rightarrow>
          if adj_change a \<le> 0 then d
          else
            let (i, d1) = nextval Seq_inventory d in
            d1\<lparr>inventory := inventory d1 @
               [\<lparr>inv_id = i, inv_item = adj_item a, inv_bin = adj_bin a, inv_wh = adj_wh a, on_hand = adj_change a,
                 allocated = 0, inv_lot = None, inv_updated = now d, inv_counted = None\<rparr>]\<rparr>)"

definition set_adj_state :: "int \<Rightarrow> adj_status \<Rightarrow> db \<Rightarrow> db" where
  "set_adj_state i st d =
     d\<lparr>adjustments := upd (\<lambda>a. adj_id a = i) (\<lambda>a. a\<lparr>adj_state := st\<rparr>) (adjustments d)\<rparr>"

definition self_approval :: "session \<Rightarrow> adj_row \<Rightarrow> bool" where
  "self_approval s a \<longleftrightarrow> adj_count a \<noteq> None \<and> adj_by a = s_user s"

definition adjusted_payload :: "adj_row \<Rightarrow> string \<Rightarrow> string \<Rightarrow> string \<Rightarrow> string option \<Rightarrow> int \<Rightarrow> json" where
  "adjusted_payload a item bin reason user_ext t =
     JObj [(''adjustment_external_id'', JStr (adj_ext a)), (''item_external_id'', JStr item),
           (''bin_external_id'', JStr bin), (''quantity_delta'', JInt (adj_change a)),
           (''reason_code'', JStr reason), (''applied_by_user_external_id'', jopt JStr user_ext),
           (''applied_at'', JTime t)]"

definition emit_adjusted :: "adj_row \<Rightarrow> string \<Rightarrow> string \<Rightarrow> string \<Rightarrow> session \<Rightarrow> db \<Rightarrow> db" where
  "emit_adjusted a item bin reason s d =
     snd (emit_event ''inventoryadjusted.completed'' 1 ''inventory_adjustment'' (adj_id a) (adj_ext a) (adj_wh a)
       (s_txn s) (adjusted_payload a item bin reason (get_user_external_id (s_user s) d) (now d)) d)"

text \<open>The count and its line for the item of a variance.\<close>

definition counted_line :: "int \<Rightarrow> int \<Rightarrow> db \<Rightarrow> (count_row \<times> cline_row) option" where
  "counted_line cid item d =
     (case List.find (\<lambda>c. cc_id c = cid) (cycle_counts d) of
        None \<Rightarrow> None
      | Some c \<Rightarrow> map_option (\<lambda>l. (c, l)) (List.find (\<lambda>l. cl_count l = cid \<and> cl_item l = item) (count_lines d)))"

definition emit_count_adjusted :: "adj_row \<Rightarrow> count_row \<Rightarrow> cline_row \<Rightarrow> int \<Rightarrow> string \<Rightarrow> string \<Rightarrow> session \<Rightarrow> db \<Rightarrow> db" where
  "emit_count_adjusted a c l t item bin s d =
     snd (emit_event ''cycle_count.adjusted'' 1 ''inventory_adjustment'' (adj_id a) (adj_ext a) (adj_wh a) (s_txn s)
       (JObj [(''cycle_count_external_id'', JStr (cc_ext c)), (''item_external_id'', JStr item),
              (''bin_external_id'', JStr bin), (''counted_quantity'', jopt JInt (cl_counted l)),
              (''system_quantity'', JInt (cl_expected l)), (''quantity_delta'', JInt (adj_change a)),
              (''counted_by_user_external_id'', jopt JStr (case cl_by l of None \<Rightarrow> None
                 | Some u \<Rightarrow> get_user_external_id u d)),
              (''counted_at'', JTime t)]) d)"

text \<open>The events of an approval; a missing item, bin or counted line fails the request.\<close>

definition report_approval :: "session \<Rightarrow> adj_row \<Rightarrow> db \<Rightarrow> db option" where
  "report_approval s a d =
     (case (find_item (adj_item a) d, find_bin (adj_bin a) d) of
        (Some i, Some b) \<Rightarrow>
          let src = source_or_canonical ''item'' (item_ext i) d in
          (case adj_count a of
             None \<Rightarrow> Some (emit_adjusted a src (bin_ext b) (adj_reason a) s d)
           | Some cid \<Rightarrow>
               (case counted_line cid (adj_item a) d of
                  None \<Rightarrow> None
                | Some (c, l) \<Rightarrow>
                    (case cl_at l of
                       None \<Rightarrow> None
                     | Some t \<Rightarrow> Some (emit_adjusted a src (bin_ext b) ''CYCLE_COUNT'' s
                                    (emit_count_adjusted a c l t src (bin_ext b) s d)))))
      | _ \<Rightarrow> None)"

definition audit_self :: "session \<Rightarrow> adj_row \<Rightarrow> db \<Rightarrow> db" where
  "audit_self s a d =
     (if self_approval s a
      then audit ''SELF_APPROVED_COUNT'' ''ADJUSTMENT'' (adj_id a) (s_user s) (adj_wh a)
             (JObj [(''cycle_count_id'', jopt JInt (adj_count a)), (''quantity_change'', JInt (adj_change a))]) d
      else d)"

definition approve_adjustment :: "session \<Rightarrow> adj_row \<Rightarrow> db \<Rightarrow> db option" where
  "approve_adjustment s a d =
     report_approval s a (audit_self s a (set_adj_state (adj_id a) ADJ_APPROVED (apply_adjustment a d)))"

text \<open>What a batch of decisions has done: how many were approved and rejected, and the
  (warehouse, item, from a count) triples whose stock grew.\<close>

record review_tally =
  rt_approved :: nat
  rt_rejected :: nat
  rt_grown :: "(int \<times> int \<times> bool) list"

definition decide :: "session \<Rightarrow> int \<times> bool \<Rightarrow> review_tally \<Rightarrow> db \<Rightarrow> count_error + (review_tally \<times> db)" where
  "decide s x t d =
     (case List.find (\<lambda>a. adj_id a = fst x) (adjustments d) of
        None \<Rightarrow> Inr (t, d)
      | Some a \<Rightarrow>
          if adj_state a \<noteq> ADJ_PENDING then Inr (t, d)
          else if self_approval s a \<and> snd x \<and> settings d ''require_count_approval_separation'' = Some ''true''
          then Inl CT_self_approval
          else if snd x
          then (case approve_adjustment s a d of
                  None \<Rightarrow> Inl CT_internal
                | Some d1 \<Rightarrow> Inr (t\<lparr>rt_approved := rt_approved t + 1,
                    rt_grown := rt_grown t @ (if 0 < adj_change a
                      then [(adj_wh a, adj_item a, adj_count a \<noteq> None)] else [])\<rparr>, d1))
          else Inr (t\<lparr>rt_rejected := rt_rejected t + 1\<rparr>, set_adj_state (adj_id a) ADJ_REJECTED d))"

fun decide_all :: "session \<Rightarrow> (int \<times> bool) list \<Rightarrow> review_tally \<Rightarrow> db \<Rightarrow> count_error + (review_tally \<times> db)" where
  "decide_all s [] t d = Inr (t, d)"
| "decide_all s (x # xs) t d =
     (case decide s x t d of Inl e \<Rightarrow> Inl e | Inr (t1, d1) \<Rightarrow> decide_all s xs t1 d1)"

text \<open>The matcher runs once per triple, in sorted order; \<open>adjustment\<close> sorts before
  \<open>cycle_count\<close>.\<close>

definition release_grown :: "string \<Rightarrow> int \<times> int \<times> bool \<Rightarrow> db \<times> notification list \<Rightarrow> db \<times> notification list" where
  "release_grown txn g r =
     (case g of (wh, item, counted) \<Rightarrow>
        let (d1, ns) = release_satisfiable_backorders wh item txn
              (if counted then ''cycle_count'' else ''adjustment'') (fst r)
        in (d1, snd r @ ns))"

definition review_adjustments ::
    "session \<Rightarrow> (int \<times> bool) list \<Rightarrow> db \<Rightarrow> count_error + ((nat \<times> nat \<times> notification list) \<times> db)" where
  "review_adjustments s xs d =
     (case decide_all s xs \<lparr>rt_approved = 0, rt_rejected = 0, rt_grown = []\<rparr> d of
        Inl e \<Rightarrow> Inl e
      | Inr (t, d1) \<Rightarrow>
          let (d2, ns) = fold (release_grown (s_txn s)) (sort (remdups (rt_grown t))) (d1, [])
          in Inr ((rt_approved t, rt_rejected t, ns), d2))"

section \<open>Direct adjustments\<close>

text \<open>\<open>uid\<close> is the text of \<open>g.current_user["user_id"]\<close>. The result: the adjustment, the change
  and the cards of released backorders.\<close>

definition direct_change :: "int \<Rightarrow> int \<Rightarrow> int \<Rightarrow> bool \<Rightarrow> int \<Rightarrow> string \<Rightarrow> db
      \<Rightarrow> count_error + ((int \<times> notification list) \<times> db)" where
  "direct_change item bin wh add q txn d =
     (if add
      then let d1 = snd (add_inventory item bin wh q None d);
               (d2, ns) = release_satisfiable_backorders wh item txn ''adjustment'' d1
           in Inr ((q, ns), d2)
      else
        (case find_item_bin item bin d of
           None \<Rightarrow> Inl (CT_insufficient 0)
         | Some r \<Rightarrow>
             if on_hand r < q then Inl (CT_insufficient (on_hand r))
             else Inr ((- q, []), set_inventory_quantity (inv_id r) (on_hand r - q) d)))"

definition direct_row :: "int \<Rightarrow> int \<Rightarrow> int \<Rightarrow> int \<Rightarrow> string \<Rightarrow> string \<Rightarrow> db \<Rightarrow> adj_row" where
  "direct_row item bin wh change reason uid d =
     \<lparr>adj_id = 0, adj_item = item, adj_bin = bin, adj_wh = wh, adj_change = change,
      adj_reason = ''DIRECT_ADJUSTMENT'', adj_detail = Some reason, adj_state = ADJ_APPROVED, adj_by = uid,
      adj_at = now d, adj_count = None, adj_ext = ''''\<rparr>"

definition report_direct :: "session \<Rightarrow> string \<Rightarrow> item_row \<Rightarrow> bin_row \<Rightarrow> adj_row \<Rightarrow> bool \<Rightarrow> int \<Rightarrow> string \<Rightarrow> db \<Rightarrow> db" where
  "report_direct s uid i b a add q reason d =
     (let d1 = audit ''ADJUST'' ''ITEM'' (item_id i) uid (adj_wh a)
            (JObj [(''adjustment_id'', JInt (adj_id a)), (''adjustment_type'', JStr (if add then ''ADD'' else ''REMOVE'')),
                   (''bin_id'', JInt (bin_id b)), (''quantity'', JInt q), (''reason'', JStr reason)]) d
      in emit_adjusted a (source_or_canonical ''item'' (item_ext i) d1) (bin_ext b) ''DIRECT_ADJUSTMENT'' s d1)"

definition direct_adjustment ::
    "session \<Rightarrow> string \<Rightarrow> int \<Rightarrow> int \<Rightarrow> int \<Rightarrow> bool \<Rightarrow> int \<Rightarrow> string \<Rightarrow> db
      \<Rightarrow> count_error + ((int \<times> int \<times> notification list) \<times> db)" where
  "direct_adjustment s uid item bin wh add q reason d =
     (case find_item item d of
        None \<Rightarrow> Inl CT_item_not_found
      | Some i \<Rightarrow>
      (case bin_of_wh wh bin d of
        None \<Rightarrow> Inl CT_bin_not_found
      | Some b \<Rightarrow>
      (case direct_change item bin wh add q (s_txn s) d of
        Inl e \<Rightarrow> Inl e
      | Inr ((change, ns), d1) \<Rightarrow>
          let (aid, d2) = insert_adjustment (direct_row item bin wh change reason uid d1) d1;
              a = (direct_row item bin wh change reason uid d1)\<lparr>adj_id := aid, adj_ext := fst (uuid4 d1)\<rparr>
          in Inr ((aid, change, ns), report_direct s uid i b a add q reason d2))))"

section \<open>What the shelf holds and what is pending\<close>

definition on_shelf :: "db \<Rightarrow> int \<Rightarrow> int \<Rightarrow> int" where
  "on_shelf d item bin = total (\<lambda>r. inv_item r = item \<and> inv_bin r = bin) on_hand (inventory d)"

definition of_count :: "int \<Rightarrow> int \<Rightarrow> adj_row \<Rightarrow> bool" where
  "of_count cid item a \<longleftrightarrow> adj_count a = Some cid \<and> adj_item a = item"

definition pending_change :: "db \<Rightarrow> int \<Rightarrow> int \<Rightarrow> int" where
  "pending_change d cid item =
     total (\<lambda>a. of_count cid item a \<and> adj_state a = ADJ_PENDING) adj_change (adjustments d)"

definition shelf_ok :: "db \<Rightarrow> bool" where
  "shelf_ok d \<longleftrightarrow> one_lot d \<and> distinct (map inv_id (inventory d))
     \<and> (\<forall>r \<in> set (inventory d). inv_id r < seqs d Seq_inventory \<and> 0 \<le> on_hand r)"

definition count_keys :: "db \<Rightarrow> bool" where
  "count_keys d \<longleftrightarrow> distinct (map adj_id (adjustments d)) \<and> (\<forall>a \<in> set (adjustments d). adj_id a < seqs d Seq_adjustment)
     \<and> distinct (map cl_id (count_lines d)) \<and> (\<forall>l \<in> set (count_lines d). cl_id l < seqs d Seq_count_line)
     \<and> distinct (map (\<lambda>l. (cl_count l, cl_item l)) (count_lines d))"

text \<open>The books of one count on one bin: an item has at most one adjustment, and what is
  pending is what separates the shelf from the counted quantity.\<close>

definition line_books :: "int \<Rightarrow> int \<Rightarrow> db \<Rightarrow> cline_row \<Rightarrow> bool" where
  "line_books cid bin d l \<longleftrightarrow>
     (case cl_counted l of
        None \<Rightarrow> cl_expected l = on_shelf d (cl_item l) bin
                 \<and> (\<forall>a \<in> set (adjustments d). \<not> of_count cid (cl_item l) a)
      | Some q \<Rightarrow> 0 \<le> q \<and> pending_change d cid (cl_item l) = q - on_shelf d (cl_item l) bin)"

definition count_books :: "int \<Rightarrow> int \<Rightarrow> db \<Rightarrow> bool" where
  "count_books cid bin d \<longleftrightarrow> shelf_ok d \<and> count_keys d
     \<and> (\<forall>a \<in> set (adjustments d). adj_count a = Some cid \<longrightarrow> adj_bin a = bin)
     \<and> distinct (map adj_item (filter (\<lambda>a. adj_count a = Some cid) (adjustments d)))
     \<and> (\<forall>l \<in> set (count_lines d). cl_count l = cid \<longrightarrow> line_books cid bin d l)
     \<and> (\<forall>i. \<not> has_line cid i d \<longrightarrow> on_shelf d i bin = 0 \<and> (\<forall>a \<in> set (adjustments d). \<not> of_count cid i a))"

text \<open>The tables the books look at.\<close>

definition count_view :: "db \<Rightarrow> inv_row list \<times> adj_row list \<times> cline_row list \<times> int \<times> int \<times> int" where
  "count_view d = (inventory d, adjustments d, count_lines d, seqs d Seq_inventory, seqs d Seq_adjustment,
     seqs d Seq_count_line)"

lemma count_view_cong:
  assumes "count_view d' = count_view d"
  shows "count_books cid bin d' = count_books cid bin d" "count_lines d' = count_lines d"
    "adjustments d' = adjustments d" "on_shelf d' = on_shelf d" "shelf_ok d' = shelf_ok d" "count_keys d' = count_keys d"
    "stock d' = stock d" "adjusted d' = adjusted d"
proof -
  have v: "inventory d' = inventory d" "adjustments d' = adjustments d" "count_lines d' = count_lines d"
    "seqs d' Seq_inventory = seqs d Seq_inventory" "seqs d' Seq_adjustment = seqs d Seq_adjustment"
    "seqs d' Seq_count_line = seqs d Seq_count_line" using assms by (simp_all add: count_view_def)
  show "count_lines d' = count_lines d" "adjustments d' = adjustments d" by (fact v)+
  show os: "on_shelf d' = on_shelf d" by (simp add: on_shelf_def fun_eq_iff v)
  show so: "shelf_ok d' = shelf_ok d" "count_keys d' = count_keys d"
    by (simp_all add: shelf_ok_def one_lot_def count_keys_def v)
  have "line_books cid bin d' = line_books cid bin d"
    by (simp add: line_books_def fun_eq_iff pending_change_def os v cong: option.case_cong)
  then show "count_books cid bin d' = count_books cid bin d"
    by (simp add: count_books_def so has_line_def os v)
  show "stock d' = stock d" by (rule stock_cong(3) [OF v(1)])
  show "adjusted d' = adjusted d" by (simp add: adjusted_def fun_eq_iff v)
qed

lemma audit_count_view [simp]: "count_view (audit a e i u w j d) = count_view d"
  by (simp add: count_view_def)

lemma emit_count_view [simp]: "count_view (snd (emit_event t v g i x w n p d)) = count_view d"
  by (simp add: count_view_def)

lemma release_count_view [simp]: "count_view (fst (release_satisfiable_backorders wh item txn src d)) = count_view d"
proof -
  have "count_view (fst (fold (release_one wh txn src) bs s)) = count_view (fst s)" for bs s
  proof (induction bs arbitrary: s)
    case Nil
    then show ?case by simp
  next
    case (Cons b bs)
    have "count_view (fst (release_one wh txn src b s)) = count_view (fst s)"
      by (simp add: release_one_def Let_def count_view_def)
    with Cons show ?case by simp
  qed
  then show ?thesis by (simp add: release_satisfiable_backorders_def)
qed

lemma one_lot_shelf:
  assumes "one_lot d"
  shows "on_shelf d item bin = (case find_item_bin item bin d of None \<Rightarrow> 0 | Some r \<Rightarrow> on_hand r)"
  using find_total [OF assms [unfolded one_lot_def], of "\<lambda>r. inv_item r = item \<and> inv_bin r = bin" on_hand]
  by (simp add: on_shelf_def find_item_bin_def)

lemma find_item_bin_Some:
  "find_item_bin item bin d = Some r \<Longrightarrow> r \<in> set (inventory d) \<and> inv_item r = item \<and> inv_bin r = bin"
  unfolding find_item_bin_def by (drule find_Some_iff_first) simp

lemma find_item_bin_None:
  "find_item_bin item bin d = None \<Longrightarrow> r \<in> set (inventory d) \<Longrightarrow> \<not> (inv_item r = item \<and> inv_bin r = bin)"
  by (auto simp: find_item_bin_def find_None)

text \<open>Applying a change that the bin can bear moves exactly that much.\<close>

lemma apply_adjustment_effect:
  assumes "shelf_ok d"
  shows "shelf_ok (apply_adjustment a d)"
    "on_shelf (apply_adjustment a d) i b = (if i = adj_item a \<and> b = adj_bin a
       then max 0 (on_shelf d i b + adj_change a) else on_shelf d i b)"
    "adjustments (apply_adjustment a d) = adjustments d" "count_lines (apply_adjustment a d) = count_lines d"
    "seqs (apply_adjustment a d) Seq_adjustment = seqs d Seq_adjustment"
    "seqs (apply_adjustment a d) Seq_count_line = seqs d Seq_count_line"
    "stock (apply_adjustment a d) i = stock d i + (if i = adj_item a
       then max (adj_change a) (- on_shelf d i (adj_bin a)) else 0)"
proof -
  have ok: "one_lot d" "distinct (map inv_id (inventory d))"
    "\<forall>r \<in> set (inventory d). inv_id r < seqs d Seq_inventory \<and> 0 \<le> on_hand r" using assms by (auto simp: shelf_ok_def)
  note sh = one_lot_shelf [OF ok(1), of "adj_item a" "adj_bin a"]
  have "shelf_ok (apply_adjustment a d)
    \<and> on_shelf (apply_adjustment a d) i b = (if i = adj_item a \<and> b = adj_bin a
       then max 0 (on_shelf d i b + adj_change a) else on_shelf d i b)
    \<and> adjustments (apply_adjustment a d) = adjustments d \<and> count_lines (apply_adjustment a d) = count_lines d
    \<and> seqs (apply_adjustment a d) Seq_adjustment = seqs d Seq_adjustment
    \<and> seqs (apply_adjustment a d) Seq_count_line = seqs d Seq_count_line
    \<and> stock (apply_adjustment a d) i = stock d i + (if i = adj_item a
       then max (adj_change a) (- on_shelf d i (adj_bin a)) else 0)"
  proof (cases "find_item_bin (adj_item a) (adj_bin a) d")
    case None
    show ?thesis
    proof (cases "adj_change a \<le> 0")
      case True
      with None sh assms show ?thesis by (auto simp: apply_adjustment_def)
    next
      case False
      let ?r = "\<lparr>inv_id = seqs d Seq_inventory, inv_item = adj_item a, inv_bin = adj_bin a, inv_wh = adj_wh a,
        on_hand = adj_change a, allocated = 0, inv_lot = None, inv_updated = now d, inv_counted = None\<rparr>"
      have d': "apply_adjustment a d = d\<lparr>seqs := (seqs d)(Seq_inventory := seqs d Seq_inventory + 1),
          inventory := inventory d @ [?r]\<rparr>"
        using None False by (simp add: apply_adjustment_def nextval_def)
      have "(adj_item a, adj_bin a) \<notin> (\<lambda>r. (inv_item r, inv_bin r)) ` set (inventory d)"
        using find_item_bin_None [OF None] by fastforce
      then have "shelf_ok (apply_adjustment a d)" using ok False by (auto simp: d' shelf_ok_def one_lot_def)
      then show ?thesis using sh None False by (auto simp: d' on_shelf_def stock_def)
    qed
  next
    case (Some r)
    note r = find_item_bin_Some [OF Some]
    let ?q = "max 0 (on_hand r + adj_change a)"
    have inv: "inventory (apply_adjustment a d)
        = upd (\<lambda>x. inv_id x = inv_id r) (\<lambda>x. x\<lparr>on_hand := ?q, inv_updated := now d\<rparr>) (inventory d)"
      and rest: "seqs (apply_adjustment a d) = seqs d" "adjustments (apply_adjustment a d) = adjustments d"
      "count_lines (apply_adjustment a d) = count_lines d"
      using Some by (simp_all add: apply_adjustment_def set_inventory_quantity_def)
    have "shelf_ok (apply_adjustment a d)"
      using ok unfolding shelf_ok_def one_lot_def inv rest by (auto simp: map_upd_same set_upd)
    moreover have "on_shelf (apply_adjustment a d) i b = (if i = adj_item a \<and> b = adj_bin a
        then max 0 (on_shelf d i b + adj_change a) else on_shelf d i b)"
      using total_upd_key [OF ok(2) conjunct1 [OF r], of "\<lambda>x. inv_item x = i \<and> inv_bin x = b"
          "\<lambda>x. x\<lparr>on_hand := ?q, inv_updated := now d\<rparr>" on_hand] r sh Some
      by (auto simp: on_shelf_def inv)
    moreover have "stock (apply_adjustment a d) i = stock d i + (if i = adj_item a
        then max (adj_change a) (- on_shelf d i (adj_bin a)) else 0)"
      using total_upd_key [OF ok(2) conjunct1 [OF r], of "\<lambda>x. inv_item x = i"
          "\<lambda>x. x\<lparr>on_hand := ?q, inv_updated := now d\<rparr>" on_hand] r sh Some
      by (auto simp: stock_def inv)
    ultimately show ?thesis by (simp add: rest)
  qed
  then show "shelf_ok (apply_adjustment a d)"
    "on_shelf (apply_adjustment a d) i b = (if i = adj_item a \<and> b = adj_bin a
       then max 0 (on_shelf d i b + adj_change a) else on_shelf d i b)"
    "adjustments (apply_adjustment a d) = adjustments d" "count_lines (apply_adjustment a d) = count_lines d"
    "seqs (apply_adjustment a d) Seq_adjustment = seqs d Seq_adjustment"
    "seqs (apply_adjustment a d) Seq_count_line = seqs d Seq_count_line"
    "stock (apply_adjustment a d) i = stock d i + (if i = adj_item a
       then max (adj_change a) (- on_shelf d i (adj_bin a)) else 0)" by blast+
qed

section \<open>Counting and approving settles a bin\<close>

lemma total_and: "total (\<lambda>x. A x \<and> B x) g t = total A (\<lambda>x. if B x then g x else 0) t"
  by (induction t) auto

lemma distinct_item_adj:
  assumes "distinct (map adj_item (filter (\<lambda>a. adj_count a = Some cid) t))" "a \<in> set t" "of_count cid i a"
    and "adj_state a = ADJ_PENDING"
  shows "total (\<lambda>a. of_count cid i a \<and> adj_state a = ADJ_PENDING) adj_change t = adj_change a"
  using assms
proof (induction t)
  case Nil
  then show ?case by simp
next
  case (Cons x t)
  show ?case
  proof (cases "x = a")
    case True
    have "total (\<lambda>a. of_count cid i a \<and> adj_state a = ADJ_PENDING) adj_change t = 0"
      by (rule total_none) (use Cons.prems True in \<open>auto simp: of_count_def image_iff\<close>)
    with True Cons.prems(3,4) show ?thesis by simp
  next
    case False
    then have a: "a \<in> set t" using Cons.prems(2) by simp
    have "\<not> of_count cid i x" using Cons.prems(1,3) a by (auto simp: of_count_def)
    with Cons a show ?thesis by (auto split: if_splits)
  qed
qed

lemma ball_upd_same:
  "(\<And>x. P x \<Longrightarrow> Q (f x) = Q x) \<Longrightarrow> (\<forall>x \<in> set (upd P f t). Q x) = (\<forall>x \<in> set t. Q x)"
  by (induction t) auto

lemma set_adj_state_view:
  "inventory (set_adj_state k st d) = inventory d" "count_lines (set_adj_state k st d) = count_lines d"
  "seqs (set_adj_state k st d) = seqs d"
  "adjustments (set_adj_state k st d) = upd (\<lambda>a. adj_id a = k) (\<lambda>a. a\<lparr>adj_state := st\<rparr>) (adjustments d)"
  by (simp_all add: set_adj_state_def)

text \<open>Deciding a row leaves everything but its state.\<close>

lemma decided_rows:
  assumes "adjustments d' = upd (\<lambda>a. adj_id a = k) (\<lambda>a. a\<lparr>adj_state := st\<rparr>) (adjustments d)"
    "seqs d' Seq_adjustment = seqs d Seq_adjustment" "count_lines d' = count_lines d"
    "seqs d' Seq_count_line = seqs d Seq_count_line"
  shows "count_keys d' = count_keys d"
    "map adj_item (filter (\<lambda>a. adj_count a = Some cid) (adjustments d')) = map adj_item (filter (\<lambda>a. adj_count a = Some cid) (adjustments d))"
    "(\<forall>a \<in> set (adjustments d'). adj_count a = Some cid \<longrightarrow> adj_bin a = bin)
       = (\<forall>a \<in> set (adjustments d). adj_count a = Some cid \<longrightarrow> adj_bin a = bin)"
    "(\<forall>a \<in> set (adjustments d'). \<not> of_count cid i a) = (\<forall>a \<in> set (adjustments d). \<not> of_count cid i a)"
    "a \<in> set (adjustments d) \<Longrightarrow> adj_id a \<noteq> k \<Longrightarrow> a \<in> set (adjustments d')"
proof -
  have m: "map adj_id (adjustments d') = map adj_id (adjustments d)" by (simp add: assms(1) map_upd_same)
  have "adj_id ` set (adjustments d') = adj_id ` set (adjustments d)" using arg_cong [OF m, of set] by simp
  then have "(\<forall>i \<in> adj_id ` set (adjustments d'). i < n) = (\<forall>i \<in> adj_id ` set (adjustments d). i < n)" for n
    by (simp only:)
  then have "(\<forall>a \<in> set (adjustments d'). adj_id a < n) = (\<forall>a \<in> set (adjustments d). adj_id a < n)" for n
    by simp
  with m show "count_keys d' = count_keys d" by (simp add: count_keys_def assms(2-4))
  have "map adj_item (filter (\<lambda>a. adj_count a = Some cid) (upd Q (\<lambda>a. a\<lparr>adj_state := st\<rparr>) t))
      = map adj_item (filter (\<lambda>a. adj_count a = Some cid) t)" for Q and t :: "adj_row list" by (induction t) auto
  then show "map adj_item (filter (\<lambda>a. adj_count a = Some cid) (adjustments d'))
      = map adj_item (filter (\<lambda>a. adj_count a = Some cid) (adjustments d))" by (simp add: assms(1))
  show "(\<forall>a \<in> set (adjustments d'). adj_count a = Some cid \<longrightarrow> adj_bin a = bin)
       = (\<forall>a \<in> set (adjustments d). adj_count a = Some cid \<longrightarrow> adj_bin a = bin)"
    unfolding assms(1) by (rule ball_upd_same) simp
  show "(\<forall>a \<in> set (adjustments d'). \<not> of_count cid i a) = (\<forall>a \<in> set (adjustments d). \<not> of_count cid i a)"
    unfolding assms(1) by (rule ball_upd_same) (simp add: of_count_def)
  show "a \<in> set (adjustments d) \<Longrightarrow> adj_id a \<noteq> k \<Longrightarrow> a \<in> set (adjustments d')"
    unfolding assms(1) by (rule in_upd_other)
qed

text \<open>Approving a pending adjustment of the count moves its change from pending to the shelf.\<close>

lemma approve_books:
  assumes "count_books cid bin d" "a \<in> set (adjustments d)" "adj_count a = Some cid" "adj_state a = ADJ_PENDING"
  shows "count_books cid bin (set_adj_state (adj_id a) ADJ_APPROVED (apply_adjustment a d))" (is "count_books cid bin ?d")
proof -
  have b: "shelf_ok d" "count_keys d" "adj_bin a = bin"
    "distinct (map adj_item (filter (\<lambda>a. adj_count a = Some cid) (adjustments d)))"
    and lines: "\<And>l. l \<in> set (count_lines d) \<Longrightarrow> cl_count l = cid \<Longrightarrow> line_books cid bin d l"
    and bare: "\<And>i. \<not> has_line cid i d \<Longrightarrow> on_shelf d i bin = 0 \<and> (\<forall>a \<in> set (adjustments d). \<not> of_count cid i a)"
    using assms(1-3) by (auto simp: count_books_def)
  note e = apply_adjustment_effect [OF b(1), of a]
  note t = set_adj_state_view [of "adj_id a" ADJ_APPROVED "apply_adjustment a d"]
  have adj: "adjustments ?d = upd (\<lambda>x. adj_id x = adj_id a) (\<lambda>a. a\<lparr>adj_state := ADJ_APPROVED\<rparr>) (adjustments d)"
    and cl: "count_lines ?d = count_lines d" and sq: "seqs ?d Seq_adjustment = seqs d Seq_adjustment"
      "seqs ?d Seq_count_line = seqs d Seq_count_line" by (simp_all add: t e)
  note r = decided_rows [OF adj sq(1) cl sq(2)]
  have sh: "on_shelf ?d i bin = (if i = adj_item a then max 0 (on_shelf d i bin + adj_change a) else on_shelf d i bin)" for i
    using e(2) [of i bin] b(3) by (simp add: on_shelf_def t)
  have ids: "distinct (map adj_id (adjustments d))" using b(2) by (simp add: count_keys_def)
  have pt: "pending_change d0 cid i = total (of_count cid i) (\<lambda>x. if adj_state x = ADJ_PENDING then adj_change x else 0)
      (adjustments d0)" for d0 i by (simp add: pending_change_def total_and)
  have pc: "pending_change ?d cid i = pending_change d cid i - (if i = adj_item a then adj_change a else 0)" for i
    unfolding pt adj
    by (subst total_upd_key [OF ids assms(2)]) (use assms(3,4) in \<open>auto simp: of_count_def\<close>)
  have change: "0 \<le> on_shelf d (adj_item a) bin + adj_change a" and line: "has_line cid (adj_item a) d"
    "\<And>l. l \<in> set (count_lines d) \<Longrightarrow> cl_count l = cid \<Longrightarrow> cl_item l = adj_item a \<Longrightarrow> cl_counted l \<noteq> None"
  proof -
    have oc: "of_count cid (adj_item a) a" using assms(3) by (simp add: of_count_def)
    show hl: "has_line cid (adj_item a) d" using bare assms(2) oc by blast
    show cn: "cl_counted l \<noteq> None" if "l \<in> set (count_lines d)" "cl_count l = cid" "cl_item l = adj_item a" for l
      using lines [OF that(1,2)] that(3) assms(2) oc by (auto simp: line_books_def split: option.splits)
    from hl obtain l where l: "l \<in> set (count_lines d)" "cl_count l = cid" "cl_item l = adj_item a"
      by (auto simp: has_line_def)
    with cn obtain q where "cl_counted l = Some q" by blast
    with lines [OF l(1,2)] l(3) distinct_item_adj [OF b(4) assms(2) oc assms(4)]
    show "0 \<le> on_shelf d (adj_item a) bin + adj_change a" by (simp add: line_books_def pending_change_def)
  qed
  have "line_books cid bin ?d l" if l: "l \<in> set (count_lines d)" "cl_count l = cid" for l
  proof (cases "cl_counted l")
    case None
    then have "cl_item l \<noteq> adj_item a" using line(2) l by blast
    with None lines [OF l] show ?thesis by (simp add: line_books_def sh r(4))
  next
    case (Some q)
    with lines [OF l] change show ?thesis by (simp add: line_books_def sh pc)
  qed
  moreover have "shelf_ok ?d" using e(1) by (simp add: shelf_ok_def one_lot_def t)
  moreover have "on_shelf ?d i bin = 0 \<and> (\<forall>a \<in> set (adjustments ?d). \<not> of_count cid i a)" if "\<not> has_line cid i ?d" for i
  proof -
    have "\<not> has_line cid i d" using that by (simp add: has_line_def cl)
    moreover from this have "i \<noteq> adj_item a" using line(1) by blast
    ultimately show ?thesis using bare by (simp add: sh r(4))
  qed
  moreover have "\<forall>a \<in> set (adjustments d). adj_count a = Some cid \<longrightarrow> adj_bin a = bin"
    using assms(1) by (simp add: count_books_def)
  ultimately show ?thesis using b(2,4) unfolding count_books_def r(1-3) cl by blast
qed

lemma report_approval_view: "report_approval s a d = Some d' \<Longrightarrow> count_view d' = count_view d"
  by (auto simp: report_approval_def emit_adjusted_def emit_count_adjusted_def Let_def split: option.splits)

lemma approve_adjustment_view:
  assumes "approve_adjustment s a d = Some d'"
  shows "count_view d' = count_view (set_adj_state (adj_id a) ADJ_APPROVED (apply_adjustment a d))"
  using report_approval_view [OF assms [unfolded approve_adjustment_def]] by (simp add: audit_self_def)

definition names :: "adj_row list \<Rightarrow> (int \<times> int option) list" where
  "names t = map (\<lambda>a. (adj_id a, adj_count a)) t"

lemma names_decided: "names (upd P (\<lambda>a. a\<lparr>adj_state := st\<rparr>) t) = names t"
  by (simp add: names_def map_upd_same)

lemma decide_books:
  assumes "decide s x t d = Inr (t', d')" "count_books cid bin d" "snd x"
    and "\<forall>(i, c) \<in> set (names (adjustments d)). i = fst x \<longrightarrow> c = Some cid"
  shows "count_books cid bin d' \<and> count_lines d' = count_lines d \<and> names (adjustments d') = names (adjustments d)"
proof (cases "d' = d")
  case True
  with assms(2) show ?thesis by simp
next
  case False
  with assms(1,3) obtain a where a: "List.find (\<lambda>a. adj_id a = fst x) (adjustments d) = Some a"
    "adj_state a = ADJ_PENDING" "approve_adjustment s a d = Some d'"
    by (auto simp: decide_def split: option.splits if_splits)
  from find_Some_iff_first [OF a(1)] have m: "a \<in> set (adjustments d)" "adj_id a = fst x" by auto
  with assms(4) have "adj_count a = Some cid" by (force simp: names_def)
  note b = approve_books [OF assms(2) m(1) this a(2)]
  note v = approve_adjustment_view [OF a(3)]
  have "shelf_ok d" using assms(2) by (simp add: count_books_def)
  note e = apply_adjustment_effect [OF this, of a]
  show ?thesis using b count_view_cong [OF v]
    by (simp add: set_adj_state_view e names_decided)
qed

lemma decide_all_books:
  assumes "decide_all s xs t d = Inr (t', d')" "count_books cid bin d" "\<forall>x \<in> set xs. snd x"
    and "\<forall>x \<in> set xs. \<forall>(i, c) \<in> set (names (adjustments d)). i = fst x \<longrightarrow> c = Some cid"
  shows "count_books cid bin d' \<and> count_lines d' = count_lines d"
  using assms
proof (induction xs arbitrary: t d)
  case Nil
  then show ?case by simp
next
  case (Cons x xs)
  then obtain t1 d1 where d1: "decide s x t d = Inr (t1, d1)" "decide_all s xs t1 d1 = Inr (t', d')"
    by (auto split: sum.splits)
  note e = decide_books [OF d1(1) Cons.prems(2)]
  have "count_books cid bin d1 \<and> count_lines d1 = count_lines d \<and> names (adjustments d1) = names (adjustments d)"
    by (rule e) (use Cons.prems(3,4) in auto)
  with Cons.IH [OF d1(2)] Cons.prems(3,4) show ?case by simp
qed

lemma release_grown_view: "count_view (fst (fold (release_grown txn) gs s)) = count_view (fst s)"
proof (induction gs arbitrary: s)
  case Nil
  then show ?case by simp
next
  case (Cons g gs)
  have "count_view (fst (release_grown txn g s)) = count_view (fst s)"
    by (cases g) (simp add: release_grown_def split_beta)
  with Cons show ?case by simp
qed

lemma review_adjustments_books:
  assumes "review_adjustments s xs d = Inr (r, d')" "count_books cid bin d" "\<forall>x \<in> set xs. snd x"
    and "\<forall>x \<in> set xs. \<forall>(i, c) \<in> set (names (adjustments d)). i = fst x \<longrightarrow> c = Some cid"
  shows "count_books cid bin d' \<and> count_lines d' = count_lines d"
proof -
  let ?t = "\<lparr>rt_approved = 0, rt_rejected = 0, rt_grown = []\<rparr>"
  from assms(1) obtain t d1 where d1: "decide_all s xs ?t d = Inr (t, d1)"
    and d': "d' = fst (fold (release_grown (s_txn s)) (sort (remdups (rt_grown t))) (d1, []))"
    by (auto simp: review_adjustments_def split_beta Let_def split: sum.splits)
  have v: "count_view d' = count_view d1" unfolding d' by (simp add: release_grown_view)
  from decide_all_books [OF d1 assms(2-4)] count_view_cong [OF v] show ?thesis by simp
qed

text \<open>Submitting: a pending adjustment for an item that had none.\<close>

lemma pending_added:
  assumes "adjustments d' = adjustments d @ [a]" "adj_state a = ADJ_PENDING" "adj_count a = Some cid"
  shows "pending_change d' cid i = pending_change d cid i + (if i = adj_item a then adj_change a else 0)"
    "(\<forall>x \<in> set (adjustments d'). \<not> of_count cid i x) \<longleftrightarrow> (\<forall>x \<in> set (adjustments d). \<not> of_count cid i x) \<and> i \<noteq> adj_item a"
  using assms by (auto simp: pending_change_def of_count_def)

lemma no_pending: "(\<forall>x \<in> set (adjustments d). \<not> of_count cid i x) \<Longrightarrow> pending_change d cid i = 0"
  unfolding pending_change_def by (rule total_none) auto

lemma submit_unexpected_books:
  assumes "submit_unexpected c user e t d = Inr (t', d')" "count_books cid bin d" "cc_id c = cid" "cc_bin c = bin"
    and "0 \<le> ce_counted e"
  shows "count_books cid bin d' \<and> (\<exists>ls. count_lines d' = count_lines d @ ls)"
proof -
  from assms(1) obtain item where item: "ce_item e = Some item" by (auto simp: submit_unexpected_def split: option.splits)
  show ?thesis
  proof (cases "has_line cid item d")
    case True
    with assms(1-3) item show ?thesis by (auto simp: submit_unexpected_def)
  next
    case False
    let ?l = "\<lparr>cl_id = seqs d Seq_count_line, cl_count = cid, cl_item = item, cl_expected = 0, cl_counted = Some (ce_counted e),
       cl_scanned = True, cl_unexpected = True, cl_by = Some user, cl_at = Some (now d)\<rparr>"
    from assms(1,3) item False obtain a where cl: "count_lines d' = count_lines d @ [?l]"
      and adj: "adjustments d' = adjustments d @ [a]" "adj_id a = seqs d Seq_adjustment" "adj_item a = item"
        "adj_change a = ce_counted e" "adj_state a = ADJ_PENDING" "adj_count a = Some cid" "adj_bin a = cc_bin c"
      and inv: "inventory d' = inventory d" "seqs d' Seq_inventory = seqs d Seq_inventory"
        "seqs d' Seq_adjustment = seqs d Seq_adjustment + 1" "seqs d' Seq_count_line = seqs d Seq_count_line + 1"
      by (auto simp: submit_unexpected_def insert_count_line_def insert_adjustment_def uuid4_def nextval_def
          pending_adjustment_def Let_def split: if_splits)
    note p = pending_added [OF adj(1,5,6)]
    have sh: "on_shelf d' = on_shelf d" by (simp add: on_shelf_def fun_eq_iff inv)
    from assms(2) have b: "shelf_ok d" "count_keys d" "distinct (map adj_item (filter (\<lambda>a. adj_count a = Some cid) (adjustments d)))"
      "\<forall>a \<in> set (adjustments d). adj_count a = Some cid \<longrightarrow> adj_bin a = bin"
      and lines: "\<And>l. l \<in> set (count_lines d) \<Longrightarrow> cl_count l = cid \<Longrightarrow> line_books cid bin d l"
      and bare: "\<And>i. \<not> has_line cid i d \<Longrightarrow> on_shelf d i bin = 0 \<and> (\<forall>a \<in> set (adjustments d). \<not> of_count cid i a)"
      by (auto simp: count_books_def)
    have "count_keys d'"
      using b(2) False by (auto simp: count_keys_def inv cl adj has_line_def)
    moreover have "distinct (map adj_item (filter (\<lambda>a. adj_count a = Some cid) (adjustments d')))"
      using b(3) bare [OF False] by (auto simp: adj of_count_def)
    moreover have "line_books cid bin d' l" if l: "l \<in> set (count_lines d')" "cl_count l = cid" for l
    proof (cases "l = ?l")
      case True
      show ?thesis unfolding True using bare [OF False] no_pending [of d cid item] assms(5)
        by (simp add: line_books_def sh p(1) adj)
    next
      case old: False
      with l have m: "l \<in> set (count_lines d)" by (simp add: cl)
      then have "cl_item l \<noteq> adj_item a" using False l(2) by (auto simp: has_line_def adj)
      with lines [OF m l(2)] show ?thesis by (simp add: line_books_def sh p split: option.splits)
    qed
    moreover have "on_shelf d' i bin = 0 \<and> (\<forall>a \<in> set (adjustments d'). \<not> of_count cid i a)" if "\<not> has_line cid i d'" for i
    proof -
      have "\<not> has_line cid i d" "i \<noteq> adj_item a" using that by (auto simp: has_line_def cl adj)
      then show ?thesis using bare [of i] p(2) [of i] by (simp add: sh)
    qed
    moreover have "shelf_ok d'" using b(1) by (simp add: shelf_ok_def one_lot_def inv)
    moreover have "\<forall>a \<in> set (adjustments d'). adj_count a = Some cid \<longrightarrow> adj_bin a = bin"
      using b(4) by (simp add: adj assms(4))
    ultimately show ?thesis using cl unfolding count_books_def by blast
  qed
qed

text \<open>Counting an expected line that was not counted before.\<close>

definition count_it :: "int \<Rightarrow> string \<Rightarrow> db \<Rightarrow> cline_row \<Rightarrow> cline_row" where
  "count_it q user d l = l\<lparr>cl_counted := Some q, cl_by := Some user, cl_at := Some (now d), cl_scanned := True\<rparr>"

lemma count_it_simps [simp]:
  "cl_id (count_it q u d l) = cl_id l" "cl_count (count_it q u d l) = cl_count l"
  "cl_item (count_it q u d l) = cl_item l" "cl_counted (count_it q u d l) = Some q"
  "cl_expected (count_it q u d l) = cl_expected l"
  by (simp_all add: count_it_def)

lemma touch_counted_shelf:
  "on_shelf (touch_counted i b d) = on_shelf d" "shelf_ok (touch_counted i b d) = shelf_ok d"
proof -
  show "on_shelf (touch_counted i b d) = on_shelf d"
    unfolding on_shelf_def touch_counted_def by (intro ext) (simp add: total_upd_other)
  show "shelf_ok (touch_counted i b d) = shelf_ok d"
    by (simp add: shelf_ok_def one_lot_def touch_counted_def map_upd_same ball_upd_same)
qed

lemma shelf_cong:
  assumes "inventory d' = inventory d" "seqs d' Seq_inventory = seqs d Seq_inventory"
  shows "on_shelf d' = on_shelf d" "shelf_ok d' = shelf_ok d"
  using assms by (simp_all add: on_shelf_def fun_eq_iff shelf_ok_def one_lot_def)

lemma touch_counted_frame:
  "adjustments (touch_counted i b d) = adjustments d" "count_lines (touch_counted i b d) = count_lines d"
  "seqs (touch_counted i b d) = seqs d"
  by (simp_all add: touch_counted_def)

lemma submit_expected_books:
  assumes "submit_expected c user e t d = Inr (t', d')" "count_books cid bin d" "cc_id c = cid" "cc_bin c = bin"
    and "0 \<le> ce_counted e" "ce_line e \<in> (\<lambda>l. Some (cl_id l)) ` {l \<in> set (count_lines d). cl_counted l = None}"
  shows "count_books cid bin d' \<and> (\<exists>l \<in> set (count_lines d). ce_line e = Some (cl_id l) \<and> cl_count l = cid
    \<and> count_lines d' = upd (\<lambda>x. cl_id x = cl_id l) (count_it (ce_counted e) user d) (count_lines d))"
proof -
  from assms(1) obtain l i where li: "line_on_count (cc_id c) (ce_line e) d = Some (l, i)"
    by (auto simp: submit_expected_def split: option.splits)
  then have "List.find (\<lambda>l. Some (cl_id l) = ce_line e \<and> cl_count l = cid) (count_lines d) = Some l"
    by (auto simp: line_on_count_def assms(3) split: option.splits)
  from find_Some_iff_first [OF this] have l: "l \<in> set (count_lines d)" "ce_line e = Some (cl_id l)" "cl_count l = cid" by auto
  from assms(2) have b: "shelf_ok d" "count_keys d" "distinct (map adj_item (filter (\<lambda>a. adj_count a = Some cid) (adjustments d)))"
    "\<forall>a \<in> set (adjustments d). adj_count a = Some cid \<longrightarrow> adj_bin a = bin"
    and lines: "\<And>l. l \<in> set (count_lines d) \<Longrightarrow> cl_count l = cid \<Longrightarrow> line_books cid bin d l"
    and bare: "\<And>i. \<not> has_line cid i d \<Longrightarrow> on_shelf d i bin = 0 \<and> (\<forall>a \<in> set (adjustments d). \<not> of_count cid i a)"
    by (auto simp: count_books_def)
  have ids: "distinct (map cl_id (count_lines d))" "distinct (map (\<lambda>l. (cl_count l, cl_item l)) (count_lines d))"
    using b(2) by (simp_all add: count_keys_def)
  from assms(6) obtain k where "k \<in> set (count_lines d)" "cl_id k = cl_id l" "cl_counted k = None"
    using l(2) by auto
  with key_inj [OF ids(1) _ l(1)] have un: "cl_counted l = None" by metis
  let ?v = "ce_counted e - cl_expected l"
  have ex: "cl_expected l = on_shelf d (cl_item l) bin" "\<forall>a \<in> set (adjustments d). \<not> of_count cid (cl_item l) a"
    using lines [OF l(1,3)] un by (simp_all add: line_books_def)
  have cl: "count_lines d' = upd (\<lambda>x. cl_id x = cl_id l) (count_it (ce_counted e) user d) (count_lines d)"
    using assms(1) li by (auto simp: submit_expected_def record_counted_def touch_counted_frame Let_def split_beta
        count_it_def [abs_def] split: if_splits)
  have sq: "seqs d' Seq_count_line = seqs d Seq_count_line"
    using assms(1) li by (auto simp: submit_expected_def record_counted_def touch_counted_frame Let_def split_beta split: if_splits)
  have sh: "on_shelf d' = on_shelf d" "shelf_ok d'"
  proof -
    let ?d1 = "record_counted (cl_id l) (ce_counted e) user d"
    let ?d0 = "if ?v = 0 then ?d1 else snd (insert_adjustment (pending_adjustment c (cl_item l) ?v
        (variance_detail (cl_expected l) (ce_counted e)) user ?d1) ?d1)"
    have "d' = touch_counted (cl_item l) (cc_bin c) ?d0"
      using assms(1) li by (simp add: submit_expected_def Let_def split_beta split: if_splits)
    moreover have "inventory ?d0 = inventory d" "seqs ?d0 Seq_inventory = seqs d Seq_inventory"
      by (simp_all add: record_counted_def)
    ultimately have "on_shelf d' = on_shelf d \<and> shelf_ok d' = shelf_ok d"
      using shelf_cong [of ?d0 d] by (simp only: touch_counted_shelf simp_thms)
    with b(1) show "on_shelf d' = on_shelf d" "shelf_ok d'" by simp_all
  qed
  have adj: "(?v = 0 \<and> adjustments d' = adjustments d \<and> seqs d' Seq_adjustment = seqs d Seq_adjustment)
    \<or> (?v \<noteq> 0 \<and> (\<exists>a. adjustments d' = adjustments d @ [a] \<and> adj_id a = seqs d Seq_adjustment
        \<and> adj_item a = cl_item l \<and> adj_change a = ?v \<and> adj_state a = ADJ_PENDING \<and> adj_count a = Some cid
        \<and> adj_bin a = bin) \<and> seqs d' Seq_adjustment = seqs d Seq_adjustment + 1)"
    using assms(1) li by (auto simp: submit_expected_def record_counted_def touch_counted_frame Let_def split_beta
        insert_adjustment_rows pending_adjustment_def assms(3,4) split: if_splits)
  have pc: "pending_change d' cid i = pending_change d cid i + (if i = cl_item l then ?v else 0)"
    "i \<noteq> cl_item l \<Longrightarrow> (\<forall>x \<in> set (adjustments d'). \<not> of_count cid i x) = (\<forall>x \<in> set (adjustments d). \<not> of_count cid i x)" for i
    using adj pending_added [of d' d _ cid i] by (auto simp: pending_change_def of_count_def)
  have low: "x \<in> set (adjustments d) \<Longrightarrow> adj_id x < seqs d Seq_adjustment" for x
    using b(2) by (simp add: count_keys_def)
  have "distinct (map adj_id (adjustments d')) \<and> (\<forall>a \<in> set (adjustments d'). adj_id a < seqs d' Seq_adjustment)"
    using adj b(2) low less_imp_neq [OF low] by (elim disjE exE conjE) (fastforce simp: count_keys_def)+
  then have keys: "count_keys d'"
    using b(2) unfolding count_keys_def cl sq by (simp add: map_upd_same ball_upd_same)
  have "cl_item l \<notin> adj_item ` set (filter (\<lambda>a. adj_count a = Some cid) (adjustments d))"
    using ex(2) by (force simp: of_count_def)
  then have dist: "distinct (map adj_item (filter (\<lambda>a. adj_count a = Some cid) (adjustments d')))"
    using adj b(3) by (elim disjE exE conjE) simp_all
  have at_bin: "\<forall>a \<in> set (adjustments d'). adj_count a = Some cid \<longrightarrow> adj_bin a = bin"
    using adj b(4) by auto
  have hl: "has_line cid i d' = has_line cid i d" for i
  proof -
    have "(cid, i) \<in> set (map (\<lambda>l. (cl_count l, cl_item l)) (count_lines d')) \<longleftrightarrow>
        (cid, i) \<in> set (map (\<lambda>l. (cl_count l, cl_item l)) (count_lines d))" by (simp add: cl map_upd_same del: set_map)
    then show ?thesis by (force simp: has_line_def)
  qed
  have "line_books cid bin d' k" if k: "k \<in> set (count_lines d')" "cl_count k = cid" for k
  proof -
    from k(1) obtain y where y: "y \<in> set (count_lines d)"
      "k = (if cl_id y = cl_id l then count_it (ce_counted e) user d y else y)" by (auto simp: cl set_upd)
    show ?thesis
    proof (cases "cl_id y = cl_id l")
      case True
      then have "y = l" using key_inj [OF ids(1) y(1) l(1)] by simp
      with y True assms(5) ex no_pending [OF ex(2)] show ?thesis by (simp add: line_books_def sh pc(1))
    next
      case False
      with y have m: "k \<in> set (count_lines d)" "k \<noteq> l" by auto
      have "cl_item k \<noteq> cl_item l" using key_inj [OF ids(2) m(1) l(1)] m(2) k(2) l(3) by auto
      with lines [OF m(1) k(2)] show ?thesis by (simp add: line_books_def sh pc split: option.splits)
    qed
  qed
  moreover have "on_shelf d' i bin = 0 \<and> (\<forall>a \<in> set (adjustments d'). \<not> of_count cid i a)" if "\<not> has_line cid i d'" for i
  proof -
    have "\<not> has_line cid i d" using that hl by simp
    moreover from this have "i \<noteq> cl_item l" using l by (auto simp: has_line_def)
    ultimately show ?thesis using bare [of i] pc(2) [of i] by (simp add: sh)
  qed
  ultimately have "count_books cid bin d'" using sh(2) keys dist at_bin unfolding count_books_def by blast
  with l cl show ?thesis by blast
qed

text \<open>All the entries of a submission, when each line is counted once.\<close>

definition open_line :: "db \<Rightarrow> count_entry \<Rightarrow> bool" where
  "open_line d e \<longleftrightarrow> (\<exists>l \<in> set (count_lines d). ce_line e = Some (cl_id l) \<and> cl_counted l = None)"

definition counted_as :: "int \<Rightarrow> db \<Rightarrow> count_entry \<Rightarrow> bool" where
  "counted_as cid d e \<longleftrightarrow> (\<exists>l \<in> set (count_lines d). ce_line e = Some (cl_id l) \<and> cl_count l = cid
     \<and> cl_counted l = Some (ce_counted e))"

lemma submit_entries_books:
  assumes "submit_entries c user es t d = Inr (t', d')" "count_books cid bin d" "cc_id c = cid" "cc_bin c = bin"
    and "\<forall>e \<in> set es. 0 \<le> ce_counted e" "distinct (map ce_line (filter (\<lambda>e. \<not> ce_unexpected e) es))"
    and "\<forall>e \<in> set es. \<not> ce_unexpected e \<longrightarrow> open_line d e"
  shows "count_books cid bin d' \<and> (\<forall>l \<in> set (count_lines d). cl_counted l \<noteq> None \<longrightarrow> l \<in> set (count_lines d'))
    \<and> (\<forall>e \<in> set es. \<not> ce_unexpected e \<longrightarrow> counted_as cid d' e)"
  using assms
proof (induction es arbitrary: t d)
  case Nil
  then show ?case by simp
next
  case (Cons e es)
  show ?case
  proof (cases "ce_unexpected e")
    case True
    with Cons.prems(1) obtain t1 d1 where d1: "submit_unexpected c user e t d = Inr (t1, d1)"
      "submit_entries c user es t1 d1 = Inr (t', d')" by (auto split: sum.splits)
    from submit_unexpected_books [OF d1(1) Cons.prems(2-4)] Cons.prems(5) obtain ls where
      b: "count_books cid bin d1" "count_lines d1 = count_lines d @ ls" by auto
    have "\<forall>e \<in> set es. \<not> ce_unexpected e \<longrightarrow> open_line d1 e"
      using Cons.prems(7) b(2) by (auto simp: open_line_def)
    with Cons.IH [OF d1(2) b(1) Cons.prems(3,4)] Cons.prems(5,6) True b(2) show ?thesis by simp
  next
    case False
    with Cons.prems(1) obtain t1 d1 where d1: "submit_expected c user e t d = Inr (t1, d1)"
      "submit_entries c user es t1 d1 = Inr (t', d')" by (auto split: sum.splits)
    have op: "open_line d e" using Cons.prems(7) False by simp
    then have "ce_line e \<in> (\<lambda>l. Some (cl_id l)) ` {l \<in> set (count_lines d). cl_counted l = None}"
      by (auto simp: open_line_def)
    with submit_expected_books [OF d1(1) Cons.prems(2-4)] Cons.prems(5) obtain l where b: "count_books cid bin d1"
      and l: "l \<in> set (count_lines d)" "ce_line e = Some (cl_id l)" "cl_count l = cid"
      "count_lines d1 = upd (\<lambda>x. cl_id x = cl_id l) (count_it (ce_counted e) user d) (count_lines d)" by auto
    have ids: "distinct (map cl_id (count_lines d))" using Cons.prems(2) by (simp add: count_books_def count_keys_def)
    have stays: "x \<in> set (count_lines d1)" if "x \<in> set (count_lines d)" "cl_id x \<noteq> cl_id l" for x
      unfolding l(4) using that by (rule in_upd_other)
    have "open_line d1 f" if f: "f \<in> set es" "\<not> ce_unexpected f" for f
    proof -
      from Cons.prems(7) f obtain x where x: "x \<in> set (count_lines d)" "ce_line f = Some (cl_id x)" "cl_counted x = None"
        by (auto simp: open_line_def)
      have "ce_line f \<noteq> ce_line e" using Cons.prems(6) False f by (auto simp: image_iff)
      with l(2) x(2) stays [OF x(1)] x show ?thesis by (auto simp: open_line_def)
    qed
    with Cons.IH [OF d1(2) b Cons.prems(3,4)] Cons.prems(5,6) False
    have ih: "count_books cid bin d'" "\<forall>l \<in> set (count_lines d1). cl_counted l \<noteq> None \<longrightarrow> l \<in> set (count_lines d')"
      "\<forall>e \<in> set es. \<not> ce_unexpected e \<longrightarrow> counted_as cid d' e" by auto
    have "count_it (ce_counted e) user d l \<in> set (count_lines d1)" using l(1) by (auto simp: l(4) set_upd)
    with ih(2) have "count_it (ce_counted e) user d l \<in> set (count_lines d')" by simp
    then have "counted_as cid d' e" unfolding counted_as_def by (rule bexI [rotated]) (simp add: l(2,3))
    moreover have "x \<in> set (count_lines d')" if x: "x \<in> set (count_lines d)" "cl_counted x \<noteq> None" for x
    proof -
      obtain k where k: "k \<in> set (count_lines d)" "ce_line e = Some (cl_id k)" "cl_counted k = None"
        using op by (auto simp: open_line_def)
      have "k = l" using key_inj [OF ids k(1) l(1)] k(2) l(2) by simp
      then have "cl_id x \<noteq> cl_id l" using key_inj [OF ids x(1) l(1)] k(3) x(2) by auto
      with stays [OF x(1)] ih(2) x(2) show ?thesis by simp
    qed
    ultimately show ?thesis using ih(1,3) by simp
  qed
qed

text \<open>A fresh count starts in balance.\<close>

fun lines_from :: "int \<Rightarrow> int \<Rightarrow> (int \<times> int) list \<Rightarrow> cline_row list" where
  "lines_from cid n [] = []"
| "lines_from cid n (e # es) = (expected_line cid e)\<lparr>cl_id := n\<rparr> # lines_from cid (n + 1) es"

lemma lines_from_facts:
  "map (\<lambda>l. (cl_item l, cl_expected l)) (lines_from cid n es) = es"
  "map (\<lambda>l. (cl_count l, cl_item l)) (lines_from cid n es) = map (\<lambda>e. (cid, fst e)) es"
  "distinct (map cl_id (lines_from cid n es))"
  "l \<in> set (lines_from cid n es) \<Longrightarrow> n \<le> cl_id l \<and> cl_id l < n + int (length es) \<and> cl_count l = cid \<and> cl_counted l = None"
proof -
  show b: "l \<in> set (lines_from cid n es) \<Longrightarrow> n \<le> cl_id l \<and> cl_id l < n + int (length es) \<and> cl_count l = cid \<and> cl_counted l = None" for n l es
    by (induction es arbitrary: n) (fastforce simp: expected_line_def)+
  show "map (\<lambda>l. (cl_item l, cl_expected l)) (lines_from cid n es) = es"
    "map (\<lambda>l. (cl_count l, cl_item l)) (lines_from cid n es) = map (\<lambda>e. (cid, fst e)) es"
    by (induction es arbitrary: n) (auto simp: expected_line_def)
  show "distinct (map cl_id (lines_from cid n es))"
  proof (induction es arbitrary: n)
    case (Cons e es)
    have "n \<notin> cl_id ` set (lines_from cid (n + 1) es)"
    proof
      assume "n \<in> cl_id ` set (lines_from cid (n + 1) es)"
      then obtain x where x: "x \<in> set (lines_from cid (n + 1) es)" "n = cl_id x" by blast
      from b [where n = "n + 1", OF x(1)] x(2) show False by simp
    qed
    with Cons show ?case by simp
  qed simp
qed

lemma insert_lines:
  "count_lines (fold (\<lambda>e d. snd (insert_count_line (expected_line cid e) d)) es d)
     = count_lines d @ lines_from cid (seqs d Seq_count_line) es"
  "seqs (fold (\<lambda>e d. snd (insert_count_line (expected_line cid e) d)) es d) Seq_count_line
     = seqs d Seq_count_line + int (length es)"
  "inventory (fold (\<lambda>e d. snd (insert_count_line (expected_line cid e) d)) es d) = inventory d"
  "adjustments (fold (\<lambda>e d. snd (insert_count_line (expected_line cid e) d)) es d) = adjustments d"
  "q \<noteq> Seq_count_line \<Longrightarrow> seqs (fold (\<lambda>e d. snd (insert_count_line (expected_line cid e) d)) es d) q = seqs d q"
  by (induction es arbitrary: d) (auto simp: insert_count_line_def nextval_def Let_def)

lemma snapshot_shelf:
  assumes "\<forall>r \<in> set (inventory d). 0 \<le> on_hand r"
  shows "distinct (map fst (snapshot bin d))" "(i, q) \<in> set (snapshot bin d) \<Longrightarrow> q = on_shelf d i bin"
    "i \<notin> fst ` set (snapshot bin d) \<Longrightarrow> on_shelf d i bin = 0"
proof -
  have m: "map fst (snapshot bin d) = remdups (map inv_item (filter (counted_row bin) (inventory d)))"
    by (simp add: snapshot_def comp_def)
  then show "distinct (map fst (snapshot bin d))" by simp
  have "total (\<lambda>r. counted_row bin r \<and> inv_item r = i) on_hand t = total (\<lambda>r. inv_item r = i \<and> inv_bin r = bin) on_hand t"
    if "\<forall>r \<in> set t. 0 \<le> on_hand r" for i t
    using that by (induction t) (auto simp: counted_row_def)
  with assms have s: "total (\<lambda>r. counted_row bin r \<and> inv_item r = i) on_hand (inventory d) = on_shelf d i bin" for i
    by (simp add: on_shelf_def)
  show "(i, q) \<in> set (snapshot bin d) \<Longrightarrow> q = on_shelf d i bin" using s by (auto simp: snapshot_def)
  assume "i \<notin> fst ` set (snapshot bin d)"
  then have "\<forall>r \<in> set (inventory d). \<not> (counted_row bin r \<and> inv_item r = i)"
    using arg_cong [OF m, of set] by auto
  with s [of i] total_none [of "inventory d" "\<lambda>r. counted_row bin r \<and> inv_item r = i" on_hand] show "on_shelf d i bin = 0" by simp
qed

definition count_fresh :: "db \<Rightarrow> bool" where
  "count_fresh d \<longleftrightarrow> (\<forall>l \<in> set (count_lines d). cl_count l < seqs d Seq_count)
     \<and> (\<forall>a \<in> set (adjustments d). \<forall>c. adj_count a = Some c \<longrightarrow> c < seqs d Seq_count)"

lemma create_books:
  assumes "create_cycle_count wh [bin] user d = Inr ([c], d')" "shelf_ok d" "count_keys d" "count_fresh d"
  shows "count_books (nc_id c) bin d'"
    "l \<in> set (count_lines d') \<Longrightarrow> cl_count l = nc_id c \<Longrightarrow> cl_counted l = None"
proof -
  let ?cid = "seqs d Seq_count" and ?n = "seqs d Seq_count_line"
  from assms(1) obtain b where b: "bin_of_wh wh bin d = Some b" "count_bin wh user b d = (c, d')"
    by (auto simp: create_cycle_count_def split_beta split: if_splits option.splits)
  have "bin_id b = bin" using b(1) unfolding bin_of_wh_def by (auto dest!: find_Some_iff_first)
  obtain d1 where d1: "insert_count wh bin user d = (?cid, d1)" "inventory d1 = inventory d" "adjustments d1 = adjustments d"
    "count_lines d1 = count_lines d" "seqs d1 = (seqs d)(Seq_count := ?cid + 1)"
    by (simp add: insert_count_def uuid4_def nextval_def Let_def)
  let ?es = "snapshot bin d1"
  have cid: "nc_id c = ?cid" and d': "d' = fold (\<lambda>e d. snd (insert_count_line (expected_line ?cid e) d)) ?es d1"
    using b(2) d1(1) by (auto simp: count_bin_def Let_def \<open>bin_id b = bin\<close>)
  note f = insert_lines [where cid = ?cid and es = ?es and d = d1, folded d', unfolded d1]
  have cl: "count_lines d' = count_lines d @ lines_from ?cid ?n ?es" using f(1) by simp
  have sq: "seqs d' Seq_count_line = ?n + int (length ?es)" "seqs d' Seq_inventory = seqs d Seq_inventory"
    "seqs d' Seq_adjustment = seqs d Seq_adjustment" using f(2) f(5) by simp_all
  note lf = lines_from_facts [where cid = ?cid and n = ?n and es = ?es]
  have inv: "inventory d' = inventory d" "adjustments d' = adjustments d" by (simp_all add: f)
  have pos: "\<forall>r \<in> set (inventory d1). 0 \<le> on_hand r" using assms(2) by (simp add: shelf_ok_def d1)
  have sh: "on_shelf d' = on_shelf d" "on_shelf d1 = on_shelf d" by (simp_all add: on_shelf_def fun_eq_iff inv d1)
  note sn = snapshot_shelf [OF pos, where bin = bin, unfolded sh]
  have old: "cl_count x \<noteq> ?cid" if "x \<in> set (count_lines d)" for x using assms(4) that by (auto simp: count_fresh_def)
  have none: "\<not> of_count ?cid i a" if "a \<in> set (adjustments d')" for a i
    using assms(4) that by (auto simp: count_fresh_def of_count_def inv)
  show "l \<in> set (count_lines d') \<Longrightarrow> cl_count l = nc_id c \<Longrightarrow> cl_counted l = None"
    using old lf(4) by (auto simp: cl cid)
  have pair: "(cl_item x, cl_expected x) \<in> set ?es" if "x \<in> set (lines_from ?cid ?n ?es)" for x
    using arg_cong [OF lf(1), of set] that by auto
  have "count_keys d'"
  proof -
    have "distinct (map (\<lambda>e. (?cid, fst e)) ?es)" using sn(1) by (simp add: distinct_map inj_on_def)
    moreover have "cl_id ` set (count_lines d) \<inter> cl_id ` set (lines_from ?cid ?n ?es) = {}"
      using assms(3) lf(4) by (fastforce simp: count_keys_def)
    moreover have "(\<lambda>l. (cl_count l, cl_item l)) ` set (count_lines d)
        \<inter> (\<lambda>e. (?cid, fst e)) ` set ?es = {}"
      using old by fastforce
    moreover have "\<forall>l \<in> set (count_lines d'). cl_id l < seqs d' Seq_count_line"
      using assms(3) lf(4) by (fastforce simp: count_keys_def cl sq)
    ultimately show ?thesis using assms(3) lf(2,3) by (simp add: count_keys_def cl inv sq)
  qed
  moreover have "line_books ?cid bin d' x" if x: "x \<in> set (count_lines d')" "cl_count x = ?cid" for x
  proof -
    have "x \<in> set (lines_from ?cid ?n ?es)" using x old by (auto simp: cl)
    with sn(2) [OF pair] lf(4) none show ?thesis by (simp add: line_books_def sh)
  qed
  moreover have "on_shelf d' i bin = 0" if "\<not> has_line ?cid i d'" for i
  proof -
    have "i \<notin> cl_item ` set (lines_from ?cid ?n ?es)" using that lf(4) by (auto simp: has_line_def cl)
    moreover have "cl_item ` set (lines_from ?cid ?n ?es) = fst ` set ?es"
      using arg_cong [OF lf(1), of "\<lambda>t. fst ` set t"] by (simp add: image_image)
    ultimately show ?thesis using sn(3) by (simp add: sh)
  qed
  moreover have "shelf_ok d'" using assms(2) by (simp add: shelf_ok_def one_lot_def inv sq)
  moreover have "filter (\<lambda>a. adj_count a = Some ?cid) (adjustments d') = []"
    using none by (auto simp: filter_empty_conv of_count_def)
  ultimately show "count_books (nc_id c) bin d'" using none unfolding count_books_def cid
    by (auto simp: of_count_def)
qed

lemma fold_lines_counts:
  "cycle_counts (fold (\<lambda>e d. snd (insert_count_line (expected_line cid e) d)) es d) = cycle_counts d"
  by (induction es arbitrary: d) (auto simp: insert_count_line_def nextval_def Let_def)

lemma create_header:
  assumes "create_cycle_count wh [bin] user d = Inr ([c], d')" "\<forall>k \<in> set (cycle_counts d). cc_id k < seqs d Seq_count"
    and "List.find (\<lambda>k. cc_id k = nc_id c) (cycle_counts d') = Some k"
  shows "cc_bin k = bin"
proof -
  from assms(1) obtain b where b: "bin_of_wh wh bin d = Some b" "count_bin wh user b d = (c, d')"
    by (auto simp: create_cycle_count_def split_beta split: if_splits option.splits)
  have bin: "bin_id b = bin" using b(1) unfolding bin_of_wh_def by (auto dest!: find_Some_iff_first)
  have c: "nc_id c = seqs d Seq_count" "cycle_counts d' = cycle_counts d @
      [\<lparr>cc_id = seqs d Seq_count, cc_wh = wh, cc_bin = bin, cc_state = COUNT_PENDING, cc_assigned = Some user,
        cc_completed = None, cc_ext = fst (uuid4 d)\<rparr>]"
    using b(2) by (auto simp: count_bin_def insert_count_def Let_def split_beta nextval_def uuid4_def
        fold_lines_counts bin [symmetric])
  from find_Some_iff_first [OF assms(3)] assms(2) show ?thesis by (auto simp: c)
qed

lemma submit_cycle_count_run:
  assumes "submit_cycle_count s cid es d = Inr (r, d')"
  obtains k t d1 where "List.find (\<lambda>k. cc_id k = cid) (cycle_counts d) = Some k" "cc_id k = cid"
    "submit_entries k (s_user s) es \<lparr>tl_variance = 0, tl_matched = 0, tl_adjs = []\<rparr> d = Inr (t, d1)"
    "count_view d' = count_view d1"
proof -
  from assms obtain k b where k: "count_with_bin cid d = Some (k, b)" by (auto simp: submit_cycle_count_def split: option.splits)
  then have f: "List.find (\<lambda>k. cc_id k = cid) (cycle_counts d) = Some k"
    by (auto simp: count_with_bin_def split: option.splits)
  from assms k obtain t d1 where d1: "submit_entries k (s_user s) es \<lparr>tl_variance = 0, tl_matched = 0, tl_adjs = []\<rparr> d = Inr (t, d1)"
    by (auto simp: submit_cycle_count_def split: if_splits sum.splits)
  have "count_view (close_count cid st d1) = count_view d1" for st by (simp add: close_count_def count_view_def)
  with assms k d1 have "count_view d' = count_view d1"
    by (auto simp: submit_cycle_count_def Let_def split: if_splits)
  with f find_Some_iff_first [OF f] d1 that show thesis by blast
qed

text \<open>Claim C28. A cycle count settles its bin: in tables whose stock rows are one per
  (item, bin) and not negative, create a count of a bin, submit it naming each open line once (unexpected items
  wherever they come), and approve adjustments of this count until none is pending; then
  the shelf holds, for every item of the count, exactly the quantity that was counted, the
  named lines carry the submitted numbers, and an item without a line is not in the bin.\<close>

theorem count_settles_bin:
  assumes "shelf_ok d" "count_keys d" "count_fresh d" "\<forall>k \<in> set (cycle_counts d). cc_id k < seqs d Seq_count"
    and "create_cycle_count wh [bin] user d = Inr ([c], d1)"
    and "submit_cycle_count s (nc_id c) es d1 = Inr (r, d2)" "\<forall>e \<in> set es. 0 \<le> ce_counted e"
    and "distinct (map ce_line (filter (\<lambda>e. \<not> ce_unexpected e) es))"
    and "\<forall>e \<in> set es. \<not> ce_unexpected e \<longrightarrow> (\<exists>l \<in> set (count_lines d1). cl_count l = nc_id c \<and> ce_line e = Some (cl_id l))"
    and "review_adjustments s' ds d2 = Inr (r', d3)" "\<forall>x \<in> set ds. snd x"
    and "\<forall>x \<in> set ds. \<forall>a \<in> set (adjustments d2). adj_id a = fst x \<longrightarrow> adj_count a = Some (nc_id c)"
    and "\<forall>a \<in> set (adjustments d3). adj_count a = Some (nc_id c) \<longrightarrow> adj_state a \<noteq> ADJ_PENDING"
  shows "(\<forall>e \<in> set es. \<not> ce_unexpected e \<longrightarrow> counted_as (nc_id c) d3 e)
    \<and> (\<forall>l \<in> set (count_lines d3). cl_count l = nc_id c \<longrightarrow> (\<forall>q. cl_counted l = Some q \<longrightarrow> on_shelf d3 (cl_item l) bin = q))
    \<and> (\<forall>i. \<not> has_line (nc_id c) i d3 \<longrightarrow> on_shelf d3 i bin = 0)"
proof -
  note cb = create_books [OF assms(5,1-3)]
  obtain k t d' where k: "List.find (\<lambda>k. cc_id k = nc_id c) (cycle_counts d1) = Some k" "cc_id k = nc_id c"
    and d': "submit_entries k (s_user s) es \<lparr>tl_variance = 0, tl_matched = 0, tl_adjs = []\<rparr> d1 = Inr (t, d')"
    "count_view d2 = count_view d'" by (rule submit_cycle_count_run [OF assms(6)])
  have "\<forall>e \<in> set es. \<not> ce_unexpected e \<longrightarrow> open_line d1 e"
    using assms(9) cb(2) unfolding open_line_def by blast
  note se = submit_entries_books [OF d'(1) cb(1) k(2) create_header [OF assms(5,4) k(1)] assms(7,8) this]
  note v = count_view_cong [OF d'(2)]
  have b2: "count_books (nc_id c) bin d2" and e2: "\<forall>e \<in> set es. \<not> ce_unexpected e \<longrightarrow> counted_as (nc_id c) d2 e"
    using se by (simp_all add: v counted_as_def)
  have "\<forall>x \<in> set ds. \<forall>(i, cn) \<in> set (names (adjustments d2)). i = fst x \<longrightarrow> cn = Some (nc_id c)"
    using assms(12) by (auto simp: names_def)
  from review_adjustments_books [OF assms(10) b2 assms(11) this]
  have b3: "count_books (nc_id c) bin d3" and l3: "count_lines d3 = count_lines d2" by auto
  have "pending_change d3 (nc_id c) i = 0" for i
    unfolding pending_change_def by (rule total_none) (use assms(13) in \<open>auto simp: of_count_def\<close>)
  with b3 have "\<forall>l \<in> set (count_lines d3). cl_count l = nc_id c \<longrightarrow> (\<forall>q. cl_counted l = Some q \<longrightarrow> on_shelf d3 (cl_item l) bin = q)"
    by (auto simp: count_books_def line_books_def split: option.splits)
  moreover have "\<forall>i. \<not> has_line (nc_id c) i d3 \<longrightarrow> on_shelf d3 i bin = 0" using b3 by (simp add: count_books_def)
  ultimately show ?thesis using e2 by (simp add: counted_as_def l3)
qed

section \<open>Examples\<close>

definition demo_counter :: session where
  "demo_counter = \<lparr>s_user = ''ann'', s_admin = True, s_whs = [], s_txn = ''t1''\<rparr>"

definition demo_bin :: db where
  "demo_bin = demo_stock\<lparr>warehouses := [\<lparr>wh_id = 1, wh_code = ''W'', wh_active = True\<rparr>],
     items := items demo_stock @ [\<lparr>item_id = 8, item_sku = ''EIGHT'', item_name = ''Eight'', item_upc = None,
       item_aliases = None, item_ext = ''u8'', item_weight = None, item_default_bin = None\<rparr>]\<rparr>"

definition demo_tally :: "count_entry list" where
  "demo_tally = [\<lparr>ce_line = Some 100, ce_counted = 8, ce_unexpected = False, ce_item = None, ce_sku = None\<rparr>,
     \<lparr>ce_line = None, ce_counted = 2, ce_unexpected = True, ce_item = Some 8, ce_sku = None\<rparr>]"

lemmas count_defs = create_cycle_count_def count_bin_def insert_count_def uuid4_def nextval_def snapshot_def
  counted_row_def insert_count_line_def expected_line_def bin_of_wh_def submit_cycle_count_def count_with_bin_def
  find_bin_def find_item_def check_warehouse_access_def submit_unexpected_def has_line_def submit_expected_def
  line_on_count_def record_counted_def touch_counted_def insert_adjustment_def pending_adjustment_def close_count_def
  find_item_bin_def demo_counter_def demo_bin_def demo_stock_def demo_tally_def empty_db_def upd_def

lemmas review_defs = review_adjustments_def decide_def approve_adjustment_def report_approval_def apply_adjustment_def
  set_adj_state_def audit_self_def self_approval_def emit_adjusted_def emit_count_adjusted_def emit_event_def
  counted_line_def source_or_canonical_def set_inventory_quantity_def release_grown_def
  release_satisfiable_backorders_def waiting_candidates_def get_user_external_id_def
  resolve_source_external_id_def split_beta

lemma demo_run: "\<exists>c d1 r d2 r' d3. create_cycle_count 1 [1] ''ann'' demo_bin = Inr ([c], d1) \<and> nc_id c = 100
   \<and> submit_cycle_count demo_counter 100 demo_tally d1 = Inr (r, d2)
   \<and> review_adjustments demo_counter [(100, True), (101, True)] d2 = Inr (r', d3)
   \<and> map (\<lambda>l. (cl_id l, cl_count l, cl_item l, cl_counted l)) (count_lines d1) = [(100, 100, 7, None)]
   \<and> map (\<lambda>a. (adj_id a, adj_count a)) (adjustments d2) = [(100, Some 100), (101, Some 100)]
   \<and> map adj_state (adjustments d3) = [ADJ_APPROVED, ADJ_APPROVED]
   \<and> map (\<lambda>l. (cl_count l, cl_item l, cl_counted l)) (count_lines d3) = [(100, 7, Some 8), (100, 8, Some 2)]"
  by (simp add: count_defs review_defs Let_def)

theorem count_settles_bin_witness:
  "\<exists>c d1 r d2 r' d3. create_cycle_count 1 [1] ''ann'' demo_bin = Inr ([c], d1)
   \<and> submit_cycle_count demo_counter (nc_id c) demo_tally d1 = Inr (r, d2)
   \<and> review_adjustments demo_counter [(100, True), (101, True)] d2 = Inr (r', d3)
   \<and> on_shelf demo_bin 7 1 = 10 \<and> on_shelf d3 7 1 = 8 \<and> on_shelf d3 8 1 = 2 \<and> on_shelf d3 9 1 = 0"
proof -
  obtain c d1 r d2 r' d3 where run: "create_cycle_count 1 [1] ''ann'' demo_bin = Inr ([c], d1)" "nc_id c = 100"
    "submit_cycle_count demo_counter 100 demo_tally d1 = Inr (r, d2)"
    "review_adjustments demo_counter [(100, True), (101, True)] d2 = Inr (r', d3)"
    and l1: "map (\<lambda>l. (cl_id l, cl_count l, cl_item l, cl_counted l)) (count_lines d1) = [(100, 100, 7, None)]"
    and a2: "map (\<lambda>a. (adj_id a, adj_count a)) (adjustments d2) = [(100, Some 100), (101, Some 100)]"
    and a3: "map adj_state (adjustments d3) = [ADJ_APPROVED, ADJ_APPROVED]"
    and l3: "map (\<lambda>l. (cl_count l, cl_item l, cl_counted l)) (count_lines d3) = [(100, 7, Some 8), (100, 8, Some 2)]"
    using demo_run by (elim exE conjE)
  have ok: "shelf_ok demo_bin" "count_keys demo_bin" "count_fresh demo_bin"
    "\<forall>k \<in> set (cycle_counts demo_bin). cc_id k < seqs demo_bin Seq_count"
    by (simp_all add: shelf_ok_def one_lot_def count_keys_def count_fresh_def count_defs)
  have es: "\<forall>e \<in> set demo_tally. 0 \<le> ce_counted e"
    "distinct (map ce_line (filter (\<lambda>e. \<not> ce_unexpected e) demo_tally))"
    "\<forall>e \<in> set demo_tally. \<not> ce_unexpected e \<longrightarrow> (\<exists>l \<in> set (count_lines d1). cl_count l = nc_id c \<and> ce_line e = Some (cl_id l))"
    using l1 run(2) by (auto simp: demo_tally_def)
  have ds: "\<forall>x \<in> set [(100, True), (101, True)]. snd x"
    "\<forall>x \<in> set [(100, True), (101, True)]. \<forall>a \<in> set (adjustments d2). adj_id a = fst x \<longrightarrow> adj_count a = Some (nc_id c)"
    using a2 run(2) by auto
  have "\<forall>a \<in> set (adjustments d3). adj_count a = Some (nc_id c) \<longrightarrow> adj_state a \<noteq> ADJ_PENDING" using a3 by auto
  note t = count_settles_bin [OF ok run(1) run(3) [folded run(2)] es run(4) ds this]
  from l3 obtain x y where xy: "count_lines d3 = [x, y]" "cl_count x = 100" "cl_item x = 7" "cl_counted x = Some 8"
    "cl_count y = 100" "cl_item y = 8" "cl_counted y = Some 2" by (cases "count_lines d3") auto
  with t run(2) have "on_shelf d3 7 1 = 8" "on_shelf d3 8 1 = 2" "on_shelf d3 9 1 = 0"
    by (simp_all add: has_line_def)
  moreover have "on_shelf demo_bin 7 1 = 10" by (simp add: on_shelf_def count_defs)
  ultimately show ?thesis using run by (intro exI [of _ c] exI [of _ d1] exI [of _ r] exI [of _ d2] exI [of _ r'] exI [of _ d3] conjI) simp_all
qed

section \<open>Where a count does not settle its bin\<close>

text \<open>A line submitted twice makes two pending adjustments, each against the snapshot: ten on the
  shelf, counted seven in the end, and minus five pending.\<close>

lemma line_counted_twice:
  "\<exists>c d1 r d2. create_cycle_count 1 [1] ''ann'' demo_bin = Inr ([c], d1)
   \<and> submit_cycle_count demo_counter 100
        [\<lparr>ce_line = Some 100, ce_counted = 8, ce_unexpected = False, ce_item = None, ce_sku = None\<rparr>,
         \<lparr>ce_line = Some 100, ce_counted = 7, ce_unexpected = False, ce_item = None, ce_sku = None\<rparr>] d1 = Inr (r, d2)
   \<and> map cl_counted (count_lines d2) = [Some 7] \<and> on_shelf d2 7 1 = 10 \<and> pending_change d2 100 7 = - 5"
  by (simp add: count_defs Let_def on_shelf_def pending_change_def of_count_def)

text \<open>With two lots in the bin the approval takes everything from the first row and floors it at
  zero: ten units in two lots, two counted, five left.\<close>

definition demo_lots :: db where
  "demo_lots = demo_bin\<lparr>inventory := map (\<lambda>k. \<lparr>inv_id = k, inv_item = 7, inv_bin = 1, inv_wh = 1, on_hand = 5,
     allocated = 0, inv_lot = Some (decimal (nat k)), inv_updated = 0, inv_counted = None\<rparr>) [1, 2]\<rparr>"

lemma two_lots_not_settled:
  "\<exists>c d1 r d2 r' d3. create_cycle_count 1 [1] ''ann'' demo_lots = Inr ([c], d1)
   \<and> submit_cycle_count demo_counter 100
        [\<lparr>ce_line = Some 100, ce_counted = 2, ce_unexpected = False, ce_item = None, ce_sku = None\<rparr>] d1 = Inr (r, d2)
   \<and> review_adjustments demo_counter [(100, True)] d2 = Inr (r', d3)
   \<and> map adj_state (adjustments d3) = [ADJ_APPROVED] \<and> map cl_counted (count_lines d3) = [Some 2] \<and> on_shelf d3 7 1 = 5"
  by (simp add: demo_lots_def count_defs review_defs Let_def on_shelf_def)

text \<open>The approval does not look at reservations: a shelf of ten with two reserved, counted empty.\<close>

lemma approval_below_reserved:
  "\<exists>c d1 r d2 r' d3. create_cycle_count 1 [1] ''ann'' demo_bin = Inr ([c], d1)
   \<and> submit_cycle_count demo_counter 100
        [\<lparr>ce_line = Some 100, ce_counted = 0, ce_unexpected = False, ce_item = None, ce_sku = None\<rparr>] d1 = Inr (r, d2)
   \<and> review_adjustments demo_counter [(100, True)] d2 = Inr (r', d3)
   \<and> map (\<lambda>r. (on_hand r, allocated r)) (inventory d3) = [(0, 2)]"
  by (simp add: count_defs review_defs Let_def)

end
