(* ===== verification/Putaway.thy ===== *)
theory Putaway
  imports BinMoves
begin

text \<open>
  Put-away (\<^verbatim>\<open>api/routes/putaway.py\<close>): what waits in the staging bins, the suggested bin
  of an item, the move itself, and the hierarchy of preferred bins, which the console
  edits too (\<^verbatim>\<open>api/routes/admin/admin_items.py\<close>).
\<close>

section \<open>Suggesting a bin\<close>

datatype putaway_error =
  PA_item_not_found
| PA_source_not_found
| PA_destination_not_found
| PA_bin_not_found
| PA_not_pickable bin_row
| PA_denied
| PA_insufficient int
| PA_pref_not_found
| PA_internal

definition prefs_of :: "int \<Rightarrow> db \<Rightarrow> pref_row list" where
  "prefs_of item d = sort_key pref_priority (filter (\<lambda>p. pref_item p = item) (preferred_bins d))"

text \<open>The first preferred bin that the caller may see.\<close>

definition best_pref :: "(bin_row \<Rightarrow> bool) \<Rightarrow> int \<Rightarrow> db \<Rightarrow> (pref_row \<times> bin_row) option" where
  "best_pref ok item d =
     (case [(p, b). p \<leftarrow> prefs_of item d, b \<leftarrow> bins d, bin_id b = pref_bin p, ok b] of
        [] \<Rightarrow> None | x # _ \<Rightarrow> Some x)"

definition default_bin :: "(bin_row \<Rightarrow> bool) \<Rightarrow> item_row \<Rightarrow> db \<Rightarrow> bin_row option" where
  "default_bin ok i d =
     (case item_default_bin i of
        None \<Rightarrow> None | Some k \<Rightarrow> List.find (\<lambda>b. bin_id b = k \<and> ok b) (bins d))"

text \<open>The suggestion with its priority, scoped to the caller's warehouses unless an administrator
  asks; the default bin of the item stands in with priority 1.\<close>

definition suggest_bin :: "session \<Rightarrow> int \<Rightarrow> db \<Rightarrow> putaway_error + (item_row \<times> (bin_row \<times> int) option)" where
  "suggest_bin s item d =
     (case find_item item d of
        None \<Rightarrow> Inl PA_item_not_found
      | Some i \<Rightarrow>
          let ok = (\<lambda>b. warehouse_scope_clause s (bin_wh b))
          in Inr (i, case best_pref ok item d of
                       Some (p, b) \<Rightarrow> Some (b, pref_priority p)
                     | None \<Rightarrow> map_option (\<lambda>b. (b, 1)) (default_bin ok i d)))"

section \<open>What waits in staging\<close>

definition staging_bin :: "bin_row \<Rightarrow> bool" where
  "staging_bin b \<longleftrightarrow> bin_kind b = BIN_STAGING \<or> bin_kind b = BIN_PICKABLE_STAGING"

definition suggested_code :: "int \<Rightarrow> item_row \<Rightarrow> db \<Rightarrow> string option" where
  "suggested_code wh i d =
     (case best_pref (\<lambda>b. bin_wh b = wh) (item_id i) d of
        Some (_, b) \<Rightarrow> Some (bin_code b)
      | None \<Rightarrow> map_option bin_code (default_bin (\<lambda>b. bin_wh b = wh) i d))"

definition pending_putaway ::
    "session \<Rightarrow> int \<Rightarrow> db \<Rightarrow> putaway_error + (inv_row \<times> item_row \<times> bin_row \<times> string option) list" where
  "pending_putaway s wh d =
     (if \<not> check_warehouse_access s (Some wh) then Inl PA_denied
      else Inr [(r, i, b, suggested_code wh i d).
        r \<leftarrow> inventory d, i \<leftarrow> items d, item_id i = inv_item r, b \<leftarrow> bins d, bin_id b = inv_bin r,
        staging_bin b \<and> 0 < on_hand r \<and> inv_wh r = wh])"

text \<open>The dashboard: one card per staging bin, empty ones too, in the order \<open>coll\<close> of the
  database's collation.\<close>

record staging_card =
  sc_bin :: bin_row
  sc_skus :: nat
  sc_qty :: int
  sc_items :: "(inv_row \<times> item_row \<times> string option) list"

definition staged_rows :: "(string \<Rightarrow> 'k::linorder) \<Rightarrow> int \<Rightarrow> db \<Rightarrow> (bin_row \<times> inv_row \<times> item_row \<times> string option) list" where
  "staged_rows coll wh d =
     sort_key (\<lambda>x. (coll (bin_code (fst x)), coll (item_sku (fst (snd (snd x))))))
       [(b, r, i, suggested_code wh i d).
          b \<leftarrow> bins d, bin_wh b = wh \<and> staging_bin b, r \<leftarrow> inventory d, inv_bin r = bin_id b \<and> 0 < on_hand r,
          i \<leftarrow> items d, item_id i = inv_item r]"

definition staging_summary ::
    "(string \<Rightarrow> 'k::linorder) \<Rightarrow> session \<Rightarrow> int \<Rightarrow> db \<Rightarrow> putaway_error + staging_card list" where
  "staging_summary coll s wh d =
     (if \<not> check_warehouse_access s (Some wh) then Inl PA_denied
      else
        let bs = sort_key (\<lambda>b. coll (bin_code b)) (filter (\<lambda>b. bin_wh b = wh \<and> staging_bin b) (bins d));
            rs = staged_rows coll wh d
        in Inr (map (\<lambda>b. let mine = filter (\<lambda>x. bin_id (fst x) = bin_id b) rs
                         in \<lparr>sc_bin = b, sc_skus = length mine, sc_qty = sum_list (map (\<lambda>x. on_hand (fst (snd x))) mine),
                             sc_items = map snd mine\<rparr>) bs))"

section \<open>Confirming a put-away\<close>

definition insert_putaway :: "move_request \<Rightarrow> int \<Rightarrow> string \<Rightarrow> db \<Rightarrow> int \<times> db" where
  "insert_putaway m wh user d =
     (let (u, d1) = uuid4 d;
          (i, d2) = nextval Seq_bin_transfer d1
      in (i, d2\<lparr>bin_transfers := bin_transfers d2 @
            [\<lparr>bt_id = i, bt_item = mv_item m, bt_from = mv_from m, bt_to = mv_to m, bt_wh = wh,
              bt_qty = mv_qty m, bt_lot = mv_lot m, bt_reason = None, bt_by = user,
              bt_ext = u, bt_at = now d, bt_type = ''PUTAWAY''\<rparr>]\<rparr>))"

text \<open>The request has no reason (\<open>mv_reason\<close> is unused). The warehouse is the source bin's.\<close>

definition confirm_putaway :: "session \<Rightarrow> move_request \<Rightarrow> db \<Rightarrow> putaway_error + (int \<times> db)" where
  "confirm_putaway s m d =
     (case find_item (mv_item m) d of
        None \<Rightarrow> Inl PA_item_not_found
      | Some i \<Rightarrow>
      (case find_bin (mv_from m) d of
        None \<Rightarrow> Inl PA_source_not_found
      | Some fb \<Rightarrow>
      (case find_bin (mv_to m) d of
        None \<Rightarrow> Inl PA_destination_not_found
      | Some tb \<Rightarrow>
          if \<not> check_warehouse_access s (Some (bin_wh fb)) then Inl PA_denied
          else
            (case move_inventory (mv_item m) (mv_from m) (mv_to m) (bin_wh fb) (mv_qty m) (mv_lot m) d of
               Inl (InsufficientInventory a) \<Rightarrow> Inl (PA_insufficient a)
             | Inr (_, d1) \<Rightarrow>
                 let (tid, d2) = insert_putaway m (bin_wh fb) (s_user s) d1
                 in Inr (tid, audit ''PUTAWAY'' ''ITEM'' (mv_item m) (s_user s) (bin_wh fb)
                      (JObj [(''from_bin_id'', JInt (mv_from m)), (''from_bin_code'', JStr (bin_code fb)),
                             (''to_bin_id'', JInt (mv_to m)), (''to_bin_code'', JStr (bin_code tb)),
                             (''quantity'', JInt (mv_qty m)), (''transfer_id'', JInt tid)]) d2)))))"

section \<open>Preferred bins\<close>

definition set_pref_priority :: "int \<Rightarrow> int \<Rightarrow> db \<Rightarrow> db" where
  "set_pref_priority k n d =
     d\<lparr>preferred_bins := upd (\<lambda>p. pref_id p = k) (\<lambda>p. p\<lparr>pref_priority := n\<rparr>) (preferred_bins d)\<rparr>"

definition bump_prefs :: "int \<Rightarrow> db \<Rightarrow> db" where
  "bump_prefs item d =
     d\<lparr>preferred_bins := upd (\<lambda>p. pref_item p = item) (\<lambda>p. p\<lparr>pref_priority := pref_priority p + 1\<rparr>) (preferred_bins d)\<rparr>"

definition insert_pref :: "int \<Rightarrow> int \<Rightarrow> int \<Rightarrow> string option \<Rightarrow> db \<Rightarrow> db" where
  "insert_pref item bin n note d =
     (let (i, d1) = nextval Seq_preferred d
      in d1\<lparr>preferred_bins := preferred_bins d1 @
            [\<lparr>pref_id = i, pref_item = item, pref_bin = bin, pref_priority = n, pref_notes = note\<rparr>]\<rparr>)"

definition find_pref :: "int \<Rightarrow> int \<Rightarrow> db \<Rightarrow> pref_row option" where
  "find_pref item bin d = List.find (\<lambda>p. pref_item p = item \<and> pref_bin p = bin) (preferred_bins d)"

definition set_default_bin :: "int \<Rightarrow> int \<Rightarrow> db \<Rightarrow> db" where
  "set_default_bin item bin d =
     d\<lparr>items := upd (\<lambda>i. item_id i = item) (\<lambda>i. i\<lparr>item_default_bin := Some bin\<rparr>) (items d)\<rparr>"

definition make_primary :: "int \<Rightarrow> int \<Rightarrow> db \<Rightarrow> db" where
  "make_primary item bin d =
     (let d1 = bump_prefs item d;
          d2 = (case find_pref item bin d1 of
                  Some p \<Rightarrow> set_pref_priority (pref_id p) 1 d1
                | None \<Rightarrow> insert_pref item bin 1 (Some ''Set via put-away'') d1)
      in set_default_bin item bin d2)"

text \<open>The code of the old first bin, for the audit row and the message.\<close>

definition old_primary :: "int \<Rightarrow> db \<Rightarrow> string option" where
  "old_primary item d =
     (case [bin_code b. p \<leftarrow> preferred_bins d, pref_item p = item \<and> pref_priority p = 1, b \<leftarrow> bins d, bin_id b = pref_bin p] of
        [] \<Rightarrow> None | c # _ \<Rightarrow> Some c)"

definition update_preferred ::
    "session \<Rightarrow> int \<Rightarrow> int \<Rightarrow> bool \<Rightarrow> db \<Rightarrow> putaway_error + ((string option \<times> bin_row) \<times> db)" where
  "update_preferred s item bin primary d =
     (case find_item item d of
        None \<Rightarrow> Inl PA_item_not_found
      | Some i \<Rightarrow>
      (case find_bin bin d of
        None \<Rightarrow> Inl PA_bin_not_found
      | Some b \<Rightarrow>
          if bin_kind b \<noteq> BIN_PICKABLE then Inl (PA_not_pickable b)
          else if \<not> check_warehouse_access s (Some (bin_wh b)) then Inl PA_denied
          else
            let old = old_primary item d;
                d1 = (if primary then make_primary item bin d else d)
            in Inr ((old, b), audit ''PREFERRED_BIN_UPDATE'' ''ITEM'' item (s_user s) (bin_wh b)
                 (JObj [(''sku'', JStr (item_sku i)), (''old_bin'', jopt JStr old), (''new_bin'', JStr (bin_code b)),
                        (''set_as_primary'', JBool primary)]) d1)))"

text \<open>\<open>_resequence_item_preferred_bins\<close>: on a tie the changed row goes first.\<close>

fun renumber :: "int \<Rightarrow> pref_row list \<Rightarrow> db \<Rightarrow> db" where
  "renumber n [] d = d"
| "renumber n (p # ps) d = renumber (n + 1) ps (set_pref_priority (pref_id p) n d)"

definition resequence :: "int \<Rightarrow> int option \<Rightarrow> db \<Rightarrow> db" where
  "resequence item target d =
     renumber 1 (sort_key (\<lambda>p. (pref_priority p, Some (pref_id p) \<noteq> target, pref_id p))
       (filter (\<lambda>p. pref_item p = item) (preferred_bins d))) d"

text \<open>\<open>ON CONFLICT\<close> draws from the sequence also when the row exists.\<close>

definition upsert_pref :: "int \<Rightarrow> int \<Rightarrow> int \<Rightarrow> db \<Rightarrow> db" where
  "upsert_pref item bin n d =
     (case find_pref item bin d of
        None \<Rightarrow> insert_pref item bin n None d
      | Some p \<Rightarrow> set_pref_priority (pref_id p) n (snd (nextval Seq_preferred d)))"

definition create_preferred_bin :: "int \<Rightarrow> int \<Rightarrow> int \<Rightarrow> db \<Rightarrow> putaway_error + db" where
  "create_preferred_bin item bin n d =
     (case find_bin bin d of
        None \<Rightarrow> Inl PA_bin_not_found
      | Some b \<Rightarrow>
          if bin_kind b \<noteq> BIN_PICKABLE then Inl (PA_not_pickable b)
          else if find_item item d = None then Inl PA_internal
          else let d1 = upsert_pref item bin n d
               in Inr (resequence item (map_option pref_id (find_pref item bin d1)) d1))"

definition update_preferred_bin :: "int \<Rightarrow> int \<Rightarrow> db \<Rightarrow> putaway_error + db" where
  "update_preferred_bin k n d =
     (case List.find (\<lambda>p. pref_id p = k) (preferred_bins d) of
        None \<Rightarrow> Inl PA_pref_not_found
      | Some p \<Rightarrow> Inr (resequence (pref_item p) (Some k) (set_pref_priority k n d)))"

definition delete_preferred_bin :: "int \<Rightarrow> db \<Rightarrow> db" where
  "delete_preferred_bin k d = d\<lparr>preferred_bins := filter (\<lambda>p. pref_id p \<noteq> k) (preferred_bins d)\<rparr>"

section \<open>The hierarchy\<close>

text \<open>The preferred bins of an item form a strict ranking of pickable bins.\<close>

definition ranked :: "int \<Rightarrow> db \<Rightarrow> bool" where
  "ranked item d \<longleftrightarrow> distinct (map pref_priority (filter (\<lambda>p. pref_item p = item) (preferred_bins d)))
     \<and> (\<forall>p \<in> set (preferred_bins d). pref_item p = item \<longrightarrow> 1 \<le> pref_priority p)"

definition pref_rows_ok :: "db \<Rightarrow> bool" where
  "pref_rows_ok d \<longleftrightarrow> distinct (map pref_id (preferred_bins d))
     \<and> distinct (map (\<lambda>p. (pref_item p, pref_bin p)) (preferred_bins d))
     \<and> (\<forall>p \<in> set (preferred_bins d). pref_id p < seqs d Seq_preferred
          \<and> (\<exists>b. find_bin (pref_bin p) d = Some b \<and> bin_kind b = BIN_PICKABLE))"

definition hierarchy :: "db \<Rightarrow> bool" where
  "hierarchy d \<longleftrightarrow> pref_rows_ok d \<and> (\<forall>item. ranked item d)"

text \<open>The rows of an item other than the one of a bin.\<close>

definition other_prefs :: "int \<Rightarrow> int \<Rightarrow> db \<Rightarrow> pref_row list" where
  "other_prefs item bin d = filter (\<lambda>p. pref_item p = item \<and> pref_bin p \<noteq> bin) (preferred_bins d)"

lemma filter_upd_one:
  assumes "distinct (map pref_id t)" "distinct (map (\<lambda>p. (pref_item p, pref_bin p)) t)" "p \<in> set t"
    and "\<And>x. pref_item (f x) = pref_item x"
  shows "mset (filter (\<lambda>x. pref_item x = pref_item p) (upd (\<lambda>x. pref_id x = pref_id p) f t))
    = add_mset (f p) (mset (filter (\<lambda>x. pref_item x = pref_item p \<and> pref_bin x \<noteq> pref_bin p) t))"
    "j \<noteq> pref_item p \<Longrightarrow> filter (\<lambda>x. pref_item x = j) (upd (\<lambda>x. pref_id x = pref_id p) f t) = filter (\<lambda>x. pref_item x = j) t"
proof -
  from assms(3) obtain a b where t: "t = a @ p # b" by (meson split_list)
  have ids: "\<forall>x \<in> set a \<union> set b. pref_id x \<noteq> pref_id p" using assms(1) by (auto simp: t image_iff)
  have prs: "\<forall>x \<in> set a \<union> set b. pref_item x = pref_item p \<longrightarrow> pref_bin x \<noteq> pref_bin p"
    using assms(2) by (auto simp: t image_iff)
  have u: "upd (\<lambda>x. pref_id x = pref_id p) f t = a @ f p # b"
    using ids by (simp add: t upd_id)
  have "filter (\<lambda>x. pref_item x = pref_item p \<and> pref_bin x \<noteq> pref_bin p) s = filter (\<lambda>x. pref_item x = pref_item p) s"
    if "set s \<subseteq> set a \<union> set b" for s using that prs by (intro filter_cong) auto
  then show "mset (filter (\<lambda>x. pref_item x = pref_item p) (upd (\<lambda>x. pref_id x = pref_id p) f t))
    = add_mset (f p) (mset (filter (\<lambda>x. pref_item x = pref_item p \<and> pref_bin x \<noteq> pref_bin p) t))"
    unfolding u unfolding t by (simp add: assms(4) del: mset_filter)
  show "j \<noteq> pref_item p \<Longrightarrow> filter (\<lambda>x. pref_item x = j) (upd (\<lambda>x. pref_id x = pref_id p) f t) = filter (\<lambda>x. pref_item x = j) t"
    by (simp add: u assms(4)) (simp add: t)
qed

text \<open>Renumbering gives each fetched row its place.\<close>

fun place_of :: "int \<Rightarrow> int \<Rightarrow> pref_row list \<Rightarrow> int" where
  "place_of n k [] = n"
| "place_of n k (p # ps) = (if pref_id p = k then n else place_of (n + 1) k ps)"

definition placed :: "pref_row list \<Rightarrow> pref_row \<Rightarrow> pref_row" where
  "placed s p = p\<lparr>pref_priority := place_of 1 (pref_id p) s\<rparr>"

lemma placed_simps [simp]:
  "pref_id (placed s p) = pref_id p" "pref_item (placed s p) = pref_item p" "pref_bin (placed s p) = pref_bin p"
  "pref_priority (placed s p) = place_of 1 (pref_id p) s"
  by (simp_all add: placed_def)

lemma map_place_of: "distinct (map pref_id s) \<Longrightarrow> map (\<lambda>p. place_of n (pref_id p) s) s = [n..n + int (length s) - 1]"
proof (induction s arbitrary: n)
  case Nil
  then show ?case by simp
next
  case (Cons p s)
  have "map (\<lambda>x. place_of n (pref_id x) (p # s)) s = map (\<lambda>x. place_of (n + 1) (pref_id x) s) s"
    using Cons.prems by (auto simp: image_iff)
  also have "\<dots> = [n + 1..n + 1 + int (length s) - 1]" using Cons by simp
  finally show ?case by (simp add: upto_rec1 algebra_simps)
qed

lemma renumber_rows:
  assumes "distinct (map pref_id s)"
  shows "preferred_bins (renumber n s d)
    = map (\<lambda>r. if pref_id r \<in> pref_id ` set s then r\<lparr>pref_priority := place_of n (pref_id r) s\<rparr> else r) (preferred_bins d)"
  using assms
proof (induction s arbitrary: n d)
  case Nil
  then show ?case by simp
next
  case (Cons p s)
  then have "pref_id p \<notin> pref_id ` set s" by simp
  with Cons show ?case by (auto simp: set_pref_priority_def upd_def)
qed

lemma renumber_frame [simp]:
  "bins (renumber n s d) = bins d" "seqs (renumber n s d) = seqs d" "items (renumber n s d) = items d"
  by (induction s arbitrary: n d) (simp_all add: set_pref_priority_def)

lemma key_places:
  assumes "distinct (map pref_id s)"
  shows "distinct (map (\<lambda>p. place_of 1 (pref_id p) s) s)" "sorted (map (\<lambda>p. place_of 1 (pref_id p) s) s)"
  by (simp_all add: map_place_of [OF assms])

lemma resequence_rows:
  assumes "distinct (map pref_id (preferred_bins d))"
    and "s = sort_key (\<lambda>p. (pref_priority p, Some (pref_id p) \<noteq> t, pref_id p)) (filter (\<lambda>p. pref_item p = item) (preferred_bins d))"
  shows "preferred_bins (resequence item t d) = map (\<lambda>p. if pref_item p = item then placed s p else p) (preferred_bins d)"
    "prefs_of item (resequence item t d) = map (placed s) s"
    "map pref_priority (prefs_of item (resequence item t d)) = [1..int (length s)]"
proof -
  have st: "set s = {p \<in> set (preferred_bins d). pref_item p = item}" by (simp add: assms(2))
  have ms: "mset s = mset (filter (\<lambda>p. pref_item p = item) (preferred_bins d))" by (simp add: assms(2))
  then have ds: "distinct (map pref_id s)"
    using assms(1) mset_eq_imp_distinct_iff [of "map pref_id s" "map pref_id (filter (\<lambda>p. pref_item p = item) (preferred_bins d))"]
    by (simp add: distinct_map_filter)
  have mem: "pref_id p \<in> pref_id ` set s \<longleftrightarrow> pref_item p = item" if "p \<in> set (preferred_bins d)" for p
    using that key_inj [OF assms(1) that] by (auto simp: st)
  show rows: "preferred_bins (resequence item t d) = map (\<lambda>p. if pref_item p = item then placed s p else p) (preferred_bins d)"
    unfolding resequence_def assms(2) [symmetric] renumber_rows [OF ds]
    by (rule map_cong [OF refl]) (use mem in \<open>simp add: placed_def\<close>)
  have "filter (\<lambda>p. pref_item p = item) (preferred_bins (resequence item t d))
      = map (placed s) (filter (\<lambda>p. pref_item p = item) (preferred_bins d))"
    unfolding rows by (simp add: filter_map comp_def cong: filter_cong)
  moreover have "mset (map (placed s) (filter (\<lambda>p. pref_item p = item) (preferred_bins d))) = mset (map (placed s) s)"
    using ms by simp
  moreover have "distinct (map pref_priority (map (placed s) s))" "sorted (map pref_priority (map (placed s) s))"
    using key_places [OF ds] by (simp_all add: comp_def)
  ultimately show p: "prefs_of item (resequence item t d) = map (placed s) s"
    unfolding prefs_of_def by (metis sort_key_inj_key_eq distinct_map mset_eq_setD)
  show "map pref_priority (prefs_of item (resequence item t d)) = [1..int (length s)]"
    using map_place_of [OF ds, of 1] by (simp add: p comp_def)
qed

text \<open>What a request means for the ranking: the other bins keep their order and the bin takes its
  place in front of those with the same or a later priority.\<close>

definition ranking :: "int \<Rightarrow> db \<Rightarrow> int list" where
  "ranking item d = map pref_bin (prefs_of item d)"

definition ranked_at :: "int \<Rightarrow> int \<Rightarrow> int \<Rightarrow> db \<Rightarrow> int list" where
  "ranked_at bin n item d =
     (let others = sort_key pref_priority (other_prefs item bin d)
      in map pref_bin (filter (\<lambda>p. pref_priority p < n) others) @ bin
         # map pref_bin (filter (\<lambda>p. n \<le> pref_priority p) others))"

lemma sort_tie:
  assumes "mset xs = add_mset t (mset os)" "distinct (map pref_priority os)" "distinct (map pref_id (t # os))"
  shows "sort_key (\<lambda>p. (pref_priority p, Some (pref_id p) \<noteq> Some (pref_id t), pref_id p)) xs =
    filter (\<lambda>p. pref_priority p < pref_priority t) (sort_key pref_priority os) @ t
    # filter (\<lambda>p. pref_priority t \<le> pref_priority p) (sort_key pref_priority os)" (is "sort_key ?k xs = ?ys")
proof (rule sort_key_inj_key_eq)
  let ?s = "sort_key pref_priority os"
  have neg: "filter (\<lambda>p. pref_priority t \<le> pref_priority p) ?s = filter (\<lambda>p. \<not> pref_priority p < pref_priority t) ?s"
    by (intro filter_cong) auto
  show "mset xs = mset ?ys" unfolding neg using assms(1) by simp
  have "distinct (map pref_id xs)"
    using assms(1,3) mset_eq_imp_distinct_iff [of "map pref_id xs" "map pref_id (t # os)"] by simp
  then show "inj_on ?k (set xs)" by (auto simp: distinct_map inj_on_def)
  have "distinct (map pref_priority ?s)"
    using assms(2) mset_eq_imp_distinct_iff [of "map pref_priority ?s" "map pref_priority os"] by simp
  then have "sorted_wrt (\<lambda>x y. pref_priority x < pref_priority y) ?s"
    using strict_sorted_iff [of "map pref_priority ?s"] sorted_sort_key [of pref_priority os]
    by (simp add: sorted_wrt_map)
  then have "sorted_wrt (\<lambda>x y. pref_priority x < pref_priority y) (filter P ?s)" for P by (rule sorted_wrt_filter)
  then have "sorted_wrt (\<lambda>x y. ?k x \<le> ?k y) (filter P ?s)" for P
    by (rule sorted_wrt_mono_rel [rotated]) auto
  moreover have "pref_id y \<noteq> pref_id t" if "y \<in> set ?s" for y using assms(3) that by (auto simp: image_iff)
  ultimately show "sorted (map ?k ?ys)"
    by (auto simp: sorted_map sorted_wrt_append)
qed

text \<open>A renumbered list whose changed row is \<open>t\<close>.\<close>

lemma resequence_ranking:
  assumes "distinct (map pref_id (preferred_bins d1))"
    and "mset (filter (\<lambda>p. pref_item p = item) (preferred_bins d1)) = add_mset t (mset (other_prefs item bin d))"
    and "pref_bin t = bin" "pref_priority t = n" "ranked item d"
  shows "ranking item (resequence item (Some (pref_id t)) d1) = ranked_at bin n item d"
    "map pref_priority (prefs_of item (resequence item (Some (pref_id t)) d1))
       = [1..int (length (ranked_at bin n item d))]"
proof -
  let ?xs = "filter (\<lambda>p. pref_item p = item) (preferred_bins d1)" and ?os = "other_prefs item bin d"
  let ?s = "sort_key (\<lambda>p. (pref_priority p, Some (pref_id p) \<noteq> Some (pref_id t), pref_id p)) ?xs"
  have sub: "?os = filter (\<lambda>p. pref_bin p \<noteq> bin) (filter (\<lambda>p. pref_item p = item) (preferred_bins d))"
    by (simp add: other_prefs_def conj_commute)
  have "distinct (map pref_priority ?os)"
    using assms(5) unfolding sub ranked_def by (simp only: distinct_map_filter)
  moreover have "distinct (map pref_id (t # ?os))"
    using distinct_map_filter [OF assms(1), of "\<lambda>p. pref_item p = item"] assms(2)
      mset_eq_imp_distinct_iff [of "map pref_id ?xs" "map pref_id (t # ?os)"] by simp
  ultimately have s: "?s = filter (\<lambda>p. pref_priority p < n) (sort_key pref_priority ?os) @ t
      # filter (\<lambda>p. n \<le> pref_priority p) (sort_key pref_priority ?os)"
    using sort_tie [OF assms(2)] assms(4) by simp
  note r = resequence_rows [OF assms(1) refl, of item "Some (pref_id t)"]
  have "ranking item (resequence item (Some (pref_id t)) d1) = map pref_bin ?s" by (simp add: ranking_def r(2) comp_def)
  then show rk: "ranking item (resequence item (Some (pref_id t)) d1) = ranked_at bin n item d"
    unfolding s by (simp add: ranked_at_def Let_def assms(3))
  have "length ?s = length (ranked_at bin n item d)" unfolding s by (simp add: ranked_at_def Let_def)
  then show "map pref_priority (prefs_of item (resequence item (Some (pref_id t)) d1))
      = [1..int (length (ranked_at bin n item d))]" using r(3) by simp
qed

section \<open>What each request does to the ranking\<close>

lemma pref_rows_cong:
  assumes "map (\<lambda>p. (pref_id p, pref_item p, pref_bin p)) (preferred_bins d')
      = map (\<lambda>p. (pref_id p, pref_item p, pref_bin p)) (preferred_bins d)"
    and "seqs d Seq_preferred \<le> seqs d' Seq_preferred" "bins d' = bins d" "pref_rows_ok d"
  shows "pref_rows_ok d'"
proof -
  have m: "map g (preferred_bins d') = map g (preferred_bins d)"
    if "\<And>p. g p = h (pref_id p, pref_item p, pref_bin p)" for g :: "pref_row \<Rightarrow> 'a" and h
  proof -
    have "g = (\<lambda>p. h (pref_id p, pref_item p, pref_bin p))" using that by (rule ext)
    then show ?thesis using arg_cong [OF assms(1), of "map h"] by (simp add: comp_def)
  qed
  have "map pref_id (preferred_bins d') = map pref_id (preferred_bins d)" by (rule m [of _ fst]) simp
  moreover have "map (\<lambda>p. (pref_item p, pref_bin p)) (preferred_bins d') = map (\<lambda>p. (pref_item p, pref_bin p)) (preferred_bins d)"
    by (rule m [of _ snd]) simp
  moreover have "\<forall>p \<in> set (preferred_bins d'). pref_id p < seqs d' Seq_preferred
      \<and> (\<exists>b. find_bin (pref_bin p) d' = Some b \<and> bin_kind b = BIN_PICKABLE)"
  proof
    fix p assume "p \<in> set (preferred_bins d')"
    then have "(pref_id p, pref_item p, pref_bin p) \<in> (\<lambda>p. (pref_id p, pref_item p, pref_bin p)) ` set (preferred_bins d')"
      by (rule imageI)
    then have "(pref_id p, pref_item p, pref_bin p) \<in> (\<lambda>p. (pref_id p, pref_item p, pref_bin p)) ` set (preferred_bins d)"
      using arg_cong [OF assms(1), of set] by (simp only: set_map)
    then obtain q where "q \<in> set (preferred_bins d)" "pref_id p = pref_id q" "pref_bin p = pref_bin q" by auto
    then show "pref_id p < seqs d' Seq_preferred
      \<and> (\<exists>b. find_bin (pref_bin p) d' = Some b \<and> bin_kind b = BIN_PICKABLE)"
      using assms(2-4) by (force simp: pref_rows_ok_def find_bin_def)
  qed
  ultimately show ?thesis using assms(4) unfolding pref_rows_ok_def by metis
qed

lemma insert_pref_rows:
  assumes "pref_rows_ok d" "find_pref item bin d = None" "find_bin bin d = Some b" "bin_kind b = BIN_PICKABLE"
  shows "pref_rows_ok (insert_pref item bin n note d)"
  using assms unfolding pref_rows_ok_def insert_pref_def find_pref_def
  by (fastforce simp: nextval_def find_None find_bin_def)

text \<open>The row of the bin, new or old, beside the other rows of the item.\<close>

definition row_placed :: "int \<Rightarrow> int \<Rightarrow> int \<Rightarrow> db \<Rightarrow> db \<Rightarrow> pref_row \<Rightarrow> bool" where
  "row_placed item bin n d d1 t \<longleftrightarrow> pref_rows_ok d1
     \<and> mset (filter (\<lambda>p. pref_item p = item) (preferred_bins d1)) = add_mset t (mset (other_prefs item bin d))
     \<and> pref_item t = item \<and> pref_bin t = bin \<and> pref_priority t = n
     \<and> (\<forall>j. j \<noteq> item \<longrightarrow> filter (\<lambda>p. pref_item p = j) (preferred_bins d1) = filter (\<lambda>p. pref_item p = j) (preferred_bins d))"

lemma set_priority_placed:
  assumes "pref_rows_ok d" "p \<in> set (preferred_bins d)"
  shows "row_placed (pref_item p) (pref_bin p) n d (set_pref_priority (pref_id p) n d) (p\<lparr>pref_priority := n\<rparr>)"
proof -
  have r: "distinct (map pref_id (preferred_bins d))" "distinct (map (\<lambda>p. (pref_item p, pref_bin p)) (preferred_bins d))"
    using assms(1) by (simp_all add: pref_rows_ok_def)
  have "pref_rows_ok (set_pref_priority (pref_id p) n d)"
    by (rule pref_rows_cong [OF _ _ _ assms(1)]) (simp_all add: set_pref_priority_def map_upd_same)
  with filter_upd_one [OF r assms(2), of "\<lambda>x. x\<lparr>pref_priority := n\<rparr>"] show ?thesis
    by (simp add: row_placed_def set_pref_priority_def other_prefs_def)
qed

lemma find_pref_Some:
  "find_pref item bin d = Some p \<Longrightarrow> p \<in> set (preferred_bins d) \<and> pref_item p = item \<and> pref_bin p = bin"
  unfolding find_pref_def by (drule find_Some_iff_first) simp

lemma find_pref_eq:
  assumes "pref_rows_ok d" "p \<in> set (preferred_bins d)"
  shows "find_pref (pref_item p) (pref_bin p) d = Some p"
proof (cases "find_pref (pref_item p) (pref_bin p) d")
  case None
  with assms(2) show ?thesis by (auto simp: find_pref_def find_None)
next
  case (Some q)
  have "distinct (map (\<lambda>p. (pref_item p, pref_bin p)) (preferred_bins d))" using assms(1) by (simp add: pref_rows_ok_def)
  from key_inj [OF this] find_pref_Some [OF Some] assms(2) Some show ?thesis by auto
qed

lemma insert_placed:
  assumes "pref_rows_ok d" "find_pref item bin d = None" "find_bin bin d = Some b" "bin_kind b = BIN_PICKABLE"
  shows "row_placed item bin n d (insert_pref item bin n note d)
    \<lparr>pref_id = seqs d Seq_preferred, pref_item = item, pref_bin = bin, pref_priority = n, pref_notes = note\<rparr>"
proof -
  have "filter (\<lambda>p. pref_item p = item \<and> pref_bin p \<noteq> bin) (preferred_bins d) = filter (\<lambda>p. pref_item p = item) (preferred_bins d)"
    using assms(2) by (intro filter_cong) (auto simp: find_pref_def find_None)
  with insert_pref_rows [OF assms, of n "note"] show ?thesis
    by (simp add: row_placed_def insert_pref_def nextval_def other_prefs_def del: mset_filter)
qed

lemma upsert_placed:
  assumes "pref_rows_ok d" "find_bin bin d = Some b" "bin_kind b = BIN_PICKABLE"
  shows "\<exists>t. row_placed item bin n d (upsert_pref item bin n d) t
    \<and> find_pref item bin (upsert_pref item bin n d) = Some t"
proof -
  have "\<exists>t. row_placed item bin n d (upsert_pref item bin n d) t"
  proof (cases "find_pref item bin d")
    case None
    with insert_placed [OF assms(1) None assms(2,3), of n None]
    have "row_placed item bin n d (upsert_pref item bin n d)
      \<lparr>pref_id = seqs d Seq_preferred, pref_item = item, pref_bin = bin, pref_priority = n, pref_notes = None\<rparr>"
      by (simp add: upsert_pref_def)
    then show ?thesis by blast
  next
    case (Some p)
    let ?d = "snd (nextval Seq_preferred d)"
    have "pref_rows_ok ?d" by (rule pref_rows_cong [OF _ _ _ assms(1)]) (simp_all add: nextval_def)
    moreover have "preferred_bins ?d = preferred_bins d" by (simp add: nextval_def)
    ultimately have "row_placed (pref_item p) (pref_bin p) n ?d (set_pref_priority (pref_id p) n ?d) (p\<lparr>pref_priority := n\<rparr>)"
      using find_pref_Some [OF Some] by (intro set_priority_placed) simp_all
    then have "row_placed item bin n d (upsert_pref item bin n d) (p\<lparr>pref_priority := n\<rparr>)"
      using Some find_pref_Some [OF Some] by (simp add: row_placed_def upsert_pref_def other_prefs_def nextval_def)
    then show ?thesis by blast
  qed
  then obtain t where t: "row_placed item bin n d (upsert_pref item bin n d) t" by blast
  then have "t \<in># mset (filter (\<lambda>p. pref_item p = item) (preferred_bins (upsert_pref item bin n d)))"
    unfolding row_placed_def by simp
  then have "t \<in> set (preferred_bins (upsert_pref item bin n d))" by simp
  from find_pref_eq [OF _ this] t show ?thesis by (auto simp: row_placed_def)
qed

text \<open>Renumbering keeps the rows and ranks the item.\<close>

lemma ranked_if_numbered: "map pref_priority (prefs_of item d) = [1..k] \<Longrightarrow> ranked item d"
proof -
  assume n: "map pref_priority (prefs_of item d) = [1..k]"
  let ?f = "filter (\<lambda>p. pref_item p = item) (preferred_bins d)"
  have m: "mset (map pref_priority ?f) = mset [1..k]" unfolding n [symmetric] prefs_of_def by simp
  have "distinct (map pref_priority ?f)" using mset_eq_imp_distinct_iff [OF m] by simp
  moreover have "1 \<le> pref_priority p" if "p \<in> set ?f" for p
    using arg_cong [OF m, of set_mset] that by (force simp del: mset_map)
  ultimately show ?thesis by (auto simp: ranked_def)
qed

lemma resequence_placed:
  assumes "row_placed item bin n d d1 t" "hierarchy d"
  defines "d' \<equiv> resequence item (Some (pref_id t)) d1"
  shows "hierarchy d'" "ranking item d' = ranked_at bin n item d"
    "map pref_priority (prefs_of item d') = [1..int (length (ranking item d'))]"
    "j \<noteq> item \<Longrightarrow> ranking j d' = ranking j d"
proof -
  note a = assms(1) [unfolded row_placed_def]
  have rd: "ranked item d" "\<And>j. ranked j d" using assms(2) by (simp_all add: hierarchy_def)
  have ids: "distinct (map pref_id (preferred_bins d1))" using a by (simp add: pref_rows_ok_def)
  note r = resequence_ranking [OF ids _ _ _ rd(1), of t bin n, folded d'_def]
  show k: "ranking item d' = ranked_at bin n item d" using r(1) a by simp
  show n: "map pref_priority (prefs_of item d') = [1..int (length (ranking item d'))]" using r(2) a by (simp add: k)
  note rows = resequence_rows(1) [OF ids refl, of item "Some (pref_id t)", folded d'_def]
  have oth: "filter (\<lambda>p. pref_item p = j) (preferred_bins d') = filter (\<lambda>p. pref_item p = j) (preferred_bins d1)" if "j \<noteq> item" for j
  proof -
    have "filter (\<lambda>p. pref_item p = j) (map (\<lambda>p. if pref_item p = item then placed s p else p) ps)
        = filter (\<lambda>p. pref_item p = j) ps" for s ps using that by (induction ps) auto
    then show ?thesis unfolding rows .
  qed
  then show o': "j \<noteq> item \<Longrightarrow> ranking j d' = ranking j d" using a by (simp add: ranking_def prefs_of_def)
  have "pref_rows_ok d'"
    by (rule pref_rows_cong [of _ d1]) (use a in \<open>simp_all add: rows comp_def\<close>, simp_all add: d'_def resequence_def)
  moreover have "ranked j d'" for j
  proof (cases "j = item")
    case True
    with ranked_if_numbered [OF n] show ?thesis by simp
  next
    case False
    then have "filter (\<lambda>p. pref_item p = j) (preferred_bins d') = filter (\<lambda>p. pref_item p = j) (preferred_bins d)"
      using oth a by simp
    moreover have "p \<in> set (preferred_bins d') \<Longrightarrow> pref_item p = j \<Longrightarrow> p \<in> set (preferred_bins d)" for p
      using arg_cong [OF calculation, of set] by auto
    ultimately show ?thesis using rd(2) [of j] by (simp add: ranked_def)
  qed
  ultimately show "hierarchy d'" by (simp add: hierarchy_def)
qed

lemma front_ranked:
  assumes "mset xs = add_mset t (mset os)" "\<forall>p \<in> set os. pref_priority t < pref_priority p" "distinct (map pref_priority os)"
  shows "sort_key pref_priority xs = t # sort_key pref_priority os"
proof (rule sort_key_inj_key_eq)
  show "mset xs = mset (t # sort_key pref_priority os)" using assms(1) by simp
  have "distinct (map pref_priority xs)"
    using assms mset_eq_imp_distinct_iff [of "map pref_priority xs" "map pref_priority (t # os)"] by auto
  then show "inj_on pref_priority (set xs)" by (simp add: distinct_map)
  show "sorted (map pref_priority (t # sort_key pref_priority os))" using assms(2) by (auto simp: less_imp_le)
qed

definition bumped :: "pref_row \<Rightarrow> pref_row" where
  "bumped p = p\<lparr>pref_priority := pref_priority p + 1\<rparr>"

lemma bumped_simps [simp]:
  "pref_id (bumped p) = pref_id p" "pref_item (bumped p) = pref_item p" "pref_bin (bumped p) = pref_bin p"
  "pref_priority (bumped p) = pref_priority p + 1"
  by (simp_all add: bumped_def)

lemma bump_prefs_rows:
  "pref_rows_ok d \<Longrightarrow> pref_rows_ok (bump_prefs item d)"
  "other_prefs item bin (bump_prefs item d) = map bumped (other_prefs item bin d)"
  "j \<noteq> item \<Longrightarrow> filter (\<lambda>p. pref_item p = j) (preferred_bins (bump_prefs item d)) = filter (\<lambda>p. pref_item p = j) (preferred_bins d)"
proof -
  show "pref_rows_ok d \<Longrightarrow> pref_rows_ok (bump_prefs item d)"
    by (rule pref_rows_cong [of _ d]) (simp_all add: bump_prefs_def map_upd_same)
  have "filter (\<lambda>p. pref_item p = item \<and> pref_bin p \<noteq> bin) (upd (\<lambda>p. pref_item p = item)
      (\<lambda>p. p\<lparr>pref_priority := pref_priority p + 1\<rparr>) t) = map bumped (filter (\<lambda>p. pref_item p = item \<and> pref_bin p \<noteq> bin) t)"
    for t by (induction t) (auto simp: bumped_def)
  then show "other_prefs item bin (bump_prefs item d) = map bumped (other_prefs item bin d)"
    by (simp add: other_prefs_def bump_prefs_def)
  have "filter (\<lambda>p. pref_item p = j) (upd (\<lambda>p. pref_item p = item) (\<lambda>p. p\<lparr>pref_priority := pref_priority p + 1\<rparr>) t)
      = filter (\<lambda>p. pref_item p = j) t" if "j \<noteq> item" for t using that by (induction t) auto
  then show "j \<noteq> item \<Longrightarrow> filter (\<lambda>p. pref_item p = j) (preferred_bins (bump_prefs item d)) = filter (\<lambda>p. pref_item p = j) (preferred_bins d)"
    by (simp add: bump_prefs_def)
qed

lemma make_primary_placed:
  assumes "pref_rows_ok d" "find_bin bin d = Some b" "bin_kind b = BIN_PICKABLE"
  shows "\<exists>t. row_placed item bin 1 (bump_prefs item d) (make_primary item bin d) t"
proof -
  let ?d = "bump_prefs item d"
  note ok = bump_prefs_rows(1) [OF assms(1), of item]
  have b: "find_bin bin ?d = Some b" using assms(2) by (simp add: find_bin_def bump_prefs_def)
  have cong: "row_placed item bin 1 ?d d2 t \<Longrightarrow> row_placed item bin 1 ?d (set_default_bin item bin d2) t" for d2 t
    by (simp add: row_placed_def set_default_bin_def pref_rows_ok_def find_bin_def)
  show ?thesis
  proof (cases "find_pref item bin ?d")
    case None
    with cong [OF insert_placed [OF ok None b assms(3), of 1 "Some ''Set via put-away''"]] show ?thesis
      by (auto simp: make_primary_def Let_def)
  next
    case (Some p)
    with cong [of "set_pref_priority (pref_id p) 1 ?d"] set_priority_placed [OF ok, of p 1] find_pref_Some [OF Some]
    show ?thesis by (auto simp: make_primary_def Let_def)
  qed
qed

lemma make_primary_ranking:
  assumes "hierarchy d" "find_bin bin d = Some b" "bin_kind b = BIN_PICKABLE"
    and "d' = make_primary item bin d"
  shows "hierarchy d'" "\<exists>t. prefs_of item d' = t # map bumped (sort_key pref_priority (other_prefs item bin d)) \<and> pref_bin t = bin \<and> pref_priority t = 1"
    "ranking item d' = ranked_at bin 1 item d" "j \<noteq> item \<Longrightarrow> ranking j d' = ranking j d"
proof -
  from assms(1) have rows: "pref_rows_ok d" and rk: "\<And>j. ranked j d" by (simp_all add: hierarchy_def)
  obtain t where t: "row_placed item bin 1 (bump_prefs item d) d' t"
    using make_primary_placed [OF rows assms(2,3)] unfolding assms(4) by blast
  note a = t [unfolded row_placed_def]
  let ?os = "other_prefs item bin d"
  have pos: "\<forall>p \<in> set ?os. 1 \<le> pref_priority p" using rk [of item] by (auto simp: ranked_def other_prefs_def)
  have "?os = filter (\<lambda>p. pref_bin p \<noteq> bin) (filter (\<lambda>p. pref_item p = item) (preferred_bins d))"
    by (simp add: other_prefs_def conj_commute)
  then have ds: "distinct (map pref_priority ?os)" using rk [of item] by (simp only: ranked_def distinct_map_filter)
  then have db: "distinct (map pref_priority (map bumped ?os))" by (simp add: comp_def distinct_map inj_on_def)
  have sb: "sort_key pref_priority (map bumped ?os) = map bumped (sort_key pref_priority ?os)"
  proof (rule sort_key_inj_key_eq)
    show "inj_on pref_priority (set (map bumped ?os))" using db unfolding distinct_map [of pref_priority] by blast
    show "sorted (map pref_priority (map bumped (sort_key pref_priority ?os)))"
      using sorted_sort_key [of pref_priority ?os] by (simp add: sorted_wrt_map)
  qed simp
  let ?xs = "filter (\<lambda>p. pref_item p = item) (preferred_bins d')"
  have m: "mset ?xs = add_mset t (mset (map bumped ?os))" using a by (simp add: bump_prefs_rows)
  have gt: "\<forall>p \<in> set (map bumped ?os). pref_priority t < pref_priority p" using a pos by auto
  have p: "prefs_of item d' = t # map bumped (sort_key pref_priority ?os)"
    unfolding prefs_of_def front_ranked [OF m gt db] sb ..
  then show "\<exists>t. prefs_of item d' = t # map bumped (sort_key pref_priority ?os) \<and> pref_bin t = bin \<and> pref_priority t = 1"
    using a by blast
  have "filter (\<lambda>p. pref_priority p < 1) (sort_key pref_priority ?os) = []"
    "filter (\<lambda>p. 1 \<le> pref_priority p) (sort_key pref_priority ?os) = sort_key pref_priority ?os"
    using pos by (auto simp: filter_empty_conv filter_id_conv)
  then show "ranking item d' = ranked_at bin 1 item d" using a by (simp add: ranking_def p ranked_at_def comp_def)
  have oth: "filter (\<lambda>p. pref_item p = j) (preferred_bins d') = filter (\<lambda>p. pref_item p = j) (preferred_bins d)" if "j \<noteq> item" for j
    using a that by (simp add: bump_prefs_rows(3))
  then show "j \<noteq> item \<Longrightarrow> ranking j d' = ranking j d" by (simp add: ranking_def prefs_of_def)
  have "ranked j d'" for j
  proof (cases "j = item")
    case True
    have "distinct (map pref_priority ?xs) = distinct (map pref_priority (t # map bumped ?os))"
      by (rule mset_eq_imp_distinct_iff) (simp only: mset_map m mset.simps(2) image_mset_add_mset)
    moreover have "distinct (map pref_priority (t # map bumped ?os))" using gt db by auto
    ultimately have "distinct (map pref_priority ?xs)" by simp
    moreover have "set ?xs = insert t (set (map bumped ?os))" using arg_cong [OF m, of set_mset] by simp
    then have "1 \<le> pref_priority p" if "p \<in> set ?xs" for p using that a pos by auto
    ultimately show ?thesis unfolding ranked_def True by simp
  next
    case False
    have "p \<in> set (preferred_bins d') \<Longrightarrow> pref_item p = j \<Longrightarrow> p \<in> set (preferred_bins d)" for p
      using arg_cong [OF oth [OF False], of set] by auto
    with oth [OF False] rk [of j] show ?thesis by (simp add: ranked_def)
  qed
  with a show "hierarchy d'" by (simp add: hierarchy_def)
qed

section \<open>Properties\<close>

lemma audit_hierarchy [simp]:
  "hierarchy (audit a e i u w j d) = hierarchy d" "ranking item (audit a e i u w j d) = ranking item d"
  "prefs_of item (audit a e i u w j d) = prefs_of item d"
  by (simp_all add: hierarchy_def pref_rows_ok_def ranked_def find_bin_def ranking_def prefs_of_def)

lemma update_preferred_Inr:
  assumes "update_preferred s item bin primary d = Inr (r, d')"
  shows "\<exists>i b. find_item item d = Some i \<and> find_bin bin d = Some b \<and> bin_kind b = BIN_PICKABLE
    \<and> (\<exists>j. d' = audit ''PREFERRED_BIN_UPDATE'' ''ITEM'' item (s_user s) (bin_wh b) j
          (if primary then make_primary item bin d else d))"
  using assms by (auto simp: update_preferred_def Let_def split: option.splits if_splits)

lemma create_preferred_placed:
  assumes "create_preferred_bin item bin n d = Inr d'" "hierarchy d"
  shows "hierarchy d'" "ranking item d' = ranked_at bin n item d"
    "map pref_priority (prefs_of item d') = [1..int (length (ranking item d'))]"
    "j \<noteq> item \<Longrightarrow> ranking j d' = ranking j d"
proof -
  from assms(1) obtain b where b: "find_bin bin d = Some b" "bin_kind b = BIN_PICKABLE"
    "d' = resequence item (map_option pref_id (find_pref item bin (upsert_pref item bin n d))) (upsert_pref item bin n d)"
    by (auto simp: create_preferred_bin_def Let_def split: option.splits if_splits)
  obtain t where t: "row_placed item bin n d (upsert_pref item bin n d) t" "find_pref item bin (upsert_pref item bin n d) = Some t"
    using upsert_placed [OF _ b(1,2), of item n] assms(2) by (auto simp: hierarchy_def)
  from resequence_placed [OF t(1) assms(2)] show "hierarchy d'" "ranking item d' = ranked_at bin n item d"
    "map pref_priority (prefs_of item d') = [1..int (length (ranking item d'))]"
    "j \<noteq> item \<Longrightarrow> ranking j d' = ranking j d" by (simp_all add: b(3) t(2))
qed

lemma update_preferred_placed:
  assumes "update_preferred_bin k n d = Inr d'" "hierarchy d"
  shows "\<exists>p \<in> set (preferred_bins d). pref_id p = k \<and> hierarchy d'
    \<and> ranking (pref_item p) d' = ranked_at (pref_bin p) n (pref_item p) d
    \<and> map pref_priority (prefs_of (pref_item p) d') = [1..int (length (ranking (pref_item p) d'))]
    \<and> (\<forall>j. j \<noteq> pref_item p \<longrightarrow> ranking j d' = ranking j d)"
proof -
  from assms(1) obtain p where f: "List.find (\<lambda>p. pref_id p = k) (preferred_bins d) = Some p"
    and d': "d' = resequence (pref_item p) (Some k) (set_pref_priority k n d)"
    by (auto simp: update_preferred_bin_def split: option.splits)
  from find_Some_iff_first [OF f] have p: "p \<in> set (preferred_bins d)" "pref_id p = k" by auto
  have "pref_rows_ok d" using assms(2) by (simp add: hierarchy_def)
  from resequence_placed [OF set_priority_placed [OF this p(1), of n] assms(2)] show ?thesis
    by (intro bexI [OF _ p(1)]) (simp add: d' p(2))
qed

lemma delete_preferred_hierarchy:
  assumes "hierarchy d"
  shows "hierarchy (delete_preferred_bin k d)"
proof -
  have rows: "preferred_bins (delete_preferred_bin k d) = filter (\<lambda>p. pref_id p \<noteq> k) (preferred_bins d)"
    "seqs (delete_preferred_bin k d) = seqs d" "bins (delete_preferred_bin k d) = bins d"
    by (simp_all add: delete_preferred_bin_def)
  have "pref_rows_ok (delete_preferred_bin k d)"
    using assms by (auto simp: hierarchy_def pref_rows_ok_def rows find_bin_def intro: distinct_map_filter)
  moreover have "ranked j (delete_preferred_bin k d)" for j
  proof -
    have swap: "filter P (filter Q t) = filter Q (filter P t)" for P Q and t :: "pref_row list" by (induction t) auto
    from assms have "ranked j d" by (simp add: hierarchy_def)
    then show ?thesis unfolding ranked_def rows(1)
      by (subst swap) (auto intro: distinct_map_filter simp del: filter_filter)
  qed
  ultimately show ?thesis by (simp add: hierarchy_def)
qed

text \<open>The requests that edit preferred bins.\<close>

inductive preferred_step :: "db \<Rightarrow> db \<Rightarrow> bool" where
  primary: "update_preferred s item bin p d = Inr (r, d') \<Longrightarrow> preferred_step d d'"
| create: "create_preferred_bin item bin n d = Inr d' \<Longrightarrow> preferred_step d d'"
| update: "update_preferred_bin k n d = Inr d' \<Longrightarrow> preferred_step d d'"
| delete: "preferred_step d (delete_preferred_bin k d)"

inductive_cases preferred_stepE: "preferred_step d d'"

lemma update_preferred_hierarchy:
  assumes "update_preferred s item bin p d = Inr (r, d')" "hierarchy d"
  shows "hierarchy d'"
  using update_preferred_Inr [OF assms(1)] make_primary_ranking(1) [OF assms(2) _ _ refl] assms(2) by auto

interpretation preferred: step_invariant preferred_step hierarchy
  by unfold_locales
    (erule preferred_stepE; use update_preferred_hierarchy create_preferred_placed(1) update_preferred_placed
        delete_preferred_hierarchy in blast)

text \<open>Claim C29. Whatever mixture of put-away updates and console edits of preferred bins runs, the preferred
  bins of every item stay a strict hierarchy: priorities of at least one without a tie, one row
  per item and bin, and only pickable bins.\<close>

theorem preferred_bins_stay_ranked:
  assumes "preferred_step\<^sup>*\<^sup>* d d'" "hierarchy d"
  shows "hierarchy d'"
  using assms by (rule preferred.reachable)

text \<open>Item 7 with three pickable bins, the first two of them preferred; bin 3 is in another
  warehouse.\<close>

definition demo_home :: db where
  "demo_home = demo_stock\<lparr>
     bins := bins demo_stock @
       [\<lparr>bin_id = 3, bin_code = ''B3'', bin_wh = 2, bin_kind = BIN_PICKABLE,
         bin_sequence = 3, bin_active = True, bin_ext = ''b3'', bin_barcode = ''b3''\<rparr>,
        \<lparr>bin_id = 4, bin_code = ''A4'', bin_wh = 1, bin_kind = BIN_PICKABLE,
         bin_sequence = 4, bin_active = True, bin_ext = ''b4'', bin_barcode = ''b4''\<rparr>],
     preferred_bins :=
       [\<lparr>pref_id = 1, pref_item = 7, pref_bin = 1, pref_priority = 1, pref_notes = None\<rparr>,
        \<lparr>pref_id = 2, pref_item = 7, pref_bin = 4, pref_priority = 2, pref_notes = None\<rparr>]\<rparr>"

lemmas home_defs = demo_home_def demo_stock_def empty_db_def find_bin_def find_item_def find_pref_def

lemma demo_home_ranked: "hierarchy demo_home"
  unfolding hierarchy_def
proof
  show "pref_rows_ok demo_home" by (simp add: pref_rows_ok_def home_defs)
  show "\<forall>item. ranked item demo_home" by (simp add: ranked_def home_defs)
qed

definition demo_clerk :: session where
  "demo_clerk = \<lparr>s_user = ''bo'', s_admin = False, s_whs = [1], s_txn = ''t2''\<rparr>"

lemma demo_promote: "\<exists>r d'. update_preferred demo_clerk 7 4 True demo_home = Inr (r, d')"
  by (simp add: update_preferred_def home_defs demo_clerk_def check_warehouse_access_def Let_def)

lemma demo_create_pref: "\<exists>d'. create_preferred_bin 7 3 2 demo_home = Inr d'"
  by (simp add: create_preferred_bin_def home_defs Let_def)

theorem preferred_bins_stay_ranked_witness:
  "\<exists>r d1 d2. update_preferred demo_clerk 7 4 True demo_home = Inr (r, d1)
     \<and> hierarchy (delete_preferred_bin 1 d1) \<and> create_preferred_bin 7 3 2 demo_home = Inr d2 \<and> hierarchy d2"
proof -
  obtain r d1 where 1: "update_preferred demo_clerk 7 4 True demo_home = Inr (r, d1)" using demo_promote by blast
  obtain d2 where 2: "create_preferred_bin 7 3 2 demo_home = Inr d2" using demo_create_pref by blast
  have "preferred_step\<^sup>*\<^sup>* demo_home (delete_preferred_bin 1 d1)"
    by (meson 1 preferred_step.primary preferred_step.delete r_into_rtranclp rtranclp.rtrancl_into_rtrancl)
  moreover have "preferred_step\<^sup>*\<^sup>* demo_home d2" using 2 by (meson preferred_step.create r_into_rtranclp)
  ultimately show ?thesis using 1 2 preferred_bins_stay_ranked [OF _ demo_home_ranked] by blast
qed

lemma delete_preferred_prefs: "prefs_of j (delete_preferred_bin k d) = filter (\<lambda>q. pref_id q \<noteq> k) (prefs_of j d)"
  by (simp add: prefs_of_def delete_preferred_bin_def filter_sort conj_commute)

lemma delete_preferred_ranking:
  assumes "hierarchy d" "p \<in> set (preferred_bins d)" "pref_id p = k"
  shows "ranking (pref_item p) (delete_preferred_bin k d) = filter (\<lambda>b. b \<noteq> pref_bin p) (ranking (pref_item p) d)"
    "j \<noteq> pref_item p \<Longrightarrow> prefs_of j (delete_preferred_bin k d) = prefs_of j d"
proof -
  have rows: "distinct (map pref_id (preferred_bins d))" "distinct (map (\<lambda>p. (pref_item p, pref_bin p)) (preferred_bins d))"
    using assms(1) by (simp_all add: hierarchy_def pref_rows_ok_def)
  have "pref_id q \<noteq> k \<longleftrightarrow> pref_bin q \<noteq> pref_bin p" if "q \<in> set (prefs_of (pref_item p) d)" for q
    using that key_inj [OF rows(1) _ assms(2), of q] key_inj [OF rows(2) _ assms(2), of q] assms(3) by (auto simp: prefs_of_def)
  then show "ranking (pref_item p) (delete_preferred_bin k d) = filter (\<lambda>b. b \<noteq> pref_bin p) (ranking (pref_item p) d)"
    by (simp add: ranking_def delete_preferred_prefs filter_map comp_def cong: filter_cong)
  show "prefs_of j (delete_preferred_bin k d) = prefs_of j d" if "j \<noteq> pref_item p"
    unfolding delete_preferred_prefs
    by (rule filter_True) (use that key_inj [OF rows(1) _ assms(2)] assms(3) in \<open>auto simp: prefs_of_def\<close>)
qed

text \<open>Claim C30. Placing a bin is an insertion into the abstract ranking of the item: a console create or
  update and setting a bin as primary put it in front of the others with the same or a later priority,
  the others keep their order, the console create and update leave the priorities 1 to K, and other
  items are untouched. The console delete takes exactly its bin out: the others keep their order and
  their priorities, gap included, and other items are untouched.\<close>

theorem preferred_bin_takes_its_place:
  assumes "hierarchy d"
  shows "(create_preferred_bin item bin n d = Inr d1 \<longrightarrow> ranking item d1 = ranked_at bin n item d
        \<and> map pref_priority (prefs_of item d1) = [1..int (length (ranking item d1))]
        \<and> (\<forall>j. j \<noteq> item \<longrightarrow> ranking j d1 = ranking j d))
    \<and> (update_preferred_bin k n d = Inr d2 \<longrightarrow> (\<exists>p \<in> set (preferred_bins d). pref_id p = k
        \<and> ranking (pref_item p) d2 = ranked_at (pref_bin p) n (pref_item p) d
        \<and> map pref_priority (prefs_of (pref_item p) d2) = [1..int (length (ranking (pref_item p) d2))]
        \<and> (\<forall>j. j \<noteq> pref_item p \<longrightarrow> ranking j d2 = ranking j d)))
    \<and> (update_preferred s item bin True d = Inr (r, d3) \<longrightarrow> ranking item d3 = ranked_at bin 1 item d
        \<and> hd (ranking item d3) = bin \<and> (\<forall>j. j \<noteq> item \<longrightarrow> ranking j d3 = ranking j d))
    \<and> (\<forall>p \<in> set (preferred_bins d). pref_id p = k \<longrightarrow>
        ranking (pref_item p) (delete_preferred_bin k d) = filter (\<lambda>b. b \<noteq> pref_bin p) (ranking (pref_item p) d)
        \<and> prefs_of (pref_item p) (delete_preferred_bin k d) = filter (\<lambda>q. pref_id q \<noteq> k) (prefs_of (pref_item p) d)
        \<and> (\<forall>j. j \<noteq> pref_item p \<longrightarrow> prefs_of j (delete_preferred_bin k d) = prefs_of j d))"
proof (intro conjI impI ballI allI)
  assume c: "create_preferred_bin item bin n d = Inr d1"
  note create_preferred_placed [OF c assms]
  then show "ranking item d1 = ranked_at bin n item d"
    "map pref_priority (prefs_of item d1) = [1..int (length (ranking item d1))]"
    "\<And>j. j \<noteq> item \<Longrightarrow> ranking j d1 = ranking j d" by blast+
next
  assume "update_preferred_bin k n d = Inr d2"
  from update_preferred_placed [OF this assms] show "\<exists>p \<in> set (preferred_bins d). pref_id p = k
        \<and> ranking (pref_item p) d2 = ranked_at (pref_bin p) n (pref_item p) d
        \<and> map pref_priority (prefs_of (pref_item p) d2) = [1..int (length (ranking (pref_item p) d2))]
        \<and> (\<forall>j. j \<noteq> pref_item p \<longrightarrow> ranking j d2 = ranking j d)" by blast
next
  assume "update_preferred s item bin True d = Inr (r, d3)"
  from update_preferred_Inr [OF this] obtain b j where b: "find_bin bin d = Some b" "bin_kind b = BIN_PICKABLE"
    and d3: "d3 = audit ''PREFERRED_BIN_UPDATE'' ''ITEM'' item (s_user s) (bin_wh b) j (make_primary item bin d)" by auto
  note m = make_primary_ranking [where item = item, OF assms b refl]
  show "ranking item d3 = ranked_at bin 1 item d" by (simp add: d3 m(3))
  show "hd (ranking item d3) = bin" using m(2) by (auto simp: d3 ranking_def)
  show "\<And>j. j \<noteq> item \<Longrightarrow> ranking j d3 = ranking j d" by (simp add: d3 m(4))
qed (simp_all add: delete_preferred_ranking [OF assms] delete_preferred_prefs [where j = "pref_item p" for p])

theorem preferred_bin_takes_its_place_witness:
  "\<exists>r d1 d3. create_preferred_bin 7 3 2 demo_home = Inr d1 \<and> ranking 7 demo_home = [1, 4] \<and> ranking 7 d1 = [1, 3, 4]
     \<and> update_preferred demo_clerk 7 4 True demo_home = Inr (r, d3) \<and> ranking 7 d3 = [4, 1]"
proof -
  obtain r d3 where 3: "update_preferred demo_clerk 7 4 True demo_home = Inr (r, d3)" using demo_promote by blast
  obtain d1 where 1: "create_preferred_bin 7 3 2 demo_home = Inr d1" using demo_create_pref by blast
  note p = preferred_bin_takes_its_place [OF demo_home_ranked, of 7 3 2 d1 1 undefined demo_clerk r d3]
    preferred_bin_takes_its_place [OF demo_home_ranked, of 7 4 1 d1 1 undefined demo_clerk r d3]
  have "ranked_at 3 2 7 demo_home = [1, 3, 4]" "ranked_at 4 1 7 demo_home = [4, 1]" "ranking 7 demo_home = [1, 4]"
    by (simp_all add: ranked_at_def ranking_def prefs_of_def other_prefs_def home_defs)
  with p 1 3 show ?thesis by simp
qed

text \<open>Setting a bin as primary is what the next suggestion says: for every caller who may
  see the bin's warehouse, \<open>suggest\<close> answers with that bin at priority one, and the put-away
  dashboard of the warehouse shows its code.\<close>

theorem primary_bin_is_suggested:
  assumes "hierarchy d" "update_preferred s item bin True d = Inr (r, d')"
  shows "\<exists>i b. find_item item d' = Some i \<and> find_bin bin d = Some b
    \<and> suggested_code (bin_wh b) i d' = Some (bin_code b)
    \<and> (\<forall>s'. warehouse_scope_clause s' (bin_wh b) \<longrightarrow> suggest_bin s' item d' = Inr (i, Some (b, 1)))"
proof -
  from update_preferred_Inr [OF assms(2)] obtain i b j where b: "find_item item d = Some i" "find_bin bin d = Some b"
    "bin_kind b = BIN_PICKABLE"
    and d': "d' = audit ''PREFERRED_BIN_UPDATE'' ''ITEM'' item (s_user s) (bin_wh b) j (make_primary item bin d)" by auto
  obtain t ps where t: "prefs_of item d' = t # ps" "pref_bin t = bin" "pref_priority t = 1"
    using make_primary_ranking(2) [where item = item, OF assms(1) b(2,3) refl] by (auto simp: d')
  have bs: "bins d' = bins d"
    by (simp add: d' make_primary_def set_default_bin_def Let_def bump_prefs_def set_pref_priority_def insert_pref_def
        nextval_def split: option.splits)
  have "\<exists>k. items d' = upd (\<lambda>i. item_id i = item) (\<lambda>i. i\<lparr>item_default_bin := k\<rparr>) (items d)"
    by (rule exI [of _ "Some bin"]) (simp add: d' make_primary_def set_default_bin_def Let_def bump_prefs_def
        set_pref_priority_def insert_pref_def nextval_def split: option.splits)
  then obtain k where its: "items d' = upd (\<lambda>i. item_id i = item) (\<lambda>i. i\<lparr>item_default_bin := k\<rparr>) (items d)" by blast
  have "List.find (\<lambda>i. item_id i = item) (upd (\<lambda>i. item_id i = item) (\<lambda>i. i\<lparr>item_default_bin := k\<rparr>) t)
      = map_option (\<lambda>i. i\<lparr>item_default_bin := k\<rparr>) (List.find (\<lambda>i. item_id i = item) t)" for t :: "item_row list"
    by (induction t) auto
  then have i': "find_item item d' = Some (i\<lparr>item_default_bin := k\<rparr>)" using b(1) by (simp add: find_item_def its)
  have best: "best_pref ok item d' = Some (t, b)" if "ok b" for ok
  proof -
    have "List.find (\<lambda>x. bin_id x = bin) bs = Some b \<Longrightarrow> \<exists>bs'. filter (\<lambda>x. bin_id x = bin) bs = b # bs'" for bs
      by (induction bs) (auto split: if_splits)
    with b(2) obtain bs' where "filter (\<lambda>x. bin_id x = bin) (bins d) = b # bs'" unfolding find_bin_def by blast
    then have f: "filter ok (filter (\<lambda>x. bin_id x = bin) (bins d)) = b # filter ok bs'" using that by simp
    have "concat (map (\<lambda>x. if bin_id x = bin then if ok x then [(t, x)] else [] else []) bs)
        = map (Pair t) (filter ok (filter (\<lambda>x. bin_id x = bin) bs))" for bs by (induction bs) auto
    then show ?thesis by (simp add: best_pref_def t bs f del: filter_filter)
  qed
  have "item_id i = item" using b(1) unfolding find_item_def by (auto dest!: find_Some_iff_first)
  with best i' b(2) t(3) show ?thesis
    by (intro exI [of _ "i\<lparr>item_default_bin := k\<rparr>"] exI [of _ b]) (simp add: suggested_code_def suggest_bin_def)
qed

theorem primary_bin_is_suggested_witness:
  "\<exists>r d' i b. update_preferred demo_clerk 7 4 True demo_home = Inr (r, d') \<and> bin_code b = ''A4''
     \<and> suggested_code 1 i d' = Some ''A4'' \<and> suggest_bin demo_clerk 7 d' = Inr (i, Some (b, 1))"
proof -
  obtain r d' where u: "update_preferred demo_clerk 7 4 True demo_home = Inr (r, d')" using demo_promote by blast
  from primary_bin_is_suggested [OF demo_home_ranked u] obtain i b where "find_bin 4 demo_home = Some b"
    and s: "suggested_code (bin_wh b) i d' = Some (bin_code b)"
    "warehouse_scope_clause demo_clerk (bin_wh b) \<longrightarrow> suggest_bin demo_clerk 7 d' = Inr (i, Some (b, 1))" by blast
  then have "bin_wh b = 1" "bin_code b = ''A4''" by (auto simp: home_defs)
  with s u show ?thesis
    by (intro exI [of _ r] exI [of _ d'] exI [of _ i] exI [of _ b]) (simp add: warehouse_scope_clause_def demo_clerk_def)
qed

text \<open>A confirmed put-away is the ledger's move.\<close>

lemma confirm_putaway_cells:
  assumes "inv_wf d" "confirm_putaway s m d = Inr (tid, d')"
  shows "\<exists>ns. cell d' = (let c = (cell d)((mv_item m, mv_from m, mv_lot m) := ns)
      in c((mv_item m, mv_to m, mv_lot m) := c (mv_item m, mv_to m, mv_lot m) + mv_qty m))
    \<and> ns = cell d (mv_item m, mv_from m, mv_lot m) - mv_qty m \<and> inv_wf d'"
proof -
  from assms(2) obtain i fb tb where f: "find_item (mv_item m) d = Some i" "find_bin (mv_from m) d = Some fb"
    "find_bin (mv_to m) d = Some tb" "check_warehouse_access s (Some (bin_wh fb))"
    by (auto simp: confirm_putaway_def split: option.splits if_splits)
  with assms(2) obtain ns nd d1 where
    m: "move_inventory (mv_item m) (mv_from m) (mv_to m) (bin_wh fb) (mv_qty m) (mv_lot m) d = Inr ((ns, nd), d1)"
    by (auto simp: confirm_putaway_def split: sum.splits inv_error.splits)
  with assms(2) f have "\<exists>j. d' = audit ''PUTAWAY'' ''ITEM'' (mv_item m) (s_user s) (bin_wh fb) j
      (snd (insert_putaway m (bin_wh fb) (s_user s) d1))"
    by (auto simp: confirm_putaway_def split_beta)
  then have d': "inventory d' = inventory d1" "seqs d' Seq_inventory = seqs d1 Seq_inventory"
    by (auto simp: insert_putaway_def uuid4_def nextval_def Let_def)
  have "cell d' = cell d1" "inv_wf d' = inv_wf d1" using d' by (simp_all add: cell_def inv_wf_def)
  with move_inventory_cell [OF assms(1) m] show ?thesis by simp
qed

section \<open>What the routes do not look at\<close>

text \<open>The destination of a put-away may lie in another warehouse, one the caller has no access to:
  the goods are then in a bin of warehouse 2 on a row of warehouse 1.\<close>

lemma putaway_crosses_warehouses:
  "\<exists>tid d'. confirm_putaway demo_clerk \<lparr>mv_item = 7, mv_from = 1, mv_to = 3, mv_qty = 4, mv_reason = None, mv_lot = None\<rparr> demo_home
       = Inr (tid, d') \<and> map (\<lambda>r. (inv_bin r, inv_wh r, on_hand r)) (inventory d') = [(1, 1, 6), (3, 1, 4)]
     \<and> map_option bin_wh (find_bin 3 demo_home) = Some 2 \<and> \<not> check_warehouse_access demo_clerk (Some 2)"
  by (simp add: confirm_putaway_def home_defs demo_clerk_def check_warehouse_access_def move_inventory_def find_inv_def
      set_inventory_quantity_def add_inventory_def insert_putaway_def uuid4_def nextval_def Let_def)

text \<open>Moving a preferred bin down by one does nothing: on the tie with the next bin the changed
  row wins, so it stays in front.\<close>

lemma demote_by_one_has_no_effect:
  "\<exists>d'. update_preferred_bin 1 2 demo_home = Inr d' \<and> ranking 7 demo_home = [1, 4] \<and> ranking 7 d' = [1, 4]
     \<and> preferred_bins d' = preferred_bins demo_home"
  by (simp add: update_preferred_bin_def resequence_def set_pref_priority_def ranking_def prefs_of_def home_defs)

end
