(* ===== verification/PurchaseOrders.thy ===== *)
theory PurchaseOrders
  imports Receiving
begin

text \<open>
  The purchase-order editor of the console (\<^verbatim>\<open>api/routes/admin/admin_orders.py\<close>): creation,
  header and status edits, line edits with the recomputed status, closing and reopening.
  \<open>uid\<close> is the text of \<open>g.current_user["user_id"]\<close>, which these routes write to the audit log.
\<close>

section \<open>Creating an order\<close>

datatype po_error =
  PO_duplicate string
| PO_no_item int
| PO_not_found
| PO_bad_status string
| PO_archive_needs_closed
| PO_locked po_status
| PO_no_fields
| PO_item_on_order string
| PO_no_line
| PO_below_received int int
| PO_has_receipts int
| PO_already_closed
| PO_not_closed po_status
| PO_internal

record po_entry =
  poe_item :: int
  poe_ordered :: int
  poe_cost :: "rat option"
  poe_number :: "int option"

record po_request =
  pq_number :: string
  pq_wh :: int
  pq_lines :: "po_entry list"
  pq_barcode :: "string option"
  pq_vendor :: "string option"
  pq_expected :: "string option"
  pq_notes :: "string option"

text \<open>\<open>dparse\<close> is the database's reading of a date text, \<open>money\<close> the rounding of a cost through a
  float to \<open>DECIMAL(10,4)\<close>.\<close>

definition opt_date :: "(string \<Rightarrow> string option) \<Rightarrow> string option \<Rightarrow> string option option" where
  "opt_date dparse v = (case v of None \<Rightarrow> Some None | Some t \<Rightarrow> map_option Some (dparse t))"

text \<open>The default of \<open>data.get("po_barcode", \<dots>)\<close> is never used: the key is always there.\<close>

definition insert_po :: "(string \<Rightarrow> string option) \<Rightarrow> po_request \<Rightarrow> string \<Rightarrow> db \<Rightarrow> (int \<times> db) option" where
  "insert_po dparse q user d =
     (case opt_date dparse (pq_expected q) of
        None \<Rightarrow> None
      | Some ed \<Rightarrow>
          if \<not> (\<exists>w \<in> set (warehouses d). wh_id w = pq_wh q) then None
          else
            let (u, d1) = uuid4 d; (i, d2) = nextval Seq_po d1
            in Some (i, d2\<lparr>purchase_orders := purchase_orders d2 @
                 [\<lparr>po_id = i, po_number = pq_number q, po_barcode = pq_barcode q, po_state = PO_OPEN, po_wh = pq_wh q,
                   po_ext = u, po_received_at = None,
                   po_columns = (\<lambda>k. if k = ''vendor_name'' then pq_vendor q else if k = ''expected_date'' then ed
                                     else if k = ''notes'' then pq_notes q else None),
                   po_created_by = Some user\<rparr>]\<rparr>))"

definition insert_po_line :: "int \<Rightarrow> int \<Rightarrow> int \<Rightarrow> rat option \<Rightarrow> int \<Rightarrow> db \<Rightarrow> int \<times> db" where
  "insert_po_line po item q cost n d =
     (let (i, d1) = nextval Seq_po_line d
      in (i, d1\<lparr>po_lines := po_lines d1 @
            [\<lparr>pol_id = i, pol_po = po, pol_item = item, pol_ordered = q, pol_received = 0, pol_number = n,
              pol_state = POL_PENDING, pol_cost = cost\<rparr>]\<rparr>))"

text \<open>A line without a number (or with 0) gets number 1.\<close>

fun insert_po_lines :: "(rat \<Rightarrow> rat) \<Rightarrow> int \<Rightarrow> po_entry list \<Rightarrow> db \<Rightarrow> db" where
  "insert_po_lines money po [] d = d"
| "insert_po_lines money po (e # es) d =
     insert_po_lines money po es
       (snd (insert_po_line po (poe_item e) (poe_ordered e) (map_option money (poe_cost e))
          (case poe_number e of None \<Rightarrow> 1 | Some n \<Rightarrow> if n = 0 then 1 else n) d))"

definition find_po :: "int \<Rightarrow> db \<Rightarrow> po_row option" where
  "find_po po d = List.find (\<lambda>p. po_id p = po) (purchase_orders d)"

text \<open>The detail view: the header and its lines with their items in line order.\<close>

definition get_purchase_order :: "int \<Rightarrow> db \<Rightarrow> po_error + (po_row \<times> (pol_row \<times> item_row) list)" where
  "get_purchase_order po d =
     (case find_po po d of
        None \<Rightarrow> Inl PO_not_found
      | Some p \<Rightarrow> Inr (p, sort_key (\<lambda>x. pol_number (fst x))
          [(l, i). l \<leftarrow> po_lines d, pol_po l = po, i \<leftarrow> items d, item_id i = pol_item l]))"

definition create_purchase_order ::
    "(string \<Rightarrow> string option) \<Rightarrow> (rat \<Rightarrow> rat) \<Rightarrow> session \<Rightarrow> po_request \<Rightarrow> db \<Rightarrow> po_error + (int \<times> db)" where
  "create_purchase_order dparse money s q d =
     (if \<exists>p \<in> set (purchase_orders d). po_number p = pq_number q then Inl (PO_duplicate (pq_number q))
      else
        (case List.find (\<lambda>e. find_item (poe_item e) d = None) (pq_lines q) of
           Some e \<Rightarrow> Inl (PO_no_item (poe_item e))
         | None \<Rightarrow>
             (case insert_po dparse q (s_user s) d of
                None \<Rightarrow> Inl PO_internal
              | Some (po, d1) \<Rightarrow> Inr (po, insert_po_lines money po (pq_lines q) d1))))"

section \<open>The edit event\<close>

record po_change =
  ch_field :: string
  ch_old :: "string option"
  ch_new :: "string option"

definition po_status_text :: "po_status \<Rightarrow> string" where
  "po_status_text st =
     (case st of PO_OPEN \<Rightarrow> ''OPEN'' | PO_PARTIAL \<Rightarrow> ''PARTIAL'' | PO_RECEIVED \<Rightarrow> ''RECEIVED''
      | PO_CLOSED \<Rightarrow> ''CLOSED'' | PO_ARCHIVED \<Rightarrow> ''ARCHIVED'')"

definition emit_po_edit :: "po_row \<Rightarrow> po_status \<Rightarrow> po_change list \<Rightarrow> session \<Rightarrow> db \<Rightarrow> db" where
  "emit_po_edit p st cs s d =
     (if cs = [] then d
      else snd (emit_event ''purchaseorderedit.completed'' 1 ''purchase_order'' (po_id p) (po_ext p) (po_wh p) (s_txn s)
        (JObj [(''purchase_order_external_id'', JStr (source_or_canonical ''purchase_order'' (po_ext p) d)),
               (''po_number'', JStr (po_number p)), (''status'', JStr (po_status_text st)),
               (''changes'', JArr (map (\<lambda>c. JObj [(''field'', JStr (ch_field c)), (''old_value'', jopt JStr (ch_old c)),
                                                 (''new_value'', jopt JStr (ch_new c))]) cs)),
               (''edited_by_user_external_id'', jopt JStr (get_user_external_id (s_user s) d)),
               (''edited_at'', JTime (now d))]) d))"

section \<open>Header edits\<close>

definition po_locked :: "po_status \<Rightarrow> bool" where
  "po_locked st \<longleftrightarrow> st = PO_CLOSED \<or> st = PO_ARCHIVED"

definition status_of_text :: "string \<Rightarrow> po_status option" where
  "status_of_text t = List.find (\<lambda>st. po_status_text st = t) [PO_OPEN, PO_PARTIAL, PO_RECEIVED, PO_CLOSED, PO_ARCHIVED]"

definition header_field :: "po_row \<Rightarrow> string \<Rightarrow> string option" where
  "header_field p f =
     (if f = ''po_number'' then Some (po_number p) else if f = ''po_barcode'' then po_barcode p else po_columns p f)"

text \<open>Writing one header column; \<open>po_number\<close> is NOT NULL, dates are read by the database.\<close>

definition set_header_field :: "(string \<Rightarrow> string option) \<Rightarrow> string \<times> string option \<Rightarrow> po_row \<Rightarrow> po_row option" where
  "set_header_field dparse f p =
     (if fst f = ''po_number'' then map_option (\<lambda>n. p\<lparr>po_number := n\<rparr>) (snd f)
      else if fst f = ''po_barcode'' then Some (p\<lparr>po_barcode := snd f\<rparr>)
      else if fst f = ''expected_date''
      then map_option (\<lambda>v. p\<lparr>po_columns := (po_columns p)(''expected_date'' := v)\<rparr>) (opt_date dparse (snd f))
      else Some (p\<lparr>po_columns := (po_columns p)(fst f := snd f)\<rparr>))"

fun set_header_fields :: "(string \<Rightarrow> string option) \<Rightarrow> (string \<times> string option) list \<Rightarrow> po_row \<Rightarrow> po_row option" where
  "set_header_fields dparse [] p = Some p"
| "set_header_fields dparse (f # fs) p =
     (case set_header_field dparse f p of None \<Rightarrow> None | Some q \<Rightarrow> set_header_fields dparse fs q)"

text \<open>A text never equals the date object read from the column, so a given date always counts as
  a change.\<close>

definition header_changed :: "po_row \<Rightarrow> string \<times> string option \<Rightarrow> bool" where
  "header_changed p f \<longleftrightarrow>
     (if fst f = ''expected_date'' then \<not> (snd f = None \<and> header_field p (fst f) = None)
      else snd f \<noteq> header_field p (fst f))"

definition set_po :: "int \<Rightarrow> (po_row \<Rightarrow> po_row) \<Rightarrow> db \<Rightarrow> db" where
  "set_po po f d = d\<lparr>purchase_orders := upd (\<lambda>p. po_id p = po) f (purchase_orders d)\<rparr>"

text \<open>\<open>fs\<close> are the header fields the request sets, in schema order; \<open>status\<close> its status text.
  Gives the new header row.\<close>

definition edited_header ::
    "(string \<Rightarrow> string option) \<Rightarrow> po_row \<Rightarrow> (string \<times> string option) list \<Rightarrow> string option \<Rightarrow> db
      \<Rightarrow> po_error + po_row" where
  "edited_header dparse p fs status d =
     (let st = Option.bind status status_of_text in
      if status \<noteq> None \<and> st = None then Inl (PO_bad_status (the status))
      else if st = Some PO_ARCHIVED \<and> po_state p \<noteq> PO_CLOSED then Inl PO_archive_needs_closed
      else if fs \<noteq> [] \<and> po_locked (po_state p) then Inl (PO_locked (po_state p))
      else if fs = [] \<and> (st = None \<or> st = Some (po_state p)) then Inl PO_no_fields
      else
        (case set_header_fields dparse fs p of
           None \<Rightarrow> Inl PO_internal
         | Some q \<Rightarrow>
             if \<exists>r \<in> set (purchase_orders d). po_id r \<noteq> po_id p \<and> po_number r = po_number q then Inl PO_internal
             else Inr (case st of None \<Rightarrow> q | Some x \<Rightarrow> q\<lparr>po_state := x\<rparr>)))"

definition update_purchase_order ::
    "(string \<Rightarrow> string option) \<Rightarrow> session \<Rightarrow> string \<Rightarrow> int \<Rightarrow> (string \<times> string option) list \<Rightarrow> string option \<Rightarrow> db
      \<Rightarrow> po_error + (po_row \<times> db)" where
  "update_purchase_order dparse s uid po fs status d =
     (case find_po po d of
        None \<Rightarrow> Inl PO_not_found
      | Some p \<Rightarrow>
          (case edited_header dparse p fs status d of
             Inl e \<Rightarrow> Inl e
           | Inr q \<Rightarrow>
               let d1 = set_po po (\<lambda>_. q) d;
                   moved = (po_state q \<noteq> po_state p);
                   d2 = (if moved then audit ''PO_STATUS_CHANGED'' ''PO'' po uid (po_wh p)
                             (JObj [(''old_status'', JStr (po_status_text (po_state p))),
                                    (''new_status'', JStr (po_status_text (po_state q)))]) d1 else d1);
                   cs = map (\<lambda>f. \<lparr>ch_field = fst f, ch_old = header_field p (fst f), ch_new = snd f\<rparr>)
                          (filter (header_changed p) fs)
                      @ (if moved then [\<lparr>ch_field = ''status'', ch_old = Some (po_status_text (po_state p)),
                                        ch_new = Some (po_status_text (po_state q))\<rparr>] else [])
               in Inr (q, emit_po_edit p (po_state q) cs s d2)))"

section \<open>Line edits\<close>

definition next_line_number :: "int \<Rightarrow> db \<Rightarrow> int" where
  "next_line_number po d = foldl max 0 (map pol_number (filter (\<lambda>l. pol_po l = po) (po_lines d))) + 1"

definition add_purchase_order_line ::
    "(rat \<Rightarrow> rat) \<Rightarrow> session \<Rightarrow> string \<Rightarrow> int \<Rightarrow> int \<Rightarrow> int \<Rightarrow> rat option \<Rightarrow> db \<Rightarrow> po_error + ((int \<times> po_status) \<times> db)" where
  "add_purchase_order_line money s uid po item q cost d =
     (case find_po po d of
        None \<Rightarrow> Inl PO_not_found
      | Some p \<Rightarrow>
          if po_locked (po_state p) then Inl (PO_locked (po_state p))
          else
            (case find_item item d of
               None \<Rightarrow> Inl (PO_no_item item)
             | Some i \<Rightarrow>
                 if \<exists>l \<in> set (po_lines d). pol_po l = po \<and> pol_item l = item then Inl (PO_item_on_order (item_sku i))
                 else
                   let (l, d1) = insert_po_line po item q (map_option money cost) (next_line_number po d) d;
                       d2 = audit ''PO_LINE_ADDED'' ''PO_LINE'' l uid (po_wh p)
                         (JObj [(''po_id'', JInt po), (''sku'', JStr (item_sku i)), (''quantity_ordered'', JInt q)]) d1;
                       (st, d3) = recompute_po_status po d2
                   in Inr ((l, st), emit_po_edit p st
                        [\<lparr>ch_field = ''line['' @ item_sku i @ '']'', ch_old = None, ch_new = Some (signed_decimal q)\<rparr>] s d3)))"

text \<open>A line of the order with its item.\<close>

definition line_with_item :: "int \<Rightarrow> int \<Rightarrow> db \<Rightarrow> (pol_row \<times> item_row) option" where
  "line_with_item po lid d =
     (case List.find (\<lambda>l. pol_id l = lid \<and> pol_po l = po) (po_lines d) of
        None \<Rightarrow> None | Some l \<Rightarrow> map_option (\<lambda>i. (l, i)) (find_item (pol_item l) d))"

definition set_pol :: "int \<Rightarrow> (pol_row \<Rightarrow> pol_row) \<Rightarrow> db \<Rightarrow> db" where
  "set_pol lid f d = d\<lparr>po_lines := upd (\<lambda>l. pol_id l = lid) f (po_lines d)\<rparr>"

definition update_purchase_order_line ::
    "session \<Rightarrow> string \<Rightarrow> int \<Rightarrow> int \<Rightarrow> int \<Rightarrow> db \<Rightarrow> po_error + ((pol_status option \<times> po_status) \<times> db)" where
  "update_purchase_order_line s uid po lid q d =
     (case find_po po d of
        None \<Rightarrow> Inl PO_not_found
      | Some p \<Rightarrow>
          if po_locked (po_state p) then Inl (PO_locked (po_state p))
          else
            (case line_with_item po lid d of
               None \<Rightarrow> Inl PO_no_line
             | Some (l, i) \<Rightarrow>
                 if q < pol_received l then Inl (PO_below_received q (pol_received l))
                 else
                   let (st, d1) = recompute_po_status po (set_pol lid (\<lambda>l. l\<lparr>pol_ordered := q\<rparr>) d);
                       lst = map_option pol_state (List.find (\<lambda>l. pol_id l = lid) (po_lines d1));
                       d2 = audit ''PO_LINE_UPDATED'' ''PO_LINE'' lid uid (po_wh p)
                         (JObj [(''po_id'', JInt po), (''sku'', JStr (item_sku i)),
                                (''old_quantity_ordered'', JInt (pol_ordered l)), (''new_quantity_ordered'', JInt q)]) d1;
                       cs = (if q \<noteq> pol_ordered l
                             then [\<lparr>ch_field = ''line['' @ item_sku i @ ''].quantity_ordered'',
                                    ch_old = Some (signed_decimal (pol_ordered l)), ch_new = Some (signed_decimal q)\<rparr>] else [])
                   in Inr ((lst, st), emit_po_edit p st cs s d2)))"

text \<open>The foreign key of receipts is checked by the database.\<close>

definition delete_purchase_order_line ::
    "session \<Rightarrow> string \<Rightarrow> int \<Rightarrow> int \<Rightarrow> db \<Rightarrow> po_error + (po_status \<times> db)" where
  "delete_purchase_order_line s uid po lid d =
     (case find_po po d of
        None \<Rightarrow> Inl PO_not_found
      | Some p \<Rightarrow>
          if po_locked (po_state p) then Inl (PO_locked (po_state p))
          else
            (case line_with_item po lid d of
               None \<Rightarrow> Inl PO_no_line
             | Some (l, i) \<Rightarrow>
                 if 0 < pol_received l then Inl (PO_has_receipts (pol_received l))
                 else if \<exists>r \<in> set (receipts d). rc_pol r = Some lid then Inl PO_internal
                 else
                   let d1 = d\<lparr>po_lines := filter (\<lambda>l. pol_id l \<noteq> lid) (po_lines d)\<rparr>;
                       d2 = audit ''PO_LINE_REMOVED'' ''PO_LINE'' lid uid (po_wh p)
                         (JObj [(''po_id'', JInt po), (''sku'', JStr (item_sku i)),
                                (''quantity_ordered'', JInt (pol_ordered l))]) d1;
                       (st, d3) = recompute_po_status po d2
                   in Inr (st, emit_po_edit p st
                        [\<lparr>ch_field = ''line['' @ item_sku i @ '']'', ch_old = Some (signed_decimal (pol_ordered l)),
                          ch_new = None\<rparr>] s d3)))"

section \<open>Closing and reopening\<close>

definition close_purchase_order :: "int \<Rightarrow> db \<Rightarrow> po_error + db" where
  "close_purchase_order po d =
     (case find_po po d of
        None \<Rightarrow> Inl PO_not_found
      | Some p \<Rightarrow>
          if po_state p = PO_CLOSED then Inl PO_already_closed
          else Inr (set_po po (\<lambda>p. p\<lparr>po_state := PO_CLOSED\<rparr>) d))"

definition reopen_purchase_order :: "int \<Rightarrow> db \<Rightarrow> po_error + db" where
  "reopen_purchase_order po d =
     (case find_po po d of
        None \<Rightarrow> Inl PO_not_found
      | Some p \<Rightarrow>
          if po_state p \<noteq> PO_CLOSED then Inl (PO_not_closed (po_state p))
          else Inr (set_po po (\<lambda>p. p\<lparr>po_state := PO_OPEN\<rparr>) d))"

section \<open>The life of an order\<close>

text \<open>Receipts name lines that exist, and line ids come from their sequence.\<close>

definition anchored :: "db \<Rightarrow> bool" where
  "anchored d \<longleftrightarrow> (\<forall>l \<in> set (po_lines d). pol_id l < seqs d Seq_po_line)
     \<and> (\<forall>r \<in> set (receipts d). \<forall>k. rc_pol r = Some k \<longrightarrow> k \<in> pol_id ` set (po_lines d))"

definition po_books :: "db \<Rightarrow> bool" where
  "po_books d \<longleftrightarrow> books_ok d \<and> anchored d \<and> (\<forall>l \<in> set (po_lines d). pol_received l \<le> pol_ordered l)"

lemma anchored_less:
  assumes "anchored d" "pol_id ` set (po_lines d') = pol_id ` set (po_lines d)"
    "set (receipts d') \<subseteq> set (receipts d)" "seqs d' Seq_po_line = seqs d Seq_po_line"
  shows "anchored d'"
proof -
  have "(\<forall>k \<in> pol_id ` set (po_lines d'). k < seqs d' Seq_po_line)" using assms(1) by (simp only: assms(2,4)) (simp add: anchored_def)
  moreover have "\<forall>r \<in> set (receipts d'). \<forall>k. rc_pol r = Some k \<longrightarrow> k \<in> pol_id ` set (po_lines d')"
    using assms(1,3) unfolding assms(2) by (auto simp: anchored_def)
  ultimately show ?thesis by (simp add: anchored_def)
qed

lemma image_id_upd: "(\<And>x. key (f x) = key x) \<Longrightarrow> key ` set (upd P f t) = key ` set t"
  by (induction t) auto

text \<open>The sequence of the line ids is only drawn from by the routes of this theory.\<close>

lemma release_po_line_seq [simp]:
  "seqs (fst (release_satisfiable_backorders wh item txn src d)) Seq_po_line = seqs d Seq_po_line"
proof -
  have "seqs (fst (fold (release_one wh txn src) bs s)) Seq_po_line = seqs (fst s) Seq_po_line" for bs s
  proof (induction bs arbitrary: s)
    case (Cons b bs)
    have "seqs (fst (release_one wh txn src b s)) Seq_po_line = seqs (fst s) Seq_po_line"
      by (simp add: release_one_def Let_def)
    with Cons show ?case by simp
  qed simp
  then show ?thesis by (simp add: release_satisfiable_backorders_def)
qed

lemma receive_post_po_line_seq:
  "seqs (rs_db (receive_post po s x u e l over st)) Seq_po_line = seqs (rs_db st) Seq_po_line"
  by (simp add: receive_post_def split_beta Let_def book_line_def insert_receipt_def uuid4_def nextval_def)

lemma receive_post_po_books:
  assumes "po_books (rs_db st)" "find_po_line p i (rs_db st) = Some l" "0 < re_qty e"
    "pol_received l + re_qty e \<le> pol_ordered l"
  shows "po_books (rs_db (receive_post po s x u e l over st))" (is "po_books ?d'")
proof -
  note eff = receive_post_effect [of po s x u e l over st]
  have "distinct (map pol_id (po_lines (rs_db st)))" using assms(1) by (simp add: po_books_def books_ok_def)
  with assms(1) have "lines_capped (rs_db st)" by (simp add: lines_capped_def po_books_def)
  from receive_post_capped [OF this assms(2,4)] have "\<forall>y \<in> set (po_lines ?d'). pol_received y \<le> pol_ordered y"
    by (simp add: lines_capped_def)
  moreover have "books_ok ?d'" using receive_post_books [OF _ assms(2,3)] assms(1) by (simp add: po_books_def)
  moreover have "anchored ?d'"
  proof -
    have ids: "pol_id ` set (po_lines ?d') = pol_id ` set (po_lines (rs_db st))"
      unfolding eff(1) book_line_def by (simp add: image_id_upd)
    have l: "pol_id l \<in> pol_id ` set (po_lines (rs_db st))" using find_po_line_member [OF assms(2)] by blast
    have a: "anchored (rs_db st)" using assms(1) by (simp add: po_books_def)
    then have "\<forall>k \<in> pol_id ` set (po_lines ?d'). k < seqs ?d' Seq_po_line"
      unfolding ids receive_post_po_line_seq by (simp add: anchored_def)
    moreover have "\<forall>r \<in> set (receipts ?d'). \<forall>k. rc_pol r = Some k \<longrightarrow> k \<in> pol_id ` set (po_lines ?d')"
      using a l unfolding eff(2) ids by (auto simp: anchored_def)
    ultimately show ?thesis by (simp add: anchored_def)
  qed
  ultimately show ?thesis by (simp add: po_books_def)
qed

lemma po_books_cong:
  assumes "po_lines d' = po_lines d" "receipts d' = receipts d" "seqs d' Seq_receipt = seqs d Seq_receipt"
    "seqs d' Seq_po_line = seqs d Seq_po_line"
  shows "po_books d' = po_books d"
  using books_cong [OF assms(1-3)] assms by (simp add: po_books_def anchored_def)

lemma receive_items_po_books:
  assumes "receive_items s pid es d = Inr (res, d')" "po_books d" "\<And>e. e \<in> set es \<Longrightarrow> 0 < re_qty e"
    "\<not> over_receipt_allowed d"
  shows "po_books d'"
proof -
  from receive_items_Inr [OF assms(1)] obtain po st x u where
    "find_po_scoped s pid d = Some po"
    "po_state po = PO_OPEN \<or> po_state po = PO_PARTIAL" and
    loop: "receive_loop po s x u es \<lparr>rs_db = d, rs_receipts = [], rs_warnings = [],
        rs_notifications = [], rs_audits = []\<rparr> = Inr st" and
    d': "d' = snd (close_receive pid (fold (audit ''RECEIVE'' ''PO'' pid (s_user s) (po_wh po))
              (rs_audits st) (rs_db st)))" .
  have "po_books (rs_db st) \<and> \<not> over_receipt_allowed (rs_db st)"
    by (rule receive_loop_invariant [OF loop])
      (use assms(2-4) receive_post_po_books in \<open>auto simp: over_receipt_allowed_def receive_post_effect(3)\<close>)
  then show ?thesis using po_books_cong [of d' "rs_db st"] by (simp add: d')
qed

text \<open>Taking a receipt back.\<close>

lemma taken_back_po_books:
  assumes "po_books d" "books_ok d'" "seqs d' Seq_po_line = seqs d Seq_po_line" "set (receipts d') \<subseteq> set (receipts d)"
    and "po_lines d' = upd P f (po_lines d)" "\<And>l. pol_id (f l) = pol_id l" "\<And>l. pol_ordered (f l) = pol_ordered l"
    "\<And>l. 0 \<le> pol_received l \<Longrightarrow> pol_received (f l) \<le> pol_received l"
  shows "po_books d'"
proof -
  have "anchored d'"
    using anchored_less [of d d'] assms(1,3-6) by (simp add: po_books_def image_id_upd)
  moreover have "pol_received l \<le> pol_ordered l" if "l \<in> set (po_lines d')" for l
  proof -
    from that obtain y where y: "y \<in> set (po_lines d)" "l = (if P y then f y else y)" by (auto simp: assms(5) set_upd)
    have "pol_received y = total (\<lambda>r. rc_pol r = Some (pol_id y)) rc_qty (receipts d)"
      using assms(1) y(1) by (simp add: po_books_def books_ok_def)
    moreover have "\<forall>r \<in> set (receipts d). 0 < rc_qty r" using assms(1) by (simp add: po_books_def books_ok_def)
    ultimately have "0 \<le> pol_received y" using total_nonneg [of "receipts d"] by (simp add: less_imp_le)
    moreover have "pol_received y \<le> pol_ordered y" using assms(1) y(1) by (simp add: po_books_def)
    ultimately show ?thesis using assms(7,8) y(2) by (auto intro: order_trans)
  qed
  ultimately show ?thesis using assms(2) by (simp add: po_books_def)
qed

lemma record_unreceive_seq:
  assumes "record_unreceive rid user reason txn d = Inr (ur, d')"
  shows "seqs d' Seq_po_line = seqs d Seq_po_line"
proof -
  from assms obtain rc po where r: "List.find (\<lambda>r. rc_id r = rid) (receipts d) = Some rc" "rc_po rc = Some po"
    by (auto simp: record_unreceive_def split: option.splits)
  obtain rem bs d2 where t: "unreceive_take rc d = (rem, bs, d2)" by (metis prod_cases3)
  have "seqs d' Seq_po_line = seqs d2 Seq_po_line"
    using assms r t by (auto simp: record_unreceive_def Let_def split_beta split: if_splits option.splits)
  with unreceive_take_frame [OF t] show ?thesis by simp
qed

lemma record_unreceive_po_books:
  assumes "record_unreceive rid user reason txn d = Inr (ur, d')" "po_books d"
  shows "po_books d'"
proof -
  from record_unreceive_Inr [OF assms(1)] obtain rc po rem bs d2 where
    f: "List.find (\<lambda>r. rc_id r = rid) (receipts d) = Some rc" and
    t: "unreceive_take rc d = (rem, bs, d2)" and
    e: "po_lines d' = po_lines (snd (unreceive_books rc po d2))"
    "receipts d' = receipts (snd (unreceive_books rc po d2))" .
  note fr = unreceive_take_frame [OF t]
  have lines: "po_lines d' = upd (\<lambda>l. pol_po l = po) (\<lambda>l. l\<lparr>pol_state := line_status (pol_received l) (pol_ordered l)\<rparr>)
      (upd (\<lambda>l. Some (pol_id l) = rc_pol rc) (\<lambda>l. l\<lparr>pol_received := max 0 (pol_received l - rc_qty rc)\<rparr>) (po_lines d))"
    using fr by (simp add: e unreceive_books_def Let_def)
  let ?f = "\<lambda>l. let x = (if Some (pol_id l) = rc_pol rc then l\<lparr>pol_received := max 0 (pol_received l - rc_qty rc)\<rparr> else l)
    in if pol_po x = po then x\<lparr>pol_state := line_status (pol_received x) (pol_ordered x)\<rparr> else x"
  have "po_lines d' = upd (\<lambda>_. True) ?f (po_lines d)" unfolding lines by (auto simp: upd_def Let_def)
  moreover have "set (receipts d') \<subseteq> set (receipts d)" using fr by (auto simp: e unreceive_books_def Let_def)
  moreover have "books_ok d'" using record_unreceive_books [OF assms(1)] assms(2) by (simp add: po_books_def)
  moreover have "0 \<le> rc_qty rc"
    using assms(2) find_Some_iff_first [OF f] by (auto simp: po_books_def books_ok_def less_imp_le)
  ultimately show ?thesis
    by (intro taken_back_po_books [OF assms(2) _ record_unreceive_seq [OF assms(1)]])
      (assumption | auto simp: Let_def)+
qed

lemma cancel_one_po_books:
  assumes "po_books d" "rc \<in> set (receipts d)"
  shows "po_books (cancel_one rc d)"
proof -
  have "books_ok (cancel_one rc d)" using cancel_one_books [OF _ assms(2)] assms(1) by (simp add: po_books_def)
  moreover have "0 \<le> rc_qty rc" using assms by (auto simp: po_books_def books_ok_def less_imp_le)
  ultimately show ?thesis
    by (intro taken_back_po_books [OF assms(1), of "cancel_one rc d" "\<lambda>l. Some (pol_id l) = rc_pol rc"
          "\<lambda>l. let q = max 0 (pol_received l - rc_qty rc) in l\<lparr>pol_received := q, pol_state := line_status q (pol_ordered l)\<rparr>"])
      (auto simp: cancel_one_def Let_def)
qed

lemma cancel_step_po_books:
  assumes "po_books (cs_db st)"
  shows "po_books (cs_db (cancel_step s rid st))"
proof (cases "find_receipt_scoped s rid (cs_db st)")
  case None
  with assms show ?thesis by (simp add: cancel_step_def)
next
  case (Some rc)
  then have "rc \<in> set (receipts (cs_db st))" unfolding find_receipt_scoped_def by (auto dest!: find_Some_iff_first)
  with cancel_one_po_books [OF assms this] Some show ?thesis by (simp add: cancel_step_def)
qed

lemma cancel_receiving_po_books:
  assumes "cancel_receiving s pid rids d = Inr (n, d')" "po_books d"
  shows "po_books d'"
proof (cases "rids = []")
  case True
  with assms show ?thesis by (simp add: cancel_receiving_def)
next
  case False
  let ?st = "fold (cancel_step s) rids \<lparr>cs_db = d, cs_pos = [Some pid], cs_reversed = [], cs_count = 0\<rparr>"
  have "po_books (cs_db (fold (cancel_step s) rids st))" if "po_books (cs_db st)" for st
    using that by (induction rids arbitrary: st) (auto simp: cancel_step_po_books)
  with assms(2) have "po_books (cs_db ?st)" by simp
  then show ?thesis
    by (rule po_books_cong [THEN iffD2, rotated -1])
      (use assms(1) False in \<open>auto simp: cancel_receiving_def Let_def split: if_splits\<close>)
qed

text \<open>The edits.\<close>

lemma emit_po_edit_frame [simp]:
  "po_lines (emit_po_edit p st cs s d) = po_lines d" "receipts (emit_po_edit p st cs s d) = receipts d"
  "q \<noteq> Seq_event \<Longrightarrow> seqs (emit_po_edit p st cs s d) q = seqs d q"
  "purchase_orders (emit_po_edit p st cs s d) = purchase_orders d"
  by (simp_all add: emit_po_edit_def)

lemma set_po_frame [simp]:
  "po_lines (set_po po f d) = po_lines d" "receipts (set_po po f d) = receipts d" "seqs (set_po po f d) = seqs d"
  by (simp_all add: set_po_def)

lemma recompute_po_books:
  assumes "po_books d"
  shows "po_books (snd (recompute_po_status po d))"
proof -
  have "anchored (snd (recompute_po_status po d))"
    by (rule anchored_less [of d]) (use assms in \<open>simp_all add: po_books_def image_id_upd\<close>)
  with assms books_recompute [of d po] show ?thesis by (auto simp: po_books_def set_upd)
qed

lemma insert_po_line_books:
  assumes "po_books d" "0 < q"
  shows "po_books (snd (insert_po_line po item q cost n d))"
proof -
  have "total (\<lambda>r. rc_pol r = Some (seqs d Seq_po_line)) rc_qty (receipts d) = 0"
    by (rule total_none) (use assms(1) in \<open>force simp: po_books_def anchored_def\<close>)
  then show ?thesis using assms by (force simp: po_books_def books_ok_def anchored_def insert_po_line_def nextval_def)
qed

lemma insert_po_lines_books:
  assumes "\<And>e. e \<in> set es \<Longrightarrow> 0 < poe_ordered e" "po_books d"
  shows "po_books (insert_po_lines money po es d)"
  using assms by (induction es arbitrary: d) (auto intro!: insert_po_line_books)

lemma line_with_item_Some:
  "line_with_item po lid d = Some (l, i) \<Longrightarrow> l \<in> set (po_lines d) \<and> pol_id l = lid \<and> pol_po l = po"
  unfolding line_with_item_def by (auto split: option.splits dest!: find_Some_iff_first)

lemma set_pol_books:
  assumes "po_books d" "l \<in> set (po_lines d)" "pol_id l = lid" "pol_received l \<le> q"
  shows "po_books (set_pol lid (\<lambda>l. l\<lparr>pol_ordered := q\<rparr>) d)"
proof -
  have ids: "distinct (map pol_id (po_lines d))" using assms(1) by (simp add: po_books_def books_ok_def)
  have "pol_received y \<le> q" if "y \<in> set (po_lines d)" "pol_id y = lid" for y
    using key_inj [OF ids that(1) assms(2)] that(2) assms(3,4) by simp
  then have "\<forall>y \<in> set (po_lines (set_pol lid (\<lambda>l. l\<lparr>pol_ordered := q\<rparr>) d)). pol_received y \<le> pol_ordered y"
    using assms(1) by (auto simp: po_books_def set_pol_def set_upd)
  moreover have "anchored (set_pol lid (\<lambda>l. l\<lparr>pol_ordered := q\<rparr>) d)"
    by (rule anchored_less [of d]) (use assms(1) in \<open>simp_all add: po_books_def set_pol_def image_id_upd\<close>)
  moreover have "books_ok (set_pol lid (\<lambda>l. l\<lparr>pol_ordered := q\<rparr>) d)"
    using assms(1) by (auto simp: po_books_def books_ok_def set_pol_def map_upd_same set_upd)
  ultimately show ?thesis by (simp add: po_books_def)
qed

lemma delete_pol_books:
  assumes "po_books d" "\<forall>r \<in> set (receipts d). rc_pol r \<noteq> Some lid"
  shows "po_books (d\<lparr>po_lines := filter (\<lambda>l. pol_id l \<noteq> lid) (po_lines d)\<rparr>)"
proof -
  have "k \<in> pol_id ` set (filter (\<lambda>l. pol_id l \<noteq> lid) (po_lines d))"
    if "r \<in> set (receipts d)" "rc_pol r = Some k" for r k
    using assms that by (force simp: po_books_def anchored_def)
  then show ?thesis using assms(1) by (auto simp: po_books_def books_ok_def anchored_def distinct_map_filter)
qed

lemma update_line_Inr:
  assumes "update_purchase_order_line s uid po lid q d = Inr (r, d')"
  obtains l i where "line_with_item po lid d = Some (l, i)" "pol_received l \<le> q"
    "po_lines d' = po_lines (snd (recompute_po_status po (set_pol lid (\<lambda>l. l\<lparr>pol_ordered := q\<rparr>) d)))"
    "receipts d' = receipts d" "\<And>k. k \<noteq> Seq_event \<Longrightarrow> k \<noteq> Seq_audit \<Longrightarrow> seqs d' k = seqs d k"
  using assms by (auto simp: update_purchase_order_line_def Let_def split_beta set_pol_def split: option.splits if_splits)

lemma delete_line_Inr:
  assumes "delete_purchase_order_line s uid po lid d = Inr (r, d')"
  shows "\<forall>r \<in> set (receipts d). rc_pol r \<noteq> Some lid"
    "po_lines d' = po_lines (snd (recompute_po_status po (d\<lparr>po_lines := filter (\<lambda>l. pol_id l \<noteq> lid) (po_lines d)\<rparr>)))"
    "receipts d' = receipts d" "k \<noteq> Seq_event \<Longrightarrow> k \<noteq> Seq_audit \<Longrightarrow> seqs d' k = seqs d k"
  using assms by (auto simp: delete_purchase_order_line_def Let_def split_beta split: option.splits if_splits)

lemma add_line_Inr:
  assumes "add_purchase_order_line money s uid po item q cost d = Inr (r, d')"
  shows "\<exists>n c. po_lines d' = po_lines (snd (recompute_po_status po (snd (insert_po_line po item q c n d))))
    \<and> receipts d' = receipts d \<and> seqs d' Seq_receipt = seqs d Seq_receipt
    \<and> seqs d' Seq_po_line = seqs (snd (insert_po_line po item q c n d)) Seq_po_line"
  using assms
  by (auto simp: add_purchase_order_line_def Let_def split_beta insert_po_line_def nextval_def
      split: option.splits if_splits)

inductive po_step :: "db \<Rightarrow> db \<Rightarrow> bool" where
  receive: "\<lbrakk> receive_items s pid es d = Inr (res, d'); \<And>e. e \<in> set es \<Longrightarrow> 0 < re_qty e; \<not> over_receipt_allowed d \<rbrakk>
    \<Longrightarrow> po_step d d'"
| unreceive: "record_unreceive rid user reason txn d = Inr (ur, d') \<Longrightarrow> po_step d d'"
| cancel: "cancel_receiving s pid rids d = Inr (n, d') \<Longrightarrow> po_step d d'"
| create: "\<lbrakk> create_purchase_order dparse money s q d = Inr (po, d'); \<And>e. e \<in> set (pq_lines q) \<Longrightarrow> 0 < poe_ordered e \<rbrakk>
    \<Longrightarrow> po_step d d'"
| header: "update_purchase_order dparse s uid po fs status d = Inr (p, d') \<Longrightarrow> po_step d d'"
| add: "\<lbrakk> add_purchase_order_line money s uid po item q cost d = Inr (r, d'); 0 < q \<rbrakk> \<Longrightarrow> po_step d d'"
| resize: "update_purchase_order_line s uid po lid q d = Inr (r, d') \<Longrightarrow> po_step d d'"
| delete: "delete_purchase_order_line s uid po lid d = Inr (r, d') \<Longrightarrow> po_step d d'"
| close: "close_purchase_order po d = Inr d' \<Longrightarrow> po_step d d'"
| reopen: "reopen_purchase_order po d = Inr d' \<Longrightarrow> po_step d d'"

inductive_cases po_stepE: "po_step d d'"

lemma create_po_books:
  assumes "create_purchase_order dparse money s q d = Inr (po, d')" "\<And>e. e \<in> set (pq_lines q) \<Longrightarrow> 0 < poe_ordered e"
    and "po_books d"
  shows "po_books d'"
proof -
  from assms(1) obtain d1 where d1: "insert_po dparse q (s_user s) d = Some (po, d1)" "d' = insert_po_lines money po (pq_lines q) d1"
    by (auto simp: create_purchase_order_def split: if_splits option.splits)
  from d1(1) have "po_lines d1 = po_lines d" "receipts d1 = receipts d" "seqs d1 Seq_receipt = seqs d Seq_receipt"
    "seqs d1 Seq_po_line = seqs d Seq_po_line"
    by (auto simp: insert_po_def uuid4_def nextval_def Let_def split: option.splits if_splits)
  then have "po_books d1" using assms(3) po_books_cong [of d1 d] by simp
  with insert_po_lines_books [OF assms(2)] d1(2) show ?thesis by simp
qed

lemma edit_po_books:
  assumes "po_books d"
  shows "update_purchase_order dparse s uid po fs status d = Inr (p, d') \<Longrightarrow> po_books d'"
    "add_purchase_order_line money s uid po item q cost d = Inr (r, d') \<Longrightarrow> 0 < q \<Longrightarrow> po_books d'"
    "update_purchase_order_line s uid po lid q d = Inr (r', d') \<Longrightarrow> po_books d'"
    "delete_purchase_order_line s uid po lid d = Inr (r'', d') \<Longrightarrow> po_books d'"
    "close_purchase_order po d = Inr d' \<Longrightarrow> po_books d'" "reopen_purchase_order po d = Inr d' \<Longrightarrow> po_books d'"
proof -
  show "update_purchase_order dparse s uid po fs status d = Inr (p, d') \<Longrightarrow> po_books d'"
    using assms by (subst po_books_cong [of d' d]) (auto simp: update_purchase_order_def Let_def split: option.splits sum.splits)
  show "close_purchase_order po d = Inr d' \<Longrightarrow> po_books d'" "reopen_purchase_order po d = Inr d' \<Longrightarrow> po_books d'"
    using assms po_books_cong [of d' d]
    by (auto simp: close_purchase_order_def reopen_purchase_order_def split: option.splits if_splits)
next
  assume "add_purchase_order_line money s uid po item q cost d = Inr (r, d')" "0 < q"
  from add_line_Inr [OF this(1)] obtain n c where e: "po_lines d' = po_lines (snd (recompute_po_status po (snd (insert_po_line po item q c n d))))"
    "receipts d' = receipts d" "seqs d' Seq_receipt = seqs d Seq_receipt"
    "seqs d' Seq_po_line = seqs (snd (insert_po_line po item q c n d)) Seq_po_line" by auto
  from recompute_po_books [OF insert_po_line_books [OF assms \<open>0 < q\<close>]]
  show "po_books d'" by (rule po_books_cong [THEN iffD2, rotated -1]) (simp_all add: e, simp_all add: insert_po_line_def nextval_def)
next
  assume "update_purchase_order_line s uid po lid q d = Inr (r', d')"
  from update_line_Inr [OF this] obtain l i where l: "line_with_item po lid d = Some (l, i)" "pol_received l \<le> q"
    and e: "po_lines d' = po_lines (snd (recompute_po_status po (set_pol lid (\<lambda>l. l\<lparr>pol_ordered := q\<rparr>) d)))"
    "receipts d' = receipts d" "seqs d' Seq_receipt = seqs d Seq_receipt" "seqs d' Seq_po_line = seqs d Seq_po_line"
    by (metis seq_name.distinct)
  note m = line_with_item_Some [OF l(1)]
  have "po_books (set_pol lid (\<lambda>l. l\<lparr>pol_ordered := q\<rparr>) d)" using set_pol_books [OF assms _ _ l(2)] m by blast
  from recompute_po_books [OF this, of po]
  show "po_books d'" by (rule po_books_cong [THEN iffD2, rotated -1]) (simp_all add: e, simp_all add: set_pol_def)
next
  assume "delete_purchase_order_line s uid po lid d = Inr (r'', d')"
  note e = delete_line_Inr [OF this]
  from recompute_po_books [OF delete_pol_books [OF assms e(1)], of po]
  show "po_books d'" by (rule po_books_cong [THEN iffD2, rotated -1]) (simp_all add: e)
qed

interpretation po_life: step_invariant po_step po_books
  by unfold_locales
    (erule po_stepE; blast intro: receive_items_po_books record_unreceive_po_books cancel_receiving_po_books
        create_po_books edit_po_books)

section \<open>Properties\<close>

text \<open>Claim C31. The books of a purchase order survive its whole life: however orders are created,
  edited, resized, closed, reopened, received against, unreceived and cancelled (over-receipt
  switched off), every line has received exactly the sum of its receipts and never more than
  it orders, and every receipt names a line that still exists.\<close>

theorem po_life_keeps_books:
  assumes "po_step\<^sup>*\<^sup>* d d'" "po_books d"
  shows "(\<forall>l \<in> set (po_lines d'). pol_received l = total (\<lambda>r. rc_pol r = Some (pol_id l)) rc_qty (receipts d')
      \<and> pol_received l \<le> pol_ordered l)
    \<and> (\<forall>r \<in> set (receipts d'). \<forall>k. rc_pol r = Some k \<longrightarrow> k \<in> pol_id ` set (po_lines d'))"
  using po_life.reachable [OF assms] unfolding po_books_def books_ok_def anchored_def by blast

lemma demo_po_books: "po_books (demo_po\<lparr>seqs := \<lambda>_. 20\<rparr>)"
  by (simp add: po_books_def books_ok_def anchored_def demo_po_def empty_db_def)

lemmas po_edit_defs = update_purchase_order_line_def add_purchase_order_line_def find_po_def po_locked_def
  line_with_item_def find_item_def set_pol_def recompute_po_status_def line_status_def insert_po_line_def nextval_def
  next_line_number_def demo_po_def empty_db_def demo_receiver_def

lemma demo_resize: "\<exists>r d'. update_purchase_order_line demo_receiver ''1'' 5 11 6 (demo_po\<lparr>seqs := \<lambda>_. 20\<rparr>) = Inr (r, d')
    \<and> map pol_ordered (po_lines d') = [6]"
  by (simp add: po_edit_defs Let_def)

theorem po_life_keeps_books_witness:
  "\<exists>r d1 d2. update_purchase_order_line demo_receiver ''1'' 5 11 6 (demo_po\<lparr>seqs := \<lambda>_. 20\<rparr>) = Inr (r, d1)
     \<and> close_purchase_order 5 d1 = Inr d2 \<and> map pol_ordered (po_lines d2) = [6]
     \<and> (\<forall>l \<in> set (po_lines d2). pol_received l \<le> pol_ordered l)"
proof -
  obtain r d1 where r: "update_purchase_order_line demo_receiver ''1'' 5 11 6 (demo_po\<lparr>seqs := \<lambda>_. 20\<rparr>) = Inr (r, d1)"
    "map pol_ordered (po_lines d1) = [6]" using demo_resize by (elim exE conjE)
  have "\<exists>d2. close_purchase_order 5 d1 = Inr d2 \<and> po_lines d2 = po_lines d1"
    using r by (auto simp: close_purchase_order_def emit_po_edit_def po_edit_defs Let_def split: if_splits)
  then obtain d2 where c: "close_purchase_order 5 d1 = Inr d2" "po_lines d2 = po_lines d1" by (elim exE conjE)
  have "po_step\<^sup>*\<^sup>* (demo_po\<lparr>seqs := \<lambda>_. 20\<rparr>) d2"
    by (rule rtranclp.rtrancl_into_rtrancl [OF r_into_rtranclp [where r = po_step, OF po_step.resize [OF r(1)]] po_step.close [OF c(1)]])
  from po_life_keeps_books [OF this demo_po_books] have "\<forall>l \<in> set (po_lines d2). pol_received l \<le> pol_ordered l" by blast
  with r c show ?thesis by (intro exI [of _ r] exI [of _ d1] exI [of _ d2] conjI) simp_all
qed

text \<open>The guard of the delete route is enough for the database: in balanced books a line without
  received units has no receipts, so the foreign key never fails.\<close>

lemma delete_line_never_fails_on_receipts:
  assumes "po_books d"
  shows "delete_purchase_order_line s uid po lid d \<noteq> Inl PO_internal"
proof
  assume "delete_purchase_order_line s uid po lid d = Inl PO_internal"
  then obtain l i r where l: "line_with_item po lid d = Some (l, i)" "\<not> 0 < pol_received l"
    "r \<in> set (receipts d)" "rc_pol r = Some lid"
    by (auto simp: delete_purchase_order_line_def Let_def split_beta split: option.splits if_splits)
  note m = line_with_item_Some [OF l(1)]
  have pos: "\<forall>x \<in> set (receipts d). 0 < rc_qty x" using assms by (simp add: po_books_def books_ok_def)
  have "pol_received l = total (\<lambda>r. rc_pol r = Some (pol_id l)) rc_qty (receipts d)"
    using assms m by (simp add: po_books_def books_ok_def)
  moreover have "rc_qty r \<le> total (\<lambda>r. rc_pol r = Some (pol_id l)) rc_qty (receipts d)"
    by (rule total_ge_member) (use pos l m in \<open>auto simp: less_imp_le\<close>)
  ultimately show False using pos l(2,3) by fastforce
qed

section \<open>Where the editor surprises\<close>

text \<open>Creating an order takes two lines for one item, which the add route refuses because a receipt
  could not tell them apart: receiving looks the item up and always finds the first line.\<close>

definition demo_twice :: po_request where
  "demo_twice = \<lparr>pq_number = ''PO-6'', pq_wh = 1,
     pq_lines = [\<lparr>poe_item = 7, poe_ordered = 3, poe_cost = None, poe_number = None\<rparr>,
                 \<lparr>poe_item = 7, poe_ordered = 2, poe_cost = None, poe_number = None\<rparr>],
     pq_barcode = None, pq_vendor = None, pq_expected = None, pq_notes = None\<rparr>"

lemma create_takes_one_item_twice:
  "\<exists>d'. create_purchase_order Some id demo_receiver demo_twice
        (demo_po\<lparr>seqs := \<lambda>_. 20, warehouses := [\<lparr>wh_id = 1, wh_code = ''W'', wh_active = True\<rparr>]\<rparr>) = Inr (20, d')
     \<and> map (\<lambda>l. (pol_po l, pol_item l, pol_ordered l, pol_number l)) (po_lines d') = [(5, 7, 10, 1), (20, 7, 3, 1), (20, 7, 2, 1)]
     \<and> map_option pol_ordered (find_po_line 20 7 d') = Some 3 \<and> map po_barcode (purchase_orders d') = [None, None]"
  by (simp add: create_purchase_order_def insert_po_def opt_date_def demo_twice_def find_po_line_def uuid4_def
      Let_def po_edit_defs)

text \<open>Sending the stored expected date again is reported as a change of that date to itself.\<close>

lemma same_date_is_a_change:
  "header_field p ''expected_date'' = Some t \<Longrightarrow> header_changed p (''expected_date'', Some t)"
  by (simp add: header_changed_def)

text \<open>Closing an archived order takes it out of the archive.\<close>

lemma archived_order_can_be_closed:
  "\<exists>d'. close_purchase_order 5 (set_po 5 (\<lambda>p. p\<lparr>po_state := PO_ARCHIVED\<rparr>) demo_po) = Inr d'
     \<and> map po_state (purchase_orders d') = [PO_CLOSED]"
  by (simp add: close_purchase_order_def set_po_def po_edit_defs)

end
