(* ===== verification/WorkTasks.thy ===== *)
theory WorkTasks
  imports Schema
begin

text \<open>
  Work Control: the tasks of \<^verbatim>\<open>api/services/work_control_service.py\<close> and the task routes of
  \<^verbatim>\<open>api/routes/work_control.py\<close>. Employees claim tasks, start, pause, resume and complete
  them; every step is an event of an append-only log. The tables are those of
  \<^verbatim>\<open>db/migrations/082_work_control.sql\<close> to \<^verbatim>\<open>086_work_dispatch.sql\<close>. Audit rows go to the shared
  database in the field \<open>base\<close> (the audit column \<open>device_id\<close> is not modelled).
\<close>

section \<open>Tables\<close>

datatype task_kind = K_PICKING | K_PACKING | K_RECEIVING | K_PUTAWAY | K_STOCK_CHECK | K_OTHER

datatype work_status =
  W_QUEUED | W_ASSIGNED | W_CLAIMED | W_IN_PROGRESS | W_PAUSED | W_COMPLETED | W_CANCELLED

datatype note_status = NB_OPEN | NB_IN_PROGRESS | NB_COMPLETED | NB_CANCELLED

datatype availability = AV_AVAILABLE | AV_BREAK | AV_OFF_DUTY

datatype event_kind =
  EV_CREATED | EV_ASSIGNED | EV_CLAIMED | EV_VERIFIED | EV_STARTED | EV_PAUSED | EV_RESUMED
| EV_COMPLETED | EV_EXCEPTION | EV_CANCELLED | EV_REOPENED

text \<open>Times are microseconds.\<close>

record wtask =
  wt_id :: int
  wt_batch :: "int option"
  wt_wh :: int
  wt_kind :: task_kind
  wt_state :: work_status
  wt_priority :: int
  wt_assigned :: "string option"
  wt_claimed :: "string option"
  wt_source :: "string option"
  wt_key :: "string option"
  wt_orders :: int
  wt_skus :: int
  wt_units :: int
  wt_level :: int
  wt_note :: "string option"
  wt_estimate :: "rat option"
  wt_reason :: "string option"
  wt_assigned_at :: "int option"
  wt_assigned_by :: "string option"
  wt_available :: int
  wt_claimed_at :: "int option"
  wt_started :: "int option"
  wt_completed :: "int option"
  wt_active_from :: "int option"
  wt_pause_from :: "int option"
  wt_active :: int
  wt_paused :: int
  wt_created_by :: string

record wnote =
  wn_id :: int
  wn_wh :: int
  wn_source :: string
  wn_ref :: string
  wn_platform :: "string option"
  wn_priority :: int
  wn_state :: note_status
  wn_orders :: int
  wn_by :: string
  wn_created :: int

record wnote_order =
  wo_id :: int
  wo_note :: int
  wo_number :: string
  wo_courier :: "string option"
  wo_platform :: "string option"
  wo_skus :: int
  wo_units :: int

record wevent =
  we_id :: int
  we_task :: int
  we_kind :: event_kind
  we_user :: string
  we_reason :: "string option"
  we_notes :: "string option"
  we_meta :: "json option"
  we_device :: "string option"
  we_at :: int

record worker_status =
  ws_wh :: int
  ws_user :: int
  ws_date :: int
  ws_state :: availability
  ws_capacity :: int
  ws_note :: "string option"
  ws_by :: string

record employee =
  em_id :: int
  em_name :: string
  em_full :: string
  em_admin :: bool
  em_active :: bool
  em_functions :: "string list"
  em_wh :: "int option"
  em_whs :: "int list"

datatype severity = SV_LOW | SV_MEDIUM | SV_HIGH | SV_CRITICAL

datatype case_status = CS_PENDING | CS_CONFIRMED | CS_DISMISSED

datatype responsibility =
  RB_UNCONFIRMED | RB_PICKER | RB_PACKER | RB_BOTH | RB_SUPPLIER | RB_SOURCE_DATA | RB_SYSTEM | RB_UNKNOWN

record work_error_case =
  er_id :: int
  er_wh :: int
  er_task :: "int option"
  er_batch :: "int option"
  er_order :: "int option"
  er_kind :: string
  er_severity :: severity
  er_state :: case_status
  er_blame :: responsibility
  er_stage :: "string option"
  er_by :: string
  er_picker :: "string option"
  er_packer :: "string option"
  er_courier :: "string option"
  er_number :: "string option"
  er_sku :: "string option"
  er_qty :: "int option"
  er_text :: "string option"
  er_resolution :: "string option"
  er_reviewer :: "string option"
  er_reviewed :: "int option"
  er_created :: int

datatype draft_status = RD_DRAFT | RD_SUBMITTED | RD_APPROVED | RD_REJECTED | RD_POSTED

record receiving_draft =
  rd_id :: int
  rd_task :: "int option"
  rd_wh :: int
  rd_source :: string
  rd_po :: "string option"
  rd_supplier :: "string option"
  rd_state :: draft_status
  rd_by :: string
  rd_notes :: "string option"
  rd_submitted :: "int option"
  rd_reviewer :: "string option"
  rd_reviewed :: "int option"
  rd_review :: "string option"

record receiving_draft_line =
  rl_id :: int
  rl_draft :: int
  rl_sku :: string
  rl_catalog :: "int option"
  rl_name :: "string option"
  rl_expected :: "int option"
  rl_received :: int
  rl_good :: int
  rl_damaged :: int
  rl_short :: int
  rl_over :: int
  rl_notes :: "string option"

record work_sku =
  sk_id :: int
  sk_wh :: int
  sk_sku :: string
  sk_name :: string
  sk_source :: string
  sk_src_id :: "string option"
  sk_src_url :: "string option"
  sk_image :: "string option"
  sk_review :: bool
  sk_active :: bool
  sk_run :: "string option"
  sk_synced :: "int option"
  sk_by :: "string option"

record work_evidence =
  ev_id :: int
  ev_wh :: int
  ev_error :: "int option"
  ev_draft :: "int option"
  ev_line :: "int option"
  ev_key :: string
  ev_file :: string
  ev_type :: string
  ev_size :: int
  ev_note :: "string option"
  ev_by :: string
  ev_created :: int

datatype work_seq =
  WS_task | WS_note | WS_order | WS_event | WS_error | WS_draft | WS_draft_line | WS_sku | WS_evidence

record work =
  base :: db
  clock :: int
  today :: int
  wseq :: "work_seq \<Rightarrow> int"
  staff :: "employee list"
  notes_tbl :: "wnote list"
  note_orders :: "wnote_order list"
  tasks :: "wtask list"
  task_events :: "wevent list"
  worker_days :: "worker_status list"
  error_cases :: "work_error_case list"
  drafts :: "receiving_draft list"
  draft_lines :: "receiving_draft_line list"
  work_skus :: "work_sku list"
  evidence_tbl :: "work_evidence list"

text \<open>A fresh installation.\<close>

definition empty_work :: work where
  "empty_work = \<lparr>base = empty_db, clock = 0, today = 0, wseq = (\<lambda>_. 1), staff = [], notes_tbl = [], note_orders = [],
     tasks = [], task_events = [], worker_days = [], error_cases = [], drafts = [], draft_lines = [], work_skus = [],
     evidence_tbl = []\<rparr>"

definition wnextval :: "work_seq \<Rightarrow> work \<Rightarrow> int \<times> work" where
  "wnextval q w = (wseq w q, w\<lparr>wseq := (wseq w)(q := wseq w q + 1)\<rparr>)"

definition waudit :: "string \<Rightarrow> string \<Rightarrow> int \<Rightarrow> string \<Rightarrow> int \<Rightarrow> json \<Rightarrow> work \<Rightarrow> work" where
  "waudit action entity i user wh j w = w\<lparr>base := audit action entity i user wh j (base w)\<rparr>"

text \<open>The caller: \<open>g.current_user\<close> (the employee's id beside the session).\<close>

record caller =
  cr_session :: session
  cr_id :: int
  cr_pages :: "string list"
  cr_functions :: "string list"

abbreviation cr_user :: "caller \<Rightarrow> string" where
  "cr_user c \<equiv> s_user (cr_session c)"

abbreviation cr_admin :: "caller \<Rightarrow> bool" where
  "cr_admin c \<equiv> s_admin (cr_session c)"

text \<open>\<open>_can_supervise\<close>, which is also \<open>require_admin_or_page_permission("work-control")\<close>.\<close>

definition can_supervise :: "caller \<Rightarrow> bool" where
  "can_supervise c \<longleftrightarrow> cr_admin c \<or> ''work-control'' \<in> set (cr_pages c)"

definition can_receive :: "caller \<Rightarrow> bool" where
  "can_receive c \<longleftrightarrow> cr_admin c \<or> ''receive'' \<in> set (cr_functions c)"

text \<open>\<open>require_auth\<close> on a request whose body names a warehouse.\<close>

definition body_warehouse_ok :: "caller \<Rightarrow> int \<Rightarrow> bool" where
  "body_warehouse_ok c wh \<longleftrightarrow> cr_admin c \<or> wh \<in> set (s_whs (cr_session c))"

definition kind_text :: "task_kind \<Rightarrow> string" where
  "kind_text k = (case k of K_PICKING \<Rightarrow> ''PICKING'' | K_PACKING \<Rightarrow> ''PACKING'' | K_RECEIVING \<Rightarrow> ''RECEIVING''
     | K_PUTAWAY \<Rightarrow> ''PUTAWAY'' | K_STOCK_CHECK \<Rightarrow> ''STOCK_CHECK'' | K_OTHER \<Rightarrow> ''OTHER'')"

definition status_text :: "work_status \<Rightarrow> string" where
  "status_text s = (case s of W_QUEUED \<Rightarrow> ''QUEUED'' | W_ASSIGNED \<Rightarrow> ''ASSIGNED'' | W_CLAIMED \<Rightarrow> ''CLAIMED''
     | W_IN_PROGRESS \<Rightarrow> ''IN_PROGRESS'' | W_PAUSED \<Rightarrow> ''PAUSED'' | W_COMPLETED \<Rightarrow> ''COMPLETED''
     | W_CANCELLED \<Rightarrow> ''CANCELLED'')"

definition event_text :: "event_kind \<Rightarrow> string" where
  "event_text e = (case e of EV_CREATED \<Rightarrow> ''CREATED'' | EV_ASSIGNED \<Rightarrow> ''ASSIGNED'' | EV_CLAIMED \<Rightarrow> ''CLAIMED''
     | EV_VERIFIED \<Rightarrow> ''VERIFIED'' | EV_STARTED \<Rightarrow> ''STARTED'' | EV_PAUSED \<Rightarrow> ''PAUSED'' | EV_RESUMED \<Rightarrow> ''RESUMED''
     | EV_COMPLETED \<Rightarrow> ''COMPLETED'' | EV_EXCEPTION \<Rightarrow> ''EXCEPTION'' | EV_CANCELLED \<Rightarrow> ''CANCELLED''
     | EV_REOPENED \<Rightarrow> ''REOPENED'')"

section \<open>Tasks and their events\<close>

definition active_status :: "work_status \<Rightarrow> bool" where
  "active_status s \<longleftrightarrow> s = W_CLAIMED \<or> s = W_IN_PROGRESS \<or> s = W_PAUSED"

definition floor_kind :: "task_kind \<Rightarrow> bool" where
  "floor_kind k \<longleftrightarrow> k = K_PICKING \<or> k = K_PACKING"

text \<open>\<open>COALESCE(claimed_by, assigned_to)\<close>.\<close>

definition owner :: "wtask \<Rightarrow> string option" where
  "owner t = (case wt_claimed t of None \<Rightarrow> wt_assigned t | Some u \<Rightarrow> Some u)"

definition get_task :: "int \<Rightarrow> work \<Rightarrow> wtask option" where
  "get_task i w = List.find (\<lambda>t. wt_id t = i) (tasks w)"

definition get_current_task :: "string \<Rightarrow> work \<Rightarrow> wtask option" where
  "get_current_task user w =
     (case sort_key wt_id (filter (\<lambda>t. wt_claimed t = Some user \<and> active_status (wt_state t)) (tasks w)) of
        [] \<Rightarrow> None | t # _ \<Rightarrow> Some t)"

definition set_task :: "int \<Rightarrow> (wtask \<Rightarrow> wtask) \<Rightarrow> work \<Rightarrow> work" where
  "set_task i f w = w\<lparr>tasks := upd (\<lambda>t. wt_id t = i) f (tasks w)\<rparr>"

definition record_task_event ::
    "int \<Rightarrow> event_kind \<Rightarrow> string \<Rightarrow> string option \<Rightarrow> string option \<Rightarrow> json \<Rightarrow> string option \<Rightarrow> work \<Rightarrow> work" where
  "record_task_event i kind user reason notes meta device w =
     (let (e, w1) = wnextval WS_event w
      in w1\<lparr>task_events := task_events w1 @
            [\<lparr>we_id = e, we_task = i, we_kind = kind, we_user = user, we_reason = reason, we_notes = notes,
              we_meta = (if meta = JObj [] then None else Some meta), we_device = device, we_at = clock w1\<rparr>]\<rparr>)"

text \<open>The columns every new task starts with.\<close>

definition fresh_task :: "int \<Rightarrow> int \<Rightarrow> task_kind \<Rightarrow> string \<Rightarrow> int \<Rightarrow> wtask" where
  "fresh_task i wh k user n =
     \<lparr>wt_id = i, wt_batch = None, wt_wh = wh, wt_kind = k, wt_state = W_QUEUED, wt_priority = 50, wt_assigned = None,
      wt_claimed = None, wt_source = None, wt_key = None, wt_orders = 0, wt_skus = 0, wt_units = 0, wt_level = 2,
      wt_note = None, wt_estimate = None, wt_reason = None, wt_assigned_at = None, wt_assigned_by = None, wt_available = n,
      wt_claimed_at = None, wt_started = None, wt_completed = None, wt_active_from = None, wt_pause_from = None,
      wt_active = 0, wt_paused = 0, wt_created_by = user\<rparr>"

section \<open>Claiming the next task\<close>

text \<open>The worker's availability row of today, if any.\<close>

definition worker_unavailable :: "int \<Rightarrow> string \<Rightarrow> work \<Rightarrow> bool" where
  "worker_unavailable wh user w \<longleftrightarrow>
     (case [x. x \<leftarrow> worker_days w, e \<leftarrow> staff w, em_id e = ws_user x \<and> em_name e = user \<and> ws_wh x = wh \<and> ws_date x = today w] of
        [] \<Rightarrow> False | x # _ \<Rightarrow> ws_state x \<noteq> AV_AVAILABLE)"

text \<open>The other half of a Pack Note: picking and packing of one batch.\<close>

definition counterpart_of :: "wtask \<Rightarrow> wtask \<Rightarrow> bool" where
  "counterpart_of t c \<longleftrightarrow> wt_batch t \<noteq> None \<and> wt_batch c = wt_batch t \<and> floor_kind (wt_kind t)
     \<and> floor_kind (wt_kind c) \<and> wt_kind c \<noteq> wt_kind t"

definition holds_counterpart :: "wtask \<Rightarrow> string \<Rightarrow> work \<Rightarrow> bool" where
  "holds_counterpart t user w \<longleftrightarrow> (\<exists>c \<in> set (tasks w). counterpart_of t c \<and> owner c = Some user)"

definition claimable :: "int \<Rightarrow> string \<Rightarrow> task_kind list option \<Rightarrow> work \<Rightarrow> wtask \<Rightarrow> bool" where
  "claimable wh user kinds w t \<longleftrightarrow>
     wt_wh t = wh \<and> (wt_state t = W_QUEUED \<or> wt_state t = W_ASSIGNED) \<and> wt_available t \<le> clock w
     \<and> (wt_assigned t = None \<or> wt_assigned t = Some user) \<and> \<not> holds_counterpart t user w
     \<and> (case kinds of None \<Rightarrow> True | Some ks \<Rightarrow> ks = [] \<or> wt_kind t \<in> set ks)"

definition next_claimable :: "int \<Rightarrow> string \<Rightarrow> task_kind list option \<Rightarrow> work \<Rightarrow> wtask option" where
  "next_claimable wh user kinds w =
     (case sort_key (\<lambda>t. (if wt_assigned t = Some user then 0 else 1 :: int, - wt_priority t, wt_available t, wt_id t))
             (filter (claimable wh user kinds w) (tasks w)) of
        [] \<Rightarrow> None | t # _ \<Rightarrow> Some t)"

definition open_note :: "int option \<Rightarrow> work \<Rightarrow> work" where
  "open_note b w =
     w\<lparr>notes_tbl := upd (\<lambda>n. Some (wn_id n) = b \<and> wn_state n = NB_OPEN) (\<lambda>n. n\<lparr>wn_state := NB_IN_PROGRESS\<rparr>) (notes_tbl w)\<rparr>"

definition claim_task :: "wtask \<Rightarrow> int \<Rightarrow> string \<Rightarrow> string option \<Rightarrow> work \<Rightarrow> work" where
  "claim_task t wh user device w =
     waudit ''WORK_TASK_CLAIMED'' ''WORK_TASK'' (wt_id t) user wh
       (JObj [(''task_type'', JStr (kind_text (wt_kind t))), (''batch_id'', jopt JInt (wt_batch t))])
       (open_note (wt_batch t)
         (record_task_event (wt_id t) EV_CLAIMED user None None (JObj [(''auto_assigned'', JBool True)]) device
           (set_task (wt_id t) (\<lambda>x. x\<lparr>wt_state := W_CLAIMED, wt_claimed := Some user, wt_claimed_at := Some (clock w)\<rparr>) w)))"

text \<open>The current or the newly claimed task, and whether it is new. \<open>SKIP LOCKED\<close> has no counterpart
  in serialised transactions.\<close>

definition claim_next_task ::
    "int \<Rightarrow> string \<Rightarrow> task_kind list option \<Rightarrow> string option \<Rightarrow> work \<Rightarrow> (wtask option \<times> bool) \<times> work" where
  "claim_next_task wh user kinds device w =
     (case get_current_task user w of
        Some t \<Rightarrow> ((Some t, False), w)
      | None \<Rightarrow>
          if worker_unavailable wh user w then ((None, False), w)
          else
            (case next_claimable wh user kinds w of
               None \<Rightarrow> ((None, False), w)
             | Some t \<Rightarrow> let w1 = claim_task t wh user device w in ((get_task (wt_id t) w1, True), w1)))"

section \<open>Transitions\<close>

datatype work_action = A_START | A_PAUSE | A_RESUME | A_COMPLETE | A_EXCEPTION | A_CANCEL

datatype work_error =
  WE_task_not_found
| WE_not_claimed_by_you
| WE_wrong_status work_action work_status
| WE_admin_only
| WE_not_verified
| WE_kind_not_granted "task_kind list"
| WE_denied
| WE_no_note_needed
| WE_cannot_verify work_status
| WE_not_in_note

definition allowed_from :: "work_action \<Rightarrow> work_status \<Rightarrow> bool" where
  "allowed_from a s \<longleftrightarrow>
     (case a of
        A_START \<Rightarrow> s = W_CLAIMED
      | A_PAUSE \<Rightarrow> s = W_IN_PROGRESS
      | A_RESUME \<Rightarrow> s = W_PAUSED
      | A_COMPLETE \<Rightarrow> s = W_IN_PROGRESS
      | A_CANCEL \<Rightarrow> s = W_QUEUED \<or> s = W_ASSIGNED \<or> active_status s
      | A_EXCEPTION \<Rightarrow> active_status s)"

definition next_status :: "work_action \<Rightarrow> work_status" where
  "next_status a = (case a of A_PAUSE \<Rightarrow> W_PAUSED | A_COMPLETE \<Rightarrow> W_COMPLETED | A_CANCEL \<Rightarrow> W_CANCELLED | _ \<Rightarrow> W_IN_PROGRESS)"

definition action_event :: "work_action \<Rightarrow> event_kind" where
  "action_event a = (case a of A_START \<Rightarrow> EV_STARTED | A_PAUSE \<Rightarrow> EV_PAUSED | A_RESUME \<Rightarrow> EV_RESUMED
     | A_COMPLETE \<Rightarrow> EV_COMPLETED | A_EXCEPTION \<Rightarrow> EV_EXCEPTION | A_CANCEL \<Rightarrow> EV_CANCELLED)"

text \<open>\<open>GREATEST(0, EXTRACT(EPOCH FROM (NOW() - t))::int)\<close>: whole seconds, rounded to the nearest;
  \<open>GREATEST\<close> ignores the NULL of a missing start.\<close>

definition seconds_since :: "int option \<Rightarrow> int \<Rightarrow> int" where
  "seconds_since t n = (case t of None \<Rightarrow> 0 | Some s \<Rightarrow> if n \<le> s then 0 else (n - s + 500000) div 1000000)"

definition apply_action :: "work_action \<Rightarrow> int \<Rightarrow> wtask \<Rightarrow> wtask" where
  "apply_action a n t =
     (case a of
        A_START \<Rightarrow> t\<lparr>wt_state := W_IN_PROGRESS, wt_started := (case wt_started t of None \<Rightarrow> Some n | Some s \<Rightarrow> Some s),
                     wt_active_from := Some n, wt_pause_from := None\<rparr>
      | A_PAUSE \<Rightarrow> t\<lparr>wt_state := W_PAUSED, wt_active := wt_active t + seconds_since (wt_active_from t) n,
                     wt_active_from := None, wt_pause_from := Some n\<rparr>
      | A_RESUME \<Rightarrow> t\<lparr>wt_state := W_IN_PROGRESS, wt_paused := wt_paused t + seconds_since (wt_pause_from t) n,
                      wt_pause_from := None, wt_active_from := Some n\<rparr>
      | A_COMPLETE \<Rightarrow> t\<lparr>wt_state := W_COMPLETED, wt_completed := Some n,
                        wt_active := wt_active t + seconds_since (wt_active_from t) n,
                        wt_active_from := None, wt_pause_from := None\<rparr>
      | A_CANCEL \<Rightarrow> t\<lparr>wt_state := W_CANCELLED, wt_completed := Some n,
                      wt_active := wt_active t + (if wt_state t = W_IN_PROGRESS then seconds_since (wt_active_from t) n else 0),
                      wt_paused := wt_paused t + (if wt_state t = W_PAUSED then seconds_since (wt_pause_from t) n else 0),
                      wt_active_from := None, wt_pause_from := None\<rparr>
      | A_EXCEPTION \<Rightarrow> t)"

definition verified :: "int \<Rightarrow> string \<Rightarrow> work \<Rightarrow> bool" where
  "verified i user w \<longleftrightarrow> (\<exists>e \<in> set (task_events w). we_task e = i \<and> we_kind e = EV_VERIFIED \<and> we_user e = user)"

definition terminal :: "work_status \<Rightarrow> bool" where
  "terminal s \<longleftrightarrow> s = W_COMPLETED \<or> s = W_CANCELLED"

text \<open>The batch is completed with its last open task.\<close>

definition close_note :: "int option \<Rightarrow> work \<Rightarrow> work" where
  "close_note b w =
     (if b \<noteq> None \<and> \<not> (\<exists>t \<in> set (tasks w). wt_batch t = b \<and> \<not> terminal (wt_state t))
      then w\<lparr>notes_tbl := upd (\<lambda>n. Some (wn_id n) = b) (\<lambda>n. n\<lparr>wn_state := NB_COMPLETED\<rparr>) (notes_tbl w)\<rparr>
      else w)"

definition note_json :: "string option \<Rightarrow> string option \<Rightarrow> (string \<times> json) list" where
  "note_json reason notes = [(''reason_code'', jopt JStr reason), (''notes'', jopt JStr notes)]"

definition transition_task ::
    "int \<Rightarrow> string \<Rightarrow> work_action \<Rightarrow> bool \<Rightarrow> string option \<Rightarrow> string option \<Rightarrow> string option \<Rightarrow> work
      \<Rightarrow> work_error + (wtask \<times> work)" where
  "transition_task i user a admin reason notes device w =
     (case get_task i w of
        None \<Rightarrow> Inl WE_task_not_found
      | Some t \<Rightarrow>
          if \<not> admin \<and> wt_claimed t \<noteq> Some user then Inl WE_not_claimed_by_you
          else if \<not> allowed_from a (wt_state t) then Inl (WE_wrong_status a (wt_state t))
          else if a = A_EXCEPTION
          then
            let w1 = waudit ''WORK_TASK_EXCEPTION'' ''WORK_TASK'' i user (wt_wh t) (JObj (note_json reason notes))
                       (record_task_event i EV_EXCEPTION user reason notes (JObj []) device w)
            in Inr (t, w1)
          else if a = A_CANCEL \<and> \<not> admin then Inl WE_admin_only
          else if a = A_START \<and> floor_kind (wt_kind t) \<and> \<not> verified i user w then Inl WE_not_verified
          else
            let w1 = record_task_event i (action_event a) user reason notes (JObj []) device
                       (set_task i (apply_action a (clock w)) w);
                w2 = waudit (''WORK_TASK_'' @ event_text (action_event a)) ''WORK_TASK'' i user (wt_wh t)
                       (JObj ([(''from_status'', JStr (status_text (wt_state t))),
                               (''to_status'', JStr (status_text (next_status a)))] @ note_json reason notes)) w1;
                w3 = (if terminal (next_status a) then close_note (wt_batch t) w2 else w2)
            in Inr (the (get_task i w3), w3))"

section \<open>The task routes\<close>

definition granted_kinds :: "string list \<Rightarrow> task_kind list" where
  "granted_kinds fs = map snd (filter (\<lambda>x. fst x \<in> set fs)
     [(''pack'', K_PACKING), (''pick'', K_PICKING), (''putaway'', K_PUTAWAY), (''receive'', K_RECEIVING),
      (''count'', K_STOCK_CHECK)])"

text \<open>\<open>_authorized_task_types\<close>: the kinds an employee may claim; \<open>sorted\<close> orders them by their text.\<close>

definition authorized_task_types ::
    "caller \<Rightarrow> task_kind list option \<Rightarrow> work \<Rightarrow> work_error + task_kind list option" where
  "authorized_task_types c requested w =
     (if cr_admin c then Inr requested
      else
        let fs = (case List.find (\<lambda>e. em_id e = cr_id c) (staff w) of None \<Rightarrow> [] | Some e \<Rightarrow> em_functions e);
            allowed = granted_kinds fs
        in (case requested of
              None \<Rightarrow> Inr (Some allowed)
            | Some ks \<Rightarrow> if set ks \<subseteq> set allowed then Inr (Some ks)
                         else Inl (WE_kind_not_granted (filter (\<lambda>k. k \<notin> set allowed) ks))))"

definition claim_next ::
    "caller \<Rightarrow> int \<Rightarrow> task_kind list option \<Rightarrow> string option \<Rightarrow> work \<Rightarrow> work_error + ((wtask option \<times> bool) \<times> work)" where
  "claim_next c wh requested device w =
     (if \<not> body_warehouse_ok c wh then Inl WE_denied
      else case authorized_task_types c requested w of
        Inl e \<Rightarrow> Inl e
      | Inr kinds \<Rightarrow>
          if kinds = Some [] then Inr ((None, False), w)
          else Inr (claim_next_task wh (cr_user c) kinds device w))"

text \<open>A transition may claim the next task in the same transaction.\<close>

definition task_transition ::
    "caller \<Rightarrow> int \<Rightarrow> work_action \<Rightarrow> string option \<Rightarrow> string option \<Rightarrow> string option \<Rightarrow> bool \<Rightarrow> task_kind list option
      \<Rightarrow> work \<Rightarrow> work_error + ((wtask \<times> wtask option) \<times> work)" where
  "task_transition c i a reason notes device claim_more requested w =
     (case get_task i w of
        None \<Rightarrow> Inl WE_task_not_found
      | Some t \<Rightarrow>
          if \<not> check_warehouse_access (cr_session c) (Some (wt_wh t)) then Inl WE_denied
          else
            (case transition_task i (cr_user c) a (cr_admin c) reason notes device w of
               Inl e \<Rightarrow> Inl e
             | Inr (u, w1) \<Rightarrow>
                 if a = A_COMPLETE \<and> claim_more
                 then
                   (case authorized_task_types c requested w1 of
                      Inl e \<Rightarrow> Inl e
                    | Inr kinds \<Rightarrow>
                        let ((nx, _), w2) = claim_next_task (wt_wh u) (cr_user c) kinds device w1
                        in Inr ((u, nx), w2))
                 else Inr ((u, None), w1)))"

text \<open>The scan of a Pack Note, a courier label or an order number of the task's batch. The row is the
  batch alone or its first matching order; a matching order sorts after no order at all.\<close>

definition matched_order :: "int option \<Rightarrow> string \<Rightarrow> work \<Rightarrow> (wnote_order option \<times> string) option" where
  "matched_order b code w =
     (case filter (\<lambda>n. Some (wn_id n) = b) (notes_tbl w) of
        [] \<Rightarrow> None
      | n # _ \<Rightarrow>
          let os = sort_key wo_id (filter (\<lambda>r. wo_note r = wn_id n \<and> (wo_courier r = Some code \<or> wo_number r = code))
                     (note_orders w));
              kind = (\<lambda>r. if wn_ref n = code then ''PACK_NOTE''
                          else if wo_courier r = Some code then ''COURIER_BARCODE'' else ''ORDER_NUMBER'')
          in (case os of
                [] \<Rightarrow> if wn_ref n = code then Some (None, ''PACK_NOTE'') else None
              | r # _ \<Rightarrow> Some (Some r, kind r)))"

definition verify_task_scan ::
    "caller \<Rightarrow> int \<Rightarrow> string \<Rightarrow> string option \<Rightarrow> work \<Rightarrow> work_error + ((wnote_order option \<times> string) \<times> work)" where
  "verify_task_scan c i code device w =
     (case get_task i w of
        None \<Rightarrow> Inl WE_task_not_found
      | Some t \<Rightarrow>
          if \<not> check_warehouse_access (cr_session c) (Some (wt_wh t)) then Inl WE_denied
          else if \<not> floor_kind (wt_kind t) then Inl WE_no_note_needed
          else if wt_state t \<noteq> W_CLAIMED then Inl (WE_cannot_verify (wt_state t))
          else if \<not> cr_admin c \<and> wt_claimed t \<noteq> Some (cr_user c) then Inl WE_not_claimed_by_you
          else
            (case matched_order (wt_batch t) code w of
               None \<Rightarrow> Inl WE_not_in_note
             | Some (r, kind) \<Rightarrow>
                 if verified i (cr_user c) w then Inr ((r, kind), w)
                 else
                   let w1 = record_task_event i EV_VERIFIED (cr_user c) (Some ''BATCH_BARCODE_SCANNED'')
                         (Some (''Scanned '' @ code))
                         (JObj [(''batch_order_id'', jopt (\<lambda>r. JInt (wo_id r)) r),
                                (''order_number'', jopt (\<lambda>r. JStr (wo_number r)) r), (''scan_kind'', JStr kind)]) device w
                   in Inr ((r, kind),
                        waudit ''WORK_TASK_BATCH_VERIFIED'' ''WORK_TASK'' i (cr_user c) (wt_wh t)
                          (JObj [(''batch_id'', jopt JInt (wt_batch t)), (''batch_order_id'', jopt (\<lambda>r. JInt (wo_id r)) r),
                                 (''scan_kind'', JStr kind)]) w1)))"

section \<open>What every history of the work tables keeps\<close>

text \<open>The columns that go with each status.\<close>

definition lifecycle :: "wtask \<Rightarrow> bool" where
  "lifecycle t \<longleftrightarrow>
     (case wt_state t of
        W_QUEUED \<Rightarrow> wt_assigned t = None \<and> wt_claimed t = None
      | W_ASSIGNED \<Rightarrow> wt_assigned t \<noteq> None \<and> wt_claimed t = None
      | W_COMPLETED \<Rightarrow> wt_claimed t \<noteq> None
      | W_CANCELLED \<Rightarrow> True
      | _ \<Rightarrow> wt_claimed t \<noteq> None)"

text \<open>The clock has stopped this many times for the task: each stop rounds once.\<close>

definition stops :: "int \<Rightarrow> work \<Rightarrow> int" where
  "stops i w = int (length (filter (\<lambda>e. we_task e = i \<and> we_kind e \<in> {EV_PAUSED, EV_RESUMED, EV_COMPLETED, EV_CANCELLED})
     (task_events w)))"

text \<open>The seconds booked up to the moment \<open>x\<close> agree with the time since the start, up to half a second
  for each stop.\<close>

definition booked :: "int \<Rightarrow> int \<Rightarrow> int \<Rightarrow> wtask \<Rightarrow> bool" where
  "booked k s x t \<longleftrightarrow> s \<le> x \<and> 0 \<le> wt_active t \<and> 0 \<le> wt_paused t
     \<and> \<bar>1000000 * (wt_active t + wt_paused t) - (x - s)\<bar> \<le> 500000 * k"

definition timed :: "int \<Rightarrow> int \<Rightarrow> wtask \<Rightarrow> bool" where
  "timed m k t \<longleftrightarrow>
     (case wt_started t of
        None \<Rightarrow> wt_active t = 0 \<and> wt_paused t = 0 \<and> wt_active_from t = None \<and> wt_pause_from t = None
          \<and> wt_state t \<notin> {W_IN_PROGRESS, W_PAUSED, W_COMPLETED}
      | Some s \<Rightarrow>
          (case wt_state t of
             W_IN_PROGRESS \<Rightarrow> wt_pause_from t = None \<and>
               (case wt_active_from t of None \<Rightarrow> False | Some x \<Rightarrow> x \<le> m \<and> booked k s x t)
           | W_PAUSED \<Rightarrow> wt_active_from t = None \<and>
               (case wt_pause_from t of None \<Rightarrow> False | Some x \<Rightarrow> x \<le> m \<and> booked k s x t)
           | W_COMPLETED \<Rightarrow> (case wt_completed t of None \<Rightarrow> False | Some x \<Rightarrow> booked k s x t)
           | W_CANCELLED \<Rightarrow> (case wt_completed t of None \<Rightarrow> False | Some x \<Rightarrow> booked k s x t)
           | _ \<Rightarrow> False))"

definition keys_ok :: "work \<Rightarrow> bool" where
  "keys_ok w \<longleftrightarrow> distinct (map wt_id (tasks w)) \<and> (\<forall>t \<in> set (tasks w). wt_id t < wseq w WS_task)
     \<and> distinct (map wn_id (notes_tbl w)) \<and> (\<forall>n \<in> set (notes_tbl w). wn_id n < wseq w WS_note)"

definition note_of :: "int \<Rightarrow> work \<Rightarrow> wnote option" where
  "note_of b w = List.find (\<lambda>n. wn_id n = b) (notes_tbl w)"

text \<open>A batch's tasks are in the batch's warehouse.\<close>

definition housed :: "work \<Rightarrow> bool" where
  "housed w \<longleftrightarrow> (\<forall>t \<in> set (tasks w). \<forall>b. wt_batch t = Some b \<longrightarrow> Some (wt_wh t) = map_option wn_wh (note_of b w))"

definition one_active :: "work \<Rightarrow> bool" where
  "one_active w \<longleftrightarrow> (\<forall>t \<in> set (tasks w). \<forall>c \<in> set (tasks w).
     active_status (wt_state t) \<longrightarrow> active_status (wt_state c) \<longrightarrow> wt_claimed t = wt_claimed c \<longrightarrow> wt_id t = wt_id c)"

text \<open>The picker and the packer of a batch are two people. The empty name is nobody's: see
  \<^verbatim>\<open>blank_assignee_strands_task\<close>.\<close>

definition apart :: "work \<Rightarrow> bool" where
  "apart w \<longleftrightarrow> (\<forall>t \<in> set (tasks w). \<forall>c \<in> set (tasks w). counterpart_of t c \<longrightarrow>
     (\<forall>u. owner t = Some u \<longrightarrow> u \<noteq> '''' \<longrightarrow> owner c \<noteq> Some u))"

text \<open>Picking and packing only start once a barcode of the batch has been scanned.\<close>

definition scanned :: "work \<Rightarrow> wtask \<Rightarrow> bool" where
  "scanned w t \<longleftrightarrow> floor_kind (wt_kind t) \<longrightarrow> wt_started t \<noteq> None \<longrightarrow> (\<exists>e \<in> set (task_events w). we_task e = wt_id t \<and> we_kind e = EV_VERIFIED)"

definition work_ok :: "work \<Rightarrow> bool" where
  "work_ok w \<longleftrightarrow> keys_ok w \<and> housed w \<and> one_active w \<and> apart w
     \<and> (\<forall>t \<in> set (tasks w). lifecycle t \<and> timed (clock w) (stops (wt_id t) w) t \<and> scanned w t)"

lemma note_of_map:
  assumes "map (\<lambda>n. (wn_id n, wn_wh n)) (notes_tbl w') = map (\<lambda>n. (wn_id n, wn_wh n)) (notes_tbl w)"
  shows "map_option wn_wh (note_of b w') = map_option wn_wh (note_of b w)"
proof -
  have "map_option wn_wh (List.find (\<lambda>n. wn_id n = b) ns) = map_of (map (\<lambda>n. (wn_id n, wn_wh n)) ns) b"
    for ns :: "wnote list"
    by (induction ns) auto
  with assms show ?thesis by (simp add: note_of_def)
qed

lemma timed_mono: "timed n k t \<Longrightarrow> n \<le> n' \<Longrightarrow> k \<le> k' \<Longrightarrow> timed n' k' t"
  unfolding timed_def booked_def by (auto split: option.splits work_status.splits)

text \<open>What every operation keeps of the other tables.\<close>

definition kept :: "work \<Rightarrow> work \<Rightarrow> bool" where
  "kept w w' \<longleftrightarrow> map (\<lambda>n. (wn_id n, wn_wh n)) (notes_tbl w') = map (\<lambda>n. (wn_id n, wn_wh n)) (notes_tbl w)
     \<and> clock w \<le> clock w' \<and> wseq w WS_task \<le> wseq w' WS_task \<and> wseq w WS_note \<le> wseq w' WS_note
     \<and> (\<forall>i. stops i w \<le> stops i w') \<and> set (task_events w) \<subseteq> set (task_events w')"

text \<open>A change that leaves the tasks alone.\<close>

definition same_tasks :: "work \<Rightarrow> work \<Rightarrow> bool" where
  "same_tasks w w' \<longleftrightarrow> tasks w' = tasks w \<and> kept w w'"

lemma kept_work_refl [simp]: "kept w w"
  by (simp add: kept_def)

lemma kept_work_trans: "kept u v \<Longrightarrow> kept v w \<Longrightarrow> kept u w"
  unfolding kept_def by (auto intro: order_trans)

lemma same_tasks_refl [simp]: "same_tasks w w"
  by (simp add: same_tasks_def)

lemma same_tasks_trans: "same_tasks u v \<Longrightarrow> same_tasks v w \<Longrightarrow> same_tasks u w"
  unfolding same_tasks_def by (auto intro: kept_work_trans)

lemma note_keys:
  assumes "map (\<lambda>n. (wn_id n, wn_wh n)) (notes_tbl w') = map (\<lambda>n. (wn_id n, wn_wh n)) (notes_tbl w)"
  shows "map wn_id (notes_tbl w') = map wn_id (notes_tbl w)"
  using arg_cong [OF assms, of "map fst"] by (simp add: comp_def)

lemma note_ids: "(\<forall>n \<in> set ns. wn_id n < m) \<longleftrightarrow> (\<forall>i \<in> set (map wn_id ns). i < m)"
  by simp

lemma scanned_mono: "scanned w t \<Longrightarrow> set (task_events w) \<subseteq> set (task_events w') \<Longrightarrow> scanned w' t"
  unfolding scanned_def by blast

lemma keys_ok_mono:
  assumes "keys_ok w" "map wt_id (tasks w') = map wt_id (tasks w)"
    "map (\<lambda>n. (wn_id n, wn_wh n)) (notes_tbl w') = map (\<lambda>n. (wn_id n, wn_wh n)) (notes_tbl w)"
    "wseq w WS_task \<le> wseq w' WS_task" "wseq w WS_note \<le> wseq w' WS_note"
  shows "keys_ok w'"
proof -
  have t: "(\<forall>t \<in> set ts. wt_id t < m) \<longleftrightarrow> (\<forall>i \<in> set (map wt_id ts). i < m)" for ts :: "wtask list" and m by simp
  have "\<forall>i \<in> set (map wt_id (tasks w')). i < wseq w' WS_task"
    unfolding assms(2) using assms(1,4) unfolding keys_ok_def by fastforce
  moreover have "\<forall>i \<in> set (map wn_id (notes_tbl w')). i < wseq w' WS_note"
    unfolding note_keys [OF assms(3)] using assms(1,5) unfolding keys_ok_def by fastforce
  ultimately show ?thesis
    using assms(1) unfolding keys_ok_def t note_ids assms(2) note_keys [OF assms(3)] by blast
qed

lemma same_tasks_ok:
  assumes ok: "work_ok w" and s: "same_tasks w w'"
  shows "work_ok w'"
proof -
  have k: "keys_ok w" and h: "housed w" and a: "one_active w" "apart w" 
    and l: "\<forall>t \<in> set (tasks w). lifecycle t \<and> timed (clock w) (stops (wt_id t) w) t \<and> scanned w t"
    using ok unfolding work_ok_def by blast+
  have e: "tasks w' = tasks w"
    and m: "map (\<lambda>n. (wn_id n, wn_wh n)) (notes_tbl w') = map (\<lambda>n. (wn_id n, wn_wh n)) (notes_tbl w)"
    and c: "clock w \<le> clock w'" and q: "wseq w WS_task \<le> wseq w' WS_task" "wseq w WS_note \<le> wseq w' WS_note"
    and r: "stops i w \<le> stops i w'" and ev: "set (task_events w) \<subseteq> set (task_events w')" for i
    using s unfolding same_tasks_def kept_def by blast+
  have "keys_ok w'" by (rule keys_ok_mono [OF k _ m q]) (simp add: e)
  moreover have "housed w'" using h note_of_map [OF m] by (simp add: housed_def e)
  moreover have "one_active w'" "apart w'" using a unfolding one_active_def apart_def e .
  moreover have "\<forall>t \<in> set (tasks w'). lifecycle t \<and> timed (clock w') (stops (wt_id t) w') t \<and> scanned w' t"
  proof
    fix t assume "t \<in> set (tasks w')"
    with l e have "lifecycle t" "timed (clock w) (stops (wt_id t) w) t" "scanned w t" by simp_all
    with timed_mono [OF this(2) c r [of "wt_id t"]] scanned_mono [OF this(3) ev]
    show "lifecycle t \<and> timed (clock w') (stops (wt_id t) w') t \<and> scanned w' t" by simp
  qed
  ultimately show ?thesis by (simp add: work_ok_def)
qed

lemma stops_append:
  "task_events w' = task_events w @ [e] \<Longrightarrow> stops i w' = stops i w +
     (if we_task e = i \<and> we_kind e \<in> {EV_PAUSED, EV_RESUMED, EV_COMPLETED, EV_CANCELLED} then 1 else 0)"
  by (simp add: stops_def)

lemma stops_record:
  "stops j (record_task_event i kind user reason notes meta device w) = stops j w +
     (if i = j \<and> kind \<in> {EV_PAUSED, EV_RESUMED, EV_COMPLETED, EV_CANCELLED} then 1 else 0)"
  by (subst stops_append [of _ w]) (auto simp: record_task_event_def wnextval_def)

lemma stops_same: "task_events w' = task_events w \<Longrightarrow> stops i w' = stops i w"
  by (simp add: stops_def)

lemma record_task_event_fields [simp]:
  "tasks (record_task_event i kind user reason notes meta device w) = tasks w"
  "notes_tbl (record_task_event i kind user reason notes meta device w) = notes_tbl w"
  "clock (record_task_event i kind user reason notes meta device w) = clock w"
  "today (record_task_event i kind user reason notes meta device w) = today w"
  "staff (record_task_event i kind user reason notes meta device w) = staff w"
  "worker_days (record_task_event i kind user reason notes meta device w) = worker_days w"
  "base (record_task_event i kind user reason notes meta device w) = base w"
  "note_orders (record_task_event i kind user reason notes meta device w) = note_orders w"
  "wseq (record_task_event i kind user reason notes meta device w) = (wseq w)(WS_event := wseq w WS_event + 1)"
  by (simp_all add: record_task_event_def wnextval_def)

lemma waudit_fields [simp]:
  "tasks (waudit a e i u wh j w) = tasks w" "notes_tbl (waudit a e i u wh j w) = notes_tbl w"
  "clock (waudit a e i u wh j w) = clock w" "today (waudit a e i u wh j w) = today w"
  "staff (waudit a e i u wh j w) = staff w" "worker_days (waudit a e i u wh j w) = worker_days w"
  "note_orders (waudit a e i u wh j w) = note_orders w" "task_events (waudit a e i u wh j w) = task_events w"
  "wseq (waudit a e i u wh j w) = wseq w"
  by (simp_all add: waudit_def)

lemma stops_update [simp]:
  "stops i (waudit a e j u wh x w) = stops i w" "stops i (set_task j f w) = stops i w"
  "stops i (open_note b w) = stops i w" "stops i (close_note b w) = stops i w"
  by (rule stops_same, simp add: waudit_def set_task_def open_note_def close_note_def)+

lemma open_note_fields [simp]:
  "tasks (open_note b w) = tasks w" "clock (open_note b w) = clock w" "today (open_note b w) = today w"
  "staff (open_note b w) = staff w" "worker_days (open_note b w) = worker_days w" "wseq (open_note b w) = wseq w"
  "note_orders (open_note b w) = note_orders w" "task_events (open_note b w) = task_events w" "base (open_note b w) = base w"
  by (simp_all add: open_note_def)

lemma close_note_fields [simp]:
  "tasks (close_note b w) = tasks w" "clock (close_note b w) = clock w" "today (close_note b w) = today w"
  "staff (close_note b w) = staff w" "worker_days (close_note b w) = worker_days w" "wseq (close_note b w) = wseq w"
  "note_orders (close_note b w) = note_orders w" "task_events (close_note b w) = task_events w" "base (close_note b w) = base w"
  by (simp_all add: close_note_def)

lemma note_status_same:
  "(\<And>n. wn_id (f n) = wn_id n \<and> wn_wh (f n) = wn_wh n) \<Longrightarrow>
     map (\<lambda>n. (wn_id n, wn_wh n)) (upd P f ns) = map (\<lambda>n. (wn_id n, wn_wh n)) ns"
  by (rule map_upd_same) simp

lemma same_tasks_event: "same_tasks w (record_task_event i kind user reason notes meta device w)"
  by (simp add: same_tasks_def kept_def stops_record) (auto simp: record_task_event_def wnextval_def)

lemma same_tasks_audit: "same_tasks w (waudit a e i u wh j w)"
  by (simp add: same_tasks_def kept_def)

lemma same_tasks_open_note: "same_tasks w (open_note b w)"
  by (simp add: same_tasks_def kept_def) (simp add: open_note_def note_status_same)

lemma same_tasks_close_note: "same_tasks w (close_note b w)"
  by (simp add: same_tasks_def kept_def) (simp add: close_note_def note_status_same)

lemmas quiet_steps = same_tasks_event same_tasks_audit same_tasks_open_note same_tasks_close_note

lemmas quiet_kept = quiet_steps [unfolded same_tasks_def, THEN conjunct2]

lemma set_task_fields [simp]:
  "tasks (set_task i f w) = upd (\<lambda>t. wt_id t = i) f (tasks w)" "notes_tbl (set_task i f w) = notes_tbl w"
  "clock (set_task i f w) = clock w" "today (set_task i f w) = today w" "staff (set_task i f w) = staff w"
  "worker_days (set_task i f w) = worker_days w" "note_orders (set_task i f w) = note_orders w"
  "task_events (set_task i f w) = task_events w" "wseq (set_task i f w) = wseq w" "base (set_task i f w) = base w"
  by (simp_all add: set_task_def)

lemma kept_set_task: "kept w (set_task i f w)"
  by (simp add: kept_def)

lemma get_task_in: "get_task i w = Some t \<Longrightarrow> t \<in> set (tasks w) \<and> wt_id t = i"
  unfolding get_task_def by (rule find_Some_iff_first)

lemma get_task_key: "keys_ok w \<Longrightarrow> t \<in> set (tasks w) \<Longrightarrow> get_task (wt_id t) w = Some t"
  unfolding get_task_def keys_ok_def by (blast intro: find_key)

lemma get_task_set:
  "(\<And>t. wt_id (f t) = wt_id t) \<Longrightarrow>
     get_task j (set_task i f w) = map_option (\<lambda>t. if wt_id t = i then f t else t) (get_task j w)"
  by (simp add: get_task_def find_upd)

text \<open>The columns of a task that no operation writes.\<close>

definition fixed_columns :: "(wtask \<Rightarrow> wtask) \<Rightarrow> bool" where
  "fixed_columns f \<longleftrightarrow> (\<forall>t. wt_id (f t) = wt_id t \<and> wt_batch (f t) = wt_batch t \<and> wt_wh (f t) = wt_wh t \<and> wt_kind (f t) = wt_kind t)"

text \<open>\<open>f\<close> is written over the row \<open>t\<close>.\<close>

definition written :: "wtask \<Rightarrow> (wtask \<Rightarrow> wtask) \<Rightarrow> work \<Rightarrow> work \<Rightarrow> bool" where
  "written t f w w' \<longleftrightarrow> t \<in> set (tasks w) \<and> distinct (map wt_id (tasks w)) \<and> fixed_columns f
     \<and> tasks w' = upd (\<lambda>x. wt_id x = wt_id t) f (tasks w)"

lemma written_fixed:
  "written t f w w' \<Longrightarrow> wt_id (f x) = wt_id x \<and> wt_batch (f x) = wt_batch x \<and> wt_wh (f x) = wt_wh x \<and> wt_kind (f x) = wt_kind x"
  unfolding written_def fixed_columns_def by blast

lemma written_rows:
  assumes wr: "written t f w w'" and x': "x' \<in> set (tasks w')"
  obtains (new) "x' = f t" | (old) "x' \<in> set (tasks w)" "wt_id x' \<noteq> wt_id t"
proof -
  from wr x' obtain x where x: "x \<in> set (tasks w)" "x' = (if wt_id x = wt_id t then f x else x)"
    unfolding written_def by (auto simp: set_upd)
  show thesis
  proof (cases "wt_id x = wt_id t")
    case True
    with wr x key_inj [of wt_id "tasks w" x t] new show ?thesis unfolding written_def by simp
  next
    case False
    with x old show ?thesis by simp
  qed
qed

lemma housed_write:
  assumes wr: "written t f w w'" and h: "housed w" and kp: "kept w w'"
  shows "housed w'"
  unfolding housed_def
proof (intro ballI allI impI)
  fix x b assume x: "x \<in> set (tasks w')" "wt_batch x = Some b"
  obtain x0 where "x0 \<in> set (tasks w)" "wt_batch x0 = wt_batch x" "wt_wh x0 = wt_wh x"
    using written_rows [OF wr x(1)] written_fixed [OF wr] wr unfolding written_def by metis
  with h x(2) have "Some (wt_wh x) = map_option wn_wh (note_of b w)" unfolding housed_def by metis
  with kp note_of_map [of w' w b] show "Some (wt_wh x) = map_option wn_wh (note_of b w')" by (simp add: kept_def)
qed

lemma one_active_write:
  assumes wr: "written t f w w'" and a: "one_active w"
    and act: "active_status (wt_state (f t)) \<Longrightarrow>
        active_status (wt_state t) \<and> wt_claimed (f t) = wt_claimed t
        \<or> (\<forall>c \<in> set (tasks w). active_status (wt_state c) \<longrightarrow> wt_claimed c \<noteq> wt_claimed (f t))"
  shows "one_active w'"
  unfolding one_active_def
proof (intro ballI impI)
  fix x y
  assume xy: "x \<in> set (tasks w')" "y \<in> set (tasks w')" "active_status (wt_state x)" "active_status (wt_state y)"
    "wt_claimed x = wt_claimed y"
  have t: "t \<in> set (tasks w)" using wr unfolding written_def by blast
  note fx = written_fixed [OF wr]
  have old: "active_status (wt_state p) \<Longrightarrow> active_status (wt_state q) \<Longrightarrow> wt_claimed p = wt_claimed q
      \<Longrightarrow> p \<in> set (tasks w) \<Longrightarrow> q \<in> set (tasks w) \<Longrightarrow> wt_id p = wt_id q" for p q
    using a unfolding one_active_def by blast
  have new: "wt_id c = wt_id t" if "active_status (wt_state (f t))" "c \<in> set (tasks w)" "active_status (wt_state c)"
      "wt_claimed c = wt_claimed (f t)" for c
    using act [OF that(1)] old [OF that(3) _ _ that(2) t] that by auto
  show "wt_id x = wt_id y"
  proof (cases rule: written_rows [OF wr xy(1)])
    case 1
    then show ?thesis by (cases rule: written_rows [OF wr xy(2)]) (use new [of y] fx xy in auto)
  next
    case 2
    then show ?thesis by (cases rule: written_rows [OF wr xy(2)]) (use new [of x] old [of x y] fx xy in auto)
  qed
qed

lemma apart_write:
  assumes wr: "written t f w w'" and a: "apart w"
    and own: "\<And>u. owner (f t) = Some u \<Longrightarrow> u \<noteq> '''' \<Longrightarrow> owner t = Some u \<or> \<not> holds_counterpart t u w"
  shows "apart w'"
  unfolding apart_def
proof (intro ballI impI allI notI)
  fix x y u
  assume xy: "x \<in> set (tasks w')" "y \<in> set (tasks w')" "counterpart_of x y" "owner x = Some u" "u \<noteq> ''''" "owner y = Some u"
  have t: "t \<in> set (tasks w)" using wr unfolding written_def by blast
  have cp: "counterpart_of (f p) q = counterpart_of p q" "counterpart_of p (f q) = counterpart_of p q" for p q
    by (simp_all add: counterpart_of_def written_fixed [OF wr])
  have sym: "counterpart_of p q \<Longrightarrow> counterpart_of q p" for p q unfolding counterpart_of_def by auto
  have irr: "\<not> counterpart_of p p" for p unfolding counterpart_of_def by auto
  have old: "owner p = Some u \<Longrightarrow> owner q = Some u \<Longrightarrow> p \<in> set (tasks w) \<Longrightarrow> q \<in> set (tasks w) \<Longrightarrow> \<not> counterpart_of p q" for p q
    using a xy(5) unfolding apart_def by blast
  have new: "\<not> counterpart_of t q" if "owner (f t) = Some u" "q \<in> set (tasks w)" "owner q = Some u" for q
    using own [OF that(1) xy(5)] old [OF _ that(3) t that(2)] that(2,3) unfolding holds_counterpart_def by blast
  show False
  proof (cases rule: written_rows [OF wr xy(1)])
    case 1
    then show ?thesis by (cases rule: written_rows [OF wr xy(2)]) (use new [of y] cp irr xy in auto)
  next
    case 2
    then show ?thesis by (cases rule: written_rows [OF wr xy(2)]) (use new [of x] sym [of x t] old [of x y] cp xy in auto)
  qed
qed

text \<open>Writing one task keeps the invariant when the new row is sound by itself, takes no second active task
  for its worker, and brings no one onto the other half of a batch they hold.\<close>

lemma task_write_ok:
  assumes ok: "work_ok w" and t: "t \<in> set (tasks w)" and f: "fixed_columns f"
    and e: "tasks w' = upd (\<lambda>x. wt_id x = wt_id t) f (tasks w)" and kp: "kept w w'"
    and l: "lifecycle (f t)" "timed (clock w') (stops (wt_id t) w') (f t)" "scanned w' (f t)"
    and act: "active_status (wt_state (f t)) \<Longrightarrow>
        active_status (wt_state t) \<and> wt_claimed (f t) = wt_claimed t
        \<or> (\<forall>c \<in> set (tasks w). active_status (wt_state c) \<longrightarrow> wt_claimed c \<noteq> wt_claimed (f t))"
    and own: "\<And>u. owner (f t) = Some u \<Longrightarrow> u \<noteq> '''' \<Longrightarrow> owner t = Some u \<or> \<not> holds_counterpart t u w"
  shows "work_ok w'"
proof -
  have k: "keys_ok w" and h: "housed w" and a: "one_active w" "apart w"
    and old: "\<And>x. x \<in> set (tasks w) \<Longrightarrow> lifecycle x \<and> timed (clock w) (stops (wt_id x) w) x \<and> scanned w x"
    using ok unfolding work_ok_def by blast+
  have wr: "written t f w w'" using k t f e unfolding written_def keys_ok_def by blast
  note fx = written_fixed [OF wr]
  have m: "map (\<lambda>n. (wn_id n, wn_wh n)) (notes_tbl w') = map (\<lambda>n. (wn_id n, wn_wh n)) (notes_tbl w)"
    and c: "clock w \<le> clock w'" and q: "wseq w WS_task \<le> wseq w' WS_task" "wseq w WS_note \<le> wseq w' WS_note"
    and r: "stops i w \<le> stops i w'" and ev: "set (task_events w) \<subseteq> set (task_events w')" for i
    using kp unfolding kept_def by blast+
  have "keys_ok w'" by (rule keys_ok_mono [OF k _ m q]) (unfold e, rule map_upd_same, simp add: fx)
  moreover have "\<forall>x \<in> set (tasks w'). lifecycle x \<and> timed (clock w') (stops (wt_id x) w') x \<and> scanned w' x"
  proof
    fix x assume x: "x \<in> set (tasks w')"
    show "lifecycle x \<and> timed (clock w') (stops (wt_id x) w') x \<and> scanned w' x"
    proof (cases rule: written_rows [OF wr x])
      case 1 with l fx show ?thesis by simp
    next
      case 2 with old [of x] timed_mono [OF _ c r [of "wt_id x"]] scanned_mono [OF _ ev] show ?thesis by blast
    qed
  qed
  ultimately show ?thesis
    using housed_write [OF wr h kp] one_active_write [OF wr a(1) act] apart_write [OF wr a(2) own] by (simp add: work_ok_def)
qed

section \<open>Every operation keeps the invariant\<close>

lemma sort_key_hd:
  assumes "sort_key k (filter P xs) = x # ys"
  shows "x \<in> set xs \<and> P x \<and> (\<forall>y \<in> set xs. P y \<longrightarrow> k x \<le> k y)"
proof -
  have s: "set (x # ys) = set (filter P xs)" using assms by (metis set_sort)
  have "sorted (map k (x # ys))" using assms by (metis sorted_sort_key)
  then have le: "\<forall>y \<in> set (x # ys). k x \<le> k y" by auto
  have "\<forall>y \<in> set (filter P xs). k x \<le> k y" using le unfolding s .
  moreover have "x \<in> set (filter P xs)" using s by (metis list.set_intros(1))
  ultimately show ?thesis using s by simp
qed

lemma sort_key_Nil: "sort_key k (filter P xs) = [] \<longleftrightarrow> (\<forall>x \<in> set xs. \<not> P x)"
  by (metis filter_False filter_empty_conv set_empty set_sort sort_key_simps(1))

lemma get_current_None:
  "get_current_task u w = None \<Longrightarrow> t \<in> set (tasks w) \<Longrightarrow> active_status (wt_state t) \<Longrightarrow> wt_claimed t \<noteq> Some u"
  unfolding get_current_task_def by (auto simp: sort_key_Nil split: list.splits)

lemma get_current_Some:
  "get_current_task u w = Some t \<Longrightarrow> t \<in> set (tasks w) \<and> wt_claimed t = Some u \<and> active_status (wt_state t)"
  unfolding get_current_task_def by (auto dest: sort_key_hd split: list.splits)

lemma next_claimable_Some:
  "next_claimable wh u ks w = Some t \<Longrightarrow> t \<in> set (tasks w) \<and> claimable wh u ks w t"
  unfolding next_claimable_def by (auto dest: sort_key_hd split: list.splits)

definition claim_row :: "string \<Rightarrow> int \<Rightarrow> wtask \<Rightarrow> wtask" where
  "claim_row user n x = x\<lparr>wt_state := W_CLAIMED, wt_claimed := Some user, wt_claimed_at := Some n\<rparr>"

lemma claim_task_tasks:
  "tasks (claim_task t wh user device w) = upd (\<lambda>x. wt_id x = wt_id t) (claim_row user (clock w)) (tasks w)"
  by (simp add: claim_task_def claim_row_def [abs_def])

lemma claim_task_kept: "kept w (claim_task t wh user device w)"
  unfolding claim_task_def
  by (rule kept_work_trans [OF kept_work_trans [OF kept_work_trans [OF kept_set_task]]]) (rule quiet_kept)+

lemma claim_task_ok:
  assumes ok: "work_ok w" and t: "t \<in> set (tasks w)" "claimable wh user ks w t" and n: "get_current_task user w = None"
  shows "work_ok (claim_task t wh user device w)"
proof (rule task_write_ok [OF ok t(1) _ claim_task_tasks claim_task_kept])
  let ?f = "claim_row user (clock w)" and ?w = "claim_task t wh user device w"
  have "scanned w t" using ok t(1) by (simp add: work_ok_def)
  then have "scanned w (?f t)" by (simp add: scanned_def claim_row_def)
  then show "scanned ?w (?f t)" using claim_task_kept [of w t wh user device] scanned_mono unfolding kept_def by blast
  have st: "wt_state t = W_QUEUED \<or> wt_state t = W_ASSIGNED" using t(2) by (simp add: claimable_def)
  have old: "timed (clock w) (stops (wt_id t) w) t" using ok t(1) by (simp add: work_ok_def)
  show "fixed_columns ?f" by (simp add: fixed_columns_def claim_row_def)
  show "lifecycle (?f t)" by (simp add: lifecycle_def claim_row_def)
  have "timed (clock w) (stops (wt_id t) w) (?f t)"
    using old st by (auto simp: timed_def claim_row_def split: option.splits)
  then show "timed (clock ?w) (stops (wt_id t) ?w) (?f t)"
    using claim_task_kept [of w t wh user device] timed_mono unfolding kept_def by blast
  show "active_status (wt_state t) \<and> wt_claimed (?f t) = wt_claimed t
      \<or> (\<forall>c \<in> set (tasks w). active_status (wt_state c) \<longrightarrow> wt_claimed c \<noteq> wt_claimed (?f t))"
    using get_current_None [OF n] by (simp add: claim_row_def)
  show "owner t = Some u \<or> \<not> holds_counterpart t u w" if "owner (?f t) = Some u" for u
    using that t(2) by (simp add: owner_def claim_row_def claimable_def)
qed

lemma claim_next_task_ok:
  assumes "work_ok w"
  shows "work_ok (snd (claim_next_task wh user ks device w))"
  using claim_task_ok [OF assms] next_claimable_Some [of wh user ks w] assms
  by (auto simp: claim_next_task_def Let_def split: option.splits)

lemma seconds_booked:
  assumes b: "booked k s x t" and m: "x \<le> m" and p: "wt_active t' + wt_paused t' = wt_active t + wt_paused t + seconds_since (Some x) m"
    "0 \<le> wt_active t'" "0 \<le> wt_paused t'"
  shows "booked (k + 1) s m t'"
proof -
  have "\<bar>1000000 * ((d + 500000) div 1000000) - d\<bar> \<le> 500000" for d :: int
    using div_mult_mod_eq [of "d + 500000" 1000000] pos_mod_bound [of 1000000 "d + 500000"]
      pos_mod_sign [of 1000000 "d + 500000"] by linarith
  from this [of "m - x"] have "\<bar>1000000 * seconds_since (Some x) m - (m - x)\<bar> \<le> 500000"
    using m by (simp add: seconds_since_def)
  moreover have "1000000 * (wt_active t' + wt_paused t') - (m - s)
      = (1000000 * (wt_active t + wt_paused t) - (x - s)) + (1000000 * seconds_since (Some x) m - (m - x))"
    unfolding p(1) by simp
  moreover have "s \<le> x" "\<bar>1000000 * (wt_active t + wt_paused t) - (x - s)\<bar> \<le> 500000 * k"
    using b by (simp_all add: booked_def)
  ultimately have "s \<le> m" "\<bar>1000000 * (wt_active t' + wt_paused t') - (m - s)\<bar> \<le> 500000 * (k + 1)"
    using m abs_triangle_ineq [of "1000000 * (wt_active t + wt_paused t) - (x - s)" "1000000 * seconds_since (Some x) m - (m - x)"]
    by (linarith, simp only: distrib_left mult_1_right)
  with p(2,3) show ?thesis by (simp add: booked_def)
qed

lemma seconds_nonneg: "0 \<le> seconds_since x m"
  unfolding seconds_since_def by (auto split: option.splits intro!: pos_imp_zdiv_nonneg_iff [THEN iffD2])

lemma booked_nonneg: "booked k s x t \<Longrightarrow> 0 \<le> wt_active t \<and> 0 \<le> wt_paused t \<and> s \<le> x"
  by (simp add: booked_def)

text \<open>Each action books the time since the last one.\<close>

lemma apply_action_timed:
  assumes t: "timed m k t" and a: "allowed_from a (wt_state t)" "a \<noteq> A_EXCEPTION" and k: "0 \<le> k"
  shows "timed m (k + (if a = A_START then 0 else 1)) (apply_action a m t)"
proof (cases a)
  case A_START
  with t a k show ?thesis
    by (auto simp: timed_def apply_action_def allowed_from_def booked_def split: option.splits)
next
  case A_PAUSE
  with t a obtain s x where "wt_started t = Some s" "wt_active_from t = Some x" "wt_pause_from t = None" "x \<le> m" and b: "booked k s x t"
    by (auto simp: timed_def allowed_from_def split: option.splits)
  then show ?thesis using A_PAUSE booked_nonneg [OF b] seconds_nonneg [of "Some x" m]
    by (simp add: timed_def apply_action_def seconds_booked [OF b])
next
  case A_RESUME
  with t a obtain s x where "wt_started t = Some s" "wt_pause_from t = Some x" "wt_active_from t = None" "x \<le> m" and b: "booked k s x t"
    by (auto simp: timed_def allowed_from_def split: option.splits)
  then show ?thesis using A_RESUME booked_nonneg [OF b] seconds_nonneg [of "Some x" m]
    by (simp add: timed_def apply_action_def seconds_booked [OF b])
next
  case A_COMPLETE
  with t a obtain s x where "wt_started t = Some s" "wt_active_from t = Some x" "wt_pause_from t = None" "x \<le> m" and b: "booked k s x t"
    by (auto simp: timed_def allowed_from_def split: option.splits)
  then show ?thesis using A_COMPLETE booked_nonneg [OF b] seconds_nonneg [of "Some x" m]
    by (simp add: timed_def apply_action_def seconds_booked [OF b])
next
  case A_CANCEL
  show ?thesis
  proof (cases "wt_started t")
    case None
    with A_CANCEL t show ?thesis by (auto simp: timed_def apply_action_def)
  next
    case (Some s)
    with t a A_CANCEL consider x where "wt_state t = W_IN_PROGRESS" "wt_active_from t = Some x" "x \<le> m" "booked k s x t"
      | x where "wt_state t = W_PAUSED" "wt_pause_from t = Some x" "x \<le> m" "booked k s x t"
      by (auto simp: timed_def allowed_from_def active_status_def split: option.splits)
    then show ?thesis
      using A_CANCEL Some seconds_nonneg booked_nonneg
      by cases (simp_all add: timed_def apply_action_def seconds_booked)
  qed
next
  case A_EXCEPTION
  with a show ?thesis by simp
qed

lemma apply_action_fixed: "fixed_columns (apply_action a m)"
  by (simp add: fixed_columns_def apply_action_def split: work_action.split)

lemma apply_action_people:
  "wt_claimed (apply_action a m t) = wt_claimed t" "wt_assigned (apply_action a m t) = wt_assigned t"
  by (simp_all add: apply_action_def split: work_action.split)

lemma apply_action_owner: "owner (apply_action a m t) = owner t"
  by (simp add: owner_def apply_action_people split: option.split)

lemma apply_action_state: "a \<noteq> A_EXCEPTION \<Longrightarrow> wt_state (apply_action a m t) = next_status a"
  by (cases a) (simp_all add: apply_action_def next_status_def)

lemma apply_action_lifecycle:
  "lifecycle t \<Longrightarrow> allowed_from a (wt_state t) \<Longrightarrow> lifecycle (apply_action a m t)"
  by (cases a) (auto simp: lifecycle_def apply_action_def allowed_from_def active_status_def split: work_status.splits)

lemma apply_action_active:
  "allowed_from a (wt_state t) \<Longrightarrow> active_status (wt_state (apply_action a m t)) \<Longrightarrow> active_status (wt_state t)"
  by (cases a) (auto simp: apply_action_def allowed_from_def active_status_def)

definition book_action ::
    "wtask \<Rightarrow> work_action \<Rightarrow> string \<Rightarrow> string option \<Rightarrow> string option \<Rightarrow> string option \<Rightarrow> work \<Rightarrow> work" where
  "book_action t a user reason notes device w =
     record_task_event (wt_id t) (action_event a) user reason notes (JObj []) device
       (set_task (wt_id t) (apply_action a (clock w)) w)"

lemma book_action_ok:
  assumes ok: "work_ok w" and t: "t \<in> set (tasks w)" and a: "allowed_from a (wt_state t)" "a \<noteq> A_EXCEPTION"
    and v: "a = A_START \<Longrightarrow> floor_kind (wt_kind t) \<Longrightarrow> verified (wt_id t) user w"
  shows "work_ok (book_action t a user reason notes device w)"
proof (rule task_write_ok [OF ok t apply_action_fixed])
  let ?w = "book_action t a user reason notes device w" and ?f = "apply_action a (clock w)"
  have old: "lifecycle t" "timed (clock w) (stops (wt_id t) w) t" "scanned w t" using ok t by (simp_all add: work_ok_def)
  have ev: "set (task_events w) \<subseteq> set (task_events ?w)"
    by (auto simp: book_action_def record_task_event_def wnextval_def)
  have "floor_kind (wt_kind t) \<Longrightarrow> wt_started (?f t) \<noteq> None \<Longrightarrow> a \<noteq> A_START \<Longrightarrow> wt_started t \<noteq> None"
    by (cases a) (simp_all add: apply_action_def)
  with old(3) v have "scanned w (?f t)"
    using apply_action_fixed [of a "clock w"] unfolding scanned_def verified_def fixed_columns_def by metis
  then show "scanned ?w (?f t)" using ev by (rule scanned_mono)
  show "tasks ?w = upd (\<lambda>x. wt_id x = wt_id t) ?f (tasks w)" by (simp add: book_action_def)
  show "kept w ?w" unfolding book_action_def by (rule kept_work_trans [OF kept_set_task]) (rule quiet_kept)
  show "lifecycle (?f t)" using old(1) a(1) by (rule apply_action_lifecycle)
  have "stops (wt_id t) ?w = stops (wt_id t) w + (if a = A_START then 0 else 1)"
    using a by (cases a) (simp_all add: book_action_def stops_record action_event_def)
  moreover have "0 \<le> stops (wt_id t) w" by (simp add: stops_def)
  ultimately show "timed (clock ?w) (stops (wt_id t) ?w) (?f t)"
    using apply_action_timed [OF old(2) a] by (simp add: book_action_def)
  show "active_status (wt_state t) \<and> wt_claimed (?f t) = wt_claimed t
      \<or> (\<forall>c \<in> set (tasks w). active_status (wt_state c) \<longrightarrow> wt_claimed c \<noteq> wt_claimed (?f t))"
    if "active_status (wt_state (?f t))"
    using apply_action_active [OF a(1) that] by (simp add: apply_action_people)
  show "owner t = Some u \<or> \<not> holds_counterpart t u w" if "owner (?f t) = Some u" for u
    using that by (simp add: apply_action_owner)
qed

lemma quiet_ok:
  assumes "work_ok w"
  shows "work_ok (record_task_event i kind user reason notes meta device w)" "work_ok (waudit a e j u wh x w)"
    "work_ok (open_note b w)" "work_ok (close_note b w)"
  using assms quiet_steps [THEN same_tasks_ok [rotated]] by blast+

lemma transition_task_ok:
  assumes ok: "work_ok w" and r: "transition_task i user a admin reason notes device w = Inr (u, w')"
  shows "work_ok w'"
proof -
  from r obtain t where g: "get_task i w = Some t" and al: "allowed_from a (wt_state t)"
    by (auto simp: transition_task_def split: option.splits if_splits)
  then have t: "t \<in> set (tasks w)" "wt_id t = i" using get_task_in by blast+
  show ?thesis
  proof (cases "a = A_EXCEPTION")
    case True
    with r g al ok show ?thesis by (auto simp: transition_task_def Let_def quiet_ok split: if_splits)
  next
    case False
    have "work_ok (book_action t a user reason notes device w)"
      by (rule book_action_ok [OF ok t(1) al False])
        (use r g t(2) al in \<open>auto simp: transition_task_def split: if_splits\<close>)
    with r g al False t(2) show ?thesis
      by (auto simp: transition_task_def Let_def book_action_def [symmetric] quiet_ok split: if_splits)
  qed
qed

lemma claim_next_ok:
  assumes "work_ok w" "claim_next c wh ks device w = Inr (r, w')"
  shows "work_ok w'"
  using assms claim_next_task_ok [OF assms(1), of wh "cr_user c" _ device]
  by (auto simp: claim_next_def split: sum.splits if_splits) (metis snd_conv)

lemma task_transition_ok:
  assumes ok: "work_ok w" and r: "task_transition c i a reason notes device claim_more ks w = Inr (x, w')"
  shows "work_ok w'"
proof -
  from r obtain t u w1 where tr: "transition_task i (cr_user c) a (cr_admin c) reason notes device w = Inr (u, w1)"
    by (auto simp: task_transition_def split: option.splits if_splits sum.splits)
  from transition_task_ok [OF ok tr] have 1: "work_ok w1" .
  from r tr consider "w' = w1" | kinds where "w' = snd (claim_next_task (wt_wh u) (cr_user c) kinds device w1)"
    by (auto simp: task_transition_def Let_def split_beta split: option.splits if_splits sum.splits)
  then show ?thesis by cases (use 1 claim_next_task_ok in auto)
qed

lemma verify_task_scan_ok:
  assumes ok: "work_ok w" and r: "verify_task_scan c i code device w = Inr (x, w')"
  shows "work_ok w'"
  using assms by (auto simp: verify_task_scan_def Let_def quiet_ok split: option.splits if_splits)

end
