(* ===== verification/WorkDispatch.thy ===== *)
theory WorkDispatch
  imports WorkTasks "HOL-Library.List_Lexorder" "HOL-Library.Char_ord"
begin

text \<open>
  Automatic dispatch: \<^verbatim>\<open>api/services/work_dispatch_service.py\<close>. Ready tasks that nobody holds go to
  the available worker with the least projected work; a supervisor may assign a waiting task by hand
  or take a worker off duty, which releases the worker's waiting tasks. Floating-point minutes are exact
  rationals here, text columns are compared by code points, and the application's clock is the
  database's \<open>NOW()\<close>.
\<close>

section \<open>Numbers\<close>

text \<open>\<open>round(x, 1)\<close>: to the nearest tenth, ties to the even one.\<close>

definition round_even :: "rat \<Rightarrow> int" where
  "round_even x =
     (let f = \<lfloor>x\<rfloor>; r = x - of_int f
      in if r < 1 / 2 \<or> r = 1 / 2 \<and> even f then f else f + 1)"

definition round1 :: "rat \<Rightarrow> rat" where
  "round1 x = of_int (round_even (10 * x)) / 10"

text \<open>\<open>format(x, 'g')\<close> of a number that is not negative: six significant digits, trailing zeros dropped,
  an exponent from a million on. \<open>scale\<close> is the power of ten of the leading digit; numbers below one
  ten-thousandth do not occur (the argument is a multiple of a tenth).\<close>

definition strip_zeros :: "string \<Rightarrow> string" where
  "strip_zeros s = rev (dropWhile (\<lambda>c. c = CHR ''0'') (rev s))"

definition point :: "string \<Rightarrow> string \<Rightarrow> string" where
  "point i f = (if strip_zeros f = [] then i else i @ ''.'' @ strip_zeros f)"

fun scale :: "nat \<Rightarrow> nat" where
  "scale n = (if n < 10 then 0 else Suc (scale (n div 10)))"

declare scale.simps [simp del]

definition digits6 :: "rat \<Rightarrow> nat \<times> nat" where
  "digits6 x =
     (let e = scale (nat \<lfloor>x\<rfloor>); m = nat (round_even (x * 100000 / 10 ^ e))
      in if m = 1000000 then (100000, Suc e) else (m, e))"

definition pad_left :: "nat \<Rightarrow> string \<Rightarrow> string" where
  "pad_left n s = replicate (n - length s) (CHR ''0'') @ s"

definition g_text :: "rat \<Rightarrow> string" where
  "g_text x =
     (let (m, e) = digits6 x
      in if e < 6
         then point (decimal (m div 10 ^ (5 - e))) (pad_left (5 - e) (decimal (m mod 10 ^ (5 - e))))
         else point (decimal (m div 100000)) (pad_left 5 (decimal (m mod 100000)))
              @ ''e+'' @ pad_left 2 (decimal e))"

text \<open>\<open>float(text)\<close> of a setting: blanks around it, a sign, digits with single underscores between them,
  a fraction, an exponent. \<open>inf\<close> and \<open>nan\<close> have no counterpart: like a text that does not parse they
  leave the default rate in force.\<close>

definition digit :: "char \<Rightarrow> bool" where
  "digit c \<longleftrightarrow> (48::nat) \<le> of_char c \<and> (of_char c :: nat) \<le> 57"

definition digit_value :: "char \<Rightarrow> nat" where
  "digit_value c = of_char c - 48"

fun take_digits :: "string \<Rightarrow> string \<times> string" where
  "take_digits [] = ([], [])"
| "take_digits (c # cs) =
     (if digit c
      then let (ds, rest) = (case cs of u # d # _ \<Rightarrow> if u = CHR ''_'' \<and> digit d then take_digits (tl cs) else take_digits cs
                                 | _ \<Rightarrow> take_digits cs)
           in (c # ds, rest)
      else ([], c # cs))"

definition nat_of_digits :: "string \<Rightarrow> nat" where
  "nat_of_digits ds = foldl (\<lambda>n c. 10 * n + digit_value c) 0 ds"

definition blank :: "char \<Rightarrow> bool" where
  "blank c \<longleftrightarrow> of_char c \<in> {9::nat, 10, 11, 12, 13, 28, 29, 30, 31, 32}"

definition strip_blanks :: "string \<Rightarrow> string" where
  "strip_blanks s = rev (dropWhile blank (rev (dropWhile blank s)))"

definition take_sign :: "string \<Rightarrow> bool \<times> string" where
  "take_sign s = (case s of c # cs \<Rightarrow> if c = CHR ''-'' then (True, cs) else if c = CHR ''+'' then (False, cs) else (False, s)
     | [] \<Rightarrow> (False, []))"

definition take_exponent :: "string \<Rightarrow> int option" where
  "take_exponent s =
     (case s of
        [] \<Rightarrow> Some 0
      | c # cs \<Rightarrow>
          if c = CHR ''e'' \<or> c = CHR ''E''
          then let (neg, t) = take_sign cs; (ds, rest) = take_digits t
               in if ds \<noteq> [] \<and> rest = [] then Some (if neg then - int (nat_of_digits ds) else int (nat_of_digits ds)) else None
          else None)"

definition float_text :: "string \<Rightarrow> rat option" where
  "float_text s =
     (let (neg, t) = take_sign (strip_blanks s);
          (ds, r1) = take_digits t;
          (fs, r2) = (case r1 of c # cs \<Rightarrow> if c = CHR ''.'' then take_digits cs else ([], r1) | [] \<Rightarrow> ([], []))
      in if ds = [] \<and> fs = [] then None
         else map_option
                (\<lambda>e. let v = of_nat (nat_of_digits (ds @ fs)) / 10 ^ length fs * (if 0 \<le> e then 10 ^ nat e else 1 / 10 ^ nat (- e))
                     in if neg then - v else v)
                (take_exponent r2))"

section \<open>Rates and estimates\<close>

definition default_rate :: "task_kind \<Rightarrow> rat" where
  "default_rate k = (if k = K_PICKING then 30 else 40)"

definition rate_key :: "task_kind \<Rightarrow> string" where
  "rate_key k = (if k = K_PICKING then ''work_control_picking_minutes_per_50'' else ''work_control_packing_minutes_per_50'')"

definition complexity_multiplier :: "int \<Rightarrow> rat" where
  "complexity_multiplier l =
     (if l = 1 then 3 / 4 else if l = 3 then 27 / 20 else if l = 4 then 7 / 4 else if l = 5 then 9 / 4 else 1)"

text \<open>\<open>percentile_cont(0.5)\<close>: the median, half way between the two middle values.\<close>

definition median :: "rat list \<Rightarrow> rat option" where
  "median xs =
     (let s = sort xs; n = length s
      in if n = 0 then None
         else if odd n then Some (s ! (n div 2)) else Some ((s ! (n div 2 - 1) + s ! (n div 2)) / 2))"

definition thirty_days :: int where
  "thirty_days = 30 * 86400 * 1000000"

definition finished_lately :: "int \<Rightarrow> task_kind \<Rightarrow> work \<Rightarrow> wtask list" where
  "finished_lately wh k w = filter (\<lambda>t. wt_wh t = wh \<and> wt_kind t = k \<and> wt_state t = W_COMPLETED
     \<and> (case wt_completed t of None \<Rightarrow> False | Some c \<Rightarrow> clock w - thirty_days \<le> c)
     \<and> 0 < wt_orders t \<and> 60 \<le> wt_active t) (tasks w)"

definition baseline_rate :: "task_kind \<Rightarrow> work \<Rightarrow> rat" where
  "baseline_rate k w =
     (let b = (case settings (base w) (rate_key k) of None \<Rightarrow> default_rate k
                 | Some s \<Rightarrow> (case float_text s of None \<Rightarrow> default_rate k | Some x \<Rightarrow> x))
      in if 1 \<le> b \<and> b \<le> 240 then b else default_rate k)"

definition load_dispatch_rate :: "int \<Rightarrow> task_kind \<Rightarrow> work \<Rightarrow> rat" where
  "load_dispatch_rate wh k w =
     (let h = finished_lately wh k w;
          m = map_option (\<lambda>x. x / 60) (median (map (\<lambda>t. of_int (wt_active t) * 50 / of_int (wt_orders t)) h))
      in round1 (case m of
           None \<Rightarrow> baseline_rate k w
         | Some x \<Rightarrow> if 5 \<le> length h \<and> 100 \<le> sum_list (map wt_orders h) then x else baseline_rate k w))"

text \<open>\<open>estimate_task_minutes\<close>, on the columns it reads.\<close>

definition estimate_minutes :: "(task_kind \<Rightarrow> rat) \<Rightarrow> task_kind \<Rightarrow> int \<Rightarrow> int \<Rightarrow> int \<Rightarrow> int \<Rightarrow> rat" where
  "estimate_minutes rates k orders skus units level =
     (let o1 = max 0 orders; s = of_int (max 0 skus); u = of_int (max 0 units);
          m = complexity_multiplier (if level = 0 then 2 else level)
      in round1 (max 1 (case k of
           K_PICKING \<Rightarrow> rates k * of_int (if o1 = 0 then 50 else o1) / 50
         | K_PACKING \<Rightarrow> rates k * of_int (if o1 = 0 then 50 else o1) / 50
         | K_RECEIVING \<Rightarrow> (4 + s * (5 / 2) + u * (2 / 25)) * m
         | K_PUTAWAY \<Rightarrow> (3 + s + u * (1 / 20)) * m
         | K_STOCK_CHECK \<Rightarrow> (4 + s * (3 / 2) + u * (2 / 25)) * m
         | K_OTHER \<Rightarrow> 15 * m)))"

text \<open>The stored estimate, or a new one where none is stored.\<close>

definition task_estimate :: "int \<Rightarrow> work \<Rightarrow> wtask \<Rightarrow> rat" where
  "task_estimate wh w t =
     (let e = (case wt_estimate t of None \<Rightarrow> 0 | Some x \<Rightarrow> x)
      in if e \<le> 0
         then estimate_minutes (\<lambda>k. load_dispatch_rate wh k w) (wt_kind t) (wt_orders t) (wt_skus t) (wt_units t) (wt_level t)
         else e)"

text \<open>\<open>int(seconds)\<close> truncates.\<close>

definition remaining_minutes :: "int \<Rightarrow> wtask \<Rightarrow> rat \<Rightarrow> rat" where
  "remaining_minutes n t estimate =
     (let s = wt_active t + (case wt_active_from t of
                None \<Rightarrow> 0 | Some x \<Rightarrow> if wt_state t = W_IN_PROGRESS then max 0 ((n - x) div 1000000) else 0)
      in round1 (max 0 (estimate - of_int s / 60)))"

section \<open>Workers and open tasks\<close>

definition task_function :: "task_kind \<Rightarrow> string option" where
  "task_function k = (case k of K_PICKING \<Rightarrow> Some ''pick'' | K_PACKING \<Rightarrow> Some ''pack'' | K_RECEIVING \<Rightarrow> Some ''receive''
     | K_PUTAWAY \<Rightarrow> Some ''putaway'' | K_STOCK_CHECK \<Rightarrow> Some ''count'' | K_OTHER \<Rightarrow> None)"

record worker =
  wk_id :: int
  wk_name :: string
  wk_full :: string
  wk_kinds :: "task_kind list"
  wk_state :: availability
  wk_capacity :: int
  wk_note :: "string option"

definition worker_kinds :: "string list \<Rightarrow> task_kind list" where
  "worker_kinds fs = filter (\<lambda>k. case task_function k of None \<Rightarrow> False | Some f \<Rightarrow> f \<in> set fs)
     [K_PICKING, K_PACKING, K_RECEIVING, K_PUTAWAY, K_STOCK_CHECK]"

definition lower_text :: "string \<Rightarrow> string" where
  "lower_text = map (\<lambda>c. if (of_char c :: nat) \<in> {65..90} then char_of ((of_char c :: nat) + 32) else c)"

definition today_row :: "int \<Rightarrow> int \<Rightarrow> work \<Rightarrow> worker_status option" where
  "today_row wh u w = List.find (\<lambda>x. ws_user x = u \<and> ws_wh x = wh \<and> ws_date x = today w) (worker_days w)"

definition works_at :: "int \<Rightarrow> employee \<Rightarrow> bool" where
  "works_at wh e \<longleftrightarrow> em_wh e = Some wh \<or> wh \<in> set (em_whs e)"

definition eligible_workers :: "int \<Rightarrow> work \<Rightarrow> worker list" where
  "eligible_workers wh w =
     filter (\<lambda>k. wk_kinds k \<noteq> [])
       (map (\<lambda>e. let r = today_row wh (em_id e) w
                 in \<lparr>wk_id = em_id e, wk_name = em_name e, wk_full = em_full e, wk_kinds = worker_kinds (em_functions e),
                     wk_state = (case r of None \<Rightarrow> AV_AVAILABLE | Some x \<Rightarrow> ws_state x),
                     wk_capacity = (case r of None \<Rightarrow> 480 | Some x \<Rightarrow> ws_capacity x),
                     wk_note = (case r of None \<Rightarrow> None | Some x \<Rightarrow> ws_note x)\<rparr>)
         (sort_key (\<lambda>e. (lower_text (em_full e), lower_text (em_name e)))
           (filter (\<lambda>e. \<not> em_admin e \<and> em_active e \<and> works_at wh e) (staff w))))"

definition available_workers :: "int \<Rightarrow> work \<Rightarrow> worker list" where
  "available_workers wh w = filter (\<lambda>k. wk_state k = AV_AVAILABLE) (eligible_workers wh w)"

definition open_tasks :: "int \<Rightarrow> work \<Rightarrow> wtask list" where
  "open_tasks wh w = sort_key (\<lambda>t. (- wt_priority t, wt_available t, wt_id t))
     (filter (\<lambda>t. wt_wh t = wh \<and> \<not> terminal (wt_state t)) (tasks w))"

text \<open>\<open>claimed_by or assigned_to\<close>: an empty name counts as none.\<close>

definition truthy :: "string option \<Rightarrow> bool" where
  "truthy x \<longleftrightarrow> (case x of None \<Rightarrow> False | Some s \<Rightarrow> s \<noteq> [])"

definition holder :: "wtask \<Rightarrow> string option" where
  "holder t = (if truthy (wt_claimed t) then wt_claimed t else if truthy (wt_assigned t) then wt_assigned t else None)"

text \<open>The people on each batch, as pairs.\<close>

definition counterpart_workers :: "int \<Rightarrow> work \<Rightarrow> (int \<times> string) list" where
  "counterpart_workers wh w =
     [(b, u). t \<leftarrow> tasks w, wt_wh t = wh \<and> floor_kind (wt_kind t),
              b \<leftarrow> (case wt_batch t of None \<Rightarrow> [] | Some b \<Rightarrow> [b]),
              u \<leftarrow> (case owner t of None \<Rightarrow> [] | Some u \<Rightarrow> [u])]"

section \<open>Automatic dispatch\<close>

text \<open>The running totals of one dispatch.\<close>

record dispatching =
  dp_load :: "string \<Rightarrow> rat"
  dp_count :: "string \<Rightarrow> int"
  dp_held :: "(int \<times> string) list"

datatype assignment = Assignment (as_task: int) (as_worker: string) (as_minutes: rat) (as_reason: string)

definition assignment_json :: "assignment \<Rightarrow> json" where
  "assignment_json a = JObj [(''task_id'', JInt (as_task a)), (''assigned_to'', JStr (as_worker a)),
     (''estimated_minutes'', JNum (as_minutes a)), (''assignment_reason'', JStr (as_reason a))]"

text \<open>What each worker already has to do, and how many tasks.\<close>

definition open_load :: "int \<Rightarrow> work \<Rightarrow> string \<Rightarrow> rat" where
  "open_load wh w u = sum_list [remaining_minutes (clock w) t (task_estimate wh w t). t \<leftarrow> open_tasks wh w, holder t = Some u]"

definition open_count :: "int \<Rightarrow> work \<Rightarrow> string \<Rightarrow> int" where
  "open_count wh w u = int (length (filter (\<lambda>t. holder t = Some u) (open_tasks wh w)))"

definition candidates :: "worker list \<Rightarrow> wtask \<Rightarrow> (int \<times> string) list \<Rightarrow> worker list" where
  "candidates available t held =
     filter (\<lambda>k. wt_kind t \<in> set (wk_kinds k)
       \<and> \<not> (case wt_batch t of None \<Rightarrow> False | Some b \<Rightarrow> floor_kind (wt_kind t) \<and> (b, wk_name k) \<in> set held)) available"

definition choose_worker :: "worker list \<Rightarrow> dispatching \<Rightarrow> worker" where
  "choose_worker ks p = arg_min_list (\<lambda>k. (dp_load p (wk_name k), dp_count p (wk_name k), lower_text (wk_name k))) ks"

definition dispatchable :: "int \<Rightarrow> wtask \<Rightarrow> bool" where
  "dispatchable n t \<longleftrightarrow> wt_state t = W_QUEUED \<and> \<not> truthy (wt_assigned t) \<and> wt_available t \<le> n"

definition assign_row :: "string option \<Rightarrow> rat \<Rightarrow> string \<Rightarrow> int \<Rightarrow> string \<Rightarrow> wtask \<Rightarrow> wtask" where
  "assign_row u estimate reason n actor x =
     x\<lparr>wt_state := (if u = None then W_QUEUED else W_ASSIGNED), wt_assigned := u, wt_estimate := Some estimate,
       wt_reason := Some reason, wt_assigned_at := (if u = None then None else Some n), wt_assigned_by := Some actor\<rparr>"

definition dispatch_reason :: "rat \<Rightarrow> nat \<Rightarrow> string" where
  "dispatch_reason before n = ''Auto-dispatch: lowest projected workload ('' @ g_text before
     @ '' min before task) among '' @ decimal n @ '' eligible available staff''"

definition dispatch_to ::
    "int \<Rightarrow> string \<Rightarrow> string option \<Rightarrow> wtask \<Rightarrow> string \<Rightarrow> rat \<Rightarrow> rat \<Rightarrow> string \<Rightarrow> work \<Rightarrow> work" where
  "dispatch_to wh actor device t u estimate before reason w =
     waudit ''WORK_TASK_AUTO_ASSIGNED'' ''WORK_TASK'' (wt_id t) actor wh
       (JObj [(''assigned_to'', JStr u), (''estimated_minutes'', JNum estimate), (''assignment_reason'', JStr reason)])
       (record_task_event (wt_id t) EV_ASSIGNED actor (Some ''AUTO_DISPATCH'') (Some reason)
         (JObj [(''assigned_to'', JStr u), (''estimated_minutes'', JNum estimate), (''projected_minutes_before'', JNum before)])
         device
         (set_task (wt_id t) (assign_row (Some u) estimate reason (clock w) actor) w))"

text \<open>One task of the run; \<open>minutes\<close> are the estimates taken before it.\<close>

definition dispatch_one ::
    "int \<Rightarrow> string \<Rightarrow> string option \<Rightarrow> worker list \<Rightarrow> (wtask \<Rightarrow> rat) \<Rightarrow> wtask
      \<Rightarrow> dispatching \<times> assignment list \<times> work \<Rightarrow> dispatching \<times> assignment list \<times> work" where
  "dispatch_one wh actor device available minutes t s =
     (let (p, done_so_far, w) = s; ks = candidates available t (dp_held p)
      in if \<not> dispatchable (clock w) t \<or> ks = [] then s
         else
           let u = wk_name (choose_worker ks p); estimate = minutes t; before = round1 (dp_load p u);
               reason = dispatch_reason before (length ks)
           in (p\<lparr>dp_load := (dp_load p)(u := dp_load p u + estimate), dp_count := (dp_count p)(u := dp_count p u + 1),
                 dp_held := (case wt_batch t of None \<Rightarrow> dp_held p | Some b \<Rightarrow> (b, u) # dp_held p)\<rparr>,
               done_so_far @ [Assignment (wt_id t) u estimate reason],
               dispatch_to wh actor device t u estimate before reason w))"

definition dispatch_start :: "int \<Rightarrow> work \<Rightarrow> dispatching" where
  "dispatch_start wh w = \<lparr>dp_load = open_load wh w, dp_count = open_count wh w, dp_held = counterpart_workers wh w\<rparr>"

definition auto_dispatch :: "int \<Rightarrow> string \<Rightarrow> string option \<Rightarrow> work \<Rightarrow> assignment list \<times> work" where
  "auto_dispatch wh actor device w =
     snd (fold (dispatch_one wh actor device (available_workers wh w) (task_estimate wh w)) (open_tasks wh w)
       (dispatch_start wh w, [], w))"

section \<open>Availability and manual assignment\<close>

datatype dispatch_error =
  DE_employee_not_found
| DE_not_active_here
| DE_task_not_found
| DE_not_waiting
| DE_not_eligible
| DE_not_available
| DE_same_person
| DE_denied
| DE_no_page

definition availability_text :: "availability \<Rightarrow> string" where
  "availability_text s = (case s of AV_AVAILABLE \<Rightarrow> ''AVAILABLE'' | AV_BREAK \<Rightarrow> ''BREAK'' | AV_OFF_DUTY \<Rightarrow> ''OFF_DUTY'')"

definition put_worker_day ::
    "int \<Rightarrow> int \<Rightarrow> availability \<Rightarrow> int \<Rightarrow> string option \<Rightarrow> string \<Rightarrow> work \<Rightarrow> work" where
  "put_worker_day wh uid s capacity status_note actor w =
     (let mine = (\<lambda>x. ws_wh x = wh \<and> ws_user x = uid \<and> ws_date x = today w)
      in w\<lparr>worker_days :=
             (if \<exists>x \<in> set (worker_days w). mine x
              then upd mine (\<lambda>x. x\<lparr>ws_state := s, ws_capacity := capacity, ws_note := status_note, ws_by := actor\<rparr>) (worker_days w)
              else worker_days w @ [\<lparr>ws_wh = wh, ws_user = uid, ws_date = today w, ws_state = s, ws_capacity = capacity,
                                     ws_note = status_note, ws_by = actor\<rparr>])\<rparr>)"

definition release_row :: "string \<Rightarrow> string \<Rightarrow> wtask \<Rightarrow> wtask" where
  "release_row reason actor x = x\<lparr>wt_state := W_QUEUED, wt_assigned := None, wt_reason := Some reason,
     wt_assigned_at := None, wt_assigned_by := Some actor\<rparr>"

definition release_task :: "string \<Rightarrow> string \<Rightarrow> availability \<Rightarrow> int \<Rightarrow> work \<Rightarrow> work" where
  "release_task user actor s i w =
     record_task_event i EV_REOPENED actor (Some ''WORKER_UNAVAILABLE'') None
       (JObj [(''previous_assignee'', JStr user), (''status'', JStr (availability_text s))]) None
       (set_task i (release_row (''Released because '' @ user @ '' is '' @ lower_text (availability_text s)) actor) w)"

definition waiting_for :: "int \<Rightarrow> string \<Rightarrow> wtask \<Rightarrow> bool" where
  "waiting_for wh user t \<longleftrightarrow> wt_wh t = wh \<and> wt_assigned t = Some user \<and> wt_claimed t = None \<and> wt_state t = W_ASSIGNED"

definition set_worker_availability ::
    "int \<Rightarrow> int \<Rightarrow> availability \<Rightarrow> int \<Rightarrow> string \<Rightarrow> string option \<Rightarrow> work
      \<Rightarrow> dispatch_error + ((int list \<times> assignment list) \<times> work)" where
  "set_worker_availability wh uid s capacity actor status_note w =
     (case List.find (\<lambda>e. em_id e = uid) (staff w) of
        None \<Rightarrow> Inl DE_employee_not_found
      | Some e \<Rightarrow>
          if em_admin e \<or> \<not> em_active e \<or> \<not> works_at wh e then Inl DE_not_active_here
          else
            let w1 = put_worker_day wh uid s capacity status_note actor w;
                released = (if s = AV_AVAILABLE then [] else map wt_id (filter (waiting_for wh (em_name e)) (tasks w1)));
                w2 = fold (release_task (em_name e) actor s) released w1;
                w3 = waudit ''WORKER_AVAILABILITY_CHANGED'' ''USER'' uid actor wh
                       (JObj [(''status'', JStr (availability_text s)), (''daily_capacity_minutes'', JInt capacity),
                              (''status_note'', jopt JStr status_note), (''released_task_ids'', JArr (map JInt released))]) w2;
                (assigned, w4) = auto_dispatch wh actor (Some ''dispatch-engine'') w3
            in Inr ((released, assigned), w4))"

text \<open>The checks of a manual assignment to somebody.\<close>

definition assignment_error :: "wtask \<Rightarrow> string \<Rightarrow> work \<Rightarrow> dispatch_error option" where
  "assignment_error t u w =
     (case List.find (\<lambda>k. wk_name k = u) (eligible_workers (wt_wh t) w) of
        None \<Rightarrow> Some DE_not_eligible
      | Some k \<Rightarrow>
          if wt_kind t \<notin> set (wk_kinds k) then Some DE_not_eligible
          else if wk_state k \<noteq> AV_AVAILABLE then Some DE_not_available
          else if holds_counterpart t u w then Some DE_same_person
          else None)"

definition manual_reason :: "string option \<Rightarrow> string option \<Rightarrow> string \<Rightarrow> string" where
  "manual_reason reason u actor =
     (if truthy reason then the reason
      else if truthy u then ''Manual assignment by '' @ actor else ''Returned to auto queue by '' @ actor)"

definition assign_task ::
    "int \<Rightarrow> string option \<Rightarrow> string \<Rightarrow> string option \<Rightarrow> work \<Rightarrow> dispatch_error + (int \<times> work)" where
  "assign_task i u actor reason w =
     (case get_task i w of
        None \<Rightarrow> Inl DE_task_not_found
      | Some t \<Rightarrow>
          if \<not> (wt_state t = W_QUEUED \<or> wt_state t = W_ASSIGNED) \<or> truthy (wt_claimed t) then Inl DE_not_waiting
          else
            (case (if truthy u then assignment_error t (the u) w else None) of
               Some e \<Rightarrow> Inl e
             | None \<Rightarrow>
                 let e = (case wt_estimate t of None \<Rightarrow> 0 | Some x \<Rightarrow> x);
                     estimate = (if e = 0 then task_estimate (wt_wh t) w t else e);
                     why = manual_reason reason u actor;
                     w1 = set_task i (assign_row u estimate why (clock w) actor) w;
                     w2 = record_task_event i (if truthy u then EV_ASSIGNED else EV_REOPENED) actor (Some ''MANUAL_DISPATCH'')
                            (Some why) (JObj [(''previous_assignee'', jopt JStr (wt_assigned t)), (''assigned_to'', jopt JStr u)])
                            None w1
                 in Inr (wt_wh t,
                      waudit ''WORK_TASK_MANUALLY_ASSIGNED'' ''WORK_TASK'' i actor (wt_wh t)
                        (JObj [(''previous_assignee'', jopt JStr (wt_assigned t)), (''assigned_to'', jopt JStr u),
                               (''assignment_reason'', JStr why)]) w2)))"

section \<open>The dispatch routes\<close>

definition run_dispatch :: "caller \<Rightarrow> int \<Rightarrow> work \<Rightarrow> dispatch_error + (assignment list \<times> work)" where
  "run_dispatch c wh w =
     (if \<not> can_supervise c then Inl DE_no_page
      else if \<not> check_warehouse_access (cr_session c) (Some wh) then Inl DE_denied
      else Inr (auto_dispatch wh (cr_user c) (Some ''supervisor-web'') w))"

definition update_worker_availability ::
    "caller \<Rightarrow> int \<Rightarrow> int \<Rightarrow> availability \<Rightarrow> int \<Rightarrow> string option \<Rightarrow> work
      \<Rightarrow> dispatch_error + ((int list \<times> assignment list) \<times> work)" where
  "update_worker_availability c wh uid s capacity status_note w =
     (if \<not> can_supervise c then Inl DE_no_page
      else if \<not> check_warehouse_access (cr_session c) (Some wh) then Inl DE_denied
      else set_worker_availability wh uid s capacity (cr_user c) status_note w)"

definition update_task_assignment ::
    "caller \<Rightarrow> int \<Rightarrow> string option \<Rightarrow> string option \<Rightarrow> work \<Rightarrow> dispatch_error + ((wtask option \<times> assignment list) \<times> work)" where
  "update_task_assignment c i u reason w =
     (if \<not> can_supervise c then Inl DE_no_page
      else case get_task i w of
        None \<Rightarrow> Inl DE_task_not_found
      | Some t \<Rightarrow>
          if \<not> check_warehouse_access (cr_session c) (Some (wt_wh t)) then Inl DE_denied
          else
            (case assign_task i u (cr_user c) reason w of
               Inl e \<Rightarrow> Inl e
             | Inr (wh, w1) \<Rightarrow>
                 let (assigned, w2) = (if u = None then auto_dispatch wh (cr_user c) (Some ''dispatch-engine'') w1 else ([], w1))
                 in Inr ((get_task i w2, assigned), w2)))"

section \<open>Dispatch keeps the work tables sound\<close>

lemma assign_row_simps [simp]:
  "wt_id (assign_row u e r n a x) = wt_id x" "wt_batch (assign_row u e r n a x) = wt_batch x"
  "wt_wh (assign_row u e r n a x) = wt_wh x" "wt_kind (assign_row u e r n a x) = wt_kind x"
  "wt_claimed (assign_row u e r n a x) = wt_claimed x" "wt_assigned (assign_row u e r n a x) = u"
  "wt_state (assign_row u e r n a x) = (if u = None then W_QUEUED else W_ASSIGNED)"
  "wt_started (assign_row u e r n a x) = wt_started x" "wt_active (assign_row u e r n a x) = wt_active x"
  "wt_paused (assign_row u e r n a x) = wt_paused x" "wt_active_from (assign_row u e r n a x) = wt_active_from x"
  "wt_pause_from (assign_row u e r n a x) = wt_pause_from x" "wt_completed (assign_row u e r n a x) = wt_completed x"
  by (simp_all add: assign_row_def)

lemma release_row_simps [simp]:
  "wt_id (release_row r a x) = wt_id x" "wt_batch (release_row r a x) = wt_batch x"
  "wt_wh (release_row r a x) = wt_wh x" "wt_kind (release_row r a x) = wt_kind x"
  "wt_claimed (release_row r a x) = wt_claimed x" "wt_assigned (release_row r a x) = None"
  "wt_state (release_row r a x) = W_QUEUED"
  "wt_started (release_row r a x) = wt_started x" "wt_active (release_row r a x) = wt_active x"
  "wt_paused (release_row r a x) = wt_paused x" "wt_active_from (release_row r a x) = wt_active_from x"
  "wt_pause_from (release_row r a x) = wt_pause_from x" "wt_completed (release_row r a x) = wt_completed x"
  by (simp_all add: release_row_def)

definition waiting :: "wtask \<Rightarrow> bool" where
  "waiting t \<longleftrightarrow> wt_state t = W_QUEUED \<or> wt_state t = W_ASSIGNED"

lemma waiting_unclaimed: "work_ok w \<Longrightarrow> t \<in> set (tasks w) \<Longrightarrow> waiting t \<Longrightarrow> wt_claimed t = None"
  by (auto simp: work_ok_def lifecycle_def waiting_def)

lemma kept_scanned: "kept w w' \<Longrightarrow> scanned w t \<Longrightarrow> scanned w' t"
  unfolding kept_def by (blast intro: scanned_mono)

text \<open>A waiting task may be queued again, or given to anyone who does not hold the batch's other half.\<close>

lemma waiting_write_ok:
  assumes ok: "work_ok w" and t: "t \<in> set (tasks w)" "waiting t" and f: "fixed_columns f"
    and same: "wt_claimed (f t) = wt_claimed t" "wt_started (f t) = wt_started t" "wt_active (f t) = wt_active t"
      "wt_paused (f t) = wt_paused t" "wt_active_from (f t) = wt_active_from t" "wt_pause_from (f t) = wt_pause_from t"
    and st: "wt_state (f t) = (if wt_assigned (f t) = None then W_QUEUED else W_ASSIGNED)"
    and own: "\<And>u. wt_assigned (f t) = Some u \<Longrightarrow> u \<noteq> '''' \<Longrightarrow> \<not> holds_counterpart t u w"
  shows "work_ok (set_task (wt_id t) f w)"
proof (rule task_write_ok [OF ok t(1) f _ kept_set_task])
  let ?w = "set_task (wt_id t) f w"
  have fx: "wt_id (f t) = wt_id t" "wt_kind (f t) = wt_kind t" using f unfolding fixed_columns_def by blast+
  have old: "timed (clock w) (stops (wt_id t) w) t" "scanned w t" using ok t by (simp_all add: work_ok_def)
  have c: "wt_claimed (f t) = None" using waiting_unclaimed [OF ok t] same by simp
  show "lifecycle (f t)" using st c by (auto simp: lifecycle_def)
  show "timed (clock ?w) (stops (wt_id t) ?w) (f t)"
    using old(1) t(2) st same by (auto simp: timed_def waiting_def split: option.splits)
  show "scanned ?w (f t)" using old(2) same fx by (simp add: scanned_def)
  show "tasks ?w = upd (\<lambda>x. wt_id x = wt_id t) f (tasks w)" by simp
  show "active_status (wt_state t) \<and> wt_claimed (f t) = wt_claimed t
      \<or> (\<forall>c \<in> set (tasks w). active_status (wt_state c) \<longrightarrow> wt_claimed c \<noteq> wt_claimed (f t))"
    if "active_status (wt_state (f t))" using that st by (simp add: active_status_def split: if_splits)
  show "owner t = Some u \<or> \<not> holds_counterpart t u w" if "owner (f t) = Some u" "u \<noteq> ''''" for u
    using that c own by (simp add: owner_def)
qed

lemma assign_row_ok:
  assumes "work_ok w" "t \<in> set (tasks w)" "waiting t"
    and "\<And>v. u = Some v \<Longrightarrow> v \<noteq> '''' \<Longrightarrow> \<not> holds_counterpart t v w"
  shows "work_ok (set_task (wt_id t) (assign_row u e r n a) w)"
  by (rule waiting_write_ok [OF assms(1-3)]) (use assms(4) in \<open>auto simp: fixed_columns_def\<close>)

lemma release_row_ok:
  "work_ok w \<Longrightarrow> t \<in> set (tasks w) \<Longrightarrow> waiting t \<Longrightarrow> work_ok (set_task (wt_id t) (release_row r a) w)"
  by (rule waiting_write_ok) (auto simp: fixed_columns_def)

lemma dispatch_to_fields [simp]:
  "tasks (dispatch_to wh actor device t u e b r w) = upd (\<lambda>x. wt_id x = wt_id t) (assign_row (Some u) e r (clock w) actor) (tasks w)"
  "clock (dispatch_to wh actor device t u e b r w) = clock w" "staff (dispatch_to wh actor device t u e b r w) = staff w"
  "notes_tbl (dispatch_to wh actor device t u e b r w) = notes_tbl w"
  by (simp_all add: dispatch_to_def)

lemma dispatch_to_ok:
  assumes "work_ok w" "t \<in> set (tasks w)" "waiting t" "\<not> holds_counterpart t u w"
  shows "work_ok (dispatch_to wh actor device t u e b r w)"
  unfolding dispatch_to_def by (intro quiet_ok assign_row_ok [OF assms(1-3)]) (use assms(4) in simp)

text \<open>The run's record of who is on which batch is exact enough: everyone on a picking or packing task of the
  warehouse is in it, and everyone in it is on a task of the batch.\<close>

definition held_ok :: "int \<Rightarrow> (int \<times> string) list \<Rightarrow> work \<Rightarrow> bool" where
  "held_ok wh h w \<longleftrightarrow>
     (\<forall>c \<in> set (tasks w). \<forall>b u. wt_wh c = wh \<longrightarrow> floor_kind (wt_kind c) \<longrightarrow> wt_batch c = Some b \<longrightarrow> owner c = Some u \<longrightarrow> (b, u) \<in> set h)
     \<and> (\<forall>(b, u) \<in> set h. \<exists>c \<in> set (tasks w). wt_batch c = Some b \<and> owner c = Some u)"

lemma set_option_list: "set (case x of None \<Rightarrow> [] | Some y \<Rightarrow> [y]) = set_option x"
  by (cases x) simp_all

lemma counterpart_workers_iff:
  "(b, u) \<in> set (counterpart_workers wh w) \<longleftrightarrow>
     (\<exists>c \<in> set (tasks w). wt_wh c = wh \<and> floor_kind (wt_kind c) \<and> wt_batch c = Some b \<and> owner c = Some u)"
  by (auto simp: counterpart_workers_def set_option_list elem_set)

lemma held_ok_start: "held_ok wh (counterpart_workers wh w) w"
  unfolding held_ok_def by (auto simp: counterpart_workers_iff)

lemma candidate_apart:
  assumes ok: "work_ok w" and h: "held_ok wh held w" and t: "t \<in> set (tasks w)" "wt_wh t = wh"
    and k: "k \<in> set (candidates available t held)"
  shows "\<not> holds_counterpart t (wk_name k) w"
proof
  assume "holds_counterpart t (wk_name k) w"
  then obtain c where c: "c \<in> set (tasks w)" "counterpart_of t c" "owner c = Some (wk_name k)"
    unfolding holds_counterpart_def by blast
  then obtain b where b: "wt_batch t = Some b" "wt_batch c = Some b" "floor_kind (wt_kind t)" "floor_kind (wt_kind c)"
    unfolding counterpart_of_def by auto
  have "housed w" using ok by (simp add: work_ok_def)
  then have "Some (wt_wh c) = Some (wt_wh t)" using t(1) c(1) b unfolding housed_def by metis
  with h c b t have "(b, wk_name k) \<in> set held" unfolding held_ok_def by auto
  with k b show False by (simp add: candidates_def)
qed

lemma chosen_candidate: "ks \<noteq> [] \<Longrightarrow> choose_worker ks p \<in> set ks"
  unfolding choose_worker_def by (rule arg_min_list_in)

lemma arg_min_list_le: "x \<in> set xs \<Longrightarrow> f (arg_min_list f xs) \<le> f x"
  using f_arg_min_list_f [of xs f] by (cases xs) auto

lemma chosen_least:
  assumes "k \<in> set ks"
  shows "dp_load p (wk_name (choose_worker ks p)) \<le> dp_load p (wk_name k)"
  using arg_min_list_le [OF assms, of "\<lambda>k. (dp_load p (wk_name k), dp_count p (wk_name k), lower_text (wk_name k))"]
  by (auto simp: choose_worker_def less_eq_prod_def)

section \<open>One run of the dispatcher\<close>

definition dispatch_inv :: "int \<Rightarrow> wtask list \<Rightarrow> dispatching \<Rightarrow> work \<Rightarrow> bool" where
  "dispatch_inv wh ts p w \<longleftrightarrow> work_ok w \<and> held_ok wh (dp_held p) w \<and> distinct (map wt_id ts)
     \<and> (\<forall>t \<in> set ts. t \<in> set (tasks w) \<and> wt_wh t = wh)"

lemma dispatchable_waiting: "dispatchable n t \<Longrightarrow> waiting t"
  by (simp add: dispatchable_def waiting_def)

lemma dispatchable_free:
  "work_ok w \<Longrightarrow> t \<in> set (tasks w) \<Longrightarrow> dispatchable n t \<Longrightarrow> owner t = None"
  by (auto simp: work_ok_def lifecycle_def dispatchable_def owner_def)

lemma upd_rows:
  assumes "distinct (map k xs)" "x \<in> set xs"
  shows "set (upd (\<lambda>y. k y = k x) f xs) = insert (f x) (set xs - {x})"
proof -
  have "(\<lambda>y. if k y = k x then f y else y) ` set xs = (\<lambda>y. if y = x then f x else y) ` set xs"
    using key_inj [OF assms(1) _ assms(2)] by (intro image_cong) auto
  also have "\<dots> = insert (f x) (set xs - {x})" using assms(2) by auto
  finally show ?thesis by (simp add: set_upd)
qed

lemma held_ok_assign:
  assumes ok: "work_ok w" and h: "held_ok wh held w" and t: "t \<in> set (tasks w)" "wt_wh t = wh" "dispatchable n t"
    and w': "tasks w' = upd (\<lambda>x. wt_id x = wt_id t) (assign_row (Some u) e r m a) (tasks w)"
  shows "held_ok wh (case wt_batch t of None \<Rightarrow> held | Some b \<Rightarrow> (b, u) # held) w'"
proof -
  have rows: "set (tasks w') = insert (assign_row (Some u) e r m a t) (set (tasks w) - {t})"
    unfolding w' using ok t(1) by (intro upd_rows) (simp_all add: work_ok_def keys_ok_def)
  have o: "owner t = None" "owner (assign_row (Some u) e r m a t) = Some u"
    using dispatchable_free [OF ok t(1,3)] waiting_unclaimed [OF ok t(1) dispatchable_waiting [OF t(3)]]
    by (simp_all add: owner_def)
  let ?h = "case wt_batch t of None \<Rightarrow> held | Some b \<Rightarrow> (b, u) # held"
  have mem: "(b, v) \<in> set ?h \<longleftrightarrow> wt_batch t = Some b \<and> v = u \<or> (b, v) \<in> set held" for b v
    by (cases "wt_batch t") auto
  have "(b, v) \<in> set ?h" if "c \<in> set (tasks w')" "wt_wh c = wh" "floor_kind (wt_kind c)" "wt_batch c = Some b" "owner c = Some v" for c b v
    using that h o unfolding held_ok_def rows mem by auto
  moreover have "\<exists>c \<in> set (tasks w'). wt_batch c = Some b \<and> owner c = Some v" if "(b, v) \<in> set ?h" for b v
    using that [unfolded mem]
  proof
    assume "wt_batch t = Some b \<and> v = u" with o show ?thesis unfolding rows by auto
  next
    assume "(b, v) \<in> set held"
    with h obtain c where "c \<in> set (tasks w)" "wt_batch c = Some b" "owner c = Some v" unfolding held_ok_def by blast
    with o show ?thesis unfolding rows by auto
  qed
  ultimately show ?thesis unfolding held_ok_def by blast
qed

lemma dispatch_one_skip:
  "\<not> dispatchable (clock w) t \<or> candidates available t (dp_held p) = []
    \<Longrightarrow> dispatch_one wh actor device available minutes t (p, as, w) = (p, as, w)"
  by (auto simp: dispatch_one_def Let_def)

lemma dispatch_one_assign:
  assumes d: "dispatchable (clock w) t" "candidates available t (dp_held p) \<noteq> []"
    and st: "dispatch_one wh actor device available minutes t (p, as, w) = (p', as', w')"
  obtains k r where "k = choose_worker (candidates available t (dp_held p)) p"
    "k \<in> set (candidates available t (dp_held p))"
    "dp_load p' = (dp_load p)(wk_name k := dp_load p (wk_name k) + minutes t)"
    "dp_held p' = (case wt_batch t of None \<Rightarrow> dp_held p | Some b \<Rightarrow> (b, wk_name k) # dp_held p)"
    "as' = as @ [Assignment (wt_id t) (wk_name k) (minutes t) r]"
    "w' = dispatch_to wh actor device t (wk_name k) (minutes t) (round1 (dp_load p (wk_name k))) r w"
  using that [OF refl chosen_candidate [OF d(2)]] d st by (auto simp: dispatch_one_def Let_def)

lemma dispatch_one_inv:
  assumes inv: "dispatch_inv wh (t # ts) p w"
    and st: "dispatch_one wh actor device available minutes t (p, as, w) = (p', as', w')"
  shows "dispatch_inv wh ts p' w' \<and> clock w' = clock w"
proof (cases "\<not> dispatchable (clock w) t \<or> candidates available t (dp_held p) = []")
  case True
  with dispatch_one_skip [OF True, of wh actor device minutes as] st inv show ?thesis by (simp add: dispatch_inv_def)
next
  case False
  then have d: "dispatchable (clock w) t" "candidates available t (dp_held p) \<noteq> []" by simp_all
  obtain k r where k: "k \<in> set (candidates available t (dp_held p))"
    and held: "dp_held p' = (case wt_batch t of None \<Rightarrow> dp_held p | Some b \<Rightarrow> (b, wk_name k) # dp_held p)"
    and w': "w' = dispatch_to wh actor device t (wk_name k) (minutes t) (round1 (dp_load p (wk_name k))) r w"
    by (rule dispatch_one_assign [OF d st])
  have ok: "work_ok w" and h: "held_ok wh (dp_held p) w" and t: "t \<in> set (tasks w)" "wt_wh t = wh"
    and ds: "distinct (map wt_id (t # ts))" and ts: "\<forall>x \<in> set ts. x \<in> set (tasks w) \<and> wt_wh x = wh"
    using inv unfolding dispatch_inv_def by auto
  have "work_ok w'" unfolding w'
    by (rule dispatch_to_ok [OF ok t(1) dispatchable_waiting [OF d(1)] candidate_apart [OF ok h t k]])
  moreover have "held_ok wh (dp_held p') w'"
    unfolding held by (rule held_ok_assign [OF ok h t d(1)]) (simp add: w')
  moreover have "\<forall>x \<in> set ts. x \<in> set (tasks w')"
  proof
    fix x assume x: "x \<in> set ts"
    have "wt_id t \<notin> wt_id ` set ts" using ds by simp
    then have "wt_id x \<noteq> wt_id t" using imageI [OF x, of wt_id] by metis
    with ts x show "x \<in> set (tasks w')" unfolding w' dispatch_to_fields by (intro in_upd_other) auto
  qed
  ultimately show ?thesis using ds ts by (simp add: dispatch_inv_def w')
qed

text \<open>What becomes of a task: it is given to an available worker who is granted its kind, or every such
  worker is already on its batch.\<close>

definition placed :: "worker list \<Rightarrow> wtask \<Rightarrow> wtask \<Rightarrow> bool" where
  "placed available t x \<longleftrightarrow> (\<exists>k \<in> set available. wt_kind t \<in> set (wk_kinds k)
     \<and> (\<exists>e r n a. x = assign_row (Some (wk_name k)) e r n a t))"

definition blocked :: "worker list \<Rightarrow> wtask \<Rightarrow> work \<Rightarrow> bool" where
  "blocked available t w \<longleftrightarrow> (\<forall>k \<in> set available. wt_kind t \<in> set (wk_kinds k) \<longrightarrow> floor_kind (wt_kind t) \<and> wt_batch t \<noteq> None
     \<and> (\<exists>c \<in> set (tasks w). wt_batch c = wt_batch t \<and> owner c = Some (wk_name k)))"

definition outcome :: "worker list \<Rightarrow> wtask \<Rightarrow> work \<Rightarrow> work \<Rightarrow> bool" where
  "outcome available t w w' \<longleftrightarrow>
     (if dispatchable (clock w) t
      then (\<exists>x \<in> set (tasks w'). placed available t x) \<or> t \<in> set (tasks w') \<and> blocked available t w'
      else t \<in> set (tasks w'))"

definition owners_stay :: "work \<Rightarrow> work \<Rightarrow> bool" where
  "owners_stay w w' \<longleftrightarrow> (\<forall>x \<in> set (tasks w). \<forall>u. owner x = Some u \<longrightarrow>
     (\<exists>c \<in> set (tasks w'). wt_batch c = wt_batch x \<and> owner c = Some u))"

lemma owners_stay_trans: "owners_stay u v \<Longrightarrow> owners_stay v w \<Longrightarrow> owners_stay u w"
  unfolding owners_stay_def by metis

lemma blocked_mono: "blocked av t w \<Longrightarrow> owners_stay w w' \<Longrightarrow> blocked av t w'"
  unfolding blocked_def owners_stay_def by metis

lemma no_candidates_blocked:
  assumes "held_ok wh held w" "candidates available t held = []"
  shows "blocked available t w"
  unfolding blocked_def
proof (intro ballI impI)
  fix k assume k: "k \<in> set available" "wt_kind t \<in> set (wk_kinds k)"
  with assms(2) obtain b where b: "wt_batch t = Some b" "floor_kind (wt_kind t)" "(b, wk_name k) \<in> set held"
    by (auto simp: candidates_def filter_empty_conv split: option.splits)
  with assms(1) obtain c where "c \<in> set (tasks w)" "wt_batch c = Some b" "owner c = Some (wk_name k)"
    unfolding held_ok_def by blast
  with b show "floor_kind (wt_kind t) \<and> wt_batch t \<noteq> None
      \<and> (\<exists>c \<in> set (tasks w). wt_batch c = wt_batch t \<and> owner c = Some (wk_name k))" by auto
qed

lemma dispatch_one_outcome:
  assumes inv: "dispatch_inv wh (t # ts) p w"
    and st: "dispatch_one wh actor device available minutes t (p, as, w) = (p', as', w')"
  shows "outcome available t w w' \<and> owners_stay w w' \<and> set (tasks w) - {t} \<subseteq> set (tasks w')"
proof (cases "\<not> dispatchable (clock w) t \<or> candidates available t (dp_held p) = []")
  case True
  with dispatch_one_skip [OF True, of wh actor device minutes as] st
  have "w' = w" by simp
  with True inv show ?thesis
    using no_candidates_blocked [of wh "dp_held p" w available t]
    by (auto simp: outcome_def owners_stay_def dispatch_inv_def)
next
  case False
  then have d: "dispatchable (clock w) t" "candidates available t (dp_held p) \<noteq> []" by simp_all
  obtain k r where k: "k \<in> set (candidates available t (dp_held p))"
    and w': "w' = dispatch_to wh actor device t (wk_name k) (minutes t) (round1 (dp_load p (wk_name k))) r w"
    by (rule dispatch_one_assign [OF d st])
  have ok: "work_ok w" and t: "t \<in> set (tasks w)" using inv unfolding dispatch_inv_def by auto
  let ?x = "assign_row (Some (wk_name k)) (minutes t) r (clock w) actor t"
  have rows: "set (tasks w') = insert ?x (set (tasks w) - {t})"
    unfolding w' dispatch_to_fields using ok t by (intro upd_rows) (simp_all add: work_ok_def keys_ok_def)
  have "k \<in> set available" "wt_kind t \<in> set (wk_kinds k)" using k by (simp_all add: candidates_def)
  then have "placed available t ?x" unfolding placed_def by blast
  then have "outcome available t w w'" using d(1) unfolding outcome_def rows by auto
  moreover have "owners_stay w w'"
    using dispatchable_free [OF ok t d(1)] unfolding owners_stay_def rows by auto
  ultimately show ?thesis unfolding rows by blast
qed

lemma dispatch_run:
  assumes "dispatch_inv wh ts p w"
    and "fold (dispatch_one wh actor device available minutes) ts (p, as, w) = (p', as', w')"
  shows "work_ok w' \<and> clock w' = clock w \<and> owners_stay w w' \<and> (\<forall>x \<in> set (tasks w). wt_id x \<notin> wt_id ` set ts \<longrightarrow> x \<in> set (tasks w'))
    \<and> (\<forall>t \<in> set ts. outcome available t w w')"
  using assms
proof (induction ts arbitrary: p as w)
  case Nil
  then show ?case by (auto simp: dispatch_inv_def owners_stay_def)
next
  case (Cons t ts)
  obtain p1 as1 w1 where one: "dispatch_one wh actor device available minutes t (p, as, w) = (p1, as1, w1)"
    by (metis prod_cases3)
  have inv: "dispatch_inv wh ts p1 w1" and c1: "clock w1 = clock w"
    using dispatch_one_inv [OF Cons.prems(1) one] by simp_all
  have o1: "outcome available t w w1" "owners_stay w w1" "set (tasks w) - {t} \<subseteq> set (tasks w1)"
    using dispatch_one_outcome [OF Cons.prems(1) one] by blast+
  have run: "fold (dispatch_one wh actor device available minutes) ts (p1, as1, w1) = (p', as', w')"
    using Cons.prems(2) one by simp
  note ih = Cons.IH [OF inv run]
  have ids: "wt_id t \<notin> wt_id ` set ts" using Cons.prems(1) by (simp add: dispatch_inv_def)
  have keep: "x \<in> set (tasks w')" if "x \<in> set (tasks w1)" "wt_id x = wt_id t" for x using ih that ids by auto
  have "outcome available t w w'"
    using o1(1) keep ih blocked_mono [of available t w1 w'] unfolding outcome_def placed_def
    by (metis assign_row_simps(1))
  moreover have "outcome available x w w'" if "x \<in> set ts" for x
    using ih that unfolding outcome_def c1 by blast
  moreover have "x \<in> set (tasks w')" if "x \<in> set (tasks w)" "wt_id x \<notin> wt_id ` set (t # ts)" for x
    using ih that o1(3) by auto
  ultimately show ?case using ih c1 owners_stay_trans [OF o1(2)] by auto
qed

lemma dispatch_inv_start: "work_ok w \<Longrightarrow> dispatch_inv wh (open_tasks wh w) (dispatch_start wh w) w"
  unfolding dispatch_inv_def dispatch_start_def open_tasks_def
  by (auto simp: held_ok_start work_ok_def keys_ok_def distinct_map intro: inj_on_subset)

lemma auto_dispatch_run:
  assumes "work_ok w"
  shows "dispatch_inv wh (open_tasks wh w) (dispatch_start wh w) w
    \<and> fold (dispatch_one wh actor device (available_workers wh w) (task_estimate wh w)) (open_tasks wh w)
       (dispatch_start wh w, [], w) = (fst (fold (dispatch_one wh actor device (available_workers wh w) (task_estimate wh w))
         (open_tasks wh w) (dispatch_start wh w, [], w)), auto_dispatch wh actor device w)"
  using dispatch_inv_start [OF assms] by (simp add: auto_dispatch_def)

lemma auto_dispatch_ok: "work_ok w \<Longrightarrow> work_ok (snd (auto_dispatch wh actor device w))"
  using auto_dispatch_run [of w wh actor device] dispatch_run by (metis prod.collapse)

section \<open>The work is spread evenly\<close>

lemma round1_ge1: "1 \<le> x \<Longrightarrow> 1 \<le> round1 x"
proof -
  assume "1 \<le> x"
  then have "10 \<le> \<lfloor>10 * x\<rfloor>" by (simp add: le_floor_iff)
  then have "10 \<le> round_even (10 * x)" by (auto simp: round_even_def Let_def)
  then have "(of_int 10 :: rat) \<le> of_int (round_even (10 * x))" by (simp only: of_int_le_iff)
  then show ?thesis by (simp add: round1_def)
qed

lemma estimate_ge1: "1 \<le> estimate_minutes rates k orders skus units level"
  unfolding estimate_minutes_def Let_def by (rule round1_ge1) simp

lemma task_estimate_pos: "0 < task_estimate wh w t"
  using estimate_ge1 by (auto simp: task_estimate_def Let_def not_le intro: less_le_trans [OF zero_less_one])

text \<open>The minutes a run gave to a worker.\<close>

definition given :: "assignment list \<Rightarrow> string \<Rightarrow> rat" where
  "given as u = sum_list (map as_minutes (filter (\<lambda>x. as_worker x = u) as))"

lemma given_simps [simp]:
  "given [] u = 0" "given (x # xs) u = (if as_worker x = u then as_minutes x else 0) + given xs u"
  "given (xs @ ys) u = given xs u + given ys u"
  by (simp_all add: given_def)

text \<open>The task behind an assignment could also have gone to \<open>k\<close>.\<close>

definition open_to :: "worker \<Rightarrow> wtask list \<Rightarrow> work \<Rightarrow> assignment \<Rightarrow> bool" where
  "open_to k ts w x \<longleftrightarrow> (\<forall>t \<in> set ts. wt_id t = as_task x \<longrightarrow> wt_kind t \<in> set (wk_kinds k)
     \<and> (wt_batch t \<noteq> None \<longrightarrow> (\<forall>c \<in> set (tasks w). wt_batch c = wt_batch t \<longrightarrow> owner c \<noteq> Some (wk_name k))))"

lemma open_to_candidate:
  assumes "held_ok wh held w" "owners_stay w w'" "k \<in> set available" "open_to k (t # ts) w' (Assignment (wt_id t) u e r)"
  shows "k \<in> set (candidates available t held)"
proof -
  have "False" if b: "wt_batch t = Some b" "(b, wk_name k) \<in> set held" for b
  proof -
    from assms(1) b(2) obtain c where "c \<in> set (tasks w)" "wt_batch c = Some b" "owner c = Some (wk_name k)"
      unfolding held_ok_def by blast
    with assms(2) obtain c' where "c' \<in> set (tasks w')" "wt_batch c' = Some b" "owner c' = Some (wk_name k)"
      unfolding owners_stay_def by metis
    with assms(4) b(1) show False by (simp add: open_to_def)
  qed
  with assms(3,4) show ?thesis by (auto simp: candidates_def open_to_def split: option.splits)
qed

lemma dispatch_fair:
  assumes "dispatch_inv wh ts p w" "\<And>t. 0 \<le> minutes t" "k \<in> set available" "u \<noteq> wk_name k"
    and "fold (dispatch_one wh actor device available minutes) ts (p, as, w) = (p', as', w')"
  shows "\<exists>new. as' = as @ new \<and> (\<forall>z. dp_load p' z = dp_load p z + given new z)
    \<and> ((\<forall>x \<in> set new. as_worker x = u \<longrightarrow> as_minutes x \<le> m \<and> open_to k ts w' x)
      \<longrightarrow> dp_load p u \<le> dp_load p (wk_name k) + m \<or> (\<exists>x \<in> set new. as_worker x = u)
      \<longrightarrow> dp_load p' u \<le> dp_load p' (wk_name k) + m)"
  using assms(1,5)
proof (induction ts arbitrary: p as w)
  case Nil
  then show ?case by simp
next
  case (Cons t ts)
  let ?v = "wk_name k"
  obtain p1 as1 w1 where one: "dispatch_one wh actor device available minutes t (p, as, w) = (p1, as1, w1)"
    by (metis prod_cases3)
  have inv: "dispatch_inv wh ts p1 w1" using dispatch_one_inv [OF Cons.prems(1) one] by simp
  have run: "fold (dispatch_one wh actor device available minutes) ts (p1, as1, w1) = (p', as', w')"
    using Cons.prems(2) one by simp
  obtain new where new: "as' = as1 @ new" "\<And>z. dp_load p' z = dp_load p1 z + given new z"
    and ih: "\<forall>x \<in> set new. as_worker x = u \<longrightarrow> as_minutes x \<le> m \<and> open_to k ts w' x \<Longrightarrow>
      dp_load p1 u \<le> dp_load p1 ?v + m \<or> (\<exists>x \<in> set new. as_worker x = u) \<Longrightarrow> dp_load p' u \<le> dp_load p' ?v + m"
    using Cons.IH [OF inv run] by blast
  have sub: "open_to k (t # ts) w' x \<Longrightarrow> open_to k ts w' x" for x by (simp add: open_to_def)
  show ?case
  proof (cases "\<not> dispatchable (clock w) t \<or> candidates available t (dp_held p) = []")
    case True
    with dispatch_one_skip [OF True, of wh actor device minutes as] one have "p1 = p" "as1 = as" by simp_all
    with new ih sub show ?thesis by (intro exI [of _ new]) blast
  next
    case False
    then have d: "dispatchable (clock w) t" "candidates available t (dp_held p) \<noteq> []" by simp_all
    obtain c r where c: "c = choose_worker (candidates available t (dp_held p)) p"
      and step: "dp_load p1 = (dp_load p)(wk_name c := dp_load p (wk_name c) + minutes t)"
        "as1 = as @ [Assignment (wt_id t) (wk_name c) (minutes t) r]"
      by (rule dispatch_one_assign [OF d one])
    let ?A = "Assignment (wt_id t) (wk_name c) (minutes t) r"
    have stay: "owners_stay w w'" using dispatch_run [OF Cons.prems] by blast
    have h: "held_ok wh (dp_held p) w" using Cons.prems(1) by (simp add: dispatch_inv_def)
    have least: "dp_load p u \<le> dp_load p ?v" if "wk_name c = u" "open_to k (t # ts) w' ?A"
      using chosen_least [OF open_to_candidate [OF h stay assms(3) that(2)], of p] that(1) c by simp
    have now: "dp_load p1 u \<le> dp_load p1 ?v + m \<or> (\<exists>x \<in> set new. as_worker x = u)"
      if "dp_load p u \<le> dp_load p ?v + m \<or> (\<exists>x \<in> set (?A # new). as_worker x = u)"
        "wk_name c = u \<Longrightarrow> minutes t \<le> m \<and> open_to k (t # ts) w' ?A"
    proof (cases "wk_name c = u")
      case True
      with least that(2) assms(4) show ?thesis by (auto simp: step(1))
    next
      case False
      with that(1) assms(2) [of t] show ?thesis by (auto simp: step(1))
    qed
    have "dp_load p' z = dp_load p z + given (?A # new) z" for z
      by (simp add: new(2) step(1))
    moreover have "as' = as @ ?A # new" by (simp add: new(1) step(2))
    moreover have "dp_load p' u \<le> dp_load p' ?v + m"
      if a: "\<forall>x \<in> set (?A # new). as_worker x = u \<longrightarrow> as_minutes x \<le> m \<and> open_to k (t # ts) w' x"
        and b: "dp_load p u \<le> dp_load p ?v + m \<or> (\<exists>x \<in> set (?A # new). as_worker x = u)"
    proof (rule ih)
      show "\<forall>x \<in> set new. as_worker x = u \<longrightarrow> as_minutes x \<le> m \<and> open_to k ts w' x" using a sub by auto
      show "dp_load p1 u \<le> dp_load p1 ?v + m \<or> (\<exists>x \<in> set new. as_worker x = u)"
        by (rule now [OF b]) (use a in auto)
    qed
    ultimately show ?thesis by (intro exI [of _ "?A # new"]) blast
  qed
qed

lemma auto_dispatch_fold:
  assumes "auto_dispatch wh actor device w = (as, w')"
  obtains p' where "fold (dispatch_one wh actor device (available_workers wh w) (task_estimate wh w)) (open_tasks wh w)
     (dispatch_start wh w, [], w) = (p', as, w')"
  using assms by (metis auto_dispatch_def prod.collapse)

lemma open_tasks_iff: "t \<in> set (open_tasks wh w) \<longleftrightarrow> t \<in> set (tasks w) \<and> wt_wh t = wh \<and> \<not> terminal (wt_state t)"
  by (auto simp: open_tasks_def)

lemma dispatchable_open: "dispatchable n t \<Longrightarrow> \<not> terminal (wt_state t)"
  by (simp add: dispatchable_def terminal_def)

text \<open>
  Claim C17. One dispatch serves every ready task that nobody holds: the task is given to an available worker
  of the warehouse who is granted its kind, unless every such worker already holds a task of the same Pack
  Note (the picker and the packer must differ), in which case it stays queued unchanged. Every other task of
  the database is left as it was.
\<close>

theorem dispatch_serves_every_ready_task:
  assumes "work_ok w" "auto_dispatch wh actor device w = (as, w')" "t \<in> set (tasks w)"
  shows "if wt_wh t = wh \<and> dispatchable (clock w) t
    then (\<exists>k \<in> set (available_workers wh w). wt_kind t \<in> set (wk_kinds k)
           \<and> (\<exists>e r n a. assign_row (Some (wk_name k)) e r n a t \<in> set (tasks w')))
         \<or> t \<in> set (tasks w') \<and> (\<forall>k \<in> set (available_workers wh w). wt_kind t \<in> set (wk_kinds k) \<longrightarrow>
             floor_kind (wt_kind t) \<and> wt_batch t \<noteq> None
             \<and> (\<exists>c \<in> set (tasks w'). wt_batch c = wt_batch t \<and> owner c = Some (wk_name k)))
    else t \<in> set (tasks w')"
proof -
  obtain p' where run: "fold (dispatch_one wh actor device (available_workers wh w) (task_estimate wh w)) (open_tasks wh w)
     (dispatch_start wh w, [], w) = (p', as, w')" by (rule auto_dispatch_fold [OF assms(2)])
  note out = dispatch_run [OF dispatch_inv_start [OF assms(1)] run]
  have key: "x = t" if "x \<in> set (open_tasks wh w)" "wt_id x = wt_id t" for x
    using that assms(1,3) key_inj [of wt_id "tasks w" x t] by (simp add: open_tasks_iff work_ok_def keys_ok_def)
  show ?thesis
  proof (cases "t \<in> set (open_tasks wh w)")
    case True
    with out have "outcome (available_workers wh w) t w w'" by blast
    with True show ?thesis unfolding outcome_def placed_def blocked_def open_tasks_iff by auto
  next
    case False
    with key have "wt_id t \<notin> wt_id ` set (open_tasks wh w)" by (metis imageE)
    with out assms(3) have "t \<in> set (tasks w')" by blast
    with False assms(3) dispatchable_open show ?thesis by (auto simp: open_tasks_iff)
  qed
qed

text \<open>
  Claim C22. Dispatch spreads the work: a worker who is given anything ends with at most the work of any other
  available worker who could have had the same tasks, plus one task. A worker's work is what was open
  before the run and what the run gives.
\<close>

theorem dispatch_balances_work:
  assumes "work_ok w" "auto_dispatch wh actor device w = (as, w')"
    and "k \<in> set (available_workers wh w)" "u \<noteq> wk_name k" "x \<in> set as" "as_worker x = u"
    and "\<And>y. y \<in> set as \<Longrightarrow> as_worker y = u \<Longrightarrow> as_minutes y \<le> m \<and> open_to k (open_tasks wh w) w' y"
  shows "open_load wh w u + given as u \<le> open_load wh w (wk_name k) + given as (wk_name k) + m"
proof -
  obtain p' where run: "fold (dispatch_one wh actor device (available_workers wh w) (task_estimate wh w)) (open_tasks wh w)
     (dispatch_start wh w, [], w) = (p', as, w')" by (rule auto_dispatch_fold [OF assms(2)])
  obtain new where "as = [] @ new" and load: "\<And>z. dp_load p' z = dp_load (dispatch_start wh w) z + given new z"
    and fair: "(\<forall>y \<in> set new. as_worker y = u \<longrightarrow> as_minutes y \<le> m \<and> open_to k (open_tasks wh w) w' y) \<Longrightarrow>
      (\<exists>y \<in> set new. as_worker y = u) \<Longrightarrow> dp_load p' u \<le> dp_load p' (wk_name k) + m"
    using dispatch_fair [OF dispatch_inv_start [OF assms(1)] less_imp_le [OF task_estimate_pos] assms(3,4) run] by blast
  then have "dp_load p' u \<le> dp_load p' (wk_name k) + m" using assms(5-7) by auto
  then show ?thesis using load \<open>as = [] @ new\<close> by (simp add: dispatch_start_def)
qed

section \<open>Availability and assignment keep the tables sound\<close>

lemma put_worker_day_same: "same_tasks w (put_worker_day wh uid s capacity status_note actor w)"
  by (simp add: same_tasks_def kept_def put_worker_day_def Let_def stops_def)

lemma release_task_ok:
  assumes "work_ok w" "get_task i w = Some t" "waiting t"
  shows "work_ok (release_task user actor s i w)"
  using release_row_ok [OF assms(1) _ assms(3)] get_task_in [OF assms(2)]
  by (auto simp: release_task_def quiet_ok)

lemma release_task_fields [simp]:
  "tasks (release_task user actor s i w) = upd (\<lambda>x. wt_id x = i)
     (release_row (''Released because '' @ user @ '' is '' @ lower_text (availability_text s)) actor) (tasks w)"
  by (simp add: release_task_def)

lemma releases_ok:
  assumes "work_ok w" "distinct is" "\<forall>i \<in> set is. \<exists>t. get_task i w = Some t \<and> waiting t"
  shows "work_ok (fold (release_task user actor s) is w)"
  using assms
proof (induction "is" arbitrary: w)
  case Nil
  then show ?case by simp
next
  case (Cons i ids)
  then obtain t where t: "get_task i w = Some t" "waiting t" by auto
  let ?w = "release_task user actor s i w"
  have ok: "work_ok ?w" by (rule release_task_ok [OF Cons.prems(1) t])
  have "get_task j ?w = get_task j w" if "j \<noteq> i" for j
  proof -
    have "get_task j ?w = map_option (\<lambda>x. if wt_id x = i then release_row (''Released because '' @ user @ '' is '' @ lower_text (availability_text s)) actor x else x) (get_task j w)"
      unfolding get_task_def release_task_fields by (rule find_upd) simp
    then show ?thesis using that get_task_in [of j w] by (cases "get_task j w") auto
  qed
  with Cons.prems(2,3) have "\<forall>j \<in> set ids. \<exists>t. get_task j ?w = Some t \<and> waiting t" by (metis distinct.simps(2) list.set_intros(2))
  with Cons.IH [OF ok] Cons.prems(2) show ?case by simp
qed

lemma set_worker_availability_ok:
  assumes ok: "work_ok w" and r: "set_worker_availability wh uid s capacity actor status_note w = Inr (x, w')"
  shows "work_ok w'"
proof -
  let ?w1 = "put_worker_day wh uid s capacity status_note actor w"
  have ok1: "work_ok ?w1" by (rule same_tasks_ok [OF ok put_worker_day_same])
  from r obtain e where e: "List.find (\<lambda>e. em_id e = uid) (staff w) = Some e" "\<not> (em_admin e \<or> \<not> em_active e \<or> \<not> works_at wh e)"
    by (auto simp: set_worker_availability_def split: option.splits if_splits)
  define released where "released = (if s = AV_AVAILABLE then [] else map wt_id (filter (waiting_for wh (em_name e)) (tasks ?w1)))"
  define w2 where "w2 = fold (release_task (em_name e) actor s) released ?w1"
  have w': "\<exists>j. w' = snd (auto_dispatch wh actor (Some ''dispatch-engine'') (waudit ''WORKER_AVAILABILITY_CHANGED'' ''USER'' uid actor wh j w2))"
    using r e by (auto simp: set_worker_availability_def Let_def split_beta released_def [symmetric] w2_def [symmetric])
  have "distinct released"
    using ok1 by (simp add: released_def work_ok_def keys_ok_def distinct_map_filter)
  moreover have "\<forall>i \<in> set released. \<exists>t. get_task i ?w1 = Some t \<and> waiting t"
    using get_task_key [of ?w1] ok1 by (auto simp: released_def waiting_for_def waiting_def work_ok_def split: if_splits)
  ultimately have "work_ok w2" unfolding w2_def by (rule releases_ok [OF ok1])
  with w' show ?thesis using auto_dispatch_ok quiet_ok by blast
qed

lemma assignment_error_apart: "assignment_error t u w = None \<Longrightarrow> \<not> holds_counterpart t u w"
  by (auto simp: assignment_error_def split: option.splits if_splits)

lemma assign_task_ok:
  assumes ok: "work_ok w" and r: "assign_task i u actor reason w = Inr (wh, w')"
  shows "work_ok w'"
proof -
  from r obtain t where g: "get_task i w = Some t" and wt: "waiting t"
    and e: "truthy u \<Longrightarrow> assignment_error t (the u) w = None"
    by (auto simp: assign_task_def waiting_def split: option.splits if_splits)
  from get_task_in [OF g] have t: "t \<in> set (tasks w)" "wt_id t = i" by blast+
  have "work_ok (set_task i (assign_row u est why n actor) w)" for est why n
    unfolding t(2) [symmetric] using assignment_error_apart [OF e]
    by (intro assign_row_ok [OF ok t(1) wt]) (simp add: truthy_def)
  with r g show ?thesis by (auto simp: assign_task_def Let_def quiet_ok split: option.splits if_splits)
qed

lemma run_dispatch_ok: "work_ok w \<Longrightarrow> run_dispatch c wh w = Inr (x, w') \<Longrightarrow> work_ok w'"
  using auto_dispatch_ok [of w wh "cr_user c" "Some ''supervisor-web''"] by (auto simp: run_dispatch_def split: if_splits)

lemma update_task_assignment_ok:
  assumes ok: "work_ok w" and r: "update_task_assignment c i u reason w = Inr (x, w')"
  shows "work_ok w'"
proof -
  from r obtain wh w1 where a: "assign_task i u (cr_user c) reason w = Inr (wh, w1)"
    and w': "w' = w1 \<or> w' = snd (auto_dispatch wh (cr_user c) (Some ''dispatch-engine'') w1)"
    by (auto simp: update_task_assignment_def split_beta split: option.splits if_splits sum.splits)
  with assign_task_ok [OF ok a] auto_dispatch_ok show ?thesis by blast
qed

section \<open>A small queue\<close>

definition demo_worker :: "int \<Rightarrow> string \<Rightarrow> string list \<Rightarrow> employee" where
  "demo_worker i n fs = \<lparr>em_id = i, em_name = n, em_full = n, em_admin = False, em_active = True, em_functions = fs,
     em_wh = Some 1, em_whs = [1]\<rparr>"

definition demo_arrival :: wtask where
  "demo_arrival = (fresh_task 1 1 K_RECEIVING ''boss'' 0)\<lparr>wt_skus := 2, wt_units := 10\<rparr>"

definition demo_queue :: work where
  "demo_queue = empty_work\<lparr>tasks := [demo_arrival], wseq := (\<lambda>_. 2),
     staff := [demo_worker 2 ''ann'' [''receive''], demo_worker 3 ''bob'' [''receive'']]\<rparr>"

lemma demo_queue_ok: "work_ok demo_queue"
  by (simp add: work_ok_def demo_queue_def demo_arrival_def empty_work_def fresh_task_def keys_ok_def housed_def one_active_def
      apart_def lifecycle_def timed_def scanned_def counterpart_of_def)

definition demo_ann :: worker where
  "demo_ann = \<lparr>wk_id = 2, wk_name = ''ann'', wk_full = ''ann'', wk_kinds = [K_RECEIVING], wk_state = AV_AVAILABLE,
     wk_capacity = 480, wk_note = None\<rparr>"

definition demo_bob :: worker where
  "demo_bob = \<lparr>wk_id = 3, wk_name = ''bob'', wk_full = ''bob'', wk_kinds = [K_RECEIVING], wk_state = AV_AVAILABLE,
     wk_capacity = 480, wk_note = None\<rparr>"

lemma demo_workers: "available_workers 1 demo_queue = [demo_ann, demo_bob]"
  by code_simp

lemma demo_open: "open_tasks 1 demo_queue = [demo_arrival]"
  by code_simp

lemma demo_estimate: "task_estimate 1 demo_queue demo_arrival = 49 / 5"
  by code_simp

lemma demo_choice: "choose_worker [demo_ann, demo_bob] (dispatch_start 1 demo_queue) = demo_ann"
proof -
  have "lower_text ''ann'' \<le> lower_text ''bob''" by code_simp
  then show ?thesis
    by (simp add: choose_worker_def dispatch_start_def open_load_def open_count_def demo_open demo_ann_def demo_bob_def
        demo_arrival_def fresh_task_def holder_def truthy_def less_eq_prod_def)
qed

lemma demo_dispatch:
  "\<exists>r. auto_dispatch 1 ''boss'' None demo_queue =
     ([Assignment 1 ''ann'' (49 / 5) r], dispatch_to 1 ''boss'' None demo_arrival ''ann'' (49 / 5) 0 r demo_queue)"
proof -
  have "dispatchable (clock demo_queue) demo_arrival" "candidates [demo_ann, demo_bob] demo_arrival (dp_held (dispatch_start 1 demo_queue)) = [demo_ann, demo_bob]"
    by (simp_all add: dispatchable_def demo_queue_def empty_work_def demo_arrival_def fresh_task_def truthy_def candidates_def
        demo_ann_def demo_bob_def)
  moreover have "wt_id demo_arrival = 1" "wk_name demo_ann = ''ann''" by (simp_all add: demo_arrival_def fresh_task_def demo_ann_def)
  moreover have "round1 (dp_load (dispatch_start 1 demo_queue) ''ann'') = 0"
    by (simp add: dispatch_start_def open_load_def demo_open holder_def demo_arrival_def fresh_task_def truthy_def round1_def
        round_even_def)
  ultimately show ?thesis
    by (simp add: auto_dispatch_def demo_workers demo_open demo_choice demo_estimate dispatch_one_def Let_def)
qed

theorem dispatch_serves_every_ready_task_witness:
  "\<exists>as w'. auto_dispatch 1 ''boss'' None demo_queue = (as, w')
     \<and> (\<exists>k \<in> set (available_workers 1 demo_queue). \<exists>e r n a. assign_row (Some (wk_name k)) e r n a demo_arrival \<in> set (tasks w'))"
proof -
  obtain as w' where d: "auto_dispatch 1 ''boss'' None demo_queue = (as, w')" by (metis surj_pair)
  have t: "demo_arrival \<in> set (tasks demo_queue)" by (simp add: demo_queue_def)
  have c: "wt_wh demo_arrival = 1 \<and> dispatchable (clock demo_queue) demo_arrival"
    by (simp add: dispatchable_def demo_queue_def empty_work_def demo_arrival_def fresh_task_def truthy_def)
  have "demo_ann \<in> set (available_workers 1 demo_queue)" "wt_kind demo_arrival \<in> set (wk_kinds demo_ann)" "\<not> floor_kind (wt_kind demo_arrival)"
    by (simp_all add: demo_workers demo_arrival_def fresh_task_def demo_ann_def floor_kind_def)
  with dispatch_serves_every_ready_task [OF demo_queue_ok d t] c have
    "\<exists>k \<in> set (available_workers 1 demo_queue). \<exists>e r n a. assign_row (Some (wk_name k)) e r n a demo_arrival \<in> set (tasks w')"
    by simp blast
  with d show ?thesis by blast
qed

theorem dispatch_balances_work_witness:
  "\<exists>as w'. auto_dispatch 1 ''boss'' None demo_queue = (as, w')
     \<and> open_load 1 demo_queue ''ann'' + given as ''ann'' \<le> open_load 1 demo_queue ''bob'' + given as ''bob'' + 10"
proof -
  obtain r where d: "auto_dispatch 1 ''boss'' None demo_queue =
     ([Assignment 1 ''ann'' (49 / 5) r], dispatch_to 1 ''boss'' None demo_arrival ''ann'' (49 / 5) 0 r demo_queue)"
    using demo_dispatch by blast
  have k: "demo_bob \<in> set (available_workers 1 demo_queue)" "wk_name demo_bob = ''bob''" by (simp_all add: demo_workers demo_bob_def)
  have "open_to demo_bob (open_tasks 1 demo_queue) w (Assignment 1 ''ann'' (49 / 5) r)" for w
    by (simp add: open_to_def demo_open demo_bob_def demo_arrival_def fresh_task_def)
  with dispatch_balances_work [OF demo_queue_ok d k(1), of "''ann''" "Assignment 1 ''ann'' (49 / 5) r" 10] k(2) d
  show ?thesis by auto
qed

end
