(* ===== verification/WorkIntake.thy ===== *)
theory WorkIntake
  imports WorkDispatch
begin

text \<open>
  How work enters Work Control, \<^verbatim>\<open>api/routes/work_control.py\<close>: Pack Notes (batches) and their orders, single
  tasks, the scan that finds a batch, and the error cases employees report and supervisors review. The request
  models of \<^verbatim>\<open>api/schemas/work_control.py\<close> are the records below; what their validators enforce is a
  predicate on the request.
\<close>

section \<open>Pack Notes\<close>

record order_entry =
  oe_number :: string
  oe_courier :: "string option"
  oe_platform :: "string option"
  oe_skus :: int
  oe_units :: int

record batch_request =
  br_wh :: int
  br_source :: string
  br_ref :: string
  br_platform :: "string option"
  br_priority :: int
  br_declared :: "int option"
  br_orders :: "order_entry list"
  br_kinds :: "task_kind list"

definition batch_request_ok :: "batch_request \<Rightarrow> bool" where
  "batch_request_ok r \<longleftrightarrow> 0 \<le> br_priority r \<and> br_priority r \<le> 100
     \<and> (case br_declared r of None \<Rightarrow> True | Some n \<Rightarrow> 1 \<le> n \<and> n \<le> 50 \<and> int (length (br_orders r)) \<le> n)
     \<and> br_orders r \<noteq> [] \<and> length (br_orders r) \<le> 50
     \<and> (\<forall>x \<in> set (br_orders r). oe_number x \<noteq> [] \<and> oe_courier x \<noteq> Some [] \<and> 0 \<le> oe_skus x \<and> 0 \<le> oe_units x)
     \<and> distinct (map oe_number (br_orders r))
     \<and> distinct (concat (map (\<lambda>x. case oe_courier x of None \<Rightarrow> [] | Some c \<Rightarrow> [c]) (br_orders r)))
     \<and> br_kinds r \<noteq> [] \<and> distinct (br_kinds r)"

datatype intake_error =
  IE_no_page
| IE_admin_only
| IE_batch_exists int
| IE_no_warehouse
| IE_constraint
| IE_no_batch
| IE_other_warehouse
| IE_dispatch dispatch_error
| IE_denied
| IE_ambiguous
| IE_own_task_only
| IE_no_task
| IE_not_your_task
| IE_task_batch_mismatch
| IE_no_order
| IE_order_batch_mismatch
| IE_not_in_note
| IE_no_case
| IE_case_closed case_status

definition declared_orders :: "batch_request \<Rightarrow> int" where
  "declared_orders r = (case br_declared r of None \<Rightarrow> int (length (br_orders r)) | Some n \<Rightarrow> n)"

text \<open>\<open>INSERT INTO work_tasks\<close>: the idempotency key is unique.\<close>

definition insert_task :: "(int \<Rightarrow> wtask) \<Rightarrow> work \<Rightarrow> (int \<times> work) option" where
  "insert_task row w =
     (let (i, w1) = wnextval WS_task w; t = row i
      in if wt_key t \<noteq> None \<and> (\<exists>x \<in> set (tasks w). wt_key x = wt_key t) then None
         else Some (i, w1\<lparr>tasks := tasks w1 @ [t]\<rparr>))"

text \<open>\<open>INSERT INTO work_batch_orders\<close>, with the table's unique keys and its trigger.\<close>

definition insert_order :: "int \<Rightarrow> string option \<Rightarrow> order_entry \<Rightarrow> work \<Rightarrow> work option" where
  "insert_order b platform x w =
     (let mine = filter (\<lambda>r. wo_note r = b) (note_orders w); (i, w1) = wnextval WS_order w
      in if 50 \<le> length mine \<or> (\<exists>r \<in> set mine. wo_number r = oe_number x \<or> (oe_courier x \<noteq> None \<and> wo_courier r = oe_courier x))
         then None
         else Some (w1\<lparr>note_orders := note_orders w1 @
                [\<lparr>wo_id = i, wo_note = b, wo_number = oe_number x, wo_courier = oe_courier x,
                  wo_platform = (if truthy (oe_platform x) then oe_platform x else platform),
                  wo_skus = oe_skus x, wo_units = oe_units x\<rparr>]\<rparr>))"

fun insert_orders :: "int \<Rightarrow> string option \<Rightarrow> order_entry list \<Rightarrow> work \<Rightarrow> work option" where
  "insert_orders b platform [] w = Some w"
| "insert_orders b platform (x # xs) w =
     (case insert_order b platform x w of None \<Rightarrow> None | Some w1 \<Rightarrow> insert_orders b platform xs w1)"

definition batch_task :: "batch_request \<Rightarrow> int \<Rightarrow> string \<Rightarrow> int \<Rightarrow> task_kind \<Rightarrow> int \<Rightarrow> wtask" where
  "batch_task r b user n k i =
     (fresh_task i (br_wh r) k user n)
       \<lparr>wt_batch := Some b, wt_priority := br_priority r, wt_source := Some (br_ref r),
        wt_key := Some (''batch:'' @ signed_decimal b @ '':'' @ kind_text k @ '':v1''),
        wt_orders := declared_orders r, wt_skus := sum_list (map oe_skus (br_orders r)),
        wt_units := sum_list (map oe_units (br_orders r))\<rparr>"

fun insert_batch_tasks :: "batch_request \<Rightarrow> int \<Rightarrow> string \<Rightarrow> task_kind list \<Rightarrow> work \<Rightarrow> (int list \<times> work) option" where
  "insert_batch_tasks r b user [] w = Some ([], w)"
| "insert_batch_tasks r b user (k # ks) w =
     (case insert_task (batch_task r b user (clock w) k) w of
        None \<Rightarrow> None
      | Some (i, w1) \<Rightarrow>
          (case insert_batch_tasks r b user ks
                  (record_task_event i EV_CREATED user None None
                    (JObj [(''batch_id'', JInt b), (''task_type'', JStr (kind_text k))]) None w1) of
             None \<Rightarrow> None
           | Some (ids, w2) \<Rightarrow> Some (i # ids, w2)))"

definition note_row :: "batch_request \<Rightarrow> string \<Rightarrow> int \<Rightarrow> int \<Rightarrow> wnote" where
  "note_row r user b n =
     \<lparr>wn_id = b, wn_wh = br_wh r, wn_source = br_source r, wn_ref = br_ref r, wn_platform = br_platform r,
      wn_priority = br_priority r, wn_state = NB_OPEN, wn_orders = declared_orders r, wn_by = user, wn_created = n\<rparr>"

definition insert_note :: "batch_request \<Rightarrow> string \<Rightarrow> work \<Rightarrow> int \<times> work" where
  "insert_note r user w =
     (let (b, w1) = wnextval WS_note w
      in (b, w1\<lparr>notes_tbl := notes_tbl w1 @ [note_row r user b (clock w1)]\<rparr>))"

definition create_batch :: "caller \<Rightarrow> batch_request \<Rightarrow> work \<Rightarrow> intake_error + ((int \<times> int list) \<times> work)" where
  "create_batch c r w =
     (if \<not> can_supervise c then Inl IE_no_page
      else if \<not> cr_admin c then Inl IE_admin_only
      else
        (case List.find (\<lambda>n. wn_wh n = br_wh r \<and> wn_source n = br_source r \<and> wn_ref n = br_ref r) (notes_tbl w) of
           Some n \<Rightarrow> Inl (IE_batch_exists (wn_id n))
         | None \<Rightarrow>
             if \<not> (\<exists>x \<in> set (warehouses (base w)). wh_id x = br_wh r) then Inl IE_no_warehouse
             else
               (let (b, w1) = insert_note r (cr_user c) w
                in case insert_orders b (br_platform r) (br_orders r) w1 of
                     None \<Rightarrow> Inl IE_constraint
                   | Some w2 \<Rightarrow>
                       (case insert_batch_tasks r b (cr_user c) (br_kinds r) w2 of
                          None \<Rightarrow> Inl IE_constraint
                        | Some (ids, w3) \<Rightarrow>
                            (let (assigned, w4) = auto_dispatch (br_wh r) (cr_user c) (Some ''dispatch-engine'') w3
                             in Inr ((b, ids),
                                  waudit ''WORK_BATCH_CREATED'' ''WORK_BATCH'' b (cr_user c) (br_wh r)
                                    (JObj [(''pack_note_ref'', JStr (br_ref r)), (''order_count'', JInt (declared_orders r)),
                                           (''task_ids'', JArr (map JInt ids)),
                                           (''auto_assignments'', JArr (map assignment_json assigned))]) w4))))))"

section \<open>Single tasks\<close>

record task_request =
  tr_wh :: int
  tr_kind :: task_kind
  tr_batch :: "int option"
  tr_priority :: int
  tr_assigned :: "string option"
  tr_source :: "string option"
  tr_orders :: int
  tr_skus :: int
  tr_units :: int
  tr_level :: int
  tr_note :: "string option"
  tr_key :: "string option"

definition requested_task :: "task_request \<Rightarrow> string \<Rightarrow> int \<Rightarrow> rat \<Rightarrow> int \<Rightarrow> wtask" where
  "requested_task r user n estimate i =
     (fresh_task i (tr_wh r) (tr_kind r) user n)
       \<lparr>wt_batch := tr_batch r, wt_priority := tr_priority r, wt_source := tr_source r, wt_key := tr_key r,
        wt_orders := tr_orders r, wt_skus := tr_skus r, wt_units := tr_units r, wt_level := tr_level r,
        wt_note := tr_note r, wt_estimate := Some estimate\<rparr>"

definition create_task :: "caller \<Rightarrow> task_request \<Rightarrow> work \<Rightarrow> intake_error + ((int \<times> assignment list) \<times> work)" where
  "create_task c r w =
     (if \<not> can_supervise c then Inl IE_no_page
      else if \<not> cr_admin c then Inl IE_admin_only
      else
        let estimate = estimate_minutes (\<lambda>k. load_dispatch_rate (tr_wh r) k w) (tr_kind r) (tr_orders r) (tr_skus r)
                         (tr_units r) (tr_level r);
            place = (case tr_batch r of None \<Rightarrow> None
                       | Some b \<Rightarrow> (case note_of b w of None \<Rightarrow> Some IE_no_batch
                                     | Some n \<Rightarrow> if wn_wh n \<noteq> tr_wh r then Some IE_other_warehouse else None))
        in case place of
             Some e \<Rightarrow> Inl e
           | None \<Rightarrow>
               if \<not> (\<exists>x \<in> set (warehouses (base w)). wh_id x = tr_wh r) then Inl IE_constraint
               else
                 (case insert_task (requested_task r (cr_user c) (clock w) estimate) w of
                    None \<Rightarrow> Inl IE_constraint
                  | Some (i, w1) \<Rightarrow>
                      let w2 = record_task_event i EV_CREATED (cr_user c) None None
                                 (JObj [(''assigned_to'', jopt JStr (tr_assigned r))]) None w1;
                          w3 = waudit ''WORK_TASK_CREATED'' ''WORK_TASK'' i (cr_user c) (tr_wh r)
                                 (JObj [(''task_type'', JStr (kind_text (tr_kind r))), (''batch_id'', jopt JInt (tr_batch r)),
                                        (''assigned_to'', jopt JStr (tr_assigned r))]) w2
                      in (case tr_assigned r of
                            None \<Rightarrow> let (assigned, w4) = auto_dispatch (tr_wh r) (cr_user c) (Some ''dispatch-engine'') w3
                                    in Inr ((i, assigned), w4)
                          | Some u \<Rightarrow>
                              (case assign_task i (Some u) (cr_user c) (Some (''Assigned when created by '' @ cr_user c)) w3 of
                                 Inl e \<Rightarrow> Inl (IE_dispatch e)
                               | Inr (_, w4) \<Rightarrow> Inr ((i, []), w4)))))"

section \<open>Finding a batch by a scanned code\<close>

definition batch_matches :: "string \<Rightarrow> work \<Rightarrow> wnote \<Rightarrow> bool" where
  "batch_matches code w n \<longleftrightarrow> wn_state n \<noteq> NB_CANCELLED
     \<and> (wn_ref n = code \<or> (\<exists>r \<in> set (note_orders w). wo_note r = wn_id n \<and> (wo_courier r = Some code \<or> wo_number r = code)))"

definition batch_open :: "wnote \<Rightarrow> bool" where
  "batch_open n \<longleftrightarrow> wn_state n = NB_OPEN \<or> wn_state n = NB_IN_PROGRESS"

text \<open>The two best matches of all warehouses are fetched, then the first one's warehouse is checked.\<close>

definition scan_batch :: "caller \<Rightarrow> string \<Rightarrow> work \<Rightarrow> intake_error + wnote" where
  "scan_batch c code w =
     (case take 2 (sort_key (\<lambda>n. (if batch_open n then 0 else 1 :: int, - wn_created n)) (filter (batch_matches code w) (notes_tbl w))) of
        [] \<Rightarrow> Inl IE_no_batch
      | n # rest \<Rightarrow>
          if \<not> check_warehouse_access (cr_session c) (Some (wn_wh n)) then Inl IE_denied
          else (case rest of
                  [] \<Rightarrow> Inr n
                | m # _ \<Rightarrow> if batch_open n \<and> batch_open m then Inl IE_ambiguous else Inr n))"

section \<open>Error cases\<close>

record error_request =
  rq_wh :: int
  rq_task :: "int option"
  rq_batch :: "int option"
  rq_order :: "int option"
  rq_kind :: string
  rq_severity :: severity
  rq_stage :: "string option"
  rq_courier :: "string option"
  rq_number :: "string option"
  rq_sku :: "string option"
  rq_qty :: "int option"
  rq_text :: "string option"

text \<open>The task named by the report, and the batch it settles on.\<close>

definition reported_batch :: "caller \<Rightarrow> error_request \<Rightarrow> work \<Rightarrow> intake_error + int option" where
  "reported_batch c r w =
     (case rq_task r of
        None \<Rightarrow> Inr (rq_batch r)
      | Some i \<Rightarrow>
          (case get_task i w of
             None \<Rightarrow> Inl IE_no_task
           | Some t \<Rightarrow>
               if wt_wh t \<noteq> rq_wh r then Inl IE_no_task
               else if \<not> cr_admin c \<and> wt_assigned t \<noteq> Some (cr_user c) \<and> wt_claimed t \<noteq> Some (cr_user c) then Inl IE_not_your_task
               else (case rq_batch r of
                       None \<Rightarrow> Inr (wt_batch t)
                     | Some b \<Rightarrow> if wt_batch t \<noteq> Some b then Inl IE_task_batch_mismatch else Inr (Some b))))"

text \<open>The order: by its id, or the first of the batch with the courier label or the number.\<close>

definition reported_order :: "error_request \<Rightarrow> int option \<Rightarrow> work \<Rightarrow> intake_error + (wnote_order option \<times> int option)" where
  "reported_order r batch w =
     (case rq_order r of
        Some i \<Rightarrow>
          (case List.find (\<lambda>x. wo_id x = i) (note_orders w) of
             None \<Rightarrow> Inl IE_no_order
           | Some x \<Rightarrow>
               if map_option wn_wh (note_of (wo_note x) w) \<noteq> Some (rq_wh r) then Inl IE_no_order
               else if batch \<noteq> None \<and> batch \<noteq> Some (wo_note x) then Inl IE_order_batch_mismatch
               else Inr (Some x, Some (wo_note x)))
      | None \<Rightarrow>
          if batch = None \<or> \<not> (truthy (rq_courier r) \<or> truthy (rq_number r)) then Inr (None, batch)
          else
            (case sort_key wo_id (filter (\<lambda>x. Some (wo_note x) = batch \<and> note_of (wo_note x) w \<noteq> None
                    \<and> (rq_courier r \<noteq> None \<and> (wo_courier x = rq_courier r \<or> Some (wo_number x) = rq_courier r)
                       \<or> rq_number r \<noteq> None \<and> Some (wo_number x) = rq_number r)) (note_orders w)) of
               [] \<Rightarrow> Inl IE_not_in_note
             | x # _ \<Rightarrow> Inr (Some x, batch)))"

text \<open>The last employee who claimed the batch's picking, or its packing.\<close>

definition last_claimer :: "task_kind \<Rightarrow> int option \<Rightarrow> work \<Rightarrow> string option" where
  "last_claimer k batch w =
     (if batch = None then None
      else case sort_key (\<lambda>t. - wt_id t) (filter (\<lambda>t. wt_batch t = batch \<and> wt_kind t = k \<and> wt_claimed t \<noteq> None) (tasks w)) of
             [] \<Rightarrow> None | t # _ \<Rightarrow> wt_claimed t)"

definition or_else :: "string option \<Rightarrow> string option \<Rightarrow> string option" where
  "or_else x y = (if truthy x then x else y)"

definition error_row :: "caller \<Rightarrow> error_request \<Rightarrow> int option \<Rightarrow> wnote_order option \<Rightarrow> int \<Rightarrow> work \<Rightarrow> work_error_case" where
  "error_row c r batch x i w =
     \<lparr>er_id = i, er_wh = rq_wh r, er_task = rq_task r, er_batch = batch,
      er_order = (case x of None \<Rightarrow> rq_order r | Some y \<Rightarrow> Some (wo_id y)), er_kind = rq_kind r, er_severity = rq_severity r,
      er_state = CS_PENDING, er_blame = RB_UNCONFIRMED, er_stage = rq_stage r, er_by = cr_user c,
      er_picker = last_claimer K_PICKING batch w, er_packer = last_claimer K_PACKING batch w,
      er_courier = (case x of None \<Rightarrow> rq_courier r | Some y \<Rightarrow> or_else (rq_courier r) (wo_courier y)),
      er_number = (case x of None \<Rightarrow> rq_number r | Some y \<Rightarrow> or_else (rq_number r) (Some (wo_number y))),
      er_sku = rq_sku r, er_qty = rq_qty r, er_text = rq_text r, er_resolution = None, er_reviewer = None,
      er_reviewed = None, er_created = clock w\<rparr>"

definition severity_text :: "severity \<Rightarrow> string" where
  "severity_text s = (case s of SV_LOW \<Rightarrow> ''LOW'' | SV_MEDIUM \<Rightarrow> ''MEDIUM'' | SV_HIGH \<Rightarrow> ''HIGH'' | SV_CRITICAL \<Rightarrow> ''CRITICAL'')"

definition file_case :: "caller \<Rightarrow> error_request \<Rightarrow> int option \<Rightarrow> wnote_order option \<Rightarrow> work \<Rightarrow> work_error_case \<times> work" where
  "file_case c r batch x w =
     (let (i, w1) = wnextval WS_error w; row = error_row c r batch x i w1;
          w2 = w1\<lparr>error_cases := error_cases w1 @ [row]\<rparr>;
          w3 = (case rq_task r of
                  None \<Rightarrow> w2
                | Some t \<Rightarrow> record_task_event t EV_EXCEPTION (cr_user c) (Some (rq_kind r)) (rq_text r)
                              (JObj [(''error_id'', JInt i)]) None w2)
      in (row, waudit ''WORK_ERROR_REPORTED'' ''WORK_ERROR'' i (cr_user c) (rq_wh r)
                 (JObj [(''task_id'', jopt JInt (rq_task r)), (''batch_id'', jopt JInt batch),
                        (''error_type'', JStr (rq_kind r)), (''severity'', JStr (severity_text (rq_severity r)))]) w3))"

definition create_error :: "caller \<Rightarrow> error_request \<Rightarrow> work \<Rightarrow> intake_error + (work_error_case \<times> work)" where
  "create_error c r w =
     (if \<not> check_warehouse_access (cr_session c) (Some (rq_wh r)) then Inl IE_denied
      else if \<not> cr_admin c \<and> rq_task r = None then Inl IE_own_task_only
      else
        (case reported_batch c r w of
           Inl e \<Rightarrow> Inl e
         | Inr batch0 \<Rightarrow>
             (case reported_order r batch0 w of
                Inl e \<Rightarrow> Inl e
              | Inr (x, batch) \<Rightarrow>
                  if batch \<noteq> None \<and> map_option wn_wh (note_of (the batch) w) \<noteq> Some (rq_wh r) then Inl IE_no_batch
                  else Inr (file_case c r batch x w))))"

definition case_text :: "case_status \<Rightarrow> string" where
  "case_text s = (case s of CS_PENDING \<Rightarrow> ''PENDING'' | CS_CONFIRMED \<Rightarrow> ''CONFIRMED'' | CS_DISMISSED \<Rightarrow> ''DISMISSED'')"

definition blame_text :: "responsibility \<Rightarrow> string" where
  "blame_text b = (case b of RB_UNCONFIRMED \<Rightarrow> ''UNCONFIRMED'' | RB_PICKER \<Rightarrow> ''PICKER'' | RB_PACKER \<Rightarrow> ''PACKER''
     | RB_BOTH \<Rightarrow> ''BOTH'' | RB_SUPPLIER \<Rightarrow> ''SUPPLIER'' | RB_SOURCE_DATA \<Rightarrow> ''SOURCE_DATA'' | RB_SYSTEM \<Rightarrow> ''SYSTEM''
     | RB_UNKNOWN \<Rightarrow> ''UNKNOWN'')"

text \<open>The review takes any case by its id: the caller's warehouses are not looked at.\<close>

definition review_error :: "caller \<Rightarrow> int \<Rightarrow> case_status \<Rightarrow> responsibility \<Rightarrow> string option \<Rightarrow> work \<Rightarrow> intake_error + work" where
  "review_error c i s blame resolution w =
     (if \<not> can_supervise c then Inl IE_no_page
      else case List.find (\<lambda>x. er_id x = i) (error_cases w) of
        None \<Rightarrow> Inl IE_no_case
      | Some x \<Rightarrow>
          if er_state x \<noteq> CS_PENDING then Inl (IE_case_closed (er_state x))
          else Inr (waudit ''WORK_ERROR_REVIEWED'' ''WORK_ERROR'' i (cr_user c) (er_wh x)
                 (JObj [(''status'', JStr (case_text s)), (''responsibility'', JStr (blame_text blame)),
                        (''resolution_notes'', jopt JStr resolution)])
                 (w\<lparr>error_cases := upd (\<lambda>y. er_id y = i)
                      (\<lambda>y. y\<lparr>er_state := s, er_blame := blame, er_resolution := resolution, er_reviewer := Some (cr_user c),
                            er_reviewed := Some (clock w)\<rparr>) (error_cases w)\<rparr>)))"

section \<open>New work keeps the tables sound\<close>

definition starts_fresh :: "wtask \<Rightarrow> bool" where
  "starts_fresh t \<longleftrightarrow> wt_state t = W_QUEUED \<and> wt_assigned t = None \<and> wt_claimed t = None \<and> wt_started t = None
     \<and> wt_active t = 0 \<and> wt_paused t = 0 \<and> wt_active_from t = None \<and> wt_pause_from t = None"

lemma fresh_task_starts: "starts_fresh (batch_task r b user n k i)" "starts_fresh (requested_task q user n e i)"
  by (simp_all add: starts_fresh_def batch_task_def requested_task_def fresh_task_def)

lemma task_insert_ok:
  assumes ok: "work_ok w" and t: "wt_id t = wseq w WS_task" "lifecycle t" "timed (clock w) (stops (wt_id t) w) t" "scanned w t"
      "\<not> active_status (wt_state t)" "\<And>c u. c \<in> set (tasks w) \<Longrightarrow> counterpart_of t c \<Longrightarrow> owner t = Some u \<Longrightarrow> owner c \<noteq> Some u"
    and b: "\<And>b. wt_batch t = Some b \<Longrightarrow> map_option wn_wh (note_of b w) = Some (wt_wh t)"
    and w': "tasks w' = tasks w @ [t]" "kept w w'" "wseq w WS_task < wseq w' WS_task" "clock w' = clock w"
  shows "work_ok w'"
proof -
  have k: "keys_ok w" and h: "housed w" and a: "one_active w" "apart w"
    and l: "\<forall>x \<in> set (tasks w). lifecycle x \<and> timed (clock w) (stops (wt_id x) w) x \<and> scanned w x"
    using ok unfolding work_ok_def by blast+
  have m: "map (\<lambda>n. (wn_id n, wn_wh n)) (notes_tbl w') = map (\<lambda>n. (wn_id n, wn_wh n)) (notes_tbl w)"
    and q: "wseq w WS_note \<le> wseq w' WS_note" and r: "stops i w \<le> stops i w'"
    and ev: "set (task_events w) \<subseteq> set (task_events w')" for i
    using w'(2) unfolding kept_def by blast+
  have "distinct (map wt_id (tasks w'))" using k t(1) w'(1) unfolding keys_ok_def by auto
  moreover have "\<forall>x \<in> set (tasks w'). wt_id x < wseq w' WS_task"
    using k t(1) w'(1,3) unfolding keys_ok_def by (auto intro: less_trans)
  moreover have "\<forall>n \<in> set (map wn_id (notes_tbl w')). n < wseq w' WS_note"
    unfolding note_keys [OF m] using k q unfolding keys_ok_def by fastforce
  ultimately have "keys_ok w'"
    using k note_keys [OF m] unfolding keys_ok_def note_ids by simp
  moreover have "housed w'"
    using h b note_of_map [OF m] unfolding housed_def w'(1) by auto
  moreover have "one_active w'"
    unfolding one_active_def
  proof (intro ballI impI)
    fix x y assume "x \<in> set (tasks w')" "y \<in> set (tasks w')" "active_status (wt_state x)" "active_status (wt_state y)"
      "wt_claimed x = wt_claimed y"
    moreover from this t(5) w'(1) have "x \<in> set (tasks w)" "y \<in> set (tasks w)" by auto
    ultimately show "wt_id x = wt_id y" using a(1) unfolding one_active_def by blast
  qed
  moreover have "apart w'"
  proof -
    have sym: "counterpart_of x y \<Longrightarrow> counterpart_of y x" for x y unfolding counterpart_of_def by auto
    have irr: "\<not> counterpart_of t t" unfolding counterpart_of_def by auto
    show ?thesis
      unfolding apart_def w'(1)
    proof (intro ballI impI allI notI)
      fix x y u
      assume xy: "x \<in> set (tasks w @ [t])" "y \<in> set (tasks w @ [t])" "counterpart_of x y" "owner x = Some u" "u \<noteq> ''''" "owner y = Some u"
      consider "x \<in> set (tasks w)" "y \<in> set (tasks w)" | "x = t" "y \<in> set (tasks w)" | "x \<in> set (tasks w)" "y = t" | "x = t" "y = t"
        using xy(1,2) by auto
      then show False
      proof cases
        case 1
        with a(2) xy(3-6) show ?thesis unfolding apart_def by blast
      next
        case 2
        with t(6) [of y u] xy(3-6) show ?thesis by blast
      next
        case 3
        with t(6) [of x u] sym [OF xy(3)] xy(4,6) show ?thesis by blast
      next
        case 4
        with irr xy(3) show ?thesis by blast
      qed
    qed
  qed
  moreover have "\<forall>x \<in> set (tasks w'). lifecycle x \<and> timed (clock w') (stops (wt_id x) w') x \<and> scanned w' x"
  proof
    fix x assume "x \<in> set (tasks w')"
    then have "lifecycle x" "timed (clock w) (stops (wt_id x) w) x" "scanned w x" using l t w'(1) by auto
    with timed_mono [OF this(2) _ r [of "wt_id x"], of "clock w'"] scanned_mono [OF this(3) ev] w'(4)
    show "lifecycle x \<and> timed (clock w') (stops (wt_id x) w') x \<and> scanned w' x" by simp
  qed
  ultimately show ?thesis by (simp add: work_ok_def)
qed

lemma insert_task_ok:
  assumes ok: "work_ok w" and r: "insert_task row w = Some (i, w')" and t: "starts_fresh (row i)" "wt_id (row i) = i"
    and b: "\<And>b. wt_batch (row i) = Some b \<Longrightarrow> map_option wn_wh (note_of b w) = Some (wt_wh (row i))"
  shows "work_ok w' \<and> notes_tbl w' = notes_tbl w \<and> clock w' = clock w"
proof -
  have i: "i = wseq w WS_task" and w': "w' = w\<lparr>wseq := (wseq w)(WS_task := wseq w WS_task + 1), tasks := tasks w @ [row i]\<rparr>"
    using r by (auto simp: insert_task_def wnextval_def Let_def split: if_splits)
  have "work_ok w'"
    by (rule task_insert_ok [OF ok, of "row i"])
      (use t b i in \<open>auto simp: w' kept_def stops_def starts_fresh_def lifecycle_def timed_def scanned_def active_status_def owner_def\<close>)
  then show ?thesis by (simp add: w')
qed

lemma insert_order_same: "insert_order b p x w = Some w' \<Longrightarrow> same_tasks w w' \<and> notes_tbl w' = notes_tbl w"
  by (auto simp: insert_order_def Let_def wnextval_def same_tasks_def kept_def stops_def split: if_splits)

lemma insert_orders_same: "insert_orders b p xs w = Some w' \<Longrightarrow> same_tasks w w' \<and> notes_tbl w' = notes_tbl w"
  by (induction xs arbitrary: w) (auto split: option.splits dest!: insert_order_same intro: same_tasks_trans)

lemma insert_batch_tasks_ok:
  assumes "work_ok w" "insert_batch_tasks r b user ks w = Some (ids, w')"
    and "map_option wn_wh (note_of b w) = Some (br_wh r)"
  shows "work_ok w'"
  using assms
proof (induction ks arbitrary: w ids)
  case Nil
  then show ?case by simp
next
  case (Cons k ks)
  from Cons.prems(2) obtain i w1 ids' where 1: "insert_task (batch_task r b user (clock w) k) w = Some (i, w1)"
    and rest: "insert_batch_tasks r b user ks (record_task_event i EV_CREATED user None None
                (JObj [(''batch_id'', JInt b), (''task_type'', JStr (kind_text k))]) None w1) = Some (ids', w')"
    by (auto split: option.splits)
  have "work_ok w1 \<and> notes_tbl w1 = notes_tbl w \<and> clock w1 = clock w"
    by (rule insert_task_ok [OF Cons.prems(1) 1 fresh_task_starts(1)])
      (use Cons.prems(3) in \<open>auto simp: batch_task_def fresh_task_def\<close>)
  with Cons.IH [OF _ rest] Cons.prems(3) show ?case by (simp add: quiet_ok note_of_def)
qed

lemma note_of_insert:
  assumes "keys_ok w" "insert_note r user w = (b, w')"
  shows "map_option wn_wh (note_of b w') = Some (br_wh r)"
proof -
  have "b = wseq w WS_note" using assms(2) by (auto simp: insert_note_def wnextval_def)
  with assms(1) have "List.find (\<lambda>n. wn_id n = b) (notes_tbl w) = None"
    unfolding keys_ok_def find_None by fastforce
  with assms(2) show ?thesis by (auto simp: insert_note_def wnextval_def note_of_def find_append note_row_def)
qed

lemma insert_note_ok:
  assumes ok: "work_ok w" and r: "insert_note r user w = (b, w')"
  shows "work_ok w'"
proof -
  have b: "b = wseq w WS_note" using r by (auto simp: insert_note_def wnextval_def)
  define n where "n = note_row r user b (clock w)"
  have n: "wn_id n = b" "wn_wh n = br_wh r" by (simp_all add: n_def note_row_def)
  have w': "w' = w\<lparr>wseq := (wseq w)(WS_note := wseq w WS_note + 1), notes_tbl := notes_tbl w @ [n]\<rparr>"
    using r by (auto simp: insert_note_def wnextval_def n_def)
  have "keys_ok w" using ok by (simp add: work_ok_def)
  then have "keys_ok w'" using b n unfolding keys_ok_def w' by (fastforce dest: bspec)
  moreover have "housed w'"
    unfolding housed_def
  proof (intro ballI allI impI)
    fix t b0 assume "t \<in> set (tasks w')" "wt_batch t = Some b0"
    with ok have "Some (wt_wh t) = map_option wn_wh (note_of b0 w)" by (simp add: work_ok_def housed_def w')
    then obtain m where "note_of b0 w = Some m" "wt_wh t = wn_wh m" by (cases "note_of b0 w") auto
    then show "Some (wt_wh t) = map_option wn_wh (note_of b0 w')" by (simp add: note_of_def w' find_append)
  qed
  moreover have t: "tasks w' = tasks w" by (simp add: w')
  have "one_active w'" "apart w'" using ok unfolding work_ok_def one_active_def apart_def t by blast+
  moreover have "\<forall>t \<in> set (tasks w'). lifecycle t \<and> timed (clock w') (stops (wt_id t) w') t \<and> scanned w' t"
    using ok unfolding work_ok_def w' stops_def scanned_def by simp
  ultimately show ?thesis by (simp add: work_ok_def)
qed

lemma create_batch_ok:
  assumes ok: "work_ok w" and r: "create_batch c q w = Inr (x, w')"
  shows "work_ok w'"
proof -
  obtain b w1 where n: "insert_note q (cr_user c) w = (b, w1)" by (metis surj_pair)
  from r n obtain w2 ids w3 where o2: "insert_orders b (br_platform q) (br_orders q) w1 = Some w2"
    and t3: "insert_batch_tasks q b (cr_user c) (br_kinds q) w2 = Some (ids, w3)"
    by (auto simp: create_batch_def split: option.splits if_splits)
  with r n have w': "\<exists>j. w' = waudit ''WORK_BATCH_CREATED'' ''WORK_BATCH'' b (cr_user c) (br_wh q) j
      (snd (auto_dispatch (br_wh q) (cr_user c) (Some ''dispatch-engine'') w3))"
    by (auto simp: create_batch_def split_beta split: option.splits if_splits)
  from ok have "work_ok w2" using insert_note_ok [OF ok n] insert_orders_same [OF o2] same_tasks_ok by blast
  moreover have "map_option wn_wh (note_of b w2) = Some (br_wh q)"
    using note_of_insert [OF _ n] ok insert_orders_same [OF o2] by (simp add: work_ok_def note_of_def)
  ultimately have "work_ok w3" using insert_batch_tasks_ok [OF _ t3] by blast
  with w' show ?thesis using auto_dispatch_ok quiet_ok by blast
qed

lemma create_task_ok:
  assumes ok: "work_ok w" and r: "create_task c q w = Inr (x, w')"
  shows "work_ok w'"
proof -
  define estimate where "estimate = estimate_minutes (\<lambda>k. load_dispatch_rate (tr_wh q) k w) (tr_kind q) (tr_orders q) (tr_skus q)
    (tr_units q) (tr_level q)"
  from r obtain i w1 where t1: "insert_task (requested_task q (cr_user c) (clock w) estimate) w = Some (i, w1)"
    and b: "\<And>b. tr_batch q = Some b \<Longrightarrow> map_option wn_wh (note_of b w) = Some (tr_wh q)"
    by (auto simp: create_task_def Let_def estimate_def split: option.splits if_splits)
  have ok1: "work_ok w1 \<and> notes_tbl w1 = notes_tbl w \<and> clock w1 = clock w"
    by (rule insert_task_ok [OF ok t1 fresh_task_starts(2)])
      (use b in \<open>auto simp: requested_task_def fresh_task_def\<close>)
  define w3 where "w3 = waudit ''WORK_TASK_CREATED'' ''WORK_TASK'' i (cr_user c) (tr_wh q)
    (JObj [(''task_type'', JStr (kind_text (tr_kind q))), (''batch_id'', jopt JInt (tr_batch q)), (''assigned_to'', jopt JStr (tr_assigned q))])
    (record_task_event i EV_CREATED (cr_user c) None None (JObj [(''assigned_to'', jopt JStr (tr_assigned q))]) None w1)"
  have "work_ok w3" unfolding w3_def using ok1 by (intro quiet_ok) blast
  moreover have "w' = snd (auto_dispatch (tr_wh q) (cr_user c) (Some ''dispatch-engine'') w3)
      \<or> (\<exists>u v z. assign_task i (Some u) (cr_user c) v w3 = Inr (z, w'))"
  proof (cases "tr_assigned q")
    case None
    with r t1 show ?thesis
      by (auto simp: create_task_def Let_def estimate_def [symmetric] split_beta w3_def split: option.splits if_splits)
  next
    case (Some u)
    with r t1 have "\<exists>z. assign_task i (Some u) (cr_user c) (Some (''Assigned when created by '' @ cr_user c)) w3 = Inr (z, w')"
      by (auto simp: create_task_def Let_def estimate_def [symmetric] w3_def split: option.splits if_splits sum.splits)
    then show ?thesis by blast
  qed
  ultimately show ?thesis using auto_dispatch_ok assign_task_ok by blast
qed

lemma create_error_ok: "work_ok w \<Longrightarrow> create_error c r w = Inr (x, w') \<Longrightarrow> work_ok w'"
proof -
  assume ok: "work_ok w" and r: "create_error c r w = Inr (x, w')"
  have new: "same_tasks w (w\<lparr>wseq := (wseq w)(WS_error := wseq w WS_error + 1), error_cases := es\<rparr>)" for es
    by (simp add: same_tasks_def kept_def stops_def)
  from r obtain batch y where "file_case c r batch y w = (x, w')"
    by (auto simp: create_error_def split: option.splits if_splits sum.splits)
  with same_tasks_ok [OF ok new] show ?thesis
    by (auto simp: file_case_def wnextval_def Let_def quiet_ok split: option.splits)
qed

lemma review_error_ok: "work_ok w \<Longrightarrow> review_error c i s b n w = Inr w' \<Longrightarrow> work_ok w'"
proof -
  assume ok: "work_ok w" and r: "review_error c i s b n w = Inr w'"
  have "same_tasks w (w\<lparr>error_cases := es\<rparr>)" for es by (simp add: same_tasks_def kept_def stops_def)
  with same_tasks_ok [OF ok] r show ?thesis by (auto simp: review_error_def quiet_ok split: option.splits if_splits)
qed

end
