(* ===== verification/WorkReceiving.thy ===== *)
theory WorkReceiving
  imports WorkIntake
begin

text \<open>
  Receiving counts of Work Control, \<^verbatim>\<open>api/routes/work_control.py\<close>: the SKU catalogue (added by hand or synced page
  by page from SiteGiant), the draft receipts an employee counts, photographs and submits, their review by the
  stock clerk, and the photographs. No stock is posted here.
\<close>

section \<open>The SKU catalogue\<close>

definition upper_text :: "string \<Rightarrow> string" where
  "upper_text = map (\<lambda>c. if (of_char c :: nat) \<in> {97..122} then char_of ((of_char c :: nat) - 32) else c)"

definition btrim :: "string \<Rightarrow> string" where
  "btrim s = rev (dropWhile (\<lambda>c. c = CHR '' '') (rev (dropWhile (\<lambda>c. c = CHR '' '') s)))"

text \<open>The generated column \<open>sku_normalized\<close>.\<close>

definition sk_norm :: "work_sku \<Rightarrow> string" where
  "sk_norm x = upper_text (btrim (sk_sku x))"

datatype receiving_error =
  RE_denied
| RE_no_page
| RE_no_grant
| RE_sku_exists "work_sku option"
| RE_token_scope
| RE_no_task
| RE_not_receiving
| RE_not_your_task
| RE_not_started
| RE_draft_exists int draft_status
| RE_no_draft
| RE_not_your_draft
| RE_draft_state draft_status
| RE_no_photo
| RE_line_without_photo
| RE_cannot_change draft_status draft_status
| RE_work work_error
| RE_no_target
| RE_not_one_target
| RE_not_your_target
| RE_empty_photo
| RE_photo_too_large
| RE_not_a_photo
| RE_storage_down

definition find_sku :: "int \<Rightarrow> string \<Rightarrow> work \<Rightarrow> work_sku option" where
  "find_sku wh s w = List.find (\<lambda>x. sk_wh x = wh \<and> sk_norm x = s) (work_skus w)"

definition manual_sku :: "int \<Rightarrow> string \<Rightarrow> string \<Rightarrow> string \<Rightarrow> int \<Rightarrow> work_sku" where
  "manual_sku wh s item user i =
     \<lparr>sk_id = i, sk_wh = wh, sk_sku = s, sk_name = item, sk_source = ''manual'', sk_src_id = None, sk_src_url = None,
      sk_image = None, sk_review = True, sk_active = True, sk_run = None, sk_synced = None, sk_by = Some user\<rparr>"

text \<open>The insert fails on the unique key \<open>(warehouse_id, sku_normalized)\<close>; the row in the way is looked up by the
  request's text.\<close>

definition create_work_sku :: "caller \<Rightarrow> int \<Rightarrow> string \<Rightarrow> string \<Rightarrow> work \<Rightarrow> receiving_error + (work_sku \<times> work)" where
  "create_work_sku c wh s item w =
     (if \<not> check_warehouse_access (cr_session c) (Some wh) then Inl RE_denied
      else if \<not> can_receive c then Inl RE_no_grant
      else
        let (i, w1) = wnextval WS_sku w; row = manual_sku wh s item (cr_user c) i
        in if find_sku wh (sk_norm row) w \<noteq> None \<or> \<not> (\<exists>x \<in> set (warehouses (base w)). wh_id x = wh)
           then Inl (RE_sku_exists (find_sku wh s w))
           else Inr (row, waudit ''WORK_SKU_CREATED'' ''WORK_SKU'' i (cr_user c) wh
                  (JObj [(''sku'', JStr s), (''source_system'', JStr ''manual''), (''needs_review'', JBool True)])
                  (w1\<lparr>work_skus := work_skus w1 @ [row]\<rparr>)))"

record sku_item =
  si_sku :: string
  si_name :: string
  si_id :: "string option"
  si_url :: "string option"
  si_image :: "string option"

record sku_page =
  sp_wh :: int
  sp_run :: string
  sp_captured :: int
  sp_page :: int
  sp_pages :: int
  sp_total :: int
  sp_items :: "sku_item list"

record wms_token =
  tk_id :: int
  tk_whs :: "int list"

definition synced_columns :: "sku_page \<Rightarrow> sku_item \<Rightarrow> work_sku \<Rightarrow> work_sku" where
  "synced_columns p it x =
     x\<lparr>sk_sku := si_sku it, sk_name := si_name it, sk_source := ''sitegiant'', sk_src_id := si_id it, sk_src_url := si_url it,
       sk_image := si_image it, sk_review := False, sk_active := True, sk_run := Some (sp_run p), sk_synced := Some (sp_captured p)\<rparr>"

text \<open>\<open>INSERT \<dots> ON CONFLICT (warehouse_id, sku_normalized) DO UPDATE\<close>.\<close>

definition upsert_sku :: "sku_page \<Rightarrow> sku_item \<Rightarrow> work \<Rightarrow> work" where
  "upsert_sku p it w =
     (let norm = upper_text (btrim (si_sku it)); mine = (\<lambda>x. sk_wh x = sp_wh p \<and> sk_norm x = norm); (i, w1) = wnextval WS_sku w
      in w1\<lparr>work_skus :=
             (if \<exists>x \<in> set (work_skus w). mine x then upd mine (synced_columns p it) (work_skus w)
              else work_skus w @ [synced_columns p it (manual_sku (sp_wh p) (si_sku it) (si_name it) ''sitegiant-bridge'' i)])\<rparr>)"

definition stale_sku :: "sku_page \<Rightarrow> work_sku \<Rightarrow> bool" where
  "stale_sku p x \<longleftrightarrow> sk_wh x = sp_wh p \<and> sk_source x = ''sitegiant'' \<and> sk_active x \<and> sk_run x \<noteq> Some (sp_run p)
     \<and> (case sk_synced x of None \<Rightarrow> True | Some s \<Rightarrow> s \<le> sp_captured p)"

definition sync_sitegiant_skus :: "wms_token \<Rightarrow> sku_page \<Rightarrow> work \<Rightarrow> receiving_error + ((bool \<times> int) \<times> work)" where
  "sync_sitegiant_skus tk p w =
     (if sp_wh p \<notin> set (tk_whs tk) then Inl RE_token_scope
      else
        let w1 = fold (upsert_sku p) (sp_items p) w
        in if sp_page p \<noteq> sp_pages p then Inr ((False, 0), w1)
           else
             let n = int (length (filter (stale_sku p) (work_skus w1)));
                 w2 = w1\<lparr>work_skus := upd (stale_sku p) (\<lambda>x. x\<lparr>sk_active := False\<rparr>) (work_skus w1)\<rparr>
             in Inr ((True, n),
                  waudit ''SITEGIANT_SKU_SYNC_COMPLETED'' ''WAREHOUSE'' (sp_wh p) (''sitegiant-token-'' @ signed_decimal (tk_id tk)) (sp_wh p)
                    (JObj [(''sync_run_id'', JStr (sp_run p)), (''total_items'', JInt (sp_total p)),
                           (''total_pages'', JInt (sp_pages p)), (''deactivated'', JInt n)]) w2))"

section \<open>Drafts\<close>

record line_entry =
  le_sku :: string
  le_name :: "string option"
  le_expected :: "int option"
  le_received :: int
  le_good :: int
  le_damaged :: int
  le_notes :: "string option"

definition line_entry_ok :: "line_entry \<Rightarrow> bool" where
  "line_entry_ok l \<longleftrightarrow> le_sku l \<noteq> [] \<and> 0 \<le> le_good l \<and> 0 \<le> le_damaged l \<and> le_good l + le_damaged l = le_received l
     \<and> (case le_expected l of None \<Rightarrow> True | Some e \<Rightarrow> 0 \<le> e)"

record draft_request =
  dq_wh :: int
  dq_task :: "int option"
  dq_source :: string
  dq_po :: "string option"
  dq_supplier :: "string option"
  dq_notes :: "string option"
  dq_lines :: "line_entry list"

text \<open>The catalogue row of a counted SKU; an unknown one with a name is added first.\<close>

definition line_sku :: "int \<Rightarrow> string \<Rightarrow> line_entry \<Rightarrow> work \<Rightarrow> work_sku option \<times> work" where
  "line_sku wh user l w =
     (case List.find (\<lambda>x. sk_wh x = wh \<and> sk_norm x = le_sku l \<and> sk_active x) (work_skus w) of
        Some x \<Rightarrow> (Some x, w)
      | None \<Rightarrow>
          if truthy (le_name l)
          then
            let (i, w1) = wnextval WS_sku w; row = manual_sku wh (le_sku l) (the (le_name l)) user i;
                w2 = (if find_sku wh (sk_norm row) w = None then w1\<lparr>work_skus := work_skus w1 @ [row]\<rparr> else w1)
            in (find_sku wh (le_sku l) w2, w2)
          else (None, w))"

definition short_of :: "int option \<Rightarrow> int \<Rightarrow> int" where
  "short_of expected received = (case expected of None \<Rightarrow> 0 | Some e \<Rightarrow> max (e - received) 0)"

definition over_of :: "int option \<Rightarrow> int \<Rightarrow> int" where
  "over_of expected received = (case expected of None \<Rightarrow> 0 | Some e \<Rightarrow> max (received - e) 0)"

definition insert_draft_line :: "int \<Rightarrow> int \<Rightarrow> string \<Rightarrow> line_entry \<Rightarrow> work \<Rightarrow> work" where
  "insert_draft_line d wh user l w =
     (let (k, w1) = line_sku wh user l w; (i, w2) = wnextval WS_draft_line w1
      in w2\<lparr>draft_lines := draft_lines w2 @
             [\<lparr>rl_id = i, rl_draft = d, rl_sku = le_sku l, rl_catalog = map_option sk_id k,
               rl_name = (case k of None \<Rightarrow> le_name l | Some x \<Rightarrow> Some (sk_name x)), rl_expected = le_expected l,
               rl_received = le_received l, rl_good = le_good l, rl_damaged = le_damaged l,
               rl_short = short_of (le_expected l) (le_received l), rl_over = over_of (le_expected l) (le_received l),
               rl_notes = le_notes l\<rparr>]\<rparr>)"

definition draft_task_error :: "caller \<Rightarrow> draft_request \<Rightarrow> work \<Rightarrow> receiving_error option" where
  "draft_task_error c r w =
     (case dq_task r of
        None \<Rightarrow> None
      | Some i \<Rightarrow>
          (case get_task i w of
             None \<Rightarrow> Some RE_no_task
           | Some t \<Rightarrow>
               if wt_wh t \<noteq> dq_wh r then Some RE_no_task
               else if wt_kind t \<noteq> K_RECEIVING then Some RE_not_receiving
               else if \<not> cr_admin c \<and> wt_claimed t \<noteq> Some (cr_user c) then Some RE_not_your_task
               else if wt_state t \<noteq> W_IN_PROGRESS then Some RE_not_started
               else map_option (\<lambda>d. RE_draft_exists (rd_id d) (rd_state d)) (List.find (\<lambda>d. rd_task d = Some i) (drafts w))))"

definition create_receiving_draft :: "caller \<Rightarrow> draft_request \<Rightarrow> work \<Rightarrow> receiving_error + (int \<times> work)" where
  "create_receiving_draft c r w =
     (if \<not> check_warehouse_access (cr_session c) (Some (dq_wh r)) then Inl RE_denied
      else case draft_task_error c r w of
        Some e \<Rightarrow> Inl e
      | None \<Rightarrow>
          let (d, w1) = wnextval WS_draft w;
              w2 = w1\<lparr>drafts := drafts w1 @
                     [\<lparr>rd_id = d, rd_task = dq_task r, rd_wh = dq_wh r, rd_source = dq_source r, rd_po = dq_po r,
                       rd_supplier = dq_supplier r, rd_state = RD_DRAFT, rd_by = cr_user c, rd_notes = dq_notes r,
                       rd_submitted = None, rd_reviewer = None, rd_reviewed = None, rd_review = None\<rparr>]\<rparr>;
              w3 = fold (insert_draft_line d (dq_wh r) (cr_user c)) (dq_lines r) w2
          in Inr (d, waudit ''RECEIVING_DRAFT_CREATED'' ''RECEIVING_DRAFT'' d (cr_user c) (dq_wh r)
                 (JObj [(''task_id'', jopt JInt (dq_task r)), (''po_number'', jopt JStr (dq_po r)),
                        (''line_count'', JInt (int (length (dq_lines r))))]) w3))"

section \<open>Submission\<close>

definition draft_line_ids :: "int \<Rightarrow> work \<Rightarrow> int list" where
  "draft_line_ids d w = map rl_id (filter (\<lambda>l. rl_draft l = d) (draft_lines w))"

definition draft_photos :: "int \<Rightarrow> work \<Rightarrow> work_evidence list" where
  "draft_photos d w = filter (\<lambda>e. ev_draft e = Some d \<or> (\<exists>i \<in> set (draft_line_ids d w). ev_line e = Some i)) (evidence_tbl w)"

definition photo_error :: "int \<Rightarrow> work \<Rightarrow> receiving_error option" where
  "photo_error d w =
     (if draft_photos d w = [] then Some RE_no_photo
      else if \<not> (\<exists>e \<in> set (evidence_tbl w). ev_draft e = Some d)
              \<and> (\<exists>i \<in> set (draft_line_ids d w). \<not> (\<exists>e \<in> set (evidence_tbl w). ev_line e = Some i))
           then Some RE_line_without_photo
      else None)"

definition submit_task_error :: "caller \<Rightarrow> receiving_draft \<Rightarrow> work \<Rightarrow> receiving_error option" where
  "submit_task_error c d w =
     (case rd_task d of
        None \<Rightarrow> None
      | Some i \<Rightarrow>
          (case get_task i w of
             None \<Rightarrow> Some RE_no_task
           | Some t \<Rightarrow>
               if \<not> cr_admin c \<and> wt_claimed t \<noteq> Some (cr_user c) then Some RE_not_your_task
               else if wt_state t \<noteq> W_IN_PROGRESS then Some RE_not_started
               else None))"

definition mark_submitted :: "int \<Rightarrow> work \<Rightarrow> work" where
  "mark_submitted i w = w\<lparr>drafts := upd (\<lambda>d. rd_id d = i) (\<lambda>d. d\<lparr>rd_state := RD_SUBMITTED, rd_submitted := Some (clock w)\<rparr>) (drafts w)\<rparr>"

text \<open>The linked task is completed, and the employee's next task may be claimed, in the same transaction.\<close>

definition finish_linked_task ::
    "caller \<Rightarrow> receiving_draft \<Rightarrow> bool \<Rightarrow> task_kind list option \<Rightarrow> string option \<Rightarrow> work \<Rightarrow> receiving_error + (wtask option \<times> work)" where
  "finish_linked_task c d claim_more kinds device w =
     (case rd_task d of
        None \<Rightarrow> Inr (None, w)
      | Some i \<Rightarrow>
          (case transition_task i (cr_user c) A_COMPLETE (cr_admin c) None
                  (Some (''Draft GRN '' @ signed_decimal (rd_id d) @ '' submitted'')) device w of
             Inl e \<Rightarrow> Inl (RE_work e)
           | Inr (_, w1) \<Rightarrow>
               if \<not> claim_more then Inr (None, w1)
               else (case authorized_task_types c kinds w1 of
                       Inl e \<Rightarrow> Inl (RE_work e)
                     | Inr ks \<Rightarrow> let ((nx, _), w2) = claim_next_task (rd_wh d) (cr_user c) ks device w1 in Inr (nx, w2))))"

definition submit_receiving_draft ::
    "caller \<Rightarrow> int \<Rightarrow> bool \<Rightarrow> task_kind list option \<Rightarrow> string option \<Rightarrow> work \<Rightarrow> receiving_error + (wtask option \<times> work)" where
  "submit_receiving_draft c i claim_more kinds device w =
     (case List.find (\<lambda>d. rd_id d = i) (drafts w) of
        None \<Rightarrow> Inl RE_no_draft
      | Some d \<Rightarrow>
          if \<not> check_warehouse_access (cr_session c) (Some (rd_wh d)) then Inl RE_denied
          else if \<not> cr_admin c \<and> rd_by d \<noteq> cr_user c then Inl RE_not_your_draft
          else if rd_state d \<noteq> RD_DRAFT then Inl (RE_draft_state (rd_state d))
          else
            (case photo_error i w of
               Some e \<Rightarrow> Inl e
             | None \<Rightarrow>
                 (case submit_task_error c d w of
                    Some e \<Rightarrow> Inl e
                  | None \<Rightarrow>
                      finish_linked_task c d claim_more kinds device
                        (waudit ''RECEIVING_DRAFT_SUBMITTED'' ''RECEIVING_DRAFT'' i (cr_user c) (rd_wh d)
                          (JObj [(''task_id'', jopt JInt (rd_task d)), (''photo_count'', JInt (int (length (draft_photos i w))))])
                          (mark_submitted i w)))))"

section \<open>Review\<close>

definition draft_text :: "draft_status \<Rightarrow> string" where
  "draft_text s = (case s of RD_DRAFT \<Rightarrow> ''DRAFT'' | RD_SUBMITTED \<Rightarrow> ''SUBMITTED'' | RD_APPROVED \<Rightarrow> ''APPROVED''
     | RD_REJECTED \<Rightarrow> ''REJECTED'' | RD_POSTED \<Rightarrow> ''POSTED'')"

definition review_allowed :: "draft_status \<Rightarrow> draft_status \<Rightarrow> bool" where
  "review_allowed from_state to_state \<longleftrightarrow>
     from_state = RD_SUBMITTED \<and> (to_state = RD_APPROVED \<or> to_state = RD_REJECTED)
     \<or> from_state = RD_APPROVED \<and> to_state = RD_POSTED"

definition recount_row :: "receiving_draft \<Rightarrow> wtask \<Rightarrow> string \<Rightarrow> int \<Rightarrow> int \<Rightarrow> wtask" where
  "recount_row d t user n i =
     (fresh_task i (rd_wh d) K_RECEIVING user n)
       \<lparr>wt_state := W_ASSIGNED, wt_priority := min 100 (wt_priority t + 10), wt_assigned := Some (rd_by d),
        wt_source := or_else (rd_po d) (or_else (rd_supplier d) (wt_source t)), wt_orders := wt_orders t,
        wt_skus := wt_skus t, wt_units := wt_units t,
        wt_note := Some (''Recount required for rejected Draft GRN '' @ signed_decimal (rd_id d)),
        wt_key := Some (''receiving-recount:'' @ signed_decimal (rd_id d) @ '':v1'')\<rparr>"

text \<open>\<open>INSERT \<dots> ON CONFLICT (idempotency_key)\<close>: the task already there is returned as it is.\<close>

definition recount_task :: "receiving_draft \<Rightarrow> wtask \<Rightarrow> string \<Rightarrow> work \<Rightarrow> int \<times> work" where
  "recount_task d t user w =
     (case List.find (\<lambda>x. wt_key x = wt_key (recount_row d t user (clock w) 0)) (tasks w) of
        Some x \<Rightarrow> (wt_id x, w)
      | None \<Rightarrow> let (i, w1) = wnextval WS_task w in (i, w1\<lparr>tasks := tasks w1 @ [recount_row d t user (clock w) i]\<rparr>))"

definition request_recount :: "receiving_draft \<Rightarrow> string \<Rightarrow> work \<Rightarrow> int option \<times> work" where
  "request_recount d user w =
     (case rd_task d of
        None \<Rightarrow> (None, w)
      | Some i \<Rightarrow>
          (case get_task i w of
             None \<Rightarrow> (None, w)
           | Some t \<Rightarrow>
               let (j, w1) = recount_task d t user w
               in (Some j, record_task_event j EV_ASSIGNED user (Some ''RECEIVING_REJECTED'')
                     (Some (''Draft GRN '' @ signed_decimal (rd_id d) @ '' requires recount''))
                     (JObj [(''receiving_id'', JInt (rd_id d)), (''assigned_to'', JStr (rd_by d))]) None w1)))"

text \<open>As for error cases, only the page grant is checked, not the warehouse.\<close>

definition review_receiving_draft ::
    "caller \<Rightarrow> int \<Rightarrow> draft_status \<Rightarrow> string option \<Rightarrow> work \<Rightarrow> receiving_error + (int option \<times> work)" where
  "review_receiving_draft c i s review w =
     (if \<not> can_supervise c then Inl RE_no_page
      else case List.find (\<lambda>d. rd_id d = i) (drafts w) of
        None \<Rightarrow> Inl RE_no_draft
      | Some d \<Rightarrow>
          if \<not> review_allowed (rd_state d) s then Inl (RE_cannot_change (rd_state d) s)
          else
            let w1 = w\<lparr>drafts := upd (\<lambda>x. rd_id x = i)
                       (\<lambda>x. x\<lparr>rd_state := s, rd_review := review, rd_reviewer := Some (cr_user c), rd_reviewed := Some (clock w)\<rparr>)
                       (drafts w)\<rparr>;
                (j, w2) = (if s = RD_REJECTED then request_recount d (cr_user c) w1 else (None, w1))
            in Inr (j, waudit (''RECEIVING_DRAFT_'' @ draft_text s) ''RECEIVING_DRAFT'' i (cr_user c) (rd_wh d)
                   (JObj [(''previous_status'', JStr (draft_text (rd_state d))), (''review_notes'', jopt JStr review),
                          (''recount_task_id'', jopt JInt j)]) w2))"

section \<open>Photographs\<close>

text \<open>The file's first bytes decide its type.\<close>

definition detect_image_type :: "nat list \<Rightarrow> (string \<times> string) option" where
  "detect_image_type b =
     (if take 3 b = [255, 216, 255] then Some (''image/jpeg'', ''.jpg'')
      else if take 8 b = [137, 80, 78, 71, 13, 10, 26, 10] then Some (''image/png'', ''.png'')
      else if 12 \<le> length b \<and> take 4 b = map of_char ''RIFF'' \<and> take 4 (drop 8 b) = map of_char ''WEBP''
           then Some (''image/webp'', ''.webp'')
      else if 12 \<le> length b \<and> take 4 (drop 4 b) = map of_char ''ftyp''
              \<and> take 4 (drop 8 b) \<in> map of_char ` {''heic'', ''heix'', ''hevc'', ''mif1''}
           then Some (''image/heic'', ''.heic'')
      else None)"

datatype photo_target = PT_error int | PT_draft int | PT_line int

definition photo_owner :: "photo_target \<Rightarrow> work \<Rightarrow> (int \<times> string) option" where
  "photo_owner p w =
     (case p of
        PT_error i \<Rightarrow> map_option (\<lambda>x. (er_wh x, er_by x)) (List.find (\<lambda>x. er_id x = i) (error_cases w))
      | PT_draft i \<Rightarrow> map_option (\<lambda>d. (rd_wh d, rd_by d)) (List.find (\<lambda>d. rd_id d = i) (drafts w))
      | PT_line i \<Rightarrow>
          (case List.find (\<lambda>l. rl_id l = i) (draft_lines w) of
             None \<Rightarrow> None
           | Some l \<Rightarrow> map_option (\<lambda>d. (rd_wh d, rd_by d)) (List.find (\<lambda>d. rd_id d = rl_draft l) (drafts w))))"

text \<open>The form's three target fields; \<open>stored\<close> tells whether the storage took the file, \<open>key\<close> is the random file name.\<close>

definition one_target :: "int option \<Rightarrow> int option \<Rightarrow> int option \<Rightarrow> photo_target option" where
  "one_target e d l =
     (case (e, d, l) of
        (Some i, None, None) \<Rightarrow> Some (PT_error i) | (None, Some i, None) \<Rightarrow> Some (PT_draft i)
      | (None, None, Some i) \<Rightarrow> Some (PT_line i) | _ \<Rightarrow> None)"

definition upload_evidence ::
    "caller \<Rightarrow> int option \<Rightarrow> int option \<Rightarrow> int option \<Rightarrow> nat list \<Rightarrow> string \<Rightarrow> string \<Rightarrow> string option \<Rightarrow> bool \<Rightarrow> work
      \<Rightarrow> receiving_error + (int \<times> work)" where
  "upload_evidence c e d l bytes key file caption stored w =
     (case one_target e d l of
        None \<Rightarrow> Inl RE_not_one_target
      | Some p \<Rightarrow>
          (case photo_owner p w of
             None \<Rightarrow> Inl RE_no_target
           | Some (wh, user) \<Rightarrow>
               if \<not> check_warehouse_access (cr_session c) (Some wh) then Inl RE_denied
               else if \<not> cr_admin c \<and> user \<noteq> cr_user c then Inl RE_not_your_target
               else if bytes = [] then Inl RE_empty_photo
               else if (10485760 :: int) < int (length bytes) then Inl RE_photo_too_large
               else
                 (case detect_image_type bytes of
                    None \<Rightarrow> Inl RE_not_a_photo
                  | Some (mime, ext) \<Rightarrow>
                      if \<not> stored then Inl RE_storage_down
                      else
                        let (i, w1) = wnextval WS_evidence w
                        in Inr (i, waudit ''WORK_EVIDENCE_UPLOADED'' ''WORK_EVIDENCE'' i (cr_user c) wh
                               (JObj [(''error_id'', jopt JInt e), (''receiving_id'', jopt JInt d), (''receiving_line_id'', jopt JInt l),
                                      (''content_type'', JStr mime), (''byte_size'', JInt (int (length bytes)))])
                               (w1\<lparr>evidence_tbl := evidence_tbl w1 @
                                  [\<lparr>ev_id = i, ev_wh = wh, ev_error = e, ev_draft = d, ev_line = l, ev_key = key @ ext, ev_file = file,
                                    ev_type = mime, ev_size = int (length bytes), ev_note = caption, ev_by = cr_user c,
                                    ev_created = clock w1\<rparr>]\<rparr>)))))"

section \<open>The operations keep the work tables sound\<close>

lemma same_tasks_tables:
  "same_tasks w (w\<lparr>drafts := ds\<rparr>)" "same_tasks w (w\<lparr>draft_lines := ls\<rparr>)" "same_tasks w (w\<lparr>work_skus := ks\<rparr>)"
  "same_tasks w (w\<lparr>evidence_tbl := es\<rparr>)"
  by (simp_all add: same_tasks_def kept_def stops_def)

lemma same_tasks_seq: "q \<notin> {WS_task, WS_note} \<Longrightarrow> same_tasks w (snd (wnextval q w))"
  by (simp add: same_tasks_def kept_def stops_def wnextval_def)

lemmas receiving_steps = same_tasks_trans [OF _ same_tasks_tables(1)] same_tasks_trans [OF _ same_tasks_tables(2)]
  same_tasks_trans [OF _ same_tasks_tables(3)] same_tasks_trans [OF _ same_tasks_tables(4)]
  same_tasks_trans [OF _ same_tasks_audit] same_tasks_trans [OF _ same_tasks_event] same_tasks_seq same_tasks_refl

lemma create_work_sku_same: "create_work_sku c wh s item w = Inr (x, w') \<Longrightarrow> same_tasks w w'"
  by (auto simp: create_work_sku_def Let_def split_beta intro!: receiving_steps split: if_splits)

lemma upsert_sku_same: "same_tasks w (upsert_sku p it w)"
  by (auto simp: upsert_sku_def Let_def split_beta intro!: receiving_steps)

lemma upserts_same: "same_tasks w (fold (upsert_sku p) its w)"
  by (induction its arbitrary: w) (auto intro: same_tasks_trans upsert_sku_same)

lemma sync_same: "sync_sitegiant_skus tk p w = Inr (x, w') \<Longrightarrow> same_tasks w w'"
  by (auto simp: sync_sitegiant_skus_def Let_def intro!: receiving_steps upserts_same split: if_splits)

lemma line_sku_same: "same_tasks w (snd (line_sku wh user l w))"
  by (auto simp: line_sku_def Let_def split_beta intro!: receiving_steps split: option.splits)

lemma insert_draft_line_same: "same_tasks w (insert_draft_line d wh user l w)"
  by (auto simp: insert_draft_line_def Let_def split_beta intro!: receiving_steps intro: same_tasks_trans [OF line_sku_same])

lemma insert_draft_lines_same: "same_tasks w (fold (insert_draft_line d wh user) ls w)"
  by (induction ls arbitrary: w) (auto intro: same_tasks_trans insert_draft_line_same)

lemma create_receiving_draft_same: "create_receiving_draft c r w = Inr (x, w') \<Longrightarrow> same_tasks w w'"
  by (auto simp: create_receiving_draft_def Let_def split_beta split: if_splits option.splits
      intro!: same_tasks_trans [OF _ same_tasks_audit] same_tasks_trans [OF _ insert_draft_lines_same] receiving_steps)

lemma upload_evidence_same: "upload_evidence c e d l bytes key file cap stored w = Inr (x, w') \<Longrightarrow> same_tasks w w'"
  by (auto simp: upload_evidence_def Let_def split_beta split: if_splits option.splits prod.splits intro!: receiving_steps)

lemma mark_submitted_same: "same_tasks w (mark_submitted i w)"
  unfolding mark_submitted_def by (rule same_tasks_tables)

lemma finish_linked_task_ok:
  assumes "work_ok w" "finish_linked_task c d claim_more ks device w = Inr (x, w')"
  shows "work_ok w'"
proof (cases "rd_task d")
  case None
  with assms show ?thesis by (simp add: finish_linked_task_def)
next
  case (Some i)
  with assms(2) obtain u w1 where t: "transition_task i (cr_user c) A_COMPLETE (cr_admin c) None
      (Some (''Draft GRN '' @ signed_decimal (rd_id d) @ '' submitted'')) device w = Inr (u, w1)"
    by (auto simp: finish_linked_task_def split: sum.splits)
  with assms(2) Some consider "w' = w1" | kinds where "w' = snd (claim_next_task (rd_wh d) (cr_user c) kinds device w1)"
    by (auto simp: finish_linked_task_def split_beta split: sum.splits if_splits)
  then show ?thesis by cases (use transition_task_ok [OF assms(1) t] claim_next_task_ok in auto)
qed

lemma submit_receiving_draft_ok:
  assumes ok: "work_ok w" and r: "submit_receiving_draft c i claim_more ks device w = Inr (x, w')"
  shows "work_ok w'"
proof -
  from r obtain d j where f: "finish_linked_task c d claim_more ks device
      (waudit ''RECEIVING_DRAFT_SUBMITTED'' ''RECEIVING_DRAFT'' i (cr_user c) (rd_wh d) j (mark_submitted i w)) = Inr (x, w')"
    by (auto simp: submit_receiving_draft_def split: option.splits if_splits)
  show ?thesis
    by (rule finish_linked_task_ok [OF _ f]) (rule quiet_ok, rule same_tasks_ok [OF ok mark_submitted_same])
qed

lemma recount_task_ok:
  assumes "work_ok w"
  shows "work_ok (snd (recount_task d t user w))"
proof (cases "List.find (\<lambda>x. wt_key x = wt_key (recount_row d t user (clock w) 0)) (tasks w)")
  case (Some x)
  with assms show ?thesis by (simp add: recount_task_def)
next
  case None
  let ?row = "recount_row d t user (clock w) (wseq w WS_task)"
  let ?w = "w\<lparr>wseq := (wseq w)(WS_task := wseq w WS_task + 1), tasks := tasks w @ [?row]\<rparr>"
  have cp: "\<not> counterpart_of ?row c" for c by (simp add: counterpart_of_def recount_row_def fresh_task_def)
  have "work_ok ?w"
    by (rule task_insert_ok [OF assms, of ?row])
      (use cp in \<open>auto simp: recount_row_def fresh_task_def lifecycle_def timed_def scanned_def active_status_def kept_def stops_def\<close>)
  with None show ?thesis by (simp add: recount_task_def wnextval_def)
qed

lemma request_recount_ok: "work_ok w \<Longrightarrow> work_ok (snd (request_recount d user w))"
  using recount_task_ok by (auto simp: request_recount_def split_beta quiet_ok split: option.split)

lemma review_receiving_draft_ok:
  assumes ok: "work_ok w" and r: "review_receiving_draft c i s review w = Inr (x, w')"
  shows "work_ok w'"
proof -
  have "work_ok (w\<lparr>drafts := ds\<rparr>)" for ds by (rule same_tasks_ok [OF ok same_tasks_tables(1)])
  with r show ?thesis
    by (auto simp: review_receiving_draft_def Let_def split_beta quiet_ok request_recount_ok split: option.splits if_splits)
qed

section \<open>What a completed sync leaves\<close>

text \<open>A row the page has written, and a row of the run.\<close>

definition of_page :: "sku_page \<Rightarrow> string \<Rightarrow> work_sku \<Rightarrow> bool" where
  "of_page p k x \<longleftrightarrow> sk_wh x = sp_wh p \<and> sk_norm x = k \<and> sk_source x = ''sitegiant'' \<and> sk_active x
     \<and> sk_run x = Some (sp_run p) \<and> sk_synced x = Some (sp_captured p)"

definition run_item :: "sku_page \<Rightarrow> int \<Rightarrow> work_sku \<Rightarrow> bool" where
  "run_item p i x \<longleftrightarrow> sk_wh x = sp_wh p \<and> sk_id x = i \<and> sk_source x = ''sitegiant'' \<and> sk_active x \<and> sk_run x = Some (sp_run p)"

lemma upsert_writes: "\<exists>x \<in> set (work_skus (upsert_sku p it w)). of_page p (upper_text (btrim (si_sku it))) x"
proof (cases "\<exists>x \<in> set (work_skus w). sk_wh x = sp_wh p \<and> sk_norm x = upper_text (btrim (si_sku it))")
  case True
  then obtain x where x: "x \<in> set (work_skus w)" "sk_wh x = sp_wh p" "sk_norm x = upper_text (btrim (si_sku it))" by blast
  then have "synced_columns p it x \<in> set (work_skus (upsert_sku p it w))"
    by (auto simp: upsert_sku_def Let_def split_beta set_upd)
  with x show ?thesis by (intro bexI [of _ "synced_columns p it x"]) (simp_all add: of_page_def synced_columns_def sk_norm_def)
next
  case False
  then have "work_skus (upsert_sku p it w) = work_skus w @
      [synced_columns p it (manual_sku (sp_wh p) (si_sku it) (si_name it) ''sitegiant-bridge'' (wseq w WS_sku))]"
    unfolding upsert_sku_def Let_def wnextval_def prod.case if_not_P [OF False] by simp
  then show ?thesis by (simp add: of_page_def synced_columns_def manual_sku_def sk_norm_def)
qed

text \<open>A further item of the page overwrites its own row and leaves every other row alone.\<close>

lemma upsert_keeps:
  assumes "y \<in> set (work_skus w)" "P y" "\<And>x. P x \<Longrightarrow> sk_wh x = sp_wh p \<Longrightarrow> sk_norm x = upper_text (btrim (si_sku it)) \<Longrightarrow> P (synced_columns p it x)"
  shows "\<exists>x \<in> set (work_skus (upsert_sku p it w)). P x"
  using assms by (auto simp: upsert_sku_def Let_def split_beta set_upd)

lemma upserts_keep:
  assumes "y \<in> set (work_skus w)" "P y"
    "\<And>it x. P x \<Longrightarrow> sk_wh x = sp_wh p \<Longrightarrow> sk_norm x = upper_text (btrim (si_sku it)) \<Longrightarrow> P (synced_columns p it x)"
  shows "\<exists>x \<in> set (work_skus (fold (upsert_sku p) its w)). P x"
  using assms(1,2)
proof (induction its arbitrary: w y)
  case (Cons it its)
  from upsert_keeps [OF Cons.prems assms(3)] obtain x where "x \<in> set (work_skus (upsert_sku p it w))" "P x" by blast
  from Cons.IH [OF this] show ?case by simp
qed auto

lemma page_written: "it \<in> set its \<Longrightarrow> \<exists>x \<in> set (work_skus (fold (upsert_sku p) its w)). of_page p (upper_text (btrim (si_sku it))) x"
proof (induction its arbitrary: w)
  case (Cons i its)
  show ?case
  proof (cases "it = i")
    case True
    obtain x where x: "x \<in> set (work_skus (upsert_sku p i w))" "of_page p (upper_text (btrim (si_sku it))) x"
      using upsert_writes True by blast
    have "\<exists>x \<in> set (work_skus (fold (upsert_sku p) its (upsert_sku p i w))). of_page p (upper_text (btrim (si_sku it))) x"
      by (rule upserts_keep [where y = x, OF x(1)]) (use x(2) in \<open>simp_all add: of_page_def synced_columns_def sk_norm_def\<close>)
    then show ?thesis by simp
  next
    case False
    with Cons show ?thesis by simp
  qed
qed simp

lemma run_kept: "y \<in> set (work_skus w) \<Longrightarrow> run_item p i y \<Longrightarrow> \<exists>x \<in> set (work_skus (fold (upsert_sku p) its w)). run_item p i x"
  by (rule upserts_keep [where p = p]) (simp_all add: run_item_def synced_columns_def)

lemma stale_run: "stale_sku p x \<Longrightarrow> \<not> run_item p i x \<and> \<not> of_page p k x"
  by (auto simp: stale_sku_def run_item_def of_page_def)

text \<open>
  Claim C24. When the last page of a sync arrives, the warehouse's active SiteGiant items are exactly those of the
  run, apart from items a later capture has written. Every active one is of the run or of a later capture; every
  item of the page is active under the run; every item an earlier page of the run had left active still is; and
  items of other sources and of other warehouses are as the page's items left them.
\<close>

theorem sync_leaves_one_run:
  assumes "sync_sitegiant_skus tk p w = Inr ((True, n), w')"
  shows "(\<forall>x \<in> set (work_skus w'). sk_wh x = sp_wh p \<and> sk_source x = ''sitegiant'' \<and> sk_active x
      \<longrightarrow> sk_run x = Some (sp_run p) \<or> (\<exists>s. sk_synced x = Some s \<and> sp_captured p < s))
    \<and> (\<forall>it \<in> set (sp_items p). \<exists>x \<in> set (work_skus w'). sk_wh x = sp_wh p \<and> sk_norm x = upper_text (btrim (si_sku it))
        \<and> sk_source x = ''sitegiant'' \<and> sk_active x \<and> sk_run x = Some (sp_run p))
    \<and> (\<forall>y \<in> set (work_skus w). sk_wh y = sp_wh p \<and> sk_source y = ''sitegiant'' \<and> sk_active y \<and> sk_run y = Some (sp_run p)
      \<longrightarrow> (\<exists>x \<in> set (work_skus w'). sk_wh x = sp_wh p \<and> sk_id x = sk_id y \<and> sk_source x = ''sitegiant'' \<and> sk_active x
            \<and> sk_run x = Some (sp_run p)))
    \<and> (\<forall>x \<in> set (work_skus w'). sk_wh x \<noteq> sp_wh p \<or> sk_source x \<noteq> ''sitegiant''
      \<longrightarrow> x \<in> set (work_skus (fold (upsert_sku p) (sp_items p) w)))"
proof -
  let ?s = "work_skus (fold (upsert_sku p) (sp_items p) w)"
  from assms have w': "work_skus w' = upd (stale_sku p) (\<lambda>x. x\<lparr>sk_active := False\<rparr>) ?s"
    by (auto simp: sync_sitegiant_skus_def Let_def waudit_def split: if_splits)
  have old: "(sk_wh x = sp_wh p \<and> sk_source x = ''sitegiant'' \<and> sk_active x
      \<longrightarrow> sk_run x = Some (sp_run p) \<or> (\<exists>s. sk_synced x = Some s \<and> sp_captured p < s))
    \<and> (sk_wh x \<noteq> sp_wh p \<or> sk_source x \<noteq> ''sitegiant'' \<longrightarrow> x \<in> set ?s)" if "x \<in> set (work_skus w')" for x
  proof -
    from that obtain y where y: "y \<in> set ?s" "x = (if stale_sku p y then y\<lparr>sk_active := False\<rparr> else y)"
      unfolding w' set_upd by blast
    then show ?thesis by (cases "stale_sku p y"; cases "sk_synced y") (auto simp: stale_sku_def)
  qed
  have new: "x \<in> set (work_skus w')" if "x \<in> set ?s" "\<not> stale_sku p x" for x
    using that unfolding w' set_upd by force
  have page: "\<exists>x \<in> set (work_skus w'). of_page p (upper_text (btrim (si_sku it))) x" if "it \<in> set (sp_items p)" for it
    using page_written [OF that] stale_run new by blast
  have run: "\<exists>x \<in> set (work_skus w'). run_item p (sk_id y) x" if "y \<in> set (work_skus w)" "run_item p (sk_id y) y" for y
    using run_kept [OF that] stale_run new by blast
  show ?thesis using old page run unfolding of_page_def run_item_def by (intro conjI ballI impI; blast)
qed

definition demo_page :: sku_page where
  "demo_page = \<lparr>sp_wh = 1, sp_run = ''r2'', sp_captured = 20, sp_page = 1, sp_pages = 1, sp_total = 1,
     sp_items = [\<lparr>si_sku = ''B'', si_name = ''Bolt'', si_id = None, si_url = None, si_image = None\<rparr>]\<rparr>"

definition demo_old_sku :: work_sku where
  "demo_old_sku = (manual_sku 1 ''A'' ''Anchor'' ''boss'' 1)\<lparr>sk_source := ''sitegiant'', sk_run := Some ''r1'', sk_synced := Some 10\<rparr>"

theorem sync_leaves_one_run_witness:
  "\<exists>w'. sync_sitegiant_skus \<lparr>tk_id = 7, tk_whs = [1]\<rparr> demo_page (empty_work\<lparr>work_skus := [demo_old_sku]\<rparr>) = Inr ((True, 1), w')
     \<and> (\<forall>x \<in> set (work_skus w'). sk_wh x = 1 \<and> sk_source x = ''sitegiant'' \<and> sk_active x \<longrightarrow> sk_run x = Some ''r2''
          \<or> (\<exists>s. sk_synced x = Some s \<and> 20 < s))"
proof -
  let ?r = "sync_sitegiant_skus \<lparr>tk_id = 7, tk_whs = [1]\<rparr> demo_page (empty_work\<lparr>work_skus := [demo_old_sku]\<rparr>)"
  have "(case ?r of Inl _ \<Rightarrow> False | Inr (x, w) \<Rightarrow> x = (True, 1))" by code_simp
  then obtain w' where r: "?r = Inr ((True, 1), w')" by (auto split: sum.splits)
  have "sp_wh demo_page = 1" "sp_run demo_page = ''r2''" "sp_captured demo_page = 20" by (simp_all add: demo_page_def)
  with sync_leaves_one_run [OF r] r show ?thesis by auto
qed

end
