(* ===== verification/WorkScans.thy ===== *)
theory WorkScans
  imports WorkReceiving
begin

text \<open>
  What the verification events of Work Control prove: each is the record of a scan that named a code of the Pack
  Note its task belongs to, whichever requests come before or after it. Every request but the scan itself leaves
  the verification events alone, and no request takes a task, a Pack Note or an order of a note away.
\<close>

section \<open>The rows a scan reads and writes\<close>

definition floor_rows :: "work \<Rightarrow> (int \<times> int option) list \<times> (int \<times> string) list \<times> wnote_order list \<times> wevent list" where
  "floor_rows w = (map (\<lambda>t. (wt_id t, wt_batch t)) (tasks w), map (\<lambda>n. (wn_id n, wn_ref n)) (notes_tbl w), note_orders w,
     filter (\<lambda>e. we_kind e = EV_VERIFIED) (task_events w))"

text \<open>Rows are only added, and no verification event.\<close>

definition floor_grown :: "work \<Rightarrow> work \<Rightarrow> bool" where
  "floor_grown w w' \<longleftrightarrow>
     (case (floor_rows w, floor_rows w') of ((ts, ns, rs, es), (ts', ns', rs', es')) \<Rightarrow>
        set ts \<subseteq> set ts' \<and> set ns \<subseteq> set ns' \<and> set rs \<subseteq> set rs' \<and> es' = es)"

lemma grown_same: "floor_rows w' = floor_rows w \<Longrightarrow> floor_grown w w'"
  by (simp add: floor_grown_def floor_rows_def)

lemma grown_trans: "floor_grown u v \<Longrightarrow> floor_grown v w \<Longrightarrow> floor_grown u w"
  unfolding floor_grown_def floor_rows_def prod.case by (blast intro: trans)

lemma grown_left: "floor_rows v = floor_rows u \<Longrightarrow> floor_grown v w = floor_grown u w"
  by (simp add: floor_grown_def)

lemma grown_right: "floor_rows v = floor_rows w \<Longrightarrow> floor_grown u v = floor_grown u w"
  by (simp add: floor_grown_def)

section \<open>Requests that leave them alone\<close>

lemma floor_basic [simp]:
  "k \<noteq> EV_VERIFIED \<Longrightarrow> floor_rows (record_task_event i k u r m j d w) = floor_rows w"
  "floor_rows (waudit a e i u wh j w) = floor_rows w" "floor_rows (put_worker_day wh uid s cap sn u w) = floor_rows w"
  "floor_rows (w\<lparr>work_skus := ks\<rparr>) = floor_rows w" "floor_rows (w\<lparr>error_cases := es\<rparr>) = floor_rows w"
  "floor_rows (w\<lparr>drafts := ds\<rparr>) = floor_rows w" "floor_rows (w\<lparr>draft_lines := ls\<rparr>) = floor_rows w"
  "floor_rows (w\<lparr>evidence_tbl := vs\<rparr>) = floor_rows w" "floor_rows (w\<lparr>wseq := q\<rparr>) = floor_rows w"
  "floor_rows (snd (wnextval sq w)) = floor_rows w"
  by (simp_all add: floor_rows_def record_task_event_def wnextval_def waudit_def put_worker_day_def Let_def)

lemma floor_notes [simp]: "floor_rows (open_note b w) = floor_rows w" "floor_rows (close_note b w) = floor_rows w"
  by (simp_all add: floor_rows_def open_note_def close_note_def map_upd_same)

lemma floor_set_task:
  "(\<And>t. wt_id (f t) = wt_id t \<and> wt_batch (f t) = wt_batch t) \<Longrightarrow> floor_rows (set_task i f w) = floor_rows w"
  by (simp add: floor_rows_def map_upd_same)

lemma floor_rows_written [simp]:
  "floor_rows (set_task i (\<lambda>x. x\<lparr>wt_state := s, wt_claimed := c, wt_claimed_at := n\<rparr>) w) = floor_rows w"
  "floor_rows (set_task i (apply_action a m) w) = floor_rows w"
  "floor_rows (set_task i (assign_row u e why m actor) w) = floor_rows w"
  "floor_rows (set_task i (release_row why actor) w) = floor_rows w"
  by (rule floor_set_task, simp add: apply_action_def assign_row_def release_row_def split: work_action.split)+

lemma action_event_unverified [simp]: "action_event a \<noteq> EV_VERIFIED"
  by (cases a) (simp_all add: action_event_def)

lemma floor_claim [simp]: "floor_rows (snd (claim_next_task wh u ks d w)) = floor_rows w"
  by (auto simp: claim_next_task_def claim_task_def Let_def split: option.split)

lemma floor_claim_eq: "claim_next_task wh u ks d w = (y, w') \<Longrightarrow> floor_rows w' = floor_rows w"
  by (metis floor_claim snd_conv)

lemma floor_transition: "transition_task i u a adm r n d w = Inr (x, w') \<Longrightarrow> floor_rows w' = floor_rows w"
  by (auto simp: transition_task_def Let_def split: option.splits if_splits)

lemma floor_dispatch [simp]: "floor_rows (snd (auto_dispatch wh a d w)) = floor_rows w"
proof -
  have one: "floor_rows (snd (snd (dispatch_one wh a d av m t s))) = floor_rows (snd (snd s))" for av m t s
    by (cases s) (simp add: dispatch_one_def Let_def dispatch_to_def)
  have "floor_rows (snd (snd (fold (dispatch_one wh a d av m) ts s))) = floor_rows (snd (snd s))" for av m ts s
    by (induction ts arbitrary: s) (simp_all add: one)
  then show ?thesis by (simp add: auto_dispatch_def)
qed

lemma floor_dispatch_eq: "auto_dispatch wh a d w = (y, w') \<Longrightarrow> floor_rows w' = floor_rows w"
  by (metis floor_dispatch snd_conv)

lemma floor_release [simp]: "floor_rows (fold (release_task u a s) is w) = floor_rows w"
  by (induction "is" arbitrary: w) (simp_all add: release_task_def)

lemma floor_availability: "set_worker_availability wh uid s cap u n w = Inr (x, w') \<Longrightarrow> floor_rows w' = floor_rows w"
  by (auto simp: set_worker_availability_def Let_def split_beta split: option.splits if_splits)

lemma floor_assign: "assign_task i u a r w = Inr (x, w') \<Longrightarrow> floor_rows w' = floor_rows w"
  by (auto simp: assign_task_def Let_def split: option.splits if_splits)

lemma floor_file_case [simp]: "floor_rows (snd (file_case c r b x w)) = floor_rows w"
  by (simp add: file_case_def split_beta Let_def split: option.split)

lemma floor_file_case_eq: "file_case c r b x w = (y, w') \<Longrightarrow> floor_rows w' = floor_rows w"
  by (metis floor_file_case snd_conv)

lemma floor_task_routes:
  "claim_next c wh ks d w = Inr (x1, w') \<Longrightarrow> floor_rows w' = floor_rows w"
  "task_transition c i a r n d m ks w = Inr (x2, w') \<Longrightarrow> floor_rows w' = floor_rows w"
  "run_dispatch c wh w = Inr (x4, w') \<Longrightarrow> floor_rows w' = floor_rows w"
  "update_worker_availability c wh uid st cap n w = Inr (x5, w') \<Longrightarrow> floor_rows w' = floor_rows w"
  "update_task_assignment c i u r w = Inr (x6, w') \<Longrightarrow> floor_rows w' = floor_rows w"
  "create_error c q w = Inr (x7, w') \<Longrightarrow> floor_rows w' = floor_rows w"
  "review_error c i cs b n w = Inr w' \<Longrightarrow> floor_rows w' = floor_rows w"
proof -
  show "claim_next c wh ks d w = Inr (x1, w') \<Longrightarrow> floor_rows w' = floor_rows w"
    by (auto simp: claim_next_def dest: floor_claim_eq split: sum.splits if_splits)
  show "task_transition c i a r n d m ks w = Inr (x2, w') \<Longrightarrow> floor_rows w' = floor_rows w"
    by (auto simp: task_transition_def Let_def split_beta dest!: floor_transition split: option.splits if_splits sum.splits)
  show "run_dispatch c wh w = Inr (x4, w') \<Longrightarrow> floor_rows w' = floor_rows w"
    by (auto simp: run_dispatch_def dest: floor_dispatch_eq split: if_splits)
  show "update_worker_availability c wh uid st cap n w = Inr (x5, w') \<Longrightarrow> floor_rows w' = floor_rows w"
    by (auto simp: update_worker_availability_def dest: floor_availability split: if_splits)
  show "update_task_assignment c i u r w = Inr (x6, w') \<Longrightarrow> floor_rows w' = floor_rows w"
    by (auto simp: update_task_assignment_def split_beta dest!: floor_assign split: option.splits if_splits sum.splits)
  show "create_error c q w = Inr (x7, w') \<Longrightarrow> floor_rows w' = floor_rows w"
    by (auto simp: create_error_def dest: floor_file_case_eq split: option.splits if_splits sum.splits)
  show "review_error c i cs b n w = Inr w' \<Longrightarrow> floor_rows w' = floor_rows w"
    by (auto simp: review_error_def split: option.splits if_splits)
qed

lemma floor_skus:
  "create_work_sku c wh s item w = Inr (x1, w') \<Longrightarrow> floor_rows w' = floor_rows w"
  "sync_sitegiant_skus tk p w = Inr (x2, w') \<Longrightarrow> floor_rows w' = floor_rows w"
proof -
  show "create_work_sku c wh s item w = Inr (x1, w') \<Longrightarrow> floor_rows w' = floor_rows w"
    by (auto simp: create_work_sku_def Let_def split_beta split: if_splits)
  have "floor_rows (upsert_sku p it v) = floor_rows v" for it v by (simp add: upsert_sku_def Let_def split_beta)
  then have "floor_rows (fold (upsert_sku p) its v) = floor_rows v" for its v by (induction its arbitrary: v) simp_all
  then show "sync_sitegiant_skus tk p w = Inr (x2, w') \<Longrightarrow> floor_rows w' = floor_rows w"
    by (auto simp: sync_sitegiant_skus_def Let_def split: if_splits)
qed

lemma floor_drafts:
  "create_receiving_draft c q w = Inr (x1, w') \<Longrightarrow> floor_rows w' = floor_rows w"
  "submit_receiving_draft c i m ks d w = Inr (x2, w') \<Longrightarrow> floor_rows w' = floor_rows w"
  "upload_evidence c e dr l bytes key file cap stored w = Inr (x3, w') \<Longrightarrow> floor_rows w' = floor_rows w"
proof -
  have "floor_rows (snd (line_sku wh u l v)) = floor_rows v" for wh u l v
    by (simp add: line_sku_def Let_def split_beta split: option.split)
  then have "floor_rows (insert_draft_line dd wh u l v) = floor_rows v" for dd wh u l v
    by (simp add: insert_draft_line_def Let_def split_beta)
  then have "floor_rows (fold (insert_draft_line dd wh u) ls v) = floor_rows v" for dd wh u ls v
    by (induction ls arbitrary: v) simp_all
  then show "create_receiving_draft c q w = Inr (x1, w') \<Longrightarrow> floor_rows w' = floor_rows w"
    by (auto simp: create_receiving_draft_def Let_def split_beta split: if_splits option.splits)
  have "finish_linked_task c dr m ks d v = Inr (x, w') \<Longrightarrow> floor_rows w' = floor_rows v" for dr v x
    by (auto simp: finish_linked_task_def split_beta dest!: floor_transition split: option.splits sum.splits if_splits)
  then show "submit_receiving_draft c i m ks d w = Inr (x2, w') \<Longrightarrow> floor_rows w' = floor_rows w"
    by (fastforce simp: submit_receiving_draft_def mark_submitted_def split: option.splits if_splits)
  show "upload_evidence c e dr l bytes key file cap stored w = Inr (x3, w') \<Longrightarrow> floor_rows w' = floor_rows w"
    by (auto simp: upload_evidence_def Let_def split_beta split: option.splits prod.splits if_splits)
qed

section \<open>Requests that add rows\<close>

lemma grown_insert_task: "insert_task row w = Some (i, w') \<Longrightarrow> floor_grown w w'"
  by (auto simp: insert_task_def Let_def wnextval_def floor_grown_def floor_rows_def split: if_splits)

lemma grown_insert_orders: "insert_orders b p xs w = Some w' \<Longrightarrow> floor_grown w w'"
proof (induction xs arbitrary: w)
  case Nil
  then show ?case by (simp add: grown_same)
next
  case (Cons x xs)
  then obtain v where v: "insert_order b p x w = Some v" "insert_orders b p xs v = Some w'" by (auto split: option.splits)
  then have "floor_grown w v"
    by (auto simp: insert_order_def Let_def wnextval_def floor_grown_def floor_rows_def split: if_splits)
  with Cons.IH [OF v(2)] show ?case by (rule grown_trans [rotated])
qed

lemma grown_insert_batch_tasks: "insert_batch_tasks r b u ks w = Some (ids, w') \<Longrightarrow> floor_grown w w'"
proof (induction ks arbitrary: w ids)
  case Nil
  then show ?case by (simp add: grown_same)
next
  case (Cons k ks)
  then obtain i v js where v: "insert_task (batch_task r b u (clock w) k) w = Some (i, v)"
    "insert_batch_tasks r b u ks (record_task_event i EV_CREATED u None None
       (JObj [(''batch_id'', JInt b), (''task_type'', JStr (kind_text k))]) None v) = Some (js, w')"
    by (auto split: option.splits)
  from Cons.IH [OF v(2)] have "floor_grown v w'" by (simp add: floor_grown_def)
  with grown_insert_task [OF v(1)] show ?case by (rule grown_trans)
qed

lemma grown_create_batch:
  assumes "create_batch c q w = Inr (x, w')"
  shows "floor_grown w w'"
proof -
  define p where "p = insert_note q (cr_user c) w"
  from assms obtain w2 where 2: "insert_orders (fst p) (br_platform q) (br_orders q) (snd p) = Some w2"
    by (simp add: create_batch_def split_beta p_def [symmetric] split: option.splits if_splits)
  with assms obtain y where "insert_batch_tasks q (fst p) (cr_user c) (br_kinds q) w2 = Some y"
    by (simp add: create_batch_def split_beta p_def [symmetric] split: option.splits if_splits)
  then obtain ids w3 where 3: "insert_batch_tasks q (fst p) (cr_user c) (br_kinds q) w2 = Some (ids, w3)" by (cases y) simp
  with assms 2 have w': "floor_rows w' = floor_rows w3"
    by (simp add: create_batch_def split_beta p_def [symmetric] split: option.splits if_splits) (elim conjE, hypsubst, simp)
  have "floor_grown w (snd p)"
    by (auto simp: p_def insert_note_def wnextval_def Let_def floor_grown_def floor_rows_def)
  with grown_insert_orders [OF 2] grown_insert_batch_tasks [OF 3] have "floor_grown w w3" by (blast intro: grown_trans)
  with w' show ?thesis using grown_right by blast
qed

lemma floor_create_task:
  assumes c: "create_task c q w = Inr (x, w')"
    and 1: "insert_task (requested_task q (cr_user c) (clock w)
      (estimate_minutes (\<lambda>k. load_dispatch_rate (tr_wh q) k w) (tr_kind q) (tr_orders q) (tr_skus q) (tr_units q) (tr_level q))) w
      = Some (i, w1)"
  shows "floor_rows w' = floor_rows w1"
proof (cases "tr_assigned q")
  case None
  with c 1 show ?thesis
    by (simp add: create_task_def Let_def split_beta split: option.splits if_splits) (elim conjE, hypsubst, simp)+
next
  case (Some u)
  define v where "v = waudit ''WORK_TASK_CREATED'' ''WORK_TASK'' i (cr_user c) (tr_wh q)
    (JObj [(''task_type'', JStr (kind_text (tr_kind q))), (''batch_id'', jopt JInt (tr_batch q)), (''assigned_to'', jopt JStr (tr_assigned q))])
    (record_task_event i EV_CREATED (cr_user c) None None (JObj [(''assigned_to'', jopt JStr (tr_assigned q))]) None w1)"
  from c 1 Some have "\<exists>z. assign_task i (Some u) (cr_user c) (Some (''Assigned when created by '' @ cr_user c)) v = Inr (z, w')"
    by (simp add: create_task_def Let_def split_beta v_def split: option.splits if_splits sum.splits) (metis prod.collapse)+
  then show ?thesis by (auto dest: floor_assign simp: v_def)
qed

lemma grown_create_task:
  assumes "create_task c q w = Inr (x, w')"
  shows "floor_grown w w'"
proof -
  from assms obtain y where "insert_task (requested_task q (cr_user c) (clock w)
      (estimate_minutes (\<lambda>k. load_dispatch_rate (tr_wh q) k w) (tr_kind q) (tr_orders q) (tr_skus q) (tr_units q) (tr_level q))) w
      = Some y"
    by (simp add: create_task_def Let_def split: option.splits if_splits)
  with floor_create_task [OF assms, of "fst y" "snd y"] grown_insert_task [of _ w "fst y" "snd y"]
  have "floor_rows w' = floor_rows (snd y)" "floor_grown w (snd y)" by simp_all
  then show ?thesis using grown_right by blast
qed

lemma grown_review:
  assumes "review_receiving_draft c i st n w = Inr (x, w')"
  shows "floor_grown w w'"
proof -
  have "floor_grown v (snd (recount_task d t u v))" for d t u v
    by (auto simp: recount_task_def wnextval_def Let_def floor_grown_def floor_rows_def split: option.split)
  then have "floor_grown v (snd (request_recount d u v))" for d u v
    by (auto simp: request_recount_def split_beta Let_def grown_same grown_right [OF floor_basic(1)] split: option.split)
  then have "floor_grown w (snd (request_recount d u (w\<lparr>drafts := ds\<rparr>)))" for d u ds
    using grown_left [OF floor_basic(6)] by blast
  then show ?thesis using assms
    by (auto simp: review_receiving_draft_def Let_def split_beta grown_same grown_right [OF floor_basic(2)] split: option.splits if_splits)
qed

section \<open>Every verification is a scan of the Pack Note\<close>

text \<open>The codes of a batch: its reference, and the courier barcodes and numbers of its orders.\<close>

definition code_of_note :: "int option \<Rightarrow> string \<Rightarrow> work \<Rightarrow> bool" where
  "code_of_note b code w \<longleftrightarrow>
     (\<exists>n \<in> set (notes_tbl w). b = Some (wn_id n) \<and>
        (wn_ref n = code \<or> (\<exists>r \<in> set (note_orders w). wo_note r = wn_id n \<and> (wo_courier r = Some code \<or> wo_number r = code))))"

lemma matched_order_code: "matched_order b code w = Some x \<Longrightarrow> code_of_note b code w"
proof -
  assume m: "matched_order b code w = Some x"
  then obtain n ns where n: "filter (\<lambda>n. Some (wn_id n) = b) (notes_tbl w) = n # ns" by (auto simp: matched_order_def split: list.splits)
  then have nb: "n \<in> set (notes_tbl w)" "b = Some (wn_id n)" by (auto dest: filter_eq_ConsD)
  let ?os = "filter (\<lambda>r. wo_note r = wn_id n \<and> (wo_courier r = Some code \<or> wo_number r = code)) (note_orders w)"
  from m n have "wn_ref n = code \<or> sort_key wo_id ?os \<noteq> []"
    by (auto simp: matched_order_def Let_def split: list.splits if_splits)
  then have "wn_ref n = code \<or> set (sort_key wo_id ?os) \<noteq> {}" by (simp only: set_empty) 
  with nb show ?thesis by (auto simp: code_of_note_def)
qed

definition scan_log :: "work \<Rightarrow> bool" where
  "scan_log w \<longleftrightarrow> (\<forall>e \<in> set (task_events w). we_kind e = EV_VERIFIED \<longrightarrow>
     (\<exists>t \<in> set (tasks w). wt_id t = we_task e
        \<and> (\<exists>code. we_notes e = Some (''Scanned '' @ code) \<and> code_of_note (wt_batch t) code w)))"

lemma grown_code:
  assumes "floor_grown w w'" "code_of_note b code w"
  shows "code_of_note b code w'"
proof -
  from assms(2) obtain n where n: "n \<in> set (notes_tbl w)" "b = Some (wn_id n)"
    "wn_ref n = code \<or> (\<exists>r \<in> set (note_orders w). wo_note r = wn_id n \<and> (wo_courier r = Some code \<or> wo_number r = code))"
    by (auto simp: code_of_note_def)
  from assms(1) n(1) have "(wn_id n, wn_ref n) \<in> (\<lambda>n. (wn_id n, wn_ref n)) ` set (notes_tbl w')"
    and o: "set (note_orders w) \<subseteq> set (note_orders w')"
    by (auto simp: floor_grown_def floor_rows_def)
  then obtain m where "m \<in> set (notes_tbl w')" "wn_id m = wn_id n" "wn_ref m = wn_ref n" by auto
  with n(2,3) o show ?thesis unfolding code_of_note_def by (intro bexI [of _ m]) auto
qed

lemma grown_log:
  assumes "floor_grown w w'" "scan_log w"
  shows "scan_log w'"
  unfolding scan_log_def
proof (intro ballI impI)
  fix e assume e: "e \<in> set (task_events w')" "we_kind e = EV_VERIFIED"
  from assms(1) have same: "filter (\<lambda>e. we_kind e = EV_VERIFIED) (task_events w') = filter (\<lambda>e. we_kind e = EV_VERIFIED) (task_events w)"
    and ts: "(\<lambda>t. (wt_id t, wt_batch t)) ` set (tasks w) \<subseteq> (\<lambda>t. (wt_id t, wt_batch t)) ` set (tasks w')"
    by (auto simp: floor_grown_def floor_rows_def)
  from e have "e \<in> set (filter (\<lambda>e. we_kind e = EV_VERIFIED) (task_events w'))" by simp
  with assms(2) obtain t code where t: "t \<in> set (tasks w)" "wt_id t = we_task e" "we_notes e = Some (''Scanned '' @ code)"
    "code_of_note (wt_batch t) code w" unfolding same scan_log_def by auto
  from t(1) ts obtain x where "x \<in> set (tasks w')" "wt_id x = wt_id t" "wt_batch x = wt_batch t" by force
  with t grown_code [OF assms(1) t(4)] show "\<exists>t \<in> set (tasks w'). wt_id t = we_task e
      \<and> (\<exists>code. we_notes e = Some (''Scanned '' @ code) \<and> code_of_note (wt_batch t) code w')" by metis
qed

lemma scan_extends_log:
  assumes s: "verify_task_scan c i code d w = Inr (x, w')" and l: "scan_log w"
  shows "scan_log w'"
proof -
  from s obtain t y where t: "get_task i w = Some t" "matched_order (wt_batch t) code w = Some y"
    by (auto simp: verify_task_scan_def split: option.splits if_splits)
  from s have "w' = w \<or> (\<exists>e. task_events w' = task_events w @ [e] \<and> we_task e = i \<and> we_notes e = Some (''Scanned '' @ code))"
    and same: "tasks w' = tasks w" "notes_tbl w' = notes_tbl w" "note_orders w' = note_orders w"
    by (auto simp: verify_task_scan_def Let_def record_task_event_def wnextval_def split: option.splits if_splits)
  moreover have "code_of_note b k w' = code_of_note b k w" for b k by (simp add: code_of_note_def same)
  ultimately show ?thesis
    using l get_task_in [OF t(1)] matched_order_code [OF t(2)] unfolding scan_log_def same by (elim disjE exE) auto
qed

lemmas floor_kept = floor_task_routes floor_skus floor_drafts

lemmas log_kept = floor_kept [THEN grown_same, THEN grown_log] grown_create_batch [THEN grown_log]
  grown_create_task [THEN grown_log] grown_review [THEN grown_log] scan_extends_log

end
