(* ===== verification/WorkControl.thy ===== *)
theory WorkControl
  imports WorkScans
begin

text \<open>
  Histories of Work Control: any sequence of the requests of \<^verbatim>\<open>api/routes/work_control.py\<close>, by any employees and
  supervisors, between which time passes, a day ends, accounts and grants change and the rest of the server
  works. The properties here hold after every history.
\<close>

section \<open>Histories\<close>

inductive work_step :: "work \<Rightarrow> work \<Rightarrow> bool" where
  claims: "claim_next c wh ks device w = Inr (r, w') \<Longrightarrow> work_step w w'"
| moves: "task_transition c i a reason comment device more_work ks w = Inr (r1, w') \<Longrightarrow> work_step w w'"
| scans: "verify_task_scan c i code device w = Inr (r2, w') \<Longrightarrow> work_step w w'"
| dispatches: "run_dispatch c wh w = Inr (r3, w') \<Longrightarrow> work_step w w'"
| changes_shift: "update_worker_availability c wh uid s capacity comment w = Inr (r4, w') \<Longrightarrow> work_step w w'"
| assigns: "update_task_assignment c i u reason w = Inr (r5, w') \<Longrightarrow> work_step w w'"
| adds_batch: "create_batch c b w = Inr (r6, w') \<Longrightarrow> work_step w w'"
| adds_task: "create_task c q w = Inr (r7, w') \<Longrightarrow> work_step w w'"
| reports: "create_error c e w = Inr (r8, w') \<Longrightarrow> work_step w w'"
| judges: "review_error c i cs blame comment w = Inr w' \<Longrightarrow> work_step w w'"
| names_sku: "create_work_sku c wh sku item w = Inr (r9, w') \<Longrightarrow> work_step w w'"
| syncs: "sync_sitegiant_skus tk p w = Inr (r10, w') \<Longrightarrow> work_step w w'"
| counts_arrival: "\<forall>l \<in> set (dq_lines d). line_entry_ok l \<Longrightarrow> create_receiving_draft c d w = Inr (r11, w') \<Longrightarrow> work_step w w'"
| submits: "submit_receiving_draft c i more_work ks device w = Inr (r12, w') \<Longrightarrow> work_step w w'"
| reviews: "review_receiving_draft c i st comment w = Inr (r13, w') \<Longrightarrow> work_step w w'"
| photographs: "upload_evidence c ce cd cl bytes key file caption stored w = Inr (r14, w') \<Longrightarrow> work_step w w'"
| time_passes: "clock w \<le> n \<Longrightarrow> work_step w (w\<lparr>clock := n, today := day, staff := people, base := server\<rparr>)"

text \<open>Work Control just installed.\<close>

definition work_start :: "work \<Rightarrow> bool" where
  "work_start w \<longleftrightarrow> tasks w = [] \<and> notes_tbl w = [] \<and> drafts w = [] \<and> draft_lines w = []"

lemma work_start_ok: "work_start w \<Longrightarrow> work_ok w"
  by (simp add: work_start_def work_ok_def keys_ok_def housed_def one_active_def apart_def)

lemma time_passes_same: "clock w \<le> n \<Longrightarrow> same_tasks w (w\<lparr>clock := n, today := day, staff := people, base := server\<rparr>)"
  by (simp add: same_tasks_def kept_def stops_def)

lemma work_step_ok:
  assumes "work_ok w" "work_step w w'"
  shows "work_ok w'"
  using assms(2,1)
proof cases
  case claims then show ?thesis using assms claim_next_ok by blast
next
  case moves then show ?thesis using assms task_transition_ok by blast
next
  case scans then show ?thesis using assms verify_task_scan_ok by blast
next
  case dispatches then show ?thesis using assms run_dispatch_ok by blast
next
  case changes_shift then show ?thesis
    using assms set_worker_availability_ok by (auto simp: update_worker_availability_def split: if_splits)
next
  case assigns then show ?thesis using assms update_task_assignment_ok by blast
next
  case adds_batch then show ?thesis using assms create_batch_ok by blast
next
  case adds_task then show ?thesis using assms create_task_ok by blast
next
  case reports then show ?thesis using assms create_error_ok by blast
next
  case judges then show ?thesis using assms review_error_ok by blast
next
  case names_sku then show ?thesis using assms same_tasks_ok create_work_sku_same by blast
next
  case syncs then show ?thesis using assms same_tasks_ok sync_same by blast
next
  case counts_arrival then show ?thesis using assms same_tasks_ok create_receiving_draft_same by blast
next
  case submits then show ?thesis using assms submit_receiving_draft_ok by blast
next
  case reviews then show ?thesis using assms review_receiving_draft_ok by blast
next
  case photographs then show ?thesis using assms same_tasks_ok upload_evidence_same by blast
next
  case time_passes then show ?thesis using assms same_tasks_ok time_passes_same by blast
qed

interpretation work_history: step_invariant work_step work_ok
  by unfold_locales (rule work_step_ok)

lemma work_reachable: "work_start s \<Longrightarrow> work_step\<^sup>*\<^sup>* s w \<Longrightarrow> work_ok w"
  by (rule work_history.reachable) (auto dest: work_start_ok)

text \<open>
  Claim C16. Four eyes on every Pack Note: whatever employees and supervisors do, the person a batch's picking
  task belongs to (who claimed it, or else whom it is assigned to) is never the person its packing task belongs
  to. The one exception is the empty user name, which is nobody.
\<close>

theorem picker_is_never_packer:
  assumes "work_start s" "work_step\<^sup>*\<^sup>* s w"
    and "t \<in> set (tasks w)" "wt_kind t = K_PICKING" "c \<in> set (tasks w)" "wt_kind c = K_PACKING"
    and "wt_batch t = Some b" "wt_batch c = Some b" "owner t = Some u" "u \<noteq> ''''"
  shows "owner c \<noteq> Some u"
proof -
  have "apart w" using work_reachable [OF assms(1,2)] by (simp add: work_ok_def)
  moreover have "counterpart_of t c" using assms by (simp add: counterpart_of_def floor_kind_def)
  ultimately show ?thesis using assms unfolding apart_def by blast
qed

text \<open>
  Claim C19. An employee works on one task at a time: no two tasks in the states claimed, in progress or paused
  belong to one person, every such task has a person, and a task still waiting has not been claimed.
\<close>

theorem one_task_at_a_time:
  assumes "work_start s" "work_step\<^sup>*\<^sup>* s w" "t \<in> set (tasks w)"
  shows "(active_status (wt_state t) \<longrightarrow> wt_claimed t \<noteq> None
      \<and> (\<forall>c \<in> set (tasks w). active_status (wt_state c) \<and> wt_claimed c = wt_claimed t \<longrightarrow> c = t))
    \<and> (wt_state t = W_QUEUED \<or> wt_state t = W_ASSIGNED \<longrightarrow> wt_claimed t = None)"
proof -
  have ok: "one_active w" "keys_ok w" "lifecycle t"
    using work_reachable [OF assms(1,2)] assms(3) by (simp_all add: work_ok_def)
  have "c = t" if "c \<in> set (tasks w)" "active_status (wt_state c)" "active_status (wt_state t)" "wt_claimed c = wt_claimed t" for c
  proof -
    have "wt_id c = wt_id t" using ok(1) that assms(3) unfolding one_active_def by blast
    with ok(2) that(1) assms(3) show ?thesis unfolding keys_ok_def by (blast dest: key_inj)
  qed
  moreover have "active_status (wt_state t) \<Longrightarrow> wt_claimed t \<noteq> None"
    "wt_state t = W_QUEUED \<or> wt_state t = W_ASSIGNED \<Longrightarrow> wt_claimed t = None"
    using ok(3) by (auto simp: lifecycle_def active_status_def)
  ultimately show ?thesis by blast
qed

text \<open>
  Claim C18. The time book of a finished task is exact up to rounding: the active and the paused seconds
  together differ from the time between start and completion by at most half a second for every pause, resume,
  completion or cancellation logged for the task; neither is ever negative.
\<close>

theorem recorded_time_is_exact:
  assumes "work_start s" "work_step\<^sup>*\<^sup>* s w" "t \<in> set (tasks w)" "wt_state t = W_COMPLETED \<or> wt_state t = W_CANCELLED"
    and "wt_started t = Some b"
  shows "\<exists>e. wt_completed t = Some e \<and> b \<le> e \<and> 0 \<le> wt_active t \<and> 0 \<le> wt_paused t
    \<and> \<bar>1000000 * (wt_active t + wt_paused t) - (e - b)\<bar> \<le> 500000 * stops (wt_id t) w"
proof -
  have "timed (clock w) (stops (wt_id t) w) t" using work_reachable [OF assms(1,2)] assms(3) by (simp add: work_ok_def)
  with assms(4,5) show ?thesis by (auto simp: timed_def booked_def split: option.splits)
qed

lemma time_passes_floor: "floor_rows (w\<lparr>clock := n, today := day, staff := people, base := server\<rparr>) = floor_rows w"
  by (simp add: floor_rows_def)

lemma work_step_log: "scan_log w \<Longrightarrow> work_step w w' \<Longrightarrow> scan_log w'"
  by (erule work_step.cases) (use log_kept grown_log [OF grown_same [OF time_passes_floor]] in \<open>metis (no_types, lifting)\<close>)+

interpretation scan_history: step_invariant work_step scan_log
  by unfold_locales (rule work_step_log)

text \<open>
  Claim C20. Picking and packing never start unscanned. After any history from an empty installation, every
  picking or packing task with a start time has a verification event, and the event's note names the scanned
  code, which is a code of the task's own Pack Note: the reference of the batch, or the courier barcode or the
  number of one of the batch's orders.
\<close>

theorem no_start_without_scan:
  assumes "work_start s" "task_events s = []" "work_step\<^sup>*\<^sup>* s w" "t \<in> set (tasks w)"
    and "wt_kind t = K_PICKING \<or> wt_kind t = K_PACKING" "wt_started t \<noteq> None"
  shows "\<exists>e \<in> set (task_events w). we_task e = wt_id t \<and> we_kind e = EV_VERIFIED
    \<and> (\<exists>code. we_notes e = Some (''Scanned '' @ code)
        \<and> (\<exists>n \<in> set (notes_tbl w). wt_batch t = Some (wn_id n)
            \<and> (wn_ref n = code
               \<or> (\<exists>r \<in> set (note_orders w). wo_note r = wn_id n \<and> (wo_courier r = Some code \<or> wo_number r = code)))))"
proof -
  have ok: "scanned w t" "keys_ok w" using work_reachable [OF assms(1,3)] assms(4) by (simp_all add: work_ok_def)
  with assms(5,6) obtain e where e: "e \<in> set (task_events w)" "we_task e = wt_id t" "we_kind e = EV_VERIFIED"
    by (auto simp: scanned_def floor_kind_def)
  have "scan_log w" by (rule scan_history.reachable [OF assms(3)]) (simp add: scan_log_def assms(2))
  with e obtain x code where x: "x \<in> set (tasks w)" "wt_id x = wt_id t" "we_notes e = Some (''Scanned '' @ code)"
    "code_of_note (wt_batch x) code w" unfolding scan_log_def by metis
  with ok(2) assms(4) have "x = t" unfolding keys_ok_def by (blast dest: key_inj)
  with x e show ?thesis unfolding code_of_note_def by blast
qed

section \<open>Draft receipts\<close>

text \<open>The tables of the counted receipts.\<close>

definition papers :: "work \<Rightarrow> receiving_draft list \<times> receiving_draft_line list \<times> work_evidence list \<times> int" where
  "papers w = (drafts w, draft_lines w, evidence_tbl w, wseq w WS_draft)"

lemma papers_basic [simp]:
  "papers (record_task_event i k u r m j d w) = papers w" "papers (waudit a e i u wh j w) = papers w"
  "papers (set_task i f w) = papers w" "papers (open_note b w) = papers w" "papers (close_note b w) = papers w"
  "papers (put_worker_day wh uid s cap sn u w) = papers w"
  "papers (w\<lparr>work_skus := ks\<rparr>) = papers w" "papers (w\<lparr>tasks := ts\<rparr>) = papers w" "papers (w\<lparr>error_cases := es\<rparr>) = papers w"
  "papers (w\<lparr>notes_tbl := ns\<rparr>) = papers w" "papers (w\<lparr>note_orders := os\<rparr>) = papers w"
  "q \<noteq> WS_draft \<Longrightarrow> papers (snd (wnextval q w)) = papers w"
  by (simp_all add: papers_def record_task_event_def wnextval_def waudit_def set_task_def open_note_def close_note_def
      put_worker_day_def Let_def)

lemma papers_claim [simp]: "papers (snd (claim_next_task wh u ks d w)) = papers w"
  by (auto simp: claim_next_task_def claim_task_def Let_def split: option.split)

lemma papers_transition: "transition_task i u a adm r n d w = Inr (x, w') \<Longrightarrow> papers w' = papers w"
  by (auto simp: transition_task_def Let_def split: option.splits if_splits)

lemma papers_dispatch_one: "papers (snd (snd (dispatch_one wh a d av m t s))) = papers (snd (snd s))"
  by (cases s) (simp add: dispatch_one_def Let_def dispatch_to_def)

lemma papers_dispatch [simp]: "papers (snd (auto_dispatch wh a d w)) = papers w"
proof -
  have "papers (snd (snd (fold (dispatch_one wh a d av m) ts s))) = papers (snd (snd s))" for av m ts s
    by (induction ts arbitrary: s) (simp_all add: papers_dispatch_one)
  then show ?thesis by (simp add: auto_dispatch_def)
qed

lemma papers_release [simp]: "papers (fold (release_task u a s) is w) = papers w"
  by (induction "is" arbitrary: w) (simp_all add: release_task_def)

lemma papers_availability: "set_worker_availability wh uid s cap u n w = Inr (x, w') \<Longrightarrow> papers w' = papers w"
  by (auto simp: set_worker_availability_def Let_def split_beta split: option.splits if_splits)

lemma papers_assign: "assign_task i u a r w = Inr (x, w') \<Longrightarrow> papers w' = papers w"
  by (auto simp: assign_task_def Let_def split: option.splits if_splits)

lemma papers_insert_task: "insert_task row w = Some (i, w') \<Longrightarrow> papers w' = papers w"
  by (auto simp: insert_task_def Let_def wnextval_def papers_def split: if_splits)

lemma papers_insert_orders: "insert_orders b p xs w = Some w' \<Longrightarrow> papers w' = papers w"
  by (induction xs arbitrary: w)
    (auto simp: insert_order_def Let_def wnextval_def papers_def split: option.splits if_splits)

lemma papers_insert_batch_tasks: "insert_batch_tasks r b u ks w = Some (ids, w') \<Longrightarrow> papers w' = papers w"
  by (induction ks arbitrary: w ids) (auto split: option.splits dest!: papers_insert_task)

lemma papers_insert_note: "papers (snd (insert_note r u w)) = papers w"
  by (simp add: insert_note_def split_beta)

lemma papers_create_batch: "create_batch c q w = Inr (x, w') \<Longrightarrow> papers w' = papers w"
  using papers_insert_note [of q "cr_user c" w]
  by (auto simp: create_batch_def split_beta dest!: papers_insert_orders papers_insert_batch_tasks split: option.splits if_splits)

lemma papers_create_task: "create_task c q w = Inr (x, w') \<Longrightarrow> papers w' = papers w"
  by (auto simp: create_task_def Let_def split_beta dest!: papers_insert_task papers_assign split: option.splits if_splits sum.splits)

lemma papers_file_case [simp]: "papers (snd (file_case c r b x w)) = papers w"
  by (simp add: file_case_def split_beta Let_def split: option.split)

lemma papers_file_case_eq: "file_case c r b x w = (y, w') \<Longrightarrow> papers w' = papers w"
  by (metis papers_file_case snd_conv)

lemma papers_claim_eq: "claim_next_task wh u ks d w = (y, w') \<Longrightarrow> papers w' = papers w"
  by (metis papers_claim snd_conv)

lemma papers_dispatch_eq: "auto_dispatch wh a d w = (y, w') \<Longrightarrow> papers w' = papers w"
  by (metis papers_dispatch snd_conv)

lemma papers_create_error: "create_error c r w = Inr (x, w') \<Longrightarrow> papers w' = papers w"
  by (auto simp: create_error_def dest: papers_file_case_eq split: option.splits if_splits sum.splits)

lemma papers_task_routes:
  "claim_next c wh ks d w = Inr (x1, w') \<Longrightarrow> papers w' = papers w"
  "task_transition c i a r n d m ks w = Inr (x2, w') \<Longrightarrow> papers w' = papers w"
  "verify_task_scan c i s d w = Inr (x3, w') \<Longrightarrow> papers w' = papers w"
  "run_dispatch c wh w = Inr (x4, w') \<Longrightarrow> papers w' = papers w"
  "update_worker_availability c wh uid st cap n w = Inr (x5, w') \<Longrightarrow> papers w' = papers w"
  "update_task_assignment c i u r w = Inr (x6, w') \<Longrightarrow> papers w' = papers w"
  "review_error c i cs b n w = Inr w' \<Longrightarrow> papers w' = papers w"
proof -
  show "claim_next c wh ks d w = Inr (x1, w') \<Longrightarrow> papers w' = papers w"
    by (auto simp: claim_next_def dest: papers_claim_eq split: sum.splits if_splits)
  show "task_transition c i a r n d m ks w = Inr (x2, w') \<Longrightarrow> papers w' = papers w"
    by (auto simp: task_transition_def Let_def split_beta dest!: papers_transition split: option.splits if_splits sum.splits)
  show "verify_task_scan c i s d w = Inr (x3, w') \<Longrightarrow> papers w' = papers w"
    by (auto simp: verify_task_scan_def Let_def split: option.splits if_splits)
  show "run_dispatch c wh w = Inr (x4, w') \<Longrightarrow> papers w' = papers w"
    by (auto simp: run_dispatch_def dest: papers_dispatch_eq split: if_splits)
  show "update_worker_availability c wh uid st cap n w = Inr (x5, w') \<Longrightarrow> papers w' = papers w"
    by (auto simp: update_worker_availability_def dest: papers_availability split: if_splits)
  show "update_task_assignment c i u r w = Inr (x6, w') \<Longrightarrow> papers w' = papers w"
    by (auto simp: update_task_assignment_def split_beta dest!: papers_assign split: option.splits if_splits sum.splits)
  show "review_error c i cs b n w = Inr w' \<Longrightarrow> papers w' = papers w"
    by (auto simp: review_error_def split: option.splits if_splits)
qed

text \<open>What holds of them: a line's quantities add up, a task has one draft at most, and a draft that has left
  its counter has its photographs.\<close>

definition line_sound :: "receiving_draft_line \<Rightarrow> bool" where
  "line_sound l \<longleftrightarrow> rl_received l = rl_good l + rl_damaged l \<and> 0 \<le> rl_good l \<and> 0 \<le> rl_damaged l
     \<and> 0 \<le> rl_short l \<and> 0 \<le> rl_over l
     \<and> (case rl_expected l of None \<Rightarrow> rl_short l = 0 \<and> rl_over l = 0
          | Some e \<Rightarrow> rl_received l = e - rl_short l + rl_over l \<and> (rl_short l = 0 \<or> rl_over l = 0))"

definition photographed :: "int \<Rightarrow> receiving_draft_line list \<Rightarrow> work_evidence list \<Rightarrow> bool" where
  "photographed d ls es \<longleftrightarrow>
     (\<exists>e \<in> set es. ev_draft e = Some d)
     \<or> (\<exists>l \<in> set ls. rl_draft l = d) \<and> (\<forall>l \<in> set ls. rl_draft l = d \<longrightarrow> (\<exists>e \<in> set es. ev_line e = Some (rl_id l)))"

definition papers_ok :: "receiving_draft list \<times> receiving_draft_line list \<times> work_evidence list \<times> int \<Rightarrow> bool" where
  "papers_ok p \<longleftrightarrow> (case p of (ds, ls, es, q) \<Rightarrow>
     distinct (map rd_id ds) \<and> (\<forall>d \<in> set ds. rd_id d < q) \<and> (\<forall>l \<in> set ls. line_sound l)
     \<and> (\<forall>d \<in> set ds. \<forall>e \<in> set ds. rd_task d \<noteq> None \<longrightarrow> rd_task d = rd_task e \<longrightarrow> rd_id d = rd_id e)
     \<and> (\<forall>d \<in> set ds. rd_state d \<noteq> RD_DRAFT \<longrightarrow> photographed (rd_id d) ls es))"

lemma photo_error_photographed: "photo_error d w = None \<Longrightarrow> photographed d (draft_lines w) (evidence_tbl w)"
  by (auto simp: photo_error_def photographed_def draft_photos_def draft_line_ids_def filter_empty_conv split: if_splits)

lemma photographed_more: "photographed d ls es \<Longrightarrow> photographed d ls (es @ es')"
  unfolding photographed_def by auto

lemma photographed_other: "photographed d ls es \<Longrightarrow> \<forall>l \<in> set ls'. rl_draft l \<noteq> d \<Longrightarrow> photographed d (ls @ ls') es"
  unfolding photographed_def by auto

lemma insert_draft_line_papers:
  "\<exists>r. papers (insert_draft_line d wh u l w) = (drafts w, draft_lines w @ [r], evidence_tbl w, wseq w WS_draft)
     \<and> rl_draft r = d \<and> (line_entry_ok l \<longrightarrow> line_sound r)"
proof -
  have k: "drafts (snd (line_sku wh u l w)) = drafts w \<and> draft_lines (snd (line_sku wh u l w)) = draft_lines w
      \<and> evidence_tbl (snd (line_sku wh u l w)) = evidence_tbl w \<and> wseq (snd (line_sku wh u l w)) WS_draft = wseq w WS_draft"
    by (auto simp: line_sku_def Let_def wnextval_def split: option.split)
  define m where "m = line_sku wh u l w"
  show ?thesis
    using k unfolding m_def [symmetric]
    by (cases m)
      (auto simp: insert_draft_line_def m_def [symmetric] papers_def Let_def wnextval_def line_sound_def line_entry_ok_def
        short_of_def over_of_def split: option.splits)
qed

lemma insert_draft_lines_papers:
  "\<exists>rs. papers (fold (insert_draft_line d wh u) ls w) = (drafts w, draft_lines w @ rs, evidence_tbl w, wseq w WS_draft)
     \<and> (\<forall>r \<in> set rs. rl_draft r = d) \<and> ((\<forall>l \<in> set ls. line_entry_ok l) \<longrightarrow> (\<forall>r \<in> set rs. line_sound r))"
proof (induction ls arbitrary: w)
  case Nil
  then show ?case by (intro exI [of _ "[]"]) (simp add: papers_def)
next
  case (Cons l ls)
  obtain r where r: "papers (insert_draft_line d wh u l w) = (drafts w, draft_lines w @ [r], evidence_tbl w, wseq w WS_draft)"
    "rl_draft r = d" "line_entry_ok l \<longrightarrow> line_sound r" using insert_draft_line_papers by blast
  obtain rs where "papers (fold (insert_draft_line d wh u) (l # ls) w) = (drafts w, draft_lines w @ r # rs, evidence_tbl w, wseq w WS_draft)"
    "\<forall>r \<in> set rs. rl_draft r = d" "(\<forall>l \<in> set ls. line_entry_ok l) \<longrightarrow> (\<forall>r \<in> set rs. line_sound r)"
    using Cons.IH [of "insert_draft_line d wh u l w"] r(1) unfolding papers_def by auto
  with r(2,3) show ?case by (intro exI [of _ "r # rs"]) auto
qed

lemma create_draft_papers:
  assumes ok: "papers_ok (papers w)" and l: "\<forall>l \<in> set (dq_lines r). line_entry_ok l"
    and c: "create_receiving_draft c r w = Inr (x, w')"
  shows "papers_ok (papers w')"
proof -
  define d where "d = wseq w WS_draft"
  define row where "row = \<lparr>rd_id = d, rd_task = dq_task r, rd_wh = dq_wh r, rd_source = dq_source r, rd_po = dq_po r,
    rd_supplier = dq_supplier r, rd_state = RD_DRAFT, rd_by = cr_user c, rd_notes = dq_notes r,
    rd_submitted = None, rd_reviewer = None, rd_reviewed = None, rd_review = None\<rparr>"
  define w2 where "w2 = w\<lparr>wseq := (wseq w)(WS_draft := d + 1), drafts := drafts w @ [row]\<rparr>"
  from c have e: "draft_task_error c r w = None"
    by (auto simp: create_receiving_draft_def split: if_splits option.splits)
  from c have p: "papers w' = papers (fold (insert_draft_line d (dq_wh r) (cr_user c)) (dq_lines r) w2)"
    by (auto simp: create_receiving_draft_def wnextval_def Let_def d_def row_def w2_def split: if_splits option.splits)
  obtain rs where rs: "papers w' = (drafts w @ [row], draft_lines w @ rs, evidence_tbl w, d + 1)"
    "\<forall>y \<in> set rs. rl_draft y = d" "\<forall>y \<in> set rs. line_sound y"
    using insert_draft_lines_papers [of d "dq_wh r" "cr_user c" "dq_lines r" w2] l unfolding p by (auto simp: w2_def)
  have new: "rd_id row = d" "rd_task row = dq_task r" "rd_state row = RD_DRAFT" by (simp_all add: row_def)
  have one: "rd_task y \<noteq> dq_task r" if "y \<in> set (drafts w)" "dq_task r \<noteq> None" for y
    using e that by (auto simp: draft_task_error_def find_None split: option.splits if_splits)
  have old: "distinct (map rd_id (drafts w))" "\<forall>y \<in> set (drafts w). rd_id y < d" "\<forall>l \<in> set (draft_lines w). line_sound l"
    "\<forall>y \<in> set (drafts w). \<forall>z \<in> set (drafts w). rd_task y \<noteq> None \<longrightarrow> rd_task y = rd_task z \<longrightarrow> rd_id y = rd_id z"
    "\<forall>y \<in> set (drafts w). rd_state y \<noteq> RD_DRAFT \<longrightarrow> photographed (rd_id y) (draft_lines w) (evidence_tbl w)"
    using ok unfolding papers_ok_def papers_def d_def by auto
  have ph: "photographed (rd_id y) (draft_lines w @ rs) (evidence_tbl w)" if "y \<in> set (drafts w)" "rd_state y \<noteq> RD_DRAFT" for y
    using photographed_other [of "rd_id y" "draft_lines w" "evidence_tbl w" rs] that old(2,5) rs(2) by force
  have fresh: "rd_id row \<notin> set (map rd_id (drafts w))" using old(2) new(1) by auto
  have "rd_id y = rd_id z"
    if yz: "y \<in> set (drafts w @ [row])" "z \<in> set (drafts w @ [row])" "rd_task y \<noteq> None" "rd_task y = rd_task z" for y z
  proof -
    consider "y \<in> set (drafts w)" "z \<in> set (drafts w)" | "y = row" "z = row" | "y = row" "z \<in> set (drafts w)" | "y \<in> set (drafts w)" "z = row"
      using yz(1,2) by auto
    then show ?thesis
    proof cases
      case 1 with old(4) yz(3,4) show ?thesis by blast
    next
      case 2 then show ?thesis by simp
    next
      case 3 with one [of z] new(2) yz(3,4) show ?thesis by simp
    next
      case 4 with one [of y] new(2) yz(3,4) show ?thesis by simp
    qed
  qed
  moreover have "distinct (map rd_id (drafts w @ [row]))" using old(1) fresh by simp
  moreover have "\<forall>y \<in> set (drafts w @ [row]). rd_id y < d + 1" using old(2) new(1) by auto
  moreover have "\<forall>y \<in> set (drafts w @ [row]). rd_state y \<noteq> RD_DRAFT \<longrightarrow> photographed (rd_id y) (draft_lines w @ rs) (evidence_tbl w)"
    using ph new(3) by auto
  moreover have "\<forall>l \<in> set (draft_lines w @ rs). line_sound l" using old(3) rs(3) by auto
  ultimately show ?thesis unfolding rs(1) papers_ok_def prod.case by blast
qed

lemma papers_ok_seq: "papers_ok (ds, ls, es, q) \<Longrightarrow> papers_ok (ds, ls, es @ es', q)"
  unfolding papers_ok_def by (auto intro: photographed_more)

lemma upload_papers:
  assumes "papers_ok (papers w)" "upload_evidence c e d l bytes key file cap stored w = Inr (x, w')"
  shows "papers_ok (papers w')"
proof -
  from assms(2) obtain es where "papers w' = (drafts w, draft_lines w, evidence_tbl w @ es, wseq w WS_draft)"
    by (auto simp: upload_evidence_def Let_def wnextval_def papers_def waudit_def split: option.splits prod.splits if_splits)
  with assms(1) show ?thesis by (simp add: papers_def papers_ok_seq)
qed

text \<open>A draft's state is written only where the photographs have been checked, or after they were.\<close>

lemma state_write_papers:
  assumes ok: "papers_ok (ds, ls, es, q)" and f: "\<And>x. rd_id (f x) = rd_id x \<and> rd_task (f x) = rd_task x"
    and p: "photographed i ls es"
  shows "papers_ok (upd (\<lambda>x. rd_id x = i) f ds, ls, es, q)"
proof -
  have ids: "map rd_id (upd (\<lambda>x. rd_id x = i) f ds) = map rd_id ds" by (rule map_upd_same) (simp add: f)
  have "\<exists>x \<in> set ds. rd_id y = rd_id x \<and> rd_task y = rd_task x \<and> (y = x \<or> rd_id x = i)"
    if y: "y \<in> set (upd (\<lambda>x. rd_id x = i) f ds)" for y
  proof -
    from y obtain x where "x \<in> set ds" "y = (if rd_id x = i then f x else x)" unfolding set_upd by blast
    with f [of x] show ?thesis by (intro bexI [of _ x]) auto
  qed
  note from_old = this
  have old: "distinct (map rd_id ds)" "\<forall>d \<in> set ds. rd_id d < q" "\<forall>l \<in> set ls. line_sound l"
    "\<And>d e. d \<in> set ds \<Longrightarrow> e \<in> set ds \<Longrightarrow> rd_task d \<noteq> None \<Longrightarrow> rd_task d = rd_task e \<Longrightarrow> rd_id d = rd_id e"
    "\<And>d. d \<in> set ds \<Longrightarrow> rd_state d \<noteq> RD_DRAFT \<Longrightarrow> photographed (rd_id d) ls es"
    using ok unfolding papers_ok_def prod.case by blast+
  have "rd_id y < q \<and> (rd_state y \<noteq> RD_DRAFT \<longrightarrow> photographed (rd_id y) ls es)"
    if "y \<in> set (upd (\<lambda>x. rd_id x = i) f ds)" for y
  proof -
    from from_old [OF that] obtain x where x: "x \<in> set ds" "rd_id y = rd_id x" "y = x \<or> rd_id x = i" by blast
    with old(2) old(5) [of x] p show ?thesis by auto
  qed
  moreover have "rd_id y = rd_id z" if "y \<in> set (upd (\<lambda>x. rd_id x = i) f ds)" "z \<in> set (upd (\<lambda>x. rd_id x = i) f ds)"
      "rd_task y \<noteq> None" "rd_task y = rd_task z" for y z
  proof -
    from from_old [OF that(1)] from_old [OF that(2)] obtain x v where
      "x \<in> set ds" "rd_id y = rd_id x" "rd_task y = rd_task x" "v \<in> set ds" "rd_id z = rd_id v" "rd_task z = rd_task v" by blast
    with old(4) [of x v] that(3,4) show ?thesis by simp
  qed
  ultimately show ?thesis using old(1,3) unfolding papers_ok_def prod.case ids by blast
qed

lemma finish_linked_papers: "finish_linked_task c d m ks dev w = Inr (x, w') \<Longrightarrow> papers w' = papers w"
  by (auto simp: finish_linked_task_def split_beta dest!: papers_transition split: option.splits sum.splits if_splits)

lemma submit_papers:
  assumes ok: "papers_ok (papers w)" and s: "submit_receiving_draft c i m ks dev w = Inr (x, w')"
  shows "papers_ok (papers w')"
proof -
  from s have p: "photo_error i w = None" and e: "papers w' = papers (mark_submitted i w)"
    by (auto simp: submit_receiving_draft_def dest!: finish_linked_papers split: option.splits if_splits)
  show ?thesis
    using state_write_papers [OF ok [unfolded papers_def] _ photo_error_photographed [OF p]] e
    by (simp add: papers_def mark_submitted_def)
qed

lemma recount_papers [simp]: "papers (snd (request_recount d u w)) = papers w"
  by (auto simp: request_recount_def recount_task_def wnextval_def papers_def split_beta Let_def record_task_event_def
      split: option.split)

lemma review_papers:
  assumes ok: "papers_ok (papers w)" and s: "review_receiving_draft c i st n w = Inr (x, w')"
  shows "papers_ok (papers w')"
proof -
  from s obtain d where d: "List.find (\<lambda>d. rd_id d = i) (drafts w) = Some d" "review_allowed (rd_state d) st"
    by (auto simp: review_receiving_draft_def split: option.splits if_splits)
  define f where "f = (\<lambda>x. x\<lparr>rd_state := st, rd_review := n, rd_reviewer := Some (cr_user c), rd_reviewed := Some (clock w)\<rparr> :: receiving_draft)"
  from s d have "papers w' = papers (w\<lparr>drafts := upd (\<lambda>x. rd_id x = i) f (drafts w)\<rparr>)"
    by (auto simp: review_receiving_draft_def Let_def split_beta f_def split: if_splits)
  then have e: "papers w' = (upd (\<lambda>x. rd_id x = i) f (drafts w), draft_lines w, evidence_tbl w, wseq w WS_draft)"
    by (simp add: papers_def)
  have "d \<in> set (drafts w)" "rd_id d = i" using find_Some_iff_first [OF d(1)] by simp_all
  moreover have "rd_state d \<noteq> RD_DRAFT" using d(2) by (auto simp: review_allowed_def)
  ultimately have "photographed i (draft_lines w) (evidence_tbl w)" using ok unfolding papers_ok_def papers_def by auto
  with ok show ?thesis unfolding e by (simp only: papers_def) (rule state_write_papers, simp_all add: f_def)
qed

section \<open>What every history keeps of the receipts\<close>

lemma papers_skus:
  "create_work_sku c wh s item w = Inr (x1, w') \<Longrightarrow> papers w' = papers w"
  "sync_sitegiant_skus tk p w = Inr (x2, w') \<Longrightarrow> papers w' = papers w"
proof -
  show "create_work_sku c wh s item w = Inr (x1, w') \<Longrightarrow> papers w' = papers w"
    by (auto simp: create_work_sku_def Let_def split_beta split: if_splits)
  have "papers (upsert_sku p it v) = papers v" for it v by (simp add: upsert_sku_def Let_def split_beta)
  then have "papers (fold (upsert_sku p) its v) = papers v" for its v by (induction its arbitrary: v) simp_all
  then show "sync_sitegiant_skus tk p w = Inr (x2, w') \<Longrightarrow> papers w' = papers w"
    by (auto simp: sync_sitegiant_skus_def Let_def split: if_splits)
qed

lemma papers_clock: "papers (w\<lparr>clock := n, today := day, staff := people, base := server\<rparr>) = papers w"
  by (simp add: papers_def)

lemmas papers_kept = papers_task_routes papers_skus papers_create_batch papers_create_task papers_create_error papers_clock

lemma work_step_papers: "papers_ok (papers w) \<Longrightarrow> work_step w w' \<Longrightarrow> papers_ok (papers w')"
  by (erule work_step.cases)
    (use papers_kept create_draft_papers submit_papers review_papers upload_papers in \<open>metis (no_types, lifting)\<close>)+

interpretation receipt_history: step_invariant work_step "\<lambda>w. papers_ok (papers w)"
  by unfold_locales (rule work_step_papers)

text \<open>
  Claim C21. No receipt reaches the stock clerk without its photographs: a draft that has been submitted,
  approved, rejected or posted has a photograph of the arrival, or one of every line. The counted quantities of
  its lines always add up: received is good plus damaged, and differs from the expected quantity by exactly the
  shortage or the excess, never both.
\<close>

theorem receipts_come_with_photos:
  assumes "work_start s" "work_step\<^sup>*\<^sup>* s w" "d \<in> set (drafts w)"
  shows "(rd_state d \<noteq> RD_DRAFT \<longrightarrow>
      (\<exists>e \<in> set (evidence_tbl w). ev_draft e = Some (rd_id d))
      \<or> (\<exists>l \<in> set (draft_lines w). rl_draft l = rd_id d)
        \<and> (\<forall>l \<in> set (draft_lines w). rl_draft l = rd_id d \<longrightarrow> (\<exists>e \<in> set (evidence_tbl w). ev_line e = Some (rl_id l))))
    \<and> (\<forall>l \<in> set (draft_lines w). line_sound l)"
proof -
  have "papers_ok (papers s)" using assms(1) by (simp add: work_start_def papers_def papers_ok_def)
  then have "papers_ok (papers w)" by (rule receipt_history.reachable [OF assms(2)])
  then show ?thesis using assms(3) unfolding papers_ok_def papers_def photographed_def prod.case by blast
qed

section \<open>Reports name two people\<close>

lemma last_claimer_task:
  assumes "last_claimer k batch w = Some u"
  shows "\<exists>t \<in> set (tasks w). wt_kind t = k \<and> wt_batch t = batch \<and> batch \<noteq> None \<and> owner t = Some u"
  using assms unfolding last_claimer_def by (auto simp: owner_def dest!: sort_key_hd split: list.splits if_splits)

text \<open>
  Claim C23. An error report never blames one person twice: the picker and the packer it records for a Pack Note
  are two different employees, after any history.
\<close>

theorem report_names_two_people:
  assumes "work_start s" "work_step\<^sup>*\<^sup>* s w" "create_error c r w = Inr (x, w')" "er_picker x = Some u" "u \<noteq> ''''"
  shows "er_packer x \<noteq> Some u"
proof
  assume p: "er_packer x = Some u"
  from assms(3) obtain batch y v where "x = error_row c r batch y (wseq w WS_error) v" "tasks v = tasks w"
    by (auto simp: create_error_def file_case_def wnextval_def Let_def split: option.splits if_splits sum.splits)
  moreover from this(2) have "last_claimer k batch v = last_claimer k batch w" for k by (simp only: last_claimer_def)
  ultimately have lc: "last_claimer K_PICKING batch w = Some u" "last_claimer K_PACKING batch w = Some u"
    using assms(4) p by (simp_all add: error_row_def)
  from last_claimer_task [OF lc(1)] obtain t where t: "t \<in> set (tasks w)" "wt_kind t = K_PICKING" "wt_batch t = batch" "batch \<noteq> None" "owner t = Some u"
    by blast
  from last_claimer_task [OF lc(2)] obtain q where q: "q \<in> set (tasks w)" "wt_kind q = K_PACKING" "wt_batch q = batch" "owner q = Some u"
    by blast
  have "apart w" using work_reachable [OF assms(1,2)] by (simp add: work_ok_def)
  moreover have "counterpart_of t q" using t q by (simp add: counterpart_of_def floor_kind_def)
  ultimately show False using t q assms(5) unfolding apart_def by blast
qed

section \<open>A small history\<close>

definition accepted :: "'e + 'x \<times> work \<Rightarrow> bool" where
  "accepted r \<longleftrightarrow> (case r of Inl _ \<Rightarrow> False | Inr _ \<Rightarrow> True)"

definition work_of :: "'e + 'x \<times> work \<Rightarrow> work" where
  "work_of r = (case r of Inl _ \<Rightarrow> empty_work | Inr (x, w) \<Rightarrow> w)"

lemma history_step:
  "work_step\<^sup>*\<^sup>* s w \<Longrightarrow> accepted r \<Longrightarrow> (\<And>x w'. r = Inr (x, w') \<Longrightarrow> work_step w w') \<Longrightarrow> work_step\<^sup>*\<^sup>* s (work_of r)"
  by (cases r) (auto simp: accepted_def work_of_def intro: rtranclp.rtrancl_into_rtrancl)

definition demo_caller :: "int \<Rightarrow> string \<Rightarrow> caller" where
  "demo_caller i n = \<lparr>cr_session = \<lparr>s_user = n, s_admin = True, s_whs = [], s_txn = ''''\<rparr>, cr_id = i, cr_pages = [], cr_functions = []\<rparr>"

definition demo_work :: work where
  "demo_work = empty_work\<lparr>base := empty_db\<lparr>warehouses := [\<lparr>wh_id = 1, wh_code = ''W'', wh_active = True\<rparr>]\<rparr>\<rparr>"

definition demo_batch :: batch_request where
  "demo_batch = \<lparr>br_wh = 1, br_source = ''manual'', br_ref = ''PN1'', br_platform = None, br_priority = 50, br_declared = None,
     br_orders = [\<lparr>oe_number = ''SO1'', oe_courier = Some ''C1'', oe_platform = None, oe_skus = 1, oe_units = 2\<rparr>],
     br_kinds = [K_PICKING, K_PACKING]\<rparr>"

definition demo_added :: work where
  "demo_added = work_of (create_batch (demo_caller 1 ''boss'') demo_batch demo_work)"

definition demo_claimed :: work where
  "demo_claimed = work_of (claim_next (demo_caller 1 ''boss'') 1 None None demo_added)"

definition demo_both :: work where
  "demo_both = work_of (claim_next (demo_caller 2 ''ann'') 1 None None demo_claimed)"

definition demo_scanned :: work where
  "demo_scanned = work_of (verify_task_scan (demo_caller 1 ''boss'') 1 ''C1'' None demo_both)"

definition demo_started :: work where
  "demo_started = work_of (task_transition (demo_caller 1 ''boss'') 1 A_START None None None False None demo_scanned)"

definition demo_later :: work where
  "demo_later = demo_started\<lparr>clock := 90400000\<rparr>"

definition demo_done :: work where
  "demo_done = work_of (task_transition (demo_caller 1 ''boss'') 1 A_COMPLETE None None None False None demo_later)"

lemma demo_start: "work_start demo_work"
  by (simp add: work_start_def demo_work_def empty_work_def)

text \<open>One evaluation of the whole history.\<close>

lemma demo_work_run:
  "let r1 = create_batch (demo_caller 1 ''boss'') demo_batch demo_work;
       r2 = claim_next (demo_caller 1 ''boss'') 1 None None (work_of r1);
       r3 = claim_next (demo_caller 2 ''ann'') 1 None None (work_of r2);
       r4 = verify_task_scan (demo_caller 1 ''boss'') 1 ''C1'' None (work_of r3);
       r5 = task_transition (demo_caller 1 ''boss'') 1 A_START None None None False None (work_of r4);
       r6 = task_transition (demo_caller 1 ''boss'') 1 A_COMPLETE None None None False None ((work_of r5)\<lparr>clock := 90400000\<rparr>)
   in (accepted r1 \<and> accepted r2 \<and> accepted r3 \<and> accepted r4 \<and> accepted r5 \<and> accepted r6 \<and> clock (work_of r5) \<le> 90400000)
      \<and> map (\<lambda>t. (wt_id t, wt_batch t, wt_kind t, wt_state t, wt_claimed t)) (tasks (work_of r3)) =
         [(1, Some 1, K_PICKING, W_CLAIMED, Some ''boss''), (2, Some 1, K_PACKING, W_CLAIMED, Some ''ann'')]
      \<and> map_option (\<lambda>t. (wt_wh t, wt_batch t)) (get_task 1 (work_of r3)) = Some (1, Some 1)
      \<and> map_option wn_wh (note_of 1 (work_of r3)) = Some 1 \<and> last_claimer K_PICKING (Some 1) (work_of r3) = Some ''boss''
      \<and> map (\<lambda>t. (wt_id t, wt_kind t, wt_state t, wt_started t, wt_completed t, wt_active t)) (tasks (work_of r6)) =
         [(1, K_PICKING, W_COMPLETED, Some 0, Some 90400000, 90), (2, K_PACKING, W_CLAIMED, None, None, 0)]"
  by code_simp

lemmas demo_steps = demo_work_run [unfolded Let_def, folded demo_added_def, folded demo_claimed_def, folded demo_both_def,
  folded demo_scanned_def, folded demo_started_def, folded demo_later_def, folded demo_done_def]

lemma demo_facts:
  "accepted (create_batch (demo_caller 1 ''boss'') demo_batch demo_work)"
  "accepted (claim_next (demo_caller 1 ''boss'') 1 None None demo_added)"
  "accepted (claim_next (demo_caller 2 ''ann'') 1 None None demo_claimed)"
  "accepted (verify_task_scan (demo_caller 1 ''boss'') 1 ''C1'' None demo_both)"
  "accepted (task_transition (demo_caller 1 ''boss'') 1 A_START None None None False None demo_scanned)"
  "accepted (task_transition (demo_caller 1 ''boss'') 1 A_COMPLETE None None None False None demo_later) \<and> clock demo_started \<le> 90400000"
  "map_option (\<lambda>t. (wt_wh t, wt_batch t)) (get_task 1 demo_both) = Some (1, Some 1)
   \<and> map_option wn_wh (note_of 1 demo_both) = Some 1 \<and> last_claimer K_PICKING (Some 1) demo_both = Some ''boss''"
  using demo_steps by blast+

lemma demo_both_rows:
  "map (\<lambda>t. (wt_id t, wt_batch t, wt_kind t, wt_state t, wt_claimed t)) (tasks demo_both) =
     [(1, Some 1, K_PICKING, W_CLAIMED, Some ''boss''), (2, Some 1, K_PACKING, W_CLAIMED, Some ''ann'')]"
  using demo_steps by blast

lemma demo_done_rows:
  "map (\<lambda>t. (wt_id t, wt_kind t, wt_state t, wt_started t, wt_completed t, wt_active t)) (tasks demo_done) =
     [(1, K_PICKING, W_COMPLETED, Some 0, Some 90400000, 90), (2, K_PACKING, W_CLAIMED, None, None, 0)]"
  using demo_steps by blast

lemma demo_history_both: "work_step\<^sup>*\<^sup>* demo_work demo_both"
proof -
  have 1: "work_step\<^sup>*\<^sup>* demo_work demo_added" unfolding demo_added_def
    by (rule history_step [OF rtranclp.rtrancl_refl demo_facts(1)]) (rule adds_batch)
  have 2: "work_step\<^sup>*\<^sup>* demo_work demo_claimed" unfolding demo_claimed_def
    by (rule history_step [OF 1 demo_facts(2)]) (rule claims)
  show ?thesis unfolding demo_both_def by (rule history_step [OF 2 demo_facts(3)]) (rule claims)
qed

lemma demo_history: "work_step\<^sup>*\<^sup>* demo_work demo_done"
proof -
  have 3: "work_step\<^sup>*\<^sup>* demo_work demo_scanned" unfolding demo_scanned_def
    by (rule history_step [OF demo_history_both demo_facts(4)]) (rule scans)
  have 4: "work_step\<^sup>*\<^sup>* demo_work demo_started" unfolding demo_started_def
    by (rule history_step [OF 3 demo_facts(5)]) (rule moves)
  from time_passes [OF conjunct2 [OF demo_facts(6)], where day = "today demo_started" and people = "staff demo_started"
      and server = "base demo_started"]
  have "work_step demo_started demo_later" by (simp add: demo_later_def)
  with 4 have 5: "work_step\<^sup>*\<^sup>* demo_work demo_later" by (rule rtranclp.rtrancl_into_rtrancl)
  show ?thesis unfolding demo_done_def by (rule history_step [OF 5 conjunct1 [OF demo_facts(6)]]) (rule moves)
qed

theorem picker_is_never_packer_witness:
  "\<exists>t \<in> set (tasks demo_both). \<exists>c \<in> set (tasks demo_both). owner t = Some ''boss'' \<and> owner c \<noteq> Some ''boss''"
proof -
  obtain t c where r: "tasks demo_both = [t, c]" "wt_kind t = K_PICKING" "wt_kind c = K_PACKING" "wt_batch t = Some 1" "wt_batch c = Some 1"
    "owner t = Some ''boss''"
    using demo_both_rows by (auto simp: map_eq_Cons_conv owner_def)
  with picker_is_never_packer [OF demo_start demo_history_both, of t c 1 "''boss''"] show ?thesis by simp
qed

theorem one_task_at_a_time_witness:
  "\<exists>t \<in> set (tasks demo_both). active_status (wt_state t)
     \<and> (\<forall>c \<in> set (tasks demo_both). active_status (wt_state c) \<and> wt_claimed c = wt_claimed t \<longrightarrow> c = t)"
proof -
  obtain t c where r: "tasks demo_both = [t, c]" "wt_state t = W_CLAIMED"
    using demo_both_rows by (auto simp: map_eq_Cons_conv)
  then have "t \<in> set (tasks demo_both)" "active_status (wt_state t)" by (simp_all add: active_status_def)
  with one_task_at_a_time [OF demo_start demo_history_both this(1)] show ?thesis by blast
qed

theorem recorded_time_is_exact_witness:
  "\<exists>t \<in> set (tasks demo_done). wt_state t = W_COMPLETED
     \<and> (\<exists>e. wt_completed t = Some e \<and> \<bar>1000000 * (wt_active t + wt_paused t) - (e - 0)\<bar> \<le> 500000 * stops (wt_id t) demo_done)"
proof -
  obtain t c where r: "tasks demo_done = [t, c]" "wt_state t = W_COMPLETED" "wt_started t = Some 0"
    using demo_done_rows(1) by (auto simp: map_eq_Cons_conv)
  then have "t \<in> set (tasks demo_done)" by simp
  with recorded_time_is_exact [OF demo_start demo_history this, of 0] r(2,3) show ?thesis by blast
qed

theorem no_start_without_scan_witness:
  "\<exists>t \<in> set (tasks demo_done). wt_started t \<noteq> None \<and> (\<exists>e \<in> set (task_events demo_done). we_task e = wt_id t \<and> we_kind e = EV_VERIFIED
     \<and> (\<exists>code. we_notes e = Some (''Scanned '' @ code)))"
proof -
  obtain t c where r: "tasks demo_done = [t, c]" "wt_kind t = K_PICKING" "wt_started t = Some 0"
    using demo_done_rows(1) by (auto simp: map_eq_Cons_conv)
  then have t: "t \<in> set (tasks demo_done)" "wt_started t \<noteq> None" by simp_all
  have "task_events demo_work = []" by (simp add: demo_work_def empty_work_def)
  with no_start_without_scan [OF demo_start _ demo_history t(1)] r(2) t show ?thesis by blast
qed

definition demo_report :: error_request where
  "demo_report = \<lparr>rq_wh = 1, rq_task = Some 1, rq_batch = None, rq_order = None, rq_kind = ''WRONG_ITEM'', rq_severity = SV_MEDIUM,
     rq_stage = None, rq_courier = None, rq_number = None, rq_sku = None, rq_qty = None, rq_text = None\<rparr>"

theorem report_names_two_people_witness:
  "\<exists>x w'. create_error (demo_caller 1 ''boss'') demo_report demo_both = Inr (x, w') \<and> er_picker x = Some ''boss'' \<and> er_packer x \<noteq> Some ''boss''"
proof -
  obtain t where t: "get_task 1 demo_both = Some t" "wt_wh t = 1" "wt_batch t = Some 1"
    using demo_facts(7) by auto
  have "map_option wn_wh (note_of 1 demo_both) = Some 1" "last_claimer K_PICKING (Some 1) demo_both = Some ''boss''"
    using demo_facts(7) by simp_all
  moreover have "last_claimer k b (demo_both\<lparr>wseq := q\<rparr>) = last_claimer k b demo_both" for k b q by (simp add: last_claimer_def)
  ultimately obtain x w' where "create_error (demo_caller 1 ''boss'') demo_report demo_both = Inr (x, w')" "er_picker x = Some ''boss''"
    using t by (auto simp: create_error_def reported_batch_def reported_order_def demo_report_def demo_caller_def truthy_def
        check_warehouse_access_def file_case_def error_row_def wnextval_def Let_def)
  with report_names_two_people [OF demo_start demo_history_both this] show ?thesis by blast
qed

definition demo_count :: draft_request where
  "demo_count = \<lparr>dq_wh = 1, dq_task = None, dq_source = ''manual'', dq_po = Some ''PO1'', dq_supplier = None, dq_notes = None,
     dq_lines = [\<lparr>le_sku = ''A'', le_name = Some ''Anchor'', le_expected = Some 10, le_received = 8, le_good = 7, le_damaged = 1,
                  le_notes = None\<rparr>]\<rparr>"

definition demo_counted :: work where
  "demo_counted = work_of (create_receiving_draft (demo_caller 1 ''boss'') demo_count demo_work)"

definition demo_photographed :: work where
  "demo_photographed = work_of (upload_evidence (demo_caller 1 ''boss'') None (Some 1) None [255, 216, 255] ''k'' ''photo'' None True demo_counted)"

definition demo_submitted :: work where
  "demo_submitted = work_of (submit_receiving_draft (demo_caller 1 ''boss'') 1 False None None demo_photographed)"

lemma demo_receipt_run:
  "let r1 = create_receiving_draft (demo_caller 1 ''boss'') demo_count demo_work;
       r2 = upload_evidence (demo_caller 1 ''boss'') None (Some 1) None [255, 216, 255] ''k'' ''photo'' None True (work_of r1);
       r3 = submit_receiving_draft (demo_caller 1 ''boss'') 1 False None None (work_of r2)
   in accepted r1 \<and> accepted r2 \<and> accepted r3 \<and> map (\<lambda>d. (rd_id d, rd_state d)) (drafts (work_of r3)) = [(1, RD_SUBMITTED)]"
  by code_simp

lemmas demo_receipt_steps = demo_receipt_run [unfolded Let_def, folded demo_counted_def, folded demo_photographed_def,
  folded demo_submitted_def]

lemma demo_receipt_history: "work_step\<^sup>*\<^sup>* demo_work demo_submitted"
proof -
  have "\<forall>l \<in> set (dq_lines demo_count). line_entry_ok l" by (simp add: demo_count_def line_entry_ok_def)
  then have 1: "work_step\<^sup>*\<^sup>* demo_work demo_counted" unfolding demo_counted_def
    by (intro history_step [OF rtranclp.rtrancl_refl]) (use demo_receipt_steps counts_arrival in blast)+
  have 2: "work_step\<^sup>*\<^sup>* demo_work demo_photographed" unfolding demo_photographed_def
    by (rule history_step [OF 1]) (use demo_receipt_steps photographs in blast)+
  show ?thesis unfolding demo_submitted_def
    by (rule history_step [OF 2]) (use demo_receipt_steps submits in blast)+
qed

theorem receipts_come_with_photos_witness:
  "\<exists>d \<in> set (drafts demo_submitted). rd_state d = RD_SUBMITTED
     \<and> ((\<exists>e \<in> set (evidence_tbl demo_submitted). ev_draft e = Some (rd_id d))
        \<or> (\<forall>l \<in> set (draft_lines demo_submitted). rl_draft l = rd_id d \<longrightarrow> (\<exists>e \<in> set (evidence_tbl demo_submitted). ev_line e = Some (rl_id l))))"
proof -
  have "map (\<lambda>d. (rd_id d, rd_state d)) (drafts demo_submitted) = [(1, RD_SUBMITTED)]" using demo_receipt_steps by blast
  then obtain d where "drafts demo_submitted = [d]" "rd_state d = RD_SUBMITTED" by (auto simp: map_eq_Cons_conv)
  then have d: "d \<in> set (drafts demo_submitted)" "rd_state d = RD_SUBMITTED" by simp_all
  then have "rd_state d \<noteq> RD_DRAFT" by simp
  with receipts_come_with_photos [OF demo_start demo_receipt_history d(1)] d show ?thesis by blast
qed

section \<open>Where the code falls short\<close>

text \<open>An employee without any granted kind may claim nothing (\<open>claim_next\<close> answers with no task), but the claim
  that follows a completion passes the empty list on, which \<open>claim_next_task\<close> takes as no restriction.\<close>

lemma completion_claims_ungranted_kind:
  assumes "\<not> cr_admin c" "List.find (\<lambda>e. em_id e = cr_id c) (staff w) = Some p" "em_functions p = []"
  shows "authorized_task_types c None w = Inr (Some [])"
    "claim_next_task wh u (Some []) device w = claim_next_task wh u None device w"
proof -
  show "authorized_task_types c None w = Inr (Some [])" using assms by (simp add: authorized_task_types_def granted_kinds_def)
  have "claimable wh u (Some []) w = claimable wh u None w" by (simp add: claimable_def fun_eq_iff)
  then have "next_claimable wh u (Some []) w = next_claimable wh u None w" by (simp add: next_claimable_def)
  then show "claim_next_task wh u (Some []) device w = claim_next_task wh u None device w"
    unfolding claim_next_task_def by (simp only:)
qed

text \<open>An empty \<open>assigned_to\<close> passes the request model: the task becomes ASSIGNED to nobody, no one can claim it
  and the dispatcher passes it over.\<close>

lemma blank_assignee_strands_task:
  assumes ok: "work_ok w" and t: "get_task i w = Some t" "wt_state t = W_QUEUED"
  shows "\<exists>wh w' x. assign_task i (Some '''') actor reason w = Inr (wh, w') \<and> get_task i w' = Some x
    \<and> wt_state x = W_ASSIGNED \<and> wt_assigned x = Some '''' \<and> \<not> dispatchable n x
    \<and> (\<forall>user ks. user \<noteq> '''' \<longrightarrow> \<not> claimable (wt_wh x) user ks w' x)"
proof -
  have c: "wt_claimed t = None" using waiting_unclaimed [OF ok] get_task_in [OF t(1)] t(2) by (simp add: waiting_def)
  define e where "e = (let e = (case wt_estimate t of None \<Rightarrow> 0 | Some x \<Rightarrow> x) in if e = 0 then task_estimate (wt_wh t) w t else e)"
  define why where "why = manual_reason reason (Some '''') actor"
  have "\<exists>w'. assign_task i (Some '''') actor reason w = Inr (wt_wh t, w')
      \<and> tasks w' = tasks (set_task i (assign_row (Some '''') e why (clock w) actor) w)"
    using t c by (simp add: assign_task_def truthy_def Let_def e_def why_def)
  then obtain w' where r: "assign_task i (Some '''') actor reason w = Inr (wt_wh t, w')"
    and w': "tasks w' = tasks (set_task i (assign_row (Some '''') e why (clock w) actor) w)" by blast
  have "get_task i w' = Some (assign_row (Some '''') e why (clock w) actor t)"
    using get_task_set [of "assign_row (Some '''') e why (clock w) actor" i i w] t(1) get_task_in [OF t(1)] w'
    by (simp add: get_task_def)
  moreover define x where "x = assign_row (Some '''') e why (clock w) actor t"
  moreover have "wt_state x = W_ASSIGNED" "wt_assigned x = Some ''''" by (simp_all add: x_def)
  moreover from this have "\<not> dispatchable n x" "user \<noteq> '''' \<Longrightarrow> \<not> claimable (wt_wh x) user ks w' x" for user ks
    by (simp_all add: dispatchable_def claimable_def)
  ultimately show ?thesis using r by blast
qed

text \<open>Cancelling a batch's last open task completes the batch, even when nothing of it was done.\<close>

lemma cancelled_batch_is_completed:
  assumes "\<forall>t \<in> set (tasks w). wt_batch t = Some b \<longrightarrow> wt_state t = W_CANCELLED"
    and "n \<in> set (notes_tbl (close_note (Some b) w))" "wn_id n = b"
  shows "wn_state n = NB_COMPLETED"
proof -
  have "\<not> (\<exists>t \<in> set (tasks w). wt_batch t = Some b \<and> \<not> terminal (wt_state t))"
    using assms(1) by (auto simp: terminal_def)
  then have "notes_tbl (close_note (Some b) w) = upd (\<lambda>n. wn_id n = b) (\<lambda>n. n\<lparr>wn_state := NB_COMPLETED\<rparr>) (notes_tbl w)"
    by (simp add: close_note_def)
  then have "n \<in> set (upd (\<lambda>n. wn_id n = b) (\<lambda>n. n\<lparr>wn_state := NB_COMPLETED\<rparr>) (notes_tbl w))" using assms(2) by simp
  then obtain m where "n = (if wn_id m = b then m\<lparr>wn_state := NB_COMPLETED\<rparr> else m)"
    unfolding set_upd by blast
  with assms(3) show ?thesis by (cases "wn_id m = b") auto
qed

text \<open>A supervisor of one warehouse decides the error cases of every other.\<close>

lemma review_crosses_warehouses:
  assumes "can_supervise c" "List.find (\<lambda>x. er_id x = i) (error_cases w) = Some x" "er_state x = CS_PENDING"
  shows "\<exists>w'. review_error c i s blame comment w = Inr w'"
  using assms by (simp add: review_error_def)

lemma receiving_review_crosses_warehouses:
  assumes "can_supervise c" "List.find (\<lambda>d. rd_id d = i) (drafts w) = Some d" "rd_state d = RD_SUBMITTED"
  shows "\<exists>r. review_receiving_draft c i RD_APPROVED comment w = Inr r"
  using assms by (simp add: review_receiving_draft_def review_allowed_def Let_def)

text \<open>The scan picks its batch before it looks at the warehouse: a newer batch of another warehouse with the same
  reference hides the employee's own.\<close>

definition demo_foreign :: "int \<Rightarrow> int \<Rightarrow> int \<Rightarrow> wnote" where
  "demo_foreign b wh n = \<lparr>wn_id = b, wn_wh = wh, wn_source = ''manual'', wn_ref = ''PN1'', wn_platform = None, wn_priority = 50,
     wn_state = NB_OPEN, wn_orders = 1, wn_by = ''boss'', wn_created = n\<rparr>"

lemma scan_sees_foreign_batch_first:
  "scan_batch \<lparr>cr_session = \<lparr>s_user = ''ann'', s_admin = False, s_whs = [1], s_txn = ''''\<rparr>, cr_id = 2, cr_pages = [], cr_functions = []\<rparr>
     ''PN1'' (empty_work\<lparr>notes_tbl := [demo_foreign 1 1 10, demo_foreign 2 2 20]\<rparr>) = Inl IE_denied"
  by (simp add: scan_batch_def batch_matches_def demo_foreign_def batch_open_def empty_work_def check_warehouse_access_def less_eq_prod_def)

text \<open>A task added to a completed batch does not reopen it.\<close>

lemma dispatch_keeps_batches: "notes_tbl (snd (auto_dispatch wh a d w)) = notes_tbl w"
proof -
  have "notes_tbl (snd (snd (fold (dispatch_one wh a d av m) ts s))) = notes_tbl (snd (snd s))" for av m ts s
  proof (induction ts arbitrary: s)
    case (Cons t ts)
    have "notes_tbl (snd (snd (dispatch_one wh a d av m t s))) = notes_tbl (snd (snd s))"
      by (cases s) (simp add: dispatch_one_def Let_def)
    with Cons.IH show ?case by simp
  qed simp
  then show ?thesis by (simp add: auto_dispatch_def)
qed

lemma assign_keeps_batches: "assign_task i u a r w = Inr (x, w') \<Longrightarrow> notes_tbl w' = notes_tbl w"
  by (auto simp: assign_task_def Let_def split: option.splits if_splits)

lemma new_task_leaves_batch_closed: "create_task c q w = Inr (x, w') \<Longrightarrow> notes_tbl w' = notes_tbl w"
  by (auto simp: create_task_def Let_def split_beta dispatch_keeps_batches insert_task_def wnextval_def
      dest!: assign_keeps_batches split: option.splits if_splits sum.splits)

end
