(* ===== verification/Pos.thy ===== *)
theory Pos
  imports Returns PickBatches "HOL-Library.List_Lexorder" "HOL-Library.Char_ord"
begin

text \<open>
  The point-of-sale surface of \<^verbatim>\<open>api/routes/pos.py\<close>: availability, order lookup, the cart
  check, the atomic checkout, refunds and reference orders, with the bodies of
  \<^verbatim>\<open>api/schemas/pos.py\<close>. A request comes with the warehouses of its token. The columns of
  \<open>sales_orders\<close> that only this surface uses stand in a table of their own, one row per POS
  order; \<open>h\<close> is what \<open>canonical_body_sha256\<close> returns for the body. Rate limits, body-size
  caps and lock timeouts have no counterpart.
\<close>

section \<open>State\<close>

record pos_row =
  pc_so :: int
  pc_key :: "string option"
  pc_hash :: "string option"
  pc_response :: "json option"
  pc_created :: int
  pc_refunded :: "int option"
  pc_total :: rat
  pc_shipping :: rat
  pc_txn :: "string option"

text \<open>\<open>retired\<close>: items whose \<open>is_active\<close> is not true; \<open>restock_code\<close>: the stripped environment
  variable \<open>BACKORDER_WAREHOUSE_CODE\<close>.\<close>

record pos =
  shop :: db
  pos_rows :: "pos_row list"
  retired :: "int list"
  restock_code :: string

datatype pos_error =
  PE_query
| PE_item_not_found
| PE_order_not_found
| PE_key_reused string
| PE_busy
| PE_scope nat
| PE_unresolved nat
| PE_parent_required
| PE_parent_not_found
| PE_no_restock_warehouse
| PE_short nat int
| PE_returned_unknown string
| PE_returned_not_on_parent string
| PE_already_refunded "string option"
| PE_window_expired
| PE_tender_mismatch
| PE_line_not_in_order
| PE_exceeds_remaining int int int
| PE_no_scope
| PE_internal

section \<open>Lookups\<close>

text \<open>\<open>_LOOKUP_RE.match\<close>: in Python \<open>$\<close> also stands before a newline at the end.\<close>

definition lookup_char :: "char \<Rightarrow> bool" where
  "lookup_char c \<longleftrightarrow>
     (let n = of_char c :: nat in
        65 \<le> n \<and> n \<le> 90 \<or> 97 \<le> n \<and> n \<le> 122 \<or> 48 \<le> n \<and> n \<le> 57 \<or> c \<in> set ''_-#.'')"

definition lookup_text :: "string \<Rightarrow> bool" where
  "lookup_text s \<longleftrightarrow>
     (let t = (if s \<noteq> [] \<and> last s = CHR 0x0A then butlast s else s) in t \<noteq> [] \<and> list_all lookup_char t)"

definition lookup_value_ok :: "string \<Rightarrow> bool" where
  "lookup_value_ok s \<longleftrightarrow> s \<noteq> [] \<and> length s \<le> 64 \<and> lookup_text s"

definition item_by_sku :: "string \<Rightarrow> db \<Rightarrow> item_row option" where
  "item_by_sku s d = List.find (\<lambda>i. item_sku i = s) (items d)"

definition wh_by_code :: "string \<Rightarrow> db \<Rightarrow> wh_row option" where
  "wh_by_code c d = List.find (\<lambda>w. wh_code w = c) (warehouses d)"

text \<open>Either a barcode or a SKU; an absent parameter is \<open>None\<close>, an empty one counts as missing
  for the first test.\<close>

definition named_item :: "string option \<Rightarrow> string option \<Rightarrow> pos \<Rightarrow> pos_error + item_row" where
  "named_item barcode sku p =
     (let given = (\<lambda>x. x \<noteq> None \<and> x \<noteq> Some []) in
      if given barcode = given sku then Inl PE_query
      else if (case barcode of None \<Rightarrow> False | Some b \<Rightarrow> \<not> lookup_value_ok b)
            \<or> (case sku of None \<Rightarrow> False | Some s \<Rightarrow> \<not> lookup_value_ok s) then Inl PE_query
      else
        (case (case barcode of
                 Some b \<Rightarrow> List.find (\<lambda>i. item_upc i = Some b) (items (shop p))
               | None \<Rightarrow> (case sku of Some s \<Rightarrow> item_by_sku s (shop p) | None \<Rightarrow> None)) of
           None \<Rightarrow> Inl PE_item_not_found
         | Some i \<Rightarrow> if item_id i \<in> set (retired p) then Inl PE_item_not_found else Inr i))"

text \<open>The inventory rows of an item joined with warehouse and bin: codes and available quantity.\<close>

definition shelf_rows :: "int \<Rightarrow> int list \<Rightarrow> db \<Rightarrow> (string \<times> string \<times> int) list" where
  "shelf_rows item whs d =
     [(wh_code w, bin_code b, avail r).
        r \<leftarrow> inventory d, w \<leftarrow> warehouses d, b \<leftarrow> bins d,
        inv_item r = item \<and> inv_wh r \<in> set whs \<and> wh_id w = inv_wh r \<and> bin_id b = inv_bin r]"

text \<open>\<open>GROUP BY warehouse, bin HAVING SUM > 0 ORDER BY warehouse, bin\<close>, and the grouping loop.\<close>

definition grouped :: "(string \<times> string \<times> int) list \<Rightarrow> (string \<times> string \<times> int) list" where
  "grouped rows =
     filter (\<lambda>(w, b, q). 0 < q)
       (map (\<lambda>(w, b). (w, b, total (\<lambda>(w', b', _). w' = w \<and> b' = b) (\<lambda>(_, _, q). q) rows))
          (sort (remdups (map (\<lambda>(w, b, _). (w, b)) rows))))"

fun by_warehouse :: "(string \<times> string \<times> int) list \<Rightarrow> (string \<times> int \<times> (string \<times> int) list) list" where
  "by_warehouse [] = []"
| "by_warehouse ((w, b, q) # rows) =
     (case by_warehouse rows of
        (w', n, bs) # gs \<Rightarrow> if w' = w then (w, q + n, (b, q) # bs) # gs else (w, q, [(b, q)]) # (w', n, bs) # gs
      | [] \<Rightarrow> [(w, q, [(b, q)])])"

text \<open>No stock in scope: an empty list, unless a warehouse out of scope has some.\<close>

definition availability ::
    "int list \<Rightarrow> string option \<Rightarrow> string option \<Rightarrow> pos \<Rightarrow> pos_error + (item_row \<times> (string \<times> int \<times> (string \<times> int) list) list)" where
  "availability whs barcode sku p =
     (case named_item barcode sku p of
        Inl e \<Rightarrow> Inl e
      | Inr i \<Rightarrow>
          if whs = [] then Inl PE_item_not_found
          else
            let rows = grouped (shelf_rows (item_id i) whs (shop p)) in
            if rows = [] \<and> (\<exists>r \<in> set (inventory (shop p)). inv_item r = item_id i \<and> inv_wh r \<notin> set whs \<and> 0 < avail r)
            then Inl PE_item_not_found
            else Inr (i, by_warehouse rows))"

definition sales_order_lookup :: "int list \<Rightarrow> string \<Rightarrow> pos \<Rightarrow> pos_error + (so_row \<times> (sol_row \<times> item_row) list)" where
  "sales_order_lookup whs number p =
     (if \<not> lookup_value_ok number then Inl PE_query
      else if whs = [] then Inl PE_order_not_found
      else
        (case List.find (\<lambda>x. so_number x = number \<and> so_wh x \<in> set whs) (sales_orders (shop p)) of
           None \<Rightarrow> Inl PE_order_not_found
         | Some x \<Rightarrow>
             Inr (x, [(l, i). l \<leftarrow> sort_key (\<lambda>l. (sol_number l, sol_id l)) (filter (\<lambda>l. sol_so l = so_id x) (so_lines (shop p))),
                              i \<leftarrow> items (shop p), item_id i = sol_item l])))"

section \<open>Resolving cart lines\<close>

text \<open>A place: SKU, warehouse code, bin code, quantity. The five arrays of the request become one
  row per line; each left join that finds nothing leaves NULL.\<close>

type_synonym place = "string \<times> string \<times> string \<times> int"

record resolved =
  rs_idx :: nat
  rs_sku :: string
  rs_wh_code :: string
  rs_bin_code :: string
  rs_qty :: int
  rs_item :: "item_row option"
  rs_wh :: "int option"
  rs_bin :: "int option"

definition resolve_place :: "db \<Rightarrow> nat \<Rightarrow> place \<Rightarrow> resolved" where
  "resolve_place d n pl =
     (case pl of (sku, w, b, q) \<Rightarrow>
        let wh = map_option wh_id (wh_by_code w d) in
        \<lparr>rs_idx = n, rs_sku = sku, rs_wh_code = w, rs_bin_code = b, rs_qty = q, rs_item = item_by_sku sku d, rs_wh = wh,
         rs_bin = (case wh of
            None \<Rightarrow> None
          | Some i \<Rightarrow> map_option bin_id (List.find (\<lambda>x. bin_code x = b \<and> bin_wh x = i) (bins d)))\<rparr>)"

definition resolve_places :: "place list \<Rightarrow> db \<Rightarrow> resolved list" where
  "resolve_places ps d = map (\<lambda>(n, pl). resolve_place d n pl) (zip [0..<length ps] ps)"

definition res_item :: "resolved \<Rightarrow> int" where
  "res_item r = (case rs_item r of None \<Rightarrow> 0 | Some i \<Rightarrow> item_id i)"

definition res_bin :: "resolved \<Rightarrow> int" where
  "res_bin r = (case rs_bin r of None \<Rightarrow> 0 | Some b \<Rightarrow> b)"

definition res_wh :: "resolved \<Rightarrow> int" where
  "res_wh r = (case rs_wh r of None \<Rightarrow> 0 | Some w \<Rightarrow> w)"

section \<open>Checking a cart\<close>

datatype conflict =
  CF_sku_not_found | CF_item_inactive | CF_warehouse_not_found | CF_not_in_scope | CF_bin_not_found
| CF_insufficient int

definition place_available :: "resolved \<Rightarrow> db \<Rightarrow> int" where
  "place_available r d =
     total (\<lambda>v. Some (inv_item v) = map_option item_id (rs_item r) \<and> Some (inv_bin v) = rs_bin r \<and> Some (inv_wh v) = rs_wh r)
       avail (inventory d)"

definition classify_line :: "int list \<Rightarrow> pos \<Rightarrow> resolved \<Rightarrow> conflict option" where
  "classify_line whs p r =
     (case rs_item r of
        None \<Rightarrow> Some CF_sku_not_found
      | Some i \<Rightarrow>
          if item_id i \<in> set (retired p) then Some CF_item_inactive
          else
            (case rs_wh r of
               None \<Rightarrow> Some CF_warehouse_not_found
             | Some w \<Rightarrow>
                 if w \<notin> set whs then Some CF_not_in_scope
                 else if rs_bin r = None then Some CF_bin_not_found
                 else if place_available r (shop p) < rs_qty r then Some (CF_insufficient (place_available r (shop p)))
                 else None))"

text \<open>The conflicts; none means the cart is valid.\<close>

definition validate_cart :: "int list \<Rightarrow> place list \<Rightarrow> pos \<Rightarrow> (nat \<times> conflict) list" where
  "validate_cart whs ps p =
     [(rs_idx r, c). r \<leftarrow> resolve_places ps (shop p), c \<leftarrow> (case classify_line whs p r of None \<Rightarrow> [] | Some c \<Rightarrow> [c])]"

section \<open>The checkout request\<close>

datatype tender_method = TM_card | TM_cash | TM_split

definition tender_text :: "tender_method \<Rightarrow> string" where
  "tender_text m = (case m of TM_card \<Rightarrow> ''card'' | TM_cash \<Rightarrow> ''cash'' | TM_split \<Rightarrow> ''split'')"

text \<open>What the routes read of a payment summary; subtotal, tax and tenders only enter the hash.\<close>

record payment =
  pay_method :: tender_method
  pay_shipping :: int
  pay_total :: int

record cart_line =
  cl_sku :: string
  cl_wh :: string
  cl_bin :: string
  cl_qty :: int
  cl_price :: int
  cl_tax :: int
  cl_total :: int

text \<open>\<open>ck_address\<close> is the structured address by column name.\<close>

record checkout_body =
  ck_key :: string
  ck_txn :: "string option"
  ck_cashier :: string
  ck_terminal :: string
  ck_completed :: int
  ck_payment :: payment
  ck_lines :: "cart_line list"
  ck_phone_order :: bool
  ck_customer :: "string option"
  ck_phone :: "string option"
  ck_email :: "string option"
  ck_ship_address :: "string option"
  ck_origin :: "string option"
  ck_address :: "string \<rightharpoonup> string"
  ck_method :: "string option"
  ck_memo :: "string option"
  ck_type :: "order_type option"
  ck_parent :: "string option"
  ck_returned :: "(string \<times> int) list option"
  ck_backorder :: bool

definition checkout_ok :: "checkout_body \<Rightarrow> bool" where
  "checkout_ok b \<longleftrightarrow>
     ck_lines b \<noteq> []
     \<and> (\<forall>l \<in> set (ck_lines b). 1 \<le> cl_qty l \<and> cl_qty l \<le> 10000 \<and> cl_sku l \<noteq> []
          \<and> (ck_backorder b \<or> cl_wh l \<noteq> [] \<and> cl_bin l \<noteq> []))
     \<and> ck_type b \<in> {None, Some OT_sale, Some OT_replacement, Some OT_exchange}
     \<and> (case ck_returned b of None \<Rightarrow> True | Some rs \<Rightarrow> \<forall>(s, q) \<in> set rs. 1 \<le> q)"

definition line_place :: "cart_line \<Rightarrow> place" where
  "line_place l = (cl_sku l, cl_wh l, cl_bin l, cl_qty l)"

section \<open>Checkout\<close>

definition key_row :: "string \<Rightarrow> pos \<Rightarrow> pos_row option" where
  "key_row k p = List.find (\<lambda>c. pc_key c = Some k) (pos_rows p)"

definition number_of :: "int \<Rightarrow> db \<Rightarrow> string" where
  "number_of i d = (case find_so i d of None \<Rightarrow> [] | Some x \<Rightarrow> so_number x)"

text \<open>The warm cache: an earlier request with this key answers, or refuses another body. A row
  without an answer lets the request go on.\<close>

definition cached_answer :: "string \<Rightarrow> string \<Rightarrow> pos \<Rightarrow> (pos_error + json) option" where
  "cached_answer k h p =
     (case key_row k p of
        None \<Rightarrow> None
      | Some c \<Rightarrow>
          if pc_hash c \<noteq> Some h then Some (Inl (PE_key_reused (number_of (pc_so c) (shop p))))
          else map_option Inr (pc_response c))"

definition out_of_scope :: "int list \<Rightarrow> cart_line list \<Rightarrow> db \<Rightarrow> nat option" where
  "out_of_scope whs ls d =
     List.find (\<lambda>n. case wh_by_code (cl_wh (ls ! n)) d of None \<Rightarrow> False | Some w \<Rightarrow> wh_id w \<notin> set whs) [0..<length ls]"

definition unresolved :: "bool \<Rightarrow> pos \<Rightarrow> resolved \<Rightarrow> bool" where
  "unresolved backorder p r \<longleftrightarrow>
     (case rs_item r of None \<Rightarrow> True | Some i \<Rightarrow> item_id i \<in> set (retired p))
     \<or> \<not> backorder \<and> (rs_wh r = None \<or> rs_bin r = None)"

definition body_type :: "checkout_body \<Rightarrow> order_type" where
  "body_type b = (case ck_type b of None \<Rightarrow> OT_sale | Some t \<Rightarrow> t)"

text \<open>The number of the new order and its parent.\<close>

definition checkout_number ::
    "int list \<Rightarrow> checkout_body \<Rightarrow> int \<Rightarrow> db \<Rightarrow> pos_error + (int option \<times> string)" where
  "checkout_number whs b so d =
     (if body_type b = OT_replacement \<or> body_type b = OT_exchange
      then
        (case ck_parent b of
           None \<Rightarrow> Inl PE_parent_required
         | Some pn \<Rightarrow>
             if pn = [] then Inl PE_parent_required
             else
               (case List.find (\<lambda>x. so_number x = pn \<and> so_wh x \<in> set whs) (sales_orders d) of
                  None \<Rightarrow> Inl PE_parent_not_found
                | Some x \<Rightarrow>
                    (case mint_child_so_number (so_id x) (so_number x) (body_type b) d of
                       None \<Rightarrow> Inl PE_internal | Some n \<Rightarrow> Inr (Some (so_id x), n))))
      else Inr (None, ''POS-'' @ signed_decimal so))"

text \<open>The warehouse of the header: that of the first line, for a backorder the configured one or
  the only one.\<close>

definition header_warehouse :: "checkout_body \<Rightarrow> resolved list \<Rightarrow> pos \<Rightarrow> (int \<times> string) option" where
  "header_warehouse b rs p =
     (if ck_backorder b
      then
        map_option (\<lambda>w. (wh_id w, wh_code w))
          (if restock_code p \<noteq> [] then wh_by_code (restock_code p) (shop p)
           else (case sort_key wh_id (warehouses (shop p)) of [w] \<Rightarrow> Some w | _ \<Rightarrow> None))
      else Some (res_wh (hd rs), rs_wh_code (hd rs)))"

definition columns_of :: "(string \<times> string option) list \<Rightarrow> string \<rightharpoonup> string" where
  "columns_of cs k = (case map_of cs k of None \<Rightarrow> None | Some v \<Rightarrow> v)"

definition checkout_columns :: "checkout_body \<Rightarrow> string \<rightharpoonup> string" where
  "checkout_columns b =
     columns_of
       ([(''order_origin'', ck_origin b), (''customer_phone'', ck_phone b), (''customer_email'', ck_email b),
         (''ship_address'', if ck_phone_order b then ck_ship_address b else None)]
        @ (if ck_phone_order b
           then map (\<lambda>c. (''shipping_address_'' @ c, ck_address b c))
                  [''name'', ''line1'', ''line2'', ''city'', ''state'', ''postal_code'', ''country'', ''phone'']
           else []))"

definition checkout_header :: "checkout_body \<Rightarrow> int \<Rightarrow> int option \<Rightarrow> string \<Rightarrow> int \<Rightarrow> string \<Rightarrow> int \<Rightarrow> so_row" where
  "checkout_header b so parent number wh ext n =
     new_so\<lparr>so_id := so, so_number := number, so_barcode := Some number,
       so_state := (if ck_backorder b then SO_WAITING_STOCK else if ck_phone_order b then SO_OPEN else SO_SHIPPED),
       so_wh := wh, so_created_by := Some ''pos'', so_source := ''pos'', so_ext := ext,
       so_shipped_at := (if ck_backorder b \<or> ck_phone_order b then None else Some (ck_completed b)),
       so_type := body_type b, so_parent := parent, so_customer := ck_customer b, so_columns := checkout_columns b,
       so_method := (if ck_phone_order b then ck_method b else None), so_memo := clean_memo (ck_memo b),
       so_opened := (if ck_backorder b then Some n else None)\<rparr>"

text \<open>\<open>INSERT \<dots> ON CONFLICT (idempotency_key) DO NOTHING\<close>. A taken key here is a request still
  without an answer; a taken order number raises.\<close>

definition insert_pos_order :: "so_row \<Rightarrow> pos_row \<Rightarrow> pos \<Rightarrow> pos_error + pos" where
  "insert_pos_order x c p =
     (if \<exists>r \<in> set (pos_rows p). pc_key r = pc_key c then Inl PE_busy
      else if (\<exists>y \<in> set (sales_orders (shop p)). so_number y = so_number x)
              \<or> \<not> (\<exists>w \<in> set (warehouses (shop p)). wh_id w = so_wh x) then Inl PE_internal
      else Inr (p\<lparr>shop := (shop p)\<lparr>sales_orders := sales_orders (shop p) @ [x]\<rparr>, pos_rows := pos_rows p @ [c]\<rparr>))"

definition first_row :: "resolved \<Rightarrow> db \<Rightarrow> inv_row option" where
  "first_row r d =
     (case sort_key inv_id (filter (\<lambda>v. inv_item v = res_item r \<and> inv_wh v = res_wh r \<and> inv_bin v = res_bin r) (inventory d)) of
        [] \<Rightarrow> None | v # _ \<Rightarrow> Some v)"

text \<open>A phone order reserves, a counter sale takes the goods and is shipped at once.\<close>

definition sale_line :: "bool \<Rightarrow> int \<Rightarrow> resolved \<Rightarrow> sol_row" where
  "sale_line phone so r =
     (let q = rs_qty r; l = new_sol\<lparr>sol_so := so, sol_item := res_item r, sol_ordered := q, sol_number := int (rs_idx r) + 1\<rparr>
      in if phone then l\<lparr>sol_alloc := q, sol_state := SOL_AS SO_OPEN\<rparr>
         else l\<lparr>sol_picked := q, sol_packed := q, sol_shipped := q, sol_state := SOL_AS SO_SHIPPED\<rparr>)"

definition sell_row :: "bool \<Rightarrow> int \<Rightarrow> int \<Rightarrow> inv_row \<Rightarrow> inv_row" where
  "sell_row phone q n v =
     (if phone then v\<lparr>allocated := allocated v + q, inv_updated := n\<rparr> else v\<lparr>on_hand := on_hand v - q, inv_updated := n\<rparr>)"

fun sell_lines :: "bool \<Rightarrow> int \<Rightarrow> resolved list \<Rightarrow> db \<Rightarrow> pos_error + db" where
  "sell_lines phone so [] d = Inr d"
| "sell_lines phone so (r # rs) d =
     (case first_row r d of
        None \<Rightarrow> Inl (PE_short (rs_idx r) 0)
      | Some v \<Rightarrow>
          if avail v < rs_qty r then Inl (PE_short (rs_idx r) (avail v))
          else
            (case insert_sol (sale_line phone so r) d of
               None \<Rightarrow> Inl PE_internal
             | Some (_, d1) \<Rightarrow>
                 sell_lines phone so rs
                   (d1\<lparr>inventory := upd (\<lambda>x. inv_id x = inv_id v) (sell_row phone (rs_qty r) (now d1)) (inventory d1)\<rparr>)))"

fun backorder_lines :: "int \<Rightarrow> resolved list \<Rightarrow> db \<Rightarrow> pos_error + db" where
  "backorder_lines so [] d = Inr d"
| "backorder_lines so (r # rs) d =
     (case insert_sol (new_sol\<lparr>sol_so := so, sol_item := res_item r, sol_ordered := rs_qty r,
             sol_number := int (rs_idx r) + 1\<rparr>) d of
        None \<Rightarrow> Inl PE_internal | Some (_, d1) \<Rightarrow> backorder_lines so rs d1)"

definition backorder_opened :: "checkout_body \<Rightarrow> so_row \<Rightarrow> resolved list \<Rightarrow> db \<Rightarrow> db" where
  "backorder_opened b x rs d =
     snd (emit_event ''backorder.opened'' 1 ''sales_order'' (so_id x) (so_ext x) (so_wh x) (ck_key b)
       (JObj [(''backorder_so_external_id'', JStr (so_ext x)), (''backorder_so_number'', JStr (so_number x)),
              (''parent_so_external_id'', JNull), (''parent_so_number'', JNull), (''warehouse_id'', JInt (so_wh x)),
              (''customer_name'', jopt JStr (ck_customer b)),
              (''items'', JArr [JObj [(''item_external_id'', jopt (\<lambda>i. JStr (item_ext i)) (rs_item r)), (''sku'', JStr (rs_sku r)),
                                     (''item_name'', jopt (\<lambda>i. JStr (item_name i)) (rs_item r)), (''qty'', JInt (rs_qty r))]. r \<leftarrow> rs]),
              (''opened_by_user_external_id'', jopt JStr (get_user_external_id (ck_cashier b) d)),
              (''opened_at'', JTime (now d))]) d)"

text \<open>Backorders move no stock; other lines are taken in the order of item and bin.\<close>

definition checkout_lines :: "checkout_body \<Rightarrow> so_row \<Rightarrow> resolved list \<Rightarrow> db \<Rightarrow> pos_error + db" where
  "checkout_lines b x rs d =
     (if ck_backorder b
      then (case backorder_lines (so_id x) rs d of Inl e \<Rightarrow> Inl e | Inr d1 \<Rightarrow> Inr (backorder_opened b x rs d1))
      else sell_lines (ck_phone_order b) (so_id x) (sort_key (\<lambda>r. (res_item r, res_bin r)) rs) d)"

text \<open>An exchange opens the return of the items brought back; each must be on the parent.\<close>

fun returned_lines :: "int \<Rightarrow> (string \<times> int) list \<Rightarrow> db \<Rightarrow> pos_error + rma_line list" where
  "returned_lines parent [] d = Inr []"
| "returned_lines parent ((s, q) # rs) d =
     (case item_by_sku s d of
        None \<Rightarrow> Inl (PE_returned_unknown s)
      | Some i \<Rightarrow>
          (case sort_key sol_id (filter (\<lambda>l. sol_so l = parent \<and> sol_item l = item_id i) (so_lines d)) of
             [] \<Rightarrow> Inl (PE_returned_not_on_parent s)
           | l # _ \<Rightarrow>
               (case returned_lines parent rs d of
                  Inl e \<Rightarrow> Inl e
                | Inr ls \<Rightarrow> Inr (\<lparr>rl_item = item_id i, rl_qty = q, rl_original = Some (sol_id l)\<rparr> # ls))))"

definition open_return :: "checkout_body \<Rightarrow> int option \<Rightarrow> db \<Rightarrow> pos_error + db" where
  "open_return b parent d =
     (case (parent, ck_returned b) of
        (Some i, Some rs) \<Rightarrow>
          if body_type b \<noteq> OT_exchange \<or> rs = [] then Inr d
          else
            (case returned_lines i rs d of
               Inl e \<Rightarrow> Inl e
             | Inr ls \<Rightarrow> (case create_rma i ls ''pos'' None d of Inl _ \<Rightarrow> Inl PE_internal | Inr (_, d1) \<Rightarrow> Inr d1))
      | _ \<Rightarrow> Inr d)"

definition line_json :: "cart_line \<Rightarrow> json" where
  "line_json l =
     JObj [(''sku'', JStr (cl_sku l)), (''warehouse_id'', JStr (cl_wh l)), (''bin_id'', JStr (cl_bin l)),
           (''quantity'', JInt (cl_qty l)), (''unit_price_cents'', JInt (cl_price l)), (''tax_cents'', JInt (cl_tax l)),
           (''line_total_cents'', JInt (cl_total l))]"

definition checkout_details :: "checkout_body \<Rightarrow> string \<Rightarrow> string \<Rightarrow> json" where
  "checkout_details b number code =
     JObj [(''idempotency_key'', JStr (ck_key b)), (''external_txn_ref'', jopt JStr (ck_txn b)),
           (''terminal_id'', JStr (ck_terminal b)), (''so_number'', JStr number),
           (''shipping_cents'', JInt (pay_shipping (ck_payment b))), (''total_cents'', JInt (pay_total (ck_payment b))),
           (''payment_method'', JStr (tender_text (pay_method (ck_payment b)))), (''header_warehouse'', JStr code),
           (''is_phone_order'', JBool (ck_phone_order b)), (''customer_name'', jopt JStr (ck_customer b)),
           (''customer_phone'', jopt JStr (ck_phone b)), (''customer_email'', jopt JStr (ck_email b)),
           (''ship_address'', jopt JStr (ck_ship_address b)),
           (''ship_method'', jopt JStr (if ck_phone_order b then ck_method b else None)),
           (''memo'', jopt JStr (clean_memo (ck_memo b))), (''lines'', JArr (map line_json (ck_lines b)))]"

definition answer_order :: "int \<Rightarrow> json \<Rightarrow> pos \<Rightarrow> pos" where
  "answer_order so j p = p\<lparr>pos_rows := upd (\<lambda>c. pc_so c = so) (\<lambda>c. c\<lparr>pc_response := Some j\<rparr>) (pos_rows p)\<rparr>"

definition checkout_answer :: "string \<Rightarrow> json" where
  "checkout_answer number = JObj [(''so_id'', JStr number), (''so_number'', JStr number), (''replayed'', JBool False)]"

definition checkout_cols :: "checkout_body \<Rightarrow> string \<Rightarrow> int \<Rightarrow> int \<Rightarrow> pos_row" where
  "checkout_cols b h so n =
     \<lparr>pc_so = so, pc_key = Some (ck_key b), pc_hash = Some h, pc_response = None, pc_created = n, pc_refunded = None,
      pc_total = of_int (pay_total (ck_payment b)) / 100, pc_shipping = of_int (pay_shipping (ck_payment b)) / 100,
      pc_txn = ck_txn b\<rparr>"

text \<open>The writes after the checks: header, lines, return, audit row, cached answer.\<close>

definition book_sale ::
    "checkout_body \<Rightarrow> string \<Rightarrow> resolved list \<Rightarrow> int option \<Rightarrow> string \<Rightarrow> int \<Rightarrow> int \<Rightarrow> string \<Rightarrow> pos \<Rightarrow> pos_error + (json \<times> pos)" where
  "book_sale b h rs parent number so wh code p =
     (let (ext, d0) = uuid4 (shop p); x = checkout_header b so parent number wh ext (now d0) in
      (case insert_pos_order x (checkout_cols b h so (now d0)) (p\<lparr>shop := d0\<rparr>) of
         Inl e \<Rightarrow> Inl e
       | Inr p1 \<Rightarrow>
           (case checkout_lines b x rs (shop p1) of
              Inl e \<Rightarrow> Inl e
            | Inr d1 \<Rightarrow>
                (case open_return b parent d1 of
                   Inl e \<Rightarrow> Inl e
                 | Inr d2 \<Rightarrow>
                     let d3 = audit ''POS_CHECKOUT'' ''SO'' so (ck_cashier b) wh (checkout_details b number code) d2
                     in Inr (checkout_answer number, answer_order so (checkout_answer number) (p1\<lparr>shop := d3\<rparr>))))))"

definition checkout_new :: "int list \<Rightarrow> string \<Rightarrow> checkout_body \<Rightarrow> pos \<Rightarrow> pos_error + (json \<times> pos)" where
  "checkout_new whs h b p =
     (case out_of_scope whs (ck_lines b) (shop p) of
        Some n \<Rightarrow> Inl (PE_scope n)
      | None \<Rightarrow>
          let rs = resolve_places (map line_place (ck_lines b)) (shop p) in
          (case List.find (unresolved (ck_backorder b) p) rs of
             Some r \<Rightarrow> Inl (PE_unresolved (rs_idx r))
           | None \<Rightarrow>
               let (so, d0) = nextval Seq_so (shop p) in
               (case checkout_number whs b so d0 of
                  Inl e \<Rightarrow> Inl e
                | Inr (parent, number) \<Rightarrow>
                    (case header_warehouse b rs p of
                       None \<Rightarrow> Inl PE_no_restock_warehouse
                     | Some (wh, code) \<Rightarrow> book_sale b h rs parent number so wh code (p\<lparr>shop := d0\<rparr>)))))"

text \<open>The answer, and whether it is a replay.\<close>

definition checkout :: "int list \<Rightarrow> string \<Rightarrow> checkout_body \<Rightarrow> pos \<Rightarrow> pos_error + ((json \<times> bool) \<times> pos)" where
  "checkout whs h b p =
     (case cached_answer (ck_key b) h p of
        Some (Inl e) \<Rightarrow> Inl e
      | Some (Inr j) \<Rightarrow> Inr ((j, True), p)
      | None \<Rightarrow> (case checkout_new whs h b p of Inl e \<Rightarrow> Inl e | Inr (j, p1) \<Rightarrow> Inr ((j, False), p1)))"

section \<open>Refunds\<close>

record refund_body =
  rf_key :: string
  rf_original :: string
  rf_original_txn :: string
  rf_ref :: string
  rf_cashier :: string
  rf_terminal :: string
  rf_completed :: int
  rf_summary :: payment
  rf_lines :: "place list option"

definition refund_ok :: "refund_body \<Rightarrow> bool" where
  "refund_ok b \<longleftrightarrow> (case rf_lines b of None \<Rightarrow> True | Some ps \<Rightarrow> ps \<noteq> [] \<and> (\<forall>(s, w, n, q) \<in> set ps. 1 \<le> q \<and> q \<le> 10000))"

text \<open>\<open>dict.get\<close> on parsed JSON.\<close>

definition json_get :: "string \<Rightarrow> json \<Rightarrow> json" where
  "json_get k j = (case j of JObj fs \<Rightarrow> (case map_of fs k of None \<Rightarrow> JNull | Some v \<Rightarrow> v) | _ \<Rightarrow> JNull)"

definition json_items :: "json \<Rightarrow> json list" where
  "json_items j = (case j of JArr js \<Rightarrow> js | _ \<Rightarrow> [])"

definition json_place :: "json \<Rightarrow> place option" where
  "json_place j =
     (case (json_get ''sku'' j, json_get ''warehouse_id'' j, json_get ''bin_id'' j, json_get ''quantity'' j) of
        (JStr s, JStr w, JStr b, JInt q) \<Rightarrow> Some (s, w, b, q) | _ \<Rightarrow> None)"

fun json_places :: "json list \<Rightarrow> place list option" where
  "json_places [] = Some []"
| "json_places (j # js) =
     (case (json_place j, json_places js) of (Some pl, Some ps) \<Rightarrow> Some (pl # ps) | _ \<Rightarrow> None)"

definition sale_details :: "int \<Rightarrow> db \<Rightarrow> json option" where
  "sale_details so d =
     (case sort_key au_id (filter (\<lambda>a. au_entity a = ''SO'' \<and> au_entity_id a = so \<and> au_action a = ''POS_CHECKOUT'') (audit_log d)) of
        [] \<Rightarrow> None
      | a # _ \<Rightarrow> Some (case au_details a of None \<Rightarrow> JObj [] | Some j \<Rightarrow> j))"

definition pos_columns :: "int \<Rightarrow> pos \<Rightarrow> pos_row option" where
  "pos_columns so p = List.find (\<lambda>c. pc_so c = so) (pos_rows p)"

definition refundable_sale :: "int list \<Rightarrow> string \<Rightarrow> db \<Rightarrow> so_row option" where
  "refundable_sale whs number d =
     List.find (\<lambda>x. so_number x = number \<and> so_source x = ''pos'' \<and> so_type x = OT_sale \<and> so_wh x \<in> set whs) (sales_orders d)"

definition ninety_days :: int where
  "ninety_days = 90 * 24 * 60 * 60 * 1000000"

text \<open>Already refunded, wrong state, too old.\<close>

definition refund_gate :: "so_row \<Rightarrow> pos_row option \<Rightarrow> db \<Rightarrow> pos_error option" where
  "refund_gate x c d =
     (if (case c of None \<Rightarrow> False | Some c \<Rightarrow> pc_refunded c \<noteq> None) \<or> so_refund x \<noteq> None
      then Some (PE_already_refunded
                  (case so_refund x of None \<Rightarrow> None | Some i \<Rightarrow> map_option so_number (find_so i d)))
      else if so_state x \<noteq> SO_SHIPPED then Some PE_order_not_found
      else if (case c of None \<Rightarrow> True | Some c \<Rightarrow> pc_created c < now d - ninety_days) then Some PE_window_expired
      else None)"

text \<open>Where the sale took its goods, from the audit row of its checkout.\<close>

definition sale_places :: "refund_body \<Rightarrow> so_row \<Rightarrow> db \<Rightarrow> pos_error + resolved list" where
  "sale_places b x d =
     (case sale_details (so_id x) d of
        None \<Rightarrow> Inl PE_order_not_found
      | Some j \<Rightarrow>
          if json_get ''payment_method'' j \<noteq> JStr (tender_text (pay_method (rf_summary b))) then Inl PE_tender_mismatch
          else if json_items (json_get ''lines'' j) = [] then Inl PE_order_not_found
          else
            (case json_places (json_items (json_get ''lines'' j)) of
               None \<Rightarrow> Inl PE_internal
             | Some ps \<Rightarrow>
                 let rs = resolve_places ps d in
                 if \<exists>r \<in> set rs. rs_item r = None \<or> rs_wh r = None \<or> rs_bin r = None then Inl PE_order_not_found
                 else Inr rs))"

definition same_place :: "resolved \<Rightarrow> resolved \<Rightarrow> bool" where
  "same_place r s \<longleftrightarrow> rs_sku s = rs_sku r \<and> rs_wh_code s = rs_wh_code r \<and> rs_bin_code s = rs_bin_code r"

definition place_sum :: "resolved \<Rightarrow> resolved list \<Rightarrow> int" where
  "place_sum r rs = total (same_place r) rs_qty rs"

definition item_sum :: "int \<Rightarrow> resolved list \<Rightarrow> int" where
  "item_sum i rs = total (\<lambda>r. res_item r = i) rs_qty rs"

text \<open>The lines to refund: all of the sale, or the requested ones, each a place of the sale.\<close>

definition refund_lines :: "refund_body \<Rightarrow> resolved list \<Rightarrow> db \<Rightarrow> pos_error + resolved list" where
  "refund_lines b sold d =
     (case rf_lines b of
        None \<Rightarrow> Inr sold
      | Some ps \<Rightarrow>
          let rs = resolve_places ps d in
          if \<exists>r \<in> set rs. rs_item r = None \<or> rs_wh r = None \<or> rs_bin r = None then Inl PE_line_not_in_order
          else if \<exists>r \<in> set rs. \<not> (\<exists>s \<in> set sold. same_place r s) \<or> place_sum r sold < place_sum r rs then Inl PE_line_not_in_order
          else Inr rs)"

text \<open>The refund ledger: the negative lines of the credit memos of the sale.\<close>

definition refunded_of :: "int \<Rightarrow> int \<Rightarrow> db \<Rightarrow> int" where
  "refunded_of so item d =
     total (\<lambda>l. sol_item l = item \<and> (\<exists>x \<in> set (sales_orders d). so_id x = sol_so l \<and> so_parent x = Some so \<and> so_type x = OT_refund))
       (\<lambda>l. - sol_shipped l) (so_lines d)"

definition over_refunded :: "int \<Rightarrow> resolved list \<Rightarrow> resolved list \<Rightarrow> db \<Rightarrow> resolved option" where
  "over_refunded so sold rs d =
     List.find (\<lambda>r. item_sum (res_item r) sold < refunded_of so (res_item r) d + item_sum (res_item r) rs) rs"

definition fully_refunded :: "int \<Rightarrow> resolved list \<Rightarrow> resolved list \<Rightarrow> db \<Rightarrow> bool" where
  "fully_refunded so sold rs d \<longleftrightarrow>
     (\<forall>r \<in> set sold. refunded_of so (res_item r) d + item_sum (res_item r) rs = item_sum (res_item r) sold)"

definition refund_header :: "refund_body \<Rightarrow> so_row \<Rightarrow> int \<Rightarrow> string \<Rightarrow> string \<Rightarrow> so_row" where
  "refund_header b x so number ext =
     new_so\<lparr>so_id := so, so_number := number, so_barcode := Some number, so_state := SO_SHIPPED, so_wh := so_wh x,
       so_created_by := Some ''pos'', so_shipped_at := Some (rf_completed b), so_ext := ext, so_source := ''pos'',
       so_type := OT_refund, so_parent := Some (so_id x)\<rparr>"

definition refund_cols :: "refund_body \<Rightarrow> string \<Rightarrow> int \<Rightarrow> int \<Rightarrow> pos_row" where
  "refund_cols b h so n =
     \<lparr>pc_so = so, pc_key = Some (rf_key b), pc_hash = Some h, pc_response = None, pc_created = n, pc_refunded = None,
      pc_total = - of_int (pay_total (rf_summary b)) / 100, pc_shipping = - of_int (pay_shipping (rf_summary b)) / 100,
      pc_txn = Some (rf_ref b)\<rparr>"

definition credit_line :: "int \<Rightarrow> resolved \<Rightarrow> sol_row" where
  "credit_line so r =
     new_sol\<lparr>sol_so := so, sol_item := res_item r, sol_ordered := - rs_qty r, sol_picked := - rs_qty r,
       sol_packed := - rs_qty r, sol_shipped := - rs_qty r, sol_number := int (rs_idx r) + 1, sol_state := SOL_AS SO_SHIPPED\<rparr>"

fun credit_lines :: "int \<Rightarrow> resolved list \<Rightarrow> db \<Rightarrow> pos_error + db" where
  "credit_lines so [] d = Inr d"
| "credit_lines so (r # rs) d =
     (case first_row r d of
        None \<Rightarrow> Inl PE_order_not_found
      | Some v \<Rightarrow>
          (case insert_sol (credit_line so r) d of
             None \<Rightarrow> Inl PE_internal
           | Some (_, d1) \<Rightarrow>
               credit_lines so rs
                 (d1\<lparr>inventory := upd (\<lambda>x. inv_id x = inv_id v)
                       (\<lambda>x. x\<lparr>on_hand := on_hand x + rs_qty r, inv_updated := now d1\<rparr>) (inventory d1)\<rparr>)))"

definition mark_refunded :: "int \<Rightarrow> int \<Rightarrow> pos \<Rightarrow> pos" where
  "mark_refunded so memo p =
     p\<lparr>shop := (shop p)\<lparr>sales_orders := upd (\<lambda>x. so_id x = so) (\<lambda>x. x\<lparr>so_refund := Some memo, so_state := SO_REFUNDED\<rparr>)
                 (sales_orders (shop p))\<rparr>,
       pos_rows := upd (\<lambda>c. pc_so c = so) (\<lambda>c. c\<lparr>pc_refunded := Some (now (shop p))\<rparr>) (pos_rows p)\<rparr>"

definition refund_details :: "refund_body \<Rightarrow> string \<Rightarrow> bool \<Rightarrow> resolved list \<Rightarrow> json" where
  "refund_details b number full rs =
     JObj [(''idempotency_key'', JStr (rf_key b)), (''external_refund_ref'', JStr (rf_ref b)),
           (''original_external_txn_ref'', JStr (rf_original_txn b)), (''original_so_id'', JStr (rf_original b)),
           (''refund_so_number'', JStr number), (''terminal_id'', JStr (rf_terminal b)),
           (''shipping_cents'', JInt (pay_shipping (rf_summary b))), (''total_cents'', JInt (pay_total (rf_summary b))),
           (''payment_method'', JStr (tender_text (pay_method (rf_summary b)))), (''partial'', JBool (rf_lines b \<noteq> None)),
           (''fully_refunded'', JBool full),
           (''lines'', JArr [JObj [(''sku'', JStr (rs_sku r)), (''warehouse_id'', JStr (rs_wh_code r)),
                                  (''bin_id'', JStr (rs_bin_code r)), (''quantity'', JInt (rs_qty r))]. r \<leftarrow> rs])]"

definition refund_answer :: "string \<Rightarrow> string \<Rightarrow> bool \<Rightarrow> json" where
  "refund_answer number original full =
     JObj [(''refund_so_id'', JStr number), (''original_so_id'', JStr original), (''fully_refunded'', JBool full),
           (''replayed'', JBool False)]"

text \<open>The writes: credit memo, its lines, the mark on the sale, audit row, cached answer.\<close>

definition book_refund ::
    "refund_body \<Rightarrow> string \<Rightarrow> so_row \<Rightarrow> resolved list \<Rightarrow> bool \<Rightarrow> pos \<Rightarrow> pos_error + (json \<times> pos)" where
  "book_refund b h x rs full p =
     (let (so, d0) = nextval Seq_so (shop p) in
      (case mint_child_so_number (so_id x) (so_number x) OT_refund d0 of
         None \<Rightarrow> Inl PE_internal
       | Some number \<Rightarrow>
           let (ext, d1) = uuid4 d0 in
           (case insert_pos_order (refund_header b x so number ext) (refund_cols b h so (now d1)) (p\<lparr>shop := d1\<rparr>) of
              Inl e \<Rightarrow> Inl e
            | Inr p1 \<Rightarrow>
                (case credit_lines so (sort_key (\<lambda>r. (res_item r, res_bin r)) rs) (shop p1) of
                   Inl e \<Rightarrow> Inl e
                 | Inr d2 \<Rightarrow>
                     let p2 = (if full then mark_refunded (so_id x) so (p1\<lparr>shop := d2\<rparr>) else p1\<lparr>shop := d2\<rparr>);
                         d3 = audit ''POS_REFUND'' ''SO'' so (rf_cashier b) (so_wh x) (refund_details b number full rs) (shop p2);
                         j = refund_answer number (so_number x) full
                     in Inr (j, answer_order so j (p2\<lparr>shop := d3\<rparr>))))))"

definition refund_new :: "int list \<Rightarrow> string \<Rightarrow> refund_body \<Rightarrow> pos \<Rightarrow> pos_error + (json \<times> pos)" where
  "refund_new whs h b p =
     (if whs = [] then Inl PE_order_not_found
      else case refundable_sale whs (rf_original b) (shop p) of
        None \<Rightarrow> Inl PE_order_not_found
      | Some x \<Rightarrow>
          (case refund_gate x (pos_columns (so_id x) p) (shop p) of
             Some e \<Rightarrow> Inl e
           | None \<Rightarrow>
               (case sale_places b x (shop p) of
                  Inl e \<Rightarrow> Inl e
                | Inr sold \<Rightarrow>
                    (case refund_lines b sold (shop p) of
                       Inl e \<Rightarrow> Inl e
                     | Inr rs \<Rightarrow>
                         (case over_refunded (so_id x) sold rs (shop p) of
                            Some r \<Rightarrow> Inl (PE_exceeds_remaining (item_sum (res_item r) sold)
                                        (refunded_of (so_id x) (res_item r) (shop p)) (item_sum (res_item r) rs))
                          | None \<Rightarrow> book_refund b h x rs (fully_refunded (so_id x) sold rs (shop p)) p)))))"

definition refund :: "int list \<Rightarrow> string \<Rightarrow> refund_body \<Rightarrow> pos \<Rightarrow> pos_error + ((json \<times> bool) \<times> pos)" where
  "refund whs h b p =
     (case cached_answer (rf_key b) h p of
        Some (Inl e) \<Rightarrow> Inl e
      | Some (Inr j) \<Rightarrow> Inr ((j, True), p)
      | None \<Rightarrow> (case refund_new whs h b p of Inl e \<Rightarrow> Inl e | Inr (j, p1) \<Rightarrow> Inr ((j, False), p1)))"

section \<open>Reference orders\<close>

text \<open>The lines of known SKUs are numbered from \<open>n\<close>; the others are reported.\<close>

fun reference_lines :: "int \<Rightarrow> int \<Rightarrow> (string \<times> int) list \<Rightarrow> db \<Rightarrow> (string list \<times> db) option" where
  "reference_lines so n [] d = Some ([], d)"
| "reference_lines so n ((s, q) # ls) d =
     (case item_by_sku s d of
        None \<Rightarrow> map_option (\<lambda>(sk, d1). (s # sk, d1)) (reference_lines so n ls d)
      | Some i \<Rightarrow>
          (case insert_sol (new_sol\<lparr>sol_so := so, sol_item := item_id i, sol_ordered := q, sol_picked := q, sol_packed := q,
                  sol_shipped := q, sol_number := n, sol_state := SOL_AS SO_SHIPPED\<rparr>) d of
             None \<Rightarrow> None | Some (_, d1) \<Rightarrow> reference_lines so (n + 1) ls d1))"

text \<open>The order's id and number, whether it is new, and the SKUs left out.\<close>

definition reference_orders ::
    "int list \<Rightarrow> string \<Rightarrow> string option \<Rightarrow> (string \<times> int) list \<Rightarrow> pos \<Rightarrow> pos_error + ((int \<times> string \<times> bool \<times> string list) \<times> pos)" where
  "reference_orders whs number customer ls p =
     (case whs of
        [] \<Rightarrow> Inl PE_no_scope
      | wh # _ \<Rightarrow>
          (case List.find (\<lambda>x. so_number x = number) (sales_orders (shop p)) of
             Some x \<Rightarrow> Inr ((so_id x, so_number x, False, []), p)
           | None \<Rightarrow>
               if \<not> (\<exists>w \<in> set (warehouses (shop p)). wh_id w = wh) then Inl PE_internal
               else
                 let (so, d0) = nextval Seq_so (shop p); (ext, d1) = uuid4 d0;
                     x = new_so\<lparr>so_id := so, so_number := number, so_barcode := Some number, so_state := SO_SHIPPED, so_wh := wh,
                           so_created_by := Some ''pos'', so_shipped_at := Some (now d1), so_ext := ext, so_source := ''reference'',
                           so_type := OT_sale, so_columns := [''order_origin'' \<mapsto> ''Reference''], so_customer := customer\<rparr>
                 in (case reference_lines so 1 ls (d1\<lparr>sales_orders := sales_orders d1 @ [x]\<rparr>) of
                       None \<Rightarrow> Inl PE_internal
                     | Some (skipped, d2) \<Rightarrow>
                         Inr ((so, number, True, skipped),
                           p\<lparr>shop := audit ''POS_REFERENCE_INGEST'' ''SO'' so ''pos'' wh
                              (JObj [(''so_number'', JStr number), (''source'', JStr ''reference''),
                                     (''skipped_skus'', JArr (map JStr skipped))]) d2\<rparr>))))"

end
