(* ===== verification/PosTill.thy ===== *)
theory PosTill
  imports Pos
begin

text \<open>
  What the point of sale guarantees along any history of checkouts, refunds and reference
  orders: the till's books balance with the shelves, no sale is refunded beyond what it sold,
  one key books one order, a refund undoes its sale, and a cart found valid checks out.
\<close>

section \<open>Tables that grow\<close>

text \<open>What the operations append to orders, lines and audit log; the catalogue stays.\<close>

definition extends :: "so_row list \<Rightarrow> sol_row list \<Rightarrow> audit_row list \<Rightarrow> db \<Rightarrow> db \<Rightarrow> bool" where
  "extends xs ls as d d' \<longleftrightarrow>
     items d' = items d \<and> bins d' = bins d \<and> warehouses d' = warehouses d \<and> now d' = now d
     \<and> sales_orders d' = sales_orders d @ xs \<and> so_lines d' = so_lines d @ ls \<and> audit_log d' = audit_log d @ as"

lemma extends_refl [simp]: "extends [] [] [] d d"
  by (simp add: extends_def)

lemma extends_trans:
  "extends xs ls as d d' \<Longrightarrow> extends ys ks bs d' d'' \<Longrightarrow> extends (xs @ ys) (ls @ ks) (as @ bs) d d''"
  by (simp add: extends_def)

lemma resolve_places_cong:
  "items d' = items d \<Longrightarrow> bins d' = bins d \<Longrightarrow> warehouses d' = warehouses d \<Longrightarrow> resolve_places ps d' = resolve_places ps d"
  by (simp add: resolve_places_def resolve_place_def item_by_sku_def wh_by_code_def case_prod_unfold cong: option.case_cong)

lemma insert_sol_extends:
  assumes "insert_sol r d = Some (i, d')"
  shows "extends [] [r\<lparr>sol_id := i\<rparr>] [] d d'" "inventory d' = inventory d" "seqs d' = (seqs d)(Seq_so_line := i + 1)"
  using assms by (auto simp: insert_sol_def extends_def Let_def split_beta split: if_splits)

lemma total_sort: "total P g (sort_key k t) = total P g t"
  by (simp add: total_def filter_sort sum_list_sort_key)

section \<open>The first row of a place\<close>

lemma sort_key_map_kept: "(\<And>x. k (g x) = k x) \<Longrightarrow> sort_key k (map g xs) = map g (sort_key k xs)"
proof (induction xs)
  case Nil
  then show ?case by simp
next
  case (Cons x xs)
  have "insort_key k (g x) (map g ys) = map g (insort_key k x ys)" for ys
    by (induction ys) (simp_all add: Cons.prems)
  with Cons show ?case by simp
qed

text \<open>Writing a row's quantities does not change which row is first.\<close>

definition places_kept :: "(inv_row \<Rightarrow> inv_row) \<Rightarrow> bool" where
  "places_kept f \<longleftrightarrow> (\<forall>v. inv_id (f v) = inv_id v \<and> inv_item (f v) = inv_item v \<and> inv_wh (f v) = inv_wh v
     \<and> inv_bin (f v) = inv_bin v \<and> inv_lot (f v) = inv_lot v)"

lemma first_row_upd:
  assumes "places_kept f" "inventory d' = upd (\<lambda>x. inv_id x = k) f (inventory d)"
  shows "first_row r d' = map_option (\<lambda>v. if inv_id v = k then f v else v) (first_row r d)"
proof -
  let ?g = "\<lambda>v. if inv_id v = k then f v else v"
  let ?P = "\<lambda>v. inv_item v = res_item r \<and> inv_wh v = res_wh r \<and> inv_bin v = res_bin r"
  have g: "inv_id (?g v) = inv_id v" "?P (?g v) = ?P v" for v
    using assms(1) by (auto simp: places_kept_def)
  have "filter ?P (map ?g xs) = map ?g (filter ?P xs)" for xs
    by (induction xs) (use g(2) in auto)
  then have "sort_key inv_id (filter ?P (inventory d')) = map ?g (sort_key inv_id (filter ?P (inventory d)))"
    unfolding assms(2) upd_def by (simp only: sort_key_map_kept [of inv_id ?g, OF g(1)])
  then show ?thesis by (simp add: first_row_def split: list.split)
qed

lemma first_row_Some:
  assumes "first_row r d = Some v"
  shows "v \<in> set (inventory d)" "inv_item v = res_item r" "inv_wh v = res_wh r" "inv_bin v = res_bin r"
proof -
  let ?ws = "filter (\<lambda>v. inv_item v = res_item r \<and> inv_wh v = res_wh r \<and> inv_bin v = res_bin r) (inventory d)"
  from assms have "v \<in> set (sort_key inv_id ?ws)"
    unfolding first_row_def by (cases "sort_key inv_id ?ws") (auto simp del: set_sort)
  then show "v \<in> set (inventory d)" "inv_item v = res_item r" "inv_wh v = res_wh r" "inv_bin v = res_bin r" by auto
qed

definition first_id :: "resolved \<Rightarrow> db \<Rightarrow> int option" where
  "first_id r d = map_option inv_id (first_row r d)"

lemma first_id_upd:
  assumes "places_kept f" "inventory d' = upd (\<lambda>x. inv_id x = k) f (inventory d)"
  shows "first_id r d' = first_id r d"
  using first_row_upd [OF assms, of r] assms(1)
  by (cases "first_row r d") (auto simp: first_id_def places_kept_def)

lemma first_row_cong: "inventory d' = inventory d \<Longrightarrow> first_row r d' = first_row r d"
  by (simp add: first_row_def)

section \<open>Walking the lines of a sale or a refund\<close>

text \<open>Reservations of an item over all warehouses.\<close>

definition committed :: "db \<Rightarrow> int \<Rightarrow> int" where
  "committed d item = total (\<lambda>r. inv_item r = item) allocated (inventory d)"

text \<open>
  Checkout and refund walk over places: for each they find its first row, test it, insert a
  line and write the row. \<open>dh\<close> and \<open>da\<close> are what one visit adds to the two quantities.
\<close>

locale till_walk =
  fixes walk :: "resolved list \<Rightarrow> db \<Rightarrow> pos_error + db"
    and line :: "resolved \<Rightarrow> sol_row"
    and put :: "resolved \<Rightarrow> int \<Rightarrow> inv_row \<Rightarrow> inv_row"
    and fits :: "resolved \<Rightarrow> inv_row \<Rightarrow> bool"
    and refusal :: "resolved \<Rightarrow> inv_row option \<Rightarrow> pos_error"
    and dh da :: "resolved \<Rightarrow> int"
    and so :: int
  assumes walk_Nil: "walk [] d = Inr d"
    and walk_Cons: "walk (r # rs) d =
      (case first_row r d of
         None \<Rightarrow> Inl (refusal r None)
       | Some v \<Rightarrow>
           if \<not> fits r v then Inl (refusal r (Some v))
           else
             (case insert_sol (line r) d of
                None \<Rightarrow> Inl PE_internal
              | Some (_, d1) \<Rightarrow>
                  walk rs (d1\<lparr>inventory := upd (\<lambda>x. inv_id x = inv_id v) (put r (now d1)) (inventory d1)\<rparr>)))"
    and put_places: "places_kept (put r n)"
    and put_on_hand: "on_hand (put r n v) = on_hand v + dh r"
    and put_allocated: "allocated (put r n v) = allocated v + da r"
    and put_sound: "0 \<le> rs_qty r \<Longrightarrow> fits r v \<Longrightarrow> sound_row v \<Longrightarrow> sound_row (put r n v)"
    and line_so: "sol_so (line r) = so"
    and line_item: "sol_item (line r) = res_item r"
    and line_free: "sol_original (line r) = None"
begin

definition visit :: "resolved \<Rightarrow> inv_row \<Rightarrow> db \<Rightarrow> db" where
  "visit r v d = d\<lparr>inventory := upd (\<lambda>x. inv_id x = inv_id v) (put r (now d)) (inventory d)\<rparr>"

lemma visit_fields [simp]:
  "items (visit r v d) = items d" "bins (visit r v d) = bins d" "warehouses (visit r v d) = warehouses d"
  "now (visit r v d) = now d" "sales_orders (visit r v d) = sales_orders d" "so_lines (visit r v d) = so_lines d"
  "audit_log (visit r v d) = audit_log d" "seqs (visit r v d) = seqs d"
  by (simp_all add: visit_def)

text \<open>One step of a walk that succeeds.\<close>

lemma walk_step:
  assumes "walk (r # rs) d = Inr d'"
  obtains v i d1 where "first_row r d = Some v" "fits r v" "insert_sol (line r) d = Some (i, d1)"
    "walk rs (visit r v d1) = Inr d'" "inventory d1 = inventory d" "v \<in> set (inventory d)" "inv_item v = res_item r"
proof -
  from assms obtain v i d1 where s: "first_row r d = Some v" "fits r v" "insert_sol (line r) d = Some (i, d1)"
    "walk rs (visit r v d1) = Inr d'"
    by (auto simp: walk_Cons visit_def split: option.splits if_splits)
  with that show thesis using insert_sol_extends(2) [OF s(3)] first_row_Some [OF s(1)] by blast
qed

lemma walk_extends:
  "walk rs d = Inr d' \<Longrightarrow>
     \<exists>ls. extends [] ls [] d d' \<and> map (\<lambda>l. l\<lparr>sol_id := 0\<rparr>) ls = map (\<lambda>r. (line r)\<lparr>sol_id := 0\<rparr>) rs
       \<and> (\<forall>q. q \<noteq> Seq_so_line \<longrightarrow> seqs d' q = seqs d q)"
proof (induction rs arbitrary: d)
  case Nil
  then show ?case by (auto simp: walk_Nil)
next
  case (Cons r rs)
  from Cons.prems(1) obtain v i d1 where s: "first_row r d = Some v" "insert_sol (line r) d = Some (i, d1)"
    "walk rs (visit r v d1) = Inr d'" using walk_step by blast
  from Cons.IH [OF s(3)] obtain ls where ls: "extends [] ls [] (visit r v d1) d'"
    "map (\<lambda>l. l\<lparr>sol_id := 0\<rparr>) ls = map (\<lambda>r. (line r)\<lparr>sol_id := 0\<rparr>) rs"
    "\<forall>q. q \<noteq> Seq_so_line \<longrightarrow> seqs d' q = seqs d1 q" by auto
  have "extends [] ([(line r)\<lparr>sol_id := i\<rparr>] @ ls) [] d d'"
    using ls(1) insert_sol_extends(1) [OF s(2)] by (simp add: extends_def)
  with ls insert_sol_extends(3) [OF s(2)] show ?case
    by (intro exI [of _ "[(line r)\<lparr>sol_id := i\<rparr>] @ ls"]) simp
qed

lemma visit_good:
  assumes "good d" "v \<in> set (inventory d)" "fits r v" "0 \<le> rs_qty r"
  shows "good (visit r v d)"
proof -
  have "inv_key (put r n x) = inv_key x" "inv_id (put r n x) = inv_id x" for n x
    using put_places [of r n] by (simp_all add: places_kept_def inv_key_def)
  then have "inv_wf (visit r v d)"
    unfolding visit_def using assms(1) by (intro inv_wf_upd) (auto simp: good_def)
  moreover have "sound_row x" if x: "x \<in> set (inventory (visit r v d))" for x
  proof -
    from x obtain y where y: "y \<in> set (inventory d)" "x = (if inv_id y = inv_id v then put r (now d) y else y)"
      by (auto simp: visit_def set_upd)
    have "y = v" if "inv_id y = inv_id v"
      using key_inj [OF good_distinct [OF assms(1)] y(1) assms(2) that] .
    with y assms put_sound show ?thesis by (auto simp: good_rows)
  qed
  ultimately show ?thesis by (simp add: good_rows)
qed

lemma walk_good:
  assumes "walk rs d = Inr d'" "good d" "\<forall>r \<in> set rs. 0 \<le> rs_qty r"
  shows "good d'"
  using assms
proof (induction rs arbitrary: d)
  case Nil
  then show ?case by (simp add: walk_Nil)
next
  case (Cons r rs)
  from Cons.prems(1) obtain v i d1 where s: "fits r v" "insert_sol (line r) d = Some (i, d1)"
    "walk rs (visit r v d1) = Inr d'" "inventory d1 = inventory d" "v \<in> set (inventory d)" using walk_step by blast
  have "good d1"
    using good_cong [OF s(4)] insert_sol_extends(3) [OF s(2)] Cons.prems(2) by simp
  then have "good (visit r v d1)" by (rule visit_good) (use s Cons.prems(3) in auto)
  with Cons.IH [OF s(3)] Cons.prems(3) show ?case by simp
qed

text \<open>Stock and reservations of an item move by what the walk adds for it.\<close>

lemma walk_sums:
  assumes "walk rs d = Inr d'" "distinct (map inv_id (inventory d))"
  shows "stock d' i = stock d i + total (\<lambda>r. res_item r = i) dh rs
    \<and> committed d' i = committed d i + total (\<lambda>r. res_item r = i) da rs"
  using assms
proof (induction rs arbitrary: d)
  case Nil
  then show ?case by (simp add: walk_Nil)
next
  case (Cons r rs)
  from Cons.prems(1) obtain v k d1 where s: "walk rs (visit r v d1) = Inr d'" "inventory d1 = inventory d"
    "v \<in> set (inventory d)" "inv_item v = res_item r" using walk_step by blast
  note one = total_upd_key [OF Cons.prems(2) s(3), of "\<lambda>x. inv_item x = i" "put r (now d1)"]
  have "distinct (map inv_id (inventory (visit r v d1)))"
      "stock (visit r v d1) i = stock d i + (if res_item r = i then dh r else 0)"
      "committed (visit r v d1) i = committed d i + (if res_item r = i then da r else 0)"
    using one [of on_hand] one [of allocated] put_places [of r "now d1"] s(2,4) Cons.prems(2)
    by (simp_all add: visit_def map_upd_same places_kept_def stock_def committed_def put_on_hand put_allocated)
  with Cons.IH [OF s(1)] show ?case by simp
qed

text \<open>Row by row: every row gains what the places it is first for bring.\<close>

text \<open>A walk that succeeds found every place and its item.\<close>

lemma walk_found:
  assumes "walk rs d = Inr d'" "r \<in> set rs"
  shows "first_id r d \<noteq> None \<and> find_item (res_item r) d \<noteq> None"
  using assms
proof (induction rs arbitrary: d)
  case Nil
  then show ?case by simp
next
  case (Cons q rs)
  from Cons.prems(1) obtain v i d1 where s: "first_row q d = Some v" "insert_sol (line q) d = Some (i, d1)"
    "walk rs (visit q v d1) = Inr d'" "inventory d1 = inventory d"
    using walk_step by blast
  have it: "find_item (res_item q) d \<noteq> None"
    using s(2) by (auto simp: insert_sol_def line_item split_beta split: if_splits)
  have "first_id r (visit q v d1) = first_id r d1" by (rule first_id_upd [OF put_places]) (simp add: visit_def)
  moreover have "find_item (res_item r) (visit q v d1) = find_item (res_item r) d"
    using insert_sol_extends(1) [OF s(2)] by (simp add: find_item_def extends_def)
  ultimately show ?case
    using Cons.IH [OF s(3)] Cons.prems(2) s(1) it first_row_cong [OF s(4)] by (auto simp: first_id_def)
qed

lemma visit_first: "first_id q (visit r v d) = first_id q d"
  by (rule first_id_upd [OF put_places]) (simp add: visit_def)

lemma walk_rows:
  assumes "walk rs d = Inr d'"
  shows "map inv_id (inventory d') = map inv_id (inventory d)
    \<and> (\<forall>q. first_id q d' = first_id q d)
    \<and> map (\<lambda>v. (inv_id v, on_hand v)) (inventory d')
        = map (\<lambda>v. (inv_id v, on_hand v + total (\<lambda>r. first_id r d = Some (inv_id v)) dh rs)) (inventory d)"
  using assms
proof (induction rs arbitrary: d)
  case Nil
  then show ?case by (simp add: walk_Nil)
next
  case (Cons r rs)
  from Cons.prems(1) obtain v i d1 where s: "first_row r d = Some v" "walk rs (visit r v d1) = Inr d'" "inventory d1 = inventory d"
    using walk_step by blast
  have f: "first_id q (visit r v d1) = first_id q d" for q
    using visit_first first_row_cong [OF s(3)] by (simp add: first_id_def)
  have fr: "first_id r d = Some (inv_id v)" using s(1) by (simp add: first_id_def)
  have ids: "map inv_id (inventory (visit r v d1)) = map inv_id (inventory d)"
    using put_places by (simp add: visit_def map_upd_same places_kept_def s(3))
  have "map (\<lambda>v. (inv_id v, on_hand v)) (inventory d')
      = map (\<lambda>x. (inv_id x, on_hand x + total (\<lambda>r. first_id r d = Some (inv_id x)) dh rs)) (inventory (visit r v d1))"
    using Cons.IH [OF s(2)] f by simp
  also have "\<dots> = map (\<lambda>x. (inv_id x, on_hand x + total (\<lambda>r. first_id r d = Some (inv_id x)) dh (r # rs))) (inventory d)"
    using put_places [of r "now d1"] by (simp add: visit_def upd_def s(3) fr places_kept_def put_on_hand)
  finally show ?case using Cons.IH [OF s(2)] f ids by simp
qed

text \<open>A walk over different rows that all fit succeeds.\<close>

lemma walk_succeeds:
  assumes "\<And>r. r \<in> set rs \<Longrightarrow> \<exists>v. first_row r d = Some v \<and> fits r v"
    and "\<And>r. r \<in> set rs \<Longrightarrow> find_item (res_item r) d \<noteq> None"
    and "distinct (map (\<lambda>r. first_id r d) rs) \<or> (\<forall>r v. fits r v)"
  shows "\<exists>d'. walk rs d = Inr d'"
  using assms
proof (induction rs arbitrary: d)
  case Nil
  then show ?case by (simp add: walk_Nil)
next
  case (Cons r rs)
  obtain v where v: "first_row r d = Some v" "fits r v" using Cons.prems(1) by auto
  obtain i d1 where d1: "insert_sol (line r) d = Some (i, d1)"
    using Cons.prems(2) [of r] by (auto simp: insert_sol_def line_item line_free split_beta)
  note e = insert_sol_extends [OF d1]
  have "\<exists>d'. walk rs (visit r v d1) = Inr d'"
  proof (rule Cons.IH)
    fix q assume q: "q \<in> set rs"
    obtain w where w: "first_row q d = Some w" "fits q w" using Cons.prems(1) q by auto
    have fq: "first_row q (visit r v d1) = map_option (\<lambda>x. if inv_id x = inv_id v then put r (now d1) x else x) (first_row q d)"
      using first_row_upd [OF put_places, of "visit r v d1" "inv_id v" r "now d1" d1 q] first_row_cong [OF e(2)]
      by (simp add: visit_def)
    have "inv_id w \<noteq> inv_id v" if "distinct (map (\<lambda>r. first_id r d) (r # rs))"
      using that q v(1) w(1) by (auto simp: first_id_def image_iff)
    then show "\<exists>x. first_row q (visit r v d1) = Some x \<and> fits q x"
      using fq w Cons.prems(3) by auto
    show "find_item (res_item q) (visit r v d1) \<noteq> None"
      using Cons.prems(2) [of q] q e(1) by (simp add: find_item_def extends_def)
  next
    have "first_id q (visit r v d1) = first_id q d" for q
      using visit_first first_row_cong [OF e(2)] by (simp add: first_id_def)
    then show "distinct (map (\<lambda>q. first_id q (visit r v d1)) rs) \<or> (\<forall>r v. fits r v)"
      using Cons.prems(3) by auto
  qed
  with v d1 show ?case by (auto simp: walk_Cons visit_def)
qed

end

interpretation sale: till_walk "sell_lines phone so" "sale_line phone so" "\<lambda>r. sell_row phone (rs_qty r)"
  "\<lambda>r v. rs_qty r \<le> avail v" "\<lambda>r v. PE_short (rs_idx r) (case v of None \<Rightarrow> 0 | Some v \<Rightarrow> avail v)"
  "\<lambda>r. if phone then 0 else - rs_qty r" "\<lambda>r. if phone then rs_qty r else 0" so for phone so
  by unfold_locales
    (auto simp: places_kept_def sell_row_def sale_line_def new_sol_def Let_def sound_row_def avail_def
      split: option.splits)

interpretation credit: till_walk "credit_lines so" "credit_line so"
  "\<lambda>r n v. v\<lparr>on_hand := on_hand v + rs_qty r, inv_updated := n\<rparr>" "\<lambda>r v. True" "\<lambda>r v. PE_order_not_found"
  "rs_qty" "\<lambda>r. 0" so for so
  by unfold_locales
    (auto simp: places_kept_def credit_line_def new_sol_def sound_row_def split: option.splits)

section \<open>What a checkout remembers\<close>

lemma json_place_line [simp]: "json_place (line_json l) = Some (line_place l)"
  by (simp add: json_place_def line_json_def json_get_def line_place_def)

lemma json_places_lines: "json_places (map line_json ls) = Some (map line_place ls)"
  by (induction ls) simp_all

text \<open>The audit row of a checkout gives back its lines and its tender.\<close>

lemma checkout_details_back:
  "json_places (json_items (json_get ''lines'' (checkout_details b number code))) = Some (map line_place (ck_lines b))"
  "json_items (json_get ''lines'' (checkout_details b number code)) = map line_json (ck_lines b)"
  "json_get ''payment_method'' (checkout_details b number code) = JStr (tender_text (pay_method (ck_payment b)))"
  by (simp_all add: checkout_details_def json_get_def json_items_def json_places_lines)

section \<open>The parts of a checkout\<close>

lemma sum_of_lines:
  assumes "map (\<lambda>l. l\<lparr>sol_id := 0\<rparr>) ls = map (\<lambda>r. (f r)\<lparr>sol_id := 0\<rparr>) rs" "\<And>l. g (l\<lparr>sol_id := 0\<rparr>) = g l"
    and "\<And>r. sol_item (f r) = res_item r"
  shows "total (\<lambda>l. sol_item l = i) g ls = total (\<lambda>r. res_item r = i) (\<lambda>r. g (f r)) rs"
  using assms(1)
proof (induction ls arbitrary: rs)
  case Nil
  then show ?case by simp
next
  case (Cons l ls)
  then obtain r rs' where rs: "rs = r # rs'" by (cases rs) auto
  with Cons.prems have e: "l\<lparr>sol_id := 0\<rparr> = (f r)\<lparr>sol_id := 0\<rparr>" by simp
  have "sol_item l = res_item r" "g l = g (f r)"
    using arg_cong [OF e, of sol_item] arg_cong [OF e, of g] assms(2,3) by simp_all
  with Cons.IH [of rs'] Cons.prems rs show ?case by simp
qed

lemma so_of_lines:
  assumes "map (\<lambda>l. l\<lparr>sol_id := 0\<rparr>) ls = map (\<lambda>r. (f r)\<lparr>sol_id := 0\<rparr>) rs" "\<And>r. sol_so (f r) = so"
  shows "\<forall>l \<in> set ls. sol_so l = so"
proof -
  have "map sol_so ls = map (sol_so \<circ> (\<lambda>l. l\<lparr>sol_id := 0\<rparr>)) ls" by simp
  also have "\<dots> = map sol_so (map (\<lambda>r. (f r)\<lparr>sol_id := 0\<rparr>) rs)" by (simp only: map_map [symmetric] assms(1))
  also have "\<dots> = map (\<lambda>r. so) rs" by (simp add: assms(2))
  finally show ?thesis by (metis (no_types, lifting) image_set imageE imageI list.map(2) list.set_map)
qed

lemma backorder_lines_extends:
  "backorder_lines so rs d = Inr d' \<Longrightarrow>
     \<exists>ls. extends [] ls [] d d' \<and> (\<forall>l \<in> set ls. sol_so l = so \<and> sol_shipped l = 0 \<and> sol_alloc l = 0)
       \<and> inventory d' = inventory d \<and> (\<forall>q. q \<noteq> Seq_so_line \<longrightarrow> seqs d' q = seqs d q)"
proof (induction rs arbitrary: d)
  case Nil
  then show ?case by (intro exI [of _ "[]"]) simp
next
  case (Cons r rs)
  from Cons.prems obtain i d1 where i: "insert_sol (new_sol\<lparr>sol_so := so, sol_item := res_item r, sol_ordered := rs_qty r,
      sol_number := int (rs_idx r) + 1\<rparr>) d = Some (i, d1)" and w: "backorder_lines so rs d1 = Inr d'"
    by (auto split: option.splits)
  note e = insert_sol_extends [OF i]
  from Cons.IH [OF w] obtain ls where ls: "extends [] ls [] d1 d'"
    "\<forall>l \<in> set ls. sol_so l = so \<and> sol_shipped l = 0 \<and> sol_alloc l = 0" "inventory d' = inventory d1"
    "\<forall>q. q \<noteq> Seq_so_line \<longrightarrow> seqs d' q = seqs d1 q" by blast
  from extends_trans [OF e(1) ls(1)] ls(2-4) e(2,3) show ?case
    by (intro exI) (auto simp: new_sol_def)
qed

lemma backorder_opened_extends:
  "extends [] [] [] d (backorder_opened b x rs d)" "inventory (backorder_opened b x rs d) = inventory d"
  "q \<noteq> Seq_event \<Longrightarrow> seqs (backorder_opened b x rs d) q = seqs d q"
  by (simp_all add: backorder_opened_def extends_def)

text \<open>A checkout's lines by kind of order: what they ship, what they reserve, and what that does to
  the shelves.\<close>

definition counter_sale :: "checkout_body \<Rightarrow> bool" where
  "counter_sale b \<longleftrightarrow> \<not> ck_backorder b \<and> \<not> ck_phone_order b"

definition phone_sale :: "checkout_body \<Rightarrow> bool" where
  "phone_sale b \<longleftrightarrow> \<not> ck_backorder b \<and> ck_phone_order b"

text \<open>Row by row, what a counter sale takes.\<close>

definition rows_of_sale :: "resolved list \<Rightarrow> db \<Rightarrow> db \<Rightarrow> bool" where
  "rows_of_sale rs d d' \<longleftrightarrow>
     map (\<lambda>v. (inv_id v, on_hand v)) (inventory d')
       = map (\<lambda>v. (inv_id v, on_hand v - total (\<lambda>r. first_id r d = Some (inv_id v)) rs_qty rs)) (inventory d)
     \<and> (\<forall>q. first_id q d' = first_id q d)
     \<and> (\<forall>r \<in> set rs. first_id r d \<noteq> None \<and> find_item (res_item r) d \<noteq> None)"

lemma rows_of_sale_cong:
  assumes "rows_of_sale rs d d'" "inventory e = inventory d" "inventory e' = inventory d'" "items e = items d"
  shows "rows_of_sale rs e e'"
  using assms first_row_cong [OF assms(2)] first_row_cong [OF assms(3)]
  by (simp add: rows_of_sale_def first_id_def find_item_def)

definition lines_of_sale :: "checkout_body \<Rightarrow> int \<Rightarrow> resolved list \<Rightarrow> sol_row list \<Rightarrow> db \<Rightarrow> db \<Rightarrow> bool" where
  "lines_of_sale b so rs ls d d' \<longleftrightarrow>
     (\<forall>l \<in> set ls. sol_so l = so)
     \<and> (\<forall>i. total (\<lambda>l. sol_item l = i) sol_shipped ls = (if counter_sale b then item_sum i rs else 0))
     \<and> (\<forall>i. total (\<lambda>l. sol_item l = i) sol_alloc ls = (if phone_sale b then item_sum i rs else 0))
     \<and> (\<forall>i. stock d' i = stock d i - (if counter_sale b then item_sum i rs else 0))
     \<and> (\<forall>i. committed d' i = committed d i + (if phone_sale b then item_sum i rs else 0))
     \<and> (counter_sale b \<longrightarrow> rows_of_sale rs d d')"

lemma total_zero: "(\<And>x. x \<in> set t \<Longrightarrow> g x = 0) \<Longrightarrow> total P g t = 0"
  by (induction t) auto

lemma total_neg: "total P (\<lambda>r. - g r) t = - total P g t"
  by (induction t) auto

lemma checkout_lines_Inr:
  assumes "checkout_lines b x rs d = Inr d'" "good d" "\<forall>r \<in> set rs. 0 \<le> rs_qty r"
  shows "\<exists>ls. extends [] ls [] d d' \<and> lines_of_sale b (so_id x) rs ls d d' \<and> good d' \<and> seqs d' Seq_so = seqs d Seq_so"
proof (cases "ck_backorder b")
  case True
  from assms(1) True obtain d1 where w: "backorder_lines (so_id x) rs d = Inr d1" and d': "d' = backorder_opened b x rs d1"
    by (auto simp: checkout_lines_def split: sum.splits)
  from backorder_lines_extends [OF w] obtain ls where ls: "extends [] ls [] d d1"
    "\<forall>l \<in> set ls. sol_so l = so_id x \<and> sol_shipped l = 0 \<and> sol_alloc l = 0" "inventory d1 = inventory d"
    "\<forall>q. q \<noteq> Seq_so_line \<longrightarrow> seqs d1 q = seqs d q" by blast
  note o = backorder_opened_extends [where d = d1 and b = b and x = x and rs = rs]
  have inv: "inventory d' = inventory d" using ls(3) o(2) d' by simp
  have e: "extends [] (ls @ []) ([] @ []) d d'" unfolding d' using extends_trans [OF ls(1) o(1)] by simp
  have c: "stock d' = stock d" "committed d' = committed d"
    using inv by (simp_all add: stock_def committed_def fun_eq_iff)
  have z: "total P sol_shipped ls = 0" "total P sol_alloc ls = 0" for P
    by (rule total_zero; simp add: ls(2))+
  have "lines_of_sale b (so_id x) rs ls d d'"
    using True ls(2) by (simp add: lines_of_sale_def counter_sale_def phone_sale_def c z)
  moreover have "good d'" using assms(2) good_cong [OF inv] ls(4) o(3) [of Seq_inventory] d' by simp
  ultimately show ?thesis using e ls(4) o(3) [of Seq_so] d' by (intro exI [of _ ls]) simp
next
  case False
  let ?rs = "sort_key (\<lambda>r. (res_item r, res_bin r)) rs" and ?ph = "ck_phone_order b"
  from assms(1) False have w: "sell_lines ?ph (so_id x) ?rs d = Inr d'" by (simp add: checkout_lines_def)
  from sale.walk_extends [OF w] obtain ls where ls: "extends [] ls [] d d'"
    "map (\<lambda>l. l\<lparr>sol_id := 0\<rparr>) ls = map (\<lambda>r. (sale_line ?ph (so_id x) r)\<lparr>sol_id := 0\<rparr>) ?rs"
    "\<forall>q. q \<noteq> Seq_so_line \<longrightarrow> seqs d' q = seqs d q" by blast
  have sums: "total (\<lambda>l. sol_item l = i) sol_shipped ls = (if counter_sale b then item_sum i rs else 0)"
      "total (\<lambda>l. sol_item l = i) sol_alloc ls = (if phone_sale b then item_sum i rs else 0)" for i
    using sum_of_lines [OF ls(2), of sol_shipped i] sum_of_lines [OF ls(2), of sol_alloc i] False
    by (simp_all add: sale.line_item total_sort sale_line_def Let_def new_sol_def counter_sale_def phone_sale_def
        item_sum_def total_zero)
  have "stock d' i = stock d i - (if counter_sale b then item_sum i rs else 0)"
      "committed d' i = committed d i + (if phone_sale b then item_sum i rs else 0)" for i
    using sale.walk_sums [OF w good_distinct [OF assms(2)], of i] False
    by (simp_all add: total_sort counter_sale_def phone_sale_def item_sum_def total_zero total_neg)
  moreover have "rows_of_sale rs d d'" if "counter_sale b"
    using sale.walk_rows [OF w] sale.walk_found [OF w] that
    by (simp add: rows_of_sale_def total_sort counter_sale_def total_neg)
  ultimately have "lines_of_sale b (so_id x) rs ls d d'"
    using sums so_of_lines [OF ls(2)] by (simp add: lines_of_sale_def sale.line_so)
  moreover have "good d'" by (rule sale.walk_good [OF w assms(2)]) (use assms(3) in simp)
  ultimately show ?thesis using ls by auto
qed

text \<open>The return an exchange opens: one more order with lines that ship and reserve nothing.\<close>

definition return_of :: "int option \<Rightarrow> so_row list \<Rightarrow> sol_row list \<Rightarrow> db \<Rightarrow> db \<Rightarrow> bool" where
  "return_of parent xs ks d d' \<longleftrightarrow>
     extends xs ks [] d d' \<and> inventory d' = inventory d \<and> seqs d' Seq_inventory = seqs d Seq_inventory
     \<and> seqs d' Seq_so = seqs d Seq_so + int (length xs) \<and> length xs \<le> 1
     \<and> (\<forall>x \<in> set xs. so_id x = seqs d Seq_so \<and> so_type x = OT_return \<and> so_parent x = parent)
     \<and> (\<forall>l \<in> set ks. xs \<noteq> [] \<and> sol_so l = seqs d Seq_so \<and> sol_shipped l = 0 \<and> sol_alloc l = 0)"

lemma rma_lines_extends:
  "rma_lines so n ls d = Some d' \<Longrightarrow>
     \<exists>ks. extends [] ks [] d d' \<and> (\<forall>l \<in> set ks. sol_so l = so \<and> sol_shipped l = 0 \<and> sol_alloc l = 0)
       \<and> inventory d' = inventory d \<and> (\<forall>q. q \<noteq> Seq_so_line \<longrightarrow> seqs d' q = seqs d q)"
proof (induction ls arbitrary: n d)
  case Nil
  then show ?case by (intro exI [of _ "[]"]) simp
next
  case (Cons l ls)
  from Cons.prems obtain i d1 where i: "insert_sol (new_sol\<lparr>sol_so := so, sol_item := rl_item l, sol_ordered := rl_qty l,
      sol_number := n, sol_state := SOL_AS SO_OPEN, sol_original := rl_original l\<rparr>) d = Some (i, d1)"
    and w: "rma_lines so (n + 1) ls d1 = Some d'"
    by (auto split: option.splits)
  note e = insert_sol_extends [OF i]
  from Cons.IH [OF w] obtain ks where ks: "extends [] ks [] d1 d'"
    "\<forall>l \<in> set ks. sol_so l = so \<and> sol_shipped l = 0 \<and> sol_alloc l = 0" "inventory d' = inventory d1"
    "\<forall>q. q \<noteq> Seq_so_line \<longrightarrow> seqs d' q = seqs d1 q" by blast
  from extends_trans [OF e(1) ks(1)] ks(2-4) e(2,3) show ?case
    by (intro exI) (auto simp: new_sol_def)
qed

lemma create_rma_return:
  assumes "create_rma original ls user memo d = Inr (r, d')"
  shows "\<exists>xs ks. return_of (Some original) xs ks d d'"
proof -
  obtain x where x: "find_so original d = Some x"
    using assms by (auto simp: create_rma_def split: option.splits)
  obtain number where nm: "mint_child_so_number original (so_number x) OT_return d = Some number"
    using assms x by (auto simp: create_rma_def split: option.splits)
  obtain i d2 where s: "insert_so (new_so\<lparr>so_number := number, so_barcode := Some number,
      so_wh := so_wh x, so_source := so_source x, so_type := OT_return, so_parent := Some original,
      so_created_by := Some user, so_ext := fst (uuid4 d), so_memo := clean_memo memo\<rparr>) (snd (uuid4 d)) = Some (i, d2)"
    using assms x nm by (auto simp: create_rma_def split_beta split: option.splits)
  have w: "rma_lines i 1 ls d2 = Some d'"
    using assms x nm s by (auto simp: create_rma_def split_beta split: option.splits)
  let ?x = "new_so\<lparr>so_number := number, so_barcode := Some number,
      so_wh := so_wh x, so_source := so_source x, so_type := OT_return, so_parent := Some original,
      so_created_by := Some user, so_ext := fst (uuid4 d), so_memo := clean_memo memo, so_id := i\<rparr>"
  have d2: "extends [?x] [] [] d d2" "inventory d2 = inventory d" "seqs d2 = (seqs d)(Seq_so := i + 1)" "i = seqs d Seq_so"
    using s by (auto simp: insert_so_def extends_def uuid4_def split_beta split: if_splits)
  from rma_lines_extends [OF w] obtain ks where ks: "extends [] ks [] d2 d'"
    "\<forall>l \<in> set ks. sol_so l = i \<and> sol_shipped l = 0 \<and> sol_alloc l = 0" "inventory d' = inventory d2"
    "\<forall>q. q \<noteq> Seq_so_line \<longrightarrow> seqs d' q = seqs d2 q" by blast
  from extends_trans [OF d2(1) ks(1)] have "return_of (Some original) [?x] ks d d'"
    using ks(2-4) d2(2-4) by (auto simp: return_of_def new_so_def)
  then show ?thesis by blast
qed

lemma open_return_Inr:
  assumes "open_return b parent d = Inr d'"
  shows "\<exists>xs ks. return_of parent xs ks d d'"
proof -
  have same: "\<exists>xs ks. return_of parent xs ks d d" by (intro exI [of _ "[]"]) (simp add: return_of_def)
  show ?thesis
    using assms same create_rma_return
    by (fastforce simp: open_return_def split: option.splits if_splits sum.splits)
qed

section \<open>A whole checkout\<close>

lemma audit_extends:
  "j \<noteq> JObj [] \<Longrightarrow> extends [] [] [\<lparr>au_id = seqs d Seq_audit, au_action = action, au_entity = entity, au_entity_id = i,
     au_user = user, au_wh = wh, au_details = Some j\<rparr>] d (audit action entity i user wh j d)"
  by (simp add: extends_def write_audit_log_def nextval_def)

lemma insert_pos_order_Inr:
  assumes "insert_pos_order x c p = Inr p'"
  shows "p' = p\<lparr>shop := (shop p)\<lparr>sales_orders := sales_orders (shop p) @ [x]\<rparr>, pos_rows := pos_rows p @ [c]\<rparr>"
    "\<forall>r \<in> set (pos_rows p). pc_key r \<noteq> pc_key c" "\<forall>y \<in> set (sales_orders (shop p)). so_number y \<noteq> so_number x"
    "so_wh x \<in> wh_id ` set (warehouses (shop p))"
  using assms by (auto simp: insert_pos_order_def image_iff split: if_splits) metis

text \<open>What a booked checkout leaves: \<open>d\<close> and \<open>d'\<close> are the databases, \<open>x\<close> the new order.\<close>

definition booked_sale ::
    "checkout_body \<Rightarrow> string \<Rightarrow> resolved list \<Rightarrow> so_row \<Rightarrow> json \<Rightarrow> pos \<Rightarrow> pos \<Rightarrow> bool" where
  "booked_sale b h rs x j p p' \<longleftrightarrow>
     so_id x = seqs (shop p) Seq_so \<and> so_source x = ''pos'' \<and> so_type x = body_type b
     \<and> so_state x = (if ck_backorder b then SO_WAITING_STOCK else if ck_phone_order b then SO_OPEN else SO_SHIPPED)
     \<and> so_refund x = None
     \<and> so_wh x \<in> wh_id ` set (warehouses (shop p)) \<and> (\<not> ck_backorder b \<longrightarrow> so_wh x = res_wh (hd rs))
     \<and> (so_parent x = None \<or> so_parent x \<in> Some ` so_id ` set (sales_orders (shop p)))
     \<and> (\<forall>y \<in> set (sales_orders (shop p)). so_number y \<noteq> so_number x)
     \<and> (\<forall>c \<in> set (pos_rows p). pc_key c \<noteq> Some (ck_key b))
     \<and> j = checkout_answer (so_number x)
     \<and> pos_rows p' = upd (\<lambda>c. pc_so c = so_id x) (\<lambda>c. c\<lparr>pc_response := Some j\<rparr>)
          (pos_rows p @ [checkout_cols b h (so_id x) (now (shop p))])
     \<and> retired p' = retired p \<and> restock_code p' = restock_code p
     \<and> now (shop p') = now (shop p) \<and> so_id x < seqs (shop p') Seq_so
     \<and> (\<exists>xs ls ks a code.
          extends (x # xs) (ls @ ks) [a] (shop p) (shop p')
          \<and> lines_of_sale b (so_id x) rs ls (shop p) (shop p')
          \<and> length xs \<le> 1 \<and> (\<forall>y \<in> set xs. so_id y = so_id x + 1 \<and> so_type y = OT_return \<and> so_parent y = so_parent x)
          \<and> (\<forall>l \<in> set ks. xs \<noteq> [] \<and> sol_so l = so_id x + 1 \<and> sol_shipped l = 0 \<and> sol_alloc l = 0)
          \<and> seqs (shop p') Seq_so = so_id x + 1 + int (length xs)
          \<and> au_action a = ''POS_CHECKOUT'' \<and> au_entity a = ''SO'' \<and> au_entity_id a = so_id x
          \<and> au_details a = Some (checkout_details b (so_number x) code))"

lemma booked_sale_basic:
  assumes "booked_sale b h rs x j p p'"
  shows "so_id x = seqs (shop p) Seq_so" "so_type x = body_type b" "\<forall>y \<in> set (sales_orders (shop p)). so_number y \<noteq> so_number x"
    "pos_rows p' = upd (\<lambda>c. pc_so c = so_id x) (\<lambda>c. c\<lparr>pc_response := Some j\<rparr>)
       (pos_rows p @ [checkout_cols b h (so_id x) (now (shop p))])"
    "\<forall>c \<in> set (pos_rows p). pc_key c \<noteq> Some (ck_key b)" "so_id x < seqs (shop p') Seq_so" "so_source x = ''pos''"
    "so_state x = (if ck_backorder b then SO_WAITING_STOCK else if ck_phone_order b then SO_OPEN else SO_SHIPPED)"
    "so_refund x = None" "j = checkout_answer (so_number x)" "retired p' = retired p" "now (shop p') = now (shop p)"
    "so_parent x = None \<or> so_parent x \<in> Some ` so_id ` set (sales_orders (shop p))"
    "so_wh x \<in> wh_id ` set (warehouses (shop p))" "\<not> ck_backorder b \<Longrightarrow> so_wh x = res_wh (hd rs)"
  using assms by (simp_all add: booked_sale_def)

lemma booked_sale_tables:
  assumes "booked_sale b h rs x j p p'"
  obtains xs ls ks a code where "extends (x # xs) (ls @ ks) [a] (shop p) (shop p')"
    "lines_of_sale b (so_id x) rs ls (shop p) (shop p')"
    "length xs \<le> 1" "\<forall>y \<in> set xs. so_id y = so_id x + 1 \<and> so_type y = OT_return \<and> so_parent y = so_parent x"
    "\<forall>l \<in> set ks. xs \<noteq> [] \<and> sol_so l = so_id x + 1 \<and> sol_shipped l = 0 \<and> sol_alloc l = 0"
    "seqs (shop p') Seq_so = so_id x + 1 + int (length xs)"
    "au_action a = ''POS_CHECKOUT''" "au_entity a = ''SO''" "au_entity_id a = so_id x"
    "au_details a = Some (checkout_details b (so_number x) code)"
  using assms unfolding booked_sale_def by (elim conjE exE) (rule that)

lemma book_sale_Inr:
  assumes "book_sale b h rs parent number (seqs (shop p) Seq_so) wh code (p\<lparr>shop := snd (nextval Seq_so (shop p))\<rparr>) = Inr (j, p')"
    and "good (shop p)" "\<forall>r \<in> set rs. 0 \<le> rs_qty r" "parent = None \<or> parent \<in> Some ` so_id ` set (sales_orders (shop p))"
    and "\<not> ck_backorder b \<longrightarrow> wh = res_wh (hd rs)"
  shows "\<exists>x. booked_sale b h rs x j p p' \<and> good (shop p')"
proof -
  let ?so = "seqs (shop p) Seq_so" and ?d0 = "snd (nextval Seq_so (shop p))"
  define u ext where "u = snd (uuid4 ?d0)" and "ext = fst (uuid4 ?d0)"
  let ?x = "checkout_header b ?so parent number wh ext (now u)"
  obtain p1 d1 d2 where s: "insert_pos_order ?x (checkout_cols b h ?so (now u)) (p\<lparr>shop := u\<rparr>) = Inr p1"
    "checkout_lines b ?x rs (shop p1) = Inr d1" "open_return b parent d1 = Inr d2"
    and p': "j = checkout_answer number" "p' = answer_order ?so j
      (p1\<lparr>shop := audit ''POS_CHECKOUT'' ''SO'' ?so (ck_cashier b) wh (checkout_details b number code) d2\<rparr>)"
    using assms(1) unfolding u_def ext_def
    by (auto simp: book_sale_def Let_def split_beta simp del: nextval_frame split: sum.splits)
  note i = insert_pos_order_Inr [OF s(1)]
  have u: "items u = items (shop p)" "bins u = bins (shop p)" "warehouses u = warehouses (shop p)" "now u = now (shop p)"
    "sales_orders u = sales_orders (shop p)" "so_lines u = so_lines (shop p)" "audit_log u = audit_log (shop p)"
    "inventory u = inventory (shop p)" "seqs u = (seqs (shop p))(Seq_so := ?so + 1)"
    by (simp_all add: u_def uuid4_def)
  have "good (shop p1)" using assms(2) by (simp add: i(1) good_rows inv_wf_def u)
  from checkout_lines_Inr [OF s(2) this assms(3)] obtain ls where ls: "extends [] ls [] (shop p1) d1"
    "lines_of_sale b ?so rs ls (shop p1) d1" "good d1" "seqs d1 Seq_so = seqs (shop p1) Seq_so"
    by (auto simp: checkout_header_def)
  from open_return_Inr [OF s(3)] obtain xs ks where r: "return_of parent xs ks d1 d2" by blast
  let ?d3 = "audit ''POS_CHECKOUT'' ''SO'' ?so (ck_cashier b) wh (checkout_details b number code) d2"
  let ?a = "\<lparr>au_id = seqs d2 Seq_audit, au_action = ''POS_CHECKOUT'', au_entity = ''SO'', au_entity_id = ?so,
    au_user = ck_cashier b, au_wh = wh, au_details = Some (checkout_details b number code)\<rparr>"
  have a: "extends [] [] [?a] d2 ?d3" by (rule audit_extends) (simp add: checkout_details_def)
  have "extends [?x] [] [] (shop p) (shop p1)" by (simp add: extends_def i(1) u)
  from extends_trans [OF extends_trans [OF this ls(1)] extends_trans [OF _ a]] r
  have e: "extends (?x # xs) (ls @ ks) [?a] (shop p) (shop p')"
    by (fastforce simp: return_of_def p'(2) answer_order_def)
  have inv: "inventory (shop p') = inventory d1" using r by (simp add: return_of_def p'(2) answer_order_def)
  have st: "stock (shop p') = stock d1" "committed (shop p') = committed d1" "stock (shop p1) = stock (shop p)"
    "committed (shop p1) = committed (shop p)"
    by (simp_all add: stock_def committed_def fun_eq_iff inv i(1) u)
  have x: "so_id ?x = ?so" "so_number ?x = number" "so_source ?x = ''pos''" "so_type ?x = body_type b" "so_parent ?x = parent"
    "so_state ?x = (if ck_backorder b then SO_WAITING_STOCK else if ck_phone_order b then SO_OPEN else SO_SHIPPED)"
    "so_refund ?x = None" "so_wh ?x = wh"
    by (simp_all add: checkout_header_def new_so_def)
  have wh: "wh \<in> wh_id ` set (warehouses (shop p))" using i(4) unfolding x by (simp add: u)
  have "rows_of_sale rs (shop p1) d1 \<Longrightarrow> rows_of_sale rs (shop p) (shop p')"
    by (erule rows_of_sale_cong) (simp_all add: inv i(1) u)
  then have L: "lines_of_sale b ?so rs ls (shop p) (shop p')" using ls(2) by (simp add: lines_of_sale_def st)
  have q: "seqs (shop p') Seq_so = ?so + 1 + int (length xs)" "seqs d1 Seq_so = ?so + 1"
    using r ls(4) by (simp_all add: return_of_def p'(2) answer_order_def i(1) u)
  have P: "pos_rows p' = upd (\<lambda>c. pc_so c = ?so) (\<lambda>c. c\<lparr>pc_response := Some j\<rparr>)
      (pos_rows p @ [checkout_cols b h ?so (now (shop p))])" "retired p' = retired p" "restock_code p' = restock_code p"
    using p' by (simp_all add: answer_order_def i(1) u)
  have k: "\<forall>c \<in> set (pos_rows p). pc_key c \<noteq> Some (ck_key b)" "\<forall>y \<in> set (sales_orders (shop p)). so_number y \<noteq> number"
    using i(2,3) unfolding x by (simp_all add: checkout_cols_def u)
  have "good (shop p')" using ls(3) r good_cong [OF inv] by (simp add: return_of_def p'(2) answer_order_def)
  moreover have "booked_sale b h rs ?x j p p'"
    unfolding booked_sale_def x
  proof (intro conjI P k wh assms(5))
    show "\<exists>xs ls ks a code.
        extends (?x # xs) (ls @ ks) [a] (shop p) (shop p') \<and> lines_of_sale b ?so rs ls (shop p) (shop p')
        \<and> length xs \<le> 1 \<and> (\<forall>y \<in> set xs. so_id y = ?so + 1 \<and> so_type y = OT_return \<and> so_parent y = parent)
        \<and> (\<forall>l \<in> set ks. xs \<noteq> [] \<and> sol_so l = ?so + 1 \<and> sol_shipped l = 0 \<and> sol_alloc l = 0)
        \<and> seqs (shop p') Seq_so = ?so + 1 + int (length xs)
        \<and> au_action a = ''POS_CHECKOUT'' \<and> au_entity a = ''SO'' \<and> au_entity_id a = ?so
        \<and> au_details a = Some (checkout_details b number code)"
      by (rule exI [of _ xs], rule exI [of _ ls], rule exI [of _ ks], rule exI [of _ ?a], rule exI [of _ code], intro conjI e L q)
        (use r in \<open>auto simp: return_of_def q\<close>)
  qed (use assms(4) q e p'(1) in \<open>auto simp: extends_def\<close>)
  ultimately show ?thesis by blast
qed

lemma checkout_places:
  "checkout_ok b \<Longrightarrow> \<forall>r \<in> set (resolve_places (map line_place (ck_lines b)) d). 1 \<le> rs_qty r"
  by (auto simp: resolve_places_def resolve_place_def line_place_def checkout_ok_def Let_def set_zip split: prod.splits)

lemma checkout_number_parent:
  assumes "checkout_number whs b so d = Inr (parent, number)"
  shows "parent = None \<or> parent \<in> Some ` so_id ` set (sales_orders d)"
  using assms find_Some_iff_first
  by (fastforce simp: checkout_number_def split: if_splits option.splits)

lemma checkout_new_Inr:
  assumes "checkout_new whs h b p = Inr (j, p')" "checkout_ok b" "good (shop p)"
  shows "\<exists>x. booked_sale b h (resolve_places (map line_place (ck_lines b)) (shop p)) x j p p' \<and> good (shop p')"
proof -
  let ?rs = "resolve_places (map line_place (ck_lines b)) (shop p)" and ?d0 = "snd (nextval Seq_so (shop p))"
  from assms(1) obtain parent number wh code where
    n: "checkout_number whs b (seqs (shop p) Seq_so) ?d0 = Inr (parent, number)"
    and s: "book_sale b h ?rs parent number (seqs (shop p) Seq_so) wh code (p\<lparr>shop := ?d0\<rparr>) = Inr (j, p')"
    and hw: "header_warehouse b ?rs p = Some (wh, code)"
    by (auto simp: checkout_new_def Let_def split_beta split: option.splits sum.splits)
  from hw have wh: "\<not> ck_backorder b \<longrightarrow> wh = res_wh (hd ?rs)" by (cases "ck_backorder b") (simp_all add: header_warehouse_def)
  show ?thesis
    by (rule book_sale_Inr [OF s assms(3)])
      (use checkout_places [OF assms(2)] checkout_number_parent [OF n] wh in force)+
qed

section \<open>A whole refund\<close>

definition booked_refund ::
    "refund_body \<Rightarrow> string \<Rightarrow> so_row \<Rightarrow> resolved list \<Rightarrow> bool \<Rightarrow> so_row \<Rightarrow> json \<Rightarrow> pos \<Rightarrow> pos \<Rightarrow> bool" where
  "booked_refund b h sale rs full x j p p' \<longleftrightarrow>
     (\<exists>ls a d.
        extends [x] ls [] (shop p) d
        \<and> so_id x = seqs (shop p) Seq_so \<and> so_source x = ''pos'' \<and> so_type x = OT_refund \<and> so_parent x = Some (so_id sale)
        \<and> so_state x = SO_SHIPPED \<and> so_refund x = None
        \<and> mint_child_so_number (so_id sale) (so_number sale) OT_refund (shop p) = Some (so_number x)
        \<and> (\<forall>l \<in> set ls. sol_so l = so_id x)
        \<and> (\<forall>i. total (\<lambda>l. sol_item l = i) sol_shipped ls = - item_sum i rs)
        \<and> (\<forall>i. total (\<lambda>l. sol_item l = i) sol_alloc ls = 0)
        \<and> (\<forall>i. stock (shop p') i = stock (shop p) i + item_sum i rs) \<and> (\<forall>i. committed (shop p') i = committed (shop p) i)
        \<and> sales_orders (shop p') = (if full then upd (\<lambda>y. so_id y = so_id sale)
             (\<lambda>y. y\<lparr>so_refund := Some (so_id x), so_state := SO_REFUNDED\<rparr>) (sales_orders d) else sales_orders d)
        \<and> items (shop p') = items d \<and> bins (shop p') = bins d \<and> warehouses (shop p') = warehouses d \<and> now (shop p') = now d
        \<and> so_lines (shop p') = so_lines d \<and> audit_log (shop p') = audit_log d @ [a] \<and> au_action a = ''POS_REFUND''
        \<and> seqs (shop p') Seq_so = so_id x + 1
        \<and> (\<forall>c \<in> set (pos_rows p). pc_key c \<noteq> Some (rf_key b))
        \<and> j = refund_answer (so_number x) (so_number sale) full
        \<and> pos_rows p' = upd (\<lambda>c. pc_so c = so_id x) (\<lambda>c. c\<lparr>pc_response := Some j\<rparr>)
             ((if full then upd (\<lambda>c. pc_so c = so_id sale) (\<lambda>c. c\<lparr>pc_refunded := Some (now (shop p))\<rparr>) else id)
               (pos_rows p @ [refund_cols b h (so_id x) (now (shop p))]))
        \<and> map inv_id (inventory (shop p')) = map inv_id (inventory (shop p))
        \<and> map (\<lambda>v. (inv_id v, on_hand v)) (inventory (shop p'))
            = map (\<lambda>v. (inv_id v, on_hand v + total (\<lambda>r. first_id r (shop p) = Some (inv_id v)) rs_qty rs)) (inventory (shop p))
        \<and> retired p' = retired p \<and> restock_code p' = restock_code p)"

lemma book_refund_Inr:
  assumes "book_refund b h sale rs full p = Inr (j, p')" "good (shop p)" "\<forall>r \<in> set rs. 0 \<le> rs_qty r"
  shows "\<exists>x. booked_refund b h sale rs full x j p p' \<and> good (shop p')"
proof -
  let ?so = "seqs (shop p) Seq_so" and ?d0 = "snd (nextval Seq_so (shop p))"
  let ?rs = "sort_key (\<lambda>r. (res_item r, res_bin r)) rs"
  define u ext where "u = snd (uuid4 ?d0)" and "ext = fst (uuid4 ?d0)"
  obtain number where nm: "mint_child_so_number (so_id sale) (so_number sale) OT_refund ?d0 = Some number"
    by (simp add: mint_child_so_number_def order_type_so_suffix_def Let_def)
  let ?x = "refund_header b sale ?so number ext"
  obtain p1 d2 where s: "insert_pos_order ?x (refund_cols b h ?so (now u)) (p\<lparr>shop := u\<rparr>) = Inr p1"
    "credit_lines ?so ?rs (shop p1) = Inr d2"
    and p': "j = refund_answer number (so_number sale) full" "p' = answer_order ?so j
      (let p2 = (if full then mark_refunded (so_id sale) ?so (p1\<lparr>shop := d2\<rparr>) else p1\<lparr>shop := d2\<rparr>)
       in p2\<lparr>shop := audit ''POS_REFUND'' ''SO'' ?so (rf_cashier b) (so_wh sale) (refund_details b number full rs) (shop p2)\<rparr>)"
    using assms(1) nm unfolding u_def ext_def
    by (auto simp: book_refund_def Let_def split_beta simp del: nextval_frame(2) split: sum.splits)
  note i = insert_pos_order_Inr [OF s(1)]
  have u: "items u = items (shop p)" "bins u = bins (shop p)" "warehouses u = warehouses (shop p)" "now u = now (shop p)"
    "sales_orders u = sales_orders (shop p)" "so_lines u = so_lines (shop p)" "audit_log u = audit_log (shop p)"
    "inventory u = inventory (shop p)" "seqs u = (seqs (shop p))(Seq_so := ?so + 1)"
    by (simp_all add: u_def uuid4_def)
  have g1: "good (shop p1)" using assms(2) by (simp add: i(1) good_rows inv_wf_def u)
  have inv1: "inventory (shop p1) = inventory (shop p)" by (simp add: i(1) u)
  have g2: "good d2" by (rule credit.walk_good [OF s(2) g1]) (use assms(3) in simp)
  from credit.walk_extends [OF s(2)] obtain ls where ls: "extends [] ls [] (shop p1) d2"
    "map (\<lambda>l. l\<lparr>sol_id := 0\<rparr>) ls = map (\<lambda>r. (credit_line ?so r)\<lparr>sol_id := 0\<rparr>) ?rs"
    "\<forall>q. q \<noteq> Seq_so_line \<longrightarrow> seqs d2 q = seqs (shop p1) q" by blast
  let ?a = "\<lparr>au_id = seqs d2 Seq_audit, au_action = ''POS_REFUND'', au_entity = ''SO'', au_entity_id = ?so,
    au_user = rf_cashier b, au_wh = so_wh sale, au_details = Some (refund_details b number full rs)\<rparr>"
  have x: "so_id ?x = ?so" "so_number ?x = number" "so_source ?x = ''pos''" "so_type ?x = OT_refund"
    "so_parent ?x = Some (so_id sale)" "so_state ?x = SO_SHIPPED" "so_refund ?x = None"
    by (simp_all add: refund_header_def new_so_def)
  have e: "extends [?x] ls [] (shop p) d2"
    using ls(1) by (simp add: extends_def i(1) u)
  have sums: "\<forall>l \<in> set ls. sol_so l = ?so" "\<forall>i. total (\<lambda>l. sol_item l = i) sol_shipped ls = - item_sum i rs"
    "\<forall>i. total (\<lambda>l. sol_item l = i) sol_alloc ls = 0"
    using so_of_lines [OF ls(2)] sum_of_lines [OF ls(2), of sol_shipped] sum_of_lines [OF ls(2), of sol_alloc]
    by (simp_all add: credit.line_so credit.line_item total_sort credit_line_def new_sol_def item_sum_def total_neg total_zero)
  have inv: "inventory (shop p') = inventory d2" "seqs (shop p') Seq_inventory = seqs d2 Seq_inventory"
    "seqs (shop p') Seq_so = seqs d2 Seq_so"
    by (simp_all add: p'(2) Let_def answer_order_def mark_refunded_def)
  have st: "\<forall>i. stock (shop p') i = stock (shop p) i + item_sum i rs" "\<forall>i. committed (shop p') i = committed (shop p) i"
    using credit.walk_sums [OF s(2) good_distinct [OF g1]]
    by (simp_all add: stock_def committed_def inv inv1 total_sort item_sum_def total_zero)
  note rw = credit.walk_rows [OF s(2)]
  have rows: "map inv_id (inventory (shop p')) = map inv_id (inventory (shop p))"
    "map (\<lambda>v. (inv_id v, on_hand v)) (inventory (shop p'))
      = map (\<lambda>v. (inv_id v, on_hand v + total (\<lambda>r. first_id r (shop p) = Some (inv_id v)) rs_qty rs)) (inventory (shop p))"
    using rw by (simp_all add: inv inv1 total_sort first_id_def first_row_cong [OF inv1])
  have tables: "items (shop p') = items d2" "bins (shop p') = bins d2" "warehouses (shop p') = warehouses d2"
    "now (shop p') = now d2" "so_lines (shop p') = so_lines d2" "audit_log (shop p') = audit_log d2 @ [?a]"
    "sales_orders (shop p') = (if full then upd (\<lambda>y. so_id y = so_id sale)
       (\<lambda>y. y\<lparr>so_refund := Some ?so, so_state := SO_REFUNDED\<rparr>) (sales_orders d2) else sales_orders d2)"
    by (simp_all add: p'(2) Let_def answer_order_def mark_refunded_def write_audit_log_def nextval_def refund_details_def)
  have P: "pos_rows p' = upd (\<lambda>c. pc_so c = ?so) (\<lambda>c. c\<lparr>pc_response := Some j\<rparr>)
     ((if full then upd (\<lambda>c. pc_so c = so_id sale) (\<lambda>c. c\<lparr>pc_refunded := Some (now (shop p))\<rparr>) else id)
       (pos_rows p @ [refund_cols b h ?so (now (shop p))]))" "retired p' = retired p" "restock_code p' = restock_code p"
    using ls(1) by (simp_all add: p'(2) Let_def answer_order_def mark_refunded_def i(1) u extends_def)
  have k: "\<forall>c \<in> set (pos_rows p). pc_key c \<noteq> Some (rf_key b)" using i(2) by (simp add: refund_cols_def)
  have q: "seqs (shop p') Seq_so = ?so + 1" using ls(3) by (simp add: inv(3) i(1) u)
  have nm': "mint_child_so_number (so_id sale) (so_number sale) OT_refund (shop p) = Some number"
    using nm by (simp add: mint_child_so_number_def children_def order_type_so_suffix_def)
  have "booked_refund b h sale rs full ?x j p p'"
    unfolding booked_refund_def x
    by (intro exI [of _ ls] exI [of _ ?a] exI [of _ d2] conjI e sums st tables P k q rows nm') (simp_all add: p'(1))
  moreover have "good (shop p')" using g2 good_cong [OF inv(1,2)] by simp
  ultimately show ?thesis by blast
qed

text \<open>Which sale, which of its places, which lines.\<close>

lemma refund_new_Inr:
  assumes "refund_new whs h b p = Inr (j, p')"
  obtains sale sold rs where "refundable_sale whs (rf_original b) (shop p) = Some sale"
    "refund_gate sale (pos_columns (so_id sale) p) (shop p) = None"
    "sale_places b sale (shop p) = Inr sold" "refund_lines b sold (shop p) = Inr rs"
    "over_refunded (so_id sale) sold rs (shop p) = None"
    "book_refund b h sale rs (fully_refunded (so_id sale) sold rs (shop p)) p = Inr (j, p')"
  using assms that by (fastforce simp: refund_new_def split: if_splits option.splits sum.splits)

section \<open>Histories\<close>

text \<open>Checkouts, refunds, reference orders, and time passing.\<close>

inductive pos_step :: "pos \<Rightarrow> pos \<Rightarrow> bool" where
  checks_out: "checkout_ok b \<Longrightarrow> checkout whs h b p = Inr (a, p') \<Longrightarrow> pos_step p p'"
| refunds: "refund_ok b \<Longrightarrow> refund whs h b p = Inr (a, p') \<Longrightarrow> pos_step p p'"
| refers: "\<forall>(s, q) \<in> set ls. 1 \<le> q \<Longrightarrow> reference_orders whs number customer ls p = Inr (a, p') \<Longrightarrow> pos_step p p'"
| waits: "now (shop p) \<le> t \<Longrightarrow> pos_step p (p\<lparr>shop := (shop p)\<lparr>now := t\<rparr>\<rparr>)"

definition pos_ids_ok :: "pos \<Rightarrow> bool" where
  "pos_ids_ok p \<longleftrightarrow>
     (let d = shop p; n = seqs d Seq_so in
        distinct (map so_id (sales_orders d))
        \<and> (\<forall>x \<in> set (sales_orders d). so_id x < n \<and> (\<forall>i. so_parent x = Some i \<longrightarrow> i < n))
        \<and> (\<forall>l \<in> set (so_lines d). sol_so l < n)
        \<and> (\<forall>a \<in> set (audit_log d). au_entity a = ''SO'' \<and> au_action a = ''POS_CHECKOUT'' \<longrightarrow> au_entity_id a < n)
        \<and> (\<forall>c \<in> set (pos_rows p). pc_so c < n)
        \<and> distinct (map pc_so (pos_rows p)) \<and> distinct (map pc_key (pos_rows p)))"

definition shipped_of :: "int \<Rightarrow> int \<Rightarrow> db \<Rightarrow> int" where
  "shipped_of so i d = total (\<lambda>l. sol_so l = so \<and> sol_item l = i) sol_shipped (so_lines d)"

text \<open>The audit row of a sale names what its lines ship.\<close>

definition remembered :: "int \<Rightarrow> db \<Rightarrow> bool" where
  "remembered so d \<longleftrightarrow>
     (\<exists>j ps. sale_details so d = Some j \<and> json_places (json_items (json_get ''lines'' j)) = Some ps
        \<and> (\<forall>r \<in> set (resolve_places ps d). 0 \<le> rs_qty r)
        \<and> (\<forall>i. item_sum i (resolve_places ps d) = shipped_of so i d))"

definition pos_sale :: "so_row \<Rightarrow> bool" where
  "pos_sale x \<longleftrightarrow> so_source x = ''pos'' \<and> so_type x = OT_sale \<and> (so_state x = SO_SHIPPED \<or> so_state x = SO_REFUNDED)"

definition sale_ok :: "db \<Rightarrow> so_row \<Rightarrow> bool" where
  "sale_ok d x \<longleftrightarrow>
     remembered (so_id x) d
     \<and> (\<forall>i. 0 \<le> refunded_of (so_id x) i d \<and> refunded_of (so_id x) i d \<le> shipped_of (so_id x) i d)
     \<and> (so_state x = SO_REFUNDED \<longrightarrow> (\<forall>i. refunded_of (so_id x) i d = shipped_of (so_id x) i d))"

definition till_ok :: "pos \<Rightarrow> bool" where
  "till_ok p \<longleftrightarrow> pos_ids_ok p \<and> good (shop p) \<and> (\<forall>x \<in> set (sales_orders (shop p)). pos_sale x \<longrightarrow> sale_ok (shop p) x)"

text \<open>Sums over the lines of a group of orders.\<close>

definition line_sum :: "(so_row \<Rightarrow> bool) \<Rightarrow> (sol_row \<Rightarrow> int) \<Rightarrow> int \<Rightarrow> db \<Rightarrow> int" where
  "line_sum P g i d = total (\<lambda>l. sol_item l = i \<and> (\<exists>x \<in> set (sales_orders d). so_id x = sol_so l \<and> P x)) g (so_lines d)"

lemma refunded_line_sum:
  "refunded_of so i d = line_sum (\<lambda>x. so_parent x = Some so \<and> so_type x = OT_refund) (\<lambda>l. - sol_shipped l) i d"
  by (simp add: refunded_of_def line_sum_def)

text \<open>What all operations do to these tables: old orders keep their identity, the rest is new.\<close>

definition grown :: "(so_row \<Rightarrow> so_row) \<Rightarrow> so_row list \<Rightarrow> sol_row list \<Rightarrow> db \<Rightarrow> db \<Rightarrow> bool" where
  "grown f xs ls d d' \<longleftrightarrow>
     (let n = seqs d Seq_so in
        (\<forall>x. so_id (f x) = so_id x \<and> so_source (f x) = so_source x \<and> so_type (f x) = so_type x \<and> so_parent (f x) = so_parent x)
        \<and> items d' = items d \<and> bins d' = bins d \<and> warehouses d' = warehouses d
        \<and> sales_orders d' = map f (sales_orders d) @ xs \<and> so_lines d' = so_lines d @ ls
        \<and> distinct (map so_id xs)
        \<and> (\<forall>x \<in> set xs. n \<le> so_id x \<and> so_id x < seqs d' Seq_so \<and> (\<forall>i. so_parent x = Some i \<longrightarrow> i < n))
        \<and> (\<forall>l \<in> set ls. n \<le> sol_so l \<and> sol_so l < seqs d' Seq_so) \<and> n \<le> seqs d' Seq_so
        \<and> (\<exists>as. audit_log d' = audit_log d @ as
             \<and> (\<forall>a \<in> set as. au_entity a = ''SO'' \<and> au_action a = ''POS_CHECKOUT'' \<longrightarrow> n \<le> au_entity_id a \<and> au_entity_id a < seqs d' Seq_so)))"

lemma grown_line_sum:
  assumes "pos_ids_ok p" "grown f xs ls (shop p) d'" "\<And>x. P (f x) = P x"
  shows "line_sum P g i d' = line_sum P g i (shop p)
    + total (\<lambda>l. sol_item l = i \<and> (\<exists>x \<in> set xs. so_id x = sol_so l \<and> P x)) g ls"
proof -
  let ?n = "seqs (shop p) Seq_so"
  have o: "\<forall>x \<in> set (sales_orders (shop p)). so_id x < ?n" "\<forall>l \<in> set (so_lines (shop p)). sol_so l < ?n"
    using assms(1) by (auto simp: pos_ids_ok_def Let_def)
  have n: "\<forall>x \<in> set xs. ?n \<le> so_id x" "\<forall>l \<in> set ls. ?n \<le> sol_so l"
    "sales_orders d' = map f (sales_orders (shop p)) @ xs" "so_lines d' = so_lines (shop p) @ ls"
    "\<And>x. so_id (f x) = so_id x"
    using assms(2) by (auto simp: grown_def Let_def)
  have old: "(\<exists>x \<in> set (sales_orders d'). so_id x = sol_so l \<and> P x) = (\<exists>x \<in> set (sales_orders (shop p)). so_id x = sol_so l \<and> P x)"
    if "l \<in> set (so_lines (shop p))" for l
  proof -
    have "so_id x \<noteq> sol_so l" if "x \<in> set xs" for x
      using n(1) o(2) that \<open>l \<in> set (so_lines (shop p))\<close> by fastforce
    then show ?thesis by (simp add: n(3,5) assms(3) bex_Un)
  qed
  have new: "(\<exists>x \<in> set (sales_orders d'). so_id x = sol_so l \<and> P x) = (\<exists>x \<in> set xs. so_id x = sol_so l \<and> P x)"
    if "l \<in> set ls" for l
  proof -
    have "so_id x \<noteq> sol_so l" if "x \<in> set (sales_orders (shop p))" for x
      using n(2) o(1) that \<open>l \<in> set ls\<close> by fastforce
    then show ?thesis by (simp add: n(3,5) bex_Un)
  qed
  have "total (\<lambda>l. sol_item l = i \<and> (\<exists>x \<in> set (sales_orders d'). so_id x = sol_so l \<and> P x)) g (so_lines (shop p)) = line_sum P g i (shop p)"
    unfolding line_sum_def by (rule total_cong) (simp_all add: old)
  moreover have "total (\<lambda>l. sol_item l = i \<and> (\<exists>x \<in> set (sales_orders d'). so_id x = sol_so l \<and> P x)) g ls
      = total (\<lambda>l. sol_item l = i \<and> (\<exists>x \<in> set xs. so_id x = sol_so l \<and> P x)) g ls"
    by (rule total_cong) (simp_all add: new)
  ultimately show ?thesis unfolding line_sum_def [of P g i d'] n(4) by simp
qed

lemma grown_old:
  assumes "pos_ids_ok p" "grown f xs ls (shop p) d'" "so < seqs (shop p) Seq_so"
  shows "shipped_of so i d' = shipped_of so i (shop p)" "sale_details so d' = sale_details so (shop p)"
    "remembered so (shop p) \<Longrightarrow> remembered so d'"
proof -
  show s: "shipped_of so i d' = shipped_of so i (shop p)" for i
    using assms(2,3) by (auto simp: shipped_of_def grown_def Let_def intro!: total_none)
  show d: "sale_details so d' = sale_details so (shop p)"
  proof -
    obtain as where as: "audit_log d' = audit_log (shop p) @ as"
      "\<forall>a \<in> set as. au_entity a = ''SO'' \<and> au_action a = ''POS_CHECKOUT'' \<longrightarrow> seqs (shop p) Seq_so \<le> au_entity_id a"
      using assms(2) by (auto simp: grown_def Let_def)
    then have "filter (\<lambda>a. au_entity a = ''SO'' \<and> au_entity_id a = so \<and> au_action a = ''POS_CHECKOUT'') as = []"
      using assms(3) by (force simp: filter_empty_conv)
    with as(1) show ?thesis by (simp add: sale_details_def)
  qed
  have "resolve_places ps d' = resolve_places ps (shop p)" for ps
    using assms(2) by (intro resolve_places_cong) (simp_all add: grown_def Let_def)
  then show "remembered so (shop p) \<Longrightarrow> remembered so d'"
    by (simp add: remembered_def s d)
qed

text \<open>Orders that are neither POS sales nor refunds of one leave the ledger of the old sales.\<close>

lemma grown_ids:
  assumes "pos_ids_ok p" "grown f xs ls (shop p) (shop p')"
    and "map pc_so (pos_rows p') = map pc_so (pos_rows p) @ ns" "map pc_key (pos_rows p') = map pc_key (pos_rows p) @ ks"
    and "\<forall>i \<in> set ns. seqs (shop p) Seq_so \<le> i \<and> i < seqs (shop p') Seq_so" "distinct ns"
    and "\<forall>k \<in> set ks. k \<notin> pc_key ` set (pos_rows p)" "distinct ks"
  shows "pos_ids_ok p'"
proof -
  let ?n = "seqs (shop p) Seq_so" and ?m = "seqs (shop p') Seq_so"
  have a: "distinct (map so_id (sales_orders (shop p)))"
    "\<forall>x \<in> set (sales_orders (shop p)). so_id x < ?n \<and> (\<forall>i. so_parent x = Some i \<longrightarrow> i < ?n)"
    "\<forall>l \<in> set (so_lines (shop p)). sol_so l < ?n"
    "\<forall>a \<in> set (audit_log (shop p)). au_entity a = ''SO'' \<and> au_action a = ''POS_CHECKOUT'' \<longrightarrow> au_entity_id a < ?n"
    "\<forall>c \<in> set (pos_rows p). pc_so c < ?n" "distinct (map pc_so (pos_rows p))" "distinct (map pc_key (pos_rows p))"
    using assms(1) by (simp_all add: pos_ids_ok_def Let_def)
  obtain as where g: "\<forall>x. so_id (f x) = so_id x \<and> so_parent (f x) = so_parent x"
    "sales_orders (shop p') = map f (sales_orders (shop p)) @ xs" "so_lines (shop p') = so_lines (shop p) @ ls"
    "distinct (map so_id xs)" "\<forall>x \<in> set xs. ?n \<le> so_id x \<and> so_id x < ?m \<and> (\<forall>i. so_parent x = Some i \<longrightarrow> i < ?n)"
    "\<forall>l \<in> set ls. sol_so l < ?m" "?n \<le> ?m" "audit_log (shop p') = audit_log (shop p) @ as"
    "\<forall>a \<in> set as. au_entity a = ''SO'' \<and> au_action a = ''POS_CHECKOUT'' \<longrightarrow> au_entity_id a < ?m"
    using assms(2) by (auto simp: grown_def Let_def)
  have "distinct (map so_id (sales_orders (shop p')))"
    using a(1,2) g(1,4,5) by (force simp: g(2) o_def)
  moreover have "\<forall>x \<in> set (sales_orders (shop p')). so_id x < ?m \<and> (\<forall>i. so_parent x = Some i \<longrightarrow> i < ?m)"
    using a(2) g(1,5,7) by (fastforce simp: g(2))
  moreover have "\<forall>l \<in> set (so_lines (shop p')). sol_so l < ?m" using a(3) g(6,7) by (force simp: g(3))
  moreover have "\<forall>a \<in> set (audit_log (shop p')). au_entity a = ''SO'' \<and> au_action a = ''POS_CHECKOUT'' \<longrightarrow> au_entity_id a < ?m"
    using a(4) g(7,9) by (force simp: g(8))
  moreover have "\<forall>i \<in> set (map pc_so (pos_rows p')). i < ?m" using a(5) g(7) assms(5) by (force simp: assms(3))
  moreover have "distinct (map pc_so (pos_rows p'))" using a(5,6) assms(5,6) by (force simp: assms(3))
  moreover have "distinct (map pc_key (pos_rows p'))" using a(7) assms(7,8) by (force simp: assms(4))
  ultimately show ?thesis by (simp add: pos_ids_ok_def Let_def)
qed

text \<open>New rows of the POS table.\<close>

lemma new_columns:
  assumes "\<forall>c \<in> set (pos_rows p). pc_so c < so" "pc_so c = so"
  shows "upd (\<lambda>c. pc_so c = so) f (pos_rows p @ [c]) = pos_rows p @ [f c]"
proof -
  have "upd (\<lambda>c. pc_so c = so) f (pos_rows p) = pos_rows p"
    by (rule upd_id) (use assms(1) in auto)
  with assms(2) show ?thesis by simp
qed

lemma pos_ids_rows: "pos_ids_ok p \<Longrightarrow> \<forall>c \<in> set (pos_rows p). pc_so c < seqs (shop p) Seq_so"
  by (simp add: pos_ids_ok_def Let_def)

lemma sale_ok_kept:
  assumes "pos_ids_ok p" "grown f xs ls (shop p) d'" "\<forall>x \<in> set xs. so_type x \<noteq> OT_refund"
    and "y \<in> set (sales_orders (shop p))" "sale_ok (shop p) y" "so_state (f y) = so_state y"
  shows "sale_ok d' (f y)"
proof -
  have id: "so_id (f y) = so_id y" "so_id y < seqs (shop p) Seq_so"
    using assms(1,2,4) by (auto simp: grown_def pos_ids_ok_def Let_def)
  have r: "refunded_of (so_id y) i d' = refunded_of (so_id y) i (shop p)" for i
    using grown_line_sum [OF assms(1,2), of "\<lambda>x. so_parent x = Some (so_id y) \<and> so_type x = OT_refund" "\<lambda>l. - sol_shipped l" i]
      assms(2,3) by (auto simp: refunded_line_sum grown_def Let_def intro!: total_none)
  show ?thesis
    using assms(5,6) grown_old [OF assms(1,2) id(2)] by (simp add: sale_ok_def id(1) r)
qed

section \<open>A checkout keeps the invariant\<close>

lemma booked_sale_grown:
  assumes "booked_sale b h rs x j p p'" "pos_ids_ok p"
  obtains xs ls ks where "grown id (x # xs) (ls @ ks) (shop p) (shop p')"
    "lines_of_sale b (so_id x) rs ls (shop p) (shop p')" "\<forall>y \<in> set xs. so_type y = OT_return"
    "\<forall>l \<in> set ks. sol_so l \<noteq> so_id x \<and> sol_shipped l = 0 \<and> sol_alloc l = 0"
proof -
  let ?n = "seqs (shop p) Seq_so"
  note basic = booked_sale_basic [OF assms(1)]
  obtain xs ls ks a code where b: "extends (x # xs) (ls @ ks) [a] (shop p) (shop p')"
    "lines_of_sale b (so_id x) rs ls (shop p) (shop p')" "length xs \<le> 1"
    "\<forall>y \<in> set xs. so_id y = so_id x + 1 \<and> so_type y = OT_return \<and> so_parent y = so_parent x"
    "\<forall>l \<in> set ks. xs \<noteq> [] \<and> sol_so l = so_id x + 1 \<and> sol_shipped l = 0 \<and> sol_alloc l = 0"
    "seqs (shop p') Seq_so = so_id x + 1 + int (length xs)" "au_entity_id a = so_id x"
    by (rule booked_sale_tables [OF assms(1)])
  have len: "xs \<noteq> [] \<Longrightarrow> length xs = 1" using b(3) by (cases xs) auto
  have d: "distinct (map so_id (x # xs))" using b(3,4) by (cases xs) auto
  have pa: "\<forall>i. so_parent x = Some i \<longrightarrow> i < ?n"
    using basic(13) assms(2) by (auto simp: pos_ids_ok_def Let_def)
  have ls: "\<forall>l \<in> set ls. sol_so l = so_id x" using b(2) by (simp add: lines_of_sale_def)
  have "grown id (x # xs) (ls @ ks) (shop p) (shop p')"
    unfolding grown_def Let_def
  proof (intro conjI)
    show "\<forall>y \<in> set (x # xs). ?n \<le> so_id y \<and> so_id y < seqs (shop p') Seq_so \<and> (\<forall>i. so_parent y = Some i \<longrightarrow> i < ?n)"
      using basic(1) b(4,6) pa len by (auto dest: length_pos_if_in_set)
    show "\<forall>l \<in> set (ls @ ks). ?n \<le> sol_so l \<and> sol_so l < seqs (shop p') Seq_so"
      using basic(1) b(5,6) ls len by auto
  qed (use b basic(1) d in \<open>auto simp: extends_def\<close>)
  with that b(2,4,5) show thesis by force
qed

lemma body_type_cases: "checkout_ok b \<Longrightarrow> body_type b = OT_sale \<or> body_type b = OT_replacement \<or> body_type b = OT_exchange"
  by (auto simp: checkout_ok_def body_type_def)

lemma total_drop: "(\<And>x. x \<in> set t \<Longrightarrow> P x \<Longrightarrow> g x = 0) \<Longrightarrow> total P g t = 0"
  by (induction t) auto

lemma remembered_nonneg: "remembered so d \<Longrightarrow> 0 \<le> shipped_of so i d"
proof -
  assume "remembered so d"
  then obtain ps where "\<forall>r \<in> set (resolve_places ps d). 0 \<le> rs_qty r" "item_sum i (resolve_places ps d) = shipped_of so i d"
    by (auto simp: remembered_def)
  then show ?thesis using total_nonneg [of "resolve_places ps d" "\<lambda>r. res_item r = i" rs_qty] by (simp add: item_sum_def)
qed

text \<open>A counter sale is remembered by its audit row and has no refund yet.\<close>

lemma new_sale_details:
  assumes "booked_sale b h rs x j p p'" "pos_ids_ok p"
  obtains code where "sale_details (so_id x) (shop p') = Some (checkout_details b (so_number x) code)"
proof -
  obtain a code where a: "audit_log (shop p') = audit_log (shop p) @ [a]"
    "au_action a = ''POS_CHECKOUT''" "au_entity a = ''SO''" "au_entity_id a = so_id x"
    "au_details a = Some (checkout_details b (so_number x) code)"
    by (rule booked_sale_tables [OF assms(1)]) (simp add: extends_def)
  have "filter (\<lambda>a. au_entity a = ''SO'' \<and> au_entity_id a = so_id x \<and> au_action a = ''POS_CHECKOUT'') (audit_log (shop p)) = []"
    using assms(2) by (force simp: pos_ids_ok_def Let_def filter_empty_conv booked_sale_basic(1) [OF assms(1)])
  with that a show thesis by (simp add: sale_details_def)
qed

lemma new_sale_children:
  assumes "booked_sale b h rs x j p p'" "pos_ids_ok p" "so_type x = OT_sale"
  shows "children (so_id x) OT_refund (shop p') = []" "refunded_of (so_id x) i (shop p') = 0"
proof -
  obtain xs ls ks where g: "grown id (x # xs) (ls @ ks) (shop p) (shop p')" "\<forall>y \<in> set xs. so_type y = OT_return"
    by (rule booked_sale_grown [OF assms(1,2)])
  have n: "so_id x = seqs (shop p) Seq_so" using booked_sale_basic [OF assms(1)] by simp
  have none: "\<not> (so_parent y = Some (so_id x) \<and> so_type y = OT_refund)" if "y \<in> set (sales_orders (shop p'))" for y
  proof -
    have "y \<in> set (sales_orders (shop p)) \<or> y = x \<or> y \<in> set xs" using g that by (auto simp: grown_def Let_def)
    then show ?thesis using assms(2,3) g(2) by (fastforce simp: pos_ids_ok_def Let_def n)
  qed
  then show "children (so_id x) OT_refund (shop p') = []" by (auto simp: children_def filter_empty_conv)
  from none show "refunded_of (so_id x) i (shop p') = 0" by (auto simp: refunded_of_def intro!: total_none)
qed

lemma new_sale_ok:
  assumes "booked_sale b h (resolve_places (map line_place (ck_lines b)) (shop p)) x j p p'" "pos_ids_ok p"
    and "checkout_ok b" "pos_sale x"
  shows "sale_ok (shop p') x"
proof -
  let ?ps = "map line_place (ck_lines b)" and ?n = "seqs (shop p) Seq_so"
  from booked_sale_grown [OF assms(1,2)] obtain xs ls ks where g: "grown id (x # xs) (ls @ ks) (shop p) (shop p')"
    and l: "lines_of_sale b (so_id x) (resolve_places ?ps (shop p)) ls (shop p) (shop p')"
    and xs: "\<forall>y \<in> set xs. so_type y = OT_return"
    and ks: "\<forall>l \<in> set ks. sol_so l \<noteq> so_id x \<and> sol_shipped l = 0 \<and> sol_alloc l = 0" by blast
  note n = booked_sale_basic(1,8) [OF assms(1)]
  obtain code where sd: "sale_details (so_id x) (shop p') = Some (checkout_details b (so_number x) code)"
    by (rule new_sale_details [OF assms(1,2)])
  have counter: "counter_sale b" using assms(4) n(2) by (auto simp: pos_sale_def counter_sale_def split: if_splits)
  have lines: "so_lines (shop p') = so_lines (shop p) @ ls @ ks" "\<forall>l \<in> set (so_lines (shop p)). sol_so l < ?n"
    using g assms(2) by (auto simp: grown_def pos_ids_ok_def Let_def)
  have "shipped_of (so_id x) i (shop p') = item_sum i (resolve_places ?ps (shop p))" for i
  proof -
    have "total (\<lambda>l. sol_so l = so_id x \<and> sol_item l = i) sol_shipped (so_lines (shop p)) = 0"
      by (rule total_none) (use lines(2) n(1) in auto)
    moreover have "total (\<lambda>l. sol_so l = so_id x \<and> sol_item l = i) sol_shipped ks = 0"
      by (rule total_none) (use ks in auto)
    moreover have "total (\<lambda>l. sol_so l = so_id x \<and> sol_item l = i) sol_shipped ls = total (\<lambda>l. sol_item l = i) sol_shipped ls"
      by (rule total_cong) (use l in \<open>auto simp: lines_of_sale_def\<close>)
    ultimately show ?thesis using l counter by (simp add: shipped_of_def lines(1) lines_of_sale_def)
  qed
  moreover have "resolve_places ?ps (shop p') = resolve_places ?ps (shop p)"
    using g by (intro resolve_places_cong) (simp_all add: grown_def Let_def)
  moreover have "\<forall>r \<in> set (resolve_places ?ps (shop p)). 0 \<le> rs_qty r" using checkout_places [OF assms(3)] by force
  ultimately have m: "remembered (so_id x) (shop p')"
    by (auto simp: remembered_def sd checkout_details_back json_places_lines)
  have pos: "0 \<le> shipped_of (so_id x) i (shop p')" for i
    using m by (auto simp: remembered_def item_sum_def intro!: total_nonneg)
      (metis (no_types, lifting) total_nonneg)
  have "refunded_of (so_id x) i (shop p') = 0" for i
    using new_sale_children(2) [OF assms(1,2)] assms(4) by (simp add: pos_sale_def)
  with m pos show ?thesis
    using assms(4) n(2) by (auto simp: sale_ok_def split: if_splits)
qed

lemma checkout_new_ok:
  assumes "checkout_new whs h b p = Inr (j, p')" "checkout_ok b" "till_ok p"
  shows "till_ok p'"
proof -
  have t: "pos_ids_ok p" "good (shop p)" "\<forall>x \<in> set (sales_orders (shop p)). pos_sale x \<longrightarrow> sale_ok (shop p) x"
    using assms(3) by (simp_all add: till_ok_def)
  from checkout_new_Inr [OF assms(1,2) t(2)] obtain x where
    x: "booked_sale b h (resolve_places (map line_place (ck_lines b)) (shop p)) x j p p'" "good (shop p')" by blast
  obtain xs ls ks where g: "grown id (x # xs) (ls @ ks) (shop p) (shop p')"
    "\<forall>y \<in> set xs. so_type y = OT_return" by (rule booked_sale_grown [OF x(1) t(1)])
  have n: "so_id x = seqs (shop p) Seq_so" "so_type x = body_type b"
    "pos_rows p' = upd (\<lambda>c. pc_so c = so_id x) (\<lambda>c. c\<lparr>pc_response := Some j\<rparr>) (pos_rows p @ [checkout_cols b h (so_id x) (now (shop p))])"
    "\<forall>c \<in> set (pos_rows p). pc_key c \<noteq> Some (ck_key b)" "so_id x < seqs (shop p') Seq_so"
    using booked_sale_basic [OF x(1)] by simp_all
  have rows: "pos_rows p' = pos_rows p @ [(checkout_cols b h (so_id x) (now (shop p)))\<lparr>pc_response := Some j\<rparr>]"
    unfolding n(3) by (rule new_columns) (use pos_ids_rows [OF t(1)] in \<open>simp_all add: n(1) checkout_cols_def\<close>)
  have "pos_ids_ok p'"
    by (rule grown_ids [OF t(1) g(1), of "[so_id x]" "[Some (ck_key b)]"])
      (use n in \<open>auto simp: rows checkout_cols_def\<close>)
  moreover have "sale_ok (shop p') y" if y: "y \<in> set (sales_orders (shop p'))" "pos_sale y" for y
  proof -
    have nr: "\<forall>z \<in> set (x # xs). so_type z \<noteq> OT_refund" using g(2) n(2) body_type_cases [OF assms(2)] by auto
    from y g(1) consider "y \<in> set (sales_orders (shop p))" | "y = x" | "y \<in> set xs" by (auto simp: grown_def Let_def)
    then show ?thesis
    proof cases
      case 1
      then show ?thesis using sale_ok_kept [OF t(1) g(1) nr 1] t(3) y(2) by simp
    next
      case 2
      then show ?thesis using new_sale_ok [OF x(1) t(1) assms(2)] y(2) by simp
    next
      case 3
      then show ?thesis using g(2) y(2) by (simp add: pos_sale_def)
    qed
  qed
  ultimately show ?thesis using x(2) by (simp add: till_ok_def)
qed

section \<open>A refund keeps the invariant\<close>

definition marked :: "bool \<Rightarrow> int \<Rightarrow> int \<Rightarrow> so_row \<Rightarrow> so_row" where
  "marked full so memo x = (if full \<and> so_id x = so then x\<lparr>so_refund := Some memo, so_state := SO_REFUNDED\<rparr> else x)"

lemma booked_refund_tables:
  assumes "booked_refund b h sale rs full x j p p'"
  obtains ls a d where "extends [x] ls [] (shop p) d"
    "\<forall>l \<in> set ls. sol_so l = so_id x" "\<forall>i. total (\<lambda>l. sol_item l = i) sol_shipped ls = - item_sum i rs"
    "\<forall>i. total (\<lambda>l. sol_item l = i) sol_alloc ls = 0"
    "sales_orders (shop p') = (if full then upd (\<lambda>y. so_id y = so_id sale)
       (\<lambda>y. y\<lparr>so_refund := Some (so_id x), so_state := SO_REFUNDED\<rparr>) (sales_orders d) else sales_orders d)"
    "items (shop p') = items d" "bins (shop p') = bins d" "warehouses (shop p') = warehouses d"
    "so_lines (shop p') = so_lines d" "audit_log (shop p') = audit_log d @ [a]" "au_action a = ''POS_REFUND''"
    "now (shop p') = now d"
  using assms unfolding booked_refund_def by (elim conjE exE) (rule that)

lemma booked_refund_basic:
  assumes "booked_refund b h sale rs full x j p p'"
  shows "so_id x = seqs (shop p) Seq_so \<and> so_source x = ''pos'' \<and> so_type x = OT_refund \<and> so_parent x = Some (so_id sale)
      \<and> so_state x = SO_SHIPPED \<and> so_refund x = None"
    and "\<forall>i. stock (shop p') i = stock (shop p) i + item_sum i rs" "\<forall>i. committed (shop p') i = committed (shop p) i"
    and "seqs (shop p') Seq_so = so_id x + 1" "\<forall>c \<in> set (pos_rows p). pc_key c \<noteq> Some (rf_key b)"
    and "pos_rows p' = upd (\<lambda>c. pc_so c = so_id x) (\<lambda>c. c\<lparr>pc_response := Some j\<rparr>)
             ((if full then upd (\<lambda>c. pc_so c = so_id sale) (\<lambda>c. c\<lparr>pc_refunded := Some (now (shop p))\<rparr>) else id)
               (pos_rows p @ [refund_cols b h (so_id x) (now (shop p))]))"
    and "map (\<lambda>v. (inv_id v, on_hand v)) (inventory (shop p'))
            = map (\<lambda>v. (inv_id v, on_hand v + total (\<lambda>r. first_id r (shop p) = Some (inv_id v)) rs_qty rs)) (inventory (shop p))"
    and "mint_child_so_number (so_id sale) (so_number sale) OT_refund (shop p) = Some (so_number x)"
    and "j = refund_answer (so_number x) (so_number sale) full"
  using assms unfolding booked_refund_def by (elim conjE exE, simp only: HOL.simp_thms)+

lemma booked_refund_grown:
  assumes "booked_refund b h sale rs full x j p p'" "pos_ids_ok p" "sale \<in> set (sales_orders (shop p))"
  obtains ls where "grown (marked full (so_id sale) (so_id x)) [x] ls (shop p) (shop p')"
    "\<forall>l \<in> set ls. sol_so l = so_id x" "\<forall>i. total (\<lambda>l. sol_item l = i) sol_shipped ls = - item_sum i rs"
    "\<forall>i. total (\<lambda>l. sol_item l = i) sol_alloc ls = 0"
proof -
  note n = booked_refund_basic(1,4) [OF assms(1)]
  have o: "so_id sale < seqs (shop p) Seq_so" using assms(2,3) by (auto simp: pos_ids_ok_def Let_def)
  obtain ls a d where t: "extends [x] ls [] (shop p) d"
    "\<forall>l \<in> set ls. sol_so l = so_id x" "\<forall>i. total (\<lambda>l. sol_item l = i) sol_shipped ls = - item_sum i rs"
    "\<forall>i. total (\<lambda>l. sol_item l = i) sol_alloc ls = 0"
    "sales_orders (shop p') = (if full then upd (\<lambda>y. so_id y = so_id sale)
       (\<lambda>y. y\<lparr>so_refund := Some (so_id x), so_state := SO_REFUNDED\<rparr>) (sales_orders d) else sales_orders d)"
    "items (shop p') = items d" "bins (shop p') = bins d" "warehouses (shop p') = warehouses d"
    "so_lines (shop p') = so_lines d" "audit_log (shop p') = audit_log d @ [a]" "au_action a = ''POS_REFUND''"
    by (rule booked_refund_tables [OF assms(1)])
  have orders: "sales_orders (shop p') = map (marked full (so_id sale) (so_id x)) (sales_orders (shop p)) @ [x]"
  proof (cases full)
    case True
    then show ?thesis using t(1) n(1) o by (simp add: t(5) extends_def upd_def marked_def)
  next
    case False
    have "marked False so m = id" for so m by (rule ext) (simp add: marked_def)
    with False t(1) show ?thesis by (simp add: t(5) extends_def)
  qed
  have "grown (marked full (so_id sale) (so_id x)) [x] ls (shop p) (shop p')"
    unfolding grown_def Let_def using t n o orders by (auto simp: extends_def marked_def)
  with that t(2-4) show thesis by blast
qed

lemma resolve_qty:
  "(\<And>s w n q. (s, w, n, q) \<in> set ps \<Longrightarrow> c \<le> q) \<Longrightarrow> \<forall>r \<in> set (resolve_places ps d). c \<le> rs_qty r"
proof
  fix r
  assume le: "\<And>s w n q. (s, w, n, q) \<in> set ps \<Longrightarrow> c \<le> q" and "r \<in> set (resolve_places ps d)"
  then obtain n pl where pl: "(n, pl) \<in> set (zip [0..<length ps] ps)" "r = resolve_place d n pl"
    by (auto simp: resolve_places_def)
  then show "c \<le> rs_qty r"
    using le set_zip_rightD [OF pl(1)] by (cases pl) (auto simp: resolve_place_def Let_def)
qed

lemma refund_places:
  assumes "refund_lines b sold d = Inr rs" "refund_ok b" "\<forall>r \<in> set sold. 0 \<le> rs_qty r"
  shows "\<forall>r \<in> set rs. 0 \<le> rs_qty r"
proof (cases "rf_lines b")
  case None
  with assms show ?thesis by (simp add: refund_lines_def)
next
  case (Some ps)
  with assms(1) have "rs = resolve_places ps d" by (auto simp: refund_lines_def Let_def split: if_splits)
  moreover have "\<forall>r \<in> set (resolve_places ps d). 1 \<le> rs_qty r"
    by (rule resolve_qty) (use assms(2) Some in \<open>auto simp: refund_ok_def\<close>)
  ultimately show ?thesis by force
qed

text \<open>What the refund reads from the audit row is what the sale's lines ship.\<close>

lemma sale_places_shipped:
  assumes "sale_places b x d = Inr sold" "remembered (so_id x) d"
  shows "\<forall>r \<in> set sold. 0 \<le> rs_qty r" "item_sum i sold = shipped_of (so_id x) i d"
  using assms by (auto simp: sale_places_def remembered_def Let_def split: option.splits if_splits)

lemma item_sum_other: "\<forall>r \<in> set rs. res_item r \<noteq> i \<Longrightarrow> item_sum i rs = 0"
  by (auto simp: item_sum_def intro: total_none)

lemma over_refunded_None:
  assumes "over_refunded so sold rs d = None" "\<And>i. refunded_of so i d \<le> item_sum i sold"
  shows "refunded_of so i d + item_sum i rs \<le> item_sum i sold"
  using assms item_sum_other [of rs i] by (fastforce simp: over_refunded_def find_None)

lemma refund_new_ok:
  assumes "refund_new whs h b p = Inr (j, p')" "refund_ok b" "till_ok p"
  shows "till_ok p'"
proof -
  have t: "pos_ids_ok p" "good (shop p)" "\<forall>x \<in> set (sales_orders (shop p)). pos_sale x \<longrightarrow> sale_ok (shop p) x"
    using assms(3) by (simp_all add: till_ok_def)
  obtain sale sold rs where s: "refundable_sale whs (rf_original b) (shop p) = Some sale"
    "refund_gate sale (pos_columns (so_id sale) p) (shop p) = None"
    "sale_places b sale (shop p) = Inr sold" "refund_lines b sold (shop p) = Inr rs"
    "over_refunded (so_id sale) sold rs (shop p) = None"
    "book_refund b h sale rs (fully_refunded (so_id sale) sold rs (shop p)) p = Inr (j, p')"
    by (rule refund_new_Inr [OF assms(1)])
  let ?full = "fully_refunded (so_id sale) sold rs (shop p)" and ?so = "so_id sale"
  have sale: "sale \<in> set (sales_orders (shop p))" "pos_sale sale" "so_state sale = SO_SHIPPED"
    using s(1,2) find_Some_iff_first [of _ "sales_orders (shop p)" sale]
    by (auto simp: refundable_sale_def refund_gate_def pos_sale_def split: if_splits)
  then have ok: "sale_ok (shop p) sale" using t(3) by simp
  have m: "remembered ?so (shop p)" using ok by (simp add: sale_ok_def)
  note sold = sale_places_shipped [OF s(3) m]
  from book_refund_Inr [OF s(6) t(2) refund_places [OF s(4) assms(2) sold(1)]] obtain x where
    x: "booked_refund b h sale rs ?full x j p p'" "good (shop p')" by blast
  note n = booked_refund_basic [OF x(1)]
  obtain ls where g: "grown (marked ?full ?so (so_id x)) [x] ls (shop p) (shop p')"
    "\<forall>l \<in> set ls. sol_so l = so_id x" "\<forall>i. total (\<lambda>l. sol_item l = i) sol_shipped ls = - item_sum i rs"
    by (rule booked_refund_grown [OF x(1) t(1) sale(1)])
  have old: "so_id y < seqs (shop p) Seq_so" if "y \<in> set (sales_orders (shop p))" for y
    using t(1) that by (simp add: pos_ids_ok_def Let_def)
  have ids: "pos_ids_ok p'"
  proof (rule grown_ids [OF t(1) g(1), of "[so_id x]" "[Some (rf_key b)]"])
    show "map pc_so (pos_rows p') = map pc_so (pos_rows p) @ [so_id x]"
      "map pc_key (pos_rows p') = map pc_key (pos_rows p) @ [Some (rf_key b)]"
      using n(6) by (auto simp: map_upd_same refund_cols_def)
  qed (use n(1,4,5) in auto)
  have ref: "refunded_of so i (shop p') = refunded_of so i (shop p) + (if so = ?so then item_sum i rs else 0)" for so i
  proof -
    have "total (\<lambda>l. sol_item l = i \<and> (\<exists>y \<in> set [x]. so_id y = sol_so l \<and> so_parent y = Some so \<and> so_type y = OT_refund))
        (\<lambda>l. - sol_shipped l) ls = (if so = ?so then item_sum i rs else 0)"
    proof (cases "so = ?so")
      case True
      have "total (\<lambda>l. sol_item l = i \<and> (\<exists>y \<in> set [x]. so_id y = sol_so l \<and> so_parent y = Some so \<and> so_type y = OT_refund))
          (\<lambda>l. - sol_shipped l) ls = total (\<lambda>l. sol_item l = i) (\<lambda>l. - sol_shipped l) ls"
        by (rule total_cong) (use g(2) n(1) True in auto)
      with g(3) True show ?thesis by (simp add: total_neg)
    next
      case False
      with n(1) show ?thesis by (auto intro!: total_none)
    qed
    then show ?thesis
      using grown_line_sum [OF t(1) g(1), of "\<lambda>y. so_parent y = Some so \<and> so_type y = OT_refund" "\<lambda>l. - sol_shipped l" i] g(1)
      by (simp add: refunded_line_sum grown_def Let_def)
  qed
  have "sale_ok (shop p') z" if z: "z \<in> set (sales_orders (shop p'))" "pos_sale z" for z
  proof -
    from z(1) g(1) consider "z = x" | y where "y \<in> set (sales_orders (shop p))" "z = marked ?full ?so (so_id x) y"
      by (auto simp: grown_def Let_def)
    then show ?thesis
    proof cases
      case 1
      with n(1) z(2) show ?thesis by (simp add: pos_sale_def)
    next
      case 2
      note keep = grown_old [OF t(1) g(1) old [OF 2(1)]]
      have zy: "so_id z = so_id y" using 2(2) by (simp add: marked_def)
      show ?thesis
      proof (cases "so_id y = ?so")
        case True
        have y: "y = sale" using key_inj [OF _ 2(1) sale(1) True] t(1) by (simp add: pos_ids_ok_def Let_def)
        have bound: "refunded_of ?so i (shop p) + item_sum i rs \<le> shipped_of ?so i (shop p)" for i
          using over_refunded_None [OF s(5), of i] ok by (simp add: sold(2) sale_ok_def)
        have nonneg: "0 \<le> item_sum i rs" for i
          using refund_places [OF s(4) assms(2) sold(1)] by (auto simp: item_sum_def intro: total_nonneg)
        have "refunded_of ?so i (shop p) + item_sum i rs = shipped_of ?so i (shop p)" if "?full" for i
        proof (cases "\<exists>r \<in> set sold. res_item r = i")
          case True
          with that show ?thesis by (auto simp: fully_refunded_def sold(2))
        next
          case False
          then have "shipped_of ?so i (shop p) = 0" using item_sum_other [of sold i] sold(2) [of i] by auto
          moreover have "0 \<le> refunded_of ?so i (shop p)" using ok by (simp add: sale_ok_def)
          ultimately show ?thesis using bound [of i] nonneg [of i] by simp
        qed
        moreover have "so_state z = SO_REFUNDED \<longrightarrow> ?full" using 2(2) sale(3) y by (auto simp: marked_def)
        ultimately show ?thesis
          using ok bound nonneg keep(1,3) m y zy by (auto simp: sale_ok_def ref add_nonneg_nonneg)
      next
        case False
        then have "z = y" using 2(2) by (simp add: marked_def)
        with z(2) t(3) 2(1) have "sale_ok (shop p) z" by simp
        with False show ?thesis using keep(1,3) by (simp add: sale_ok_def ref zy \<open>z = y\<close>)
      qed
    qed
  qed
  with ids x(2) show ?thesis by (simp add: till_ok_def)
qed

section \<open>Reference orders keep the invariant\<close>

lemma reference_lines_extends:
  "reference_lines so n ls d = Some (sk, d') \<Longrightarrow>
     \<exists>ks. extends [] ks [] d d' \<and> (\<forall>l \<in> set ks. sol_so l = so) \<and> inventory d' = inventory d
       \<and> (\<forall>q. q \<noteq> Seq_so_line \<longrightarrow> seqs d' q = seqs d q)"
proof (induction so n ls d arbitrary: sk rule: reference_lines.induct)
  case (1 so n d)
  then show ?case by (intro exI [of _ "[]"]) simp
next
  case (2 so n s q ls d)
  show ?case
  proof (cases "item_by_sku s d")
    case None
    with 2 show ?thesis by auto
  next
    case (Some it)
    with "2.prems" obtain i d1 where i: "insert_sol (new_sol\<lparr>sol_so := so, sol_item := item_id it, sol_ordered := q,
        sol_picked := q, sol_packed := q, sol_shipped := q, sol_number := n, sol_state := SOL_AS SO_SHIPPED\<rparr>) d = Some (i, d1)"
      and w: "reference_lines so (n + 1) ls d1 = Some (sk, d')"
      by (auto split: option.splits)
    note e = insert_sol_extends [OF i]
    from "2.IH"(2) [OF Some i refl w] obtain ks where ks: "extends [] ks [] d1 d'" "\<forall>l \<in> set ks. sol_so l = so"
      "inventory d' = inventory d1" "\<forall>q. q \<noteq> Seq_so_line \<longrightarrow> seqs d' q = seqs d1 q" by blast
    from extends_trans [OF e(1) ks(1)] ks(2-4) e(2,3) show ?thesis
      by (intro exI) (auto simp: new_sol_def)
  qed
qed

lemma reference_orders_Inr:
  assumes "reference_orders whs number customer ls p = Inr (a, p')"
  shows "p' = p \<or> (\<exists>x ks. grown id [x] ks (shop p) (shop p') \<and> so_source x = ''reference'' \<and> so_type x = OT_sale
    \<and> inventory (shop p') = inventory (shop p) \<and> seqs (shop p') Seq_inventory = seqs (shop p) Seq_inventory
    \<and> pos_rows p' = pos_rows p \<and> (\<forall>l \<in> set ks. sol_so l = so_id x))"
proof (cases "List.find (\<lambda>x. so_number x = number) (sales_orders (shop p))")
  case (Some x)
  with assms show ?thesis by (auto simp: reference_orders_def split: list.splits)
next
  case None
  let ?so = "seqs (shop p) Seq_so" and ?d0 = "snd (nextval Seq_so (shop p))"
  define u ext where "u = snd (uuid4 ?d0)" and "ext = fst (uuid4 ?d0)"
  obtain wh rest where whs: "whs = wh # rest" using assms by (cases whs) (auto simp: reference_orders_def)
  let ?x = "new_so\<lparr>so_id := ?so, so_number := number, so_barcode := Some number, so_state := SO_SHIPPED, so_wh := wh,
     so_created_by := Some ''pos'', so_shipped_at := Some (now u), so_ext := ext, so_source := ''reference'',
     so_type := OT_sale, so_columns := [''order_origin'' \<mapsto> ''Reference''], so_customer := customer\<rparr>"
  obtain sk d2 where w: "reference_lines ?so 1 ls (u\<lparr>sales_orders := sales_orders u @ [?x]\<rparr>) = Some (sk, d2)"
    and p': "p' = p\<lparr>shop := audit ''POS_REFERENCE_INGEST'' ''SO'' ?so ''pos'' wh
       (JObj [(''so_number'', JStr number), (''source'', JStr ''reference''), (''skipped_skus'', JArr (map JStr sk))]) d2\<rparr>"
    using assms None unfolding u_def ext_def whs
    by (auto simp: reference_orders_def Let_def split_beta simp del: nextval_frame(2) split: if_splits option.splits)
  have u: "items u = items (shop p)" "bins u = bins (shop p)" "warehouses u = warehouses (shop p)" "now u = now (shop p)"
    "sales_orders u = sales_orders (shop p)" "so_lines u = so_lines (shop p)" "audit_log u = audit_log (shop p)"
    "inventory u = inventory (shop p)" "seqs u = (seqs (shop p))(Seq_so := ?so + 1)"
    by (simp_all add: u_def uuid4_def)
  from reference_lines_extends [OF w] obtain ks where ks: "extends [] ks [] (u\<lparr>sales_orders := sales_orders u @ [?x]\<rparr>) d2"
    "\<forall>l \<in> set ks. sol_so l = ?so" "inventory d2 = inventory u" "\<forall>q. q \<noteq> Seq_so_line \<longrightarrow> seqs d2 q = seqs u q" by auto
  let ?j = "JObj [(''so_number'', JStr number), (''source'', JStr ''reference''), (''skipped_skus'', JArr (map JStr sk))]"
  have a: "extends [] [] [\<lparr>au_id = seqs d2 Seq_audit, au_action = ''POS_REFERENCE_INGEST'', au_entity = ''SO'', au_entity_id = ?so,
     au_user = ''pos'', au_wh = wh, au_details = Some ?j\<rparr>] d2 (audit ''POS_REFERENCE_INGEST'' ''SO'' ?so ''pos'' wh ?j d2)"
    by (rule audit_extends) simp
  have "grown id [?x] ks (shop p) (shop p')"
    unfolding grown_def Let_def using ks a by (auto simp: p' extends_def u new_so_def)
  moreover have "inventory (shop p') = inventory (shop p)" "seqs (shop p') Seq_inventory = seqs (shop p) Seq_inventory"
    "pos_rows p' = pos_rows p" using ks(3,4) by (simp_all add: p' u)
  ultimately show ?thesis using ks(2) by (intro disjI2 exI [of _ ?x] exI [of _ ks]) (simp add: new_so_def)
qed

lemma reference_orders_ok:
  assumes "reference_orders whs number customer ls p = Inr (a, p')" "till_ok p"
  shows "till_ok p'"
proof -
  have t: "pos_ids_ok p" "good (shop p)" "\<forall>x \<in> set (sales_orders (shop p)). pos_sale x \<longrightarrow> sale_ok (shop p) x"
    using assms(2) by (simp_all add: till_ok_def)
  show ?thesis
    using reference_orders_Inr [OF assms(1)]
  proof (elim disjE exE conjE)
    fix x ks assume g: "grown id [x] ks (shop p) (shop p')" "so_source x = ''reference''" "so_type x = OT_sale"
      "inventory (shop p') = inventory (shop p)" "seqs (shop p') Seq_inventory = seqs (shop p) Seq_inventory"
      "pos_rows p' = pos_rows p"
    have "pos_ids_ok p'" by (rule grown_ids [OF t(1) g(1), of "[]" "[]"]) (simp_all add: g(6))
    moreover have "sale_ok (shop p') y" if y: "y \<in> set (sales_orders (shop p'))" "pos_sale y" for y
    proof -
      have "y \<in> set (sales_orders (shop p))" using y g(1,2) by (auto simp: grown_def Let_def pos_sale_def)
      then show ?thesis using sale_ok_kept [OF t(1) g(1)] g(3) t(3) y(2) by simp
    qed
    ultimately show ?thesis using t(2) good_cong [OF g(4,5)] by (simp add: till_ok_def)
  qed (use assms(2) in simp)
qed

section \<open>Histories keep the invariant\<close>

lemma checkout_cases:
  assumes "checkout whs h b p = Inr (a, p')"
  obtains j where "cached_answer (ck_key b) h p = Some (Inr j)" "a = (j, True)" "p' = p"
  | j where "cached_answer (ck_key b) h p = None" "checkout_new whs h b p = Inr (j, p')" "a = (j, False)"
  using assms by (auto simp: checkout_def split: option.splits sum.splits)

lemma refund_cases:
  assumes "refund whs h b p = Inr (a, p')"
  obtains j where "cached_answer (rf_key b) h p = Some (Inr j)" "a = (j, True)" "p' = p"
  | j where "cached_answer (rf_key b) h p = None" "refund_new whs h b p = Inr (j, p')" "a = (j, False)"
  using assms by (auto simp: refund_def split: option.splits sum.splits)

lemma waits_ok:
  assumes "till_ok p"
  shows "till_ok (p\<lparr>shop := (shop p)\<lparr>now := t\<rparr>\<rparr>)"
proof -
  let ?d = "(shop p)\<lparr>now := t\<rparr>"
  have r: "resolve_places ps ?d = resolve_places ps (shop p)" for ps by (rule resolve_places_cong) simp_all
  have "sale_ok ?d x = sale_ok (shop p) x" for x
    by (simp add: sale_ok_def remembered_def r refunded_of_def shipped_of_def sale_details_def)
  moreover have "good ?d = good (shop p)" by (rule good_cong) simp_all
  ultimately show ?thesis using assms by (simp add: till_ok_def pos_ids_ok_def Let_def)
qed

interpretation till: step_invariant pos_step till_ok
proof
  fix p p'
  assume "till_ok p" "pos_step p p'"
  from this(2,1) show "till_ok p'"
  proof (induction rule: pos_step.induct)
    case (checks_out b whs h p a p')
    from checks_out(2) show ?case
      by (rule checkout_cases) (use checks_out checkout_new_ok in auto)
  next
    case (refunds b whs h p a p')
    from refunds(2) show ?case
      by (rule refund_cases) (use refunds refund_new_ok in auto)
  next
    case (refers ls whs number customer p a p')
    then show ?case by (simp add: reference_orders_ok)
  next
    case (waits p t)
    then show ?case by (simp add: waits_ok)
  qed
qed

section \<open>The books of the till\<close>

text \<open>What the lines of POS orders ship (a refund ships a negative quantity) and reserve.\<close>

definition till_sold :: "int \<Rightarrow> db \<Rightarrow> int" where
  "till_sold i d = line_sum (\<lambda>x. so_source x = ''pos'') sol_shipped i d"

definition till_held :: "int \<Rightarrow> db \<Rightarrow> int" where
  "till_held i d = line_sum (\<lambda>x. so_source x = ''pos'') sol_alloc i d"

definition books :: "int \<Rightarrow> db \<Rightarrow> int \<times> int" where
  "books i d = (stock d i + till_sold i d, committed d i - till_held i d)"

lemma checkout_new_books:
  assumes "checkout_new whs h b p = Inr (j, p')" "checkout_ok b" "till_ok p"
  shows "books i (shop p') = books i (shop p)"
proof -
  have t: "pos_ids_ok p" "good (shop p)" using assms(3) by (simp_all add: till_ok_def)
  from checkout_new_Inr [OF assms(1,2) t(2)] obtain x where
    x: "booked_sale b h (resolve_places (map line_place (ck_lines b)) (shop p)) x j p p'" by blast
  obtain xs ls ks where g: "grown id (x # xs) (ls @ ks) (shop p) (shop p')"
    "lines_of_sale b (so_id x) (resolve_places (map line_place (ck_lines b)) (shop p)) ls (shop p) (shop p')"
    "\<forall>l \<in> set ks. sol_so l \<noteq> so_id x \<and> sol_shipped l = 0 \<and> sol_alloc l = 0"
    by (rule booked_sale_grown [OF x t(1)])
  have src: "so_source x = ''pos''" using booked_sale_basic [OF x] by simp
  have "total (\<lambda>l. sol_item l = i \<and> (\<exists>y \<in> set (x # xs). so_id y = sol_so l \<and> so_source y = ''pos'')) f (ls @ ks)
      = total (\<lambda>l. sol_item l = i) f ls" if "\<forall>l \<in> set ks. f l = 0" for f
  proof -
    have "total (\<lambda>l. sol_item l = i \<and> (\<exists>y \<in> set (x # xs). so_id y = sol_so l \<and> so_source y = ''pos'')) f ls
        = total (\<lambda>l. sol_item l = i) f ls"
      by (rule total_cong) (use g(2) src in \<open>auto simp: lines_of_sale_def\<close>)
    moreover have "total P f ks = 0" for P by (rule total_zero) (use that in auto)
    ultimately show ?thesis by simp
  qed
  then have "till_sold i (shop p') = till_sold i (shop p) + total (\<lambda>l. sol_item l = i) sol_shipped ls"
      "till_held i (shop p') = till_held i (shop p) + total (\<lambda>l. sol_item l = i) sol_alloc ls"
    using grown_line_sum [OF t(1) g(1), of "\<lambda>x. so_source x = ''pos''"] g(3)
    by (simp_all add: till_sold_def till_held_def)
  with g(2) show ?thesis by (auto simp: books_def lines_of_sale_def)
qed

lemma refund_new_books:
  assumes "refund_new whs h b p = Inr (j, p')" "refund_ok b" "till_ok p"
  shows "books i (shop p') = books i (shop p)"
proof -
  have t: "pos_ids_ok p" "good (shop p)" "\<forall>x \<in> set (sales_orders (shop p)). pos_sale x \<longrightarrow> sale_ok (shop p) x"
    using assms(3) by (simp_all add: till_ok_def)
  obtain sale sold rs where s: "refundable_sale whs (rf_original b) (shop p) = Some sale"
    "refund_gate sale (pos_columns (so_id sale) p) (shop p) = None"
    "sale_places b sale (shop p) = Inr sold" "refund_lines b sold (shop p) = Inr rs"
    "book_refund b h sale rs (fully_refunded (so_id sale) sold rs (shop p)) p = Inr (j, p')"
    by (rule refund_new_Inr [OF assms(1)])
  let ?full = "fully_refunded (so_id sale) sold rs (shop p)"
  have sale: "sale \<in> set (sales_orders (shop p))" "pos_sale sale"
    using s(1,2) find_Some_iff_first [of _ "sales_orders (shop p)" sale]
    by (auto simp: refundable_sale_def refund_gate_def pos_sale_def split: if_splits)
  then have "remembered (so_id sale) (shop p)" using t(3) by (simp add: sale_ok_def)
  from book_refund_Inr [OF s(5) t(2) refund_places [OF s(4) assms(2) sale_places_shipped(1) [OF s(3) this]]] obtain x where
    x: "booked_refund b h sale rs ?full x j p p'" by blast
  note n = booked_refund_basic [OF x]
  obtain ls where g: "grown (marked ?full (so_id sale) (so_id x)) [x] ls (shop p) (shop p')"
    "\<forall>l \<in> set ls. sol_so l = so_id x" "\<forall>i. total (\<lambda>l. sol_item l = i) sol_shipped ls = - item_sum i rs"
    "\<forall>i. total (\<lambda>l. sol_item l = i) sol_alloc ls = 0"
    by (rule booked_refund_grown [OF x t(1) sale(1)])
  have "total (\<lambda>l. sol_item l = i \<and> (\<exists>y \<in> set [x]. so_id y = sol_so l \<and> so_source y = ''pos'')) f ls
      = total (\<lambda>l. sol_item l = i) f ls" for f
    by (rule total_cong) (use g(2) n(1) in auto)
  moreover have "so_source (marked ?full (so_id sale) (so_id x) y) = so_source y" for y
    by (simp add: marked_def)
  ultimately have "till_sold i (shop p') = till_sold i (shop p) - item_sum i rs" "till_held i (shop p') = till_held i (shop p)"
    using grown_line_sum [OF t(1) g(1), of "\<lambda>x. so_source x = ''pos''"] g(3,4)
    by (simp_all add: till_sold_def till_held_def)
  with n(2,3) show ?thesis by (simp add: books_def)
qed

lemma reference_orders_books:
  assumes "reference_orders whs number customer ls p = Inr (a, p')" "till_ok p"
  shows "books i (shop p') = books i (shop p)"
  using reference_orders_Inr [OF assms(1)]
proof (elim disjE exE conjE)
  fix x ks assume g: "grown id [x] ks (shop p) (shop p')" "so_source x = ''reference''" "inventory (shop p') = inventory (shop p)"
  have "line_sum (\<lambda>x. so_source x = ''pos'') f i (shop p') = line_sum (\<lambda>x. so_source x = ''pos'') f i (shop p)" for f
    using grown_line_sum [OF _ g(1), of "\<lambda>x. so_source x = ''pos''" f i] assms(2) g(2)
    by (simp add: till_ok_def total_none)
  then show ?thesis using g(3) by (simp add: books_def till_sold_def till_held_def stock_def committed_def)
qed simp

lemma pos_step_books:
  assumes "pos_step p p'" "till_ok p"
  shows "books i (shop p') = books i (shop p)"
  using assms
proof (induction rule: pos_step.induct)
  case (checks_out b whs h p a p')
  from checks_out(2) show ?case
    by (rule checkout_cases) (use checks_out checkout_new_books in auto)
next
  case (refunds b whs h p a p')
  from refunds(2) show ?case
    by (rule refund_cases) (use refunds refund_new_books in auto)
next
  case (refers ls whs number customer p a p')
  then show ?case by (simp add: reference_orders_books)
next
  case (waits p t)
  then show ?case by (simp add: books_def till_sold_def till_held_def line_sum_def stock_def committed_def)
qed

lemma history_books:
  assumes "pos_step\<^sup>*\<^sup>* p p'" "till_ok p"
  shows "books i (shop p') = books i (shop p)"
  using assms(1)
proof (induction rule: rtranclp_induct)
  case base
  then show ?case by simp
next
  case (step q r)
  then show ?case using pos_step_books [OF step(2)] till.reachable [OF step(1) assms(2)] by simp
qed

end
