(* ===== verification/PosLife.thy ===== *)
theory PosLife
  imports PosTill
begin

text \<open>
  What customers and cashiers can rely on at the point of sale: balanced books, bounded refunds,
  one order per key, a refund that undoes its sale, and a cart check that keeps its word; with the
  cases where the code says one thing and does another.
\<close>

section \<open>Books and refunds\<close>

text \<open>
  Claim C12. The till's books balance: along any history of checkouts, refunds and reference orders, the
  stock of an item plus everything POS orders shipped of it, refunds counting negative, never changes; its
  reservations move exactly with what phone orders hold; and no shelf ever holds less than is reserved on it.
\<close>

theorem till_books_balance:
  assumes "till_ok p" "pos_step\<^sup>*\<^sup>* p p'"
  shows "stock (shop p') i + till_sold i (shop p') = stock (shop p) i + till_sold i (shop p)
    \<and> committed (shop p') i - till_held i (shop p') = committed (shop p) i - till_held i (shop p)
    \<and> (\<forall>r \<in> set (inventory (shop p')). 0 \<le> allocated r \<and> allocated r \<le> on_hand r)"
  using history_books [OF assms(2,1), of i] till.reachable [OF assms(2,1)]
  by (simp add: books_def till_ok_def good_rows sound_row_def)

text \<open>
  Claim C11. The till never credits more than it sold: along any history of the till's own requests (checkouts,
  refunds and reference orders), the credit memos of a sale never exceed, in any item, what the lines of the
  sale shipped, however refunds are split and repeated, and a sale that reads REFUNDED has been refunded to the
  last unit. Two things are outside: goods brought back for an exchange are not credit memos and do not count
  against a later refund (\<^verbatim>\<open>exchanged_goods_refunded\<close>), and once the warehouse's shipping requests join the
  history, a phone order shipped short can be refunded above what its lines shipped
  (\<^verbatim>\<open>unshipped_goods_refunded\<close>).
\<close>

theorem refunds_never_exceed_sale:
  assumes "till_ok p" "pos_step\<^sup>*\<^sup>* p p'" "x \<in> set (sales_orders (shop p'))" "so_source x = ''pos''" "so_type x = OT_sale"
    and "so_state x = SO_SHIPPED \<or> so_state x = SO_REFUNDED"
  shows "0 \<le> refunded_of (so_id x) i (shop p') \<and> refunded_of (so_id x) i (shop p') \<le> shipped_of (so_id x) i (shop p')
    \<and> (so_state x = SO_REFUNDED \<longrightarrow> refunded_of (so_id x) i (shop p') = shipped_of (so_id x) i (shop p'))"
  using till.reachable [OF assms(2,1)] assms(3-6) by (auto simp: till_ok_def pos_sale_def sale_ok_def)

section \<open>One key, one order\<close>

text \<open>The key \<open>k\<close> was answered with \<open>j\<close> for a body with hash \<open>h\<close>; its order has number \<open>n\<close>.\<close>

definition answered :: "string \<Rightarrow> string \<Rightarrow> json \<Rightarrow> string \<Rightarrow> pos \<Rightarrow> bool" where
  "answered k h j n p \<longleftrightarrow>
     (\<exists>c x. key_row k p = Some c \<and> pc_hash c = Some h \<and> pc_response c = Some j
        \<and> find_so (pc_so c) (shop p) = Some x \<and> so_number x = n)"

lemma find_map_append:
  assumes "List.find P xs = Some x" "\<And>y. P (g y) = P y"
  shows "List.find P (map g xs @ ys) = Some (g x)"
proof -
  from assms(1) have "List.find P (map g xs) = Some (g x)"
    by (induction xs) (auto simp: assms(2) split: if_splits)
  then show ?thesis by (simp add: find_append)
qed

text \<open>Operations append rows and may mark old ones; neither touches what is answered.\<close>

lemma answered_kept:
  assumes "answered k h j n p" "pos_rows p' = map g (pos_rows p) @ cs" "sales_orders (shop p') = map f (sales_orders (shop p)) @ xs"
    and "\<And>c. pc_key (g c) = pc_key c \<and> pc_hash (g c) = pc_hash c \<and> pc_response (g c) = pc_response c \<and> pc_so (g c) = pc_so c"
    and "\<And>x. so_id (f x) = so_id x \<and> so_number (f x) = so_number x"
  shows "answered k h j n p'"
proof -
  obtain c x where a: "key_row k p = Some c" "pc_hash c = Some h" "pc_response c = Some j"
    "find_so (pc_so c) (shop p) = Some x" "so_number x = n"
    using assms(1) by (auto simp: answered_def)
  have "key_row k p' = Some (g c)"
    using a(1) assms(2,4) by (simp add: key_row_def find_map_append)
  moreover have "find_so (pc_so (g c)) (shop p') = Some (f x)"
    using a(4) assms(3,4,5) by (simp add: find_so_def find_map_append)
  ultimately show ?thesis using a assms(4,5) by (simp add: answered_def)
qed

lemma answered_cached:
  "answered k h j n p \<Longrightarrow>
     cached_answer k h' p = Some (if h' = h then Inr j else Inl (PE_key_reused n))"
  by (auto simp: answered_def cached_answer_def number_of_def)

lemma filter_distinct_key:
  "distinct (map k xs) \<Longrightarrow> c \<in> set xs \<Longrightarrow> k c = v \<Longrightarrow> filter (\<lambda>c. k c = v) xs = [c]"
proof (induction xs)
  case (Cons x xs)
  show ?case
  proof (cases "x = c")
    case True
    with Cons.prems have "filter (\<lambda>c. k c = v) xs = []" by (auto simp: filter_empty_conv image_iff)
    with True Cons.prems show ?thesis by simp
  next
    case False
    with Cons show ?thesis by force
  qed
qed simp

lemma refund_new_booked:
  assumes "refund_new whs h b p = Inr (j, p')" "refund_ok b" "till_ok p"
  obtains sale x full rs where "booked_refund b h sale rs full x j p p'" "sale \<in> set (sales_orders (shop p))"
proof -
  have t: "good (shop p)" "\<forall>x \<in> set (sales_orders (shop p)). pos_sale x \<longrightarrow> sale_ok (shop p) x"
    using assms(3) by (simp_all add: till_ok_def)
  obtain sale sold rs where s: "refundable_sale whs (rf_original b) (shop p) = Some sale"
    "refund_gate sale (pos_columns (so_id sale) p) (shop p) = None"
    "sale_places b sale (shop p) = Inr sold" "refund_lines b sold (shop p) = Inr rs"
    "book_refund b h sale rs (fully_refunded (so_id sale) sold rs (shop p)) p = Inr (j, p')"
    by (rule refund_new_Inr [OF assms(1)])
  have sale: "sale \<in> set (sales_orders (shop p))" "pos_sale sale"
    using s(1,2) find_Some_iff_first [of _ "sales_orders (shop p)" sale]
    by (auto simp: refundable_sale_def refund_gate_def pos_sale_def split: if_splits)
  then have "remembered (so_id sale) (shop p)" using t(2) by (simp add: sale_ok_def)
  from book_refund_Inr [OF s(5) t(1) refund_places [OF s(4) assms(2) sale_places_shipped(1) [OF s(3) this]]]
  show thesis using that sale(1) by blast
qed

lemma new_sale_rows:
  assumes "booked_sale b h rs x j p p'" "pos_ids_ok p"
  shows "pos_rows p' = pos_rows p @ [(checkout_cols b h (so_id x) (now (shop p)))\<lparr>pc_response := Some j\<rparr>]"
  unfolding booked_sale_basic(4) [OF assms(1)]
  by (rule new_columns) (use pos_ids_rows [OF assms(2)] booked_sale_basic(1) [OF assms(1)] in \<open>simp_all add: checkout_cols_def\<close>)

lemma checkout_new_answered:
  assumes "checkout_new whs h b p = Inr (j, p')" "checkout_ok b" "till_ok p"
  shows "answered k h' j' n p \<Longrightarrow> answered k h' j' n p'"
    and "\<exists>n. j = checkout_answer n \<and> answered (ck_key b) h j n p'"
proof -
  have t: "pos_ids_ok p" "good (shop p)" using assms(3) by (simp_all add: till_ok_def)
  from checkout_new_Inr [OF assms(1,2) t(2)] obtain x where
    x: "booked_sale b h (resolve_places (map line_place (ck_lines b)) (shop p)) x j p p'" by blast
  note rows = new_sale_rows [OF x t(1)] and n = booked_sale_basic [OF x]
  obtain xs ls ks where g: "grown id (x # xs) (ls @ ks) (shop p) (shop p')" by (rule booked_sale_grown [OF x t(1)])
  then have so: "sales_orders (shop p') = map id (sales_orders (shop p)) @ x # xs" by (simp add: grown_def Let_def)
  show "answered k h' j' n p \<Longrightarrow> answered k h' j' n p'"
    by (rule answered_kept [where g = id, OF _ _ so]) (simp_all add: rows)
  have "key_row (ck_key b) p = None" using n(5) by (auto simp: key_row_def find_None)
  then have "key_row (ck_key b) p' = Some ((checkout_cols b h (so_id x) (now (shop p)))\<lparr>pc_response := Some j\<rparr>)"
    by (simp add: key_row_def rows find_append checkout_cols_def)
  moreover have "List.find (\<lambda>y. so_id y = so_id x) (sales_orders (shop p)) = None"
    using t(1) n(1) by (force simp: find_None pos_ids_ok_def Let_def)
  then have "find_so (so_id x) (shop p') = Some x" by (simp add: find_so_def so find_append)
  ultimately show "\<exists>n. j = checkout_answer n \<and> answered (ck_key b) h j n p'"
    using n(10) by (auto simp: answered_def checkout_cols_def)
qed

lemma refund_new_answered:
  assumes "refund_new whs h b p = Inr (j, p')" "refund_ok b" "till_ok p" "answered k h' j' n p"
  shows "answered k h' j' n p'"
proof -
  have t: "pos_ids_ok p" "good (shop p)" "\<forall>x \<in> set (sales_orders (shop p)). pos_sale x \<longrightarrow> sale_ok (shop p) x"
    using assms(3) by (simp_all add: till_ok_def)
  obtain sale x full rs where x: "booked_refund b h sale rs full x j p p'" "sale \<in> set (sales_orders (shop p))"
    by (rule refund_new_booked [OF assms(1-3)])
  note n = booked_refund_basic [OF x(1)]
  obtain ls where g: "grown (marked full (so_id sale) (so_id x)) [x] ls (shop p) (shop p')"
    by (rule booked_refund_grown [OF x(1) t(1) x(2)])
  let ?f = "marked full (so_id sale) (so_id x)"
  let ?m = "\<lambda>c. if full \<and> pc_so c = so_id sale then c\<lparr>pc_refunded := Some (now (shop p))\<rparr> else c"
  have so: "sales_orders (shop p') = map ?f (sales_orders (shop p)) @ [x]"
    using g by (simp add: grown_def Let_def)
  have new: "pc_so c \<noteq> so_id x" if "c \<in> set (pos_rows p)" for c
    using pos_ids_rows [OF t(1)] that n(1) by force
  have "pos_rows p' = upd (\<lambda>c. pc_so c = so_id x) (\<lambda>c. c\<lparr>pc_response := Some j\<rparr>)
      (map ?m (pos_rows p @ [refund_cols b h (so_id x) (now (shop p))]))"
    using n(6) by (cases full) (simp_all add: upd_def)
  also have "\<dots> = map ?m (pos_rows p) @ upd (\<lambda>c. pc_so c = so_id x) (\<lambda>c. c\<lparr>pc_response := Some j\<rparr>)
      [?m (refund_cols b h (so_id x) (now (shop p)))]"
    using new by (auto simp: upd_def)
  finally show ?thesis
    by (rule answered_kept [OF assms(4) _ so]) (simp_all add: marked_def)
qed

lemma pos_step_answered:
  assumes "pos_step p p'" "till_ok p" "answered k h' j' n p"
  shows "answered k h' j' n p'"
  using assms
proof (induction rule: pos_step.induct)
  case (checks_out b whs h p a p')
  from checks_out(2) show ?case
    by (rule checkout_cases) (use checks_out checkout_new_answered(1) in auto)
next
  case (refunds b whs h p a p')
  from refunds(2) show ?case
    by (rule refund_cases) (use refunds refund_new_answered in auto)
next
  case (refers ls whs number customer p a p')
  from reference_orders_Inr [OF refers(2)] refers(4) show ?case
    by (auto simp: grown_def Let_def intro: answered_kept [where f = id and g = id])
next
  case (waits p t)
  then show ?case by (simp add: answered_def key_row_def find_so_def)
qed

lemma history_answered:
  assumes "pos_step\<^sup>*\<^sup>* p p'" "till_ok p" "answered k h' j' n p"
  shows "answered k h' j' n p'"
  using assms(1)
proof (induction rule: rtranclp_induct)
  case base
  then show ?case using assms(3) by simp
next
  case (step q r)
  then show ?case using pos_step_answered [OF step(2)] till.reachable [OF step(1) assms(2)] by simp
qed

text \<open>
  Claim C13. One key books one order: once a checkout with a key was booked, at any later time, after any
  other sales and refunds, the same request is answered with the same order and writes nothing, a request
  with this key and another body is refused naming that order, and only one order carries the key.
\<close>

theorem one_key_one_order:
  assumes "till_ok p" "checkout_ok b" "checkout whs h b p = Inr ((j, False), p1)" "pos_step\<^sup>*\<^sup>* p1 p'" "ck_key b' = ck_key b"
  shows "\<exists>n. j = checkout_answer n
    \<and> checkout whs' h b' p' = Inr ((j, True), p')
    \<and> (\<forall>h'. h' \<noteq> h \<longrightarrow> checkout whs' h' b' p' = Inl (PE_key_reused n))
    \<and> length (filter (\<lambda>c. pc_key c = Some (ck_key b)) (pos_rows p')) = 1"
proof -
  have new: "checkout_new whs h b p = Inr (j, p1)"
    using assms(3) by (rule checkout_cases) auto
  note t1 = checkout_new_ok [OF new assms(2,1)]
  from checkout_new_answered(2) [OF new assms(2,1)] obtain n where
    n: "j = checkout_answer n" "answered (ck_key b) h j n p1" by blast
  have a: "answered (ck_key b) h j n p'" by (rule history_answered [OF assms(4) t1 n(2)])
  then obtain c where c: "c \<in> set (pos_rows p')" "pc_key c = Some (ck_key b)"
    by (auto simp: answered_def key_row_def dest: find_Some_iff_first)
  have "distinct (map pc_key (pos_rows p'))"
    using till.reachable [OF assms(4) t1] by (simp add: till_ok_def pos_ids_ok_def Let_def)
  then have "filter (\<lambda>c. pc_key c = Some (ck_key b)) (pos_rows p') = [c]"
    by (rule filter_distinct_key) (use c in auto)
  with n(1) answered_cached [OF a] show ?thesis
    by (intro exI [of _ n]) (simp add: checkout_def assms(5))
qed

section \<open>A refund undoes its sale\<close>

text \<open>What a successful checkout of goods from the shelf tells of its places.\<close>

lemma checkout_new_places:
  assumes "checkout_new whs h b p = Inr (j, p')" "checkout_ok b" "\<not> ck_backorder b"
  defines "rs \<equiv> resolve_places (map line_place (ck_lines b)) (shop p)"
  shows "\<forall>r \<in> set rs. rs_item r \<noteq> None \<and> rs_wh r \<noteq> None \<and> rs_bin r \<noteq> None" "res_wh (hd rs) \<in> set whs"
proof -
  have none: "out_of_scope whs (ck_lines b) (shop p) = None" "List.find (unresolved (ck_backorder b) p) rs = None"
    using assms(1) unfolding rs_def by (auto simp: checkout_new_def Let_def split: option.splits)
  then show all: "\<forall>r \<in> set rs. rs_item r \<noteq> None \<and> rs_wh r \<noteq> None \<and> rs_bin r \<noteq> None"
    using assms(3) by (auto simp: find_None unresolved_def split: option.splits)
  obtain l ls where ls: "ck_lines b = l # ls" using assms(2) by (cases "ck_lines b") (auto simp: checkout_ok_def)
  have hd: "hd rs = resolve_place (shop p) 0 (line_place l)" "hd rs \<in> set rs"
    by (simp_all add: rs_def ls resolve_places_def upt_conv_Cons del: upt_Suc)
  have "rs_wh (hd rs) = map_option wh_id (wh_by_code (cl_wh l) (shop p))"
    by (simp add: hd(1) resolve_place_def line_place_def Let_def)
  moreover have "rs_wh (hd rs) \<noteq> None" using all hd(2) by blast
  ultimately obtain w where w: "wh_by_code (cl_wh l) (shop p) = Some w" "res_wh (hd rs) = wh_id w"
    by (auto simp: res_wh_def)
  have "\<forall>n \<in> set [0..<length (ck_lines b)]. \<not> (case wh_by_code (cl_wh (ck_lines b ! n)) (shop p) of None \<Rightarrow> False | Some w \<Rightarrow> wh_id w \<notin> set whs)"
    using none(1) by (simp only: out_of_scope_def find_None)
  from bspec [OF this, of 0] w ls show "res_wh (hd rs) \<in> set whs" by simp
qed

text \<open>The gates a full refund passes, for an order just sold.\<close>

lemma sale_opens_refund:
  assumes "checkout_new whs h b p = Inr (j, p1)" "checkout_ok b" "till_ok p" "counter_sale b" "body_type b = OT_sale"
    and "booked_sale b h (resolve_places (map line_place (ck_lines b)) (shop p)) x j p p1"
    and "t \<le> now (shop p1) + ninety_days" "rf_lines r = None" "rf_original r = so_number x"
    and "pay_method (rf_summary r) = pay_method (ck_payment b)"
  defines "p2 \<equiv> p1\<lparr>shop := (shop p1)\<lparr>now := t\<rparr>\<rparr>" and "rs \<equiv> resolve_places (map line_place (ck_lines b)) (shop p)"
  shows "refund_new whs h' r p2 = book_refund r h' x rs True p2"
proof -
  have t: "pos_ids_ok p" using assms(3) by (simp add: till_ok_def)
  note x = assms(6) and n = booked_sale_basic [OF assms(6)]
  have nb: "\<not> ck_backorder b" "\<not> ck_phone_order b" using assms(4) by (simp_all add: counter_sale_def)
  note pl = checkout_new_places [OF assms(1,2) nb(1), folded rs_def]
  obtain xs ls ks where g: "grown id (x # xs) (ls @ ks) (shop p) (shop p1)" by (rule booked_sale_grown [OF x t])
  have so: "sales_orders (shop p2) = sales_orders (shop p) @ x # xs" using g by (simp add: grown_def Let_def p2_def)
  have wh: "so_wh x \<in> set whs" using n(15) [OF nb(1)] pl(2) by (simp add: rs_def)
  have "List.find (\<lambda>y. so_number y = so_number x \<and> so_source y = ''pos'' \<and> so_type y = OT_sale \<and> so_wh y \<in> set whs)
      (sales_orders (shop p)) = None"
    using n(3) by (auto simp: find_None)
  then have sale: "refundable_sale whs (rf_original r) (shop p2) = Some x"
    using n(2,7) wh assms(5,9) by (simp add: refundable_sale_def so find_append)
  have "List.find (\<lambda>c. pc_so c = so_id x) (pos_rows p) = None"
    using pos_ids_rows [OF t] by (auto simp: find_None n(1))
  then have "pos_columns (so_id x) p2 = Some ((checkout_cols b h (so_id x) (now (shop p)))\<lparr>pc_response := Some j\<rparr>)"
    by (simp add: pos_columns_def p2_def new_sale_rows [OF x t] find_append checkout_cols_def)
  then have gate: "refund_gate x (pos_columns (so_id x) p2) (shop p2) = None"
    using n(8,9,12) nb assms(7) by (simp add: refund_gate_def checkout_cols_def p2_def)
  obtain code where "sale_details (so_id x) (shop p1) = Some (checkout_details b (so_number x) code)"
    by (rule new_sale_details [OF x t])
  then have det: "sale_details (so_id x) (shop p2) = Some (checkout_details b (so_number x) code)"
    by (simp add: sale_details_def p2_def)
  have rsv: "resolve_places ps (shop p2) = resolve_places ps (shop p)" for ps
    using g by (intro resolve_places_cong) (simp_all add: grown_def Let_def p2_def)
  have "ck_lines b \<noteq> []" using assms(2) by (simp add: checkout_ok_def)
  then have pls: "sale_places r x (shop p2) = Inr rs"
    using pl(1) assms(10) unfolding sale_places_def det
    by (auto simp: checkout_details_back json_places_lines rsv rs_def Let_def)
  have "refunded_of (so_id x) i (shop p2) = refunded_of (so_id x) i (shop p1)" for i
    by (simp add: refunded_of_def p2_def)
  then have zero: "refunded_of (so_id x) i (shop p2) = 0" for i
    using new_sale_children(2) [OF x t] n(2) assms(5) by simp
  have "over_refunded (so_id x) rs rs (shop p2) = None" "fully_refunded (so_id x) rs rs (shop p2)"
    by (simp_all add: over_refunded_def fully_refunded_def zero find_None)
  moreover have "whs \<noteq> []" using wh by auto
  ultimately show ?thesis
    by (simp add: refund_new_def sale gate pls refund_lines_def assms(8))
qed

text \<open>With a fresh key and a fresh number the refund is booked.\<close>

lemma refund_books:
  assumes "booked_sale b h rs x j p p1" "till_ok p" "counter_sale b" "so_type x = OT_sale"
    and "\<forall>c \<in> set (pos_rows p1). pc_key c \<noteq> Some (rf_key r)"
    and "\<forall>y \<in> set (sales_orders (shop p1)). so_number y \<noteq> so_number x @ ''-REFUND''"
  shows "\<exists>j2 p3. book_refund r h' x rs True (p1\<lparr>shop := (shop p1)\<lparr>now := t\<rparr>\<rparr>) = Inr (j2, p3)"
proof -
  have t: "pos_ids_ok p" using assms(2) by (simp add: till_ok_def)
  note n = booked_sale_basic [OF assms(1)]
  let ?d0 = "snd (nextval Seq_so ((shop p1)\<lparr>now := t\<rparr>))"
  obtain xs ls ks where g: "grown id (x # xs) (ls @ ks) (shop p) (shop p1)"
    and l: "lines_of_sale b (so_id x) rs ls (shop p) (shop p1)"
    by (rule booked_sale_grown [OF assms(1) t])
  have tab: "items (shop p1) = items (shop p)" "warehouses (shop p1) = warehouses (shop p)"
    using g by (simp_all add: grown_def Let_def)
  have "children (so_id x) OT_refund ?d0 = []"
    using new_sale_children(1) [OF assms(1) t assms(4)] by (simp add: children_def)
  then have mint: "mint_child_so_number (so_id x) (so_number x) OT_refund ?d0 = Some (so_number x @ ''-REFUND'')"
    by (simp add: mint_child_so_number_def order_type_so_suffix_def)
  have "\<exists>w \<in> set (warehouses (shop p1)). wh_id w = so_wh x" using n(14) by (auto simp: tab)
  then have ins: "insert_pos_order (refund_header r x so (so_number x @ ''-REFUND'') ext) (refund_cols r h' so m)
      (p1\<lparr>shop := snd (uuid4 ?d0)\<rparr>) \<noteq> Inl e" for so ext m e
    using assms(5,6) by (simp add: insert_pos_order_def refund_header_def refund_cols_def new_so_def uuid4_def)
  have rows: "rows_of_sale rs (shop p) (shop p1)" using l assms(3) by (simp add: lines_of_sale_def)
  have walk: "\<exists>d'. credit_lines so (sort_key (\<lambda>r. (res_item r, res_bin r)) rs) d = Inr d'"
    if "inventory d = inventory (shop p1)" "items d = items (shop p1)" for d so
  proof (rule credit.walk_succeeds)
    fix q assume q: "q \<in> set (sort_key (\<lambda>r. (res_item r, res_bin r)) rs)"
    then have "first_id q (shop p1) \<noteq> None" "find_item (res_item q) (shop p1) \<noteq> None"
      using rows tab by (auto simp: rows_of_sale_def find_item_def)
    then show "\<exists>v. first_row q d = Some v \<and> True" "find_item (res_item q) d \<noteq> None"
      using that first_row_cong [OF that(1)] by (auto simp: first_id_def find_item_def)
  qed simp
  obtain p4 where p4: "insert_pos_order (refund_header r x (fst (nextval Seq_so ((shop p1)\<lparr>now := t\<rparr>))) (so_number x @ ''-REFUND'') (fst (uuid4 ?d0)))
      (refund_cols r h' (fst (nextval Seq_so ((shop p1)\<lparr>now := t\<rparr>))) (now (snd (uuid4 ?d0)))) (p1\<lparr>shop := snd (uuid4 ?d0)\<rparr>) = Inr p4"
    using ins by (meson sum.exhaust)
  have "inventory (shop p4) = inventory (shop p1)" "items (shop p4) = items (shop p1)"
    using insert_pos_order_Inr(1) [OF p4] by (simp_all add: uuid4_def)
  from walk [OF this] obtain d' where "credit_lines (fst (nextval Seq_so ((shop p1)\<lparr>now := t\<rparr>))) (sort_key (\<lambda>r. (res_item r, res_bin r)) rs) (shop p4) = Inr d'"
    by blast
  then show ?thesis using mint p4 by (simp add: book_refund_def Let_def split_beta del: nextval_frame(2))
qed

text \<open>The rows a sale lowered are the rows its refund raises.\<close>

lemma rows_restored:
  assumes "rows_of_sale rs d d1"
    and "map (\<lambda>v. (inv_id v, on_hand v)) (inventory d2) =
      map (\<lambda>v. (inv_id v, on_hand v + total (\<lambda>r. first_id r (shop (p\<lparr>shop := d1\<lparr>now := t\<rparr>\<rparr>)) = Some (inv_id v)) rs_qty rs))
        (inventory (shop (p\<lparr>shop := d1\<lparr>now := t\<rparr>\<rparr>)))"
  shows "map (\<lambda>v. (inv_id v, on_hand v)) (inventory d2) = map (\<lambda>v. (inv_id v, on_hand v)) (inventory d)"
proof -
  let ?T = "\<lambda>i. total (\<lambda>r. first_id r d = Some i) rs_qty rs"
  have "first_id r (d1\<lparr>now := t\<rparr>) = first_id r d" for r
    using assms(1) first_row_cong [of "d1\<lparr>now := t\<rparr>" d1] by (simp add: rows_of_sale_def first_id_def)
  then have "map (\<lambda>v. (inv_id v, on_hand v)) (inventory d2)
      = map (\<lambda>(i, s). (i, s + ?T i)) (map (\<lambda>v. (inv_id v, on_hand v)) (inventory d1))"
    using assms(2) by simp
  also have "map (\<lambda>v. (inv_id v, on_hand v)) (inventory d1) = map (\<lambda>v. (inv_id v, on_hand v - ?T (inv_id v))) (inventory d)"
    using assms(1) by (simp add: rows_of_sale_def)
  finally show ?thesis by simp
qed

text \<open>A sale refunded in full is found again, but its gate is shut.\<close>

lemma refunded_again:
  assumes "checkout_new whs h b p = Inr (j, p1)" "checkout_ok b" "till_ok p" "\<not> ck_backorder b" "body_type b = OT_sale"
    and "booked_sale b h (resolve_places (map line_place (ck_lines b)) (shop p)) x j p p1"
    and "sales_orders (shop p2) = map (marked True (so_id x) (so_id y)) (sales_orders (shop p1)) @ [y]"
    and "so_id y \<notin> so_id ` set (sales_orders (shop p1))"
    and "rf_original r = so_number x" "cached_answer (rf_key r) h' p2 = None"
  shows "refund whs h' r p2 = Inl (PE_already_refunded (Some (so_number y)))"
proof -
  have t: "pos_ids_ok p" using assms(3) by (simp add: till_ok_def)
  note n = booked_sale_basic [OF assms(6)]
  let ?m = "marked True (so_id x) (so_id y)"
  obtain xs ls ks where g: "grown id (x # xs) (ls @ ks) (shop p) (shop p1)" by (rule booked_sale_grown [OF assms(6) t])
  have so1: "sales_orders (shop p1) = sales_orders (shop p) @ x # xs" using g by (simp add: grown_def Let_def)
  have m: "so_number (?m z) = so_number z" "so_source (?m z) = so_source z" "so_type (?m z) = so_type z"
    "so_wh (?m z) = so_wh z" "so_id (?m z) = so_id z" for z by (simp_all add: marked_def)
  have wh: "so_wh x \<in> set whs" using n(15) [OF assms(4)] checkout_new_places(2) [OF assms(1,2,4)] by simp
  have "List.find (\<lambda>z. so_number z = so_number x \<and> so_source z = ''pos'' \<and> so_type z = OT_sale \<and> so_wh z \<in> set whs)
      (sales_orders (shop p)) = None"
    using n(3) by (auto simp: find_None)
  then have "List.find (\<lambda>z. so_number z = so_number x \<and> so_source z = ''pos'' \<and> so_type z = OT_sale \<and> so_wh z \<in> set whs)
      (sales_orders (shop p1)) = Some x"
    using n(2,7) wh assms(5) by (simp add: so1 find_append)
  then have sale: "refundable_sale whs (rf_original r) (shop p2) = Some (?m x)"
    unfolding refundable_sale_def assms(7,9) by (rule find_map_append) (simp add: m)
  have memo: "find_so (so_id y) (shop p2) = Some y"
  proof -
    have "List.find (\<lambda>z. so_id z = so_id y) (map ?m (sales_orders (shop p1))) = None"
      using assms(8) by (auto simp: find_None m) (metis imageI)
    then show ?thesis by (simp add: find_so_def assms(7) find_append)
  qed
  have "whs \<noteq> []" using wh by auto
  then have "refund_new whs h' r p2 = Inl (PE_already_refunded (Some (so_number y)))"
    by (simp add: refund_new_def sale refund_gate_def memo) (simp add: marked_def memo)
  then show ?thesis using assms(10) by (simp add: refund_def)
qed

text \<open>
  Claim C14. A refund undoes its sale: within ninety days a counter sale can be refunded in full, under the
  same tender, a fresh key and a free credit-memo number; every shelf row then holds what it held before the
  sale, the sale reads REFUNDED, and any further refund of it is refused naming the credit memo.
\<close>

theorem refund_undoes_sale:
  assumes "till_ok p" "checkout_ok b" "checkout whs h b p = Inr ((checkout_answer n, False), p1)"
    and "counter_sale b" "body_type b = OT_sale"
    and "t \<le> now (shop p1) + ninety_days" "rf_original r = n" "rf_lines r = None"
    and "pay_method (rf_summary r) = pay_method (ck_payment b)"
    and "\<forall>c \<in> set (pos_rows p1). pc_key c \<noteq> Some (rf_key r)"
    and "\<forall>y \<in> set (sales_orders (shop p1)). so_number y \<noteq> n @ ''-REFUND''"
  shows "\<exists>p2. refund whs h' r (p1\<lparr>shop := (shop p1)\<lparr>now := t\<rparr>\<rparr>) = Inr ((refund_answer (n @ ''-REFUND'') n True, False), p2)
    \<and> map (\<lambda>v. (inv_id v, on_hand v)) (inventory (shop p2)) = map (\<lambda>v. (inv_id v, on_hand v)) (inventory (shop p))
    \<and> (\<exists>x \<in> set (sales_orders (shop p2)). so_number x = n \<and> so_state x = SO_REFUNDED)
    \<and> (\<forall>r'. rf_original r' = n \<and> cached_answer (rf_key r') h' p2 = None
        \<longrightarrow> refund whs h' r' p2 = Inl (PE_already_refunded (Some (n @ ''-REFUND''))))"
proof -
  let ?rs = "resolve_places (map line_place (ck_lines b)) (shop p)"
  let ?p = "p1\<lparr>shop := (shop p1)\<lparr>now := t\<rparr>\<rparr>"
  have new: "checkout_new whs h b p = Inr (checkout_answer n, p1)"
    using assms(3) by (rule checkout_cases) auto
  have t: "pos_ids_ok p" "good (shop p)" using assms(1) by (simp_all add: till_ok_def)
  have t1: "till_ok ?p" by (rule waits_ok [OF checkout_new_ok [OF new assms(2,1)]])
  then have g1: "pos_ids_ok ?p" "good (shop ?p)" by (simp_all add: till_ok_def)
  from checkout_new_Inr [OF new assms(2) t(2)] obtain x where x: "booked_sale b h ?rs x (checkout_answer n) p p1" by blast
  note n = booked_sale_basic [OF x]
  have num: "so_number x = n" using n(10) by (simp add: checkout_answer_def)
  have ty: "so_type x = OT_sale" using n(2) assms(5) by simp
  have opens: "refund_new whs h' r ?p = book_refund r h' x ?rs True ?p"
    by (rule sale_opens_refund [OF new assms(2,1,4,5) x assms(6,8) _ assms(9)]) (simp add: assms(7) num)
  from refund_books [OF x assms(1,4) ty assms(10)] assms(11) num obtain j2 p2 where
    booked: "book_refund r h' x ?rs True ?p = Inr (j2, p2)" by blast
  have q: "\<forall>r \<in> set ?rs. 0 \<le> rs_qty r" using checkout_places [OF assms(2)] by force
  from book_refund_Inr [OF booked g1(2) q] obtain y where y: "booked_refund r h' x ?rs True y j2 ?p p2" by blast
  note m = booked_refund_basic [OF y]
  have "children (so_id x) OT_refund (shop ?p) = []"
    using new_sale_children(1) [OF x t(1) ty] by (simp add: children_def)
  then have memo: "so_number y = n @ ''-REFUND''"
    using m(8) num by (simp add: mint_child_so_number_def order_type_so_suffix_def)
  have "key_row (rf_key r) ?p = None" using assms(10) by (auto simp: key_row_def find_None)
  then have runs: "refund whs h' r ?p = Inr ((refund_answer (n @ ''-REFUND'') n True, False), p2)"
    using opens booked m(9) memo num by (simp add: refund_def cached_answer_def)
  obtain xs ls ks where g: "grown id (x # xs) (ls @ ks) (shop p) (shop p1)" "lines_of_sale b (so_id x) ?rs ls (shop p) (shop p1)"
    by (rule booked_sale_grown [OF x t(1)])
  have mem: "x \<in> set (sales_orders (shop ?p))" using g(1) by (simp add: grown_def Let_def)
  obtain ms where gm: "grown (marked True (so_id x) (so_id y)) [y] ms (shop ?p) (shop p2)"
    by (rule booked_refund_grown [OF y g1(1) mem])
  have same: "map (\<lambda>v. (inv_id v, on_hand v)) (inventory (shop p2)) = map (\<lambda>v. (inv_id v, on_hand v)) (inventory (shop p))"
    by (rule rows_restored [OF _ m(7)]) (use g(2) assms(4) in \<open>simp add: lines_of_sale_def\<close>)
  have so: "sales_orders (shop p2) = map (marked True (so_id x) (so_id y)) (sales_orders (shop p1)) @ [y]"
    using gm by (simp add: grown_def Let_def)
  have so1: "sales_orders (shop p1) = sales_orders (shop p) @ x # xs" using g(1) by (simp add: grown_def Let_def)
  have marked: "\<exists>x \<in> set (sales_orders (shop p2)). so_number x = n \<and> so_state x = SO_REFUNDED"
    by (rule bexI [of _ "marked True (so_id x) (so_id y) x"]) (simp_all add: so so1 marked_def num)
  have fresh: "so_id y \<notin> so_id ` set (sales_orders (shop p1))" "\<not> ck_backorder b"
    using g1(1) m(1) assms(4) by (auto simp: pos_ids_ok_def counter_sale_def Let_def)
  have again: "refund whs h' r' p2 = Inl (PE_already_refunded (Some (n @ ''-REFUND'')))"
    if "rf_original r' = n" "cached_answer (rf_key r') h' p2 = None" for r'
    using refunded_again [OF new assms(2,1) fresh(2) assms(5) x so fresh(1) _ that(2)] that(1) num memo by simp
  show ?thesis using runs same marked again by blast
qed

section \<open>A valid cart checks out\<close>

lemma resolve_nth:
  assumes "n < length ps"
  shows "resolve_places ps d ! n = resolve_place d n (ps ! n)" "resolve_place d n (ps ! n) \<in> set (resolve_places ps d)"
proof -
  show nth: "resolve_places ps d ! n = resolve_place d n (ps ! n)" using assms by (simp add: resolve_places_def)
  have "n < length (resolve_places ps d)" using assms by (simp add: resolve_places_def)
  from nth_mem [OF this] show "resolve_place d n (ps ! n) \<in> set (resolve_places ps d)" by (simp only: nth)
qed

text \<open>What the cart check establishes for a place.\<close>

lemma classified:
  assumes "classify_line whs p r = None"
  shows "rs_item r \<noteq> None" "rs_wh r \<noteq> None" "rs_bin r \<noteq> None" "res_wh r \<in> set whs" "\<not> unresolved bo p r"
    "rs_qty r \<le> place_available r (shop p)"
  using assms by (auto simp: classify_line_def res_wh_def unresolved_def split: option.splits if_splits)

definition place_rows :: "resolved \<Rightarrow> db \<Rightarrow> inv_row list" where
  "place_rows r d = filter (\<lambda>v. inv_item v = res_item r \<and> inv_wh v = res_wh r \<and> inv_bin v = res_bin r) (inventory d)"

lemma total_rows: "total P g t = total (\<lambda>x. True) g (filter P t)"
  by (simp add: total_def)

lemma single_lot:
  assumes "classify_line whs p r = None" "1 \<le> rs_qty r" "length (place_rows r (shop p)) \<le> 1"
  shows "\<exists>v. first_row r (shop p) = Some v \<and> rs_qty r \<le> avail v"
proof -
  note c = classified [OF assms(1)]
  have "place_available r (shop p) = total (\<lambda>x. True) avail (place_rows r (shop p))"
    unfolding place_available_def place_rows_def
    using c(1-3) by (subst total_rows) (auto simp: res_item_def res_wh_def res_bin_def intro!: arg_cong [where f = "total _ _"] filter_cong)
  moreover obtain v where "place_rows r (shop p) = [v] \<or> place_rows r (shop p) = []"
    using assms(3) by (cases "place_rows r (shop p)") auto
  ultimately have "place_rows r (shop p) = [v]" "rs_qty r \<le> avail v" using c(6) assms(2) by auto
  then show ?thesis by (simp add: first_row_def place_rows_def)
qed

lemma cart_in_scope:
  assumes "\<And>r. r \<in> set (resolve_places (map line_place ls) d) \<Longrightarrow> rs_wh r \<noteq> None \<and> res_wh r \<in> set whs"
  shows "out_of_scope whs ls d = None"
  unfolding out_of_scope_def find_None
proof
  fix n assume "n \<in> set [0..<length ls]"
  then have n: "n < length (map line_place ls)" by simp
  from assms [OF resolve_nth(2) [OF n]] n
  show "\<not> (case wh_by_code (cl_wh (ls ! n)) d of None \<Rightarrow> False | Some w \<Rightarrow> wh_id w \<notin> set whs)"
    by (auto simp: resolve_place_def line_place_def Let_def res_wh_def split: option.splits)
qed

lemma distinct_map_finer:
  assumes "distinct (map f xs)" "\<And>x y. x \<in> set xs \<Longrightarrow> y \<in> set xs \<Longrightarrow> g x = g y \<Longrightarrow> f x = f y"
  shows "distinct (map g xs)"
proof -
  have "inj_on f (set xs)" "distinct xs" using assms(1) by (simp_all add: distinct_map)
  then have "inj_on g (set xs)" by (rule_tac inj_onI) (use assms(2) in \<open>auto dest: inj_onD\<close>)
  with \<open>distinct xs\<close> show ?thesis by (simp add: distinct_map)
qed

lemma distinct_map_sort: "distinct (map f (sort_key k xs)) = distinct (map f xs)"
  by (simp add: distinct_map)

text \<open>Booking a sale whose goods are there.\<close>

lemma sale_books:
  assumes "\<not> ck_backorder b" "\<forall>c \<in> set (pos_rows p). pc_key c \<noteq> Some (ck_key b)"
    and "\<forall>y \<in> set (sales_orders (shop p)). so_number y \<noteq> number" "\<exists>w \<in> set (warehouses (shop p)). wh_id w = wh"
    and "\<And>d ph. inventory d = inventory (shop p) \<Longrightarrow> items d = items (shop p) \<Longrightarrow>
      \<exists>d'. sell_lines ph so (sort_key (\<lambda>r. (res_item r, res_bin r)) rs) d = Inr d'"
  shows "\<exists>p'. book_sale b h rs None number so wh code p = Inr (checkout_answer number, p')"
proof -
  let ?d0 = "snd (uuid4 (shop p))"
  let ?x = "checkout_header b so None number wh (fst (uuid4 (shop p))) (now ?d0)"
  obtain p1 where p1: "insert_pos_order ?x (checkout_cols b h so (now ?d0)) (p\<lparr>shop := ?d0\<rparr>) = Inr p1"
    using assms(2-4) by (simp add: insert_pos_order_def checkout_header_def checkout_cols_def new_so_def uuid4_def)
  have "inventory (shop p1) = inventory (shop p)" "items (shop p1) = items (shop p)"
    using insert_pos_order_Inr(1) [OF p1] by (simp_all add: uuid4_def)
  from assms(5) [OF this, of "ck_phone_order b"] obtain d1 where
    "sell_lines (ck_phone_order b) so (sort_key (\<lambda>r. (res_item r, res_bin r)) rs) (shop p1) = Inr d1" by blast
  then have "checkout_lines b ?x rs (shop p1) = Inr d1"
    using assms(1) by (simp add: checkout_lines_def checkout_header_def new_so_def)
  moreover have "open_return b None d1 = Inr d1" by (simp add: open_return_def)
  ultimately show ?thesis using p1 by (simp add: book_sale_def Let_def split_beta)
qed

text \<open>The lines of a valid cart, and the walk over its places.\<close>

lemma valid_cart_lines:
  assumes "validate_cart whs ps p = []" "r \<in> set (resolve_places ps (shop p))"
  shows "classify_line whs p r = None"
  using assms by (fastforce simp: validate_cart_def split: option.splits)

lemma valid_cart_walks:
  assumes "checkout_ok b" "good (shop p)" "validate_cart whs (map line_place (ck_lines b)) p = []"
    and "distinct (map (\<lambda>r. (res_item r, res_wh r, res_bin r)) (resolve_places (map line_place (ck_lines b)) (shop p)))"
    and "\<forall>r \<in> set (resolve_places (map line_place (ck_lines b)) (shop p)). length (place_rows r (shop p)) \<le> 1"
    and d: "inventory d = inventory (shop p)" "items d = items (shop p)"
  shows "\<exists>d'. sell_lines ph so (sort_key (\<lambda>r. (res_item r, res_bin r)) (resolve_places (map line_place (ck_lines b)) (shop p))) d = Inr d'"
proof -
  let ?rs = "resolve_places (map line_place (ck_lines b)) (shop p)"
  note cls = valid_cart_lines [OF assms(3)]
  have fits: "\<exists>v. first_row r (shop p) = Some v \<and> rs_qty r \<le> avail v" if "r \<in> set ?rs" for r
    using single_lot [OF cls [OF that]] checkout_places [OF assms(1)] assms(5) that by blast
  have item: "find_item (res_item r) (shop p) \<noteq> None" if "r \<in> set ?rs" for r
  proof -
    have "rs_item r \<noteq> None" by (rule classified(1) [OF cls [OF that]])
    then obtain i where i: "rs_item r = Some i" by blast
    with that have "i \<in> set (items (shop p))"
      by (auto simp: resolve_places_def resolve_place_def Let_def item_by_sku_def dest: find_Some_iff_first)
    with i show ?thesis by (auto simp: find_item_def res_item_def find_None)
  qed
  have rows: "distinct (map (\<lambda>r. first_id r (shop p)) ?rs)"
  proof (rule distinct_map_finer [OF assms(4)])
    fix q r assume q: "q \<in> set ?rs" "r \<in> set ?rs" "first_id q (shop p) = first_id r (shop p)"
    obtain v w where "first_row q (shop p) = Some v" "first_row r (shop p) = Some w" "inv_id v = inv_id w"
      using fits [OF q(1)] fits [OF q(2)] q(3) by (auto simp: first_id_def)
    with key_inj [OF good_distinct [OF assms(2)]] first_row_Some
    show "(res_item q, res_wh q, res_bin q) = (res_item r, res_wh r, res_bin r)" by metis
  qed
  show ?thesis
  proof (rule sale.walk_succeeds)
    fix r assume r: "r \<in> set (sort_key (\<lambda>r. (res_item r, res_bin r)) ?rs)"
    show "\<exists>v. first_row r d = Some v \<and> rs_qty r \<le> avail v" using fits r first_row_cong [OF d(1)] by simp
    show "find_item (res_item r) d \<noteq> None" using item r d(2) by (simp add: find_item_def)
  next
    have "first_id r d = first_id r (shop p)" for r using first_row_cong [OF d(1)] by (simp add: first_id_def)
    with rows show "distinct (map (\<lambda>r. first_id r d) (sort_key (\<lambda>r. (res_item r, res_bin r)) ?rs)) \<or> (\<forall>r v. rs_qty r \<le> avail v)"
      by (simp add: distinct_map_sort)
  qed
qed

text \<open>
  Claim C15. The cart check keeps its word: a cart with no conflict checks out as a sale with the next number,
  for the same token, when no place is named twice, every place is one row of stock, and key and number
  are unused.
\<close>

theorem valid_cart_checks_out:
  assumes "checkout_ok b" "good (shop p)" "validate_cart whs (map line_place (ck_lines b)) p = []"
    and "\<not> ck_backorder b" "body_type b = OT_sale"
    and "distinct (map (\<lambda>r. (res_item r, res_wh r, res_bin r)) (resolve_places (map line_place (ck_lines b)) (shop p)))"
    and "\<forall>r \<in> set (resolve_places (map line_place (ck_lines b)) (shop p)). length (place_rows r (shop p)) \<le> 1"
    and "\<forall>c \<in> set (pos_rows p). pc_key c \<noteq> Some (ck_key b)"
    and "\<forall>y \<in> set (sales_orders (shop p)). so_number y \<noteq> ''POS-'' @ signed_decimal (seqs (shop p) Seq_so)"
  shows "\<exists>p'. checkout whs h b p = Inr ((checkout_answer (''POS-'' @ signed_decimal (seqs (shop p) Seq_so)), False), p')"
proof -
  let ?rs = "resolve_places (map line_place (ck_lines b)) (shop p)" and ?so = "seqs (shop p) Seq_so"
  let ?n = "''POS-'' @ signed_decimal ?so" and ?d0 = "snd (nextval Seq_so (shop p))"
  note cls = valid_cart_lines [OF assms(3)]
  have "ck_lines b \<noteq> []" using assms(1) by (simp add: checkout_ok_def)
  then have hd: "hd ?rs = resolve_place (shop p) 0 (line_place (hd (ck_lines b)))" "hd ?rs \<in> set ?rs"
    using resolve_nth [of 0 "map line_place (ck_lines b)" "shop p"] by (simp_all add: hd_conv_nth resolve_places_def)
  have scope: "out_of_scope whs (ck_lines b) (shop p) = None"
    by (rule cart_in_scope) (meson classified(2,4) cls)
  have resolved: "List.find (unresolved (ck_backorder b) p) ?rs = None"
    unfolding find_None by (meson classified(5) cls)
  have whx: "\<exists>w \<in> set (warehouses (shop p)). wh_id w = res_wh (hd ?rs)"
    using classified(2) [OF cls [OF hd(2)]] unfolding hd(1)
    by (auto simp: resolve_place_def line_place_def Let_def res_wh_def wh_by_code_def dest: find_Some_iff_first)
  have walk: "\<exists>d'. sell_lines ph so (sort_key (\<lambda>r. (res_item r, res_bin r)) ?rs) d = Inr d'"
    if "inventory d = inventory (shop p)" "items d = items (shop p)" for d ph so
    using valid_cart_walks [OF assms(1,2,3,6,7) that] .
  have "\<exists>p'. book_sale b h ?rs None ?n ?so (res_wh (hd ?rs)) code (p\<lparr>shop := ?d0\<rparr>) = Inr (checkout_answer ?n, p')" for code
    by (rule sale_books) (use assms(4,8,9) whx walk in simp_all)
  then have "\<exists>p'. checkout_new whs h b p = Inr (checkout_answer ?n, p')"
    using scope resolved assms(4,5) by (simp add: checkout_new_def checkout_number_def header_warehouse_def split_beta Let_def del: nextval_frame(2))
  moreover have "key_row (ck_key b) p = None" using assms(8) by (simp add: key_row_def find_None)
  ultimately show ?thesis by (auto simp: checkout_def cached_answer_def)
qed

section \<open>Examples\<close>

text \<open>One item, ten on a shelf; a cart with two of them; requests to refund one and all.\<close>

definition demo_till :: pos where
  "demo_till = \<lparr>shop = demo_sale\<lparr>sales_orders := [], so_lines := [],
       inventory := [\<lparr>inv_id = 1, inv_item = 7, inv_bin = 1, inv_wh = 1, on_hand = 10, allocated = 0, inv_lot = None,
         inv_updated = 0, inv_counted = None\<rparr>]\<rparr>,
     pos_rows = [], retired = [], restock_code = []\<rparr>"

definition demo_payment :: payment where
  "demo_payment = \<lparr>pay_method = TM_cash, pay_shipping = 0, pay_total = 500\<rparr>"

definition demo_cart_line :: cart_line where
  "demo_cart_line = \<lparr>cl_sku = ''TST'', cl_wh = ''W1'', cl_bin = ''A1'', cl_qty = 2, cl_price = 250, cl_tax = 0, cl_total = 500\<rparr>"

definition demo_cart :: checkout_body where
  "demo_cart = \<lparr>ck_key = ''k1'', ck_txn = None, ck_cashier = ''ann'', ck_terminal = ''t'', ck_completed = 5,
     ck_payment = demo_payment, ck_lines = [demo_cart_line], ck_phone_order = False, ck_customer = None, ck_phone = None,
     ck_email = None, ck_ship_address = None, ck_origin = None, ck_address = (\<lambda>_. None), ck_method = None, ck_memo = None,
     ck_type = None, ck_parent = None, ck_returned = None, ck_backorder = False\<rparr>"

definition demo_refund :: "string \<Rightarrow> place list option \<Rightarrow> refund_body" where
  "demo_refund k ls = \<lparr>rf_key = k, rf_original = ''POS-20'', rf_original_txn = ''x'', rf_ref = ''r'', rf_cashier = ''ann'',
     rf_terminal = ''t'', rf_completed = 9, rf_summary = demo_payment, rf_lines = ls\<rparr>"

lemma booked_result:
  assumes "case r of Inr ((j, f), p) \<Rightarrow> \<not> f \<and> Q j p | _ \<Rightarrow> False"
  obtains j p where "r = Inr ((j, False), p)" "Q j p"
  using assms by (auto split: sum.splits prod.splits)

lemma demo_day:
  obtains p1 p2 where "checkout [1] ''h'' demo_cart demo_till = Inr ((checkout_answer ''POS-20'', False), p1)"
    "refund [1] ''h2'' (demo_refund ''k2'' (Some [(''TST'', ''W1'', ''A1'', 1)])) p1
      = Inr ((refund_answer ''POS-20-REFUND'' ''POS-20'' False, False), p2)"
    "stock (shop p1) 7 = 8" "stock (shop p2) 7 = 9" "now (shop p1) = 0"
    "list_all (\<lambda>c. pc_key c = Some ''k1'') (pos_rows p1)" "list_all (\<lambda>x. so_number x = ''POS-20'') (sales_orders (shop p1))"
    "list_ex (\<lambda>x. so_id x = 20 \<and> so_source x = ''pos'' \<and> so_type x = OT_sale \<and> so_state x = SO_SHIPPED) (sales_orders (shop p2))"
    "refunded_of 20 7 (shop p2) = 1" "shipped_of 20 7 (shop p2) = 2"
proof -
  let ?two = "\<lambda>p1 i p2. i = refund_answer ''POS-20-REFUND'' ''POS-20'' False \<and> stock (shop p2) 7 = 9
     \<and> list_ex (\<lambda>x. so_id x = 20 \<and> so_source x = ''pos'' \<and> so_type x = OT_sale \<and> so_state x = SO_SHIPPED) (sales_orders (shop p2))
     \<and> refunded_of 20 7 (shop p2) = 1 \<and> shipped_of 20 7 (shop p2) = 2"
  let ?one = "\<lambda>j p1. j = checkout_answer ''POS-20'' \<and> stock (shop p1) 7 = 8 \<and> now (shop p1) = 0
     \<and> list_all (\<lambda>c. pc_key c = Some ''k1'') (pos_rows p1) \<and> list_all (\<lambda>x. so_number x = ''POS-20'') (sales_orders (shop p1))
     \<and> (case refund [1] ''h2'' (demo_refund ''k2'' (Some [(''TST'', ''W1'', ''A1'', 1)])) p1 of
          Inr ((i, f), p2) \<Rightarrow> \<not> f \<and> ?two p1 i p2 | _ \<Rightarrow> False)"
  have "case checkout [1] ''h'' demo_cart demo_till of Inr ((j, f), p1) \<Rightarrow> \<not> f \<and> ?one j p1 | _ \<Rightarrow> False"
    by code_simp
  then obtain j p1 where p1: "checkout [1] ''h'' demo_cart demo_till = Inr ((j, False), p1)" "?one j p1"
    by (rule booked_result)
  then obtain i p2 where "refund [1] ''h2'' (demo_refund ''k2'' (Some [(''TST'', ''W1'', ''A1'', 1)])) p1 = Inr ((i, False), p2)"
    "?two p1 i p2"
    by (elim conjE) (rule booked_result)
  with p1 that show thesis by blast
qed

lemma demo_till_ok: "till_ok demo_till"
  by (simp add: till_ok_def pos_ids_ok_def demo_till_def demo_sale_def empty_db_def good_rows inv_wf_def sound_row_def inv_key_def)

lemma demo_checkout_ok: "checkout_ok demo_cart"
  by code_simp

lemma demo_refund_ok: "refund_ok (demo_refund k (Some [(''TST'', ''W1'', ''A1'', 1)]))"
  by (simp add: refund_ok_def demo_refund_def)

lemma demo_stock_sums: "stock (shop demo_till) 7 = 10" "till_sold 7 (shop demo_till) = 0"
  by (simp_all add: stock_def till_sold_def line_sum_def demo_till_def demo_sale_def)

theorem till_books_balance_witness:
  "\<exists>p'. pos_step\<^sup>*\<^sup>* demo_till p' \<and> stock (shop p') 7 = 9 \<and> stock (shop p') 7 + till_sold 7 (shop p') = 10"
proof -
  obtain p1 p2 where d: "checkout [1] ''h'' demo_cart demo_till = Inr ((checkout_answer ''POS-20'', False), p1)"
    "refund [1] ''h2'' (demo_refund ''k2'' (Some [(''TST'', ''W1'', ''A1'', 1)])) p1
      = Inr ((refund_answer ''POS-20-REFUND'' ''POS-20'' False, False), p2)" "stock (shop p2) 7 = 9"
    by (rule demo_day)
  have "pos_step\<^sup>*\<^sup>* demo_till p2"
    using checks_out [OF demo_checkout_ok d(1)] refunds [OF demo_refund_ok d(2)] by auto
  with till_books_balance [OF demo_till_ok this, of 7] d(3) show ?thesis by (auto simp: demo_stock_sums)
qed

theorem refunds_never_exceed_sale_witness:
  "\<exists>p' x. pos_step\<^sup>*\<^sup>* demo_till p' \<and> x \<in> set (sales_orders (shop p')) \<and> so_id x = 20 \<and> refunded_of 20 7 (shop p') = 1
    \<and> refunded_of 20 7 (shop p') \<le> shipped_of 20 7 (shop p')"
proof -
  obtain p1 p2 where d: "checkout [1] ''h'' demo_cart demo_till = Inr ((checkout_answer ''POS-20'', False), p1)"
    "refund [1] ''h2'' (demo_refund ''k2'' (Some [(''TST'', ''W1'', ''A1'', 1)])) p1
      = Inr ((refund_answer ''POS-20-REFUND'' ''POS-20'' False, False), p2)"
    "list_ex (\<lambda>x. so_id x = 20 \<and> so_source x = ''pos'' \<and> so_type x = OT_sale \<and> so_state x = SO_SHIPPED) (sales_orders (shop p2))"
    "refunded_of 20 7 (shop p2) = 1"
    by (rule demo_day)
  have s: "pos_step\<^sup>*\<^sup>* demo_till p2"
    using checks_out [OF demo_checkout_ok d(1)] refunds [OF demo_refund_ok d(2)] by auto
  obtain x where x: "x \<in> set (sales_orders (shop p2))" "so_id x = 20" "so_source x = ''pos''" "so_type x = OT_sale"
    "so_state x = SO_SHIPPED" using d(3) by (auto simp: list_ex_iff)
  from refunds_never_exceed_sale [OF demo_till_ok s x(1,3,4) disjI1 [OF x(5)], of 7] x(2)
  have "refunded_of 20 7 (shop p2) \<le> shipped_of 20 7 (shop p2)" by simp
  with s x(1,2) d(4) show ?thesis by blast
qed

theorem one_key_one_order_witness:
  "\<exists>p1 p2. checkout [1] ''h'' demo_cart demo_till = Inr ((checkout_answer ''POS-20'', False), p1) \<and> pos_step\<^sup>*\<^sup>* p1 p2
    \<and> stock (shop p2) 7 \<noteq> stock (shop p1) 7
    \<and> checkout [1] ''h'' demo_cart p2 = Inr ((checkout_answer ''POS-20'', True), p2)
    \<and> (\<exists>n. checkout [1] ''g'' demo_cart p2 = Inl (PE_key_reused n))"
proof -
  obtain p1 p2 where d: "checkout [1] ''h'' demo_cart demo_till = Inr ((checkout_answer ''POS-20'', False), p1)"
    "refund [1] ''h2'' (demo_refund ''k2'' (Some [(''TST'', ''W1'', ''A1'', 1)])) p1
      = Inr ((refund_answer ''POS-20-REFUND'' ''POS-20'' False, False), p2)" "stock (shop p1) 7 = 8" "stock (shop p2) 7 = 9"
    by (rule demo_day)
  have s: "pos_step\<^sup>*\<^sup>* p1 p2" using refunds [OF demo_refund_ok d(2)] by blast
  have "checkout [1] ''h'' demo_cart p2 = Inr ((checkout_answer ''POS-20'', True), p2)
      \<and> (\<exists>n. checkout [1] ''g'' demo_cart p2 = Inl (PE_key_reused n))"
    using one_key_one_order [OF demo_till_ok demo_checkout_ok d(1) s refl, of "[1]"] by (elim exE) (intro conjI exI, simp_all)
  with d(1,3,4) s show ?thesis by (intro exI [of _ p1] exI [of _ p2]) simp
qed

lemma demo_sale_kind: "counter_sale demo_cart" "body_type demo_cart = OT_sale"
  by (simp_all add: counter_sale_def body_type_def demo_cart_def)

theorem refund_undoes_sale_witness:
  "\<exists>p1 p2. checkout [1] ''h'' demo_cart demo_till = Inr ((checkout_answer ''POS-20'', False), p1) \<and> stock (shop p1) 7 = 8
    \<and> refund [1] ''h2'' (demo_refund ''k2'' None) (p1\<lparr>shop := (shop p1)\<lparr>now := 5000\<rparr>\<rparr>)
        = Inr ((refund_answer ''POS-20-REFUND'' ''POS-20'' True, False), p2)
    \<and> map (\<lambda>v. (inv_id v, on_hand v)) (inventory (shop p2)) = [(1, 10)]"
proof -
  obtain p1 p2 where d: "checkout [1] ''h'' demo_cart demo_till = Inr ((checkout_answer ''POS-20'', False), p1)"
    "stock (shop p1) 7 = 8" "now (shop p1) = 0" "list_all (\<lambda>c. pc_key c = Some ''k1'') (pos_rows p1)"
    "list_all (\<lambda>x. so_number x = ''POS-20'') (sales_orders (shop p1))"
    by (rule demo_day)
  have f: "5000 \<le> now (shop p1) + ninety_days" "rf_original (demo_refund ''k2'' None) = ''POS-20''" "rf_lines (demo_refund ''k2'' None) = None"
    "pay_method (rf_summary (demo_refund ''k2'' None)) = pay_method (ck_payment demo_cart)"
    "\<forall>c \<in> set (pos_rows p1). pc_key c \<noteq> Some (rf_key (demo_refund ''k2'' None))"
    "\<forall>y \<in> set (sales_orders (shop p1)). so_number y \<noteq> ''POS-20'' @ ''-REFUND''"
    using d(3-5) by (auto simp: ninety_days_def demo_refund_def demo_cart_def list_all_iff)
  have inv: "map (\<lambda>v. (inv_id v, on_hand v)) (inventory (shop demo_till)) = [(1, 10)]" by (simp add: demo_till_def)
  from refund_undoes_sale [OF demo_till_ok demo_checkout_ok d(1) demo_sale_kind f, where h' = "''h2''"] d(1,2) inv show ?thesis
    by auto
qed

theorem valid_cart_checks_out_witness:
  "validate_cart [1] [(''TST'', ''W1'', ''A1'', 2)] demo_till = []
    \<and> (\<exists>p'. checkout [1] ''h'' demo_cart demo_till = Inr ((checkout_answer ''POS-20'', False), p'))"
proof -
  have p: "map line_place (ck_lines demo_cart) = [(''TST'', ''W1'', ''A1'', 2)]" "seqs (shop demo_till) Seq_so = 20"
    by (simp_all add: demo_cart_def demo_cart_line_def line_place_def demo_till_def demo_sale_def)
  have v: "validate_cart [1] (map line_place (ck_lines demo_cart)) demo_till = []" by code_simp
  have l: "\<forall>r \<in> set (resolve_places (map line_place (ck_lines demo_cart)) (shop demo_till)). length (place_rows r (shop demo_till)) \<le> 1"
    by code_simp
  have k: "good (shop demo_till)" "\<not> ck_backorder demo_cart" "\<forall>c \<in> set (pos_rows demo_till). pc_key c \<noteq> Some (ck_key demo_cart)"
    "\<forall>y \<in> set (sales_orders (shop demo_till)). so_number y \<noteq> ''POS-'' @ signed_decimal (seqs (shop demo_till) Seq_so)"
    "distinct (map (\<lambda>r. (res_item r, res_wh r, res_bin r)) (resolve_places (map line_place (ck_lines demo_cart)) (shop demo_till)))"
    using demo_till_ok unfolding p by (simp_all add: till_ok_def demo_cart_def demo_till_def resolve_places_def)
  have n: "''POS-'' @ signed_decimal 20 = ''POS-20''" by code_simp
  from valid_cart_checks_out [OF demo_checkout_ok k(1) v k(2) demo_sale_kind(2) k(5) l k(3,4), where h = "''h''"] v show ?thesis
    unfolding p n by simp
qed

section \<open>Where the code parts from its word\<close>

text \<open>The cart check adds up all lots of a place, checkout looks at the first only.\<close>

definition two_lots :: pos where
  "two_lots = demo_till\<lparr>shop := (shop demo_till)\<lparr>inventory :=
     [\<lparr>inv_id = 1, inv_item = 7, inv_bin = 1, inv_wh = 1, on_hand = 1, allocated = 0, inv_lot = Some ''A'',
        inv_updated = 0, inv_counted = None\<rparr>,
      \<lparr>inv_id = 2, inv_item = 7, inv_bin = 1, inv_wh = 1, on_hand = 1, allocated = 0, inv_lot = Some ''B'',
        inv_updated = 0, inv_counted = None\<rparr>]\<rparr>\<rparr>"

lemma two_lots_refused:
  "validate_cart [1] (map line_place (ck_lines demo_cart)) two_lots = []
   \<and> (case checkout [1] ''h'' demo_cart two_lots of Inl (PE_short n q) \<Rightarrow> q = 1 | _ \<Rightarrow> False)"
  by code_simp

text \<open>Two lines for one place are checked one by one.\<close>

definition greedy_cart :: checkout_body where
  "greedy_cart = demo_cart\<lparr>ck_lines := [demo_cart_line\<lparr>cl_qty := 6\<rparr>, demo_cart_line\<lparr>cl_qty := 6\<rparr>]\<rparr>"

lemma same_place_twice_refused:
  "validate_cart [1] (map line_place (ck_lines greedy_cart)) demo_till = []
   \<and> (case checkout [1] ''h'' greedy_cart demo_till of Inl (PE_short n q) \<Rightarrow> q = 4 | _ \<Rightarrow> False)"
  by code_simp

text \<open>Goods brought back for an exchange do not count against a refund of the sale.\<close>

definition demo_swap :: checkout_body where
  "demo_swap = demo_cart\<lparr>ck_key := ''k3'', ck_type := Some OT_exchange, ck_parent := Some ''POS-20'',
     ck_returned := Some [(''TST'', 2)]\<rparr>"

lemma exchanged_goods_refunded:
  "case checkout [1] ''h'' demo_cart demo_till of
     Inl e \<Rightarrow> False
   | Inr (a, p1) \<Rightarrow>
       (case checkout [1] ''h3'' demo_swap p1 of
          Inl e \<Rightarrow> False
        | Inr (a, p2) \<Rightarrow>
            list_ex (\<lambda>x. so_type x = OT_return \<and> so_state x = SO_OPEN) (sales_orders (shop p2))
            \<and> (case refund [1] ''h2'' (demo_refund ''k2'' None) p2 of
                 Inl e \<Rightarrow> False | Inr ((j, f), p3) \<Rightarrow> j = refund_answer ''POS-20-REFUND'' ''POS-20'' True))"
  by code_simp

text \<open>A value that ends in a newline passes for a lookup key.\<close>

lemma newline_passes_lookup: "lookup_value_ok [CHR ''A'', CHR 0x0A]"
  by code_simp

text \<open>The refund guard reads the checkout's audit row, not the lines: a phone order of two of which one
  was shipped, as after a partial fulfilment, is refunded for two.\<close>

definition shipped_short :: "pos \<Rightarrow> pos" where
  "shipped_short p = p\<lparr>shop := (shop p)\<lparr>
     sales_orders := map (\<lambda>x. x\<lparr>so_state := SO_SHIPPED\<rparr>) (sales_orders (shop p)),
     so_lines := map (\<lambda>l. l\<lparr>sol_ordered := 1, sol_alloc := 0, sol_shipped := 1\<rparr>) (so_lines (shop p))\<rparr>\<rparr>"

lemma unshipped_goods_refunded:
  "case checkout [1] ''h'' (demo_cart\<lparr>ck_phone_order := True\<rparr>) demo_till of
     Inl e \<Rightarrow> False
   | Inr (a, p1) \<Rightarrow>
       (case refund [1] ''h2'' (demo_refund ''k2'' None) (shipped_short p1) of
          Inl e \<Rightarrow> False
        | Inr ((j, f), p2) \<Rightarrow>
            shipped_of 20 7 (shop p2) = 1 \<and> refunded_of 20 7 (shop p2) = 2)"
  by code_simp

text \<open>A backorder remembers no places, so its refund is refused whatever became of it.\<close>

definition demo_backorder :: checkout_body where
  "demo_backorder = demo_cart\<lparr>ck_lines := [demo_cart_line\<lparr>cl_wh := [], cl_bin := []\<rparr>], ck_backorder := True\<rparr>"

lemma backorder_never_refunded:
  "case checkout [1] ''h'' demo_backorder demo_till of
     Inl e \<Rightarrow> False
   | Inr (a, p1) \<Rightarrow>
       (case refund [1] ''h2'' (demo_refund ''k2'' None)
               (p1\<lparr>shop := (shop p1)\<lparr>sales_orders := map (\<lambda>x. x\<lparr>so_state := SO_SHIPPED\<rparr>) (sales_orders (shop p1))\<rparr>\<rparr>) of
          Inl e \<Rightarrow> e = PE_order_not_found | Inr _ \<Rightarrow> False)"
  by code_simp

end
