(* ===== verification/Spec2Isabelle.thy ===== *)
theory Spec2Isabelle
  imports Receiving BinMoves Allocation Dockd Backorders Counts Putaway PurchaseOrders WorkControl PosLife
begin

text \<open>
  A model of the stock-keeping core of the warehouse server under
  \<^verbatim>\<open>src/api\<close> (Python, Flask, PostgreSQL) and the properties that make it correct.

  \<^bold>\<open>The program.\<close> Every request is one database transaction: a route or service
  function reads rows, checks guards, updates rows and appends to the audit log and
  the event outbox, then commits; an exception rolls everything back. Inventory rows
  hold \<open>quantity_on_hand\<close> and \<open>quantity_allocated\<close> per item, bin and lot. Receiving adds
  stock against purchase orders and may release waiting backorders; transfer orders
  reserve stock at import and move it between warehouses on approval; picking batches
  reserve stock for sales orders, confirm or short-pick tasks, and complete or revert.
  Beside the stock stands Work Control, the layer of this fork: Pack Notes become tasks
  that employees claim, time and complete, a dispatcher shares them out, and arrivals
  are counted as drafts with photographs. It owns no stock.

  \<^bold>\<open>The model.\<close> A database is a record of tables, a table a list of row records
  (\<open>Schema\<close>), an operation a function from a database to an error or a result with the
  new database: \<open>Inl e\<close> is a rolled-back request. \<open>UPDATE \<dots> WHERE\<close> is \<open>upd\<close>,
  \<open>SUM \<dots> WHERE\<close> is \<open>total\<close> (\<open>Prelude\<close>); queries without an \<open>ORDER BY\<close> answer in
  table order. Loops are structural recursions or folds over fetched rows, so every
  operation terminates by definition and no fuel is used.

  \<^item> \<open>Prelude\<close>: table statements, the greedy walk and its locales \<open>greedy_loop\<close>,
    \<open>table_loop\<close>, and \<open>step_invariant\<close> for histories of requests.
  \<^item> \<open>Schema\<close>: rows and database; \<^verbatim>\<open>audit_service.py\<close>, \<^verbatim>\<open>events_service.py\<close>, the
    warehouse scoping of \<^verbatim>\<open>auth_middleware.py\<close>.
  \<^item> \<open>Inventory\<close>: \<^verbatim>\<open>services/inventory_service.py\<close>. Posting and moving refine a map
    from (item, bin, lot) to quantities; the backorder release opens exactly the
    satisfiable orders.
  \<^item> \<open>StockWalk\<close>: what a walk over one item's rows does to stock and reservations
    (locales \<open>stock_walk\<close>, \<open>inv_walk\<close>), and the invariant \<open>good\<close>: one row per item, bin
    and lot, with 0 <= allocated <= on hand.
  \<^item> \<open>Receiving\<close>: \<^verbatim>\<open>routes/receiving.py\<close>, \<^verbatim>\<open>services/receiving_service.py\<close>. Order lines
    balance with receipts along any history, no over-receipt while the setting forbids
    it, unreceive is complete, derived statuses agree.
  \<^item> \<open>PurchaseOrders\<close>: the purchase-order editor of \<^verbatim>\<open>routes/admin/admin_orders.py\<close>. Lines
    balance with receipts over the whole life of an order, edits included.
  \<^item> \<open>TransferOrders\<close>: \<^verbatim>\<open>services/transfer_order_service.py\<close> and
    \<^verbatim>\<open>routes/admin/admin_transfer_orders.py\<close>. Line quantities stay ordered, import reserves
    what it commits, approval carries exactly the snapshot to the destination.
  \<^item> \<open>BinMoves\<close>: \<^verbatim>\<open>routes/transfers.py\<close>.
  \<^item> \<open>Picking\<close>: \<^verbatim>\<open>services/picking_service.py\<close> and \<^verbatim>\<open>routes/picking.py\<close> for a batch at
    work: confirm, short pick, completion, revert, scanning.
  \<^item> \<open>PickBatches\<close>: the creation of batches and waves in the same service.
  \<^item> \<open>Allocation\<close>: the coverage plan is exact, a batch reserves exactly the open demand
    of its orders, and any history of picking requests keeps the stock sound.
  \<^item> \<open>Packing\<close>: \<^verbatim>\<open>routes/packing.py\<close>. Scans are bounded by what was picked, and a picked
    order without unmarked shortfalls can always be packed.
  \<^item> \<open>Shipping\<close>: \<^verbatim>\<open>services/shipping_service.py\<close>, \<^verbatim>\<open>routes/shipping.py\<close>. A ship books
    exactly what was picked, a void undoes it, the admin ship happens once.
  \<^item> \<open>Dockd\<close>: \<^verbatim>\<open>routes/dockd.py\<close>. The idempotency protocol (locale \<open>idempotent_write\<close>)
    records a ship exactly once per key for the 72 hours the key is kept (the clean-up of
    \<^verbatim>\<open>jobs/cleanup_tasks.py\<close> is a step); the shipping books balance in every history.
  \<^item> \<open>Returns\<close>, \<open>SalesOrders\<close>: \<^verbatim>\<open>services/sales_order_service.py\<close>. RMAs and their receipts;
    cancelling, reverting and picking an order from the console. What a customer's order
    holds (shelf, reservation, picked goods) is conserved along any history.
  \<^item> \<open>OrderLines\<close>, \<open>Backorders\<close>: the order editing of \<^verbatim>\<open>routes/admin/admin_orders.py\<close>:
    creation with standing reservations, line edits, the allocation stepper, partial
    fulfilment into a backorder.
  \<^item> \<open>Adjustments\<close>, \<open>Counts\<close>: \<^verbatim>\<open>routes/inventory.py\<close> and the adjustment review of
    \<^verbatim>\<open>routes/admin/admin_users.py\<close>. A count, once approved, settles its bin.
  \<^item> \<open>Putaway\<close>: \<^verbatim>\<open>routes/putaway.py\<close> and the preferred bins of
    \<^verbatim>\<open>routes/admin/admin_items.py\<close>. The bins of an item form a strict ranking; placing
    a bin is an insertion into it, deleting one takes only that bin out.

  \<^item> \<open>WorkTasks\<close>: \<^verbatim>\<open>services/work_control_service.py\<close> and the task routes of
    \<^verbatim>\<open>routes/work_control.py\<close>: claiming, transitions with their timers, the scan before a
    start; the invariant \<open>work_ok\<close> of the work tables.
  \<^item> \<open>WorkDispatch\<close>: \<^verbatim>\<open>services/work_dispatch_service.py\<close>: rates and estimates, the
    dispatcher, availability, manual assignment. A dispatch serves every task it can and
    leaves the loads balanced.
  \<^item> \<open>WorkIntake\<close>, \<open>WorkReceiving\<close>: batches, tasks and error cases; the SKU catalogue and
    its sync, receiving counts, their review and evidence.
  \<^item> \<open>WorkScans\<close>: what a verification event proves: its note names a code of the Pack
    Note its task belongs to, whatever requests come before or after the scan.
  \<^item> \<open>WorkControl\<close>: all these requests as one step relation. Four eyes on every Pack Note,
    one task per employee at a time, an exact time book, no start without a scan, no
    receipt without photographs.

  \<^item> \<open>Pos\<close>: the point of sale of \<^verbatim>\<open>routes/pos.py\<close> and \<^verbatim>\<open>schemas/pos.py\<close>: availability, order
    lookup, the cart check, checkout (counter sale, phone order, backorder, exchange with
    its return), refunds, reference orders.
  \<^item> \<open>PosTill\<close>: the invariant of the till. Checkout and refund walk over places in one
    locale, \<open>till_walk\<close>, interpreted as \<open>sale\<close> and \<open>credit\<close>; the audit row of a sale
    remembers what its lines shipped.
  \<^item> \<open>PosLife\<close>: along any history the till's books balance, refunds stay within the sale and
    one key books one order; a full refund undoes its sale; a valid cart checks out, and
    where it does not.

  \<^bold>\<open>Conventions and limits.\<close> Transactions are serialised, so row locks and advisory
  locks have no counterpart. \<open>now\<close> is the transaction's clock; texts built from clocks
  or random numbers (batch numbers, transfer numbers, UUIDs) are arguments or part of
  the database record. Request schemas (positive quantities) are hypotheses of the
  theorems or premises of the step relations. JSON-schema checks of event payloads are
  off, as they are without the environment switch. Python integers and PostgreSQL
  integers are \<open>int\<close>: range overflow raises in the database and rolls back.
  Floating-point estimates are exact rationals, texts compare by code point, and the
  application's clock is the database's; times are whole microseconds. Not modelled: the header PATCH of sales orders,
  the reports of Work Control (forecast, dispatch overview, lists) and its workload
  snapshots, rate limits and POS administration, webhooks, connectors, authentication,
  user interfaces and SQL migrations.
\<close>

end
